(* ===== verification/Base.thy ===== *)
theory Base
  imports Complex_Main "HOL-Library.List_Lexorder" "HOL-Library.Char_ord"
begin

section \<open>Prelude: Python values, strings and results\<close>

text \<open>
  The generic part of the development: the exceptions the sources raise as values of a sum
  type, the fragment of Python's string library the sources use (\<open>strip\<close>, \<open>lower\<close>,
  \<open>split\<close>, \<open>partition\<close>, \<open>int\<close>), and the lemma collections the component theories share.
  Strings are lists of code points below 256 (Latin-1), so \<open>length\<close> counts code points as
  Python does. Floats are exact reals: rounding is not modelled.
\<close>

named_theorems log_simps \<open>reading the event log after an append\<close>
named_theorems step_simps \<open>unfolding one step of a loop\<close>

subsection \<open>Exceptions as values\<close>

datatype py_error =
    ValueError string
  | TypeError
  | AttributeError
  | KeyError string
  | OSError string
  | OverflowError
  | ConfigError string

type_synonym 'a res = "py_error + 'a"

fun res_bind :: "'a res \<Rightarrow> ('a \<Rightarrow> 'b res) \<Rightarrow> 'b res" where
  "res_bind (Inl e) f = Inl e"
| "res_bind (Inr x) f = f x"

lemma res_bind_Inr_iff: "res_bind r f = Inr y \<longleftrightarrow> (\<exists>x. r = Inr x \<and> f x = Inr y)"
  by (cases r) auto

lemma res_bind_Inl_iff:
  "res_bind r f = Inl e \<longleftrightarrow> r = Inl e \<or> (\<exists>x. r = Inr x \<and> f x = Inl e)"
  by (cases r) auto

fun res_map :: "('a \<Rightarrow> 'b res) \<Rightarrow> 'a list \<Rightarrow> 'b list res" where
  "res_map f [] = Inr []"
| "res_map f (x # xs) = res_bind (f x) (\<lambda>y. res_bind (res_map f xs) (\<lambda>ys. Inr (y # ys)))"

lemma res_map_Inr_length: "res_map f xs = Inr ys \<Longrightarrow> length ys = length xs"
  by (induction xs arbitrary: ys) (auto simp: res_bind_Inr_iff)

subsection \<open>Characters and strings\<close>

definition char_code :: "char \<Rightarrow> nat" where
  "char_code c = of_char c"

definition is_digit :: "char \<Rightarrow> bool" where
  "is_digit c \<longleftrightarrow> 48 \<le> char_code c \<and> char_code c \<le> 57"

definition digit_val :: "char \<Rightarrow> int" where
  "digit_val c = int (char_code c) - 48"

definition digit_char :: "int \<Rightarrow> char" where
  "digit_char n = char_of (nat (48 + n))"

text \<open>\<open>str.isspace\<close> on Latin-1 code points.\<close>

definition is_space :: "char \<Rightarrow> bool" where
  "is_space c \<longleftrightarrow>
     (let k = char_code c in (9 \<le> k \<and> k \<le> 13) \<or> (28 \<le> k \<and> k \<le> 32) \<or> k = 133 \<or> k = 160)"

text \<open>\<open>str.lower\<close> on Latin-1 code points.\<close>

definition lower_char :: "char \<Rightarrow> char" where
  "lower_char c =
     (let k = char_code c in
      if (65 \<le> k \<and> k \<le> 90) \<or> (192 \<le> k \<and> k \<le> 222 \<and> k \<noteq> 215) then char_of (k + 32) else c)"

definition py_lower :: "string \<Rightarrow> string" where
  "py_lower s = map lower_char s"

definition py_lstrip :: "string \<Rightarrow> string" where
  "py_lstrip s = dropWhile is_space s"

definition py_strip :: "string \<Rightarrow> string" where
  "py_strip s = rev (dropWhile is_space (rev (py_lstrip s)))"

text \<open>\<open>s.split(sep)\<close> with a one-character separator: always at least one piece.\<close>

fun py_split :: "char \<Rightarrow> string \<Rightarrow> string list" where
  "py_split sep [] = [[]]"
| "py_split sep (c # cs) =
     (if c = sep then [] # py_split sep cs
      else (case py_split sep cs of [] \<Rightarrow> [[c]] | p # ps \<Rightarrow> (c # p) # ps))"

text \<open>\<open>s.partition(sep)\<close>: the text before and after the first separator.\<close>

definition py_partition :: "char \<Rightarrow> string \<Rightarrow> string \<times> string" where
  "py_partition sep s = (takeWhile (\<lambda>c. c \<noteq> sep) s, drop 1 (dropWhile (\<lambda>c. c \<noteq> sep) s))"

text \<open>\<open>s.split(None, 1)\<close>: the first word, and the rest of the text after the white space.\<close>

definition py_split_ws1 :: "string \<Rightarrow> string list" where
  "py_split_ws1 s =
     (let t = dropWhile is_space s in
      if t = [] then []
      else let w = takeWhile (\<lambda>c. \<not> is_space c) t;
               r = dropWhile is_space (dropWhile (\<lambda>c. \<not> is_space c) t)
           in if r = [] then [w] else [w, r])"

lemma py_split_not_Nil [simp]: "py_split sep s \<noteq> []"
  by (cases s) (auto split: list.splits)

lemma digit_val_digit_char: "0 \<le> n \<Longrightarrow> n \<le> 9 \<Longrightarrow> digit_val (digit_char n) = n"
  by (simp add: digit_val_def digit_char_def char_code_def)

lemma is_digit_digit_char: "0 \<le> n \<Longrightarrow> n \<le> 9 \<Longrightarrow> is_digit (digit_char n)"
  by (auto simp: is_digit_def digit_char_def char_code_def le_nat_iff nat_le_iff)

lemma is_digit_digit_val: "is_digit c \<Longrightarrow> 0 \<le> digit_val c \<and> digit_val c \<le> 9"
  by (auto simp: is_digit_def digit_val_def)

lemma digit_not_space: "is_digit c \<Longrightarrow> \<not> is_space c"
  by (auto simp: is_digit_def is_space_def Let_def)

lemma dropWhile_id_hd: "(xs \<noteq> [] \<Longrightarrow> \<not> P (hd xs)) \<Longrightarrow> dropWhile P xs = xs"
  by (cases xs) auto

text \<open>Text that neither starts nor ends with white space is its own \<open>strip\<close>.\<close>

lemma py_strip_id:
  assumes "s \<noteq> [] \<Longrightarrow> \<not> is_space (hd s)" and "s \<noteq> [] \<Longrightarrow> \<not> is_space (last s)"
  shows "py_strip s = s"
proof -
  have l: "py_lstrip s = s"
    unfolding py_lstrip_def by (rule dropWhile_id_hd) (rule assms(1))
  have "dropWhile is_space (rev s) = rev s"
    by (rule dropWhile_id_hd) (use assms(2) in \<open>simp add: hd_rev\<close>)
  then show ?thesis by (simp add: py_strip_def l)
qed

lemma py_split_ws1_one_word:
  assumes "s \<noteq> []" and "\<forall>c \<in> set s. \<not> is_space c"
  shows "py_split_ws1 s = [s]"
proof -
  have d: "dropWhile is_space s = s"
    using assms by (intro dropWhile_id_hd) simp
  have t: "takeWhile (\<lambda>c. \<not> is_space c) s = s" and r: "dropWhile (\<lambda>c. \<not> is_space c) s = []"
    using assms(2) by (simp_all add: takeWhile_eq_all_conv)
  show ?thesis using assms(1) by (simp add: py_split_ws1_def d t r)
qed

subsection \<open>Printing\<close>

text \<open>\<open>repr\<close> of a string: the quotes and escapes of \<open>str.__repr__\<close> on Latin-1 text.\<close>

definition hex_digit :: "nat \<Rightarrow> char" where
  "hex_digit n = (if n < 10 then char_of (48 + n) else char_of (87 + n))"

definition repr_char :: "char \<Rightarrow> char \<Rightarrow> string" where
  "repr_char q c =
     (let k = char_code c; bs = CHR 0x5C in
      if c = q \<or> c = bs then [bs, c]
      else if k = 9 then [bs, CHR ''t''] else if k = 10 then [bs, CHR ''n'']
      else if k = 13 then [bs, CHR ''r'']
      else if k < 32 \<or> (127 \<le> k \<and> k \<le> 160) \<or> k = 173
      then [bs, CHR ''x'', hex_digit (k div 16), hex_digit (k mod 16)]
      else [c])"

definition repr_str :: "string \<Rightarrow> string" where
  "repr_str s =
     (let sq = CHR 0x27; dq = CHR 0x22;
          q = (if sq \<in> set s \<and> dq \<notin> set s then dq else sq)
      in [q] @ concat (map (repr_char q) s) @ [q])"

text \<open>\<open>sep.join(xs)\<close>.\<close>

fun join :: "string \<Rightarrow> string list \<Rightarrow> string" where
  "join sep [] = []"
| "join sep [x] = x"
| "join sep (x # y # ys) = x @ sep @ join sep (y # ys)"

subsection \<open>First hit of a search\<close>

text \<open>\<open>next((x for x in xs if p(x)), None)\<close>.\<close>

lemma find_None_iff2: "find P xs = None \<longleftrightarrow> (\<forall>x \<in> set xs. \<not> P x)"
  by (induction xs) auto

lemma find_SomeD: "find P xs = Some x \<Longrightarrow> x \<in> set xs \<and> P x"
  by (induction xs) (auto split: if_splits)

lemma find_upt_least:
  assumes "find P [a..<b] = Some k"
  shows "a \<le> k \<and> k < b \<and> P k \<and> (\<forall>j. a \<le> j \<and> j < k \<longrightarrow> \<not> P j)"
proof -
  obtain i where i: "i < length [a..<b]" "P ([a..<b] ! i)" "k = [a..<b] ! i"
      "\<forall>j<i. \<not> P ([a..<b] ! j)"
    using assms unfolding find_Some_iff by auto
  have "\<not> P j" if "a \<le> j" "j < k" for j
    using i(4)[rule_format, of "j - a"] i(1,3) that by simp
  then show ?thesis using i by simp
qed

end
