(* ===== verification/Text_Lines.thy ===== *)
theory Text_Lines
  imports Base
begin

section \<open>Prelude: words and lines of a text\<close>

text \<open>
  The two splittings of a text the sources use beside the separator: \<open>s.split()\<close>, the words between
  white space, and \<open>s.splitlines()\<close> with and without the line ends. Joining the lines that were kept
  with their ends gives the text back.
\<close>

text \<open>\<open>s.split()\<close>: the words between white space.\<close>

fun py_words :: "string \<Rightarrow> string list" where
  "py_words [] = []"
| "py_words (c # cs) =
     (if is_space c then py_words cs
      else (case cs of
              [] \<Rightarrow> [[c]]
            | d # ds \<Rightarrow> if is_space d then [c] # py_words ds
                        else (case py_words cs of [] \<Rightarrow> [[c]] | w # ws \<Rightarrow> (c # w) # ws)))"

text \<open>The line boundaries of \<open>str.splitlines\<close> on Latin-1; a carriage return takes the line feed after it.\<close>

definition is_eol :: "char \<Rightarrow> bool" where
  "is_eol c \<longleftrightarrow>
     (let k = char_code c in (10 \<le> k \<and> k \<le> 13) \<or> (28 \<le> k \<and> k \<le> 30) \<or> k = 133)"

definition line_feed :: char where "line_feed = CHR 0x0A"

fun splitlines_keep :: "string \<Rightarrow> string list" where
  "splitlines_keep [] = []"
| "splitlines_keep [c] = [[c]]"
| "splitlines_keep (c # d # cs) =
     (if c = CHR 0x0D \<and> d = CHR 0x0A then [c, d] # splitlines_keep cs
      else if is_eol c then [c] # splitlines_keep (d # cs)
      else (case splitlines_keep (d # cs) of [] \<Rightarrow> [[c]] | l # ls \<Rightarrow> (c # l) # ls))"

definition line_body :: "string \<Rightarrow> string" where
  "line_body l = takeWhile (\<lambda>c. \<not> is_eol c) l"

definition py_splitlines :: "string \<Rightarrow> string list" where
  "py_splitlines s = map line_body (splitlines_keep s)"

lemma splitlines_keep_Nil [simp]: "splitlines_keep s = [] \<longleftrightarrow> s = []"
  by (induction s rule: splitlines_keep.induct) (auto split: list.splits)

lemma concat_splitlines [simp]: "concat (splitlines_keep s) = s"
proof (induction s rule: splitlines_keep.induct)
  case (3 c d cs)
  obtain l ls where ls: "splitlines_keep (d # cs) = l # ls"
    by (cases "splitlines_keep (d # cs)") auto
  show ?case using 3 ls by (auto simp: ls)
qed simp_all

lemma splitlines_keep_nonempty: "l \<in> set (splitlines_keep s) \<Longrightarrow> l \<noteq> []"
proof (induction s arbitrary: l rule: splitlines_keep.induct)
  case (3 c d cs)
  obtain l' ls where ls: "splitlines_keep (d # cs) = l' # ls"
    by (cases "splitlines_keep (d # cs)") auto
  show ?case using 3 ls by (auto split: if_splits)
qed simp_all

lemma py_words_step:
  "py_words (c # cs) =
     (if is_space c then py_words cs
      else if cs = [] \<or> is_space (hd cs) then [c] # py_words cs
      else (case py_words cs of [] \<Rightarrow> [[c]] | w # ws \<Rightarrow> (c # w) # ws))"
  by (cases cs) auto

lemma py_words_words: "\<forall>w \<in> set (py_words s). w \<noteq> [] \<and> (\<forall>c \<in> set w. \<not> is_space c)"
proof (induction s)
  case (Cons c cs)
  then show ?case unfolding py_words_step by (cases "py_words cs") auto
qed simp

end
