(* ===== verification/Events.thy ===== *)
theory Events
  imports Base
begin

section \<open>Events: parsed values, the kind registry and the month-sharded log\<close>

text \<open>
  Models agent\_runner/events.py and agent\_runner/event\_log.py: the value an event field can
  hold after \<open>json.loads\<close>, Python's \<open>str\<close> / truth / \<open>int\<close> on such a value, the registry of
  event kinds with its namespace rule, ISO timestamps, the append of one event to the current
  month's file and the readers of the newest files. An event is a \<open>dict\<close>, hence a map from
  field names to values. A finite float carries its \<open>str()\<close> text, a list or object carries
  its \<open>repr\<close> text only: no reader of the log looks inside one.
\<close>

subsection \<open>Field values\<close>

datatype pyval =
    PNone
  | PBool bool
  | PInt int
  | PFloat real string
  | PNan
  | PInf bool
  | PStr string
  | PCompound string

type_synonym event = "string \<rightharpoonup> pyval"

definition ev_get_or :: "event \<Rightarrow> string \<Rightarrow> pyval \<Rightarrow> pyval" where
  "ev_get_or ev k d = (case ev k of None \<Rightarrow> d | Some v \<Rightarrow> v)"

definition ev_get :: "event \<Rightarrow> string \<Rightarrow> pyval" where
  "ev_get ev k = ev_get_or ev k PNone"

definition is_kind :: "event \<Rightarrow> string \<Rightarrow> bool" where
  "is_kind ev kind \<longleftrightarrow> ev_get ev ''event'' = PStr kind"

fun py_truthy :: "pyval \<Rightarrow> bool" where
  "py_truthy PNone = False"
| "py_truthy (PBool b) = b"
| "py_truthy (PInt n) = (n \<noteq> 0)"
| "py_truthy (PFloat x r) = (x \<noteq> 0)"
| "py_truthy PNan = True"
| "py_truthy (PInf neg) = True"
| "py_truthy (PStr s) = (s \<noteq> [])"
| "py_truthy (PCompound r) = (r \<noteq> ''[]'' \<and> r \<noteq> ''{}'')"

fun nat_digits :: "nat \<Rightarrow> string" where
  "nat_digits n = (if n < 10 then [digit_char (int n)]
                   else nat_digits (n div 10) @ [digit_char (int (n mod 10))])"

declare nat_digits.simps [simp del]

definition int_digits :: "int \<Rightarrow> string" where
  "int_digits n = (if n < 0 then ''-'' @ nat_digits (nat (- n)) else nat_digits (nat n))"

fun py_str :: "pyval \<Rightarrow> string" where
  "py_str PNone = ''None''"
| "py_str (PBool b) = (if b then ''True'' else ''False'')"
| "py_str (PInt n) = int_digits n"
| "py_str (PFloat x r) = r"
| "py_str PNan = ''nan''"
| "py_str (PInf neg) = (if neg then ''-inf'' else ''inf'')"
| "py_str (PStr s) = s"
| "py_str (PCompound r) = r"

text \<open>\<open>int(x)\<close> of a finite float truncates toward zero.\<close>

definition py_trunc :: "real \<Rightarrow> int" where
  "py_trunc x = (if x \<ge> 0 then \<lfloor>x\<rfloor> else \<lceil>x\<rceil>)"

text \<open>
  \<open>int(s)\<close> of a stripped string: an optional sign, then digits with single underscores between
  them, at most 4300 digits. \<open>None\<close> is the \<open>ValueError\<close>.
\<close>

fun digit_groups_ok :: "string \<Rightarrow> bool" where
  "digit_groups_ok [] = False"
| "digit_groups_ok [c] = is_digit c"
| "digit_groups_ok (c # d # cs) =
     (if c = CHR ''_'' then False
      else is_digit c \<and> (if d = CHR ''_'' then digit_groups_ok cs else digit_groups_ok (d # cs)))"

definition digits_value :: "string \<Rightarrow> int" where
  "digits_value s = foldl (\<lambda>acc c. 10 * acc + digit_val c) 0 (filter is_digit s)"

definition py_int_of_str :: "string \<Rightarrow> int option" where
  "py_int_of_str s =
     (let neg = (s \<noteq> [] \<and> hd s = CHR ''-'');
          body = (if s \<noteq> [] \<and> (hd s = CHR ''-'' \<or> hd s = CHR ''+'') then tl s else s)
      in if digit_groups_ok body \<and> length (filter is_digit body) \<le> 4300
         then Some (if neg then - digits_value body else digits_value body) else None)"

text \<open>\<open>_throttle._coerce_int\<close>: the integer, or the default (with a warning).\<close>

fun coerce_int :: "pyval \<Rightarrow> int \<Rightarrow> int" where
  "coerce_int (PBool b) d = (if b then 1 else 0)"
| "coerce_int (PInt n) d = n"
| "coerce_int (PFloat x r) d = py_trunc x"
| "coerce_int (PStr s) d = (case py_int_of_str (py_strip s) of Some n \<Rightarrow> n | None \<Rightarrow> d)"
| "coerce_int v d = d"

text \<open>
  \<open>float(s)\<close> of a stripped string: an optional sign, then \<open>inf\<close>, \<open>infinity\<close> or \<open>nan\<close> in any case,
  or decimal digits with an optional point and exponent; an underscore only between digits. A
  value beyond the largest double is an infinity. \<open>None\<close> is the \<open>ValueError\<close>.
\<close>

datatype pyfloat = Finite real | NotANumber | Infinite bool

definition float_overflow :: int where
  "float_overflow = 2 ^ 1024 - 2 ^ 970"

fun drop_underscores :: "bool \<Rightarrow> bool \<Rightarrow> string \<Rightarrow> string option" where
  "drop_underscores digit_before underscore_before [] = (if underscore_before then None else Some [])"
| "drop_underscores digit_before underscore_before (c # cs) =
     (if c = CHR ''_'' then (if digit_before then drop_underscores False True cs else None)
      else if underscore_before \<and> \<not> is_digit c then None
      else map_option ((#) c) (drop_underscores (is_digit c) False cs))"

definition sign_split :: "string \<Rightarrow> bool \<times> string" where
  "sign_split s =
     (case s of [] \<Rightarrow> (False, [])
      | c # cs \<Rightarrow> if c = CHR ''-'' then (True, cs) else if c = CHR ''+'' then (False, cs) else (False, s))"

definition float_exponent :: "string \<Rightarrow> int option" where
  "float_exponent s =
     (case s of [] \<Rightarrow> Some 0
      | c # cs \<Rightarrow>
          if c = CHR ''e'' \<or> c = CHR ''E'' then
            (case sign_split cs of (neg, ds) \<Rightarrow>
               if ds \<noteq> [] \<and> list_all is_digit ds
               then Some (if neg then - digits_value ds else digits_value ds) else None)
          else None)"

definition float_body :: "bool \<Rightarrow> string \<Rightarrow> pyfloat option" where
  "float_body neg body =
     (let whole = takeWhile is_digit body;
          rest = dropWhile is_digit body;
          (frac, tail) = (if rest \<noteq> [] \<and> hd rest = CHR ''.''
                          then (takeWhile is_digit (tl rest), dropWhile is_digit (tl rest))
                          else ([], rest))
      in if whole = [] \<and> frac = [] then None
         else (case float_exponent tail of
                 None \<Rightarrow> None
               | Some e \<Rightarrow>
                   let x = real_of_int (digits_value (whole @ frac)) * 10 powi (e - int (length frac))
                   in Some (if x \<ge> real_of_int float_overflow then Infinite neg
                            else Finite (if neg then - x else x))))"

definition py_float_of_str :: "string \<Rightarrow> pyfloat option" where
  "py_float_of_str s =
     (case drop_underscores False False s of
        None \<Rightarrow> None
      | Some t \<Rightarrow>
          (case sign_split t of (neg, body) \<Rightarrow>
             if py_lower body = ''inf'' \<or> py_lower body = ''infinity'' then Some (Infinite neg)
             else if py_lower body = ''nan'' then Some NotANumber
             else float_body neg body))"

text \<open>
  \<open>_throttle._coerce_float\<close>: the finite float, or \<open>None\<close> for the default (with a warning). An
  integer too large for a double makes \<open>math.isfinite\<close> raise.
\<close>

definition int_to_float :: "int \<Rightarrow> real res" where
  "int_to_float n = (if \<bar>n\<bar> \<ge> float_overflow then Inl OverflowError else Inr (real_of_int n))"

fun coerce_float :: "pyval \<Rightarrow> real option res" where
  "coerce_float (PBool b) = Inr (Some (if b then 1 else 0))"
| "coerce_float (PInt n) = res_bind (int_to_float n) (\<lambda>x. Inr (Some x))"
| "coerce_float (PFloat x r) = Inr (Some x)"
| "coerce_float (PStr s) =
     Inr (case py_float_of_str (py_strip s) of Some (Finite x) \<Rightarrow> Some x | _ \<Rightarrow> None)"
| "coerce_float v = Inr None"

subsection \<open>Event kinds\<close>

abbreviation "AGENT_AUTH_ERROR_DETECTED \<equiv> ''agent_auth_error_detected''"
abbreviation "AGENT_EXIT \<equiv> ''agent_exit''"
abbreviation "AGENT_USAGE_RECORDED \<equiv> ''agent_usage_recorded''"
abbreviation "ANOMALY_REPETITIVE_TOOL \<equiv> ''anomaly_repetitive_tool''"
abbreviation "CRASH_LOOP \<equiv> ''crash_loop''"
abbreviation "STALLED_NO_PROGRESS \<equiv> ''stalled_no_progress''"
abbreviation "MEM_LOOP \<equiv> ''mem_loop''"
abbreviation "ORPHAN_STASHED \<equiv> ''orphan_stashed''"
abbreviation "ROUND_DEFERRED \<equiv> ''round_deferred''"
abbreviation "ROUND_RESUMED \<equiv> ''round_resumed''"
abbreviation "ROUND_START \<equiv> ''round_start''"
abbreviation "ROUND_END \<equiv> ''round_end''"
abbreviation "ROUND_MEM_TERMINATED \<equiv> ''round_mem_terminated''"
abbreviation "ROUND_SUBSTRATE_BEFORE \<equiv> ''round_substrate_before''"
abbreviation "SCHEDULE_PAUSED \<equiv> ''schedule_paused''"
abbreviation "SCHEDULE_RESUMED \<equiv> ''schedule_resumed''"
abbreviation "TRANSIENT_ERROR_BACKOFF_CAPPED \<equiv> ''transient_error_backoff_capped''"
abbreviation "TRANSIENT_ERROR_DETECTED \<equiv> ''transient_error_detected''"
abbreviation "TRANSIENT_ERROR_RECOVERED \<equiv> ''transient_error_recovered''"

definition builtin_kinds :: "string list" where
  "builtin_kinds =
     [''agent_auth_error_detected'', ''agent_exit'', ''anomaly_repetitive_tool'',
      ''agent_network_blip'', ''agent_spawn'', ''agent_usage_recorded'',
      ''cgroup_growth_rate_warning'', ''config_broken'', ''config_migrated'',
      ''crash_loop'', ''detector_error'', ''dirty_auto_committed'',
      ''dirty_check_failed'', ''dirty_commit_failed'', ''dirty_detected'',
      ''fresh_eyes_round_triggered'', ''goal_assessment'', ''goal_check'',
      ''hook_failed'', ''host_cgroup_memory_limit'', ''max_rounds_reached'',
      ''memory_high_engaged'', ''memory_high_released'', ''memory_high_write_failed'',
      ''mem_loop'', ''mem_loop_persistent'', ''mem_pressure_deferred_to_cgroup'',
      ''monitor_alert_emitted'', ''monitor_auto_stop_failed'', ''monitor_auto_stop_triggered'',
      ''monitor_remote_blip'', ''monitor_remote_giveup'', ''monitor_started'',
      ''orphan_idempotent_skip'', ''orphan_stash_failed'', ''orphan_stashed'',
      ''package_upgraded'', ''round_cgroup_memory'', ''round_container_orphan_risk'',
      ''round_deferred'', ''round_end'', ''round_grace_extended'',
      ''round_grace_kill'', ''round_logs_prune_deferred'', ''round_mem_critical_sample'',
      ''round_mem_terminated'', ''round_oom_killed'', ''round_progress'',
      ''round_resumed'', ''round_start'', ''round_substrate_after'',
      ''round_substrate_before'', ''round_supervisor_wedged'', ''round_timeout_kill'',
      ''schedule_paused'', ''schedule_phase_skipped'', ''schedule_resumed'',
      ''agent_self_terminated'', ''service_upgrade_rollback_failed'', ''service_upgrade_rolled_back'',
      ''service_upgraded'', ''session_resumed'', ''smoke_check_failed'',
      ''stale_index_lock_cleared'', ''stalled_no_progress'', ''status_recovered'',
      ''stop_file_detected'', ''transient_error_backoff_capped'', ''transient_error_detected'',
      ''transient_error_recovered'', ''upgrade_start_failed'']"

text \<open>\<open>str.islower\<close> and \<open>str.isalnum\<close> on Latin-1 code points.\<close>

definition is_lower_char :: "char \<Rightarrow> bool" where
  "is_lower_char c \<longleftrightarrow>
     (let k = char_code c in (97 \<le> k \<and> k \<le> 122) \<or> k = 170 \<or> k = 181 \<or> k = 186
        \<or> (223 \<le> k \<and> k \<le> 255 \<and> k \<noteq> 247))"

definition is_upper_char :: "char \<Rightarrow> bool" where
  "is_upper_char c \<longleftrightarrow>
     (let k = char_code c in (65 \<le> k \<and> k \<le> 90) \<or> (192 \<le> k \<and> k \<le> 222 \<and> k \<noteq> 215))"

definition is_alnum_char :: "char \<Rightarrow> bool" where
  "is_alnum_char c \<longleftrightarrow>
     is_digit c \<or> is_lower_char c \<or> is_upper_char c \<or> char_code c \<in> {178, 179, 185, 188, 189, 190}"

definition py_islower :: "string \<Rightarrow> bool" where
  "py_islower s \<longleftrightarrow> list_ex is_lower_char s \<and> \<not> list_ex is_upper_char s"

definition py_isalnum :: "string \<Rightarrow> bool" where
  "py_isalnum s \<longleftrightarrow> s \<noteq> [] \<and> list_all is_alnum_char s"

definition is_snake_case_kind :: "string \<Rightarrow> bool" where
  "is_snake_case_kind s \<longleftrightarrow>
     py_islower s \<and> \<not> (s \<noteq> [] \<and> hd s = CHR ''_'') \<and> py_isalnum (filter (\<lambda>c. c \<noteq> CHR ''_'') s)"

definition is_known :: "string list \<Rightarrow> string \<Rightarrow> bool" where
  "is_known plugin_kinds name \<longleftrightarrow> name \<in> set builtin_kinds \<or> name \<in> set plugin_kinds"

text \<open>\<open>name.split("_", 1)[0]\<close>.\<close>

definition kind_prefix :: "string \<Rightarrow> string" where
  "kind_prefix name = takeWhile (\<lambda>c. c \<noteq> CHR ''_'') name"

definition register_plugin_kind :: "string \<Rightarrow> string list \<Rightarrow> string list res" where
  "register_plugin_kind name plugin_kinds =
     (if name = [] \<or> \<not> is_snake_case_kind name then Inl (ValueError ''invalid plugin event kind'')
      else if CHR ''_'' \<notin> set name then Inl (ValueError ''plugin event kind must be namespaced'')
      else if name \<in> set builtin_kinds then Inl (ValueError ''collides with a builtin kind'')
      else if kind_prefix name \<in> set (map kind_prefix builtin_kinds)
      then Inl (ValueError ''uses builtin-owned prefix'')
      else Inr (List.insert name plugin_kinds))"

subsection \<open>Timestamps\<close>

text \<open>
  An aware \<open>datetime\<close> is its UTC instant, a naive one its wall-clock reading, both in
  microseconds since 1970-01-01. \<open>parse_iso_ms\<close> reads the extended ISO shapes
  \<open>YYYY-MM-DD[xHH:MM[:SS[.f+]][Z|+HH:MM]]\<close>, which include everything the code writes
  (\<open>now_iso_ms\<close>, \<open>datetime.isoformat\<close>); the compact and week-date spellings
  \<open>datetime.fromisoformat\<close> also takes are read as a \<open>ValueError\<close> here.
\<close>

datatype pydt = Naive int | Aware int

definition is_leap :: "int \<Rightarrow> bool" where
  "is_leap y \<longleftrightarrow> y mod 4 = 0 \<and> (y mod 100 \<noteq> 0 \<or> y mod 400 = 0)"

definition days_in_month :: "int \<Rightarrow> int \<Rightarrow> int" where
  "days_in_month y m =
     (if m = 2 then (if is_leap y then 29 else 28)
      else if m = 4 \<or> m = 6 \<or> m = 9 \<or> m = 11 then 30 else 31)"

definition days_before_year :: "int \<Rightarrow> int" where
  "days_before_year y = (y - 1) * 365 + (y - 1) div 4 - (y - 1) div 100 + (y - 1) div 400"

definition days_before_month :: "int \<Rightarrow> int \<Rightarrow> int" where
  "days_before_month y m = sum_list (map (days_in_month y) [1..m - 1])"

text \<open>Days since 1970-01-01.\<close>

definition civil_days :: "int \<Rightarrow> int \<Rightarrow> int \<Rightarrow> int" where
  "civil_days y m d = days_before_year y + days_before_month y m + d - 719163"

definition read_num :: "string \<Rightarrow> int option" where
  "read_num s = (if s \<noteq> [] \<and> list_all is_digit s then Some (digits_value s) else None)"

definition parse_date :: "string \<Rightarrow> int option" where
  "parse_date s =
     (if length s = 10 \<and> s ! 4 = CHR ''-'' \<and> s ! 7 = CHR ''-'' then
        (case (read_num (take 4 s), read_num (take 2 (drop 5 s)), read_num (drop 8 s)) of
           (Some y, Some m, Some d) \<Rightarrow>
             (if 1 \<le> y \<and> 1 \<le> m \<and> m \<le> 12 \<and> 1 \<le> d \<and> d \<le> days_in_month y m
              then Some (civil_days y m d) else None)
         | _ \<Rightarrow> None)
      else None)"

text \<open>Fraction digits to microseconds: padded with zeros, cut after six.\<close>

definition frac_us :: "string \<Rightarrow> int" where
  "frac_us ds = digits_value (take 6 (ds @ ''000000''))"

definition parse_hms :: "string \<Rightarrow> int option" where
  "parse_hms s =
     (let hm = read_num (take 2 s); mi = read_num (take 2 (drop 3 s));
          sec = (if length s = 5 then Some 0 else read_num (take 2 (drop 6 s)));
          fr = (if length s \<le> 8 then Some 0
                else if s ! 8 = CHR ''.'' \<and> read_num (drop 9 s) \<noteq> None
                then Some (frac_us (drop 9 s)) else None)
      in if (length s = 5 \<or> length s \<ge> 8) \<and> s ! 2 = CHR '':''
            \<and> (length s = 5 \<or> s ! 5 = CHR '':'')
         then (case (hm, mi, sec, fr) of
                 (Some h, Some m, Some x, Some f) \<Rightarrow>
                   (if h \<le> 23 \<and> m \<le> 59 \<and> x \<le> 59
                    then Some (((h * 60 + m) * 60 + x) * 1000000 + f) else None)
               | _ \<Rightarrow> None)
         else None)"

definition parse_offset :: "string \<Rightarrow> int option" where
  "parse_offset s =
     (if length s = 6 \<and> s ! 3 = CHR '':'' then
        (case (read_num (take 2 (drop 1 s)), read_num (drop 4 s)) of
           (Some h, Some m) \<Rightarrow>
             (if h \<le> 23 \<and> m \<le> 59
              then Some ((if hd s = CHR ''-'' then -1 else 1) * (h * 60 + m) * 60000000) else None)
         | _ \<Rightarrow> None)
      else None)"

text \<open>\<open>ts.replace("Z", "+00:00")\<close>.\<close>

definition replace_z :: "string \<Rightarrow> string" where
  "replace_z ts = concat (map (\<lambda>c. if c = CHR ''Z'' then ''+00:00'' else [c]) ts)"

definition parse_iso_ms :: "string \<Rightarrow> pydt res" where
  "parse_iso_ms ts =
     (let s = replace_z ts; time = drop 11 s;
          is_sign = (\<lambda>c. c = CHR ''+'' \<or> c = CHR ''-'');
          hms = takeWhile (\<lambda>c. \<not> is_sign c) time; off = dropWhile (\<lambda>c. \<not> is_sign c) time
      in case parse_date (take 10 s) of
           None \<Rightarrow> Inl (ValueError ''Invalid isoformat string'')
         | Some days \<Rightarrow>
             if length s = 10 then Inr (Naive (days * 86400000000))
             else (case parse_hms hms of
                     None \<Rightarrow> Inl (ValueError ''Invalid isoformat string'')
                   | Some t \<Rightarrow>
                       if off = [] then Inr (Naive (days * 86400000000 + t))
                       else (case parse_offset off of
                               None \<Rightarrow> Inl (ValueError ''Invalid isoformat string'')
                             | Some o_us \<Rightarrow> Inr (Aware (days * 86400000000 + t - o_us)))))"

text \<open>Ordering two datetimes raises \<open>TypeError\<close> when only one is aware.\<close>

fun dt_less :: "pydt \<Rightarrow> pydt \<Rightarrow> bool res" where
  "dt_less (Naive a) (Naive b) = Inr (a < b)"
| "dt_less (Aware a) (Aware b) = Inr (a < b)"
| "dt_less _ _ = Inl TypeError"

end
