(* ===== verification/Event_Log.thy ===== *)
theory Event_Log
  imports Events "HOL-Library.Multiset"
begin

section \<open>The month-sharded event log (agent\_runner/event\_log.py, events.emit)\<close>

text \<open>
  A log directory is the list of its \<open>events-YYYY-MM.jsonl\<close> files: the month of each and the
  events its lines decode to, in file order. The readers sort the listing by name, take the
  newest files and read them forward. The offset-carrying tailer works on the bytes of the
  files; decoding one non-blank line is the parameter \<open>decode\<close> (\<open>json.loads\<close> restricted to
  objects: \<open>None\<close> for a malformed line or another JSON value).
\<close>

subsection \<open>Layout and scans\<close>

type_synonym log_dir = "(string \<times> event list) list"

definition all_month_files :: "log_dir \<Rightarrow> log_dir" where
  "all_month_files logd = sort_key fst logd"

text \<open>\<open>files[-n:]\<close>; \<open>[-0:]\<close> is the whole list.\<close>

definition newest_month_files :: "log_dir \<Rightarrow> nat \<Rightarrow> log_dir" where
  "newest_month_files logd n =
     (let fs = all_month_files logd in if n = 0 then fs else drop (length fs - n) fs)"

definition scan :: "log_dir \<Rightarrow> (log_dir \<Rightarrow> log_dir) \<Rightarrow> event list" where
  "scan logd scope = concat (map snd (scope logd))"

text \<open>\<open>_throttle._tail_events\<close>: the newest two files, oldest first.\<close>

definition tail_events :: "log_dir \<Rightarrow> event list" where
  "tail_events logd = scan logd (\<lambda>l. newest_month_files l 2)"

subsection \<open>Emission\<close>

text \<open>One reading of the clock: epoch and monotonic seconds, the \<open>now_iso_ms\<close> text, the month key.\<close>

record clock =
  ck_epoch :: real
  ck_mono :: real
  ck_iso :: string
  ck_month :: string

fun append_event :: "string \<Rightarrow> event \<Rightarrow> log_dir \<Rightarrow> log_dir" where
  "append_event m ev [] = [(m, [ev])]"
| "append_event m ev ((k, evs) # fs) =
     (if k = m then (k, evs @ [ev]) # fs else (k, evs) # append_event m ev fs)"

definition event_payload :: "clock \<Rightarrow> string \<Rightarrow> event \<Rightarrow> event" where
  "event_payload ck kind payload =
     [''ts'' \<mapsto> PStr (ck_iso ck), ''event'' \<mapsto> PStr kind] ++ payload"

definition emit :: "string list \<Rightarrow> clock \<Rightarrow> string \<Rightarrow> event \<Rightarrow> log_dir \<Rightarrow> log_dir res" where
  "emit plugin_kinds ck kind payload logd =
     (if \<not> is_known plugin_kinds kind then Inl (ValueError ''unknown event kind'')
      else Inr (append_event (ck_month ck) (event_payload ck kind payload) logd))"

text \<open>The wrappers of \<open>_emit\<close> emit builtin kinds only, so their \<open>emit\<close> cannot raise.\<close>

definition emit_builtin :: "clock \<Rightarrow> string \<Rightarrow> event \<Rightarrow> log_dir \<Rightarrow> log_dir" where
  "emit_builtin ck kind payload logd = append_event (ck_month ck) (event_payload ck kind payload) logd"

lemma emit_known:
  "kind \<in> set builtin_kinds \<Longrightarrow> emit pk ck kind payload logd = Inr (emit_builtin ck kind payload logd)"
  by (simp add: emit_def emit_builtin_def is_known_def)

subsection \<open>Appending to the newest file extends the tail\<close>

text \<open>The current month's file exists and is the newest of the directory.\<close>

definition current_newest :: "string \<Rightarrow> log_dir \<Rightarrow> bool" where
  "current_newest m logd \<longleftrightarrow>
     distinct (map fst logd) \<and> m \<in> set (map fst logd) \<and> (\<forall>k \<in> set (map fst logd). k \<le> m)"

lemma append_event_keys:
  "m \<in> set (map fst logd) \<Longrightarrow> map fst (append_event m ev logd) = map fst logd"
  by (induction m ev logd rule: append_event.induct) auto

lemma append_event_map:
  assumes "distinct (map fst logd)" "m \<in> set (map fst logd)"
  shows "append_event m ev logd = map (\<lambda>(k, es). (k, if k = m then es @ [ev] else es)) logd"
  using assms
proof (induction logd)
  case (Cons f fs)
  obtain k es where f: "f = (k, es)" by (cases f)
  show ?case
  proof (cases "k = m")
    case True
    then have "\<forall>x \<in> set fs. fst x \<noteq> m" using Cons.prems(1) f by force
    then have "map (\<lambda>(k, es). (k, if k = m then es @ [ev] else es)) fs = fs"
      by (intro map_idI) auto
    then show ?thesis using True f by simp
  next
    case False
    then show ?thesis using Cons f by auto
  qed
qed simp

lemma insort_key_fst_map:
  "insort_key fst (k, f k v) (map (\<lambda>(k, v). (k, f k v)) xs)
    = map (\<lambda>(k, v). (k, f k v)) (insort_key fst (k, v) xs)"
  by (induction xs) auto

lemma sort_key_fst_map:
  "sort_key fst (map (\<lambda>(k, v). (k, f k v)) xs) = map (\<lambda>(k, v). (k, f k v)) (sort_key fst xs)"
  by (induction xs) (auto simp: insort_key_fst_map)

lemma newest_is_last:
  assumes "current_newest m logd"
  obtains pre es where "all_month_files logd = pre @ [(m, es)]" "m \<notin> set (map fst pre)"
proof -
  let ?s = "all_month_files logd"
  have ks: "sorted (map fst ?s)" "distinct (map fst ?s)" "set (map fst ?s) = set (map fst logd)"
    using assms by (auto simp: all_month_files_def current_newest_def distinct_map inj_on_def)
  have ne: "?s \<noteq> []" using assms ks(3) by (auto simp: current_newest_def)
  then obtain pre l where l: "?s = pre @ [l]" by (metis rev_exhaust)
  have "m \<in> set (map fst ?s)" using assms ks(3) by (simp add: current_newest_def)
  then have "m \<le> fst l" using ks(1) unfolding l by (auto simp: sorted_append)
  moreover have "fst l \<in> set (map fst logd)" unfolding ks(3) [symmetric] l by simp
  then have "fst l \<le> m" using assms by (simp only: current_newest_def)
  ultimately have "fst l = m" by (rule antisym [rotated])
  then show ?thesis using that [of pre "snd l"] l ks(2) by (cases l) auto
qed

lemma all_month_files_append:
  assumes c: "current_newest m logd" and s: "all_month_files logd = pre @ [(m, es)]"
    and pre: "m \<notin> set (map fst pre)"
  shows "all_month_files (append_event m ev logd) = pre @ [(m, es @ [ev])]"
proof -
  have "map (\<lambda>(k, es). (k, if k = m then es @ [ev] else es)) pre = pre"
    using pre by (intro map_idI) force
  then show ?thesis
    using append_event_map [of logd m ev] c s
    by (simp add: all_month_files_def sort_key_fst_map current_newest_def)
qed

lemma tail_append_event [log_simps]:
  assumes "current_newest m logd"
  shows "tail_events (append_event m ev logd) = tail_events logd @ [ev]"
proof -
  obtain pre es where s: "all_month_files logd = pre @ [(m, es)]" "m \<notin> set (map fst pre)"
    by (rule newest_is_last [OF assms])
  note a = all_month_files_append [OF assms s, of ev]
  show ?thesis
    unfolding tail_events_def scan_def newest_month_files_def a s(1) Let_def
    by (cases "length pre") (auto simp: drop_append)
qed

lemma current_newest_append [log_simps]:
  "current_newest m logd \<Longrightarrow> current_newest m (append_event m ev logd)"
  by (auto simp: current_newest_def append_event_keys)

subsection \<open>The interface the event readers rely on\<close>

text \<open>
  A store of events with an append and a forward tail. Clients that both read the tail and
  emit (the throttle's recovered breadcrumbs) need only these two laws.
\<close>

locale event_store =
  fixes append :: "event \<Rightarrow> 'log \<Rightarrow> 'log"
    and tail :: "'log \<Rightarrow> event list"
    and ready :: "'log \<Rightarrow> bool"
  assumes tail_append: "ready l \<Longrightarrow> tail (append e l) = tail l @ [e]"
    and ready_append: "ready l \<Longrightarrow> ready (append e l)"
begin

lemma tail_fold_append: "ready l \<Longrightarrow> tail (fold append es l) = tail l @ es"
  by (induction es arbitrary: l) (simp_all add: tail_append ready_append)

lemma ready_fold_append: "ready l \<Longrightarrow> ready (fold append es l)"
  by (induction es arbitrary: l) (simp_all add: ready_append)

end

interpretation month_log: event_store "append_event m" tail_events "current_newest m" for m
  by unfold_locales (simp_all add: log_simps)

subsection \<open>The offset-carrying tailer\<close>

text \<open>Universal newlines: a line ends at \<open>\n\<close>, \<open>\r\<close> or \<open>\r\n\<close>.\<close>

abbreviation "lf \<equiv> CHR 0x0A"
abbreviation "cr \<equiv> CHR 0x0D"

fun split_lines :: "string \<Rightarrow> string \<Rightarrow> string list" where
  "split_lines cur [] = (if cur = [] then [] else [rev cur])"
| "split_lines cur [c] = (if c = lf \<or> c = cr then [rev cur] else [rev (c # cur)])"
| "split_lines cur (c # d # cs) =
     (if c = lf then rev cur # split_lines [] (d # cs)
      else if c = cr then rev cur # split_lines [] (if d = lf then cs else d # cs)
      else split_lines (c # cur) (d # cs))"

definition parse_line :: "(string \<Rightarrow> event option) \<Rightarrow> string \<Rightarrow> (string \<times> event) option" where
  "parse_line decode line =
     (let s = py_strip line in if s = [] then None else map_option (Pair s) (decode s))"

definition iter_parsed_lines :: "(string \<Rightarrow> event option) \<Rightarrow> string \<Rightarrow> (string \<times> event) list" where
  "iter_parsed_lines decode text = List.map_filter (parse_line decode) (split_lines [] text)"

text \<open>The files of a directory by path, and the offsets a reader carries.\<close>

type_synonym 'p files = "'p \<rightharpoonup> string"
type_synonym 'p offsets = "'p \<rightharpoonup> nat"

definition read_one ::
  "(string \<Rightarrow> event option) \<Rightarrow> 'p files \<Rightarrow> 'p \<Rightarrow> 'p offsets \<Rightarrow> (string \<times> event) list \<times> 'p offsets" where
  "read_one decode fs path offsets =
     (case fs path of
        None \<Rightarrow> ([], offsets)
      | Some content \<Rightarrow>
          (let size = length content;
               p0 = (case offsets path of None \<Rightarrow> 0 | Some p \<Rightarrow> p);
               pos = (if size < p0 then 0 else p0)
           in if size = pos then ([], offsets)
              else (iter_parsed_lines decode (drop pos content), offsets(path \<mapsto> size))))"

fun read_new_raw ::
  "(string \<Rightarrow> event option) \<Rightarrow> 'p files \<Rightarrow> 'p list \<Rightarrow> 'p offsets \<Rightarrow> (string \<times> event) list \<times> 'p offsets" where
  "read_new_raw decode fs [] offsets = ([], offsets)"
| "read_new_raw decode fs (p # ps) offsets =
     (case read_one decode fs p offsets of (out1, offsets1) \<Rightarrow>
        (case read_new_raw decode fs ps offsets1 of (out2, offsets2) \<Rightarrow> (out1 @ out2, offsets2)))"

definition read_new ::
  "(string \<Rightarrow> event option) \<Rightarrow> 'p files \<Rightarrow> 'p list \<Rightarrow> 'p offsets \<Rightarrow> event list \<times> 'p offsets" where
  "read_new decode fs paths offsets =
     (case read_new_raw decode fs paths offsets of (records, new_offsets) \<Rightarrow> (map snd records, new_offsets))"

definition seed_at_eof :: "'p files \<Rightarrow> 'p list \<Rightarrow> 'p offsets" where
  "seed_at_eof fs paths = (\<lambda>p. if p \<in> set paths then map_option length (fs p) else None)"

text \<open>
  \<open>follow\<close>: each loop pass reads what is new in the files as they are then; the list of
  directory states is what the passes see. The result is everything yielded so far.
\<close>

fun follow ::
  "(string \<Rightarrow> event option) \<Rightarrow> 'p list \<Rightarrow> 'p files list \<Rightarrow> 'p offsets \<Rightarrow> (string \<times> event) list" where
  "follow decode paths [] offsets = []"
| "follow decode paths (fs # rest) offsets =
     (case read_new_raw decode fs paths offsets of (records, offsets') \<Rightarrow>
        records @ follow decode paths rest offsets')"

subsection \<open>Every appended event is delivered exactly once\<close>

text \<open>
  Writers append whole lines (\<open>emit\<close> writes one line and its newline at a time). Then the
  byte offsets always sit at line ends, and a tailer that starts at the end of the existing
  files delivers each later line once, whatever the moments at which it polls.
\<close>

definition complete_lines :: "string \<Rightarrow> bool" where
  "complete_lines s \<longleftrightarrow> s = [] \<or> last s = lf"

definition content :: "'p files \<Rightarrow> 'p \<Rightarrow> string" where
  "content fs p = (case fs p of None \<Rightarrow> [] | Some c \<Rightarrow> c)"

definition offset_of :: "'p offsets \<Rightarrow> 'p \<Rightarrow> nat" where
  "offset_of offs p = (case offs p of None \<Rightarrow> 0 | Some n \<Rightarrow> n)"

definition appended :: "'p list \<Rightarrow> 'p files \<Rightarrow> 'p files \<Rightarrow> bool" where
  "appended paths fs fs' \<longleftrightarrow>
     (\<forall>p \<in> set paths. \<exists>d. content fs' p = content fs p @ d \<and> complete_lines d)"

fun append_chain :: "'p list \<Rightarrow> 'p files \<Rightarrow> 'p files list \<Rightarrow> bool" where
  "append_chain paths fs [] = True"
| "append_chain paths fs (g # gs) = (appended paths fs g \<and> append_chain paths g gs)"

definition new_records :: "(string \<Rightarrow> event option) \<Rightarrow> 'p files \<Rightarrow> 'p files \<Rightarrow> 'p \<Rightarrow> (string \<times> event) multiset" where
  "new_records decode fs fs' p =
     mset (iter_parsed_lines decode (drop (length (content fs p)) (content fs' p)))"

lemma split_lines_append:
  "a \<noteq> [] \<Longrightarrow> last a = lf \<Longrightarrow> split_lines cur (a @ b) = split_lines cur a @ split_lines [] b"
proof (induction cur a rule: split_lines.induct)
  case (2 cur c)
  then show ?case by (cases b) auto
next
  case (3 cur c d cs)
  then show ?case by (cases cs) (auto split: if_splits)
qed simp

lemma iter_parsed_lines_append:
  "complete_lines a \<Longrightarrow>
    iter_parsed_lines decode (a @ b) = iter_parsed_lines decode a @ iter_parsed_lines decode b"
  by (cases "a = []")
    (simp_all add: iter_parsed_lines_def complete_lines_def split_lines_append map_filter_def)

lemma iter_parsed_lines_Nil [simp]: "iter_parsed_lines decode [] = []"
  by (simp add: iter_parsed_lines_def map_filter_def)

lemma complete_lines_append: "complete_lines a \<Longrightarrow> complete_lines b \<Longrightarrow> complete_lines (a @ b)"
  by (auto simp: complete_lines_def last_append)

lemma read_one_records:
  assumes "offset_of offs p \<le> length (content fs p)"
  shows "fst (read_one decode fs p offs) = iter_parsed_lines decode (drop (offset_of offs p) (content fs p))
    \<and> offset_of (snd (read_one decode fs p offs)) p = length (content fs p)
    \<and> (\<forall>q. q \<noteq> p \<longrightarrow> offset_of (snd (read_one decode fs p offs)) q = offset_of offs q)"
  using assms
  by (auto simp: read_one_def content_def offset_of_def Let_def split: option.splits)

lemma read_new_raw_records:
  assumes "distinct paths" "\<forall>p \<in> set paths. offset_of offs p \<le> length (content fs p)"
  shows "mset (fst (read_new_raw decode fs paths offs)) =
      (\<Sum>p\<in>#mset paths. mset (iter_parsed_lines decode (drop (offset_of offs p) (content fs p))))
    \<and> (\<forall>p \<in> set paths. offset_of (snd (read_new_raw decode fs paths offs)) p = length (content fs p))
    \<and> (\<forall>q. q \<notin> set paths \<longrightarrow> offset_of (snd (read_new_raw decode fs paths offs)) q = offset_of offs q)"
  using assms
proof (induction paths arbitrary: offs)
  case (Cons p ps)
  obtain out1 offs1 where r1: "read_one decode fs p offs = (out1, offs1)" by fastforce
  note one = read_one_records [of offs p fs decode, unfolded r1 fst_conv snd_conv]
  have le: "offset_of offs p \<le> length (content fs p)" using Cons.prems(2) by simp
  have same: "\<forall>q \<in> set ps. offset_of offs1 q = offset_of offs q"
    using one [OF le] Cons.prems(1) by auto
  obtain out2 offs2 where r2: "read_new_raw decode fs ps offs1 = (out2, offs2)" by fastforce
  have "distinct ps" "\<forall>q \<in> set ps. offset_of offs1 q \<le> length (content fs q)"
    using Cons.prems same by auto
  note two = Cons.IH [OF this, unfolded r2 fst_conv snd_conv]
  have "(\<Sum>q\<in>#mset ps. mset (iter_parsed_lines decode (drop (offset_of offs1 q) (content fs q))))
      = (\<Sum>q\<in>#mset ps. mset (iter_parsed_lines decode (drop (offset_of offs q) (content fs q))))"
    by (rule arg_cong [where f = sum_mset], rule image_mset_cong) (use same in simp)
  then show ?case using one [OF le] two Cons.prems(1) by (auto simp: r1 r2)
qed simp

lemma append_chain_content:
  "append_chain paths fs gs \<Longrightarrow> p \<in> set paths \<Longrightarrow>
    \<exists>d. content (last (fs # gs)) p = content fs p @ d \<and> complete_lines d"
proof (induction gs arbitrary: fs)
  case (Cons g gs)
  then obtain d1 where d1: "content g p = content fs p @ d1" "complete_lines d1"
    by (auto simp: appended_def)
  from Cons obtain d2 where "content (last (g # gs)) p = content g p @ d2" "complete_lines d2"
    by auto
  with d1 show ?case by (intro exI [of _ "d1 @ d2"]) (auto simp: complete_lines_append)
qed (simp add: complete_lines_def)

lemma follow_records:
  assumes "distinct paths" "append_chain paths fs snaps"
    "\<forall>p \<in> set paths. offset_of offs p = length (content fs p)"
  shows "mset (follow decode paths snaps offs) =
    (\<Sum>p\<in>#mset paths. new_records decode fs (last (fs # snaps)) p)"
  using assms(2,3)
proof (induction snaps arbitrary: fs offs)
  case Nil
  then show ?case by (simp add: new_records_def)
next
  case (Cons g gs)
  have ap: "\<exists>d. content g p = content fs p @ d \<and> complete_lines d" if "p \<in> set paths" for p
    using Cons.prems(1) that by (simp add: appended_def)
  obtain recs offs1 where r: "read_new_raw decode g paths offs = (recs, offs1)" by fastforce
  have le: "\<forall>p \<in> set paths. offset_of offs p \<le> length (content g p)"
    using ap Cons.prems(2) by fastforce
  note one = read_new_raw_records [OF assms(1) le, of decode, unfolded r fst_conv snd_conv]
  have rec: "mset (follow decode paths gs offs1) =
      (\<Sum>p\<in>#mset paths. new_records decode g (last (g # gs)) p)"
    using Cons one by simp
  have split: "new_records decode fs (last (g # gs)) p =
      mset (iter_parsed_lines decode (drop (offset_of offs p) (content g p)))
      + new_records decode g (last (g # gs)) p" if p: "p \<in> set paths" for p
  proof -
    obtain d1 where d1: "content g p = content fs p @ d1" "complete_lines d1" using ap [OF p] by blast
    obtain d2 where d2: "content (last (g # gs)) p = content g p @ d2"
      using append_chain_content [of paths g gs p] Cons.prems(1) p by auto
    have o1: "offset_of offs p = length (content fs p)" using Cons.prems(2) p by blast
    show ?thesis unfolding new_records_def o1 d2 unfolding d1
      by (simp add: iter_parsed_lines_append [OF d1(2)])
  qed
  have "(\<Sum>p\<in>#mset paths. new_records decode fs (last (g # gs)) p) =
     (\<Sum>p\<in>#mset paths. mset (iter_parsed_lines decode (drop (offset_of offs p) (content g p)))
        + new_records decode g (last (g # gs)) p)"
    by (rule arg_cong [where f = sum_mset], rule image_mset_cong) (use split in simp)
  also have "\<dots> = mset recs + mset (follow decode paths gs offs1)"
    using one rec by (simp add: sum_mset.distrib)
  finally show ?case by (simp add: r)
qed

text \<open>The tailer delivers each appended event exactly once: started at the end of the existing
  files, and polled at any moments while writers append whole lines, \<open>follow\<close> yields (as a
  multiset) precisely the records of the lines appended since, for any JSON decoder.\<close>

theorem follow_exactly_once:
  assumes "distinct paths" "append_chain paths fs snaps"
  shows "mset (follow decode paths snaps (seed_at_eof fs paths)) =
    (\<Sum>p\<in>#mset paths. new_records decode fs (last (fs # snaps)) p)"
proof (rule follow_records [OF assms])
  show "\<forall>p \<in> set paths. offset_of (seed_at_eof fs paths) p = length (content fs p)"
    by (auto simp: offset_of_def seed_at_eof_def content_def split: option.splits)
qed

theorem follow_exactly_once_witness:
  "mset (follow (\<lambda>s. Some [''line'' \<mapsto> PStr s]) [(1::nat), 2]
      [[1 \<mapsto> ''a'' @ [lf] @ ''b'' @ [lf]], [1 \<mapsto> ''a'' @ [lf] @ ''b'' @ [lf], 2 \<mapsto> ''c'' @ [lf]]]
      (seed_at_eof [1 \<mapsto> ''a'' @ [lf]] [1, 2]))
   = {#(''b'', [''line'' \<mapsto> PStr ''b'']), (''c'', [''line'' \<mapsto> PStr ''c''])#}"
proof -
  let ?fs = "[(1::nat) \<mapsto> ''a'' @ [lf]]"
  let ?g = "[(1::nat) \<mapsto> ''a'' @ [lf] @ ''b'' @ [lf]]"
  let ?h = "[(1::nat) \<mapsto> ''a'' @ [lf] @ ''b'' @ [lf], 2 \<mapsto> ''c'' @ [lf]]"
  have ch: "append_chain [1, 2] ?fs [?g, ?h]"
    by (simp add: appended_def content_def complete_lines_def)
  have sp: "\<not> is_space (CHR ''b'')" "\<not> is_space (CHR ''c'')"
    by (simp_all add: is_space_def char_code_def)
  let ?d = "\<lambda>s. Some [''line'' \<mapsto> PStr s]"
  have i: "iter_parsed_lines ?d [CHR ''b'', lf] = [(''b'', [''line'' \<mapsto> PStr ''b''])]"
    "iter_parsed_lines ?d [CHR ''c'', lf] = [(''c'', [''line'' \<mapsto> PStr ''c''])]"
    using sp by (simp_all add: iter_parsed_lines_def parse_line_def map_filter_simps
        py_strip_def py_lstrip_def Let_def)
  have d: "distinct [1::nat, 2]" by simp
  show ?thesis
    unfolding follow_exactly_once [OF d ch, of ?d] by (simp add: new_records_def content_def i)
qed

end
