(* ===== verification/Schedule.thy ===== *)
theory Schedule
  imports Base
begin

section \<open>Time windows (agent\_runner/schedule.py)\<close>

text \<open>
  The scheduling core: parsing of \<open>[WEEKDAYS ]HH:MM-HH:MM\<close> windows, membership of an instant
  in a window (with the midnight wrap attributed to the start day), the run / pause decision
  and the search for the next instant that is runnable again. A \<open>frozenset[int]\<close> of weekdays
  is an \<open>int set\<close>. A local \<open>datetime\<close> is the number of wall-clock minutes since
  0001-01-01T00:00 (a Monday, so \<open>weekday() = (minutes div 1440) mod 7\<close>) with the
  microseconds inside the minute; \<open>timedelta\<close> addition on an aware datetime is wall-clock
  arithmetic in Python, hence plain addition of minutes here. The overflow of
  \<open>datetime\<close> at the year 10000 is not modelled.
\<close>

subsection \<open>Data\<close>

record window =
  start_min :: int
  end_min :: int
  win_label :: string
  win_days :: "int set"

record ldt =
  wall_min :: int
  sub_us :: int

definition ldt_weekday :: "ldt \<Rightarrow> int" where
  "ldt_weekday t = (wall_min t div 1440) mod 7"

text \<open>\<open>now_local.hour * 60 + now_local.minute\<close>.\<close>

definition minute_of_day :: "ldt \<Rightarrow> int" where
  "minute_of_day t = ((wall_min t div 60) mod 24) * 60 + wall_min t mod 60"

subsection \<open>Window membership\<close>

definition contains :: "window \<Rightarrow> int \<Rightarrow> int \<Rightarrow> bool" where
  "contains w weekday minute =
     (let wraps = start_min w \<ge> end_min w;
          in_time = (if wraps then minute \<ge> start_min w \<or> minute < end_min w
                     else start_min w \<le> minute \<and> minute < end_min w)
      in if \<not> in_time then False
         else if win_days w = {} then True
         else let start_day = (if wraps \<and> minute < end_min w then (weekday - 1) mod 7 else weekday)
              in start_day \<in> win_days w)"

subsection \<open>Parsing\<close>

definition minutes_per_day :: int where
  "minutes_per_day = 24 * 60"

definition weekdays :: "(string \<times> int) list" where
  "weekdays = [(''mon'', 0), (''tue'', 1), (''wed'', 2), (''thu'', 3), (''fri'', 4),
               (''sat'', 5), (''sun'', 6)]"

definition parse_weekday_token :: "string \<Rightarrow> int set res" where
  "parse_weekday_token raw =
     (let token = py_lower (py_strip raw) in
      if token = [] then Inl (ValueError ''empty weekday token'')
      else if CHR ''-'' \<in> set token then
        (case py_partition (CHR ''-'') token of (a, b) \<Rightarrow>
          (case (map_of weekdays a, map_of weekdays b) of
             (Some s, Some e) \<Rightarrow>
               (if s > e then Inl (ValueError ''weekday range must be ascending Mon..Sun'')
                else Inr (set [s..e]))
           | _ \<Rightarrow> Inl (ValueError ''invalid weekday range'')))
      else (case map_of weekdays token of
              None \<Rightarrow> Inl (ValueError ''invalid weekday'')
            | Some d \<Rightarrow> Inr {d}))"

fun parse_weekday_tokens :: "string list \<Rightarrow> int set \<Rightarrow> int set res" where
  "parse_weekday_tokens [] days = Inr days"
| "parse_weekday_tokens (t # ts) days =
     res_bind (parse_weekday_token t) (\<lambda>d. parse_weekday_tokens ts (days \<union> d))"

definition parse_weekday_spec :: "string \<Rightarrow> int set res" where
  "parse_weekday_spec spec = parse_weekday_tokens (py_split (CHR '','') spec) {}"

text \<open>
  \<open>_WINDOW_RE = ^(\d{2}):(\d{2})-(\d{2}):(\d{2})$\<close>; \<open>$\<close> also matches before a final newline.
  The result is the four groups as integers.
\<close>

definition two_digits :: "char \<Rightarrow> char \<Rightarrow> int" where
  "two_digits a b = 10 * digit_val a + digit_val b"

definition window_re :: "string \<Rightarrow> (int \<times> int \<times> int \<times> int) option" where
  "window_re s =
     (if (length s = 11 \<or> (length s = 12 \<and> s ! 11 = CHR 0x0A))
         \<and> is_digit (s ! 0) \<and> is_digit (s ! 1) \<and> s ! 2 = CHR '':''
         \<and> is_digit (s ! 3) \<and> is_digit (s ! 4) \<and> s ! 5 = CHR ''-''
         \<and> is_digit (s ! 6) \<and> is_digit (s ! 7) \<and> s ! 8 = CHR '':''
         \<and> is_digit (s ! 9) \<and> is_digit (s ! 10)
      then Some (two_digits (s ! 0) (s ! 1), two_digits (s ! 3) (s ! 4),
                 two_digits (s ! 6) (s ! 7), two_digits (s ! 9) (s ! 10))
      else None)"

definition to_minutes :: "int \<Rightarrow> int \<Rightarrow> bool \<Rightarrow> int res" where
  "to_minutes h m allow_24 =
     (if h = 24 then
        (if \<not> allow_24 \<or> m \<noteq> 0 then Inl (ValueError ''24:00 is only valid as an end bound'')
         else Inr minutes_per_day)
      else if \<not> (0 \<le> h \<and> h \<le> 23) then Inl (ValueError ''hour out of range'')
      else if \<not> (0 \<le> m \<and> m \<le> 59) then Inl (ValueError ''minute out of range'')
      else Inr (h * 60 + m))"

definition window_parts :: "string \<Rightarrow> (int set \<times> string) res" where
  "window_parts s =
     (let spec = py_strip s; parts = py_split_ws1 spec in
      case parts of
        [a, b] \<Rightarrow> (if window_re b \<noteq> None
                   then res_bind (parse_weekday_spec a) (\<lambda>ds. Inr (ds, b))
                   else Inr ({}, spec))
      | _ \<Rightarrow> Inr ({}, spec))"

definition parse_window :: "string \<Rightarrow> window res" where
  "parse_window s =
     res_bind (window_parts s) (\<lambda>(ds, time_part).
       case window_re time_part of
         None \<Rightarrow> Inl (ValueError ''expected [WEEKDAYS ]HH:MM-HH:MM'')
       | Some (sh, sm, eh, em) \<Rightarrow>
           res_bind (to_minutes sh sm False) (\<lambda>st.
           res_bind (to_minutes eh em True) (\<lambda>en.
             if st = en then Inl (ValueError ''start equals end (zero-length)'')
             else Inr \<lparr>start_min = st, end_min = en, win_label = s, win_days = ds\<rparr>)))"

subsection \<open>The run / pause decision\<close>

definition should_run :: "window list \<Rightarrow> window list \<Rightarrow> ldt \<Rightarrow> bool" where
  "should_run run_windows pause_windows now_local =
     (let minute = minute_of_day now_local; weekday = ldt_weekday now_local;
          in_run = (run_windows = [] \<or> list_ex (\<lambda>w. contains w weekday minute) run_windows);
          in_pause = list_ex (\<lambda>w. contains w weekday minute) pause_windows
      in in_run \<and> \<not> in_pause)"

definition search_horizon_min :: nat where
  "search_horizon_min = 8 * 1440"

text \<open>\<open>base + timedelta(minutes=k)\<close> with \<open>base\<close> the minute of \<open>now_local\<close>.\<close>

definition minute_after :: "ldt \<Rightarrow> nat \<Rightarrow> ldt" where
  "minute_after now_local k = \<lparr>wall_min = wall_min now_local + int k, sub_us = 0\<rparr>"

definition next_resume_at :: "window list \<Rightarrow> window list \<Rightarrow> ldt \<Rightarrow> ldt option" where
  "next_resume_at run_windows pause_windows now_local =
     map_option (minute_after now_local)
       (find (\<lambda>k. should_run run_windows pause_windows (minute_after now_local k))
             [1..<Suc search_horizon_min])"

definition active_window_label :: "window list \<Rightarrow> ldt \<Rightarrow> string" where
  "active_window_label pause_windows now_local =
     (case find (\<lambda>w. contains w (ldt_weekday now_local) (minute_of_day now_local)) pause_windows of
        Some w \<Rightarrow> win_label w
      | None \<Rightarrow> ''outside run_windows'')"

record pause_decision =
  pd_paused :: bool
  pd_resume_at :: "ldt option"
  pd_active_window :: "string option"

definition evaluate :: "window list \<Rightarrow> window list \<Rightarrow> ldt \<Rightarrow> pause_decision" where
  "evaluate run_windows pause_windows now_local =
     (if should_run run_windows pause_windows now_local
      then \<lparr>pd_paused = False, pd_resume_at = None, pd_active_window = None\<rparr>
      else \<lparr>pd_paused = True,
            pd_resume_at = next_resume_at run_windows pause_windows now_local,
            pd_active_window = Some (active_window_label pause_windows now_local)\<rparr>)"

subsection \<open>A window as a union of arcs of the week\<close>

text \<open>
  The abstract reading of a window: on every effective day \<open>d\<close> it opens at the week minute
  \<open>d * 1440 + start_min\<close> and stays open for \<open>window_span\<close> minutes, wrapping at the end of the
  week. \<open>contains\<close> implements exactly that.
\<close>

definition wf_window :: "window \<Rightarrow> bool" where
  "wf_window w \<longleftrightarrow> 0 \<le> start_min w \<and> start_min w < 1440 \<and> 0 \<le> end_min w \<and> end_min w \<le> 1440
     \<and> start_min w \<noteq> end_min w \<and> win_days w \<subseteq> {0..6}"

definition window_span :: "window \<Rightarrow> int" where
  "window_span w =
     (if start_min w \<ge> end_min w then end_min w - start_min w + 1440
      else end_min w - start_min w)"

definition effective_days :: "window \<Rightarrow> int set" where
  "effective_days w = (if win_days w = {} then {0..6} else win_days w)"

definition open_at_week_minute :: "window \<Rightarrow> int \<Rightarrow> bool" where
  "open_at_week_minute w t \<longleftrightarrow>
     (\<exists>d \<in> effective_days w. (t - (d * 1440 + start_min w)) mod 10080 < window_span w)"


lemma mod_week:
  fixes v :: int
  assumes "-10080 \<le> v" "v < 10080"
  shows "v mod 10080 = (if v < 0 then v + 10080 else v)"
proof (cases "v < 0")
  case True
  then have "v mod 10080 = (v + 10080) mod 10080" by simp
  also have "\<dots> = v + 10080" using True assms by (intro mod_pos_pos_trivial) auto
  finally show ?thesis using True by simp
next
  case False
  then show ?thesis using assms by (simp add: mod_pos_pos_trivial)
qed

lemma day_before: "0 \<le> (wd::int) \<Longrightarrow> wd \<le> 6 \<Longrightarrow> (wd - 1) mod 7 = (if wd = 0 then 6 else wd - 1)"
  by (simp add: mod_pos_pos_trivial)

lemma day_offset_mod:
  fixes wd d y s :: int
  assumes "0 \<le> wd" "wd \<le> 6" "0 \<le> d" "d \<le> 6" "-1440 < y" "y < 1440" "0 < s" "s \<le> 1440"
  shows "((wd - d) * 1440 + y) mod 10080 < s \<longleftrightarrow>
    (d = wd \<and> 0 \<le> y \<and> y < s) \<or> (d = (wd - 1) mod 7 \<and> y + 1440 < s)"
proof -
  have "(wd - d) * 1440 + y \<ge> -10080" "(wd - d) * 1440 + y < 10080"
    using assms by auto
  note m = mod_week [OF this]
  consider "d = wd" | "d = wd - 1" | "d < wd - 1" | "d = wd + 6" | "wd < d" "d < wd + 6"
    using assms(1,4) by linarith
  then show ?thesis
    unfolding m day_before [OF assms(1,2)] by cases (use assms in \<open>auto split: if_splits\<close>)
qed

text \<open>A window is an arc of the week: for a well-formed window, \<open>contains weekday minute\<close> holds
  exactly when the minute of the week lies in a span that starts at the window's start minute on
  one of its days and runs, past midnight and past Sunday if need be, to its end minute.\<close>

theorem contains_week_arc:
  assumes "wf_window w" "0 \<le> wd" "wd \<le> 6" "0 \<le> m" "m < 1440"
  shows "contains w wd m \<longleftrightarrow> open_at_week_minute w (wd * 1440 + m)"
proof -
  have arc: "(wd * 1440 + m - (d * 1440 + start_min w)) mod 10080 < window_span w \<longleftrightarrow>
      (d = wd \<and> start_min w \<le> m \<and> m < start_min w + window_span w) \<or>
      (d = (wd - 1) mod 7 \<and> m + 1440 < start_min w + window_span w)" if "d \<in> {0..6}" for d
  proof -
    have e: "wd * 1440 + m - (d * 1440 + start_min w) = (wd - d) * 1440 + (m - start_min w)"
      by (simp add: algebra_simps)
    show ?thesis unfolding e
      by (subst day_offset_mod)
        (use assms that in \<open>auto simp: wf_window_def window_span_def\<close>)
  qed
  have pd: "0 \<le> (wd - 1) mod 7" "(wd - 1) mod 7 \<le> 6" by simp_all
  have sub: "effective_days w \<subseteq> {0..6}"
    using assms(1) by (auto simp: effective_days_def wf_window_def)
  have "open_at_week_minute w (wd * 1440 + m) \<longleftrightarrow>
     (wd \<in> effective_days w \<and> start_min w \<le> m \<and> m < start_min w + window_span w) \<or>
     ((wd - 1) mod 7 \<in> effective_days w \<and> m + 1440 < start_min w + window_span w)"
    unfolding open_at_week_minute_def using arc sub by blast
  also have "\<dots> \<longleftrightarrow> contains w wd m"
    using assms pd
    by (auto simp: contains_def effective_days_def window_span_def wf_window_def Let_def)
  finally show ?thesis by simp
qed

theorem contains_week_arc_witness:
  "contains \<lparr>start_min = 1320, end_min = 360, win_label = ''sun 22:00-06:00'', win_days = {6}\<rparr> 0 90
   \<and> open_at_week_minute \<lparr>start_min = 1320, end_min = 360, win_label = ''sun 22:00-06:00'', win_days = {6}\<rparr> 90"
    (is "contains ?w 0 90 \<and> _")
proof -
  have c: "contains ?w 0 90" by (simp add: contains_def)
  show ?thesis using contains_week_arc [of ?w 0 90] c by (simp add: wf_window_def)
qed

subsection \<open>The next runnable minute\<close>

lemma week_later:
  fixes x :: int
  shows "(x + 10080) div 60 mod 24 = x div 60 mod 24" "(x + 10080) mod 60 = x mod 60"
    "(x + 10080) div 1440 mod 7 = x div 1440 mod 7"
proof -
  have "(x + 10080) div 60 = 168 + x div 60" using div_mult_self1 [of 60 x 168] by simp
  then show "(x + 10080) div 60 mod 24 = x div 60 mod 24"
    using mod_mult_self1 [of "x div 60" 7 24] by (simp add: add.commute)
  show "(x + 10080) mod 60 = x mod 60" using mod_mult_self1 [of x 168 60] by simp
  have "(x + 10080) div 1440 = 7 + x div 1440" using div_mult_self1 [of 1440 x 7] by simp
  then show "(x + 10080) div 1440 mod 7 = x div 1440 mod 7" by simp
qed

lemma should_run_weekly:
  "should_run rw pw (minute_after t (k + 10080)) = should_run rw pw (minute_after t k)"
proof -
  have "wall_min (minute_after t (k + 10080)) = wall_min (minute_after t k) + 10080"
    by (simp add: minute_after_def)
  then have "minute_of_day (minute_after t (k + 10080)) = minute_of_day (minute_after t k)"
    "ldt_weekday (minute_after t (k + 10080)) = ldt_weekday (minute_after t k)"
    by (simp_all only: minute_of_day_def ldt_weekday_def week_later)
  then show ?thesis by (simp only: should_run_def)
qed

lemma should_run_weekly_mult:
  "should_run rw pw (minute_after t (k + n * 10080)) = should_run rw pw (minute_after t k)"
proof (induction n)
  case 0
  show ?case by simp
next
  case (Suc n)
  then show ?case
    using should_run_weekly [of rw pw t "k + n * 10080"] by (simp add: algebra_simps)
qed

lemma next_resume_at_NoneD:
  assumes "next_resume_at rw pw t = None" "1 \<le> k"
  shows "\<not> should_run rw pw (minute_after t k)"
proof -
  have none: "\<not> should_run rw pw (minute_after t j)" if "1 \<le> j" "j \<le> search_horizon_min" for j
    using assms(1) that by (auto simp: next_resume_at_def find_None_iff2)
  define j n where "j = Suc ((k - 1) mod 10080)" and "n = (k - 1) div 10080"
  have "k = j + n * 10080"
    using assms(2) div_mult_mod_eq [of "k - 1" 10080] by (simp add: j_def n_def algebra_simps)
  moreover have "1 \<le> j" "j \<le> search_horizon_min"
    using mod_less_divisor [of 10080 "k - 1"] by (simp_all add: j_def search_horizon_min_def)
  ultimately show ?thesis using none should_run_weekly_mult by metis
qed

lemma next_resume_at_SomeD:
  assumes "next_resume_at rw pw t = Some r"
  shows "\<exists>k. 1 \<le> k \<and> k \<le> search_horizon_min \<and> r = minute_after t k \<and> should_run rw pw r
     \<and> (\<forall>j. 1 \<le> j \<and> j < k \<longrightarrow> \<not> should_run rw pw (minute_after t j))"
proof -
  from assms obtain k
    where f: "find (\<lambda>k. should_run rw pw (minute_after t k)) [1..<Suc search_horizon_min] = Some k"
      and r: "r = minute_after t k"
    by (auto simp: next_resume_at_def)
  show ?thesis using find_upt_least [OF f] r by (intro exI [of _ k]) auto
qed

text \<open>\<open>next_resume_at\<close> is exact: the instant it returns is runnable, is within the eight-day
  horizon and no earlier minute is runnable; when it returns None no later minute, however far, is
  runnable, so the eight-day horizon loses nothing.\<close>

theorem next_resume_at_first_open_minute:
  "case next_resume_at rw pw t of
     Some r \<Rightarrow> \<exists>k. 1 \<le> k \<and> k \<le> search_horizon_min \<and> r = minute_after t k \<and> should_run rw pw r
        \<and> (\<forall>j. 1 \<le> j \<and> j < k \<longrightarrow> \<not> should_run rw pw (minute_after t j))
   | None \<Rightarrow> \<forall>k\<ge>1. \<not> should_run rw pw (minute_after t k)"
  using next_resume_at_SomeD [of rw pw t] next_resume_at_NoneD [of rw pw t]
  by (auto split: option.split)

theorem next_resume_at_first_open_minute_witness:
  "next_resume_at [\<lparr>start_min = 540, end_min = 1020, win_label = ''mon-fri 09:00-17:00'', win_days = {0,1,2,3,4}\<rparr>] []
     \<lparr>wall_min = 539, sub_us = 7\<rparr> = Some \<lparr>wall_min = 540, sub_us = 0\<rparr>"
    (is "next_resume_at ?rw [] ?t = Some ?r")
proof -
  have run: "should_run ?rw [] (minute_after ?t 1)"
    by (simp add: should_run_def contains_def minute_after_def minute_of_day_def ldt_weekday_def)
  show ?thesis
  proof (cases "next_resume_at ?rw [] ?t")
    case None
    with next_resume_at_first_open_minute [of ?rw "[]" ?t] run show ?thesis by fastforce
  next
    case (Some r)
    with next_resume_at_first_open_minute [of ?rw "[]" ?t] obtain k where k: "1 \<le> k" "r = minute_after ?t k"
      "\<forall>j. 1 \<le> j \<and> j < k \<longrightarrow> \<not> should_run ?rw [] (minute_after ?t j)" by auto
    with run have "k = 1" by (metis One_nat_def nat_less_le order_refl)
    with Some k(2) show ?thesis by (simp add: minute_after_def)
  qed
qed

lemma weekday_range: "map_of weekdays a = Some d \<Longrightarrow> 0 \<le> d \<and> d \<le> 6"
  by (auto simp: weekdays_def split: if_splits)

lemma parse_weekday_token_range: "parse_weekday_token t = Inr d \<Longrightarrow> d \<subseteq> {0..6} \<and> d \<noteq> {}"
  by (auto simp: parse_weekday_token_def Let_def split: if_splits option.splits prod.splits
      dest!: weekday_range)

lemma parse_weekday_tokens_range:
  "parse_weekday_tokens ts d0 = Inr d \<Longrightarrow> d0 \<subseteq> {0..6} \<Longrightarrow> d0 \<noteq> {} \<or> ts \<noteq> [] \<Longrightarrow> d \<subseteq> {0..6} \<and> d \<noteq> {}"
proof (induction ts arbitrary: d0)
  case (Cons t ts)
  then obtain e where e: "parse_weekday_token t = Inr e" "parse_weekday_tokens ts (d0 \<union> e) = Inr d"
    by (auto simp: res_bind_Inr_iff)
  then show ?case using Cons.IH [of "d0 \<union> e"] Cons.prems parse_weekday_token_range [OF e(1)] by blast
qed auto

lemma parse_weekday_spec_range: "parse_weekday_spec s = Inr d \<Longrightarrow> d \<subseteq> {0..6} \<and> d \<noteq> {}"
  unfolding parse_weekday_spec_def by (rule parse_weekday_tokens_range) auto

lemma to_minutes_range:
  "to_minutes h m a = Inr t \<Longrightarrow> 0 \<le> t \<and> t \<le> 1440 \<and> (\<not> a \<longrightarrow> t < 1440)"
  by (auto simp: to_minutes_def minutes_per_day_def split: if_splits)

lemma parse_window_wf:
  assumes "parse_window s = Inr w"
  shows "0 \<le> start_min w \<and> start_min w < 1440 \<and> 0 \<le> end_min w \<and> end_min w \<le> 1440
     \<and> start_min w \<noteq> end_min w \<and> win_days w \<subseteq> {0..6} \<and> win_label w = s"
proof -
  from assms obtain ds tp where p: "window_parts s = Inr (ds, tp)"
    by (auto simp: parse_window_def res_bind_Inr_iff)
  have ds: "ds \<subseteq> {0..6}"
    using p by (auto simp: window_parts_def Let_def res_bind_Inr_iff split: list.splits if_splits
      dest: parse_weekday_spec_range)
  from assms p obtain sh sm eh em st en where
      "to_minutes sh sm False = Inr st" "to_minutes eh em True = Inr en" "st \<noteq> en"
      "w = \<lparr>start_min = st, end_min = en, win_label = s, win_days = ds\<rparr>"
    by (auto simp: parse_window_def res_bind_Inr_iff split: option.splits if_splits)
  with ds show ?thesis by (auto dest: to_minutes_range)
qed

subsection \<open>Parsing a rendered window\<close>

definition hhmm :: "int \<Rightarrow> int \<Rightarrow> string" where
  "hhmm h m = [digit_char (h div 10), digit_char (h mod 10), CHR '':'',
               digit_char (m div 10), digit_char (m mod 10)]"

definition window_text :: "string option \<Rightarrow> int \<Rightarrow> int \<Rightarrow> int \<Rightarrow> int \<Rightarrow> string" where
  "window_text dayspec sh sm eh em =
     (case dayspec of None \<Rightarrow> [] | Some a \<Rightarrow> a @ '' '') @ hhmm sh sm @ ''-'' @ hhmm eh em"

definition dayspec_days :: "string option \<Rightarrow> int set res" where
  "dayspec_days dayspec = (case dayspec of None \<Rightarrow> Inr {} | Some a \<Rightarrow> parse_weekday_spec a)"

lemma tens: "0 \<le> (n::int) \<Longrightarrow> n \<le> 99 \<Longrightarrow> 0 \<le> n div 10 \<and> n div 10 \<le> 9 \<and> 0 \<le> n mod 10 \<and> n mod 10 \<le> 9"
  by auto

lemma two_digits_render:
  "0 \<le> n \<Longrightarrow> n \<le> 99 \<Longrightarrow> two_digits (digit_char (n div 10)) (digit_char (n mod 10)) = n"
  using tens [of n] by (simp add: two_digits_def digit_val_digit_char)

lemma digit_char_ok: "0 \<le> n \<Longrightarrow> n \<le> 99 \<Longrightarrow>
   is_digit (digit_char (n div 10)) \<and> is_digit (digit_char (n mod 10))"
  using tens [of n] by (simp add: is_digit_digit_char)

lemma time_text_re:
  assumes "0 \<le> a" "a \<le> 99" "0 \<le> b" "b \<le> 99" "0 \<le> c" "c \<le> 99" "0 \<le> d" "d \<le> 99"
  shows "window_re (hhmm a b @ ''-'' @ hhmm c d) = Some (a, b, c, d)"
  using assms digit_char_ok [OF assms(1,2)] digit_char_ok [OF assms(3,4)] digit_char_ok [OF assms(5,6)]
    digit_char_ok [OF assms(7,8)]
  by (simp add: window_re_def hhmm_def two_digits_render nth_Cons')

lemma time_text_no_space:
  assumes "0 \<le> a" "a \<le> 99" "0 \<le> b" "b \<le> 99" "0 \<le> c" "c \<le> 99" "0 \<le> d" "d \<le> 99"
  shows "\<forall>x \<in> set (hhmm a b @ ''-'' @ hhmm c d). \<not> is_space x"
proof -
  have "\<not> is_space (CHR '':'')" "\<not> is_space (CHR ''-'')"
    by (simp_all add: is_space_def char_code_def)
  then show ?thesis
    using digit_char_ok [OF assms(1,2)] digit_char_ok [OF assms(3,4)]
      digit_char_ok [OF assms(5,6)] digit_char_ok [OF assms(7,8)]
    by (simp add: hhmm_def digit_not_space)
qed

lemma py_split_ws1_two_words:
  assumes "a \<noteq> []" "\<forall>x \<in> set a. \<not> is_space x" "b \<noteq> []" "\<forall>x \<in> set b. \<not> is_space x"
  shows "py_split_ws1 (a @ '' '' @ b) = [a, b]"
proof -
  have sp: "is_space (CHR '' '')" by (simp add: is_space_def char_code_def)
  obtain x xs where a: "a = x # xs" using assms(1) by (cases a) auto
  obtain y ys where b: "b = y # ys" using assms(3) by (cases b) auto
  have d: "dropWhile is_space (a @ '' '' @ b) = a @ '' '' @ b" using assms(2) a by simp
  have t: "takeWhile (\<lambda>c. \<not> is_space c) (a @ '' '' @ b) = a"
    using assms(2) sp by (simp add: takeWhile_append2 takeWhile_append1)
  have r: "dropWhile (\<lambda>c. \<not> is_space c) (a @ '' '' @ b) = '' '' @ b"
    using assms(2) sp by (simp add: dropWhile_append2)
  have r2: "dropWhile is_space ('' '' @ b) = b" using sp assms(4) b by simp
  show ?thesis using assms(1,3) by (simp only: py_split_ws1_def Let_def d t r r2) simp
qed

lemma window_parts_text:
  assumes re: "window_re t = Some q" and t: "t \<noteq> []" "\<forall>x \<in> set t. \<not> is_space x"
    and a: "\<And>x. dayspec = Some x \<Longrightarrow> x \<noteq> [] \<and> (\<forall>c \<in> set x. \<not> is_space c)"
    and ds: "dayspec_days dayspec = Inr ds"
  shows "window_parts ((case dayspec of None \<Rightarrow> [] | Some a \<Rightarrow> a @ '' '') @ t) = Inr (ds, t)"
proof (cases dayspec)
  case None
  have "py_strip t = t" using t by (intro py_strip_id) auto
  then show ?thesis
    using None ds t py_split_ws1_one_word [OF t] by (simp add: window_parts_def dayspec_days_def)
next
  case (Some x)
  note x = a [OF Some]
  have "py_strip (x @ '' '' @ t) = x @ '' '' @ t"
    using x t by (intro py_strip_id) (cases x; auto)+
  then show ?thesis
    using Some ds py_split_ws1_two_words [of x t] x t re
    by (cases q) (simp add: window_parts_def dayspec_days_def)
qed

text \<open>Parsing a printed window: a string \<open>[DAYS ]HH:MM-HH:MM\<close> of in-range, different bounds (24:00
  allowed as the end) with a day specification that parses is read back as exactly those bounds,
  those days and the text itself as its label.\<close>

theorem parse_window_text:
  assumes start: "0 \<le> sh" "sh \<le> 23" "0 \<le> sm" "sm \<le> 59"
    and en: "(0 \<le> eh \<and> eh \<le> 23 \<and> 0 \<le> em \<and> em \<le> 59) \<or> (eh = 24 \<and> em = 0)"
    and ne: "sh * 60 + sm \<noteq> eh * 60 + em"
    and a: "\<And>x. dayspec = Some x \<Longrightarrow> x \<noteq> [] \<and> (\<forall>c \<in> set x. \<not> is_space c)"
    and ds: "dayspec_days dayspec = Inr ds"
  shows "parse_window (window_text dayspec sh sm eh em) =
     Inr \<lparr>start_min = sh * 60 + sm, end_min = eh * 60 + em,
          win_label = window_text dayspec sh sm eh em, win_days = ds\<rparr>"
proof -
  let ?t = "hhmm sh sm @ ''-'' @ hhmm eh em"
  have b: "0 \<le> sh" "sh \<le> 99" "0 \<le> sm" "sm \<le> 99" "0 \<le> eh" "eh \<le> 99" "0 \<le> em" "em \<le> 99"
    using start en by auto
  have parts: "window_parts (window_text dayspec sh sm eh em) = Inr (ds, ?t)"
    unfolding window_text_def
    by (rule window_parts_text [OF time_text_re [OF b] _ time_text_no_space [OF b] a ds])
      (simp_all add: hhmm_def)
  have "to_minutes sh sm False = Inr (sh * 60 + sm)" "to_minutes eh em True = Inr (eh * 60 + em)"
    using start en by (auto simp: to_minutes_def minutes_per_day_def)
  then show ?thesis
    using ne unfolding parse_window_def parts by (simp only: res_bind.simps prod.case time_text_re [OF b]) simp
qed

theorem parse_window_text_witness:
  "parse_window (window_text (Some ''mon-fri,sun'') 22 0 6 30) =
     Inr \<lparr>start_min = 1320, end_min = 390, win_label = ''mon-fri,sun 22:00-06:30'',
          win_days = {0,1,2,3,4,6}\<rparr>"
proof -
  have ds: "dayspec_days (Some ''mon-fri,sun'') = Inr {0,1,2,3,4,6}"
    by code_simp
  have tx: "window_text (Some ''mon-fri,sun'') 22 0 6 30 = ''mon-fri,sun 22:00-06:30''"
    by code_simp
  have ns: "\<forall>c \<in> set ''mon-fri,sun''. \<not> is_space c" by code_simp
  show ?thesis using parse_window_text [of 22 0 6 30 "Some ''mon-fri,sun''", OF _ _ _ _ _ _ _ ds] ns
    by (simp add: tx)
qed

end
