(* ===== verification/Throttle.thy ===== *)
theory Throttle
  imports Event_Log "HOL-Library.AList"
begin

section \<open>Throttle state (agent\_runner/\_throttle.py)\<close>

text \<open>
  The supervisor derives whether an agent is throttled from the event log alone: the latest
  transient event per agent, the exponential back-off ladder counted from the detections since
  the last good round, the scalar and the per-agent views, the recovered breadcrumbs, and the
  back-off sleep. A Python \<open>dict\<close> is an association list in insertion order
  (\<open>AList.update\<close> replaces in place or appends, as \<open>d[k] = v\<close> does).
\<close>

subsection \<open>Constants and coercions\<close>

definition back_off_defaults :: "string \<Rightarrow> int option" where
  "back_off_defaults =
     map_of [(''rate_limit_model'', 60), (''api_transient_5xx'', 60), (''api_timeout'', 30)]"

definition exp_cap :: nat where "exp_cap = 5"

definition absolute_cap_s :: int where "absolute_cap_s = 1800"

definition epoch_sanity_window_s :: int where "epoch_sanity_window_s = 366 * 24 * 3600"

definition coerce_epoch_int :: "pyval \<Rightarrow> int \<Rightarrow> real \<Rightarrow> int" where
  "coerce_epoch_int v dflt now_epoch =
     (let coerced = coerce_int v dflt
      in if coerced < 0 \<or> real_of_int coerced > now_epoch + real_of_int epoch_sanity_window_s
         then dflt else coerced)"

subsection \<open>The latest transient event\<close>

datatype transient_scan = NoTransient | LatestRecovered | LatestDetected event

definition transient_step :: "event \<Rightarrow> transient_scan \<Rightarrow> transient_scan" where
  "transient_step ev latest =
     (if is_kind ev TRANSIENT_ERROR_DETECTED then LatestDetected ev
      else if is_kind ev TRANSIENT_ERROR_RECOVERED then LatestRecovered
      else latest)"

definition scan_events_for_transient :: "event list \<Rightarrow> transient_scan" where
  "scan_events_for_transient evs = fold transient_step evs NoTransient"

fun first_transient_file :: "log_dir \<Rightarrow> event option" where
  "first_transient_file [] = None"
| "first_transient_file ((month, evs) # rest) =
     (case scan_events_for_transient evs of
        NoTransient \<Rightarrow> first_transient_file rest
      | LatestRecovered \<Rightarrow> None
      | LatestDetected ev \<Rightarrow> Some ev)"

definition latest_unrecovered_detected :: "log_dir \<Rightarrow> event option" where
  "latest_unrecovered_detected logd = first_transient_file (rev (newest_month_files logd 2))"

definition agent_of :: "event \<Rightarrow> string" where
  "agent_of ev = py_str (ev_get_or ev ''agent'' (PStr ''unknown''))"

type_synonym transient_map = "(string \<times> event option) list"

definition transient_agent_step :: "event \<Rightarrow> transient_map \<Rightarrow> transient_map" where
  "transient_agent_step ev latest =
     (if is_kind ev TRANSIENT_ERROR_DETECTED then AList.update (agent_of ev) (Some ev) latest
      else if is_kind ev TRANSIENT_ERROR_RECOVERED then AList.update (agent_of ev) None latest
      else latest)"

definition transient_per_agent :: "event list \<Rightarrow> transient_map" where
  "transient_per_agent evs = fold transient_agent_step evs []"

definition latest_transient_per_agent :: "log_dir \<Rightarrow> transient_map" where
  "latest_transient_per_agent logd = transient_per_agent (tail_events logd)"

subsection \<open>The back-off ladder\<close>

text \<open>\<open>_backoff_exponent\<close> compares \<open>str(ev.get("agent", ""))\<close>: the default is the empty label here.\<close>

definition exponent_step :: "string \<Rightarrow> event \<Rightarrow> nat \<Rightarrow> nat" where
  "exponent_step agent ev n =
     (if py_str (ev_get_or ev ''agent'' (PStr [])) \<noteq> agent then n
      else if is_kind ev TRANSIENT_ERROR_DETECTED then n + 1
      else if is_kind ev AGENT_USAGE_RECORDED \<and> py_truthy (ev_get ev ''success'') then 0
      else n)"

definition exponent_of :: "event list \<Rightarrow> string \<Rightarrow> nat" where
  "exponent_of evs agent = fold (exponent_step agent) evs 0 - 1"

definition backoff_exponent :: "log_dir \<Rightarrow> string \<Rightarrow> nat" where
  "backoff_exponent logd agent = exponent_of (tail_events logd) agent"

definition extend_reset :: "string \<Rightarrow> int \<Rightarrow> nat \<Rightarrow> int" where
  "extend_reset classification reset_at_epoch exponent =
     (case back_off_defaults classification of
        None \<Rightarrow> reset_at_epoch
      | Some base \<Rightarrow>
          if classification = ''rate_limit_account'' \<or> exponent = 0 then reset_at_epoch
          else reset_at_epoch + min (base * (2 ^ min exponent exp_cap - 1)) absolute_cap_s)"

text \<open>
  \<open>_exponent_cache\<close> memoizes \<open>_backoff_exponent\<close>: a caller passes what it already knows per
  agent (\<open>Map.empty\<close> for no cache or a fresh one), the rest is computed from the log.
\<close>

definition events_derived_reset ::
  "log_dir \<Rightarrow> string \<Rightarrow> string \<Rightarrow> int \<Rightarrow> (string \<rightharpoonup> nat) \<Rightarrow> int" where
  "events_derived_reset logd agent classification reset_at_epoch cache =
     extend_reset classification reset_at_epoch
       (case cache agent of Some n \<Rightarrow> n | None \<Rightarrow> backoff_exponent logd agent)"

subsection \<open>Views\<close>

record transient_state =
  ts_reset_at_epoch :: int
  ts_classification :: string
  ts_agent :: string
  ts_since_round :: int
  ts_phase :: string

definition classification_of :: "event \<Rightarrow> string" where
  "classification_of ev = py_str (ev_get_or ev ''classification'' (PStr ''rate_limit_account''))"

definition transient_state_of :: "event \<Rightarrow> string \<Rightarrow> int \<Rightarrow> transient_state" where
  "transient_state_of detected agent reset_at =
     \<lparr>ts_reset_at_epoch = reset_at, ts_classification = classification_of detected,
      ts_agent = agent, ts_since_round = coerce_int (ev_get detected ''round_num'') 0,
      ts_phase = py_str (ev_get_or detected ''phase'' (PStr []))\<rparr>"

definition detected_reset :: "log_dir \<Rightarrow> real \<Rightarrow> (string \<rightharpoonup> nat) \<Rightarrow> string \<Rightarrow> event \<Rightarrow> int" where
  "detected_reset logd now cache agent detected =
     events_derived_reset logd agent (classification_of detected)
       (coerce_epoch_int (ev_get detected ''reset_at_epoch'') 0 now) cache"

fun active_of :: "log_dir \<Rightarrow> real \<Rightarrow> (string \<rightharpoonup> nat) \<Rightarrow> transient_map \<Rightarrow> (string \<times> transient_state) list" where
  "active_of logd now cache [] = []"
| "active_of logd now cache ((agent, None) # rest) = active_of logd now cache rest"
| "active_of logd now cache ((agent, Some detected) # rest) =
     (let reset_at = detected_reset logd now cache agent detected
      in if real_of_int reset_at \<le> now then active_of logd now cache rest
         else (agent, transient_state_of detected agent reset_at) # active_of logd now cache rest)"

definition active_throttles ::
  "log_dir \<Rightarrow> real \<Rightarrow> (string \<rightharpoonup> nat) \<Rightarrow> transient_map option \<Rightarrow> (string \<times> transient_state) list" where
  "active_throttles logd now cache latest =
     active_of logd now cache
       (case latest of Some m \<Rightarrow> m | None \<Rightarrow> latest_transient_per_agent logd)"

definition check_throttle_state :: "log_dir \<Rightarrow> real \<Rightarrow> transient_state option" where
  "check_throttle_state logd now =
     (case latest_unrecovered_detected logd of
        None \<Rightarrow> None
      | Some detected \<Rightarrow>
          let agent = agent_of detected;
              reset_at = detected_reset logd now Map.empty agent detected
          in if real_of_int reset_at \<le> now then None
             else Some (transient_state_of detected agent reset_at))"

text \<open>\<open>max(active.values(), key=...)\<close>: the first entry with the largest reset.\<close>

fun max_reset :: "transient_state \<Rightarrow> transient_state list \<Rightarrow> transient_state" where
  "max_reset best [] = best"
| "max_reset best (s # ss) =
     max_reset (if ts_reset_at_epoch s > ts_reset_at_epoch best then s else best) ss"

definition effective_throttle_view ::
  "log_dir \<Rightarrow> real \<Rightarrow> transient_state option \<times> (string \<times> transient_state) list" where
  "effective_throttle_view logd now =
     (let throttle = check_throttle_state logd now;
          active = active_throttles logd now Map.empty None
      in case throttle of
           Some t \<Rightarrow> (case map_of active (ts_agent t) of
                        Some a \<Rightarrow> (Some a, active)
                      | None \<Rightarrow> (Some t, active))
         | None \<Rightarrow> (case map snd active of
                      [] \<Rightarrow> (None, active)
                    | s # ss \<Rightarrow> (Some (max_reset s ss), active)))"

text \<open>
  \<open>datetime.timestamp()\<close> in seconds; a naive value is read in the host's zone, which is the
  parameter \<open>local_ts\<close>.
\<close>

definition dt_timestamp :: "(int \<Rightarrow> real) \<Rightarrow> pydt \<Rightarrow> real" where
  "dt_timestamp local_ts dt = (case dt of Aware us \<Rightarrow> real_of_int us / 1000000 | Naive us \<Rightarrow> local_ts us)"

definition mem_loop_event_counts :: "(int \<Rightarrow> real) \<Rightarrow> real \<Rightarrow> event \<Rightarrow> bool res" where
  "mem_loop_event_counts local_ts cutoff ev =
     (if \<not> is_kind ev MEM_LOOP \<or> \<not> py_truthy (ev_get ev ''ts'') then Inr False
      else (case ev_get ev ''ts'' of
              PStr ts \<Rightarrow> res_bind (parse_iso_ms ts) (\<lambda>dt. Inr (dt_timestamp local_ts dt \<ge> cutoff))
            | _ \<Rightarrow> Inl AttributeError))"

definition mem_loop_events_in_window :: "(int \<Rightarrow> real) \<Rightarrow> log_dir \<Rightarrow> real \<Rightarrow> int \<Rightarrow> nat res" where
  "mem_loop_events_in_window local_ts logd now window_s =
     res_bind (res_map (mem_loop_event_counts local_ts (now - real_of_int window_s)) (tail_events logd))
       (\<lambda>hits. Inr (length (filter id hits)))"

subsection \<open>Recovered breadcrumbs\<close>

definition elapsed_s :: "real \<Rightarrow> real \<Rightarrow> int" where
  "elapsed_s since_epoch now = max 0 (py_trunc (now - since_epoch))"

text \<open>A naive \<open>ts\<close> is read as UTC.\<close>

definition throttled_for_s :: "pyval \<Rightarrow> real \<Rightarrow> int" where
  "throttled_for_s ts now =
     (if \<not> py_truthy ts then 0
      else (case parse_iso_ms (py_str ts) of
              Inl e \<Rightarrow> 0
            | Inr (Aware us) \<Rightarrow> elapsed_s (real_of_int us / 1000000) now
            | Inr (Naive us) \<Rightarrow> elapsed_s (real_of_int us / 1000000) now))"

definition pending_recovered ::
  "log_dir \<Rightarrow> real \<Rightarrow> (string \<times> transient_state) list option \<Rightarrow> (string \<times> string \<times> int) list" where
  "pending_recovered logd now active_opt =
     (let active = (case active_opt of Some a \<Rightarrow> a | None \<Rightarrow> active_throttles logd now Map.empty None)
      in List.map_filter (\<lambda>(agent, detected).
           case detected of
             None \<Rightarrow> None
           | Some d \<Rightarrow> if map_of active agent \<noteq> None then None
                       else Some (agent, classification_of d, throttled_for_s (ev_get d ''ts'') now))
         (latest_transient_per_agent logd))"

definition recovered_payload :: "string \<Rightarrow> string \<Rightarrow> int \<Rightarrow> event" where
  "recovered_payload classification agent throttled_s =
     [''classification'' \<mapsto> PStr classification, ''agent'' \<mapsto> PStr agent,
      ''throttled_for_s'' \<mapsto> PInt throttled_s]"

definition emit_transient_error_recovered ::
  "clock \<Rightarrow> string \<Rightarrow> string \<Rightarrow> int \<Rightarrow> log_dir \<Rightarrow> log_dir" where
  "emit_transient_error_recovered ck classification agent throttled_s logd =
     emit_builtin ck TRANSIENT_ERROR_RECOVERED (recovered_payload classification agent throttled_s) logd"

text \<open>\<open>_serve_round._maybe_emit_recovered\<close>.\<close>

definition maybe_emit_recovered ::
  "clock \<Rightarrow> (string \<times> transient_state) list option \<Rightarrow> log_dir \<Rightarrow> log_dir" where
  "maybe_emit_recovered ck active logd =
     fold (\<lambda>(agent, classification, secs). emit_transient_error_recovered ck classification agent secs)
       (pending_recovered logd (ck_epoch ck) active) logd"

subsection \<open>The adjusted reset of the back-off path\<close>

definition opt_int_field :: "string \<Rightarrow> int option \<Rightarrow> event" where
  "opt_int_field k v = (case v of None \<Rightarrow> Map.empty | Some n \<Rightarrow> [k \<mapsto> PInt n])"

definition backoff_capped_payload ::
  "string \<Rightarrow> string \<Rightarrow> int \<Rightarrow> int \<Rightarrow> int option \<Rightarrow> int option \<Rightarrow> int option \<Rightarrow> bool option \<Rightarrow> event" where
  "backoff_capped_payload classification agent requested applied original applied_reset cnt capped =
     [''classification'' \<mapsto> PStr classification, ''agent'' \<mapsto> PStr agent,
      ''requested_sleep_s'' \<mapsto> PInt requested, ''applied_sleep_s'' \<mapsto> PInt applied]
     ++ opt_int_field ''original_reset_at_epoch'' original
     ++ opt_int_field ''applied_reset_at_epoch'' applied_reset
     ++ opt_int_field ''consecutive_count'' cnt
     ++ (case capped of None \<Rightarrow> Map.empty | Some b \<Rightarrow> [''capped_by_absolute_max'' \<mapsto> PBool b])"

definition emit_backoff_capped ::
  "clock \<Rightarrow> string \<Rightarrow> string \<Rightarrow> int \<Rightarrow> int \<Rightarrow> int option \<Rightarrow> int option \<Rightarrow> int option \<Rightarrow> bool option
     \<Rightarrow> log_dir \<Rightarrow> log_dir" where
  "emit_backoff_capped ck classification agent requested applied original applied_reset cnt capped logd =
     emit_builtin ck TRANSIENT_ERROR_BACKOFF_CAPPED
       (backoff_capped_payload classification agent requested applied original applied_reset cnt capped)
       logd"

text \<open>The result is \<open>(applied_reset_at_epoch, consecutive_count, capped)\<close> and the log.\<close>

definition compute_adjusted_reset_at ::
  "clock \<Rightarrow> string \<Rightarrow> int \<Rightarrow> string \<Rightarrow> log_dir \<Rightarrow> (int \<times> nat \<times> bool) \<times> log_dir" where
  "compute_adjusted_reset_at ck classification original_reset_at_epoch agent logd =
     (case (if classification = ''rate_limit_account'' then None else back_off_defaults classification) of
        None \<Rightarrow> ((original_reset_at_epoch, 0, False), logd)
      | Some base \<Rightarrow>
          let n = backoff_exponent logd agent;
              multiplier = (2::int) ^ min n exp_cap;
              extended_duration = base * multiplier;
              capped = extended_duration > absolute_cap_s;
              applied_duration = min extended_duration absolute_cap_s;
              applied_reset_at = py_trunc (ck_epoch ck) + applied_duration;
              new_count = n + 1;
              logd' = (if multiplier > 1 \<or> capped
                       then emit_backoff_capped ck classification agent base applied_duration
                              (Some original_reset_at_epoch) (Some applied_reset_at)
                              (Some (int new_count)) (Some capped) logd
                       else logd)
          in ((applied_reset_at, new_count, capped), logd'))"

subsection \<open>The interruptible sleep\<close>

text \<open>
  What one slice of the sleep observes: the stop flag and the stop predicate at its start, the
  wall clock, and the monotonic time the wait took (a live listener may return early). The loop
  consumes one observation per slice; \<open>None\<close> says the observations ran out before it returned.
\<close>

record sleep_obs =
  ob_stop :: bool
  ob_should_stop :: bool
  ob_epoch :: real
  ob_elapsed :: real

fun interruptible_sleep ::
  "bool \<Rightarrow> real \<Rightarrow> real option \<Rightarrow> real \<Rightarrow> sleep_obs list \<Rightarrow> bool option" where
  "interruptible_sleep null_listener chunk_s deadline remaining [] =
     (if remaining > 0 then None else Some False)"
| "interruptible_sleep null_listener chunk_s deadline remaining (ob # obs) =
     (if remaining > 0 then
        if ob_stop ob \<or> ob_should_stop ob then Some True
        else if (case deadline of None \<Rightarrow> False | Some d \<Rightarrow> ob_epoch ob \<ge> d) then Some False
        else let nap = min chunk_s remaining;
                 used = (if null_listener then nap else max 0 (ob_elapsed ob))
             in interruptible_sleep null_listener chunk_s deadline (remaining - used) obs
      else Some False)"

subsection \<open>The back-off\<close>

definition back_off_cap_s :: int where "back_off_cap_s = 28800"

text \<open>The clock is read afresh at each use; the jitter is drawn from \<open>[5, 30]\<close>.\<close>

record back_off_env =
  be_coerce :: clock
  be_adjust :: clock
  be_request :: clock
  be_start :: clock
  be_end :: clock
  be_jitter :: real

definition raw_reset_of :: "real \<Rightarrow> transient_state \<Rightarrow> log_dir \<Rightarrow> int" where
  "raw_reset_of now throttle logd =
     (case latest_unrecovered_detected logd of
        Some raw \<Rightarrow>
          if agent_of raw = ts_agent throttle
          then coerce_epoch_int (ev_get raw ''reset_at_epoch'') (ts_reset_at_epoch throttle) now
          else ts_reset_at_epoch throttle
      | None \<Rightarrow> ts_reset_at_epoch throttle)"

definition apply_back_off ::
  "back_off_env \<Rightarrow> real \<Rightarrow> transient_state \<Rightarrow> sleep_obs list \<Rightarrow> log_dir \<Rightarrow> (bool \<times> log_dir) option" where
  "apply_back_off env chunk_s throttle obs logd =
     (let raw_reset = raw_reset_of (ck_epoch (be_coerce env)) throttle logd in
      case compute_adjusted_reset_at (be_adjust env) (ts_classification throttle) raw_reset
             (ts_agent throttle) logd of
        ((adjusted, cnt, capped), logd1) \<Rightarrow>
          let deadline = real_of_int adjusted + be_jitter env;
              requested = deadline - ck_epoch (be_request env);
              over = requested > real_of_int back_off_cap_s;
              logd2 = (if over
                       then emit_backoff_capped (be_request env) (ts_classification throttle)
                              (ts_agent throttle) (py_trunc requested) back_off_cap_s
                              None None None None logd1
                       else logd1);
              sleep_s = (if over then real_of_int back_off_cap_s else max requested 0)
          in (case interruptible_sleep True chunk_s (Some deadline) sleep_s obs of
                None \<Rightarrow> None
              | Some True \<Rightarrow> Some (True, logd2)
              | Some False \<Rightarrow>
                  Some (False, emit_transient_error_recovered (be_end env) (ts_classification throttle)
                     (ts_agent throttle)
                     (elapsed_s (ck_epoch (be_start env)) (ck_epoch (be_end env))) logd2)))"

subsection \<open>The ladder\<close>

lemma back_off_defaults_range:
  "back_off_defaults c = Some base \<Longrightarrow> 30 \<le> base \<and> base \<le> 60 \<and> c \<noteq> ''rate_limit_account''"
  by (auto simp: back_off_defaults_def split: if_splits)

lemma pow_cap_mono: "(m::nat) \<le> n \<Longrightarrow> (2::int) ^ min m exp_cap \<le> 2 ^ min n exp_cap"
  by (intro power_increasing) auto

text \<open>The back-off ladder of a transient error (\<open>_throttle._extend_reset\<close>): the extended
  reset is never before the raw reset nor more than the absolute cap after it, it grows with the
  number of consecutive unrecovered detections, an account limit or a zero exponent leaves the
  reset alone, and the first repetition already adds at least the base of its classification.\<close>

theorem extend_reset_ladder:
  "reset \<le> extend_reset c reset n
   \<and> extend_reset c reset n \<le> reset + absolute_cap_s
   \<and> (m \<le> n \<longrightarrow> extend_reset c reset m \<le> extend_reset c reset n)
   \<and> (back_off_defaults c = None \<or> n = 0 \<longrightarrow> extend_reset c reset n = reset)
   \<and> (\<forall>base. back_off_defaults c = Some base \<and> n \<ge> 1 \<longrightarrow> extend_reset c reset n \<ge> reset + base)"
proof (cases "back_off_defaults c")
  case None
  then show ?thesis by (simp add: extend_reset_def absolute_cap_s_def)
next
  case (Some base)
  note b = back_off_defaults_range [OF Some]
  define f where "f k = base * ((2::int) ^ min k exp_cap - 1)" for k
  have e: "extend_reset c reset k = (if k = 0 then reset else reset + min (f k) 1800)" for k
    using Some b by (simp add: extend_reset_def f_def absolute_cap_s_def)
  have p1: "k \<ge> 1 \<Longrightarrow> (2::int) ^ min k exp_cap \<ge> 2" for k
    using power_increasing [of 1 "min k exp_cap" "2::int"] by (simp add: exp_cap_def)
  have nn: "0 \<le> f k" for k
    unfolding f_def using b by (intro mult_nonneg_nonneg) auto
  have mono: "f m \<le> f n" if "m \<le> n"
    unfolding f_def
  proof (rule mult_left_mono)
    show "(2::int) ^ min m exp_cap - 1 \<le> 2 ^ min n exp_cap - 1"
      by (rule diff_right_mono) (rule pow_cap_mono [OF that])
  qed (use b in simp)
  have first: "n \<ge> 1 \<Longrightarrow> base \<le> f n"
    unfolding f_def using b p1 [of n] mult_left_mono [of 1 "2 ^ min n exp_cap - 1" base] by auto
  show ?thesis unfolding e using Some nn [of n] nn [of m] mono first b
    by (auto simp: absolute_cap_s_def)
qed

subsection \<open>The early-exit scan sees what a scan of the whole tail sees\<close>

lemma scan_transient_append:
  "fold transient_step evs r =
    (case scan_events_for_transient evs of NoTransient \<Rightarrow> r | x \<Rightarrow> x)"
proof (induction evs rule: rev_induct)
  case (snoc e es)
  then show ?case
    by (auto simp: scan_events_for_transient_def transient_step_def split: transient_scan.splits)
qed (simp add: scan_events_for_transient_def)

definition detected_of :: "transient_scan \<Rightarrow> event option" where
  "detected_of r = (case r of LatestDetected ev \<Rightarrow> Some ev | _ \<Rightarrow> None)"

lemma first_transient_file_scan:
  "first_transient_file (rev files) = detected_of (scan_events_for_transient (concat (map snd files)))"
proof (induction files rule: rev_induct)
  case (snoc f fs)
  obtain m evs where f: "f = (m, evs)" by (cases f)
  have "scan_events_for_transient (concat (map snd fs) @ evs) =
    (case scan_events_for_transient evs of
       NoTransient \<Rightarrow> scan_events_for_transient (concat (map snd fs)) | x \<Rightarrow> x)"
    using scan_transient_append [of evs "scan_events_for_transient (concat (map snd fs))"]
    by (simp add: scan_events_for_transient_def)
  with snoc show ?case by (auto simp: f detected_of_def split: transient_scan.splits)
qed (simp add: scan_events_for_transient_def detected_of_def)

lemma latest_unrecovered_scan:
  "latest_unrecovered_detected logd = detected_of (scan_events_for_transient (tail_events logd))"
  by (simp add: latest_unrecovered_detected_def first_transient_file_scan tail_events_def scan_def)

subsection \<open>The per-agent map\<close>

definition agent_status_step :: "string \<Rightarrow> event \<Rightarrow> event option option \<Rightarrow> event option option" where
  "agent_status_step a ev st =
     (if agent_of ev \<noteq> a then st
      else if is_kind ev TRANSIENT_ERROR_DETECTED then Some (Some ev)
      else if is_kind ev TRANSIENT_ERROR_RECOVERED then Some None else st)"

lemma transient_per_agent_lookup:
  "map_of (transient_per_agent evs) a = fold (agent_status_step a) evs None"
  unfolding transient_per_agent_def
  by (induction evs rule: rev_induct)
    (auto simp: transient_agent_step_def agent_status_step_def update_conv')

lemma transient_per_agent_distinct: "distinct (map fst (transient_per_agent evs))"
  unfolding transient_per_agent_def
  by (induction evs rule: rev_induct) (auto simp: transient_agent_step_def distinct_update)

lemma scan_detected_lookup:
  "scan_events_for_transient evs = LatestDetected d \<Longrightarrow>
    map_of (transient_per_agent evs) (agent_of d) = Some (Some d)"
proof (induction evs rule: rev_induct)
  case (snoc e es)
  then show ?case
    by (auto simp: scan_events_for_transient_def transient_step_def transient_per_agent_def
        transient_agent_step_def update_conv' is_kind_def split: if_splits)
qed (simp add: scan_events_for_transient_def)

lemma active_of_keys: "fst ` set (active_of l now c m) \<subseteq> fst ` set m"
  by (induction l now c m rule: active_of.induct) (auto simp: Let_def)

lemma active_of_lookup:
  "distinct (map fst m) \<Longrightarrow> map_of (active_of l now c m) a =
    (case map_of m a of
       Some (Some d) \<Rightarrow> if real_of_int (detected_reset l now c a d) \<le> now then None
                        else Some (transient_state_of d a (detected_reset l now c a d))
     | _ \<Rightarrow> None)"
proof (induction m rule: active_of.induct [case_names Nil Rec Det])
  case (Det l now c a' d rest)
  have "map_of (active_of l now c rest) a' = None"
    using Det.prems active_of_keys [of l now c rest] by (auto simp: map_of_eq_None_iff)
  then show ?case using Det by (auto simp: Let_def split: option.splits)
qed (auto simp: image_iff map_of_eq_None_iff split: option.splits)

lemma active_of_distinct: "distinct (map fst m) \<Longrightarrow> distinct (map fst (active_of l now c m))"
proof (induction l now c m rule: active_of.induct [case_names Nil Rec Det])
  case (Det l now c a d rest)
  have "a \<notin> fst ` set (active_of l now c rest)"
    using Det.prems active_of_keys [of l now c rest] by auto
  then show ?case using Det by (simp add: Let_def)
qed simp_all

lemma active_throttles_lookup:
  "map_of (active_throttles l now c None) a =
    (case map_of (latest_transient_per_agent l) a of
       Some (Some d) \<Rightarrow> if real_of_int (detected_reset l now c a d) \<le> now then None
                        else Some (transient_state_of d a (detected_reset l now c a d))
     | _ \<Rightarrow> None)"
  unfolding active_throttles_def
  by (simp add: latest_transient_per_agent_def active_of_lookup [OF transient_per_agent_distinct])

lemma transient_state_of_agent [simp]: "ts_agent (transient_state_of d a r) = a"
  by (simp add: transient_state_of_def)

lemma check_throttle_in_active:
  assumes "check_throttle_state l now = Some t"
  shows "map_of (active_throttles l now Map.empty None) (ts_agent t) = Some t"
proof -
  from assms obtain d where d: "latest_unrecovered_detected l = Some d"
    and r: "\<not> real_of_int (detected_reset l now Map.empty (agent_of d) d) \<le> now"
    and t: "t = transient_state_of d (agent_of d) (detected_reset l now Map.empty (agent_of d) d)"
    by (auto simp: check_throttle_state_def Let_def split: option.splits if_splits)
  have "scan_events_for_transient (tail_events l) = LatestDetected d"
    using d by (simp add: latest_unrecovered_scan detected_of_def split: transient_scan.splits)
  then have "map_of (latest_transient_per_agent l) (agent_of d) = Some (Some d)"
    by (simp add: latest_transient_per_agent_def scan_detected_lookup)
  then show ?thesis using r by (simp add: active_throttles_lookup t)
qed

lemma max_reset_in: "max_reset b ss \<in> insert b (set ss)"
  by (induction b ss rule: max_reset.induct) auto

lemma max_reset_ge: "s \<in> insert b (set ss) \<Longrightarrow> ts_reset_at_epoch s \<le> ts_reset_at_epoch (max_reset b ss)"
proof (induction b ss arbitrary: s rule: max_reset.induct)
  case (2 b x ss)
  let ?y = "if ts_reset_at_epoch x > ts_reset_at_epoch b then x else b"
  have "ts_reset_at_epoch ?y \<le> ts_reset_at_epoch (max_reset ?y ss)" using "2.IH" by blast
  moreover have "ts_reset_at_epoch s \<le> ts_reset_at_epoch ?y \<or> s \<in> set ss" using "2.prems" by auto
  ultimately show ?case using "2.IH" [of s] by (auto simp only: max_reset.simps)
qed simp

lemma active_entry_agent: "(a, s) \<in> set (active_of l now c m) \<Longrightarrow> ts_agent s = a"
  by (induction l now c m rule: active_of.induct) (auto simp: Let_def split: if_splits)

text \<open>The view the status command and the gate show (\<open>effective_throttle_view\<close>) is coherent
  with the per-agent map it is shown with: there is a headline throttle exactly when some agent is
  throttled; the headline is the entry of its own agent; a live single-slot throttle
  (\<open>check_throttle_state\<close>) is always the headline; otherwise the headline is an active entry
  whose reset is the latest of all.\<close>

theorem effective_throttle_view_coherent:
  "(fst (effective_throttle_view l now) = None \<longleftrightarrow> snd (effective_throttle_view l now) = [])
   \<and> (\<forall>s. fst (effective_throttle_view l now) = Some s \<longrightarrow>
        map_of (snd (effective_throttle_view l now)) (ts_agent s) = Some s)
   \<and> (\<forall>t. check_throttle_state l now = Some t \<longrightarrow> fst (effective_throttle_view l now) = Some t)
   \<and> (check_throttle_state l now = None \<longrightarrow>
        (\<forall>a s. map_of (snd (effective_throttle_view l now)) a = Some s \<longrightarrow>
           (\<exists>m. fst (effective_throttle_view l now) = Some m \<and> ts_reset_at_epoch s \<le> ts_reset_at_epoch m)))"
proof (cases "check_throttle_state l now")
  case (Some t)
  note a = check_throttle_in_active [OF Some]
  then have "effective_throttle_view l now = (Some t, active_throttles l now Map.empty None)"
    by (simp add: effective_throttle_view_def Let_def Some)
  then show ?thesis using a Some by auto
next
  case None
  let ?ac = "active_throttles l now Map.empty None"
  show ?thesis
  proof (cases "map snd ?ac")
    case Nil
    then show ?thesis using None by (simp add: effective_throttle_view_def Let_def)
  next
    case (Cons s ss)
    then have v: "effective_throttle_view l now = (Some (max_reset s ss), ?ac)"
      using None by (simp add: effective_throttle_view_def Let_def)
    have in': "max_reset s ss \<in> snd ` set ?ac"
      using max_reset_in [of s ss] Cons by (metis list.set_map list.simps(15))
    then obtain k where k: "(k, max_reset s ss) \<in> set ?ac" by force
    have ag: "ts_agent (max_reset s ss) = k"
      using k unfolding active_throttles_def by (rule active_entry_agent)
    have dist: "distinct (map fst ?ac)"
      unfolding active_throttles_def latest_transient_per_agent_def
      by (simp add: active_of_distinct transient_per_agent_distinct)
    have ge: "map_of ?ac a = Some x \<Longrightarrow> ts_reset_at_epoch x \<le> ts_reset_at_epoch (max_reset s ss)" for a x
      using max_reset_ge [of x s ss] Cons by (metis list.set_map list.simps(15) map_of_SomeD snd_conv imageI)
    show ?thesis
      unfolding v using None ge map_of_is_SomeI [OF dist k] ag Cons by auto
  qed
qed



subsection \<open>Recovered breadcrumbs are emitted once\<close>

definition is_recovered_breadcrumb :: "event \<Rightarrow> bool" where
  "is_recovered_breadcrumb ev \<longleftrightarrow> is_kind ev TRANSIENT_ERROR_RECOVERED"

lemma payload_kind:
  "''event'' \<notin> dom p \<Longrightarrow> is_kind (event_payload ck kind p) k \<longleftrightarrow> kind = k"
  by (auto simp: is_kind_def ev_get_def ev_get_or_def event_payload_def map_add_def domIff
      split: option.splits)

lemma recovered_payload_dom: "''event'' \<notin> dom (recovered_payload c a s)"
  by (simp add: recovered_payload_def)

lemma recovered_payload_agent: "agent_of (event_payload ck k (recovered_payload c a s)) = a"
  by (simp add: agent_of_def ev_get_or_def event_payload_def recovered_payload_def)

definition recovered_events :: "clock \<Rightarrow> (string \<times> string \<times> int) list \<Rightarrow> event list" where
  "recovered_events ck ps =
     map (\<lambda>(a, c, s). event_payload ck TRANSIENT_ERROR_RECOVERED (recovered_payload c a s)) ps"

lemma maybe_emit_recovered_fold:
  "maybe_emit_recovered ck active l =
     fold (append_event (ck_month ck)) (recovered_events ck (pending_recovered l (ck_epoch ck) active)) l"
proof -
  have "fold (\<lambda>(a, c, s). emit_transient_error_recovered ck c a s) ps l0 =
      fold (append_event (ck_month ck)) (recovered_events ck ps) l0" for ps l0
    by (induction ps arbitrary: l0)
      (auto simp: recovered_events_def emit_transient_error_recovered_def emit_builtin_def)
  then show ?thesis by (simp add: maybe_emit_recovered_def)
qed

lemma exponent_recovered:
  "fold (exponent_step a) (recovered_events ck ps) n = n"
  by (induction ps arbitrary: n)
    (auto simp: recovered_events_def exponent_step_def payload_kind recovered_payload_dom)

lemma status_recovered:
  "fold (agent_status_step a) (recovered_events ck ps) st =
     (if a \<in> fst ` set ps then Some None else st)"
  by (induction ps arbitrary: st)
    (auto simp: recovered_events_def agent_status_step_def payload_kind recovered_payload_dom
      recovered_payload_agent)

lemma backoff_exponent_recovered:
  assumes "tail_events l' = tail_events l @ recovered_events ck ps"
  shows "backoff_exponent l' a = backoff_exponent l a"
  by (simp add: backoff_exponent_def exponent_of_def assms exponent_recovered)

lemma pending_recovered_agents:
  "a \<in> fst ` set (pending_recovered l now (Some act)) \<longleftrightarrow>
    (\<exists>d. (a, Some d) \<in> set (latest_transient_per_agent l)) \<and> map_of act a = None"
proof -
  have "a \<in> fst ` set (List.map_filter (\<lambda>(agent, detected).
           case detected of
             None \<Rightarrow> None
           | Some d \<Rightarrow> if map_of act agent \<noteq> None then None
                       else Some (agent, classification_of d, throttled_for_s (ev_get d ''ts'') now)) m) \<longleftrightarrow>
    (\<exists>d. (a, Some d) \<in> set m) \<and> map_of act a = None" for m
    by (induction m) (auto simp: map_filter_simps split: option.splits if_splits)
  then show ?thesis by (simp only: pending_recovered_def Let_def option.case)
qed

lemma pending_recovered_None:
  "pending_recovered l now None = pending_recovered l now (Some (active_throttles l now Map.empty None))"
  by (simp add: pending_recovered_def)

lemma latest_map_entry:
  "(a, x) \<in> set (latest_transient_per_agent l) \<longleftrightarrow>
     fold (agent_status_step a) (tail_events l) None = Some x"
  by (simp add: latest_transient_per_agent_def transient_per_agent_lookup [symmetric]
      transient_per_agent_distinct)

text \<open>Recovery breadcrumbs are emitted once: right after \<open>_maybe_emit_recovered\<close> has run, a second
  run at the same instant has nothing to emit, and emitting them changes no agent's active throttle.\<close>

theorem recovered_breadcrumb_once:
  assumes "current_newest (ck_month ck) l"
  shows "pending_recovered (maybe_emit_recovered ck None l) (ck_epoch ck) None = []
    \<and> map_of (active_throttles (maybe_emit_recovered ck None l) (ck_epoch ck) Map.empty None)
        = map_of (active_throttles l (ck_epoch ck) Map.empty None)"
proof -
  let ?l' = "maybe_emit_recovered ck None l" and ?now = "ck_epoch ck"
  let ?act = "active_throttles l ?now Map.empty None"
  define ps where "ps = pending_recovered l ?now (Some ?act)"
  have tail: "tail_events ?l' = tail_events l @ recovered_events ck ps"
    unfolding maybe_emit_recovered_fold ps_def pending_recovered_None
    by (rule month_log.tail_fold_append [OF assms])
  have status: "fold (agent_status_step a) (tail_events ?l') None =
     (if a \<in> fst ` set ps then Some None else fold (agent_status_step a) (tail_events l) None)" for a
    by (simp add: tail status_recovered)
  have reset: "detected_reset ?l' ?now c a d = detected_reset l ?now c a d" for a c d
    by (simp add: detected_reset_def events_derived_reset_def backoff_exponent_recovered [OF tail]
        split: option.split)
  have pend: "a \<in> fst ` set ps \<longleftrightarrow>
     (\<exists>d. fold (agent_status_step a) (tail_events l) None = Some (Some d)) \<and> map_of ?act a = None" for a
    unfolding ps_def pending_recovered_agents latest_map_entry by simp
  have act: "map_of (active_throttles ?l' ?now Map.empty None) a = map_of ?act a" for a
    using pend [of a] status [of a]
    by (auto simp: active_throttles_lookup latest_transient_per_agent_def transient_per_agent_lookup
        reset split: option.splits if_splits)
  have "a \<notin> fst ` set (pending_recovered ?l' ?now None)" for a
    unfolding pending_recovered_None pending_recovered_agents latest_map_entry status act
    using pend [of a] by auto
  then have "pending_recovered ?l' ?now None = []" by (metis image_eqI list.set_intros(1) neq_Nil_conv)
  then show ?thesis using act by auto
qed

subsection \<open>The sleep returns, and a stop is seen within one slice\<close>

lemma interruptible_sleep_stop_seen:
  assumes "i < length obs" "ob_stop (obs ! i) \<or> ob_should_stop (obs ! i)"
  shows "interruptible_sleep nl chunk_s deadline remaining (take (Suc i) obs) \<noteq> None"
  using assms
proof (induction obs arbitrary: i remaining)
  case (Cons ob obs)
  then show ?case by (cases i) (auto simp: Let_def)
qed simp

lemma interruptible_sleep_enough:
  assumes "chunk_s > 0" "remaining \<le> chunk_s * real (length obs)"
  shows "interruptible_sleep True chunk_s deadline remaining obs \<noteq> None"
  using assms(2)
proof (induction obs arbitrary: remaining)
  case (Cons ob obs)
  have "remaining - min chunk_s remaining \<le> chunk_s * real (length obs)"
    using Cons.prems assms(1) by (auto simp: min_def algebra_simps)
  then show ?case using Cons.IH by (auto simp: Let_def)
qed simp

lemma interruptible_sleep_interrupted:
  "interruptible_sleep nl chunk_s deadline remaining obs = Some True \<Longrightarrow>
    \<exists>ob \<in> set obs. ob_stop ob \<or> ob_should_stop ob"
  by (induction obs arbitrary: remaining) (auto simp: Let_def split: if_splits)

text \<open>The interruptible sleep of the supervisor returns: with the null listener, one observation per
  chunk of the requested time is enough; a True answer is only given when the stop flag or the stop
  predicate was seen, and a stop seen at a slice the sleep reaches ends it there.\<close>

theorem interruptible_sleep_total:
  assumes "chunk_s > 0" "remaining \<le> chunk_s * real (length obs)"
  shows "\<exists>r. interruptible_sleep True chunk_s deadline remaining obs = Some r
    \<and> (r \<longrightarrow> (\<exists>ob \<in> set obs. ob_stop ob \<or> ob_should_stop ob))
    \<and> (\<forall>i < length obs. ob_stop (obs ! i) \<or> ob_should_stop (obs ! i) \<longrightarrow>
         interruptible_sleep True chunk_s deadline remaining (take (Suc i) obs) = Some r)"
proof -
  obtain r where r: "interruptible_sleep True chunk_s deadline remaining obs = Some r"
    using interruptible_sleep_enough [OF assms] by blast
  have ext: "interruptible_sleep nl c d rem xs = Some q \<Longrightarrow> interruptible_sleep nl c d rem (xs @ ys) = Some q"
    for nl c d rem xs ys q
    by (induction xs arbitrary: rem) (auto simp: Let_def split: if_splits, cases ys, auto)
  show ?thesis
  proof (intro exI conjI allI impI)
    fix i assume i: "i < length obs" "ob_stop (obs ! i) \<or> ob_should_stop (obs ! i)"
    then obtain q where q: "interruptible_sleep True chunk_s deadline remaining (take (Suc i) obs) = Some q"
      using interruptible_sleep_stop_seen by blast
    from ext [OF q, of "drop (Suc i) obs"] r
    show "interruptible_sleep True chunk_s deadline remaining (take (Suc i) obs) = Some r"
      by (simp add: q)
  next
    assume r
    with r show "\<exists>ob \<in> set obs. ob_stop ob \<or> ob_should_stop ob"
      using interruptible_sleep_interrupted by auto
  qed (rule r)
qed

subsection \<open>The back-off leaves exactly one breadcrumb, and only when it completes\<close>

lemma latest_unrecovered_append:
  assumes "current_newest m l"
  shows "latest_unrecovered_detected (append_event m ev l) =
    (if is_kind ev TRANSIENT_ERROR_DETECTED then Some ev
     else if is_kind ev TRANSIENT_ERROR_RECOVERED then None
     else latest_unrecovered_detected l)"
  by (simp add: latest_unrecovered_scan tail_append_event [OF assms] scan_events_for_transient_def
      transient_step_def detected_of_def)

lemma opt_int_field_dom: "dom (opt_int_field k v) \<subseteq> {k}"
  by (auto simp: opt_int_field_def split: option.splits)

lemma backoff_capped_dom: "''event'' \<notin> dom (backoff_capped_payload c a r ap orig ar n cap)"
  using opt_int_field_dom [of "''original_reset_at_epoch''" orig]
    opt_int_field_dom [of "''applied_reset_at_epoch''" ar] opt_int_field_dom [of "''consecutive_count''" n]
  by (auto simp: backoff_capped_payload_def opt_int_field_def split: option.splits if_splits)

lemma emit_backoff_capped_latest:
  assumes "current_newest (ck_month ck) l"
  shows "latest_unrecovered_detected (emit_backoff_capped ck c a r ap orig ar n cap l)
      = latest_unrecovered_detected l"
    "current_newest (ck_month ck) (emit_backoff_capped ck c a r ap orig ar n cap l)"
  using assms
  by (simp_all add: emit_backoff_capped_def emit_builtin_def latest_unrecovered_append payload_kind
      backoff_capped_dom log_simps)

lemma compute_adjusted_latest:
  assumes "current_newest (ck_month ck) l" "compute_adjusted_reset_at ck c orig a l = (r, l')"
  shows "latest_unrecovered_detected l' = latest_unrecovered_detected l"
    "current_newest (ck_month ck) l'"
  using assms
  by (auto simp: compute_adjusted_reset_at_def Let_def emit_backoff_capped_latest
      split: option.splits if_splits)

text \<open>A back-off that slept to its end leaves the log recovered: no unrecovered detection remains, so the
  next gate of the same round is open.\<close>

theorem back_off_breadcrumb:
  assumes month: "ck_month (be_adjust env) = m" "ck_month (be_request env) = m" "ck_month (be_end env) = m"
    and cur: "current_newest m l"
    and run: "apply_back_off env chunk_s throttle obs l = Some (interrupted, l')"
  shows "latest_unrecovered_detected l' =
    (if interrupted then latest_unrecovered_detected l else None)"
proof -
  let ?raw = "raw_reset_of (ck_epoch (be_coerce env)) throttle l"
  obtain adj n cap l1 where adj: "compute_adjusted_reset_at (be_adjust env) (ts_classification throttle)
      ?raw (ts_agent throttle) l = ((adj, n, cap), l1)"
    by (metis prod_cases3 surj_pair)
  have l1: "latest_unrecovered_detected l1 = latest_unrecovered_detected l" "current_newest m l1"
    using compute_adjusted_latest [OF _ adj] cur month(1) by auto
  define l2 where "l2 = (if real_of_int adj + be_jitter env - ck_epoch (be_request env) > real_of_int back_off_cap_s
     then emit_backoff_capped (be_request env) (ts_classification throttle) (ts_agent throttle)
            (py_trunc (real_of_int adj + be_jitter env - ck_epoch (be_request env))) back_off_cap_s
            None None None None l1
     else l1)"
  have l2: "latest_unrecovered_detected l2 = latest_unrecovered_detected l" "current_newest m l2"
    using emit_backoff_capped_latest [of "be_request env" l1] l1 month(2) by (auto simp: l2_def)
  from run obtain q where "interrupted = q" and "l' = (if q then l2 else
      emit_transient_error_recovered (be_end env) (ts_classification throttle) (ts_agent throttle)
        (elapsed_s (ck_epoch (be_start env)) (ck_epoch (be_end env))) l2)"
    unfolding apply_back_off_def Let_def adj prod.case l2_def [symmetric]
    by (auto split: option.splits bool.splits)
  then show ?thesis
    using l2 month(3)
    by (simp add: emit_transient_error_recovered_def emit_builtin_def latest_unrecovered_append
        payload_kind recovered_payload_dom)
qed



subsection \<open>Instances\<close>

text \<open>
  A log in which \<open>claude\<close> hit a 5xx whose reset is 1060 and \<open>kimi\<close> one whose reset (1500) is
  still ahead at epoch 1200.
\<close>

definition example_detected :: "string \<Rightarrow> int \<Rightarrow> event" where
  "example_detected agent reset =
     [''event'' \<mapsto> PStr TRANSIENT_ERROR_DETECTED, ''ts'' \<mapsto> PStr ''1970-01-01T00:16:40.000Z'',
      ''agent'' \<mapsto> PStr agent, ''classification'' \<mapsto> PStr ''api_transient_5xx'',
      ''reset_at_epoch'' \<mapsto> PInt reset, ''round_num'' \<mapsto> PInt 3]"

definition example_log :: log_dir where
  "example_log = [(''1970-01'', [example_detected ''kimi'' 1500, example_detected ''claude'' 1060])]"

definition example_clock :: "real \<Rightarrow> clock" where
  "example_clock t = \<lparr>ck_epoch = t, ck_mono = t, ck_iso = ''1970-01-01T00:20:00.000Z'', ck_month = ''1970-01''\<rparr>"

lemma example_tail: "tail_events example_log = [example_detected ''kimi'' 1500, example_detected ''claude'' 1060]"
  by (simp add: tail_events_def scan_def newest_month_files_def all_month_files_def example_log_def)

lemma example_current: "current_newest ''1970-01'' example_log"
  by (simp add: current_newest_def example_log_def)

lemma example_kinds:
  "is_kind (example_detected a r) TRANSIENT_ERROR_DETECTED"
  "\<not> is_kind (example_detected a r) TRANSIENT_ERROR_RECOVERED"
  "\<not> is_kind (example_detected a r) AGENT_USAGE_RECORDED"
  "agent_of (example_detected a r) = a"
  "py_str (ev_get_or (example_detected a r) ''agent'' (PStr [])) = a"
  by (simp_all add: is_kind_def ev_get_def ev_get_or_def example_detected_def agent_of_def)

lemma example_latest: "latest_transient_per_agent example_log =
   [(''kimi'', Some (example_detected ''kimi'' 1500)), (''claude'', Some (example_detected ''claude'' 1060))]"
  by (simp add: latest_transient_per_agent_def example_tail transient_per_agent_def
      transient_agent_step_def example_kinds)

lemma example_reset:
  assumes "0 \<le> r" "r \<le> 2000" "1000 \<le> now" "a = ''kimi'' \<or> a = ''claude''"
  shows "detected_reset example_log now Map.empty a (example_detected a r) = r"
proof -
  have x: "backoff_exponent example_log a = 0"
    using assms(4) by (auto simp: backoff_exponent_def exponent_of_def example_tail exponent_step_def example_kinds)
  have "coerce_epoch_int (ev_get (example_detected a r) ''reset_at_epoch'') 0 now = r"
    using assms(1-3)
    by (simp add: coerce_epoch_int_def ev_get_def ev_get_or_def example_detected_def epoch_sanity_window_s_def Let_def)
  then show ?thesis
    by (simp add: detected_reset_def events_derived_reset_def x extend_reset_def split: option.split)
qed

lemma example_active: "active_throttles example_log 1200 Map.empty None =
   [(''kimi'', transient_state_of (example_detected ''kimi'' 1500) ''kimi'' 1500)]"
  by (simp add: active_throttles_def example_latest example_reset)

theorem extend_reset_ladder_witness:
  "extend_reset ''api_transient_5xx'' 1000 1 \<le> extend_reset ''api_transient_5xx'' 1000 9
   \<and> extend_reset ''api_transient_5xx'' 1000 9 \<le> 2800 \<and> 1060 \<le> extend_reset ''api_transient_5xx'' 1000 9"
proof -
  have b: "back_off_defaults ''api_transient_5xx'' = Some 60" by (simp add: back_off_defaults_def)
  show ?thesis using extend_reset_ladder [of 1000 "''api_transient_5xx''" 9 1] b
    by (simp add: absolute_cap_s_def)
qed

theorem effective_throttle_view_coherent_witness:
  "check_throttle_state example_log 1200 = None
   \<and> fst (effective_throttle_view example_log 1200)
       = Some (transient_state_of (example_detected ''kimi'' 1500) ''kimi'' 1500)"
proof -
  have n: "check_throttle_state example_log 1200 = None"
    by (simp add: check_throttle_state_def latest_unrecovered_scan example_tail
        scan_events_for_transient_def transient_step_def example_kinds detected_of_def Let_def example_reset)
  have s: "snd (effective_throttle_view example_log 1200) =
      [(''kimi'', transient_state_of (example_detected ''kimi'' 1500) ''kimi'' 1500)]"
    by (simp add: effective_throttle_view_def n example_active)
  then show ?thesis
    using effective_throttle_view_coherent [of example_log 1200] n
    by (cases "fst (effective_throttle_view example_log 1200)") (auto split: if_splits)
qed

theorem recovered_breadcrumb_once_witness:
  "pending_recovered example_log 1200 None = [(''claude'', ''api_transient_5xx'', 200)]
   \<and> pending_recovered (maybe_emit_recovered (example_clock 1200) None example_log) 1200 None = []"
proof -
  have iso: "parse_iso_ms ''1970-01-01T00:16:40.000Z'' = Inr (Aware 1000000000)" by code_simp
  have "pending_recovered example_log 1200 None = [(''claude'', ''api_transient_5xx'', 200)]"
    by (simp add: pending_recovered_def example_active example_latest map_filter_simps
        classification_of_def throttled_for_s_def elapsed_s_def py_trunc_def ev_get_def ev_get_or_def
        example_detected_def iso)
  moreover have "current_newest (ck_month (example_clock 1200)) example_log"
    using example_current by (simp add: example_clock_def)
  from recovered_breadcrumb_once [OF this]
  have "pending_recovered (maybe_emit_recovered (example_clock 1200) None example_log) 1200 None = []"
    by (simp add: example_clock_def)
  ultimately show ?thesis by simp
qed

theorem interruptible_sleep_total_witness:
  "\<exists>r. interruptible_sleep True 30 None 40
     [\<lparr>ob_stop = False, ob_should_stop = False, ob_epoch = 0, ob_elapsed = 0\<rparr>,
      \<lparr>ob_stop = True, ob_should_stop = False, ob_epoch = 30, ob_elapsed = 0\<rparr>] = Some r \<and> r"
proof -
  let ?obs = "[\<lparr>ob_stop = False, ob_should_stop = False, ob_epoch = 0, ob_elapsed = 0\<rparr>,
      \<lparr>ob_stop = True, ob_should_stop = False, ob_epoch = 30, ob_elapsed = (0::real)\<rparr>]"
  have h: "(0::real) < 30" "(40::real) \<le> 30 * real (length ?obs)" by simp_all
  have r: "interruptible_sleep True 30 None 40 ?obs = Some True" by simp
  from interruptible_sleep_total [OF h, of None]
  have "\<exists>r. interruptible_sleep True 30 None 40 ?obs = Some r" by blast
  with r show ?thesis by simp
qed

theorem back_off_breadcrumb_witness:
  "\<exists>l'. apply_back_off \<lparr>be_coerce = example_clock 1000, be_adjust = example_clock 1000,
        be_request = example_clock 1000, be_start = example_clock 1000, be_end = example_clock 1090,
        be_jitter = 10\<rparr> 30
      (transient_state_of (example_detected ''claude'' 1060) ''claude'' 1060)
      (replicate 3 \<lparr>ob_stop = False, ob_should_stop = False, ob_epoch = 1000, ob_elapsed = 0\<rparr>)
      example_log = Some (False, l') \<and> latest_unrecovered_detected l' = None"
    (is "\<exists>l'. apply_back_off ?env 30 ?t ?obs example_log = Some (False, l') \<and> _")
proof -
  have x: "backoff_exponent example_log ''claude'' = 0"
    by (simp add: backoff_exponent_def exponent_of_def example_tail exponent_step_def example_kinds)
  have c: "ts_classification ?t = ''api_transient_5xx''"
    by (simp add: transient_state_of_def classification_of_def ev_get_or_def example_detected_def)
  have "\<exists>l'. apply_back_off ?env 30 ?t ?obs example_log = Some (False, l')"
    by (simp add: apply_back_off_def compute_adjusted_reset_at_def c x back_off_defaults_def Let_def
        example_clock_def py_trunc_def back_off_cap_s_def absolute_cap_s_def numeral_3_eq_3)
  then obtain l' where r: "apply_back_off ?env 30 ?t ?obs example_log = Some (False, l')" by blast
  have "latest_unrecovered_detected l' = None"
    using back_off_breadcrumb [of ?env "''1970-01''", OF _ _ _ example_current r]
    by (simp add: example_clock_def)
  with r show ?thesis by blast
qed

end
