(* ===== verification/Config.thy ===== *)
theory Config
  imports Schedule
begin

section \<open>Configuration (agent\_runner/config/models.py)\<close>

text \<open>
  The frozen dataclasses of a parsed configuration, with the defaults their fields declare, and
  the operations defined on them: the identity of an agent (\<open>AgentConfig.binary\<close>), the argv a
  round spawns, the per-phase profile and the wall-clock allowance of the goal checks. A
  \<open>Path\<close> is the text it was made from; \<open>dict\<close>s that are only looked up are maps.
\<close>

subsection \<open>Paths and text\<close>

text \<open>\<open>PurePosixPath(s).name\<close>: the last component, empty ones and \<open>.\<close> dropped.\<close>

definition path_name :: "string \<Rightarrow> string" where
  "path_name s =
     (let parts = filter (\<lambda>p. p \<noteq> [] \<and> p \<noteq> ''.'') (py_split (CHR ''/'') s)
      in if parts = [] then [] else last parts)"

text \<open>\<open>s.replace(old, new)\<close> for a non-empty \<open>old\<close>; the number counts characters still to skip.\<close>

fun py_replace :: "string \<Rightarrow> string \<Rightarrow> nat \<Rightarrow> string \<Rightarrow> string" where
  "py_replace old new k [] = []"
| "py_replace old new (Suc k) (c # cs) = py_replace old new k cs"
| "py_replace old new 0 (c # cs) =
     (if take (length old) (c # cs) = old then new @ py_replace old new (length old - 1) cs
      else c # py_replace old new 0 cs)"

subsection \<open>Agent and runtime\<close>

datatype prompt_delivery = Argv | Stdin

record agent_config =
  ac_command :: "string list"
  ac_prompt_arg_template :: "string list"
  ac_name :: "string option"
  ac_env :: "string \<rightharpoonup> string"
  ac_prompt_delivery :: prompt_delivery
  ac_exec_prefix :: "string list"
  ac_terminal_marker :: string
  ac_sigterm_grace_s :: int

definition default_sigterm_grace_s :: int where "default_sigterm_grace_s = 10"

definition max_sigterm_grace_s :: int where "max_sigterm_grace_s = 12"

definition agent_binary :: "agent_config \<Rightarrow> string option" where
  "agent_binary a = (case ac_command a of [] \<Rightarrow> None | c # cs \<Rightarrow> Some (path_name c))"

definition spawn_command :: "agent_config \<Rightarrow> string \<Rightarrow> string list" where
  "spawn_command a work_dir =
     map (py_replace ''{work_dir}'' work_dir 0) (ac_exec_prefix a) @ ac_command a"

datatype transient_error_action = BackOff | SkipAround | StopServe

record runtime_config =
  rt_work_dir :: string
  rt_log_dir :: string
  rt_round_budget_s :: int
  rt_restart_delay_s :: int
  rt_round_log_retention :: int
  rt_narrative_file :: "string option"
  rt_transient_error_action :: transient_error_action
  rt_max_rounds :: "int option"
  rt_stop_file :: "string option"
  rt_substrate_fingerprint_paths :: "string list"
  rt_fresh_eyes_every_n :: "int option"
  rt_dry_run :: bool
  rt_max_grace_after_result_s :: int
  rt_grace_kill_ignore_patterns :: "string list"

definition default_runtime :: "string \<Rightarrow> string \<Rightarrow> runtime_config" where
  "default_runtime work_dir log_directory =
     \<lparr>rt_work_dir = work_dir, rt_log_dir = log_directory, rt_round_budget_s = 1800,
      rt_restart_delay_s = 3, rt_round_log_retention = 0, rt_narrative_file = None,
      rt_transient_error_action = BackOff, rt_max_rounds = None, rt_stop_file = None,
      rt_substrate_fingerprint_paths = [], rt_fresh_eyes_every_n = None, rt_dry_run = False,
      rt_max_grace_after_result_s = 0, rt_grace_kill_ignore_patterns = []\<rparr>"

subsection \<open>Schedule and phases\<close>

record schedule_config =
  sc_timezone :: "string option"
  sc_run_windows :: "window list"
  sc_pause_windows :: "window list"

definition schedule_enabled :: "schedule_config \<Rightarrow> bool" where
  "schedule_enabled sc \<longleftrightarrow> sc_run_windows sc \<noteq> [] \<or> sc_pause_windows sc \<noteq> []"

record phase_override =
  ov_round_budget_s :: "int option"
  ov_prompt_files :: "string list option"
  ov_agent :: "agent_config option"
  ov_schedule :: "schedule_config option"

datatype phase_policy = PolicyWait | PolicySkip

record phases_config =
  pc_list :: "string list option"
  pc_overrides :: "string \<rightharpoonup> phase_override"
  pc_phase_policy :: phase_policy

subsection \<open>Host health\<close>

record disk_config =
  hd_warning_pct :: real
  hd_critical_pct :: real
  hd_growth_window_s :: int
  hd_disk_growth_pct_per_hr_warning :: real
  hd_inode_growth_pct_per_hr_warning :: real

record memory_config =
  hm_avail_min_mb :: int
  hm_free_low_mb :: int
  hm_swap_out_noise_floor_mb :: int

record pressure_config =
  hp_full_avg10_critical :: real
  hp_some_avg10_warning :: real
  hp_critical_consecutive_samples :: int
  hp_in_round_terminate :: bool
  hp_cgroup_growth_rate_warning_mb_per_min :: real
  hp_in_round_nudge :: bool

record brake_config =
  hb_memory_high :: bool
  hb_memory_high_step_pct :: int
  hb_warning_consecutive_samples :: int

record host_health_config =
  hh_disk :: disk_config
  hh_memory :: memory_config
  hh_pressure :: pressure_config
  hh_brake :: brake_config

definition default_host_health :: host_health_config where
  "default_host_health =
     \<lparr>hh_disk = \<lparr>hd_warning_pct = 90, hd_critical_pct = 95, hd_growth_window_s = 1800,
                 hd_disk_growth_pct_per_hr_warning = 5, hd_inode_growth_pct_per_hr_warning = 5\<rparr>,
      hh_memory = \<lparr>hm_avail_min_mb = 200, hm_free_low_mb = 16, hm_swap_out_noise_floor_mb = 32\<rparr>,
      hh_pressure = \<lparr>hp_full_avg10_critical = 60, hp_some_avg10_warning = 5,
                     hp_critical_consecutive_samples = 3, hp_in_round_terminate = True,
                     hp_cgroup_growth_rate_warning_mb_per_min = 512, hp_in_round_nudge = False\<rparr>,
      hh_brake = \<lparr>hb_memory_high = False, hb_memory_high_step_pct = 0,
                  hb_warning_consecutive_samples = 3\<rparr>\<rparr>"

subsection \<open>Monitor, goal and the whole configuration\<close>

record monitor_config =
  mo_auth_fail_patterns :: "string list"
  mo_auth_fail_hint :: string
  mo_auto_stop_on :: "string list"
  mo_remote_failure_tolerance_s :: int
  mo_anomaly_repetitive_window :: int
  mo_anomaly_repetitive_threshold :: int
  mo_host_health :: host_health_config
  mo_round_progress_interval_s :: int
  mo_supervisor_stale_threshold_s :: "int option"

record goal_check_config =
  gc_name :: string
  gc_cmd :: "string list"
  gc_cwd :: "string option"
  gc_timeout_s :: int

record goal_config =
  go_ledger :: string
  go_checks :: "goal_check_config list"

definition kill_grace_s :: int where "kill_grace_s = 3"

definition checks_allowance_s :: "goal_config \<Rightarrow> int" where
  "checks_allowance_s g =
     sum_list (map gc_timeout_s (go_checks g)) + int (length (go_checks g)) * 2 * kill_grace_s"

record config =
  cf_agent :: agent_config
  cf_runtime :: runtime_config
  cf_monitor :: monitor_config
  cf_phases :: phases_config
  cf_schedule :: schedule_config
  cf_goal :: "goal_config option"

definition goal_checks_allowance_s :: "config \<Rightarrow> int" where
  "goal_checks_allowance_s cfg =
     (case cf_goal cfg of None \<Rightarrow> 0 | Some g \<Rightarrow> checks_allowance_s g)"

record profile =
  pr_agent :: agent_config
  pr_runtime :: runtime_config
  pr_schedule :: schedule_config
  pr_prompt_files :: "string list option"

definition resolve_runtime :: "runtime_config \<Rightarrow> phase_override \<Rightarrow> runtime_config" where
  "resolve_runtime rt ov =
     (case ov_round_budget_s ov of None \<Rightarrow> rt | Some b \<Rightarrow> rt\<lparr>rt_round_budget_s := b\<rparr>)"

definition resolve_schedule :: "schedule_config \<Rightarrow> phase_override \<Rightarrow> schedule_config" where
  "resolve_schedule base ov =
     (case ov_schedule ov of
        None \<Rightarrow> base
      | Some sc \<Rightarrow>
          if sc_timezone sc = None \<and> sc_timezone base \<noteq> None
          then sc\<lparr>sc_timezone := sc_timezone base\<rparr> else sc)"

definition profile_for :: "config \<Rightarrow> string option \<Rightarrow> profile" where
  "profile_for cfg phase =
     (case (case phase of None \<Rightarrow> None | Some p \<Rightarrow> pc_overrides (cf_phases cfg) p) of
        None \<Rightarrow> \<lparr>pr_agent = cf_agent cfg, pr_runtime = cf_runtime cfg,
                 pr_schedule = cf_schedule cfg, pr_prompt_files = None\<rparr>
      | Some ov \<Rightarrow>
          \<lparr>pr_agent = (case ov_agent ov of Some a \<Rightarrow> a | None \<Rightarrow> cf_agent cfg),
           pr_runtime = resolve_runtime (cf_runtime cfg) ov,
           pr_schedule = resolve_schedule (cf_schedule cfg) ov,
           pr_prompt_files = ov_prompt_files ov\<rparr>)"

lemma profile_for_base: "profile_for cfg None =
   \<lparr>pr_agent = cf_agent cfg, pr_runtime = cf_runtime cfg, pr_schedule = cf_schedule cfg, pr_prompt_files = None\<rparr>"
  by (simp add: profile_for_def)

subsection \<open>Instances\<close>

text \<open>A configuration with the declared defaults and the given phase rotation.\<close>

definition example_agent :: "string \<Rightarrow> agent_config" where
  "example_agent cmd =
     \<lparr>ac_command = [cmd], ac_prompt_arg_template = [], ac_name = None, ac_env = Map.empty,
      ac_prompt_delivery = Argv, ac_exec_prefix = [], ac_terminal_marker = [],
      ac_sigterm_grace_s = default_sigterm_grace_s\<rparr>"

definition default_monitor :: monitor_config where
  "default_monitor =
     \<lparr>mo_auth_fail_patterns = [], mo_auth_fail_hint = [],
      mo_auto_stop_on = [''oauth_fail'', ''disk_critical''], mo_remote_failure_tolerance_s = 90,
      mo_anomaly_repetitive_window = 0, mo_anomaly_repetitive_threshold = 0,
      mo_host_health = default_host_health, mo_round_progress_interval_s = 0,
      mo_supervisor_stale_threshold_s = None\<rparr>"

definition example_config :: "string list option \<Rightarrow> phase_policy \<Rightarrow> config" where
  "example_config phases policy =
     \<lparr>cf_agent = example_agent ''/usr/bin/claude'', cf_runtime = default_runtime ''work'' ''logs'',
      cf_monitor = default_monitor,
      cf_phases = \<lparr>pc_list = phases, pc_overrides = Map.empty, pc_phase_policy = policy\<rparr>,
      cf_schedule = \<lparr>sc_timezone = None, sc_run_windows = [], sc_pause_windows = []\<rparr>,
      cf_goal = None\<rparr>"

end
