(* ===== verification/Phase_Select.thy ===== *)
theory Phase_Select
  imports Config
begin

section \<open>Phase selection (agent\_runner/phase\_select.py, runner.\_phase\_for)\<close>

text \<open>
  Which phase the supervisor launches in a round, whether it pauses and until when, and the
  configuration check for colliding phase windows. The clock is \<open>now_fn\<close>, a local reading per
  timezone name; datetimes of two zones are compared through \<open>utc_off\<close>, the UTC offset of a zone
  at a wall-clock instant in microseconds (\<open>zoneinfo\<close> is a parameter of the model).
\<close>

subsection \<open>Rotation\<close>

definition rotation_index :: "int \<Rightarrow> nat \<Rightarrow> nat" where
  "rotation_index round_num n = nat ((round_num - 1) mod int n)"

definition candidate_phases :: "config \<Rightarrow> int \<Rightarrow> string option list" where
  "candidate_phases cfg round_num =
     (case pc_list (cf_phases cfg) of
        None \<Rightarrow> [None]
      | Some phases \<Rightarrow>
          if phases = [] then [None]
          else let n = length phases; k0 = rotation_index round_num n
               in if pc_phase_policy (cf_phases cfg) = PolicySkip
                  then map (\<lambda>i. Some (phases ! ((k0 + i) mod n))) [0..<n]
                  else [Some (phases ! k0)])"

text \<open>\<open>runner._phase_for\<close>: the phase and its index, or a \<open>ConfigError\<close>.\<close>

definition phase_for :: "int \<Rightarrow> string list option \<Rightarrow> string option \<Rightarrow> (string option \<times> nat) res" where
  "phase_for round_num phases override =
     (let ps = (case phases of None \<Rightarrow> [] | Some ps \<Rightarrow> ps) in
      case override of
        Some p \<Rightarrow>
          if ps = [] then Inl (ConfigError ''--phase requires [phases]'')
          else if p \<notin> set ps then Inl (ConfigError ''--phase not in [phases]'')
          else Inr (Some p, length (takeWhile (\<lambda>q. q \<noteq> p) ps))
      | None \<Rightarrow>
          if ps = [] then Inr (None, 0)
          else let i = rotation_index round_num (length ps) in Inr (Some (ps ! i), i))"

subsection \<open>Zoned instants\<close>

record zdt =
  zd_local :: ldt
  zd_zone :: "string option"

definition ldt_us :: "ldt \<Rightarrow> int" where
  "ldt_us t = wall_min t * 60000000 + sub_us t"

text \<open>Python compares the wall clocks when both sides share their zone, the UTC instants otherwise.\<close>

definition zdt_less :: "(string option \<Rightarrow> ldt \<Rightarrow> int) \<Rightarrow> zdt \<Rightarrow> zdt \<Rightarrow> bool" where
  "zdt_less utc_off a b =
     (if zd_zone a = zd_zone b then ldt_us (zd_local a) < ldt_us (zd_local b)
      else ldt_us (zd_local a) - utc_off (zd_zone a) (zd_local a)
           < ldt_us (zd_local b) - utc_off (zd_zone b) (zd_local b))"

subsection \<open>Selection\<close>

record selection =
  sl_phase :: "string option"
  sl_paused :: bool
  sl_resume_at :: "zdt option"
  sl_resume_phase :: "string option"
  sl_resume_timezone :: "string option"
  sl_skipped :: "string list"
  sl_active_window :: "string option"

text \<open>The earliest-opening closed candidate: \<open>(resume_at, phase, window, timezone)\<close>.\<close>

type_synonym best = "(zdt \<times> string option \<times> string option \<times> string option) option"

definition phase_schedule :: "config \<Rightarrow> string option \<Rightarrow> schedule_config" where
  "phase_schedule cfg phase = pr_schedule (profile_for cfg phase)"

definition phase_throttled :: "string set \<Rightarrow> string option \<Rightarrow> bool" where
  "phase_throttled throttled phase = (case phase of None \<Rightarrow> False | Some p \<Rightarrow> p \<in> throttled)"

definition phase_open :: "config \<Rightarrow> (string option \<Rightarrow> ldt) \<Rightarrow> string option \<Rightarrow> bool" where
  "phase_open cfg now_fn phase =
     (let sched = phase_schedule cfg phase
      in should_run (sc_run_windows sched) (sc_pause_windows sched) (now_fn (sc_timezone sched)))"

definition better :: "(string option \<Rightarrow> ldt \<Rightarrow> int) \<Rightarrow> zdt \<Rightarrow> best \<Rightarrow> bool" where
  "better utc_off r b = (case b of None \<Rightarrow> True | Some (r0, _) \<Rightarrow> zdt_less utc_off r r0)"

fun select_loop ::
  "(string option \<Rightarrow> ldt \<Rightarrow> int) \<Rightarrow> config \<Rightarrow> string set \<Rightarrow> (string option \<Rightarrow> ldt) \<Rightarrow>
   nat \<Rightarrow> string option list \<Rightarrow> string list \<Rightarrow> string option \<Rightarrow> best \<Rightarrow> selection" where
  "select_loop utc_off cfg throttled now_fn i [] skipped rotation_window best =
     (case best of
        None \<Rightarrow> \<lparr>sl_phase = None, sl_paused = True, sl_resume_at = None, sl_resume_phase = None,
                 sl_resume_timezone = None, sl_skipped = [], sl_active_window = rotation_window\<rparr>
      | Some (r, p, w, tz) \<Rightarrow>
          \<lparr>sl_phase = None, sl_paused = True, sl_resume_at = Some r, sl_resume_phase = p,
           sl_resume_timezone = tz, sl_skipped = [], sl_active_window = w\<rparr>)"
| "select_loop utc_off cfg throttled now_fn i (phase # order) skipped rotation_window best =
     (let sched = phase_schedule cfg phase;
          now = now_fn (sc_timezone sched);
          thr = phase_throttled throttled phase;
          skipped' = (case phase of None \<Rightarrow> skipped | Some p \<Rightarrow> skipped @ [p])
      in if \<not> thr \<and> should_run (sc_run_windows sched) (sc_pause_windows sched) now
         then \<lparr>sl_phase = phase, sl_paused = False, sl_resume_at = None, sl_resume_phase = None,
               sl_resume_timezone = None, sl_skipped = skipped, sl_active_window = rotation_window\<rparr>
         else if thr
         then select_loop utc_off cfg throttled now_fn (i + 1) order skipped' rotation_window best
         else let decision = evaluate (sc_run_windows sched) (sc_pause_windows sched) now;
                  rw' = (if i = 0 then pd_active_window decision else rotation_window);
                  best' = (case pd_resume_at decision of
                             None \<Rightarrow> best
                           | Some t \<Rightarrow>
                               (let r = \<lparr>zd_local = t, zd_zone = sc_timezone sched\<rparr>
                                in if better utc_off r best
                                   then Some (r, phase, pd_active_window decision, sc_timezone sched)
                                   else best))
              in select_loop utc_off cfg throttled now_fn (i + 1) order skipped' rw' best')"

definition select_phase ::
  "(string option \<Rightarrow> ldt \<Rightarrow> int) \<Rightarrow> config \<Rightarrow> int \<Rightarrow> string set \<Rightarrow> (string option \<Rightarrow> ldt) \<Rightarrow> selection" where
  "select_phase utc_off cfg round_num throttled now_fn =
     select_loop utc_off cfg throttled now_fn 0 (candidate_phases cfg round_num) [] None None"

subsection \<open>Colliding phase windows\<close>

record window_overlap =
  wo_phase_a :: string
  wo_phase_b :: string
  wo_window_a :: string
  wo_window_b :: string

definition effectively_open :: "window \<Rightarrow> window list \<Rightarrow> int \<Rightarrow> int \<Rightarrow> bool" where
  "effectively_open w pause_windows d m \<longleftrightarrow>
     contains w d m \<and> \<not> list_ex (\<lambda>p. contains p d m) pause_windows"

definition windows_collide :: "window \<Rightarrow> window \<Rightarrow> window list \<Rightarrow> window list \<Rightarrow> bool" where
  "windows_collide a b pause_a pause_b \<longleftrightarrow>
     list_ex (\<lambda>d. list_ex (\<lambda>m. effectively_open a pause_a (int d) (int m)
                             \<and> effectively_open b pause_b (int d) (int m)) [0..<1440]) [0..<7]"

definition overlap_candidate :: "config \<Rightarrow> string \<Rightarrow> (string \<times> schedule_config) option" where
  "overlap_candidate cfg p =
     (case pc_overrides (cf_phases cfg) p of
        None \<Rightarrow> None
      | Some ov \<Rightarrow>
          (case ov_schedule ov of
             None \<Rightarrow> None
           | Some sc \<Rightarrow> if ov_agent ov \<noteq> None \<and> sc_run_windows sc \<noteq> []
                        then Some (p, phase_schedule cfg (Some p)) else None))"

definition overlap_candidates :: "config \<Rightarrow> (string \<times> schedule_config) list" where
  "overlap_candidates cfg =
     List.map_filter (overlap_candidate cfg)
       (case pc_list (cf_phases cfg) of None \<Rightarrow> [] | Some ps \<Rightarrow> ps)"

text \<open>\<open>itertools.combinations(candidates, 2)\<close>.\<close>

fun combinations2 :: "'a list \<Rightarrow> ('a \<times> 'a) list" where
  "combinations2 [] = []"
| "combinations2 (x # xs) = map (Pair x) xs @ combinations2 xs"

definition overlap_hit :: "schedule_config \<Rightarrow> schedule_config \<Rightarrow> (window \<times> window) option" where
  "overlap_hit sa sb =
     find (\<lambda>(wa, wb). windows_collide wa wb (sc_pause_windows sa) (sc_pause_windows sb))
       (List.product (sc_run_windows sa) (sc_run_windows sb))"

definition overlap_of :: "(string \<times> schedule_config) \<times> (string \<times> schedule_config) \<Rightarrow> window_overlap option" where
  "overlap_of pr =
     (case pr of ((pa, sa), (pb, sb)) \<Rightarrow>
        if sc_timezone sa \<noteq> sc_timezone sb then None
        else (case overlap_hit sa sb of
                None \<Rightarrow> None
              | Some (wa, wb) \<Rightarrow>
                  Some \<lparr>wo_phase_a = pa, wo_phase_b = pb, wo_window_a = win_label wa, wo_window_b = win_label wb\<rparr>))"

definition find_phase_window_overlaps :: "config \<Rightarrow> window_overlap list" where
  "find_phase_window_overlaps cfg = List.map_filter overlap_of (combinations2 (overlap_candidates cfg))"

fun join_with :: "string \<Rightarrow> string list \<Rightarrow> string" where
  "join_with sep [] = []"
| "join_with sep [x] = x"
| "join_with sep (x # y # ys) = x @ sep @ join_with sep (y # ys)"

definition describe_overlaps :: "window_overlap list \<Rightarrow> string" where
  "describe_overlaps os =
     join_with ''; '' (map (\<lambda>w. wo_phase_a w @ '' ('' @ wo_window_a w @ '') vs '' @ wo_phase_b w
                              @ '' ('' @ wo_window_b w @ '')'') os)"

subsection \<open>The rotation\<close>

lemma rotation_index_less: "n > 0 \<Longrightarrow> rotation_index r n < n"
  by (simp add: rotation_index_def nat_less_iff)

lemma rotation_index_add:
  "n > 0 \<Longrightarrow> rotation_index (r + int i) n = (rotation_index r n + i) mod n"
  by (simp add: rotation_index_def nat_mod_distrib [symmetric] nat_add_distrib [symmetric]
      add.commute nat_eq_iff zmod_int mod_simps algebra_simps)

lemma candidate_skip:
  assumes "pc_list (cf_phases cfg) = Some ps" "ps \<noteq> []" "pc_phase_policy (cf_phases cfg) = PolicySkip"
  shows "candidate_phases cfg r = map Some (rotate (rotation_index r (length ps)) ps)"
  using assms by (auto simp: candidate_phases_def Let_def nth_rotate intro!: nth_equalityI)

lemma candidate_hd:
  assumes "pc_list (cf_phases cfg) = Some ps" "ps \<noteq> []"
  shows "candidate_phases cfg r \<noteq> [] \<and> hd (candidate_phases cfg r) = Some (ps ! rotation_index r (length ps))"
  using assms rotation_index_less [of "length ps" r]
  by (auto simp: candidate_phases_def Let_def hd_map upt_conv_Cons)

text \<open>The phase rotation: round 1 starts at the first phase, the round child computes the same
  phase as the supervisor's first candidate, any run of as many rounds as there are phases visits
  them in cyclic order (each once), \<open>skip\<close> considers the whole rotation and \<open>wait\<close> only its head.\<close>

theorem rotation_fair:
  assumes "pc_list (cf_phases cfg) = Some ps" "ps \<noteq> []"
  shows "hd (candidate_phases cfg 1) = Some (hd ps)
    \<and> phase_for r (Some ps) None = Inr (hd (candidate_phases cfg r), rotation_index r (length ps))
    \<and> map (\<lambda>i. hd (candidate_phases cfg (r + int i))) [0..<length ps]
        = map Some (rotate (rotation_index r (length ps)) ps)
    \<and> (pc_phase_policy (cf_phases cfg) = PolicySkip \<longrightarrow>
         candidate_phases cfg r = map Some (rotate (rotation_index r (length ps)) ps))
    \<and> (pc_phase_policy (cf_phases cfg) = PolicyWait \<longrightarrow>
         candidate_phases cfg r = [hd (candidate_phases cfg r)])"
proof -
  have n: "length ps > 0" using assms(2) by simp
  have one: "hd (candidate_phases cfg 1) = Some (hd ps)"
    using candidate_hd [OF assms, of 1] assms(2) by (simp add: rotation_index_def hd_conv_nth)
  have pf: "phase_for r (Some ps) None = Inr (hd (candidate_phases cfg r), rotation_index r (length ps))"
    using candidate_hd [OF assms, of r] assms(2) by (simp add: phase_for_def Let_def)
  have rot: "map (\<lambda>i. hd (candidate_phases cfg (r + int i))) [0..<length ps]
        = map Some (rotate (rotation_index r (length ps)) ps)"
    by (rule nth_equalityI)
      (simp_all add: candidate_hd [OF assms] rotation_index_add assms(2) nth_rotate)
  have wait: "pc_phase_policy (cf_phases cfg) = PolicyWait \<longrightarrow>
         candidate_phases cfg r = [hd (candidate_phases cfg r)]"
    using assms by (simp add: candidate_phases_def Let_def)
  show ?thesis using one pf rot wait candidate_skip [OF assms] by blast
qed

subsection \<open>The selection loop as a search and a minimum\<close>

definition phase_runnable :: "config \<Rightarrow> string set \<Rightarrow> (string option \<Rightarrow> ldt) \<Rightarrow> string option \<Rightarrow> bool" where
  "phase_runnable cfg throttled now_fn p \<longleftrightarrow> \<not> phase_throttled throttled p \<and> phase_open cfg now_fn p"

definition phase_resume :: "config \<Rightarrow> (string option \<Rightarrow> ldt) \<Rightarrow> string option \<Rightarrow> zdt option" where
  "phase_resume cfg now_fn p =
     (let sched = phase_schedule cfg p; tz = sc_timezone sched
      in map_option (\<lambda>t. \<lparr>zd_local = t, zd_zone = tz\<rparr>)
           (next_resume_at (sc_run_windows sched) (sc_pause_windows sched) (now_fn tz)))"

definition closed_label :: "config \<Rightarrow> (string option \<Rightarrow> ldt) \<Rightarrow> string option \<Rightarrow> string" where
  "closed_label cfg now_fn p =
     (let sched = phase_schedule cfg p
      in active_window_label (sc_pause_windows sched) (now_fn (sc_timezone sched)))"

definition best_step ::
  "(string option \<Rightarrow> ldt \<Rightarrow> int) \<Rightarrow> config \<Rightarrow> string set \<Rightarrow> (string option \<Rightarrow> ldt) \<Rightarrow> string option \<Rightarrow> best \<Rightarrow> best" where
  "best_step utc_off cfg throttled now_fn p b =
     (if phase_throttled throttled p then b
      else (case phase_resume cfg now_fn p of
              None \<Rightarrow> b
            | Some r \<Rightarrow> if better utc_off r b
                then Some (r, p, Some (closed_label cfg now_fn p), sc_timezone (phase_schedule cfg p)) else b))"

lemma select_loop_closed:
  assumes "\<not> phase_runnable cfg thr now_fn p"
  shows "\<exists>rw'. select_loop off cfg thr now_fn i (p # ps) sk rw b =
     select_loop off cfg thr now_fn (i + 1) ps (sk @ (case p of None \<Rightarrow> [] | Some q \<Rightarrow> [q])) rw'
       (best_step off cfg thr now_fn p b)"
  using assms
  by (auto simp: phase_runnable_def phase_open_def Let_def evaluate_def best_step_def phase_resume_def
      closed_label_def split: option.splits)

lemma select_loop_open:
  assumes "phase_runnable cfg thr now_fn p"
  shows "select_loop off cfg thr now_fn i (p # ps) sk rw b =
     \<lparr>sl_phase = p, sl_paused = False, sl_resume_at = None, sl_resume_phase = None,
      sl_resume_timezone = None, sl_skipped = sk, sl_active_window = rw\<rparr>"
  using assms by (auto simp: phase_runnable_def phase_open_def Let_def)

lemma select_loop_find:
  "\<exists>rw'. select_loop off cfg thr now_fn i ps sk rw b =
    (case find (phase_runnable cfg thr now_fn) ps of
       Some p \<Rightarrow> \<lparr>sl_phase = p, sl_paused = False, sl_resume_at = None, sl_resume_phase = None,
                 sl_resume_timezone = None,
                 sl_skipped = sk @ List.map_filter id (takeWhile (\<lambda>p. \<not> phase_runnable cfg thr now_fn p) ps),
                 sl_active_window = rw'\<rparr>
     | None \<Rightarrow> select_loop off cfg thr now_fn 0 [] [] rw' (fold (best_step off cfg thr now_fn) ps b))"
proof (induction ps arbitrary: i sk rw b)
  case (Cons p ps)
  show ?case
  proof (cases "phase_runnable cfg thr now_fn p")
    case True
    then show ?thesis by (simp add: select_loop_open map_filter_simps del: select_loop.simps)
  next
    case False
    obtain rw1 where e: "select_loop off cfg thr now_fn i (p # ps) sk rw b =
      select_loop off cfg thr now_fn (i + 1) ps (sk @ (case p of None \<Rightarrow> [] | Some q \<Rightarrow> [q])) rw1
       (best_step off cfg thr now_fn p b)"
      using select_loop_closed [OF False] by blast
    have f: "find (phase_runnable cfg thr now_fn) (p # ps) = find (phase_runnable cfg thr now_fn) ps"
      using False by simp
    have s: "(sk @ (case p of None \<Rightarrow> [] | Some q \<Rightarrow> [q]))
         @ List.map_filter id (takeWhile (\<lambda>p. \<not> phase_runnable cfg thr now_fn p) ps)
       = sk @ List.map_filter id (takeWhile (\<lambda>p. \<not> phase_runnable cfg thr now_fn p) (p # ps))"
      using False by (simp add: map_filter_simps split: option.split)
    show ?thesis unfolding e f fold.simps o_apply s [symmetric]
      by (rule Cons.IH)
  qed
qed (auto split: option.split)

text \<open>Wall clocks run with UTC in every zone: no fold between the instants compared.\<close>

definition no_fold :: "(string option \<Rightarrow> ldt \<Rightarrow> int) \<Rightarrow> bool" where
  "no_fold off \<longleftrightarrow> (\<forall>z a b. ldt_us a < ldt_us b \<longleftrightarrow> ldt_us a - off z a < ldt_us b - off z b)"

lemma zdt_less_key:
  "no_fold off \<Longrightarrow> zdt_less off a b \<longleftrightarrow>
    ldt_us (zd_local a) - off (zd_zone a) (zd_local a) < ldt_us (zd_local b) - off (zd_zone b) (zd_local b)"
  by (auto simp: zdt_less_def no_fold_def)

definition best_ok ::
  "(string option \<Rightarrow> ldt \<Rightarrow> int) \<Rightarrow> config \<Rightarrow> string set \<Rightarrow> (string option \<Rightarrow> ldt) \<Rightarrow> string option set \<Rightarrow> best \<Rightarrow> bool" where
  "best_ok off cfg thr now_fn S b =
     (case b of
        None \<Rightarrow> \<forall>p \<in> S. \<not> phase_throttled thr p \<longrightarrow> phase_resume cfg now_fn p = None
      | Some (r, p, w, tz) \<Rightarrow>
          p \<in> S \<and> \<not> phase_throttled thr p \<and> phase_resume cfg now_fn p = Some r
          \<and> w = Some (closed_label cfg now_fn p) \<and> tz = zd_zone r
          \<and> (\<forall>q \<in> S. \<forall>r'. \<not> phase_throttled thr q \<and> phase_resume cfg now_fn q = Some r' \<longrightarrow>
               \<not> zdt_less off r' r))"

lemma phase_resume_zone: "phase_resume cfg now_fn p = Some r \<Longrightarrow> zd_zone r = sc_timezone (phase_schedule cfg p)"
  by (auto simp: phase_resume_def Let_def)

lemma best_step_ok:
  assumes "no_fold off" "best_ok off cfg thr now_fn S b"
  shows "best_ok off cfg thr now_fn (insert p S) (best_step off cfg thr now_fn p b)"
proof (cases "phase_throttled thr p \<or> phase_resume cfg now_fn p = None")
  case True
  then show ?thesis using assms(2) by (auto simp: best_ok_def best_step_def split: option.splits)
next
  case False
  then obtain r where r: "phase_resume cfg now_fn p = Some r" "\<not> phase_throttled thr p" by auto
  show ?thesis
    using assms(2) r phase_resume_zone [OF r(1)]
    by (auto simp: best_ok_def best_step_def better_def zdt_less_key [OF assms(1)] split: option.splits)
qed

lemma best_fold_ok:
  "no_fold off \<Longrightarrow> best_ok off cfg thr now_fn S b \<Longrightarrow>
    best_ok off cfg thr now_fn (S \<union> set ps) (fold (best_step off cfg thr now_fn) ps b)"
proof (induction ps arbitrary: S b)
  case (Cons p ps)
  from Cons.IH [OF Cons.prems(1) best_step_ok [OF Cons.prems, of p]]
  show ?case by simp
qed simp




subsection \<open>The overlap check is exact\<close>

lemma should_run_effectively_open:
  "rw \<noteq> [] \<Longrightarrow> should_run rw pw t \<longleftrightarrow>
    (\<exists>w \<in> set rw. effectively_open w pw (ldt_weekday t) (minute_of_day t))"
  by (auto simp: should_run_def effectively_open_def list_ex_iff Let_def)

lemma minute_of_day_range: "0 \<le> minute_of_day t \<and> minute_of_day t < 1440"
proof -
  have "0 \<le> (wall_min t div 60) mod 24" "(wall_min t div 60) mod 24 \<le> 23" by simp_all
  moreover have "0 \<le> wall_min t mod 60" "wall_min t mod 60 \<le> 59" by simp_all
  ultimately show ?thesis unfolding minute_of_day_def by linarith
qed

lemma ldt_of_week_minute:
  assumes "d < 7" "m < 1440"
  shows "ldt_weekday \<lparr>wall_min = int d * 1440 + int m, sub_us = 0\<rparr> = int d
    \<and> minute_of_day \<lparr>wall_min = int d * 1440 + int m, sub_us = 0\<rparr> = int m"
proof -
  have "(int d * 1440 + int m) div 1440 = int d" using assms by simp
  then have 1: "ldt_weekday \<lparr>wall_min = int d * 1440 + int m, sub_us = 0\<rparr> = int d"
    using assms by (simp add: ldt_weekday_def)
  have e: "int d * 1440 + int m = int m + (int d * 24) * 60" by simp
  have "((int d * 1440 + int m) div 60) mod 24 = int m div 60 mod 24"
    unfolding e by (simp only: div_mult_self1) simp
  moreover have "int m div 60 mod 24 = int m div 60" using assms by simp
  moreover have "(int d * 1440 + int m) mod 60 = int m mod 60"
    unfolding e by (simp only: mod_mult_self1)
  ultimately have "minute_of_day \<lparr>wall_min = int d * 1440 + int m, sub_us = 0\<rparr> = int m div 60 * 60 + int m mod 60"
    by (simp add: minute_of_day_def)
  then show ?thesis using 1 by simp
qed

lemma windows_collide_iff:
  "windows_collide a b pa pb \<longleftrightarrow>
    (\<exists>t. effectively_open a pa (ldt_weekday t) (minute_of_day t)
       \<and> effectively_open b pb (ldt_weekday t) (minute_of_day t))"
proof
  assume "windows_collide a b pa pb"
  then obtain d m where dm: "d < 7" "m < 1440" "effectively_open a pa (int d) (int m)"
      "effectively_open b pb (int d) (int m)"
    by (auto simp: windows_collide_def list_ex_iff)
  note t = ldt_of_week_minute [OF dm(1,2)]
  show "\<exists>t. effectively_open a pa (ldt_weekday t) (minute_of_day t)
       \<and> effectively_open b pb (ldt_weekday t) (minute_of_day t)"
    by (rule exI [of _ "\<lparr>wall_min = int d * 1440 + int m, sub_us = 0\<rparr>"]) (use t dm in simp)
next
  assume "\<exists>t. effectively_open a pa (ldt_weekday t) (minute_of_day t)
       \<and> effectively_open b pb (ldt_weekday t) (minute_of_day t)"
  then obtain t where t: "effectively_open a pa (ldt_weekday t) (minute_of_day t)"
    "effectively_open b pb (ldt_weekday t) (minute_of_day t)" by blast
  have w: "0 \<le> ldt_weekday t" "ldt_weekday t < 7" by (simp_all add: ldt_weekday_def)
  show "windows_collide a b pa pb"
    unfolding windows_collide_def list_ex_iff
  proof (intro bexI conjI)
    show "effectively_open a pa (int (nat (ldt_weekday t))) (int (nat (minute_of_day t)))"
      and "effectively_open b pb (int (nat (ldt_weekday t))) (int (nat (minute_of_day t)))"
      using t w minute_of_day_range [of t] by simp_all
    show "nat (minute_of_day t) \<in> set [0..<1440]" using minute_of_day_range [of t] by (simp add: nat_less_iff)
    show "nat (ldt_weekday t) \<in> set [0..<7]" using w by (simp add: nat_less_iff)
  qed
qed

lemma overlap_hit_iff:
  assumes "sc_run_windows sa \<noteq> []" "sc_run_windows sb \<noteq> []"
  shows "overlap_hit sa sb \<noteq> None \<longleftrightarrow>
    (\<exists>t. should_run (sc_run_windows sa) (sc_pause_windows sa) t
       \<and> should_run (sc_run_windows sb) (sc_pause_windows sb) t)"
  unfolding overlap_hit_def find_None_iff2 should_run_effectively_open [OF assms(1)]
    should_run_effectively_open [OF assms(2)]
  by (auto simp: windows_collide_iff)

lemma in_map_filter: "c \<in> set (List.map_filter f xs) \<longleftrightarrow> (\<exists>x \<in> set xs. f x = Some c)"
  by (induction xs) (auto simp: map_filter_simps split: option.splits)

lemma overlap_candidate_entry:
  "overlap_candidate cfg p = Some c \<Longrightarrow>
    snd c = phase_schedule cfg (Some (fst c)) \<and> sc_run_windows (snd c) \<noteq> []"
  by (auto simp: overlap_candidate_def phase_schedule_def profile_for_def resolve_schedule_def
      split: option.splits if_splits)

lemma overlap_candidates_entry:
  "c \<in> set (overlap_candidates cfg) \<Longrightarrow>
    snd c = phase_schedule cfg (Some (fst c)) \<and> sc_run_windows (snd c) \<noteq> []"
  unfolding overlap_candidates_def in_map_filter using overlap_candidate_entry by blast

lemma combinations2_index:
  "(x, y) \<in> set (combinations2 xs) \<longleftrightarrow> (\<exists>i j. i < j \<and> j < length xs \<and> x = xs ! i \<and> y = xs ! j)"
proof (induction xs)
  case (Cons z zs)
  have "(\<exists>i j. i < j \<and> j < length (z # zs) \<and> x = (z # zs) ! i \<and> y = (z # zs) ! j) \<longleftrightarrow>
    (x = z \<and> y \<in> set zs) \<or> (\<exists>i j. i < j \<and> j < length zs \<and> x = zs ! i \<and> y = zs ! j)" (is "?l \<longleftrightarrow> ?r")
  proof
    assume ?l
    then obtain i j where ij: "i < j" "j < length (z # zs)" "x = (z # zs) ! i" "y = (z # zs) ! j" by blast
    then obtain j' where "j = Suc j'" by (cases j) auto
    with ij show ?r by (cases i) (simp, metis Suc_less_eq length_Cons nth_Cons_Suc)
  next
    assume ?r
    then show ?l
    proof
      assume "x = z \<and> y \<in> set zs"
      then obtain j where "j < length zs" "y = zs ! j" "x = z" by (auto simp: in_set_conv_nth)
      then show ?l by (intro exI [of _ 0] exI [of _ "Suc j"]) simp
    next
      assume "\<exists>i j. i < j \<and> j < length zs \<and> x = zs ! i \<and> y = zs ! j"
      then obtain i j where "i < j" "j < length zs" "x = zs ! i" "y = zs ! j" by blast
      then show ?l by (intro exI [of _ "Suc i"] exI [of _ "Suc j"]) simp
    qed
  qed
  then show ?case using Cons by auto
qed simp

lemma overlaps_mem:
  "w \<in> set (find_phase_window_overlaps cfg) \<longleftrightarrow>
    (\<exists>i j. i < j \<and> j < length (overlap_candidates cfg)
       \<and> overlap_of (overlap_candidates cfg ! i, overlap_candidates cfg ! j) = Some w)"
proof -
  have "w \<in> set (find_phase_window_overlaps cfg) \<longleftrightarrow>
     (\<exists>c \<in> set (combinations2 (overlap_candidates cfg)). overlap_of c = Some w)"
    by (simp add: find_phase_window_overlaps_def in_map_filter)
  also have "\<dots> \<longleftrightarrow> (\<exists>a b. (a, b) \<in> set (combinations2 (overlap_candidates cfg)) \<and> overlap_of (a, b) = Some w)"
    by force
  finally show ?thesis unfolding combinations2_index by metis
qed

text \<open>The overlap check of the configuration is exact: two phases are reported, in order, exactly when
  both override the agent and the schedule, share their effective time zone, and there is a local
  instant at which the schedules of both would run a round.\<close>

theorem phase_overlaps_exact:
  "(\<exists>w \<in> set (find_phase_window_overlaps cfg). wo_phase_a w = pa \<and> wo_phase_b w = pb) \<longleftrightarrow>
    (\<exists>i j. i < j \<and> j < length (overlap_candidates cfg)
       \<and> pa = fst (overlap_candidates cfg ! i) \<and> pb = fst (overlap_candidates cfg ! j)
       \<and> sc_timezone (phase_schedule cfg (Some pa)) = sc_timezone (phase_schedule cfg (Some pb))
       \<and> (\<exists>t. phase_open cfg (\<lambda>_. t) (Some pa) \<and> phase_open cfg (\<lambda>_. t) (Some pb)))"
proof -
  have key: "(\<exists>w. overlap_of (ca, cb) = Some w \<and> wo_phase_a w = pa \<and> wo_phase_b w = pb) \<longleftrightarrow>
      pa = fst ca \<and> pb = fst cb
       \<and> sc_timezone (phase_schedule cfg (Some pa)) = sc_timezone (phase_schedule cfg (Some pb))
       \<and> (\<exists>t. phase_open cfg (\<lambda>_. t) (Some pa) \<and> phase_open cfg (\<lambda>_. t) (Some pb))"
    if "ca \<in> set (overlap_candidates cfg)" "cb \<in> set (overlap_candidates cfg)" for ca cb
  proof -
    obtain qa sa qb sb where c: "ca = (qa, sa)" "cb = (qb, sb)" by (cases ca, cases cb)
    note a = overlap_candidates_entry [OF that(1), unfolded c, simplified]
    note b = overlap_candidates_entry [OF that(2), unfolded c, simplified]
    have hit: "(\<exists>x. overlap_hit sa sb = Some x) \<longleftrightarrow>
        (\<exists>t. phase_open cfg (\<lambda>_. t) (Some qa) \<and> phase_open cfg (\<lambda>_. t) (Some qb))"
      using overlap_hit_iff [of sa sb] a b by (simp add: phase_open_def Let_def) blast
    have ov: "(\<exists>w. overlap_of ((qa, sa), (qb, sb)) = Some w \<and> wo_phase_a w = pa \<and> wo_phase_b w = pb) \<longleftrightarrow>
        pa = qa \<and> pb = qb \<and> sc_timezone sa = sc_timezone sb \<and> (\<exists>x. overlap_hit sa sb = Some x)"
      by (auto simp: overlap_of_def split: option.splits)
    show ?thesis unfolding c ov hit fst_conv using a b by auto
  qed
  show ?thesis
  proof
    assume "\<exists>w \<in> set (find_phase_window_overlaps cfg). wo_phase_a w = pa \<and> wo_phase_b w = pb"
    then obtain w i j where w: "wo_phase_a w = pa" "wo_phase_b w = pb"
      "i < j" "j < length (overlap_candidates cfg)"
      "overlap_of (overlap_candidates cfg ! i, overlap_candidates cfg ! j) = Some w"
      by (auto simp: overlaps_mem)
    with key [of "overlap_candidates cfg ! i" "overlap_candidates cfg ! j"]
    show "\<exists>i j. i < j \<and> j < length (overlap_candidates cfg)
       \<and> pa = fst (overlap_candidates cfg ! i) \<and> pb = fst (overlap_candidates cfg ! j)
       \<and> sc_timezone (phase_schedule cfg (Some pa)) = sc_timezone (phase_schedule cfg (Some pb))
       \<and> (\<exists>t. phase_open cfg (\<lambda>_. t) (Some pa) \<and> phase_open cfg (\<lambda>_. t) (Some pb))"
      by (intro exI [of _ i] exI [of _ j]) auto
  next
    assume "\<exists>i j. i < j \<and> j < length (overlap_candidates cfg)
       \<and> pa = fst (overlap_candidates cfg ! i) \<and> pb = fst (overlap_candidates cfg ! j)
       \<and> sc_timezone (phase_schedule cfg (Some pa)) = sc_timezone (phase_schedule cfg (Some pb))
       \<and> (\<exists>t. phase_open cfg (\<lambda>_. t) (Some pa) \<and> phase_open cfg (\<lambda>_. t) (Some pb))"
    then obtain i j where ij: "i < j" "j < length (overlap_candidates cfg)"
      "pa = fst (overlap_candidates cfg ! i)" "pb = fst (overlap_candidates cfg ! j)"
      "sc_timezone (phase_schedule cfg (Some pa)) = sc_timezone (phase_schedule cfg (Some pb))"
      "\<exists>t. phase_open cfg (\<lambda>_. t) (Some pa) \<and> phase_open cfg (\<lambda>_. t) (Some pb)" by blast
    with key [of "overlap_candidates cfg ! i" "overlap_candidates cfg ! j"]
    obtain w where "overlap_of (overlap_candidates cfg ! i, overlap_candidates cfg ! j) = Some w"
      "wo_phase_a w = pa" "wo_phase_b w = pb" by auto
    then show "\<exists>w \<in> set (find_phase_window_overlaps cfg). wo_phase_a w = pa \<and> wo_phase_b w = pb"
      using ij(1,2) overlaps_mem by blast
  qed
qed



subsection \<open>Instances\<close>

theorem rotation_fair_witness:
  "candidate_phases (example_config (Some [''plan'', ''build'', ''review'']) PolicySkip) 5
     = map Some (rotate (rotation_index 5 3) [''plan'', ''build'', ''review''])
   \<and> rotation_index 5 3 = 1"
proof -
  have "pc_list (cf_phases (example_config (Some [''plan'', ''build'', ''review'']) PolicySkip)) =
      Some [''plan'', ''build'', ''review'']"
    "pc_phase_policy (cf_phases (example_config (Some [''plan'', ''build'', ''review'']) PolicySkip)) = PolicySkip"
    by (simp_all add: example_config_def)
  then show ?thesis using rotation_fair [of "example_config (Some [''plan'', ''build'', ''review'']) PolicySkip"
        "[''plan'', ''build'', ''review'']" 5]
    by (simp add: rotation_index_def)
qed


end
