(* ===== verification/Host_Health.thy ===== *)
theory Host_Health
  imports Config
begin

section \<open>The memory-pressure ladder (agent\_runner/host\_health.py)\<close>

text \<open>
  The pure interpretation of two metric samples: PSI if readable, else the swap-out rate with
  its MemFree escalation, else the combined-low tier. A sample is a map from field names to
  readings; a field that is absent or \<open>None\<close> is not in the map. A message is the list of its
  literal pieces and of the numbers formatted into it.
\<close>

type_synonym sample = "string \<rightharpoonup> real"

datatype severity = Warning | Critical
datatype signal = Psi | SwapOutRate | CombinedLow | CgroupGrowthRate
datatype piece = Lit string | Num real

record pressure =
  ps_severity :: severity
  ps_signal :: signal
  ps_message :: "piece list"
  ps_context :: "(string \<times> real) list"

definition swap_sout_delta :: "sample \<Rightarrow> sample \<Rightarrow> real option" where
  "swap_sout_delta cur prev =
     (case (cur ''swap_sout'', prev ''swap_sout'') of
        (Some c, Some p) \<Rightarrow> Some (c - p) | _ \<Rightarrow> None)"

definition signal_available :: "sample \<Rightarrow> sample \<Rightarrow> bool" where
  "signal_available cur prev \<longleftrightarrow>
     cur ''psi_some_avg10'' \<noteq> None \<or> swap_sout_delta cur prev \<noteq> None
     \<or> (cur ''mem_free_mb'' \<noteq> None \<and> cur ''mem_available_mb'' \<noteq> None)"

definition psi_pressure :: "real \<Rightarrow> real \<Rightarrow> host_health_config \<Rightarrow> pressure option" where
  "psi_pressure psi_some psi_full cfg =
     (let ctx = [(''psi_some_avg10'', psi_some), (''psi_full_avg10'', psi_full)] in
      if psi_full \<ge> hp_full_avg10_critical (hh_pressure cfg) then
        Some \<lparr>ps_severity = Critical, ps_signal = Psi,
              ps_message = [Lit ''PSI memory full avg10='', Num psi_full, Lit '' (every task stalled on reclaim)''],
              ps_context = ctx\<rparr>
      else if psi_some \<ge> hp_some_avg10_warning (hh_pressure cfg) then
        Some \<lparr>ps_severity = Warning, ps_signal = Psi,
              ps_message = [Lit ''PSI memory some avg10='', Num psi_some, Lit '' (reclaim is slowing progress)''],
              ps_context = ctx\<rparr>
      else None)"

definition swap_pressure :: "real \<Rightarrow> sample \<Rightarrow> host_health_config \<Rightarrow> pressure" where
  "swap_pressure delta cur cfg =
     (let floor = real_of_int (hm_free_low_mb (hh_memory cfg)) in
      case cur ''mem_free_mb'' of
        Some mem_free \<Rightarrow>
          if mem_free < floor then
            \<lparr>ps_severity = Critical, ps_signal = SwapOutRate,
             ps_message = [Lit ''swap sout +'', Num delta, Lit ''B since last sample while mem_free_mb '', Num mem_free,
               Lit '' < '', Num floor, Lit '' (actively dying, independent of swap-device speed)''],
             ps_context = [(''swap_sout_delta'', delta), (''mem_free_mb'', mem_free)]\<rparr>
          else \<lparr>ps_severity = Warning, ps_signal = SwapOutRate,
             ps_message = [Lit ''swap sout +'', Num delta, Lit ''B since last sample (above the noise floor)''],
             ps_context = [(''swap_sout_delta'', delta)]\<rparr>
      | None \<Rightarrow> \<lparr>ps_severity = Warning, ps_signal = SwapOutRate,
             ps_message = [Lit ''swap sout +'', Num delta, Lit ''B since last sample (above the noise floor)''],
             ps_context = [(''swap_sout_delta'', delta)]\<rparr>)"

definition combined_low_pressure :: "sample \<Rightarrow> host_health_config \<Rightarrow> pressure option" where
  "combined_low_pressure cur cfg =
     (let free_low = real_of_int (hm_free_low_mb (hh_memory cfg));
          avail_min = real_of_int (hm_avail_min_mb (hh_memory cfg)) in
      case (cur ''mem_free_mb'', cur ''mem_available_mb'') of
        (Some mem_free, Some mem_avail) \<Rightarrow>
          if mem_free < free_low \<and> mem_avail < avail_min then
            Some \<lparr>ps_severity = Warning, ps_signal = CombinedLow,
                  ps_message = [Lit ''mem_free_mb '', Num mem_free, Lit '' < '', Num free_low, Lit '' and '',
                    Lit ''mem_available_mb '', Num mem_avail, Lit '' < '', Num avail_min],
                  ps_context = [(''mem_free_mb'', mem_free), (''mem_available_mb'', mem_avail)]\<rparr>
          else None
      | _ \<Rightarrow> None)"

definition swap_noise_floor :: "host_health_config \<Rightarrow> real" where
  "swap_noise_floor cfg = real_of_int (hm_swap_out_noise_floor_mb (hh_memory cfg) * 1024 * 1024)"

definition memory_pressure :: "sample \<Rightarrow> sample \<Rightarrow> host_health_config \<Rightarrow> pressure option" where
  "memory_pressure cur prev cfg =
     (case cur ''psi_some_avg10'' of
        Some psi_some \<Rightarrow>
          psi_pressure psi_some (case cur ''psi_full_avg10'' of None \<Rightarrow> 0 | Some f \<Rightarrow> f) cfg
      | None \<Rightarrow>
          (case swap_sout_delta cur prev of
             Some delta \<Rightarrow>
               if delta > swap_noise_floor cfg then Some (swap_pressure delta cur cfg)
               else combined_low_pressure cur cfg
           | None \<Rightarrow> combined_low_pressure cur cfg))"

definition configured_gate_inert :: "sample \<Rightarrow> sample \<Rightarrow> host_health_config \<Rightarrow> bool" where
  "configured_gate_inert cur prev cfg =
     (case cur ''mem_available_mb'' of
        None \<Rightarrow> False
      | Some mem_avail \<Rightarrow>
          if mem_avail < real_of_int (hm_avail_min_mb (hh_memory cfg)) then False
          else (case memory_pressure cur prev cfg of
                  None \<Rightarrow> False
                | Some p \<Rightarrow> ps_signal p = Psi \<or> ps_signal p = SwapOutRate))"

definition cgroup_growth_rate_pressure :: "real option \<Rightarrow> host_health_config \<Rightarrow> pressure option" where
  "cgroup_growth_rate_pressure rate cfg =
     (case rate of
        None \<Rightarrow> None
      | Some r \<Rightarrow>
          (let warn = hp_cgroup_growth_rate_warning_mb_per_min (hh_pressure cfg) in
           if r \<ge> warn then
             Some \<lparr>ps_severity = Warning, ps_signal = CgroupGrowthRate,
                   ps_message = [Lit ''memory growing '', Num r, Lit '' MB/min (>= '', Num warn, Lit '')''],
                   ps_context = [(''rate_mb_per_min'', r), (''threshold_mb_per_min'', warn)]\<rparr>
           else None))"

subsection \<open>What a verdict of the ladder means\<close>

text \<open>
  The contract of the ladder, independent of its control flow: which readings make each verdict.
  \<open>psi_stall\<close> and \<open>swap_dying\<close> are the two critical conditions.
\<close>

definition psi_readable :: "sample \<Rightarrow> bool" where
  "psi_readable cur \<longleftrightarrow> cur ''psi_some_avg10'' \<noteq> None"

definition psi_stall :: "sample \<Rightarrow> host_health_config \<Rightarrow> bool" where
  "psi_stall cur cfg \<longleftrightarrow> psi_readable cur \<and>
     hp_full_avg10_critical (hh_pressure cfg) \<le> (case cur ''psi_full_avg10'' of None \<Rightarrow> 0 | Some f \<Rightarrow> f)"

definition swap_rising :: "sample \<Rightarrow> sample \<Rightarrow> host_health_config \<Rightarrow> bool" where
  "swap_rising cur prev cfg \<longleftrightarrow> (\<exists>d. swap_sout_delta cur prev = Some d \<and> d > swap_noise_floor cfg)"

definition free_low :: "sample \<Rightarrow> host_health_config \<Rightarrow> bool" where
  "free_low cur cfg \<longleftrightarrow> (\<exists>f. cur ''mem_free_mb'' = Some f \<and> f < real_of_int (hm_free_low_mb (hh_memory cfg)))"

definition is_critical :: "pressure option \<Rightarrow> bool" where
  "is_critical p \<longleftrightarrow> (\<exists>q. p = Some q \<and> ps_severity q = Critical)"

lemmas ladder_defs = memory_pressure_def psi_pressure_def swap_pressure_def combined_low_pressure_def Let_def

text \<open>The pressure ladder: it reports critical exactly on a full PSI stall, or without PSI on a
  swap-out above the noise floor while MemFree is low (never from the combined-low tier or the growth
  rate); any verdict implies a usable signal; and the configured MemAvailable gate is inert exactly
  when there is a verdict while MemAvailable is at or above its threshold.\<close>

theorem memory_ladder:
  "(is_critical (memory_pressure cur prev cfg) \<longleftrightarrow>
      (if psi_readable cur then psi_stall cur cfg else swap_rising cur prev cfg \<and> free_low cur cfg))
   \<and> (memory_pressure cur prev cfg \<noteq> None \<longrightarrow> signal_available cur prev)
   \<and> (configured_gate_inert cur prev cfg \<longleftrightarrow>
        memory_pressure cur prev cfg \<noteq> None
        \<and> (\<exists>a. cur ''mem_available_mb'' = Some a \<and> a \<ge> real_of_int (hm_avail_min_mb (hh_memory cfg))))
   \<and> (\<forall>r. \<not> is_critical (cgroup_growth_rate_pressure r cfg))"
proof (intro conjI allI)
  show "is_critical (memory_pressure cur prev cfg) \<longleftrightarrow>
      (if psi_readable cur then psi_stall cur cfg else swap_rising cur prev cfg \<and> free_low cur cfg)"
    by (auto simp: is_critical_def ladder_defs psi_readable_def psi_stall_def swap_rising_def free_low_def
        split: option.splits)
  show "memory_pressure cur prev cfg \<noteq> None \<longrightarrow> signal_available cur prev"
    by (auto simp: signal_available_def ladder_defs split: option.splits if_splits)
  show "configured_gate_inert cur prev cfg \<longleftrightarrow> memory_pressure cur prev cfg \<noteq> None
        \<and> (\<exists>a. cur ''mem_available_mb'' = Some a \<and> a \<ge> real_of_int (hm_avail_min_mb (hh_memory cfg)))"
    by (auto simp: configured_gate_inert_def ladder_defs split: option.splits if_splits)
  show "\<not> is_critical (cgroup_growth_rate_pressure r cfg)" for r
    by (auto simp: is_critical_def cgroup_growth_rate_pressure_def Let_def split: option.splits)
qed

theorem memory_ladder_witness:
  "is_critical (memory_pressure [''swap_sout'' \<mapsto> 50000000, ''mem_free_mb'' \<mapsto> 9] [''swap_sout'' \<mapsto> 0] default_host_health)
   \<and> signal_available [''swap_sout'' \<mapsto> 50000000, ''mem_free_mb'' \<mapsto> 9] [''swap_sout'' \<mapsto> 0]"
proof -
  let ?cur = "[''swap_sout'' \<mapsto> 50000000, ''mem_free_mb'' \<mapsto> 9]" and ?prev = "[''swap_sout'' \<mapsto> 0]"
  have "is_critical (memory_pressure ?cur ?prev default_host_health)"
    using memory_ladder [of ?cur ?prev default_host_health]
    by (simp add: psi_readable_def swap_rising_def free_low_def swap_sout_delta_def swap_noise_floor_def
        default_host_health_def)
  then show ?thesis
    using memory_ladder [of ?cur ?prev default_host_health] by (auto simp: is_critical_def)
qed

end
