(* ===== verification/Serve_Policy.thy ===== *)
theory Serve_Policy
  imports Config
begin

section \<open>The restart policy of the supervisor (agent\_runner/\_serve\_policy.py)\<close>

text \<open>
  Exit codes and thresholds, the decision after one round (config\_broken, crash\_loop or
  continue with a delay), the generic consecutive-streak breaker behind \<open>mem_loop\<close> and
  \<open>stalled_no_progress\<close>, the classification of an exception of the round child, and the
  round-timeout budget. An exception is the set of the classes it is an instance of, with the
  integer code of a \<open>SystemExit\<close>.
\<close>

subsection \<open>Constants\<close>

definition permanent_config_exit :: int where "permanent_config_exit = 78"
definition crash_loop_exit :: int where "crash_loop_exit = 75"
definition env_battery_exit :: int where "env_battery_exit = 76"
definition crash_loop_threshold :: nat where "crash_loop_threshold = 5"
definition crash_loop_short_exit_s :: real where "crash_loop_short_exit_s = 60"
definition crash_loop_max_delay_s :: int where "crash_loop_max_delay_s = 1800"
definition mem_loop_exit :: int where "mem_loop_exit = 71"
definition mem_loop_threshold :: nat where "mem_loop_threshold = 5"
definition mem_loop_persistent_exit :: int where "mem_loop_persistent_exit = 70"
definition restart_prevent_exit_codes :: "int list" where
  "restart_prevent_exit_codes = [permanent_config_exit, crash_loop_exit, mem_loop_persistent_exit]"
definition mem_loop_persist_window_s :: int where "mem_loop_persist_window_s = 7200"
definition mem_loop_persist_threshold :: nat where "mem_loop_persist_threshold = 3"
definition no_progress_short_s :: real where "no_progress_short_s = 30"

lemmas exit_codes = permanent_config_exit_def crash_loop_exit_def env_battery_exit_def
  mem_loop_exit_def mem_loop_persistent_exit_def

subsection \<open>The decision after a round\<close>

datatype action = ConfigBroken | CrashLoop | Continue

definition unknown_short_crash :: "int \<Rightarrow> real \<Rightarrow> bool \<Rightarrow> bool" where
  "unknown_short_crash returncode duration_s throttle_active \<longleftrightarrow>
     returncode \<noteq> 0 \<and> duration_s < crash_loop_short_exit_s
     \<and> \<not> (throttle_active \<or> returncode = env_battery_exit)"

definition post_round_decision :: "int \<Rightarrow> real \<Rightarrow> bool \<Rightarrow> nat \<Rightarrow> int \<Rightarrow> action \<times> int \<times> nat" where
  "post_round_decision returncode duration_s throttle_active consecutive restart_delay_s =
     (if returncode = permanent_config_exit then (ConfigBroken, 0, consecutive)
      else if unknown_short_crash returncode duration_s throttle_active then
        (let consecutive' = consecutive + 1
         in if consecutive' \<ge> crash_loop_threshold then (CrashLoop, 0, consecutive')
            else (Continue, min (restart_delay_s * 2 ^ consecutive') crash_loop_max_delay_s, consecutive'))
      else (Continue, (if returncode = 0 then restart_delay_s else restart_delay_s * 2), 0))"

definition consecutive_streak_decision :: "bool \<Rightarrow> nat \<Rightarrow> nat \<Rightarrow> bool \<times> nat" where
  "consecutive_streak_decision triggered consecutive threshold =
     (if \<not> triggered then (False, 0)
      else let consecutive' = consecutive + 1 in (consecutive' \<ge> threshold, consecutive'))"

text \<open>The flag says the verdict (\<open>mem_loop\<close>, \<open>stalled_no_progress\<close>) was reached.\<close>

definition mem_loop_decision :: "bool \<Rightarrow> nat \<Rightarrow> bool \<times> nat" where
  "mem_loop_decision mem_terminated consecutive =
     consecutive_streak_decision mem_terminated consecutive mem_loop_threshold"

definition no_progress_decision :: "bool \<Rightarrow> nat \<Rightarrow> bool \<times> nat" where
  "no_progress_decision no_progress consecutive =
     consecutive_streak_decision no_progress consecutive crash_loop_threshold"

subsection \<open>Exit codes of the round child\<close>

datatype exc_class = SystemExit | KeyboardInterrupt | ConfigErrorClass | EnvironmentalError

record exc =
  ex_classes :: "exc_class set"
  ex_code :: "int option"

definition classify_round_exit :: "exc \<Rightarrow> int" where
  "classify_round_exit e =
     (if SystemExit \<in> ex_classes e then (case ex_code e of Some c \<Rightarrow> c | None \<Rightarrow> 1)
      else if KeyboardInterrupt \<in> ex_classes e then 130
      else if ConfigErrorClass \<in> ex_classes e then permanent_config_exit
      else if EnvironmentalError \<in> ex_classes e then env_battery_exit
      else 1)"

subsection \<open>The round-timeout budget\<close>

definition reap_grace_s :: int where "reap_grace_s = 5"
definition git_commit_timeout_s :: int where "git_commit_timeout_s = 120"
definition hook_allowance_s :: int where "hook_allowance_s = 60"
definition round_term_grace_s :: int where "round_term_grace_s = 15"
definition stop_grace_margin_s :: int where "stop_grace_margin_s = 10"
definition round_unreaped_rc :: int where "round_unreaped_rc = 137"

lemmas budget_constants = reap_grace_s_def git_commit_timeout_s_def hook_allowance_s_def
  round_term_grace_s_def stop_grace_margin_s_def

definition timeout_budget :: "int \<Rightarrow> int \<Rightarrow> int \<times> int" where
  "timeout_budget round_budget_s goal_allowance_s =
     (let outer_ceiling_s = round_budget_s + max reap_grace_s round_term_grace_s
            + git_commit_timeout_s + hook_allowance_s + goal_allowance_s
      in (outer_ceiling_s + round_term_grace_s + stop_grace_margin_s, outer_ceiling_s))"

subsection \<open>Streaks over a run of rounds\<close>

text \<open>
  A breaker counts consecutive triggering rounds; it has tripped somewhere in a run exactly when
  the run contains \<open>thr\<close> consecutive triggering rounds.
\<close>

fun streak_trips :: "nat \<Rightarrow> bool list \<Rightarrow> nat \<Rightarrow> bool" where
  "streak_trips thr [] c = False"
| "streak_trips thr (b # bs) c =
     (case consecutive_streak_decision b c thr of (trip, c') \<Rightarrow> trip \<or> streak_trips thr bs c')"

definition has_streak :: "nat \<Rightarrow> bool list \<Rightarrow> bool" where
  "has_streak n bs \<longleftrightarrow> (\<exists>i. i + n \<le> length bs \<and> (\<forall>j < n. bs ! (i + j)))"

lemma has_streak_Cons:
  "n \<ge> 1 \<Longrightarrow> has_streak n (b # bs) \<longleftrightarrow>
    (n \<le> length (b # bs) \<and> (\<forall>j < n. (b # bs) ! j)) \<or> has_streak n bs"
proof
  assume "has_streak n (b # bs)"
  then obtain i where i: "i + n \<le> length (b # bs)" "\<forall>j < n. (b # bs) ! (i + j)"
    by (auto simp: has_streak_def)
  show "(n \<le> length (b # bs) \<and> (\<forall>j < n. (b # bs) ! j)) \<or> has_streak n bs"
  proof (cases i)
    case 0
    with i show ?thesis by simp
  next
    case (Suc k)
    with i show ?thesis by (auto simp: has_streak_def)
  qed
next
  assume "(n \<le> length (b # bs) \<and> (\<forall>j < n. (b # bs) ! j)) \<or> has_streak n bs"
  then show "has_streak n (b # bs)"
  proof
    assume "n \<le> length (b # bs) \<and> (\<forall>j < n. (b # bs) ! j)"
    then show ?thesis by (auto simp: has_streak_def intro: exI [of _ 0])
  next
    assume "has_streak n bs"
    then obtain i where "i + n \<le> length bs" "\<forall>j < n. bs ! (i + j)" by (auto simp: has_streak_def)
    then show ?thesis unfolding has_streak_def by (intro exI [of _ "Suc i"]) simp
  qed
qed

text \<open>Seen from a counter of \<open>c\<close>, the run is preceded by \<open>c\<close> triggering rounds.\<close>

lemma streak_trips_iff:
  "c < thr \<Longrightarrow> streak_trips thr bs c \<longleftrightarrow> has_streak thr (replicate c True @ bs)"
proof (induction bs arbitrary: c)
  case Nil
  then show ?case by (auto simp: has_streak_def)
next
  case (Cons b bs)
  have rep: "replicate c True @ True # bs = replicate (Suc c) True @ bs"
    by (simp add: replicate_append_same [symmetric])
  show ?case
  proof (cases b)
    case True
    show ?thesis
    proof (cases "Suc c < thr")
      case False
      with Cons.prems have "thr = Suc c" by simp
      then have "has_streak thr (replicate (Suc c) True @ bs)"
        unfolding has_streak_def by (intro exI [of _ 0]) (auto simp: nth_append simp del: replicate_Suc)
      then show ?thesis using True False by (simp add: consecutive_streak_decision_def rep del: replicate_Suc)
    next
      case True
      then show ?thesis using Cons.IH [of "Suc c"] \<open>b\<close>
        by (simp add: consecutive_streak_decision_def rep del: replicate_Suc)
    qed
  next
    case False
    have "has_streak thr (replicate k True @ False # bs) \<longleftrightarrow> has_streak thr bs" if "k < thr" for k
      using that
    proof (induction k)
      case 0
      then have "\<not> (\<forall>j < thr. (False # bs) ! j)" by (metis nth_Cons_0)
      with 0 show ?case by (simp add: has_streak_Cons) blast
    next
      case (Suc k)
      have "\<not> (\<forall>j < thr. (True # replicate k True @ False # bs) ! j)"
      proof
        assume "\<forall>j < thr. (True # replicate k True @ False # bs) ! j"
        with Suc.prems have "(True # replicate k True @ False # bs) ! Suc k" by blast
        then show False by (simp add: nth_append)
      qed
      with Suc show ?case by (simp add: has_streak_Cons) blast
    qed
    from this [OF Cons.prems] Cons.IH [of 0] Cons.prems False
    show ?thesis by (simp add: consecutive_streak_decision_def)
  qed
qed

subsection \<open>The crash-loop breaker over a run\<close>

text \<open>One round as the policy sees it: exit code, duration, whether a throttle was active.\<close>

type_synonym round_result = "int \<times> real \<times> bool"

fun policy_run :: "int \<Rightarrow> round_result list \<Rightarrow> nat \<Rightarrow> action" where
  "policy_run restart_delay [] c = Continue"
| "policy_run restart_delay ((rc, dur, thr) # rounds) c =
     (case post_round_decision rc dur thr c restart_delay of
        (Continue, _, c') \<Rightarrow> policy_run restart_delay rounds c'
      | (a, _, _) \<Rightarrow> a)"

definition crash_of :: "round_result \<Rightarrow> bool" where
  "crash_of r = (case r of (rc, dur, thr) \<Rightarrow> rc \<noteq> permanent_config_exit \<and> unknown_short_crash rc dur thr)"

lemma post_round_decision_streak:
  "rc \<noteq> permanent_config_exit \<Longrightarrow>
    (fst (post_round_decision rc dur thr c d) = CrashLoop
       \<longleftrightarrow> fst (consecutive_streak_decision (unknown_short_crash rc dur thr) c crash_loop_threshold))
    \<and> (fst (post_round_decision rc dur thr c d) = CrashLoop \<or> fst (post_round_decision rc dur thr c d) = Continue)
    \<and> snd (snd (post_round_decision rc dur thr c d))
       = snd (consecutive_streak_decision (unknown_short_crash rc dur thr) c crash_loop_threshold)"
  by (simp add: post_round_decision_def consecutive_streak_decision_def Let_def)

lemma policy_run_streak:
  "\<forall>r \<in> set rounds. fst r \<noteq> permanent_config_exit \<Longrightarrow>
    policy_run d rounds c = (if streak_trips crash_loop_threshold (map crash_of rounds) c then CrashLoop else Continue)"
proof (induction rounds arbitrary: c)
  case (Cons r rounds)
  obtain rc dur thr where r: "r = (rc, dur, thr)" by (cases r)
  then have rc: "rc \<noteq> permanent_config_exit" using Cons.prems by auto
  obtain a dl c' where p: "post_round_decision rc dur thr c d = (a, dl, c')" by (cases "post_round_decision rc dur thr c d")
  obtain t c2 where s: "consecutive_streak_decision (unknown_short_crash rc dur thr) c crash_loop_threshold = (t, c2)"
    by (cases "consecutive_streak_decision (unknown_short_crash rc dur thr) c crash_loop_threshold")
  from post_round_decision_streak [OF rc, of dur thr c d]
  have "(a = CrashLoop) = t" "a = CrashLoop \<or> a = Continue" "c' = c2" unfolding p s by auto
  then show ?case using Cons by (auto simp: r p s crash_of_def rc)
qed simp

lemma policy_run_append_config:
  "\<forall>r \<in> set rounds. fst r \<noteq> permanent_config_exit \<Longrightarrow> fst x = permanent_config_exit \<Longrightarrow>
    policy_run d (rounds @ x # later) c =
      (if streak_trips crash_loop_threshold (map crash_of rounds) c then CrashLoop else ConfigBroken)"
proof (induction rounds arbitrary: c)
  case Nil
  then show ?case by (cases x) (simp add: post_round_decision_def)
next
  case (Cons r rounds)
  obtain rc dur thr where r: "r = (rc, dur, thr)" by (cases r)
  then have rc: "rc \<noteq> permanent_config_exit" using Cons.prems by auto
  obtain a dl c' where p: "post_round_decision rc dur thr c d = (a, dl, c')" by (cases "post_round_decision rc dur thr c d")
  obtain t c2 where s: "consecutive_streak_decision (unknown_short_crash rc dur thr) c crash_loop_threshold = (t, c2)"
    by (cases "consecutive_streak_decision (unknown_short_crash rc dur thr) c crash_loop_threshold")
  from post_round_decision_streak [OF rc, of dur thr c d]
  have "(a = CrashLoop) = t" "a = CrashLoop \<or> a = Continue" "c' = c2" unfolding p s by auto
  then show ?case using Cons by (auto simp: r p s crash_of_def rc)
qed

text \<open>C36: the crash-loop breaker over a whole run of rounds: in a run without a permanent configuration
  exit the policy stops with \<open>crash_loop\<close> exactly when some five consecutive rounds were unknown
  short crashes (non-zero, under a minute, not throttled, not the environmental exit 76), and a
  later configuration exit stops it with \<open>config_broken\<close> unless the breaker stopped it first.\<close>

theorem crash_loop_exact:
  assumes "\<forall>r \<in> set rounds. fst r \<noteq> permanent_config_exit"
  shows "policy_run d rounds 0 = (if has_streak crash_loop_threshold (map crash_of rounds) then CrashLoop else Continue)
    \<and> policy_run d (rounds @ (permanent_config_exit, dur, thr) # later) 0 =
        (if has_streak crash_loop_threshold (map crash_of rounds) then CrashLoop else ConfigBroken)"
  using policy_run_streak [OF assms, of d 0] policy_run_append_config [OF assms, of "(permanent_config_exit, dur, thr)" d later 0]
  by (simp add: streak_trips_iff crash_loop_threshold_def)

theorem crash_loop_exact_witness:
  "policy_run 3 (replicate 4 (1, 2, False) @ [(76, 1, False)] @ replicate 4 (1, 2, False)) 0 = Continue
   \<and> policy_run 3 ([(0, 900, False)] @ replicate 5 (1, 2, False)) 0 = CrashLoop"
proof -
  let ?a = "replicate 4 (1, 2, False) @ [(76, 1, False)] @ replicate 4 (1, 2::real, False)"
  let ?b = "[(0, 900, False)] @ replicate 5 (1, 2::real, False)"
  have a: "\<forall>r \<in> set ?a. fst r \<noteq> permanent_config_exit" and b: "\<forall>r \<in> set ?b. fst r \<noteq> permanent_config_exit"
    by (auto simp: permanent_config_exit_def)
  have ca: "map crash_of ?a = replicate 4 True @ [False] @ replicate 4 True"
    and cb: "map crash_of ?b = False # replicate 5 True"
    by (simp_all add: crash_of_def unknown_short_crash_def exit_codes crash_loop_short_exit_s_def)
  have "\<not> has_streak 5 (replicate 4 True @ [False] @ replicate 4 True)"
    by (simp add: has_streak_Cons numeral_eq_Suc Ex_less_Suc) (simp add: has_streak_def)
  moreover have "has_streak 5 (False # replicate 5 True)"
    unfolding has_streak_def by (intro exI [of _ 1]) (simp add: nth_Cons')
  ultimately show ?thesis
    using crash_loop_exact [OF a, of 3] crash_loop_exact [OF b, of 3]
    unfolding ca cb by (simp add: crash_loop_threshold_def)
qed

subsection \<open>Delays\<close>

text \<open>The restart delay after a round is never negative and at most the larger of twice the configured
  delay and half an hour; a continuing crash streak is below the threshold and doubles the delay up
  to the cap; a clean round waits the plain delay; an environmental exit or an active throttle always
  continues and clears the streak.\<close>

theorem post_round_delay:
  assumes "post_round_decision rc dur thr c d = (a, delay, c')" "0 \<le> d"
  shows "0 \<le> delay \<and> delay \<le> max (2 * d) crash_loop_max_delay_s
    \<and> (a = Continue \<longrightarrow> c' < crash_loop_threshold)
    \<and> (a = Continue \<and> rc = 0 \<longrightarrow> delay = d \<and> c' = 0)
    \<and> (a = Continue \<and> c' \<noteq> 0 \<longrightarrow> c' = c + 1 \<and> delay = min (d * 2 ^ c') crash_loop_max_delay_s)
    \<and> (rc = env_battery_exit \<or> thr \<longrightarrow> rc \<noteq> permanent_config_exit \<longrightarrow> a = Continue \<and> c' = 0)"
  using assms
  by (auto simp: post_round_decision_def unknown_short_crash_def Let_def crash_loop_threshold_def
      crash_loop_max_delay_s_def exit_codes split: if_splits)

theorem post_round_delay_witness:
  "post_round_decision 1 5 False 2 3 = (Continue, 24, 3) \<and> (24::int) \<le> max (2 * 3) 1800"
proof -
  have "post_round_decision 1 5 False 2 3 = (Continue, 24, 3)"
    by (simp add: post_round_decision_def unknown_short_crash_def Let_def crash_loop_threshold_def
        crash_loop_max_delay_s_def crash_loop_short_exit_s_def exit_codes)
  with post_round_delay [OF this] show ?thesis by (simp add: crash_loop_max_delay_s_def)
qed

subsection \<open>The timeout budget\<close>

text \<open>The round-timeout budget is ordered: for any admissible SIGTERM grace, the round budget plus
  grace, commit, hooks and the worst case of the goal checks (each its timeout and two kill graces)
  is strictly inside the outer wall-clock ceiling, which with the supervisor's own grace is strictly
  inside systemd's stop timeout.\<close>

theorem timeout_budget_covers:
  assumes "ac_sigterm_grace_s agent \<le> max_sigterm_grace_s"
    and "timeout_budget (rt_round_budget_s rt) (goal_checks_allowance_s cfg) = (stop, outer)"
  shows "rt_round_budget_s rt + max reap_grace_s (ac_sigterm_grace_s agent) + git_commit_timeout_s
      + hook_allowance_s + goal_checks_allowance_s cfg < outer
    \<and> outer + round_term_grace_s < stop
    \<and> (case cf_goal cfg of None \<Rightarrow> goal_checks_allowance_s cfg = 0
       | Some g \<Rightarrow> goal_checks_allowance_s cfg
           = (\<Sum>c \<leftarrow> go_checks g. gc_timeout_s c + 2 * kill_grace_s))"
proof -
  have g: "checks_allowance_s g = (\<Sum>c \<leftarrow> go_checks g. gc_timeout_s c + 2 * kill_grace_s)" for g
    by (simp add: checks_allowance_s_def sum_list_addf sum_list_triv)
  show ?thesis using assms
    by (auto simp: timeout_budget_def budget_constants max_sigterm_grace_s_def Let_def
        goal_checks_allowance_s_def g split: option.split)
qed

theorem timeout_budget_covers_witness:
  "timeout_budget 1800 (goal_checks_allowance_s (example_config None PolicyWait)) = (2020, 1995)
   \<and> (1800 + 10 + 120 + 60 :: int) < 1995"
proof -
  let ?cfg = "example_config None PolicyWait"
  have g: "ac_sigterm_grace_s (example_agent ''pi'') \<le> max_sigterm_grace_s"
    by (simp add: example_agent_def default_sigterm_grace_s_def max_sigterm_grace_s_def)
  have t: "timeout_budget (rt_round_budget_s (default_runtime ''w'' ''l'')) (goal_checks_allowance_s ?cfg) = (2020, 1995)"
    by (simp add: timeout_budget_def budget_constants Let_def goal_checks_allowance_s_def example_config_def
        default_runtime_def)
  from timeout_budget_covers [OF g t] t show ?thesis
    by (simp add: budget_constants default_runtime_def goal_checks_allowance_s_def example_config_def
        example_agent_def default_sigterm_grace_s_def)
qed

end
