(* ===== verification/Spawn_Round.thy ===== *)
theory Spawn_Round
  imports Host_Health Serve_Policy Events
begin

section \<open>One supervised round (cli/\_serve\_round.py: \_spawn\_round, \_terminate\_round)\<close>

text \<open>
  The supervisor's wait on the round child: the exit, the wall-clock ceiling, and the mid-round
  memory checks with their hysteresis, the soft brake on \<open>memory.high\<close>, the growth-rate warning,
  the early nudge and the hard floor. Everything read from the outside in one pass of the loop is
  one \<open>tick\<close>; a run consumes a list of ticks and yields what it did (\<open>act\<close>s, in order: the events
  it emitted and the side effects on processes and cgroup files) with how it ended, or \<open>None\<close>
  when the round is still running after the last tick.
\<close>

subsection \<open>Observations and actions\<close>

text \<open>\<open>metrics.cgroup_memory_usage\<close>; its empty result is the absent value.\<close>

record cg_usage =
  cu_memory_current :: int
  cu_memory_swap_current :: int
  cu_memory_events :: "(string \<times> int) list"
  cu_cgroup_path :: string

text \<open>\<open>metrics.engage_leaf_memory_high\<close>: nothing done, a failed write, or (previous, written, current).\<close>

datatype engage_result = EngageNone | EngageErrno int | EngageOk string int int

datatype wake = Exited int | Woke | Raised

record term_obs =
  tm_grace_exit :: "int option"
  tm_kill_exit :: "int option"

record tick =
  tk_wake :: wake
  tk_after :: real
  tk_check :: real
  tk_sample :: sample
  tk_cgroup :: "cg_usage option"
  tk_rss :: "int option"
  tk_mono :: real
  tk_engage :: engage_result
  tk_write_s :: real
  tk_restore :: bool
  tk_final_restore :: bool
  tk_end :: real
  tk_term :: term_obs

datatype mem_source = FromCgroup | FromRssSum
datatype tier = NudgeTier | TerminateTier
datatype release_reason = Recovered | RoundEnd

datatype act =
    TermLeader
  | KillGroup
  | KillStrays
  | EngageHigh string int
  | RestoreHigh string bool
  | EmitGrowthWarning real real mem_source "(string \<times> real) list"
  | EmitHighEngaged string int int int signal "(string \<times> real) list" "real option"
  | EmitHighReleased release_reason
  | EmitHighWriteFailed "int option"
  | EmitCriticalSample nat "(string \<times> real) list"
  | EmitMemTerminated tier severity signal "piece list" nat "(string \<times> real) list"
  | EmitDeferredToCgroup signal "piece list"
  | EmitWedged int
  | StashCgroup "(string \<times> int) list" int int string

subsection \<open>Terminating the round\<close>

text \<open>TERM to the leader and a grace; then killpg, the strays, and ten more seconds.\<close>

definition terminate_round :: "term_obs \<Rightarrow> act list \<times> int" where
  "terminate_round ob =
     (case tm_grace_exit ob of
        Some rc \<Rightarrow> ([TermLeader], rc)
      | None \<Rightarrow> ([TermLeader, KillGroup, KillStrays],
                 (case tm_kill_exit ob of Some rc \<Rightarrow> rc | None \<Rightarrow> round_unreaped_rc)))"

subsection \<open>The verdict of a critical tick\<close>

datatype mid_action = Terminate | Defer | CountOnly | Nudge

definition mid_round_action :: "host_health_config \<Rightarrow> bool \<Rightarrow> nat \<Rightarrow> bool \<Rightarrow> mid_action" where
  "mid_round_action cfg defer_to_cgroup critical_streak nudged =
     (let p = hh_pressure cfg in
      if hp_in_round_terminate p \<and> int critical_streak \<ge> hp_critical_consecutive_samples p
      then (if defer_to_cgroup then Defer else Terminate)
      else if hp_in_round_nudge p \<and> \<not> nudged \<and> critical_streak = 1
              \<and> hp_in_round_terminate p \<and> \<not> defer_to_cgroup
      then Nudge else CountOnly)"

subsection \<open>The state of the loop\<close>

record spawn_state =
  ss_brake_engaged :: bool
  ss_brake_previous :: "string option"
  ss_brake_disarmed :: bool
  ss_brake_restore_failed :: bool
  ss_warning_streak :: nat
  ss_none_streak :: nat
  ss_next_mem_check :: "real option"
  ss_prev_sample :: "sample option"
  ss_critical_streak :: nat
  ss_nudged :: bool
  ss_defer_notified :: bool
  ss_prev_mem :: "(int \<times> real) option"
  ss_growth_warned :: bool
  ss_peak_current :: int
  ss_peak_swap :: int

record spawn_env =
  se_cfg :: "host_health_config option"
  se_defer :: bool
  se_armed :: bool
  se_timeout_s :: int
  se_started :: real
  se_armed_at :: real
  se_cg_base :: "cg_usage option"

definition mem_check_interval_s :: real where "mem_check_interval_s = 10"

definition spawn_deadline :: "spawn_env \<Rightarrow> real" where
  "spawn_deadline env = se_started env + real_of_int (se_timeout_s env)"

definition spawn_init :: "spawn_env \<Rightarrow> spawn_state" where
  "spawn_init env =
     \<lparr>ss_brake_engaged = False, ss_brake_previous = None, ss_brake_disarmed = False,
      ss_brake_restore_failed = False, ss_warning_streak = 0, ss_none_streak = 0,
      ss_next_mem_check = (case se_cfg env of None \<Rightarrow> None | Some _ \<Rightarrow> Some (se_armed_at env + mem_check_interval_s)),
      ss_prev_sample = None, ss_critical_streak = 0, ss_nudged = False, ss_defer_notified = False,
      ss_prev_mem = None, ss_growth_warned = False,
      ss_peak_current = (case se_cg_base env of None \<Rightarrow> 0 | Some u \<Rightarrow> cu_memory_current u),
      ss_peak_swap = (case se_cg_base env of None \<Rightarrow> 0 | Some u \<Rightarrow> cu_memory_swap_current u)\<rparr>"

text \<open>\<open>_brake_step_for\<close>: the boot probe's decision is the parameter \<open>armed\<close>.\<close>

definition brake_step_for :: "bool \<Rightarrow> host_health_config \<Rightarrow> int option" where
  "brake_step_for armed cfg =
     (if \<not> hb_memory_high (hh_brake cfg) then None
      else if \<not> armed then None else Some (hb_memory_high_step_pct (hh_brake cfg)))"

definition release_brake :: "string \<Rightarrow> bool \<Rightarrow> release_reason \<Rightarrow> act list" where
  "release_brake previous ok reason =
     [RestoreHigh previous ok, if ok then EmitHighReleased reason else EmitHighWriteFailed None]"

definition stash_cgroup :: "spawn_env \<Rightarrow> spawn_state \<Rightarrow> act list" where
  "stash_cgroup env st =
     (case se_cg_base env of
        None \<Rightarrow> []
      | Some u \<Rightarrow> [StashCgroup (cu_memory_events u) (ss_peak_current st) (ss_peak_swap st) (cu_cgroup_path u)])"

subsection \<open>One memory check, in the order of the loop body\<close>

definition growth_rate :: "(int \<times> real) option \<Rightarrow> int \<Rightarrow> real \<Rightarrow> real option" where
  "growth_rate prev cur_bytes now_mono =
     (case prev of
        None \<Rightarrow> None
      | Some (bytes, at_mono) \<Rightarrow>
          let elapsed_s = max (now_mono - at_mono) 0
          in Some (if elapsed_s = 0 then 0
                   else max (real_of_int (cur_bytes - bytes) / 1024 / 1024 / (elapsed_s / 60)) 0))"

definition growth_step ::
  "spawn_env \<Rightarrow> host_health_config \<Rightarrow> tick \<Rightarrow> spawn_state \<Rightarrow> (spawn_state \<times> real option) \<times> act list" where
  "growth_step env cfg tk st =
     (let now = tk_cgroup tk;
          cg = (se_cg_base env \<noteq> None);
          st1 = (if cg
                 then st\<lparr>ss_peak_current := max (ss_peak_current st) (case now of None \<Rightarrow> 0 | Some u \<Rightarrow> cu_memory_current u),
                         ss_peak_swap := max (ss_peak_swap st) (case now of None \<Rightarrow> 0 | Some u \<Rightarrow> cu_memory_swap_current u)\<rparr>
                 else st);
          cur = (if cg then map_option cu_memory_current now else tk_rss tk);
          source = (if cg then FromCgroup else FromRssSum)
      in case cur of
           None \<Rightarrow> ((st1, None), [])
         | Some bytes \<Rightarrow>
             let rate = growth_rate (ss_prev_mem st) bytes (tk_mono tk);
                 st2 = st1\<lparr>ss_prev_mem := Some (bytes, tk_mono tk)\<rparr>
             in case (cgroup_growth_rate_pressure rate cfg, rate) of
                  (Some gp, Some r) \<Rightarrow>
                    ((st2\<lparr>ss_growth_warned := True\<rparr>, rate),
                     if ss_growth_warned st then []
                     else [EmitGrowthWarning r (hp_cgroup_growth_rate_warning_mb_per_min (hh_pressure cfg))
                             source (ps_context gp)])
                | _ \<Rightarrow> ((st2\<lparr>ss_growth_warned := False\<rparr>, rate), []))"

text \<open>The warning / none streaks, and the mid-round recovery release.\<close>

definition streak_step :: "host_health_config \<Rightarrow> tick \<Rightarrow> pressure option \<Rightarrow> spawn_state \<Rightarrow> spawn_state \<times> act list" where
  "streak_step cfg tk pres st =
     (case pres of
        Some _ \<Rightarrow> (st\<lparr>ss_warning_streak := ss_warning_streak st + 1, ss_none_streak := 0\<rparr>, [])
      | None \<Rightarrow>
          let st1 = st\<lparr>ss_warning_streak := 0, ss_none_streak := ss_none_streak st + 1\<rparr>
          in case ss_brake_previous st1 of
               None \<Rightarrow> (st1, [])
             | Some prev \<Rightarrow>
                 if ss_brake_engaged st1 \<and> \<not> ss_brake_restore_failed st1
                    \<and> int (ss_none_streak st1) \<ge> hb_warning_consecutive_samples (hh_brake cfg)
                 then (if tk_restore tk
                       then st1\<lparr>ss_brake_engaged := False, ss_brake_previous := None\<rparr>
                       else st1\<lparr>ss_brake_restore_failed := True\<rparr>,
                       release_brake prev (tk_restore tk) Recovered)
                 else (st1, []))"

definition engage_step ::
  "spawn_env \<Rightarrow> host_health_config \<Rightarrow> tick \<Rightarrow> pressure option \<Rightarrow> real option \<Rightarrow> spawn_state \<Rightarrow> spawn_state \<times> act list" where
  "engage_step env cfg tk pres rate st =
     (case (pres, brake_step_for (se_armed env) cfg) of
        (Some p, Some step) \<Rightarrow>
          if \<not> ss_brake_disarmed st \<and> \<not> ss_brake_engaged st
             \<and> int (ss_warning_streak st) \<ge> hb_warning_consecutive_samples (hh_brake cfg)
          then (case tk_engage tk of
                  EngageOk previous written current \<Rightarrow>
                    (st\<lparr>ss_brake_engaged := True, ss_brake_previous := Some previous\<rparr>,
                     [EngageHigh previous written,
                      EmitHighEngaged previous written current \<lfloor>tk_write_s tk * 1000\<rfloor>
                        (ps_signal p) (ps_context p) rate])
                | EngageErrno e \<Rightarrow> (st\<lparr>ss_brake_disarmed := True\<rparr>, [EmitHighWriteFailed (Some e)])
                | EngageNone \<Rightarrow> (st, []))
          else (st, [])
      | _ \<Rightarrow> (st, []))"

text \<open>The critical branch; \<open>Some rc\<close> says the hard floor ended the round with that code.\<close>

definition critical_step ::
  "spawn_env \<Rightarrow> host_health_config \<Rightarrow> tick \<Rightarrow> pressure option \<Rightarrow> spawn_state
     \<Rightarrow> (spawn_state \<times> int option) \<times> act list" where
  "critical_step env cfg tk pres st =
     (case pres of
        Some p \<Rightarrow>
          if ps_severity p = Critical then
            (let n = ss_critical_streak st + 1;
                 st1 = st\<lparr>ss_critical_streak := n\<rparr>;
                 sampled = (if int n \<le> 2 * hp_critical_consecutive_samples (hh_pressure cfg)
                            then [EmitCriticalSample n (ps_context p)] else []);
                 terminated = (\<lambda>t. EmitMemTerminated t (ps_severity p) (ps_signal p) (ps_message p) n (ps_context p))
             in case mid_round_action cfg (se_defer env) n (ss_nudged st) of
                  Nudge \<Rightarrow> ((st1\<lparr>ss_nudged := True\<rparr>, None), sampled @ [TermLeader, terminated NudgeTier])
                | Terminate \<Rightarrow>
                    (case terminate_round (tk_term tk) of
                       (acts, rc) \<Rightarrow> ((st1, Some rc), sampled @ acts @ [terminated TerminateTier]))
                | Defer \<Rightarrow>
                    ((st1\<lparr>ss_defer_notified := True\<rparr>, None),
                     sampled @ (if ss_defer_notified st then []
                                else [EmitDeferredToCgroup (ps_signal p) (ps_message p)]))
                | CountOnly \<Rightarrow> ((st1, None), sampled))
          else ((st\<lparr>ss_critical_streak := 0, ss_defer_notified := False\<rparr>, None), [])
      | None \<Rightarrow> ((st\<lparr>ss_critical_streak := 0, ss_defer_notified := False\<rparr>, None), []))"

definition tick_pressure :: "host_health_config \<Rightarrow> tick \<Rightarrow> sample option \<Rightarrow> pressure option" where
  "tick_pressure cfg tk prev =
     memory_pressure (tk_sample tk) (case prev of Some s \<Rightarrow> s | None \<Rightarrow> tk_sample tk) cfg"

definition mem_check ::
  "spawn_env \<Rightarrow> host_health_config \<Rightarrow> tick \<Rightarrow> spawn_state \<Rightarrow> (spawn_state \<times> int option) \<times> act list" where
  "mem_check env cfg tk st =
     (let pres = tick_pressure cfg tk (ss_prev_sample st);
          st0 = st\<lparr>ss_prev_sample := Some (tk_sample tk)\<rparr>
      in case growth_step env cfg tk st0 of ((st1, rate), acts1) \<Rightarrow>
         (case streak_step cfg tk pres st1 of (st2, acts2) \<Rightarrow>
         (case engage_step env cfg tk pres rate st2 of (st3, acts3) \<Rightarrow>
         (case critical_step env cfg tk pres st3 of ((st4, ended), acts4) \<Rightarrow>
            ((st4\<lparr>ss_next_mem_check := Some (tk_end tk + mem_check_interval_s)\<rparr>, ended),
             acts1 @ acts2 @ acts3 @ acts4)))))"

subsection \<open>The loop\<close>

text \<open>How a run ended: the returned code, or an exception that propagates.\<close>

datatype spawn_exit = Returned int | Reraised

text \<open>The \<open>finally\<close> block: an engaged brake is released whatever happened.\<close>

definition final_release :: "tick \<Rightarrow> spawn_state \<Rightarrow> act list" where
  "final_release tk st =
     (if ss_brake_engaged st
      then (case ss_brake_previous st of
              None \<Rightarrow> [] | Some prev \<Rightarrow> release_brake prev (tk_final_restore tk) RoundEnd)
      else [])"

definition check_due :: "spawn_env \<Rightarrow> spawn_state \<Rightarrow> tick \<Rightarrow> host_health_config option" where
  "check_due env st tk =
     (case ss_next_mem_check st of
        None \<Rightarrow> None
      | Some t \<Rightarrow> if tk_check tk \<ge> t then se_cfg env else None)"

fun spawn_loop :: "spawn_env \<Rightarrow> spawn_state \<Rightarrow> tick list \<Rightarrow> (act list \<times> spawn_exit) option" where
  "spawn_loop env st [] = None"
| "spawn_loop env st (tk # tks) =
     (case tk_wake tk of
        Exited rc \<Rightarrow> Some (stash_cgroup env st @ final_release tk st, Returned rc)
      | Raised \<Rightarrow> Some (fst (terminate_round (tk_term tk)) @ final_release tk st, Reraised)
      | Woke \<Rightarrow>
          if tk_after tk \<ge> spawn_deadline env
          then (case terminate_round (tk_term tk) of
                  (acts, rc) \<Rightarrow> Some (final_release tk st @ acts @ [EmitWedged (se_timeout_s env)]
                                      @ stash_cgroup env st, Returned rc))
          else (case check_due env st tk of
                  None \<Rightarrow> spawn_loop env st tks
                | Some cfg \<Rightarrow>
                    (case mem_check env cfg tk st of
                       ((st', Some rc), acts) \<Rightarrow>
                         Some (acts @ stash_cgroup env st' @ final_release tk st', Returned rc)
                     | ((st', None), acts) \<Rightarrow>
                         map_option (\<lambda>(later, e). (acts @ later, e)) (spawn_loop env st' tks))))"

definition spawn_round :: "spawn_env \<Rightarrow> tick list \<Rightarrow> (act list \<times> spawn_exit) option" where
  "spawn_round env ticks = spawn_loop env (spawn_init env) ticks"

subsection \<open>The soft brake is released on every exit\<close>

text \<open>
  The brake protocol as an automaton: an engage only when the brake is off, a restore only with
  the token stashed by the engage; the flag says the last restore failed.
\<close>

fun brake_track :: "string option \<times> bool \<Rightarrow> act list \<Rightarrow> (string option \<times> bool) option" where
  "brake_track s [] = Some s"
| "brake_track s (a # acts) =
     (case a of
        EngageHigh p w \<Rightarrow> if fst s = None then brake_track (Some p, False) acts else None
      | RestoreHigh p ok \<Rightarrow>
          if fst s = Some p then brake_track (if ok then (None, False) else (Some p, True)) acts else None
      | _ \<Rightarrow> brake_track s acts)"

definition brake_op :: "act \<Rightarrow> bool" where
  "brake_op a \<longleftrightarrow> (case a of EngageHigh p w \<Rightarrow> True | RestoreHigh p ok \<Rightarrow> True | _ \<Rightarrow> False)"

lemma brake_track_append:
  "brake_track s (a @ b) = (case brake_track s a of None \<Rightarrow> None | Some s' \<Rightarrow> brake_track s' b)"
  by (induction s a rule: brake_track.induct) (auto split: act.splits)

lemma brake_track_neutral: "\<forall>a \<in> set acts. \<not> brake_op a \<Longrightarrow> brake_track s acts = Some s"
  by (induction acts) (auto simp: brake_op_def split: act.splits)

definition brake_key :: "spawn_state \<Rightarrow> string option \<times> bool" where
  "brake_key st = (ss_brake_previous st, ss_brake_restore_failed st)"

definition brake_inv :: "spawn_state \<Rightarrow> bool" where
  "brake_inv st \<longleftrightarrow> (ss_brake_engaged st \<longleftrightarrow> ss_brake_previous st \<noteq> None)
     \<and> (ss_brake_restore_failed st \<longrightarrow> ss_brake_engaged st)"

lemma growth_step_brake:
  "growth_step env cfg tk st = ((st', rate), acts) \<Longrightarrow>
    brake_key st' = brake_key st \<and> brake_inv st' = brake_inv st \<and> (\<forall>a \<in> set acts. \<not> brake_op a)"
  by (auto simp: growth_step_def brake_key_def brake_inv_def brake_op_def Let_def
      split: option.splits if_splits prod.splits)

lemma streak_step_brake:
  "streak_step cfg tk pres st = (st', acts) \<Longrightarrow> brake_inv st \<Longrightarrow>
    brake_inv st' \<and> brake_track (brake_key st) acts = Some (brake_key st')"
  by (auto simp: streak_step_def brake_key_def brake_inv_def release_brake_def Let_def
      split: option.splits if_splits)

lemma engage_step_brake:
  "engage_step env cfg tk pres rate st = (st', acts) \<Longrightarrow> brake_inv st \<Longrightarrow>
    brake_inv st' \<and> brake_track (brake_key st) acts = Some (brake_key st')"
  by (auto simp: engage_step_def brake_key_def brake_inv_def Let_def
      split: option.splits if_splits engage_result.splits)

lemma terminate_round_neutral: "terminate_round ob = (acts, rc) \<Longrightarrow> \<forall>a \<in> set acts. \<not> brake_op a"
  by (auto simp: terminate_round_def brake_op_def split: option.splits)

lemma critical_step_state:
  "critical_step env cfg tk pres st = ((st', ended), acts) \<Longrightarrow>
    st' = st\<lparr>ss_critical_streak := ss_critical_streak st', ss_nudged := ss_nudged st',
             ss_defer_notified := ss_defer_notified st'\<rparr>"
  by (cases st) (auto simp: critical_step_def Let_def
      split: option.splits if_splits mid_action.splits prod.splits)

lemma critical_step_acts:
  "critical_step env cfg tk pres st = ((st', ended), acts) \<Longrightarrow> a \<in> set acts \<Longrightarrow> \<not> brake_op a"
  by (auto simp: critical_step_def Let_def brake_op_def
      split: option.splits if_splits mid_action.splits prod.splits act.splits
      dest: terminate_round_neutral [rule_format])

lemma critical_step_brake:
  assumes "critical_step env cfg tk pres st = ((st', ended), acts)"
  shows "brake_key st' = brake_key st \<and> brake_inv st' = brake_inv st \<and> (\<forall>a \<in> set acts. \<not> brake_op a)"
proof -
  have "ss_brake_previous st' = ss_brake_previous st" "ss_brake_engaged st' = ss_brake_engaged st"
    "ss_brake_restore_failed st' = ss_brake_restore_failed st"
    by (subst critical_step_state [OF assms], simp)+
  then show ?thesis using critical_step_acts [OF assms] by (auto simp: brake_key_def brake_inv_def)
qed

lemma mem_check_brake:
  assumes "mem_check env cfg tk st = ((st', ended), acts)" "brake_inv st"
  shows "brake_inv st' \<and> brake_track (brake_key st) acts = Some (brake_key st')"
proof -
  let ?pres = "tick_pressure cfg tk (ss_prev_sample st)"
  let ?st0 = "st\<lparr>ss_prev_sample := Some (tk_sample tk)\<rparr>"
  obtain st1 rate a1 where g: "growth_step env cfg tk ?st0 = ((st1, rate), a1)" by (metis prod.collapse)
  obtain st2 a2 where s: "streak_step cfg tk ?pres st1 = (st2, a2)" by fastforce
  obtain st3 a3 where e: "engage_step env cfg tk ?pres rate st2 = (st3, a3)" by fastforce
  obtain st4 en a4 where c: "critical_step env cfg tk ?pres st3 = ((st4, en), a4)" by (metis prod.collapse)
  have r: "st' = st4\<lparr>ss_next_mem_check := Some (tk_end tk + mem_check_interval_s)\<rparr>" "acts = a1 @ a2 @ a3 @ a4"
    using assms(1) by (simp_all add: mem_check_def Let_def g s e c)
  have k0: "brake_key ?st0 = brake_key st" "brake_inv ?st0" "brake_key st' = brake_key st4" "brake_inv st' = brake_inv st4"
    using assms(2) unfolding brake_key_def brake_inv_def r by auto
  note 1 = growth_step_brake [OF g] and 4 = critical_step_brake [OF c]
  have 2: "brake_inv st2" "brake_track (brake_key st1) a2 = Some (brake_key st2)"
    using streak_step_brake [OF s] 1 k0 by auto
  have 3: "brake_inv st3" "brake_track (brake_key st2) a3 = Some (brake_key st3)"
    using engage_step_brake [OF e] 2 by auto
  show ?thesis using 1 2 3 4 k0 by (simp add: r(2) brake_track_append brake_track_neutral)
qed

lemma final_release_brake:
  "brake_inv st \<Longrightarrow> \<exists>s. brake_track (brake_key st) (final_release tk st) = Some s \<and> (fst s = None \<or> snd s)"
  by (auto simp: final_release_def release_brake_def brake_inv_def brake_key_def split: option.split)

lemma stash_neutral: "\<forall>a \<in> set (stash_cgroup env st). \<not> brake_op a"
  by (auto simp: stash_cgroup_def brake_op_def split: option.splits)

lemma stash_track: "brake_track s (stash_cgroup env st) = Some s"
  by (rule brake_track_neutral) (rule stash_neutral)

lemma terminate_track: "brake_track s (fst (terminate_round ob)) = Some s"
  using terminate_round_neutral [of ob] by (cases "terminate_round ob") (auto intro: brake_track_neutral)

lemma spawn_loop_brake:
  "spawn_loop env st ticks = Some (acts, e) \<Longrightarrow> brake_inv st \<Longrightarrow>
    \<exists>s. brake_track (brake_key st) acts = Some s \<and> (fst s = None \<or> snd s)"
proof (induction ticks arbitrary: st acts)
  case (Cons tk tks)
  note fin = final_release_brake [OF Cons.prems(2), of tk]
  show ?case
  proof (cases "tk_wake tk")
    case (Exited rc)
    with Cons.prems(1) fin show ?thesis by (auto simp: brake_track_append stash_track)
  next
    case Raised
    with Cons.prems(1) fin show ?thesis by (auto simp: brake_track_append terminate_track)
  next
    case Woke
    show ?thesis
    proof (cases "tk_after tk \<ge> spawn_deadline env")
      case True
      obtain ta rc where t: "terminate_round (tk_term tk) = (ta, rc)" by fastforce
      have "acts = final_release tk st @ ta @ [EmitWedged (se_timeout_s env)] @ stash_cgroup env st"
        using Cons.prems(1) Woke True t by simp
      moreover have "brake_track s ta = Some s" for s
        using brake_track_neutral [OF terminate_round_neutral [OF t]] .
      ultimately show ?thesis using fin by (auto simp: brake_track_append stash_track)
    next
      case early: False
      show ?thesis
      proof (cases "check_due env st tk")
        case None
        with Cons early Woke show ?thesis by simp
      next
        case (Some cfg)
        obtain st' ended ma where m: "mem_check env cfg tk st = ((st', ended), ma)" by (metis prod.collapse)
        note b = mem_check_brake [OF m Cons.prems(2)]
        show ?thesis
        proof (cases ended)
          case None
          then obtain later where l: "spawn_loop env st' tks = Some (later, e)" "acts = ma @ later"
            using Cons.prems(1) Woke early Some m by auto
          from Cons.IH [OF l(1)] b show ?thesis by (auto simp: l(2) brake_track_append)
        next
          case (Some rc)
          then have "acts = ma @ stash_cgroup env st' @ final_release tk st'"
            using Cons.prems(1) Woke early \<open>check_due env st tk = Some cfg\<close> m by simp
          then show ?thesis using b final_release_brake [of st' tk] by (auto simp: brake_track_append stash_track)
        qed
      qed
    qed
  qed
qed simp

text \<open>
  What the actions do to the leaf's \<open>memory.high\<close>: an engage stashes the value it finds and writes
  its own, a restore that succeeds writes the stashed token back.
\<close>

fun leaf_high :: "string \<Rightarrow> act list \<Rightarrow> string option" where
  "leaf_high h [] = Some h"
| "leaf_high h (a # acts) =
     (case a of
        EngageHigh p w \<Rightarrow> if p = h then leaf_high (int_digits w) acts else None
      | RestoreHigh p ok \<Rightarrow> leaf_high (if ok then p else h) acts
      | _ \<Rightarrow> leaf_high h acts)"

lemma leaf_high_track:
  "leaf_high h acts = Some h' \<Longrightarrow> brake_track s acts = Some s' \<Longrightarrow> (\<forall>p. RestoreHigh p False \<notin> set acts) \<Longrightarrow>
    snd s = False \<Longrightarrow> fst s = None \<and> h = h0 \<or> fst s = Some h0 \<Longrightarrow>
    snd s' = False \<and> (fst s' = None \<and> h' = h0 \<or> fst s' = Some h0)"
proof (induction acts arbitrary: h s)
  case (Cons a acts)
  show ?case
  proof (cases "brake_op a")
    case False
    with Cons show ?thesis by (cases a) (simp_all add: brake_op_def)
  next
    case True
    then consider p w where "a = EngageHigh p w" | p ok where "a = RestoreHigh p ok"
      by (auto simp: brake_op_def split: act.splits)
    then show ?thesis
    proof cases
      case 1
      with Cons.prems have "p = h" "fst s = None" by (auto split: if_splits)
      with Cons.prems 1 show ?thesis using Cons.IH [of "int_digits w" "(Some p, False)"] by auto
    next
      case 2
      with Cons.prems have "ok" "fst s = Some p" by (auto split: if_splits)
      with Cons.prems 2 show ?thesis using Cons.IH [of p "(None, False)"] by auto
    qed
  qed
qed simp

text \<open>C14: the soft brake never outlives its round: in every completed run, on every exit path (clean
  exit, hard floor, wall-clock ceiling, exception), if the engage stashed the value it found and no
  restore write failed, the leaf's \<open>memory.high\<close> is at the end what it was at the start.\<close>

theorem spawn_brake_restored:
  assumes run: "spawn_round env ticks = Some (acts, e)"
    and leaf: "leaf_high h acts = Some h'"
    and ok: "\<forall>p. RestoreHigh p False \<notin> set acts"
  shows "h' = h"
proof -
  have "brake_inv (spawn_init env)" "brake_key (spawn_init env) = (None, False)"
    by (simp_all add: brake_inv_def brake_key_def spawn_init_def)
  with spawn_loop_brake [OF run [unfolded spawn_round_def]]
  obtain s where s: "brake_track (None, False) acts = Some s" "fst s = None \<or> snd s" by auto
  from leaf_high_track [OF leaf s(1) ok, of h] s(2) show ?thesis by auto
qed



subsection \<open>The mid-round hard floor\<close>

text \<open>The verdict \<open>critical\<close> of each tick at which a memory check is due, from the observations alone.\<close>

fun critical_ticks :: "host_health_config \<Rightarrow> real \<Rightarrow> sample option \<Rightarrow> tick list \<Rightarrow> bool list" where
  "critical_ticks cfg t prev [] = []"
| "critical_ticks cfg t prev (tk # tks) =
     (if tk_check tk \<ge> t
      then is_critical (tick_pressure cfg tk prev)
           # critical_ticks cfg (tk_end tk + mem_check_interval_s) (Some (tk_sample tk)) tks
      else critical_ticks cfg t prev tks)"

text \<open>What the critical branch reads of the state.\<close>

definition crit_key :: "spawn_state \<Rightarrow> nat \<times> bool \<times> bool" where
  "crit_key st = (ss_critical_streak st, ss_nudged st, ss_defer_notified st)"

lemma growth_step_crit: "growth_step env cfg tk st = ((st', rate), acts) \<Longrightarrow>
    crit_key st' = crit_key st \<and> ss_prev_sample st' = ss_prev_sample st"
  by (auto simp: growth_step_def crit_key_def Let_def split: option.splits if_splits prod.splits)

lemma streak_step_crit: "streak_step cfg tk pres st = (st', acts) \<Longrightarrow>
    crit_key st' = crit_key st \<and> ss_prev_sample st' = ss_prev_sample st"
  by (auto simp: streak_step_def crit_key_def Let_def split: option.splits if_splits)

lemma engage_step_crit: "engage_step env cfg tk pres rate st = (st', acts) \<Longrightarrow>
    crit_key st' = crit_key st \<and> ss_prev_sample st' = ss_prev_sample st"
  by (auto simp: engage_step_def crit_key_def Let_def split: option.splits if_splits engage_result.splits)

text \<open>A memory check, split into its four parts.\<close>

lemma mem_check_parts:
  assumes "mem_check env cfg tk st = ((st', ended), acts)"
  obtains st3 a1 a2 a3 st4 a4 st1 rate st2 where
    "growth_step env cfg tk (st\<lparr>ss_prev_sample := Some (tk_sample tk)\<rparr>) = ((st1, rate), a1)"
    "streak_step cfg tk (tick_pressure cfg tk (ss_prev_sample st)) st1 = (st2, a2)"
    "engage_step env cfg tk (tick_pressure cfg tk (ss_prev_sample st)) rate st2 = (st3, a3)"
    "critical_step env cfg tk (tick_pressure cfg tk (ss_prev_sample st)) st3 = ((st4, ended), a4)"
    "crit_key st3 = crit_key st" "ss_prev_sample st3 = Some (tk_sample tk)"
    "st' = st4\<lparr>ss_next_mem_check := Some (tk_end tk + mem_check_interval_s)\<rparr>"
    "acts = a1 @ a2 @ a3 @ a4"
proof -
  let ?pres = "tick_pressure cfg tk (ss_prev_sample st)"
  let ?st0 = "st\<lparr>ss_prev_sample := Some (tk_sample tk)\<rparr>"
  obtain st1 rate a1 where g: "growth_step env cfg tk ?st0 = ((st1, rate), a1)" by (metis prod.collapse)
  obtain st2 a2 where s: "streak_step cfg tk ?pres st1 = (st2, a2)" by fastforce
  obtain st3 a3 where e: "engage_step env cfg tk ?pres rate st2 = (st3, a3)" by fastforce
  obtain st4 en a4 where c: "critical_step env cfg tk ?pres st3 = ((st4, en), a4)" by (metis prod.collapse)
  have "en = ended" "st' = st4\<lparr>ss_next_mem_check := Some (tk_end tk + mem_check_interval_s)\<rparr>" "acts = a1 @ a2 @ a3 @ a4"
    using assms by (simp_all add: mem_check_def Let_def g s e c)
  moreover have "crit_key st3 = crit_key st" "ss_prev_sample st3 = Some (tk_sample tk)"
    using growth_step_crit [OF g] streak_step_crit [OF s] engage_step_crit [OF e] by (simp_all add: crit_key_def)
  ultimately show ?thesis using that g s e c by blast
qed

lemma critical_step_verdict:
  assumes "critical_step env cfg tk pres st = ((st', ended), acts)"
  shows "ss_critical_streak st' = (if is_critical pres then ss_critical_streak st + 1 else 0)
    \<and> ss_prev_sample st' = ss_prev_sample st
    \<and> (ended \<noteq> None \<longleftrightarrow> is_critical pres \<and> hp_in_round_terminate (hh_pressure cfg) \<and> \<not> se_defer env
         \<and> hp_critical_consecutive_samples (hh_pressure cfg) \<le> int (ss_critical_streak st + 1))"
  using assms
  by (auto simp: critical_step_def Let_def is_critical_def mid_round_action_def
      split: option.splits if_splits prod.splits)

lemma mem_check_verdict:
  assumes "mem_check env cfg tk st = ((st', ended), acts)"
  shows "ss_critical_streak st' =
      (if is_critical (tick_pressure cfg tk (ss_prev_sample st)) then ss_critical_streak st + 1 else 0)
    \<and> ss_prev_sample st' = Some (tk_sample tk)
    \<and> ss_next_mem_check st' = Some (tk_end tk + mem_check_interval_s)
    \<and> (ended \<noteq> None \<longleftrightarrow> is_critical (tick_pressure cfg tk (ss_prev_sample st))
         \<and> hp_in_round_terminate (hh_pressure cfg) \<and> \<not> se_defer env
         \<and> hp_critical_consecutive_samples (hh_pressure cfg) \<le> int (ss_critical_streak st + 1))"
  using assms
proof (rule mem_check_parts)
  fix st3 a1 a2 a3 st4 a4 st1 rate st2
  assume c: "critical_step env cfg tk (tick_pressure cfg tk (ss_prev_sample st)) st3 = ((st4, ended), a4)"
    and k: "crit_key st3 = crit_key st" "ss_prev_sample st3 = Some (tk_sample tk)"
    and st': "st' = st4\<lparr>ss_next_mem_check := Some (tk_end tk + mem_check_interval_s)\<rparr>"
  show ?thesis using critical_step_verdict [OF c] k by (simp add: st' crit_key_def)
qed

lemma spawn_loop_floor:
  assumes cfg: "se_cfg env = Some cfg"
    and K: "hp_critical_consecutive_samples (hh_pressure cfg) = int K" "K \<ge> 1"
  shows "\<forall>tk \<in> set ticks. tk_wake tk = Woke \<and> tk_after tk < spawn_deadline env \<Longrightarrow>
    ss_next_mem_check st = Some t \<Longrightarrow>
    spawn_loop env st ticks = None \<longleftrightarrow>
      \<not> (hp_in_round_terminate (hh_pressure cfg) \<and> \<not> se_defer env
         \<and> streak_trips K (critical_ticks cfg t (ss_prev_sample st) ticks) (ss_critical_streak st))"
proof (induction ticks arbitrary: st t)
  case (Cons tk tks)
  have w: "tk_wake tk = Woke" "\<not> tk_after tk \<ge> spawn_deadline env" using Cons.prems(1) by auto
  show ?case
  proof (cases "tk_check tk \<ge> t")
    case False
    then show ?thesis using Cons w by (simp add: check_due_def)
  next
    case True
    let ?c = "is_critical (tick_pressure cfg tk (ss_prev_sample st))"
    have due: "check_due env st tk = Some cfg" using True Cons.prems(2) cfg by (simp add: check_due_def)
    obtain st' ended acts where m: "mem_check env cfg tk st = ((st', ended), acts)" by (metis prod.collapse)
    note v = mem_check_verdict [OF m, unfolded K(1)]
    have IH: "spawn_loop env st' tks = None \<longleftrightarrow>
      \<not> (hp_in_round_terminate (hh_pressure cfg) \<and> \<not> se_defer env
         \<and> streak_trips K (critical_ticks cfg (tk_end tk + mem_check_interval_s) (Some (tk_sample tk)) tks)
              (ss_critical_streak st'))"
      using Cons.IH [of st' "tk_end tk + mem_check_interval_s"] Cons.prems(1) v by simp
    show ?thesis
    proof (cases ended)
      case None
      then have "spawn_loop env st (tk # tks) = None \<longleftrightarrow> spawn_loop env st' tks = None"
        by (simp add: w due m)
      moreover have "?c \<Longrightarrow> hp_in_round_terminate (hh_pressure cfg) \<Longrightarrow> \<not> se_defer env \<Longrightarrow> \<not> K \<le> ss_critical_streak st + 1"
        using v None by linarith
      ultimately show ?thesis
        unfolding IH using v True by (auto simp: consecutive_streak_decision_def Let_def)
    next
      case (Some rc)
      then have "spawn_loop env st (tk # tks) \<noteq> None" by (simp add: w due m)
      moreover have "?c" "hp_in_round_terminate (hh_pressure cfg)" "\<not> se_defer env" "K \<le> ss_critical_streak st + 1"
        using v Some by auto
      ultimately show ?thesis using True by (auto simp: consecutive_streak_decision_def Let_def)
    qed
  qed
qed simp

text \<open>C13: the mid-round hard floor is exact: while the child runs and the ceiling is not reached, the
  supervisor ends the round exactly when termination is on, the cgroup is not deferred to, and the
  due memory checks contain the configured number of consecutive critical verdicts.\<close>

theorem hard_floor_exact:
  assumes cfg: "se_cfg env = Some cfg"
    and K: "hp_critical_consecutive_samples (hh_pressure cfg) = int K" "K \<ge> 1"
    and up: "\<forall>tk \<in> set ticks. tk_wake tk = Woke \<and> tk_after tk < spawn_deadline env"
  shows "(\<exists>acts e. spawn_round env ticks = Some (acts, e)) \<longleftrightarrow>
    hp_in_round_terminate (hh_pressure cfg) \<and> \<not> se_defer env
    \<and> has_streak K (critical_ticks cfg (se_armed_at env + mem_check_interval_s) None ticks)"
proof -
  have "ss_next_mem_check (spawn_init env) = Some (se_armed_at env + mem_check_interval_s)"
    "ss_prev_sample (spawn_init env) = None" "ss_critical_streak (spawn_init env) = 0"
    by (simp_all add: spawn_init_def cfg)
  with spawn_loop_floor [OF cfg K up, of "spawn_init env"] K(2)
  have "spawn_round env ticks = None \<longleftrightarrow> \<not> (hp_in_round_terminate (hh_pressure cfg) \<and> \<not> se_defer env
    \<and> has_streak K (critical_ticks cfg (se_armed_at env + mem_check_interval_s) None ticks))"
    by (simp add: spawn_round_def streak_trips_iff)
  then show ?thesis by (cases "spawn_round env ticks") auto
qed

subsection \<open>Every action of a round is licensed\<close>

definition act_licensed :: "spawn_env \<Rightarrow> act \<Rightarrow> bool" where
  "act_licensed env a =
     (case a of
        EmitCriticalSample n ctx \<Rightarrow>
          (\<exists>cfg. se_cfg env = Some cfg \<and> 1 \<le> n \<and> int n \<le> 2 * hp_critical_consecutive_samples (hh_pressure cfg))
      | EmitDeferredToCgroup sig msg \<Rightarrow>
          (\<exists>cfg. se_cfg env = Some cfg \<and> se_defer env \<and> hp_in_round_terminate (hh_pressure cfg))
      | EmitMemTerminated t sev sig msg n ctx \<Rightarrow>
          (\<exists>cfg. se_cfg env = Some cfg \<and> \<not> se_defer env \<and> sev = Critical \<and> hp_in_round_terminate (hh_pressure cfg)
             \<and> (if t = NudgeTier then hp_in_round_nudge (hh_pressure cfg) \<and> n = 1
                else hp_critical_consecutive_samples (hh_pressure cfg) \<le> int n))
      | EngageHigh p w \<Rightarrow> (\<exists>cfg. se_cfg env = Some cfg \<and> hb_memory_high (hh_brake cfg) \<and> se_armed env)
      | _ \<Rightarrow> True)"

definition is_nudge :: "act \<Rightarrow> bool" where
  "is_nudge a \<longleftrightarrow> (case a of EmitMemTerminated t _ _ _ _ _ \<Rightarrow> t = NudgeTier | _ \<Rightarrow> False)"

definition nudges :: "act list \<Rightarrow> nat" where
  "nudges acts = length (filter is_nudge acts)"

lemma nudges_append [simp]: "nudges (a @ b) = nudges a + nudges b"
  by (simp add: nudges_def)

lemma nudges_wedged: "nudges (EmitWedged n # as) = nudges as"
  by (simp add: nudges_def is_nudge_def)

definition plain :: "act \<Rightarrow> bool" where
  "plain a \<longleftrightarrow> (case a of EmitCriticalSample _ _ \<Rightarrow> False | EmitDeferredToCgroup _ _ \<Rightarrow> False
     | EmitMemTerminated _ _ _ _ _ _ \<Rightarrow> False | EngageHigh _ _ \<Rightarrow> False | _ \<Rightarrow> True)"

lemma plain_licensed: "plain a \<Longrightarrow> act_licensed env a \<and> \<not> is_nudge a"
  by (auto simp: plain_def act_licensed_def is_nudge_def split: act.splits)

lemma plain_list:
  assumes "\<forall>a \<in> set acts. plain a"
  shows "(\<forall>a \<in> set acts. act_licensed env a) \<and> nudges acts = 0"
proof -
  have "filter is_nudge acts = []" using assms plain_licensed by (auto simp: filter_empty_conv)
  then show ?thesis using assms plain_licensed by (simp add: nudges_def)
qed

lemma growth_step_plain: "growth_step env cfg tk st = ((st', rate), acts) \<Longrightarrow> \<forall>a \<in> set acts. plain a"
  by (auto simp: growth_step_def plain_def Let_def split: option.splits if_splits prod.splits)

lemma release_brake_plain: "\<forall>a \<in> set (release_brake p ok r). plain a"
  by (auto simp: release_brake_def plain_def)

lemma streak_step_plain: "streak_step cfg tk pres st = (st', acts) \<Longrightarrow> \<forall>a \<in> set acts. plain a"
  using release_brake_plain by (auto simp: streak_step_def Let_def split: option.splits if_splits)

lemma terminate_round_plain: "terminate_round ob = (acts, rc) \<Longrightarrow> \<forall>a \<in> set acts. plain a"
  by (auto simp: terminate_round_def plain_def split: option.splits)

lemma final_release_plain: "\<forall>a \<in> set (final_release tk st). plain a"
  by (cases "ss_brake_engaged st"; cases "ss_brake_previous st")
    (simp_all add: final_release_def release_brake_plain)

lemma stash_plain: "\<forall>a \<in> set (stash_cgroup env st). plain a"
  by (auto simp: stash_cgroup_def plain_def split: option.splits)

lemmas final_release_licensed = plain_list [OF final_release_plain]
lemmas stash_licensed = plain_list [OF stash_plain]

lemma engage_step_licensed:
  "engage_step env cfg tk pres rate st = (st', acts) \<Longrightarrow> se_cfg env = Some cfg \<Longrightarrow>
    (\<forall>a \<in> set acts. act_licensed env a) \<and> nudges acts = 0"
  by (auto simp: engage_step_def brake_step_for_def act_licensed_def nudges_def is_nudge_def
      split: option.splits if_splits engage_result.splits)

lemma critical_step_licensed:
  assumes "critical_step env cfg tk pres st = ((st', ended), acts)" "se_cfg env = Some cfg"
  shows "(\<forall>a \<in> set acts. act_licensed env a)
    \<and> nudges acts + (if ss_nudged st then 1 else 0) = (if ss_nudged st' then 1 else 0)"
proof (cases "is_critical pres")
  case False
  then show ?thesis using assms
    by (auto simp: critical_step_def is_critical_def nudges_def split: option.splits if_splits)
next
  case True
  then obtain p where p: "pres = Some p" "ps_severity p = Critical" by (auto simp: is_critical_def)
  let ?n = "ss_critical_streak st + 1"
  define s where "s = (if int ?n \<le> 2 * hp_critical_consecutive_samples (hh_pressure cfg)
                            then [EmitCriticalSample ?n (ps_context p)] else [])"
  have s: "(\<forall>a \<in> set s. act_licensed env a) \<and> nudges s = 0"
    using assms(2) by (auto simp: s_def act_licensed_def nudges_def is_nudge_def)
  obtain ta rc where t: "terminate_round (tk_term tk) = (ta, rc)" by fastforce
  note tp = plain_list [OF terminate_round_plain [OF t], of env]
  have one: "nudges [a] = (if is_nudge a then 1 else 0)" for a by (simp add: nudges_def)
  show ?thesis
  proof (cases "mid_round_action cfg (se_defer env) ?n (ss_nudged st)")
    case Terminate
    then have h: "\<not> se_defer env" "hp_in_round_terminate (hh_pressure cfg)"
      "hp_critical_consecutive_samples (hh_pressure cfg) \<le> int ?n"
      by (auto simp: mid_round_action_def Let_def split: if_splits)
    have e: "acts = s @ ta @ [EmitMemTerminated TerminateTier Critical (ps_signal p) (ps_message p) ?n (ps_context p)]"
      "ss_nudged st' = ss_nudged st"
      using assms(1) Terminate by (auto simp: critical_step_def p Let_def s_def t)
    have "act_licensed env (EmitMemTerminated TerminateTier Critical (ps_signal p) (ps_message p) ?n (ps_context p))"
      using h assms(2) by (simp add: act_licensed_def)
    then show ?thesis using s tp by (auto simp: e one is_nudge_def)
  next
    case Defer
    then have h: "se_defer env" "hp_in_round_terminate (hh_pressure cfg)"
      by (auto simp: mid_round_action_def Let_def split: if_splits)
    have e: "acts = s @ (if ss_defer_notified st then [] else [EmitDeferredToCgroup (ps_signal p) (ps_message p)])"
      "ss_nudged st' = ss_nudged st"
      using assms(1) Defer by (auto simp: critical_step_def p Let_def s_def)
    have "act_licensed env (EmitDeferredToCgroup (ps_signal p) (ps_message p))"
      using h assms(2) by (simp add: act_licensed_def)
    moreover have "nudges [EmitDeferredToCgroup (ps_signal p) (ps_message p)] = 0" "nudges [] = 0"
      by (simp_all add: nudges_def is_nudge_def)
    ultimately show ?thesis using s by (auto simp: e)
  next
    case CountOnly
    then have "acts = s" "ss_nudged st' = ss_nudged st"
      using assms(1) by (auto simp: critical_step_def p Let_def s_def)
    then show ?thesis using s by simp
  next
    case Nudge
    then have h: "\<not> se_defer env" "hp_in_round_terminate (hh_pressure cfg)" "?n = 1"
      "hp_in_round_nudge (hh_pressure cfg)" "\<not> ss_nudged st"
      by (auto simp: mid_round_action_def Let_def split: if_splits)
    have e: "acts = s @ [TermLeader, EmitMemTerminated NudgeTier Critical (ps_signal p) (ps_message p) ?n (ps_context p)]"
      "ss_nudged st'"
      using assms(1) Nudge by (auto simp: critical_step_def p Let_def s_def)
    have two: "nudges [TermLeader, EmitMemTerminated NudgeTier Critical (ps_signal p) (ps_message p) ?n (ps_context p)] = 1"
      by (simp add: nudges_def is_nudge_def)
    have "act_licensed env (EmitMemTerminated NudgeTier Critical (ps_signal p) (ps_message p) ?n (ps_context p))"
      "act_licensed env TermLeader"
      using h assms(2) by (simp_all add: act_licensed_def)
    then have "\<forall>a \<in> set acts. act_licensed env a" using s by (auto simp: e)
    moreover have "nudges acts = 1" using s two by (simp add: e)
    ultimately show ?thesis using h e(2) by simp
  qed
qed

lemma mem_check_licensed:
  assumes "mem_check env cfg tk st = ((st', ended), acts)" "se_cfg env = Some cfg"
  shows "(\<forall>a \<in> set acts. act_licensed env a)
    \<and> nudges acts + (if ss_nudged st then 1 else 0) = (if ss_nudged st' then 1 else 0)"
  using assms(1)
proof (rule mem_check_parts)
  fix st3 a1 a2 a3 st4 a4 st1 rate st2
  assume g: "growth_step env cfg tk (st\<lparr>ss_prev_sample := Some (tk_sample tk)\<rparr>) = ((st1, rate), a1)"
    and s: "streak_step cfg tk (tick_pressure cfg tk (ss_prev_sample st)) st1 = (st2, a2)"
    and e: "engage_step env cfg tk (tick_pressure cfg tk (ss_prev_sample st)) rate st2 = (st3, a3)"
    and c: "critical_step env cfg tk (tick_pressure cfg tk (ss_prev_sample st)) st3 = ((st4, ended), a4)"
    and k: "crit_key st3 = crit_key st"
    and r: "st' = st4\<lparr>ss_next_mem_check := Some (tk_end tk + mem_check_interval_s)\<rparr>" "acts = a1 @ a2 @ a3 @ a4"
  show ?thesis
    using plain_list [OF growth_step_plain [OF g], of env] plain_list [OF streak_step_plain [OF s], of env]
      engage_step_licensed [OF e assms(2)] critical_step_licensed [OF c assms(2)] k
    by (auto simp: r crit_key_def)
qed

lemma spawn_loop_licensed:
  "spawn_loop env st ticks = Some (acts, e) \<Longrightarrow>
    (\<forall>a \<in> set acts. act_licensed env a) \<and> nudges acts + (if ss_nudged st then 1 else 0) \<le> 1"
proof (induction ticks arbitrary: st acts)
  case (Cons tk tks)
  have fin: "(\<forall>a \<in> set (final_release tk x). act_licensed env a) \<and> nudges (final_release tk x) = 0" for x
    by (rule final_release_licensed)
  have stash: "(\<forall>a \<in> set (stash_cgroup env x). act_licensed env a) \<and> nudges (stash_cgroup env x) = 0" for x
    by (rule stash_licensed)
  obtain ta rc where t: "terminate_round (tk_term tk) = (ta, rc)" by fastforce
  note tp = plain_list [OF terminate_round_plain [OF t], of env]
  have wp: "plain (EmitWedged n)" for n by (simp add: plain_def)
  show ?case
  proof (cases "tk_wake tk")
    case (Exited rc)
    with Cons.prems fin [of st] stash [of st] show ?thesis by auto
  next
    case Raised
    with Cons.prems fin [of st] tp show ?thesis by (auto simp: t)
  next
    case Woke
    show ?thesis
    proof (cases "tk_after tk \<ge> spawn_deadline env")
      case True
      with Cons.prems Woke fin [of st] stash [of st] tp plain_list [of "[EmitWedged (se_timeout_s env)]" env] wp
      show ?thesis by (auto simp: t nudges_wedged)
    next
      case early: False
      show ?thesis
      proof (cases "check_due env st tk")
        case None
        with Cons early Woke show ?thesis by simp
      next
        case due: (Some cfg)
        then have cfg: "se_cfg env = Some cfg" by (auto simp: check_due_def split: option.splits if_splits)
        obtain st' ended ma where m: "mem_check env cfg tk st = ((st', ended), ma)" by (metis prod.collapse)
        note b = mem_check_licensed [OF m cfg]
        show ?thesis
        proof (cases ended)
          case None
          then obtain later where l: "spawn_loop env st' tks = Some (later, e)" "acts = ma @ later"
            using Cons.prems Woke early due m by auto
          from Cons.IH [OF l(1)] b show ?thesis by (auto simp: l(2))
        next
          case (Some rc)
          then have "acts = ma @ stash_cgroup env st' @ final_release tk st'"
            using Cons.prems Woke early due m by simp
          then show ?thesis using b fin [of st'] stash [of st'] by (auto split: if_splits)
        qed
      qed
    qed
  qed
qed simp

text \<open>Every action of a round is licensed by the configuration: memory terminations only with the
  switch on, no deferral and a critical verdict, after enough samples (the nudge only when enabled and
  at the first sample); deferral events only when deferring; sample events capped at twice the
  threshold; an engage only with the brake on and armed; and at most one nudge per round.\<close>

theorem spawn_acts_licensed:
  assumes "spawn_round env ticks = Some (acts, e)"
  shows "(\<forall>a \<in> set acts. act_licensed env a) \<and> nudges acts \<le> 1"
  using spawn_loop_licensed [OF assms [unfolded spawn_round_def]] by auto



subsection \<open>A round ends\<close>

lemma spawn_loop_resume:
  "spawn_loop env st pre = None \<Longrightarrow>
    \<exists>st' acts. \<forall>rest. spawn_loop env st (pre @ rest) = map_option (\<lambda>(later, e). (acts @ later, e)) (spawn_loop env st' rest)"
proof (induction pre arbitrary: st)
  case Nil
  have "(\<lambda>(later, e). ([] @ later, e)) = (id :: act list \<times> spawn_exit \<Rightarrow> _)" by auto
  then show ?case by (intro exI [of _ st] exI [of _ "[]"]) (simp add: option.map_ident)
next
  case (Cons tk tks)
  have w: "tk_wake tk = Woke" using Cons.prems by (cases "tk_wake tk") auto
  have d: "\<not> tk_after tk \<ge> spawn_deadline env"
    using Cons.prems w by (auto split: prod.splits)
  show ?case
  proof (cases "check_due env st tk")
    case None
    with Cons w d show ?thesis by simp
  next
    case (Some cfg)
    obtain st1 ended ma where m: "mem_check env cfg tk st = ((st1, ended), ma)" by (metis prod.collapse)
    have e: "ended = None" using Cons.prems w d Some m by (cases ended) auto
    then have "spawn_loop env st1 tks = None" using Cons.prems w d Some m by simp
    from Cons.IH [OF this] obtain st' acts where
      r: "spawn_loop env st1 (tks @ rest) = map_option (\<lambda>(later, e). (acts @ later, e)) (spawn_loop env st' rest)" for rest
      by blast
    have "map_option (\<lambda>(later, e). (ma @ later, e)) (map_option (\<lambda>(later, e). (acts @ later, e)) x)
        = map_option (\<lambda>(later, e). ((ma @ acts) @ later, e)) x" for x :: "(act list \<times> spawn_exit) option"
      by (cases x) auto
    then show ?thesis by (intro exI [of _ st'] exI [of _ "ma @ acts"]) (simp add: w d Some m e r)
  qed
qed

text \<open>C37: a running round ends with the tick that ends it: an exit returns the child's code, an
  exception terminates the child and propagates, and at the wall-clock ceiling the child is
  terminated before the wedge event is written and its code returned.\<close>

theorem spawn_round_ends:
  assumes "spawn_round env pre = None"
    and "tk_wake tk \<noteq> Woke \<or> tk_after tk \<ge> spawn_deadline env"
  shows "case tk_wake tk of
      Exited rc \<Rightarrow> \<exists>a. spawn_round env (pre @ [tk]) = Some (a, Returned rc)
    | Raised \<Rightarrow> \<exists>a b. spawn_round env (pre @ [tk]) = Some (a @ fst (terminate_round (tk_term tk)) @ b, Reraised)
    | Woke \<Rightarrow> \<exists>a b. spawn_round env (pre @ [tk]) =
        Some (a @ fst (terminate_round (tk_term tk)) @ [EmitWedged (se_timeout_s env)] @ b,
              Returned (snd (terminate_round (tk_term tk))))"
proof -
  from spawn_loop_resume [OF assms(1) [unfolded spawn_round_def]] obtain st' acts where
    r: "spawn_round env (pre @ rest) = map_option (\<lambda>(later, e). (acts @ later, e)) (spawn_loop env st' rest)" for rest
    unfolding spawn_round_def by blast
  show ?thesis
  proof (cases "tk_wake tk")
    case (Exited rc)
    then show ?thesis by (simp add: r)
  next
    case Raised
    then show ?thesis
      by (simp add: r) (rule exI [of _ acts], rule exI [of _ "final_release tk st'"], simp)
  next
    case Woke
    obtain ta rc where t: "terminate_round (tk_term tk) = (ta, rc)" by fastforce
    show ?thesis using Woke assms(2)
      by (simp add: r t) (rule exI [of _ "acts @ final_release tk st'"], rule exI [of _ "stash_cgroup env st'"], simp)
  qed
qed

subsection \<open>Instances\<close>

definition example_tick :: "wake \<Rightarrow> real \<Rightarrow> real \<Rightarrow> tick" where
  "example_tick w t psi_full =
     \<lparr>tk_wake = w, tk_after = t, tk_check = t, tk_sample = [''psi_some_avg10'' \<mapsto> 70, ''psi_full_avg10'' \<mapsto> psi_full],
      tk_cgroup = None, tk_rss = None, tk_mono = t, tk_engage = EngageOk ''max'' 1000 1000, tk_write_s = 0,
      tk_restore = True, tk_final_restore = True, tk_end = t,
      tk_term = \<lparr>tm_grace_exit = Some 143, tm_kill_exit = None\<rparr>\<rparr>"

definition example_spawn :: "bool \<Rightarrow> spawn_env" where
  "example_spawn brake =
     \<lparr>se_cfg = Some (if brake then default_host_health\<lparr>hh_brake := \<lparr>hb_memory_high = True,
          hb_memory_high_step_pct = 0, hb_warning_consecutive_samples = 1\<rparr>\<rparr> else default_host_health),
      se_defer = False, se_armed = True, se_timeout_s = 100, se_started = 0, se_armed_at = 0, se_cg_base = None\<rparr>"

lemmas example_spawn_simps = example_spawn_def example_tick_def default_host_health_def
  spawn_deadline_def mem_check_interval_s_def

theorem hard_floor_exact_witness:
  "\<exists>acts e. spawn_round (example_spawn False)
     [example_tick Woke 10 80, example_tick Woke 20 80, example_tick Woke 30 80] = Some (acts, e)"
proof -
  let ?ticks = "[example_tick Woke 10 80, example_tick Woke 20 80, example_tick Woke 30 80]"
  have cfg: "se_cfg (example_spawn False) = Some default_host_health" by (simp add: example_spawn_def)
  have K: "hp_critical_consecutive_samples (hh_pressure default_host_health) = int 3" "(3::nat) \<ge> 1"
    by (simp_all add: default_host_health_def)
  have up: "\<forall>tk \<in> set ?ticks. tk_wake tk = Woke \<and> tk_after tk < spawn_deadline (example_spawn False)"
    by (simp add: example_spawn_simps)
  have c: "critical_ticks default_host_health (se_armed_at (example_spawn False) + mem_check_interval_s) None ?ticks
      = [True, True, True]"
    by (simp add: example_spawn_simps is_critical_def tick_pressure_def memory_pressure_def psi_pressure_def Let_def)
  have "has_streak 3 [True, True, True]"
    unfolding has_streak_def by (intro exI [of _ 0]) (simp add: nth_Cons')
  then show ?thesis using hard_floor_exact [OF cfg K up] unfolding c
    by (simp add: example_spawn_simps)
qed

lemma example_run: "\<exists>a. spawn_round (example_spawn True) [example_tick Woke 10 0, example_tick (Exited 0) 15 0] =
   Some ([EngageHigh ''max'' 1000] @ a, Returned 0) \<and> leaf_high ''max'' ([EngageHigh ''max'' 1000] @ a) = Some ''max''
   \<and> (\<forall>p. RestoreHigh p False \<notin> set ([EngageHigh ''max'' 1000] @ a))"
  by (simp add: spawn_round_def spawn_init_def example_spawn_simps check_due_def mem_check_def growth_step_def
      streak_step_def engage_step_def critical_step_def tick_pressure_def memory_pressure_def psi_pressure_def
      brake_step_for_def final_release_def release_brake_def stash_cgroup_def Let_def)

theorem spawn_brake_restored_witness:
  "\<exists>acts e h'. spawn_round (example_spawn True) [example_tick Woke 10 0, example_tick (Exited 0) 15 0] = Some (acts, e)
     \<and> EngageHigh ''max'' 1000 \<in> set acts \<and> leaf_high ''max'' acts = Some h' \<and> h' = ''max''"
proof -
  obtain a where a: "spawn_round (example_spawn True) [example_tick Woke 10 0, example_tick (Exited 0) 15 0] =
      Some ([EngageHigh ''max'' 1000] @ a, Returned 0)"
    "\<exists>h'. leaf_high ''max'' ([EngageHigh ''max'' 1000] @ a) = Some h'"
    "\<forall>p. RestoreHigh p False \<notin> set ([EngageHigh ''max'' 1000] @ a)" using example_run by blast
  from a(2) obtain h' where h: "leaf_high ''max'' ([EngageHigh ''max'' 1000] @ a) = Some h'" by blast
  from spawn_brake_restored [OF a(1) h a(3)] a(1) h show ?thesis by auto
qed

theorem spawn_acts_licensed_witness:
  "\<exists>acts. spawn_round (example_spawn True) [example_tick Woke 10 0, example_tick (Exited 0) 15 0] = Some (acts, Returned 0)
     \<and> act_licensed (example_spawn True) (EngageHigh ''max'' 1000) \<and> nudges acts \<le> 1"
proof -
  obtain a where a: "spawn_round (example_spawn True) [example_tick Woke 10 0, example_tick (Exited 0) 15 0] =
      Some ([EngageHigh ''max'' 1000] @ a, Returned 0)" using example_run by blast
  from spawn_acts_licensed [OF a] a show ?thesis by auto
qed

theorem spawn_round_ends_witness:
  "\<exists>a b. spawn_round (example_spawn False) [example_tick Woke 100 0] = Some (a @ [TermLeader] @ [EmitWedged 100] @ b, Returned 143)"
proof -
  have "spawn_round (example_spawn False) [] = None" by (simp add: spawn_round_def)
  moreover have "tk_wake (example_tick Woke 100 0) \<noteq> Woke \<or> tk_after (example_tick Woke 100 0) \<ge> spawn_deadline (example_spawn False)"
    by (simp add: example_spawn_simps)
  ultimately show ?thesis using spawn_round_ends [of "example_spawn False" "[]" "example_tick Woke 100 0"]
    by (simp add: example_tick_def terminate_round_def example_spawn_def)
qed

end
