(* ===== verification/Round_Outcome.thy ===== *)
theory Round_Outcome
  imports Throttle Serve_Policy
begin

section \<open>The per-round outcome fold (agent\_runner/\_round\_outcome.py)\<close>

text \<open>
  One pass over the event tail computes everything the post-round verdicts need: whether the
  round was terminated for memory, which agents can report usage and when they last did, the
  newest round boundary, the latest transient event and the back-off exponent per agent. The
  \<open>dict\<close> of transient events keeps its insertion order (an association list, as in
  \<open>Throttle\<close>); the other per-agent dictionaries are only looked up (maps). Comparing the
  timestamps parses them, which raises on malformed ones: the fold returns a \<open>res\<close>.
\<close>

subsection \<open>The fold\<close>

record outcome_acc =
  oa_before :: "pyval option"
  oa_terminated :: "pyval option"
  oa_usage :: "pyval option"
  oa_capable :: bool
  oa_transient :: transient_map
  oa_capable_by :: "string \<rightharpoonup> bool"
  oa_usage_by :: "string \<rightharpoonup> pyval"
  oa_detected :: "string \<rightharpoonup> nat"

definition outcome_init :: outcome_acc where
  "outcome_init =
     \<lparr>oa_before = None, oa_terminated = None, oa_usage = None, oa_capable = False, oa_transient = [],
      oa_capable_by = Map.empty, oa_usage_by = Map.empty, oa_detected = Map.empty\<rparr>"

text \<open>The unguarded half of the loop body: transient events and usage capability.\<close>

definition outcome_kinds :: "event \<Rightarrow> outcome_acc \<Rightarrow> outcome_acc" where
  "outcome_kinds ev acc =
     (let agent = agent_of ev;
          acc1 = (if is_kind ev TRANSIENT_ERROR_DETECTED then
                    acc\<lparr>oa_transient := AList.update agent (Some ev) (oa_transient acc),
                        oa_detected := (oa_detected acc)(agent \<mapsto>
                          (case oa_detected acc agent of None \<Rightarrow> 0 | Some n \<Rightarrow> n) + 1)\<rparr>
                  else if is_kind ev TRANSIENT_ERROR_RECOVERED then
                    acc\<lparr>oa_transient := AList.update agent None (oa_transient acc)\<rparr>
                  else acc)
      in if is_kind ev AGENT_USAGE_RECORDED then
           (let acc2 = acc1\<lparr>oa_capable := True, oa_capable_by := (oa_capable_by acc1)(agent \<mapsto> True)\<rparr>
            in if py_truthy (ev_get ev ''success'')
               then acc2\<lparr>oa_detected := (oa_detected acc2)(agent \<mapsto> 0)\<rparr> else acc2)
         else acc1)"

text \<open>The half behind the \<open>if not ts: continue\<close> guard.\<close>

definition outcome_stamps :: "event \<Rightarrow> outcome_acc \<Rightarrow> outcome_acc" where
  "outcome_stamps ev acc =
     (let ts = ev_get ev ''ts'' in
      if \<not> py_truthy ts then acc
      else if is_kind ev ROUND_SUBSTRATE_BEFORE then acc\<lparr>oa_before := Some ts\<rparr>
      else if is_kind ev ROUND_MEM_TERMINATED then acc\<lparr>oa_terminated := Some ts\<rparr>
      else if is_kind ev AGENT_USAGE_RECORDED
      then acc\<lparr>oa_usage := Some ts, oa_usage_by := (oa_usage_by acc)(agent_of ev \<mapsto> ts)\<rparr>
      else acc)"

definition outcome_step :: "event \<Rightarrow> outcome_acc \<Rightarrow> outcome_acc" where
  "outcome_step ev acc = outcome_stamps ev (outcome_kinds ev acc)"

record round_outcome =
  ro_mem_terminated :: bool
  ro_usage_capable :: bool
  ro_newest_usage_ts :: "pyval option"
  ro_newest_substrate_before_ts :: "pyval option"
  ro_latest_transient_per_agent :: transient_map
  ro_ran_agent :: "string option"
  ro_usage_capable_by_agent :: "string \<rightharpoonup> bool"
  ro_newest_usage_ts_by_agent :: "string \<rightharpoonup> pyval"
  ro_backoff_exponent_by_agent :: "string \<rightharpoonup> nat"

definition parse_ts :: "pyval \<Rightarrow> pydt res" where
  "parse_ts v = (case v of PStr s \<Rightarrow> parse_iso_ms s | _ \<Rightarrow> Inl AttributeError)"

definition mem_terminated_of :: "outcome_acc \<Rightarrow> bool res" where
  "mem_terminated_of acc =
     (case (oa_before acc, oa_terminated acc) of
        (Some b, Some t) \<Rightarrow>
          res_bind (parse_ts t) (\<lambda>dt. res_bind (parse_ts b) (\<lambda>db.
            res_bind (dt_less dt db) (\<lambda>lt. Inr (\<not> lt))))
      | _ \<Rightarrow> Inr False)"

definition round_outcome :: "log_dir \<Rightarrow> string option \<Rightarrow> round_outcome res" where
  "round_outcome logd ran_agent =
     (let acc = fold outcome_step (tail_events logd) outcome_init in
      res_bind (mem_terminated_of acc) (\<lambda>mt. Inr
        \<lparr>ro_mem_terminated = mt, ro_usage_capable = oa_capable acc, ro_newest_usage_ts = oa_usage acc,
         ro_newest_substrate_before_ts = oa_before acc,
         ro_latest_transient_per_agent = oa_transient acc, ro_ran_agent = ran_agent,
         ro_usage_capable_by_agent = oa_capable_by acc, ro_newest_usage_ts_by_agent = oa_usage_by acc,
         ro_backoff_exponent_by_agent = (\<lambda>a. map_option (\<lambda>c. c - 1) (oa_detected acc a))\<rparr>))"

definition outcome_or_scan :: "log_dir \<Rightarrow> round_outcome option \<Rightarrow> round_outcome res" where
  "outcome_or_scan logd outcome = (case outcome of Some ro \<Rightarrow> Inr ro | None \<Rightarrow> round_outcome logd None)"

definition round_was_mem_terminated :: "log_dir \<Rightarrow> round_outcome option \<Rightarrow> bool res" where
  "round_was_mem_terminated logd outcome =
     res_bind (outcome_or_scan logd outcome) (\<lambda>ro. Inr (ro_mem_terminated ro))"

definition round_had_no_progress ::
  "log_dir \<Rightarrow> int \<Rightarrow> real \<Rightarrow> real \<Rightarrow> bool \<Rightarrow> round_outcome option \<Rightarrow> bool res" where
  "round_had_no_progress logd returncode duration_s threshold_s throttle_active outcome =
     (if throttle_active \<or> returncode \<noteq> 0 \<or> duration_s \<ge> threshold_s then Inr False
      else res_bind (outcome_or_scan logd outcome) (\<lambda>ro.
        let capable = (case ro_ran_agent ro of None \<Rightarrow> ro_usage_capable ro
                       | Some a \<Rightarrow> ro_usage_capable_by_agent ro a = Some True);
            newest_usage = (case ro_ran_agent ro of None \<Rightarrow> ro_newest_usage_ts ro
                       | Some a \<Rightarrow> ro_newest_usage_ts_by_agent ro a)
        in if \<not> capable then Inr False
           else (case ro_newest_substrate_before_ts ro of
                   None \<Rightarrow> Inr False
                 | Some b \<Rightarrow>
                     (case newest_usage of
                        None \<Rightarrow> Inr True
                      | Some u \<Rightarrow> res_bind (parse_ts u) (\<lambda>du. res_bind (parse_ts b) (\<lambda>db. dt_less du db))))))"

subsection \<open>The fold agrees with the separate scans\<close>

lemmas outcome_step_unfold = outcome_step_def outcome_kinds_def outcome_stamps_def Let_def

lemma outcome_transient: "oa_transient (outcome_step ev acc) = transient_agent_step ev (oa_transient acc)"
  by (simp add: outcome_step_unfold transient_agent_step_def is_kind_def)

lemma outcome_transient_fold:
  "oa_transient (fold outcome_step evs acc) = fold transient_agent_step evs (oa_transient acc)"
  by (induction evs arbitrary: acc) (simp_all add: outcome_transient)

definition opt_nat :: "nat option \<Rightarrow> nat" where
  "opt_nat v = (case v of None \<Rightarrow> 0 | Some n \<Rightarrow> n)"

lemma agent_labels:
  assumes "a \<noteq> ''unknown''" "a \<noteq> []"
  shows "agent_of ev = a \<longleftrightarrow> py_str (ev_get_or ev ''agent'' (PStr [])) = a"
  using assms by (auto simp: agent_of_def ev_get_or_def split: option.split)

lemma outcome_detected:
  assumes "a \<noteq> ''unknown''" "a \<noteq> []"
  shows "opt_nat (oa_detected (outcome_step ev acc) a) = exponent_step a ev (opt_nat (oa_detected acc a))"
  using agent_labels [OF assms, of ev]
  by (auto simp: outcome_step_unfold exponent_step_def is_kind_def opt_nat_def split: option.split)

lemma outcome_detected_fold:
  assumes "a \<noteq> ''unknown''" "a \<noteq> []"
  shows "opt_nat (oa_detected (fold outcome_step evs acc) a) = fold (exponent_step a) evs (opt_nat (oa_detected acc a))"
  by (induction evs arbitrary: acc) (simp_all add: outcome_detected [OF assms])

lemma round_outcome_fields:
  "round_outcome logd who = Inr ro \<Longrightarrow>
    (let acc = fold outcome_step (tail_events logd) outcome_init in
     mem_terminated_of acc = Inr (ro_mem_terminated ro)
     \<and> ro_usage_capable ro = oa_capable acc \<and> ro_newest_usage_ts ro = oa_usage acc
     \<and> ro_newest_substrate_before_ts ro = oa_before acc \<and> ro_latest_transient_per_agent ro = oa_transient acc
     \<and> ro_ran_agent ro = who \<and> ro_usage_capable_by_agent ro = oa_capable_by acc
     \<and> ro_newest_usage_ts_by_agent ro = oa_usage_by acc
     \<and> ro_backoff_exponent_by_agent ro = (\<lambda>a. map_option (\<lambda>c. c - 1) (oa_detected acc a)))"
  by (auto simp: round_outcome_def Let_def res_bind_Inr_iff)

lemma active_of_cong:
  "(\<And>a d. (a, Some d) \<in> set m \<Longrightarrow> detected_reset l now c a d = detected_reset l now c' a d) \<Longrightarrow>
    active_of l now c m = active_of l now c' m"
proof (induction l now c m rule: active_of.induct [case_names Nil Rec Det])
  case (Det l now c a d rest)
  have "detected_reset l now c a d = detected_reset l now c' a d" by (rule Det.prems) simp
  moreover have "active_of l now c rest = active_of l now c' rest"
    using Det.IH [OF refl] Det.prems by (auto simp: Let_def split: if_splits)
  ultimately show ?case by (simp add: Let_def)
qed auto

text \<open>The single scan replaces the separate ones: the folded map of latest transient events is the map
  of \<open>_latest_transient_per_agent\<close>, the folded exponent of every labelled agent is
  \<open>_backoff_exponent\<close> of the log, and the active throttles computed from the two caches are those
  computed from the log, when no event lacks its agent label.\<close>

theorem outcome_one_scan:
  assumes "round_outcome logd who = Inr ro"
  shows "ro_latest_transient_per_agent ro = latest_transient_per_agent logd
    \<and> (\<forall>a. a \<noteq> ''unknown'' \<and> a \<noteq> [] \<longrightarrow>
         opt_nat (ro_backoff_exponent_by_agent ro a) = backoff_exponent logd a)
    \<and> ((\<forall>a \<in> fst ` set (latest_transient_per_agent logd). a \<noteq> ''unknown'' \<and> a \<noteq> []) \<longrightarrow>
         active_throttles logd now (ro_backoff_exponent_by_agent ro) (Some (ro_latest_transient_per_agent ro))
           = active_throttles logd now Map.empty None)"
proof -
  let ?acc = "fold outcome_step (tail_events logd) outcome_init"
  note f = round_outcome_fields [OF assms, unfolded Let_def]
  have t: "ro_latest_transient_per_agent ro = latest_transient_per_agent logd"
    using f by (simp add: outcome_transient_fold latest_transient_per_agent_def transient_per_agent_def outcome_init_def)
  have x: "opt_nat (ro_backoff_exponent_by_agent ro a) = backoff_exponent logd a"
    if "a \<noteq> ''unknown''" "a \<noteq> []" for a
  proof -
    have "opt_nat (map_option (\<lambda>c. c - 1) v) = opt_nat v - 1" for v by (cases v) (simp_all add: opt_nat_def)
    then show ?thesis
      using f outcome_detected_fold [OF that, of "tail_events logd" outcome_init]
      by (simp add: backoff_exponent_def exponent_of_def outcome_init_def) (simp add: opt_nat_def)
  qed
  have r: "detected_reset logd now (ro_backoff_exponent_by_agent ro) a d = detected_reset logd now Map.empty a d"
    if "a \<noteq> ''unknown''" "a \<noteq> []" for a d
    using x [OF that] by (auto simp: detected_reset_def events_derived_reset_def opt_nat_def split: option.split)
  have "active_throttles logd now (ro_backoff_exponent_by_agent ro) (Some (ro_latest_transient_per_agent ro))
      = active_throttles logd now Map.empty None"
    if "\<forall>a \<in> fst ` set (latest_transient_per_agent logd). a \<noteq> ''unknown'' \<and> a \<noteq> []"
    unfolding active_throttles_def t option.case
    by (rule active_of_cong) (use that in \<open>force intro: r\<close>)
  with t x show ?thesis by blast
qed

subsection \<open>The verdicts are scoped to the round\<close>

text \<open>
  Timestamps as \<open>now_iso_ms\<close> writes them: every event carries an aware one, and they increase
  strictly along the tail.
\<close>

definition ts_us :: "event \<Rightarrow> int option" where
  "ts_us ev = (case ev_get ev ''ts'' of
     PStr s \<Rightarrow> (case parse_iso_ms s of Inr (Aware us) \<Rightarrow> Some us | _ \<Rightarrow> None) | _ \<Rightarrow> None)"

definition stamped :: "event list \<Rightarrow> bool" where
  "stamped evs \<longleftrightarrow> (\<forall>e \<in> set evs. ts_us e \<noteq> None) \<and> sorted_wrt (\<lambda>a b. the (ts_us a) < the (ts_us b)) evs"

lemma ts_us_parse: "ts_us ev = Some us \<Longrightarrow> parse_ts (ev_get ev ''ts'') = Inr (Aware us)"
  by (auto simp: ts_us_def parse_ts_def split: pyval.splits sum.splits pydt.splits)

lemma ts_us_truthy:
  assumes "ts_us ev = Some us" shows "py_truthy (ev_get ev ''ts'')"
proof -
  obtain s where s: "ev_get ev ''ts'' = PStr s" "parse_iso_ms s = Inr (Aware us)"
    using assms by (auto simp: ts_us_def split: pyval.splits sum.splits pydt.splits)
  have "s \<noteq> []"
  proof
    assume "s = []"
    then have "parse_iso_ms s = Inl (ValueError ''Invalid isoformat string'')"
      by (simp add: parse_iso_ms_def Let_def replace_z_def parse_date_def)
    with s(2) show False by simp
  qed
  with s(1) show ?thesis by simp
qed

text \<open>The last event satisfying a test, and its timestamp field.\<close>

definition last_ts :: "(event \<Rightarrow> bool) \<Rightarrow> event list \<Rightarrow> pyval option" where
  "last_ts P evs = map_option (\<lambda>e. ev_get e ''ts'') (find P (rev evs))"

lemma fold_last:
  assumes "\<And>e acc. e \<in> set evs \<Longrightarrow> f (step e acc) = (if P e then Some (ev_get e ''ts'') else f acc)"
  shows "f (fold step evs acc) = (case last_ts P evs of None \<Rightarrow> f acc | Some v \<Rightarrow> Some v)"
  using assms
proof (induction evs arbitrary: acc rule: rev_induct)
  case (snoc e es)
  have "f (fold step es acc) = (case last_ts P es of None \<Rightarrow> f acc | Some v \<Rightarrow> Some v)"
    by (rule snoc.IH) (use snoc.prems in auto)
  moreover have "f (step e (fold step es acc)) = (if P e then Some (ev_get e ''ts'') else f (fold step es acc))"
    by (rule snoc.prems) simp
  ultimately show ?case by (auto simp: last_ts_def)
qed (simp add: last_ts_def)

lemma outcome_capable_step:
  "oa_capable_by (outcome_step e acc) a =
     (if is_kind e AGENT_USAGE_RECORDED \<and> agent_of e = a then Some True else oa_capable_by acc a)"
  by (simp add: outcome_step_unfold is_kind_def)

lemma outcome_newest:
  assumes "\<forall>e \<in> set evs. ts_us e \<noteq> None"
  defines "acc \<equiv> fold outcome_step evs outcome_init"
  shows "oa_before acc = last_ts (\<lambda>e. is_kind e ROUND_SUBSTRATE_BEFORE) evs"
    and "oa_terminated acc = last_ts (\<lambda>e. is_kind e ROUND_MEM_TERMINATED) evs"
    and "oa_usage_by acc a = last_ts (\<lambda>e. is_kind e AGENT_USAGE_RECORDED \<and> agent_of e = a) evs"
    and "oa_capable_by acc a = (if \<exists>e \<in> set evs. is_kind e AGENT_USAGE_RECORDED \<and> agent_of e = a then Some True else None)"
proof -
  have tr: "py_truthy (ev_get e ''ts'')" if "e \<in> set evs" for e
    using assms(1) that ts_us_truthy by blast
  show "oa_before acc = last_ts (\<lambda>e. is_kind e ROUND_SUBSTRATE_BEFORE) evs"
    unfolding acc_def
    by (subst fold_last [where f = oa_before and P = "\<lambda>e. is_kind e ROUND_SUBSTRATE_BEFORE"])
      (auto simp: outcome_step_unfold is_kind_def tr outcome_init_def split: option.split)
  show "oa_terminated acc = last_ts (\<lambda>e. is_kind e ROUND_MEM_TERMINATED) evs"
    unfolding acc_def
    by (subst fold_last [where f = oa_terminated and P = "\<lambda>e. is_kind e ROUND_MEM_TERMINATED"])
      (auto simp: outcome_step_unfold is_kind_def tr outcome_init_def split: option.split)
  show "oa_usage_by acc a = last_ts (\<lambda>e. is_kind e AGENT_USAGE_RECORDED \<and> agent_of e = a) evs"
    unfolding acc_def
    by (subst fold_last [where f = "\<lambda>x. oa_usage_by x a"
          and P = "\<lambda>e. is_kind e AGENT_USAGE_RECORDED \<and> agent_of e = a"])
      (auto simp: outcome_step_unfold is_kind_def tr outcome_init_def split: option.split)
  show "oa_capable_by acc a = (if \<exists>e \<in> set evs. is_kind e AGENT_USAGE_RECORDED \<and> agent_of e = a then Some True else None)"
    unfolding acc_def
    by (induction evs rule: rev_induct) (simp_all add: outcome_capable_step, simp add: outcome_init_def)
qed

lemma find_app: "find P (xs @ ys) = (case find P xs of None \<Rightarrow> find P ys | Some x \<Rightarrow> Some x)"
  by (induction xs) auto

lemma last_ts_suffix:
  "\<not> (\<exists>e \<in> set post. P e) \<Longrightarrow> last_ts P (pre @ post) = last_ts P pre"
  "\<exists>e \<in> set post. P e \<Longrightarrow> last_ts P (pre @ post) = last_ts P post"
  by (auto simp: last_ts_def find_app find_None_iff2 split: option.split dest: find_SomeD)

lemma last_ts_Some:
  "last_ts P evs = Some v \<Longrightarrow> \<exists>e \<in> set evs. P e \<and> v = ev_get e ''ts''"
  by (auto simp: last_ts_def dest!: find_SomeD)

lemma last_ts_None: "last_ts P evs = None \<longleftrightarrow> (\<forall>e \<in> set evs. \<not> P e)"
  by (simp add: last_ts_def find_None_iff2)



lemma stamped_around:
  assumes "stamped (pre @ b # post)"
  shows "e \<in> set pre \<Longrightarrow> the (ts_us e) < the (ts_us b)" and "e \<in> set post \<Longrightarrow> the (ts_us b) < the (ts_us e)"
  using assms by (auto simp: stamped_def sorted_wrt_append)

lemma newest_vs_boundary:
  assumes st: "stamped (pre @ b # post)" and nb: "\<not> P b"
    and v: "last_ts P (pre @ b # post) = Some v"
  shows "\<exists>us ub. parse_ts v = Inr (Aware us) \<and> parse_ts (ev_get b ''ts'') = Inr (Aware ub)
    \<and> (us < ub \<longleftrightarrow> \<not> (\<exists>e \<in> set post. P e)) \<and> \<not> (us = ub)"
proof -
  have some: "\<exists>us. ts_us e = Some us" if "e \<in> set (pre @ b # post)" for e
    using st that unfolding stamped_def by blast
  obtain ub where ub: "ts_us b = Some ub" using some [of b] by auto
  have split: "pre @ b # post = (pre @ [b]) @ post" by simp
  show ?thesis
  proof (cases "\<exists>e \<in> set post. P e")
    case True
    then have "last_ts P post = Some v" using v unfolding split by (simp only: last_ts_suffix(2))
    then obtain e where e: "e \<in> set post" "v = ev_get e ''ts''" using last_ts_Some by blast
    obtain us where us: "ts_us e = Some us" using some [of e] e(1) by auto
    have "ub < us" using stamped_around(2) [OF st e(1)] us ub by simp
    then show ?thesis using True e(2) ts_us_parse [OF us] ts_us_parse [OF ub] by (intro exI [of _ us] exI [of _ ub]) auto
  next
    case False
    then have "last_ts P (pre @ [b]) = Some v"
      using v last_ts_suffix(1) [OF False, of "pre @ [b]"] unfolding split by simp
    then obtain e where e: "e \<in> set pre" "v = ev_get e ''ts''" using last_ts_Some nb by fastforce
    obtain us where us: "ts_us e = Some us" using some [of e] e(1) by auto
    have "us < ub" using stamped_around(1) [OF st e(1)] us ub by simp
    then show ?thesis using False e(2) ts_us_parse [OF us] ts_us_parse [OF ub] by (intro exI [of _ us] exI [of _ ub]) auto
  qed
qed

text \<open>The post-round verdicts are scoped to the round that just ran: on a tail whose events carry
  strictly increasing timestamps, the round counts as memory-terminated exactly when such an event
  follows its \<open>round_substrate_before\<close>, and a fast clean unthrottled round counts as
  no-progress exactly when its agent has ever reported usage but not since that boundary.\<close>

theorem round_scoped_verdicts:
  assumes st: "stamped (tail_events logd)"
    and tl: "tail_events logd = pre @ b # post"
    and b: "is_kind b ROUND_SUBSTRATE_BEFORE"
    and nb: "\<forall>e \<in> set post. \<not> is_kind e ROUND_SUBSTRATE_BEFORE"
    and dur: "dur < threshold"
  shows "\<exists>ro. round_outcome logd (Some a) = Inr ro
    \<and> (ro_mem_terminated ro \<longleftrightarrow> (\<exists>e \<in> set post. is_kind e ROUND_MEM_TERMINATED))
    \<and> round_had_no_progress logd 0 dur threshold False (Some ro) =
        Inr ((\<exists>e \<in> set (tail_events logd). is_kind e AGENT_USAGE_RECORDED \<and> agent_of e = a)
             \<and> \<not> (\<exists>e \<in> set post. is_kind e AGENT_USAGE_RECORDED \<and> agent_of e = a))"
proof -
  let ?evs = "tail_events logd"
  define acc where "acc = fold outcome_step ?evs outcome_init"
  let ?M = "\<lambda>e. is_kind e ROUND_MEM_TERMINATED"
  let ?U = "\<lambda>e. is_kind e AGENT_USAGE_RECORDED \<and> agent_of e = a"
  have all: "\<forall>e \<in> set ?evs. ts_us e \<noteq> None" using st by (simp add: stamped_def)
  note newest = outcome_newest [OF all, folded acc_def]
  have st': "stamped (pre @ b # post)" using st tl by simp
  have kinds: "\<not> ?M b" "\<not> ?U b" using b by (auto simp: is_kind_def)
  have before: "oa_before acc = Some (ev_get b ''ts'')"
  proof -
    have "last_ts (\<lambda>e. is_kind e ROUND_SUBSTRATE_BEFORE) ((pre @ [b]) @ post) = Some (ev_get b ''ts'')"
      using b nb by (subst last_ts_suffix(1)) (auto simp: last_ts_def)
    then show ?thesis using newest(1) tl by simp
  qed
  have mt: "mem_terminated_of acc = Inr (\<exists>e \<in> set post. ?M e)"
  proof (cases "oa_terminated acc")
    case None
    then have "\<forall>e \<in> set ?evs. \<not> ?M e" using newest(2) last_ts_None by metis
    then show ?thesis using None tl by (auto simp: mem_terminated_of_def before)
  next
    case (Some v)
    then have "last_ts ?M (pre @ b # post) = Some v" using newest(2) tl by simp
    from newest_vs_boundary [OF st' kinds(1) this]
    show ?thesis using Some by (auto simp: mem_terminated_of_def before)
  qed
  obtain ro where ro: "round_outcome logd (Some a) = Inr ro"
    using mt by (simp add: round_outcome_def Let_def acc_def [symmetric])
  note f = round_outcome_fields [OF ro, unfolded Let_def, folded acc_def]
  have np: "round_had_no_progress logd 0 dur threshold False (Some ro) =
      Inr ((\<exists>e \<in> set ?evs. ?U e) \<and> \<not> (\<exists>e \<in> set post. ?U e))"
  proof (cases "\<exists>e \<in> set ?evs. ?U e")
    case False
    then have "oa_capable_by acc a = None" using newest(4) by auto
    then show ?thesis using dur False f by (simp add: round_had_no_progress_def outcome_or_scan_def Let_def)
  next
    case True
    then have cap: "oa_capable_by acc a = Some True" using newest(4) by auto
    from True obtain v where v: "oa_usage_by acc a = Some v"
      using newest(3) last_ts_None [of ?U ?evs] by (cases "oa_usage_by acc a") auto
    then have "last_ts ?U (pre @ b # post) = Some v" using newest(3) tl by simp
    from newest_vs_boundary [OF st' kinds(2) this]
    show ?thesis using dur True f cap v before
      by (auto simp: round_had_no_progress_def outcome_or_scan_def Let_def)
  qed
  show ?thesis using ro f mt np by (intro exI [of _ ro]) simp
qed

subsection \<open>Instances\<close>

definition example_stamp :: "string \<Rightarrow> string \<Rightarrow> event" where
  "example_stamp kind sec = [''event'' \<mapsto> PStr kind, ''agent'' \<mapsto> PStr ''pi'',
     ''ts'' \<mapsto> PStr (''2026-01-01T00:00:'' @ sec @ ''.000Z'')]"

definition example_tail_log :: log_dir where
  "example_tail_log = [(''2026-01'', [example_stamp ''agent_usage_recorded'' ''01'',
      example_stamp ''round_substrate_before'' ''02'', example_stamp ''agent_exit'' ''03''])]"

lemma example_tail_log_tail: "tail_events example_tail_log =
   [example_stamp ''agent_usage_recorded'' ''01'', example_stamp ''round_substrate_before'' ''02'',
    example_stamp ''agent_exit'' ''03'']"
  by (simp add: tail_events_def scan_def newest_month_files_def all_month_files_def example_tail_log_def)

lemma example_stamp_kind: "is_kind (example_stamp k s) k' \<longleftrightarrow> k = k'" "agent_of (example_stamp k s) = ''pi''"
  by (auto simp: is_kind_def ev_get_def ev_get_or_def example_stamp_def agent_of_def)

lemma example_stamp_ts:
  "ts_us (example_stamp k ''01'') = Some 1767225601000000"
  "ts_us (example_stamp k ''02'') = Some 1767225602000000"
  "ts_us (example_stamp k ''03'') = Some 1767225603000000"
proof -
  have p: "parse_iso_ms (''2026-01-01T00:00:'' @ ''01'' @ ''.000Z'') = Inr (Aware 1767225601000000)"
    "parse_iso_ms (''2026-01-01T00:00:'' @ ''02'' @ ''.000Z'') = Inr (Aware 1767225602000000)"
    "parse_iso_ms (''2026-01-01T00:00:'' @ ''03'' @ ''.000Z'') = Inr (Aware 1767225603000000)"
    by code_simp+
  show "ts_us (example_stamp k ''01'') = Some 1767225601000000"
    "ts_us (example_stamp k ''02'') = Some 1767225602000000"
    "ts_us (example_stamp k ''03'') = Some 1767225603000000"
    using p by (simp_all add: ts_us_def ev_get_def ev_get_or_def example_stamp_def)
qed

theorem round_scoped_verdicts_witness:
  "\<exists>ro. round_outcome example_tail_log (Some ''pi'') = Inr ro \<and> \<not> ro_mem_terminated ro
     \<and> round_had_no_progress example_tail_log 0 2 30 False (Some ro) = Inr True"
proof -
  have st: "stamped (tail_events example_tail_log)"
    by (simp add: stamped_def example_tail_log_tail example_stamp_ts)
  have tl: "tail_events example_tail_log = [example_stamp ''agent_usage_recorded'' ''01'']
      @ example_stamp ''round_substrate_before'' ''02'' # [example_stamp ''agent_exit'' ''03'']"
    by (simp add: example_tail_log_tail)
  show ?thesis
    using round_scoped_verdicts [OF st tl, of 2 30 "''pi''"]
    by (simp add: example_tail_log_tail example_stamp_kind)
qed

theorem outcome_one_scan_witness:
  "\<exists>ro. round_outcome example_log None = Inr ro
     \<and> active_throttles example_log 1200 (ro_backoff_exponent_by_agent ro) (Some (ro_latest_transient_per_agent ro))
        = [(''kimi'', transient_state_of (example_detected ''kimi'' 1500) ''kimi'' 1500)]"
proof -
  have b: "oa_before (fold outcome_step (tail_events example_log) outcome_init) = None"
    by (simp add: example_tail outcome_step_unfold example_kinds outcome_init_def)
      (simp add: is_kind_def ev_get_def ev_get_or_def example_detected_def)
  then obtain ro where ro: "round_outcome example_log None = Inr ro"
    by (simp add: round_outcome_def Let_def mem_terminated_of_def)
  have "\<forall>a \<in> fst ` set (latest_transient_per_agent example_log). a \<noteq> ''unknown'' \<and> a \<noteq> []"
    by (simp add: example_latest)
  with outcome_one_scan [OF ro, of 1200]
  have "active_throttles example_log 1200 (ro_backoff_exponent_by_agent ro)
      (Some (ro_latest_transient_per_agent ro)) = active_throttles example_log 1200 Map.empty None"
    by blast
  then show ?thesis using ro by (auto simp: example_active)
qed

end
