(* ===== verification/Serve_Round.thy ===== *)
theory Serve_Round
  imports Spawn_Round Round_Outcome
begin

section \<open>Gates before and verdicts after a round (cli/\_serve\_round.py, cli/\_serve\_cgroup.py)\<close>

text \<open>
  The pre-round memory gate with its chunked pause, the per-round cgroup accounting, the startup
  probe of the cgroup budget, and \<open>post_round_verdicts\<close>, which runs the three breakers and turns
  them into an exit code. \<open>num\<close> is Python's text of a number (used in messages and for float
  fields); the redacted tail of the round log that a give-up event carries is an input.
\<close>

subsection \<open>Rendering\<close>

definition severity_text :: "severity \<Rightarrow> string" where
  "severity_text s = (case s of Warning \<Rightarrow> ''warning'' | Critical \<Rightarrow> ''critical'')"

definition signal_text :: "signal \<Rightarrow> string" where
  "signal_text s = (case s of Psi \<Rightarrow> ''psi'' | SwapOutRate \<Rightarrow> ''swap_out_rate''
     | CombinedLow \<Rightarrow> ''combined_low'' | CgroupGrowthRate \<Rightarrow> ''cgroup_growth_rate'')"

definition render :: "(real \<Rightarrow> string) \<Rightarrow> piece list \<Rightarrow> string" where
  "render num ps = concat (map (\<lambda>p. case p of Lit s \<Rightarrow> s | Num x \<Rightarrow> num x) ps)"

subsection \<open>The pre-round memory gate\<close>

text \<open>
  \<open>_pause_poll\<close>: per chunk the stop flag, the stop file and what the runnable predicate reads; the
  predicate may keep state. \<open>None\<close> when the observations run out while still paused.
\<close>

record 'o poll =
  pl_stop :: bool
  pl_stop_file :: bool
  pl_seen :: 'o

fun pause_poll :: "('s \<Rightarrow> 'o \<Rightarrow> bool \<times> 's) \<Rightarrow> 's \<Rightarrow> 'o poll list \<Rightarrow> (bool \<times> 's) option" where
  "pause_poll runnable s [] = None"
| "pause_poll runnable s (ob # obs) =
     (if pl_stop ob then Some (False, s)
      else if pl_stop_file ob then Some (False, s)
      else (case runnable s (pl_seen ob) of
              (True, s') \<Rightarrow> Some (True, s')
            | (False, s') \<Rightarrow> pause_poll runnable s' obs))"

text \<open>The previous sample is kept per log directory; \<open>None\<close> is the missing entry (\<open>prev = {}\<close>).\<close>

definition memory_pressure_now ::
  "host_health_config \<Rightarrow> sample option \<Rightarrow> sample \<Rightarrow> pressure option \<times> sample option" where
  "memory_pressure_now cfg prev cur =
     (memory_pressure cur (case prev of None \<Rightarrow> Map.empty | Some s \<Rightarrow> s) cfg, Some cur)"

definition pressure_is_critical :: "pressure option \<Rightarrow> bool" where
  "pressure_is_critical p = (case p of None \<Rightarrow> False | Some q \<Rightarrow> ps_severity q = Critical)"

definition memory_runnable :: "host_health_config \<Rightarrow> sample option \<Rightarrow> sample \<Rightarrow> bool \<times> sample option" where
  "memory_runnable cfg prev cur =
     (case memory_pressure_now cfg prev cur of (p, prev') \<Rightarrow> (\<not> pressure_is_critical p, prev'))"

definition round_deferred_payload :: "(real \<Rightarrow> string) \<Rightarrow> pressure \<Rightarrow> event" where
  "round_deferred_payload num p =
     [''severity'' \<mapsto> PStr (severity_text (ps_severity p)), ''signal'' \<mapsto> PStr (signal_text (ps_signal p)),
      ''message'' \<mapsto> PStr (render num (ps_message p))]"

record mem_gate_obs =
  mg_first :: sample
  mg_polls :: "sample poll list"
  mg_start :: clock
  mg_end :: clock

definition maybe_pause_for_memory_pressure ::
  "(real \<Rightarrow> string) \<Rightarrow> host_health_config \<Rightarrow> sample option \<Rightarrow> mem_gate_obs \<Rightarrow> log_dir
     \<Rightarrow> (bool \<times> sample option \<times> log_dir) option" where
  "maybe_pause_for_memory_pressure num cfg prev ob logd =
     (case memory_pressure_now cfg prev (mg_first ob) of
        (None, prev1) \<Rightarrow> Some (False, prev1, logd)
      | (Some p, prev1) \<Rightarrow>
          if ps_severity p \<noteq> Critical then Some (False, prev1, logd)
          else (let logd1 = emit_builtin (mg_start ob) ROUND_DEFERRED (round_deferred_payload num p) logd in
                case pause_poll (memory_runnable cfg) prev1 (mg_polls ob) of
                  None \<Rightarrow> None
                | Some (True, prev2) \<Rightarrow>
                    Some (True, prev2, emit_builtin (mg_end ob) ROUND_RESUMED
                      [''deferred_for_s'' \<mapsto> PInt (py_trunc (ck_mono (mg_end ob) - ck_mono (mg_start ob)))] logd1)
                | Some (False, prev2) \<Rightarrow> Some (True, prev2, logd1)))"

subsection \<open>Per-round cgroup accounting\<close>

record cgroup_stash =
  cs_baseline_events :: "(string \<times> int) list"
  cs_peak_current :: int
  cs_peak_swap :: int
  cs_bounding_path :: string

text \<open>What the round's own actions stashed (\<open>_stash_round_cgroup_state\<close>).\<close>

fun stashed :: "act list \<Rightarrow> cgroup_stash option \<Rightarrow> cgroup_stash option" where
  "stashed [] st = st"
| "stashed (a # acts) st =
     stashed acts (case a of StashCgroup ev cur sw p \<Rightarrow>
        Some \<lparr>cs_baseline_events = ev, cs_peak_current = cur, cs_peak_swap = sw, cs_bounding_path = p\<rparr>
      | _ \<Rightarrow> st)"

definition counter :: "(string \<times> int) list \<Rightarrow> string \<Rightarrow> int" where
  "counter ev k = (case map_of ev k of None \<Rightarrow> 0 | Some n \<Rightarrow> n)"

definition counter_delta :: "(string \<times> int) list \<Rightarrow> (string \<times> int) list \<Rightarrow> string \<Rightarrow> int" where
  "counter_delta cur base k = max 0 (counter cur k - counter base k)"

definition opt_float_field :: "(real \<Rightarrow> string) \<Rightarrow> string \<Rightarrow> real option \<Rightarrow> event" where
  "opt_float_field num k v = (case v of None \<Rightarrow> Map.empty | Some x \<Rightarrow> [k \<mapsto> PFloat x (num x)])"

definition round_cgroup_payload ::
  "(real \<Rightarrow> string) \<Rightarrow> int \<Rightarrow> cgroup_stash \<Rightarrow> (string \<times> int) list \<Rightarrow> sample \<Rightarrow> event" where
  "round_cgroup_payload num round_num st cur_ev smp =
     (let d = counter_delta cur_ev (cs_baseline_events st) in
      [''round_num'' \<mapsto> PInt round_num, ''memory_current_peak'' \<mapsto> PInt (cs_peak_current st),
       ''memory_swap_current_peak'' \<mapsto> PInt (cs_peak_swap st), ''events_high_delta'' \<mapsto> PInt (d ''high''),
       ''events_max_delta'' \<mapsto> PInt (d ''max''), ''events_oom_delta'' \<mapsto> PInt (d ''oom''),
       ''events_oom_kill_delta'' \<mapsto> PInt (d ''oom_kill''), ''bounding_cgroup_path'' \<mapsto> PStr (cs_bounding_path st)]
      ++ opt_float_field num ''io_psi_some_avg10'' (smp ''io_psi_some_avg10'')
      ++ opt_float_field num ''io_psi_full_avg10'' (smp ''io_psi_full_avg10'')
      ++ opt_float_field num ''psi_full_total'' (smp ''psi_full_total''))"

text \<open>The current usage and the OOM baseline, both absent when nothing can be compared.\<close>

definition emit_round_cgroup_memory ::
  "(real \<Rightarrow> string) \<Rightarrow> clock \<Rightarrow> int \<Rightarrow> cgroup_stash option \<Rightarrow> cg_usage option \<Rightarrow> sample \<Rightarrow> log_dir
     \<Rightarrow> (cg_usage option \<times> int option) \<times> log_dir" where
  "emit_round_cgroup_memory num ck round_num state cur smp logd =
     (case (state, cur) of
        (Some st, Some u) \<Rightarrow>
          if cs_baseline_events st = [] then ((None, None), logd)
          else ((Some u, Some (counter (cs_baseline_events st) ''oom_kill'')),
                emit_builtin ck ''round_cgroup_memory''
                  (round_cgroup_payload num round_num st (cu_memory_events u) smp) logd)
      | _ \<Rightarrow> ((None, None), logd))"

record oom_obs =
  oo_log_path :: string
  oo_log_bytes :: int
  oo_marked :: bool

definition maybe_emit_oom_killed ::
  "clock \<Rightarrow> oom_obs \<Rightarrow> int \<Rightarrow> cg_usage option \<Rightarrow> int \<Rightarrow> int option \<Rightarrow> log_dir \<Rightarrow> log_dir" where
  "maybe_emit_oom_killed ck ob round_num cur returncode baseline logd =
     (case (cur, baseline) of
        (Some u, Some b) \<Rightarrow>
          (let delta = max 0 (counter (cu_memory_events u) ''oom_kill'' - b) in
           if delta \<le> 0 \<or> \<not> (returncode = round_unreaped_rc \<or> returncode = -9) then logd
           else emit_builtin ck ''round_oom_killed''
                  [''round_num'' \<mapsto> PInt round_num, ''log_path'' \<mapsto> PStr (oo_log_path ob),
                   ''log_bytes'' \<mapsto> PInt (oo_log_bytes ob), ''events_oom_kill_delta'' \<mapsto> PInt delta,
                   ''oom_kill_delta'' \<mapsto> PInt delta, ''partial_log'' \<mapsto> PBool (oo_marked ob)] logd)
      | _ \<Rightarrow> logd)"

subsection \<open>The startup probe of the cgroup budget\<close>

record cgroup_limits =
  cl_cgroup_path :: "string option"
  cl_memory_max :: "int option"
  cl_swap_max :: "int option"
  cl_bounding_path :: "string option"
  cl_memory_high :: "int option"
  cl_delegated :: "bool option"
  cl_swap_total :: int
  cl_mem_total :: int

definition probe_defer :: "cgroup_limits \<Rightarrow> bool" where
  "probe_defer l =
     (case (cl_memory_max l, cl_swap_max l) of
        (Some m, Some s) \<Rightarrow> m < cl_mem_total l \<and> s \<le> cl_swap_total l
      | _ \<Rightarrow> False)"

text \<open>Whether the soft brake is armed for this serve process.\<close>

definition probe_armed :: "bool \<Rightarrow> cgroup_limits \<Rightarrow> bool" where
  "probe_armed brake_memory_high l = (brake_memory_high \<and> cl_delegated l = Some True)"

definition brake_report_state :: "bool \<Rightarrow> bool option \<Rightarrow> string" where
  "brake_report_state enabled delegated =
     (if \<not> enabled then ''off''
      else (case delegated of Some True \<Rightarrow> ''armed'' | Some False \<Rightarrow> ''inert(undelegated)''
            | None \<Rightarrow> ''inert(no cgroup v2)''))"

subsection \<open>The verdicts after a round\<close>

text \<open>\<open>_emit_giveup\<close>: \<open>reason\<close> is the redacted tail of the round log.\<close>

definition giveup_payload :: "nat \<Rightarrow> int \<Rightarrow> string \<Rightarrow> event" where
  "giveup_payload consecutive exit_code reason =
     [''consecutive'' \<mapsto> PInt (int consecutive), ''exit_code'' \<mapsto> PInt exit_code, ''reason'' \<mapsto> PStr reason]"

definition emit_giveup :: "clock \<Rightarrow> string \<Rightarrow> nat \<Rightarrow> int \<Rightarrow> string \<Rightarrow> log_dir \<Rightarrow> log_dir" where
  "emit_giveup ck kind consecutive exit_code reason logd =
     emit_builtin ck kind (giveup_payload consecutive exit_code reason) logd"

definition config_broken_reason :: "int \<Rightarrow> string" where
  "config_broken_reason rc = ''permanent config failure (round exited '' @ int_digits rc @ '')''"

type_synonym streaks = "nat \<times> nat \<times> nat"

record verdict_env =
  ve_clock :: clock
  ve_stash :: "cgroup_stash option"
  ve_usage :: "cg_usage option"
  ve_sample :: sample
  ve_oom :: oom_obs
  ve_reason :: string

text \<open>The three breakers, before anything is emitted: action, delay, the two flags and the streaks.\<close>

definition breakers ::
  "int \<Rightarrow> log_dir \<Rightarrow> int \<Rightarrow> real \<Rightarrow> bool \<Rightarrow> round_outcome \<Rightarrow> streaks
     \<Rightarrow> (action \<times> int \<times> bool \<times> bool \<times> streaks) res" where
  "breakers restart_delay_s logd rc dur throttle_active ro st =
     (case st of (crashes, mems, nops) \<Rightarrow>
      case post_round_decision rc dur throttle_active crashes restart_delay_s of (act, delay, crashes') \<Rightarrow>
      case mem_loop_decision (ro_mem_terminated ro) mems of (mem_trip, mems') \<Rightarrow>
      res_bind (round_had_no_progress logd rc dur no_progress_short_s throttle_active (Some ro)) (\<lambda>np.
      case no_progress_decision np nops of (np_trip, nops') \<Rightarrow>
        Inr (act, delay, mem_trip, np_trip, (crashes', mems', nops'))))"

definition post_round_verdicts ::
  "(real \<Rightarrow> string) \<Rightarrow> (int \<Rightarrow> real) \<Rightarrow> config \<Rightarrow> verdict_env \<Rightarrow> int \<Rightarrow> int \<Rightarrow> real \<Rightarrow> bool \<Rightarrow> round_outcome \<Rightarrow> streaks
     \<Rightarrow> log_dir \<Rightarrow> ((int option \<times> int \<times> streaks) \<times> log_dir) res" where
  "post_round_verdicts num local_ts cfg env round_num rc dur throttle_active ro st logd =
     res_bind (breakers (rt_restart_delay_s (cf_runtime cfg)) logd rc dur throttle_active ro st)
       (\<lambda>(act, delay, mem_trip, np_trip, (crashes, mems, nops)).
       case emit_round_cgroup_memory num (ve_clock env) round_num (ve_stash env) (ve_usage env) (ve_sample env) logd of
         ((cur, baseline), logd1) \<Rightarrow>
           let logd2 = maybe_emit_oom_killed (ve_clock env) (ve_oom env) round_num cur rc baseline logd1;
               streaks' = (crashes, mems, nops)
           in if act = ConfigBroken then
                Inr ((Some permanent_config_exit, delay, streaks'),
                     emit_builtin (ve_clock env) ''config_broken'' [''reason'' \<mapsto> PStr (config_broken_reason rc)] logd2)
              else if mem_trip then
                res_bind (mem_loop_events_in_window local_ts logd2 (ck_epoch (ve_clock env)) mem_loop_persist_window_s)
                  (\<lambda>k. if k + 1 \<ge> mem_loop_persist_threshold
                       then Inr ((Some mem_loop_persistent_exit, delay, streaks'),
                              emit_giveup (ve_clock env) ''mem_loop_persistent'' (k + 1) rc (ve_reason env) logd2)
                       else Inr ((Some mem_loop_exit, delay, streaks'),
                              emit_giveup (ve_clock env) MEM_LOOP mems rc (ve_reason env) logd2))
              else if act = CrashLoop then
                Inr ((Some crash_loop_exit, delay, streaks'),
                     emit_giveup (ve_clock env) CRASH_LOOP crashes rc (ve_reason env) logd2)
              else if np_trip then
                Inr ((Some crash_loop_exit, delay, streaks'),
                     emit_giveup (ve_clock env) STALLED_NO_PROGRESS nops rc (ve_reason env) logd2)
              else Inr ((None, delay, streaks'), logd2))"

subsection \<open>The chunked pause\<close>

text \<open>The states the predicate is asked in, one per observation.\<close>

fun poll_states :: "('s \<Rightarrow> 'o \<Rightarrow> bool \<times> 's) \<Rightarrow> 's \<Rightarrow> 'o poll list \<Rightarrow> 's list" where
  "poll_states f s [] = []"
| "poll_states f s (ob # obs) = s # poll_states f (snd (f s (pl_seen ob))) obs"

definition poll_interrupted :: "'o poll \<Rightarrow> bool" where
  "poll_interrupted ob \<longleftrightarrow> pl_stop ob \<or> pl_stop_file ob"

lemma poll_states_length [simp]: "length (poll_states f s obs) = length obs"
  by (induction obs arbitrary: s) simp_all

lemma pause_poll_exact:
  "pause_poll f s obs = Some (opened, s') \<longleftrightarrow>
    (\<exists>i < length obs.
       (\<forall>j < i. \<not> poll_interrupted (obs ! j) \<and> \<not> fst (f (poll_states f s obs ! j) (pl_seen (obs ! j))))
       \<and> (if opened then \<not> poll_interrupted (obs ! i)
             \<and> f (poll_states f s obs ! i) (pl_seen (obs ! i)) = (True, s')
          else poll_interrupted (obs ! i) \<and> s' = poll_states f s obs ! i))" (is "?l s obs \<longleftrightarrow> (\<exists>i < length obs. ?r s obs i)")
proof (induction obs arbitrary: s)
  case (Cons ob obs)
  obtain b s1 where f: "f s (pl_seen ob) = (b, s1)" by fastforce
  have zero: "?r s (ob # obs) 0 \<longleftrightarrow> (if opened then \<not> poll_interrupted ob \<and> b \<and> s' = s1 else poll_interrupted ob \<and> s' = s)"
    by (auto simp: f)
  have suc: "?r s (ob # obs) (Suc i) \<longleftrightarrow> \<not> poll_interrupted ob \<and> \<not> b \<and> ?r s1 obs i" for i
    by (simp add: f All_less_Suc2 del: All_less_Suc)
  have "(\<exists>i < length (ob # obs). ?r s (ob # obs) i) \<longleftrightarrow>
      ?r s (ob # obs) 0 \<or> (\<exists>i < length obs. ?r s (ob # obs) (Suc i))"
    by (simp only: list.size(4) One_nat_def add_Suc_right add_0_right Ex_less_Suc2)
  also have "\<dots> \<longleftrightarrow> ?l s (ob # obs)"
    unfolding zero suc using Cons.IH [of s1]
    by (auto simp: f poll_interrupted_def split: bool.splits)
  finally show ?case by blast
qed simp

lemma memory_runnable_state: "snd (memory_runnable cfg s x) = Some x"
  by (simp add: memory_runnable_def memory_pressure_now_def)

definition critical_after :: "host_health_config \<Rightarrow> sample option \<Rightarrow> sample \<Rightarrow> bool" where
  "critical_after cfg prev cur = is_critical (memory_pressure cur (case prev of None \<Rightarrow> Map.empty | Some s \<Rightarrow> s) cfg)"

lemma pressure_is_critical_iff: "pressure_is_critical p \<longleftrightarrow> is_critical p"
  by (auto simp: pressure_is_critical_def is_critical_def split: option.split)

lemma memory_runnable_critical: "fst (memory_runnable cfg s x) \<longleftrightarrow> \<not> critical_after cfg s x"
  by (simp add: memory_runnable_def memory_pressure_now_def pressure_is_critical_iff critical_after_def)

text \<open>The sample the pressure of poll \<open>i\<close> is measured against.\<close>

definition previous_sample :: "mem_gate_obs \<Rightarrow> nat \<Rightarrow> sample" where
  "previous_sample ob i = (if i = 0 then mg_first ob else pl_seen (mg_polls ob ! (i - 1)))"

lemma memory_poll_states:
  "i < length obs \<Longrightarrow> poll_states (memory_runnable cfg) (Some x) obs ! i =
    Some (if i = 0 then x else pl_seen (obs ! (i - 1)))"
proof (induction obs arbitrary: x i)
  case (Cons ob obs)
  show ?case
  proof (cases i)
    case (Suc k)
    then show ?thesis using Cons by (simp add: memory_runnable_state)
  qed simp
qed simp

text \<open>The pre-round memory gate: a round is deferred exactly when the first reading is critical
  (each reading judged against the one before it); otherwise nothing is written. A deferral writes one
  \<open>round_deferred\<close> and ends at the first poll that is interrupted or no longer critical, and only the
  second way writes a \<open>round_resumed\<close> after it.\<close>

theorem memory_gate_exact:
  assumes run: "maybe_pause_for_memory_pressure num cfg prev ob logd = Some (deferred, prev', logd')"
    and cur: "ck_month (mg_start ob) = m" "ck_month (mg_end ob) = m" "current_newest m logd"
  shows "(deferred \<longleftrightarrow> critical_after cfg prev (mg_first ob))
    \<and> (\<not> deferred \<longrightarrow> logd' = logd)
    \<and> (deferred \<longrightarrow> (\<exists>i < length (mg_polls ob). \<exists>d. is_kind d ROUND_DEFERRED
         \<and> (\<forall>j < i. \<not> poll_interrupted (mg_polls ob ! j)
               \<and> critical_after cfg (Some (previous_sample ob j)) (pl_seen (mg_polls ob ! j)))
         \<and> (if poll_interrupted (mg_polls ob ! i) then tail_events logd' = tail_events logd @ [d]
            else \<not> critical_after cfg (Some (previous_sample ob i)) (pl_seen (mg_polls ob ! i))
              \<and> (\<exists>r. is_kind r ROUND_RESUMED \<and> tail_events logd' = tail_events logd @ [d, r]))))"
proof -
  let ?p = "fst (memory_pressure_now cfg prev (mg_first ob))"
  have pn: "memory_pressure_now cfg prev (mg_first ob) = (?p, Some (mg_first ob))"
    by (simp add: memory_pressure_now_def)
  have crit: "critical_after cfg prev (mg_first ob) \<longleftrightarrow> is_critical ?p"
    by (simp add: critical_after_def memory_pressure_now_def)
  show ?thesis
  proof (cases "is_critical ?p")
    case False
    then have "deferred = False \<and> logd' = logd"
      using run pn by (auto simp: maybe_pause_for_memory_pressure_def is_critical_def split: option.splits if_splits prod.splits)
    then show ?thesis using crit False by simp
  next
    case True
    then obtain p where p: "?p = Some p" "ps_severity p = Critical" by (auto simp: is_critical_def)
    define d where "d = event_payload (mg_start ob) ROUND_DEFERRED (round_deferred_payload num p)"
    define r where "r = event_payload (mg_end ob) ROUND_RESUMED
      [''deferred_for_s'' \<mapsto> PInt (py_trunc (ck_mono (mg_end ob) - ck_mono (mg_start ob)))]"
    have kinds: "is_kind d ROUND_DEFERRED" "is_kind r ROUND_RESUMED"
      unfolding d_def r_def by (subst payload_kind; simp add: round_deferred_payload_def)+
    have pn': "memory_pressure_now cfg prev (mg_first ob) = (Some p, Some (mg_first ob))"
      using pn p(1) by simp
    have run': "(case pause_poll (memory_runnable cfg) (Some (mg_first ob)) (mg_polls ob) of
          None \<Rightarrow> None
        | Some (True, prev2) \<Rightarrow> Some (True, prev2, append_event m r (append_event m d logd))
        | Some (False, prev2) \<Rightarrow> Some (True, prev2, append_event m d logd)) = Some (deferred, prev', logd')"
      using run unfolding maybe_pause_for_memory_pressure_def pn' prod.case option.case Let_def p(2)
        emit_builtin_def cur(1,2) d_def r_def by simp
    let ?pp = "pause_poll (memory_runnable cfg) (Some (mg_first ob)) (mg_polls ob)"
    have "?pp \<noteq> None" using run' by (rule contrapos_pn) (simp only: option.case, simp)
    then obtain opened s2 where pp0: "?pp = Some (opened, s2)" by fastforce
    have "deferred \<and> s2 = prev' \<and> logd' = (if opened then append_event m r (append_event m d logd) else append_event m d logd)"
      using run' unfolding pp0 option.case prod.case by (cases opened) simp_all
    then have pp: "?pp = Some (opened, prev')"
      and res: "deferred" "logd' = (if opened then append_event m r (append_event m d logd) else append_event m d logd)"
      using pp0 by simp_all
    have res2: "tail_events logd' = tail_events logd @ [d] @ (if opened then [r] else [])"
      using cur(3) by (simp add: res(2) log_simps)
    from pp [unfolded pause_poll_exact] obtain i where i: "i < length (mg_polls ob)"
      and before: "\<forall>j < i. \<not> poll_interrupted (mg_polls ob ! j)
         \<and> \<not> fst (memory_runnable cfg (poll_states (memory_runnable cfg) (Some (mg_first ob)) (mg_polls ob) ! j) (pl_seen (mg_polls ob ! j)))"
      and at: "if opened then \<not> poll_interrupted (mg_polls ob ! i)
             \<and> memory_runnable cfg (poll_states (memory_runnable cfg) (Some (mg_first ob)) (mg_polls ob) ! i) (pl_seen (mg_polls ob ! i)) = (True, prev')
          else poll_interrupted (mg_polls ob ! i)
             \<and> prev' = poll_states (memory_runnable cfg) (Some (mg_first ob)) (mg_polls ob) ! i" by blast
    have st: "poll_states (memory_runnable cfg) (Some (mg_first ob)) (mg_polls ob) ! j = Some (previous_sample ob j)" if "j \<le> i" for j
      using memory_poll_states [of j "mg_polls ob" cfg "mg_first ob"] that i by (simp add: previous_sample_def)
    have b: "\<forall>j < i. \<not> poll_interrupted (mg_polls ob ! j)
       \<and> critical_after cfg (Some (previous_sample ob j)) (pl_seen (mg_polls ob ! j))"
      using before st by (simp add: memory_runnable_critical)
    have a: "if poll_interrupted (mg_polls ob ! i) then tail_events logd' = tail_events logd @ [d]
       else \<not> critical_after cfg (Some (previous_sample ob i)) (pl_seen (mg_polls ob ! i))
         \<and> (\<exists>r. is_kind r ROUND_RESUMED \<and> tail_events logd' = tail_events logd @ [d, r])"
    proof (cases opened)
      case True
      then have "memory_runnable cfg (Some (previous_sample ob i)) (pl_seen (mg_polls ob ! i)) = (True, prev')"
        "\<not> poll_interrupted (mg_polls ob ! i)" using at st [of i] by auto
      then have "\<not> critical_after cfg (Some (previous_sample ob i)) (pl_seen (mg_polls ob ! i))"
        using memory_runnable_critical [of cfg "Some (previous_sample ob i)" "pl_seen (mg_polls ob ! i)"] by simp
      then show ?thesis using \<open>\<not> poll_interrupted (mg_polls ob ! i)\<close> kinds(2) res2 True by auto
    next
      case False
      then show ?thesis using at res2 by simp
    qed
    show ?thesis using crit True res(1) kinds(1) i a b by blast
  qed
qed



subsection \<open>The verdicts\<close>

lemma emit_builtin_tail:
  assumes "current_newest (ck_month ck) l" "''event'' \<notin> dom p"
  shows "\<exists>e. tail_events (emit_builtin ck k p l) = tail_events l @ [e] \<and> is_kind e k
     \<and> current_newest (ck_month ck) (emit_builtin ck k p l)"
  using assms payload_kind [OF assms(2), of ck k k] by (auto simp: emit_builtin_def log_simps)

lemma opt_float_dom: "dom (opt_float_field num k v) \<subseteq> {k}"
  by (auto simp: opt_float_field_def split: option.splits)

lemma round_cgroup_payload_dom: "''event'' \<notin> dom (round_cgroup_payload num rn st ev smp)"
  using opt_float_dom [of num "''io_psi_some_avg10''" "smp ''io_psi_some_avg10''"]
    opt_float_dom [of num "''io_psi_full_avg10''" "smp ''io_psi_full_avg10''"]
    opt_float_dom [of num "''psi_full_total''" "smp ''psi_full_total''"]
  by (auto simp: round_cgroup_payload_def Let_def)

definition observation_kind :: "event \<Rightarrow> bool" where
  "observation_kind e \<longleftrightarrow> is_kind e ''round_cgroup_memory'' \<or> is_kind e ''round_oom_killed''"

lemma emit_round_cgroup_tail:
  assumes "emit_round_cgroup_memory num ck rn st cur smp l = ((c, b), l')" "current_newest (ck_month ck) l"
  shows "\<exists>es. tail_events l' = tail_events l @ es \<and> (\<forall>e \<in> set es. observation_kind e) \<and> current_newest (ck_month ck) l'"
proof (cases "l' = l")
  case True
  then show ?thesis using assms(2) by (intro exI [of _ "[]"]) simp
next
  case False
  obtain s u where su: "st = Some s" "cur = Some u" using False assms(1)
    by (cases st; cases cur) (auto simp: emit_round_cgroup_memory_def)
  have "l' = emit_builtin ck ''round_cgroup_memory'' (round_cgroup_payload num rn s (cu_memory_events u) smp) l"
    using assms(1) False by (auto simp: emit_round_cgroup_memory_def su split: if_splits)
  then show ?thesis using emit_builtin_tail [OF assms(2) round_cgroup_payload_dom]
    by (fastforce simp: observation_kind_def)
qed

lemma maybe_emit_oom_tail:
  assumes "current_newest (ck_month ck) l"
  shows "\<exists>es. tail_events (maybe_emit_oom_killed ck ob rn cur rc b l) = tail_events l @ es
    \<and> (\<forall>e \<in> set es. observation_kind e) \<and> current_newest (ck_month ck) (maybe_emit_oom_killed ck ob rn cur rc b l)"
proof (cases "maybe_emit_oom_killed ck ob rn cur rc b l = l")
  case True
  then show ?thesis using assms by (intro exI [of _ "[]"]) simp
next
  case False
  then obtain p where "maybe_emit_oom_killed ck ob rn cur rc b l = emit_builtin ck ''round_oom_killed'' p l" "''event'' \<notin> dom p"
    by (auto simp: maybe_emit_oom_killed_def Let_def split: option.splits if_splits)
  then show ?thesis using emit_builtin_tail [OF assms, of p "''round_oom_killed''"]
    by (fastforce simp: observation_kind_def)
qed

lemma res_map_append:
  "res_map f (xs @ ys) = res_bind (res_map f xs) (\<lambda>a. res_bind (res_map f ys) (\<lambda>b. Inr (a @ b)))"
proof (induction xs)
  case Nil
  show ?case by (cases "res_map f ys") auto
next
  case (Cons x xs)
  then show ?case by (cases "f x"; cases "res_map f xs"; cases "res_map f ys") auto
qed

lemma mem_loop_window_extend:
  assumes "tail_events l' = tail_events l @ es" "\<forall>e \<in> set es. observation_kind e"
  shows "mem_loop_events_in_window ts l' now w = mem_loop_events_in_window ts l now w"
proof -
  have "\<not> is_kind e MEM_LOOP" if "observation_kind e" for e
    using that by (auto simp: observation_kind_def is_kind_def)
  then have e: "res_map (mem_loop_event_counts ts c) es = Inr (map (\<lambda>_. False) es)" for c
    using assms(2) by (induction es) (auto simp: mem_loop_event_counts_def)
  have "filter id (map (\<lambda>_. False) es) = []" by (induction es) auto
  then show ?thesis
    by (cases "res_map (mem_loop_event_counts ts (now - real_of_int w)) (tail_events l)")
      (simp_all add: mem_loop_events_in_window_def assms(1) res_map_append e)
qed

definition given :: "event list \<Rightarrow> string \<Rightarrow> bool" where
  "given es kind \<longleftrightarrow> (\<exists>g. es = [g] \<and> is_kind g kind)"

lemma emit_given:
  assumes "current_newest (ck_month ck) l2" "tail_events l2 = tail_events l @ obs" "''event'' \<notin> dom p"
  shows "\<exists>give. tail_events (emit_builtin ck k p l2) = tail_events l @ obs @ give \<and> given give k"
  using emit_builtin_tail [OF assms(1,3), of k] assms(2) by (auto simp: given_def)

lemma giveup_payload_dom: "''event'' \<notin> dom (giveup_payload n rc reason)"
  by (simp add: giveup_payload_def)

lemma emit_giveup_given:
  assumes "current_newest (ck_month ck) l2" "tail_events l2 = tail_events l @ obs"
  shows "\<exists>give. tail_events (emit_giveup ck k n rc reason l2) = tail_events l @ obs @ give \<and> given give k"
  unfolding emit_giveup_def by (rule emit_given [OF assms giveup_payload_dom])

lemma breakers_table:
  assumes "breakers d l rc dur thr ro (c, mm, np) = Inr (act, delay, mt, nt, streaks)"
  shows "(act = ConfigBroken \<longleftrightarrow> rc = permanent_config_exit)
    \<and> (mt \<longleftrightarrow> ro_mem_terminated ro \<and> mem_loop_threshold \<le> mm + 1)
    \<and> (rc \<noteq> permanent_config_exit \<longrightarrow> (act = CrashLoop \<longleftrightarrow> unknown_short_crash rc dur thr \<and> crash_loop_threshold \<le> c + 1))
    \<and> (nt \<longleftrightarrow> round_had_no_progress l rc dur no_progress_short_s thr (Some ro) = Inr True \<and> crash_loop_threshold \<le> np + 1)"
  using assms
  by (auto simp: breakers_def res_bind_Inr_iff mem_loop_decision_def no_progress_decision_def
      consecutive_streak_decision_def post_round_decision_def Let_def split: prod.splits if_splits)

text \<open>C11: the verdict of a round: the exit code and the give-up event are those of the first of config
  broken (78), memory loop (71, or 70 and \<open>mem_loop_persistent\<close> when two more lie in the last two
  hours), crash loop (75), no progress (75) that holds; with none of them the supervisor goes on and
  writes no give-up. Exactly one give-up is written, after the round's own cgroup observations, and
  those observations never change the count of memory loops it is judged by.\<close>

theorem verdict_precedence:
  assumes run: "post_round_verdicts num local_ts cfg env rn rc dur thr ro (c, mm, np) logd = Inr ((exit, delay, streaks), logd')"
    and cur: "current_newest (ck_month (ve_clock env)) logd"
  shows "\<exists>obs give. tail_events logd' = tail_events logd @ obs @ give \<and> (\<forall>e \<in> set obs. observation_kind e)
    \<and> (if rc = 78 then exit = Some 78 \<and> given give ''config_broken''
       else if ro_mem_terminated ro \<and> 5 \<le> mm + 1 then
         (\<exists>k. mem_loop_events_in_window local_ts logd (ck_epoch (ve_clock env)) 7200 = Inr k
            \<and> (if 2 \<le> k then exit = Some 70 \<and> given give ''mem_loop_persistent''
               else exit = Some 71 \<and> given give MEM_LOOP))
       else if unknown_short_crash rc dur thr \<and> 5 \<le> c + 1 then exit = Some 75 \<and> given give CRASH_LOOP
       else if round_had_no_progress logd rc dur 30 thr (Some ro) = Inr True \<and> 5 \<le> np + 1
       then exit = Some 75 \<and> given give STALLED_NO_PROGRESS
       else exit = None \<and> give = [])"
proof -
  let ?ck = "ve_clock env"
  obtain act delay0 mt nt cs ms ns where br: "breakers (rt_restart_delay_s (cf_runtime cfg)) logd rc dur thr ro (c, mm, np)
      = Inr (act, delay0, mt, nt, (cs, ms, ns))"
    using run by (auto simp: post_round_verdicts_def res_bind_Inr_iff)
  note tab = breakers_table [OF br, unfolded permanent_config_exit_def mem_loop_threshold_def crash_loop_threshold_def no_progress_short_s_def]
  obtain cu b l1 where cg: "emit_round_cgroup_memory num ?ck rn (ve_stash env) (ve_usage env) (ve_sample env) logd = ((cu, b), l1)"
    by (metis prod.collapse)
  define l2 where "l2 = maybe_emit_oom_killed ?ck (ve_oom env) rn cu rc b l1"
  obtain e1 where e1: "tail_events l1 = tail_events logd @ e1" "\<forall>e \<in> set e1. observation_kind e" "current_newest (ck_month ?ck) l1"
    using emit_round_cgroup_tail [OF cg cur] by blast
  obtain e2 where e2: "tail_events l2 = tail_events l1 @ e2" "\<forall>e \<in> set e2. observation_kind e" "current_newest (ck_month ?ck) l2"
    using maybe_emit_oom_tail [OF e1(3)] unfolding l2_def by blast
  define obs where "obs = e1 @ e2"
  have l2: "tail_events l2 = tail_events logd @ obs" and ok: "\<forall>e \<in> set obs. observation_kind e"
    using e1 e2 by (auto simp: obs_def)
  note win = mem_loop_window_extend [OF l2 ok, of local_ts "ck_epoch ?ck" 7200]
  note r = run [unfolded post_round_verdicts_def br res_bind.simps prod.case cg Let_def, folded l2_def]
  show ?thesis
  proof (cases "rc = 78")
    case True
    then have "act = ConfigBroken" using tab by simp
    then have "exit = Some 78" "logd' = emit_builtin ?ck ''config_broken'' [''reason'' \<mapsto> PStr (config_broken_reason rc)] l2"
      using r by (auto simp: permanent_config_exit_def)
    moreover obtain give where "tail_events (emit_builtin ?ck ''config_broken'' [''reason'' \<mapsto> PStr (config_broken_reason rc)] l2) = tail_events logd @ obs @ give"
      "given give ''config_broken''" using emit_given [OF e2(3) l2, of "[''reason'' \<mapsto> PStr (config_broken_reason rc)]"] by auto
    ultimately show ?thesis using ok True by - (rule exI [of _ obs], rule exI [of _ give], simp)
  next
    case nc: False
    then have a1: "act \<noteq> ConfigBroken" using tab by simp
    show ?thesis
    proof (cases mt)
      case True
      then have mm: "ro_mem_terminated ro \<and> 5 \<le> mm + 1" using tab by simp
      obtain k where k: "mem_loop_events_in_window local_ts logd (ck_epoch ?ck) 7200 = Inr k"
        using r a1 True win by (auto simp: mem_loop_persist_window_s_def res_bind_Inr_iff)
      have "if 2 \<le> k then exit = Some 70 \<and> logd' = emit_giveup ?ck ''mem_loop_persistent'' (k + 1) rc (ve_reason env) l2
          else exit = Some 71 \<and> logd' = emit_giveup ?ck MEM_LOOP ms rc (ve_reason env) l2"
        using r a1 True win k
        by (auto simp: mem_loop_persist_window_s_def mem_loop_persist_threshold_def exit_codes split: if_splits)
      then obtain give where "tail_events logd' = tail_events logd @ obs @ give"
        "if 2 \<le> k then exit = Some 70 \<and> given give ''mem_loop_persistent'' else exit = Some 71 \<and> given give MEM_LOOP"
        using emit_giveup_given [OF e2(3) l2] by (cases "2 \<le> k") (simp_all, metis+)
      then show ?thesis using ok nc mm k by - (rule exI [of _ obs], rule exI [of _ give], simp)
    next
      case nm: False
      then have mm: "\<not> (ro_mem_terminated ro \<and> 5 \<le> mm + 1)" using tab by simp
      show ?thesis
      proof (cases "act = CrashLoop")
        case True
        then have "exit = Some 75" "logd' = emit_giveup ?ck CRASH_LOOP cs rc (ve_reason env) l2"
          using r nm by (auto simp: exit_codes)
        moreover obtain give where "tail_events (emit_giveup ?ck CRASH_LOOP cs rc (ve_reason env) l2) = tail_events logd @ obs @ give"
          "given give CRASH_LOOP" using emit_giveup_given [OF e2(3) l2] by blast
        moreover have "unknown_short_crash rc dur thr \<and> 5 \<le> c + 1" using tab True nc by simp
        ultimately show ?thesis using ok nc mm by - (rule exI [of _ obs], rule exI [of _ give], simp)
      next
        case na: False
        then have nu: "\<not> (unknown_short_crash rc dur thr \<and> 5 \<le> c + 1)" using tab nc by simp
        show ?thesis
        proof (cases nt)
          case True
          then have "exit = Some 75" "logd' = emit_giveup ?ck STALLED_NO_PROGRESS ns rc (ve_reason env) l2"
            using r nm na a1 by (auto simp: exit_codes)
          moreover obtain give where "tail_events (emit_giveup ?ck STALLED_NO_PROGRESS ns rc (ve_reason env) l2) = tail_events logd @ obs @ give"
            "given give STALLED_NO_PROGRESS" using emit_giveup_given [OF e2(3) l2] by blast
          moreover have "round_had_no_progress logd rc dur 30 thr (Some ro) = Inr True \<and> 5 \<le> np + 1" using tab True by simp
          ultimately show ?thesis using ok nc mm nu by - (rule exI [of _ obs], rule exI [of _ give], auto)
        next
          case False
          then have "exit = None" "logd' = l2" using r nm na a1 by auto
          then show ?thesis using l2 ok nc mm nu tab False by - (rule exI [of _ obs], rule exI [of _ "[]"], auto)
        qed
      qed
    qed
  qed
qed



subsection \<open>Instances\<close>

definition example_psi :: "real \<Rightarrow> sample" where
  "example_psi full = [''psi_some_avg10'' \<mapsto> full, ''psi_full_avg10'' \<mapsto> full]"

definition example_gate :: mem_gate_obs where
  "example_gate =
     \<lparr>mg_first = example_psi 90,
      mg_polls = [\<lparr>pl_stop = False, pl_stop_file = False, pl_seen = example_psi 80\<rparr>,
                  \<lparr>pl_stop = False, pl_stop_file = False, pl_seen = example_psi 0\<rparr>],
      mg_start = example_clock 1200, mg_end = example_clock 1202\<rparr>"

lemma example_critical: "critical_after default_host_health prev (example_psi x) \<longleftrightarrow>
    hp_full_avg10_critical (hh_pressure default_host_health) \<le> x"
  by (auto simp: critical_after_def is_critical_def example_psi_def memory_pressure_def psi_pressure_def Let_def
      default_host_health_def)

theorem memory_gate_exact_witness:
  "\<exists>logd' d r. maybe_pause_for_memory_pressure (\<lambda>_. ''n'') default_host_health None example_gate example_log
      = Some (True, Some (example_psi 0), logd')
     \<and> is_kind d ROUND_DEFERRED \<and> is_kind r ROUND_RESUMED \<and> tail_events logd' = tail_events example_log @ [d, r]"
proof -
  have "\<exists>logd'. maybe_pause_for_memory_pressure (\<lambda>_. ''n'') default_host_health None example_gate example_log
      = Some (True, Some (example_psi 0), logd')"
    by (simp add: maybe_pause_for_memory_pressure_def memory_pressure_now_def example_gate_def
        example_psi_def memory_pressure_def psi_pressure_def Let_def default_host_health_def
        memory_runnable_def pressure_is_critical_def)
  then obtain logd' where run: "maybe_pause_for_memory_pressure (\<lambda>_. ''n'') default_host_health None example_gate example_log
      = Some (True, Some (example_psi 0), logd')" by blast
  have m: "ck_month (mg_start example_gate) = ''1970-01''" "ck_month (mg_end example_gate) = ''1970-01''"
    by (simp_all add: example_gate_def example_clock_def)
  have polls: "\<not> poll_interrupted (mg_polls example_gate ! i)" if "i < length (mg_polls example_gate)" for i
    using that by (auto simp: example_gate_def poll_interrupted_def less_Suc_eq nth_Cons')
  from memory_gate_exact [OF run m example_current] polls run show ?thesis by auto
qed

definition example_verdicts :: verdict_env where
  "example_verdicts =
     \<lparr>ve_clock = example_clock 1200, ve_stash = None, ve_usage = None, ve_sample = Map.empty,
      ve_oom = \<lparr>oo_log_path = ''round.log'', oo_log_bytes = 0, oo_marked = False\<rparr>, ve_reason = ''boom''\<rparr>"

theorem verdict_precedence_witness:
  "\<exists>logd' ro obs g. round_outcome example_log None = Inr ro
     \<and> post_round_verdicts (\<lambda>_. ''n'') (\<lambda>_. 0) (example_config None PolicyWait) example_verdicts 7 1 2 False ro (4, 0, 0) example_log
        = Inr ((Some 75, 0, (5, 0, 0)), logd')
     \<and> tail_events logd' = tail_events example_log @ obs @ [g] \<and> is_kind g CRASH_LOOP"
proof -
  have b: "oa_before (fold outcome_step (tail_events example_log) outcome_init) = None"
    by (simp add: example_tail outcome_step_unfold example_kinds outcome_init_def)
      (simp add: is_kind_def ev_get_def ev_get_or_def example_detected_def)
  then obtain ro where ro: "round_outcome example_log None = Inr ro" and mt: "\<not> ro_mem_terminated ro"
    by (simp add: round_outcome_def Let_def mem_terminated_of_def)
  have short: "unknown_short_crash 1 2 False"
    by (simp add: unknown_short_crash_def exit_codes crash_loop_short_exit_s_def)
  have dec: "post_round_decision 1 2 False 4 d = (CrashLoop, 0, 5)" for d
    by (simp add: post_round_decision_def short crash_loop_threshold_def exit_codes)
  have np: "round_had_no_progress example_log 1 2 no_progress_short_s False (Some ro) = Inr False"
    by (simp add: round_had_no_progress_def)
  have "\<exists>logd'. post_round_verdicts (\<lambda>_. ''n'') (\<lambda>_. 0) (example_config None PolicyWait) example_verdicts 7 1 2 False ro (4, 0, 0) example_log
        = Inr ((Some 75, 0, (5, 0, 0)), logd')"
    by (simp add: post_round_verdicts_def breakers_def dec np mem_loop_decision_def no_progress_decision_def
        consecutive_streak_decision_def mt emit_round_cgroup_memory_def example_verdicts_def exit_codes)
  then obtain logd' where run: "post_round_verdicts (\<lambda>_. ''n'') (\<lambda>_. 0) (example_config None PolicyWait) example_verdicts 7 1 2 False ro (4, 0, 0) example_log
        = Inr ((Some 75, 0, (5, 0, 0)), logd')" by blast
  have m: "current_newest (ck_month (ve_clock example_verdicts)) example_log"
    using example_current by (simp add: example_verdicts_def example_clock_def)
  from verdict_precedence [OF run m] mt short
  have "\<exists>obs give. tail_events logd' = tail_events example_log @ obs @ give \<and> given give CRASH_LOOP" by auto
  then show ?thesis using ro run by (auto simp: given_def)
qed

end
