(* ===== verification/Plugin_Manifest.thy ===== *)
theory Plugin_Manifest
  imports Config Serve_Policy
begin

section \<open>Plugin manifests (\_plugin\_manifest.py, \_registry.py, the registry of hooks.py, the loader of \_\_init\_\_.py)\<close>

text \<open>
  The capability registry the supervisor resolves its per-phase stop signal, grace and resume
  flag from, its name rule, registration and removal, and the plugin loader. A hook is its name
  and its identity; importing a plugin module is the parameter \<open>resolve\<close>. The two module-level
  lists are the record \<open>registries\<close>; an operation that raises still returns the registries it
  leaves behind.
\<close>

subsection \<open>Manifests\<close>

datatype posix_signal = SIGTERM | SIGINT

definition cooperative_signals :: "string \<rightharpoonup> posix_signal" where
  "cooperative_signals = [''SIGTERM'' \<mapsto> SIGTERM, ''SIGINT'' \<mapsto> SIGINT]"

definition signal_name :: "posix_signal \<Rightarrow> string" where
  "signal_name s = (case s of SIGTERM \<Rightarrow> ''SIGTERM'' | SIGINT \<Rightarrow> ''SIGINT'')"

record hook =
  hk_name :: string
  hk_id :: nat

record manifest =
  pm_name :: string
  pm_post_round_hooks :: "hook list"
  pm_cooperative_stop :: "string option"
  pm_resume_flag :: "string option"

text \<open>\<open>PluginManifest(...)\<close> with its \<open>__post_init__\<close>.\<close>

definition manifest_of :: "string \<Rightarrow> hook list \<Rightarrow> string option \<Rightarrow> string option \<Rightarrow> manifest res" where
  "manifest_of name hs stop flag =
     (if stop \<noteq> None \<and> cooperative_signals (the stop) = None
      then Inl (ValueError ''cooperative_stop must be one of {None, 'SIGTERM', 'SIGINT'}'')
      else if flag \<noteq> None \<and> the flag = []
      then Inl (ValueError ''resume_flag must be None or a non-empty flag string'')
      else Inr \<lparr>pm_name = name, pm_post_round_hooks = hs, pm_cooperative_stop = stop, pm_resume_flag = flag\<rparr>)"

record registries =
  rg_hooks :: "hook list"
  rg_manifests :: "manifest list"

definition loaded_manifest_names :: "registries \<Rightarrow> string list" where
  "loaded_manifest_names rg = map pm_name (rg_manifests rg)"

subsection \<open>Resolvers\<close>

text \<open>The scan \<open>for m in _LOADED_MANIFESTS: if m.name == agent_binary\<close> of the resolvers.\<close>

definition find_manifest :: "registries \<Rightarrow> string option \<Rightarrow> manifest option" where
  "find_manifest rg binary = find (\<lambda>m. Some (pm_name m) = binary) (rg_manifests rg)"

definition cooperative_stop_for_name :: "registries \<Rightarrow> string option \<Rightarrow> string option" where
  "cooperative_stop_for_name rg binary =
     (case find_manifest rg binary of None \<Rightarrow> None | Some m \<Rightarrow> pm_cooperative_stop m)"

definition cooperative_stop_by_name :: "registries \<Rightarrow> (string \<times> string) list" where
  "cooperative_stop_by_name rg =
     map (\<lambda>m. (pm_name m, the (pm_cooperative_stop m)))
       (filter (\<lambda>m. pm_cooperative_stop m \<noteq> None) (rg_manifests rg))"

definition cooperative_signal_from_name :: "string option \<Rightarrow> posix_signal option" where
  "cooperative_signal_from_name name =
     (case name of None \<Rightarrow> None | Some n \<Rightarrow> cooperative_signals n)"

definition resolve_cooperative_signal :: "registries \<Rightarrow> string option \<Rightarrow> posix_signal option" where
  "resolve_cooperative_signal rg binary =
     (case cooperative_stop_for_name rg binary of None \<Rightarrow> None | Some n \<Rightarrow> cooperative_signals n)"

definition is_cooperative_agent :: "registries \<Rightarrow> string option \<Rightarrow> bool" where
  "is_cooperative_agent rg binary \<longleftrightarrow> resolve_cooperative_signal rg binary \<noteq> None"

definition resolve_resume_flag :: "registries \<Rightarrow> string option \<Rightarrow> string option" where
  "resolve_resume_flag rg binary =
     (case find_manifest rg binary of None \<Rightarrow> None | Some m \<Rightarrow> pm_resume_flag m)"

definition resolve_sigterm_grace_s :: "registries \<Rightarrow> string option \<Rightarrow> int \<Rightarrow> int" where
  "resolve_sigterm_grace_s rg binary sigterm_grace_s =
     (if is_cooperative_agent rg binary then sigterm_grace_s else reap_grace_s)"

subsection \<open>Registration and removal\<close>

definition ensure_unique :: "string \<Rightarrow> string list \<Rightarrow> string \<Rightarrow> unit res" where
  "ensure_unique name existing kind =
     (if name \<in> set existing then Inl (ValueError (kind @ '' '' @ name @ '' already registered; refusing to add a second''))
      else Inr ())"

definition register_post_round_hook :: "hook \<Rightarrow> hook list \<Rightarrow> hook list res" where
  "register_post_round_hook h hs =
     res_bind (ensure_unique (hk_name h) (map hk_name hs) ''post_round_hook'') (\<lambda>_. Inr (hs @ [h]))"

text \<open>The loop over the declared hooks: the error, if any, and the hooks registered so far.\<close>

fun register_hooks :: "hook list \<Rightarrow> hook list \<Rightarrow> py_error option \<times> hook list" where
  "register_hooks [] hs = (None, hs)"
| "register_hooks (h # todo) hs =
     (case register_post_round_hook h hs of
        Inl e \<Rightarrow> (Some e, hs)
      | Inr hs' \<Rightarrow> register_hooks todo hs')"

definition register_manifest :: "manifest \<Rightarrow> registries \<Rightarrow> py_error option \<times> registries" where
  "register_manifest m rg =
     (case ensure_unique (pm_name m) (map pm_name (rg_manifests rg)) ''plugin manifest'' of
        Inl e \<Rightarrow> (Some e, rg)
      | Inr _ \<Rightarrow>
          (case register_hooks (pm_post_round_hooks m) (rg_hooks rg) of
             (Some e, hs) \<Rightarrow> (Some e, rg\<lparr>rg_hooks := hs\<rparr>)
           | (None, hs) \<Rightarrow> (None, rg\<lparr>rg_hooks := hs, rg_manifests := rg_manifests rg @ [m]\<rparr>)))"

definition remove_by_identity :: "hook list \<Rightarrow> hook list \<Rightarrow> hook list" where
  "remove_by_identity registry items = filter (\<lambda>x. x \<notin> set items) registry"

fun unregister_loop :: "string set \<Rightarrow> manifest list \<Rightarrow> string set \<times> hook list \<Rightarrow> string set \<times> hook list" where
  "unregister_loop names [] acc = acc"
| "unregister_loop names (m # ms) (found, hs) =
     (if pm_name m \<notin> names then unregister_loop names ms (found, hs)
      else unregister_loop names ms
             (insert (pm_name m) found, remove_by_identity hs (pm_post_round_hooks m)))"

definition unregister_by_name :: "string set \<Rightarrow> registries \<Rightarrow> string set \<times> registries" where
  "unregister_by_name names rg =
     (case unregister_loop names (rg_manifests rg) ({}, rg_hooks rg) of
        (found, hs) \<Rightarrow> (found, rg\<lparr>rg_hooks := hs\<rparr>))"

subsection \<open>The loader\<close>

text \<open>\<open>value.partition("[")[0].rstrip()\<close> and the split at the colon.\<close>

definition py_rstrip :: "string \<Rightarrow> string" where
  "py_rstrip s = rev (dropWhile is_space (rev s))"

definition entry_target :: "string \<Rightarrow> string \<times> string" where
  "entry_target v = py_partition (CHR '':'') (py_rstrip (fst (py_partition (CHR ''['') v)))"

text \<open>One entry: nothing for a disabled or known name; otherwise import and register, a failure
  becoming a warning that names the plugin.\<close>

definition load_entry ::
  "(string \<Rightarrow> string \<Rightarrow> manifest res) \<Rightarrow> string set \<Rightarrow> string set \<Rightarrow> string \<times> string
     \<Rightarrow> registries \<times> string list \<Rightarrow> registries \<times> string list" where
  "load_entry resolve disable already entry acc =
     (case (entry, acc) of ((name, v), (rg, warned)) \<Rightarrow>
        if name \<in> disable \<or> name \<in> already then (rg, warned)
        else (case entry_target v of (module_path, attr_path) \<Rightarrow>
          case resolve module_path attr_path of
            Inl e \<Rightarrow> (rg, warned @ [name])
          | Inr m \<Rightarrow>
              (case register_manifest m rg of
                 (Some e, rg') \<Rightarrow> (rg', warned @ [name])
               | (None, rg') \<Rightarrow> (rg', warned))))"

definition load_and_register_plugins ::
  "(string \<Rightarrow> string \<Rightarrow> manifest res) \<Rightarrow> (string \<times> string) list \<Rightarrow> string list
     \<Rightarrow> registries \<Rightarrow> registries \<times> string list" where
  "load_and_register_plugins resolve entries disable rg =
     (let already = set (loaded_manifest_names rg) in
      fold (load_entry resolve (set disable) already) entries (rg, []))"

text \<open>\<open>apply_plugin_disable\<close>: the registries, the recorded list of disabled names and the unknown
  names it warns of.\<close>

definition apply_plugin_disable ::
  "string list \<Rightarrow> registries \<Rightarrow> string list \<Rightarrow> registries \<times> string list \<times> string set" where
  "apply_plugin_disable names rg disabled =
     (if names = [] then (rg, disabled, {})
      else (case unregister_by_name (set names) rg of
              (found, rg') \<Rightarrow> (rg', names, set names - found)))"

subsection \<open>The registry contract\<close>

text \<open>
  A registry keyed by name: adding a fresh name appends, adding a taken name raises. Every family
  of hooks and the manifest list itself rest on this contract.
\<close>

locale named_registry =
  fixes nm :: "'a \<Rightarrow> string" and add :: "'a \<Rightarrow> 'a list \<Rightarrow> 'a list res"
  assumes add_fresh: "nm x \<notin> nm ` set xs \<Longrightarrow> add x xs = Inr (xs @ [x])"
    and add_taken: "nm x \<in> nm ` set xs \<Longrightarrow> \<exists>e. add x xs = Inl e"
begin

lemma add_Inr_iff: "add x xs = Inr ys \<longleftrightarrow> nm x \<notin> nm ` set xs \<and> ys = xs @ [x]"
  using add_fresh [of x xs] add_taken [of x xs] by (cases "nm x \<in> nm ` set xs") auto

lemma add_distinct: "add x xs = Inr ys \<Longrightarrow> distinct (map nm xs) \<Longrightarrow> distinct (map nm ys)"
  by (auto simp: add_Inr_iff)

lemma add_again: "add x xs = Inr ys \<Longrightarrow> \<exists>e. add x ys = Inl e"
  by (rule add_taken) (auto simp: add_Inr_iff)

lemma add_lookup_new: "add x xs = Inr ys \<Longrightarrow> find (\<lambda>z. nm z = nm x) ys = Some x"
proof -
  assume "add x xs = Inr ys"
  then have "nm x \<notin> nm ` set xs" "ys = xs @ [x]" by (simp_all add: add_Inr_iff)
  moreover have "find (\<lambda>z. nm z = n) (xs @ [x]) = (if nm x = n then Some x else None)" if "n \<notin> nm ` set xs" for n
    using that by (induction xs) auto
  ultimately show ?thesis by simp
qed

lemma add_lookup_other:
  assumes "add x xs = Inr ys" "n \<noteq> nm x"
  shows "find (\<lambda>z. nm z = n) ys = find (\<lambda>z. nm z = n) xs"
proof -
  have "find (\<lambda>z. nm z = n) (xs @ [x]) = find (\<lambda>z. nm z = n) xs" using assms(2) by (induction xs) auto
  then show ?thesis using assms(1) by (simp add: add_Inr_iff)
qed

end

lemma ensure_unique_iff: "ensure_unique n ns k = Inr u \<longleftrightarrow> n \<notin> set ns"
  by (simp add: ensure_unique_def)

definition append_manifest :: "manifest \<Rightarrow> manifest list \<Rightarrow> manifest list res" where
  "append_manifest m ms =
     res_bind (ensure_unique (pm_name m) (map pm_name ms) ''plugin manifest'') (\<lambda>_. Inr (ms @ [m]))"

interpretation hook_registry: named_registry hk_name register_post_round_hook
  by unfold_locales (auto simp: register_post_round_hook_def ensure_unique_def)

interpretation manifest_registry: named_registry pm_name append_manifest
  by unfold_locales (auto simp: append_manifest_def ensure_unique_def)

text \<open>A successful registration is the contract's \<open>add\<close> on the manifest list.\<close>

lemma register_manifest_manifests:
  "register_manifest m rg = (r, rg') \<Longrightarrow>
     (case r of None \<Rightarrow> append_manifest m (rg_manifests rg) = Inr (rg_manifests rg')
              | Some e \<Rightarrow> rg_manifests rg' = rg_manifests rg)"
  by (auto simp: register_manifest_def append_manifest_def ensure_unique_def split: if_splits prod.splits option.splits)

lemma register_hooks_distinct:
  "register_hooks todo hs = (r, hs') \<Longrightarrow> distinct (map hk_name hs) \<Longrightarrow> distinct (map hk_name hs')"
proof (induction todo hs rule: register_hooks.induct)
  case (2 h todo hs)
  then show ?case using hook_registry.add_distinct [of h hs]
    by (auto split: sum.splits)
qed simp

lemma register_hooks_grows:
  "register_hooks todo hs = (r, hs') \<Longrightarrow>
    \<exists>new. hs' = hs @ new \<and> set new \<subseteq> set todo \<and> (r = None \<longrightarrow> new = todo)"
proof (induction todo hs rule: register_hooks.induct)
  case (2 h todo hs)
  show ?case
  proof (cases "register_post_round_hook h hs")
    case (Inl e)
    then show ?thesis using 2(2) by auto
  next
    case (Inr hs1)
    then have "hs1 = hs @ [h]" by (simp add: hook_registry.add_Inr_iff)
    then show ?thesis using 2 Inr by fastforce
  qed
qed simp

lemma register_manifest_result:
  assumes "register_manifest m rg = (r, rg')"
  shows "\<exists>new. rg_hooks rg' = rg_hooks rg @ new \<and> set new \<subseteq> set (pm_post_round_hooks m)
    \<and> (r = None \<longrightarrow> new = pm_post_round_hooks m)
    \<and> rg_manifests rg' = rg_manifests rg @ (if r = None then [m] else [])"
proof (cases "pm_name m \<in> pm_name ` set (rg_manifests rg)")
  case True
  then show ?thesis using assms by (auto simp: register_manifest_def ensure_unique_def)
next
  case False
  obtain r2 hs where h: "register_hooks (pm_post_round_hooks m) (rg_hooks rg) = (r2, hs)" by fastforce
  show ?thesis using register_hooks_grows [OF h] assms False h
    by (auto simp: register_manifest_def ensure_unique_def split: option.splits)
qed

definition names_unique :: "registries \<Rightarrow> bool" where
  "names_unique rg \<longleftrightarrow> distinct (map pm_name (rg_manifests rg)) \<and> distinct (map hk_name (rg_hooks rg))"

lemma register_manifest_unique:
  assumes "register_manifest m rg = (r, rg')" "names_unique rg"
  shows "names_unique rg'"
proof -
  obtain r2 hs where h: "register_hooks (pm_post_round_hooks m) (rg_hooks rg) = (r2, hs)" by fastforce
  show ?thesis using assms register_hooks_distinct [OF h] h
    by (auto simp: register_manifest_def ensure_unique_def names_unique_def split: option.splits if_splits)
qed

lemma unregister_loop_result:
  "unregister_loop names ms (found, hs) =
    (found \<union> (names \<inter> pm_name ` set ms),
     filter (\<lambda>h. \<not> (\<exists>m \<in> set ms. pm_name m \<in> names \<and> h \<in> set (pm_post_round_hooks m))) hs)"
proof (induction ms arbitrary: found hs)
  case (Cons m ms)
  then show ?case by (auto simp: remove_by_identity_def intro!: filter_cong)
qed simp

lemma unregister_unique: "names_unique rg \<Longrightarrow> names_unique (snd (unregister_by_name names rg))"
  by (simp add: names_unique_def unregister_by_name_def unregister_loop_result distinct_map_filter)

lemma load_entry_cases:
  "load_entry R D A (n, v) (rg, w) =
     (if n \<in> D \<or> n \<in> A then (rg, w)
      else (case R (fst (entry_target v)) (snd (entry_target v)) of Inl e \<Rightarrow> (rg, w @ [n])
        | Inr m \<Rightarrow> (snd (register_manifest m rg),
             w @ (if fst (register_manifest m rg) = None then [] else [n]))))"
  by (simp add: load_entry_def split: prod.splits sum.splits option.splits)

lemma load_fold_unique:
  "names_unique (fst acc) \<Longrightarrow> names_unique (fst (fold (load_entry R D A) es acc))"
proof (induction es arbitrary: acc)
  case (Cons e es)
  obtain n v where e: "e = (n, v)" by (cases e)
  obtain rg w where a: "acc = (rg, w)" by (cases acc)
  have "names_unique (fst (load_entry R D A e acc))"
    using Cons.prems register_manifest_unique [OF surjective_pairing]
    by (auto simp: e a load_entry_cases split: sum.splits)
  then show ?case using Cons.IH by simp
qed simp



subsection \<open>Lookups over a history of operations\<close>

datatype registry_op =
    Register manifest
  | Disable "string list"
  | Load "string \<Rightarrow> string \<Rightarrow> manifest res" "(string \<times> string) list" "string list"

fun run_op :: "registry_op \<Rightarrow> registries \<Rightarrow> registries" where
  "run_op (Register m) rg = snd (register_manifest m rg)"
| "run_op (Disable names) rg = fst (apply_plugin_disable names rg [])"
| "run_op (Load resolve entries disable) rg = fst (load_and_register_plugins resolve entries disable rg)"

definition no_plugins :: registries where
  "no_plugins = \<lparr>rg_hooks = [], rg_manifests = []\<rparr>"

definition manifests_grow :: "registries \<Rightarrow> registries \<Rightarrow> bool" where
  "manifests_grow rg rg' \<longleftrightarrow> (\<exists>new. rg_manifests rg' = rg_manifests rg @ new)"

lemma manifests_grow_refl [simp]: "manifests_grow rg rg"
  by (simp add: manifests_grow_def)

lemma manifests_grow_trans: "manifests_grow a b \<Longrightarrow> manifests_grow b c \<Longrightarrow> manifests_grow a c"
  by (auto simp: manifests_grow_def)

lemma register_grow: "manifests_grow rg (snd (register_manifest m rg))"
  using register_manifest_result [OF surjective_pairing, of m rg] by (auto simp: manifests_grow_def)

lemma load_entry_grow: "manifests_grow (fst acc) (fst (load_entry R D A e acc))"
  by (cases e; cases acc) (auto simp: load_entry_cases register_grow split: sum.splits)

lemma load_fold_grow: "manifests_grow (fst acc) (fst (fold (load_entry R D A) es acc))"
proof (induction es arbitrary: acc)
  case (Cons e es)
  show ?case using Cons [of "load_entry R D A e acc"] load_entry_grow [of acc R D A e] manifests_grow_trans by auto
qed simp

lemma run_op_step: "names_unique rg \<Longrightarrow> names_unique (run_op p rg)" "manifests_grow rg (run_op p rg)"
proof -
  show "manifests_grow rg (run_op p rg)"
  proof (cases p)
    case (Disable names)
    then show ?thesis
      by (simp add: apply_plugin_disable_def unregister_by_name_def unregister_loop_result manifests_grow_def)
  next
    case (Load R es D)
    then show ?thesis using load_fold_grow [of "(rg, [])"] by (simp add: load_and_register_plugins_def Let_def)
  qed (simp add: register_grow)
  show "names_unique (run_op p rg)" if "names_unique rg"
  proof (cases p)
    case (Register m)
    then show ?thesis using register_manifest_unique [OF surjective_pairing that, of m] by simp
  next
    case (Disable names)
    then show ?thesis using unregister_unique [OF that, of "set names"] that
      by (auto simp: apply_plugin_disable_def split: prod.splits)
  next
    case (Load R es D)
    then show ?thesis using load_fold_unique [of "(rg, [])"] that by (simp add: load_and_register_plugins_def Let_def)
  qed
qed

lemma run_ops: "names_unique rg \<Longrightarrow> names_unique (fold run_op ops rg)" "manifests_grow rg (fold run_op ops rg)"
proof (induction ops arbitrary: rg)
  case (Cons p ops)
  { case 1 then show ?case using Cons.IH(1) run_op_step(1) by simp }
  { case 2 show ?case using Cons.IH(2) [of "run_op p rg"] run_op_step(2) [of rg p] manifests_grow_trans by simp }
qed simp_all

lemma find_grows: "manifests_grow rg rg' \<Longrightarrow> find_manifest rg b = Some m \<Longrightarrow> find_manifest rg' b = Some m"
proof -
  have "find P xs = Some m \<Longrightarrow> find P (xs @ ys) = Some m" for P xs ys by (induction xs) auto
  then show "manifests_grow rg rg' \<Longrightarrow> find_manifest rg b = Some m \<Longrightarrow> find_manifest rg' b = Some m"
    by (auto simp: manifests_grow_def find_manifest_def)
qed

text \<open>Through any history of registrations, disables and loads, no two registered manifests and no
  two hooks share a name, and a binary once resolved keeps resolving to the same manifest: neither
  failed registrations nor \<open>[plugins] disable\<close> ever take its resume flag back.\<close>

theorem registry_history:
  "names_unique (fold run_op ops no_plugins)
   \<and> (\<forall>binary m. find_manifest (fold run_op ops no_plugins) binary = Some m \<longrightarrow>
        find_manifest (fold run_op (ops @ later) no_plugins) binary = Some m
        \<and> resolve_resume_flag (fold run_op (ops @ later) no_plugins) binary = pm_resume_flag m)"
proof (intro conjI allI impI)
  show "names_unique (fold run_op ops no_plugins)"
    by (rule run_ops(1)) (simp add: names_unique_def no_plugins_def)
  fix binary m
  assume "find_manifest (fold run_op ops no_plugins) binary = Some m"
  then show f: "find_manifest (fold run_op (ops @ later) no_plugins) binary = Some m"
    using find_grows [OF run_ops(2) [of "fold run_op ops no_plugins" later]] by simp
  show "resolve_resume_flag (fold run_op (ops @ later) no_plugins) binary = pm_resume_flag m"
    by (simp only: resolve_resume_flag_def f option.case)
qed

lemma find_manifest_Some: "find_manifest rg (Some b) = find (\<lambda>m. pm_name m = b) (rg_manifests rg)"
  by (simp add: find_manifest_def)

lemma find_manifest_None [simp]: "find_manifest rg None = None"
  by (simp add: find_manifest_def find_None_iff2)

lemma find_after_register:
  assumes "register_manifest m rg = (r, rg')"
  shows "find_manifest rg' (Some b) =
    (if r = None \<and> b = pm_name m then Some m else find_manifest rg (Some b))"
proof (cases r)
  case None
  then have a: "append_manifest m (rg_manifests rg) = Inr (rg_manifests rg')"
    using register_manifest_manifests [OF assms] by simp
  show ?thesis
    using None manifest_registry.add_lookup_new [OF a] manifest_registry.add_lookup_other [OF a, of b]
    by (simp add: find_manifest_Some)
next
  case (Some e)
  then show ?thesis using register_manifest_manifests [OF assms] by (simp add: find_manifest_Some)
qed

lemmas resolver_defs = resolve_cooperative_signal_def cooperative_stop_for_name_def resolve_resume_flag_def
  resolve_sigterm_grace_s_def is_cooperative_agent_def

text \<open>Registering a manifest makes its binary resolve to exactly the declared stop signal (one of
  SIGTERM and SIGINT), resume flag and grace (the configured one only for a cooperative agent), and a
  registration, failed or not, never changes what any other binary resolves to.\<close>

theorem registration_resolves:
  assumes "manifest_of name hs stop flag = Inr m" and "register_manifest m rg = (r, rg')"
  shows "(r = None \<longrightarrow> map_option signal_name (resolve_cooperative_signal rg' (Some name)) = stop
        \<and> resolve_resume_flag rg' (Some name) = flag
        \<and> resolve_sigterm_grace_s rg' (Some name) grace = (if stop = None then 5 else grace))
    \<and> (r \<noteq> None \<or> binary \<noteq> Some name \<longrightarrow>
        resolve_cooperative_signal rg' binary = resolve_cooperative_signal rg binary
        \<and> resolve_resume_flag rg' binary = resolve_resume_flag rg binary
        \<and> resolve_sigterm_grace_s rg' binary grace = resolve_sigterm_grace_s rg binary grace)"
proof -
  have m: "pm_name m = name" "pm_cooperative_stop m = stop" "pm_resume_flag m = flag"
    "stop \<noteq> None \<Longrightarrow> cooperative_signals (the stop) \<noteq> None"
    using assms(1) by (auto simp: manifest_of_def split: if_splits)
  have n: "cooperative_signals s = Some g \<Longrightarrow> signal_name g = s" for s g
    by (auto simp: cooperative_signals_def signal_name_def split: if_splits)
  note f = find_after_register [OF assms(2)]
  have "map_option signal_name (resolve_cooperative_signal rg' (Some name)) = stop
      \<and> resolve_resume_flag rg' (Some name) = flag
      \<and> resolve_sigterm_grace_s rg' (Some name) grace = (if stop = None then 5 else grace)" if "r = None"
    using f [of name] that m n by (cases stop) (auto simp: resolver_defs reap_grace_s_def)
  moreover have "resolve_cooperative_signal rg' binary = resolve_cooperative_signal rg binary
      \<and> resolve_resume_flag rg' binary = resolve_resume_flag rg binary
      \<and> resolve_sigterm_grace_s rg' binary grace = resolve_sigterm_grace_s rg binary grace"
    if "r \<noteq> None \<or> binary \<noteq> Some name"
    using f that m(1) by (cases binary) (auto simp: resolver_defs)
  ultimately show ?thesis by blast
qed

subsection \<open>Loading again\<close>

text \<open>What a processed entry leaves: its manifest is registered, or its first hook is taken.\<close>

definition settled :: "(string \<Rightarrow> string \<Rightarrow> manifest res) \<Rightarrow> registries \<Rightarrow> string \<Rightarrow> bool" where
  "settled R rg v \<longleftrightarrow>
     (\<forall>m. R (fst (entry_target v)) (snd (entry_target v)) = Inr m \<longrightarrow>
        pm_name m \<in> pm_name ` set (rg_manifests rg)
        \<or> (pm_post_round_hooks m \<noteq> [] \<and> hk_name (hd (pm_post_round_hooks m)) \<in> hk_name ` set (rg_hooks rg)))"

definition grows :: "registries \<Rightarrow> registries \<Rightarrow> bool" where
  "grows rg rg' \<longleftrightarrow> set (rg_hooks rg) \<subseteq> set (rg_hooks rg') \<and> set (rg_manifests rg) \<subseteq> set (rg_manifests rg')"

lemma settled_grows: "settled R rg v \<Longrightarrow> grows rg rg' \<Longrightarrow> settled R rg' v"
  unfolding settled_def grows_def by blast

lemma register_grows: "grows rg (snd (register_manifest m rg))"
  using register_manifest_result [OF surjective_pairing, of m rg] by (auto simp: grows_def)

lemma register_settles:
  assumes "register_manifest m rg = (r, rg')"
  shows "pm_name m \<in> pm_name ` set (rg_manifests rg')
    \<or> (pm_post_round_hooks m \<noteq> [] \<and> hk_name (hd (pm_post_round_hooks m)) \<in> hk_name ` set (rg_hooks rg'))"
proof (cases "pm_name m \<in> pm_name ` set (rg_manifests rg)")
  case True
  then show ?thesis using register_grows [of rg m] assms by (auto simp: grows_def)
next
  case False
  show ?thesis
  proof (cases "pm_post_round_hooks m")
    case Nil
    then show ?thesis using assms False by (auto simp: register_manifest_def ensure_unique_def)
  next
    case (Cons h todo)
    show ?thesis
    proof (cases "register_post_round_hook h (rg_hooks rg)")
      case (Inl e)
      then have "hk_name h \<in> hk_name ` set (rg_hooks rg)"
        using hook_registry.add_fresh [of h "rg_hooks rg"] by fastforce
      then show ?thesis using Cons register_grows [of rg m] assms by (auto simp: grows_def)
    next
      case (Inr hs)
      then have hs: "hs = rg_hooks rg @ [h]" by (simp add: hook_registry.add_Inr_iff)
      obtain r2 hs2 where 2: "register_hooks todo hs = (r2, hs2)" by fastforce
      then have "h \<in> set hs2" using register_hooks_grows [OF 2] hs by auto
      moreover have "rg_hooks rg' = hs2" using assms False Cons Inr 2
        by (auto simp: register_manifest_def ensure_unique_def split: option.splits)
      ultimately show ?thesis using Cons by auto
    qed
  qed
qed

lemma register_settled:
  assumes "pm_name m \<in> pm_name ` set (rg_manifests rg)
    \<or> (pm_post_round_hooks m \<noteq> [] \<and> hk_name (hd (pm_post_round_hooks m)) \<in> hk_name ` set (rg_hooks rg))"
  shows "snd (register_manifest m rg) = rg"
proof (cases "pm_name m \<in> pm_name ` set (rg_manifests rg)")
  case True
  then show ?thesis by (auto simp: register_manifest_def ensure_unique_def)
next
  case False
  then obtain h todo where h: "pm_post_round_hooks m = h # todo" "hk_name h \<in> hk_name ` set (rg_hooks rg)"
    using assms by (cases "pm_post_round_hooks m") auto
  then obtain e where "register_post_round_hook h (rg_hooks rg) = Inl e"
    using hook_registry.add_taken by blast
  then show ?thesis using False h(1) by (auto simp: register_manifest_def ensure_unique_def)
qed

lemma load_entry_grows: "grows (fst acc) (fst (load_entry R D A e acc))"
  using register_grows by (cases e; cases acc) (auto simp: load_entry_cases grows_def split: sum.splits)

lemma load_fold_grows: "grows (fst acc) (fst (fold (load_entry R D A) es acc))"
proof (induction es arbitrary: acc)
  case (Cons e es)
  show ?case using Cons [of "load_entry R D A e acc"] load_entry_grows [of acc R D A e]
    by (auto simp: grows_def)
qed (simp add: grows_def)

lemma load_fold_settles:
  assumes "(n, v) \<in> set es" "n \<notin> D" "n \<notin> A"
  shows "settled R (fst (fold (load_entry R D A) es acc)) v"
  using assms(1)
proof (induction es arbitrary: acc)
  case (Cons e es)
  show ?case
  proof (cases "e = (n, v)")
    case True
    obtain rg w where acc: "acc = (rg, w)" by (cases acc)
    have "settled R (fst (load_entry R D A e acc)) v"
      using assms(2,3) register_settles [OF surjective_pairing]
      by (auto simp: True acc load_entry_cases settled_def split: sum.splits)
    then show ?thesis using settled_grows load_fold_grows by fastforce
  next
    case False
    then show ?thesis using Cons by simp
  qed
qed simp

lemma load_fold_stable:
  assumes "\<forall>(n, v) \<in> set es. n \<in> D \<or> n \<in> A \<or> settled R rg v"
  shows "fst (fold (load_entry R D A) es (rg, w)) = rg"
  using assms
proof (induction es arbitrary: w)
  case (Cons e es)
  obtain n v where e: "e = (n, v)" by (cases e)
  have "n \<in> D \<or> n \<in> A \<or> settled R rg v" using Cons.prems e by auto
  then have "fst (load_entry R D A e (rg, w)) = rg"
    using register_settled by (auto simp: e load_entry_cases settled_def split: sum.splits)
  then obtain w' where "load_entry R D A e (rg, w) = (rg, w')" by (metis prod.collapse)
  then show ?case using Cons by simp
qed simp

lemma load_fold_reports:
  assumes "(n, v) \<in> set es" "n \<notin> D" "n \<notin> A"
  shows "n \<in> set (snd (fold (load_entry R D A) es acc))
    \<or> (\<exists>m. R (fst (entry_target v)) (snd (entry_target v)) = Inr m
         \<and> m \<in> set (rg_manifests (fst (fold (load_entry R D A) es acc))))"
  using assms(1)
proof (induction es arbitrary: acc)
  case (Cons e es)
  have keep: "set (snd acc) \<subseteq> set (snd (fold (load_entry R D A) es acc))" for acc
  proof (induction es arbitrary: acc)
    case (Cons e es)
    have "set (snd acc) \<subseteq> set (snd (load_entry R D A e acc))"
      by (cases e; cases acc) (auto simp: load_entry_cases split: sum.splits)
    then show ?case using Cons by fastforce
  qed simp
  show ?case
  proof (cases "e = (n, v)")
    case True
    obtain rg w where acc: "acc = (rg, w)" by (cases acc)
    let ?a = "load_entry R D A e acc"
    have "n \<in> set (snd ?a) \<or> (\<exists>m. R (fst (entry_target v)) (snd (entry_target v)) = Inr m \<and> m \<in> set (rg_manifests (fst ?a)))"
    proof (cases "R (fst (entry_target v)) (snd (entry_target v))")
      case (Inr m)
      then show ?thesis using assms(2,3) register_manifest_result [OF surjective_pairing, of m rg]
        by (auto simp: True acc load_entry_cases)
    qed (use assms(2,3) in \<open>simp add: True acc load_entry_cases\<close>)
    then show ?thesis using keep [of ?a] load_fold_grows [of ?a R D A es] by (auto simp: grows_def)
  next
    case False
    then show ?thesis using Cons by simp
  qed
qed simp

text \<open>Loading plugins: a second load with the same configuration changes nothing, every entry that
  is not disabled and not yet known ends up registered or reported, and what the module of a disabled
  name would do has no influence (it is never imported).\<close>

theorem loading_isolated_idempotent:
  fixes resolve entries disable
  defines "run \<equiv> load_and_register_plugins resolve entries disable"
  shows "fst (run (fst (run rg))) = fst (run rg)
    \<and> (\<forall>(name, v) \<in> set entries. name \<notin> set disable \<longrightarrow> name \<notin> set (loaded_manifest_names rg) \<longrightarrow>
        name \<in> set (snd (run rg))
        \<or> (\<exists>m. resolve (fst (entry_target v)) (snd (entry_target v)) = Inr m \<and> m \<in> set (rg_manifests (fst (run rg)))))
    \<and> ((\<forall>(n, v) \<in> set entries. n \<notin> set disable \<longrightarrow>
          resolve' (fst (entry_target v)) (snd (entry_target v)) = resolve (fst (entry_target v)) (snd (entry_target v))) \<longrightarrow>
        load_and_register_plugins resolve' entries disable rg = run rg)"
proof -
  let ?D = "set disable" and ?A = "set (loaded_manifest_names rg)" and ?rg1 = "fst (run rg)"
  have "?A \<subseteq> set (loaded_manifest_names ?rg1)"
    using load_fold_grows [of "(rg, [])" resolve ?D ?A entries] unfolding run_def
    by (auto simp: grows_def load_and_register_plugins_def Let_def loaded_manifest_names_def)
  then have "\<forall>(n, v) \<in> set entries. n \<in> ?D \<or> n \<in> set (loaded_manifest_names ?rg1) \<or> settled resolve ?rg1 v"
    using load_fold_settles [of _ _ entries ?D ?A resolve "(rg, [])"]
    by (auto simp: run_def load_and_register_plugins_def Let_def)
  from load_fold_stable [OF this] have 1: "fst (run ?rg1) = ?rg1"
    by (simp add: run_def load_and_register_plugins_def Let_def)
  have 2: "name \<in> set (snd (run rg))
        \<or> (\<exists>m. resolve (fst (entry_target v)) (snd (entry_target v)) = Inr m \<and> m \<in> set (rg_manifests ?rg1))"
    if "(name, v) \<in> set entries" "name \<notin> ?D" "name \<notin> ?A" for name v
    using load_fold_reports [OF that, of resolve "(rg, [])"] by (simp add: run_def load_and_register_plugins_def Let_def)
  have 3: "load_and_register_plugins resolve' entries disable rg = run rg"
    if same: "\<forall>(n, v) \<in> set entries. n \<notin> ?D \<longrightarrow>
          resolve' (fst (entry_target v)) (snd (entry_target v)) = resolve (fst (entry_target v)) (snd (entry_target v))"
  proof -
    have "load_entry resolve' ?D ?A e acc = load_entry resolve ?D ?A e acc" if "e \<in> set entries" for e acc
      using same that by (cases e; cases acc) (auto simp: load_entry_cases)
    then show ?thesis unfolding run_def load_and_register_plugins_def Let_def by (intro fold_cong) auto
  qed
  from 1 2 3 show ?thesis by auto
qed



subsection \<open>Instances\<close>

definition pi_manifest :: manifest where
  "pi_manifest =
     \<lparr>pm_name = ''pi'', pm_post_round_hooks = [\<lparr>hk_name = ''pi_error_detector'', hk_id = 1\<rparr>],
      pm_cooperative_stop = Some ''SIGTERM'', pm_resume_flag = Some ''--session-id''\<rparr>"

lemma pi_manifest_built:
  "manifest_of ''pi'' [\<lparr>hk_name = ''pi_error_detector'', hk_id = 1\<rparr>] (Some ''SIGTERM'') (Some ''--session-id'') = Inr pi_manifest"
  by (simp add: manifest_of_def cooperative_signals_def pi_manifest_def)

lemma pi_manifest_registered:
  "register_manifest pi_manifest no_plugins =
     (None, \<lparr>rg_hooks = [\<lparr>hk_name = ''pi_error_detector'', hk_id = 1\<rparr>], rg_manifests = [pi_manifest]\<rparr>)"
  by (simp add: register_manifest_def ensure_unique_def no_plugins_def pi_manifest_def register_post_round_hook_def)

theorem registry_history_witness:
  "resolve_resume_flag (fold run_op [Register pi_manifest, Disable [''pi'']] no_plugins) (Some ''pi'') = Some ''--session-id''
   \<and> rg_hooks (fold run_op [Register pi_manifest, Disable [''pi'']] no_plugins) = []"
proof -
  have "find_manifest (fold run_op [Register pi_manifest] no_plugins) (Some ''pi'') = Some pi_manifest"
    by (simp add: pi_manifest_registered find_manifest_def) (simp add: pi_manifest_def)
  with registry_history [of "[Register pi_manifest]" "[Disable [''pi'']]"]
  have "resolve_resume_flag (fold run_op [Register pi_manifest, Disable [''pi'']] no_plugins) (Some ''pi'') = pm_resume_flag pi_manifest"
    by (metis append_Cons append_Nil)
  then show ?thesis
    by (simp add: pi_manifest_registered apply_plugin_disable_def unregister_by_name_def remove_by_identity_def)
      (simp add: pi_manifest_def)
qed

theorem registration_resolves_witness:
  "\<exists>rg'. register_manifest pi_manifest no_plugins = (None, rg')
     \<and> map_option signal_name (resolve_cooperative_signal rg' (Some ''pi'')) = Some ''SIGTERM''
     \<and> resolve_resume_flag rg' (Some ''pi'') = Some ''--session-id''
     \<and> resolve_sigterm_grace_s rg' (Some ''pi'') 12 = 12"
  using registration_resolves [OF pi_manifest_built pi_manifest_registered, where grace = 12]
  by (simp add: pi_manifest_registered)

theorem loading_isolated_idempotent_witness:
  "\<exists>m. (\<lambda>mp ap. if mp = ''pkg.pi'' then Inr pi_manifest else Inl (ValueError ''x'')) ''pkg.pi'' ''PLUGIN'' = Inr m
     \<and> m \<in> set (rg_manifests (fst (load_and_register_plugins
         (\<lambda>mp ap. if mp = ''pkg.pi'' then Inr pi_manifest else Inl (ValueError ''x''))
         [(''broken'', ''pkg.broken:PLUGIN''), (''pi'', ''pkg.pi:PLUGIN'')] [] no_plugins)))"
proof -
  let ?R = "\<lambda>mp ap. if mp = ''pkg.pi'' then Inr pi_manifest else Inl (ValueError ''x'')"
  let ?es = "[(''broken'', ''pkg.broken:PLUGIN''), (''pi'', ''pkg.pi:PLUGIN'')]"
  have t: "entry_target ''pkg.pi:PLUGIN'' = (''pkg.pi'', ''PLUGIN'')"
    "entry_target ''pkg.broken:PLUGIN'' = (''pkg.broken'', ''PLUGIN'')"
    by (simp_all add: entry_target_def py_rstrip_def py_partition_def is_space_def char_code_def)
  have w: "snd (load_and_register_plugins ?R ?es [] no_plugins) = [''broken'']"
    by (simp add: load_and_register_plugins_def load_entry_cases t loaded_manifest_names_def pi_manifest_registered)
      (simp add: no_plugins_def)
  have "''pi'' \<notin> set (loaded_manifest_names no_plugins)" by (simp add: loaded_manifest_names_def no_plugins_def)
  with loading_isolated_idempotent [where resolve = ?R and entries = ?es and disable = "[]" and rg = no_plugins
      and resolve' = ?R] w
  show ?thesis by (simp add: t)
qed

end
