(* ===== verification/Agent_Argv.thy ===== *)
theory Agent_Argv
  imports Config
begin

section \<open>The argv of an agent (agent\_runtime.py)\<close>

text \<open>
  How the runtime recognises a container launch in a configured command, when it adds a
  \<open>--cidfile\<close> of its own, and the argv it spawns. Index arithmetic follows the code: tokens are
  addressed in the original command.
\<close>

subsection \<open>Tokens\<close>

definition py_startswith :: "string \<Rightarrow> string \<Rightarrow> bool" where
  "py_startswith s p \<longleftrightarrow> take (length p) s = p"

definition is_flag :: "string \<Rightarrow> bool" where
  "is_flag tok \<longleftrightarrow> py_startswith tok ''-''"

definition container_runtimes :: "string list" where
  "container_runtimes = [''docker'', ''podman'']"

definition docker_global_flags_with_value :: "string list" where
  "docker_global_flags_with_value =
     [''-H'', ''--host'', ''--context'', ''-c'', ''--config'', ''-l'', ''--log-level'',
      ''--tlscacert'', ''--tlscert'', ''--tlskey'']"

definition docker_run_flags_with_value :: "string list" where
  "docker_run_flags_with_value =
     [''-e'', ''--env'', ''--env-file'', ''-v'', ''--volume'', ''--volumes-from'', ''--mount'',
      ''-p'', ''--publish'', ''--name'', ''-w'', ''--workdir'', ''-u'', ''--user'',
      ''-m'', ''--memory'', ''--memory-swap'', ''--memory-reservation'', ''--cpus'', ''--cpu-shares'',
      ''--cpuset-cpus'', ''--cpuset-mems'', ''--network'', ''--net'', ''--ip'', ''--ip6'',
      ''--mac-address'', ''--add-host'', ''-l'', ''--label'', ''--label-file'', ''--restart'',
      ''--entrypoint'', ''-h'', ''--hostname'', ''--dns'', ''--dns-search'', ''--dns-option'',
      ''--link'', ''--log-driver'', ''--log-opt'', ''--pid'', ''--ipc'', ''--uts'', ''--userns'',
      ''--security-opt'', ''--stop-signal'', ''--stop-timeout'', ''--device'', ''--device-cgroup-rule'',
      ''--cap-add'', ''--cap-drop'', ''--tmpfs'', ''--ulimit'', ''--shm-size'', ''--health-cmd'',
      ''--health-interval'', ''--health-retries'', ''--health-timeout'', ''--health-start-period'',
      ''--platform'', ''--pull'', ''--pids-limit'', ''--blkio-weight'', ''--group-add'', ''--isolation'',
      ''--runtime'', ''--gpus'', ''-a'', ''--attach'', ''--expose'', ''--cidfile'']"

subsection \<open>Unwrapping and detection\<close>

text \<open>The flags of \<open>sudo\<close>, the ones with a user skipped in pairs.\<close>

fun skip_sudo_flags :: "string list \<Rightarrow> string list" where
  "skip_sudo_flags [] = []"
| "skip_sudo_flags [tok] = (if is_flag tok then [] else [tok])"
| "skip_sudo_flags (tok # v # rest) =
     (if is_flag tok then
        if tok = ''-u'' \<or> tok = ''--user'' then skip_sudo_flags rest else skip_sudo_flags (v # rest)
      else tok # v # rest)"

definition env_argument :: "string \<Rightarrow> bool" where
  "env_argument tok \<longleftrightarrow> is_flag tok \<or> CHR ''='' \<in> set tok"

definition named :: "string list \<Rightarrow> string \<Rightarrow> bool" where
  "named cmd n \<longleftrightarrow> (case cmd of [] \<Rightarrow> False | c # cs \<Rightarrow> path_name c = n)"

definition unwrap_command_prefix :: "string list \<Rightarrow> string list" where
  "unwrap_command_prefix command =
     (let a = (if named command ''sudo'' then skip_sudo_flags (tl command) else command)
      in if named a ''env'' then dropWhile env_argument (tl a) else a)"

text \<open>The scan from token \<open>i\<close> for \<open>run\<close>, past recognised global flags.\<close>

fun find_run :: "nat \<Rightarrow> string list \<Rightarrow> nat option" where
  "find_run i [] = None"
| "find_run i [tok] = (if tok = ''run'' then Some i else None)"
| "find_run i (tok # v # rest) =
     (if tok = ''run'' then Some i
      else if \<not> is_flag tok then None
      else if tok \<in> set docker_global_flags_with_value then find_run (i + 2) rest
      else find_run (i + 1) (v # rest))"

definition detect_container_run :: "string list \<Rightarrow> (string \<times> nat) option" where
  "detect_container_run command =
     (case unwrap_command_prefix command of
        [] \<Rightarrow> None
      | c # cs \<Rightarrow>
          if path_name c \<notin> set container_runtimes then None
          else map_option (\<lambda>i. (path_name c, i))
                 (find_run (length command - length (c # cs) + 1) cs))"

subsection \<open>The cidfile\<close>

definition split_eq :: "string \<Rightarrow> string \<times> string" where
  "split_eq tok = py_partition (CHR ''='') tok"

fun cidfile_scan :: "string list \<Rightarrow> string option" where
  "cidfile_scan [] = None"
| "cidfile_scan [tok] =
     (if py_startswith tok ''--cidfile='' then Some (snd (split_eq tok)) else None)"
| "cidfile_scan (tok # v # rest) =
     (if tok = ''--cidfile'' then Some v
      else if py_startswith tok ''--cidfile='' then Some (snd (split_eq tok))
      else if \<not> is_flag tok then None
      else if fst (split_eq tok) \<in> set docker_run_flags_with_value \<and> CHR ''='' \<notin> set tok
           then cidfile_scan rest
      else cidfile_scan (v # rest))"

definition cidfile_flag_value :: "string list \<Rightarrow> nat \<Rightarrow> string option" where
  "cidfile_flag_value command run_idx = cidfile_scan (drop (run_idx + 1) command)"

definition is_cidfile_token :: "string \<Rightarrow> bool" where
  "is_cidfile_token tok \<longleftrightarrow> tok = ''--cidfile'' \<or> py_startswith tok ''--cidfile=''"

definition command_has_cidfile_flag :: "string list \<Rightarrow> nat \<Rightarrow> bool" where
  "command_has_cidfile_flag command run_idx \<longleftrightarrow>
     list_ex is_cidfile_token (drop (run_idx + 1) command)"

definition inject_cidfile :: "string list \<Rightarrow> nat \<Rightarrow> string \<Rightarrow> string list" where
  "inject_cidfile command run_idx cidfile_path =
     take (run_idx + 1) command @ [''--cidfile'', cidfile_path] @ drop (run_idx + 1) command"

text \<open>
  The container block of \<open>run\<close>: the command to spawn, the runtime, the cidfile (an operator's or
  ours, in the private directory \<open>fresh\<close>) and whether it is ours.
\<close>

record container_plan =
  cp_command :: "string list"
  cp_runtime :: "string option"
  cp_cidfile :: "string option"
  cp_ours :: bool

definition container_plan_of :: "string \<Rightarrow> string list \<Rightarrow> container_plan" where
  "container_plan_of fresh command =
     (case detect_container_run command of
        None \<Rightarrow> \<lparr>cp_command = command, cp_runtime = None, cp_cidfile = None, cp_ours = False\<rparr>
      | Some (runtime, run_idx) \<Rightarrow>
          if run_idx = 1 then
            (case cidfile_flag_value command run_idx of
               Some existing \<Rightarrow>
                 \<lparr>cp_command = command, cp_runtime = Some runtime, cp_cidfile = Some existing, cp_ours = False\<rparr>
             | None \<Rightarrow>
                 if command_has_cidfile_flag command run_idx
                 then \<lparr>cp_command = command, cp_runtime = Some runtime, cp_cidfile = None, cp_ours = False\<rparr>
                 else \<lparr>cp_command = inject_cidfile command run_idx (fresh @ ''/round.cid''),
                        cp_runtime = Some runtime, cp_cidfile = Some (fresh @ ''/round.cid''), cp_ours = True\<rparr>)
          else \<lparr>cp_command = command, cp_runtime = Some runtime, cp_cidfile = None, cp_ours = False\<rparr>)"

subsection \<open>The argv\<close>

definition build_argv :: "string list \<Rightarrow> string list \<Rightarrow> string \<Rightarrow> string list" where
  "build_argv command prompt_arg_template prompt =
     command @ map (py_replace ''{prompt}'' prompt 0) prompt_arg_template"

text \<open>The argv of \<open>run\<close>: resume arguments after the command; no prompt in \<open>stdin\<close> mode.\<close>

definition agent_argv ::
  "container_plan \<Rightarrow> string list \<Rightarrow> string list \<Rightarrow> prompt_delivery \<Rightarrow> string \<Rightarrow> string list" where
  "agent_argv plan resume_args prompt_arg_template delivery prompt =
     (let resumed = cp_command plan @ resume_args
      in if delivery = Stdin then resumed @ prompt_arg_template
         else build_argv resumed prompt_arg_template prompt)"

text \<open>\<open>_CONTAINER_ID_RE.match\<close>: 12 to 64 hex digits; \<open>$\<close> also matches before a final newline.\<close>

definition is_hex :: "char \<Rightarrow> bool" where
  "is_hex c \<longleftrightarrow> is_digit c \<or> (let k = char_code c in (65 \<le> k \<and> k \<le> 70) \<or> (97 \<le> k \<and> k \<le> 102))"

definition is_container_id :: "string \<Rightarrow> bool" where
  "is_container_id s \<longleftrightarrow> 12 \<le> length s \<and> length s \<le> 64 \<and> list_all is_hex s"

definition cidfile_read_cap :: nat where "cidfile_read_cap = 128"

definition py_in :: "string \<Rightarrow> string \<Rightarrow> bool" where
  "py_in sub s \<longleftrightarrow> list_ex (\<lambda>i. py_startswith (drop i s) sub) [0..<Suc (length s)]"

text \<open>
  \<open>_best_effort_container_stop\<close>: \<open>raw\<close> is what reading the cidfile gave, a byte count and the
  decoded text (\<open>None\<close> for an \<open>OSError\<close>), \<open>stop\<close> the outcome of the \<open>stop\<close> subprocess (\<open>None\<close>
  when it could not run or timed out, otherwise return code and standard error). The first component
  is the argv that was run, if any.
\<close>

definition best_effort_container_stop ::
  "string \<Rightarrow> string option \<Rightarrow> (nat \<times> string) option \<Rightarrow> (int \<times> string) option
     \<Rightarrow> string list option \<times> (string option \<times> bool option)" where
  "best_effort_container_stop runtime cidfile raw stop =
     (case (cidfile, raw) of
        (Some f, Some (bytes, content)) \<Rightarrow>
          if bytes > cidfile_read_cap then (None, None, None)
          else (let cid = py_strip content in
                if \<not> is_container_id cid then (None, None, None)
                else (Some [runtime, ''stop'', ''-t'', ''5'', ''--'', cid], Some cid,
                      Some (case stop of None \<Rightarrow> False
                            | Some (rc, err) \<Rightarrow> rc = 0 \<or> py_in ''no such container'' (py_lower err))))
      | _ \<Rightarrow> (None, None, None))"

subsection \<open>What detection means\<close>

lemma find_run_sound:
  "find_run i toks = Some k \<Longrightarrow> i \<le> k \<and> k - i < length toks \<and> toks ! (k - i) = ''run''"
proof (induction i toks rule: find_run.induct)
  case (3 i tok v rest)
  show ?case
  proof (cases "tok = ''run'' \<or> \<not> is_flag tok")
    case True
    then show ?thesis using 3(3) by (auto split: if_splits)
  next
    case False
    then show ?thesis using 3 by (auto split: if_splits simp: nth_Cons' Suc_diff_le)
  qed
qed (auto split: if_splits)

lemma find_run_first_flag:
  "find_run i (tok # toks) = Some k \<Longrightarrow> k \<noteq> i \<Longrightarrow> is_flag tok"
  by (cases toks) (auto split: if_splits)

lemma skip_sudo_suffix: "\<exists>pre. toks = pre @ skip_sudo_flags toks"
proof (induction toks rule: skip_sudo_flags.induct)
  case (2 tok)
  then show ?case by (cases "is_flag tok") auto
next
  case (3 tok v rest)
  show ?case
  proof (cases "is_flag tok")
    case True
    show ?thesis
    proof (cases "tok = ''-u'' \<or> tok = ''--user''")
      case u: True
      then obtain pre where "rest = pre @ skip_sudo_flags rest" using 3(1) True by blast
      then have "tok # v # rest = (tok # v # pre) @ skip_sudo_flags (tok # v # rest)" using True u by simp
      then show ?thesis by blast
    next
      case u: False
      then obtain pre where "v # rest = pre @ skip_sudo_flags (v # rest)" using 3(2) True by blast
      then have "tok # v # rest = (tok # pre) @ skip_sudo_flags (tok # v # rest)" using True u by simp
      then show ?thesis by blast
    qed
  qed auto
qed simp

lemma unwrap_suffix: "\<exists>pre. command = pre @ unwrap_command_prefix command"
proof -
  define a where "a = (if named command ''sudo'' then skip_sudo_flags (tl command) else command)"
  have "\<exists>pre. command = pre @ a"
  proof (cases "named command ''sudo''")
    case True
    then obtain c cs where c: "command = c # cs" by (cases command) (auto simp: named_def)
    obtain pre where "cs = pre @ skip_sudo_flags cs" using skip_sudo_suffix by blast
    then have "command = (c # pre) @ a" using True c by (simp add: a_def)
    then show ?thesis by blast
  qed (simp add: a_def)
  then obtain pre where pre: "command = pre @ a" by blast
  show ?thesis
  proof (cases "named a ''env''")
    case True
    then obtain c cs where c: "a = c # cs" by (cases a) (auto simp: named_def)
    have "cs = takeWhile env_argument cs @ dropWhile env_argument cs" by simp
    then have "command = (pre @ c # takeWhile env_argument cs) @ unwrap_command_prefix command"
      using True c pre unfolding unwrap_command_prefix_def Let_def a_def [symmetric] by simp
    then show ?thesis by blast
  next
    case False
    then show ?thesis using pre unfolding unwrap_command_prefix_def Let_def a_def [symmetric] by auto
  qed
qed

lemma detect_sound:
  assumes "detect_container_run command = Some (runtime, k)"
  shows "k < length command \<and> command ! k = ''run'' \<and> runtime \<in> {''docker'', ''podman''}
    \<and> (\<exists>j < k. path_name (command ! j) = runtime \<and> drop j command = unwrap_command_prefix command
         \<and> (k \<noteq> j + 1 \<longrightarrow> is_flag (command ! (j + 1))))"
proof -
  obtain pre where pre: "command = pre @ unwrap_command_prefix command" using unwrap_suffix by blast
  obtain c cs where c: "unwrap_command_prefix command = c # cs" and rt: "path_name c = runtime"
    "runtime \<in> set container_runtimes" and f: "find_run (length command - length (c # cs) + 1) cs = Some k"
    using assms by (auto simp: detect_container_run_def split: list.splits if_splits)
  have cmd: "command = pre @ c # cs" using pre c by simp
  then have j: "length command - length (c # cs) = length pre" by simp
  note s = find_run_sound [OF f [unfolded j]]
  have k: "command ! k = ''run''" "k < length command"
    using s cmd by (auto simp: nth_append nth_Cons' Suc_le_eq)
  have "is_flag (command ! (length pre + 1))" if "k \<noteq> length pre + 1"
  proof (cases cs)
    case (Cons t ts)
    then show ?thesis using find_run_first_flag [of "length pre + 1" t ts k] f j that cmd
      by (simp add: nth_append)
  qed (use f in simp)
  then show ?thesis using k rt cmd c s
    by (intro conjI exI [of _ "length pre"]) (auto simp: container_runtimes_def)
qed

subsection \<open>The cidfile is ours or the operator's, never both\<close>

lemma cidfile_scan_flag: "cidfile_scan toks = Some f \<Longrightarrow> list_ex is_cidfile_token toks"
  by (induction toks rule: cidfile_scan.induct) (auto simp: is_cidfile_token_def split: if_splits)

lemma flag_value_has_flag: "cidfile_flag_value command k = Some f \<Longrightarrow> command_has_cidfile_flag command k"
  unfolding cidfile_flag_value_def command_has_cidfile_flag_def by (rule cidfile_scan_flag)

definition cidfile_tokens :: "string list \<Rightarrow> nat \<Rightarrow> string list" where
  "cidfile_tokens command run_idx = filter is_cidfile_token (drop (run_idx + 1) command)"

lemma cidfile_token_self: "is_cidfile_token ''--cidfile''" "py_startswith ''--cidfile'' ''--cidfile=''= False"
  by (simp_all add: is_cidfile_token_def py_startswith_def)

lemma find_run_at_one: "find_run (Suc 0) cs = Some (Suc 0) \<longleftrightarrow> (\<exists>rest. cs = ''run'' # rest)"
proof
  assume "find_run (Suc 0) cs = Some (Suc 0)"
  from find_run_sound [OF this] show "\<exists>rest. cs = ''run'' # rest" by (cases cs) auto
next
  assume "\<exists>rest. cs = ''run'' # rest"
  then obtain rest where "cs = ''run'' # rest" ..
  then show "find_run (Suc 0) cs = Some (Suc 0)" by (cases rest) auto
qed

lemma unwrap_runtime:
  assumes "path_name c \<in> set container_runtimes"
  shows "unwrap_command_prefix (c # cs) = c # cs"
  using assms by (auto simp: unwrap_command_prefix_def named_def container_runtimes_def)

lemma detect_one:
  "detect_container_run command = Some (runtime, 1) \<longleftrightarrow>
    (\<exists>c rest. command = c # ''run'' # rest \<and> path_name c = runtime \<and> runtime \<in> {''docker'', ''podman''})"
proof
  assume d: "detect_container_run command = Some (runtime, 1)"
  from detect_sound [OF d] obtain j where j: "j < 1" "path_name (command ! j) = runtime"
    "1 < length command" "command ! 1 = ''run''" "runtime \<in> {''docker'', ''podman''}" by blast
  then obtain c d rest where "command = c # d # rest" by (cases command; cases "tl command") auto
  then show "\<exists>c rest. command = c # ''run'' # rest \<and> path_name c = runtime \<and> runtime \<in> {''docker'', ''podman''}"
    using j by auto
next
  assume "\<exists>c rest. command = c # ''run'' # rest \<and> path_name c = runtime \<and> runtime \<in> {''docker'', ''podman''}"
  then obtain c rest where c: "command = c # ''run'' # rest" "path_name c = runtime" "runtime \<in> {''docker'', ''podman''}" by blast
  then have r: "path_name c \<in> set container_runtimes" by (auto simp: container_runtimes_def)
  have "find_run (Suc 0) (''run'' # rest) = Some (Suc 0)" using find_run_at_one by blast
  then show "detect_container_run command = Some (runtime, 1)"
    using unwrap_runtime [OF r, of "''run'' # rest"] r c(1,2) by (simp add: detect_container_run_def)
qed

text \<open>With a private directory given by an absolute path, the runtime adds its own \<open>--cidfile\<close>
  exactly for a plain \<open>docker run\<close> or \<open>podman run\<close> that carries no such token anywhere after \<open>run\<close>; the
  result then has exactly one, right after \<open>run\<close>, read back as our file and still detected as the same
  launch, and every other command is spawned untouched.\<close>

theorem container_plan_one_cidfile:
  assumes plan: "plan = container_plan_of fresh command" and absolute: "fresh = CHR ''/'' # dir"
  shows "(cp_runtime plan \<noteq> None \<longleftrightarrow> detect_container_run command \<noteq> None)
    \<and> (cp_ours plan \<longleftrightarrow> (\<exists>runtime. detect_container_run command = Some (runtime, 1)) \<and> cidfile_tokens command 1 = [])
    \<and> (\<not> cp_ours plan \<longrightarrow> cp_command plan = command)
    \<and> (cp_ours plan \<longrightarrow> cidfile_tokens (cp_command plan) 1 = [''--cidfile'']
         \<and> cidfile_flag_value (cp_command plan) 1 = cp_cidfile plan
         \<and> detect_container_run (cp_command plan) = detect_container_run command
         \<and> (\<exists>c rest. command = c # ''run'' # rest
              \<and> cp_command plan = c # ''run'' # ''--cidfile'' # (fresh @ ''/round.cid'') # rest))"
proof (cases "\<exists>runtime. detect_container_run command = Some (runtime, 1)")
  case True
  then obtain runtime where d: "detect_container_run command = Some (runtime, 1)" by blast
  then obtain c rest where c: "command = c # ''run'' # rest" "path_name c = runtime" "runtime \<in> {''docker'', ''podman''}"
    unfolding detect_one by blast
  have none: "cidfile_tokens command 1 = [] \<longleftrightarrow> \<not> command_has_cidfile_flag command 1"
    by (simp add: cidfile_tokens_def command_has_cidfile_flag_def filter_empty_conv list_ex_iff)
  show ?thesis
  proof (cases "command_has_cidfile_flag command 1")
    case True
    then have "\<not> cp_ours plan" "cp_command plan = command" "cp_runtime plan = Some runtime"
      using d by (auto simp: plan container_plan_of_def split: option.splits)
    then show ?thesis using d none True by simp
  next
    case False
    then have v: "cidfile_flag_value command 1 = None" using flag_value_has_flag by fastforce
    have p: "plan = \<lparr>cp_command = inject_cidfile command 1 (fresh @ ''/round.cid''), cp_runtime = Some runtime,
        cp_cidfile = Some (fresh @ ''/round.cid''), cp_ours = True\<rparr>"
      using d v False by (simp add: plan container_plan_of_def)
    have cmd: "cp_command plan = c # ''run'' # ''--cidfile'' # (fresh @ ''/round.cid'') # rest"
      by (simp add: p inject_cidfile_def c(1))
    have "filter is_cidfile_token rest = []"
      using False by (simp add: command_has_cidfile_flag_def c(1) list_ex_iff filter_empty_conv)
    moreover have "\<not> is_cidfile_token (fresh @ ''/round.cid'')"
      by (simp add: absolute is_cidfile_token_def py_startswith_def)
    ultimately have t: "cidfile_tokens (cp_command plan) 1 = [''--cidfile'']"
      by (simp add: cidfile_tokens_def cmd cidfile_token_self)
    have "detect_container_run (cp_command plan) = Some (runtime, 1)"
      unfolding detect_one using cmd c(2,3) by blast
    moreover have "cidfile_flag_value (cp_command plan) 1 = cp_cidfile plan"
      using cmd by (simp add: cidfile_flag_value_def p)
    ultimately show ?thesis using d none False c cmd t by (auto simp: p)
  qed
next
  case False
  then have "\<not> cp_ours plan" "cp_command plan = command"
    by (auto simp: plan container_plan_of_def split: option.splits prod.splits if_splits)
  moreover have "cp_runtime plan \<noteq> None \<longleftrightarrow> detect_container_run command \<noteq> None"
    by (auto simp: plan container_plan_of_def split: option.splits prod.splits if_splits)
  ultimately show ?thesis using False by simp
qed

theorem container_plan_one_cidfile_witness:
  "cp_command (container_plan_of ''/tmp/cid'' [''/usr/bin/docker'', ''run'', ''--rm'', ''img''])
     = [''/usr/bin/docker'', ''run'', ''--cidfile'', ''/tmp/cid/round.cid'', ''--rm'', ''img'']
   \<and> cp_ours (container_plan_of ''/tmp/cid'' [''/usr/bin/docker'', ''run'', ''--rm'', ''img''])"
proof -
  have "detect_container_run [''/usr/bin/docker'', ''run'', ''--rm'', ''img''] = Some (''docker'', 1)"
    unfolding detect_one by (intro exI [of _ "''/usr/bin/docker''"] exI [of _ "[''--rm'', ''img'']"]) (simp add: path_name_def)
  then show ?thesis
    using container_plan_one_cidfile [OF refl refl, of "''tmp/cid''" "[''/usr/bin/docker'', ''run'', ''--rm'', ''img'']"]
    by (simp add: cidfile_tokens_def is_cidfile_token_def py_startswith_def)
qed

subsection \<open>Detection through wrappers\<close>

text \<open>A detected container launch names a real one: the index points at a \<open>run\<close> token, the runtime
  is the binary the command runs once \<open>sudo\<close> and \<open>env\<close> are unwrapped, what stands between them starts
  with a flag, and a launch behind a wrapper or global flags is never rewritten.\<close>

theorem container_detection:
  assumes "detect_container_run command = Some (runtime, k)"
  shows "k < length command \<and> command ! k = ''run'' \<and> runtime \<in> {''docker'', ''podman''}
    \<and> (\<exists>j < k. path_name (command ! j) = runtime \<and> drop j command = unwrap_command_prefix command
         \<and> (k \<noteq> j + 1 \<longrightarrow> is_flag (command ! (j + 1)) \<and> cp_command (container_plan_of fresh command) = command))"
proof -
  have "k \<noteq> 1 \<Longrightarrow> cp_command (container_plan_of fresh command) = command"
    using assms by (simp add: container_plan_of_def)
  then show ?thesis using detect_sound [OF assms] by fastforce
qed

definition example_wrapped :: "string list" where
  "example_wrapped = [''sudo'', ''-u'', ''ops'', ''docker'', ''--context'', ''lab'', ''run'', ''img'']"

theorem container_detection_witness:
  "detect_container_run example_wrapped = Some (''docker'', 6) \<and> example_wrapped ! 6 = ''run''
    \<and> cp_command (container_plan_of ''/tmp'' example_wrapped) = example_wrapped"
proof -
  have d: "detect_container_run example_wrapped = Some (''docker'', 6)"
    by (simp add: example_wrapped_def detect_container_run_def unwrap_command_prefix_def named_def path_name_def
        is_flag_def py_startswith_def container_runtimes_def docker_global_flags_with_value_def)
  from container_detection [OF d, of "''/tmp''"] d show ?thesis by (auto simp: container_plan_of_def)
qed

end
