(* ===== verification/Agent_Runtime.thy ===== *)
theory Agent_Runtime
  imports Agent_Argv Plugin_Manifest Events "HOL-Library.Sublist"
begin

section \<open>The agent process (agent\_runner/agent\_runtime.py)\<close>

text \<open>
  The child's wait for the agent: the poll loop with its wall-clock ceiling, the scan of the
  log for the result marker, the grace kill, the progress heartbeat, and the reap of the
  process group with its stray descendants and its container. One tick of observations stands
  for one turn of the loop: what \<open>poll\<close> returned, the clock, the log, the process table. An
  exception may arrive where the code calls out: at the poll, in a callback, in the sleep.
\<close>

subsection \<open>Exit codes\<close>

text \<open>\<open>sig_name\<close> is the host's \<open>signal.Signals\<close> table.\<close>

definition signal_name_of :: "(int \<Rightarrow> string option) \<Rightarrow> int \<Rightarrow> string option" where
  "signal_name_of sig_name exit_code =
     (if exit_code < 0 then sig_name (- exit_code)
      else if exit_code > 128 then sig_name (exit_code - 128)
      else None)"

subsection \<open>Live descendants\<close>

text \<open>One child of the process table; \<open>None\<close> when it vanished or may not be read.\<close>

record child =
  ch_zombie :: bool
  ch_argv :: "string list"
  ch_comm :: string
  ch_pid :: int

definition max_child_name_len :: nat where "max_child_name_len = 64"

definition child_full :: "child \<Rightarrow> string" where
  "child_full c = (let full = join '' '' (ch_argv c) in if full = [] then ch_comm c else full)"

definition child_name :: "child \<Rightarrow> string" where
  "child_name c =
     (if ch_comm c \<noteq> [] then ch_comm c
      else take max_child_name_len (if ch_argv c = [] then [] else path_name (hd (ch_argv c))))"

type_synonym live_child = "string \<times> int"
type_synonym ignored_child = "string \<times> int \<times> string"

definition below :: "nat option \<Rightarrow> nat \<Rightarrow> bool" where
  "below max_n k = (case max_n of None \<Rightarrow> True | Some n \<Rightarrow> k < n)"

fun live_scan ::
  "(string \<Rightarrow> string \<Rightarrow> bool) \<Rightarrow> string list \<Rightarrow> nat option \<Rightarrow> child option list
     \<Rightarrow> live_child list \<Rightarrow> ignored_child list \<Rightarrow> live_child list \<times> ignored_child list" where
  "live_scan re_search pats max_n [] live ignored = (live, ignored)"
| "live_scan re_search pats max_n (None # cs) live ignored = live_scan re_search pats max_n cs live ignored"
| "live_scan re_search pats max_n (Some c # cs) live ignored =
     (if ch_zombie c then live_scan re_search pats max_n cs live ignored
      else
        let (live', ignored') =
              (case find (\<lambda>p. re_search p (child_full c)) pats of
                 Some p \<Rightarrow> (live, if below max_n (length ignored)
                                   then ignored @ [(child_name c, ch_pid c, p)] else ignored)
               | None \<Rightarrow> (if below max_n (length live) then live @ [(child_name c, ch_pid c)] else live, ignored))
        in if \<not> below max_n (length live') \<and> \<not> below max_n (length ignored') then (live', ignored')
           else live_scan re_search pats max_n cs live' ignored')"

definition live_children ::
  "(string \<Rightarrow> string \<Rightarrow> bool) \<Rightarrow> string list \<Rightarrow> nat option \<Rightarrow> child option list option
     \<Rightarrow> live_child list \<times> ignored_child list" where
  "live_children re_search pats max_n table =
     (case table of None \<Rightarrow> ([], []) | Some cs \<Rightarrow> live_scan re_search pats max_n cs [] [])"

subsection \<open>Stray descendants\<close>

text \<open>\<open>getpgid\<close> is what the kernel says of a pid at that moment, \<open>None\<close> for an \<open>OSError\<close>.\<close>

definition capture_descendant_pgids :: "(int \<Rightarrow> int option) \<Rightarrow> live_child list \<Rightarrow> (int \<times> int option) list" where
  "capture_descendant_pgids getpgid descendants = map (\<lambda>(name, pid). (pid, getpgid pid)) descendants"

fun kill_stray_descendants :: "int \<Rightarrow> (int \<Rightarrow> int option) \<Rightarrow> (int \<times> int option) list \<Rightarrow> int list" where
  "kill_stray_descendants own_pgid getpgid [] = []"
| "kill_stray_descendants own_pgid getpgid ((pid, None) # es) = kill_stray_descendants own_pgid getpgid es"
| "kill_stray_descendants own_pgid getpgid ((pid, Some spgid) # es) =
     (if spgid = own_pgid \<or> getpgid pid \<noteq> Some spgid then kill_stray_descendants own_pgid getpgid es
      else spgid # kill_stray_descendants own_pgid getpgid es)"

definition snapshot_stray_descendants :: "(int \<Rightarrow> int option) \<Rightarrow> child option list option \<Rightarrow> (int \<times> int option) list" where
  "snapshot_stray_descendants getpgid table =
     capture_descendant_pgids getpgid (fst (live_children (\<lambda>p s. False) [] None table))"

subsection \<open>Reaping the process group\<close>

datatype exit_wait = WaitExited | WaitTimeout | WaitInterrupted

text \<open>\<open>_wait_exit_shielded\<close>: an interrupt retries the wait against the same deadline.\<close>

fun wait_exit_shielded :: "exit_wait list \<Rightarrow> exit_wait" where
  "wait_exit_shielded [] = WaitTimeout"
| "wait_exit_shielded (WaitInterrupted # ws) = wait_exit_shielded ws"
| "wait_exit_shielded (w # ws) = w"

datatype reap_break = InSnapshot | InStop | InReport

record reap_obs =
  rp_table :: "child option list option"
  rp_pgid_then :: "int \<Rightarrow> int option"
  rp_pgid_later :: "int \<Rightarrow> int option"
  rp_grace_wait :: "exit_wait list"
  rp_final_wait :: "exit_wait list"
  rp_code :: "int option"
  rp_clock :: real
  rp_cidfile :: "(nat \<times> string) option"
  rp_stop :: "(int \<times> string) option"
  rp_break :: "reap_break option"

datatype reap_act =
    SignalGroup posix_signal
  | WaitGrace int
  | KillGroup
  | KillStray int
  | WaitReap
  | ReapZombie
  | StopContainer "string list"
  | ReportOrphan string "string option" "bool option"

definition kill_pgroup :: "int \<Rightarrow> int \<Rightarrow> posix_signal \<Rightarrow> reap_obs \<Rightarrow> reap_act list" where
  "kill_pgroup own_pgid grace_s first_signal ob =
     (let stray = snapshot_stray_descendants (rp_pgid_then ob) (rp_table ob)
      in [SignalGroup first_signal, WaitGrace grace_s, KillGroup]
         @ map KillStray (kill_stray_descendants own_pgid (rp_pgid_later ob) stray)
         @ [WaitReap]
         @ (if wait_exit_shielded (rp_final_wait ob) = WaitExited then [ReapZombie] else []))"

subsection \<open>The environment of a run\<close>

record run_env =
  re_timeout_s :: int
  re_max_grace :: int
  re_marker :: string
  re_progress_interval :: int
  re_progress :: bool
  re_patterns :: "string list"
  re_reap_grace :: int
  re_cooperative :: posix_signal
  re_runtime :: "string option"
  re_cidfile :: "string option"
  re_cid_ours :: bool
  re_own_pgid :: int
  re_report :: bool
  re_start :: real

text \<open>
  \<open>_terminate_agent\<close> with the fire-once report: the acts, whether the orphan risk has been
  reported, and whether an exception left it.
\<close>

definition terminate_agent :: "run_env \<Rightarrow> posix_signal \<Rightarrow> reap_obs \<Rightarrow> bool \<Rightarrow> reap_act list \<times> bool \<times> bool" where
  "terminate_agent env first_signal ob reported =
     (if rp_break ob = Some InSnapshot then ([], reported, True)
      else
        let acts = kill_pgroup (re_own_pgid env) (re_reap_grace env) first_signal ob
        in (case re_runtime env of
              None \<Rightarrow> (acts, reported, False)
            | Some runtime \<Rightarrow>
                (case best_effort_container_stop runtime (re_cidfile env) (rp_cidfile ob) (rp_stop ob) of
                   (argv, cid, stop_ok) \<Rightarrow>
                     let stop = (case argv of None \<Rightarrow> [] | Some a \<Rightarrow> [StopContainer a])
                     in if rp_break ob = Some InStop then (acts @ stop, reported, True)
                        else if reported \<or> \<not> re_report env then (acts @ stop, reported, False)
                        else (acts @ stop @ [ReportOrphan runtime cid stop_ok], True, rp_break ob = Some InReport))))"

subsection \<open>The marker scan\<close>

definition result_scan_interval_s :: real where "result_scan_interval_s = 1"

record scan_state =
  sn_offset :: nat
  sn_carry :: string

definition scan_start :: scan_state where "scan_start = \<lparr>sn_offset = 0, sn_carry = []\<rparr>"

text \<open>One scan of the log's bytes (\<open>None\<close>: it could not be read) and whether the marker was found.\<close>

definition marker_scan :: "string \<Rightarrow> string option \<Rightarrow> scan_state \<Rightarrow> bool \<times> scan_state" where
  "marker_scan marker bytes sc =
     (case bytes of
        None \<Rightarrow> (False, sc)
      | Some f \<Rightarrow>
          let chunk = drop (sn_offset sc) f;
              haystack = sn_carry sc @ chunk;
              sc1 = sc\<lparr>sn_offset := sn_offset sc + length chunk\<rparr>;
              carry = length marker - 1
          in if py_in marker haystack then (True, sc1)
             else (False, sc1\<lparr>sn_carry := (if carry = 0 then [] else drop (length haystack - carry) haystack)\<rparr>))"

subsection \<open>One turn of the loop\<close>

datatype tick_raise = RaisePoll | RaiseExtended | RaiseProgress | RaiseSleep

record run_tick =
  at_poll :: "int option"
  at_now :: real
  at_log :: "string option"
  at_table :: "child option list option"
  at_stat :: "(int \<times> real) option"
  at_epoch :: real
  at_raise :: "tick_raise option"
  at_reap :: reap_obs
  at_reap_again :: reap_obs

record run_state =
  rs_seen :: "real option"
  rs_extended :: bool
  rs_scan :: scan_state
  rs_last_scan :: real
  rs_last_progress :: real

datatype run_act =
    ProgressBeat int int int
  | GraceExtended "live_child list" "ignored_child list"
  | ReapAct reap_act
  | RemoveCidDir

text \<open>The result: exit code, duration, \<open>timed_out\<close>, \<open>killed_for_grace\<close>; or the exception re-raised.\<close>

datatype run_end = AgentResult int real bool bool | AgentRaised

text \<open>The \<open>BaseException\<close> handler: reap with the cooperative signal, re-raise.\<close>

definition reap_and_raise :: "run_env \<Rightarrow> reap_obs \<Rightarrow> bool \<Rightarrow> run_act list \<times> run_end" where
  "reap_and_raise env ob reported =
     (case terminate_agent env (re_cooperative env) ob reported of
        (acts, reported', broke) \<Rightarrow> (map ReapAct acts, AgentRaised))"

definition hard_reap :: "run_env \<Rightarrow> run_tick \<Rightarrow> bool \<Rightarrow> run_act list \<times> run_end" where
  "hard_reap env tk grace =
     (case terminate_agent env SIGTERM (at_reap tk) False of
        (acts, reported, broke) \<Rightarrow>
          if broke then
            (case reap_and_raise env (at_reap_again tk) reported of (more_acts, e) \<Rightarrow> (map ReapAct acts @ more_acts, e))
          else (map ReapAct acts,
                AgentResult (case rp_code (at_reap tk) of Some rc \<Rightarrow> rc | None \<Rightarrow> -1)
                  (rp_clock (at_reap tk) - re_start env) True grace))"

definition scan_due :: "run_env \<Rightarrow> run_state \<Rightarrow> real \<Rightarrow> bool" where
  "scan_due env st now \<longleftrightarrow> rs_seen st = None \<and> now - rs_last_scan st \<ge> result_scan_interval_s"

definition scan_step :: "run_env \<Rightarrow> run_tick \<Rightarrow> run_state \<Rightarrow> run_state" where
  "scan_step env tk st =
     (if scan_due env st (at_now tk) then
        (case marker_scan (re_marker env) (at_log tk) (rs_scan st) of (found, sc) \<Rightarrow>
           st\<lparr>rs_last_scan := at_now tk, rs_scan := sc, rs_seen := (if found then Some (at_now tk) else None)\<rparr>)
      else st)"

definition grace_over :: "run_env \<Rightarrow> run_state \<Rightarrow> real \<Rightarrow> bool" where
  "grace_over env st now \<longleftrightarrow>
     (case rs_seen st of None \<Rightarrow> False | Some t \<Rightarrow> now - t > real_of_int (re_max_grace env))"

datatype grace_verdict = GraceGo | GraceKill | GraceBusy "live_child list" "ignored_child list"

definition grace_check :: "(string \<Rightarrow> string \<Rightarrow> bool) \<Rightarrow> run_env \<Rightarrow> run_tick \<Rightarrow> run_state \<Rightarrow> grace_verdict" where
  "grace_check re_search env tk st =
     (if \<not> grace_over env st (at_now tk) then GraceGo
      else case live_children re_search (re_patterns env) (Some 5) (at_table tk) of
             (live, ignored) \<Rightarrow> if live = [] then GraceKill else GraceBusy live ignored)"

definition progress_step :: "run_env \<Rightarrow> run_tick \<Rightarrow> run_state \<Rightarrow> run_act list \<times> run_state" where
  "progress_step env tk st =
     (if re_progress env \<and> re_progress_interval env > 0
         \<and> at_now tk - rs_last_progress st \<ge> real_of_int (re_progress_interval env)
      then ([case at_stat tk of
               Some (bytes, mtime) \<Rightarrow>
                 ProgressBeat (bytes div 1024) (max 0 (py_trunc (at_epoch tk - mtime))) (py_trunc (at_now tk - re_start env))
             | None \<Rightarrow> ProgressBeat 0 0 (py_trunc (at_now tk - re_start env))],
            st\<lparr>rs_last_progress := at_now tk\<rparr>)
      else ([], st))"

definition run_step ::
  "(string \<Rightarrow> string \<Rightarrow> bool) \<Rightarrow> run_env \<Rightarrow> run_tick \<Rightarrow> run_state \<Rightarrow> run_act list \<times> (run_state + run_end)" where
  "run_step re_search env tk st =
     (let raised = (case reap_and_raise env (at_reap tk) False of (acts, e) \<Rightarrow> (acts, Inr e));
          now = at_now tk
      in if at_raise tk = Some RaisePoll then raised
         else case at_poll tk of
           Some ret \<Rightarrow> ([], Inr (AgentResult ret (now - re_start env) False False))
         | None \<Rightarrow>
             if now - re_start env > real_of_int (re_timeout_s env) then
               (case hard_reap env tk False of (acts, e) \<Rightarrow> (acts, Inr e))
             else
               let grace_on = (re_max_grace env > 0 \<and> re_marker env \<noteq> []);
                   st1 = (if grace_on then scan_step env tk st else st);
                   verdict = (if grace_on then grace_check re_search env tk st1 else GraceGo)
               in (case verdict of
                     GraceKill \<Rightarrow> (case hard_reap env tk True of (acts, e) \<Rightarrow> (acts, Inr e))
                   | _ \<Rightarrow>
                       let (ext, st2) =
                             (case verdict of
                                GraceBusy live ignored \<Rightarrow>
                                  if rs_extended st1 then ([], st1)
                                  else ([GraceExtended live ignored], st1\<lparr>rs_extended := True\<rparr>)
                              | _ \<Rightarrow> ([], st1))
                       in if ext \<noteq> [] \<and> at_raise tk = Some RaiseExtended
                          then (case raised of (acts, r) \<Rightarrow> (ext @ acts, r))
                          else
                            (case progress_step env tk st2 of (beat, st3) \<Rightarrow>
                               if (beat \<noteq> [] \<and> at_raise tk = Some RaiseProgress) \<or> at_raise tk = Some RaiseSleep
                               then (case raised of (acts, r) \<Rightarrow> (ext @ beat @ acts, r))
                               else (ext @ beat, Inl st3))))"

fun run_loop ::
  "(string \<Rightarrow> string \<Rightarrow> bool) \<Rightarrow> run_env \<Rightarrow> run_tick list \<Rightarrow> run_state \<Rightarrow> (run_act list \<times> run_end) option" where
  "run_loop re_search env [] st = None"
| "run_loop re_search env (tk # tks) st =
     (case run_step re_search env tk st of
        (acts, Inr e) \<Rightarrow> Some (acts, e)
      | (acts, Inl st') \<Rightarrow> map_option (\<lambda>(more_acts, e). (acts @ more_acts, e)) (run_loop re_search env tks st'))"

definition run_start :: "run_env \<Rightarrow> run_state" where
  "run_start env = \<lparr>rs_seen = None, rs_extended = False, rs_scan = scan_start,
     rs_last_scan = re_start env, rs_last_progress = re_start env\<rparr>"

text \<open>
  The whole run: an exception before the spawn (the log cannot be opened, the command cannot be
  executed) reaps nothing; the private directory of the cidfile goes on every path.
\<close>

definition run_agent ::
  "(string \<Rightarrow> string \<Rightarrow> bool) \<Rightarrow> run_env \<Rightarrow> bool \<Rightarrow> run_tick list \<Rightarrow> (run_act list \<times> run_end) option" where
  "run_agent re_search env spawned tks =
     map_option (\<lambda>(acts, e). (acts @ (if re_cid_ours env \<and> re_cidfile env \<noteq> None then [RemoveCidDir] else []), e))
       (if spawned then run_loop re_search env tks (run_start env) else Some ([], AgentRaised))"

subsection \<open>The carried tail loses no marker\<close>

lemma py_in_iff: "py_in sub s \<longleftrightarrow> (\<exists>p q. s = p @ sub @ q)"
proof
  assume "py_in sub s"
  then obtain i where "py_startswith (drop i s) sub" unfolding py_in_def list_ex_iff by blast
  then have "drop i s = sub @ drop (length sub) (drop i s)"
    by (metis append_take_drop_id py_startswith_def)
  then show "\<exists>p q. s = p @ sub @ q" by (metis append_take_drop_id)
next
  assume "\<exists>p q. s = p @ sub @ q"
  then obtain p q where s: "s = p @ sub @ q" by blast
  then show "py_in sub s"
    by (auto simp: py_in_def list_ex_iff py_startswith_def intro!: bexI [of _ "length p"])
qed

definition last_bytes :: "nat \<Rightarrow> string \<Rightarrow> string" where
  "last_bytes n s = drop (length s - n) s"

definition scanned :: "string \<Rightarrow> string \<Rightarrow> scan_state \<Rightarrow> bool" where
  "scanned marker f sc \<longleftrightarrow>
     sn_offset sc = length f \<and> \<not> py_in marker f \<and> sn_carry sc = last_bytes (length marker - 1) f"

lemma last_bytes_tail: "last_bytes n (last_bytes n f @ g) = last_bytes n (f @ g)"
  by (cases "length f \<le> n") (auto simp: last_bytes_def add.commute)

lemma in_tail_iff:
  assumes "marker \<noteq> []" "\<not> py_in marker f"
  shows "py_in marker (last_bytes (length marker - 1) f @ g) \<longleftrightarrow> py_in marker (f @ g)"
proof
  assume "py_in marker (last_bytes (length marker - 1) f @ g)"
  then obtain p q where "last_bytes (length marker - 1) f @ g = p @ marker @ q" unfolding py_in_iff by blast
  moreover obtain r where "f = r @ last_bytes (length marker - 1) f" by (metis append_take_drop_id last_bytes_def)
  ultimately have "f @ g = (r @ p) @ marker @ q" by (metis append.assoc)
  then show "py_in marker (f @ g)" unfolding py_in_iff by blast
next
  assume "py_in marker (f @ g)"
  then obtain p q where pq: "f @ g = p @ marker @ q" unfolding py_in_iff by blast
  let ?k = "length f - (length marker - 1)"
  have "\<not> length p + length marker \<le> length f"
  proof
    assume "length p + length marker \<le> length f"
    then have "f = p @ marker @ take (length f - (length p + length marker)) q"
      using arg_cong [OF pq, of "take (length f)"] by simp
    then show False using assms(2) unfolding py_in_iff by blast
  qed
  then have "?k \<le> length p" using assms(1) by (cases marker) auto
  then have "drop ?k (f @ g) = drop ?k p @ marker @ q" unfolding pq by simp
  moreover have "drop ?k (f @ g) = last_bytes (length marker - 1) f @ g" by (simp add: last_bytes_def)
  ultimately show "py_in marker (last_bytes (length marker - 1) f @ g)" unfolding py_in_iff by metis
qed

lemma marker_scan_step:
  assumes "marker \<noteq> []" "scanned marker f sc"
  shows "fst (marker_scan marker (Some (f @ g)) sc) \<longleftrightarrow> py_in marker (f @ g)"
    and "\<not> py_in marker (f @ g) \<Longrightarrow> scanned marker (f @ g) (snd (marker_scan marker (Some (f @ g)) sc))"
proof -
  let ?c = "length marker - 1"
  have sc: "sn_offset sc = length f" "sn_carry sc = last_bytes ?c f" "\<not> py_in marker f"
    using assms(2) by (simp_all add: scanned_def)
  have i: "py_in marker (last_bytes ?c f @ g) \<longleftrightarrow> py_in marker (f @ g)" by (rule in_tail_iff [OF assms(1) sc(3)])
  show "fst (marker_scan marker (Some (f @ g)) sc) \<longleftrightarrow> py_in marker (f @ g)"
    using i by (auto simp: marker_scan_def Let_def sc)
  assume n: "\<not> py_in marker (f @ g)"
  have t: "drop (length (last_bytes ?c f @ g) - ?c) (last_bytes ?c f @ g) = last_bytes ?c (f @ g)"
    using last_bytes_tail [of ?c f g] unfolding last_bytes_def [of ?c "last_bytes ?c f @ g"] by blast
  have z: "?c = 0 \<Longrightarrow> last_bytes ?c (f @ g) = []" by (simp add: last_bytes_def)
  have "marker_scan marker (Some (f @ g)) sc = (False, sc\<lparr>sn_offset := length (f @ g), sn_carry := last_bytes ?c (f @ g)\<rparr>)"
    unfolding marker_scan_def Let_def option.case sc(1,2) using n i t z by (cases "?c = 0") simp_all
  then show "scanned marker (f @ g) (snd (marker_scan marker (Some (f @ g)) sc))"
    using n by (simp add: scanned_def)
qed

text \<open>Scans until the marker is found; the readings of a log that only readings_grow, some of them failed.\<close>

fun scan_all :: "string \<Rightarrow> string option list \<Rightarrow> scan_state \<Rightarrow> bool list" where
  "scan_all marker [] sc = []"
| "scan_all marker (b # bs) sc =
     (case marker_scan marker b sc of (found, sc') \<Rightarrow>
        if found then [True] else False # scan_all marker bs sc')"

definition readings_grow :: "string \<Rightarrow> string option list \<Rightarrow> bool" where
  "readings_grow f bs \<longleftrightarrow> sorted_wrt prefix (f # List.map_filter id bs)"

definition has_marker :: "string \<Rightarrow> string option \<Rightarrow> bool" where
  "has_marker marker b = (case b of None \<Rightarrow> False | Some f \<Rightarrow> py_in marker f)"

fun upto_first :: "('a \<Rightarrow> bool) \<Rightarrow> 'a list \<Rightarrow> bool list" where
  "upto_first P [] = []"
| "upto_first P (x # xs) = (if P x then [True] else False # upto_first P xs)"

lemma scan_all_exact:
  assumes "marker \<noteq> []" "scanned marker f sc" "readings_grow f bs"
  shows "scan_all marker bs sc = upto_first (has_marker marker) bs"
  using assms(2,3)
proof (induction bs arbitrary: f sc)
  case (Cons b bs)
  show ?case
  proof (cases b)
    case None
    then show ?thesis using Cons by (simp add: has_marker_def marker_scan_def readings_grow_def List.map_filter_def)
  next
    case (Some h)
    then obtain g where h: "h = f @ g" using Cons.prems(2) by (auto simp: readings_grow_def List.map_filter_def prefix_def)
    have gr: "readings_grow h bs" using Cons.prems(2) Some by (simp add: readings_grow_def List.map_filter_def)
    show ?thesis
      using marker_scan_step [OF assms(1) Cons.prems(1), of g] Cons.IH [OF _ gr] Some h
      by (auto simp: has_marker_def split: prod.split)
  qed
qed simp

lemma scanned_start: "marker \<noteq> [] \<Longrightarrow> scanned marker [] scan_start"
  by (simp add: scanned_def scan_start_def py_in_iff last_bytes_def)

subsection \<open>The reap\<close>

lemma kill_stray_iff:
  "g \<in> set (kill_stray_descendants own later es)
     \<longleftrightarrow> (\<exists>pid. (pid, Some g) \<in> set es \<and> g \<noteq> own \<and> later pid = Some g)"
  by (induction own later es rule: kill_stray_descendants.induct) auto

lemma live_scan_uncapped:
  "live_scan re pats None cs live ignored =
     (live @ map (\<lambda>c. (child_name c, ch_pid c))
        (filter (\<lambda>c. \<not> ch_zombie c \<and> find (\<lambda>p. re p (child_full c)) pats = None) (List.map_filter id cs)),
      ignored @ map (\<lambda>c. (child_name c, ch_pid c, the (find (\<lambda>p. re p (child_full c)) pats)))
        (filter (\<lambda>c. \<not> ch_zombie c \<and> find (\<lambda>p. re p (child_full c)) pats \<noteq> None) (List.map_filter id cs)))"
  by (induction re pats "None :: nat option" cs live ignored rule: live_scan.induct)
    (auto simp: List.map_filter_def below_def Let_def split: option.split)

text \<open>The snapshot holds every live descendant, however many there are.\<close>

lemma snapshot_complete:
  "snapshot_stray_descendants getpgid (Some cs) =
     map (\<lambda>c. (ch_pid c, getpgid (ch_pid c))) (filter (\<lambda>c. \<not> ch_zombie c) (List.map_filter id cs))"
  by (simp add: snapshot_stray_descendants_def live_children_def live_scan_uncapped capture_descendant_pgids_def comp_def)

definition reap_signals :: "posix_signal \<Rightarrow> run_act list \<Rightarrow> bool" where
  "reap_signals s acts \<longleftrightarrow> ReapAct (SignalGroup s) \<in> set acts \<and> ReapAct KillGroup \<in> set acts"

definition orphan_reports :: "run_act list \<Rightarrow> run_act list" where
  "orphan_reports acts = filter (\<lambda>a. case a of ReapAct (ReportOrphan r c s) \<Rightarrow> True | _ \<Rightarrow> False) acts"

lemma terminate_agent_signals:
  assumes "terminate_agent env s ob reported = (acts, reported', broke)"
  shows "rp_break ob = Some InSnapshot \<or> (SignalGroup s \<in> set acts \<and> KillGroup \<in> set acts)"
  using assms by (auto simp: terminate_agent_def kill_pgroup_def Let_def split: if_splits option.splits prod.splits)

subsection \<open>Runs of the loop\<close>

definition within_ceiling :: "run_env \<Rightarrow> run_tick \<Rightarrow> bool" where
  "within_ceiling env tk \<longleftrightarrow> at_poll tk = None \<and> at_now tk - re_start env \<le> real_of_int (re_timeout_s env)"

definition is_reap :: "run_act \<Rightarrow> bool" where
  "is_reap a \<longleftrightarrow> (case a of ReapAct r \<Rightarrow> True | RemoveCidDir \<Rightarrow> True | _ \<Rightarrow> False)"

text \<open>The ticks the loop passes through, with the acts and the state they leave.\<close>

fun run_prefix ::
  "(string \<Rightarrow> string \<Rightarrow> bool) \<Rightarrow> run_env \<Rightarrow> run_tick list \<Rightarrow> run_state \<Rightarrow> (run_act list \<times> run_state) option" where
  "run_prefix re_search env [] st = Some ([], st)"
| "run_prefix re_search env (tk # tks) st =
     (case run_step re_search env tk st of
        (acts, Inr e) \<Rightarrow> None
      | (acts, Inl st') \<Rightarrow> map_option (\<lambda>(more_acts, s). (acts @ more_acts, s)) (run_prefix re_search env tks st'))"

lemma run_loop_prefix:
  assumes "run_loop re env tks st = Some (acts, e)"
  shows "\<exists>pre tk post acts0 st' acts1. tks = pre @ tk # post \<and> run_prefix re env pre st = Some (acts0, st')
        \<and> run_step re env tk st' = (acts1, Inr e) \<and> acts = acts0 @ acts1"
  using assms
proof (induction tks arbitrary: st acts)
  case (Cons tk tks)
  obtain a r where s: "run_step re env tk st = (a, r)" by (cases "run_step re env tk st")
  show ?case
  proof (cases r)
    case (Inr e')
    then show ?thesis using Cons.prems s
      by (rule_tac exI [of _ "[]"], rule_tac exI [of _ tk]) simp
  next
    case (Inl st1)
    then obtain acts2 where a2: "run_loop re env tks st1 = Some (acts2, e)" "acts = a @ acts2"
      using Cons.prems s by auto
    obtain pre tk' post acts0 st' acts1 where p: "tks = pre @ tk' # post" "run_prefix re env pre st1 = Some (acts0, st')"
      "run_step re env tk' st' = (acts1, Inr e)" "acts2 = acts0 @ acts1"
      using Cons.IH [OF a2(1)] by blast
    have "run_prefix re env (tk # pre) st = Some (a @ acts0, st')" using s Inl p(2) by simp
    then show ?thesis using p(1,3,4) a2(2)
      by (rule_tac exI [of _ "tk # pre"], rule_tac exI [of _ tk']) auto
  qed
qed simp

lemma reap_and_raise_end: "reap_and_raise env ob rep = (acts, e) \<Longrightarrow> e = AgentRaised"
  by (auto simp: reap_and_raise_def split: prod.splits)

text \<open>A step the loop goes on from: the child runs within the ceiling, nothing was reaped.\<close>

lemma run_step_goes_on:
  assumes "run_step re env tk st = (acts, Inl st')"
  shows "within_ceiling env tk" and "list_all (\<lambda>a. \<not> is_reap a) acts"
    and "rs_seen st' = rs_seen (if re_max_grace env > 0 \<and> re_marker env \<noteq> [] then scan_step env tk st else st)"
    and "rs_scan st' = rs_scan (if re_max_grace env > 0 \<and> re_marker env \<noteq> [] then scan_step env tk st else st)"
  using assms
  by (auto simp: run_step_def Let_def within_ceiling_def is_reap_def progress_step_def list_all_iff
      split: if_splits option.splits prod.splits grace_verdict.splits)

lemma run_prefix_ticks:
  "run_prefix re env pre st = Some (acts, st') \<Longrightarrow>
     list_all (within_ceiling env) pre \<and> list_all (\<lambda>a. \<not> is_reap a) acts"
proof (induction pre arbitrary: st acts)
  case (Cons tk pre)
  then obtain a s1 acts1 where s: "run_step re env tk st = (a, Inl s1)" "run_prefix re env pre s1 = Some (acts1, st')"
    "acts = a @ acts1" by (auto split: prod.splits sum.splits)
  then show ?case using Cons.IH [OF s(2)] run_step_goes_on(1,2) [OF s(1)] by simp
qed simp

text \<open>What the loop knows of the log: the marker was seen in a tick it passed, or in no text read.\<close>

definition log_grows :: "string \<Rightarrow> run_tick list \<Rightarrow> bool" where
  "log_grows f tks \<longleftrightarrow> readings_grow f (map at_log tks)"

definition marker_known :: "run_env \<Rightarrow> run_tick list \<Rightarrow> string \<Rightarrow> run_state \<Rightarrow> bool" where
  "marker_known env past f st \<longleftrightarrow>
     (case rs_seen st of
        None \<Rightarrow> re_marker env \<noteq> [] \<longrightarrow> scanned (re_marker env) f (rs_scan st)
      | Some t \<Rightarrow> \<exists>q \<in> set past. at_now q = t \<and> has_marker (re_marker env) (at_log q))"

lemma readings_weaken: "readings_grow f (b # bs) \<Longrightarrow> readings_grow f bs"
  by (cases b) (auto simp: readings_grow_def List.map_filter_def)

lemma readings_next: "readings_grow f (Some h # bs) \<Longrightarrow> readings_grow h bs \<and> (\<exists>g. h = f @ g)"
  by (auto simp: readings_grow_def List.map_filter_def prefix_def)

lemma scan_step_seen:
  assumes "marker_known env past f st" "log_grows f (tk # tks)" "re_marker env \<noteq> []"
  shows "\<exists>f'. marker_known env (past @ [tk]) f' (scan_step env tk st) \<and> log_grows f' tks"
proof (cases "scan_due env st (at_now tk)")
  case False
  then have "marker_known env (past @ [tk]) f (scan_step env tk st)"
    using assms(1) by (auto simp: scan_step_def marker_known_def split: option.splits)
  then show ?thesis using assms(2) readings_weaken by (auto simp: log_grows_def)
next
  case due: True
  then have sc: "scanned (re_marker env) f (rs_scan st)" "rs_seen st = None"
    using assms(1,3) by (simp_all add: scan_due_def marker_known_def)
  show ?thesis
  proof (cases "at_log tk")
    case None
    then have "marker_known env (past @ [tk]) f (scan_step env tk st)"
      using sc due by (simp add: scan_step_def marker_known_def marker_scan_def)
    then show ?thesis using assms(2) readings_weaken by (auto simp: log_grows_def)
  next
    case (Some h)
    then obtain g where g: "h = f @ g" "log_grows h tks"
      using assms(2) readings_next [of f h "map at_log tks"] by (auto simp: log_grows_def)
    note m = marker_scan_step [OF assms(3) sc(1), of g]
    have "marker_known env (past @ [tk]) h (scan_step env tk st)"
    proof (cases "py_in (re_marker env) h")
      case True
      then show ?thesis using m(1) Some due g(1)
        by (auto simp: scan_step_def marker_known_def has_marker_def split: prod.split)
    next
      case False
      then show ?thesis using m Some due g(1)
        by (auto simp: scan_step_def marker_known_def split: prod.split)
    qed
    then show ?thesis using g(2) by blast
  qed
qed

lemma marker_known_cong: "rs_seen a = rs_seen b \<Longrightarrow> rs_scan a = rs_scan b \<Longrightarrow> marker_known env past f a = marker_known env past f b"
  by (simp add: marker_known_def split: option.split)

lemma run_prefix_seen:
  assumes "run_prefix re env pre st = Some (acts, st')" "marker_known env past f st" "log_grows f (pre @ post)"
    and "re_max_grace env > 0" "re_marker env \<noteq> []"
  shows "\<exists>f'. marker_known env (past @ pre) f' st' \<and> log_grows f' post"
  using assms(1-3)
proof (induction pre arbitrary: st acts past f)
  case Nil
  then show ?case by auto
next
  case (Cons tk pre)
  then obtain a s1 acts1 where s: "run_step re env tk st = (a, Inl s1)" "run_prefix re env pre s1 = Some (acts1, st')"
    by (auto split: prod.splits sum.splits)
  have g: "log_grows f (tk # (pre @ post))" using Cons.prems(3) by simp
  obtain f1 where f1: "marker_known env (past @ [tk]) f1 (scan_step env tk st)" "log_grows f1 (pre @ post)"
    using scan_step_seen [OF Cons.prems(2) g assms(5)] by blast
  have "marker_known env (past @ [tk]) f1 s1"
    using f1(1) marker_known_cong [of s1 "scan_step env tk st"] run_step_goes_on(3,4) [OF s(1)] assms(4,5) by simp
  from Cons.IH [OF s(2) this f1(2)] show ?case by simp
qed

text \<open>How a step ends the run.\<close>

definition grace_case :: "(string \<Rightarrow> string \<Rightarrow> bool) \<Rightarrow> run_env \<Rightarrow> run_tick \<Rightarrow> run_state \<Rightarrow> bool" where
  "grace_case re env tk st \<longleftrightarrow> within_ceiling env tk \<and> re_max_grace env > 0 \<and> re_marker env \<noteq> []
     \<and> grace_over env (scan_step env tk st) (at_now tk)
     \<and> fst (live_children re (re_patterns env) (Some 5) (at_table tk)) = []"

lemma run_step_result:
  assumes "run_step re env tk st = (acts, Inr (AgentResult rc dur timed_out grace))"
  shows "if \<not> timed_out then at_poll tk = Some rc \<and> dur = at_now tk - re_start env \<and> \<not> grace \<and> acts = []
    else at_poll tk = None
      \<and> hard_reap env tk grace = (acts, AgentResult rc dur True grace)
      \<and> (if grace then grace_case re env tk st else at_now tk - re_start env > real_of_int (re_timeout_s env))"
  using assms
  by (auto simp: run_step_def Let_def grace_case_def grace_check_def within_ceiling_def hard_reap_def
      dest!: reap_and_raise_end
      split: if_splits option.splits prod.splits grace_verdict.splits)

lemma hard_reap_signals:
  assumes "hard_reap env tk grace = (acts, AgentResult rc dur t g)"
  shows "reap_signals SIGTERM acts" and "rc = (case rp_code (at_reap tk) of Some rc \<Rightarrow> rc | None \<Rightarrow> -1)"
  using assms
  by (auto simp: hard_reap_def reap_signals_def terminate_agent_def kill_pgroup_def Let_def
      dest!: reap_and_raise_end split: if_splits option.splits prod.splits)

subsection \<open>Counting the orphan report\<close>

lemma kill_pgroup_no_report: "\<forall>a \<in> set (kill_pgroup own g s ob). \<forall>r c k. a \<noteq> ReportOrphan r c k"
  by (auto simp: kill_pgroup_def Let_def)

lemma orphan_reports_append [simp]: "orphan_reports (a @ b) = orphan_reports a @ orphan_reports b"
  by (simp add: orphan_reports_def)

lemma orphan_reports_none: "\<forall>a \<in> set acts. \<forall>r c k. a \<noteq> ReportOrphan r c k \<Longrightarrow> orphan_reports (map ReapAct acts) = []"
  unfolding orphan_reports_def filter_empty_conv by (auto split: reap_act.split)

lemma orphan_reports_simps [simp]:
  "orphan_reports [] = []"
  "orphan_reports (ReapAct (StopContainer argv) # acts) = orphan_reports acts"
  "orphan_reports (ReapAct (ReportOrphan r c k) # acts) = ReapAct (ReportOrphan r c k) # orphan_reports acts"
  "orphan_reports (RemoveCidDir # acts) = orphan_reports acts"
  by (simp_all add: orphan_reports_def)

lemma terminate_agent_reports:
  assumes "terminate_agent env s ob reported = (acts, reported', broke)"
  shows "length (orphan_reports (map ReapAct acts)) = (if reported' \<and> \<not> reported then 1 else 0)"
    and "reported \<longrightarrow> reported'"
    and "orphan_reports (map ReapAct acts) \<noteq> [] \<longrightarrow> re_runtime env \<noteq> None"
  using assms orphan_reports_none [OF kill_pgroup_no_report]
  by (auto simp: terminate_agent_def Let_def split: if_splits option.splits prod.splits)

lemma hard_reap_reports:
  assumes "hard_reap env tk grace = (acts, e)"
  shows "length (orphan_reports acts) \<le> 1" and "orphan_reports acts \<noteq> [] \<longrightarrow> re_runtime env \<noteq> None"
proof -
  obtain a1 r1 b1 where t1: "terminate_agent env SIGTERM (at_reap tk) False = (a1, r1, b1)" by (metis prod_cases3)
  obtain a2 r2 b2 where t2: "terminate_agent env (re_cooperative env) (at_reap_again tk) r1 = (a2, r2, b2)"
    by (metis prod_cases3)
  show "length (orphan_reports acts) \<le> 1"
    using assms terminate_agent_reports(1,2) [OF t1] terminate_agent_reports(1) [OF t2]
    by (auto simp: hard_reap_def reap_and_raise_def t1 t2 split: if_splits)
  show "orphan_reports acts \<noteq> [] \<longrightarrow> re_runtime env \<noteq> None"
    using assms terminate_agent_reports(3) [OF t1] terminate_agent_reports(3) [OF t2]
    by (auto simp: hard_reap_def reap_and_raise_def t1 t2 split: if_splits)
qed

lemma raise_reports:
  assumes "reap_and_raise env ob False = (acts, e)"
  shows "length (orphan_reports acts) \<le> 1" "orphan_reports acts \<noteq> [] \<longrightarrow> re_runtime env \<noteq> None" "e = AgentRaised"
proof -
  obtain a1 r1 b1 where t1: "terminate_agent env (re_cooperative env) ob False = (a1, r1, b1)" by (metis prod_cases3)
  show "length (orphan_reports acts) \<le> 1" "orphan_reports acts \<noteq> [] \<longrightarrow> re_runtime env \<noteq> None" "e = AgentRaised"
    using assms terminate_agent_reports(1,3) [OF t1] by (auto simp: reap_and_raise_def t1)
qed

lemma no_reports: "list_all (\<lambda>a. \<not> is_reap a) acts \<Longrightarrow> orphan_reports acts = []"
  by (auto simp: orphan_reports_def filter_empty_conv list_all_iff is_reap_def split: run_act.splits)

text \<open>The reaping acts of an ending step are those of one reap, or none.\<close>

lemma filter_ReapAct [simp]: "filter is_reap (map ReapAct acts) = map ReapAct acts"
  by (auto simp: filter_id_conv is_reap_def)

lemma reap_filter:
  "reap_and_raise env ob rep = (acts, e) \<Longrightarrow> filter is_reap acts = acts \<and> RemoveCidDir \<notin> set acts"
  "hard_reap env tk grace = (acts, e) \<Longrightarrow> filter is_reap acts = acts \<and> RemoveCidDir \<notin> set acts"
  by (auto simp: reap_and_raise_def hard_reap_def split: if_splits prod.splits)

lemma is_reap_simps [simp]: "\<not> is_reap (GraceExtended l i)" "\<not> is_reap (ProgressBeat a b c)" "is_reap (ReapAct r)"
  and is_reap_cid [simp]: "is_reap RemoveCidDir"
  by (simp_all add: is_reap_def)

lemma progress_filter: "progress_step env tk st = (acts, st') \<Longrightarrow> filter is_reap acts = []"
  by (auto simp: progress_step_def split: if_splits option.splits)

lemma run_step_ending:
  assumes "run_step re env tk st = (acts, Inr e)"
  shows "(filter is_reap acts = [] \<and> (\<exists>rc dur. e = AgentResult rc dur False False))
       \<or> reap_and_raise env (at_reap tk) False = (filter is_reap acts, e)
       \<or> (\<exists>grace. hard_reap env tk grace = (filter is_reap acts, e))"
proof -
  obtain b1 e1 where r: "reap_and_raise env (at_reap tk) False = (b1, e1)" by fastforce
  obtain b2 e2 where h: "hard_reap env tk False = (b2, e2)" by fastforce
  obtain b3 e3 where g: "hard_reap env tk True = (b3, e3)" by fastforce
  note f = reap_filter(1) [OF r] reap_filter(2) [OF h] reap_filter(2) [OF g]
  have "(filter is_reap acts = [] \<and> (\<exists>rc dur. e = AgentResult rc dur False False))
       \<or> (b1, e1) = (filter is_reap acts, e) \<or> (b2, e2) = (filter is_reap acts, e) \<or> (b3, e3) = (filter is_reap acts, e)"
    using assms f
    by (auto simp: run_step_def Let_def r h g dest: progress_filter
        split: if_splits option.splits prod.splits grace_verdict.splits)
  then show ?thesis using r h g by metis
qed

lemma reap_part:
  "orphan_reports (filter is_reap acts) = orphan_reports acts"
  "reap_signals s (filter is_reap acts) \<longleftrightarrow> reap_signals s acts"
  by (auto simp: orphan_reports_def reap_signals_def is_reap_def intro: filter_cong split: run_act.splits reap_act.splits)

definition reaped :: "run_env \<Rightarrow> run_act list \<Rightarrow> run_end \<Rightarrow> bool" where
  "reaped env acts e \<longleftrightarrow>
     (case e of
        AgentResult rc dur timed_out grace \<Rightarrow> timed_out \<longrightarrow> reap_signals SIGTERM acts
      | AgentRaised \<Rightarrow> reap_signals (re_cooperative env) acts)"

lemma reap_signals_append: "reap_signals s b \<Longrightarrow> reap_signals s (a @ b @ c)"
  by (auto simp: reap_signals_def)

lemma raise_reaped:
  assumes "reap_and_raise env ob rep = (acts, e)" "rp_break ob \<noteq> Some InSnapshot"
  shows "reap_signals (re_cooperative env) acts \<and> e = AgentRaised"
proof -
  obtain a r b where t: "terminate_agent env (re_cooperative env) ob rep = (a, r, b)" by (metis prod_cases3)
  then show ?thesis using assms terminate_agent_signals [OF t] by (auto simp: reap_and_raise_def reap_signals_def)
qed

lemma hard_reaped:
  assumes "hard_reap env tk grace = (acts, e)" "rp_break (at_reap tk) \<noteq> Some InSnapshot"
    "rp_break (at_reap_again tk) \<noteq> Some InSnapshot"
  shows "reaped env acts e"
proof -
  obtain a r b where t: "terminate_agent env SIGTERM (at_reap tk) False = (a, r, b)" by (metis prod_cases3)
  obtain a2 e2 where t2: "reap_and_raise env (at_reap_again tk) r = (a2, e2)" by fastforce
  show ?thesis
    using assms(1) terminate_agent_signals [OF t] assms(2) raise_reaped [OF t2 assms(3)]
    by (auto simp: hard_reap_def t t2 reaped_def reap_signals_def split: if_splits)
qed

lemma ending_reaped:
  assumes "run_step re env tk st = (acts, Inr e)" "rp_break (at_reap tk) \<noteq> Some InSnapshot"
    "rp_break (at_reap_again tk) \<noteq> Some InSnapshot"
  shows "reaped env acts e" and "length (orphan_reports acts) \<le> 1"
    and "orphan_reports acts \<noteq> [] \<longrightarrow> re_runtime env \<noteq> None \<and> (\<forall>rc dur g. e \<noteq> AgentResult rc dur False g)"
proof -
  let ?b = "filter is_reap acts"
  have h: "\<forall>rc dur g. e \<noteq> AgentResult rc dur False g" if "hard_reap env tk grace = (?b, e)" for grace
    using that by (auto simp: hard_reap_def dest!: reap_and_raise_end split: if_splits prod.splits)
  have "reaped env ?b e \<and> length (orphan_reports ?b) \<le> 1
      \<and> (orphan_reports ?b \<noteq> [] \<longrightarrow> re_runtime env \<noteq> None \<and> (\<forall>rc dur g. e \<noteq> AgentResult rc dur False g))"
    using run_step_ending [OF assms(1)]
  proof (elim disjE exE)
    assume "reap_and_raise env (at_reap tk) False = (?b, e)"
    then show ?thesis using raise_reaped [of env "at_reap tk" False ?b e] assms(2) raise_reports [of env "at_reap tk" ?b e]
      by (auto simp: reaped_def)
  next
    fix grace assume "hard_reap env tk grace = (?b, e)"
    then show ?thesis using hard_reaped [OF _ assms(2,3)] hard_reap_reports h by blast
  qed (auto simp: reaped_def)
  then show "reaped env acts e" "length (orphan_reports acts) \<le> 1"
    "orphan_reports acts \<noteq> [] \<longrightarrow> re_runtime env \<noteq> None \<and> (\<forall>rc dur g. e \<noteq> AgentResult rc dur False g)"
    by (simp_all add: reap_part reaped_def split: run_end.splits)
qed

subsection \<open>The properties of a run\<close>

definition cid_dir_ours :: "run_env \<Rightarrow> bool" where
  "cid_dir_ours env \<longleftrightarrow> re_cid_ours env \<and> re_cidfile env \<noteq> None"

lemma run_agent_spawned:
  assumes "run_agent re env True tks = Some (acts, e)"
  shows "\<exists>pre tk post acts0 st' acts1. tks = pre @ tk # post \<and> run_prefix re env pre (run_start env) = Some (acts0, st')
        \<and> run_step re env tk st' = (acts1, Inr e) \<and> acts = acts0 @ acts1 @ (if cid_dir_ours env then [RemoveCidDir] else [])"
  using assms run_loop_prefix [of re env tks "run_start env"]
  by (fastforce simp: run_agent_def cid_dir_ours_def)

text \<open>C5: a run of the agent that returns ends at the first poll that sees the exit or the ceiling, or at a grace kill: without a timeout the result is the child's own exit code and nothing is signalled; a timeout is reported exactly past the wall-clock budget, after SIGTERM and SIGKILL to the group; a grace kill only within the budget, when the log held the result marker at a poll more than the grace earlier and no live worker is left.\<close>

theorem agent_run_exact:
  assumes "run_agent re env True tks = Some (acts, AgentResult rc dur timed_out grace)" and "log_grows [] tks"
  shows "\<exists>pre tk post. tks = pre @ tk # post \<and> list_all (within_ceiling env) pre \<and>
    (if \<not> timed_out then at_poll tk = Some rc \<and> dur = at_now tk - re_start env \<and> \<not> grace
       \<and> (\<forall>a \<in> set acts. is_reap a \<longrightarrow> a = RemoveCidDir)
     else at_poll tk = None \<and> reap_signals SIGTERM acts
       \<and> rc = (case rp_code (at_reap tk) of Some rc \<Rightarrow> rc | None \<Rightarrow> -1)
       \<and> (if grace then within_ceiling env tk \<and> 0 < re_max_grace env
            \<and> (\<exists>q \<in> set (pre @ [tk]). has_marker (re_marker env) (at_log q)
                 \<and> at_now tk - at_now q > real_of_int (re_max_grace env))
            \<and> fst (live_children re (re_patterns env) (Some 5) (at_table tk)) = []
          else at_now tk - re_start env > real_of_int (re_timeout_s env)))"
proof -
  obtain pre tk post acts0 st' acts1 where p: "tks = pre @ tk # post"
    "run_prefix re env pre (run_start env) = Some (acts0, st')"
    "run_step re env tk st' = (acts1, Inr (AgentResult rc dur timed_out grace))"
    "acts = acts0 @ acts1 @ (if cid_dir_ours env then [RemoveCidDir] else [])"
    using run_agent_spawned [OF assms(1)] by blast
  note pre = run_prefix_ticks [OF p(2)] and r = run_step_result [OF p(3)]
  have marker: "\<exists>q \<in> set (pre @ [tk]). has_marker (re_marker env) (at_log q) \<and> at_now tk - at_now q > real_of_int (re_max_grace env)"
    if g: "grace_case re env tk st'"
  proof -
    have on: "re_max_grace env > 0" "re_marker env \<noteq> []" using g by (auto simp: grace_case_def)
    have start: "marker_known env [] [] (run_start env)" using scanned_start by (simp add: marker_known_def run_start_def)
    obtain f' where f: "marker_known env pre f' st'" "log_grows f' (tk # post)"
      using run_prefix_seen [OF p(2) start _ on, of "tk # post"] assms(2) p(1) by auto
    obtain f2 where "marker_known env (pre @ [tk]) f2 (scan_step env tk st')"
      using scan_step_seen [OF f on(2)] by blast
    then show ?thesis using g by (auto simp: grace_case_def grace_over_def marker_known_def split: option.splits)
  qed
  show ?thesis
  proof (cases timed_out)
    case False
    then show ?thesis using p pre r by (intro exI [of _ pre] exI [of _ tk] exI [of _ post]) (auto simp: list_all_iff)
  next
    case True
    then have h: "hard_reap env tk grace = (acts1, AgentResult rc dur True grace)" using r by simp
    have s: "reap_signals SIGTERM acts" using hard_reap_signals(1) [OF h] reap_signals_append p(4) by blast
    show ?thesis using True p(1) pre r s hard_reap_signals(2) [OF h] marker
      by (intro exI [of _ pre] exI [of _ tk] exI [of _ post]) (auto simp: grace_case_def)
  qed
qed


text \<open>C22: the hard wall ends every run: as soon as the observations hold a poll that sees the exit or a clock past the budget, whatever the log, the workers and the callbacks do before it, the run has ended.\<close>

theorem agent_run_ends:
  assumes "\<exists>tk \<in> set tks. \<not> within_ceiling env tk"
  shows "\<exists>acts e. run_agent re env True tks = Some (acts, e)"
proof -
  have "\<exists>acts e. run_loop re env tks st = Some (acts, e)" for st
    using assms
  proof (induction tks arbitrary: st)
    case (Cons tk tks)
    obtain a r where s: "run_step re env tk st = (a, r)" by (cases "run_step re env tk st")
    show ?case
    proof (cases r)
      case (Inl st')
      then show ?thesis using Cons s run_step_goes_on(1) by fastforce
    qed (use s in auto)
  qed simp
  then show ?thesis by (force simp: run_agent_def)
qed

text \<open>The marker scan keeps only a tail of the log between scans and misses nothing: over readings of a log that readings_grow, some of which may fail, each scan finds the marker exactly when the text read by then holds it, wherever the readings split it.\<close>

theorem marker_scan_exact:
  assumes "marker \<noteq> []" and "readings_grow [] bs"
  shows "scan_all marker bs scan_start = upto_first (has_marker marker) bs"
  by (rule scan_all_exact [OF assms(1) scanned_start [OF assms(1)] assms(2)])

text \<open>The stray reap kills exactly the process groups captured from the live descendants, however many, whose pid still belongs to that group, and never the supervisor's own group.\<close>

theorem stray_reap_exact:
  "g \<in> set (kill_stray_descendants own later (snapshot_stray_descendants earlier (Some cs))) \<longleftrightarrow>
     g \<noteq> own \<and> (\<exists>c. Some c \<in> set cs \<and> \<not> ch_zombie c \<and> earlier (ch_pid c) = Some g \<and> later (ch_pid c) = Some g)"
proof -
  have "c \<in> set (List.map_filter id cs) \<longleftrightarrow> Some c \<in> set cs" for c
    by (force simp: List.map_filter_def)
  then have mem: "(pid, Some g) \<in> set (snapshot_stray_descendants earlier (Some cs)) \<longleftrightarrow>
      (\<exists>c. Some c \<in> set cs \<and> \<not> ch_zombie c \<and> pid = ch_pid c \<and> earlier pid = Some g)" for pid
    by (auto simp: snapshot_complete image_iff)
  then show ?thesis unfolding kill_stray_iff mem by auto
qed

subsection \<open>Concrete runs\<close>

definition quiet_reap :: reap_obs where
  "quiet_reap = \<lparr>rp_table = Some [], rp_pgid_then = (\<lambda>p. None), rp_pgid_later = (\<lambda>p. None), rp_grace_wait = [WaitTimeout],
     rp_final_wait = [WaitInterrupted, WaitExited], rp_code = Some (-9), rp_clock = 12, rp_cidfile = None, rp_stop = None, rp_break = None\<rparr>"

definition quiet_tick :: "real \<Rightarrow> string option \<Rightarrow> run_tick" where
  "quiet_tick now bytes = \<lparr>at_poll = None, at_now = now, at_log = bytes, at_table = Some [], at_stat = None, at_epoch = 0,
     at_raise = None, at_reap = quiet_reap, at_reap_again = quiet_reap\<rparr>"

definition small_env :: run_env where
  "small_env = \<lparr>re_timeout_s = 60, re_max_grace = 5, re_marker = ''DONE'', re_progress_interval = 0, re_progress = False,
     re_patterns = [], re_reap_grace = 5, re_cooperative = SIGINT, re_runtime = None, re_cidfile = None, re_cid_ours = False,
     re_own_pgid = 1, re_report = True, re_start = 0\<rparr>"

text \<open>The marker is split between the second and the third reading.\<close>

definition split_ticks :: "run_tick list" where
  "split_ticks = [quiet_tick 2 (Some ''xD''), quiet_tick 4 (Some ''xDON''), quiet_tick 6 (Some ''xDONE''), quiet_tick 12 None]"

lemma split_run:
  "\<exists>acts. run_agent (\<lambda>p s. False) small_env True split_ticks = Some (acts, AgentResult (-9) 12 True True)"
  by (simp add: run_agent_def split_ticks_def run_step_def small_env_def quiet_tick_def run_start_def scan_step_def scan_due_def
      result_scan_interval_s_def marker_scan_def scan_start_def Let_def py_in_def py_startswith_def grace_check_def grace_over_def
      live_children_def progress_step_def hard_reap_def terminate_agent_def quiet_reap_def)

lemma split_grows: "log_grows [] split_ticks"
  by (simp add: log_grows_def readings_grow_def split_ticks_def quiet_tick_def List.map_filter_def)

theorem agent_run_exact_witness:
  "\<exists>acts. run_agent (\<lambda>p s. False) small_env True split_ticks = Some (acts, AgentResult (-9) 12 True True)
     \<and> reap_signals SIGTERM acts \<and> (\<exists>q \<in> set split_ticks. has_marker ''DONE'' (at_log q))"
proof -
  obtain acts where r: "run_agent (\<lambda>p s. False) small_env True split_ticks = Some (acts, AgentResult (-9) 12 True True)"
    using split_run by blast
  obtain pre tk post where sp: "split_ticks = pre @ tk # post" "reap_signals SIGTERM acts"
    "\<exists>q \<in> set (pre @ [tk]). has_marker (re_marker small_env) (at_log q)"
    using agent_run_exact [OF r split_grows] by auto
  moreover have "re_marker small_env = ''DONE''" by (simp add: small_env_def)
  ultimately have "reap_signals SIGTERM acts \<and> (\<exists>q \<in> set split_ticks. has_marker ''DONE'' (at_log q))"
    unfolding sp by auto
  then show ?thesis using r by blast
qed


theorem agent_run_ends_witness:
  "\<exists>acts e. run_agent (\<lambda>p s. False) small_env True [quiet_tick 1 None, quiet_tick 61 None] = Some (acts, e)"
  by (rule agent_run_ends) (simp add: within_ceiling_def quiet_tick_def small_env_def)

theorem marker_scan_exact_witness:
  "scan_all ''DONE'' [Some ''xD'', None, Some ''xDON'', Some ''xDONE'', Some ''xDONEy''] scan_start = [False, False, False, True]"
proof -
  have g: "readings_grow [] [Some ''xD'', None, Some ''xDON'', Some ''xDONE'', Some ''xDONEy'']"
    by (simp add: readings_grow_def List.map_filter_def)
  show ?thesis
    using marker_scan_exact [OF _ g, of "''DONE''"] by (simp add: has_marker_def py_in_def py_startswith_def)
qed

end
