(* ===== verification/Serve_Gate.thy ===== *)
theory Serve_Gate
  imports Serve_Round Phase_Select Throttle
begin

section \<open>Choosing what to launch (cli/serve\_cmd.py)\<close>

text \<open>
  The gates between the top of the serve loop and the launch of a round: the throttle gate in its
  two regimes (routing around throttled phases, or the back-off / stop of a single throttle), the
  schedule pause with and without phases, and \<open>_select_and_gate\<close>. \<open>isofmt\<close> is Python's
  \<open>isoformat\<close> of a local time in a zone. A stop request is a flag the signal handler sets: every
  read of it is an observation of the poll that makes it.
\<close>

subsection \<open>Payloads (\_emit/serve.py)\<close>

definition rate_limit_stop :: "clock \<Rightarrow> log_dir \<Rightarrow> log_dir" where
  "rate_limit_stop ck logd = emit_builtin ck ''agent_self_terminated'' [''reason'' \<mapsto> PStr ''rate_limit''] logd"

definition opt_text :: "string option \<Rightarrow> string" where
  "opt_text v = (case v of None \<Rightarrow> [] | Some s \<Rightarrow> s)"

text \<open>\<open>x or d\<close> for an optional text.\<close>

definition text_or :: "string option \<Rightarrow> string \<Rightarrow> string" where
  "text_or v d = (case v of None \<Rightarrow> d | Some s \<Rightarrow> if s = [] then d else s)"

definition schedule_paused_payload :: "string \<Rightarrow> string \<Rightarrow> string \<Rightarrow> string \<Rightarrow> event" where
  "schedule_paused_payload active_window resume_at timezone phase =
     [''active_window'' \<mapsto> PStr active_window, ''resume_at'' \<mapsto> PStr resume_at, ''timezone'' \<mapsto> PStr timezone]
     ++ (if phase = [] then Map.empty else [''phase'' \<mapsto> PStr phase])"

definition schedule_resumed_payload :: "clock \<Rightarrow> clock \<Rightarrow> event" where
  "schedule_resumed_payload t0 t1 = [''paused_for_s'' \<mapsto> PInt (py_trunc (ck_mono t1 - ck_mono t0))]"

text \<open>The skipped phases are one field; its list is kept as the text of the list.\<close>

definition phase_skipped_payload :: "(string list \<Rightarrow> string) \<Rightarrow> int \<Rightarrow> string list \<Rightarrow> string option \<Rightarrow> string \<Rightarrow> event" where
  "phase_skipped_payload list_repr round_num skipped chosen active_window =
     [''round_num'' \<mapsto> PInt round_num, ''skipped'' \<mapsto> PCompound (list_repr skipped),
      ''chosen'' \<mapsto> (case chosen of None \<Rightarrow> PNone | Some p \<Rightarrow> PStr p), ''active_window'' \<mapsto> PStr active_window]"

subsection \<open>The throttle gate\<close>

text \<open>Phase-aware scheduling: a phase list, and the skip policy or some per-phase schedule.\<close>

definition phase_list :: "config \<Rightarrow> string list" where
  "phase_list cfg = (case pc_list (cf_phases cfg) of None \<Rightarrow> [] | Some ps \<Rightarrow> ps)"

definition override_scheduled :: "config \<Rightarrow> bool" where
  "override_scheduled cfg \<longleftrightarrow> (\<exists>ov \<in> Map.ran (pc_overrides (cf_phases cfg)). ov_schedule ov \<noteq> None)"

definition phase_aware :: "config \<Rightarrow> bool" where
  "phase_aware cfg \<longleftrightarrow> phase_list cfg \<noteq> []
     \<and> (pc_phase_policy (cf_phases cfg) = PolicySkip \<or> override_scheduled cfg)"

definition skip_around :: "config \<Rightarrow> bool \<Rightarrow> bool" where
  "skip_around cfg ignore_schedule \<longleftrightarrow>
     phase_aware cfg \<and> pc_phase_policy (cf_phases cfg) = PolicySkip \<and> \<not> ignore_schedule"

definition agent_of_phase :: "config \<Rightarrow> string option \<Rightarrow> string option" where
  "agent_of_phase cfg phase = agent_binary (pr_agent (profile_for cfg phase))"

text \<open>\<open>active.get(binary)\<close>; a missing binary (\<open>None\<close>) is never a key.\<close>

definition throttle_of :: "(string \<times> transient_state) list \<Rightarrow> string option \<Rightarrow> transient_state option" where
  "throttle_of active binary = (case binary of None \<Rightarrow> None | Some b \<Rightarrow> map_of active b)"

definition skip_step ::
  "config \<Rightarrow> (string \<times> transient_state) list \<Rightarrow> string \<Rightarrow> string set \<times> int option \<Rightarrow> string set \<times> int option" where
  "skip_step cfg active phase acc =
     (case acc of (throttled, wake) \<Rightarrow>
      case throttle_of active (agent_of_phase cfg (Some phase)) of
        None \<Rightarrow> (throttled, wake)
      | Some st \<Rightarrow> (insert phase throttled,
                    Some (case wake of None \<Rightarrow> ts_reset_at_epoch st | Some w \<Rightarrow> min w (ts_reset_at_epoch st))))"

definition throttle_skip_context :: "clock \<Rightarrow> config \<Rightarrow> log_dir \<Rightarrow> (string set \<times> int option) \<times> log_dir" where
  "throttle_skip_context ck cfg logd =
     (let active = active_throttles logd (ck_epoch ck) Map.empty None
      in (fold (skip_step cfg active) (phase_list cfg) ({}, None), maybe_emit_recovered ck (Some active) logd))"

datatype gate = Proceed | BreakLoop

definition default_chunk_s :: real where "default_chunk_s = 30"

definition gate_throttle ::
  "back_off_env \<Rightarrow> clock \<Rightarrow> config \<Rightarrow> transient_state option \<Rightarrow> sleep_obs list \<Rightarrow> log_dir
     \<Rightarrow> (gate \<times> log_dir) option" where
  "gate_throttle env ck cfg throttle obs logd =
     (case throttle of
        None \<Rightarrow> Some (Proceed, logd)
      | Some t \<Rightarrow>
          (case rt_transient_error_action (cf_runtime cfg) of
             BackOff \<Rightarrow>
               (case apply_back_off env default_chunk_s t obs logd of
                  None \<Rightarrow> None
                | Some (True, logd') \<Rightarrow> Some (BreakLoop, logd')
                | Some (False, logd') \<Rightarrow> Some (Proceed, logd'))
           | StopServe \<Rightarrow> Some (BreakLoop, rate_limit_stop ck logd)
           | SkipAround \<Rightarrow> Some (Proceed, logd)))"

record throttle_obs =
  tg_clock :: clock
  tg_back_off :: back_off_env
  tg_sleep :: "sleep_obs list"

text \<open>\<open>None\<close> in the first component is the string \<open>"break"\<close>.\<close>

definition round_throttle_gate ::
  "config \<Rightarrow> bool \<Rightarrow> throttle_obs \<Rightarrow> log_dir \<Rightarrow> ((string set \<times> int option) option \<times> log_dir) option" where
  "round_throttle_gate cfg ignore_schedule ob logd =
     (if skip_around cfg ignore_schedule then
        (case throttle_skip_context (tg_clock ob) cfg logd of (ctx, logd') \<Rightarrow> Some (Some ctx, logd'))
      else (case gate_throttle (tg_back_off ob) (tg_clock ob) cfg
                   (check_throttle_state logd (ck_epoch (tg_clock ob))) (tg_sleep ob) logd of
              None \<Rightarrow> None
            | Some (BreakLoop, logd') \<Rightarrow> Some (None, logd')
            | Some (Proceed, logd') \<Rightarrow> Some (Some ({}, None), logd')))"

subsection \<open>Pausing for a schedule\<close>

definition schedule_open :: "schedule_config \<Rightarrow> (string option \<Rightarrow> ldt) \<Rightarrow> bool" where
  "schedule_open sched now_fn = should_run (sc_run_windows sched) (sc_pause_windows sched) (now_fn (sc_timezone sched))"

text \<open>A predicate without state, as \<open>pause_poll\<close> asks it.\<close>

definition pure_runnable :: "('o \<Rightarrow> bool) \<Rightarrow> unit \<Rightarrow> 'o \<Rightarrow> bool \<times> unit" where
  "pure_runnable f s x = (f x, ())"

record 'o pause_obs =
  po_polls :: "'o poll list"
  po_start :: clock
  po_end :: clock

definition paused_for ::
  "('o \<Rightarrow> bool) \<Rightarrow> event \<Rightarrow> 'o pause_obs \<Rightarrow> log_dir \<Rightarrow> log_dir option" where
  "paused_for runnable payload ob logd =
     (let logd1 = emit_builtin (po_start ob) SCHEDULE_PAUSED payload logd in
      case pause_poll (pure_runnable runnable) () (po_polls ob) of
        None \<Rightarrow> None
      | Some (True, _) \<Rightarrow> Some (emit_builtin (po_end ob) ''schedule_resumed''
                            (schedule_resumed_payload (po_start ob) (po_end ob)) logd1)
      | Some (False, _) \<Rightarrow> Some logd1)"

definition maybe_pause_for_schedule ::
  "(string option \<Rightarrow> ldt \<Rightarrow> string) \<Rightarrow> config \<Rightarrow> (string option \<Rightarrow> ldt) \<Rightarrow> (string option \<Rightarrow> ldt) pause_obs \<Rightarrow> log_dir
     \<Rightarrow> (bool \<times> log_dir) option" where
  "maybe_pause_for_schedule isofmt cfg now_fn ob logd =
     (let sched = cf_schedule cfg in
      if \<not> schedule_enabled sched then Some (False, logd)
      else (let decision = evaluate (sc_run_windows sched) (sc_pause_windows sched) (now_fn (sc_timezone sched)) in
            if \<not> pd_paused decision then Some (False, logd)
            else map_option (Pair True)
              (paused_for (schedule_open sched)
                (schedule_paused_payload (opt_text (pd_active_window decision))
                   (case pd_resume_at decision of None \<Rightarrow> [] | Some t \<Rightarrow> isofmt (sc_timezone sched) t)
                   (text_or (sc_timezone sched) ''local'') []) ob logd)))"

text \<open>\<open>_pause_until_selectable\<close>; an observation is the epoch and the clock in every zone.\<close>

definition pause_candidates :: "config \<Rightarrow> int \<Rightarrow> string set \<Rightarrow> schedule_config list" where
  "pause_candidates cfg round_num throttled =
     map (\<lambda>p. pr_schedule (profile_for cfg p))
       (filter (\<lambda>p. case p of None \<Rightarrow> True | Some q \<Rightarrow> q \<notin> throttled) (candidate_phases cfg round_num))"

definition selectable ::
  "config \<Rightarrow> int \<Rightarrow> string set \<Rightarrow> int option \<Rightarrow> real \<times> (string option \<Rightarrow> ldt) \<Rightarrow> bool" where
  "selectable cfg round_num throttled wake ob =
     (case ob of (now, now_fn) \<Rightarrow>
        (case wake of None \<Rightarrow> False | Some w \<Rightarrow> now \<ge> real_of_int w)
        \<or> list_ex (\<lambda>sched. schedule_open sched now_fn) (pause_candidates cfg round_num throttled))"

definition pause_until_selectable ::
  "(string option \<Rightarrow> ldt \<Rightarrow> string) \<Rightarrow> config \<Rightarrow> int \<Rightarrow> selection \<Rightarrow> string set \<Rightarrow> int option
     \<Rightarrow> (real \<times> (string option \<Rightarrow> ldt)) pause_obs \<Rightarrow> log_dir \<Rightarrow> log_dir option" where
  "pause_until_selectable isofmt cfg round_num sel throttled wake ob logd =
     paused_for (selectable cfg round_num throttled wake)
       (schedule_paused_payload (opt_text (sl_active_window sel))
          (case sl_resume_at sel of None \<Rightarrow> [] | Some z \<Rightarrow> isofmt (zd_zone z) (zd_local z))
          (text_or (sl_resume_timezone sel) ''local'') (opt_text (sl_resume_phase sel))) ob logd"

subsection \<open>Selecting\<close>

datatype selected = PausedContinue | Launch "string option"

record select_obs =
  so_memory :: mem_gate_obs
  so_now :: "string option \<Rightarrow> ldt"
  so_clock :: clock
  so_schedule :: "(string option \<Rightarrow> ldt) pause_obs"
  so_phases :: "(real \<times> (string option \<Rightarrow> ldt)) pause_obs"

text \<open>
  \<open>_select_and_gate\<close>: what to do, whether the supervisor itself requested a stop, the memory gate's
  previous sample and the log.
\<close>

definition select_and_gate ::
  "(real \<Rightarrow> string) \<Rightarrow> (string option \<Rightarrow> ldt \<Rightarrow> string) \<Rightarrow> (string list \<Rightarrow> string) \<Rightarrow> (string option \<Rightarrow> ldt \<Rightarrow> int)
     \<Rightarrow> config \<Rightarrow> bool \<Rightarrow> int \<Rightarrow> string set \<Rightarrow> int option \<Rightarrow> select_obs \<Rightarrow> sample option \<Rightarrow> log_dir
     \<Rightarrow> (selected \<times> bool \<times> sample option \<times> log_dir) option" where
  "select_and_gate num isofmt list_repr utc_off cfg ignore_schedule round_num throttled wake ob prev logd =
     (case maybe_pause_for_memory_pressure num (mo_host_health (cf_monitor cfg)) prev (so_memory ob) logd of
        None \<Rightarrow> None
      | Some (True, prev', logd') \<Rightarrow> Some (PausedContinue, False, prev', logd')
      | Some (False, prev', logd') \<Rightarrow>
          if ignore_schedule then Some (Launch None, False, prev', logd')
          else if \<not> phase_aware cfg then
            (case maybe_pause_for_schedule isofmt cfg (so_now ob) (so_schedule ob) logd' of
               None \<Rightarrow> None
             | Some (True, logd2) \<Rightarrow> Some (PausedContinue, False, prev', logd2)
             | Some (False, logd2) \<Rightarrow> Some (Launch None, False, prev', logd2))
          else
            (let sel = select_phase utc_off cfg round_num throttled (so_now ob) in
             if sl_paused sel then
               if throttled \<noteq> {} \<and> rt_transient_error_action (cf_runtime cfg) = StopServe
               then Some (PausedContinue, True, prev', rate_limit_stop (so_clock ob) logd')
               else map_option (\<lambda>logd2. (PausedContinue, False, prev', logd2))
                      (pause_until_selectable isofmt cfg round_num sel throttled wake (so_phases ob) logd')
             else Some (Launch (sl_phase sel), False, prev',
                    (if sl_skipped sel = [] then logd'
                     else emit_builtin (so_clock ob) ''schedule_phase_skipped''
                            (phase_skipped_payload list_repr round_num (sl_skipped sel) (sl_phase sel)
                               (opt_text (sl_active_window sel))) logd'))))"

subsection \<open>Routing around throttled phases\<close>

definition phase_throttle :: "config \<Rightarrow> (string \<times> transient_state) list \<Rightarrow> string \<Rightarrow> transient_state option" where
  "phase_throttle cfg active p = throttle_of active (agent_of_phase cfg (Some p))"

definition earliest :: "int set \<Rightarrow> int option \<Rightarrow> bool" where
  "earliest rs w \<longleftrightarrow> (case w of None \<Rightarrow> rs = {} | Some m \<Rightarrow> m \<in> rs \<and> (\<forall>r \<in> rs. m \<le> r))"

lemma skip_fold:
  "earliest R w \<Longrightarrow> case fold (skip_step cfg active) ps (T, w) of (T', w') \<Rightarrow>
     T' = T \<union> {p \<in> set ps. phase_throttle cfg active p \<noteq> None}
     \<and> earliest (R \<union> {ts_reset_at_epoch st | p st. p \<in> set ps \<and> phase_throttle cfg active p = Some st}) w'"
proof (induction ps arbitrary: T w R)
  case (Cons p ps)
  show ?case
  proof (cases "phase_throttle cfg active p")
    case None
    then have "skip_step cfg active p (T, w) = (T, w)" by (simp add: skip_step_def phase_throttle_def)
    moreover have "{ts_reset_at_epoch st | q st. q \<in> set (p # ps) \<and> phase_throttle cfg active q = Some st}
        = {ts_reset_at_epoch st | q st. q \<in> set ps \<and> phase_throttle cfg active q = Some st}"
      using None by auto
    moreover have "{q \<in> set (p # ps). phase_throttle cfg active q \<noteq> None} = {q \<in> set ps. phase_throttle cfg active q \<noteq> None}"
      using None by auto
    ultimately show ?thesis using Cons.IH [OF Cons.prems, of T] by simp
  next
    case (Some st)
    define w1 where "w1 = Some (case w of None \<Rightarrow> ts_reset_at_epoch st | Some v \<Rightarrow> min v (ts_reset_at_epoch st))"
    have s: "skip_step cfg active p (T, w) = (insert p T, w1)"
      using Some by (simp add: skip_step_def phase_throttle_def w1_def)
    have e: "earliest (insert (ts_reset_at_epoch st) R) w1"
      using Cons.prems by (auto simp: earliest_def w1_def min_def split: option.splits)
    have sets: "insert (ts_reset_at_epoch st) R \<union> {ts_reset_at_epoch st | q st. q \<in> set ps \<and> phase_throttle cfg active q = Some st}
        = R \<union> {ts_reset_at_epoch st | q st. q \<in> set (p # ps) \<and> phase_throttle cfg active q = Some st}"
      "insert p T \<union> {q \<in> set ps. phase_throttle cfg active q \<noteq> None} = T \<union> {q \<in> set (p # ps). phase_throttle cfg active q \<noteq> None}"
      using Some by auto
    show ?thesis using Cons.IH [OF e, of "insert p T"] s unfolding sets by simp
  qed
qed simp

text \<open>The throttle gate: a configuration that routes around throttles excludes exactly the phases
  whose agent is throttled, wakes at the earliest of their resets and only writes the recovery
  breadcrumbs; every other one excludes nothing and, for a throttle, backs off (breaking on an
  interruption), stops with a rate-limit event, or goes on unchanged as its action says.\<close>

theorem throttle_gate_regimes:
  assumes run: "round_throttle_gate cfg ignore ob logd = Some (g, logd')"
  shows "(skip_around cfg ignore \<longrightarrow> (\<exists>T w. g = Some (T, w)
       \<and> T = {p \<in> set (phase_list cfg). phase_throttle cfg (active_throttles logd (ck_epoch (tg_clock ob)) Map.empty None) p \<noteq> None}
       \<and> earliest {ts_reset_at_epoch st | p st. p \<in> set (phase_list cfg)
            \<and> phase_throttle cfg (active_throttles logd (ck_epoch (tg_clock ob)) Map.empty None) p = Some st} w
       \<and> logd' = maybe_emit_recovered (tg_clock ob) (Some (active_throttles logd (ck_epoch (tg_clock ob)) Map.empty None)) logd))
    \<and> (\<not> skip_around cfg ignore \<longrightarrow> (case check_throttle_state logd (ck_epoch (tg_clock ob)) of
         None \<Rightarrow> g = Some ({}, None) \<and> logd' = logd
       | Some t \<Rightarrow> (case rt_transient_error_action (cf_runtime cfg) of
            BackOff \<Rightarrow> apply_back_off (tg_back_off ob) 30 t (tg_sleep ob) logd = Some (g = None, logd') \<and> (g = None \<or> g = Some ({}, None))
          | StopServe \<Rightarrow> g = None \<and> logd' = rate_limit_stop (tg_clock ob) logd
          | SkipAround \<Rightarrow> g = Some ({}, None) \<and> logd' = logd)))"
proof (cases "skip_around cfg ignore")
  case True
  let ?active = "active_throttles logd (ck_epoch (tg_clock ob)) Map.empty None"
  obtain T w where f: "fold (skip_step cfg ?active) (phase_list cfg) ({}, None) = (T, w)" by fastforce
  then have "g = Some (T, w)" "logd' = maybe_emit_recovered (tg_clock ob) (Some ?active) logd"
    using run True by (simp_all add: round_throttle_gate_def throttle_skip_context_def Let_def)
  moreover have "earliest {} None" by (simp add: earliest_def)
  from skip_fold [OF this, where cfg = cfg and active = ?active and ps = "phase_list cfg" and T = "{}"] f
  have "T = {p \<in> set (phase_list cfg). phase_throttle cfg ?active p \<noteq> None}"
    "earliest {ts_reset_at_epoch st | p st. p \<in> set (phase_list cfg) \<and> phase_throttle cfg ?active p = Some st} w"
    by auto
  ultimately show ?thesis using True by simp
next
  case False
  show ?thesis
  proof (cases "check_throttle_state logd (ck_epoch (tg_clock ob))")
    case None
    then show ?thesis using run False by (simp add: round_throttle_gate_def gate_throttle_def)
  next
    case (Some t)
    then show ?thesis using run False
      by (cases "rt_transient_error_action (cf_runtime cfg)")
        (auto simp: round_throttle_gate_def gate_throttle_def default_chunk_s_def split: option.splits bool.splits gate.splits)
  qed
qed

subsection \<open>Pausing\<close>

text \<open>
  The contract of a predicate \<open>_pause_poll\<close> can wait for: its answer depends on the reading only.
  Under it the pause ends at the first reading that is open or interrupted.
\<close>

locale pause_predicate =
  fixes runnable :: "'s \<Rightarrow> 'o \<Rightarrow> bool \<times> 's" and opens :: "'o \<Rightarrow> bool"
  assumes answers: "fst (runnable s x) = opens x"
begin

lemma pause_opened_first:
  assumes "pause_poll runnable s obs = Some (opened, s')"
  shows "\<exists>i < length obs. (\<forall>j < i. \<not> poll_interrupted (obs ! j) \<and> \<not> opens (pl_seen (obs ! j)))
    \<and> (if opened then \<not> poll_interrupted (obs ! i) \<and> opens (pl_seen (obs ! i)) else poll_interrupted (obs ! i))"
proof -
  from assms [unfolded pause_poll_exact] obtain i where i: "i < length obs"
    and b: "\<forall>j < i. \<not> poll_interrupted (obs ! j) \<and> \<not> fst (runnable (poll_states runnable s obs ! j) (pl_seen (obs ! j)))"
    and a: "if opened then \<not> poll_interrupted (obs ! i)
             \<and> runnable (poll_states runnable s obs ! i) (pl_seen (obs ! i)) = (True, s')
          else poll_interrupted (obs ! i) \<and> s' = poll_states runnable s obs ! i" by blast
  have "opened \<Longrightarrow> opens (pl_seen (obs ! i))"
    using a answers [of "poll_states runnable s obs ! i" "pl_seen (obs ! i)"] by simp
  then show ?thesis using i a b by (intro exI [of _ i]) (auto simp: answers)
qed

lemma pause_ends:
  assumes "i < length obs" "opens (pl_seen (obs ! i)) \<or> poll_interrupted (obs ! i)"
  shows "pause_poll runnable s obs \<noteq> None"
  using assms
proof (induction obs arbitrary: s i)
  case (Cons ob obs)
  obtain b s1 where f: "runnable s (pl_seen ob) = (b, s1)" by fastforce
  show ?case
  proof (cases i)
    case 0
    then show ?thesis using Cons.prems f answers [of s "pl_seen ob"]
      by (auto simp: poll_interrupted_def split: bool.splits)
  next
    case (Suc k)
    then show ?thesis using Cons.IH [of k s1] Cons.prems f by (auto split: bool.splits)
  qed
qed simp

end

interpretation pure_pause: pause_predicate "pure_runnable f" f for f
  by unfold_locales (simp add: pure_runnable_def)

lemma paused_for_events:
  assumes run: "paused_for f p ob logd = Some logd'"
    and m: "ck_month (po_start ob) = m" "ck_month (po_end ob) = m" "current_newest m logd" "''event'' \<notin> dom p"
  shows "\<exists>i < length (po_polls ob). \<exists>d. is_kind d SCHEDULE_PAUSED
     \<and> (\<forall>j < i. \<not> poll_interrupted (po_polls ob ! j) \<and> \<not> f (pl_seen (po_polls ob ! j)))
     \<and> (if poll_interrupted (po_polls ob ! i) then tail_events logd' = tail_events logd @ [d]
        else f (pl_seen (po_polls ob ! i))
          \<and> (\<exists>r. is_kind r SCHEDULE_RESUMED \<and> tail_events logd' = tail_events logd @ [d, r]))"
proof -
  obtain d where d: "is_kind d SCHEDULE_PAUSED" "current_newest m (emit_builtin (po_start ob) SCHEDULE_PAUSED p logd)"
    "tail_events (emit_builtin (po_start ob) SCHEDULE_PAUSED p logd) = tail_events logd @ [d]"
    using emit_builtin_tail [of "po_start ob" logd p SCHEDULE_PAUSED] m by auto
  obtain opened s where pp: "pause_poll (pure_runnable f) () (po_polls ob) = Some (opened, s)"
    using run by (auto simp: paused_for_def Let_def split: option.splits)
  from pure_pause.pause_opened_first [OF pp] obtain i where i: "i < length (po_polls ob)"
    "\<forall>j < i. \<not> poll_interrupted (po_polls ob ! j) \<and> \<not> f (pl_seen (po_polls ob ! j))"
    "if opened then \<not> poll_interrupted (po_polls ob ! i) \<and> f (pl_seen (po_polls ob ! i)) else poll_interrupted (po_polls ob ! i)"
    by blast
  show ?thesis
  proof (cases opened)
    case True
    then have "logd' = emit_builtin (po_end ob) SCHEDULE_RESUMED (schedule_resumed_payload (po_start ob) (po_end ob))
        (emit_builtin (po_start ob) SCHEDULE_PAUSED p logd)"
      using run pp by (simp add: paused_for_def Let_def)
    then obtain r where "is_kind r SCHEDULE_RESUMED" "tail_events logd' = tail_events logd @ [d, r]"
      using emit_builtin_tail [of "po_end ob" "emit_builtin (po_start ob) SCHEDULE_PAUSED p logd"
          "schedule_resumed_payload (po_start ob) (po_end ob)" SCHEDULE_RESUMED] d m
      by (auto simp: schedule_resumed_payload_def)
    then show ?thesis using i True d(1) by (intro exI [of _ i]) auto
  next
    case False
    then have "logd' = emit_builtin (po_start ob) SCHEDULE_PAUSED p logd"
      using run pp by (simp add: paused_for_def Let_def)
    then show ?thesis using i False d by (intro exI [of _ i]) auto
  qed
qed

lemma schedule_paused_dom: "''event'' \<notin> dom (schedule_paused_payload a b c d)"
  by (simp add: schedule_paused_payload_def dom_def)

text \<open>The phase-aware pause ends at the first poll that is interrupted or selectable, and wakes only
  because the throttle reset passed or an unthrottled candidate's window is open: never for the open
  window of a throttled phase. It writes one \<open>schedule_paused\<close>, and a \<open>schedule_resumed\<close> only when it woke.\<close>

theorem phase_pause_exact:
  assumes run: "pause_until_selectable isofmt cfg rn sel thr wake ob logd = Some logd'"
    and m: "ck_month (po_start ob) = m" "ck_month (po_end ob) = m" "current_newest m logd"
  shows "\<exists>i < length (po_polls ob). \<exists>d. is_kind d SCHEDULE_PAUSED
     \<and> (\<forall>j < i. \<not> poll_interrupted (po_polls ob ! j) \<and> \<not> selectable cfg rn thr wake (pl_seen (po_polls ob ! j)))
     \<and> (if poll_interrupted (po_polls ob ! i) then tail_events logd' = tail_events logd @ [d]
        else (\<exists>r. is_kind r SCHEDULE_RESUMED \<and> tail_events logd' = tail_events logd @ [d, r])
          \<and> ((\<exists>w. wake = Some w \<and> real_of_int w \<le> fst (pl_seen (po_polls ob ! i)))
             \<or> (\<exists>p \<in> set (candidate_phases cfg rn). \<not> phase_throttled thr p
                  \<and> schedule_open (phase_schedule cfg p) (snd (pl_seen (po_polls ob ! i))))))"
proof -
  have "(case p of None \<Rightarrow> True | Some q \<Rightarrow> q \<notin> thr) \<longleftrightarrow> \<not> phase_throttled thr p" for p
    by (simp add: phase_throttled_def split: option.split)
  then have cand: "set (pause_candidates cfg rn thr) = phase_schedule cfg ` {p \<in> set (candidate_phases cfg rn). \<not> phase_throttled thr p}"
    by (auto simp: pause_candidates_def phase_schedule_def)
  have sel: "selectable cfg rn thr wake x \<longleftrightarrow> (\<exists>w. wake = Some w \<and> real_of_int w \<le> fst x)
      \<or> (\<exists>p \<in> set (candidate_phases cfg rn). \<not> phase_throttled thr p \<and> schedule_open (phase_schedule cfg p) (snd x))" for x
    unfolding selectable_def list_ex_iff cand by (cases x) (auto split: option.splits)
  from paused_for_events [OF run [unfolded pause_until_selectable_def] m schedule_paused_dom]
  obtain i d where i: "i < length (po_polls ob)" "is_kind d SCHEDULE_PAUSED"
     "\<forall>j < i. \<not> poll_interrupted (po_polls ob ! j) \<and> \<not> selectable cfg rn thr wake (pl_seen (po_polls ob ! j))"
     "if poll_interrupted (po_polls ob ! i) then tail_events logd' = tail_events logd @ [d]
        else selectable cfg rn thr wake (pl_seen (po_polls ob ! i))
          \<and> (\<exists>r. is_kind r SCHEDULE_RESUMED \<and> tail_events logd' = tail_events logd @ [d, r])" by blast
  show ?thesis
    by (rule exI [of _ i], intro conjI exI [of _ d])
      (use i sel [of "pl_seen (po_polls ob ! i)"] in \<open>auto split: if_splits\<close>)
qed



subsection \<open>What may be launched\<close>

lemma select_phase_find:
  "case find (phase_runnable cfg thr now_fn) (candidate_phases cfg r) of
     Some p \<Rightarrow> \<not> sl_paused (select_phase off cfg r thr now_fn) \<and> sl_phase (select_phase off cfg r thr now_fn) = p
   | None \<Rightarrow> sl_paused (select_phase off cfg r thr now_fn)"
proof -
  obtain rw where s: "select_phase off cfg r thr now_fn =
    (case find (phase_runnable cfg thr now_fn) (candidate_phases cfg r) of
       Some p \<Rightarrow> \<lparr>sl_phase = p, sl_paused = False, sl_resume_at = None, sl_resume_phase = None,
                 sl_resume_timezone = None,
                 sl_skipped = [] @ List.map_filter id (takeWhile (\<lambda>p. \<not> phase_runnable cfg thr now_fn p) (candidate_phases cfg r)),
                 sl_active_window = rw\<rparr>
     | None \<Rightarrow> select_loop off cfg thr now_fn 0 [] [] rw (fold (best_step off cfg thr now_fn) (candidate_phases cfg r) None))"
    using select_loop_find unfolding select_phase_def by blast
  have "sl_paused (select_loop off cfg thr now_fn i [] sk rw b)" for i sk rw b
    by (auto split: option.splits)
  then show ?thesis unfolding s by (auto split: option.splits)
qed

lemma candidates_named: "phase_aware cfg \<Longrightarrow> p \<in> set (candidate_phases cfg r) \<Longrightarrow> \<exists>q \<in> set (phase_list cfg). p = Some q"
proof -
  assume a: "phase_aware cfg" "p \<in> set (candidate_phases cfg r)"
  then obtain ps where ps: "pc_list (cf_phases cfg) = Some ps" "ps \<noteq> []"
    by (auto simp: phase_aware_def phase_list_def split: option.splits)
  have "rotation_index r (length ps) < length ps" using ps(2) by (simp add: rotation_index_less)
  then show ?thesis using a(2) ps
    by (auto simp: candidate_phases_def phase_list_def Let_def split: if_splits)
qed

lemma no_schedule_open: "\<not> schedule_enabled sched \<Longrightarrow> schedule_open sched now_fn"
  by (simp add: schedule_enabled_def schedule_open_def should_run_def)

lemma schedule_pause_verdict:
  "maybe_pause_for_schedule isofmt cfg now_fn ob logd = Some (paused, logd') \<Longrightarrow>
    (paused \<longleftrightarrow> \<not> schedule_open (cf_schedule cfg) now_fn) \<and> (\<not> paused \<longrightarrow> logd' = logd)"
  using no_schedule_open [of "cf_schedule cfg" now_fn]
  by (auto simp: maybe_pause_for_schedule_def schedule_open_def evaluate_def Let_def split: if_splits)

lemma memory_gate_verdict:
  assumes "maybe_pause_for_memory_pressure num cfg prev ob logd = Some (deferred, prev', logd')"
  shows "(deferred \<longleftrightarrow> critical_after cfg prev (mg_first ob)) \<and> (\<not> deferred \<longrightarrow> logd' = logd \<and> prev' = Some (mg_first ob))"
proof -
  have c: "critical_after cfg prev (mg_first ob) \<longleftrightarrow> is_critical (fst (memory_pressure_now cfg prev (mg_first ob)))"
    "snd (memory_pressure_now cfg prev (mg_first ob)) = Some (mg_first ob)"
    by (simp_all add: critical_after_def memory_pressure_now_def)
  show ?thesis using assms c
    by (cases "memory_pressure_now cfg prev (mg_first ob)")
      (auto simp: maybe_pause_for_memory_pressure_def is_critical_def Let_def split: option.splits if_splits bool.splits)
qed

definition something_runnable :: "config \<Rightarrow> bool \<Rightarrow> int \<Rightarrow> string set \<Rightarrow> (string option \<Rightarrow> ldt) \<Rightarrow> bool" where
  "something_runnable cfg ignore rn thr now_fn \<longleftrightarrow>
     ignore \<or> (if phase_aware cfg then find (phase_runnable cfg thr now_fn) (candidate_phases cfg rn) \<noteq> None
               else schedule_open (cf_schedule cfg) now_fn)"

definition launched_phase :: "config \<Rightarrow> bool \<Rightarrow> int \<Rightarrow> string set \<Rightarrow> (string option \<Rightarrow> ldt) \<Rightarrow> string option" where
  "launched_phase cfg ignore rn thr now_fn =
     (if ignore \<or> \<not> phase_aware cfg then None
      else the (find (phase_runnable cfg thr now_fn) (candidate_phases cfg rn)))"

text \<open>C9: what a round may launch: exactly when memory is not critical and something is runnable
  (\<open>--ignore-schedule\<close> bypasses the schedule but not the memory gate), the phase being the first
  runnable candidate, hence listed, not throttled and inside its windows. The gate requests a stop
  exactly when phases are all closed or throttled, some is throttled and the action says stop.\<close>

theorem launch_exact:
  assumes run: "select_and_gate num isofmt repr off cfg ignore rn thr wake ob prev logd = Some (sel, stop, prev', logd')"
  shows "sel = (if critical_after (mo_host_health (cf_monitor cfg)) prev (mg_first (so_memory ob))
        \<or> \<not> something_runnable cfg ignore rn thr (so_now ob) then PausedContinue
      else Launch (launched_phase cfg ignore rn thr (so_now ob)))
    \<and> (stop \<longleftrightarrow> \<not> critical_after (mo_host_health (cf_monitor cfg)) prev (mg_first (so_memory ob))
        \<and> \<not> something_runnable cfg ignore rn thr (so_now ob) \<and> phase_aware cfg
        \<and> thr \<noteq> {} \<and> rt_transient_error_action (cf_runtime cfg) = StopServe)
    \<and> (\<forall>p. sel = Launch (Some p) \<longrightarrow> p \<in> set (phase_list cfg) \<and> p \<notin> thr \<and> phase_open cfg (so_now ob) (Some p))"
proof -
  let ?hh = "mo_host_health (cf_monitor cfg)"
  obtain d p1 l1 where g: "maybe_pause_for_memory_pressure num ?hh prev (so_memory ob) logd = Some (d, p1, l1)"
    using run by (auto simp: select_and_gate_def split: option.splits)
  note v = memory_gate_verdict [OF g]
  show ?thesis
  proof (cases d)
    case True
    then show ?thesis using run g v by (simp add: select_and_gate_def)
  next
    case nd: False
    show ?thesis
    proof (cases "ignore \<or> \<not> phase_aware cfg")
      case True
      show ?thesis
      proof (cases ignore)
        case True
        then show ?thesis using run g v nd
          by (auto simp: select_and_gate_def something_runnable_def launched_phase_def)
      next
        case False
        then have na: "\<not> phase_aware cfg" using \<open>ignore \<or> \<not> phase_aware cfg\<close> by simp
        obtain ps l2 where s: "maybe_pause_for_schedule isofmt cfg (so_now ob) (so_schedule ob) l1 = Some (ps, l2)"
          using run g nd False na by (auto simp: select_and_gate_def split: option.splits)
        show ?thesis using run g v nd False na s schedule_pause_verdict [OF s]
          by (cases ps) (auto simp: select_and_gate_def something_runnable_def launched_phase_def)
      qed
    next
      case False
      then have pa: "phase_aware cfg" "\<not> ignore" by simp_all
      let ?find = "find (phase_runnable cfg thr (so_now ob)) (candidate_phases cfg rn)"
      show ?thesis
      proof (cases ?find)
        case None
        then have "sl_paused (select_phase off cfg rn thr (so_now ob))"
          using select_phase_find [where cfg = cfg and thr = thr and now_fn = "so_now ob" and r = rn and off = off] by simp
        then show ?thesis using run g v nd pa None
          by (auto simp: select_and_gate_def something_runnable_def Let_def split: if_splits)
      next
        case (Some p)
        then have "\<not> sl_paused (select_phase off cfg rn thr (so_now ob))"
            "sl_phase (select_phase off cfg rn thr (so_now ob)) = p"
          using select_phase_find [where cfg = cfg and thr = thr and now_fn = "so_now ob" and r = rn and off = off] by simp_all
        then have r: "sel = Launch p" "\<not> stop"
          using run g nd pa by (auto simp: select_and_gate_def Let_def)
        have "p \<in> set (candidate_phases cfg rn)" "phase_runnable cfg thr (so_now ob) p"
          using find_SomeD [OF Some] by simp_all
        moreover then obtain q where "p = Some q" "q \<in> set (phase_list cfg)" using candidates_named pa(1) by blast
        ultimately show ?thesis using r v nd pa Some
          by (auto simp: something_runnable_def launched_phase_def phase_runnable_def phase_throttled_def)
      qed
    qed
  qed
qed



subsection \<open>Instances\<close>

definition example_back_off :: back_off_env where
  "example_back_off =
     \<lparr>be_coerce = example_clock 1200, be_adjust = example_clock 1200, be_request = example_clock 1200,
      be_start = example_clock 1200, be_end = example_clock 1200, be_jitter = 5\<rparr>"

definition example_throttle_obs :: throttle_obs where
  "example_throttle_obs = \<lparr>tg_clock = example_clock 1200, tg_back_off = example_back_off, tg_sleep = []\<rparr>"

definition two_phases :: config where
  "two_phases = (example_config (Some [''plan'', ''build'']) PolicySkip)
     \<lparr>cf_phases := \<lparr>pc_list = Some [''plan'', ''build''],
        pc_overrides = [''build'' \<mapsto> \<lparr>ov_round_budget_s = None, ov_prompt_files = None,
                                   ov_agent = Some (example_agent ''/opt/kimi''), ov_schedule = None\<rparr>],
        pc_phase_policy = PolicySkip\<rparr>\<rparr>"

lemma two_phases_aware: "phase_aware two_phases" "skip_around two_phases False"
  "phase_list two_phases = [''plan'', ''build'']"
  by (simp_all add: phase_aware_def skip_around_def phase_list_def two_phases_def)

lemma two_phases_agents:
  "agent_of_phase two_phases (Some ''plan'') = Some ''claude''"
  "agent_of_phase two_phases (Some ''build'') = Some ''kimi''"
  by (simp_all add: agent_of_phase_def agent_binary_def profile_for_def two_phases_def example_config_def
      example_agent_def path_name_def)

theorem throttle_gate_regimes_witness:
  "\<exists>logd' w. round_throttle_gate two_phases False example_throttle_obs example_log = Some (Some ({''build''}, w), logd')
     \<and> earliest {1500} w"
proof -
  have ck: "ck_epoch (tg_clock example_throttle_obs) = 1200"
    by (simp add: example_throttle_obs_def example_clock_def)
  have r: "ts_reset_at_epoch (transient_state_of (example_detected ''kimi'' 1500) ''kimi'' 1500) = 1500"
    by (simp add: transient_state_of_def)
  obtain g logd' where run: "round_throttle_gate two_phases False example_throttle_obs example_log = Some (g, logd')"
    by (cases "throttle_skip_context (tg_clock example_throttle_obs) two_phases example_log")
      (simp add: round_throttle_gate_def two_phases_aware)
  have t: "phase_throttle two_phases (active_throttles example_log 1200 Map.empty None) ''plan'' = None"
    "phase_throttle two_phases (active_throttles example_log 1200 Map.empty None) ''build''
       = Some (transient_state_of (example_detected ''kimi'' 1500) ''kimi'' 1500)"
    by (simp_all add: phase_throttle_def two_phases_agents throttle_of_def example_active)
  let ?S = "\<lambda>p. phase_throttle two_phases (active_throttles example_log 1200 Map.empty None) p"
  have "{p \<in> set (phase_list two_phases). ?S p \<noteq> None} = {''build''}"
    "{ts_reset_at_epoch st | p st. p \<in> set (phase_list two_phases) \<and> ?S p = Some st} = {1500}"
    using t r by (auto simp: two_phases_aware intro!: exI [of _ "''build''"])
  then show ?thesis using throttle_gate_regimes [OF run] two_phases_aware run unfolding ck by auto
qed

definition example_now :: "string option \<Rightarrow> ldt" where
  "example_now z = \<lparr>wall_min = 600, sub_us = 0\<rparr>"

definition example_pause :: "(real \<times> (string option \<Rightarrow> ldt)) pause_obs" where
  "example_pause =
     \<lparr>po_polls = [\<lparr>pl_stop = False, pl_stop_file = False, pl_seen = (1400, example_now)\<rparr>,
                  \<lparr>pl_stop = False, pl_stop_file = False, pl_seen = (1500, example_now)\<rparr>],
      po_start = example_clock 1200, po_end = example_clock 1500\<rparr>"

lemma two_phases_open: "schedule_open (phase_schedule two_phases p) now_fn"
  by (rule no_schedule_open)
    (auto simp: schedule_enabled_def phase_schedule_def profile_for_def two_phases_def example_config_def resolve_schedule_def
      split: option.splits)

lemma two_phases_candidates: "set (candidate_phases two_phases r) \<subseteq> {Some ''plan'', Some ''build''}"
  using candidates_named [of two_phases _ r] two_phases_aware by auto

theorem phase_pause_exact_witness:
  "\<exists>logd' d r. pause_until_selectable (\<lambda>z t. ''t'') two_phases 1
       (select_phase (\<lambda>z t. 0) two_phases 1 {''plan'', ''build''} example_now) {''plan'', ''build''} (Some 1500) example_pause example_log
       = Some logd'
     \<and> is_kind d SCHEDULE_PAUSED \<and> is_kind r SCHEDULE_RESUMED \<and> tail_events logd' = tail_events example_log @ [d, r]"
proof -
  let ?sel = "select_phase (\<lambda>z t. 0) two_phases 1 {''plan'', ''build''} example_now"
  have none: "pause_candidates two_phases 1 {''plan'', ''build''} = []"
    using two_phases_candidates [of 1] by (auto simp: pause_candidates_def filter_empty_conv)
  have "\<exists>logd'. pause_until_selectable (\<lambda>z t. ''t'') two_phases 1 ?sel {''plan'', ''build''} (Some 1500) example_pause example_log = Some logd'"
    by (simp add: pause_until_selectable_def paused_for_def example_pause_def pure_runnable_def selectable_def none)
  then obtain logd' where run: "pause_until_selectable (\<lambda>z t. ''t'') two_phases 1 ?sel {''plan'', ''build''} (Some 1500) example_pause example_log = Some logd'" by blast
  have m: "ck_month (po_start example_pause) = ''1970-01''" "ck_month (po_end example_pause) = ''1970-01''"
    by (simp_all add: example_pause_def example_clock_def)
  have "\<not> poll_interrupted (po_polls example_pause ! i)" if "i < length (po_polls example_pause)" for i
    using that by (auto simp: example_pause_def poll_interrupted_def less_Suc_eq nth_Cons')
  then show ?thesis using phase_pause_exact [OF run m example_current] run by auto
qed

definition example_select :: select_obs where
  "example_select =
     \<lparr>so_memory = example_gate\<lparr>mg_first := example_psi 0\<rparr>, so_now = example_now, so_clock = example_clock 1200,
      so_schedule = \<lparr>po_polls = [], po_start = example_clock 1200, po_end = example_clock 1200\<rparr>,
      so_phases = example_pause\<rparr>"

theorem launch_exact_witness:
  "\<exists>logd'. select_and_gate (\<lambda>_. ''n'') (\<lambda>z t. ''t'') (\<lambda>xs. ''[]'') (\<lambda>z t. 0) two_phases False 1 {''plan''} (Some 1500)
       example_select None example_log = Some (Launch (Some ''build''), False, Some (example_psi 0), logd')"
proof -
  let ?hh = "mo_host_health (cf_monitor two_phases)"
  have hh: "?hh = default_host_health" by (simp add: two_phases_def example_config_def default_monitor_def)
  have now: "so_now example_select = example_now" by (simp add: example_select_def)
  have c: "\<not> critical_after ?hh None (mg_first (so_memory example_select))"
    unfolding hh by (simp add: example_select_def example_critical) (simp add: default_host_health_def)
  have cand: "candidate_phases two_phases 1 = [Some ''plan'', Some ''build'']"
    by (simp add: candidate_phases_def two_phases_def rotation_index_def Let_def upt_conv_Cons)
  have f: "find (phase_runnable two_phases {''plan''} example_now) (candidate_phases two_phases 1) = Some (Some ''build'')"
    using two_phases_open unfolding cand
    by (simp add: phase_runnable_def phase_throttled_def phase_open_def schedule_open_def Let_def)
  have g: "maybe_pause_for_memory_pressure (\<lambda>_. ''n'') ?hh None (so_memory example_select) example_log
      = Some (False, Some (example_psi 0), example_log)"
    unfolding hh by (simp add: maybe_pause_for_memory_pressure_def memory_pressure_now_def example_select_def example_psi_def
        memory_pressure_def psi_pressure_def default_host_health_def Let_def)
  have "\<exists>sel stop p' logd'. select_and_gate (\<lambda>_. ''n'') (\<lambda>z t. ''t'') (\<lambda>xs. ''[]'') (\<lambda>z t. 0) two_phases False 1 {''plan''} (Some 1500)
       example_select None example_log = Some (sel, stop, p', logd') \<and> p' = Some (example_psi 0)"
    using select_phase_find [where cfg = two_phases and thr = "{''plan''}" and now_fn = example_now and r = 1 and off = "\<lambda>z t. 0"] f
    by (simp add: select_and_gate_def g two_phases_aware Let_def now) (rule exI [of _ False], simp)
  then obtain sel stop logd' where run: "select_and_gate (\<lambda>_. ''n'') (\<lambda>z t. ''t'') (\<lambda>xs. ''[]'') (\<lambda>z t. 0) two_phases False 1 {''plan''} (Some 1500)
       example_select None example_log = Some (sel, stop, Some (example_psi 0), logd')" by blast
  from launch_exact [OF run] have "sel = Launch (Some ''build'') \<and> \<not> stop"
    using c f two_phases_aware(1)
    by (simp add: something_runnable_def launched_phase_def now)
  then show ?thesis using run by auto
qed

end
