(* ===== verification/Serve_Loop.thy ===== *)
theory Serve_Loop
  imports Serve_Gate Plugin_Manifest Agent_Argv
begin

section \<open>The supervisor loop (cli/serve\_cmd.py)\<close>

text \<open>
  \<open>serve\<close> itself: the preparation, the environment it publishes to the round child, one iteration
  of its loop and the loop. Everything an iteration reads from outside (the stop flag, the sentinel,
  the stop file, clocks, what the child wrote to the event log, the memory samples) is the record
  \<open>iteration\<close>; the loop consumes a list of them and is \<open>None\<close> when they run out. Besides its exit it
  returns the rounds it launched, in order.
\<close>

subsection \<open>Preparation\<close>

definition resolve_max_rounds :: "int option \<Rightarrow> int option \<Rightarrow> int option res" where
  "resolve_max_rounds cli_value config_value =
     (let effective = (if cli_value \<noteq> None then cli_value else config_value) in
      case effective of
        None \<Rightarrow> Inr None
      | Some n \<Rightarrow> if n < 1 then Inl (ValueError ''--max-rounds must be positive integer'') else Inr (Some n))"

text \<open>\<open>prune\<close> is the outcome of the sentinel removal and the log prune, \<open>describe\<close> an exception's text.\<close>

definition prepare_loop ::
  "(py_error \<Rightarrow> string) \<Rightarrow> clock \<Rightarrow> config \<Rightarrow> int option \<Rightarrow> unit res \<Rightarrow> log_dir
     \<Rightarrow> (int option \<times> int option) \<times> log_dir" where
  "prepare_loop describe ck cfg cli_max prune logd =
     (case res_bind prune (\<lambda>_. resolve_max_rounds cli_max (rt_max_rounds (cf_runtime cfg))) of
        Inl e \<Rightarrow> ((Some permanent_config_exit, None),
                  emit_builtin ck ''config_broken''
                    [''reason'' \<mapsto> PStr (''deterministic startup failure: '' @ describe e @ ''; run `agent-runner migrate`'')] logd)
      | Inr m \<Rightarrow> ((None, m), logd))"

subsection \<open>The environment of the round child\<close>

type_synonym round_env = "string \<rightharpoonup> string"

definition is_fresh_eyes_round :: "int \<Rightarrow> int option \<Rightarrow> bool" where
  "is_fresh_eyes_round round_num every_n =
     (case every_n of None \<Rightarrow> False | Some n \<Rightarrow> if round_num \<le> 0 then False else round_num mod n = 0)"

definition apply_fresh_eyes ::
  "clock \<Rightarrow> config \<Rightarrow> int \<Rightarrow> bool \<Rightarrow> round_env \<times> log_dir \<Rightarrow> round_env \<times> log_dir" where
  "apply_fresh_eyes ck cfg round_num fresh_eyes el =
     (case el of (env, logd) \<Rightarrow>
        (env(''AGENT_RUNNER_FRESH_EYES'' \<mapsto> (if fresh_eyes then ''1'' else ''0'')),
         (if fresh_eyes
          then emit_builtin ck ''fresh_eyes_round_triggered''
                 [''round_num'' \<mapsto> PInt round_num,
                  ''every_n'' \<mapsto> (case rt_fresh_eyes_every_n (cf_runtime cfg) of None \<Rightarrow> PNone | Some n \<Rightarrow> PInt n)] logd
          else logd)))"

definition apply_round_num_env :: "int \<Rightarrow> round_env \<Rightarrow> round_env" where
  "apply_round_num_env round_num env = env(''AGENT_RUNNER_ROUND_NUM'' \<mapsto> int_digits round_num)"

text \<open>Whether a phase argument is a key of the tables precomputed at boot.\<close>

definition boot_key :: "config \<Rightarrow> string option \<Rightarrow> bool" where
  "boot_key cfg phase =
     (case phase of None \<Rightarrow> True | Some p \<Rightarrow> pc_overrides (cf_phases cfg) p \<noteq> None)"

definition resolve_grace :: "registries \<Rightarrow> config \<Rightarrow> string option \<Rightarrow> int" where
  "resolve_grace rg cfg phase =
     resolve_sigterm_grace_s rg (agent_of_phase cfg phase) (ac_sigterm_grace_s (pr_agent (profile_for cfg phase)))"

definition reap_grace_by_phase :: "registries \<Rightarrow> config \<Rightarrow> string option \<Rightarrow> int option" where
  "reap_grace_by_phase rg cfg phase = (if boot_key cfg phase then Some (resolve_grace rg cfg phase) else None)"

definition apply_reap_grace_env ::
  "registries \<Rightarrow> config \<Rightarrow> string option \<Rightarrow> (string option \<Rightarrow> int option) \<Rightarrow> round_env \<Rightarrow> round_env" where
  "apply_reap_grace_env rg cfg phase table env =
     env(''AGENT_RUNNER_REAP_GRACE_S'' \<mapsto>
           int_digits (case table phase of Some g \<Rightarrow> g | None \<Rightarrow> resolve_grace rg cfg phase))"

definition cooperative_signal_name :: "registries \<Rightarrow> config \<Rightarrow> string option \<Rightarrow> string" where
  "cooperative_signal_name rg cfg phase =
     signal_name (case resolve_cooperative_signal rg (agent_of_phase cfg phase) of None \<Rightarrow> SIGTERM | Some s \<Rightarrow> s)"

definition cooperative_signal_by_phase :: "registries \<Rightarrow> config \<Rightarrow> string option \<Rightarrow> string option" where
  "cooperative_signal_by_phase rg cfg phase =
     (if boot_key cfg phase then Some (cooperative_signal_name rg cfg phase) else None)"

definition apply_cooperative_signal_env ::
  "registries \<Rightarrow> config \<Rightarrow> string option \<Rightarrow> (string option \<Rightarrow> string option) \<Rightarrow> round_env \<Rightarrow> round_env" where
  "apply_cooperative_signal_env rg cfg phase table env =
     env(''AGENT_RUNNER_COOPERATIVE_STOP_SIGNAL'' \<mapsto>
           (case table phase of Some s \<Rightarrow> s | None \<Rightarrow> cooperative_signal_name rg cfg phase))"

type_synonym sessions = "string option \<rightharpoonup> string"

definition session_resumed_payload :: "string \<Rightarrow> string \<Rightarrow> event" where
  "session_resumed_payload sid phase =
     [''session_id'' \<mapsto> PStr sid] ++ (if phase = [] then Map.empty else [''phase'' \<mapsto> PStr phase])"

text \<open>\<open>uuid\<close> is the fresh id \<open>uuid4\<close> would give this round.\<close>

definition apply_resume_env ::
  "registries \<Rightarrow> clock \<Rightarrow> string \<Rightarrow> config \<Rightarrow> string option \<Rightarrow> bool
     \<Rightarrow> round_env \<times> sessions \<times> log_dir \<Rightarrow> round_env \<times> sessions \<times> log_dir" where
  "apply_resume_env rg ck uuid cfg phase fresh_eyes st =
     (case st of (env, ids, logd) \<Rightarrow>
      let flag = resolve_resume_flag rg (agent_of_phase cfg phase);
          pop = env(''AGENT_RUNNER_RESUME_FLAG'' := None, ''AGENT_RUNNER_RESUME_SESSION_ID'' := None) in
      if flag = None \<or> (phase = None \<and> phase_list cfg \<noteq> [])
      then (pop, ids, logd)
      else (let resuming = (ids phase \<noteq> None \<and> \<not> fresh_eyes);
                sid = (if resuming then the (ids phase) else uuid);
                ids' = (if resuming then ids else ids(phase \<mapsto> sid));
                env' = env(''AGENT_RUNNER_RESUME_FLAG'' \<mapsto> the flag, ''AGENT_RUNNER_RESUME_SESSION_ID'' \<mapsto> sid)
            in (env', ids',
                (if resuming
                 then emit_builtin ck ''session_resumed'' (session_resumed_payload sid (opt_text phase)) logd
                 else logd))))"

subsection \<open>After a round\<close>

record substrate =
  sb_git_head :: pyval
  sb_paths_hash :: pyval

definition capture_substrate :: "clock \<Rightarrow> string \<Rightarrow> int \<Rightarrow> substrate \<Rightarrow> log_dir \<Rightarrow> log_dir" where
  "capture_substrate ck kind round_num sb logd =
     emit_builtin ck kind
       [''round_num'' \<mapsto> PInt round_num, ''git_head'' \<mapsto> sb_git_head sb, ''paths_hash'' \<mapsto> sb_paths_hash sb] logd"

definition ran_agent_throttled :: "config \<Rightarrow> string option \<Rightarrow> (string \<times> transient_state) list \<Rightarrow> bool" where
  "ran_agent_throttled cfg phase active =
     (case phase of None \<Rightarrow> active \<noteq> []
      | Some p \<Rightarrow> throttle_of active (agent_of_phase cfg phase) \<noteq> None)"

definition round_scan ::
  "config \<Rightarrow> string option \<Rightarrow> real \<Rightarrow> log_dir \<Rightarrow> (bool \<times> round_outcome) res" where
  "round_scan cfg phase now logd =
     res_bind (round_outcome logd (case phase of None \<Rightarrow> None | Some p \<Rightarrow> agent_of_phase cfg phase)) (\<lambda>ro.
     res_bind (round_was_mem_terminated logd (Some ro)) (\<lambda>mt.
       Inr (if mt then True
            else ran_agent_throttled cfg phase
                   (active_throttles logd now (ro_backoff_exponent_by_agent ro) (Some (ro_latest_transient_per_agent ro))),
            ro)))"

subsection \<open>Launching a round\<close>

definition outer_round_ceiling_s :: "config \<Rightarrow> string option \<Rightarrow> int" where
  "outer_round_ceiling_s cfg phase =
     (let budget = (\<lambda>p. rt_round_budget_s (pr_runtime (profile_for cfg p)));
          inner = (case phase of
                     Some p \<Rightarrow> budget (Some p)
                   | None \<Rightarrow> if phase_list cfg = [] then rt_round_budget_s (cf_runtime cfg)
                             else Max (set (map (\<lambda>p. budget (Some p)) (phase_list cfg))))
      in snd (timeout_budget inner (goal_checks_allowance_s cfg)))"

definition round_argv :: "string \<Rightarrow> string \<Rightarrow> string option \<Rightarrow> string list" where
  "round_argv python config_path phase =
     [python, ''-m'', ''agent_runner.cli'', ''--config'', config_path, ''round'']
     @ (case phase of None \<Rightarrow> [] | Some p \<Rightarrow> [''--phase'', p])"

definition defer_this_round :: "config \<Rightarrow> bool \<Rightarrow> string option \<Rightarrow> bool" where
  "defer_this_round cfg cgroup_defer phase \<longleftrightarrow>
     cgroup_defer \<and> detect_container_run
       (spawn_command (pr_agent (profile_for cfg phase)) (rt_work_dir (cf_runtime cfg))) = None"

text \<open>One launched round: what the child was given, and what it came back with.\<close>

record launch =
  la_argv :: "string list"
  la_env :: round_env
  la_phase :: "string option"
  la_round_num :: int
  la_fresh :: bool
  la_timeout_s :: int
  la_defer :: bool
  la_returncode :: int
  la_duration :: real
  la_throttled :: bool
  la_outcome :: round_outcome
  la_no_progress :: bool

subsection \<open>The loop\<close>

text \<open>What does not change while \<open>serve\<close> runs.\<close>

record serve_boot =
  sv_cfg :: config
  sv_registries :: registries
  sv_ignore_schedule :: bool
  sv_once :: bool
  sv_max_rounds :: "int option"
  sv_python :: string
  sv_config_path :: string
  sv_cgroup :: cgroup_limits

record serve_state =
  st_log :: log_dir
  st_env :: round_env
  st_sessions :: sessions
  st_completed :: int
  st_streaks :: streaks
  st_prev_sample :: "sample option"
  st_stop :: bool

record iteration =
  it_stop_top :: bool
  it_sentinel :: bool
  it_throttle :: throttle_obs
  it_stop_file :: "string option"
  it_stop_clock :: clock
  it_round_num :: int
  it_select :: select_obs
  it_stop_selected :: bool
  it_clock :: clock
  it_before :: substrate
  it_after :: substrate
  it_uuid :: string
  it_started :: real
  it_ended :: real
  it_cg_base :: "cg_usage option"
  it_ticks :: "tick list"
  it_events :: "event list"
  it_clock_after :: clock
  it_verdict :: verdict_env
  it_stop_end :: bool
  it_null_listener :: bool
  it_sleep :: "sleep_obs list"

datatype serve_exit = ServeExit int | ServeRaise

text \<open>The texts and zones Python's library computes.\<close>

record host =
  ho_num :: "real \<Rightarrow> string"
  ho_isofmt :: "string option \<Rightarrow> ldt \<Rightarrow> string"
  ho_list_repr :: "string list \<Rightarrow> string"
  ho_utc_off :: "string option \<Rightarrow> ldt \<Rightarrow> int"
  ho_local_ts :: "int \<Rightarrow> real"

text \<open>How one iteration ends: on to the next, or out of the loop.\<close>

datatype next_step = Again | Leave serve_exit

text \<open>The stop file, whose content is read up to 200 characters (\<open>''\<close> when that fails).\<close>

definition stop_file_hit :: "config \<Rightarrow> iteration \<Rightarrow> (string \<times> string) option" where
  "stop_file_hit cfg it =
     (case (rt_stop_file (cf_runtime cfg), it_stop_file it) of
        (Some path, Some body) \<Rightarrow> Some (path, take 200 body)
      | _ \<Rightarrow> None)"

definition stop_file_payload :: "string \<Rightarrow> string \<Rightarrow> int \<Rightarrow> event" where
  "stop_file_payload path body completed =
     [''stop_file'' \<mapsto> PStr path, ''content'' \<mapsto> PStr body, ''rounds_completed'' \<mapsto> PInt completed]"

definition max_rounds_payload :: "int \<Rightarrow> int \<Rightarrow> event" where
  "max_rounds_payload completed m = [''rounds_completed'' \<mapsto> PInt completed, ''max_rounds'' \<mapsto> PInt m]"

text \<open>From the launch decision to the spawn: the substrate, the environment, the session.\<close>

definition prepare_round :: "serve_boot \<Rightarrow> iteration \<Rightarrow> string option \<Rightarrow> serve_state \<Rightarrow> serve_state \<times> bool" where
  "prepare_round boot it phase st =
     (let cfg = sv_cfg boot; rg = sv_registries boot; n = it_round_num it; ck = it_clock it;
          fresh = is_fresh_eyes_round n (rt_fresh_eyes_every_n (cf_runtime cfg));
          logd1 = capture_substrate ck ROUND_SUBSTRATE_BEFORE n (it_before it) (st_log st) in
      case apply_fresh_eyes ck cfg n fresh (st_env st, logd1) of (env1, logd2) \<Rightarrow>
      let env2 = apply_round_num_env n env1;
          env3 = apply_reap_grace_env rg cfg phase (reap_grace_by_phase rg cfg) env2;
          env4 = apply_cooperative_signal_env rg cfg phase (cooperative_signal_by_phase rg cfg) env3 in
      case apply_resume_env rg ck (it_uuid it) cfg phase fresh (env4, st_sessions st, logd2) of (env5, ids, logd3) \<Rightarrow>
        (st\<lparr>st_env := env5, st_sessions := ids, st_log := logd3\<rparr>, fresh))"

definition spawn_env_of :: "serve_boot \<Rightarrow> iteration \<Rightarrow> string option \<Rightarrow> spawn_env" where
  "spawn_env_of boot it phase =
     \<lparr>se_cfg = Some (mo_host_health (cf_monitor (sv_cfg boot))),
      se_defer = defer_this_round (sv_cfg boot) (probe_defer (sv_cgroup boot)) phase,
      se_armed = probe_armed (hb_memory_high (hh_brake (mo_host_health (cf_monitor (sv_cfg boot))))) (sv_cgroup boot),
      se_timeout_s = outer_round_ceiling_s (sv_cfg boot) phase,
      se_started = it_started it, se_armed_at = it_started it, se_cg_base = it_cg_base it\<rparr>"

text \<open>
  The spawned round and its verdicts. \<open>it_events\<close> is all that was written to the event log while the
  round ran, by the child and by the supervision of it.
\<close>

definition run_round ::
  "host \<Rightarrow> serve_boot \<Rightarrow> iteration \<Rightarrow> string option \<Rightarrow> bool \<Rightarrow> serve_state
     \<Rightarrow> ((int option \<times> int) res \<times> launch option \<times> serve_state) option" where
  "run_round h boot it phase fresh st =
     (case spawn_round (spawn_env_of boot it phase) (it_ticks it) of
        None \<Rightarrow> None
      | Some (acts, Reraised) \<Rightarrow> Some (Inl (OSError ''round wait''), None, st)
      | Some (acts, Returned rc) \<Rightarrow>
          (let cfg = sv_cfg boot; dur = it_ended it - it_started it;
               logd1 = fold (append_event (ck_month (it_clock_after it))) (it_events it) (st_log st);
               logd2 = capture_substrate (it_clock_after it) ''round_substrate_after'' (it_round_num it) (it_after it) logd1;
               st2 = st\<lparr>st_log := logd2, st_completed := st_completed st + 1\<rparr> in
           case round_scan cfg phase (ck_epoch (it_clock_after it)) logd2 of
             Inl e \<Rightarrow> Some (Inl e, None, st2)
           | Inr (thr, ro) \<Rightarrow>
               (case post_round_verdicts (ho_num h) (ho_local_ts h) cfg
                       ((it_verdict it)\<lparr>ve_stash := stashed acts None\<rparr>) (it_round_num it) rc dur thr ro
                       (st_streaks st2) logd2 of
                  Inl e \<Rightarrow> Some (Inl e, None, st2)
                | Inr ((exit, delay, streaks'), logd3) \<Rightarrow>
                    Some (Inr (exit, delay),
                      Some \<lparr>la_argv = round_argv (sv_python boot) (sv_config_path boot) phase, la_env = st_env st,
                        la_phase = phase, la_round_num = it_round_num it, la_fresh = fresh,
                        la_timeout_s = outer_round_ceiling_s cfg phase,
                        la_defer = defer_this_round cfg (probe_defer (sv_cgroup boot)) phase,
                        la_returncode = rc, la_duration = dur, la_throttled = thr, la_outcome = ro,
                        la_no_progress =
                          (round_had_no_progress logd2 rc dur no_progress_short_s thr (Some ro) = Inr True)\<rparr>,
                      st2\<lparr>st_log := logd3, st_streaks := streaks'\<rparr>))))"

text \<open>The guards at the top of the loop, up to the selection.\<close>

definition loop_guards ::
  "serve_boot \<Rightarrow> iteration \<Rightarrow> serve_state \<Rightarrow> ((string set \<times> int option) option \<times> serve_state) option" where
  "loop_guards boot it st =
     (if st_stop st \<or> it_stop_top it then Some (None, st)
      else if it_sentinel it then Some (None, st)
      else (case round_throttle_gate (sv_cfg boot) (sv_ignore_schedule boot) (it_throttle it) (st_log st) of
              None \<Rightarrow> None
            | Some (None, logd1) \<Rightarrow> Some (None, st\<lparr>st_log := logd1\<rparr>)
            | Some (Some ctx, logd1) \<Rightarrow>
                (case stop_file_hit (sv_cfg boot) it of
                   Some (path, body) \<Rightarrow>
                     Some (None, st\<lparr>st_log := emit_builtin (it_stop_clock it) ''stop_file_detected''
                                      (stop_file_payload path body (st_completed st)) logd1\<rparr>)
                 | None \<Rightarrow>
                     (case sv_max_rounds boot of
                        Some m \<Rightarrow>
                          if st_completed st \<ge> m
                          then Some (None, st\<lparr>st_log := emit_builtin (it_stop_clock it) ''max_rounds_reached''
                                                (max_rounds_payload (st_completed st) m) logd1\<rparr>)
                          else Some (Some ctx, st\<lparr>st_log := logd1\<rparr>)
                      | None \<Rightarrow> Some (Some ctx, st\<lparr>st_log := logd1\<rparr>)))))"

definition restart_sleep :: "iteration \<Rightarrow> int \<Rightarrow> bool option" where
  "restart_sleep it delay =
     interruptible_sleep (it_null_listener it) default_chunk_s None (real_of_int delay) (it_sleep it)"

definition serve_step ::
  "host \<Rightarrow> serve_boot \<Rightarrow> iteration \<Rightarrow> serve_state \<Rightarrow> (next_step \<times> launch option \<times> serve_state) option" where
  "serve_step h boot it st =
     (case loop_guards boot it st of
        None \<Rightarrow> None
      | Some (None, st1) \<Rightarrow> Some (Leave (ServeExit 0), None, st1)
      | Some (Some (throttled, wake), st1) \<Rightarrow>
          (case select_and_gate (ho_num h) (ho_isofmt h) (ho_list_repr h) (ho_utc_off h) (sv_cfg boot)
                  (sv_ignore_schedule boot) (it_round_num it) throttled wake (it_select it)
                  (st_prev_sample st1) (st_log st1) of
             None \<Rightarrow> None
           | Some (PausedContinue, stop, prev, logd) \<Rightarrow>
               Some (Again, None, st1\<lparr>st_stop := st_stop st1 \<or> stop, st_prev_sample := prev, st_log := logd\<rparr>)
           | Some (Launch phase, stop, prev, logd) \<Rightarrow>
               (let st2 = st1\<lparr>st_stop := st_stop st1 \<or> stop, st_prev_sample := prev, st_log := logd\<rparr> in
                if st_stop st2 \<or> it_stop_selected it then Some (Leave (ServeExit 0), None, st2)
                else (case prepare_round boot it phase st2 of (st3, fresh) \<Rightarrow>
                  (case run_round h boot it phase fresh st3 of
                     None \<Rightarrow> None
                   | Some (Inl e, l, st4) \<Rightarrow> Some (Leave ServeRaise, l, st4)
                   | Some (Inr (exit, delay), l, st4) \<Rightarrow>
                       (case exit of
                          Some code \<Rightarrow> Some (Leave (ServeExit code), l, st4)
                        | None \<Rightarrow>
                            if sv_once boot \<or> st_stop st4 \<or> it_stop_end it
                            then Some (Leave (ServeExit 0), l, st4)
                            else (case restart_sleep it delay of
                                    None \<Rightarrow> None
                                  | Some interrupted \<Rightarrow> Some (Again, l, st4))))))))"

definition opt_list :: "'a option \<Rightarrow> 'a list" where
  "opt_list x = (case x of None \<Rightarrow> [] | Some a \<Rightarrow> [a])"

fun serve_loop ::
  "host \<Rightarrow> serve_boot \<Rightarrow> iteration list \<Rightarrow> serve_state \<Rightarrow> (serve_exit \<times> launch list \<times> serve_state) option" where
  "serve_loop h boot [] st = None"
| "serve_loop h boot (it # its) st =
     (case serve_step h boot it st of
        None \<Rightarrow> None
      | Some (Leave e, l, st') \<Rightarrow> Some (e, opt_list l, st')
      | Some (Again, l, st') \<Rightarrow>
          (case serve_loop h boot its st' of
             None \<Rightarrow> None
           | Some (e, ls, st2) \<Rightarrow> Some (e, opt_list l @ ls, st2)))"

definition serve_start :: "string \<Rightarrow> round_env \<Rightarrow> log_dir \<Rightarrow> serve_state" where
  "serve_start log_dir_text os_environ logd =
     \<lparr>st_log = logd, st_env = os_environ(''AGENT_RUNNER_LOG_DIR'' \<mapsto> log_dir_text), st_sessions = Map.empty,
      st_completed = 0, st_streaks = (0, 0, 0), st_prev_sample = None, st_stop = False\<rparr>"

text \<open>
  \<open>cmd\<close>: the exclusive lock, the preparation, the check for colliding phase windows, the loop. The
  result carries the code \<open>main\<close> gives a \<open>ConfigError\<close>.
\<close>

definition serve_cmd ::
  "host \<Rightarrow> (py_error \<Rightarrow> string) \<Rightarrow> serve_boot \<Rightarrow> bool \<Rightarrow> int option \<Rightarrow> clock \<Rightarrow> unit res \<Rightarrow> string \<Rightarrow> round_env
     \<Rightarrow> iteration list \<Rightarrow> log_dir \<Rightarrow> (serve_exit res \<times> launch list \<times> log_dir) option" where
  "serve_cmd h describe boot lock_free cli_max ck prune log_dir_text os_environ its logd =
     (if \<not> lock_free then Some (Inr (ServeExit 1), [], logd)
      else (case prepare_loop describe ck (sv_cfg boot) cli_max prune logd of
              ((Some code, _), logd1) \<Rightarrow> Some (Inr (ServeExit code), [], logd1)
            | ((None, m), logd1) \<Rightarrow>
                (let overlaps = find_phase_window_overlaps (sv_cfg boot) in
                 if overlaps \<noteq> [] then Some (Inl (ConfigError (''phase-window overlap: '' @ describe_overlaps overlaps
                          @ ''; run `agent-runner doctor` for details'')), [], logd1)
                 else (case serve_loop h (boot\<lparr>sv_max_rounds := m\<rparr>) its (serve_start log_dir_text os_environ logd1) of
                         None \<Rightarrow> None
                       | Some (e, ls, st) \<Rightarrow> Some (Inr e, ls, st_log st)))))"

subsection \<open>One iteration\<close>

lemma loop_guards_frame:
  assumes "loop_guards boot it st = Some (r, st')"
  shows "\<exists>l. st' = st\<lparr>st_log := l\<rparr> \<and> (r \<noteq> None \<longrightarrow> \<not> it_stop_top it \<and> \<not> st_stop st \<and> \<not> it_sentinel it
    \<and> stop_file_hit (sv_cfg boot) it = None \<and> (\<forall>m. sv_max_rounds boot = Some m \<longrightarrow> st_completed st < m))"
proof -
  have "\<exists>l. st = st\<lparr>st_log := l\<rparr>" by (rule exI [of _ "st_log st"]) simp
  then show ?thesis using assms
    by (auto simp: loop_guards_def split: if_splits option.splits)
qed

lemma prepare_round_frame:
  assumes "prepare_round boot it phase st = (st', fresh)"
  shows "\<exists>e s l. st' = st\<lparr>st_env := e, st_sessions := s, st_log := l\<rparr>"
  using assms by (auto simp: prepare_round_def Let_def split: prod.splits)

text \<open>The rounds a step may launch: none, one with its verdict, or one that raised.\<close>

lemma run_round_result:
  assumes "run_round h boot it phase fresh st = Some (r, l, st')"
  shows "(\<exists>e. r = Inl e \<and> l = None \<and> st_completed st' \<in> {st_completed st, st_completed st + 1})
    \<or> (\<exists>x d la logd2 v logd3 str. r = Inr (x, d) \<and> l = Some la
        \<and> la_env la = st_env st \<and> la_phase la = phase \<and> la_round_num la = it_round_num it \<and> la_fresh la = fresh
        \<and> la_argv la = round_argv (sv_python boot) (sv_config_path boot) phase
        \<and> la_timeout_s la = outer_round_ceiling_s (sv_cfg boot) phase
        \<and> (la_no_progress la \<longleftrightarrow> round_had_no_progress logd2 (la_returncode la) (la_duration la) no_progress_short_s
              (la_throttled la) (Some (la_outcome la)) = Inr True)
        \<and> post_round_verdicts (ho_num h) (ho_local_ts h) (sv_cfg boot) v (it_round_num it) (la_returncode la)
             (la_duration la) (la_throttled la) (la_outcome la) (st_streaks st) logd2 = Inr ((x, d, str), logd3)
        \<and> st' = st\<lparr>st_log := logd3, st_completed := st_completed st + 1, st_streaks := str\<rparr>)"
proof -
  obtain acts ex where s: "spawn_round (spawn_env_of boot it phase) (it_ticks it) = Some (acts, ex)"
    using assms by (auto simp: run_round_def split: option.splits)
  show ?thesis
  proof (cases ex)
    case Reraised
    then show ?thesis using assms s by (auto simp: run_round_def)
  next
    case (Returned rc)
    define logd1 where "logd1 = fold (append_event (ck_month (it_clock_after it))) (it_events it) (st_log st)"
    define logd2 where "logd2 = capture_substrate (it_clock_after it) ''round_substrate_after'' (it_round_num it) (it_after it) logd1"
    let ?cfg = "sv_cfg boot" and ?dur = "it_ended it - it_started it"
    let ?v = "(it_verdict it)\<lparr>ve_stash := stashed acts None\<rparr>"
    note a = assms [unfolded run_round_def s option.case prod.case Returned spawn_exit.case Let_def,
        folded logd1_def, folded logd2_def]
    show ?thesis
    proof (cases "round_scan ?cfg phase (ck_epoch (it_clock_after it)) logd2")
      case (Inl e)
      then show ?thesis using a by auto
    next
      case (Inr p)
      obtain thr ro where p: "p = (thr, ro)" by (cases p)
      show ?thesis
      proof (cases "post_round_verdicts (ho_num h) (ho_local_ts h) ?cfg ?v (it_round_num it) rc ?dur thr ro (st_streaks st) logd2")
        case (Inl e)
        then show ?thesis using a Inr p by auto
      next
        case v: (Inr q)
        obtain x d str logd3 where q: "q = ((x, d, str), logd3)" by (cases q) auto
        obtain la where la: "l = Some la" using a Inr p v q by auto
        show ?thesis
          by (rule disjI2, rule exI [of _ x], rule exI [of _ d], rule exI [of _ la], rule exI [of _ logd2],
              rule exI [of _ ?v], rule exI [of _ logd3], rule exI [of _ str]) (use a Inr p v q la in auto)
      qed
    qed
  qed
qed

lemma serve_step_cases:
  assumes "serve_step h boot it st = Some (n, l, st')"
  shows "(l = None \<and> st_completed st' = st_completed st \<and> st_streaks st' = st_streaks st
          \<and> st_sessions st' = st_sessions st \<and> st_env st' = st_env st \<and> (n = Again \<or> n = Leave (ServeExit 0)))
    \<or> (l = None \<and> n = Leave ServeRaise \<and> st_completed st' \<in> {st_completed st, st_completed st + 1}
          \<and> (\<forall>m. sv_max_rounds boot = Some m \<longrightarrow> st_completed st < m))
    \<or> (\<exists>la phase st2 st3 x d.
          l = Some la \<and> st_env st2 = st_env st \<and> st_sessions st2 = st_sessions st
          \<and> st_streaks st2 = st_streaks st \<and> st_completed st2 = st_completed st
          \<and> prepare_round boot it phase st2 = (st3, la_fresh la)
          \<and> run_round h boot it phase (la_fresh la) st3 = Some (Inr (x, d), Some la, st')
          \<and> (\<forall>m. sv_max_rounds boot = Some m \<longrightarrow> st_completed st < m)
          \<and> (case x of Some c \<Rightarrow> n = Leave (ServeExit c) | None \<Rightarrow> n = Again \<or> n = Leave (ServeExit 0)))"
proof -
  obtain g st1 where g: "loop_guards boot it st = Some (g, st1)"
    using assms by (auto simp: serve_step_def split: option.splits)
  obtain l1 where st1: "st1 = st\<lparr>st_log := l1\<rparr>"
    and ok: "g \<noteq> None \<longrightarrow> (\<forall>m. sv_max_rounds boot = Some m \<longrightarrow> st_completed st < m)"
    using loop_guards_frame [OF g] by blast
  show ?thesis
  proof (cases g)
    case None
    then show ?thesis using assms g st1 by (auto simp: serve_step_def)
  next
    case (Some ctx)
    obtain thr wake where ctx: "ctx = (thr, wake)" by (cases ctx)
    note bound = ok [unfolded Some, simplified]
    obtain sel stop prev logd where s: "select_and_gate (ho_num h) (ho_isofmt h) (ho_list_repr h) (ho_utc_off h)
        (sv_cfg boot) (sv_ignore_schedule boot) (it_round_num it) thr wake (it_select it) (st_prev_sample st1) (st_log st1)
        = Some (sel, stop, prev, logd)"
      using assms g Some ctx by (auto simp: serve_step_def split: option.splits)
    note a = assms [unfolded serve_step_def g option.case prod.case Some ctx s]
    show ?thesis
    proof (cases sel)
      case PausedContinue
      then show ?thesis using a st1 by auto
    next
      case (Launch phase)
      define st2 where "st2 = st1\<lparr>st_stop := st_stop st1 \<or> stop, st_prev_sample := prev, st_log := logd\<rparr>"
      note a2 = a [unfolded Launch selected.case Let_def, folded st2_def]
      have f2: "st_env st2 = st_env st" "st_sessions st2 = st_sessions st" "st_streaks st2 = st_streaks st"
        "st_completed st2 = st_completed st" by (simp_all add: st2_def st1)
      show ?thesis
      proof (cases "st_stop st2 \<or> it_stop_selected it")
        case True
        then show ?thesis using a2 f2 by (auto split: if_splits)
      next
        case False
        obtain st3 fresh where p: "prepare_round boot it phase st2 = (st3, fresh)" by fastforce
        have f3: "st_completed st3 = st_completed st2" using prepare_round_frame [OF p] by auto
        obtain r l2 st4 where r: "run_round h boot it phase fresh st3 = Some (r, l2, st4)"
          using a2 False p by (auto split: option.splits if_splits)
        note a3 = a2 [unfolded p prod.case r option.case]
        show ?thesis
        proof (cases r)
          case (Inl e)
          then have "l = None" "n = Leave ServeRaise" "st' = st4" using a3 False run_round_result [OF r]
            by (auto split: if_splits)
          then show ?thesis using run_round_result [OF r] Inl f3 f2 bound by auto
        next
          case (Inr xd)
          obtain x d where xd: "xd = (x, d)" by (cases xd)
          obtain la where la: "l2 = Some la" "la_fresh la = fresh"
            using run_round_result [OF r] Inr xd by auto
          have "l = Some la \<and> st' = st4 \<and> (case x of Some c \<Rightarrow> n = Leave (ServeExit c) | None \<Rightarrow> n = Again \<or> n = Leave (ServeExit 0))"
            using a3 False Inr xd la by (auto split: if_splits option.splits)
          then show ?thesis using f2 p r la Inr xd bound by blast
        qed
      qed
    qed
  qed
qed



subsection \<open>The bound on the rounds\<close>

lemma launch_counts:
  assumes "serve_step h boot it st = Some (n, Some la, st')"
  shows "st_completed st' = st_completed st + 1"
proof -
  from serve_step_cases [OF assms] obtain phase st2 st3 x d where
    f: "st_completed st2 = st_completed st" "prepare_round boot it phase st2 = (st3, la_fresh la)"
    and r: "run_round h boot it phase (la_fresh la) st3 = Some (Inr (x, d), Some la, st')" by auto
  have "st_completed st3 = st_completed st" using prepare_round_frame [OF f(2)] f(1) by auto
  moreover have "st_completed st' = st_completed st3 + 1"
    using run_round_result [OF r] by auto
  ultimately show ?thesis by simp
qed

lemma step_count:
  assumes "serve_step h boot it st = Some (n, l, st')"
  shows "st_completed st + int (length (opt_list l)) \<le> st_completed st'
    \<and> (n \<noteq> Leave ServeRaise \<longrightarrow> st_completed st' = st_completed st + int (length (opt_list l)))
    \<and> (st_completed st' \<noteq> st_completed st \<longrightarrow> st_completed st' = st_completed st + 1
         \<and> (\<forall>m. sv_max_rounds boot = Some m \<longrightarrow> st_completed st < m))"
proof (cases l)
  case None
  then show ?thesis using serve_step_cases [OF assms] by (auto simp: opt_list_def)
next
  case (Some la)
  then show ?thesis using serve_step_cases [OF assms] launch_counts [OF assms [unfolded Some]] by (auto simp: opt_list_def)
qed

lemma loop_counts:
  assumes "serve_loop h boot its st = Some (e, ls, st')"
  shows "st_completed st + int (length ls) \<le> st_completed st'
    \<and> (e \<noteq> ServeRaise \<longrightarrow> st_completed st' = st_completed st + int (length ls))
    \<and> (\<forall>m. sv_max_rounds boot = Some m \<longrightarrow> st_completed st' \<le> max m (st_completed st))"
  using assms
proof (induction its arbitrary: st ls)
  case (Cons it its)
  obtain n l st1 where s: "serve_step h boot it st = Some (n, l, st1)"
    using Cons.prems by (auto split: option.splits)
  note c = step_count [OF s]
  show ?case
  proof (cases n)
    case (Leave x)
    then have "e = x" "ls = opt_list l" "st' = st1" using Cons.prems s by auto
    then show ?thesis using c Leave by (auto; fastforce)
  next
    case Again
    then obtain ls1 where r: "serve_loop h boot its st1 = Some (e, ls1, st')" "ls = opt_list l @ ls1"
      using Cons.prems s by (auto split: option.splits)
    from Cons.IH [OF r(1)] c Again r(2) show ?thesis
      by (auto simp: max_def split: if_splits; fastforce)
  qed
qed simp

text \<open>The supervisor counts every round that came back, and never completes more rounds than
  \<open>max_rounds\<close> allows.\<close>

theorem max_rounds_bound:
  assumes "serve_loop h boot its st = Some (e, ls, st')"
  shows "st_completed st + int (length ls) \<le> st_completed st'
    \<and> (e \<noteq> ServeRaise \<longrightarrow> st_completed st' = st_completed st + int (length ls))
    \<and> (\<forall>m. sv_max_rounds boot = Some m \<longrightarrow> st_completed st' \<le> max m (st_completed st))"
  using loop_counts [OF assms] .

subsection \<open>A give-up comes from the breakers, and from nothing else\<close>

definition tail_run :: "('a \<Rightarrow> bool) \<Rightarrow> 'a list \<Rightarrow> nat" where
  "tail_run P xs = length (takeWhile P (rev xs))"

lemma tail_run_Nil [simp]: "tail_run P [] = 0"
  by (simp add: tail_run_def)

lemma tail_run_snoc [simp]: "tail_run P (xs @ [x]) = (if P x then tail_run P xs + 1 else 0)"
  by (simp add: tail_run_def)

lemma tail_run_ge: "n \<le> tail_run P xs \<longleftrightarrow> n \<le> length xs \<and> (\<forall>x \<in> set (drop (length xs - n) xs). P x)"
proof (induction xs arbitrary: n rule: rev_induct)
  case (snoc x xs)
  show ?case
  proof (cases n)
    case (Suc k)
    then show ?thesis using snoc [of k] by auto
  qed simp
qed simp

definition crashed :: "launch \<Rightarrow> bool" where
  "crashed la \<longleftrightarrow> unknown_short_crash (la_returncode la) (la_duration la) (la_throttled la)"

definition mem_killed :: "launch \<Rightarrow> bool" where
  "mem_killed la \<longleftrightarrow> ro_mem_terminated (la_outcome la)"

text \<open>The verdict a history of rounds calls for, the last of them just over.\<close>

definition history_verdict :: "launch list \<Rightarrow> int set option" where
  "history_verdict ls =
     (if ls = [] then None
      else if la_returncode (last ls) = 78 then Some {78}
      else if tail_run mem_killed ls \<ge> 5 then Some {70, 71}
      else if tail_run crashed ls \<ge> 5 \<or> tail_run la_no_progress ls \<ge> 5 then Some {75}
      else None)"

definition history_streaks :: "launch list \<Rightarrow> streaks" where
  "history_streaks ls = (tail_run crashed ls, tail_run mem_killed ls, tail_run la_no_progress ls)"

lemma verdicts_exit:
  assumes "post_round_verdicts num local_ts cfg env rn rc dur thr ro st l = Inr ((x, d, st'), l')"
  shows "\<exists>act mt nt. breakers (rt_restart_delay_s (cf_runtime cfg)) l rc dur thr ro st = Inr (act, d, mt, nt, st')
    \<and> (if act = ConfigBroken then x = Some 78
       else if mt then x = Some 70 \<or> x = Some 71
       else if act = CrashLoop \<or> nt then x = Some 75 else x = None)"
proof -
  obtain act delay mt nt a b c where br: "breakers (rt_restart_delay_s (cf_runtime cfg)) l rc dur thr ro st = Inr (act, delay, mt, nt, (a, b, c))"
    using assms by (auto simp: post_round_verdicts_def res_bind_Inr_iff)
  have "(d = delay \<and> st' = (a, b, c)) \<and> (if act = ConfigBroken then x = Some 78
       else if mt then x = Some 70 \<or> x = Some 71
       else if act = CrashLoop \<or> nt then x = Some 75 else x = None)"
    using assms
    by (auto simp: post_round_verdicts_def br Let_def res_bind_Inr_iff exit_codes split: prod.splits if_splits)
  then show ?thesis using br by blast
qed

lemma breakers_streaks:
  assumes "breakers d l rc dur thr ro (c, mm, np) = Inr (act, delay, mt, nt, (c', m', n'))" "rc \<noteq> 78"
  shows "c' = (if unknown_short_crash rc dur thr then c + 1 else 0)
    \<and> m' = (if ro_mem_terminated ro then mm + 1 else 0)
    \<and> n' = (if round_had_no_progress l rc dur no_progress_short_s thr (Some ro) = Inr True then np + 1 else 0)"
proof -
  obtain q where np: "round_had_no_progress l rc dur no_progress_short_s thr (Some ro) = Inr q"
    using assms(1) by (cases "round_had_no_progress l rc dur no_progress_short_s thr (Some ro)")
      (auto simp: breakers_def split: prod.splits)
  have "snd (snd (post_round_decision rc dur thr c d)) = (if unknown_short_crash rc dur thr then c + 1 else 0)"
    using assms(2) by (simp add: post_round_decision_def permanent_config_exit_def Let_def)
  then obtain a1 d1 where pd: "post_round_decision rc dur thr c d = (a1, d1, if unknown_short_crash rc dur thr then c + 1 else 0)"
    by (cases "post_round_decision rc dur thr c d") auto
  have "mem_loop_decision b k = (t, j) \<Longrightarrow> j = (if b then k + 1 else 0)"
    "no_progress_decision b k = (t, j) \<Longrightarrow> j = (if b then k + 1 else 0)" for b k t j
    by (simp_all add: mem_loop_decision_def no_progress_decision_def consecutive_streak_decision_def Let_def split: if_splits)
  note streak = this
  show ?thesis using assms(1) by (auto simp: breakers_def np pd dest!: streak split: prod.splits)
qed

lemma launch_verdict:
  assumes s: "serve_step h boot it st = Some (n, Some la, st')" and h: "st_streaks st = history_streaks hist"
  shows "(case history_verdict (hist @ [la]) of
        Some codes \<Rightarrow> \<exists>c \<in> codes. n = Leave (ServeExit c)
      | None \<Rightarrow> (n = Again \<or> n = Leave (ServeExit 0)) \<and> st_streaks st' = history_streaks (hist @ [la]))"
proof -
  from serve_step_cases [OF s] obtain phase st2 st3 x d where
    f: "st_streaks st2 = st_streaks st" "prepare_round boot it phase st2 = (st3, la_fresh la)"
    and r: "run_round h boot it phase (la_fresh la) st3 = Some (Inr (x, d), Some la, st')"
    and n: "case x of Some c \<Rightarrow> n = Leave (ServeExit c) | None \<Rightarrow> n = Again \<or> n = Leave (ServeExit 0)"
    by auto
  have str: "st_streaks st3 = history_streaks hist" using prepare_round_frame [OF f(2)] f(1) h by auto
  from run_round_result [OF r] obtain logd2 v logd3 where
    np: "la_no_progress la \<longleftrightarrow> round_had_no_progress logd2 (la_returncode la) (la_duration la) no_progress_short_s
              (la_throttled la) (Some (la_outcome la)) = Inr True"
    and vd: "post_round_verdicts (ho_num h) (ho_local_ts h) (sv_cfg boot) v (it_round_num it) (la_returncode la)
             (la_duration la) (la_throttled la) (la_outcome la) (history_streaks hist) logd2 = Inr ((x, d, st_streaks st'), logd3)"
    unfolding str by auto
  obtain act mt nt where br: "breakers (rt_restart_delay_s (cf_runtime (sv_cfg boot))) logd2 (la_returncode la) (la_duration la)
      (la_throttled la) (la_outcome la) (history_streaks hist) = Inr (act, d, mt, nt, st_streaks st')"
    and x: "if act = ConfigBroken then x = Some 78
       else if mt then x = Some 70 \<or> x = Some 71
       else if act = CrashLoop \<or> nt then x = Some 75 else x = None"
    using verdicts_exit [OF vd] by blast
  obtain c' m' n' where str': "st_streaks st' = (c', m', n')" by (metis prod_cases3)
  note t = breakers_table [OF br [unfolded str' history_streaks_def], unfolded permanent_config_exit_def
      mem_loop_threshold_def crash_loop_threshold_def, folded np]
  note s2 = breakers_streaks [OF br [unfolded str' history_streaks_def], folded np]
  show ?thesis
  proof (cases "la_returncode la = 78")
    case True
    then show ?thesis using t x n by (simp add: history_verdict_def)
  next
    case False
    then show ?thesis using t x n s2 str'
      by (auto simp: history_verdict_def history_streaks_def crashed_def mem_killed_def split: if_splits)
  qed
qed

lemma serve_loop_verdicts:
  assumes "serve_loop h boot its st = Some (e, ls, st')" and "st_streaks st = history_streaks hist"
  shows "(\<forall>k < length ls. k \<noteq> 0 \<longrightarrow> history_verdict (hist @ take k ls) = None)
    \<and> (\<forall>c. e = ServeExit c \<longrightarrow>
        (if ls = [] then c = 0
         else case history_verdict (hist @ ls) of None \<Rightarrow> c = 0 | Some codes \<Rightarrow> c \<in> codes))"
  using assms
proof (induction its arbitrary: st ls hist)
  case (Cons it its)
  obtain n l st1 where s: "serve_step h boot it st = Some (n, l, st1)"
    using Cons.prems by (auto split: option.splits)
  show ?case
  proof (cases l)
    case None
    have same: "n \<noteq> Leave ServeRaise \<Longrightarrow> st_streaks st1 = st_streaks st"
      using serve_step_cases [OF s] None by auto
    show ?thesis
    proof (cases n)
      case (Leave x)
      then show ?thesis using Cons.prems(1) s None serve_step_cases [OF s] by (auto simp: opt_list_def)
    next
      case Again
      then obtain ls1 where r: "serve_loop h boot its st1 = Some (e, ls1, st')" "ls = ls1"
        using Cons.prems(1) s None by (auto simp: opt_list_def split: option.splits)
      from Cons.IH [OF r(1), of hist] same Again Cons.prems(2) r(2) show ?thesis by simp
    qed
  next
    case (Some la)
    note v = launch_verdict [OF s [unfolded Some] Cons.prems(2)]
    show ?thesis
    proof (cases n)
      case (Leave x)
      then have "e = x" "ls = [la]" using Cons.prems(1) s Some by (auto simp: opt_list_def)
      then show ?thesis using v Leave by (auto split: option.splits)
    next
      case Again
      then obtain ls1 where r: "serve_loop h boot its st1 = Some (e, ls1, st')" "ls = la # ls1"
        using Cons.prems(1) s Some by (auto simp: opt_list_def split: option.splits)
      have nv: "history_verdict (hist @ [la]) = None" "st_streaks st1 = history_streaks (hist @ [la])"
        using v Again by (auto split: option.splits)
      have ih: "\<forall>k < length ls1. k \<noteq> 0 \<longrightarrow> history_verdict ((hist @ [la]) @ take k ls1) = None"
        "\<forall>c. e = ServeExit c \<longrightarrow> (if ls1 = [] then c = 0
           else case history_verdict ((hist @ [la]) @ ls1) of None \<Rightarrow> c = 0 | Some codes \<Rightarrow> c \<in> codes)"
        using Cons.IH [OF r(1) nv(2)] by auto
      have "history_verdict (hist @ take k ls) = None" if "k < length ls" "k \<noteq> 0" for k
      proof (cases "k = 1")
        case True
        then show ?thesis using nv r(2) by simp
      next
        case False
        then obtain j where "k = Suc j" "j \<noteq> 0" using \<open>k \<noteq> 0\<close> by (cases k) auto
        then show ?thesis using ih(1) [rule_format, of j] that r(2) by auto
      qed
      then show ?thesis using ih(2) nv r(2) by (cases "ls1 = []") auto
    qed
  qed
qed simp

text \<open>C1: what the exit code of a whole run means, over the rounds it launched: 78 exactly when the last
  round returned 78; 70 or 71 exactly when, otherwise, the last five were memory-terminated; 75 exactly
  when, otherwise, the last five were unknown short crashes or the last five made no progress; and 0 in
  every other case. No earlier moment of the run called for a verdict.\<close>

theorem serve_exit_exact:
  assumes run: "serve_loop h boot its (serve_start d env logd) = Some (ServeExit c, ls, st')"
  shows "(c = 78 \<longleftrightarrow> ls \<noteq> [] \<and> la_returncode (last ls) = 78)
    \<and> (c \<in> {70, 71} \<longleftrightarrow> \<not> c = 78 \<and> 5 \<le> length ls \<and> (\<forall>la \<in> set (drop (length ls - 5) ls). mem_killed la))
    \<and> (c = 75 \<longleftrightarrow> \<not> c \<in> {78, 70, 71} \<and> 5 \<le> length ls
        \<and> ((\<forall>la \<in> set (drop (length ls - 5) ls). crashed la) \<or> (\<forall>la \<in> set (drop (length ls - 5) ls). la_no_progress la)))
    \<and> c \<in> {0, 70, 71, 75, 78}
    \<and> (\<forall>k < length ls. history_verdict (take k ls) = None)"
proof -
  have "st_streaks (serve_start d env logd) = history_streaks []"
    by (simp add: serve_start_def history_streaks_def)
  note v0 = serve_loop_verdicts [OF run this]
  note v1 = v0 [THEN conjunct1] and v = v0 [THEN conjunct2]
  have none: "history_verdict (take k ls) = None" if "k < length ls" for k
  proof (cases k)
    case 0
    then show ?thesis by (simp add: history_verdict_def)
  next
    case (Suc j)
    then show ?thesis using v1 [rule_format, of k] that by simp
  qed
  have t: "5 \<le> tail_run P ls \<longleftrightarrow> 5 \<le> length ls \<and> (\<forall>la \<in> set (drop (length ls - 5) ls). P la)" for P
    by (rule tail_run_ge)
  show ?thesis
  proof (cases "ls = []")
    case True
    then show ?thesis using v by simp
  next
    case False
    have "case history_verdict ls of None \<Rightarrow> c = 0 | Some codes \<Rightarrow> c \<in> codes" using v False by simp
    then have w: "if la_returncode (last ls) = 78 then c = 78
        else if 5 \<le> tail_run mem_killed ls then c \<in> {70, 71}
        else if 5 \<le> tail_run crashed ls \<or> 5 \<le> tail_run la_no_progress ls then c = 75 else c = 0"
      using False by (auto simp: history_verdict_def split: if_splits)
    define M where "M = (5 \<le> tail_run mem_killed ls)"
    define C where "C = (5 \<le> tail_run crashed ls)"
    define N where "N = (5 \<le> tail_run la_no_progress ls)"
    have m: "M \<longleftrightarrow> 5 \<le> length ls \<and> (\<forall>la \<in> set (drop (length ls - 5) ls). mem_killed la)"
      unfolding M_def by (rule t)
    have cn: "C \<or> N \<longleftrightarrow> 5 \<le> length ls \<and> ((\<forall>la \<in> set (drop (length ls - 5) ls). crashed la)
        \<or> (\<forall>la \<in> set (drop (length ls - 5) ls). la_no_progress la))"
      unfolding C_def N_def t by blast
    define R where "R = (la_returncode (last ls) = 78)"
    have "if R then c = 78 else if M then c \<in> {70, 71} else if C \<or> N then c = 75 else c = 0"
      using w unfolding M_def C_def N_def R_def .
    then have "c = 78 \<longleftrightarrow> R" "c \<in> {70, 71} \<longleftrightarrow> \<not> c = 78 \<and> M"
      "c = 75 \<longleftrightarrow> \<not> c \<in> {78, 70, 71} \<and> (C \<or> N)" "c \<in> {0, 70, 71, 75, 78}"
      by (simp_all split: if_splits) auto
    then have "c = 78 \<longleftrightarrow> ls \<noteq> [] \<and> la_returncode (last ls) = 78" "c \<in> {70, 71} \<longleftrightarrow> \<not> c = 78 \<and> M"
      "c = 75 \<longleftrightarrow> \<not> c \<in> {78, 70, 71} \<and> (C \<or> N)" "c \<in> {0, 70, 71, 75, 78}"
      using False unfolding R_def by simp_all
    moreover have "\<forall>k < length ls. history_verdict (take k ls) = None" using none by blast
    ultimately show ?thesis unfolding m cn by - (intro conjI; assumption)
  qed
qed



subsection \<open>What the child is given\<close>

definition resumable :: "serve_boot \<Rightarrow> string option \<Rightarrow> bool" where
  "resumable boot p \<longleftrightarrow>
     resolve_resume_flag (sv_registries boot) (agent_of_phase (sv_cfg boot) p) \<noteq> None
     \<and> \<not> (p = None \<and> phase_list (sv_cfg boot) \<noteq> [])"

definition resume_id :: "iteration \<Rightarrow> sessions \<Rightarrow> string option \<Rightarrow> bool \<Rightarrow> string" where
  "resume_id it ids p fresh = (case ids p of None \<Rightarrow> it_uuid it | Some s \<Rightarrow> if fresh then it_uuid it else s)"

text \<open>The six variables of the protocol between \<open>serve\<close> and the round child.\<close>

definition protocol_keys :: "string set" where
  "protocol_keys = {''AGENT_RUNNER_FRESH_EYES'', ''AGENT_RUNNER_ROUND_NUM'', ''AGENT_RUNNER_REAP_GRACE_S'',
     ''AGENT_RUNNER_COOPERATIVE_STOP_SIGNAL'', ''AGENT_RUNNER_RESUME_FLAG'', ''AGENT_RUNNER_RESUME_SESSION_ID''}"

lemma apply_resume_env_result:
  assumes "apply_resume_env rg ck u cfg p fresh (env, ids, l) = (env', ids', l')"
  shows "(if resolve_resume_flag rg (agent_of_phase cfg p) \<noteq> None \<and> \<not> (p = None \<and> phase_list cfg \<noteq> [])
      then (\<exists>sid. sid = (case ids p of None \<Rightarrow> u | Some s \<Rightarrow> if fresh then u else s)
        \<and> env' = env(''AGENT_RUNNER_RESUME_FLAG'' \<mapsto> the (resolve_resume_flag rg (agent_of_phase cfg p)),
            ''AGENT_RUNNER_RESUME_SESSION_ID'' \<mapsto> sid) \<and> ids' = ids(p \<mapsto> sid))
      else env' = env(''AGENT_RUNNER_RESUME_FLAG'' := None, ''AGENT_RUNNER_RESUME_SESSION_ID'' := None) \<and> ids' = ids)"
  using assms by (auto simp: apply_resume_env_def Let_def fun_upd_idem split: if_splits option.splits)

lemma boot_tables:
  "(case reap_grace_by_phase rg cfg p of Some g \<Rightarrow> g | None \<Rightarrow> resolve_grace rg cfg p) = resolve_grace rg cfg p"
  "(case cooperative_signal_by_phase rg cfg p of Some s \<Rightarrow> s | None \<Rightarrow> cooperative_signal_name rg cfg p)
     = cooperative_signal_name rg cfg p"
  by (simp_all add: reap_grace_by_phase_def cooperative_signal_by_phase_def)

definition published :: "serve_boot \<Rightarrow> iteration \<Rightarrow> string option \<Rightarrow> bool \<Rightarrow> sessions \<Rightarrow> round_env \<Rightarrow> round_env" where
  "published boot it p fresh ids env =
     (let base = env(''AGENT_RUNNER_FRESH_EYES'' \<mapsto> (if fresh then ''1'' else ''0''),
            ''AGENT_RUNNER_ROUND_NUM'' \<mapsto> int_digits (it_round_num it),
            ''AGENT_RUNNER_REAP_GRACE_S'' \<mapsto> int_digits (resolve_grace (sv_registries boot) (sv_cfg boot) p),
            ''AGENT_RUNNER_COOPERATIVE_STOP_SIGNAL'' \<mapsto> cooperative_signal_name (sv_registries boot) (sv_cfg boot) p)
      in if resumable boot p
         then base(''AGENT_RUNNER_RESUME_FLAG'' \<mapsto> the (resolve_resume_flag (sv_registries boot) (agent_of_phase (sv_cfg boot) p)),
                ''AGENT_RUNNER_RESUME_SESSION_ID'' \<mapsto> resume_id it ids p fresh)
         else base(''AGENT_RUNNER_RESUME_FLAG'' := None, ''AGENT_RUNNER_RESUME_SESSION_ID'' := None))"

lemma prepare_round_env:
  assumes "prepare_round boot it p st = (st', fresh)"
  shows "st_env st' = published boot it p fresh (st_sessions st) (st_env st)
    \<and> st_sessions st' = (if resumable boot p then (st_sessions st)(p \<mapsto> resume_id it (st_sessions st) p fresh) else st_sessions st)
    \<and> (fresh \<longleftrightarrow> is_fresh_eyes_round (it_round_num it) (rt_fresh_eyes_every_n (cf_runtime (sv_cfg boot))))"
proof -
  let ?rg = "sv_registries boot" and ?cfg = "sv_cfg boot" and ?ck = "it_clock it"
  let ?f = "is_fresh_eyes_round (it_round_num it) (rt_fresh_eyes_every_n (cf_runtime ?cfg))"
  obtain env1 l2 where f: "apply_fresh_eyes ?ck ?cfg (it_round_num it) ?f
      (st_env st, capture_substrate ?ck ROUND_SUBSTRATE_BEFORE (it_round_num it) (it_before it) (st_log st)) = (env1, l2)"
    by fastforce
  have env1: "env1 = (st_env st)(''AGENT_RUNNER_FRESH_EYES'' \<mapsto> (if ?f then ''1'' else ''0''))"
    using f by (simp add: apply_fresh_eyes_def split: if_splits)
  define env4 where "env4 = apply_cooperative_signal_env ?rg ?cfg p (cooperative_signal_by_phase ?rg ?cfg)
     (apply_reap_grace_env ?rg ?cfg p (reap_grace_by_phase ?rg ?cfg) (apply_round_num_env (it_round_num it) env1))"
  obtain env5 ids l3 where r: "apply_resume_env ?rg ?ck (it_uuid it) ?cfg p ?f (env4, st_sessions st, l2) = (env5, ids, l3)"
    using prod_cases3 by blast
  have st': "st' = st\<lparr>st_env := env5, st_sessions := ids, st_log := l3\<rparr>" and fr: "fresh = ?f"
    using assms unfolding prepare_round_def Let_def f prod.case env4_def [symmetric] r by simp_all
  have "env4 = (st_env st)(''AGENT_RUNNER_FRESH_EYES'' \<mapsto> (if ?f then ''1'' else ''0''),
            ''AGENT_RUNNER_ROUND_NUM'' \<mapsto> int_digits (it_round_num it),
            ''AGENT_RUNNER_REAP_GRACE_S'' \<mapsto> int_digits (resolve_grace ?rg ?cfg p),
            ''AGENT_RUNNER_COOPERATIVE_STOP_SIGNAL'' \<mapsto> cooperative_signal_name ?rg ?cfg p)"
    by (simp add: env4_def env1 apply_cooperative_signal_env_def apply_reap_grace_env_def apply_round_num_env_def boot_tables)
  note base = this
  show ?thesis
  proof (cases "resumable boot p")
    case True
    then have "env5 = env4(''AGENT_RUNNER_RESUME_FLAG'' \<mapsto> the (resolve_resume_flag ?rg (agent_of_phase ?cfg p)),
        ''AGENT_RUNNER_RESUME_SESSION_ID'' \<mapsto> resume_id it (st_sessions st) p ?f)"
      "ids = (st_sessions st)(p \<mapsto> resume_id it (st_sessions st) p ?f)"
      using apply_resume_env_result [OF r] unfolding resumable_def resume_id_def by simp_all
    then show ?thesis unfolding published_def Let_def st' fr base by (simp add: True)
  next
    case False
    then have "env5 = env4(''AGENT_RUNNER_RESUME_FLAG'' := None, ''AGENT_RUNNER_RESUME_SESSION_ID'' := None)"
      "ids = st_sessions st"
      using apply_resume_env_result [OF r] unfolding resumable_def by (auto split: if_splits)
    then show ?thesis unfolding published_def Let_def st' fr base by (simp add: False)
  qed
qed

text \<open>The environment, the session table and the launch of a step that launches.\<close>

lemma launch_prepared:
  assumes "serve_step h boot it st = Some (n, Some la, st')"
  shows "la_env la = published boot it (la_phase la) (la_fresh la) (st_sessions st) (st_env st)
    \<and> st_env st' = la_env la \<and> la_round_num la = it_round_num it
    \<and> la_argv la = round_argv (sv_python boot) (sv_config_path boot) (la_phase la)
    \<and> la_timeout_s la = outer_round_ceiling_s (sv_cfg boot) (la_phase la)
    \<and> (la_fresh la \<longleftrightarrow> is_fresh_eyes_round (it_round_num it) (rt_fresh_eyes_every_n (cf_runtime (sv_cfg boot))))
    \<and> st_sessions st' = (if resumable boot (la_phase la)
         then (st_sessions st)(la_phase la \<mapsto> resume_id it (st_sessions st) (la_phase la) (la_fresh la)) else st_sessions st)"
proof -
  from serve_step_cases [OF assms] obtain phase st2 st3 x d where
    f: "st_env st2 = st_env st" "st_sessions st2 = st_sessions st" "prepare_round boot it phase st2 = (st3, la_fresh la)"
    and r: "run_round h boot it phase (la_fresh la) st3 = Some (Inr (x, d), Some la, st')" by auto
  have p: "la_phase la = phase" "la_env la = st_env st3" "st_env st' = st_env st3" "st_sessions st' = st_sessions st3"
    "la_round_num la = it_round_num it" "la_argv la = round_argv (sv_python boot) (sv_config_path boot) phase"
    "la_timeout_s la = outer_round_ceiling_s (sv_cfg boot) phase"
    using run_round_result [OF r] by auto
  show ?thesis using prepare_round_env [OF f(3)] f p by simp
qed

lemma step_no_launch:
  assumes "serve_step h boot it st = Some (Again, None, st')"
  shows "st_env st' = st_env st \<and> st_sessions st' = st_sessions st"
  using serve_step_cases [OF assms] by auto

text \<open>Two facts of the loop: what it does in its first iteration.\<close>

lemma serve_loop_Cons:
  assumes "serve_loop h boot (it # its) st = Some (e, ls, st')"
  obtains n l st1 where "serve_step h boot it st = Some (n, l, st1)"
    "(n = Leave e \<and> ls = opt_list l \<and> st' = st1)
     \<or> (\<exists>ls1. n = Again \<and> serve_loop h boot its st1 = Some (e, ls1, st') \<and> ls = opt_list l @ ls1)"
  using assms by (auto split: option.splits next_step.splits)

lemma published_lookup:
  "published boot it p fresh ids env ''AGENT_RUNNER_FRESH_EYES'' = Some (if fresh then ''1'' else ''0'')"
  "published boot it p fresh ids env ''AGENT_RUNNER_ROUND_NUM'' = Some (int_digits (it_round_num it))"
  "published boot it p fresh ids env ''AGENT_RUNNER_REAP_GRACE_S''
     = Some (int_digits (resolve_grace (sv_registries boot) (sv_cfg boot) p))"
  "published boot it p fresh ids env ''AGENT_RUNNER_COOPERATIVE_STOP_SIGNAL''
     = Some (cooperative_signal_name (sv_registries boot) (sv_cfg boot) p)"
  "published boot it p fresh ids env ''AGENT_RUNNER_RESUME_FLAG'' = (if resumable boot p
     then resolve_resume_flag (sv_registries boot) (agent_of_phase (sv_cfg boot) p) else None)"
  "published boot it p fresh ids env ''AGENT_RUNNER_RESUME_SESSION_ID'' = (if resumable boot p
     then Some (resume_id it ids p fresh) else None)"
  by (auto simp: published_def Let_def resumable_def)

lemma published_keys: "k \<notin> protocol_keys \<Longrightarrow> published boot it p fresh ids env k = env k"
  by (simp add: published_def protocol_keys_def Let_def)

lemma serve_loop_env:
  assumes "serve_loop h boot its st = Some (e, ls, st')" "la \<in> set ls"
  shows "(\<exists>it \<in> set its. \<exists>ids env. la_env la = published boot it (la_phase la) (la_fresh la) ids env
      \<and> (\<forall>k. k \<notin> protocol_keys \<longrightarrow> env k = st_env st k) \<and> la_round_num la = it_round_num it
      \<and> la_argv la = round_argv (sv_python boot) (sv_config_path boot) (la_phase la)
      \<and> la_timeout_s la = outer_round_ceiling_s (sv_cfg boot) (la_phase la)
      \<and> (la_fresh la \<longleftrightarrow> is_fresh_eyes_round (it_round_num it) (rt_fresh_eyes_every_n (cf_runtime (sv_cfg boot)))))"
  using assms
proof (induction its arbitrary: st ls)
  case (Cons it its)
  obtain n l st1 where s: "serve_step h boot it st = Some (n, l, st1)"
    and r: "(n = Leave e \<and> ls = opt_list l \<and> st' = st1)
     \<or> (\<exists>ls1. n = Again \<and> serve_loop h boot its st1 = Some (e, ls1, st') \<and> ls = opt_list l @ ls1)"
    using serve_loop_Cons [OF Cons.prems(1)] by blast
  show ?case
  proof (cases "l = Some la")
    case True
    have "\<forall>k. k \<notin> protocol_keys \<longrightarrow> st_env st k = st_env st k" by simp
    then show ?thesis using launch_prepared [OF s [unfolded True]] by (intro bexI [of _ it]) (blast, simp)
  next
    case False
    then obtain ls1 where ls1: "n = Again" "serve_loop h boot its st1 = Some (e, ls1, st')" "la \<in> set ls1"
      using r Cons.prems(2) by (cases l) (auto simp: opt_list_def)
    have keep: "st_env st1 k = st_env st k" if "k \<notin> protocol_keys" for k
      using s ls1(1) launch_prepared [of h boot it st n _ st1] step_no_launch [of h boot it st st1] that
      by (cases l) (auto simp: published_keys)
    from Cons.IH [OF ls1(2,3)] keep show ?thesis by auto
  qed
qed simp

text \<open>C7: every launched child gets, in its environment, the round number, the fresh-eyes flag, the grace
  and the stop signal of the very phase it is launched for, and the resume flag and a session id exactly
  when that phase may resume; nothing else of the operator's environment is touched, and its argv and
  ceiling are those of the phase.\<close>

theorem published_environment:
  assumes run: "serve_loop h boot its (serve_start d os_env logd) = Some (e, ls, st')" and la: "la \<in> set ls"
  shows "la_env la ''AGENT_RUNNER_ROUND_NUM'' = Some (int_digits (la_round_num la))
    \<and> la_env la ''AGENT_RUNNER_FRESH_EYES'' = Some (if la_fresh la then ''1'' else ''0'')
    \<and> (la_fresh la \<longleftrightarrow> is_fresh_eyes_round (la_round_num la) (rt_fresh_eyes_every_n (cf_runtime (sv_cfg boot))))
    \<and> la_env la ''AGENT_RUNNER_REAP_GRACE_S'' = Some (int_digits (resolve_grace (sv_registries boot) (sv_cfg boot) (la_phase la)))
    \<and> la_env la ''AGENT_RUNNER_COOPERATIVE_STOP_SIGNAL'' = Some (cooperative_signal_name (sv_registries boot) (sv_cfg boot) (la_phase la))
    \<and> la_env la ''AGENT_RUNNER_RESUME_FLAG'' = (if resumable boot (la_phase la)
          then resolve_resume_flag (sv_registries boot) (agent_of_phase (sv_cfg boot) (la_phase la)) else None)
    \<and> (la_env la ''AGENT_RUNNER_RESUME_SESSION_ID'' \<noteq> None \<longleftrightarrow> resumable boot (la_phase la))
    \<and> la_env la ''AGENT_RUNNER_LOG_DIR'' = Some d
    \<and> (\<forall>k. k \<notin> insert ''AGENT_RUNNER_LOG_DIR'' protocol_keys \<longrightarrow> la_env la k = os_env k)
    \<and> la_argv la = round_argv (sv_python boot) (sv_config_path boot) (la_phase la)
    \<and> la_timeout_s la = outer_round_ceiling_s (sv_cfg boot) (la_phase la)"
proof -
  obtain it ids env where e: "la_env la = published boot it (la_phase la) (la_fresh la) ids env"
    "\<forall>k. k \<notin> protocol_keys \<longrightarrow> env k = st_env (serve_start d os_env logd) k" "la_round_num la = it_round_num it"
    "la_argv la = round_argv (sv_python boot) (sv_config_path boot) (la_phase la)"
    "la_timeout_s la = outer_round_ceiling_s (sv_cfg boot) (la_phase la)"
    "la_fresh la \<longleftrightarrow> is_fresh_eyes_round (it_round_num it) (rt_fresh_eyes_every_n (cf_runtime (sv_cfg boot)))"
    using serve_loop_env [OF run la] by blast
  have out: "la_env la k = (if k = ''AGENT_RUNNER_LOG_DIR'' then Some d else os_env k)" if "k \<notin> protocol_keys" for k
    using e(1,2) that by (simp add: published_keys serve_start_def)
  have d: "''AGENT_RUNNER_LOG_DIR'' \<notin> protocol_keys" by (simp add: protocol_keys_def)
  have n: "(if resumable boot (la_phase la) then Some x else None) \<noteq> None \<longleftrightarrow> resumable boot (la_phase la)" for x
    by simp
  have o: "la_env la ''AGENT_RUNNER_LOG_DIR'' = Some d" using out [OF d] by simp
  have r: "\<forall>k. k \<notin> insert ''AGENT_RUNNER_LOG_DIR'' protocol_keys \<longrightarrow> la_env la k = os_env k" using out by auto
  show ?thesis
    unfolding e(1) published_lookup e(3) n using e(4-6) o [unfolded e(1)] r [unfolded e(1)]
    by (intro conjI) (simp_all only: e(3))
qed



subsection \<open>Sessions belong to one phase\<close>

definition session :: "launch \<Rightarrow> string option" where
  "session la = la_env la ''AGENT_RUNNER_RESUME_SESSION_ID''"

definition latest_session :: "string option \<Rightarrow> launch list \<Rightarrow> string option" where
  "latest_session p ls = (case find (\<lambda>la. la_phase la = p) (rev ls) of None \<Rightarrow> None | Some la \<Rightarrow> session la)"

lemma latest_session_snoc [simp]:
  "latest_session p (ls @ [la]) = (if la_phase la = p then session la else latest_session p ls)"
  by (simp add: latest_session_def)

lemma latest_session_Nil [simp]: "latest_session p [] = None"
  by (simp add: latest_session_def)

lemma latest_session_in: "latest_session p ls = Some s \<Longrightarrow> \<exists>la \<in> set ls. la_phase la = p \<and> session la = Some s"
  by (auto simp: latest_session_def split: option.splits dest!: find_SomeD)

text \<open>
  A round resumes the latest session of its phase unless it is a fresh-eyes round or the first one;
  otherwise its session is new.
\<close>

definition session_rule :: "launch list \<Rightarrow> launch \<Rightarrow> bool" where
  "session_rule before la \<longleftrightarrow>
     (\<forall>s. session la = Some s \<longrightarrow>
        (case latest_session (la_phase la) before of
           Some s0 \<Rightarrow> if la_fresh la then \<forall>lb \<in> set before. session lb \<noteq> Some s else s = s0
         | None \<Rightarrow> \<forall>lb \<in> set before. session lb \<noteq> Some s))"

definition sessions_inv :: "serve_boot \<Rightarrow> string set \<Rightarrow> launch list \<Rightarrow> serve_state \<Rightarrow> bool" where
  "sessions_inv boot coming hist st \<longleftrightarrow>
     (\<forall>p. st_sessions st p = latest_session p hist)
     \<and> (\<forall>la \<in> set hist. \<forall>s. session la = Some s \<longrightarrow> s \<notin> coming)
     \<and> (\<forall>la \<in> set hist. session la \<noteq> None \<longleftrightarrow> resumable boot (la_phase la))"

lemma latest_resumable: "sessions_inv boot coming hist st \<Longrightarrow> latest_session p hist \<noteq> None \<Longrightarrow> resumable boot p"
  using latest_session_in unfolding sessions_inv_def by (metis option.exhaust)

lemma session_step:
  assumes s: "serve_step h boot it st = Some (n, Some la, st')"
    and inv: "sessions_inv boot coming hist st" and u: "it_uuid it \<in> coming" "coming' \<subseteq> coming - {it_uuid it}"
  shows "session_rule hist la \<and> sessions_inv boot coming' (hist @ [la]) st'"
proof -
  let ?p = "la_phase la"
  note l = launch_prepared [OF s]
  have ses: "session la = (if resumable boot ?p then Some (resume_id it (st_sessions st) ?p (la_fresh la)) else None)"
    unfolding session_def using l by (simp only: published_lookup)
  have ids: "st_sessions st q = latest_session q hist" for q using inv by (simp add: sessions_inv_def)
  have new: "session lb \<noteq> Some (it_uuid it)" if "lb \<in> set hist" for lb
    using inv u(1) that by (auto simp: sessions_inv_def)
  have rule: "session_rule hist la"
    using new by (auto simp: session_rule_def ses resume_id_def ids split: option.splits if_splits)
  have i1: "st_sessions st' q = latest_session q (hist @ [la])" for q
  proof (cases "resumable boot ?p")
    case False
    then have "latest_session ?p hist = None" using latest_resumable [OF inv, of ?p] by blast
    moreover have "st_sessions st' = st_sessions st" "session la = None" using l ses False by simp_all
    ultimately show ?thesis using ids [of q] by auto
  next
    case True
    then have "st_sessions st' = (st_sessions st)(?p \<mapsto> resume_id it (st_sessions st) ?p (la_fresh la))"
      "session la = Some (resume_id it (st_sessions st) ?p (la_fresh la))" using l ses by simp_all
    then show ?thesis using ids [of q] by simp
  qed
  have old: "s \<notin> coming'" if "latest_session ?p hist = Some s" for s
    using latest_session_in [OF that] inv u(2) by (auto simp: sessions_inv_def)
  have "s \<notin> coming'" if "session la = Some s" for s
    using that old u(2) by (auto simp: ses resume_id_def ids split: option.splits if_splits)
  then have "sessions_inv boot coming' (hist @ [la]) st'"
    using i1 inv u(2) ses unfolding sessions_inv_def by auto
  with rule show ?thesis by blast
qed

lemma serve_loop_sessions:
  assumes "serve_loop h boot its st = Some (e, ls, st')" "sessions_inv boot (it_uuid ` set its) hist st"
    "distinct (map it_uuid its)"
  shows "\<forall>k < length ls. session_rule (hist @ take k ls) (ls ! k)"
  using assms
proof (induction its arbitrary: st ls hist)
  case (Cons it its)
  obtain n l st1 where s: "serve_step h boot it st = Some (n, l, st1)"
    and r: "(n = Leave e \<and> ls = opt_list l \<and> st' = st1)
     \<or> (\<exists>ls1. n = Again \<and> serve_loop h boot its st1 = Some (e, ls1, st') \<and> ls = opt_list l @ ls1)"
    using serve_loop_Cons [OF Cons.prems(1)] by blast
  have sub: "it_uuid ` set its \<subseteq> it_uuid ` set (it # its) - {it_uuid it}" using Cons.prems(3) by auto
  have d: "distinct (map it_uuid its)" using Cons.prems(3) by simp
  show ?case
  proof (cases l)
    case None
    show ?thesis
    proof (cases n)
      case Again
      then obtain ls1 where ls1: "serve_loop h boot its st1 = Some (e, ls1, st')" "ls = ls1"
        using r None by (auto simp: opt_list_def)
      have "sessions_inv boot (it_uuid ` set its) hist st1"
        using Cons.prems(2) step_no_launch [OF s [unfolded None Again]] by (auto simp: sessions_inv_def)
      from Cons.IH [OF ls1(1) this d] ls1(2) show ?thesis by simp
    qed (use r None in \<open>simp add: opt_list_def\<close>)
  next
    case (Some la)
    have "it_uuid it \<in> it_uuid ` set (it # its)" by simp
    note st = session_step [OF s [unfolded Some] Cons.prems(2) this sub]
    show ?thesis
    proof (cases n)
      case (Leave x)
      then show ?thesis using r Some st by (simp add: opt_list_def)
    next
      case Again
      then obtain ls1 where ls1: "serve_loop h boot its st1 = Some (e, ls1, st')" "ls = la # ls1"
        using r Some by (auto simp: opt_list_def)
      from Cons.IH [OF ls1(1) _ d] st have ih: "\<forall>k < length ls1. session_rule ((hist @ [la]) @ take k ls1) (ls1 ! k)" by blast
      show ?thesis unfolding ls1(2)
      proof (intro allI impI)
        fix k assume "k < length (la # ls1)"
        then show "session_rule (hist @ take k (la # ls1)) ((la # ls1) ! k)"
          using ih st by (cases k) auto
      qed
    qed
  qed
qed simp

lemma session_owner:
  assumes "\<forall>k < length ls. session_rule (take k ls) (ls ! k)"
  shows "\<lbrakk>la \<in> set ls; lb \<in> set ls; session la = Some s; session lb = Some s\<rbrakk> \<Longrightarrow> la_phase la = la_phase lb"
  using assms
proof (induction ls arbitrary: la lb rule: rev_induct)
  case (snoc x xs)
  have ih: "la_phase a = la_phase b" if "a \<in> set xs" "b \<in> set xs" "session a = Some s" "session b = Some s" for a b
  proof (rule snoc.IH [OF that])
    show "\<forall>k < length xs. session_rule (take k xs) (xs ! k)"
    proof (intro allI impI)
      fix k assume "k < length xs"
      then show "session_rule (take k xs) (xs ! k)"
        using snoc.prems(5) [rule_format, of k] by (simp add: nth_append)
    qed
  qed
  have rule: "session_rule xs x" using snoc.prems(5) [rule_format, of "length xs"] by simp
  have x: "la_phase y = la_phase x" if "y \<in> set xs" "session y = Some s" "session x = Some s" for y
  proof -
    have "latest_session (la_phase x) xs = Some s"
      using rule that by (auto simp: session_rule_def split: option.splits if_splits)
    from latest_session_in [OF this] obtain z where "z \<in> set xs" "la_phase z = la_phase x" "session z = Some s" by blast
    then show ?thesis using ih [of y z] that by simp
  qed
  consider "la = x" "lb = x" | "la = x" "lb \<in> set xs" | "la \<in> set xs" "lb = x" | "la \<in> set xs" "lb \<in> set xs"
    using snoc.prems(1,2) by auto
  then show ?case
  proof cases
    case 1
    then show ?thesis by simp
  next
    case 2
    then show ?thesis using x [of lb] snoc.prems(3,4) by simp
  next
    case 3
    then show ?thesis using x [of la] snoc.prems(3,4) by simp
  next
    case 4
    then show ?thesis using ih [of la lb] snoc.prems(3,4) by simp
  qed
qed simp

text \<open>C12: session ids never cross phases: with distinct fresh ids, two rounds with the same session are
  rounds of the same phase, and each round resumes the latest session of its phase unless it is the first
  one or a fresh-eyes round, in which case its session was never used before.\<close>

theorem sessions_isolated:
  assumes run: "serve_loop h boot its (serve_start d os_env logd) = Some (e, ls, st')" and "distinct (map it_uuid its)"
  shows "(\<forall>la \<in> set ls. \<forall>lb \<in> set ls. session la \<noteq> None \<longrightarrow> session la = session lb \<longrightarrow> la_phase la = la_phase lb)
    \<and> (\<forall>k < length ls. session_rule (take k ls) (ls ! k))"
proof -
  have "sessions_inv boot (it_uuid ` set its) [] (serve_start d os_env logd)"
    by (simp add: sessions_inv_def serve_start_def)
  from serve_loop_sessions [OF run this assms(2)]
  have r: "\<forall>k < length ls. session_rule (take k ls) (ls ! k)" by simp
  show ?thesis using session_owner [OF r] r by (metis option.exhaust)
qed

subsection \<open>Stopping\<close>

lemma stop_step:
  assumes "it_stop_top it \<or> it_sentinel it"
  shows "serve_step h boot it st = Some (Leave (ServeExit 0), None, st)"
  using assms by (auto simp: serve_step_def loop_guards_def)

text \<open>A stop request or a self-termination sentinel seen at the top of an iteration ends the run
  there: the run is the same whatever would have come after, with no round launched from then on.\<close>

theorem stop_is_final:
  assumes "it_stop_top it \<or> it_sentinel it" and run: "serve_loop h boot (pre @ it # post) st = Some (e, ls, st')"
  shows "serve_loop h boot (pre @ [it]) st = Some (e, ls, st') \<and> length ls \<le> length pre"
  using run
proof (induction pre arbitrary: st ls)
  case Nil
  then show ?case using stop_step [OF assms(1)] by (simp add: opt_list_def)
next
  case (Cons i pre)
  obtain n l st1 where s: "serve_step h boot i st = Some (n, l, st1)"
    and r: "(n = Leave e \<and> ls = opt_list l \<and> st' = st1)
     \<or> (\<exists>ls1. n = Again \<and> serve_loop h boot (pre @ it # post) st1 = Some (e, ls1, st') \<and> ls = opt_list l @ ls1)"
    using serve_loop_Cons Cons.prems by (metis append_Cons)
  have o: "length (opt_list l) \<le> 1" by (simp add: opt_list_def split: option.split)
  show ?case
  proof (cases n)
    case (Leave x)
    then show ?thesis using r s o by auto
  next
    case Again
    then obtain ls1 where ls1: "serve_loop h boot (pre @ it # post) st1 = Some (e, ls1, st')" "ls = opt_list l @ ls1"
      using r by auto
    show ?thesis using Cons.IH [OF ls1(1)] ls1(2) s Again o by simp
  qed
qed

subsection \<open>The command\<close>

text \<open>The \<open>serve\<close> command: without the lock it exits 1 and does nothing; a failed cleanup or an
  invalid round limit exits 78 with no round; a \<open>ConfigError\<close> is raised only for colliding phase windows
  and before any round; the exit code is one of 0, 1, 70, 71, 75 and 78; and the effective limit bounds the
  rounds launched.\<close>

theorem serve_cmd_outcomes:
  assumes run: "serve_cmd h describe boot lock_free cli ck prune d os_env its logd = Some (r, ls, logd')"
  shows "(\<not> lock_free \<longrightarrow> r = Inr (ServeExit 1) \<and> ls = [] \<and> logd' = logd)
    \<and> (lock_free \<and> (\<exists>e. prune = Inl e) \<or> lock_free \<and> (\<exists>n. (if cli \<noteq> None then cli else rt_max_rounds (cf_runtime (sv_cfg boot))) = Some n \<and> n < 1)
         \<longrightarrow> r = Inr (ServeExit 78) \<and> ls = [])
    \<and> (\<forall>e. r = Inl e \<longrightarrow> ls = [] \<and> find_phase_window_overlaps (sv_cfg boot) \<noteq> [])
    \<and> (\<forall>c. r = Inr (ServeExit c) \<longrightarrow> c \<in> {0, 1, 70, 71, 75, 78})
    \<and> (\<forall>n. (if cli \<noteq> None then cli else rt_max_rounds (cf_runtime (sv_cfg boot))) = Some n \<longrightarrow> int (length ls) \<le> max 0 n)"
proof -
  let ?eff = "if cli \<noteq> None then cli else rt_max_rounds (cf_runtime (sv_cfg boot))"
  show ?thesis
  proof (cases "lock_free \<and> (\<exists>u. prune = Inr u) \<and> \<not> (\<exists>n. ?eff = Some n \<and> n < 1)")
    case False
    then have "(\<not> lock_free \<and> r = Inr (ServeExit 1) \<and> ls = [] \<and> logd' = logd) \<or> (lock_free \<and> r = Inr (ServeExit 78) \<and> ls = [])"
      using run by (cases prune)
        (auto simp: serve_cmd_def prepare_loop_def resolve_max_rounds_def Let_def permanent_config_exit_def
          split: if_splits option.splits)
    then show ?thesis by auto
  next
    case True
    have m: "resolve_max_rounds cli (rt_max_rounds (cf_runtime (sv_cfg boot))) = Inr ?eff"
      using True unfolding resolve_max_rounds_def Let_def by (cases ?eff) (simp_all only: option.case, auto)
    have p: "prepare_loop describe ck (sv_cfg boot) cli prune logd = ((None, ?eff), logd)"
      using True unfolding prepare_loop_def by (auto simp: m)
    show ?thesis
    proof (cases "find_phase_window_overlaps (sv_cfg boot) = []")
      case no: False
      then have "\<exists>e. r = Inl e" "ls = []" using run True by (auto simp: serve_cmd_def p Let_def)
      then show ?thesis using True no by auto
    next
      case ok: True
      obtain e st where l: "serve_loop h (boot\<lparr>sv_max_rounds := ?eff\<rparr>) its (serve_start d os_env logd) = Some (e, ls, st)"
        and r: "r = Inr e" using run True ok by (auto simp: serve_cmd_def p Let_def split: option.splits)
      have "c \<in> {0, 1, 70, 71, 75, 78}" if "e = ServeExit c" for c
      proof -
        have "st_streaks (serve_start d os_env logd) = history_streaks []"
          by (simp add: serve_start_def history_streaks_def)
        from serve_loop_verdicts [OF l this, unfolded append_Nil] that
        have "if ls = [] then c = 0 else case history_verdict ls of None \<Rightarrow> c = 0 | Some codes \<Rightarrow> c \<in> codes" by simp
        then have "c = 0 \<or> (\<exists>S. history_verdict ls = Some S \<and> c \<in> S)"
          by (cases "history_verdict ls"; cases "ls = []") auto
        moreover have "S \<subseteq> {70, 71, 75, 78}" if "history_verdict ls = Some S" for S
          using that unfolding history_verdict_def by (auto split: if_split_asm)
        ultimately show ?thesis by blast
      qed
      moreover have "int (length ls) \<le> max 0 n" if "?eff = Some n" for n
        using loop_counts [OF l, THEN conjunct1] loop_counts [OF l, THEN conjunct2, THEN conjunct2, rule_format, of n] that
        by (simp add: serve_start_def max.commute)
      ultimately show ?thesis using True r by auto
    qed
  qed
qed



subsection \<open>A run of the loop\<close>

text \<open>One round of \<open>pi\<close>, a CLI whose sessions resume, that comes back with a permanent failure (78).\<close>

definition example_host :: host where
  "example_host = \<lparr>ho_num = (\<lambda>_. ''n''), ho_isofmt = (\<lambda>z t. ''t''), ho_list_repr = (\<lambda>xs. ''[]''),
     ho_utc_off = (\<lambda>z t. 0), ho_local_ts = (\<lambda>n. 0)\<rparr>"

definition pi_registries :: registries where
  "pi_registries = snd (register_manifest pi_manifest no_plugins)"

definition example_boot :: serve_boot where
  "example_boot = \<lparr>sv_cfg = (example_config None PolicyWait)\<lparr>cf_agent := example_agent ''/usr/bin/pi''\<rparr>,
     sv_registries = pi_registries, sv_ignore_schedule = False, sv_once = False, sv_max_rounds = Some 3,
     sv_python = ''python3'', sv_config_path = ''agent.toml'',
     sv_cgroup = \<lparr>cl_cgroup_path = None, cl_memory_max = None, cl_swap_max = None, cl_bounding_path = None,
        cl_memory_high = None, cl_delegated = None, cl_swap_total = 0, cl_mem_total = 0\<rparr>\<rparr>"

definition example_iteration :: "int \<Rightarrow> iteration" where
  "example_iteration rc = \<lparr>it_stop_top = False, it_sentinel = False, it_throttle = example_throttle_obs,
     it_stop_file = None, it_stop_clock = example_clock 1200, it_round_num = 1, it_select = example_select,
     it_stop_selected = False, it_clock = example_clock 1200,
     it_before = \<lparr>sb_git_head = PNone, sb_paths_hash = PNone\<rparr>, it_after = \<lparr>sb_git_head = PNone, sb_paths_hash = PNone\<rparr>,
     it_uuid = ''u1'', it_started = 0, it_ended = 15, it_cg_base = None,
     it_ticks = [example_tick (Exited rc) 15 0], it_events = [], it_clock_after = example_clock 1215,
     it_verdict = example_verdicts, it_stop_end = True, it_null_listener = True, it_sleep = []\<rparr>"

lemma example_boot_phase: "phase_list (sv_cfg example_boot) = []" "\<not> phase_aware (sv_cfg example_boot)"
  by (simp_all add: phase_aware_def phase_list_def example_boot_def example_config_def)

lemma example_quiet: "check_throttle_state [] now = None"
  by (simp add: check_throttle_state_def latest_unrecovered_detected_def newest_month_files_def all_month_files_def Let_def)

lemma example_gates:
  "loop_guards example_boot (example_iteration rc) (serve_start d env []) = Some (Some ({}, None), serve_start d env [])"
  by (simp add: loop_guards_def serve_start_def example_iteration_def round_throttle_gate_def skip_around_def
      example_boot_phase gate_throttle_def example_quiet stop_file_hit_def)
    (simp add: example_boot_def example_config_def default_runtime_def)

lemma example_selects:
  "select_and_gate num isofmt repr off (sv_cfg example_boot) (sv_ignore_schedule example_boot) n {} None example_select None []
     = Some (Launch None, False, Some (example_psi 0), [])"
proof -
  have hh: "mo_host_health (cf_monitor (sv_cfg example_boot)) = default_host_health"
    by (simp add: example_boot_def example_config_def default_monitor_def)
  have g: "maybe_pause_for_memory_pressure num default_host_health None (so_memory example_select) []
      = Some (False, Some (example_psi 0), [])"
    by (simp add: maybe_pause_for_memory_pressure_def memory_pressure_now_def example_select_def example_psi_def
        memory_pressure_def psi_pressure_def default_host_health_def Let_def)
  have "maybe_pause_for_schedule isofmt (sv_cfg example_boot) now ob [] = Some (False, [])" for now ob
    by (simp add: maybe_pause_for_schedule_def schedule_enabled_def example_boot_def example_config_def Let_def)
  then show ?thesis
    by (simp add: select_and_gate_def hh g example_boot_phase)
qed

lemma example_spawns:
  "\<exists>acts. spawn_round (spawn_env_of example_boot (example_iteration rc) None) (it_ticks (example_iteration rc))
     = Some (acts, Returned rc)"
  by (simp add: spawn_round_def spawn_env_of_def example_iteration_def example_tick_def)

lemma example_tail_two: "tail_events [(m, es)] = es"
  by (simp add: tail_events_def scan_def newest_month_files_def all_month_files_def)

lemma example_scan:
  assumes "tail_events l = [a, b]" "is_kind a ROUND_SUBSTRATE_BEFORE" "is_kind b ''round_substrate_after''"
  shows "\<exists>ro thr. round_scan cfg None now l = Inr (thr, ro) \<and> \<not> ro_mem_terminated ro"
proof -
  have k: "is_kind a x \<longleftrightarrow> x = ROUND_SUBSTRATE_BEFORE" "is_kind b x \<longleftrightarrow> x = ''round_substrate_after''" for x
    using assms(2,3) by (auto simp: is_kind_def)
  have "oa_terminated (fold outcome_step (tail_events l) outcome_init) = None"
    by (simp add: assms(1) outcome_step_def outcome_kinds_def outcome_stamps_def outcome_init_def k Let_def)
  then have "mem_terminated_of (fold outcome_step (tail_events l) outcome_init) = Inr False"
    by (simp add: mem_terminated_of_def split: option.split)
  then obtain ro where "round_outcome l None = Inr ro" "\<not> ro_mem_terminated ro"
    by (simp add: round_outcome_def Let_def)
  then show ?thesis
    by (simp add: round_scan_def round_was_mem_terminated_def outcome_or_scan_def)
qed

lemma example_verdict:
  assumes "\<not> ro_mem_terminated ro"
  shows "\<exists>d str l'. post_round_verdicts num lts cfg env n 78 dur thr ro (0, 0, 0) l = Inr ((Some 78, d, str), l')"
proof -
  obtain cu bl l1 where c: "emit_round_cgroup_memory num (ve_clock env) n (ve_stash env) (ve_usage env) (ve_sample env) l = ((cu, bl), l1)"
    by (metis prod.collapse)
  have np: "round_had_no_progress l 78 dur no_progress_short_s thr (Some ro) = Inr False"
    by (simp add: round_had_no_progress_def)
  show ?thesis
    by (simp add: post_round_verdicts_def breakers_def post_round_decision_def permanent_config_exit_def mem_loop_decision_def
        no_progress_decision_def consecutive_streak_decision_def np assms c Let_def)
qed

lemma example_serves:
  "\<exists>la st'. serve_step example_host example_boot (example_iteration 78) (serve_start d env [])
     = Some (Leave (ServeExit 78), Some la, st') \<and> la_phase la = None \<and> la_returncode la = 78"
proof -
  let ?it = "example_iteration 78" and ?st = "serve_start d env []"
  define st2 where "st2 = ?st\<lparr>st_stop := False, st_prev_sample := Some (example_psi 0), st_log := []\<rparr>"
  obtain st3 fresh where p: "prepare_round example_boot ?it None st2 = (st3, fresh)" by fastforce
  have l3: "\<exists>a. st_log st3 = [(''1970-01'', [a])] \<and> is_kind a ROUND_SUBSTRATE_BEFORE" "st_streaks st3 = (0, 0, 0)"
  proof -
    have f: "\<not> is_fresh_eyes_round 1 (rt_fresh_eyes_every_n (cf_runtime (sv_cfg example_boot)))"
      by (simp add: is_fresh_eyes_round_def example_boot_def example_config_def default_runtime_def)
    define a where "a = event_payload (example_clock 1200) ROUND_SUBSTRATE_BEFORE
      [''round_num'' \<mapsto> PInt 1, ''git_head'' \<mapsto> PNone, ''paths_hash'' \<mapsto> PNone]"
    have "st_log st3 = [(''1970-01'', [a])]"
      using p f by (auto simp: prepare_round_def Let_def example_iteration_def capture_substrate_def apply_fresh_eyes_def
          apply_resume_env_def st2_def serve_start_def emit_builtin_def example_clock_def a_def split: if_splits)
    moreover have "is_kind a ROUND_SUBSTRATE_BEFORE" unfolding a_def by (subst payload_kind) simp_all
    ultimately show "\<exists>a. st_log st3 = [(''1970-01'', [a])] \<and> is_kind a ROUND_SUBSTRATE_BEFORE" by blast
    show "st_streaks st3 = (0, 0, 0)" using prepare_round_frame [OF p] by (auto simp: st2_def serve_start_def)
  qed
  obtain a where a: "st_log st3 = [(''1970-01'', [a])]" "is_kind a ROUND_SUBSTRATE_BEFORE" using l3(1) by blast
  define logd2 where "logd2 = capture_substrate (it_clock_after ?it) ''round_substrate_after'' (it_round_num ?it) (it_after ?it) (st_log st3)"
  have t: "\<exists>b. tail_events logd2 = [a, b] \<and> is_kind b ''round_substrate_after''"
  proof -
    define b where "b = event_payload (example_clock 1215) ''round_substrate_after''
      [''round_num'' \<mapsto> PInt 1, ''git_head'' \<mapsto> PNone, ''paths_hash'' \<mapsto> PNone]"
    have "logd2 = [(''1970-01'', [a, b])]"
      by (simp add: logd2_def a(1) capture_substrate_def emit_builtin_def example_iteration_def b_def)
        (simp add: example_clock_def)
    moreover have "is_kind b ''round_substrate_after''" unfolding b_def by (subst payload_kind) simp_all
    ultimately show ?thesis by (auto simp: example_tail_two)
  qed
  then obtain ro thr where sc: "round_scan (sv_cfg example_boot) None (ck_epoch (it_clock_after ?it)) logd2 = Inr (thr, ro)"
      "\<not> ro_mem_terminated ro" using example_scan a(2) by meson
  obtain acts where sp: "spawn_round (spawn_env_of example_boot ?it None) (it_ticks ?it) = Some (acts, Returned 78)"
    using example_spawns by blast
  have ev: "it_events ?it = []" by (simp add: example_iteration_def)
  obtain d' str l' where v: "post_round_verdicts (ho_num example_host) (ho_local_ts example_host) (sv_cfg example_boot)
      ((it_verdict ?it)\<lparr>ve_stash := stashed acts None\<rparr>) (it_round_num ?it) 78 (it_ended ?it - it_started ?it) thr ro (0, 0, 0) logd2
      = Inr ((Some 78, d', str), l')"
    using example_verdict [OF sc(2)] by blast
  have "\<exists>la st'. run_round example_host example_boot ?it None fresh st3 = Some (Inr (Some 78, d'), Some la, st')
      \<and> la_phase la = None \<and> la_returncode la = 78"
    by (simp add: run_round_def sp Let_def ev logd2_def [symmetric] sc v l3(2))
  then obtain la st' where r: "run_round example_host example_boot ?it None fresh st3 = Some (Inr (Some 78, d'), Some la, st')"
    "la_phase la = None" "la_returncode la = 78" by blast
  have i: "it_select ?it = example_select" "\<not> it_stop_selected ?it" by (simp_all add: example_iteration_def)
  have ps: "st_prev_sample ?st = None" "st_log ?st = []" "st_stop ?st = False" by (simp_all add: serve_start_def)
  show ?thesis
    by (simp add: serve_step_def example_gates i ps example_selects Let_def st2_def [symmetric, simplified] p r)
qed



lemma example_served:
  "\<exists>la st'. serve_loop example_host example_boot [example_iteration 78] (serve_start ''logs'' Map.empty [])
     = Some (ServeExit 78, [la], st') \<and> la_phase la = None \<and> la_returncode la = 78"
proof -
  obtain la st' where "serve_step example_host example_boot (example_iteration 78) (serve_start ''logs'' Map.empty [])
     = Some (Leave (ServeExit 78), Some la, st')" "la_phase la = None" "la_returncode la = 78"
    using example_serves by blast
  then show ?thesis by (simp add: opt_list_def)
qed

lemma example_boot_max: "sv_max_rounds example_boot = Some 3"
  by (simp add: example_boot_def)

theorem max_rounds_bound_witness:
  "\<exists>ls st'. serve_loop example_host example_boot [example_iteration 78] (serve_start ''logs'' Map.empty [])
     = Some (ServeExit 78, ls, st') \<and> st_completed st' = 1 \<and> st_completed st' \<le> 3"
proof -
  obtain la st' where r: "serve_loop example_host example_boot [example_iteration 78] (serve_start ''logs'' Map.empty [])
     = Some (ServeExit 78, [la], st')" using example_served by blast
  from max_rounds_bound [OF r] r show ?thesis by (auto simp: example_boot_max serve_start_def)
qed

theorem serve_exit_exact_witness:
  "\<exists>la st'. serve_loop example_host example_boot [example_iteration 78] (serve_start ''logs'' Map.empty [])
     = Some (ServeExit 78, [la], st') \<and> la_returncode la = 78"
proof -
  obtain la st' where r: "serve_loop example_host example_boot [example_iteration 78] (serve_start ''logs'' Map.empty [])
     = Some (ServeExit 78, [la], st')" using example_served by blast
  from serve_exit_exact [OF r] r show ?thesis by auto
qed

lemma example_boot_pi: "resumable example_boot None"
  "resolve_resume_flag (sv_registries example_boot) (agent_of_phase (sv_cfg example_boot) None) = Some ''--session-id''"
proof -
  have a: "agent_of_phase (sv_cfg example_boot) None = Some ''pi''"
    by (simp add: agent_of_phase_def agent_binary_def profile_for_def example_boot_def example_config_def example_agent_def path_name_def)
  have "resolve_resume_flag (sv_registries example_boot) (Some ''pi'') = Some ''--session-id''"
    by (simp add: example_boot_def pi_registries_def pi_manifest_registered resolve_resume_flag_def find_manifest_def)
      (simp add: pi_manifest_def)
  then show "resolve_resume_flag (sv_registries example_boot) (agent_of_phase (sv_cfg example_boot) None) = Some ''--session-id''"
    by (simp add: a)
  then show "resumable example_boot None" by (simp add: resumable_def example_boot_phase)
qed

theorem published_environment_witness:
  "\<exists>la st'. serve_loop example_host example_boot [example_iteration 78] (serve_start ''logs'' Map.empty [])
     = Some (ServeExit 78, [la], st')
     \<and> la_env la ''AGENT_RUNNER_RESUME_FLAG'' = Some ''--session-id'' \<and> la_env la ''AGENT_RUNNER_LOG_DIR'' = Some ''logs''"
proof -
  obtain la st' where r: "serve_loop example_host example_boot [example_iteration 78] (serve_start ''logs'' Map.empty [])
     = Some (ServeExit 78, [la], st')" "la_phase la = None" using example_served by blast
  have "la \<in> set [la]" by simp
  from published_environment [OF r(1) this] r example_boot_pi show ?thesis by auto
qed

theorem sessions_isolated_witness:
  "\<exists>la st'. serve_loop example_host example_boot [example_iteration 78] (serve_start ''logs'' Map.empty [])
     = Some (ServeExit 78, [la], st') \<and> session_rule [] la"
proof -
  obtain la st' where r: "serve_loop example_host example_boot [example_iteration 78] (serve_start ''logs'' Map.empty [])
     = Some (ServeExit 78, [la], st')" using example_served by blast
  have "distinct (map it_uuid [example_iteration 78])" by simp
  from sessions_isolated [OF r this] r show ?thesis by auto
qed

theorem stop_is_final_witness:
  "serve_loop example_host example_boot [(example_iteration 78)\<lparr>it_stop_top := True\<rparr>] (serve_start ''logs'' Map.empty [])
     = Some (ServeExit 0, [], serve_start ''logs'' Map.empty [])"
proof -
  let ?it = "(example_iteration 78)\<lparr>it_stop_top := True\<rparr>"
  have s: "it_stop_top ?it \<or> it_sentinel ?it" by simp
  have "serve_loop example_host example_boot ([] @ ?it # [example_iteration 78]) (serve_start ''logs'' Map.empty [])
      = Some (ServeExit 0, [], serve_start ''logs'' Map.empty [])"
    using stop_step [OF s] by (simp add: opt_list_def)
  from stop_is_final [OF s this] show ?thesis by simp
qed

theorem serve_cmd_outcomes_witness:
  "\<exists>logd'. serve_cmd example_host (\<lambda>e. ''e'') example_boot True (Some 0) (example_clock 1200) (Inr ()) ''logs'' Map.empty [] []
     = Some (Inr (ServeExit 78), [], logd')"
proof -
  obtain r ls logd' where run: "serve_cmd example_host (\<lambda>e. ''e'') example_boot True (Some 0) (example_clock 1200) (Inr ()) ''logs'' Map.empty [] []
      = Some (r, ls, logd')"
    by (simp add: serve_cmd_def prepare_loop_def resolve_max_rounds_def Let_def)
  from serve_cmd_outcomes [OF run] have "r = Inr (ServeExit 78) \<and> ls = []" by simp
  then show ?thesis using run by simp
qed

end
