(* ===== verification/Monitor_Detect.thy ===== *)
theory Monitor_Detect
  imports Throttle Host_Health
begin

section \<open>The monitor's detectors (agent\_runner/\_monitor\_detectors.py, \_monitor\_registry.py)\<close>

text \<open>
  The detectors a monitor poll runs over the events, the metric samples and the log tails. A
  detector that raises is \<open>Inl\<close> (the poll isolates it, see the Monitor theory). An event
  field is any decoded value, so every look-up, comparison and hash the code makes on one is
  modelled with the exception Python raises; a NaN round number, which \<open>json.loads\<close> yields as
  a fresh object each time, is one key here. A metric sample holds what \<open>metrics.sample\<close>
  writes: a timestamp and, per key, a number or \<open>None\<close>. Instants are microseconds of UTC.
  Regular expressions an operator configures are the parameter \<open>re_search\<close> (pattern, text);
  the fixed network pattern is written out. A message is a list of pieces: the digits that a
  format specification prints of a number are not modelled.
\<close>

subsection \<open>Comparing and hashing decoded values\<close>

datatype hkey = KNone | KNum real | KNan | KInf bool | KStr string

fun hash_key :: "pyval \<Rightarrow> hkey res" where
  "hash_key PNone = Inr KNone"
| "hash_key (PBool b) = Inr (KNum (if b then 1 else 0))"
| "hash_key (PInt n) = Inr (KNum (real_of_int n))"
| "hash_key (PFloat x r) = Inr (KNum x)"
| "hash_key PNan = Inr KNan"
| "hash_key (PInf neg) = Inr (KInf neg)"
| "hash_key (PStr s) = Inr (KStr s)"
| "hash_key (PCompound r) = Inl TypeError"

fun pv_real :: "pyval \<Rightarrow> real option" where
  "pv_real (PBool b) = Some (if b then 1 else 0)"
| "pv_real (PInt n) = Some (real_of_int n)"
| "pv_real (PFloat x r) = Some x"
| "pv_real _ = None"

definition pv_number :: "pyval \<Rightarrow> bool" where
  "pv_number v \<longleftrightarrow> pv_real v \<noteq> None \<or> v = PNan \<or> v = PInf True \<or> v = PInf False"

text \<open>\<open>a < b\<close> and \<open>a >= b\<close>: numbers with numbers, strings with strings, else \<open>TypeError\<close>.\<close>

definition py_lt :: "pyval \<Rightarrow> pyval \<Rightarrow> bool res" where
  "py_lt a b =
     (case (a, b) of
        (PStr s, PStr t) \<Rightarrow> Inr (s < t)
      | _ \<Rightarrow>
          if \<not> (pv_number a \<and> pv_number b) then Inl TypeError
          else if a = PNan \<or> b = PNan then Inr False
          else (case (pv_real a, pv_real b) of
                  (Some x, Some y) \<Rightarrow> Inr (x < y)
                | (None, Some y) \<Rightarrow> Inr (a = PInf True)
                | (Some x, None) \<Rightarrow> Inr (b = PInf False)
                | (None, None) \<Rightarrow> Inr (a = PInf True \<and> b = PInf False)))"

definition py_ge :: "pyval \<Rightarrow> pyval \<Rightarrow> bool res" where
  "py_ge a b =
     (case (a, b) of
        (PStr s, PStr t) \<Rightarrow> Inr (t \<le> s)
      | _ \<Rightarrow> if a = PNan \<or> b = PNan
              then (if pv_number a \<and> pv_number b then Inr False else Inl TypeError)
              else res_bind (py_lt a b) (\<lambda>l. Inr (\<not> l)))"

text \<open>\<open>max(xs)\<close> of a non-empty iterable: the first largest element.\<close>

fun py_max :: "pyval \<Rightarrow> pyval list \<Rightarrow> pyval res" where
  "py_max best [] = Inr best"
| "py_max best (v # vs) = res_bind (py_lt best v) (\<lambda>l. py_max (if l then v else best) vs)"

definition py_or :: "pyval \<Rightarrow> pyval \<Rightarrow> pyval" where
  "py_or v d = (if py_truthy v then v else d)"

text \<open>\<open>v != 0\<close>.\<close>

definition ne_zero :: "pyval \<Rightarrow> bool" where
  "ne_zero v \<longleftrightarrow> pv_real v \<noteq> Some 0"

text \<open>\<open>repr(v)\<close>.\<close>

fun py_repr :: "pyval \<Rightarrow> string" where
  "py_repr (PStr s) = repr_str s"
| "py_repr v = py_str v"

subsection \<open>Alerts\<close>

datatype ctx_val = CVal pyval | CNum real

record alert =
  al_severity :: severity
  al_detector :: string
  al_message :: "piece list"
  al_context :: "(string \<times> ctx_val) list"
  al_ts :: string
  al_auto_action :: string

text \<open>\<open>stamp\<close> is the \<open>now_iso_ms\<close> reading taken when the named alert is built.\<close>

definition mk_alert ::
  "(string \<Rightarrow> string) \<Rightarrow> string \<Rightarrow> severity \<Rightarrow> piece list \<Rightarrow> (string \<times> ctx_val) list \<Rightarrow> alert" where
  "mk_alert stamp detector sev message ctx =
     \<lparr>al_severity = sev, al_detector = detector, al_message = message, al_context = ctx,
      al_ts = stamp detector, al_auto_action = ''none''\<rparr>"

definition stopping :: "alert \<Rightarrow> alert" where
  "stopping a = a\<lparr>al_auto_action := ''stop_service''\<rparr>"

definition known_alert_kinds :: "string list" where
  "known_alert_kinds =
     [''timeout_rate'', ''hung'', ''orphan_chain'', ''disk_warning'', ''disk_critical'',
      ''disk_growth'', ''mem_pressure'', ''mem_signal_unavailable'', ''mem_pressure_gate_inert'',
      ''oauth_fail'', ''network_fail'', ''rate_limit_active'', ''anomaly_repetitive_active'',
      ''supervisor_stale'']"

definition monitor_self_kinds :: "string list" where
  "monitor_self_kinds =
     [''monitor_alert_emitted'', ''monitor_auto_stop_failed'', ''monitor_auto_stop_triggered'',
      ''monitor_remote_blip'', ''monitor_remote_giveup'', ''monitor_started'', ''detector_error'']"

definition auto_stop_alerts :: "string list" where
  "auto_stop_alerts = [''oauth_fail'', ''disk_critical'']"

text \<open>The fields that name an episode; a kind without an entry is its own episode.\<close>

definition alert_identity_fields :: "string \<Rightarrow> string list" where
  "alert_identity_fields d =
     (if d = ''hung'' then [''round_num'']
      else if d = ''orphan_chain'' then [''last_round'']
      else if d = ''rate_limit_active'' then [''agent'', ''throttled_until_iso'']
      else if d = ''anomaly_repetitive_active'' then [''latest_tool'', ''latest_target'']
      else if d = ''supervisor_stale'' then [''last_ts''] else [])"

text \<open>An identity field is never a computed number, so its \<open>repr\<close> needs no float formatting.\<close>

definition ctx_repr :: "(string \<times> ctx_val) list \<Rightarrow> string \<Rightarrow> string" where
  "ctx_repr ctx k = (case map_of ctx k of Some (CVal v) \<Rightarrow> py_repr v | Some (CNum x) \<Rightarrow> [] | None \<Rightarrow> ''None'')"

definition alert_identity :: "alert \<Rightarrow> string" where
  "alert_identity a =
     (let flds = alert_identity_fields (al_detector a) in
      if flds = [] then al_detector a
      else al_detector a @ '':'' @ join ''|'' (map (\<lambda>k. k @ ''='' @ ctx_repr (al_context a) k) flds))"

subsection \<open>Detectors over the round exits\<close>

definition last_n_round_exits :: "event list \<Rightarrow> nat \<Rightarrow> event list" where
  "last_n_round_exits evs n =
     (let exits = filter (\<lambda>e. is_kind e AGENT_EXIT) evs
      in if n = 0 then exits else drop (length exits - n) exits)"

definition rate_of :: "nat \<Rightarrow> nat \<Rightarrow> real" where
  "rate_of k n = real k / real n"

definition counts_as_timeout :: "event \<Rightarrow> bool" where
  "counts_as_timeout e \<longleftrightarrow>
     py_truthy (ev_get e ''timed_out'') \<and> ev_get e ''exit_cause'' \<noteq> PStr ''grace_kill''"

definition detect_timeout_rate ::
  "(string \<Rightarrow> string) \<Rightarrow> event list \<Rightarrow> nat \<Rightarrow> real \<Rightarrow> alert option" where
  "detect_timeout_rate stamp evs window threshold =
     (let recent = last_n_round_exits evs window in
      if length recent < window then None
      else let timed = length (filter counts_as_timeout recent);
               rate = rate_of timed (length recent)
           in if rate < threshold then None
              else Some (mk_alert stamp ''timeout_rate'' Warning
                     [Num (real timed), Lit ''/'', Num (real (length recent)),
                      Lit '' recent rounds timed out (>'', Num threshold, Lit '')'']
                     [(''rate'', CNum rate), (''threshold'', CNum threshold),
                      (''window'', CVal (PInt (int window)))]))"

definition phase_timeout :: "(string \<rightharpoonup> phase_override) option \<Rightarrow> pyval \<Rightarrow> int \<Rightarrow> int res" where
  "phase_timeout overrides phase fallback =
     (case (phase, overrides) of
        (PNone, _) \<Rightarrow> Inr fallback
      | (_, None) \<Rightarrow> Inr fallback
      | (_, Some ov) \<Rightarrow>
          res_bind (hash_key phase) (\<lambda>k.
            Inr (case k of
                   KStr p \<Rightarrow> (case ov p of
                               None \<Rightarrow> fallback
                             | Some o' \<Rightarrow> (case ov_round_budget_s o' of None \<Rightarrow> fallback | Some b \<Rightarrow> b))
                 | _ \<Rightarrow> fallback)))"

text \<open>\<open>e["ts"]\<close>.\<close>

definition ev_item :: "event \<Rightarrow> string \<Rightarrow> pyval res" where
  "ev_item e k = (case e k of None \<Rightarrow> Inl (KeyError k) | Some v \<Rightarrow> Inr v)"

text \<open>\<open>parse_iso_ms(v)\<close>: a value that is not a string has no \<open>replace\<close>.\<close>

definition parse_ts :: "pyval \<Rightarrow> pydt res" where
  "parse_ts v = (case v of PStr s \<Rightarrow> parse_iso_ms s | _ \<Rightarrow> Inl AttributeError)"

text \<open>\<open>(a - b).total_seconds()\<close>.\<close>

fun dt_sub :: "pydt \<Rightarrow> pydt \<Rightarrow> real res" where
  "dt_sub (Naive a) (Naive b) = Inr (real_of_int (a - b) / 1000000)"
| "dt_sub (Aware a) (Aware b) = Inr (real_of_int (a - b) / 1000000)"
| "dt_sub _ _ = Inl TypeError"

record open_scan =
  os_open :: "hkey \<rightharpoonup> pyval \<times> pyval"
  os_highest :: "pyval option"

definition open_step :: "event \<Rightarrow> open_scan \<Rightarrow> open_scan res" where
  "open_step e st =
     (let rn = ev_get e ''round_num'' in
      if rn = PNone \<or> \<not> (is_kind e ROUND_START \<or> is_kind e ROUND_END) then Inr st
      else if is_kind e ROUND_START then
        res_bind (ev_item e ''ts'') (\<lambda>ts.
        res_bind (hash_key rn) (\<lambda>k.
        res_bind (case os_highest st of None \<Rightarrow> Inr rn | Some h \<Rightarrow> py_max h [rn]) (\<lambda>h.
          Inr \<lparr>os_open = (os_open st)(k \<mapsto> (ts, ev_get e ''phase'')), os_highest = Some h\<rparr>)))
      else res_bind (hash_key rn) (\<lambda>k. Inr (st\<lparr>os_open := (os_open st)(k := None)\<rparr>)))"

fun open_rounds :: "event list \<Rightarrow> open_scan \<Rightarrow> open_scan res" where
  "open_rounds [] st = Inr st"
| "open_rounds (e # es) st = res_bind (open_step e st) (open_rounds es)"

definition open_start :: open_scan where
  "open_start = \<lparr>os_open = Map.empty, os_highest = None\<rparr>"

text \<open>A round still open after \<open>factor\<close> times its budget; only the highest started round counts.\<close>

definition detect_hung ::
  "(string \<Rightarrow> string) \<Rightarrow> event list \<Rightarrow> int \<Rightarrow> real \<Rightarrow> int \<Rightarrow> (string \<rightharpoonup> phase_override) option
     \<Rightarrow> alert option res" where
  "detect_hung stamp evs now factor round_budget_s overrides =
     res_bind (open_rounds evs open_start) (\<lambda>st.
       case os_highest st of
         None \<Rightarrow> Inr None
       | Some rn \<Rightarrow>
           res_bind (hash_key rn) (\<lambda>k.
             case os_open st k of
               None \<Rightarrow> Inr None
             | Some (started_ts, phase) \<Rightarrow>
                 res_bind (parse_ts started_ts) (\<lambda>started.
                 res_bind (dt_sub (Aware now) started) (\<lambda>elapsed.
                 res_bind (phase_timeout overrides phase round_budget_s) (\<lambda>timeout.
                   let threshold = real_of_int timeout * factor in
                   Inr (if elapsed > threshold
                        then Some (mk_alert stamp ''hung'' Warning
                               [Lit ''Round '', Lit (py_str rn), Lit '' started '', Num elapsed,
                                Lit ''s ago with no round_end'']
                               [(''round_num'', CVal rn), (''elapsed_s'', CNum elapsed),
                                (''threshold_s'', CNum threshold)])
                        else None))))))"

text \<open>\<open>orphan_rounds\<close> of \<open>detect_orphan_chain\<close>, then its streak over the same events.\<close>

definition orphan_rounds :: "event list \<Rightarrow> hkey list res" where
  "orphan_rounds in_order =
     res_map (\<lambda>e. hash_key (ev_get e ''round_num'')) (filter (\<lambda>e. is_kind e ORPHAN_STASHED) in_order)"

fun orphan_streak :: "hkey list \<Rightarrow> event list \<Rightarrow> nat \<times> pyval \<Rightarrow> (nat \<times> pyval) res" where
  "orphan_streak orphans [] acc = Inr acc"
| "orphan_streak orphans (e # es) (streak, last_round) =
     (if is_kind e ORPHAN_STASHED
      then orphan_streak orphans es (Suc streak, ev_get e ''round_num'')
      else res_bind (hash_key (ev_get e ''round_num'')) (\<lambda>k.
             orphan_streak orphans es (if k \<in> set orphans then streak else 0, last_round)))"

definition detect_orphan_chain :: "(string \<Rightarrow> string) \<Rightarrow> event list \<Rightarrow> nat \<Rightarrow> alert option res" where
  "detect_orphan_chain stamp evs threshold =
     (let in_order = filter (\<lambda>e. is_kind e ROUND_END \<or> is_kind e ORPHAN_STASHED) evs in
      res_bind (orphan_rounds in_order) (\<lambda>orphans.
      res_bind (orphan_streak orphans in_order (0, PNone)) (\<lambda>(streak, last_round).
        Inr (if streak \<ge> threshold
             then Some (mk_alert stamp ''orphan_chain'' Warning
                    [Num (real streak), Lit '' consecutive rounds with orphan_stashed (>= '',
                     Num (real threshold), Lit '')'']
                    [(''streak'', CVal (PInt (int streak))), (''threshold'', CVal (PInt (int threshold))),
                     (''last_round'', CVal last_round)])
             else None))))"

subsection \<open>Detectors over the metric samples\<close>

text \<open>
  One line of \<open>metrics-*.jsonl\<close>: its timestamp and its numeric fields. A key of \<open>mt_vals\<close> is
  present in the line; its value may still be \<open>None\<close>.
\<close>

record metric =
  mt_ts :: "string option"
  mt_vals :: "string \<rightharpoonup> real option"

text \<open>\<open>m.get(key)\<close> for every key at once: what host\_health reads of a sample.\<close>

definition sample_of :: "metric \<Rightarrow> sample" where
  "sample_of m k = (case mt_vals m k of None \<Rightarrow> None | Some v \<Rightarrow> v)"

text \<open>The newest sample that has the key; a present \<open>None\<close> is returned.\<close>

definition latest :: "metric list \<Rightarrow> string \<Rightarrow> real option" where
  "latest metrics key =
     (case find (\<lambda>m. mt_vals m key \<noteq> None) (rev metrics) of
        None \<Rightarrow> None | Some m \<Rightarrow> sample_of m key)"

definition latest_ts :: "metric list \<Rightarrow> string option" where
  "latest_ts metrics =
     (case find (\<lambda>m. mt_ts m \<noteq> None) (rev metrics) of None \<Rightarrow> None | Some m \<Rightarrow> mt_ts m)"

definition detect_disk_warning ::
  "(string \<Rightarrow> string) \<Rightarrow> metric list \<Rightarrow> real \<Rightarrow> real \<Rightarrow> alert option" where
  "detect_disk_warning stamp metrics threshold_pct critical_pct =
     (case latest metrics ''disk_used_pct'' of
        None \<Rightarrow> None
      | Some val \<Rightarrow>
          if val < threshold_pct \<or> val \<ge> critical_pct then None
          else Some (mk_alert stamp ''disk_warning'' Warning
                 [Lit ''disk_used_pct '', Num val, Lit '' >= '', Num threshold_pct]
                 [(''value'', CNum val), (''threshold'', CNum threshold_pct),
                  (''hint'', CVal (PStr ''Free space soon''))]))"

definition detect_disk_critical :: "(string \<Rightarrow> string) \<Rightarrow> metric list \<Rightarrow> real \<Rightarrow> alert option" where
  "detect_disk_critical stamp metrics threshold_pct =
     (case latest metrics ''disk_used_pct'' of
        None \<Rightarrow> None
      | Some val \<Rightarrow>
          if val < threshold_pct then None
          else Some (stopping (mk_alert stamp ''disk_critical'' Critical
                 [Lit ''disk_used_pct '', Num val, Lit '' >= '', Num threshold_pct]
                 [(''value'', CNum val), (''threshold'', CNum threshold_pct),
                  (''hint'', CVal (PStr ''Stop and clean disk before resuming''))])))"

text \<open>\<open>round(x, 2)\<close> on exact numbers: to the nearest hundredth, ties to the even one.\<close>

definition round_half_even :: "real \<Rightarrow> int" where
  "round_half_even x =
     (let f = \<lfloor>x\<rfloor>; d = x - real_of_int f in
      if d < 1/2 then f else if d > 1/2 then f + 1 else if even f then f else f + 1)"

definition round2 :: "real \<Rightarrow> real" where
  "round2 x = real_of_int (round_half_even (x * 100)) / 100"

text \<open>
  The loop for the baseline: the first sample with a timestamp and a disk reading whose age
  relative to the newest timestamp lies in the window.
\<close>

fun growth_baseline :: "pydt \<Rightarrow> int \<Rightarrow> metric list \<Rightarrow> (metric \<times> pydt) option res" where
  "growth_baseline newest window [] = Inr None"
| "growth_baseline newest window (m # ms) =
     (case (mt_ts m, mt_vals m ''disk_used_pct'') of
        (Some raw, Some v) \<Rightarrow>
          res_bind (parse_iso_ms raw) (\<lambda>ts.
          res_bind (dt_sub newest ts) (\<lambda>age.
            if age < 0 \<or> age > real_of_int window then growth_baseline newest window ms
            else Inr (Some (m, ts))))
      | _ \<Rightarrow> growth_baseline newest window ms)"

definition growth_rate :: "real option \<Rightarrow> real option \<Rightarrow> real \<Rightarrow> real option" where
  "growth_rate cur base hours =
     (case (cur, base) of (Some c, Some b) \<Rightarrow> Some ((c - b) / hours) | _ \<Rightarrow> None)"

text \<open>The alert itself, once both rates are known.\<close>

definition growth_alert ::
  "(string \<Rightarrow> string) \<Rightarrow> int \<Rightarrow> real \<Rightarrow> real \<Rightarrow> real \<Rightarrow> real option \<Rightarrow> alert option" where
  "growth_alert stamp window disk_floor inode_floor disk_rate inode_rate =
     (let disk_trip = (disk_rate \<ge> disk_floor);
          inode_trip = (case inode_rate of None \<Rightarrow> False | Some r \<Rightarrow> r \<ge> inode_floor);
          disk_bit = (if disk_trip then [Lit ''disk +'', Num disk_rate, Lit ''%/hr (>= '', Num disk_floor, Lit '')''] else []);
          inode_bit = (case inode_rate of
                         Some r \<Rightarrow> if inode_trip then [Lit ''inode +'', Num r, Lit ''%/hr (>= '', Num inode_floor, Lit '')''] else []
                       | None \<Rightarrow> [])
      in if \<not> disk_trip \<and> \<not> inode_trip then None
         else Some (mk_alert stamp ''disk_growth'' Warning
                (disk_bit @ (if disk_trip \<and> inode_trip then [Lit '' and ''] else []) @ inode_bit
                 @ [Lit '' over the last '', Num (real_of_int window), Lit ''s''])
                [(''disk_pct_per_hr'', CNum (round2 disk_rate)),
                 (''disk_threshold_pct_per_hr'', CNum disk_floor),
                 (''inode_pct_per_hr'', (case inode_rate of None \<Rightarrow> CVal PNone | Some r \<Rightarrow> CNum (round2 r))),
                 (''inode_threshold_pct_per_hr'', CNum inode_floor),
                 (''window_s'', CVal (PInt window))]))"

definition detect_disk_growth ::
  "(string \<Rightarrow> string) \<Rightarrow> metric list \<Rightarrow> int \<Rightarrow> real \<Rightarrow> real \<Rightarrow> alert option res" where
  "detect_disk_growth stamp metrics window disk_floor inode_floor =
     (case (latest_ts metrics, latest metrics ''disk_used_pct'') of
        (Some newest_raw, Some latest_disk) \<Rightarrow>
          res_bind (parse_iso_ms newest_raw) (\<lambda>newest.
          res_bind (growth_baseline newest window metrics) (\<lambda>found.
            case found of
              None \<Rightarrow> Inr None
            | Some (base, base_ts) \<Rightarrow>
                res_bind (dt_less base_ts newest) (\<lambda>earlier.
                  if \<not> earlier then Inr None
                  else res_bind (dt_sub newest base_ts) (\<lambda>secs.
                    let hours = secs / 3600 in
                    if hours \<le> 0 then Inr None
                    else case sample_of base ''disk_used_pct'' of
                      None \<Rightarrow> Inl TypeError
                    | Some base_disk \<Rightarrow>
                        Inr (growth_alert stamp window disk_floor inode_floor
                               ((latest_disk - base_disk) / hours)
                               (growth_rate (latest metrics ''inode_used_pct'')
                                  (sample_of base ''inode_used_pct'') hours))))))
      | _ \<Rightarrow> Inr None)"

definition empty_metric :: metric where
  "empty_metric = \<lparr>mt_ts = None, mt_vals = Map.empty\<rparr>"

definition latest_two :: "metric list \<Rightarrow> metric \<times> metric" where
  "latest_two metrics =
     (case rev metrics of
        [] \<Rightarrow> (empty_metric, empty_metric)
      | [c] \<Rightarrow> (c, empty_metric)
      | c # p # _ \<Rightarrow> (c, p))"

definition new_mem_sample_keys :: "string list" where
  "new_mem_sample_keys = [''mem_free_mb'', ''swap_sout'', ''psi_some_avg10'', ''psi_full_avg10'']"

definition opt_num :: "real option \<Rightarrow> ctx_val" where
  "opt_num v = (case v of None \<Rightarrow> CVal PNone | Some x \<Rightarrow> CNum x)"

definition detect_mem_pressure ::
  "(string \<Rightarrow> string) \<Rightarrow> metric list \<Rightarrow> host_health_config \<Rightarrow> alert option" where
  "detect_mem_pressure stamp metrics cfg =
     (let (cm, pm) = latest_two metrics; cur = sample_of cm; prev = sample_of pm in
      if \<not> list_ex (\<lambda>k. mt_vals cm k \<noteq> None) new_mem_sample_keys then None
      else (case memory_pressure cur prev cfg of
              Some p \<Rightarrow>
                Some (mk_alert stamp ''mem_pressure'' (ps_severity p) (ps_message p)
                        (map (\<lambda>(k, x). (k, CNum x)) (ps_context p)))
            | None \<Rightarrow>
                if \<not> signal_available cur prev then
                  Some (mk_alert stamp ''mem_signal_unavailable'' Warning
                    [Lit ''no cache-poor-valid memory signal available on this host'']
                    [(''mem_available_mb'', opt_num (cur ''mem_available_mb''))])
                else None))"

definition detect_mem_pressure_gate_inert ::
  "(string \<Rightarrow> string) \<Rightarrow> metric list \<Rightarrow> host_health_config \<Rightarrow> alert option" where
  "detect_mem_pressure_gate_inert stamp metrics cfg =
     (let (cm, pm) = latest_two metrics; cur = sample_of cm; prev = sample_of pm;
          avail_min = hm_avail_min_mb (hh_memory cfg) in
      if \<not> configured_gate_inert cur prev cfg then None
      else Some (mk_alert stamp ''mem_pressure_gate_inert'' Warning
             [Lit ''[monitor.host_health.memory] avail_min_mb='', Num (real_of_int avail_min),
              Lit '' cannot fire on this host: a cache-poor-valid signal shows real pressure while mem_available_mb='']
             [(''avail_min_mb'', CVal (PInt avail_min)),
              (''mem_available_mb'', opt_num (cur ''mem_available_mb'')),
              (''hint'', CVal (PStr ''MemAvailable is inflated on this host''))]))"

subsection \<open>Detectors over the log tails\<close>

definition short_exit_threshold_s :: real where "short_exit_threshold_s = 60"

text \<open>A short, failing exit that did not time out; the clauses are evaluated left to right.\<close>

definition short_failed_exit :: "event \<Rightarrow> bool res" where
  "short_failed_exit e =
     res_bind (py_lt (py_or (ev_get e ''duration_s'') (PFloat 0 ''0.0''))
                 (PInt 60)) (\<lambda>short.
       Inr (short \<and> ne_zero (ev_get_or e ''exit_code'' (PInt 0))
            \<and> \<not> py_truthy (ev_get_or e ''timed_out'' (PBool False))))"

text \<open>\<open>log_tails.get(e.get("round_num"), "")\<close>.\<close>

definition tail_of :: "(int \<rightharpoonup> string) \<Rightarrow> pyval \<Rightarrow> string res" where
  "tail_of tails rn =
     res_bind (hash_key rn) (\<lambda>k.
       Inr (case k of
              KNum x \<Rightarrow> (if x = real_of_int \<lfloor>x\<rfloor>
                         then (case tails \<lfloor>x\<rfloor> of None \<Rightarrow> [] | Some s \<Rightarrow> s) else [])
            | _ \<Rightarrow> []))"

text \<open>The short-exit clause and, where it holds, the search of the tail.\<close>

definition tail_evidence :: "(string \<Rightarrow> bool) \<Rightarrow> (int \<rightharpoonup> string) \<Rightarrow> event \<Rightarrow> bool res" where
  "tail_evidence hit tails e =
     res_bind (short_failed_exit e) (\<lambda>s.
       if \<not> s then Inr False
       else res_bind (tail_of tails (ev_get e ''round_num'')) (\<lambda>t. Inr (hit t)))"

definition default_auth_patterns :: "string list" where
  "default_auth_patterns =
     [[CHR 0x5C] @ ''b(oauth|unauthorized|401|api[_ ]key|auth(entication)?[_ -]?(failed|error|expired)|session.*expired)''
      @ [CHR 0x5C] @ ''b'']"

definition auth_rounds :: "event list \<Rightarrow> hkey list res" where
  "auth_rounds evs =
     res_map (\<lambda>e. hash_key (ev_get e ''round_num''))
       (filter (\<lambda>e. is_kind e AGENT_AUTH_ERROR_DETECTED \<and> ev_get e ''round_num'' \<noteq> PNone) evs)"

definition auth_match ::
  "(string \<Rightarrow> bool) \<Rightarrow> (int \<rightharpoonup> string) \<Rightarrow> hkey list \<Rightarrow> event \<Rightarrow> bool res" where
  "auth_match hit tails reported e =
     res_bind (hash_key (ev_get e ''round_num'')) (\<lambda>k.
       if k \<in> set reported then Inr True else tail_evidence hit tails e)"

definition detect_oauth_fail ::
  "(string \<Rightarrow> string \<Rightarrow> bool) \<Rightarrow> (string \<Rightarrow> string) \<Rightarrow> event list \<Rightarrow> (int \<rightharpoonup> string) \<Rightarrow> nat \<Rightarrow> real
     \<Rightarrow> string list \<Rightarrow> string option \<Rightarrow> alert option res" where
  "detect_oauth_fail re_search stamp evs tails window threshold patterns hint =
     (let pats = (if patterns = [] then default_auth_patterns else patterns);
          recent = last_n_round_exits evs window;
          hit = (\<lambda>t. list_ex (\<lambda>p. re_search p t) pats) in
      res_bind (auth_rounds evs) (\<lambda>reported.
      res_bind (res_map (auth_match hit tails reported) recent) (\<lambda>ms.
        let matches = length (filter id ms); total = length recent in
        Inr (if total < window \<or> rate_of matches total < threshold then None
             else Some (stopping (mk_alert stamp ''oauth_fail'' Critical
                    [Num (real matches), Lit ''/'', Num (real total),
                     Lit '' recent rounds failed auth (agent-reported or short-exit pattern)'']
                    [(''matches'', CVal (PInt (int matches))), (''window'', CVal (PInt (int total))),
                     (''threshold'', CNum threshold),
                     (''hint'', CVal (PStr (case hint of None \<Rightarrow> [] | Some h \<Rightarrow> h)))]))))))"

text \<open>
  \<open>NETWORK_PATTERNS.search\<close>: one of the listed phrases, in any case, between word boundaries
  (every phrase starts and ends with a word character).
\<close>

definition network_phrases :: "string list" where
  "network_phrases =
     [''connection refused'', ''econnrefused'', ''dns'', ''name or service not known'',
      ''connect timed out'', ''connection timed out'', ''nodename nor servname'',
      ''network unreachable'',
      ''500 service unavailable'', ''500 bad gateway'', ''500 gateway timeout'',
      ''502 service unavailable'', ''502 bad gateway'', ''502 gateway timeout'',
      ''503 service unavailable'', ''503 bad gateway'', ''503 gateway timeout'',
      ''connection reset'']"

definition word_char :: "char \<Rightarrow> bool" where
  "word_char c \<longleftrightarrow> is_alnum_char c \<or> c = CHR ''_''"

definition phrase_here :: "string \<Rightarrow> string \<Rightarrow> bool" where
  "phrase_here ph s \<longleftrightarrow>
     take (length ph) (py_lower s) = ph
     \<and> (case drop (length ph) s of [] \<Rightarrow> True | c # cs \<Rightarrow> \<not> word_char c)"

fun phrase_search :: "string list \<Rightarrow> bool \<Rightarrow> string \<Rightarrow> bool" where
  "phrase_search phs after_word [] = False"
| "phrase_search phs after_word (c # cs) =
     ((\<not> after_word \<and> list_ex (\<lambda>ph. phrase_here ph (c # cs)) phs)
      \<or> phrase_search phs (word_char c) cs)"

definition network_match :: "string \<Rightarrow> bool" where
  "network_match t = phrase_search network_phrases False t"

definition detect_network_fail ::
  "(string \<Rightarrow> string) \<Rightarrow> event list \<Rightarrow> (int \<rightharpoonup> string) \<Rightarrow> nat \<Rightarrow> real \<Rightarrow> alert option res" where
  "detect_network_fail stamp evs tails window threshold =
     (let recent = last_n_round_exits evs window in
      res_bind (res_map (tail_evidence network_match tails) recent) (\<lambda>ms.
        let matches = length (filter id ms); total = length recent in
        Inr (if total < window \<or> rate_of matches total < threshold then None
             else Some (mk_alert stamp ''network_fail'' Warning
                    [Num (real matches), Lit ''/'', Num (real total),
                     Lit '' recent rounds short-exited with network error pattern'']
                    [(''matches'', CVal (PInt (int matches))), (''window'', CVal (PInt (int total))),
                     (''threshold'', CNum threshold),
                     (''hint'', CVal (PStr ''Check upstream Anthropic status or local DNS / VPN''))]))))"

subsection \<open>Detectors over the newest event of a kind\<close>

text \<open>
  \<open>safe_iso\<close> is \<open>_safe_epoch_iso\<close>: the text of \<open>datetime.fromtimestamp(epoch, UTC)\<close>, \<open>None\<close>
  when the epoch is out of its range.
\<close>

fun rate_limit_scan ::
  "(int \<Rightarrow> string option) \<Rightarrow> (string \<Rightarrow> string) \<Rightarrow> event list \<Rightarrow> real \<Rightarrow> log_dir option \<Rightarrow> alert option" where
  "rate_limit_scan safe_iso stamp [] now logd = None"
| "rate_limit_scan safe_iso stamp (ev # older) now logd =
     (if is_kind ev TRANSIENT_ERROR_RECOVERED then None
      else if is_kind ev TRANSIENT_ERROR_DETECTED then
        (let agent = py_str (ev_get_or ev ''agent'' (PStr ''unknown''));
             classification = ev_get_or ev ''classification'' (PStr ''unknown'');
             raw = coerce_epoch_int (ev_get ev ''reset_at_epoch'') 0 now;
             reset = (case logd of
                        None \<Rightarrow> raw
                      | Some d \<Rightarrow> events_derived_reset d agent (py_str classification) raw Map.empty)
         in if real_of_int reset > now then
              (case safe_iso reset of
                 None \<Rightarrow> None
               | Some until \<Rightarrow>
                   Some (mk_alert stamp ''rate_limit_active'' Warning
                     [Lit ''throttled until '', Lit until, Lit '' ('', Lit (py_str classification), Lit '')'']
                     [(''throttled_until_iso'', CVal (PStr until)), (''classification'', CVal classification),
                      (''agent'', CVal (PStr agent))]))
            else None)
      else rate_limit_scan safe_iso stamp older now logd)"

definition detect_rate_limit_active ::
  "(int \<Rightarrow> string option) \<Rightarrow> (string \<Rightarrow> string) \<Rightarrow> event list \<Rightarrow> real \<Rightarrow> log_dir option \<Rightarrow> alert option" where
  "detect_rate_limit_active safe_iso stamp evs now logd = rate_limit_scan safe_iso stamp (rev evs) now logd"

text \<open>\<open>v - n\<close> for an integer \<open>n\<close>.\<close>

definition py_sub_int :: "pyval \<Rightarrow> int \<Rightarrow> pyval res" where
  "py_sub_int v n =
     (case v of
        PBool b \<Rightarrow> Inr (PInt ((if b then 1 else 0) - n))
      | PInt k \<Rightarrow> Inr (PInt (k - n))
      | PFloat x r \<Rightarrow> Inr (PFloat (x - real_of_int n) [])
      | PNan \<Rightarrow> Inr PNan
      | PInf neg \<Rightarrow> Inr (PInf neg)
      | _ \<Rightarrow> Inl TypeError)"

definition anomaly_in_window :: "pyval \<Rightarrow> event \<Rightarrow> bool res" where
  "anomaly_in_window window_start e =
     (if \<not> is_kind e ANOMALY_REPETITIVE_TOOL then Inr False
      else py_ge (ev_get_or e ''round_num'' (PInt 0)) window_start)"

fun res_filter :: "('a \<Rightarrow> bool res) \<Rightarrow> 'a list \<Rightarrow> 'a list res" where
  "res_filter f [] = Inr []"
| "res_filter f (x # xs) =
     res_bind (f x) (\<lambda>b. res_bind (res_filter f xs) (\<lambda>ys. Inr (if b then x # ys else ys)))"

definition detect_anomaly_repetitive_active ::
  "(string \<Rightarrow> string) \<Rightarrow> event list \<Rightarrow> nat \<Rightarrow> int \<Rightarrow> alert option res" where
  "detect_anomaly_repetitive_active stamp evs threshold window_rounds =
     (case List.map_filter (\<lambda>e. e ''round_num'') evs of
        [] \<Rightarrow> Inr None
      | r # rs \<Rightarrow>
          res_bind (py_max r rs) (\<lambda>max_round.
          res_bind (py_sub_int max_round (window_rounds - 1)) (\<lambda>window_start.
          res_bind (res_filter (anomaly_in_window window_start) evs) (\<lambda>anomalies.
            if length anomalies < threshold then Inr None
            else if anomalies = [] then Inl (ValueError ''list index out of range'')
            else let newest = last anomalies; cnt = length anomalies in
              Inr (Some (mk_alert stamp ''anomaly_repetitive_active'' Warning
                [Num (real cnt), Lit '' anomaly_repetitive_tool event(s) in last '',
                 Num (real_of_int window_rounds), Lit '' rounds; latest: '',
                 Lit (py_str (ev_get newest ''tool_name'')), Lit '' on '',
                 Lit (py_repr (ev_get newest ''target'')), Lit '' ('',
                 Lit (py_str (ev_get newest ''count'')), Lit ''x in window '',
                 Lit (py_str (ev_get newest ''window'')), Lit '')'']
                [(''count'', CVal (PInt (int cnt))), (''window_rounds'', CVal (PInt window_rounds)),
                 (''latest_tool'', CVal (ev_get newest ''tool_name'')),
                 (''latest_target'', CVal (ev_get newest ''target''))]))))))"

definition latest_schedule_event :: "event list \<Rightarrow> event option" where
  "latest_schedule_event evs =
     find (\<lambda>e. is_kind e SCHEDULE_PAUSED \<or> is_kind e SCHEDULE_RESUMED) (rev evs)"

definition stale_pause :: "event \<Rightarrow> bool" where
  "stale_pause e \<longleftrightarrow> is_kind e SCHEDULE_PAUSED \<or> is_kind e ROUND_DEFERRED"

definition stale_resume :: "event \<Rightarrow> bool" where
  "stale_resume e \<longleftrightarrow> is_kind e SCHEDULE_RESUMED \<or> is_kind e ROUND_RESUMED"

definition latest_stale_pause_event :: "event list \<Rightarrow> event option" where
  "latest_stale_pause_event evs = find (\<lambda>e. stale_pause e \<or> stale_resume e) (rev evs)"

text \<open>\<open>e.get("event") not in _MONITOR_SELF_KINDS\<close>: membership in a set hashes the value.\<close>

definition supervised_event :: "event \<Rightarrow> bool res" where
  "supervised_event e =
     res_bind (hash_key (ev_get e ''event'')) (\<lambda>k. Inr (k \<notin> set (map KStr monitor_self_kinds)))"

text \<open>
  The instant a live pause excuses silence: its announced \<open>resume_at\<close> when that is an aware
  timestamp, else its own timestamp and eight days. \<open>None\<close>: no anchor at all.
\<close>

definition eight_days_us :: int where "eight_days_us = 8 * 86400 * 1000000"

definition announced_resume :: "event \<Rightarrow> int option res" where
  "announced_resume e =
     (case parse_ts (py_or (ev_get e ''resume_at'') (PStr [])) of
        Inr (Aware us) \<Rightarrow> Inr (Some us)
      | Inr (Naive us) \<Rightarrow> Inr None
      | Inl (ValueError m) \<Rightarrow> Inr None
      | Inl TypeError \<Rightarrow> Inr None
      | Inl x \<Rightarrow> Inl x)"

definition pause_bound :: "event \<Rightarrow> pydt option res" where
  "pause_bound e =
     res_bind (announced_resume e) (\<lambda>a.
       case a of
         Some us \<Rightarrow> Inr (Some (Aware us))
       | None \<Rightarrow>
           (case res_bind (ev_item e ''ts'') parse_ts of
              Inr (Aware us) \<Rightarrow> Inr (Some (Aware (us + eight_days_us)))
            | Inr (Naive us) \<Rightarrow> Inr (Some (Naive (us + eight_days_us)))
            | Inl (KeyError k) \<Rightarrow> Inr None
            | Inl (ValueError m) \<Rightarrow> Inr None
            | Inl TypeError \<Rightarrow> Inr None
            | Inl x \<Rightarrow> Inl x))"

definition dt_add_s :: "pydt \<Rightarrow> int \<Rightarrow> pydt" where
  "dt_add_s dt secs = (case dt of Aware us \<Rightarrow> Aware (us + secs * 1000000) | Naive us \<Rightarrow> Naive (us + secs * 1000000))"

text \<open>Whether the newest pause still excuses the silence at \<open>now\<close>.\<close>

definition pause_excuses :: "event list \<Rightarrow> int \<Rightarrow> int \<Rightarrow> bool res" where
  "pause_excuses evs now threshold_s =
     (case latest_stale_pause_event evs of
        None \<Rightarrow> Inr False
      | Some e \<Rightarrow>
          if \<not> stale_pause e then Inr False
          else res_bind (pause_bound e) (\<lambda>b.
                 case b of
                   None \<Rightarrow> Inr True
                 | Some bound \<Rightarrow>
                     res_bind (dt_less (dt_add_s bound threshold_s) (Aware now)) (\<lambda>late. Inr (\<not> late))))"

definition newest_ts :: "event list \<Rightarrow> pyval res" where
  "newest_ts evs =
     (case List.map_filter (\<lambda>e. e ''ts'') evs of [] \<Rightarrow> Inr PNone | t # ts \<Rightarrow> py_max t ts)"

definition detect_supervisor_stale ::
  "(string \<Rightarrow> string) \<Rightarrow> event list \<Rightarrow> int \<Rightarrow> int \<Rightarrow> alert option res" where
  "detect_supervisor_stale stamp evs now threshold_s =
     res_bind (res_filter supervised_event evs) (\<lambda>supervised.
       if threshold_s \<le> 0 \<or> supervised = [] then Inr None
       else res_bind (newest_ts supervised) (\<lambda>last_ts.
         if last_ts = PNone then Inr None
         else res_bind (parse_ts last_ts) (\<lambda>seen.
              res_bind (dt_sub (Aware now) seen) (\<lambda>age.
                if age \<le> real_of_int threshold_s then Inr None
                else res_bind (pause_excuses evs now threshold_s) (\<lambda>excused.
                  Inr (if excused then None
                       else Some (mk_alert stamp ''supervisor_stale'' Warning
                              [Lit ''No events for '', Num (real_of_int (py_trunc age)), Lit ''s (threshold '',
                               Num (real_of_int threshold_s), Lit ''s)'', Lit (py_str last_ts)]
                              [(''age_s'', CVal (PInt (py_trunc age))),
                               (''threshold_s'', CVal (PInt threshold_s)),
                               (''last_ts'', CVal last_ts)])))))))"

text \<open>The pause indicator \<open>peek\<close> shows: resume instant, window and phase of the newest pause.\<close>

definition latest_schedule_state :: "event list \<Rightarrow> (pyval \<times> pyval \<times> pyval) option" where
  "latest_schedule_state evs =
     (case latest_schedule_event evs of
        None \<Rightarrow> None
      | Some e \<Rightarrow>
          if \<not> is_kind e SCHEDULE_PAUSED then None
          else Some (ev_get_or e ''resume_at'' (PStr []), ev_get_or e ''active_window'' (PStr []),
                     ev_get_or e ''phase'' (PStr [])))"

end
