(* ===== verification/Monitor.thy ===== *)
theory Monitor
  imports Monitor_Detect
begin

section \<open>The monitor's cycle (agent\_runner/monitor.py, \_monitor\_state.py, \_observe.py)\<close>

text \<open>
  One poll runs every detector in isolation over what it read, and the polling generator
  reports each alert episode once and dispatches its auto-stop. What the host answers is an
  observation of the poll: the instants, the files read, whether a breadcrumb write succeeds,
  and how \<open>api.stop\<close> ends. \<open>msg_text\<close> renders a message, \<open>err_text\<close> is the
  \<open>type: text\<close> rendering of an exception.
\<close>

subsection \<open>Running every detector\<close>

record mon_host =
  mh_re_search :: "string \<Rightarrow> string \<Rightarrow> bool"
  mh_safe_iso :: "int \<Rightarrow> string option"
  mh_err_text :: "py_error \<Rightarrow> string"
  mh_msg_text :: "piece list \<Rightarrow> string"

record poll_args =
  pa_events :: "event list"
  pa_metrics :: "metric list"
  pa_tails :: "int \<rightharpoonup> string"
  pa_round_budget_s :: int
  pa_stale_threshold_s :: "int option"
  pa_now :: int
  pa_auth_patterns :: "string list"
  pa_auth_hint :: "string option"
  pa_overrides :: "(string \<rightharpoonup> phase_override) option"
  pa_host_health :: host_health_config

text \<open>\<open>int(round_budget_s * 1.5)\<close> unless a threshold is configured.\<close>

definition effective_stale_s :: "poll_args \<Rightarrow> int" where
  "effective_stale_s pa =
     (case pa_stale_threshold_s pa of
        Some s \<Rightarrow> s
      | None \<Rightarrow> py_trunc (real_of_int (pa_round_budget_s pa) * (3 / 2)))"

type_synonym detector = "string \<times> (log_dir option \<Rightarrow> alert option res)"

definition builtin_detectors :: "mon_host \<Rightarrow> (string \<Rightarrow> string) \<Rightarrow> poll_args \<Rightarrow> detector list" where
  "builtin_detectors h stamp pa =
     (let evs = pa_events pa; ms = pa_metrics pa; hh = pa_host_health pa; disk = hh_disk hh in
      [(''timeout_rate'', \<lambda>_. Inr (detect_timeout_rate stamp evs 10 (1/5))),
       (''hung'', \<lambda>_. detect_hung stamp evs (pa_now pa) (3/2) (pa_round_budget_s pa) (pa_overrides pa)),
       (''orphan_chain'', \<lambda>_. detect_orphan_chain stamp evs 3),
       (''disk_warning'', \<lambda>_. Inr (detect_disk_warning stamp ms (hd_warning_pct disk) (hd_critical_pct disk))),
       (''disk_critical'', \<lambda>_. Inr (detect_disk_critical stamp ms (hd_critical_pct disk))),
       (''disk_growth'', \<lambda>_. detect_disk_growth stamp ms (hd_growth_window_s disk)
          (hd_disk_growth_pct_per_hr_warning disk) (hd_inode_growth_pct_per_hr_warning disk)),
       (''mem_pressure'', \<lambda>_. Inr (detect_mem_pressure stamp ms hh)),
       (''mem_pressure_gate_inert'', \<lambda>_. Inr (detect_mem_pressure_gate_inert stamp ms hh)),
       (''oauth_fail'', \<lambda>_. detect_oauth_fail (mh_re_search h) stamp evs (pa_tails pa) 10 (1/5)
          (pa_auth_patterns pa) (pa_auth_hint pa)),
       (''network_fail'', \<lambda>_. detect_network_fail stamp evs (pa_tails pa) 10 (1/5)),
       (''rate_limit_active'', \<lambda>logd. Inr (detect_rate_limit_active (mh_safe_iso h) stamp evs
          (real_of_int (pa_now pa) / 1000000) logd)),
       (''anomaly_repetitive_active'', \<lambda>_. detect_anomaly_repetitive_active stamp evs 1 5),
       (''supervisor_stale'', \<lambda>_. detect_supervisor_stale stamp evs (pa_now pa) (effective_stale_s pa))])"

definition detector_error_payload :: "mon_host \<Rightarrow> string \<Rightarrow> py_error \<Rightarrow> event" where
  "detector_error_payload h name e = [''detector'' \<mapsto> PStr name, ''error'' \<mapsto> PStr (mh_err_text h e)]"

definition run_detector ::
  "mon_host \<Rightarrow> clock \<Rightarrow> detector \<Rightarrow> log_dir option \<Rightarrow> alert option \<times> log_dir option" where
  "run_detector h ck d logd =
     (case snd d logd of
        Inr a \<Rightarrow> (a, logd)
      | Inl e \<Rightarrow> (None, map_option (emit_builtin ck ''detector_error'' (detector_error_payload h (fst d) e)) logd))"

fun run_detectors ::
  "mon_host \<Rightarrow> clock \<Rightarrow> detector list \<Rightarrow> log_dir option \<Rightarrow> alert list \<times> log_dir option" where
  "run_detectors h ck [] logd = ([], logd)"
| "run_detectors h ck (d # ds) logd =
     (let (a, logd1) = run_detector h ck d logd; (as, logd2) = run_detectors h ck ds logd1
      in (case a of None \<Rightarrow> as | Some x \<Rightarrow> x # as, logd2))"

definition run_all_detectors ::
  "mon_host \<Rightarrow> clock \<Rightarrow> (string \<Rightarrow> string) \<Rightarrow> poll_args \<Rightarrow> log_dir option \<Rightarrow> alert list \<times> log_dir option" where
  "run_all_detectors h ck stamp pa logd = run_detectors h ck (builtin_detectors h stamp pa) logd"

subsection \<open>Auto-stop dispatch\<close>

datatype service_mode = SystemdUser | PidFile | NoService

text \<open>How \<open>api.stop\<close> ended: it raised (the rendered exception), or returned a status.\<close>

datatype stop_outcome = StopRaised string | StopReturned service_mode bool

datatype verdict = Triggered | Failed | Draining | NoStop

definition mode_value :: "service_mode \<Rightarrow> string" where
  "mode_value m = (case m of SystemdUser \<Rightarrow> ''systemd_user'' | PidFile \<Rightarrow> ''pid_file'' | NoService \<Rightarrow> ''none'')"

text \<open>\<open>on_alert\<close>'s local \<open>emit\<close>: a write that fails is swallowed.\<close>

definition alert_emit ::
  "clock \<Rightarrow> (string \<Rightarrow> bool) \<Rightarrow> alert \<Rightarrow> string \<Rightarrow> event \<Rightarrow> log_dir \<Rightarrow> log_dir" where
  "alert_emit ck can_write a kind payload logd =
     (if can_write kind
      then emit_builtin ck kind ([''detector'' \<mapsto> PStr (al_detector a)] ++ payload) logd else logd)"

definition stop_then_record ::
  "clock \<Rightarrow> (string \<Rightarrow> bool) \<Rightarrow> alert \<Rightarrow> stop_outcome \<Rightarrow> log_dir \<Rightarrow> verdict \<times> log_dir" where
  "stop_then_record ck can_write a outcome logd =
     (case outcome of
        StopRaised e \<Rightarrow>
          (Failed, alert_emit ck can_write a ''monitor_auto_stop_failed'' [''error'' \<mapsto> PStr e] logd)
      | StopReturned mode active \<Rightarrow>
          if active then
            (if mode = PidFile then (Draining, logd)
             else (Failed, alert_emit ck can_write a ''monitor_auto_stop_failed''
                     [''error'' \<mapsto> PStr (''stop did not take effect (mode='' @ mode_value mode @ '', still active)'')] logd))
          else (Triggered, alert_emit ck can_write a ''monitor_auto_stop_triggered'' Map.empty logd))"

text \<open>
  The verdict, whether \<open>api.stop\<close> was called, and the log. \<open>allowed\<close> is \<open>None\<close> when the
  caller has no allow-list.
\<close>

definition on_alert ::
  "mon_host \<Rightarrow> clock \<Rightarrow> (string \<Rightarrow> bool) \<Rightarrow> stop_outcome \<Rightarrow> string list option \<Rightarrow> alert \<Rightarrow> log_dir
     \<Rightarrow> verdict \<times> bool \<times> log_dir" where
  "on_alert h ck can_write outcome allowed a logd =
     (let effective = (case allowed of Some names \<Rightarrow> names | None \<Rightarrow> auto_stop_alerts);
          logd1 = alert_emit ck can_write a ''monitor_alert_emitted''
                    [''severity'' \<mapsto> PStr (case al_severity a of Warning \<Rightarrow> ''warning'' | Critical \<Rightarrow> ''critical''),
                     ''message'' \<mapsto> PStr (mh_msg_text h (al_message a)),
                     ''auto_action'' \<mapsto> PStr (al_auto_action a)] logd
      in if al_auto_action a \<noteq> ''stop_service'' then (NoStop, False, logd1)
         else if al_detector a \<notin> set effective then (NoStop, False, logd1)
         else (let (v, logd2) = stop_then_record ck can_write a outcome logd1 in (v, True, logd2)))"

subsection \<open>The rolling event buffer\<close>

definition monitor_event_buffer :: nat where "monitor_event_buffer = 20000"

record 'p event_tail =
  et_offsets :: "'p offsets"
  et_buffer :: "event list"

text \<open>\<open>deque(maxlen=n).extend(xs)\<close>.\<close>

definition deque_extend :: "nat \<Rightarrow> 'a list \<Rightarrow> 'a list \<Rightarrow> 'a list" where
  "deque_extend n buf xs = (let all = buf @ xs in drop (length all - n) all)"

definition event_tail_read ::
  "(string \<Rightarrow> event option) \<Rightarrow> 'p files \<Rightarrow> 'p list \<Rightarrow> 'p event_tail \<Rightarrow> event list \<times> 'p event_tail" where
  "event_tail_read decode fs paths et =
     (let (new, offs) = read_new decode fs paths (et_offsets et);
          buf = deque_extend monitor_event_buffer (et_buffer et) new
      in (buf, \<lparr>et_offsets = offs, et_buffer = buf\<rparr>))"

subsection \<open>The newest log tails\<close>

definition max_tail_files :: nat where "max_tail_files = 20"

text \<open>
  A file \<open>R*-*.log\<close> of the rounds directory in \<open>glob\<close> order: its name, its modification time
  (0 when it cannot be read) and its lines, \<open>None\<close> when it is gone at the time it is opened.
\<close>

record round_file =
  rf_name :: string
  rf_mtime :: real
  rf_lines :: "string list option"

text \<open>\<open>int(f.name.split("-", 1)[0][1:])\<close>.\<close>

definition round_file_num :: "string \<Rightarrow> int option" where
  "round_file_num name = py_int_of_str (py_strip (drop 1 (fst (py_partition (CHR ''-'') name))))"

definition load_round_log_tails :: "round_file list \<Rightarrow> nat \<Rightarrow> (int \<rightharpoonup> string)" where
  "load_round_log_tails files tail_lines =
     (let sorted_files = sort_key rf_mtime files;
          newest = drop (length sorted_files - max_tail_files) sorted_files
      in fold (\<lambda>f tails.
            case (round_file_num (rf_name f), rf_lines f) of
              (Some n, Some ls) \<Rightarrow> tails(n \<mapsto> concat (drop (length ls - tail_lines) ls))
            | _ \<Rightarrow> tails) newest Map.empty)"

subsection \<open>The polling generator\<close>

definition monitor_seen_cap :: nat where "monitor_seen_cap = 512"

text \<open>
  What one poll observes: the reloaded configuration (\<open>None\<close> when anything the poll does
  raised), what the files held, and the answers of the host to the stops of this poll.
\<close>

record poll_obs =
  po_cfg :: "config option"
  po_events :: "event list"
  po_metrics :: "metric list"
  po_tails :: "int \<rightharpoonup> string"
  po_now :: int
  po_clock :: clock
  po_stamp :: "string \<Rightarrow> string"
  po_stop :: "alert \<Rightarrow> stop_outcome"
  po_can_write :: "alert \<Rightarrow> string \<Rightarrow> bool"

definition poll_args_of :: "config \<Rightarrow> poll_obs \<Rightarrow> poll_args" where
  "poll_args_of cfg ob =
     \<lparr>pa_events = po_events ob, pa_metrics = po_metrics ob, pa_tails = po_tails ob,
      pa_round_budget_s = rt_round_budget_s (cf_runtime cfg),
      pa_stale_threshold_s = mo_supervisor_stale_threshold_s (cf_monitor cfg),
      pa_now = po_now ob, pa_auth_patterns = mo_auth_fail_patterns (cf_monitor cfg),
      pa_auth_hint = Some (mo_auth_fail_hint (cf_monitor cfg)),
      pa_overrides = (if pc_overrides (cf_phases cfg) = Map.empty then None
                      else Some (pc_overrides (cf_phases cfg))),
      pa_host_health = mo_host_health (cf_monitor cfg)\<rparr>"

definition poll_once :: "mon_host \<Rightarrow> poll_obs \<Rightarrow> log_dir \<Rightarrow> (alert list \<times> log_dir) option" where
  "poll_once h ob logd =
     (case po_cfg ob of
        None \<Rightarrow> None
      | Some cfg \<Rightarrow>
          (case run_all_detectors h (po_clock ob) (po_stamp ob) (poll_args_of cfg ob) (Some logd) of
             (as, Some logd') \<Rightarrow> Some (as, logd')
           | (as, None) \<Rightarrow> Some (as, logd)))"

record mon_state =
  ms_seen :: "string list"
  ms_log :: log_dir
  ms_yielded :: "alert list"
  ms_stops :: "alert list"

text \<open>
  One alert of a poll. \<open>ms_seen\<close> is the ordered dedup set, oldest first: a known episode moves
  to its end, a new one is appended (the oldest is dropped beyond the cap), yielded and handed
  to \<open>on_alert\<close>; a draining stop re-arms it.
\<close>

definition alert_step ::
  "mon_host \<Rightarrow> poll_obs \<Rightarrow> string list \<Rightarrow> alert \<Rightarrow> mon_state \<Rightarrow> mon_state" where
  "alert_step h ob allowed a st =
     (let key = alert_identity a in
      if key \<in> set (ms_seen st)
      then st\<lparr>ms_seen := filter (\<lambda>k. k \<noteq> key) (ms_seen st) @ [key]\<rparr>
      else (let seen1 = ms_seen st @ [key];
                seen2 = (if length seen1 > monitor_seen_cap then drop 1 seen1 else seen1);
                (v, stopped, logd) = on_alert h (po_clock ob) (po_can_write ob a) (po_stop ob a)
                                       (Some allowed) a (ms_log st)
            in \<lparr>ms_seen = (if v = Draining then filter (\<lambda>k. k \<noteq> key) seen2 else seen2),
                ms_log = logd, ms_yielded = ms_yielded st @ [a],
                ms_stops = (if stopped then ms_stops st @ [a] else ms_stops st)\<rparr>))"

definition monitor_poll :: "mon_host \<Rightarrow> string list \<Rightarrow> poll_obs \<Rightarrow> mon_state \<Rightarrow> mon_state" where
  "monitor_poll h allowed ob st =
     (case poll_once h ob (ms_log st) of
        None \<Rightarrow> st
      | Some (alerts, logd) \<Rightarrow>
          (let st' = fold (alert_step h ob allowed) alerts (st\<lparr>ms_log := logd\<rparr>);
               current = map alert_identity alerts
           in st'\<lparr>ms_seen := filter (\<lambda>k. k \<in> set current) (ms_seen st')\<rparr>))"

text \<open>The generator over the polls of a run; the allow-list is the one loaded at its start.\<close>

definition monitor_run :: "mon_host \<Rightarrow> string list \<Rightarrow> poll_obs list \<Rightarrow> mon_state \<Rightarrow> mon_state" where
  "monitor_run h allowed obs st = fold (monitor_poll h allowed) obs st"

definition monitor_started_payload :: "string \<Rightarrow> int \<Rightarrow> event" where
  "monitor_started_payload log_directory interval_s =
     [''host'' \<mapsto> PNone, ''interval_s'' \<mapsto> PInt interval_s, ''log_dir'' \<mapsto> PStr log_directory,
      ''mode'' \<mapsto> PStr ''anomaly-only'']"

text \<open>The state the loop starts in; \<open>wrote\<close> says whether the start-up breadcrumb was written.\<close>

definition monitor_start :: "clock \<Rightarrow> bool \<Rightarrow> config \<Rightarrow> int \<Rightarrow> log_dir \<Rightarrow> mon_state" where
  "monitor_start ck wrote cfg interval_s logd =
     \<lparr>ms_seen = [],
      ms_log = (if wrote then emit_builtin ck ''monitor_started''
                  (monitor_started_payload (rt_log_dir (cf_runtime cfg)) interval_s) logd else logd),
      ms_yielded = [], ms_stops = []\<rparr>"

subsection \<open>What a detector's alert looks like\<close>

named_theorems alert_simps \<open>the shape of the alerts each detector builds\<close>

lemma mk_alert_sel [simp]:
  "al_detector (mk_alert stamp d sev msg ctx) = d"
  "al_auto_action (mk_alert stamp d sev msg ctx) = ''none''"
  "al_severity (mk_alert stamp d sev msg ctx) = sev"
  "al_context (mk_alert stamp d sev msg ctx) = ctx"
  "al_detector (stopping a) = al_detector a"
  "al_auto_action (stopping a) = ''stop_service''"
  "al_severity (stopping a) = al_severity a"
  by (simp_all add: mk_alert_def stopping_def)

text \<open>The detector an alert comes from: \<open>mem_pressure\<close> raises two kinds.\<close>

definition slot :: "alert \<Rightarrow> string" where
  "slot a = (if al_detector a = ''mem_signal_unavailable'' then ''mem_pressure'' else al_detector a)"

definition alert_ok :: "string \<Rightarrow> alert \<Rightarrow> bool" where
  "alert_ok name a \<longleftrightarrow>
     slot a = name \<and> al_detector a \<in> set known_alert_kinds
     \<and> (if al_auto_action a = ''stop_service'' then al_severity a = Critical \<and> name \<in> set auto_stop_alerts
        else al_auto_action a = ''none'')"

lemma alert_ok_mk [alert_simps]:
  "d \<in> set known_alert_kinds \<Longrightarrow>
     alert_ok name (mk_alert stamp d sev msg ctx) \<longleftrightarrow>
       name = (if d = ''mem_signal_unavailable'' then ''mem_pressure'' else d)"
  by (auto simp: alert_ok_def slot_def)

lemma alert_ok_stopping [alert_simps]:
  "d \<in> set auto_stop_alerts \<Longrightarrow> alert_ok d (stopping (mk_alert stamp d Critical msg ctx))"
  by (auto simp: alert_ok_def slot_def auto_stop_alerts_def known_alert_kinds_def)

lemma known_kinds [alert_simps]:
  "''timeout_rate'' \<in> set known_alert_kinds" "''hung'' \<in> set known_alert_kinds"
  "''orphan_chain'' \<in> set known_alert_kinds" "''disk_warning'' \<in> set known_alert_kinds"
  "''disk_growth'' \<in> set known_alert_kinds" "''mem_pressure'' \<in> set known_alert_kinds"
  "''mem_signal_unavailable'' \<in> set known_alert_kinds"
  "''mem_pressure_gate_inert'' \<in> set known_alert_kinds"
  "''network_fail'' \<in> set known_alert_kinds" "''rate_limit_active'' \<in> set known_alert_kinds"
  "''anomaly_repetitive_active'' \<in> set known_alert_kinds"
  "''supervisor_stale'' \<in> set known_alert_kinds"
  "''oauth_fail'' \<in> set auto_stop_alerts" "''disk_critical'' \<in> set auto_stop_alerts"
  by (simp_all add: known_alert_kinds_def auto_stop_alerts_def)

lemma ok_timeout_rate: "detect_timeout_rate stamp evs w t = Some a \<Longrightarrow> alert_ok ''timeout_rate'' a"
  by (auto simp: detect_timeout_rate_def Let_def alert_simps split: if_splits)

lemma ok_hung: "detect_hung stamp evs now f b ov = Inr (Some a) \<Longrightarrow> alert_ok ''hung'' a"
  by (auto simp: detect_hung_def Let_def res_bind_Inr_iff alert_simps split: option.splits if_splits prod.splits)

lemma ok_orphan_chain: "detect_orphan_chain stamp evs t = Inr (Some a) \<Longrightarrow> alert_ok ''orphan_chain'' a"
  by (auto simp: detect_orphan_chain_def Let_def res_bind_Inr_iff alert_simps split: if_splits prod.splits)

lemma ok_disk_warning: "detect_disk_warning stamp ms t c = Some a \<Longrightarrow> alert_ok ''disk_warning'' a"
  by (auto simp: detect_disk_warning_def alert_simps split: option.splits if_splits)

lemma ok_disk_critical: "detect_disk_critical stamp ms c = Some a \<Longrightarrow> alert_ok ''disk_critical'' a"
  by (auto simp: detect_disk_critical_def alert_simps split: option.splits if_splits)

lemma ok_growth_alert: "growth_alert stamp w f g r i = Some a \<Longrightarrow> alert_ok ''disk_growth'' a"
  by (auto simp: growth_alert_def Let_def alert_simps split: if_splits)

lemma ok_disk_growth: "detect_disk_growth stamp ms w f g = Inr (Some a) \<Longrightarrow> alert_ok ''disk_growth'' a"
  by (auto simp: detect_disk_growth_def Let_def res_bind_Inr_iff intro: ok_growth_alert
      split: option.splits if_splits prod.splits)

lemma ok_mem_pressure: "detect_mem_pressure stamp ms cfg = Some a \<Longrightarrow> alert_ok ''mem_pressure'' a"
  by (auto simp: detect_mem_pressure_def Let_def alert_simps split: option.splits if_splits prod.splits)

lemma ok_gate_inert:
  "detect_mem_pressure_gate_inert stamp ms cfg = Some a \<Longrightarrow> alert_ok ''mem_pressure_gate_inert'' a"
  by (auto simp: detect_mem_pressure_gate_inert_def Let_def alert_simps split: if_splits prod.splits)

lemma ok_oauth_fail:
  "detect_oauth_fail rs stamp evs tails w t ps hint = Inr (Some a) \<Longrightarrow> alert_ok ''oauth_fail'' a"
  by (auto simp: detect_oauth_fail_def Let_def res_bind_Inr_iff alert_simps split: if_splits)

lemma ok_network_fail:
  "detect_network_fail stamp evs tails w t = Inr (Some a) \<Longrightarrow> alert_ok ''network_fail'' a"
  by (auto simp: detect_network_fail_def Let_def res_bind_Inr_iff alert_simps split: if_splits)

lemma ok_rate_limit_scan:
  "rate_limit_scan si stamp evs now l = Some a \<Longrightarrow> alert_ok ''rate_limit_active'' a"
  by (induction si stamp evs now l rule: rate_limit_scan.induct)
    (auto simp: Let_def alert_simps split: if_splits option.splits)

lemma ok_anomaly:
  "detect_anomaly_repetitive_active stamp evs t w = Inr (Some a) \<Longrightarrow> alert_ok ''anomaly_repetitive_active'' a"
  by (auto simp: detect_anomaly_repetitive_active_def Let_def res_bind_Inr_iff alert_simps
      split: list.splits if_splits)

lemma ok_stale: "detect_supervisor_stale stamp evs now t = Inr (Some a) \<Longrightarrow> alert_ok ''supervisor_stale'' a"
  by (auto simp: detect_supervisor_stale_def res_bind_Inr_iff alert_simps split: if_splits)

lemmas detector_ok = ok_timeout_rate ok_hung ok_orphan_chain ok_disk_warning ok_disk_critical
  ok_disk_growth ok_mem_pressure ok_gate_inert ok_oauth_fail ok_network_fail ok_rate_limit_scan
  ok_anomaly ok_stale

lemma builtin_ok:
  "list_all (\<lambda>d. \<forall>l a. snd d l = Inr (Some a) \<longrightarrow> alert_ok (fst d) a) (builtin_detectors h stamp pa)"
  unfolding builtin_detectors_def Let_def list.pred_inject fst_conv snd_conv
    detect_rate_limit_active_def sum.inject
  by (intro conjI allI impI; (erule detector_ok | simp))

definition builtin_names :: "string list" where
  "builtin_names =
     [''timeout_rate'', ''hung'', ''orphan_chain'', ''disk_warning'', ''disk_critical'', ''disk_growth'',
      ''mem_pressure'', ''mem_pressure_gate_inert'', ''oauth_fail'', ''network_fail'',
      ''rate_limit_active'', ''anomaly_repetitive_active'', ''supervisor_stale'']"

lemma builtin_detector_names: "map fst (builtin_detectors h stamp pa) = builtin_names"
  by (simp add: builtin_detectors_def builtin_names_def Let_def)

lemma distinct_builtin_names: "distinct builtin_names"
  by (simp add: builtin_names_def)

subsection \<open>Isolation\<close>

text \<open>Two logs no detector can tell apart: they yield the same back-off exponents.\<close>

definition same_ladder :: "log_dir \<Rightarrow> log_dir \<Rightarrow> bool" where
  "same_ladder l l' \<longleftrightarrow> (\<forall>a. backoff_exponent l a = backoff_exponent l' a)"

lemma rate_limit_scan_ladder:
  "same_ladder l l' \<Longrightarrow> rate_limit_scan si stamp evs now (Some l) = rate_limit_scan si stamp evs now (Some l')"
  by (induction evs) (simp_all add: Let_def events_derived_reset_def same_ladder_def)

lemma builtin_log_stable:
  assumes "same_ladder l l'"
  shows "list_all (\<lambda>d. snd d (Some l) = snd d (Some l')) (builtin_detectors h stamp pa)"
  by (simp add: builtin_detectors_def Let_def detect_rate_limit_active_def
      rate_limit_scan_ladder [OF assms])

lemma detector_error_log:
  assumes "current_newest (ck_month ck) l"
  shows "same_ladder (emit_builtin ck ''detector_error'' (detector_error_payload h n e) l) l"
    and "current_newest (ck_month ck) (emit_builtin ck ''detector_error'' (detector_error_payload h n e) l)"
proof -
  have "exponent_step a (event_payload ck ''detector_error'' (detector_error_payload h n e)) k = k" for a k
    by (simp add: exponent_step_def payload_kind detector_error_payload_def)
  then show "same_ladder (emit_builtin ck ''detector_error'' (detector_error_payload h n e) l) l"
    using assms by (simp add: same_ladder_def backoff_exponent_def exponent_of_def emit_builtin_def log_simps)
  show "current_newest (ck_month ck) (emit_builtin ck ''detector_error'' (detector_error_payload h n e) l)"
    using assms by (simp add: emit_builtin_def log_simps)
qed

definition alerts_of :: "detector list \<Rightarrow> log_dir option \<Rightarrow> alert list" where
  "alerts_of ds l = List.map_filter (\<lambda>d. case snd d l of Inr a \<Rightarrow> a | Inl e \<Rightarrow> None) ds"

definition crashes_of :: "detector list \<Rightarrow> log_dir option \<Rightarrow> (string \<times> py_error) list" where
  "crashes_of ds l =
     List.map_filter (\<lambda>d. case snd d l of Inr a \<Rightarrow> None | Inl e \<Rightarrow> Some (fst d, e)) ds"

definition record_crashes ::
  "mon_host \<Rightarrow> clock \<Rightarrow> (string \<times> py_error) list \<Rightarrow> log_dir \<Rightarrow> log_dir" where
  "record_crashes h ck crashes l =
     fold (\<lambda>(n, e). emit_builtin ck ''detector_error'' (detector_error_payload h n e)) crashes l"

lemma run_detectors_isolated:
  assumes "current_newest (ck_month ck) l" and "same_ladder l l0"
    and "\<And>x y. same_ladder x y \<Longrightarrow> list_all (\<lambda>d. snd d (Some x) = snd d (Some y)) ds"
  shows "run_detectors h ck ds (Some l) =
    (alerts_of ds (Some l0), Some (record_crashes h ck (crashes_of ds (Some l0)) l))"
  using assms
proof (induction ds arbitrary: l)
  case Nil
  then show ?case by (simp add: alerts_of_def crashes_of_def record_crashes_def)
next
  case (Cons d ds)
  have d: "snd d (Some l) = snd d (Some l0)" and st: "\<And>x y. same_ladder x y \<Longrightarrow> list_all (\<lambda>d. snd d (Some x) = snd d (Some y)) ds"
    using Cons.prems(2,3) by auto
  show ?case
  proof (cases "snd d (Some l0)")
    case (Inl e)
    let ?l = "emit_builtin ck ''detector_error'' (detector_error_payload h (fst d) e) l"
    note de = detector_error_log [OF Cons.prems(1), of h "fst d" e]
    have "same_ladder ?l l0" using de(1) Cons.prems(2) by (simp add: same_ladder_def)
    from Cons.IH [OF de(2) this st] show ?thesis
      by (simp add: run_detector_def d Inl alerts_of_def crashes_of_def record_crashes_def)
  next
    case (Inr a)
    from Cons.IH [OF Cons.prems(1,2) st] show ?thesis
      by (simp add: run_detector_def d Inr alerts_of_def crashes_of_def split: option.splits)
  qed
qed

lemma run_all_isolated:
  assumes "current_newest (ck_month ck) l"
  shows "run_all_detectors h ck stamp pa (Some l) =
    (alerts_of (builtin_detectors h stamp pa) (Some l),
     Some (record_crashes h ck (crashes_of (builtin_detectors h stamp pa) (Some l)) l))"
  unfolding run_all_detectors_def
  by (rule run_detectors_isolated [OF assms]) (simp_all add: same_ladder_def builtin_log_stable)

subsection \<open>Identities of one poll\<close>

lemma identity_detector:
  assumes "CHR '':'' \<notin> set (al_detector a)"
  shows "takeWhile (\<lambda>c. c \<noteq> CHR '':'') (alert_identity a) = al_detector a"
proof -
  have t: "takeWhile (\<lambda>c. c \<noteq> CHR '':'') (al_detector a) = al_detector a"
    using assms by (auto simp: takeWhile_eq_all_conv)
  have "takeWhile (\<lambda>c. c \<noteq> CHR '':'') (al_detector a @ CHR '':'' # xs) = al_detector a" for xs
    using assms by (subst takeWhile_append2) auto
  then show ?thesis using t by (simp add: alert_identity_def Let_def)
qed

lemma known_no_colon: "d \<in> set known_alert_kinds \<Longrightarrow> CHR '':'' \<notin> set d"
  by (auto simp: known_alert_kinds_def)

lemma run_detectors_slots:
  assumes "list_all (\<lambda>d. \<forall>l a. snd d l = Inr (Some a) \<longrightarrow> alert_ok (fst d) a) ds"
    and "distinct (map fst ds)" and "run_detectors h ck ds l = (as, l')"
  shows "(\<forall>a \<in> set as. alert_ok (slot a) a \<and> slot a \<in> set (map fst ds)) \<and> distinct (map slot as)
    \<and> length as \<le> length ds"
  using assms
proof (induction ds arbitrary: l as)
  case (Cons d ds)
  obtain a l1 where d: "run_detector h ck d l = (a, l1)" by fastforce
  obtain as1 where r: "run_detectors h ck ds l1 = (as1, l')"
    and as: "as = (case a of None \<Rightarrow> as1 | Some x \<Rightarrow> x # as1)"
    using Cons.prems(3) d by (auto split: prod.splits)
  have ih: "(\<forall>a \<in> set as1. alert_ok (slot a) a \<and> slot a \<in> set (map fst ds)) \<and> distinct (map slot as1)
    \<and> length as1 \<le> length ds"
    using Cons.IH [OF _ _ r] Cons.prems(1,2) by simp
  show ?case
  proof (cases a)
    case None
    then show ?thesis using ih as by auto
  next
    case (Some x)
    then have "snd d l = Inr (Some x)"
      using d by (auto simp: run_detector_def split: sum.splits)
    then have ok: "alert_ok (fst d) x" using Cons.prems(1) by auto
    then have sl: "slot x = fst d" by (simp add: alert_ok_def)
    have "fst d \<notin> set (map fst ds)" using Cons.prems(2) by simp
    then have "slot x \<notin> set (map slot as1)" using ih sl by force
    then show ?thesis using ih as Some ok sl by auto
  qed
qed simp

lemma run_detectors_Some: "run_detectors h ck ds (Some l) = (as, l') \<Longrightarrow> \<exists>m. l' = Some m"
  by (induction ds arbitrary: l as) (fastforce simp: run_detector_def split: prod.splits sum.splits)+

lemma slots_identities:
  assumes "\<forall>a \<in> set as. alert_ok (slot a) a" and "distinct (map slot as)"
  shows "distinct (map alert_identity as)"
proof -
  have "a = b" if "a \<in> set as" "b \<in> set as" "alert_identity a = alert_identity b" for a b
  proof -
    have "al_detector a = al_detector b"
      using identity_detector [of a] identity_detector [of b] known_no_colon assms(1) that
      unfolding alert_ok_def by metis
    then have "slot a = slot b" by (simp add: slot_def)
    then show ?thesis using assms(2) that(1,2) by (auto simp: distinct_map inj_on_def)
  qed
  then show ?thesis using assms(2) by (auto simp: distinct_map inj_on_def)
qed

lemma poll_once_alerts:
  assumes "poll_once h ob l = Some (as, l')"
  shows "(\<forall>a \<in> set as. alert_ok (slot a) a) \<and> distinct (map alert_identity as) \<and> length as \<le> 13"
proof -
  obtain cfg m where "run_all_detectors h (po_clock ob) (po_stamp ob) (poll_args_of cfg ob) (Some l) = (as, m)"
    using assms by (auto simp: poll_once_def split: option.splits prod.splits)
  note r = run_detectors_slots [OF builtin_ok _ this [unfolded run_all_detectors_def]]
  have "length builtin_names = 13" by (simp add: builtin_names_def)
  then have "length (builtin_detectors h (po_stamp ob) (poll_args_of cfg ob)) = 13"
    using builtin_detector_names [of h "po_stamp ob" "poll_args_of cfg ob"] by (metis length_map)
  then show ?thesis
    using r slots_identities by (auto simp: builtin_detector_names distinct_builtin_names)
qed

subsection \<open>Verdicts\<close>

definition eligible :: "string list \<Rightarrow> alert \<Rightarrow> bool" where
  "eligible allowed a \<longleftrightarrow> al_auto_action a = ''stop_service'' \<and> al_detector a \<in> set allowed"

definition outcome_verdict :: "stop_outcome \<Rightarrow> verdict" where
  "outcome_verdict oc =
     (case oc of StopRaised e \<Rightarrow> Failed
      | StopReturned m active \<Rightarrow> if \<not> active then Triggered else if m = PidFile then Draining else Failed)"

definition stop_verdict :: "string list \<Rightarrow> stop_outcome \<Rightarrow> alert \<Rightarrow> verdict" where
  "stop_verdict allowed oc a = (if eligible allowed a then outcome_verdict oc else NoStop)"

lemma on_alert_verdict:
  "fst (on_alert h ck w oc (Some allowed) a l) = stop_verdict allowed oc a"
  "fst (snd (on_alert h ck w oc (Some allowed) a l)) \<longleftrightarrow> eligible allowed a"
  by (auto simp: on_alert_def stop_verdict_def eligible_def stop_then_record_def outcome_verdict_def Let_def
      split: stop_outcome.splits prod.splits)

subsection \<open>Episodes: the contract of the generator\<close>

text \<open>
  The abstract monitor knows the set of episodes it has reported. A poll reports the alerts
  outside the set; afterwards the set holds the episodes still firing that were reported before
  or whose stop is not draining. No order and no cap.
\<close>

definition drains :: "string list \<Rightarrow> poll_obs \<Rightarrow> alert \<Rightarrow> bool" where
  "drains allowed ob a \<longleftrightarrow> stop_verdict allowed (po_stop ob a) a = Draining"

definition episode_poll ::
  "string list \<Rightarrow> poll_obs \<times> alert list option \<Rightarrow> string set \<times> alert list \<Rightarrow> string set \<times> alert list" where
  "episode_poll allowed p s =
     (case snd p of
        None \<Rightarrow> s
      | Some alerts \<Rightarrow>
          ({alert_identity a | a. a \<in> set alerts \<and> (alert_identity a \<in> fst s \<or> \<not> drains allowed (fst p) a)},
           snd s @ filter (\<lambda>a. alert_identity a \<notin> fst s) alerts))"

definition seen_ok :: "mon_state \<Rightarrow> bool" where
  "seen_ok st \<longleftrightarrow> distinct (ms_seen st) \<and> length (ms_seen st) \<le> 13"

lemma alert_step_known:
  assumes "alert_identity a \<in> set (ms_seen st)"
  shows "set (ms_seen (alert_step h ob al a st)) = set (ms_seen st)"
    "distinct (ms_seen st) \<Longrightarrow> distinct (ms_seen (alert_step h ob al a st))"
    "distinct (ms_seen st) \<Longrightarrow> length (ms_seen (alert_step h ob al a st)) = length (ms_seen st)"
    "ms_yielded (alert_step h ob al a st) = ms_yielded st"
    "ms_stops (alert_step h ob al a st) = ms_stops st"
proof -
  have f: "filter (\<lambda>k. k \<noteq> alert_identity a) (ms_seen st) = remove1 (alert_identity a) (ms_seen st)"
    if "distinct (ms_seen st)" using that by (simp add: distinct_remove1_removeAll removeAll_filter_not_eq eq_commute)
  show "set (ms_seen (alert_step h ob al a st)) = set (ms_seen st)"
    "distinct (ms_seen st) \<Longrightarrow> distinct (ms_seen (alert_step h ob al a st))"
    "ms_yielded (alert_step h ob al a st) = ms_yielded st"
    "ms_stops (alert_step h ob al a st) = ms_stops st"
    using assms by (auto simp: alert_step_def Let_def)
  show "length (ms_seen (alert_step h ob al a st)) = length (ms_seen st)" if "distinct (ms_seen st)"
    using assms f [OF that] length_pos_if_in_set [OF assms]
    by (simp add: alert_step_def Let_def length_remove1)
qed

lemma alert_step_new:
  assumes "alert_identity a \<notin> set (ms_seen st)" and "length (ms_seen st) < monitor_seen_cap"
  shows "ms_seen (alert_step h ob al a st) =
      ms_seen st @ (if drains al ob a then [] else [alert_identity a])"
    "ms_yielded (alert_step h ob al a st) = ms_yielded st @ [a]"
    "ms_stops (alert_step h ob al a st) = ms_stops st @ (if eligible al a then [a] else [])"
proof -
  obtain v b l where oa: "on_alert h (po_clock ob) (po_can_write ob a) (po_stop ob a) (Some al) a (ms_log st) = (v, b, l)"
    by (metis prod_cases3)
  have v: "v = stop_verdict al (po_stop ob a) a" "b \<longleftrightarrow> eligible al a"
    using on_alert_verdict [of h "po_clock ob" "po_can_write ob a" "po_stop ob a" al a "ms_log st"] oa by auto
  have f: "filter (\<lambda>k. k \<noteq> alert_identity a) (ms_seen st) = ms_seen st"
    using assms(1) by (auto simp: filter_id_conv)
  show "ms_seen (alert_step h ob al a st) =
      ms_seen st @ (if drains al ob a then [] else [alert_identity a])"
    "ms_yielded (alert_step h ob al a st) = ms_yielded st @ [a]"
    "ms_stops (alert_step h ob al a st) = ms_stops st @ (if eligible al a then [a] else [])"
    using assms v f by (auto simp: alert_step_def Let_def oa drains_def)
qed

lemma alert_fold:
  assumes "distinct (map alert_identity as)" "distinct (ms_seen st)"
    and "length (ms_seen st) + length as \<le> monitor_seen_cap"
  shows "let st' = fold (alert_step h ob al) as st;
             new = filter (\<lambda>a. alert_identity a \<notin> set (ms_seen st)) as
    in set (ms_seen st') = set (ms_seen st) \<union> {alert_identity a | a. a \<in> set new \<and> \<not> drains al ob a}
     \<and> distinct (ms_seen st') \<and> ms_yielded st' = ms_yielded st @ new
     \<and> ms_stops st' = ms_stops st @ filter (eligible al) new"
  using assms
proof (induction as arbitrary: st)
  case (Cons a as)
  let ?s = "alert_step h ob al a st"
  have rest: "alert_identity x \<noteq> alert_identity a" if "x \<in> set as" for x
    using Cons.prems(1) that by (metis distinct.simps(2) image_eqI list.set_map list.simps(9))
  show ?case
  proof (cases "alert_identity a \<in> set (ms_seen st)")
    case True
    note k = alert_step_known [OF True, of h ob al]
    show ?thesis using Cons.IH [of ?s] Cons.prems k True by (simp add: Let_def)
  next
    case False
    have lt: "length (ms_seen st) < monitor_seen_cap" using Cons.prems(3) by simp
    note n = alert_step_new [OF False lt, of h ob al]
    have d: "distinct (ms_seen ?s)" "length (ms_seen ?s) + length as \<le> monitor_seen_cap"
      using Cons.prems False n(1) by auto
    have f: "filter (\<lambda>x. alert_identity x \<notin> set (ms_seen ?s)) as = filter (\<lambda>x. alert_identity x \<notin> set (ms_seen st)) as"
      using rest n(1) by (intro filter_cong) (auto split: if_splits)
    let ?new = "filter (\<lambda>x. alert_identity x \<notin> set (ms_seen st)) as"
    have "distinct (map alert_identity as)" using Cons.prems(1) by simp
    from Cons.IH [OF this d, unfolded Let_def f]
    have ih: "set (ms_seen (fold (alert_step h ob al) as ?s)) =
        set (ms_seen ?s) \<union> {alert_identity a | a. a \<in> set ?new \<and> \<not> drains al ob a}"
      "distinct (ms_seen (fold (alert_step h ob al) as ?s))"
      "ms_yielded (fold (alert_step h ob al) as ?s) = ms_yielded ?s @ ?new"
      "ms_stops (fold (alert_step h ob al) as ?s) = ms_stops ?s @ filter (eligible al) ?new"
      by blast+
    have new: "filter (\<lambda>x. alert_identity x \<notin> set (ms_seen st)) (a # as) = a # ?new"
      using False by simp
    show ?thesis unfolding Let_def new fold_simps ih(1,3,4) n using ih(2) by auto
  qed
qed (simp add: Let_def)

lemma monitor_poll_refines:
  assumes ok: "seen_ok st"
  shows "seen_ok (monitor_poll h al ob st)"
    and "(set (ms_seen (monitor_poll h al ob st)), ms_yielded (monitor_poll h al ob st)) =
      episode_poll al (ob, map_option fst (poll_once h ob (ms_log st))) (set (ms_seen st), ms_yielded st)"
proof -
  have both: "seen_ok (monitor_poll h al ob st) \<and>
    (set (ms_seen (monitor_poll h al ob st)), ms_yielded (monitor_poll h al ob st)) =
      episode_poll al (ob, map_option fst (poll_once h ob (ms_log st))) (set (ms_seen st), ms_yielded st)"
  proof (cases "poll_once h ob (ms_log st)")
    case None
    then show ?thesis using ok by (simp add: monitor_poll_def episode_poll_def)
  next
    case (Some p)
    obtain as l where p: "p = (as, l)" by (cases p)
    note a = poll_once_alerts [OF Some [unfolded p]]
    let ?st = "st\<lparr>ms_log := l\<rparr>"
    let ?st' = "fold (alert_step h ob al) as ?st"
    have f: "set (ms_seen ?st') = set (ms_seen st) \<union>
        {alert_identity a | a. a \<in> set as \<and> alert_identity a \<notin> set (ms_seen st) \<and> \<not> drains al ob a}"
      "distinct (ms_seen ?st')"
      "ms_yielded ?st' = ms_yielded st @ filter (\<lambda>a. alert_identity a \<notin> set (ms_seen st)) as"
      using alert_fold [of as ?st h ob al] a ok
      by (auto simp: Let_def seen_ok_def monitor_seen_cap_def)
    let ?kept = "filter (\<lambda>k. k \<in> set (map alert_identity as)) (ms_seen ?st')"
    have "length ?kept = card (set ?kept)" using distinct_card [OF distinct_filter [OF f(2)]] by metis
    also have "\<dots> \<le> card (set (map alert_identity as))" by (intro card_mono) auto
    also have "\<dots> \<le> 13" using a card_length [of "map alert_identity as"] by simp
    finally have len: "length ?kept \<le> 13" .
    have "set ?kept = {alert_identity a | a. a \<in> set as \<and> (alert_identity a \<in> set (ms_seen st) \<or> \<not> drains al ob a)}"
      using f(1) by auto
    then show ?thesis
      using len f(2,3) by (simp add: monitor_poll_def Some p Let_def episode_poll_def seen_ok_def)
  qed
  then show "seen_ok (monitor_poll h al ob st)"
    "(set (ms_seen (monitor_poll h al ob st)), ms_yielded (monitor_poll h al ob st)) =
      episode_poll al (ob, map_option fst (poll_once h ob (ms_log st))) (set (ms_seen st), ms_yielded st)"
    by simp_all
qed

subsection \<open>Runs of the generator\<close>

text \<open>What each poll of a run found.\<close>

fun poll_trace :: "mon_host \<Rightarrow> string list \<Rightarrow> poll_obs list \<Rightarrow> mon_state \<Rightarrow> alert list option list" where
  "poll_trace h al [] st = []"
| "poll_trace h al (ob # obs) st =
     map_option fst (poll_once h ob (ms_log st)) # poll_trace h al obs (monitor_poll h al ob st)"

definition episode_run ::
  "string list \<Rightarrow> (poll_obs \<times> alert list option) list \<Rightarrow> string set \<times> alert list \<Rightarrow> string set \<times> alert list" where
  "episode_run al ps s = fold (episode_poll al) ps s"

lemma monitor_run_simps [simp]:
  "monitor_run h al [] st = st"
  "monitor_run h al (ob # obs) st = monitor_run h al obs (monitor_poll h al ob st)"
  by (simp_all add: monitor_run_def)

lemma monitor_run_refines:
  assumes "seen_ok st"
  shows "seen_ok (monitor_run h al obs st)
    \<and> (set (ms_seen (monitor_run h al obs st)), ms_yielded (monitor_run h al obs st)) =
       episode_run al (zip obs (poll_trace h al obs st)) (set (ms_seen st), ms_yielded st)"
  using assms
proof (induction obs arbitrary: st)
  case (Cons ob obs)
  note r = monitor_poll_refines [OF Cons.prems, of h al ob]
  show ?case using Cons.IH [OF r(1)] r(2) by (simp add: episode_run_def)
qed (simp add: episode_run_def)

lemma seen_ok_start: "seen_ok (monitor_start ck w cfg i l)"
  by (simp add: seen_ok_def monitor_start_def)

lemma monitor_start_refines:
  "(set (ms_seen (monitor_run h al obs (monitor_start ck w cfg i l))),
    ms_yielded (monitor_run h al obs (monitor_start ck w cfg i l))) =
   episode_run al (zip obs (poll_trace h al obs (monitor_start ck w cfg i l))) ({}, [])"
proof -
  have "ms_seen (monitor_start ck w cfg i l) = []" "ms_yielded (monitor_start ck w cfg i l) = []"
    by (simp_all add: monitor_start_def)
  then show ?thesis
    using monitor_run_refines [OF seen_ok_start, of h al obs ck w cfg i l] by (simp only: list.set)
qed

text \<open>C21: the polling generator, with its ordered and capped dedup set, refines the abstract episode monitor: over any run of polls from its start it has yielded exactly the alerts the abstract monitor reports, and the set it remembers is the set of episodes reported and still firing, less those whose stop is draining (the cap of 512 never drops a live episode).\<close>

theorem monitor_refines_episodes:
  "(set (ms_seen (monitor_run h al obs (monitor_start ck w cfg i l))),
    ms_yielded (monitor_run h al obs (monitor_start ck w cfg i l))) =
   episode_run al (zip obs (poll_trace h al obs (monitor_start ck w cfg i l))) ({}, [])"
  by (rule monitor_start_refines)

subsection \<open>A persisting episode\<close>

definition fires :: "string \<Rightarrow> alert list option \<Rightarrow> bool" where
  "fires k r \<longleftrightarrow> (\<exists>as. r = Some as \<and> k \<in> set (map alert_identity as))"

lemma episode_known_stays:
  assumes "k \<in> fst s" "list_all (\<lambda>p. fires k (snd p)) ps"
  shows "k \<in> fst (episode_run al ps s)
    \<and> filter (\<lambda>a. alert_identity a = k) (snd (episode_run al ps s)) = filter (\<lambda>a. alert_identity a = k) (snd s)"
  using assms
proof (induction ps arbitrary: s)
  case (Cons p ps)
  obtain as where as: "snd p = Some as" "k \<in> set (map alert_identity as)"
    using Cons.prems(2) by (auto simp: fires_def)
  have "k \<in> fst (episode_poll al p s)" using as Cons.prems(1) by (auto simp: episode_poll_def)
  moreover have "filter (\<lambda>a. alert_identity a = k) (snd (episode_poll al p s)) = filter (\<lambda>a. alert_identity a = k) (snd s)"
    using as Cons.prems(1) by (auto simp: episode_poll_def filter_empty_conv)
  ultimately show ?case using Cons.IH [of "episode_poll al p s"] Cons.prems(2)
    by (simp add: episode_run_def)
qed (simp add: episode_run_def)

lemma filter_unique_key:
  "distinct (map f xs) \<Longrightarrow> k \<in> set (map f xs) \<Longrightarrow> length (filter (\<lambda>x. f x = k) xs) = 1"
proof (induction xs)
  case (Cons x xs)
  show ?case
  proof (cases "f x = k")
    case True
    then have "filter (\<lambda>x. f x = k) xs = []"
      using Cons.prems(1) by (auto simp: filter_empty_conv) (metis imageI)
    then show ?thesis using True by simp
  qed (use Cons in auto)
qed simp

lemma episode_first:
  assumes "k \<notin> fst s" "snd p = Some as" "k \<in> set (map alert_identity as)" "distinct (map alert_identity as)"
  shows "length (filter (\<lambda>a. alert_identity a = k) (snd (episode_poll al p s))) =
      length (filter (\<lambda>a. alert_identity a = k) (snd s)) + 1"
    and "k \<in> fst (episode_poll al p s) \<longleftrightarrow>
      (\<exists>a \<in> set as. alert_identity a = k \<and> \<not> drains al (fst p) a)"
proof -
  have "filter (\<lambda>a. alert_identity a = k) (filter (\<lambda>a. alert_identity a \<notin> fst s) as) =
      filter (\<lambda>a. alert_identity a = k) as"
    using assms(1) by (auto simp: filter_filter intro!: filter_cong)
  then show "length (filter (\<lambda>a. alert_identity a = k) (snd (episode_poll al p s))) =
      length (filter (\<lambda>a. alert_identity a = k) (snd s)) + 1"
    using filter_unique_key [OF assms(4,3)] assms(2) by (simp add: episode_poll_def)
  show "k \<in> fst (episode_poll al p s) \<longleftrightarrow> (\<exists>a \<in> set as. alert_identity a = k \<and> \<not> drains al (fst p) a)"
    using assms(1,2) by (auto simp: episode_poll_def)
qed

definition drains_key :: "string list \<Rightarrow> string \<Rightarrow> poll_obs \<times> alert list option \<Rightarrow> bool" where
  "drains_key al k p \<longleftrightarrow> (\<forall>a \<in> set (case snd p of None \<Rightarrow> [] | Some as \<Rightarrow> as). alert_identity a = k \<longrightarrow> drains al (fst p) a)"

lemma episode_persists:
  assumes "k \<notin> fst s" and "list_all (\<lambda>p. fires k (snd p)) ps"
    and "list_all (\<lambda>p. \<forall>as. snd p = Some as \<longrightarrow> distinct (map alert_identity as)) ps"
  shows "length (filter (\<lambda>a. alert_identity a = k) (snd (episode_run al ps s))) =
    length (filter (\<lambda>a. alert_identity a = k) (snd s))
    + (let lead = takeWhile (drains_key al k) ps in if lead = ps then length ps else length lead + 1)"
  using assms
proof (induction ps arbitrary: s)
  case (Cons p ps)
  obtain as where as: "snd p = Some as" "k \<in> set (map alert_identity as)" "distinct (map alert_identity as)"
    using Cons.prems(2,3) by (auto simp: fires_def)
  note f = episode_first [OF Cons.prems(1) as, of al]
  have d: "k \<in> fst (episode_poll al p s) \<longleftrightarrow> \<not> drains_key al k p"
  proof -
    obtain a where a: "a \<in> set as" "alert_identity a = k" using as(2) by auto
    have "b = a" if "b \<in> set as" "alert_identity b = k" for b
      using as(3) a that by (auto simp: distinct_map inj_on_def)
    then show ?thesis unfolding f(2) drains_key_def using as(1) a by auto
  qed
  show ?case
  proof (cases "drains_key al k p")
    case True
    then have "k \<notin> fst (episode_poll al p s)" using d by simp
    from Cons.IH [OF this] Cons.prems f(1) True show ?thesis by (simp add: episode_run_def Let_def)
  next
    case False
    then have "k \<in> fst (episode_poll al p s)" using d by simp
    from episode_known_stays [OF this, of ps al] Cons.prems f(1) False show ?thesis
      by (simp add: episode_run_def Let_def)
  qed
qed (simp add: episode_run_def)

lemma poll_trace_distinct:
  "list_all (\<lambda>p. \<forall>as. snd p = Some as \<longrightarrow> distinct (map alert_identity as)) (zip obs (poll_trace h al obs st))"
  by (induction obs arbitrary: st) (auto simp: poll_once_alerts)

lemma poll_trace_length [simp]: "length (poll_trace h al obs st) = length obs"
  by (induction obs arbitrary: st) auto

text \<open>An alert episode that fires in every poll of a run is yielded once for each poll of its leading stretch of draining stops and once more after it, and never again while it lasts.\<close>

theorem episode_reported_once:
  assumes "list_all (fires k) (poll_trace h al obs (monitor_start ck w cfg i l))"
  shows "length (filter (\<lambda>a. alert_identity a = k) (ms_yielded (monitor_run h al obs (monitor_start ck w cfg i l)))) =
    (let ps = zip obs (poll_trace h al obs (monitor_start ck w cfg i l));
         draining = takeWhile (drains_key al k) ps
     in if draining = ps then length obs else length draining + 1)"
proof -
  let ?st = "monitor_start ck w cfg i l"
  let ?ps = "zip obs (poll_trace h al obs ?st)"
  have f: "list_all (\<lambda>p. fires k (snd p)) ?ps"
    using assms by (auto simp: list_all_length)
  have "ms_yielded (monitor_run h al obs ?st) = snd (episode_run al ?ps ({}, []))"
    by (simp only: monitor_start_refines [symmetric] snd_conv)
  then show ?thesis
    using episode_persists [of k "({}, [])" ?ps al] f poll_trace_distinct [of obs h al ?st]
    by (simp add: Let_def)
qed

subsection \<open>Isolation and the kinds of alerts\<close>

text \<open>A poll returns exactly the alerts the detectors would give one by one on the log as it was, whatever the other detectors do, and appends one detector_error per crashed detector, in order.\<close>

theorem detectors_isolated:
  assumes "current_newest (ck_month ck) l"
  shows "run_all_detectors h ck stamp pa (Some l) =
    (alerts_of (builtin_detectors h stamp pa) (Some l),
     Some (record_crashes h ck (crashes_of (builtin_detectors h stamp pa) (Some l)) l))"
  by (rule run_all_isolated [OF assms])

text \<open>The alerts of a poll have pairwise different identities, are at most thirteen, are of catalogued kinds, and ask for a stop only when critical and raised by oauth_fail or disk_critical.\<close>

theorem poll_alert_kinds:
  assumes "poll_once h ob l = Some (as, l')"
  shows "distinct (map alert_identity as) \<and> length as \<le> 13
    \<and> (\<forall>a \<in> set as. al_detector a \<in> set known_alert_kinds
        \<and> (al_auto_action a = ''none'' \<or> al_auto_action a = ''stop_service'')
        \<and> (al_auto_action a = ''stop_service'' \<longrightarrow>
             al_severity a = Critical \<and> al_detector a \<in> set auto_stop_alerts))"
proof -
  have "al_detector a \<in> set auto_stop_alerts" if "slot a \<in> set auto_stop_alerts" "al_detector a \<in> set known_alert_kinds" for a
    using that by (auto simp: slot_def auto_stop_alerts_def split: if_splits)
  then show ?thesis
    using poll_once_alerts [OF assms] by (auto simp: alert_ok_def split: if_splits)
qed

subsection \<open>Auto-stop\<close>

lemma alert_emit_kinds:
  assumes "current_newest (ck_month ck) m" "''event'' \<notin> dom p"
  shows "map (\<lambda>e. ev_get e ''event'') (tail_events (alert_emit ck can_write a kind p m)) =
      map (\<lambda>e. ev_get e ''event'') (tail_events m) @ (if can_write kind then [PStr kind] else [])"
    and "current_newest (ck_month ck) (alert_emit ck can_write a kind p m)"
proof -
  have "ev_get (event_payload ck kind ([''detector'' \<mapsto> d] ++ p)) ''event'' = PStr kind" for d
    using assms(2)
    by (auto simp: event_payload_def ev_get_def ev_get_or_def map_add_def domIff split: option.splits)
  then show "map (\<lambda>e. ev_get e ''event'') (tail_events (alert_emit ck can_write a kind p m)) =
      map (\<lambda>e. ev_get e ''event'') (tail_events m) @ (if can_write kind then [PStr kind] else [])"
    "current_newest (ck_month ck) (alert_emit ck can_write a kind p m)"
    using assms by (simp_all add: alert_emit_def emit_builtin_def log_simps)
qed

text \<open>C38: on_alert calls the stop exactly when the alert asks for it and its detector is allowed, whether or not its breadcrumb could be written; the verdict follows from how the stop ended, and a triggered breadcrumb is written only for a confirmed stop, a failed one only for a failed stop, none while draining.\<close>

theorem auto_stop_exact:
  assumes "current_newest (ck_month ck) l"
    and "on_alert h ck can_write oc allowed a l = (v, called, l')"
  shows "(called \<longleftrightarrow> al_auto_action a = ''stop_service''
           \<and> al_detector a \<in> set (case allowed of None \<Rightarrow> auto_stop_alerts | Some ns \<Rightarrow> ns))
    \<and> v = (if called then outcome_verdict oc else NoStop)
    \<and> map (\<lambda>e. ev_get e ''event'') (tail_events l') = map (\<lambda>e. ev_get e ''event'') (tail_events l)
        @ map PStr (filter can_write
            ([''monitor_alert_emitted'']
             @ (if v = Triggered then [''monitor_auto_stop_triggered''] else [])
             @ (if v = Failed then [''monitor_auto_stop_failed''] else [])))"
  using assms(2)
  by (auto simp: on_alert_def Let_def stop_then_record_def outcome_verdict_def alert_emit_kinds assms(1)
      split: if_splits prod.splits stop_outcome.splits option.splits)

subsection \<open>Silence is measured without the monitor's own events\<close>

definition self_event :: "event \<Rightarrow> bool" where
  "self_event e \<longleftrightarrow> (\<exists>k \<in> set monitor_self_kinds. is_kind e k)"

lemma supervised_self: "self_event e \<Longrightarrow> supervised_event e = Inr False"
  by (auto simp: self_event_def supervised_event_def is_kind_def)

lemma supervised_filter:
  "res_filter supervised_event evs = res_filter supervised_event (filter (\<lambda>e. \<not> self_event e) evs)"
proof (induction evs)
  case (Cons e evs)
  show ?case
  proof (cases "self_event e")
    case True
    have "res_bind r (\<lambda>ys. Inr ys) = r" for r :: "event list res" by (cases r) auto
    then show ?thesis using Cons True by (simp add: supervised_self)
  qed (use Cons in simp)
qed simp

lemma self_not_pause: "self_event e \<Longrightarrow> \<not> (stale_pause e \<or> stale_resume e)"
  by (auto simp: self_event_def monitor_self_kinds_def stale_pause_def stale_resume_def is_kind_def)

lemma find_filter_irrelevant:
  "(\<And>x. x \<in> set xs \<Longrightarrow> P x \<Longrightarrow> Q x) \<Longrightarrow> find P (filter Q xs) = find P xs"
  by (induction xs) auto

lemma latest_pause_filter:
  "latest_stale_pause_event evs = latest_stale_pause_event (filter (\<lambda>e. \<not> self_event e) evs)"
  unfolding latest_stale_pause_event_def rev_filter
  by (rule find_filter_irrelevant [symmetric]) (use self_not_pause in blast)

lemma stale_ignores_self:
  "detect_supervisor_stale stamp evs now t =
     detect_supervisor_stale stamp (filter (\<lambda>e. \<not> self_event e) evs) now t"
  unfolding detect_supervisor_stale_def pause_excuses_def
    supervised_filter [of evs] latest_pause_filter [of evs] ..

text \<open>Events a monitor writes itself never change the verdict of the stale-supervisor check, so a busy monitor cannot mask a dead supervisor.\<close>

theorem silence_not_masked:
  assumes "list_all self_event own"
  shows "detect_supervisor_stale stamp (evs @ own) now t = detect_supervisor_stale stamp evs now t"
proof -
  have "filter (\<lambda>e. \<not> self_event e) (evs @ own) = filter (\<lambda>e. \<not> self_event e) evs"
    using assms by (auto simp: list_all_iff filter_empty_conv)
  then show ?thesis using stale_ignores_self [of stamp "evs @ own" now t] stale_ignores_self [of stamp evs now t]
    by metis
qed

subsection \<open>Which round is hung\<close>

definition round_mark :: "int \<Rightarrow> event \<Rightarrow> bool" where
  "round_mark n e \<longleftrightarrow> (is_kind e ROUND_START \<or> is_kind e ROUND_END) \<and> ev_get e ''round_num'' = PInt n"

definition last_mark :: "event list \<Rightarrow> int \<Rightarrow> event option" where
  "last_mark evs n = find (round_mark n) (rev evs)"

definition started_rounds :: "event list \<Rightarrow> int set" where
  "started_rounds evs = {n. \<exists>e \<in> set evs. is_kind e ROUND_START \<and> ev_get e ''round_num'' = PInt n}"

text \<open>Round marks as the supervisor writes them: an integer round, a timestamp on a start.\<close>

definition marks_ok :: "event list \<Rightarrow> bool" where
  "marks_ok evs \<longleftrightarrow>
     (\<forall>e \<in> set evs. is_kind e ROUND_START \<or> is_kind e ROUND_END \<longrightarrow>
        (\<exists>n. ev_get e ''round_num'' = PInt n) \<and> (is_kind e ROUND_START \<longrightarrow> e ''ts'' \<noteq> None))"

lemma start_not_end: "is_kind e ROUND_START \<Longrightarrow> \<not> is_kind e ROUND_END"
  by (auto simp: is_kind_def)

lemma last_mark_snoc: "last_mark (evs @ [e]) n = (if round_mark n e then Some e else last_mark evs n)"
  by (simp add: last_mark_def)

lemma started_snoc:
  "started_rounds (evs @ [e]) = started_rounds evs \<union> {n. is_kind e ROUND_START \<and> ev_get e ''round_num'' = PInt n}"
  by (auto simp: started_rounds_def)

lemma finite_started: "finite (started_rounds evs)"
proof -
  have "finite {n. is_kind e ROUND_START \<and> ev_get e ''round_num'' = PInt n}" for e
    by (cases "ev_get e ''round_num''") auto
  moreover have "started_rounds evs = (\<Union>e \<in> set evs. {n. is_kind e ROUND_START \<and> ev_get e ''round_num'' = PInt n})"
    by (auto simp: started_rounds_def)
  ultimately show ?thesis by simp
qed

definition open_entry :: "event list \<Rightarrow> int \<Rightarrow> (pyval \<times> pyval) option" where
  "open_entry evs n =
     (case last_mark evs n of
        Some e \<Rightarrow> if is_kind e ROUND_START then Some (the (e ''ts''), ev_get e ''phase'') else None
      | None \<Rightarrow> None)"

definition scan_ok :: "event list \<Rightarrow> open_scan \<Rightarrow> bool" where
  "scan_ok evs st \<longleftrightarrow>
     (\<forall>n. os_open st (KNum (real_of_int n)) = open_entry evs n)
     \<and> os_highest st = (if started_rounds evs = {} then None else Some (PInt (Max (started_rounds evs))))"

lemma open_entry_snoc:
  "open_entry (evs @ [e]) n =
     (if round_mark n e
      then (if is_kind e ROUND_START then Some (the (e ''ts''), ev_get e ''phase'') else None)
      else open_entry evs n)"
  by (simp add: open_entry_def last_mark_snoc)

lemma py_max_int: "py_max (PInt a) [PInt b] = Inr (PInt (max a b))"
  by (simp add: py_lt_def pv_number_def max_def)

lemma open_step_ok:
  assumes "scan_ok evs st" and "marks_ok (evs @ [e])"
  shows "\<exists>st'. open_step e st = Inr st' \<and> scan_ok (evs @ [e]) st'"
proof -
  consider (start) n where "is_kind e ROUND_START" "ev_get e ''round_num'' = PInt n"
    | (fin) n where "is_kind e ROUND_END" "\<not> is_kind e ROUND_START" "ev_get e ''round_num'' = PInt n"
    | (other) "\<not> is_kind e ROUND_START" "\<not> is_kind e ROUND_END"
    using assms(2) start_not_end [of e] by (auto simp: marks_ok_def)
  then show ?thesis
  proof cases
    case start
    then obtain ts where ts: "e ''ts'' = Some ts" using assms(2) by (auto simp: marks_ok_def)
    have hi: "(case os_highest st of None \<Rightarrow> Inr (PInt n) | Some h \<Rightarrow> py_max h [PInt n]) =
        Inr (PInt (Max (started_rounds (evs @ [e]))))"
      using assms(1) start finite_started [of evs]
      by (auto simp: scan_ok_def started_snoc py_max_int max.commute simp del: py_max.simps)
    have "started_rounds (evs @ [e]) \<noteq> {}" using start by (auto simp: started_snoc)
    then show ?thesis
      using assms(1) start ts hi
      by (auto simp: open_step_def ev_item_def scan_ok_def open_entry_snoc round_mark_def)
  next
    case fin
    then have "started_rounds (evs @ [e]) = started_rounds evs" by (auto simp: started_snoc)
    then show ?thesis
      using assms(1) fin by (auto simp: open_step_def scan_ok_def open_entry_snoc round_mark_def)
  next
    case other
    then have "started_rounds (evs @ [e]) = started_rounds evs" by (auto simp: started_snoc)
    then show ?thesis
      using assms(1) other by (auto simp: open_step_def scan_ok_def open_entry_snoc round_mark_def)
  qed
qed

lemma open_rounds_append:
  "open_rounds (xs @ ys) st = res_bind (open_rounds xs st) (open_rounds ys)"
proof (induction xs arbitrary: st)
  case (Cons x xs)
  then show ?case by (cases "open_step x st") auto
qed simp

lemma open_rounds_ok:
  assumes "marks_ok evs"
  shows "\<exists>st. open_rounds evs open_start = Inr st \<and> scan_ok evs st"
  using assms
proof (induction evs rule: rev_induct)
  case Nil
  then show ?case by (auto simp: scan_ok_def open_start_def open_entry_def last_mark_def started_rounds_def)
next
  case (snoc e evs)
  have "marks_ok evs" using snoc.prems by (auto simp: marks_ok_def)
  with snoc.IH obtain st where st: "open_rounds evs open_start = Inr st" "scan_ok evs st" by blast
  obtain st' where st': "open_step e st = Inr st'" "scan_ok (evs @ [e]) st'"
    using open_step_ok [OF st(2) snoc.prems] by blast
  show ?case using st st' by (auto simp: open_rounds_append)
qed

text \<open>
  The detector fires exactly when the last mark of the highest started round is its start, that
  start is older than \<open>factor\<close> times the budget of its phase; nothing else in the log matters.
\<close>

definition hung_round :: "event list \<Rightarrow> int \<Rightarrow> real \<Rightarrow> int \<Rightarrow> (string \<rightharpoonup> phase_override) option \<Rightarrow> bool" where
  "hung_round evs now factor budget overrides \<longleftrightarrow>
     started_rounds evs \<noteq> {} \<and>
     (\<exists>e us timeout. last_mark evs (Max (started_rounds evs)) = Some e \<and> is_kind e ROUND_START
        \<and> parse_ts (the (e ''ts'')) = Inr (Aware us)
        \<and> phase_timeout overrides (ev_get e ''phase'') budget = Inr timeout
        \<and> real_of_int (now - us) / 1000000 > real_of_int timeout * factor)"

text \<open>The hung check fires exactly when the last mark of the highest started round is a start older than the factor times the budget of its phase.\<close>

theorem hung_exact:
  assumes "marks_ok evs"
  shows "(\<exists>a. detect_hung stamp evs now factor budget overrides = Inr (Some a))
    \<longleftrightarrow> hung_round evs now factor budget overrides"
proof -
  obtain st where st: "open_rounds evs open_start = Inr st" "scan_ok evs st"
    using open_rounds_ok [OF assms] by blast
  show ?thesis
  proof (cases "started_rounds evs = {}")
    case True
    then show ?thesis using st by (simp add: detect_hung_def scan_ok_def hung_round_def)
  next
    case False
    let ?n = "Max (started_rounds evs)"
    have h: "os_highest st = Some (PInt ?n)" "os_open st (KNum (real_of_int ?n)) = open_entry evs ?n"
      using st(2) False by (simp_all add: scan_ok_def)
    show ?thesis
    proof (cases "open_entry evs ?n")
      case None
      then show ?thesis using st(1) h
        by (auto simp: detect_hung_def hung_round_def open_entry_def split: option.splits if_splits)
    next
      case (Some p)
      then obtain e where e: "last_mark evs ?n = Some e" "is_kind e ROUND_START"
        "p = (the (e ''ts''), ev_get e ''phase'')"
        by (auto simp: open_entry_def split: option.splits if_splits)
      let ?p = "parse_ts (the (e ''ts''))" and ?t = "phase_timeout overrides (ev_get e ''phase'') budget"
      consider (err) x where "?p = Inl x" | (naive) us where "?p = Inr (Naive us)"
        | (noto) us x where "?p = Inr (Aware us)" "?t = Inl x"
        | (both) us k where "?p = Inr (Aware us)" "?t = Inr k"
        by (metis pydt.exhaust sum.exhaust)
      then show ?thesis using st(1) h Some e False
        by cases (simp_all add: detect_hung_def hung_round_def Let_def)
    qed
  qed
qed


subsection \<open>A monitored run on concrete observations\<close>

definition example_mon_host :: mon_host where
  "example_mon_host =
     \<lparr>mh_re_search = (\<lambda>p t. False), mh_safe_iso = (\<lambda>n. None), mh_err_text = (\<lambda>e. []), mh_msg_text = (\<lambda>m. [])\<rparr>"

definition disk_sample :: "real \<Rightarrow> metric" where
  "disk_sample pct = \<lparr>mt_ts = None, mt_vals = [''disk_used_pct'' \<mapsto> Some pct]\<rparr>"

definition example_poll :: "real \<Rightarrow> stop_outcome \<Rightarrow> poll_obs" where
  "example_poll pct oc =
     \<lparr>po_cfg = Some (example_config None PolicyWait), po_events = [], po_metrics = [disk_sample pct],
      po_tails = Map.empty, po_now = 0, po_clock = example_clock 0, po_stamp = (\<lambda>d. []),
      po_stop = (\<lambda>a. oc), po_can_write = (\<lambda>a k. False)\<rparr>"

definition example_disk_alert :: alert where
  "example_disk_alert =
     stopping (mk_alert (\<lambda>d. []) ''disk_critical'' Critical
       [Lit ''disk_used_pct '', Num 96, Lit '' >= '', Num 95]
       [(''value'', CNum 96), (''threshold'', CNum 95),
        (''hint'', CVal (PStr ''Stop and clean disk before resuming''))])"

definition example_start :: mon_state where
  "example_start = monitor_start (example_clock 0) False (example_config None PolicyWait) 30 []"

lemma example_poll_once:
  "poll_once example_mon_host (example_poll 96 oc) l = Some ([example_disk_alert], l)"
  "poll_once example_mon_host (example_poll 50 oc) l = Some ([], l)"
  by (simp_all add: poll_once_def example_poll_def example_mon_host_def run_all_detectors_def
      builtin_detectors_def Let_def run_detector_def poll_args_of_def example_config_def
      default_monitor_def default_host_health_def effective_stale_s_def
      detect_timeout_rate_def last_n_round_exits_def detect_hung_def open_start_def
      detect_orphan_chain_def orphan_rounds_def detect_disk_warning_def detect_disk_critical_def
      latest_def latest_ts_def disk_sample_def sample_of_def detect_disk_growth_def
      detect_mem_pressure_def latest_two_def new_mem_sample_keys_def detect_mem_pressure_gate_inert_def
      configured_gate_inert_def detect_oauth_fail_def auth_rounds_def detect_network_fail_def
      detect_rate_limit_active_def detect_anomaly_repetitive_active_def map_filter_simps
      detect_supervisor_stale_def example_disk_alert_def)

lemma example_identity: "alert_identity example_disk_alert = ''disk_critical''"
  by (simp add: alert_identity_def example_disk_alert_def alert_identity_fields_def)

lemma example_drains:
  "drains [''disk_critical''] (example_poll 96 oc) example_disk_alert \<longleftrightarrow> outcome_verdict oc = Draining"
  by (simp add: drains_def stop_verdict_def eligible_def example_disk_alert_def example_poll_def)

definition example_polls :: "poll_obs list" where
  "example_polls =
     [example_poll 96 (StopReturned PidFile True), example_poll 96 (StopReturned PidFile True),
      example_poll 96 (StopReturned PidFile False), example_poll 96 (StopReturned PidFile False)]"

lemma example_trace:
  "poll_trace example_mon_host al example_polls st = replicate 4 (Some [example_disk_alert])"
  by (simp add: example_polls_def example_poll_once numeral_eq_Suc)

theorem episode_reported_once_witness:
  "list_all (fires ''disk_critical'') (poll_trace example_mon_host [''disk_critical''] example_polls example_start)
   \<and> length (filter (\<lambda>a. alert_identity a = ''disk_critical'')
        (ms_yielded (monitor_run example_mon_host [''disk_critical''] example_polls example_start))) = 3"
proof -
  have f: "list_all (fires ''disk_critical'') (poll_trace example_mon_host [''disk_critical''] example_polls example_start)"
    by (simp add: example_trace fires_def example_identity numeral_eq_Suc)
  have d: "drains_key [''disk_critical''] ''disk_critical'' (example_poll 96 oc, Some [example_disk_alert])
      \<longleftrightarrow> outcome_verdict oc = Draining" for oc
    by (simp add: drains_key_def example_identity example_drains)
  note t = episode_reported_once [of "''disk_critical''" example_mon_host "[''disk_critical'']" example_polls
      "example_clock 0" False "example_config None PolicyWait" 30 "[]", folded example_start_def, OF f,
      unfolded example_trace]
  have "(let ps = zip example_polls (replicate 4 (Some [example_disk_alert]));
             draining = takeWhile (drains_key [''disk_critical''] ''disk_critical'') ps
         in if draining = ps then length example_polls else length draining + 1) = 3"
    by (simp add: example_polls_def numeral_eq_Suc d outcome_verdict_def)
  then show ?thesis using f unfolding t by (rule conjI [rotated])
qed

definition bad_exit :: event where
  "bad_exit = [''event'' \<mapsto> PStr AGENT_EXIT, ''round_num'' \<mapsto> PInt 1, ''duration_s'' \<mapsto> PStr ''soon'']"

definition bad_args :: poll_args where
  "bad_args = \<lparr>pa_events = [bad_exit], pa_metrics = [disk_sample 96], pa_tails = Map.empty,
     pa_round_budget_s = 1800, pa_stale_threshold_s = Some 0, pa_now = 0, pa_auth_patterns = [],
     pa_auth_hint = None, pa_overrides = None, pa_host_health = default_host_health\<rparr>"

lemma bad_args_eval:
  "alerts_of (builtin_detectors example_mon_host (\<lambda>d. []) bad_args) l = [example_disk_alert]"
  "crashes_of (builtin_detectors example_mon_host (\<lambda>d. []) bad_args) l =
     [(''oauth_fail'', TypeError), (''network_fail'', TypeError)]"
  by (simp_all add: alerts_of_def crashes_of_def bad_args_def bad_exit_def
      builtin_detectors_def Let_def default_host_health_def effective_stale_s_def is_kind_def ev_get_def ev_get_or_def
      detect_timeout_rate_def last_n_round_exits_def detect_hung_def open_start_def open_step_def
      detect_orphan_chain_def orphan_rounds_def detect_disk_warning_def detect_disk_critical_def
      latest_def latest_ts_def disk_sample_def sample_of_def detect_disk_growth_def
      detect_mem_pressure_def latest_two_def new_mem_sample_keys_def detect_mem_pressure_gate_inert_def
      configured_gate_inert_def detect_oauth_fail_def auth_rounds_def auth_match_def tail_evidence_def
      short_failed_exit_def py_or_def py_lt_def pv_number_def detect_network_fail_def
      detect_rate_limit_active_def detect_anomaly_repetitive_active_def py_sub_int_def anomaly_in_window_def
      detect_supervisor_stale_def supervised_event_def monitor_self_kinds_def example_disk_alert_def)

theorem detectors_isolated_witness:
  "current_newest (ck_month (example_clock 0)) [(ck_month (example_clock 0), [])]
   \<and> run_all_detectors example_mon_host (example_clock 0) (\<lambda>d. []) bad_args
       (Some [(ck_month (example_clock 0), [])]) =
     ([example_disk_alert],
      Some (record_crashes example_mon_host (example_clock 0)
              [(''oauth_fail'', TypeError), (''network_fail'', TypeError)] [(ck_month (example_clock 0), [])]))"
proof -
  have c: "current_newest (ck_month (example_clock 0)) [(ck_month (example_clock 0), [])]"
    by (simp add: current_newest_def)
  show ?thesis
    using c detectors_isolated [OF c, of example_mon_host "\<lambda>d. []" bad_args] by (simp add: bad_args_eval)
qed

theorem poll_alert_kinds_witness:
  "poll_once example_mon_host (example_poll 96 (StopRaised [])) [] = Some ([example_disk_alert], [])
   \<and> al_detector example_disk_alert \<in> set auto_stop_alerts"
proof -
  have "al_auto_action example_disk_alert = ''stop_service''" by (simp add: example_disk_alert_def)
  then show ?thesis
    using poll_alert_kinds [OF example_poll_once(1) [of "StopRaised []" "[]"]] example_poll_once(1) by simp
qed

theorem auto_stop_exact_witness:
  "\<exists>l'. on_alert example_mon_host (example_clock 0) (\<lambda>k. k \<noteq> ''monitor_alert_emitted'')
        (StopReturned SystemdUser True) None example_disk_alert [(ck_month (example_clock 0), [])] = (Failed, True, l')
     \<and> map (\<lambda>e. ev_get e ''event'') (tail_events l') = [PStr ''monitor_auto_stop_failed'']"
proof -
  let ?l = "[(ck_month (example_clock 0), [])]"
  have c: "current_newest (ck_month (example_clock 0)) ?l" by (simp add: current_newest_def)
  obtain v called l' where o: "on_alert example_mon_host (example_clock 0) (\<lambda>k. k \<noteq> ''monitor_alert_emitted'')
        (StopReturned SystemdUser True) None example_disk_alert ?l = (v, called, l')"
    by (metis prod_cases3)
  have t: "tail_events ?l = []"
    by (simp add: tail_events_def scan_def newest_month_files_def all_month_files_def Let_def)
  have k: "al_auto_action example_disk_alert = ''stop_service''"
    "al_detector example_disk_alert \<in> set auto_stop_alerts"
    by (simp_all add: example_disk_alert_def auto_stop_alerts_def)
  show ?thesis
    using auto_stop_exact [OF c o] o k t by (auto simp: outcome_verdict_def)
qed

definition old_round_end :: event where
  "old_round_end = [''event'' \<mapsto> PStr ROUND_END, ''round_num'' \<mapsto> PInt 1, ''ts'' \<mapsto> PStr ''1970-01-02T00:00:00Z'']"

definition own_alert_event :: event where
  "own_alert_event = [''event'' \<mapsto> PStr ''monitor_alert_emitted'', ''ts'' \<mapsto> PStr ''1970-01-02T23:59:00Z'']"

lemma old_ts: "parse_iso_ms ''1970-01-02T00:00:00Z'' = Inr (Aware 86400000000)"
  by code_simp

lemma old_end_stale:
  "\<exists>a. detect_supervisor_stale (\<lambda>d. []) [old_round_end] 172800000000 3600 = Inr (Some a)
     \<and> al_context a = [(''age_s'', CVal (PInt 86400)), (''threshold_s'', CVal (PInt 3600)),
         (''last_ts'', CVal (PStr ''1970-01-02T00:00:00Z''))]"
  by (simp add: detect_supervisor_stale_def supervised_event_def old_round_end_def ev_get_def ev_get_or_def
      monitor_self_kinds_def newest_ts_def map_filter_simps parse_ts_def old_ts pause_excuses_def
      latest_stale_pause_event_def stale_pause_def stale_resume_def is_kind_def py_trunc_def)

theorem silence_not_masked_witness:
  "\<exists>a. detect_supervisor_stale (\<lambda>d. []) [old_round_end, own_alert_event] 172800000000 3600 = Inr (Some a)
     \<and> al_context a = [(''age_s'', CVal (PInt 86400)), (''threshold_s'', CVal (PInt 3600)),
         (''last_ts'', CVal (PStr ''1970-01-02T00:00:00Z''))]"
proof -
  have own: "list_all self_event [own_alert_event]"
    by (simp add: self_event_def own_alert_event_def monitor_self_kinds_def is_kind_def ev_get_def ev_get_or_def)
  show ?thesis using silence_not_masked [OF own, of "\<lambda>d. []" "[old_round_end]"] old_end_stale by simp
qed

definition old_round_start :: event where
  "old_round_start = [''event'' \<mapsto> PStr ROUND_START, ''round_num'' \<mapsto> PInt 7, ''ts'' \<mapsto> PStr ''1970-01-02T00:00:00Z'']"

theorem hung_exact_witness:
  "marks_ok [old_round_end, old_round_start]
   \<and> (\<exists>a. detect_hung (\<lambda>d. []) [old_round_end, old_round_start] 90000000000 (3/2) 1800 None = Inr (Some a))"
proof -
  have m: "marks_ok [old_round_end, old_round_start]"
    by (auto simp: marks_ok_def old_round_end_def old_round_start_def is_kind_def ev_get_def ev_get_or_def)
  have s: "started_rounds [old_round_end, old_round_start] = {7}"
    by (auto simp: started_rounds_def old_round_end_def old_round_start_def is_kind_def ev_get_def ev_get_or_def)
  have l: "last_mark [old_round_end, old_round_start] 7 = Some old_round_start"
    by (simp add: last_mark_def round_mark_def old_round_start_def is_kind_def ev_get_def ev_get_or_def)
  have e: "is_kind old_round_start ROUND_START" "ev_get old_round_start ''phase'' = PNone"
    "parse_ts (the (old_round_start ''ts'')) = Inr (Aware 86400000000)"
    by (simp_all add: old_round_start_def is_kind_def ev_get_def ev_get_or_def parse_ts_def old_ts)
  have "hung_round [old_round_end, old_round_start] 90000000000 (3/2) 1800 None"
    by (simp add: hung_round_def s l e phase_timeout_def)
  then show ?thesis using m hung_exact [OF m] by blast
qed

end
