(* ===== verification/Config_Load.thy ===== *)
theory Config_Load
  imports Plugin_Manifest Monitor_Detect
begin

section \<open>Loading the configuration (agent\_runner/config/parsers.py, validators.py, loader.py)\<close>

text \<open>
  From the decoded TOML document to the typed configuration. A table is the list of its keys
  and values in document order (keys are distinct). Every rejection is \<open>ConfigError\<close> with the
  field and the reason, without the values the code interpolates into the text. What the
  parsers ask the host is a record of functions: whether a regular expression compiles, whether
  a zone name is known, \<open>expanduser\<close> and \<open>Path.resolve\<close>. A positive-float field set to
  infinity, which the code accepts, is rejected here: the configuration records hold reals.
\<close>

subsection \<open>Decoded TOML\<close>

datatype toml =
    TStr string
  | TInt int
  | TFloat real string
  | TNan
  | TInf bool
  | TBool bool
  | TDate string string
  | TArr "toml list"
  | TTab "(string \<times> toml) list"

type_synonym table = "(string \<times> toml) list"

text \<open>\<open>repr\<close> and \<open>str\<close>; a date carries both of its texts.\<close>

fun toml_repr :: "toml \<Rightarrow> string" where
  "toml_repr (TStr s) = repr_str s"
| "toml_repr (TInt n) = int_digits n"
| "toml_repr (TFloat x r) = r"
| "toml_repr TNan = ''nan''"
| "toml_repr (TInf neg) = (if neg then ''-inf'' else ''inf'')"
| "toml_repr (TBool b) = (if b then ''True'' else ''False'')"
| "toml_repr (TDate s r) = r"
| "toml_repr (TArr xs) = ''['' @ join '', '' (map toml_repr xs) @ '']''"
| "toml_repr (TTab kvs) =
     ''{'' @ join '', '' (map (\<lambda>kv. repr_str (fst kv) @ '': '' @ toml_repr (snd kv)) kvs) @ ''}''"

definition toml_str :: "toml \<Rightarrow> string" where
  "toml_str v = (case v of TStr s \<Rightarrow> s | TDate s r \<Rightarrow> s | _ \<Rightarrow> toml_repr v)"

definition tget :: "table \<Rightarrow> string \<Rightarrow> toml \<Rightarrow> toml" where
  "tget d k dflt = (case map_of d k of None \<Rightarrow> dflt | Some v \<Rightarrow> v)"

definition thas :: "table \<Rightarrow> string \<Rightarrow> bool" where
  "thas d k \<longleftrightarrow> map_of d k \<noteq> None"

text \<open>\<open>{**base, **sub}\<close>.\<close>

definition tmerge :: "table \<Rightarrow> table \<Rightarrow> table" where
  "tmerge base sub =
     map (\<lambda>(k, v). (k, tget sub k v)) base @ filter (\<lambda>(k, v). \<not> thas base k) sub"

subsection \<open>Validation primitives\<close>

record host_fns =
  hf_regex_ok :: "string \<Rightarrow> bool"
  hf_zone_ok :: "string \<Rightarrow> bool"
  hf_expanduser :: "string \<Rightarrow> string"
  hf_resolve :: "string \<Rightarrow> string"

definition cfg_err :: "string \<Rightarrow> string \<Rightarrow> 'a res" where
  "cfg_err fld reason = Inl (ConfigError (fld @ '': '' @ reason))"

text \<open>\<open>str.isprintable\<close> on Latin-1 text.\<close>

definition printable_char :: "char \<Rightarrow> bool" where
  "printable_char c \<longleftrightarrow> (let k = char_code c in 32 \<le> k \<and> \<not> (127 \<le> k \<and> k \<le> 160) \<and> k \<noteq> 173)"

definition reject_control_chars :: "string \<Rightarrow> string \<Rightarrow> unit res" where
  "reject_control_chars v fld =
     (if list_all printable_char v then Inr ()
      else cfg_err fld ''contains a control or non-printable character'')"

definition require_key :: "table \<Rightarrow> string \<Rightarrow> toml res" where
  "require_key d k = (case map_of d k of None \<Rightarrow> cfg_err k ''missing required field'' | Some v \<Rightarrow> Inr v)"

definition require_table :: "table \<Rightarrow> string \<Rightarrow> string \<Rightarrow> table res" where
  "require_table raw k label =
     (case map_of raw k of
        None \<Rightarrow> Inr []
      | Some (TTab d) \<Rightarrow> Inr d
      | Some v \<Rightarrow> cfg_err label ''must be a table'')"

definition reject_unknown_fields :: "table \<Rightarrow> string list \<Rightarrow> string \<Rightarrow> unit res" where
  "reject_unknown_fields d allowed label =
     (if list_all (\<lambda>kv. fst kv \<in> set allowed) d then Inr () else cfg_err label ''unknown field(s)'')"

definition is_absolute :: "string \<Rightarrow> bool" where
  "is_absolute p \<longleftrightarrow> p \<noteq> [] \<and> hd p = CHR ''/''"

definition expand_path :: "host_fns \<Rightarrow> string \<Rightarrow> string \<Rightarrow> string" where
  "expand_path hf s project = hf_expanduser hf (py_replace ''{project}'' project 0 s)"

definition resolve_against_work_dir :: "host_fns \<Rightarrow> string \<Rightarrow> string \<Rightarrow> string" where
  "resolve_against_work_dir hf p work_dir =
     (if is_absolute p then p else hf_resolve hf (work_dir @ ''/'' @ p))"

definition expand_and_resolve :: "host_fns \<Rightarrow> string \<Rightarrow> string \<Rightarrow> string \<Rightarrow> string" where
  "expand_and_resolve hf s project work_dir =
     resolve_against_work_dir hf (expand_path hf s project) work_dir"

definition require_positive_int :: "toml \<Rightarrow> string \<Rightarrow> int res" where
  "require_positive_int v fld =
     (case v of
        TInt n \<Rightarrow> if n \<le> 0 then cfg_err fld ''must be positive'' else Inr n
      | _ \<Rightarrow> cfg_err fld ''must be an integer'')"

definition require_bool :: "toml \<Rightarrow> string \<Rightarrow> bool res" where
  "require_bool v fld = (case v of TBool b \<Rightarrow> Inr b | _ \<Rightarrow> cfg_err fld ''must be a bool'')"

definition require_non_negative_int :: "toml \<Rightarrow> string \<Rightarrow> int res" where
  "require_non_negative_int v fld =
     (case v of
        TInt n \<Rightarrow> if n < 0 then cfg_err fld ''must be >= 0'' else Inr n
      | _ \<Rightarrow> cfg_err fld ''must be an integer'')"

definition require_str_list :: "toml \<Rightarrow> string \<Rightarrow> string list res" where
  "require_str_list v fld =
     (case v of
        TStr s \<Rightarrow> cfg_err fld ''must be a list, not a bare string''
      | TArr xs \<Rightarrow> Inr (map toml_str xs)
      | _ \<Rightarrow> cfg_err fld ''must be a list'')"

definition require_pct :: "toml \<Rightarrow> string \<Rightarrow> real res" where
  "require_pct v fld =
     (case v of
        TInt n \<Rightarrow> if 0 \<le> n \<and> n \<le> 100 then Inr (real_of_int n) else cfg_err fld ''must be between 0 and 100''
      | TFloat x r \<Rightarrow> if 0 \<le> x \<and> x \<le> 100 then Inr x else cfg_err fld ''must be between 0 and 100''
      | TNan \<Rightarrow> cfg_err fld ''must be between 0 and 100''
      | TInf neg \<Rightarrow> cfg_err fld ''must be between 0 and 100''
      | _ \<Rightarrow> cfg_err fld ''must be a number'')"

definition require_positive_pct :: "toml \<Rightarrow> string \<Rightarrow> real res" where
  "require_positive_pct v fld =
     res_bind (require_pct v fld) (\<lambda>x. if x \<le> 0 then cfg_err fld ''must be > 0'' else Inr x)"

definition require_positive_float :: "toml \<Rightarrow> string \<Rightarrow> real res" where
  "require_positive_float v fld =
     (case v of
        TInt n \<Rightarrow> if 0 < n then Inr (real_of_int n) else cfg_err fld ''must be positive''
      | TFloat x r \<Rightarrow> if 0 < x then Inr x else cfg_err fld ''must be positive''
      | TNan \<Rightarrow> cfg_err fld ''must be positive''
      | TInf neg \<Rightarrow> cfg_err fld ''must be positive''
      | _ \<Rightarrow> cfg_err fld ''must be a number'')"

definition regex_item :: "host_fns \<Rightarrow> string \<Rightarrow> toml \<Rightarrow> string res" where
  "regex_item hf fld v =
     (case v of
        TStr p \<Rightarrow> if hf_regex_ok hf p then Inr p else cfg_err fld ''invalid regex''
      | _ \<Rightarrow> cfg_err fld ''each pattern must be a string'')"

definition validate_regex_list :: "host_fns \<Rightarrow> toml \<Rightarrow> string \<Rightarrow> string list res" where
  "validate_regex_list hf v fld =
     (case v of
        TArr xs \<Rightarrow> res_map (regex_item hf fld) xs
      | _ \<Rightarrow> cfg_err fld ''expected a list of regex strings'')"

definition validate_sigterm_grace_s :: "toml \<Rightarrow> string \<Rightarrow> int res" where
  "validate_sigterm_grace_s v fld =
     res_bind (require_positive_int v fld) (\<lambda>n.
       if n > max_sigterm_grace_s then cfg_err fld ''above the cap'' else Inr n)"

definition max_brake_step_pct :: int where "max_brake_step_pct = 50"

definition validate_brake_step_pct :: "toml \<Rightarrow> string \<Rightarrow> int res" where
  "validate_brake_step_pct v fld =
     (case v of
        TInt n \<Rightarrow> if n < 0 then cfg_err fld ''must be >= 0''
                  else if n > max_brake_step_pct then cfg_err fld ''must be <= 50'' else Inr n
      | _ \<Rightarrow> cfg_err fld ''must be an integer'')"

subsection \<open>[agent]\<close>

definition agent_allowed_fields :: "string list" where
  "agent_allowed_fields =
     [''command'', ''prompt_arg_template'', ''name'', ''env'', ''prompt_delivery'', ''exec_prefix'',
      ''terminal_marker'', ''sigterm_grace_s'']"

definition default_terminal_marker :: string where
  "default_terminal_marker =
     [CHR 0x22] @ ''type'' @ [CHR 0x22, CHR '':'', CHR 0x22] @ ''result'' @ [CHR 0x22]"

fun is_infix_of :: "string \<Rightarrow> string \<Rightarrow> bool" where
  "is_infix_of sub [] \<longleftrightarrow> sub = []"
| "is_infix_of sub (c # cs) \<longleftrightarrow> take (length sub) (c # cs) = sub \<or> is_infix_of sub cs"

definition has_placeholder :: "string list \<Rightarrow> bool" where
  "has_placeholder tmpl \<longleftrightarrow> list_ex (is_infix_of ''{prompt}'') tmpl"

definition delivery_of :: "string \<Rightarrow> prompt_delivery option" where
  "delivery_of s = (if s = ''argv'' then Some Argv else if s = ''stdin'' then Some Stdin else None)"

text \<open>The cross-check of the delivery and the argv template.\<close>

definition check_delivery :: "string \<Rightarrow> prompt_delivery \<Rightarrow> string list \<Rightarrow> bool \<Rightarrow> unit res" where
  "check_delivery label delivery tmpl require_placeholder =
     (if delivery = Stdin \<and> has_placeholder tmpl
      then cfg_err label ''stdin delivery: remove {prompt} from prompt_arg_template''
      else if delivery = Argv \<and> require_placeholder \<and> \<not> has_placeholder tmpl
      then cfg_err label ''prompt_arg_template has no {prompt} placeholder''
      else Inr ())"

definition parse_agent :: "table \<Rightarrow> string \<Rightarrow> bool \<Rightarrow> agent_config res" where
  "parse_agent d label require_placeholder =
     res_bind (reject_unknown_fields d agent_allowed_fields label) (\<lambda>_.
     res_bind (require_key d ''prompt_arg_template'') (\<lambda>raw_tmpl.
     res_bind (require_str_list raw_tmpl (label @ '' prompt_arg_template'')) (\<lambda>tmpl.
     case delivery_of (toml_str (tget d ''prompt_delivery'' (TStr ''argv''))) of
       None \<Rightarrow> cfg_err label ''invalid prompt_delivery''
     | Some delivery \<Rightarrow>
     res_bind (check_delivery label delivery tmpl require_placeholder) (\<lambda>_.
     res_bind (require_key d ''command'') (\<lambda>raw_cmd.
     res_bind (require_str_list raw_cmd (label @ '' command'')) (\<lambda>command.
     if command = [] then cfg_err (label @ '' command'') ''must be a non-empty list'' else
     res_bind (require_table d ''env'' (label @ ''.env'')) (\<lambda>env.
     res_bind (require_str_list (tget d ''exec_prefix'' (TArr [])) (label @ '' exec_prefix'')) (\<lambda>prefix.
     res_bind (validate_sigterm_grace_s (tget d ''sigterm_grace_s'' (TInt default_sigterm_grace_s))
                 (label @ '' sigterm_grace_s'')) (\<lambda>grace.
       Inr \<lparr>ac_command = command, ac_prompt_arg_template = tmpl,
            ac_name = map_option toml_str (map_of d ''name''),
            ac_env = map_of (map (\<lambda>(k, v). (k, toml_str v)) env),
            ac_prompt_delivery = delivery, ac_exec_prefix = prefix,
            ac_terminal_marker = toml_str (tget d ''terminal_marker'' (TStr default_terminal_marker)),
            ac_sigterm_grace_s = grace\<rparr>)))))))))"

subsection \<open>[schedule]\<close>

definition schedule_allowed_fields :: "string list" where
  "schedule_allowed_fields = [''timezone'', ''run_windows'', ''pause_windows'']"

definition window_item :: "string \<Rightarrow> toml \<Rightarrow> window res" where
  "window_item fld w = (case parse_window (toml_str w) of Inr x \<Rightarrow> Inr x | Inl e \<Rightarrow> cfg_err fld ''bad window'')"

definition parse_window_list :: "table \<Rightarrow> string \<Rightarrow> string \<Rightarrow> window list res" where
  "parse_window_list d label key =
     (case tget d key (TArr []) of
        TArr ws \<Rightarrow> res_map (window_item (label @ ''.'' @ key)) ws
      | _ \<Rightarrow> cfg_err (label @ ''.'' @ key) ''must be a list of window strings'')"

definition parse_timezone :: "host_fns \<Rightarrow> table \<Rightarrow> string \<Rightarrow> string option res" where
  "parse_timezone hf d label =
     (case map_of d ''timezone'' of
        None \<Rightarrow> Inr None
      | Some v \<Rightarrow> if hf_zone_ok hf (toml_str v) then Inr (Some (toml_str v))
                   else cfg_err (label @ ''.timezone'') ''unknown IANA zone'')"

definition parse_schedule :: "host_fns \<Rightarrow> table \<Rightarrow> string \<Rightarrow> schedule_config res" where
  "parse_schedule hf d label =
     res_bind (reject_unknown_fields d schedule_allowed_fields label) (\<lambda>_.
     res_bind (parse_timezone hf d label) (\<lambda>tz.
     res_bind (parse_window_list d label ''run_windows'') (\<lambda>runs.
     res_bind (parse_window_list d label ''pause_windows'') (\<lambda>pauses.
       Inr \<lparr>sc_timezone = tz, sc_run_windows = runs, sc_pause_windows = pauses\<rparr>))))"

subsection \<open>[phases.<name>]\<close>

definition phase_override_allowed_fields :: "string list" where
  "phase_override_allowed_fields = [''round_budget_s'', ''prompt'', ''agent'', ''runtime'', ''schedule'']"

definition phase_runtime_allowed_fields :: "string list" where
  "phase_runtime_allowed_fields = [''round_budget_s'']"

definition phase_prompt_allowed_fields :: "string list" where
  "phase_prompt_allowed_fields = [''files'']"

text \<open>The nested \<open>runtime\<close> sub-table wins over the flat alias; giving both is an error.\<close>

definition phase_budget :: "table \<Rightarrow> string \<Rightarrow> int option res" where
  "phase_budget d label =
     res_bind (require_table d ''runtime'' (label @ ''.runtime'')) (\<lambda>rt.
     res_bind (reject_unknown_fields rt phase_runtime_allowed_fields (label @ ''.runtime'')) (\<lambda>_.
     if thas d ''round_budget_s'' \<and> thas rt ''round_budget_s''
     then cfg_err label ''set both the flat field and the runtime sub-table''
     else (case (map_of rt ''round_budget_s'', map_of d ''round_budget_s'') of
             (Some v, _) \<Rightarrow> res_bind (require_positive_int v (label @ ''.runtime.round_budget_s'')) (\<lambda>n. Inr (Some n))
           | (None, Some v) \<Rightarrow> res_bind (require_positive_int v (label @ ''.round_budget_s'')) (\<lambda>n. Inr (Some n))
           | (None, None) \<Rightarrow> Inr None)))"

definition phase_prompt_files :: "host_fns \<Rightarrow> table \<Rightarrow> string \<Rightarrow> string \<Rightarrow> string \<Rightarrow> string list option res" where
  "phase_prompt_files hf d label project work_dir =
     (case map_of d ''prompt'' of
        None \<Rightarrow> Inr None
      | Some (TTab p) \<Rightarrow>
          (case map_of p ''files'' of
             None \<Rightarrow> cfg_err (label @ ''.prompt'') ''must have a files list''
           | Some raw \<Rightarrow>
               res_bind (reject_unknown_fields p phase_prompt_allowed_fields (label @ ''.prompt'')) (\<lambda>_.
               res_bind (require_str_list raw (label @ ''.prompt.files'')) (\<lambda>files.
                 Inr (Some (map (\<lambda>s. expand_and_resolve hf s project work_dir) files)))))
      | Some v \<Rightarrow> cfg_err (label @ ''.prompt'') ''must have a files list'')"

definition phase_agent :: "table \<Rightarrow> table \<Rightarrow> string \<Rightarrow> bool \<Rightarrow> agent_config option res" where
  "phase_agent base d label sends_prompt =
     (case map_of d ''agent'' of
        None \<Rightarrow> Inr None
      | Some (TTab sub) \<Rightarrow>
          if thas sub ''exec_prefix'' then cfg_err (label @ ''.agent exec_prefix'') ''not allowed per-phase''
          else res_bind (parse_agent (tmerge base sub) (label @ ''.agent'') sends_prompt) (\<lambda>a. Inr (Some a))
      | Some v \<Rightarrow> cfg_err (label @ ''.agent'') ''must be a table'')"

definition phase_schedule :: "host_fns \<Rightarrow> table \<Rightarrow> string \<Rightarrow> schedule_config option res" where
  "phase_schedule hf d label =
     (case map_of d ''schedule'' of
        None \<Rightarrow> Inr None
      | Some (TTab sub) \<Rightarrow> res_bind (parse_schedule hf sub (label @ ''.schedule'')) (\<lambda>s. Inr (Some s))
      | Some v \<Rightarrow> cfg_err (label @ ''.schedule'') ''must be a table'')"

text \<open>
  One key of the \<open>[phases]\<close> table other than \<open>list\<close> and \<open>phase_policy\<close>. A \<open>runtime\<close> that is
  not a table and is not absent is rejected by the same check as everywhere else.
\<close>

definition parse_phase_override ::
  "host_fns \<Rightarrow> string list option \<Rightarrow> string \<Rightarrow> string \<Rightarrow> table \<Rightarrow> string \<times> toml
     \<Rightarrow> (string \<times> phase_override) res" where
  "parse_phase_override hf phases_list project work_dir agent_d kv =
     (case kv of (name, v) \<Rightarrow>
        let label = ''phases.'' @ name in
        case v of
          TTab d \<Rightarrow>
            if name \<notin> set (case phases_list of None \<Rightarrow> [] | Some ps \<Rightarrow> ps)
            then cfg_err label ''not in phases.list''
            else
              res_bind (reject_unknown_fields d phase_override_allowed_fields label) (\<lambda>_.
              res_bind (phase_budget d label) (\<lambda>budget.
              res_bind (phase_prompt_files hf d label project work_dir) (\<lambda>files.
              res_bind (phase_agent agent_d d label (files \<noteq> Some [])) (\<lambda>agent.
              res_bind (phase_schedule hf d label) (\<lambda>sched.
                Inr (name, \<lparr>ov_round_budget_s = budget, ov_prompt_files = files,
                            ov_agent = agent, ov_schedule = sched\<rparr>))))))
        | _ \<Rightarrow> cfg_err label ''must be a phase sub-table'')"

definition parse_phase_overrides ::
  "host_fns \<Rightarrow> table \<Rightarrow> string list option \<Rightarrow> string \<Rightarrow> string \<Rightarrow> table \<Rightarrow> (string \<times> phase_override) list res" where
  "parse_phase_overrides hf phases_d phases_list project work_dir agent_d =
     res_map (parse_phase_override hf phases_list project work_dir agent_d)
       (filter (\<lambda>kv. fst kv \<noteq> ''list'' \<and> fst kv \<noteq> ''phase_policy'') phases_d)"

subsection \<open>[goal]\<close>

definition goal_check_allowed_fields :: "string list" where
  "goal_check_allowed_fields = [''name'', ''cmd'', ''cwd'', ''timeout_s'']"

definition goal_allowed_fields :: "string list" where
  "goal_allowed_fields = [''ledger'', ''checks'']"

definition default_goal_check_timeout_s :: int where "default_goal_check_timeout_s = 10"

definition max_goal_check_timeout_s :: int where "max_goal_check_timeout_s = 30"

definition parse_goal_check :: "toml \<Rightarrow> goal_check_config res" where
  "parse_goal_check v =
     (case v of
        TTab d \<Rightarrow>
          res_bind (reject_unknown_fields d goal_check_allowed_fields ''goal.checks'') (\<lambda>_.
          res_bind (require_key d ''name'') (\<lambda>name.
          res_bind (require_key d ''cmd'') (\<lambda>raw.
          res_bind (require_str_list raw ''goal.checks.cmd'') (\<lambda>cmd.
          if cmd = [] then cfg_err ''goal.checks.cmd'' ''must be a non-empty list'' else
          res_bind (require_positive_int (tget d ''timeout_s'' (TInt default_goal_check_timeout_s))
                      ''goal.checks.timeout_s'') (\<lambda>timeout.
          if timeout > max_goal_check_timeout_s then cfg_err ''goal.checks.timeout_s'' ''above the cap''
          else Inr \<lparr>gc_name = toml_str name, gc_cmd = cmd,
                    gc_cwd = map_option toml_str (map_of d ''cwd''), gc_timeout_s = timeout\<rparr>)))))
      | _ \<Rightarrow> cfg_err ''goal.checks'' ''must be a table'')"

definition parse_goal :: "host_fns \<Rightarrow> table \<Rightarrow> string \<Rightarrow> string \<Rightarrow> goal_config res" where
  "parse_goal hf d project work_dir =
     res_bind (reject_unknown_fields d goal_allowed_fields ''goal'') (\<lambda>_.
     case tget d ''checks'' (TArr []) of
       TArr cs \<Rightarrow>
         res_bind (res_map parse_goal_check cs) (\<lambda>checks.
         res_bind (require_key d ''ledger'') (\<lambda>ledger.
           Inr \<lparr>go_ledger = expand_and_resolve hf (toml_str ledger) project work_dir, go_checks = checks\<rparr>))
     | _ \<Rightarrow> cfg_err ''goal.checks'' ''must be a list of tables'')"

subsection \<open>[runtime], [prompt], [vcs] and [plugins]\<close>

definition runtime_allowed_fields :: "string list" where
  "runtime_allowed_fields =
     [''work_dir'', ''log_dir'', ''round_budget_s'', ''restart_delay_s'', ''round_log_retention'',
      ''narrative_file'', ''transient_error_action'', ''max_rounds'', ''stop_file'',
      ''substrate_fingerprint_paths'', ''fresh_eyes_every_n'', ''dry_run'',
      ''max_grace_after_result_s'', ''grace_kill_ignore_patterns'']"

definition action_of :: "string \<Rightarrow> transient_error_action option" where
  "action_of s = (if s = ''back_off'' then Some BackOff else if s = ''skip'' then Some SkipAround
                  else if s = ''stop'' then Some StopServe else None)"

text \<open>An optional key: absent is \<open>None\<close>, present is parsed.\<close>

definition opt_key :: "table \<Rightarrow> string \<Rightarrow> (toml \<Rightarrow> 'a res) \<Rightarrow> 'a option res" where
  "opt_key d k parse = (case map_of d k of None \<Rightarrow> Inr None | Some v \<Rightarrow> res_bind (parse v) (\<lambda>x. Inr (Some x)))"

definition parse_fingerprint_paths :: "table \<Rightarrow> string list res" where
  "parse_fingerprint_paths d =
     (case tget d ''substrate_fingerprint_paths'' (TArr []) of
        TArr xs \<Rightarrow> Inr (map toml_str xs)
      | _ \<Rightarrow> cfg_err ''runtime.substrate_fingerprint_paths'' ''must be list of glob strings'')"

definition parse_fresh_eyes_every_n :: "table \<Rightarrow> int option res" where
  "parse_fresh_eyes_every_n d =
     opt_key d ''fresh_eyes_every_n'' (\<lambda>v. require_positive_int v ''runtime.fresh_eyes_every_n'')"

text \<open>The log directory: checked as written and again after resolution.\<close>

definition parse_log_dir :: "host_fns \<Rightarrow> table \<Rightarrow> string \<Rightarrow> string \<Rightarrow> string res" where
  "parse_log_dir hf d project work_dir =
     res_bind (require_key d ''log_dir'') (\<lambda>raw.
     res_bind (reject_control_chars (toml_str raw) ''runtime.log_dir'') (\<lambda>_.
       let p = expand_and_resolve hf (toml_str raw) project work_dir in
       res_bind (reject_control_chars p ''runtime.log_dir'') (\<lambda>_. Inr p)))"

definition parse_runtime :: "host_fns \<Rightarrow> table \<Rightarrow> string \<Rightarrow> string \<Rightarrow> runtime_config res" where
  "parse_runtime hf d project work_dir =
     (let path = (\<lambda>k. map_option (\<lambda>v. expand_and_resolve hf (toml_str v) project work_dir) (map_of d k)) in
     if thas d ''round_timeout_per_phase'' then cfg_err ''runtime.round_timeout_per_phase'' ''removed in 0.1.16''
     else if thas d ''rate_limit_action'' then cfg_err ''runtime.rate_limit_action'' ''was removed in 0.1.29'' else
     res_bind (reject_unknown_fields d runtime_allowed_fields ''runtime'') (\<lambda>_.
     case action_of (toml_str (tget d ''transient_error_action'' (TStr ''back_off''))) of
       None \<Rightarrow> cfg_err ''runtime.transient_error_action'' ''not in allowed values''
     | Some act \<Rightarrow>
     res_bind (parse_log_dir hf d project work_dir) (\<lambda>log_directory.
     res_bind (require_positive_int (tget d ''round_budget_s'' (TInt 1800)) ''runtime.round_budget_s'') (\<lambda>budget.
     res_bind (require_positive_int (tget d ''restart_delay_s'' (TInt 3)) ''runtime.restart_delay_s'') (\<lambda>delay.
     res_bind (require_non_negative_int (tget d ''round_log_retention'' (TInt 0)) ''runtime.round_log_retention'') (\<lambda>keep.
     res_bind (opt_key d ''max_rounds'' (\<lambda>v. require_positive_int v ''runtime.max_rounds'')) (\<lambda>rounds.
     res_bind (parse_fingerprint_paths d) (\<lambda>globs.
     res_bind (parse_fresh_eyes_every_n d) (\<lambda>fresh.
     res_bind (require_bool (tget d ''dry_run'' (TBool False)) ''runtime.dry_run'') (\<lambda>dry.
     res_bind (require_non_negative_int (tget d ''max_grace_after_result_s'' (TInt 0)) ''runtime.max_grace_after_result_s'') (\<lambda>grace.
     res_bind (validate_regex_list hf (tget d ''grace_kill_ignore_patterns'' (TArr [])) ''runtime.grace_kill_ignore_patterns'') (\<lambda>pats.
       Inr \<lparr>rt_work_dir = work_dir, rt_log_dir = log_directory, rt_round_budget_s = budget,
            rt_restart_delay_s = delay, rt_round_log_retention = keep, rt_narrative_file = path ''narrative_file'',
            rt_transient_error_action = act, rt_max_rounds = rounds, rt_stop_file = path ''stop_file'',
            rt_substrate_fingerprint_paths = globs, rt_fresh_eyes_every_n = fresh, rt_dry_run = dry,
            rt_max_grace_after_result_s = grace, rt_grace_kill_ignore_patterns = pats\<rparr>))))))))))))"

datatype injection_mode = Prepend | InjectFile | InjectNone

record prompt_config =
  pp_file :: "string option"
  pp_files :: "string list"
  pp_inject_context :: bool
  pp_mode :: injection_mode
  pp_separator :: string
  pp_strip_frontmatter :: bool

definition prompt_allowed_fields :: "string list" where
  "prompt_allowed_fields =
     [''file'', ''files'', ''inject_context'', ''context_injection_mode'', ''concat_separator'',
      ''strip_yaml_frontmatter'']"

text \<open>\<open>mode not in _VALID_INJECTION_MODES\<close> hashes the raw value: a list or table is a \<open>TypeError\<close>.\<close>

definition mode_of :: "toml \<Rightarrow> injection_mode res" where
  "mode_of v =
     (case v of
        TArr xs \<Rightarrow> Inl TypeError
      | TTab d \<Rightarrow> Inl TypeError
      | _ \<Rightarrow> if v = TStr ''prepend'' then Inr Prepend else if v = TStr ''file'' then Inr InjectFile
             else if v = TStr ''none'' then Inr InjectNone
             else cfg_err ''prompt.context_injection_mode'' ''not in allowed values'')"

definition parse_prompt_files :: "host_fns \<Rightarrow> table \<Rightarrow> string \<Rightarrow> string \<Rightarrow> string list res" where
  "parse_prompt_files hf d project work_dir =
     (case map_of d ''files'' of
        None \<Rightarrow> Inr []
      | Some v \<Rightarrow>
          res_bind (require_str_list v ''prompt.files'') (\<lambda>files.
            if files = [] then cfg_err ''prompt.files'' ''must be a non-empty list''
            else Inr (map (\<lambda>s. expand_and_resolve hf s project work_dir) files)))"

definition parse_prompt :: "host_fns \<Rightarrow> table \<Rightarrow> string \<Rightarrow> string \<Rightarrow> prompt_config res" where
  "parse_prompt hf d project work_dir =
     res_bind (reject_unknown_fields d prompt_allowed_fields ''prompt'') (\<lambda>_.
     res_bind (mode_of (tget d ''context_injection_mode'' (TStr ''prepend''))) (\<lambda>mode.
       if thas d ''file'' \<and> thas d ''files'' then cfg_err ''prompt'' ''set either file or files, not both''
       else if \<not> thas d ''file'' \<and> \<not> thas d ''files'' then cfg_err ''prompt'' ''missing file or files'' else
       res_bind (parse_prompt_files hf d project work_dir) (\<lambda>files.
       res_bind (require_bool (tget d ''inject_context'' (TBool True)) ''prompt.inject_context'') (\<lambda>inject.
       res_bind (require_bool (tget d ''strip_yaml_frontmatter'' (TBool True)) ''prompt.strip_yaml_frontmatter'') (\<lambda>strip.
         Inr \<lparr>pp_file = map_option (\<lambda>v. expand_and_resolve hf (toml_str v) project work_dir) (map_of d ''file''),
              pp_files = files, pp_inject_context = inject, pp_mode = mode,
              pp_separator = toml_str (tget d ''concat_separator'' (TStr [CHR 0x0A, CHR 0x0A])),
              pp_strip_frontmatter = strip\<rparr>)))))"

datatype dirty_action = StashDirty | IgnoreDirty | AutoCommit

record vcs_config =
  vc_stash_idempotency_s :: int
  vc_dirty_action :: dirty_action

definition dirty_of :: "string \<Rightarrow> dirty_action option" where
  "dirty_of s = (if s = ''stash'' then Some StashDirty else if s = ''ignore'' then Some IgnoreDirty
                 else if s = ''auto_commit'' then Some AutoCommit else None)"

definition parse_vcs :: "table \<Rightarrow> vcs_config res" where
  "parse_vcs d =
     (if thas d ''orphan_action'' then cfg_err ''vcs.orphan_action'' ''removed in 0.1.18'' else
      res_bind (reject_unknown_fields d [''stash_idempotency_s'', ''dirty_action''] ''vcs'') (\<lambda>_.
      case dirty_of (toml_str (tget d ''dirty_action'' (TStr ''stash''))) of
        None \<Rightarrow> cfg_err ''vcs.dirty_action'' ''not in allowed values''
      | Some act \<Rightarrow>
          res_bind (require_positive_int (tget d ''stash_idempotency_s'' (TInt 5)) ''vcs.stash_idempotency_s'') (\<lambda>n.
            Inr \<lparr>vc_stash_idempotency_s = n, vc_dirty_action = act\<rparr>)))"

definition parse_plugins :: "table \<Rightarrow> string list res" where
  "parse_plugins d =
     res_bind (reject_unknown_fields d [''disable''] ''plugins'') (\<lambda>_.
       (case map_of d ''disable'' of None \<Rightarrow> Inr [] | Some v \<Rightarrow> require_str_list v ''plugins.disable''))"

subsection \<open>[monitor]\<close>

definition monitor_allowed_fields :: "string list" where
  "monitor_allowed_fields =
     [''auth_fail_patterns'', ''auth_fail_hint'', ''auto_stop_on'', ''remote_failure_tolerance_s'',
      ''anomaly_repetitive_window'', ''anomaly_repetitive_threshold'', ''host_health'',
      ''round_progress_interval_s'', ''supervisor_stale_threshold_s'']"

definition host_health_allowed_fields :: "string list" where
  "host_health_allowed_fields = [''disk'', ''memory'', ''pressure'', ''brake'']"

definition disk_allowed_fields :: "string list" where
  "disk_allowed_fields =
     [''warning_pct'', ''critical_pct'', ''growth_window_s'', ''disk_growth_pct_per_hr_warning'',
      ''inode_growth_pct_per_hr_warning'']"

definition memory_allowed_fields :: "string list" where
  "memory_allowed_fields = [''avail_min_mb'', ''free_low_mb'', ''swap_out_noise_floor_mb'']"

definition pressure_allowed_fields :: "string list" where
  "pressure_allowed_fields =
     [''full_avg10_critical'', ''some_avg10_warning'', ''critical_consecutive_samples'',
      ''in_round_terminate'', ''cgroup_growth_rate_warning_mb_per_min'', ''in_round_nudge'']"

definition brake_allowed_fields :: "string list" where
  "brake_allowed_fields = [''memory_high'', ''memory_high_step_pct'', ''warning_consecutive_samples'']"

definition parse_disk :: "table \<Rightarrow> disk_config res" where
  "parse_disk d =
     res_bind (require_pct (tget d ''warning_pct'' (TInt 90)) ''monitor.host_health.disk.warning_pct'') (\<lambda>w.
     res_bind (require_pct (tget d ''critical_pct'' (TInt 95)) ''monitor.host_health.disk.critical_pct'') (\<lambda>c.
     res_bind (require_positive_int (tget d ''growth_window_s'' (TInt 1800)) ''monitor.host_health.disk.growth_window_s'') (\<lambda>g.
     res_bind (require_positive_float (tget d ''disk_growth_pct_per_hr_warning'' (TInt 5))
        ''monitor.host_health.disk.disk_growth_pct_per_hr_warning'') (\<lambda>dg.
     res_bind (require_positive_float (tget d ''inode_growth_pct_per_hr_warning'' (TInt 5))
        ''monitor.host_health.disk.inode_growth_pct_per_hr_warning'') (\<lambda>ig.
       Inr \<lparr>hd_warning_pct = w, hd_critical_pct = c, hd_growth_window_s = g,
            hd_disk_growth_pct_per_hr_warning = dg, hd_inode_growth_pct_per_hr_warning = ig\<rparr>)))))"

definition parse_memory :: "table \<Rightarrow> memory_config res" where
  "parse_memory d =
     res_bind (require_non_negative_int (tget d ''avail_min_mb'' (TInt 200)) ''monitor.host_health.memory.avail_min_mb'') (\<lambda>a.
     res_bind (require_positive_int (tget d ''free_low_mb'' (TInt 16)) ''monitor.host_health.memory.free_low_mb'') (\<lambda>f.
     res_bind (require_positive_int (tget d ''swap_out_noise_floor_mb'' (TInt 32))
        ''monitor.host_health.memory.swap_out_noise_floor_mb'') (\<lambda>s.
       Inr \<lparr>hm_avail_min_mb = a, hm_free_low_mb = f, hm_swap_out_noise_floor_mb = s\<rparr>)))"

definition parse_pressure :: "table \<Rightarrow> pressure_config res" where
  "parse_pressure d =
     res_bind (require_positive_pct (tget d ''full_avg10_critical'' (TInt 60))
        ''monitor.host_health.pressure.full_avg10_critical'') (\<lambda>full.
     res_bind (require_positive_pct (tget d ''some_avg10_warning'' (TInt 5))
        ''monitor.host_health.pressure.some_avg10_warning'') (\<lambda>avg.
     res_bind (require_positive_int (tget d ''critical_consecutive_samples'' (TInt 3))
        ''monitor.host_health.pressure.critical_consecutive_samples'') (\<lambda>k.
     res_bind (require_bool (tget d ''in_round_terminate'' (TBool True))
        ''monitor.host_health.pressure.in_round_terminate'') (\<lambda>term_on.
     res_bind (require_positive_float (tget d ''cgroup_growth_rate_warning_mb_per_min'' (TInt 512))
        ''monitor.host_health.pressure.cgroup_growth_rate_warning_mb_per_min'') (\<lambda>growth.
     res_bind (require_bool (tget d ''in_round_nudge'' (TBool False))
        ''monitor.host_health.pressure.in_round_nudge'') (\<lambda>nudge.
       Inr \<lparr>hp_full_avg10_critical = full, hp_some_avg10_warning = avg, hp_critical_consecutive_samples = k,
            hp_in_round_terminate = term_on, hp_cgroup_growth_rate_warning_mb_per_min = growth,
            hp_in_round_nudge = nudge\<rparr>))))))"

definition parse_brake :: "table \<Rightarrow> brake_config res" where
  "parse_brake d =
     res_bind (require_bool (tget d ''memory_high'' (TBool False)) ''monitor.host_health.brake.memory_high'') (\<lambda>m.
     res_bind (validate_brake_step_pct (tget d ''memory_high_step_pct'' (TInt 0))
        ''monitor.host_health.brake.memory_high_step_pct'') (\<lambda>s.
     res_bind (require_positive_int (tget d ''warning_consecutive_samples'' (TInt 3))
        ''monitor.host_health.brake.warning_consecutive_samples'') (\<lambda>w.
       Inr \<lparr>hb_memory_high = m, hb_memory_high_step_pct = s, hb_warning_consecutive_samples = w\<rparr>)))"

text \<open>A sub-table of \<open>[monitor.host_health]\<close> and its unknown-field check.\<close>

definition health_table :: "table \<Rightarrow> string \<Rightarrow> string list \<Rightarrow> table res" where
  "health_table hh k allowed =
     res_bind (require_table hh k (''monitor.host_health.'' @ k)) (\<lambda>d.
     res_bind (reject_unknown_fields d allowed (''monitor.host_health.'' @ k)) (\<lambda>_. Inr d))"

definition parse_host_health :: "table \<Rightarrow> host_health_config res" where
  "parse_host_health d =
     res_bind (require_table d ''host_health'' ''monitor.host_health'') (\<lambda>hh.
     res_bind (reject_unknown_fields hh host_health_allowed_fields ''monitor.host_health'') (\<lambda>_.
     res_bind (health_table hh ''disk'' disk_allowed_fields) (\<lambda>disk_d.
     res_bind (health_table hh ''memory'' memory_allowed_fields) (\<lambda>mem_d.
     res_bind (health_table hh ''pressure'' pressure_allowed_fields) (\<lambda>pres_d.
     res_bind (health_table hh ''brake'' brake_allowed_fields) (\<lambda>brake_d.
     res_bind (parse_disk disk_d) (\<lambda>disk.
     res_bind (parse_memory mem_d) (\<lambda>memory.
     res_bind (parse_pressure pres_d) (\<lambda>pressure.
     res_bind (parse_brake brake_d) (\<lambda>brake.
       Inr \<lparr>hh_disk = disk, hh_memory = memory, hh_pressure = pressure, hh_brake = brake\<rparr>))))))))))"

definition validate_remote_failure_tolerance :: "toml \<Rightarrow> int res" where
  "validate_remote_failure_tolerance v =
     res_bind (require_non_negative_int v ''monitor.remote_failure_tolerance_s'') (\<lambda>n.
       if n > 3600 then cfg_err ''monitor.remote_failure_tolerance_s'' ''must be <= 3600'' else Inr n)"

definition validate_auto_stop_on :: "toml \<Rightarrow> string list res" where
  "validate_auto_stop_on v =
     res_bind (require_str_list v ''monitor.auto_stop_on'') (\<lambda>names.
       if list_ex (\<lambda>n. take 4 n = ''goal'') names
       then cfg_err ''monitor.auto_stop_on'' ''goal-steering kinds are advisory-only'' else Inr names)"

text \<open>The detector that could never fire.\<close>

definition check_anomaly :: "int \<Rightarrow> int \<Rightarrow> unit res" where
  "check_anomaly window threshold =
     (if threshold > 0 \<and> window > 0 \<and> threshold > window
      then cfg_err ''monitor.anomaly_repetitive_threshold'' ''must be <= anomaly_repetitive_window'' else Inr ())"

definition parse_monitor :: "host_fns \<Rightarrow> table \<Rightarrow> monitor_config res" where
  "parse_monitor hf d =
     res_bind (reject_unknown_fields d monitor_allowed_fields ''monitor'') (\<lambda>_.
     res_bind (parse_host_health d) (\<lambda>hh.
     res_bind (validate_regex_list hf (tget d ''auth_fail_patterns'' (TArr (map TStr default_auth_patterns)))
        ''monitor.auth_fail_patterns'') (\<lambda>pats.
     res_bind (case map_of d ''auto_stop_on'' of
                 None \<Rightarrow> Inr auto_stop_alerts | Some v \<Rightarrow> validate_auto_stop_on v) (\<lambda>stops.
     res_bind (validate_remote_failure_tolerance (tget d ''remote_failure_tolerance_s'' (TInt 90))) (\<lambda>tol.
     res_bind (require_non_negative_int (tget d ''anomaly_repetitive_window'' (TInt 0))
        ''monitor.anomaly_repetitive_window'') (\<lambda>aw.
     res_bind (require_non_negative_int (tget d ''anomaly_repetitive_threshold'' (TInt 0))
        ''monitor.anomaly_repetitive_threshold'') (\<lambda>athr.
     res_bind (require_non_negative_int (tget d ''round_progress_interval_s'' (TInt 0))
        ''monitor.round_progress_interval_s'') (\<lambda>prog.
     res_bind (opt_key d ''supervisor_stale_threshold_s'' (\<lambda>v. require_non_negative_int v
        ''monitor.supervisor_stale_threshold_s'')) (\<lambda>stale.
     res_bind (check_anomaly aw athr) (\<lambda>_.
       Inr \<lparr>mo_auth_fail_patterns = pats, mo_auth_fail_hint = toml_str (tget d ''auth_fail_hint'' (TStr [])),
            mo_auto_stop_on = stops, mo_remote_failure_tolerance_s = tol,
            mo_anomaly_repetitive_window = aw, mo_anomaly_repetitive_threshold = athr,
            mo_host_health = hh, mo_round_progress_interval_s = prog,
            mo_supervisor_stale_threshold_s = stale\<rparr>))))))))))"

subsection \<open>The whole document\<close>

record full_config = config +
  cf_prompt :: prompt_config
  cf_vcs :: vcs_config
  cf_plugins_disable :: "string list"

definition base_config :: "full_config \<Rightarrow> config" where
  "base_config cfg = config.truncate cfg"

definition current_schema_version :: int where "current_schema_version = 1"

definition check_schema_version :: "table \<Rightarrow> unit res" where
  "check_schema_version raw =
     (case map_of raw ''schema_version'' of
        None \<Rightarrow> cfg_err ''schema_version'' ''config predates schema_version''
      | Some (TInt n) \<Rightarrow>
          if n > current_schema_version then cfg_err ''schema_version'' ''newer than supported''
          else if n < current_schema_version then cfg_err ''schema_version'' ''older than supported''
          else Inr ()
      | Some v \<Rightarrow> cfg_err ''schema_version'' ''must be an integer'')"

text \<open>
  \<open>runtime.work_dir\<close>: checked as written, expanded, anchored to the directory of the file,
  resolved and checked again.
\<close>

definition parse_work_dir :: "host_fns \<Rightarrow> string \<Rightarrow> table \<Rightarrow> string res" where
  "parse_work_dir hf toml_dir runtime_d =
     res_bind (require_key runtime_d ''work_dir'') (\<lambda>raw.
     res_bind (reject_control_chars (toml_str raw) ''runtime.work_dir'') (\<lambda>_.
       let p = expand_path hf (toml_str raw) [];
           q = (if is_absolute p then p else toml_dir @ ''/'' @ p);
           r = hf_resolve hf q in
       res_bind (reject_control_chars r ''runtime.work_dir'') (\<lambda>_. Inr r)))"

definition policy_of :: "string \<Rightarrow> phase_policy option" where
  "policy_of s = (if s = ''wait'' then Some PolicyWait else if s = ''skip'' then Some PolicySkip else None)"

definition parse_phases :: "host_fns \<Rightarrow> table \<Rightarrow> string \<Rightarrow> string \<Rightarrow> table \<Rightarrow> phases_config res" where
  "parse_phases hf raw project work_dir agent_d =
     res_bind (require_table raw ''phases'' ''phases'') (\<lambda>d.
     res_bind (opt_key d ''list'' (\<lambda>v. require_str_list v ''phases.list'')) (\<lambda>ps.
     case policy_of (toml_str (tget d ''phase_policy'' (TStr ''wait''))) of
       None \<Rightarrow> cfg_err ''phases.phase_policy'' ''not in allowed values''
     | Some policy \<Rightarrow>
         res_bind (parse_phase_overrides hf d ps project work_dir agent_d) (\<lambda>ovs.
           Inr \<lparr>pc_list = ps, pc_overrides = map_of ovs, pc_phase_policy = policy\<rparr>)))"

text \<open>Up to the construction of \<open>Config\<close>; the file has been read and decoded.\<close>

definition parse_config :: "host_fns \<Rightarrow> string \<Rightarrow> string \<Rightarrow> table \<Rightarrow> full_config res" where
  "parse_config hf toml_path toml_dir raw =
     res_bind (reject_control_chars toml_path ''config path'') (\<lambda>_.
     res_bind (check_schema_version raw) (\<lambda>_.
     res_bind (require_table raw ''agent'' ''agent'') (\<lambda>agent_d.
     res_bind (parse_agent agent_d ''agent'' True) (\<lambda>agent.
     res_bind (require_table raw ''runtime'' ''runtime'') (\<lambda>runtime_d.
     res_bind (parse_work_dir hf toml_dir runtime_d) (\<lambda>work_dir.
       let project = (if path_name work_dir = [] then ''default'' else path_name work_dir) in
     res_bind (parse_phases hf raw project work_dir agent_d) (\<lambda>phases.
     res_bind (parse_runtime hf runtime_d project work_dir) (\<lambda>runtime.
     res_bind (require_table raw ''prompt'' ''prompt'') (\<lambda>prompt_d.
     res_bind (parse_prompt hf prompt_d project work_dir) (\<lambda>prompt.
     res_bind (require_table raw ''vcs'' ''vcs'') (\<lambda>vcs_d.
     res_bind (parse_vcs vcs_d) (\<lambda>vcs.
     res_bind (require_table raw ''monitor'' ''monitor'') (\<lambda>monitor_d.
     res_bind (parse_monitor hf monitor_d) (\<lambda>monitor.
     res_bind (require_table raw ''plugins'' ''plugins'') (\<lambda>plugins_d.
     res_bind (parse_plugins plugins_d) (\<lambda>disable.
     res_bind (require_table raw ''schedule'' ''schedule'') (\<lambda>schedule_d.
     res_bind (parse_schedule hf schedule_d ''schedule'') (\<lambda>sched.
     res_bind (opt_key raw ''goal'' (\<lambda>v.
        res_bind (require_table raw ''goal'' ''goal'') (\<lambda>goal_d. parse_goal hf goal_d project work_dir))) (\<lambda>goal.
       Inr \<lparr>cf_agent = agent, cf_runtime = runtime, cf_monitor = monitor, cf_phases = phases,
            cf_schedule = sched, cf_goal = goal, cf_prompt = prompt, cf_vcs = vcs,
            cf_plugins_disable = disable\<rparr>)))))))))))))))))))"

subsection \<open>Boot refusals on the assembled configuration\<close>

definition static_flag_in :: "registries \<Rightarrow> agent_config \<Rightarrow> bool" where
  "static_flag_in rg a =
     (case resolve_resume_flag rg (agent_binary a) of
        None \<Rightarrow> False
      | Some flag \<Rightarrow> flag \<in> set (ac_command a) \<or> flag \<in> set (ac_prompt_arg_template a))"

text \<open>The phases of the table, in document order, with the agent each overrides.\<close>

definition reject_static_resume_flag :: "registries \<Rightarrow> full_config \<Rightarrow> string list \<Rightarrow> unit res" where
  "reject_static_resume_flag rg cfg override_names =
     (let agents = cf_agent cfg # List.map_filter (\<lambda>p.
            case pc_overrides (cf_phases cfg) p of None \<Rightarrow> None | Some ov \<Rightarrow> ov_agent ov) override_names
      in if list_ex (static_flag_in rg) agents
         then cfg_err ''agent'' ''command already contains the resume flag'' else Inr ())"

text \<open>\<open>files.index(ledger)\<close> is 0, or the ledger is not listed.\<close>

definition ledger_misplaced :: "string \<Rightarrow> string list \<Rightarrow> bool" where
  "ledger_misplaced ledger files \<longleftrightarrow> ledger \<notin> set files \<or> hd files = ledger"

definition effective_prompt_files :: "full_config \<Rightarrow> string option \<Rightarrow> string list" where
  "effective_prompt_files cfg phase =
     (case pr_prompt_files (profile_for (base_config cfg) phase) of
        Some fs \<Rightarrow> fs | None \<Rightarrow> pp_files (cf_prompt cfg))"

definition reject_goal_ledger_not_listed :: "full_config \<Rightarrow> unit res" where
  "reject_goal_ledger_not_listed cfg =
     (case cf_goal cfg of
        None \<Rightarrow> Inr ()
      | Some g \<Rightarrow>
          (let names = (case pc_list (cf_phases cfg) of
                          None \<Rightarrow> [None] | Some ps \<Rightarrow> if ps = [] then [None] else map Some ps)
           in if list_ex (\<lambda>p. ledger_misplaced (go_ledger g) (effective_prompt_files cfg p)) names
              then cfg_err ''goal.ledger'' ''not listed at index >= 1'' else Inr ()))"

definition path_parts :: "string \<Rightarrow> string list" where
  "path_parts p = filter (\<lambda>c. c \<noteq> []) (py_split (CHR ''/'') p)"

definition is_relative_to :: "string \<Rightarrow> string \<Rightarrow> bool" where
  "is_relative_to p q \<longleftrightarrow> take (length (path_parts q)) (path_parts p) = path_parts q"

definition reject_goal_ledger_in_stash_swept_tree :: "host_fns \<Rightarrow> full_config \<Rightarrow> unit res" where
  "reject_goal_ledger_in_stash_swept_tree hf cfg =
     (case cf_goal cfg of
        None \<Rightarrow> Inr ()
      | Some g \<Rightarrow>
          (let ledger = hf_resolve hf (go_ledger g);
               work_dir = hf_resolve hf (rt_work_dir (cf_runtime cfg));
               log_directory = hf_resolve hf (rt_log_dir (cf_runtime cfg))
           in if is_relative_to ledger work_dir \<and> \<not> is_relative_to ledger log_directory
              then cfg_err ''goal.ledger'' ''would be stashed as orphan work'' else Inr ()))"

text \<open>The warning of \<open>_warn_goal_checks_budget_disarms_fast_spin\<close>.\<close>

definition goal_checks_warn :: "full_config \<Rightarrow> bool" where
  "goal_checks_warn cfg =
     (case cf_goal cfg of None \<Rightarrow> False | Some g \<Rightarrow> real_of_int (checks_allowance_s g) \<ge> no_progress_short_s)"

text \<open>
  \<open>load_config\<close> on a decoded document: the configuration, the registries after the plugins were
  loaded and disabled, and whether it warned. \<open>override_names\<close> of the static-flag check are the
  sub-tables of \<open>[phases]\<close>.
\<close>

definition override_names :: "table \<Rightarrow> string list" where
  "override_names raw =
     (case map_of raw ''phases'' of
        Some (TTab d) \<Rightarrow> filter (\<lambda>k. k \<noteq> ''list'' \<and> k \<noteq> ''phase_policy'') (map fst d)
      | _ \<Rightarrow> [])"

definition load_config ::
  "host_fns \<Rightarrow> (string \<Rightarrow> string \<Rightarrow> manifest res) \<Rightarrow> (string \<times> string) list \<Rightarrow> registries
     \<Rightarrow> string \<Rightarrow> string \<Rightarrow> table \<Rightarrow> (full_config \<times> registries \<times> bool) res" where
  "load_config hf resolve entries rg toml_path toml_dir raw =
     res_bind (parse_config hf toml_path toml_dir raw) (\<lambda>cfg.
       let disable = cf_plugins_disable cfg;
           (rg1, warned) = load_and_register_plugins resolve entries disable rg;
           (rg2, disabled, unknown) = apply_plugin_disable disable rg1 []
       in res_bind (reject_static_resume_flag rg2 cfg (override_names raw)) (\<lambda>_.
          res_bind (reject_goal_ledger_not_listed cfg) (\<lambda>_.
          res_bind (reject_goal_ledger_in_stash_swept_tree hf cfg) (\<lambda>_.
            Inr (cfg, rg2, goal_checks_warn cfg)))))"

subsection \<open>What the primitives accept\<close>

named_theorems parse_simps \<open>inversion of the parsers: what an accepted value looks like\<close>

lemma cfg_err_iff [simp]: "cfg_err f r = Inr x \<longleftrightarrow> False" "Inr x = cfg_err f r \<longleftrightarrow> False"
  by (simp_all add: cfg_err_def)

lemma res_bind_guard:
  "res_bind r (\<lambda>x. if P x then cfg_err a b else Inr x) = Inr y \<longleftrightarrow> r = Inr y \<and> \<not> P y"
  by (cases r) auto

lemmas bind_simps = res_bind_guard res_bind_Inr_iff

lemma require_positive_int_iff [parse_simps]:
  "require_positive_int v f = Inr n \<longleftrightarrow> v = TInt n \<and> 0 < n"
  by (auto simp: require_positive_int_def split: toml.splits)

lemma require_non_negative_int_iff [parse_simps]:
  "require_non_negative_int v f = Inr n \<longleftrightarrow> v = TInt n \<and> 0 \<le> n"
  by (auto simp: require_non_negative_int_def split: toml.splits)

lemma require_bool_iff [parse_simps]: "require_bool v f = Inr b \<longleftrightarrow> v = TBool b"
  by (auto simp: require_bool_def split: toml.splits)

lemma require_str_list_iff [parse_simps]:
  "require_str_list v f = Inr ss \<longleftrightarrow> (\<exists>xs. v = TArr xs \<and> ss = map toml_str xs)"
  by (auto simp: require_str_list_def split: toml.splits)

definition toml_num :: "toml \<Rightarrow> real option" where
  "toml_num v = (case v of TInt n \<Rightarrow> Some (real_of_int n) | TFloat x r \<Rightarrow> Some x | _ \<Rightarrow> None)"

lemma require_pct_iff [parse_simps]:
  "require_pct v f = Inr x \<longleftrightarrow> toml_num v = Some x \<and> 0 \<le> x \<and> x \<le> 100"
  by (auto simp: require_pct_def toml_num_def split: toml.splits)

lemma require_positive_pct_iff [parse_simps]:
  "require_positive_pct v f = Inr x \<longleftrightarrow> toml_num v = Some x \<and> 0 < x \<and> x \<le> 100"
  by (auto simp: require_positive_pct_def res_bind_guard parse_simps)

lemma require_positive_float_iff [parse_simps]:
  "require_positive_float v f = Inr x \<longleftrightarrow> toml_num v = Some x \<and> 0 < x"
  by (auto simp: require_positive_float_def toml_num_def split: toml.splits)

lemma validate_sigterm_iff [parse_simps]:
  "validate_sigterm_grace_s v f = Inr n \<longleftrightarrow> v = TInt n \<and> 0 < n \<and> n \<le> max_sigterm_grace_s"
  by (auto simp: validate_sigterm_grace_s_def res_bind_guard parse_simps)

lemma validate_brake_iff [parse_simps]:
  "validate_brake_step_pct v f = Inr n \<longleftrightarrow> v = TInt n \<and> 0 \<le> n \<and> n \<le> max_brake_step_pct"
  by (auto simp: validate_brake_step_pct_def split: toml.splits)

lemma regex_item_iff [parse_simps]: "regex_item hf f v = Inr p \<longleftrightarrow> v = TStr p \<and> hf_regex_ok hf p"
  by (auto simp: regex_item_def split: toml.splits)

lemma res_map_from:
  "res_map f xs = Inr ys \<Longrightarrow> y \<in> set ys \<Longrightarrow> \<exists>x \<in> set xs. f x = Inr y"
  by (induction xs arbitrary: ys) (auto simp: res_bind_Inr_iff)

lemma res_map_regex:
  "res_map (regex_item hf f) xs = Inr ps \<longleftrightarrow> xs = map TStr ps \<and> list_all (hf_regex_ok hf) ps"
proof (induction xs arbitrary: ps)
  case (Cons x xs)
  then show ?case by (cases ps) (auto simp: res_bind_Inr_iff regex_item_iff)
qed auto

lemma validate_regex_list_iff [parse_simps]:
  "validate_regex_list hf v f = Inr ps \<longleftrightarrow> v = TArr (map TStr ps) \<and> list_all (hf_regex_ok hf) ps"
  by (auto simp: validate_regex_list_def res_map_regex split: toml.splits)

lemma reject_unknown_iff [parse_simps]:
  "reject_unknown_fields d allowed l = Inr u \<longleftrightarrow> set (map fst d) \<subseteq> set allowed"
  by (auto simp: reject_unknown_fields_def list_all_iff)

lemma require_key_iff [parse_simps]: "require_key d k = Inr v \<longleftrightarrow> map_of d k = Some v"
  by (auto simp: require_key_def split: option.splits)

lemma reject_control_iff [parse_simps]:
  "reject_control_chars s f = Inr u \<longleftrightarrow> list_all printable_char s"
  by (simp add: reject_control_chars_def)

lemma opt_key_iff [parse_simps]:
  "opt_key d k p = Inr r \<longleftrightarrow> (case map_of d k of None \<Rightarrow> r = None | Some v \<Rightarrow> \<exists>x. p v = Inr x \<and> r = Some x)"
  by (auto simp: opt_key_def bind_simps split: option.splits)

subsection \<open>Well-formed configurations\<close>

definition wf_health :: "host_health_config \<Rightarrow> bool" where
  "wf_health h \<longleftrightarrow>
     (let d = hh_disk h; m = hh_memory h; p = hh_pressure h; b = hh_brake h in
      0 \<le> hd_warning_pct d \<and> hd_warning_pct d \<le> 100 \<and> 0 \<le> hd_critical_pct d \<and> hd_critical_pct d \<le> 100
      \<and> 0 < hd_growth_window_s d \<and> 0 < hd_disk_growth_pct_per_hr_warning d
      \<and> 0 < hd_inode_growth_pct_per_hr_warning d
      \<and> 0 \<le> hm_avail_min_mb m \<and> 0 < hm_free_low_mb m \<and> 0 < hm_swap_out_noise_floor_mb m
      \<and> 0 < hp_full_avg10_critical p \<and> hp_full_avg10_critical p \<le> 100
      \<and> 0 < hp_some_avg10_warning p \<and> hp_some_avg10_warning p \<le> 100
      \<and> 0 < hp_critical_consecutive_samples p \<and> 0 < hp_cgroup_growth_rate_warning_mb_per_min p
      \<and> 0 \<le> hb_memory_high_step_pct b \<and> hb_memory_high_step_pct b \<le> max_brake_step_pct
      \<and> 0 < hb_warning_consecutive_samples b)"

definition goal_free :: "string list \<Rightarrow> bool" where
  "goal_free names \<longleftrightarrow> (\<forall>n \<in> set names. take 4 n \<noteq> ''goal'')"

definition wf_monitor :: "host_fns \<Rightarrow> monitor_config \<Rightarrow> bool" where
  "wf_monitor hf m \<longleftrightarrow>
     wf_health (mo_host_health m) \<and> list_all (hf_regex_ok hf) (mo_auth_fail_patterns m)
     \<and> goal_free (mo_auto_stop_on m)
     \<and> 0 \<le> mo_remote_failure_tolerance_s m \<and> mo_remote_failure_tolerance_s m \<le> 3600
     \<and> 0 \<le> mo_anomaly_repetitive_window m \<and> 0 \<le> mo_anomaly_repetitive_threshold m
     \<and> (mo_anomaly_repetitive_window m = 0 \<or> mo_anomaly_repetitive_threshold m \<le> mo_anomaly_repetitive_window m)
     \<and> 0 \<le> mo_round_progress_interval_s m
     \<and> (case mo_supervisor_stale_threshold_s m of None \<Rightarrow> True | Some s \<Rightarrow> 0 \<le> s)"

definition wf_agent :: "bool \<Rightarrow> agent_config \<Rightarrow> bool" where
  "wf_agent needs_prompt a \<longleftrightarrow>
     ac_command a \<noteq> [] \<and> 0 < ac_sigterm_grace_s a \<and> ac_sigterm_grace_s a \<le> max_sigterm_grace_s
     \<and> (ac_prompt_delivery a = Stdin \<longrightarrow> \<not> has_placeholder (ac_prompt_arg_template a))
     \<and> (ac_prompt_delivery a = Argv \<and> needs_prompt \<longrightarrow> has_placeholder (ac_prompt_arg_template a))"

definition wf_schedule :: "host_fns \<Rightarrow> schedule_config \<Rightarrow> bool" where
  "wf_schedule hf s \<longleftrightarrow>
     (case sc_timezone s of None \<Rightarrow> True | Some z \<Rightarrow> hf_zone_ok hf z)
     \<and> (\<forall>w \<in> set (sc_run_windows s) \<union> set (sc_pause_windows s). wf_window w)"

definition wf_override :: "host_fns \<Rightarrow> string list \<Rightarrow> phase_override \<Rightarrow> bool" where
  "wf_override hf base_prefix ov \<longleftrightarrow>
     (case ov_round_budget_s ov of None \<Rightarrow> True | Some n \<Rightarrow> 0 < n)
     \<and> (case ov_agent ov of
          None \<Rightarrow> True
        | Some a \<Rightarrow> wf_agent (ov_prompt_files ov \<noteq> Some []) a \<and> ac_exec_prefix a = base_prefix)
     \<and> (case ov_schedule ov of None \<Rightarrow> True | Some s \<Rightarrow> wf_schedule hf s)"

definition wf_goal :: "goal_config \<Rightarrow> bool" where
  "wf_goal g \<longleftrightarrow>
     (\<forall>c \<in> set (go_checks g). gc_cmd c \<noteq> [] \<and> 0 < gc_timeout_s c \<and> gc_timeout_s c \<le> max_goal_check_timeout_s)"

definition wf_runtime :: "host_fns \<Rightarrow> runtime_config \<Rightarrow> bool" where
  "wf_runtime hf r \<longleftrightarrow>
     0 < rt_round_budget_s r \<and> 0 < rt_restart_delay_s r \<and> 0 \<le> rt_round_log_retention r
     \<and> (case rt_max_rounds r of None \<Rightarrow> True | Some n \<Rightarrow> 0 < n)
     \<and> (case rt_fresh_eyes_every_n r of None \<Rightarrow> True | Some n \<Rightarrow> 0 < n)
     \<and> 0 \<le> rt_max_grace_after_result_s r \<and> list_all (hf_regex_ok hf) (rt_grace_kill_ignore_patterns r)
     \<and> list_all printable_char (rt_log_dir r) \<and> list_all printable_char (rt_work_dir r)"

definition wf_prompt :: "prompt_config \<Rightarrow> bool" where
  "wf_prompt p \<longleftrightarrow> (pp_file p = None) \<noteq> (pp_files p = [])"

definition wf_config :: "host_fns \<Rightarrow> full_config \<Rightarrow> bool" where
  "wf_config hf cfg \<longleftrightarrow>
     wf_agent True (cf_agent cfg) \<and> wf_runtime hf (cf_runtime cfg) \<and> wf_monitor hf (cf_monitor cfg)
     \<and> wf_schedule hf (cf_schedule cfg) \<and> wf_prompt (cf_prompt cfg)
     \<and> 0 < vc_stash_idempotency_s (cf_vcs cfg)
     \<and> (case cf_goal cfg of None \<Rightarrow> True | Some g \<Rightarrow> wf_goal g)
     \<and> (\<forall>p ov. pc_overrides (cf_phases cfg) p = Some ov \<longrightarrow>
          p \<in> set (case pc_list (cf_phases cfg) of None \<Rightarrow> [] | Some ps \<Rightarrow> ps)
          \<and> wf_override hf (ac_exec_prefix (cf_agent cfg)) ov)"

subsection \<open>Every accepted document is a well-formed configuration\<close>

lemma parse_disk_iff [parse_simps]:
  "parse_disk d = Inr c \<longleftrightarrow>
     toml_num (tget d ''warning_pct'' (TInt 90)) = Some (hd_warning_pct c) \<and> 0 \<le> hd_warning_pct c \<and> hd_warning_pct c \<le> 100
     \<and> toml_num (tget d ''critical_pct'' (TInt 95)) = Some (hd_critical_pct c) \<and> 0 \<le> hd_critical_pct c \<and> hd_critical_pct c \<le> 100
     \<and> tget d ''growth_window_s'' (TInt 1800) = TInt (hd_growth_window_s c) \<and> 0 < hd_growth_window_s c
     \<and> toml_num (tget d ''disk_growth_pct_per_hr_warning'' (TInt 5)) = Some (hd_disk_growth_pct_per_hr_warning c)
     \<and> 0 < hd_disk_growth_pct_per_hr_warning c
     \<and> toml_num (tget d ''inode_growth_pct_per_hr_warning'' (TInt 5)) = Some (hd_inode_growth_pct_per_hr_warning c)
     \<and> 0 < hd_inode_growth_pct_per_hr_warning c"
  by (cases c) (auto simp: parse_disk_def bind_simps parse_simps)

lemma parse_memory_iff [parse_simps]:
  "parse_memory d = Inr c \<longleftrightarrow>
     tget d ''avail_min_mb'' (TInt 200) = TInt (hm_avail_min_mb c) \<and> 0 \<le> hm_avail_min_mb c
     \<and> tget d ''free_low_mb'' (TInt 16) = TInt (hm_free_low_mb c) \<and> 0 < hm_free_low_mb c
     \<and> tget d ''swap_out_noise_floor_mb'' (TInt 32) = TInt (hm_swap_out_noise_floor_mb c) \<and> 0 < hm_swap_out_noise_floor_mb c"
  by (cases c) (auto simp: parse_memory_def bind_simps parse_simps)

lemma parse_pressure_iff [parse_simps]:
  "parse_pressure d = Inr c \<longleftrightarrow>
     toml_num (tget d ''full_avg10_critical'' (TInt 60)) = Some (hp_full_avg10_critical c)
     \<and> 0 < hp_full_avg10_critical c \<and> hp_full_avg10_critical c \<le> 100
     \<and> toml_num (tget d ''some_avg10_warning'' (TInt 5)) = Some (hp_some_avg10_warning c)
     \<and> 0 < hp_some_avg10_warning c \<and> hp_some_avg10_warning c \<le> 100
     \<and> tget d ''critical_consecutive_samples'' (TInt 3) = TInt (hp_critical_consecutive_samples c)
     \<and> 0 < hp_critical_consecutive_samples c
     \<and> tget d ''in_round_terminate'' (TBool True) = TBool (hp_in_round_terminate c)
     \<and> toml_num (tget d ''cgroup_growth_rate_warning_mb_per_min'' (TInt 512)) = Some (hp_cgroup_growth_rate_warning_mb_per_min c)
     \<and> 0 < hp_cgroup_growth_rate_warning_mb_per_min c
     \<and> tget d ''in_round_nudge'' (TBool False) = TBool (hp_in_round_nudge c)"
  by (cases c) (auto simp: parse_pressure_def bind_simps parse_simps)

lemma parse_brake_iff [parse_simps]:
  "parse_brake d = Inr c \<longleftrightarrow>
     tget d ''memory_high'' (TBool False) = TBool (hb_memory_high c)
     \<and> tget d ''memory_high_step_pct'' (TInt 0) = TInt (hb_memory_high_step_pct c)
     \<and> 0 \<le> hb_memory_high_step_pct c \<and> hb_memory_high_step_pct c \<le> max_brake_step_pct
     \<and> tget d ''warning_consecutive_samples'' (TInt 3) = TInt (hb_warning_consecutive_samples c)
     \<and> 0 < hb_warning_consecutive_samples c"
  by (cases c) (auto simp: parse_brake_def bind_simps parse_simps)

lemma parse_host_health_wf: "parse_host_health d = Inr h \<Longrightarrow> wf_health h"
  by (auto simp: parse_host_health_def health_table_def bind_simps parse_simps wf_health_def Let_def)

lemma check_anomaly_iff [parse_simps]:
  "check_anomaly w t = Inr u \<longleftrightarrow> \<not> (0 < t \<and> 0 < w \<and> w < t)"
  by (simp add: check_anomaly_def)

lemma validate_auto_stop_iff [parse_simps]:
  "validate_auto_stop_on v = Inr ns \<longleftrightarrow> (\<exists>xs. v = TArr xs \<and> ns = map toml_str xs) \<and> goal_free ns"
  by (auto simp: validate_auto_stop_on_def res_bind_guard parse_simps goal_free_def list_ex_iff)

lemma validate_tolerance_iff [parse_simps]:
  "validate_remote_failure_tolerance v = Inr n \<longleftrightarrow> v = TInt n \<and> 0 \<le> n \<and> n \<le> 3600"
  by (auto simp: validate_remote_failure_tolerance_def res_bind_guard parse_simps)

lemma goal_free_default: "goal_free auto_stop_alerts"
  by (simp add: goal_free_def auto_stop_alerts_def)

lemma parse_monitor_wf:
  assumes "parse_monitor hf d = Inr m"
  shows "wf_monitor hf m"
proof -
  obtain hh pats stops tol aw athr prog stale where
    p: "parse_host_health d = Inr hh" "list_all (hf_regex_ok hf) pats"
      "(case map_of d ''auto_stop_on'' of None \<Rightarrow> Inr auto_stop_alerts | Some v \<Rightarrow> validate_auto_stop_on v) = Inr stops"
      "0 \<le> tol" "tol \<le> 3600" "0 \<le> aw" "0 \<le> athr" "0 \<le> prog" "\<not> (0 < athr \<and> 0 < aw \<and> aw < athr)"
      "case stale of None \<Rightarrow> True | Some s \<Rightarrow> 0 \<le> s"
    and m: "m = \<lparr>mo_auth_fail_patterns = pats, mo_auth_fail_hint = toml_str (tget d ''auth_fail_hint'' (TStr [])),
            mo_auto_stop_on = stops, mo_remote_failure_tolerance_s = tol,
            mo_anomaly_repetitive_window = aw, mo_anomaly_repetitive_threshold = athr,
            mo_host_health = hh, mo_round_progress_interval_s = prog,
            mo_supervisor_stale_threshold_s = stale\<rparr>"
    using assms unfolding parse_monitor_def bind_simps parse_simps
    by (auto split: option.splits)
  have "goal_free stops"
    using p(3) goal_free_default by (auto simp: parse_simps split: option.splits)
  then show ?thesis
    using p parse_host_health_wf [OF p(1)] by (auto simp: wf_monitor_def m)
qed

lemma check_delivery_iff [parse_simps]:
  "check_delivery l dv t req = Inr u \<longleftrightarrow>
     (dv = Stdin \<longrightarrow> \<not> has_placeholder t) \<and> (dv = Argv \<and> req \<longrightarrow> has_placeholder t)"
  by (simp add: check_delivery_def)

lemma parse_agent_wf:
  assumes "parse_agent d l req = Inr a"
  shows "wf_agent req a
    \<and> (case map_of d ''exec_prefix'' of None \<Rightarrow> ac_exec_prefix a = []
          | Some v \<Rightarrow> \<exists>xs. v = TArr xs \<and> ac_exec_prefix a = map toml_str xs)"
proof (cases "delivery_of (toml_str (tget d ''prompt_delivery'' (TStr ''argv'')))")
  case None
  then show ?thesis using assms by (simp add: parse_agent_def res_bind_Inr_iff)
next
  case (Some dv)
  have "\<exists>tmpl command prefix grace.
      ((dv = Stdin \<longrightarrow> \<not> has_placeholder tmpl) \<and> (dv = Argv \<and> req \<longrightarrow> has_placeholder tmpl))
      \<and> command \<noteq> [] \<and> (\<exists>xs. tget d ''exec_prefix'' (TArr []) = TArr xs \<and> prefix = map toml_str xs)
      \<and> 0 < grace \<and> grace \<le> max_sigterm_grace_s
      \<and> ac_command a = command \<and> ac_prompt_arg_template a = tmpl \<and> ac_prompt_delivery a = dv
      \<and> ac_exec_prefix a = prefix \<and> ac_sigterm_grace_s a = grace"
    using assms unfolding parse_agent_def Some option.case
    by (fastforce simp: res_bind_Inr_iff parse_simps split: if_splits)
  then show ?thesis
    by (auto simp: wf_agent_def tget_def split: option.splits)
qed

lemma window_item_wf: "window_item f v = Inr w \<Longrightarrow> wf_window w"
  using parse_window_wf [of "toml_str v" w]
  by (auto simp: window_item_def wf_window_def split: sum.splits)

lemma parse_window_list_wf:
  "parse_window_list d l k = Inr ws \<Longrightarrow> w \<in> set ws \<Longrightarrow> wf_window w"
  by (auto simp: parse_window_list_def split: toml.splits dest!: res_map_from dest: window_item_wf)

lemma parse_schedule_wf: "parse_schedule hf d l = Inr s \<Longrightarrow> wf_schedule hf s"
  by (auto simp: parse_schedule_def bind_simps wf_schedule_def parse_timezone_def
      dest: parse_window_list_wf split: option.splits if_splits)

lemma parse_goal_check_wf:
  "parse_goal_check v = Inr c \<Longrightarrow> gc_cmd c \<noteq> [] \<and> 0 < gc_timeout_s c \<and> gc_timeout_s c \<le> max_goal_check_timeout_s"
  by (auto simp: parse_goal_check_def bind_simps parse_simps split: toml.splits if_splits)

lemma parse_goal_wf: "parse_goal hf d p w = Inr g \<Longrightarrow> wf_goal g"
  by (auto simp: parse_goal_def res_bind_Inr_iff wf_goal_def split: toml.splits
      dest!: res_map_from dest: parse_goal_check_wf)

lemma require_table_iff [parse_simps]:
  "require_table raw k l = Inr d \<longleftrightarrow> (case map_of raw k of None \<Rightarrow> d = [] | Some v \<Rightarrow> v = TTab d)"
  by (auto simp: require_table_def split: option.splits toml.splits)

lemma phase_budget_wf:
  assumes "phase_budget d l = Inr b"
  shows "case b of None \<Rightarrow> True | Some n \<Rightarrow> 0 < n"
  using assms unfolding phase_budget_def
  by (auto simp: res_bind_Inr_iff parse_simps split: option.splits if_splits)

lemma map_of_filter_notin:
  "map_of (filter (\<lambda>(k, v). \<not> thas base k) sub) k = (if thas base k then None else map_of sub k)"
  by (induction sub) (auto split: if_splits)

lemma tmerge_lookup:
  "map_of (tmerge base sub) k = (case map_of sub k of Some v \<Rightarrow> Some v | None \<Rightarrow> map_of base k)"
proof -
  have m: "map_of (map (\<lambda>(k, v). (k, tget sub k v)) base) k = map_option (tget sub k) (map_of base k)"
    by (induction base) auto
  show ?thesis
    unfolding tmerge_def map_of_append map_add_def m map_of_filter_notin
    by (auto simp: tget_def thas_def split: option.splits)
qed

lemma phase_agent_wf:
  assumes "phase_agent base d l sends = Inr (Some a)"
  shows "wf_agent sends a \<and> (case map_of base ''exec_prefix'' of None \<Rightarrow> ac_exec_prefix a = []
          | Some v \<Rightarrow> \<exists>xs. v = TArr xs \<and> ac_exec_prefix a = map toml_str xs)"
proof -
  obtain sub where "\<not> thas sub ''exec_prefix''" "parse_agent (tmerge base sub) (l @ ''.agent'') sends = Inr a"
    using assms by (auto simp: phase_agent_def res_bind_Inr_iff split: option.splits toml.splits if_splits)
  then show ?thesis using parse_agent_wf [of "tmerge base sub" "l @ ''.agent''" sends a]
    by (auto simp: tmerge_lookup thas_def split: option.splits)
qed

lemma phase_schedule_wf: "phase_schedule hf d l = Inr (Some s) \<Longrightarrow> wf_schedule hf s"
  by (auto simp: phase_schedule_def res_bind_Inr_iff split: option.splits toml.splits dest: parse_schedule_wf)

lemma parse_phase_override_wf:
  assumes "parse_phase_override hf ps project work_dir base kv = Inr (name, ov)"
    and "parse_agent base l0 r0 = Inr a0"
  shows "name \<in> set (case ps of None \<Rightarrow> [] | Some xs \<Rightarrow> xs) \<and> wf_override hf (ac_exec_prefix a0) ov"
proof -
  obtain v where kv: "kv = (name, v)"
    using assms(1) by (cases kv) (auto simp: parse_phase_override_def Let_def res_bind_Inr_iff split: toml.splits if_splits)
  let ?l = "''phases.'' @ name"
  obtain d budget files agent sched where p:
    "name \<in> set (case ps of None \<Rightarrow> [] | Some xs \<Rightarrow> xs)"
    "phase_budget d ?l = Inr budget" "phase_agent base d ?l (files \<noteq> Some []) = Inr agent"
    "phase_schedule hf d ?l = Inr sched"
    and ov: "ov = \<lparr>ov_round_budget_s = budget, ov_prompt_files = files, ov_agent = agent, ov_schedule = sched\<rparr>"
    using assms(1) unfolding kv parse_phase_override_def
    by (auto simp: Let_def res_bind_Inr_iff split: toml.splits if_splits)
  have base: "case map_of base ''exec_prefix'' of None \<Rightarrow> ac_exec_prefix a0 = []
          | Some v \<Rightarrow> \<exists>xs. v = TArr xs \<and> ac_exec_prefix a0 = map toml_str xs"
    using parse_agent_wf [OF assms(2)] by simp
  have "wf_agent (files \<noteq> Some []) a \<and> ac_exec_prefix a = ac_exec_prefix a0" if "agent = Some a" for a
    using phase_agent_wf [of base d ?l "files \<noteq> Some []" a] p(3) that base by (auto split: option.splits)
  moreover have "wf_schedule hf s" if "sched = Some s" for s
    using phase_schedule_wf p(4) that by blast
  ultimately show ?thesis
    using p(1) phase_budget_wf [OF p(2)] by (auto simp: wf_override_def ov split: option.splits)
qed

lemma parse_log_dir_wf: "parse_log_dir hf d p w = Inr r \<Longrightarrow> list_all printable_char r"
  by (auto simp: parse_log_dir_def res_bind_Inr_iff Let_def parse_simps)

lemma parse_work_dir_wf: "parse_work_dir hf td d = Inr r \<Longrightarrow> list_all printable_char r"
  by (auto simp: parse_work_dir_def res_bind_Inr_iff Let_def parse_simps)

lemma opt_positive: "opt_key d k (\<lambda>v. require_positive_int v f) = Inr r \<Longrightarrow> (case r of None \<Rightarrow> True | Some n \<Rightarrow> 0 < n)"
  by (auto simp: parse_simps split: option.splits)

lemma parse_runtime_wf:
  assumes "parse_runtime hf d project work_dir = Inr r" and "list_all printable_char work_dir"
  shows "wf_runtime hf r"
proof (cases "action_of (toml_str (tget d ''transient_error_action'' (TStr ''back_off'')))")
  case None
  then show ?thesis using assms(1) by (auto simp: parse_runtime_def Let_def res_bind_Inr_iff split: if_splits)
next
  case (Some act)
  have "\<exists>ld b dl keep rounds globs fresh dry grace pats nf sf.
      parse_log_dir hf d project work_dir = Inr ld \<and> 0 < b \<and> 0 < dl \<and> 0 \<le> keep
      \<and> opt_key d ''max_rounds'' (\<lambda>v. require_positive_int v ''runtime.max_rounds'') = Inr rounds
      \<and> parse_fresh_eyes_every_n d = Inr fresh \<and> 0 \<le> grace \<and> list_all (hf_regex_ok hf) pats
      \<and> r = \<lparr>rt_work_dir = work_dir, rt_log_dir = ld, rt_round_budget_s = b,
            rt_restart_delay_s = dl, rt_round_log_retention = keep, rt_narrative_file = nf,
            rt_transient_error_action = act, rt_max_rounds = rounds, rt_stop_file = sf,
            rt_substrate_fingerprint_paths = globs, rt_fresh_eyes_every_n = fresh, rt_dry_run = dry,
            rt_max_grace_after_result_s = grace, rt_grace_kill_ignore_patterns = pats\<rparr>"
    using assms(1) unfolding parse_runtime_def Some option.case Let_def
    by (fastforce simp: res_bind_Inr_iff require_positive_int_iff require_non_negative_int_iff
        validate_regex_list_iff split: if_splits)
  then show ?thesis
    using parse_log_dir_wf opt_positive assms(2)
    by (auto simp: wf_runtime_def parse_fresh_eyes_every_n_def)
qed

lemma parse_prompt_wf: "parse_prompt hf d p w = Inr c \<Longrightarrow> wf_prompt c"
  by (auto simp: parse_prompt_def res_bind_Inr_iff parse_prompt_files_def wf_prompt_def thas_def parse_simps
      split: option.splits if_splits)

lemma parse_vcs_wf: "parse_vcs d = Inr c \<Longrightarrow> 0 < vc_stash_idempotency_s c"
  by (auto simp: parse_vcs_def res_bind_Inr_iff parse_simps split: option.splits if_splits)

lemma parse_phases_wf:
  assumes "parse_phases hf raw project work_dir base = Inr pc" and "parse_agent base l0 r0 = Inr a0"
    and "pc_overrides pc p = Some ov"
  shows "p \<in> set (case pc_list pc of None \<Rightarrow> [] | Some ps \<Rightarrow> ps) \<and> wf_override hf (ac_exec_prefix a0) ov"
proof -
  obtain d ps ovs where o: "parse_phase_overrides hf d ps project work_dir base = Inr ovs"
    "pc_list pc = ps" "pc_overrides pc = map_of ovs"
    using assms(1) by (auto simp: parse_phases_def res_bind_Inr_iff split: option.splits)
  have "(p, ov) \<in> set ovs" using assms(3) o(3) by (auto dest: map_of_SomeD)
  then obtain kv where "parse_phase_override hf ps project work_dir base kv = Inr (p, ov)"
    using o(1) unfolding parse_phase_overrides_def by (blast dest: res_map_from)
  then show ?thesis using parse_phase_override_wf [OF _ assms(2)] o(2) by blast
qed

lemma parse_config_wf:
  assumes "parse_config hf toml_path toml_dir raw = Inr cfg"
  shows "wf_config hf cfg"
proof -
  obtain agent_d agent runtime_d work_dir project phases runtime prompt_d prompt vcs_d vcs monitor_d monitor
    disable schedule_d sched goal goal_d where
    p: "parse_agent agent_d ''agent'' True = Inr agent" "parse_work_dir hf toml_dir runtime_d = Inr work_dir"
      "parse_phases hf raw project work_dir agent_d = Inr phases"
      "parse_runtime hf runtime_d project work_dir = Inr runtime"
      "parse_prompt hf prompt_d project work_dir = Inr prompt" "parse_vcs vcs_d = Inr vcs"
      "parse_monitor hf monitor_d = Inr monitor" "parse_schedule hf schedule_d ''schedule'' = Inr sched"
      "case goal of None \<Rightarrow> True | Some g \<Rightarrow> parse_goal hf goal_d project work_dir = Inr g"
    and cfg: "cfg = \<lparr>cf_agent = agent, cf_runtime = runtime, cf_monitor = monitor, cf_phases = phases,
            cf_schedule = sched, cf_goal = goal, cf_prompt = prompt, cf_vcs = vcs,
            cf_plugins_disable = disable\<rparr>"
    using assms unfolding parse_config_def Let_def res_bind_Inr_iff
    by (elim exE conjE) (auto simp: opt_key_iff res_bind_Inr_iff split: option.splits)
  show ?thesis
    using parse_agent_wf [OF p(1)] parse_runtime_wf [OF p(4) parse_work_dir_wf [OF p(2)]]
      parse_monitor_wf [OF p(7)] parse_schedule_wf [OF p(8)] parse_prompt_wf [OF p(5)] parse_vcs_wf [OF p(6)]
      parse_phases_wf [OF p(3,1)] p(9) parse_goal_wf
    by (auto simp: wf_config_def cfg split: option.splits)
qed

lemma load_config_Inr:
  assumes "load_config hf resolve entries rg toml_path toml_dir raw = Inr (cfg, rg', warned)"
  shows "parse_config hf toml_path toml_dir raw = Inr cfg
    \<and> reject_static_resume_flag rg' cfg (override_names raw) = Inr ()
    \<and> reject_goal_ledger_not_listed cfg = Inr ()
    \<and> reject_goal_ledger_in_stash_swept_tree hf cfg = Inr () \<and> warned = goal_checks_warn cfg"
proof -
  obtain c where c: "parse_config hf toml_path toml_dir raw = Inr c"
    using assms unfolding load_config_def res_bind_Inr_iff by blast
  obtain rg1 w1 where r1: "load_and_register_plugins resolve entries (cf_plugins_disable c) rg = (rg1, w1)"
    by fastforce
  obtain rg2 ds us where r2: "apply_plugin_disable (cf_plugins_disable c) rg1 [] = (rg2, ds, us)"
    by (metis prod_cases3)
  show ?thesis
    using assms c by (auto simp: load_config_def Let_def r1 r2 res_bind_Inr_iff)
qed

text \<open>C16: a document the loader accepts yields a well-formed configuration: every bound of every table holds (budgets and delays positive, the agent grace within its cap, percentages in range, the brake step at most 50, goal checks within their cap, patterns that compile, known zones, valid windows), the delivery agrees with the argv template, only listed phases are overridden and their agents keep the base exec_prefix, no goal kind may stop the service, and no command carries the flag the supervisor injects.\<close>

theorem accepted_config_well_formed:
  assumes "load_config hf resolve entries rg toml_path toml_dir raw = Inr (cfg, rg', warned)"
  shows "wf_config hf cfg \<and> \<not> static_flag_in rg' (cf_agent cfg)"
proof -
  note l = load_config_Inr [OF assms]
  then have "\<not> static_flag_in rg' (cf_agent cfg)"
    by (auto simp: reject_static_resume_flag_def Let_def split: if_splits)
  then show ?thesis using l parse_config_wf by blast
qed

subsection \<open>Which exceptions loading raises\<close>

definition config_errors_only :: "'a res \<Rightarrow> bool" where
  "config_errors_only r \<longleftrightarrow> (\<forall>e. r = Inl e \<longrightarrow> (\<exists>m. e = ConfigError m))"

named_theorems ce_intros \<open>introduction rules for parsers that raise ConfigError only\<close>

lemma ce_Inr [ce_intros, simp]: "config_errors_only (Inr x)" by (simp add: config_errors_only_def)
lemma ce_err [ce_intros, simp]: "config_errors_only (cfg_err f m)" by (simp add: config_errors_only_def cfg_err_def)

lemma ce_bind [ce_intros]:
  "config_errors_only r \<Longrightarrow> (\<And>x. config_errors_only (f x)) \<Longrightarrow> config_errors_only (res_bind r f)"
  by (cases r) (auto simp: config_errors_only_def)

lemma ce_if [ce_intros]:
  "config_errors_only a \<Longrightarrow> config_errors_only b \<Longrightarrow> config_errors_only (if c then a else b)"
  by simp

lemma ce_map [ce_intros]: "(\<And>x. config_errors_only (f x)) \<Longrightarrow> config_errors_only (res_map f xs)"
  by (induction xs) (auto intro!: ce_intros)

lemma ce_option [ce_intros]:
  "config_errors_only a \<Longrightarrow> (\<And>x. config_errors_only (f x)) \<Longrightarrow> config_errors_only (case v of None \<Rightarrow> a | Some x \<Rightarrow> f x)"
  by (cases v) auto

lemma ce_prim [ce_intros]:
  "config_errors_only (require_positive_int v f)" "config_errors_only (require_non_negative_int v f)"
  "config_errors_only (require_bool v f)" "config_errors_only (require_str_list v f)"
  "config_errors_only (require_pct v f)" "config_errors_only (require_positive_float v f)"
  "config_errors_only (validate_brake_step_pct v f)" "config_errors_only (regex_item hf f v)"
  "config_errors_only (reject_unknown_fields d a f)" "config_errors_only (require_key d k)"
  "config_errors_only (require_table d k f)" "config_errors_only (reject_control_chars s f)"
  "config_errors_only (check_anomaly w t)" "config_errors_only (check_delivery f dv tmpl r)"
  by (auto simp: require_positive_int_def require_non_negative_int_def require_bool_def require_str_list_def
      require_pct_def require_positive_float_def validate_brake_step_pct_def regex_item_def
      reject_unknown_fields_def require_key_def require_table_def reject_control_chars_def
      check_anomaly_def check_delivery_def split: toml.split option.split)

lemma ce_derived [ce_intros]:
  "config_errors_only (require_positive_pct v f)" "config_errors_only (validate_sigterm_grace_s v f)"
  "config_errors_only (validate_remote_failure_tolerance v)" "config_errors_only (validate_auto_stop_on v)"
  unfolding require_positive_pct_def validate_sigterm_grace_s_def validate_remote_failure_tolerance_def
    validate_auto_stop_on_def
  by (intro ce_intros)+

lemma ce_regex_list [ce_intros]: "config_errors_only (validate_regex_list hf v f)"
  by (cases v) (auto simp: validate_regex_list_def intro: ce_intros)

lemma ce_opt_key [ce_intros]: "(\<And>v. config_errors_only (p v)) \<Longrightarrow> config_errors_only (opt_key d k p)"
  unfolding opt_key_def by (intro ce_intros)

lemma ce_tables [ce_intros]:
  "config_errors_only (parse_disk d)" "config_errors_only (parse_memory d)"
  "config_errors_only (parse_pressure d)" "config_errors_only (parse_brake d)"
  "config_errors_only (health_table d k a)"
  unfolding parse_disk_def parse_memory_def parse_pressure_def parse_brake_def health_table_def
  by (intro ce_intros)+

lemma ce_monitor [ce_intros]: "config_errors_only (parse_monitor hf d)"
  unfolding parse_monitor_def parse_host_health_def by (intro ce_intros)

lemma ce_agent [ce_intros]: "config_errors_only (parse_agent d l r)"
  unfolding parse_agent_def by (intro ce_intros)

lemma ce_window_item [ce_intros]: "config_errors_only (window_item f w)"
  by (simp add: window_item_def split: sum.split)

lemma ce_window_list [ce_intros]: "config_errors_only (parse_window_list d l k)"
  by (cases "tget d k (TArr [])") (auto simp: parse_window_list_def intro: ce_intros)

lemma ce_schedule [ce_intros]: "config_errors_only (parse_schedule hf d l)"
  unfolding parse_schedule_def parse_timezone_def by (intro ce_intros)

lemma ce_goal_check [ce_intros]: "config_errors_only (parse_goal_check v)"
  by (cases v) (auto simp: parse_goal_check_def intro!: ce_intros)

lemma ce_goal [ce_intros]: "config_errors_only (parse_goal hf d p w)"
  unfolding parse_goal_def
  by (cases "tget d ''checks'' (TArr [])") (auto intro!: ce_intros)

lemma ce_fingerprints [ce_intros]: "config_errors_only (parse_fingerprint_paths d)"
  by (simp add: parse_fingerprint_paths_def split: toml.split)

lemma ce_runtime [ce_intros]: "config_errors_only (parse_runtime hf d p w)"
  unfolding parse_runtime_def parse_log_dir_def parse_fresh_eyes_every_n_def Let_def by (intro ce_intros)

lemma ce_vcs [ce_intros]: "config_errors_only (parse_vcs d)"
  unfolding parse_vcs_def by (intro ce_intros)

lemma ce_plugins [ce_intros]: "config_errors_only (parse_plugins d)"
  unfolding parse_plugins_def by (intro ce_intros)

lemma ce_phase_parts [ce_intros]:
  "config_errors_only (phase_budget d l)" "config_errors_only (phase_prompt_files hf d l p w)"
  "config_errors_only (phase_agent base d l s)" "config_errors_only (phase_schedule hf d l)"
  unfolding phase_budget_def phase_prompt_files_def phase_agent_def phase_schedule_def
  by (auto intro!: ce_intros split: option.split toml.split)

lemma ce_phase_override [ce_intros]: "config_errors_only (parse_phase_override hf ps p w base kv)"
  unfolding parse_phase_override_def Let_def
  by (auto intro!: ce_intros split: prod.split toml.split)

lemma ce_phases [ce_intros]: "config_errors_only (parse_phases hf raw p w base)"
  unfolding parse_phases_def parse_phase_overrides_def by (intro ce_intros)

lemma ce_work_dir [ce_intros]: "config_errors_only (parse_work_dir hf td d)"
  unfolding parse_work_dir_def Let_def by (intro ce_intros)

lemma ce_schema [ce_intros]: "config_errors_only (check_schema_version raw)"
  by (auto simp: check_schema_version_def split: option.split toml.split)

lemma ce_refusals [ce_intros]:
  "config_errors_only (reject_static_resume_flag rgs cfg ns)" "config_errors_only (reject_goal_ledger_not_listed cfg)"
  "config_errors_only (reject_goal_ledger_in_stash_swept_tree hf cfg)"
  unfolding reject_static_resume_flag_def reject_goal_ledger_not_listed_def
    reject_goal_ledger_in_stash_swept_tree_def Let_def
  by (intro ce_intros)+

text \<open>The prompt table of a document, and the one value that escapes as a \<open>TypeError\<close>.\<close>

definition compound :: "toml \<Rightarrow> bool" where
  "compound v \<longleftrightarrow> (\<exists>xs. v = TArr xs) \<or> (\<exists>t. v = TTab t)"

definition unhashable_mode :: "table \<Rightarrow> bool" where
  "unhashable_mode raw \<longleftrightarrow>
     (\<exists>d v. map_of raw ''prompt'' = Some (TTab d) \<and> map_of d ''context_injection_mode'' = Some v \<and> compound v)"

definition errors_in :: "bool \<Rightarrow> 'a res \<Rightarrow> bool" where
  "errors_in P r \<longleftrightarrow> (\<forall>e. r = Inl e \<longrightarrow> (\<exists>m. e = ConfigError m) \<or> (e = TypeError \<and> P))"

lemma errors_in_ce: "config_errors_only r \<Longrightarrow> errors_in P r"
  by (auto simp: errors_in_def config_errors_only_def)

lemma errors_in_bind:
  "errors_in P r \<Longrightarrow> (\<And>x. r = Inr x \<Longrightarrow> errors_in P (f x)) \<Longrightarrow> errors_in P (res_bind r f)"
  by (cases r) (auto simp: errors_in_def)

lemma ce_prompt_files [ce_intros]: "config_errors_only (parse_prompt_files hf d p w)"
  unfolding parse_prompt_files_def by (intro ce_intros)

lemma mode_errors:
  "errors_in (\<exists>v. map_of d ''context_injection_mode'' = Some v \<and> compound v)
     (mode_of (tget d ''context_injection_mode'' (TStr ''prepend'')))"
  by (auto simp: errors_in_def mode_of_def tget_def compound_def cfg_err_def
      split: option.splits toml.splits if_splits)

lemma prompt_errors:
  "errors_in (\<exists>v. map_of d ''context_injection_mode'' = Some v \<and> compound v) (parse_prompt hf d p w)"
  unfolding parse_prompt_def
  by (rule errors_in_bind, rule errors_in_ce, rule ce_intros, rule errors_in_bind, rule mode_errors,
      rule errors_in_ce, (intro ce_intros))

lemma config_errors: "errors_in (unhashable_mode raw) (parse_config hf tp td raw)"
proof -
  have pr: "errors_in (unhashable_mode raw) (parse_prompt hf d p w)" if "require_table raw ''prompt'' ''prompt'' = Inr d" for d p w
  proof -
    have "(\<exists>v. map_of d ''context_injection_mode'' = Some v \<and> compound v) \<Longrightarrow> unhashable_mode raw"
      using that by (auto simp: parse_simps unhashable_mode_def split: option.splits)
    then show ?thesis using prompt_errors [of d hf p w] by (auto simp: errors_in_def)
  qed
  note step = errors_in_bind [OF errors_in_ce [OF ce_prim(12)]] errors_in_bind [OF errors_in_ce [OF ce_schema]]
    errors_in_bind [OF errors_in_ce [OF ce_prim(11)]] errors_in_bind [OF errors_in_ce [OF ce_agent]]
    errors_in_bind [OF errors_in_ce [OF ce_work_dir]] errors_in_bind [OF errors_in_ce [OF ce_phases]]
    errors_in_bind [OF errors_in_ce [OF ce_runtime]]
  show ?thesis
    unfolding parse_config_def Let_def
    by (rule step)+ (rule errors_in_bind, erule pr, rule errors_in_ce, (intro ce_intros))
qed


subsection \<open>Printing a monitor table back\<close>

definition disk_toml :: "disk_config \<Rightarrow> table" where
  "disk_toml c =
     [(''warning_pct'', TFloat (hd_warning_pct c) []), (''critical_pct'', TFloat (hd_critical_pct c) []),
      (''growth_window_s'', TInt (hd_growth_window_s c)),
      (''disk_growth_pct_per_hr_warning'', TFloat (hd_disk_growth_pct_per_hr_warning c) []),
      (''inode_growth_pct_per_hr_warning'', TFloat (hd_inode_growth_pct_per_hr_warning c) [])]"

definition memory_toml :: "memory_config \<Rightarrow> table" where
  "memory_toml c =
     [(''avail_min_mb'', TInt (hm_avail_min_mb c)), (''free_low_mb'', TInt (hm_free_low_mb c)),
      (''swap_out_noise_floor_mb'', TInt (hm_swap_out_noise_floor_mb c))]"

definition pressure_toml :: "pressure_config \<Rightarrow> table" where
  "pressure_toml c =
     [(''full_avg10_critical'', TFloat (hp_full_avg10_critical c) []),
      (''some_avg10_warning'', TFloat (hp_some_avg10_warning c) []),
      (''critical_consecutive_samples'', TInt (hp_critical_consecutive_samples c)),
      (''in_round_terminate'', TBool (hp_in_round_terminate c)),
      (''cgroup_growth_rate_warning_mb_per_min'', TFloat (hp_cgroup_growth_rate_warning_mb_per_min c) []),
      (''in_round_nudge'', TBool (hp_in_round_nudge c))]"

definition brake_toml :: "brake_config \<Rightarrow> table" where
  "brake_toml c =
     [(''memory_high'', TBool (hb_memory_high c)), (''memory_high_step_pct'', TInt (hb_memory_high_step_pct c)),
      (''warning_consecutive_samples'', TInt (hb_warning_consecutive_samples c))]"

definition monitor_toml :: "monitor_config \<Rightarrow> table" where
  "monitor_toml m =
     [(''host_health'', TTab
         [(''disk'', TTab (disk_toml (hh_disk (mo_host_health m)))),
          (''memory'', TTab (memory_toml (hh_memory (mo_host_health m)))),
          (''pressure'', TTab (pressure_toml (hh_pressure (mo_host_health m)))),
          (''brake'', TTab (brake_toml (hh_brake (mo_host_health m))))]),
      (''auth_fail_patterns'', TArr (map TStr (mo_auth_fail_patterns m))),
      (''auth_fail_hint'', TStr (mo_auth_fail_hint m)),
      (''auto_stop_on'', TArr (map TStr (mo_auto_stop_on m))),
      (''remote_failure_tolerance_s'', TInt (mo_remote_failure_tolerance_s m)),
      (''anomaly_repetitive_window'', TInt (mo_anomaly_repetitive_window m)),
      (''anomaly_repetitive_threshold'', TInt (mo_anomaly_repetitive_threshold m)),
      (''round_progress_interval_s'', TInt (mo_round_progress_interval_s m))]
     @ (case mo_supervisor_stale_threshold_s m of
          None \<Rightarrow> [] | Some s \<Rightarrow> [(''supervisor_stale_threshold_s'', TInt s)])"

lemma health_table_ok:
  "map_of hh k = Some (TTab d) \<Longrightarrow> set (map fst d) \<subseteq> set allowed \<Longrightarrow> health_table hh k allowed = Inr d"
  by (simp add: health_table_def require_table_def reject_unknown_fields_def list_all_iff subset_iff)

lemma parse_disk_toml:
  assumes "wf_health h"
  shows "parse_disk (disk_toml (hh_disk h)) = Inr (hh_disk h)"
  using assms by (simp add: parse_disk_iff disk_toml_def tget_def toml_num_def wf_health_def Let_def)

lemma parse_memory_toml:
  assumes "wf_health h"
  shows "parse_memory (memory_toml (hh_memory h)) = Inr (hh_memory h)"
  using assms by (simp add: parse_memory_iff memory_toml_def tget_def wf_health_def Let_def)

lemma parse_pressure_toml:
  assumes "wf_health h"
  shows "parse_pressure (pressure_toml (hh_pressure h)) = Inr (hh_pressure h)"
  using assms by (simp add: parse_pressure_iff pressure_toml_def tget_def toml_num_def wf_health_def Let_def)

lemma parse_brake_toml:
  assumes "wf_health h"
  shows "parse_brake (brake_toml (hh_brake h)) = Inr (hh_brake h)"
  using assms by (simp add: parse_brake_iff brake_toml_def tget_def wf_health_def Let_def)

lemma toml_fields:
  "set (map fst (disk_toml c)) \<subseteq> set disk_allowed_fields" "set (map fst (memory_toml mc)) \<subseteq> set memory_allowed_fields"
  "set (map fst (pressure_toml pc)) \<subseteq> set pressure_allowed_fields" "set (map fst (brake_toml bc)) \<subseteq> set brake_allowed_fields"
  by (simp_all add: disk_toml_def disk_allowed_fields_def memory_toml_def memory_allowed_fields_def
      pressure_toml_def pressure_allowed_fields_def brake_toml_def brake_allowed_fields_def)

lemma parse_host_health_toml:
  assumes "wf_health (mo_host_health m)"
  shows "parse_host_health (monitor_toml m) = Inr (mo_host_health m)"
proof -
  let ?hh = "[(''disk'', TTab (disk_toml (hh_disk (mo_host_health m)))),
          (''memory'', TTab (memory_toml (hh_memory (mo_host_health m)))),
          (''pressure'', TTab (pressure_toml (hh_pressure (mo_host_health m)))),
          (''brake'', TTab (brake_toml (hh_brake (mo_host_health m))))]"
  have r: "require_table (monitor_toml m) ''host_health'' l = Inr ?hh" for l
    by (simp add: require_table_def monitor_toml_def)
  have u: "reject_unknown_fields ?hh host_health_allowed_fields l = Inr ()" for l
    by (simp add: reject_unknown_fields_def host_health_allowed_fields_def)
  have t: "health_table ?hh ''disk'' disk_allowed_fields = Inr (disk_toml (hh_disk (mo_host_health m)))"
    "health_table ?hh ''memory'' memory_allowed_fields = Inr (memory_toml (hh_memory (mo_host_health m)))"
    "health_table ?hh ''pressure'' pressure_allowed_fields = Inr (pressure_toml (hh_pressure (mo_host_health m)))"
    "health_table ?hh ''brake'' brake_allowed_fields = Inr (brake_toml (hh_brake (mo_host_health m)))"
    by (rule health_table_ok; simp add: toml_fields [simplified])+
  show ?thesis
    unfolding parse_host_health_def r res_bind.simps u t parse_disk_toml [OF assms] parse_memory_toml [OF assms]
      parse_pressure_toml [OF assms] parse_brake_toml [OF assms]
    by simp
qed

lemma monitor_toml_lookup:
  "map_of (monitor_toml m) ''auth_fail_patterns'' = Some (TArr (map TStr (mo_auth_fail_patterns m)))"
  "map_of (monitor_toml m) ''auth_fail_hint'' = Some (TStr (mo_auth_fail_hint m))"
  "map_of (monitor_toml m) ''auto_stop_on'' = Some (TArr (map TStr (mo_auto_stop_on m)))"
  "map_of (monitor_toml m) ''remote_failure_tolerance_s'' = Some (TInt (mo_remote_failure_tolerance_s m))"
  "map_of (monitor_toml m) ''anomaly_repetitive_window'' = Some (TInt (mo_anomaly_repetitive_window m))"
  "map_of (monitor_toml m) ''anomaly_repetitive_threshold'' = Some (TInt (mo_anomaly_repetitive_threshold m))"
  "map_of (monitor_toml m) ''round_progress_interval_s'' = Some (TInt (mo_round_progress_interval_s m))"
  "map_of (monitor_toml m) ''supervisor_stale_threshold_s'' = map_option TInt (mo_supervisor_stale_threshold_s m)"
  by (simp_all add: monitor_toml_def split: option.split)

text \<open>The monitor parser accepts the printed form of a monitor configuration and returns it exactly when that configuration is well formed, so the parser rejects nothing it should accept.\<close>

theorem monitor_table_roundtrip:
  "wf_monitor hf m \<longleftrightarrow> parse_monitor hf (monitor_toml m) = Inr m"
proof
  assume wf: "wf_monitor hf m"
  have u: "reject_unknown_fields (monitor_toml m) monitor_allowed_fields ''monitor'' = Inr ()"
    by (simp add: reject_unknown_fields_def monitor_toml_def monitor_allowed_fields_def split: option.split)
  have p: "validate_regex_list hf (TArr (map TStr (mo_auth_fail_patterns m))) f = Inr (mo_auth_fail_patterns m)" for f
    using wf by (simp add: validate_regex_list_iff wf_monitor_def)
  have s: "validate_auto_stop_on (TArr (map TStr (mo_auto_stop_on m))) = Inr (mo_auto_stop_on m)"
    using wf by (simp add: validate_auto_stop_iff wf_monitor_def toml_str_def o_def)
  have n: "require_non_negative_int (TInt k) f = Inr k" if "0 \<le> k" for k f
    using that by (simp add: require_non_negative_int_def)
  have t: "validate_remote_failure_tolerance (TInt (mo_remote_failure_tolerance_s m)) = Inr (mo_remote_failure_tolerance_s m)"
    using wf by (simp add: validate_tolerance_iff wf_monitor_def)
  have c: "check_anomaly (mo_anomaly_repetitive_window m) (mo_anomaly_repetitive_threshold m) = Inr ()"
    using wf by (auto simp: check_anomaly_def wf_monitor_def)
  have o: "opt_key (monitor_toml m) ''supervisor_stale_threshold_s'' (\<lambda>v. require_non_negative_int v f)
      = Inr (mo_supervisor_stale_threshold_s m)" for f
    using wf by (cases "mo_supervisor_stale_threshold_s m")
      (auto simp: opt_key_def monitor_toml_lookup wf_monitor_def n)
  show "parse_monitor hf (monitor_toml m) = Inr m"
    using wf unfolding parse_monitor_def u res_bind.simps tget_def monitor_toml_lookup option.case p s t o
    by (simp add: parse_host_health_toml wf_monitor_def n c toml_str_def)
next
  assume "parse_monitor hf (monitor_toml m) = Inr m"
  then show "wf_monitor hf m" by (rule parse_monitor_wf)
qed

subsection \<open>The goal ledger of an accepted configuration\<close>

definition ledger_reaches_prompt :: "full_config \<Rightarrow> string \<Rightarrow> string option \<Rightarrow> bool" where
  "ledger_reaches_prompt cfg ledger phase \<longleftrightarrow>
     (\<exists>i. 0 < i \<and> i < length (effective_prompt_files cfg phase) \<and> effective_prompt_files cfg phase ! i = ledger)
     \<and> effective_prompt_files cfg phase ! 0 \<noteq> ledger"

lemma not_misplaced:
  "\<not> ledger_misplaced l fs \<Longrightarrow> (\<exists>i. 0 < i \<and> i < length fs \<and> fs ! i = l) \<and> fs ! 0 \<noteq> l"
proof -
  assume "\<not> ledger_misplaced l fs"
  then have m: "l \<in> set fs" and h: "hd fs \<noteq> l" by (auto simp: ledger_misplaced_def)
  then obtain i where i: "i < length fs" "fs ! i = l" by (auto simp: in_set_conv_nth)
  have "fs \<noteq> []" using m by auto
  then have z: "fs ! 0 \<noteq> l" using h by (simp add: hd_conv_nth)
  then have "0 < i" using i by (metis gr0I)
  then show ?thesis using i z by blast
qed

text \<open>In an accepted configuration with a goal the ledger is listed after the first prompt file for every configured phase, is never inside the work tree outside the log directory, and the budget warning is given exactly when the goal checks may outlast the fast-spin window.\<close>

theorem accepted_goal_ledger:
  assumes "load_config hf resolve entries rg toml_path toml_dir raw = Inr (cfg, rg', warned)"
    and "cf_goal cfg = Some g"
  shows "(\<forall>phase \<in> (case pc_list (cf_phases cfg) of None \<Rightarrow> {None} | Some ps \<Rightarrow> if ps = [] then {None} else Some ` set ps).
            ledger_reaches_prompt cfg (go_ledger g) phase)
    \<and> (is_relative_to (hf_resolve hf (go_ledger g)) (hf_resolve hf (rt_work_dir (cf_runtime cfg)))
        \<longrightarrow> is_relative_to (hf_resolve hf (go_ledger g)) (hf_resolve hf (rt_log_dir (cf_runtime cfg))))
    \<and> (warned \<longleftrightarrow> no_progress_short_s \<le> real_of_int (goal_checks_allowance_s (base_config cfg)))"
proof -
  have c: "reject_goal_ledger_not_listed cfg = Inr ()" "reject_goal_ledger_in_stash_swept_tree hf cfg = Inr ()"
    "warned = goal_checks_warn cfg"
    using load_config_Inr [OF assms(1)] by simp_all
  have w: "warned \<longleftrightarrow> no_progress_short_s \<le> real_of_int (goal_checks_allowance_s (base_config cfg))"
    by (simp add: c(3) goal_checks_warn_def assms(2) goal_checks_allowance_s_def base_config_def config.defs)
  show ?thesis
    using c(1,2) w not_misplaced
    by (auto simp: reject_goal_ledger_not_listed_def reject_goal_ledger_in_stash_swept_tree_def assms(2)
        ledger_reaches_prompt_def list_ex_iff Let_def split: option.splits if_splits)
qed

subsection \<open>A concrete document\<close>

definition example_fns :: host_fns where
  "example_fns = \<lparr>hf_regex_ok = (\<lambda>p. True), hf_zone_ok = (\<lambda>z. True), hf_expanduser = (\<lambda>p. p), hf_resolve = (\<lambda>p. p)\<rparr>"

definition example_doc :: "toml \<Rightarrow> table" where
  "example_doc mode =
     [(''schema_version'', TInt 1),
      (''agent'', TTab [(''command'', TArr [TStr ''claude'']), (''prompt_arg_template'', TArr [TStr ''{prompt}''])]),
      (''runtime'', TTab [(''work_dir'', TStr ''/p''), (''log_dir'', TStr ''logs'')]),
      (''prompt'', TTab [(''files'', TArr [TStr ''a.md'', TStr ''logs/l.md'']), (''context_injection_mode'', mode)]),
      (''goal'', TTab [(''ledger'', TStr ''logs/l.md'')])]"

definition example_load :: "toml \<Rightarrow> (full_config \<times> registries \<times> bool) res" where
  "example_load mode =
     load_config example_fns (\<lambda>n t. Inl TypeError) [] \<lparr>rg_hooks = [], rg_manifests = []\<rparr> ''/p/a.toml'' ''/p'' (example_doc mode)"

lemma example_load_ok:
  "case example_load (TStr ''prepend'') of
     Inl e \<Rightarrow> False
   | Inr (cfg, r) \<Rightarrow> pc_list (cf_phases cfg) = None \<and> map_option go_ledger (cf_goal cfg) = Some ''/p/logs/l.md''"
  by code_simp

lemma example_load_unhashable: "case example_load (TArr []) of Inl e \<Rightarrow> e = TypeError | Inr r \<Rightarrow> False"
  by code_simp

lemma example_accepted:
  obtains cfg rg' warned g where "example_load (TStr ''prepend'') = Inr (cfg, rg', warned)"
    "cf_goal cfg = Some g" "go_ledger g = ''/p/logs/l.md''" "pc_list (cf_phases cfg) = None"
  using example_load_ok by (auto split: sum.splits prod.splits)

theorem accepted_config_well_formed_witness:
  "\<exists>cfg r. example_load (TStr ''prepend'') = Inr (cfg, r) \<and> wf_config example_fns cfg"
proof -
  obtain cfg rg' warned g where e: "example_load (TStr ''prepend'') = Inr (cfg, rg', warned)"
    by (rule example_accepted)
  show ?thesis using e accepted_config_well_formed [OF e [unfolded example_load_def]] by blast
qed


theorem accepted_goal_ledger_witness:
  "\<exists>cfg r. example_load (TStr ''prepend'') = Inr (cfg, r) \<and> ledger_reaches_prompt cfg ''/p/logs/l.md'' None"
proof -
  obtain cfg rg' warned g where e: "example_load (TStr ''prepend'') = Inr (cfg, rg', warned)"
    "cf_goal cfg = Some g" "go_ledger g = ''/p/logs/l.md''" "pc_list (cf_phases cfg) = None"
    by (rule example_accepted)
  show ?thesis using e accepted_goal_ledger [OF e(1) [unfolded example_load_def] e(2)] by auto
qed

end
