(* ===== verification/Goal.thy ===== *)
theory Goal
  imports Config_Load Text_Lines "HOL-Library.AList"
begin

section \<open>Goal checks and the advisory treadmill (agent\_runner/goal.py, \_bounded.py)\<close>

text \<open>
  The bounded subprocess primitive as the waits it makes and the signals it sends; the goal
  checks that run under it; the lessons ledger, a text of blocks cut to 8192 bytes; the
  treadmill assessment over the event log, its three gates, and the runner's advisory fold.
  The processes are observations (how each wait ended), \<open>redact\<close> stands for
  \_redact.redact\_secrets, and the printed form of a float comes from the host.
\<close>

subsection \<open>A command under a deadline\<close>

text \<open>
  \<open>run_bounded\<close> waits on the child up to three times. What a wait ended with: the child's exit
  (the seconds it took, the exit status, the output), the deadline, or another exception (a
  \<open>KeyboardInterrupt\<close>) after some seconds.
\<close>

datatype wait_end = Exited real int string | Expired | Interrupted real

definition wait_secs :: "int \<Rightarrow> wait_end \<Rightarrow> real" where
  "wait_secs limit w = (case w of Exited d rc out \<Rightarrow> d | Expired \<Rightarrow> real_of_int limit | Interrupted d \<Rightarrow> d)"

record bounded_result =
  bd_rc :: "int option"
  bd_stdout :: string
  bd_timed_out :: bool

text \<open>What the host does to one run: the spawn error, the waits, the output read before the drain.\<close>

record bounded_obs =
  bo_spawn :: "py_error option"
  bo_first :: wait_end
  bo_second :: wait_end
  bo_drain :: wait_end
  bo_last :: wait_end
  bo_partial :: string

datatype bounded_act = SpawnGroup | TermChild | KillChildGroup | ClosePipes | WaitChild int

datatype bounded_end = SpawnRaised py_error | Reraised | Returned bounded_result

text \<open>
  The handler of \<open>BaseException\<close>: kill the group, close the pipes, wait once more (the deadline
  is swallowed, another exception replaces the first), re-raise.
\<close>

definition reap_interrupted :: "bounded_obs \<Rightarrow> bounded_act list \<times> real" where
  "reap_interrupted ob = ([KillChildGroup, ClosePipes, WaitChild kill_grace_s], wait_secs kill_grace_s (bo_last ob))"

text \<open>\<open>_drain_after_kill\<close>: the exit status is unknown when the killed child is still not reaped.\<close>

definition drain_after_kill :: "bounded_obs \<Rightarrow> bounded_act list \<times> (int option \<times> string) option" where
  "drain_after_kill ob =
     ([ClosePipes, WaitChild kill_grace_s],
      (case bo_drain ob of
         Exited d rc out \<Rightarrow> Some (Some rc, bo_partial ob)
       | Expired \<Rightarrow> Some (None, bo_partial ob)
       | Interrupted d \<Rightarrow> None))"

definition run_bounded :: "int \<Rightarrow> bounded_obs \<Rightarrow> bounded_end \<times> bounded_act list \<times> real" where
  "run_bounded timeout_s ob =
     (case bo_spawn ob of
        Some e \<Rightarrow> (SpawnRaised e, [], 0)
      | None \<Rightarrow>
          let reraise = (\<lambda>acts secs. case reap_interrupted ob of (more_acts, d) \<Rightarrow>
                           (Reraised, acts @ more_acts, secs + d));
              a1 = [SpawnGroup, WaitChild timeout_s];
              s1 = wait_secs timeout_s (bo_first ob)
          in (case bo_first ob of
                Exited d rc out \<Rightarrow> (Returned \<lparr>bd_rc = Some rc, bd_stdout = out, bd_timed_out = False\<rparr>, a1, s1)
              | Interrupted d \<Rightarrow> reraise a1 s1
              | Expired \<Rightarrow>
                  let a2 = a1 @ [TermChild, WaitChild kill_grace_s];
                      s2 = s1 + wait_secs kill_grace_s (bo_second ob)
                  in (case bo_second ob of
                        Exited d rc out \<Rightarrow>
                          (Returned \<lparr>bd_rc = Some rc, bd_stdout = out, bd_timed_out = True\<rparr>, a2, s2)
                      | Interrupted d \<Rightarrow> reraise a2 s2
                      | Expired \<Rightarrow>
                          (case drain_after_kill ob of (drain_acts, r) \<Rightarrow>
                             let a3 = a2 @ [KillChildGroup] @ drain_acts;
                                 s3 = s2 + wait_secs kill_grace_s (bo_drain ob)
                             in (case r of
                                   None \<Rightarrow> reraise a3 s3
                                 | Some (rc, out) \<Rightarrow>
                                     (Returned \<lparr>bd_rc = rc, bd_stdout = out, bd_timed_out = True\<rparr>, a3, s3))))))"

text \<open>What \<open>communicate(timeout=..)\<close> and \<open>wait(timeout=..)\<close> document: a wait ends within its limit.\<close>

definition waits_within :: "int \<Rightarrow> bounded_obs \<Rightarrow> bool" where
  "waits_within timeout_s ob \<longleftrightarrow>
     wait_secs timeout_s (bo_first ob) \<le> real_of_int timeout_s
     \<and> (\<forall>w \<in> {bo_second ob, bo_drain ob, bo_last ob}. wait_secs kill_grace_s w \<le> real_of_int kill_grace_s)"

lemma run_bounded_time:
  assumes "waits_within timeout_s ob" "0 \<le> timeout_s" "run_bounded timeout_s ob = (r, acts, secs)"
  shows "secs \<le> real_of_int timeout_s + (if r = Reraised then 3 else 2) * real_of_int kill_grace_s"
  using assms
  by (auto simp: run_bounded_def reap_interrupted_def drain_after_kill_def waits_within_def Let_def kill_grace_s_def
      wait_secs_def split: option.splits wait_end.splits)

text \<open>
  A run that spawned ends reaped: its child exited in a wait, or its whole group was killed and
  waited for; an exception always passes through the kill.
\<close>

lemma run_bounded_reaped:
  assumes "run_bounded timeout_s ob = (r, acts, secs)" "bo_spawn ob = None"
  shows "(\<exists>res. r = Returned res \<and> bd_rc res \<noteq> None) \<or> KillChildGroup \<in> set acts"
    and "r = Reraised \<Longrightarrow> KillChildGroup \<in> set acts"
    and "TermChild \<in> set acts \<longleftrightarrow> bo_first ob = Expired"
    and "\<forall>res. r = Returned res \<longrightarrow> (bd_timed_out res \<longleftrightarrow> bo_first ob = Expired)"
    and "r \<noteq> SpawnRaised e"
  using assms
  by (auto simp: run_bounded_def reap_interrupted_def drain_after_kill_def Let_def
      split: option.splits wait_end.splits)

text \<open>
  A child that exits on SIGTERM ends the run without a kill of its group: a descendant that does
  not hold the pipes survives a breach.
\<close>

lemma run_bounded_leader_only:
  assumes "bo_spawn ob = None" "bo_first ob = Expired" "bo_second ob = Exited d rc out"
  shows "\<exists>secs. run_bounded timeout_s ob =
    (Returned \<lparr>bd_rc = Some rc, bd_stdout = out, bd_timed_out = True\<rparr>,
     [SpawnGroup, WaitChild timeout_s, TermChild, WaitChild kill_grace_s], secs)"
  using assms by (simp add: run_bounded_def Let_def)

subsection \<open>Running the checks\<close>

fun first_finite :: "string list \<Rightarrow> real option" where
  "first_finite [] = None"
| "first_finite (tok # toks) =
     (case py_float_of_str tok of Some (Finite x) \<Rightarrow> Some x | _ \<Rightarrow> first_finite toks)"

definition last_float_token :: "string \<Rightarrow> real option" where
  "last_float_token stdout = first_finite (rev (py_words stdout))"

definition resolve_check_cwd :: "host_fns \<Rightarrow> string option \<Rightarrow> string \<Rightarrow> string" where
  "resolve_check_cwd hf check_cwd work_dir =
     (case check_cwd of
        None \<Rightarrow> work_dir
      | Some [] \<Rightarrow> work_dir
      | Some p \<Rightarrow> resolve_against_work_dir hf (hf_expanduser hf p) work_dir)"

text \<open>A float as an event field: its value and, from the host, its printed form.\<close>

definition float_field :: "(real \<Rightarrow> string) \<Rightarrow> real option \<Rightarrow> pyval" where
  "float_field num v = (case v of None \<Rightarrow> PNone | Some x \<Rightarrow> PFloat x (num x))"

definition check_skipped :: "goal_check_config \<Rightarrow> event" where
  "check_skipped c = [''name'' \<mapsto> PStr (gc_name c), ''skipped'' \<mapsto> PBool True]"

definition check_failed :: "goal_check_config \<Rightarrow> string \<Rightarrow> event" where
  "check_failed c err =
     [''name'' \<mapsto> PStr (gc_name c), ''satisfied'' \<mapsto> PBool False, ''value'' \<mapsto> PNone,
      ''timed_out'' \<mapsto> PBool False, ''skipped'' \<mapsto> PBool False, ''error'' \<mapsto> PStr (take 200 err)]"

definition check_result :: "(real \<Rightarrow> string) \<Rightarrow> goal_check_config \<Rightarrow> bounded_result \<Rightarrow> event" where
  "check_result num c r =
     [''name'' \<mapsto> PStr (gc_name c), ''satisfied'' \<mapsto> PBool (bd_rc r = Some 0 \<and> \<not> bd_timed_out r),
      ''value'' \<mapsto> float_field num (last_float_token (bd_stdout r)),
      ''timed_out'' \<mapsto> PBool (bd_timed_out r), ''skipped'' \<mapsto> PBool False]"

text \<open>
  One clock reading and one run per check; the result says whether an exception left the loop
  (an interrupt, or a spawn error other than \<open>OSError\<close> and \<open>ValueError\<close>) and how long it waited.
\<close>

fun run_goal_checks ::
  "(real \<Rightarrow> string) \<Rightarrow> bool \<Rightarrow> goal_check_config list \<Rightarrow> (clock \<times> bounded_obs) list \<Rightarrow> log_dir
     \<Rightarrow> (bool \<times> real \<times> log_dir) option" where
  "run_goal_checks num dry_run [] obs logd = Some (False, 0, logd)"
| "run_goal_checks num dry_run (c # cs) [] logd = None"
| "run_goal_checks num dry_run (c # cs) ((ck, ob) # obs) logd =
     (let go = (\<lambda>d ev. map_option (\<lambda>(esc, secs, l). (esc, d + secs, l))
                   (run_goal_checks num dry_run cs obs (emit_builtin ck ''goal_check'' ev logd)))
      in if dry_run then go 0 (check_skipped c)
         else (case run_bounded (gc_timeout_s c) ob of (r, acts, d) \<Rightarrow>
                 (case r of
                    SpawnRaised (OSError m) \<Rightarrow> go d (check_failed c m)
                  | SpawnRaised (ValueError m) \<Rightarrow> go d (check_failed c m)
                  | SpawnRaised e \<Rightarrow> Some (True, d, logd)
                  | Reraised \<Rightarrow> Some (True, d, logd)
                  | Returned res \<Rightarrow> go d (check_result num c res))))"

lemma bounded_time_spawn: "run_bounded t ob = (SpawnRaised e, acts, d) \<Longrightarrow> d = 0"
  by (auto simp: run_bounded_def reap_interrupted_def drain_after_kill_def Let_def
      split: option.splits wait_end.splits)

lemma goal_checks_step:
  assumes "run_goal_checks num dry (c # cs) ((ck, ob) # obs) logd = Some (False, secs, logd')"
  shows "\<exists>ev d s0. run_goal_checks num dry cs obs (emit_builtin ck ''goal_check'' ev logd) = Some (False, s0, logd')
    \<and> secs = d + s0 \<and> ev ''name'' = Some (PStr (gc_name c))
    \<and> (d = 0 \<or> (\<exists>res acts. run_bounded (gc_timeout_s c) ob = (Returned res, acts, d)))"
proof (cases dry)
  case True
  then have "run_goal_checks num dry cs obs (emit_builtin ck ''goal_check'' (check_skipped c) logd) = Some (False, secs, logd')"
    using assms by auto
  then show ?thesis
    by (rule_tac exI [of _ "check_skipped c"], rule_tac exI [of _ 0], rule_tac exI [of _ secs])
      (simp add: check_skipped_def)
next
  case False
  obtain r acts d where b: "run_bounded (gc_timeout_s c) ob = (r, acts, d)" by (metis prod_cases3)
  have "\<exists>ev. map_option (\<lambda>(esc, secs, l). (esc, d + secs, l))
        (run_goal_checks num dry cs obs (emit_builtin ck ''goal_check'' ev logd)) = Some (False, secs, logd')
      \<and> ev ''name'' = Some (PStr (gc_name c)) \<and> r \<noteq> Reraised"
  proof (cases r)
    case (SpawnRaised e)
    then obtain m where "e = OSError m \<or> e = ValueError m"
      using assms False b by (cases e) (simp_all add: Let_def)
    then show ?thesis using assms False b SpawnRaised
      by (rule_tac exI [of _ "check_failed c m"]) (auto simp: Let_def check_failed_def)
  next
    case Reraised
    then show ?thesis using assms False b by (simp add: Let_def)
  next
    case (Returned res)
    then show ?thesis using assms False b
      by (rule_tac exI [of _ "check_result num c res"]) (simp add: Let_def check_result_def)
  qed
  then obtain ev where ev: "map_option (\<lambda>(esc, secs, l). (esc, d + secs, l))
        (run_goal_checks num dry cs obs (emit_builtin ck ''goal_check'' ev logd)) = Some (False, secs, logd')"
      "ev ''name'' = Some (PStr (gc_name c))" "r \<noteq> Reraised" by blast
  then obtain s0 where "run_goal_checks num dry cs obs (emit_builtin ck ''goal_check'' ev logd) = Some (False, s0, logd')"
      "secs = d + s0" by auto
  moreover have "d = 0 \<or> (\<exists>res acts. run_bounded (gc_timeout_s c) ob = (Returned res, acts, d))"
    using b bounded_time_spawn ev(3) by (cases r) blast+
  ultimately show ?thesis using ev(2) by blast
qed

lemma goal_checks_time:
  assumes "run_goal_checks num dry cs obs logd = Some (False, secs, logd')"
    and "list_all (\<lambda>c. 0 \<le> gc_timeout_s c) cs"
    and "list_all (\<lambda>(c, ck, ob). waits_within (gc_timeout_s c) ob) (zip cs obs)"
  shows "secs \<le> real_of_int (sum_list (map gc_timeout_s cs) + int (length cs) * 2 * kill_grace_s)"
  using assms
proof (induction cs arbitrary: obs logd secs)
  case (Cons c cs)
  then obtain ck ob obs' where o: "obs = (ck, ob) # obs'" by (cases obs) auto
  have w: "waits_within (gc_timeout_s c) ob" "0 \<le> gc_timeout_s c" using Cons.prems(2,3) o by auto
  obtain ev d0 s0 where s:
      "run_goal_checks num dry cs obs' (emit_builtin ck ''goal_check'' ev logd) = Some (False, s0, logd')"
      "secs = d0 + s0" "d0 = 0 \<or> (\<exists>res acts. run_bounded (gc_timeout_s c) ob = (Returned res, acts, d0))"
    using goal_checks_step [OF Cons.prems(1) [unfolded o]] by blast
  have "d0 \<le> real_of_int (gc_timeout_s c + 2 * kill_grace_s)"
    using s(3) w run_bounded_time [OF w] by (fastforce simp: kill_grace_s_def)
  then show ?case
    using Cons.IH [OF s(1)] Cons.prems(2,3) o s(2) by (simp add: algebra_simps)
qed simp

lemma goal_checks_events:
  assumes "run_goal_checks num dry cs obs logd = Some (False, secs, logd')"
  shows "\<exists>evs. logd' = fold (\<lambda>(ck, ev). emit_builtin ck ''goal_check'' ev) evs logd
    \<and> map (\<lambda>(ck, ev). ev ''name'') evs = map (\<lambda>c. Some (PStr (gc_name c))) cs
    \<and> map fst evs = map fst (take (length cs) obs)"
  using assms
proof (induction cs arbitrary: obs logd secs)
  case Nil
  then show ?case by (intro exI [of _ "[]"]) simp
next
  case (Cons c cs)
  then obtain ck ob obs' where o: "obs = (ck, ob) # obs'" by (cases obs) auto
  obtain ev s0 where s: "run_goal_checks num dry cs obs' (emit_builtin ck ''goal_check'' ev logd) = Some (False, s0, logd')"
      "ev ''name'' = Some (PStr (gc_name c))"
    using goal_checks_step [OF Cons.prems(1) [unfolded o]] by blast
  obtain evs where "logd' = fold (\<lambda>(ck, ev). emit_builtin ck ''goal_check'' ev) evs (emit_builtin ck ''goal_check'' ev logd)"
    "map (\<lambda>(ck, ev). ev ''name'') evs = map (\<lambda>c. Some (PStr (gc_name c))) cs"
    "map fst evs = map fst (take (length cs) obs')" using Cons.IH [OF s(1)] by blast
  then show ?case using o s(2) by (intro exI [of _ "(ck, ev) # evs"]) simp
qed

subsection \<open>The lessons ledger\<close>

record advisory =
  ad_observation :: string
  ad_question :: string
  ad_confidence :: string

definition ledger_max_bytes :: nat where "ledger_max_bytes = 8192"

definition newline :: char where "newline = CHR 0x0A"

definition block_sep :: string where "block_sep = [newline, newline]"

text \<open>The length of the UTF-8 encoding of a Latin-1 text.\<close>

definition utf8_len :: "string \<Rightarrow> nat" where
  "utf8_len s = sum_list (map (\<lambda>c. if char_code c < 128 then 1 else 2) s)"

text \<open>\<open>s.split("\n\n")\<close>.\<close>

fun split_blocks :: "string \<Rightarrow> string list" where
  "split_blocks [] = [[]]"
| "split_blocks [c] = [[c]]"
| "split_blocks (c # d # cs) =
     (if c = newline \<and> d = newline then [] # split_blocks cs
      else (case split_blocks (d # cs) of [] \<Rightarrow> [[c]] | p # ps \<Rightarrow> (c # p) # ps))"

definition format_advisory_block :: "advisory \<Rightarrow> string \<Rightarrow> string" where
  "format_advisory_block a ts =
     ''### Goal assessment -- '' @ ts @ [newline] @ ''- Observation: '' @ ad_observation a @ [newline]
     @ ''- Question: '' @ ad_question a @ [newline] @ ''- Confidence: '' @ ad_confidence a"

definition ledger_blocks :: "string \<Rightarrow> string list" where
  "ledger_blocks existing = filter (\<lambda>b. py_strip b \<noteq> []) (split_blocks existing)"

fun keep_blocks :: "string list \<Rightarrow> string list \<Rightarrow> nat \<Rightarrow> string list" where
  "keep_blocks [] kept used = kept"
| "keep_blocks (block # blocks) kept used =
     (let addition = utf8_len block + (if kept = [] then 0 else utf8_len block_sep)
      in if kept \<noteq> [] \<and> used + addition > ledger_max_bytes then kept
         else keep_blocks blocks (kept @ [block]) (used + addition))"

definition ledger_content :: "string \<Rightarrow> string \<Rightarrow> string" where
  "ledger_content existing new_block = join block_sep (keep_blocks (new_block # ledger_blocks existing) [] 0)"

definition redact_advisory :: "(string \<Rightarrow> string) \<Rightarrow> advisory \<Rightarrow> advisory" where
  "redact_advisory redact a =
     \<lparr>ad_observation = redact (ad_observation a), ad_question = redact (ad_question a),
      ad_confidence = redact (ad_confidence a)\<rparr>"

text \<open>
  The ledger file and whether a temporary file is left. A fault is an exception of the reading
  (other than \<open>FileNotFoundError\<close>), of the creation of the directory, of the writing of the
  temporary file, or of the replacement.
\<close>

record ledger_fs =
  lf_ledger :: "string option"
  lf_tmp :: bool

datatype ledger_fault = NoFault | ReadFault py_error | MkdirFault py_error | WriteFault py_error | ReplaceFault py_error

definition write_ledger_advisory ::
  "(string \<Rightarrow> string) \<Rightarrow> clock \<Rightarrow> ledger_fault \<Rightarrow> advisory \<Rightarrow> ledger_fs \<times> log_dir
     \<Rightarrow> py_error option \<times> ledger_fs \<times> log_dir" where
  "write_ledger_advisory redact ck fault advisory st =
     (case st of (fs, logd) \<Rightarrow>
      let a = redact_advisory redact advisory;
          new_block = format_advisory_block a (ck_iso ck);
          existing = (case lf_ledger fs of None \<Rightarrow> [] | Some s \<Rightarrow> s)
      in (case fault of
            ReadFault e \<Rightarrow> (Some e, fs, logd)
          | MkdirFault e \<Rightarrow> (Some e, fs, logd)
          | WriteFault e \<Rightarrow> (Some e, fs\<lparr>lf_tmp := False\<rparr>, logd)
          | ReplaceFault e \<Rightarrow> (Some e, fs\<lparr>lf_tmp := False\<rparr>, logd)
          | NoFault \<Rightarrow>
              (None, \<lparr>lf_ledger = Some (ledger_content existing new_block), lf_tmp = False\<rparr>,
               emit_builtin ck ''goal_assessment''
                 [''observation'' \<mapsto> PStr (ad_observation a), ''question'' \<mapsto> PStr (ad_question a),
                  ''confidence'' \<mapsto> PStr (ad_confidence a)] logd)))"

text \<open>
  The abstract ledger is its list of blocks, and this is the length of the text they join to.
\<close>

definition joined_len :: "string list \<Rightarrow> nat" where
  "joined_len bs = sum_list (map utf8_len bs) + (length bs - 1) * 2"

lemma utf8_len_append [simp]: "utf8_len (a @ b) = utf8_len a + utf8_len b"
  by (simp add: utf8_len_def)

lemma utf8_len_sep [simp]: "utf8_len block_sep = 2"
  by (simp add: utf8_len_def block_sep_def newline_def char_code_def)

lemma utf8_len_Nil [simp]: "utf8_len [] = 0"
  by (simp add: utf8_len_def)

lemma utf8_len_join: "utf8_len (join block_sep bs) = joined_len bs"
  by (induction block_sep bs rule: join.induct) (simp_all add: joined_len_def)

lemma joined_len_snoc: "bs \<noteq> [] \<Longrightarrow> joined_len (bs @ [b]) = joined_len bs + utf8_len b + 2"
  by (cases bs) (simp_all add: joined_len_def)

text \<open>What is kept: a prefix, within the cap unless it is one block, and maximal.\<close>

lemma keep_blocks_spec:
  assumes "kept \<noteq> []" "used = joined_len kept"
  shows "\<exists>n. keep_blocks blocks kept used = kept @ take n blocks \<and> n \<le> length blocks
    \<and> (\<forall>m. 0 < m \<and> m \<le> n \<longrightarrow> joined_len (kept @ take m blocks) \<le> ledger_max_bytes)
    \<and> (n < length blocks \<longrightarrow> joined_len (kept @ take (Suc n) blocks) > ledger_max_bytes)"
  using assms
proof (induction blocks arbitrary: kept used)
  case Nil
  then show ?case by auto
next
  case (Cons b bs)
  let ?t = "joined_len (kept @ [b])"
  have t: "used + (utf8_len b + 2) = ?t" using Cons.prems by (simp add: joined_len_snoc)
  show ?case
  proof (cases "?t > ledger_max_bytes")
    case True
    then show ?thesis using Cons.prems t by (intro exI [of _ 0]) (simp add: Let_def)
  next
    case False
    obtain n where n: "keep_blocks bs (kept @ [b]) ?t = (kept @ [b]) @ take n bs" "n \<le> length bs"
      "\<forall>m. 0 < m \<and> m \<le> n \<longrightarrow> joined_len ((kept @ [b]) @ take m bs) \<le> ledger_max_bytes"
      "n < length bs \<longrightarrow> joined_len ((kept @ [b]) @ take (Suc n) bs) > ledger_max_bytes"
      using Cons.IH [of "kept @ [b]" ?t] by auto
    have "joined_len (kept @ take m (b # bs)) \<le> ledger_max_bytes" if "0 < m" "m \<le> Suc n" for m
      using n(3) [rule_format, of "m - 1"] that False by (cases m; cases "m = 1") (auto simp: take_Cons')
    moreover have "keep_blocks (b # bs) kept used = kept @ take (Suc n) (b # bs)"
      using Cons.prems t False n(1) by (simp add: Let_def)
    ultimately show ?thesis using n(2,4) by (intro exI [of _ "Suc n"]) auto
  qed
qed

lemma keep_blocks_first:
  "\<exists>n. keep_blocks (b # bs) [] 0 = b # take n bs \<and> n \<le> length bs
    \<and> (0 < n \<longrightarrow> joined_len (b # take n bs) \<le> ledger_max_bytes)
    \<and> (n < length bs \<longrightarrow> joined_len (b # take (Suc n) bs) > ledger_max_bytes)"
proof -
  have "joined_len [b] = utf8_len b" by (simp add: joined_len_def)
  then show ?thesis using keep_blocks_spec [of "[b]" "utf8_len b" bs] by (auto simp: Let_def)
qed

subsection \<open>Blocks survive a write and a read\<close>

text \<open>A block that splits off: no blank line inside, no newline at its end.\<close>

fun has_blank :: "string \<Rightarrow> bool" where
  "has_blank (c # d # cs) = (c = newline \<and> d = newline \<or> has_blank (d # cs))"
| "has_blank _ = False"

definition sealed :: "string \<Rightarrow> bool" where
  "sealed b \<longleftrightarrow> \<not> has_blank b \<and> (b \<noteq> [] \<longrightarrow> last b \<noteq> newline)"

lemma split_blocks_not_Nil [simp]: "split_blocks s \<noteq> []"
  by (induction s rule: split_blocks.induct) (auto split: list.splits)

lemma split_no_blank: "\<not> has_blank b \<Longrightarrow> split_blocks b = [b]"
  by (induction b rule: split_blocks.induct) auto

lemma split_sealed: "sealed b \<Longrightarrow> split_blocks (b @ block_sep @ rest) = b # split_blocks rest"
proof (induction b rule: split_blocks.induct)
  case 1
  then show ?case by (simp add: block_sep_def)
next
  case (2 c)
  then show ?case by (simp add: block_sep_def sealed_def)
next
  case (3 c d cs)
  then show ?case by (auto simp: sealed_def split: if_splits)
qed

text \<open>What a split yields: every piece but the last is sealed, the last has no blank line.\<close>

lemma split_first:
  assumes "split_blocks (d # cs) = p # ps"
  shows "p = [] \<and> d = newline \<or> p \<noteq> [] \<and> hd p = d"
  using assms by (cases cs) (auto split: if_splits list.splits)

lemma has_blank_Cons: "has_blank (c # p) \<longleftrightarrow> (p \<noteq> [] \<and> c = newline \<and> hd p = newline) \<or> has_blank p"
  by (cases p) auto

lemma sealed_Cons:
  assumes "sealed p" "\<not> (c = newline \<and> (p = [] \<or> hd p = newline))"
  shows "sealed (c # p)"
  using assms by (auto simp: sealed_def has_blank_Cons)

lemma split_pieces:
  "list_all sealed (butlast (split_blocks s)) \<and> \<not> has_blank (last (split_blocks s))"
proof (induction s rule: split_blocks.induct)
  case (3 c d cs)
  show ?case
  proof (cases "c = newline \<and> d = newline")
    case True
    then show ?thesis using 3(1) by (simp add: sealed_def)
  next
    case False
    obtain p ps where p: "split_blocks (d # cs) = p # ps" by (cases "split_blocks (d # cs)") auto
    have d: "\<not> (c = newline \<and> (p = [] \<or> hd p = newline))"
      using split_first [OF p] False by auto
    then have "\<not> has_blank (c # p) \<longleftrightarrow> \<not> has_blank p" by (auto simp: has_blank_Cons)
    then show ?thesis using 3(2) [OF False] p False sealed_Cons [OF _ d] by auto
  qed
qed (auto simp: sealed_def)

definition block_list :: "string list \<Rightarrow> bool" where
  "block_list bs \<longleftrightarrow> bs \<noteq> [] \<and> list_all sealed (butlast bs) \<and> \<not> has_blank (last bs)"

lemma split_join:
  "block_list bs \<Longrightarrow> split_blocks (join block_sep bs) = bs"
proof (induction block_sep bs rule: join.induct)
  case (3 x y ys)
  then have "sealed x" "block_list (y # ys)" by (auto simp: block_list_def)
  then show ?case using 3(1) split_sealed [of x "join block_sep (y # ys)"] by simp
qed (auto simp: block_list_def split_no_blank)

lemma sealed_no_blank: "sealed b \<Longrightarrow> \<not> has_blank b"
  by (simp add: sealed_def)

lemma pieces_filter:
  "list_all sealed (butlast bs) \<and> (bs \<noteq> [] \<longrightarrow> \<not> has_blank (last bs))
   \<Longrightarrow> list_all sealed (butlast (filter P bs)) \<and> (filter P bs \<noteq> [] \<longrightarrow> \<not> has_blank (last (filter P bs)))"
proof (induction bs)
  case (Cons b bs)
  show ?case
  proof (cases "bs = []")
    case False
    then have "sealed b" using Cons.prems by auto
    then show ?thesis using Cons False by (auto simp: sealed_no_blank)
  qed (use Cons.prems in auto)
qed simp

lemma pieces_take:
  "list_all sealed (butlast bs) \<and> (bs \<noteq> [] \<longrightarrow> \<not> has_blank (last bs))
   \<Longrightarrow> list_all sealed (butlast (take n bs)) \<and> (take n bs \<noteq> [] \<longrightarrow> \<not> has_blank (last (take n bs)))"
proof (induction bs arbitrary: n)
  case (Cons b bs)
  show ?case
  proof (cases n)
    case (Suc m)
    show ?thesis
    proof (cases "bs = []")
      case False
      then have "sealed b" using Cons.prems by auto
      then show ?thesis using Cons.IH [of m] Cons.prems False Suc by (auto simp: sealed_no_blank)
    qed (use Cons.prems Suc in auto)
  qed simp
qed simp

lemma ledger_blocks_pieces:
  "list_all sealed (butlast (ledger_blocks s)) \<and> (ledger_blocks s \<noteq> [] \<longrightarrow> \<not> has_blank (last (ledger_blocks s)))"
  unfolding ledger_blocks_def by (rule pieces_filter) (simp add: split_pieces)

lemma ledger_refines:
  assumes new: "sealed new_block" "py_strip new_block \<noteq> []"
  shows "\<exists>n. ledger_blocks (ledger_content existing new_block) = new_block # take n (ledger_blocks existing)
    \<and> n \<le> length (ledger_blocks existing)
    \<and> utf8_len (ledger_content existing new_block) = joined_len (new_block # take n (ledger_blocks existing))
    \<and> (0 < n \<longrightarrow> utf8_len (ledger_content existing new_block) \<le> ledger_max_bytes)
    \<and> (n < length (ledger_blocks existing) \<longrightarrow>
         joined_len (new_block # take (Suc n) (ledger_blocks existing)) > ledger_max_bytes)"
proof -
  let ?bs = "ledger_blocks existing"
  obtain n where n: "keep_blocks (new_block # ?bs) [] 0 = new_block # take n ?bs" "n \<le> length ?bs"
    "0 < n \<longrightarrow> joined_len (new_block # take n ?bs) \<le> ledger_max_bytes"
    "n < length ?bs \<longrightarrow> joined_len (new_block # take (Suc n) ?bs) > ledger_max_bytes"
    using keep_blocks_first by blast
  have c: "ledger_content existing new_block = join block_sep (new_block # take n ?bs)"
    unfolding ledger_content_def n(1) ..
  have "block_list (new_block # take n ?bs)"
    using pieces_take [OF ledger_blocks_pieces, of n existing] new by (auto simp: block_list_def sealed_no_blank)
  then have s: "split_blocks (ledger_content existing new_block) = new_block # take n ?bs"
    unfolding c by (rule split_join)
  have "\<forall>b \<in> set ?bs. py_strip b \<noteq> []" by (simp add: ledger_blocks_def)
  then have "filter (\<lambda>b. py_strip b \<noteq> []) (take n ?bs) = take n ?bs"
    by (auto simp: filter_id_conv dest: in_set_takeD)
  then have "ledger_blocks (ledger_content existing new_block) = new_block # take n ?bs"
    using new(2) by (simp add: ledger_blocks_def [of "ledger_content existing new_block"] s)
  moreover have "utf8_len (ledger_content existing new_block) = joined_len (new_block # take n ?bs)"
    unfolding c utf8_len_join ..
  ultimately show ?thesis using n by auto
qed

subsection \<open>The treadmill assessment\<close>

definition treadmill_window_rounds :: nat where "treadmill_window_rounds = 3"

definition round_num_of :: "event \<Rightarrow> int option" where
  "round_num_of ev = (case ev_get ev ''round_num'' of PInt n \<Rightarrow> Some n | _ \<Rightarrow> None)"

fun tag_rounds :: "int option \<Rightarrow> event list \<Rightarrow> (int option \<times> event) list" where
  "tag_rounds current [] = []"
| "tag_rounds current (ev # evs) =
     (let current' = (case round_num_of ev of None \<Rightarrow> current | Some rn \<Rightarrow> Some rn)
      in (current', ev) # tag_rounds current' evs)"

text \<open>
  \<open>==\<close> on two decoded values: numbers by value, \<open>nan\<close> differs from everything, a list or object
  by its printed form.
\<close>

definition py_equal :: "pyval \<Rightarrow> pyval \<Rightarrow> bool" where
  "py_equal a b =
     (if a = PNan \<or> b = PNan then False
      else case (pv_real a, pv_real b) of
             (Some x, Some y) \<Rightarrow> x = y
           | _ \<Rightarrow> a = b)"

fun head_pair :: "event list \<Rightarrow> pyval \<times> pyval \<Rightarrow> pyval \<times> pyval" where
  "head_pair [] acc = acc"
| "head_pair (ev # bucket) (before, after) =
     head_pair bucket
       (if is_kind ev ''round_substrate_before'' then (ev_get ev ''git_head'', after)
        else if is_kind ev ''round_substrate_after'' then (before, ev_get ev ''git_head'')
        else (before, after))"

definition git_head_moved :: "event list \<Rightarrow> bool" where
  "git_head_moved bucket =
     (case head_pair bucket (PNone, PNone) of (before, after) \<Rightarrow>
        before \<noteq> PNone \<and> after \<noteq> PNone \<and> \<not> py_equal before after)"

definition round_has_activity :: "event list \<Rightarrow> bool" where
  "round_has_activity bucket \<longleftrightarrow>
     list_ex (\<lambda>ev. is_kind ev ''dirty_detected'' \<or> is_kind ev ''dirty_auto_committed'') bucket
     \<or> git_head_moved bucket"

text \<open>\<open>None\<close> is both a missing value and one that does not coerce.\<close>

definition coerced_check_value :: "pyval \<Rightarrow> real option res" where
  "coerced_check_value v = (if v = PNone then Inr None else coerce_float v)"

type_synonym verdict_value = "bool \<times> real option"

fun signature_fold :: "event list \<Rightarrow> (string \<times> verdict_value) list \<Rightarrow> (string \<times> verdict_value) list res" where
  "signature_fold [] sig = Inr sig"
| "signature_fold (ev # bucket) sig =
     (if \<not> is_kind ev ''goal_check'' \<or> py_truthy (ev_get ev ''skipped'') then signature_fold bucket sig
      else case ev_get ev ''name'' of
             PStr name \<Rightarrow>
               res_bind (coerced_check_value (ev_get ev ''value'')) (\<lambda>v.
                 signature_fold bucket (AList.update name (py_truthy (ev_get ev ''satisfied''), v) sig))
           | _ \<Rightarrow> signature_fold bucket sig)"

definition check_signature :: "event list \<Rightarrow> (string \<times> verdict_value) list res" where
  "check_signature bucket = signature_fold bucket []"

definition same_signature :: "(string \<times> verdict_value) list \<Rightarrow> (string \<times> verdict_value) list \<Rightarrow> bool" where
  "same_signature a b \<longleftrightarrow> list_all (\<lambda>k. map_of a k = map_of b k) (map fst a @ map fst b)"

definition bucket_of :: "(int option \<times> event) list \<Rightarrow> int \<Rightarrow> event list" where
  "bucket_of tagged rn = map snd (filter (\<lambda>p. fst p = Some rn) tagged)"

definition completed_rounds :: "(int option \<times> event) list \<Rightarrow> int \<Rightarrow> int list" where
  "completed_rounds tagged current_round =
     sort (remdups (filter (\<lambda>rn. rn < current_round) (List.map_filter fst tagged)))"

text \<open>\<open>round_nums[-k:]\<close>; \<open>[-0:]\<close> is the whole list.\<close>

definition window_of :: "nat \<Rightarrow> int list \<Rightarrow> int list" where
  "window_of k rns = (if k = 0 then rns else drop (length rns - k) rns)"

fun series_add :: "(string \<times> verdict_value) list \<Rightarrow> (string \<times> verdict_value list) list \<Rightarrow> (string \<times> verdict_value list) list" where
  "series_add [] series = series"
| "series_add ((name, entry) # sig) series =
     series_add sig
       (AList.update name ((case map_of series name of None \<Rightarrow> [] | Some es \<Rightarrow> es) @ [entry]) series)"

fun check_series :: "event list list \<Rightarrow> (string \<times> verdict_value list) list \<Rightarrow> (string \<times> verdict_value list) list res" where
  "check_series [] series = Inr series"
| "check_series (b # bs) series =
     res_bind (check_signature b) (\<lambda>sig. check_series bs (series_add sig series))"

text \<open>Gate 3's walk over the earlier rounds, newest first, and the marker look-up.\<close>

fun walk_back ::
  "(int \<Rightarrow> event list) \<Rightarrow> (string \<times> verdict_value) list \<Rightarrow> int list \<Rightarrow> int \<Rightarrow> int res" where
  "walk_back bucket sig [] start = Inr start"
| "walk_back bucket sig (rn # rns) start =
     (if \<not> round_has_activity (bucket rn) then Inr start
      else res_bind (check_signature (bucket rn)) (\<lambda>s.
             if \<not> same_signature s sig then Inr start else walk_back bucket sig rns rn))"

definition fired_since :: "(int option \<times> event) list \<Rightarrow> int \<Rightarrow> bool" where
  "fired_since tagged start =
     list_ex (\<lambda>p. is_kind (snd p) ''goal_assessment'') (dropWhile (\<lambda>p. fst p \<noteq> Some start) tagged)"

definition treadmill_advisory :: "nat \<Rightarrow> string list \<Rightarrow> advisory" where
  "treadmill_advisory k names =
     \<lparr>ad_observation = ''For the last '' @ int_digits (int k) @ '' rounds the working tree kept changing, but goal-check(s) ''
        @ join '', '' names @ '' never changed status or value.'',
      ad_question = ''What specifically is blocking progress on the unmet check(s) -- is there a concrete next step, or is the check itself measuring the wrong thing?'',
      ad_confidence = ''medium''\<rparr>"

definition assess_treadmill :: "log_dir \<Rightarrow> int \<Rightarrow> nat \<Rightarrow> advisory option res" where
  "assess_treadmill logd current_round k =
     (let tagged = tag_rounds None (tail_events logd);
          rns = completed_rounds tagged current_round;
          window = window_of k rns;
          bucket = bucket_of tagged
      in if length rns < k then Inr None
         else if \<not> list_all (\<lambda>rn. round_has_activity (bucket rn)) window then Inr None
         else res_bind (check_series (map bucket window) []) (\<lambda>series.
           if series = [] then Inr None
           else if list_ex (\<lambda>(name, es). length (remdups es) > 1) series then Inr None
           else let sig = map (\<lambda>(name, es). (name, hd es)) series in
             if list_all (\<lambda>(name, satisfied, v). satisfied) sig then Inr None
             else res_bind (walk_back bucket sig (rev (take (length rns - k) rns)) (hd window)) (\<lambda>start.
               if fired_since tagged start then Inr None
               else Inr (Some (treadmill_advisory k (sort (map fst series)))))))"

text \<open>
  The advisory fold of the runner: an \<open>OSError\<close> of the ledger is printed and skipped, any other
  exception passes.
\<close>

definition goal_steering ::
  "(string \<Rightarrow> string) \<Rightarrow> clock \<Rightarrow> ledger_fault \<Rightarrow> int \<Rightarrow> ledger_fs \<times> log_dir \<Rightarrow> (bool \<times> ledger_fs \<times> log_dir) res" where
  "goal_steering redact ck fault round_num st =
     res_bind (assess_treadmill (snd st) round_num treadmill_window_rounds) (\<lambda>advice.
       case advice of
         None \<Rightarrow> Inr (False, st)
       | Some a \<Rightarrow>
           (case write_ledger_advisory redact ck fault a st of
              (None, st') \<Rightarrow> Inr (False, st')
            | (Some (OSError m), st') \<Rightarrow> Inr (True, st')
            | (Some e, st') \<Rightarrow> Inl e))"

subsection \<open>When the treadmill advisory fires\<close>

lemma signature_fold_distinct:
  "signature_fold b acc = Inr s \<Longrightarrow> distinct (map fst acc) \<Longrightarrow> distinct (map fst s)"
proof (induction b arbitrary: acc)
  case (Cons ev b)
  then show ?case
    by (auto simp: res_bind_Inr_iff distinct_update split: if_splits pyval.splits)
qed simp

lemma check_signature_distinct: "check_signature b = Inr s \<Longrightarrow> distinct (map fst s)"
  unfolding check_signature_def by (rule signature_fold_distinct) auto

lemma same_signature_iff: "same_signature a b \<longleftrightarrow> map_of a = map_of b"
proof
  assume s: "same_signature a b"
  show "map_of a = map_of b"
  proof
    fix k
    show "map_of a k = map_of b k"
    proof (cases "k \<in> fst ` set a \<union> fst ` set b")
      case True
      then show ?thesis using s by (auto simp: same_signature_def list_all_iff)
    next
      case False
      then show ?thesis by (simp add: map_of_eq_None_iff [THEN iffD2])
    qed
  qed
qed (simp add: same_signature_def list_all_iff)

definition entries :: "(string \<times> verdict_value) list list \<Rightarrow> string \<Rightarrow> verdict_value list" where
  "entries sigs n = List.map_filter (\<lambda>s. map_of s n) sigs"

lemma series_add_distinct: "distinct (map fst series) \<Longrightarrow> distinct (map fst (series_add sig series))"
  by (induction sig series rule: series_add.induct) (auto simp: distinct_update)

lemma series_add_map:
  "distinct (map fst sig) \<Longrightarrow> map_of (series_add sig series) n =
     (case map_of sig n of None \<Rightarrow> map_of series n
      | Some e \<Rightarrow> Some ((case map_of series n of None \<Rightarrow> [] | Some es \<Rightarrow> es) @ [e]))"
proof (induction sig series rule: series_add.induct)
  case (2 name entry sig series)
  have "map_of sig name = None" using 2(2) by (simp add: map_of_eq_None_iff)
  then show ?case using 2 by (auto simp: update_conv split: option.splits)
qed simp

lemma check_series_map:
  assumes "check_series bs series = Inr series'" "distinct (map fst series)" "list_all (\<lambda>(n, es). es \<noteq> []) series"
  shows "\<exists>sigs. map check_signature bs = map Inr sigs \<and> distinct (map fst series')
    \<and> (\<forall>n. map_of series' n =
         (let es = (case map_of series n of None \<Rightarrow> [] | Some es \<Rightarrow> es) @ entries sigs n
          in if es = [] then None else Some es))"
  using assms
proof (induction bs arbitrary: series)
  case Nil
  have "map_of series n \<noteq> Some []" for n
    using Nil.prems(3) by (auto simp: list_all_iff dest: map_of_SomeD)
  then show ?case using Nil by (auto simp: entries_def List.map_filter_def split: option.splits)
next
  case (Cons b bs)
  then obtain sig where s: "check_signature b = Inr sig" "check_series bs (series_add sig series) = Inr series'"
    by (auto simp: res_bind_Inr_iff)
  have d: "distinct (map fst sig)" by (rule check_signature_distinct [OF s(1)])
  have ne: "map_of series n \<noteq> Some []" for n
    using Cons.prems(3) by (auto simp: list_all_iff dest: map_of_SomeD)
  have "map_of (series_add sig series) n \<noteq> Some []" for n
    using ne [of n] by (auto simp: series_add_map [OF d] split: option.splits)
  then have "list_all (\<lambda>(n, es). es \<noteq> []) (series_add sig series)"
    using series_add_distinct [OF Cons.prems(2), of sig] by (fastforce simp: list_all_iff)
  from Cons.IH [OF s(2) series_add_distinct [OF Cons.prems(2)] this]
  obtain sigs where g: "map check_signature bs = map Inr sigs" "distinct (map fst series')"
    "\<And>n. map_of series' n =
         (let es = (case map_of (series_add sig series) n of None \<Rightarrow> [] | Some es \<Rightarrow> es) @ entries sigs n
          in if es = [] then None else Some es)" by blast
  have "map_of series' n =
         (let es = (case map_of series n of None \<Rightarrow> [] | Some es \<Rightarrow> es) @ entries (sig # sigs) n
          in if es = [] then None else Some es)" for n
    using ne [of n] by (auto simp: g(3) series_add_map [OF d] entries_def List.map_filter_def Let_def split: option.splits)
  then show ?case using g(1,2) s(1) by (intro exI [of _ "sig # sigs"]) simp
qed

lemma check_series_total:
  "(\<forall>b \<in> set bs. \<exists>s. check_signature b = Inr s) \<Longrightarrow> \<exists>series'. check_series bs series = Inr series'"
  by (induction bs arbitrary: series) auto

text \<open>
  The declarative reading. \<open>sigma\<close> is the common signature of the window: every check of every
  round of it, with one value per check.
\<close>

definition active_round :: "(int option \<times> event) list \<Rightarrow> int \<Rightarrow> bool" where
  "active_round tagged rn \<longleftrightarrow> round_has_activity (bucket_of tagged rn)"

definition signature_of :: "(int option \<times> event) list \<Rightarrow> int \<Rightarrow> string \<rightharpoonup> verdict_value" where
  "signature_of tagged rn = (case check_signature (bucket_of tagged rn) of Inr s \<Rightarrow> map_of s | Inl e \<Rightarrow> Map.empty)"

definition readable_rounds :: "(int option \<times> event) list \<Rightarrow> int \<Rightarrow> bool" where
  "readable_rounds tagged cur \<longleftrightarrow>
     (\<forall>rn \<in> set (completed_rounds tagged cur). \<exists>s. check_signature (bucket_of tagged rn) = Inr s)"

definition stuck :: "(int option \<times> event) list \<Rightarrow> int \<Rightarrow> nat \<Rightarrow> (string \<rightharpoonup> verdict_value) \<Rightarrow> bool" where
  "stuck tagged cur k sigma \<longleftrightarrow>
     (let rns = completed_rounds tagged cur; window = window_of k rns in
      k \<le> length rns
      \<and> (\<forall>rn \<in> set window. active_round tagged rn \<and> signature_of tagged rn \<subseteq>\<^sub>m sigma)
      \<and> dom sigma = (\<Union>rn \<in> set window. dom (signature_of tagged rn))
      \<and> (\<exists>n v. sigma n = Some (False, v)))"

definition continues :: "(int option \<times> event) list \<Rightarrow> (string \<rightharpoonup> verdict_value) \<Rightarrow> int \<Rightarrow> bool" where
  "continues tagged sigma rn \<longleftrightarrow> active_round tagged rn \<and> signature_of tagged rn = sigma"

definition episode_first :: "(int option \<times> event) list \<Rightarrow> int \<Rightarrow> nat \<Rightarrow> (string \<rightharpoonup> verdict_value) \<Rightarrow> int" where
  "episode_first tagged cur k sigma =
     (let rns = completed_rounds tagged cur in
      last (hd (window_of k rns) # takeWhile (continues tagged sigma) (rev (take (length rns - k) rns))))"

lemma walk_back_eq:
  assumes "\<forall>rn \<in> set rns. \<exists>s. check_signature (bucket_of tagged rn) = Inr s"
  shows "walk_back (bucket_of tagged) sig rns start =
    Inr (last (start # takeWhile (continues tagged (map_of sig)) rns))"
  using assms
proof (induction rns arbitrary: start)
  case (Cons rn rns)
  then obtain s where s: "check_signature (bucket_of tagged rn) = Inr s" by auto
  then have "continues tagged (map_of sig) rn \<longleftrightarrow>
      round_has_activity (bucket_of tagged rn) \<and> same_signature s sig"
    by (simp add: continues_def active_round_def signature_of_def same_signature_iff)
  then show ?case using Cons s by (auto simp: last_ConsR)
qed simp

lemma constant_iff:
  assumes "es \<noteq> []"
  shows "length (remdups es) > 1 \<longleftrightarrow> (\<exists>e \<in> set es. e \<noteq> hd es)"
proof -
  have "length (remdups es) > 1 \<longleftrightarrow> card (set es) > 1" by (simp add: length_remdups_card_conv)
  also have "\<dots> \<longleftrightarrow> \<not> (\<exists>e. set es = {e})"
    using assms by (metis One_nat_def Suc_lessI card_1_singleton_iff card_gt_0_iff finite_set less_irrefl set_empty)
  also have "\<dots> \<longleftrightarrow> (\<exists>e \<in> set es. e \<noteq> hd es)"
    using assms by (metis hd_in_set insertI1 singletonD subsetI subset_singleton_iff empty_iff set_empty)
  finally show ?thesis .
qed

lemma set_entries: "e \<in> set (entries sigs n) \<longleftrightarrow> (\<exists>s \<in> set sigs. map_of s n = Some e)"
  by (force simp: entries_def List.map_filter_def)

lemma entries_Nil_iff: "entries sigs n = [] \<longleftrightarrow> (\<forall>s \<in> set sigs. map_of s n = None)"
proof -
  have "entries sigs n = [] \<longleftrightarrow> set (entries sigs n) = {}" by simp
  also have "\<dots> \<longleftrightarrow> (\<forall>s \<in> set sigs. map_of s n = None)"
    unfolding set_eq_iff set_entries by (metis empty_iff not_None_eq)
  finally show ?thesis .
qed

lemma map_le_iff_all: "m \<subseteq>\<^sub>m m' \<longleftrightarrow> (\<forall>a b. m a = Some b \<longrightarrow> m' a = Some b)"
  by (metis domI domD map_le_def)

lemma window_sub: "set (window_of k rns) \<subseteq> set rns"
  by (auto simp: window_of_def dest: in_set_dropD)

text \<open>The gates on the series, on the signatures they come from.\<close>

lemma series_gates:
  assumes "check_series bs [] = Inr series" "map check_signature bs = map Inr sigs"
  defines "sigma \<equiv> map_of (map (\<lambda>(name, es). (name, hd es)) series)"
  shows "\<not> list_ex (\<lambda>(name, es). length (remdups es) > 1) series \<longleftrightarrow> (\<forall>s \<in> set sigs. map_of s \<subseteq>\<^sub>m sigma)"
    and "dom sigma = (\<Union>s \<in> set sigs. dom (map_of s))"
    and "sigma n = Some e \<Longrightarrow> \<exists>s \<in> set sigs. map_of s n = Some e"
    and "\<not> list_all (\<lambda>(name, satisfied, v). satisfied) (map (\<lambda>(name, es). (name, hd es)) series)
         \<longleftrightarrow> (\<exists>n v. sigma n = Some (False, v))"
proof -
  obtain sigs' where g: "map check_signature bs = map Inr sigs'" "distinct (map fst series)"
    "\<And>n. map_of series n = (if entries sigs' n = [] then None else Some (entries sigs' n))"
    using check_series_map [OF assms(1)] by auto
  have [simp]: "sigs' = sigs"
    using g(1) assms(2) by (metis inj_Inr inj_map_eq_map)
  have sig: "sigma n = map_option hd (map_of series n)" for n
    unfolding sigma_def by (induction series) auto
  have mem: "(n, es) \<in> set series \<longleftrightarrow> map_of series n = Some es" for n es
    using g(2) by simp
  have ne: "(n, es) \<in> set series \<Longrightarrow> es \<noteq> []" for n es by (auto simp: mem g(3) split: if_splits)
  have "list_ex (\<lambda>(name, es). length (remdups es) > 1) series
      \<longleftrightarrow> (\<exists>n es. map_of series n = Some es \<and> (\<exists>e \<in> set es. e \<noteq> hd es))"
    unfolding list_ex_iff mem [symmetric] using ne constant_iff by (metis (no_types, lifting) case_prodE case_prodI)
  also have "\<dots> \<longleftrightarrow> (\<exists>n. \<exists>e \<in> set (entries sigs n). sigma n \<noteq> Some e)"
    by (force simp: g(3) sig)
  also have "\<dots> \<longleftrightarrow> \<not> (\<forall>s \<in> set sigs. map_of s \<subseteq>\<^sub>m sigma)"
    unfolding map_le_iff_all Bex_def Ball_def set_entries by blast
  finally show "\<not> list_ex (\<lambda>(name, es). length (remdups es) > 1) series \<longleftrightarrow> (\<forall>s \<in> set sigs. map_of s \<subseteq>\<^sub>m sigma)"
    by blast
  show "dom sigma = (\<Union>s \<in> set sigs. dom (map_of s))"
    by (auto simp: dom_def sig g(3) entries_Nil_iff split: if_splits)
  show "\<exists>s \<in> set sigs. map_of s n = Some e" if "sigma n = Some e"
    using that hd_in_set [of "entries sigs n"] by (auto simp: sig g(3) set_entries split: if_splits)
  have "distinct (map fst (map (\<lambda>(name, es). (name, hd es)) series))"
    using g(2) by (simp add: split_def comp_def)
  then have "(n, e) \<in> set (map (\<lambda>(name, es). (name, hd es)) series) \<longleftrightarrow> sigma n = Some e" for n e
    unfolding sigma_def by (rule map_of_eq_Some_iff [symmetric])
  then show "\<not> list_all (\<lambda>(name, satisfied, v). satisfied) (map (\<lambda>(name, es). (name, hd es)) series)
         \<longleftrightarrow> (\<exists>n v. sigma n = Some (False, v))"
    unfolding list_all_iff by fastforce
qed


lemma entries_signature:
  assumes "map check_signature (map (bucket_of tagged) window) = map Inr sigs"
  shows "(\<lambda>s. map_of s) ` set sigs = signature_of tagged ` set window"
  using assms
proof (induction window arbitrary: sigs)
  case (Cons rn window)
  then obtain s sigs' where "sigs = s # sigs'" "check_signature (bucket_of tagged rn) = Inr s"
    by (cases sigs) auto
  then show ?case using Cons by (auto simp: signature_of_def)
qed auto

lemma treadmill_fires_iff:
  fixes logd :: log_dir and cur :: int
  defines "tagged \<equiv> tag_rounds None (tail_events logd)"
  assumes rd: "readable_rounds tagged cur"
  shows "(\<exists>r. assess_treadmill logd cur k = Inr r)
    \<and> ((\<exists>a. assess_treadmill logd cur k = Inr (Some a))
        \<longleftrightarrow> (\<exists>sigma. stuck tagged cur k sigma \<and> \<not> fired_since tagged (episode_first tagged cur k sigma)))"
proof -
  let ?rns = "completed_rounds tagged cur"
  let ?w = "window_of k ?rns"
  let ?bs = "map (bucket_of tagged) ?w"
  have rdw: "\<forall>b \<in> set ?bs. \<exists>s. check_signature b = Inr s"
    using rd window_sub [of k ?rns] by (auto simp: readable_rounds_def)
  obtain series where series: "check_series ?bs [] = Inr series"
    using check_series_total [OF rdw] by blast
  obtain sigs where sigs: "map check_signature ?bs = map Inr sigs"
    using check_series_map [OF series] by auto
  define sig where "sig = map (\<lambda>(name, es). (name, hd es)) series"
  have sw: "(\<lambda>s. map_of s) ` set sigs = signature_of tagged ` set ?w"
    by (rule entries_signature [OF sigs])
  note gates = series_gates [OF series sigs, folded sig_def]
  have g1: "\<not> list_ex (\<lambda>(name, es). length (remdups es) > 1) series
      \<longleftrightarrow> (\<forall>rn \<in> set ?w. signature_of tagged rn \<subseteq>\<^sub>m map_of sig)"
    using gates(1) sw by (metis (no_types, lifting) image_iff)
  have g2: "dom (map_of sig) = (\<Union>rn \<in> set ?w. dom (signature_of tagged rn))"
    using gates(2) sw by (metis (no_types, lifting) SUP_image image_image comp_def Sup.SUP_cong)
  have uniq: "sigma = map_of sig" if "stuck tagged cur k sigma"
    "\<forall>rn \<in> set ?w. signature_of tagged rn \<subseteq>\<^sub>m map_of sig" for sigma
  proof
    fix n
    have d: "dom sigma = dom (map_of sig)"
      and le: "\<forall>rn \<in> set ?w. signature_of tagged rn \<subseteq>\<^sub>m sigma"
      using that(1) g2 by (simp_all add: stuck_def Let_def)
    show "sigma n = map_of sig n"
    proof (cases "n \<in> dom sigma")
      case True
      then obtain rn where "rn \<in> set ?w" "n \<in> dom (signature_of tagged rn)" using d g2 by auto
      then show ?thesis using le that(2) by (metis map_le_def)
    next
      case False
      then show ?thesis using d by (metis domIff)
    qed
  qed
  have st: "stuck tagged cur k (map_of sig) \<longleftrightarrow> k \<le> length ?rns
      \<and> list_all (\<lambda>rn. round_has_activity (bucket_of tagged rn)) ?w
      \<and> \<not> list_ex (\<lambda>(name, es). length (remdups es) > 1) series
      \<and> \<not> list_all (\<lambda>(name, satisfied, v). satisfied) sig"
    unfolding stuck_def Let_def g1 gates(4) using g2
    by (auto simp: list_all_iff active_round_def)
  have wb: "walk_back (bucket_of tagged) sig (rev (take (length ?rns - k) ?rns)) (hd ?w)
      = Inr (episode_first tagged cur k (map_of sig))"
    unfolding episode_first_def Let_def
    by (rule walk_back_eq) (use rd in \<open>auto simp: readable_rounds_def dest: in_set_takeD\<close>)
  have ne: "sig = [] \<longleftrightarrow> series = []" by (simp add: sig_def)
  have a: "assess_treadmill logd cur k =
      Inr (if stuck tagged cur k (map_of sig) \<and> \<not> fired_since tagged (episode_first tagged cur k (map_of sig))
           then Some (treadmill_advisory k (sort (map fst series))) else None)"
    unfolding assess_treadmill_def Let_def tagged_def [symmetric] series
    using st wb ne by (auto simp: sig_def [symmetric])
  have only: "stuck tagged cur k sigma \<longleftrightarrow> stuck tagged cur k (map_of sig) \<and> sigma = map_of sig" for sigma
  proof
    assume s: "stuck tagged cur k sigma"
    have "map_of sig n = Some e" if e: "rn \<in> set ?w" "signature_of tagged rn n = Some e" for rn n e
    proof -
      have "n \<in> dom (map_of sig)" using g2 e by auto
      then obtain e' where e': "map_of sig n = Some e'" by blast
      then obtain rn' where "rn' \<in> set ?w" "signature_of tagged rn' n = Some e'"
        using gates(3) sw by (metis (no_types, lifting) image_iff)
      moreover have "\<forall>rn \<in> set ?w. signature_of tagged rn \<subseteq>\<^sub>m sigma"
        using s unfolding stuck_def Let_def by blast
      ultimately have "sigma n = Some e'" "sigma n = Some e"
        using e(1,2) map_le_iff_all [THEN iffD1] by metis+
      then show ?thesis using e' by simp
    qed
    then have le: "\<forall>rn \<in> set ?w. signature_of tagged rn \<subseteq>\<^sub>m map_of sig" unfolding map_le_iff_all by blast
    then show "stuck tagged cur k (map_of sig) \<and> sigma = map_of sig" 
      using uniq [OF s le] s by metis
  qed auto
  have ex: "(\<exists>sigma. stuck tagged cur k sigma \<and> \<not> fired_since tagged (episode_first tagged cur k sigma))
      \<longleftrightarrow> stuck tagged cur k (map_of sig) \<and> \<not> fired_since tagged (episode_first tagged cur k (map_of sig))"
  proof
    assume "\<exists>sigma. stuck tagged cur k sigma \<and> \<not> fired_since tagged (episode_first tagged cur k sigma)"
    then obtain sigma where h: "stuck tagged cur k sigma" "\<not> fired_since tagged (episode_first tagged cur k sigma)"
      by blast
    then have "sigma = map_of sig" using only by blast
    then show "stuck tagged cur k (map_of sig) \<and> \<not> fired_since tagged (episode_first tagged cur k (map_of sig))"
      using h by simp
  qed blast
  show ?thesis unfolding a ex by simp
qed

subsection \<open>One advisory per episode\<close>

lemma tag_rounds_append:
  "\<exists>c'. tag_rounds c (a @ b) = tag_rounds c a @ tag_rounds c' b \<and> (a \<noteq> [] \<longrightarrow> c' = fst (last (tag_rounds c a)))
     \<and> (a = [] \<longrightarrow> c' = c)"
proof (induction a arbitrary: c)
  case (Cons ev a)
  let ?c = "case round_num_of ev of None \<Rightarrow> c | Some rn \<Rightarrow> Some rn"
  obtain c' where "tag_rounds ?c (a @ b) = tag_rounds ?c a @ tag_rounds c' b"
    "a \<noteq> [] \<longrightarrow> c' = fst (last (tag_rounds ?c a))" "a = [] \<longrightarrow> c' = ?c" using Cons.IH by blast
  moreover have "a \<noteq> [] \<longrightarrow> tag_rounds ?c a \<noteq> []" by (cases a) (auto simp: Let_def)
  ultimately show ?case by (intro exI [of _ c']) (auto simp: Let_def)
qed simp

lemma tags_from:
  "p \<in> set (tag_rounds c evs) \<Longrightarrow> fst p = c \<or> (\<exists>ev \<in> set evs. fst p = round_num_of ev)"
  by (induction evs arbitrary: c) (fastforce simp: Let_def split: option.splits)+

lemma completed_rounds_set:
  "set (completed_rounds tagged cur) = {rn. rn < cur \<and> Some rn \<in> fst ` set tagged}"
  by (force simp: completed_rounds_def List.map_filter_def)

lemma completed_rounds_sorted:
  "sorted (completed_rounds tagged cur)" "distinct (completed_rounds tagged cur)"
  by (simp_all add: completed_rounds_def)

lemma walk_reaches:
  assumes "sorted_wrt (\<ge>) ds" "w0 \<in> set ds" "\<forall>x \<in> set ds. w0 \<le> x \<longrightarrow> P x"
  shows "last (h # takeWhile P ds) \<le> (w0 :: int)"
  using assms
proof (induction ds arbitrary: h)
  case (Cons d ds)
  then have "P d" by auto
  show ?case
  proof (cases "w0 = d")
    case True
    have "\<forall>x \<in> set (takeWhile P ds). x \<le> d" using Cons.prems(1) by (auto dest: set_takeWhileD)
    then show ?thesis using True \<open>P d\<close> by (cases "takeWhile P ds = []") (auto dest: last_in_set)
  next
    case False
    then show ?thesis using Cons \<open>P d\<close> by auto
  qed
qed simp

lemma last_takeWhile_mem: "last (h # takeWhile P xs) \<in> insert h (set xs)"
  by (cases "takeWhile P xs = []") (auto dest!: last_in_set set_takeWhileD)

lemma rounds_extend:
  assumes "\<forall>p \<in> set extra. \<forall>rn. fst p = Some rn \<longrightarrow> cur \<le> rn \<or> Some rn \<in> fst ` set tagged" "cur \<le> cur'"
  shows "\<exists>new. completed_rounds (tagged @ extra) cur' = completed_rounds tagged cur @ new \<and> (\<forall>x \<in> set new. cur \<le> x)"
proof (intro exI conjI)
  let ?r = "completed_rounds (tagged @ extra) cur'"
  let ?new = "filter (\<lambda>x. cur \<le> x) ?r"
  show "\<forall>x \<in> set ?new. cur \<le> x" by simp
  have "sorted (completed_rounds tagged cur @ ?new)"
    using completed_rounds_sorted by (auto simp: sorted_append sorted_wrt_filter completed_rounds_set)
  moreover have "distinct (completed_rounds tagged cur @ ?new)"
    using completed_rounds_sorted by (fastforce simp: completed_rounds_set)
  moreover have "set ?r = set (completed_rounds tagged cur @ ?new)"
    using assms by (fastforce simp: completed_rounds_set)
  ultimately show "?r = completed_rounds tagged cur @ ?new"
    using sorted_distinct_set_unique completed_rounds_sorted by blast
qed

lemma late_window:
  assumes r: "rns' = rns @ new" "\<forall>x \<in> set new. cur \<le> x" "\<forall>x \<in> set rns. x < cur" "sorted rns" "0 < k" "k \<le> length rns"
  shows "\<forall>x \<in> set (window_of k rns'). hd (window_of k rns) \<le> (x::int)"
    and "hd (window_of k rns) \<in> set rns"
proof -
  let ?w = "window_of k rns"
  have ne: "?w \<noteq> []" using r(5,6) by (simp add: window_of_def)
  show m: "hd ?w \<in> set rns" using window_sub [of k rns] hd_in_set [OF ne] by blast
  have s: "sorted ?w" using r(4) by (simp add: window_of_def sorted_wrt_drop)
  have w: "hd ?w \<le> x" if "x \<in> set ?w" for x
    using ne s that by (cases ?w) auto
  have "set (drop (length rns' - k) rns) \<subseteq> set (drop (length rns - k) rns)"
    by (rule set_drop_subset_set_drop) (simp add: r(1))
  then have "set (window_of k rns') \<subseteq> set ?w \<union> set new"
    using r(1,5,6) by (auto simp: window_of_def dest!: in_set_dropD [of _ _ new])
  then show "\<forall>x \<in> set (window_of k rns'). hd ?w \<le> x"
    using w m r(2,3) by fastforce
qed

lemma episode_reaches:
  assumes "k \<le> length (completed_rounds tagged cur)" "0 < k" "w0 \<in> set (completed_rounds tagged cur)"
    and "\<forall>rn \<in> set (completed_rounds tagged cur). w0 \<le> rn \<longrightarrow> continues tagged sigma rn"
  shows "episode_first tagged cur k sigma \<le> w0"
    and "episode_first tagged cur k sigma \<in> set (completed_rounds tagged cur)"
proof -
  let ?r = "completed_rounds tagged cur"
  let ?pre = "take (length ?r - k) ?r" and ?w = "window_of k ?r"
  have split: "?r = ?pre @ ?w" using assms(2) by (simp add: window_of_def)
  have ne: "?w \<noteq> []" using assms(1,2) by (simp add: window_of_def)
  have h: "hd ?w \<in> set ?r" using window_sub [of k ?r] hd_in_set [OF ne] by blast
  have sorted: "sorted ?pre" "sorted ?w" "\<forall>x \<in> set ?pre. \<forall>y \<in> set ?w. x \<le> y"
    using completed_rounds_sorted(1) [of tagged cur] split by (metis sorted_append)+
  have e: "episode_first tagged cur k sigma = last (hd ?w # takeWhile (continues tagged sigma) (rev ?pre))"
    by (simp add: episode_first_def Let_def)
  show "episode_first tagged cur k sigma \<in> set ?r"
    using last_takeWhile_mem [of "hd ?w" "continues tagged sigma" "rev ?pre"] h unfolding e
    by (auto dest: in_set_takeD)
  show "episode_first tagged cur k sigma \<le> w0"
  proof (cases "w0 \<in> set ?pre")
    case True
    have "sorted_wrt (\<ge>) (rev ?pre)" using sorted(1) by (simp add: sorted_wrt_rev)
    then show ?thesis unfolding e
      by (rule walk_reaches) (use True assms(4) in \<open>auto dest: in_set_takeD\<close>)
  next
    case False
    then have "w0 \<in> set ?w" using assms(3) split by (metis Un_iff set_append)
    then have "hd ?w \<le> w0" using sorted(2) ne by (cases ?w) auto
    moreover have "last (hd ?w # takeWhile (continues tagged sigma) (rev ?pre)) \<le> hd ?w"
      using last_takeWhile_mem [of "hd ?w" "continues tagged sigma" "rev ?pre"] sorted(3) hd_in_set [OF ne]
      by auto
    ultimately show ?thesis unfolding e by simp
  qed
qed

lemma fired_since_append:
  assumes "Some e \<in> fst ` set tagged" "list_ex (\<lambda>p. is_kind (snd p) ''goal_assessment'') extra"
  shows "fired_since (tagged @ extra) e"
proof -
  obtain p where "p \<in> set tagged" "fst p = Some e" using assms(1) by auto
  then have "dropWhile (\<lambda>p. fst p \<noteq> Some e) (tagged @ extra) = dropWhile (\<lambda>p. fst p \<noteq> Some e) tagged @ extra"
    by (intro dropWhile_append1) auto
  then show ?thesis using assms(2) by (auto simp: fired_since_def list_ex_iff)
qed

text \<open>
  After the advisory of an episode is in the log, a log that only continues the episode fires
  no second one, however many rounds follow.
\<close>

lemma treadmill_stays_quiet:
  assumes fired: "assess_treadmill logd cur k = Inr (Some a)" "0 < k"
    and log': "tail_events logd' = tail_events logd @ marker # later"
    and marker: "is_kind marker ''goal_assessment''" "round_num_of marker = None"
    and later: "\<forall>ev \<in> set later. \<forall>rn. round_num_of ev = Some rn \<longrightarrow> cur \<le> rn" "cur \<le> cur'"
    and readable: "readable_rounds (tag_rounds None (tail_events logd)) cur"
      "readable_rounds (tag_rounds None (tail_events logd')) cur'"
    and stuck: "stuck (tag_rounds None (tail_events logd)) cur k sigma"
    and goes_on: "\<forall>rn \<in> set (completed_rounds (tag_rounds None (tail_events logd')) cur').
       hd (window_of k (completed_rounds (tag_rounds None (tail_events logd)) cur)) \<le> rn
       \<longrightarrow> continues (tag_rounds None (tail_events logd')) sigma rn"
  shows "assess_treadmill logd' cur' k = Inr None"
proof -
  let ?t = "tag_rounds None (tail_events logd)" and ?t' = "tag_rounds None (tail_events logd')"
  let ?r = "completed_rounds ?t cur" and ?r' = "completed_rounds ?t' cur'"
  let ?w0 = "hd (window_of k ?r)"
  have k: "k \<le> length ?r" using stuck by (simp add: stuck_def Let_def)
  then have evs: "tail_events logd \<noteq> []" using fired(2) by (auto simp: completed_rounds_def List.map_filter_def)
  obtain c' where c': "?t' = ?t @ tag_rounds c' (marker # later)" "c' = fst (last ?t)"
    using tag_rounds_append [of None "tail_events logd" "marker # later"] evs log' by auto
  have tne: "?t \<noteq> []" using evs by (cases "tail_events logd") (auto simp: Let_def)
  have tags: "cur \<le> rn \<or> Some rn \<in> fst ` set ?t"
    if "p \<in> set (tag_rounds c' (marker # later))" "fst p = Some rn" for p rn
    using tags_from [OF that(1)] that(2) marker(2) later(1) c'(2) last_in_set [OF tne] by force
  obtain new where new: "?r' = ?r @ new" "\<forall>x \<in> set new. cur \<le> x"
    using rounds_extend [of "tag_rounds c' (marker # later)" cur ?t cur'] tags later(2) c'(1) by auto
  have lt: "\<forall>x \<in> set ?r. x < cur" by (simp add: completed_rounds_set)
  note late = late_window [OF new lt completed_rounds_sorted(1) fired(2) k]
  have k': "k \<le> length ?r'" using k new(1) by simp
  have w0: "?w0 \<in> set ?r'" "?w0 < cur" using late(2) new(1) lt by auto
  have cont: "continues ?t' sigma rn" if "rn \<in> set (window_of k ?r')" for rn
    using goes_on late(1) window_sub [of k ?r'] that by blast
  have "sigma' = sigma" if s: "stuck ?t' cur' k sigma'" for sigma'
  proof -
    have ne: "set (window_of k ?r') \<noteq> {}" using k' fired(2) by (simp add: window_of_def)
    have sub: "\<forall>rn \<in> set (window_of k ?r'). sigma \<subseteq>\<^sub>m sigma'"
      and d: "dom sigma' = (\<Union>rn \<in> set (window_of k ?r'). dom sigma)"
      using s cont by (auto simp: stuck_def Let_def continues_def)
    have "sigma \<subseteq>\<^sub>m sigma'" "dom sigma' = dom sigma" using sub d ne by auto
    then show ?thesis by (metis map_le_antisym map_le_def)
  qed
  moreover have "fired_since ?t' (episode_first ?t' cur' k sigma)"
  proof -
    note reach = episode_reaches [OF k' fired(2) w0(1) goes_on]
    then have "Some (episode_first ?t' cur' k sigma) \<in> fst ` set ?t"
      using w0(2) new by (force simp: completed_rounds_set)
    then show ?thesis unfolding c'(1)
      by (rule fired_since_append) (simp add: Let_def marker(1))
  qed
  ultimately have "\<nexists>a. assess_treadmill logd' cur' k = Inr (Some a)"
    using treadmill_fires_iff [OF readable(2), of k] by blast
  moreover obtain r where "assess_treadmill logd' cur' k = Inr r"
    using treadmill_fires_iff [OF readable(2), of k] by blast
  ultimately show ?thesis by (cases r) auto
qed

subsection \<open>Blocks of one-line fields\<close>

definition one_line :: "string \<Rightarrow> bool" where
  "one_line s \<longleftrightarrow> newline \<notin> set s"

definition one_line_advisory :: "advisory \<Rightarrow> bool" where
  "one_line_advisory a \<longleftrightarrow> one_line (ad_observation a) \<and> one_line (ad_question a) \<and> one_line (ad_confidence a)"

lemma has_blank_one_line: "one_line s \<Longrightarrow> \<not> has_blank s"
  by (induction s rule: has_blank.induct) (auto simp: one_line_def)

lemma has_blank_line_append:
  assumes "one_line s" "rest \<noteq> []" "hd rest \<noteq> newline"
  shows "has_blank (s @ newline # rest) \<longleftrightarrow> has_blank rest"
  using assms
proof (induction s)
  case Nil
  then show ?case by (cases rest) (auto simp: has_blank_Cons)
next
  case (Cons c s)
  then show ?case by (auto simp: one_line_def has_blank_Cons hd_append split: if_splits)
qed

lemma py_strip_Nil_iff: "py_strip s = [] \<longleftrightarrow> (\<forall>c \<in> set s. is_space c)"
proof
  assume "py_strip s = []"
  then have "\<forall>c \<in> set (dropWhile is_space s). is_space c"
    by (auto simp: py_strip_def py_lstrip_def dropWhile_eq_Nil_conv)
  then show "\<forall>c \<in> set s. is_space c"
    by (metis Un_iff set_append set_takeWhileD takeWhile_dropWhile_id)
qed (simp add: py_strip_def py_lstrip_def dropWhile_eq_Nil_conv [THEN iffD2])

lemma one_line_append: "one_line (a @ b) \<longleftrightarrow> one_line a \<and> one_line b"
  by (auto simp: one_line_def)

lemma block_not_blank: "py_strip (format_advisory_block a ts) \<noteq> []"
proof -
  have "CHR ''#'' \<in> set (format_advisory_block a ts)" by (simp add: format_advisory_block_def)
  moreover have "\<not> is_space (CHR ''#'')" by (simp add: is_space_def char_code_def)
  ultimately show ?thesis unfolding py_strip_Nil_iff by blast
qed

lemma last_line: "c \<noteq> [] \<Longrightarrow> last (h @ newline # a @ newline # b @ newline # c) = last c"
  by simp

lemma block_sealed:
  assumes "one_line_advisory a" "one_line ts"
  shows "sealed (format_advisory_block a ts)"
proof -
  let ?c = "''- Confidence: '' @ ad_confidence a"
  let ?q = "''- Question: '' @ ad_question a" and ?o = "''- Observation: '' @ ad_observation a"
  have f: "format_advisory_block a ts = (''### Goal assessment -- '' @ ts) @ newline # ?o @ newline # ?q @ newline # ?c"
    by (simp add: format_advisory_block_def)
  have lit: "one_line ''### Goal assessment -- ''" "one_line ''- Observation: ''" "one_line ''- Question: ''"
    "one_line ''- Confidence: ''" by (simp_all add: one_line_def newline_def)
  have h: "hd (''- '' @ s) \<noteq> newline" for s by (simp add: newline_def)
  have "\<not> has_blank ?c" by (rule has_blank_one_line) (use assms in \<open>simp add: one_line_def newline_def one_line_advisory_def\<close>)
  then have "\<not> has_blank (?q @ newline # ?c)"
    using assms lit by (subst has_blank_line_append) (simp_all add: one_line_def one_line_advisory_def newline_def)
  then have "\<not> has_blank (?o @ newline # ?q @ newline # ?c)"
    using assms lit by (subst has_blank_line_append) (simp_all add: one_line_def one_line_advisory_def newline_def)
  then have "\<not> has_blank (format_advisory_block a ts)"
    unfolding f using assms lit by (subst has_blank_line_append) (simp_all add: one_line_def newline_def)
  moreover have n: "newline \<notin> set ?c"
    using assms(1) by (simp add: one_line_def newline_def one_line_advisory_def)
  have "last ?c \<in> set ?c" by (rule last_in_set) simp
  then have "last ?c \<noteq> newline" using n by (metis (no_types))
  then have "last (format_advisory_block a ts) \<noteq> newline"
    unfolding f by (subst last_line) simp_all
  ultimately show ?thesis unfolding sealed_def by blast
qed

subsection \<open>What the advisory fold may do\<close>

lemma coerce_float_error: "coerce_float v = Inl e \<Longrightarrow> e = OverflowError"
  by (cases v) (auto simp: int_to_float_def split: if_splits)

lemma signature_error: "signature_fold b acc = Inl e \<Longrightarrow> e = OverflowError"
proof (induction b arbitrary: acc)
  case (Cons ev b)
  then show ?case
    by (auto simp: res_bind_Inl_iff coerced_check_value_def dest: coerce_float_error split: if_splits pyval.splits)
qed simp

lemma check_series_error: "check_series bs acc = Inl e \<Longrightarrow> e = OverflowError"
  by (induction bs arbitrary: acc) (auto simp: res_bind_Inl_iff check_signature_def dest: signature_error)

lemma walk_back_error: "walk_back bk sig rns start = Inl e \<Longrightarrow> e = OverflowError"
  by (induction rns arbitrary: start)
    (auto simp: res_bind_Inl_iff check_signature_def dest: signature_error split: if_splits)

lemma assess_error: "assess_treadmill logd cur k = Inl e \<Longrightarrow> e = OverflowError"
  by (auto simp: assess_treadmill_def Let_def res_bind_Inl_iff dest: check_series_error walk_back_error split: if_splits)

fun os_fault :: "ledger_fault \<Rightarrow> bool" where
  "os_fault NoFault = True"
| "os_fault (ReadFault e) = (\<exists>m. e = OSError m)"
| "os_fault (MkdirFault e) = (\<exists>m. e = OSError m)"
| "os_fault (WriteFault e) = (\<exists>m. e = OSError m)"
| "os_fault (ReplaceFault e) = (\<exists>m. e = OSError m)"

lemma write_fault:
  assumes "fault \<noteq> NoFault"
  shows "\<exists>e fs'. write_ledger_advisory redact ck fault a (fs, logd) = (Some e, fs', logd)
    \<and> lf_ledger fs' = lf_ledger fs \<and> (lf_tmp fs' \<longrightarrow> lf_tmp fs) \<and> (os_fault fault \<longrightarrow> (\<exists>m. e = OSError m))"
  using assms by (cases fault) (auto simp: write_ledger_advisory_def Let_def)

text \<open>Over a log whose check values are readable the assessment never raises, and it advises exactly when the last k completed rounds were all active, every check kept one verdict and value through them, at least one check is unmet, and no advisory was given since the first round of the episode, the longest run of earlier rounds with the same activity and signature.\<close>

theorem treadmill_exact:
  assumes "readable_rounds (tag_rounds None (tail_events logd)) cur"
  shows "(\<exists>r. assess_treadmill logd cur k = Inr r)
    \<and> ((\<exists>a. assess_treadmill logd cur k = Inr (Some a))
        \<longleftrightarrow> (\<exists>sigma. stuck (tag_rounds None (tail_events logd)) cur k sigma
              \<and> \<not> fired_since (tag_rounds None (tail_events logd))
                   (episode_first (tag_rounds None (tail_events logd)) cur k sigma)))"
  by (rule treadmill_fires_iff [OF assms])

text \<open>Once an advisory is in the log, later rounds that continue its episode, however many, fire no second one.\<close>

theorem treadmill_once:
  assumes "assess_treadmill logd cur k = Inr (Some a)" "0 < k"
    and "tail_events logd' = tail_events logd @ marker # later"
    and "is_kind marker ''goal_assessment''" "round_num_of marker = None"
    and "\<forall>ev \<in> set later. \<forall>rn. round_num_of ev = Some rn \<longrightarrow> cur \<le> rn" "cur \<le> cur'"
    and "readable_rounds (tag_rounds None (tail_events logd)) cur"
      "readable_rounds (tag_rounds None (tail_events logd')) cur'"
    and "stuck (tag_rounds None (tail_events logd)) cur k sigma"
    and "\<forall>rn \<in> set (completed_rounds (tag_rounds None (tail_events logd')) cur').
       hd (window_of k (completed_rounds (tag_rounds None (tail_events logd)) cur)) \<le> rn
       \<longrightarrow> continues (tag_rounds None (tail_events logd')) sigma rn"
  shows "assess_treadmill logd' cur' k = Inr None"
  by (rule treadmill_stays_quiet [OF assms])

text \<open>Writing an advisory refines the list of ledger blocks: read back, the ledger is the new block followed by the longest prefix of the old blocks that fits in 8192 bytes, the new block is kept even when it alone does not fit, one goal_assessment event is appended, and no temporary file stays; a fault changes neither ledger nor log and passes on.\<close>

theorem ledger_write_refines:
  assumes "one_line_advisory (redact_advisory redact a)" "one_line (ck_iso ck)"
    and "write_ledger_advisory redact ck fault a (fs, logd) = (err, fs', logd')"
  shows "if fault = NoFault
    then err = None \<and> \<not> lf_tmp fs'
       \<and> (\<exists>n text. lf_ledger fs' = Some text
            \<and> (let new = format_advisory_block (redact_advisory redact a) (ck_iso ck);
                   old = ledger_blocks (case lf_ledger fs of None \<Rightarrow> [] | Some s \<Rightarrow> s)
               in ledger_blocks text = new # take n old \<and> n \<le> length old
                  \<and> (0 < n \<longrightarrow> utf8_len text \<le> 8192)
                  \<and> (n < length old \<longrightarrow> joined_len (new # take (Suc n) old) > 8192)))
       \<and> (\<exists>payload. logd' = emit_builtin ck ''goal_assessment'' payload logd)
    else (\<exists>e. err = Some e) \<and> lf_ledger fs' = lf_ledger fs \<and> logd' = logd \<and> (lf_tmp fs' \<longrightarrow> lf_tmp fs)"
proof (cases "fault = NoFault")
  case True
  let ?new = "format_advisory_block (redact_advisory redact a) (ck_iso ck)"
  let ?old = "case lf_ledger fs of None \<Rightarrow> [] | Some s \<Rightarrow> s"
  have w: "err = None" "fs' = \<lparr>lf_ledger = Some (ledger_content ?old ?new), lf_tmp = False\<rparr>"
    "\<exists>payload. logd' = emit_builtin ck ''goal_assessment'' payload logd"
    using assms(3) True by (auto simp: write_ledger_advisory_def Let_def)
  show ?thesis
    using ledger_refines [OF block_sealed [OF assms(1,2)] block_not_blank, of ?old] True w
    by (auto simp: Let_def ledger_max_bytes_def)
next
  case False
  then show ?thesis using write_fault [OF False, of redact ck a fs logd] assms(3)
    by (cases fault) (auto simp: write_ledger_advisory_def Let_def)
qed

text \<open>Goal steering cannot alter a round: when the ledger fails with OSError it is skipped with the ledger and the log unchanged, an advisory adds one event and rewrites the ledger only, and the one exception that escapes is the OverflowError of an integer check value too large for a float.\<close>

theorem goal_steering_contained:
  assumes "os_fault fault"
  shows "(case goal_steering redact ck fault round_num (fs, logd) of
      Inl e \<Rightarrow> e = OverflowError \<and> assess_treadmill logd round_num treadmill_window_rounds = Inl OverflowError
    | Inr (warned, fs', logd') \<Rightarrow>
        (logd' = logd \<and> lf_ledger fs' = lf_ledger fs \<and> (warned \<longrightarrow> fault \<noteq> NoFault))
        \<or> (\<not> warned \<and> fault = NoFault \<and> lf_tmp fs' = False
           \<and> (\<exists>payload. logd' = emit_builtin ck ''goal_assessment'' payload logd)))"
proof (cases "assess_treadmill logd round_num treadmill_window_rounds")
  case (Inl e)
  then show ?thesis using assess_error [OF Inl] by (simp add: goal_steering_def)
next
  case (Inr r)
  show ?thesis
  proof (cases r)
    case None
    then show ?thesis using Inr by (simp add: goal_steering_def)
  next
    case (Some a)
    then show ?thesis using Inr assms
      by (cases fault) (auto simp: goal_steering_def write_ledger_advisory_def Let_def)
  qed
qed

text \<open>Running the goal checks to their end writes one goal_check event per configured check, in order, and waits at most the allowance the stop timeout is computed from, whatever the commands do.\<close>

theorem goal_checks_bounded:
  assumes "run_goal_checks num dry (go_checks g) obs logd = Some (False, secs, logd')"
    and "list_all (\<lambda>c. 0 \<le> gc_timeout_s c) (go_checks g)"
    and "list_all (\<lambda>(c, ck, ob). waits_within (gc_timeout_s c) ob) (zip (go_checks g) obs)"
  shows "secs \<le> real_of_int (checks_allowance_s g)
    \<and> (\<exists>evs. logd' = fold (\<lambda>(ck, ev). emit_builtin ck ''goal_check'' ev) evs logd
        \<and> map (\<lambda>(ck, ev). ev ''name'') evs = map (\<lambda>c. Some (PStr (gc_name c))) (go_checks g)
        \<and> map fst evs = map fst (take (length (go_checks g)) obs))"
  using goal_checks_time [OF assms] goal_checks_events [OF assms(1)] by (simp add: checks_allowance_s_def)

subsection \<open>Concrete rounds\<close>

definition stuck_round :: "pyval \<Rightarrow> int \<Rightarrow> event list" where
  "stuck_round v rn =
     [[''event'' \<mapsto> PStr ''round_start'', ''round_num'' \<mapsto> PInt rn],
      [''event'' \<mapsto> PStr ''dirty_detected'', ''round_num'' \<mapsto> PInt rn],
      [''event'' \<mapsto> PStr ''goal_check'', ''name'' \<mapsto> PStr ''tests'', ''satisfied'' \<mapsto> PBool False,
       ''value'' \<mapsto> v, ''skipped'' \<mapsto> PBool False]]"

definition stuck_log :: "pyval \<Rightarrow> log_dir" where
  "stuck_log v = [(''2026-01'', concat (map (stuck_round v) [1, 2, 3]))]"

definition goal_marker :: event where
  "goal_marker = [''event'' \<mapsto> PStr ''goal_assessment'', ''observation'' \<mapsto> PStr ''stuck'']"

definition stuck_log_later :: log_dir where
  "stuck_log_later = [(''2026-01'', concat (map (stuck_round PNone) [1, 2, 3]) @ goal_marker # stuck_round PNone 4)]"

definition stuck_sigma :: "string \<rightharpoonup> verdict_value" where
  "stuck_sigma = [''tests'' \<mapsto> (False, None)]"

lemma stuck_log_tail: "tail_events (stuck_log v) = concat (map (stuck_round v) [1, 2, 3])"
  by (simp add: stuck_log_def tail_events_def scan_def newest_month_files_def all_month_files_def)

lemma stuck_later_tail: "tail_events stuck_log_later = tail_events (stuck_log PNone) @ goal_marker # stuck_round PNone 4"
  by (simp add: stuck_log_later_def stuck_log_def tail_events_def scan_def newest_month_files_def all_month_files_def)

abbreviation "stuck_tags \<equiv> tag_rounds None (tail_events (stuck_log PNone))"
abbreviation "later_tags \<equiv> tag_rounds None (tail_events stuck_log_later)"

lemma stuck_rounds:
  "completed_rounds stuck_tags 4 = [1, 2, 3]" "completed_rounds later_tags 5 = [1, 2, 3, 4]"
  by code_simp+

lemma stuck_signatures:
  "list_all (\<lambda>rn. check_signature (bucket_of stuck_tags rn) = Inr [(''tests'', False, None)]
     \<and> round_has_activity (bucket_of stuck_tags rn)) [1, 2, 3]"
  "list_all (\<lambda>rn. check_signature (bucket_of later_tags rn) = Inr [(''tests'', False, None)]
     \<and> round_has_activity (bucket_of later_tags rn)) [1, 2, 3, 4]"
  by code_simp+

lemma stuck_readable:
  "readable_rounds stuck_tags 4" "readable_rounds later_tags 5"
  using stuck_signatures by (auto simp: readable_rounds_def stuck_rounds list_all_iff)

lemma stuck_holds: "stuck stuck_tags 4 3 stuck_sigma"
  using stuck_signatures(1)
  by (auto simp: stuck_def Let_def stuck_rounds window_of_def active_round_def signature_of_def stuck_sigma_def)

lemma later_continues: "\<forall>rn \<in> {1, 2, 3, 4}. continues later_tags stuck_sigma rn"
  using stuck_signatures(2)
  by (auto simp: continues_def active_round_def signature_of_def stuck_sigma_def)

theorem treadmill_exact_witness:
  "assess_treadmill (stuck_log PNone) 4 3 = Inr (Some (treadmill_advisory 3 [''tests'']))
   \<and> (\<exists>sigma. stuck stuck_tags 4 3 sigma \<and> \<not> fired_since stuck_tags (episode_first stuck_tags 4 3 sigma))"
proof -
  have a: "assess_treadmill (stuck_log PNone) 4 3 = Inr (Some (treadmill_advisory 3 [''tests'']))"
    by code_simp
  then show ?thesis using treadmill_exact [OF stuck_readable(1), of 3] by blast
qed

theorem treadmill_once_witness:
  "assess_treadmill (stuck_log PNone) 4 3 \<noteq> Inr None \<and> assess_treadmill stuck_log_later 5 3 = Inr None"
proof -
  have a: "assess_treadmill (stuck_log PNone) 4 3 = Inr (Some (treadmill_advisory 3 [''tests'']))"
    by code_simp
  have "assess_treadmill stuck_log_later 5 3 = Inr None"
    by (rule treadmill_once [OF a _ stuck_later_tail _ _ _ _ stuck_readable(1) stuck_readable(2) stuck_holds])
      (use later_continues in \<open>auto simp: stuck_rounds is_kind_def ev_get_def ev_get_or_def goal_marker_def round_num_of_def
          stuck_round_def split: option.splits\<close>)
  then show ?thesis using a by simp
qed

definition example_advisory :: advisory where
  "example_advisory = \<lparr>ad_observation = ''stuck'', ad_question = ''why'', ad_confidence = ''medium''\<rparr>"

definition goal_clock :: clock where
  "goal_clock = \<lparr>ck_epoch = 0, ck_mono = 0, ck_iso = ''t0'', ck_month = ''2026-01''\<rparr>"

definition small_ledger :: ledger_fs where
  "small_ledger = \<lparr>lf_ledger = Some ''old note'', lf_tmp = True\<rparr>"

theorem ledger_write_refines_witness:
  "\<exists>n text fs' logd'. write_ledger_advisory id goal_clock NoFault example_advisory (small_ledger, []) = (None, fs', logd')
     \<and> lf_ledger fs' = Some text
     \<and> ledger_blocks text = format_advisory_block example_advisory ''t0'' # take n [''old note'']"
proof -
  have o: "one_line_advisory (redact_advisory id example_advisory)" "one_line (ck_iso goal_clock)"
    by code_simp+
  have b: "ledger_blocks ''old note'' = [''old note'']" by code_simp
  obtain err fs' logd' where w: "write_ledger_advisory id goal_clock NoFault example_advisory (small_ledger, []) = (err, fs', logd')"
    by (metis prod_cases3)
  show ?thesis
    using ledger_write_refines [OF o w] w b
    by (auto simp: Let_def redact_advisory_def small_ledger_def goal_clock_def example_advisory_def)
qed

text \<open>
  A check name with a blank line is folded into a block that reads back as two: the separator
  is a blank line, and check names may contain one.
\<close>

lemma blank_line_splits_block:
  "length (ledger_blocks (ledger_content [] (format_advisory_block (treadmill_advisory 3 [''a'' @ block_sep @ ''b'']) ''t0''))) = 2"
  by code_simp

theorem goal_steering_contained_witness:
  "os_fault NoFault
   \<and> goal_steering id goal_clock NoFault 4 (small_ledger, stuck_log (PInt (2 ^ 1024))) = Inl OverflowError
   \<and> assess_treadmill (stuck_log (PInt (2 ^ 1024))) 4 treadmill_window_rounds = Inl OverflowError"
proof -
  have a: "assess_treadmill (stuck_log (PInt (2 ^ 1024))) 4 3 = Inl OverflowError" by code_simp
  then have "goal_steering id goal_clock NoFault 4 (small_ledger, stuck_log (PInt (2 ^ 1024))) = Inl OverflowError"
    by (simp add: goal_steering_def treadmill_window_rounds_def)
  then show ?thesis
    using goal_steering_contained [where fault = NoFault and redact = id and ck = goal_clock and round_num = 4 and fs = small_ledger and logd = "stuck_log (PInt (2 ^ 1024))"] by simp
qed

definition one_check :: goal_config where
  "one_check = \<lparr>go_ledger = ''/l'', go_checks = [\<lparr>gc_name = ''tests'', gc_cmd = [''make''], gc_cwd = None, gc_timeout_s = 60\<rparr>]\<rparr>"

definition hung_check :: bounded_obs where
  "hung_check = \<lparr>bo_spawn = None, bo_first = Expired, bo_second = Expired, bo_drain = Expired, bo_last = Expired,
     bo_partial = ''42''\<rparr>"

theorem goal_checks_bounded_witness:
  "\<exists>secs logd'. run_goal_checks (\<lambda>x. ''42.0'') False (go_checks one_check) [(goal_clock, hung_check)] [] = Some (False, secs, logd')
     \<and> secs = 66 \<and> secs \<le> real_of_int (checks_allowance_s one_check)"
proof -
  obtain logd' where r: "run_goal_checks (\<lambda>x. ''42.0'') False (go_checks one_check) [(goal_clock, hung_check)] [] = Some (False, 66, logd')"
    by (simp add: one_check_def hung_check_def run_bounded_def drain_after_kill_def wait_secs_def kill_grace_s_def Let_def)
  have w: "list_all (\<lambda>c. 0 \<le> gc_timeout_s c) (go_checks one_check)"
    "list_all (\<lambda>(c, ck, ob). waits_within (gc_timeout_s c) ob) (zip (go_checks one_check) [(goal_clock, hung_check)])"
    by (simp_all add: one_check_def hung_check_def waits_within_def wait_secs_def)
  show ?thesis using goal_checks_bounded [OF r w] r by blast
qed

end
