(* ===== verification/Exn_State.thy ===== *)
theory Exn_State
  imports Base
begin

section \<open>Prelude: operations on a state that may raise\<close>

text \<open>
  An operation takes a state and returns the state it leaves, with a value or with the exception it
  raised: what was done before the exception stays done. The connectives are those of the sources
  (sequence, \<open>try\<close>, \<open>finally\<close>), and \<open>holds\<close> is the logic the component proofs use: from a state in
  \<open>P\<close> the operation ends in \<open>Q x\<close> with the value \<open>x\<close>, or in \<open>E e\<close> with the exception \<open>e\<close>.
\<close>

type_synonym ('s, 'e, 'a) em = "'s \<Rightarrow> 's \<times> ('e + 'a)"

definition eret :: "'a \<Rightarrow> ('s, 'e, 'a) em" where
  "eret x = (\<lambda>s. (s, Inr x))"

definition eraise :: "'e \<Rightarrow> ('s, 'e, 'a) em" where
  "eraise e = (\<lambda>s. (s, Inl e))"

definition ebind :: "('s, 'e, 'a) em \<Rightarrow> ('a \<Rightarrow> ('s, 'e, 'b) em) \<Rightarrow> ('s, 'e, 'b) em" where
  "ebind m f = (\<lambda>s. case m s of (s', Inl e) \<Rightarrow> (s', Inl e) | (s', Inr x) \<Rightarrow> f x s')"

definition ethen :: "('s, 'e, 'a) em \<Rightarrow> ('s, 'e, 'b) em \<Rightarrow> ('s, 'e, 'b) em" where
  "ethen m n = ebind m (\<lambda>_. n)"

text \<open>\<open>try m except\<close>: the handler decides by the exception.\<close>

definition etry :: "('s, 'e, 'a) em \<Rightarrow> ('e \<Rightarrow> ('s, 'e, 'a) em) \<Rightarrow> ('s, 'e, 'a) em" where
  "etry m h = (\<lambda>s. case m s of (s', Inl e) \<Rightarrow> h e s' | r \<Rightarrow> r)"

text \<open>\<open>try m finally f\<close>: an exception of \<open>f\<close> replaces the outcome of \<open>m\<close>.\<close>

definition efinally :: "('s, 'e, 'a) em \<Rightarrow> ('s, 'e, unit) em \<Rightarrow> ('s, 'e, 'a) em" where
  "efinally m f = (\<lambda>s. case m s of (s1, r) \<Rightarrow> (case f s1 of (s2, Inl e) \<Rightarrow> (s2, Inl e) | (s2, Inr _) \<Rightarrow> (s2, r)))"

subsection \<open>The logic\<close>

definition holds :: "('s \<Rightarrow> bool) \<Rightarrow> ('s, 'e, 'a) em \<Rightarrow> ('a \<Rightarrow> 's \<Rightarrow> bool) \<Rightarrow> ('e \<Rightarrow> 's \<Rightarrow> bool) \<Rightarrow> bool" where
  "holds P m Q E \<longleftrightarrow> (\<forall>s. P s \<longrightarrow> (case m s of (s', Inr x) \<Rightarrow> Q x s' | (s', Inl e) \<Rightarrow> E e s'))"

lemma holds_D:
  assumes "holds P m Q E" "P s" "m s = (s', r)"
  shows "(case r of Inr x \<Rightarrow> Q x s' | Inl e \<Rightarrow> E e s')"
  using assms(1) [unfolded holds_def, rule_format, OF assms(2)] assms(3) by (cases r) auto

lemma holds_I:
  "(\<And>s s' r. P s \<Longrightarrow> m s = (s', r) \<Longrightarrow> (case r of Inr x \<Rightarrow> Q x s' | Inl e \<Rightarrow> E e s')) \<Longrightarrow> holds P m Q E"
  unfolding holds_def by (fastforce split: prod.splits sum.splits)

lemma holds_ret: "(\<And>s. P s \<Longrightarrow> Q x s) \<Longrightarrow> holds P (eret x) Q E"
  by (simp add: holds_def eret_def)

lemma holds_raise: "(\<And>s. P s \<Longrightarrow> E e s) \<Longrightarrow> holds P (eraise e) Q E"
  by (simp add: holds_def eraise_def)

lemma holds_bind:
  assumes m: "holds P m R E" and f: "\<And>x. holds (R x) (f x) Q E"
  shows "holds P (ebind m f) Q E"
proof (rule holds_I)
  fix s s' r assume p: "P s" and run: "ebind m f s = (s', r)"
  obtain s1 r1 where r1: "m s = (s1, r1)" by fastforce
  note d = holds_D [OF m p r1]
  show "case r of Inr x \<Rightarrow> Q x s' | Inl e \<Rightarrow> E e s'"
  proof (cases r1)
    case (Inr x)
    have "f x s1 = (s', r)" using run r1 Inr by (simp add: ebind_def)
    from holds_D [OF f _ this] show ?thesis using d Inr by simp
  qed (use d run r1 in \<open>auto simp: ebind_def\<close>)
qed

lemma holds_then: "holds P m (\<lambda>_. R) E \<Longrightarrow> holds R n Q E \<Longrightarrow> holds P (ethen m n) Q E"
  unfolding ethen_def by (rule holds_bind)

lemma holds_try:
  assumes m: "holds P m Q R" and h: "\<And>e. holds (R e) (h e) Q E"
  shows "holds P (etry m h) Q E"
proof (rule holds_I)
  fix s s' r assume p: "P s" and run: "etry m h s = (s', r)"
  obtain s1 r1 where r1: "m s = (s1, r1)" by fastforce
  note d = holds_D [OF m p r1]
  show "case r of Inr x \<Rightarrow> Q x s' | Inl e \<Rightarrow> E e s'"
  proof (cases r1)
    case (Inl e)
    have "h e s1 = (s', r)" using run r1 Inl by (simp add: etry_def)
    from holds_D [OF h _ this] show ?thesis using d Inl by simp
  qed (use d run r1 in \<open>auto simp: etry_def\<close>)
qed

lemma holds_finally:
  assumes m: "holds P m Q R" and ok: "\<And>x. holds (Q x) f (\<lambda>_. Q' x) E" and bad: "\<And>e. holds (R e) f (\<lambda>_. E e) E"
  shows "holds P (efinally m f) Q' E"
proof (rule holds_I)
  fix s s' r assume p: "P s" and run: "efinally m f s = (s', r)"
  obtain s1 r1 where r1: "m s = (s1, r1)" by fastforce
  obtain s2 r2 where r2: "f s1 = (s2, r2)" by fastforce
  note d = holds_D [OF m p r1]
  show "case r of Inr x \<Rightarrow> Q' x s' | Inl e \<Rightarrow> E e s'"
  proof (cases r1)
    case (Inl e)
    then show ?thesis using holds_D [OF bad _ r2, of e] d run r1 r2 by (cases r2) (auto simp: efinally_def)
  next
    case (Inr x)
    then show ?thesis using holds_D [OF ok _ r2, of x] d run r1 r2 by (cases r2) (auto simp: efinally_def)
  qed
qed

lemma holds_conseq:
  "holds P m Q E \<Longrightarrow> (\<And>s. P' s \<Longrightarrow> P s) \<Longrightarrow> (\<And>x s. Q x s \<Longrightarrow> Q' x s) \<Longrightarrow> (\<And>e s. E e s \<Longrightarrow> E' e s)
     \<Longrightarrow> holds P' m Q' E'"
  unfolding holds_def by (fastforce split: prod.splits sum.splits)

lemma holds_if: "(b \<Longrightarrow> holds P m Q E) \<Longrightarrow> (\<not> b \<Longrightarrow> holds P n Q E) \<Longrightarrow> holds P (if b then m else n) Q E"
  by simp

end
