(* ===== verification/Round_Log.thy ===== *)
theory Round_Log
  imports Events "HOL-Library.Sublist"
begin

section \<open>Round logs (agent\_runner/round\_log.py)\<close>

text \<open>
  Pruning the two families of round logs and numbering the next round. A directory entry is a
  file name with what \<open>lstat\<close> says of it; the order of a listing is the host's. Removing a file
  may raise; the names removed before are gone.
\<close>

subsection \<open>Pruning\<close>

record prune_outcome =
  pr_deleted :: nat
  pr_deferred :: nat
  pr_existing :: nat

definition pruning_disabled :: "nat \<Rightarrow> bool" where
  "pruning_disabled keep \<longleftrightarrow> keep = 0"

definition is_bulk :: "nat \<Rightarrow> nat \<Rightarrow> bool" where
  "is_bulk stale keep \<longleftrightarrow> stale > keep"

definition round_current_link :: string where "round_current_link = ''round-current.log''"

text \<open>The two globs, \<open>round-*.log\<close> and \<open>R*.log\<close>.\<close>

definition glob_round :: "string \<Rightarrow> bool" where
  "glob_round name \<longleftrightarrow> prefix ''round-'' name \<and> suffix ''.log'' (drop 6 name)"

definition glob_agent_round :: "string \<Rightarrow> bool" where
  "glob_agent_round name \<longleftrightarrow> prefix ''R'' name \<and> suffix ''.log'' (drop 1 name)"

text \<open>\<open>lstat\<close>: gone, a symbolic link, or a file with its modification time.\<close>

datatype entry_stat = EntryGone | EntryLink | EntryFile real

type_synonym log_entry = "string \<times> entry_stat"

definition mtime_or_none :: "entry_stat \<Rightarrow> real option" where
  "mtime_or_none st = (case st of EntryFile t \<Rightarrow> Some t | _ \<Rightarrow> None)"

fun remove_files :: "(string \<Rightarrow> py_error option) \<Rightarrow> string list \<Rightarrow> string list \<times> py_error option" where
  "remove_files unlink [] = ([], None)"
| "remove_files unlink (f # fs) =
     (case unlink f of
        Some e \<Rightarrow> ([], Some e)
      | None \<Rightarrow> (case remove_files unlink fs of (gone, e) \<Rightarrow> (f # gone, e)))"

text \<open>The common tail of both prunes: \<open>newest_first\<close> is the family, newest first.\<close>

definition prune_family ::
  "(string \<Rightarrow> py_error option) \<Rightarrow> nat \<Rightarrow> string list \<Rightarrow> string list \<times> prune_outcome res" where
  "prune_family unlink keep newest_first =
     (let stale = drop keep newest_first; n = length newest_first
      in if is_bulk (length stale) keep
         then ([], Inr \<lparr>pr_deleted = 0, pr_deferred = length stale, pr_existing = n\<rparr>)
         else (case remove_files unlink stale of
                 (gone, Some e) \<Rightarrow> (gone, Inl e)
               | (gone, None) \<Rightarrow> (gone, Inr \<lparr>pr_deleted = length stale, pr_deferred = 0, pr_existing = n\<rparr>)))"

definition nothing_pruned :: prune_outcome where
  "nothing_pruned = \<lparr>pr_deleted = 0, pr_deferred = 0, pr_existing = 0\<rparr>"

definition present_logs :: "log_entry list \<Rightarrow> (string \<times> real) list" where
  "present_logs listing =
     List.map_filter (\<lambda>(name, st). if \<not> glob_round name \<or> name = round_current_link then None
                                    else map_option (\<lambda>t. (name, t)) (mtime_or_none st)) listing"

text \<open>\<open>sorted(.., reverse=True)\<close> keeps the order of equal keys.\<close>

definition newest_logs :: "log_entry list \<Rightarrow> string list" where
  "newest_logs listing = map fst (sort_key (\<lambda>p. - snd p) (present_logs listing))"

definition prune_old_round_logs ::
  "(string \<Rightarrow> py_error option) \<Rightarrow> nat \<Rightarrow> log_entry list \<Rightarrow> string list \<times> prune_outcome res" where
  "prune_old_round_logs unlink retention listing =
     (if pruning_disabled retention then ([], Inr nothing_pruned)
      else prune_family unlink retention (newest_logs listing))"

text \<open>\<open>^R(\d+)-\<close>.\<close>

definition agent_round_log :: "string \<Rightarrow> int option" where
  "agent_round_log name =
     (case name of [] \<Rightarrow> None
      | c # cs \<Rightarrow>
          let ds = takeWhile is_digit cs; rest = dropWhile is_digit cs
          in if c = CHR ''R'' \<and> ds \<noteq> [] \<and> rest \<noteq> [] \<and> hd rest = CHR ''-'' then Some (digits_value ds) else None)"

definition numbered_logs :: "string list \<Rightarrow> (int \<times> string) list" where
  "numbered_logs names = List.map_filter (\<lambda>name. map_option (\<lambda>n. (n, name)) (agent_round_log name)) (filter glob_agent_round names)"

definition newest_rounds :: "string list \<Rightarrow> string list" where
  "newest_rounds names = map snd (sort_key (\<lambda>p. - fst p) (numbered_logs names))"

definition prune_rounds_dir ::
  "(string \<Rightarrow> py_error option) \<Rightarrow> nat \<Rightarrow> string list option \<Rightarrow> string list \<times> prune_outcome res" where
  "prune_rounds_dir unlink keep listing =
     (if pruning_disabled keep then ([], Inr nothing_pruned)
      else case listing of
             None \<Rightarrow> ([], Inr nothing_pruned)
           | Some names \<Rightarrow> prune_family unlink keep (newest_rounds names))"

subsection \<open>Numbering\<close>

text \<open>\<open>p.stem\<close> of a name that ends in \<open>.log\<close>, then the part after the first dash as an \<open>int\<close>.\<close>

definition log_stem :: "string \<Rightarrow> string" where
  "log_stem name = take (length name - 4) name"

definition round_file_number :: "string \<Rightarrow> int option" where
  "round_file_number name =
     (let stem = log_stem name
      in if name = round_current_link \<or> CHR ''-'' \<notin> set stem then None
         else py_int_of_str (py_strip (snd (py_partition (CHR ''-'') stem))))"

definition next_round_num :: "int \<Rightarrow> string list \<Rightarrow> int" where
  "next_round_num status_num names =
     (let file_nums = List.map_filter round_file_number (filter glob_round names);
          max_file_num = (if file_nums = [] then 0 else Max (set file_nums))
      in max status_num max_file_num + 1)"

text \<open>The name serve and the child give the log of a round.\<close>

definition round_log_name :: "int \<Rightarrow> string" where
  "round_log_name n = ''round-'' @ int_digits n @ ''.log''"

subsection \<open>What a prune may delete\<close>

lemma remove_files_prefix:
  "remove_files unlink fs = (gone, e) \<Longrightarrow> prefix gone fs \<and> (e = None \<longrightarrow> gone = fs)"
proof (induction fs arbitrary: gone)
  case (Cons f fs)
  show ?case
  proof (cases "unlink f")
    case None
    obtain g where g: "remove_files unlink fs = (g, e)" "gone = f # g"
      using Cons.prems None by (auto split: prod.splits)
    then show ?thesis using Cons.IH [of g] by simp
  next
    case (Some a)
    then have "gone = [] \<and> e = Some a" using Cons.prems by simp
    then show ?thesis by simp
  qed
qed simp

lemma remove_files_all:
  "\<forall>f \<in> set fs. unlink f = None \<Longrightarrow> remove_files unlink fs = (fs, None)"
  by (induction fs) auto

lemma sorted_map_split:
  assumes "sorted (map k xs)" "x \<in> set (take n xs)" "y \<in> set (drop n xs)"
  shows "k x \<le> k y"
proof -
  have "sorted (map k (take n xs) @ map k (drop n xs))"
    using assms(1) by (metis append_take_drop_id map_append)
  then show ?thesis using assms(2,3) by (auto simp: sorted_append)
qed

text \<open>A prune is ordered by an age: every name deleted is at least as old as every name kept.\<close>

definition prunes_oldest :: "string list \<Rightarrow> string list \<Rightarrow> nat \<Rightarrow> (string \<Rightarrow> string \<Rightarrow> bool) \<Rightarrow> bool" where
  "prunes_oldest family gone keep newer \<longleftrightarrow>
     set gone \<subseteq> set family
     \<and> length gone \<le> keep \<and> length gone \<le> length family - keep
     \<and> (\<forall>g \<in> set gone. keep \<le> length (filter (\<lambda>f. newer f g) family))"

lemma prune_family_cases:
  assumes run: "prune_family unlink keep fam = (gone, out)"
  shows "(length fam - keep > keep \<and> gone = [] \<and> out = Inr \<lparr>pr_deleted = 0, pr_deferred = length fam - keep, pr_existing = length fam\<rparr>)
    \<or> (length fam - keep \<le> keep \<and> prefix gone (drop keep fam)
       \<and> (\<forall>o'. out = Inr o' \<longrightarrow> gone = drop keep fam
            \<and> o' = \<lparr>pr_deleted = length fam - keep, pr_deferred = 0, pr_existing = length fam\<rparr>))"
proof -
  obtain g e where r: "remove_files unlink (drop keep fam) = (g, e)" by fastforce
  from remove_files_prefix [OF r] have p: "prefix g (drop keep fam)" "e = None \<longrightarrow> g = drop keep fam" by auto
  show ?thesis using run p
    by (cases e) (auto simp: prune_family_def is_bulk_def Let_def r split: if_splits)
qed

lemma prune_family_oldest:
  assumes run: "prune_family unlink keep (map nm (sort_key k xs)) = (gone, out)"
    and newer: "\<And>x y. x \<in> set xs \<Longrightarrow> y \<in> set xs \<Longrightarrow> k x \<le> k y \<Longrightarrow> newer (nm x) (nm y)"
  shows "prunes_oldest (map nm (sort_key k xs)) gone keep newer"
proof -
  let ?s = "sort_key k xs" let ?fam = "map nm ?s"
  from prune_family_cases [OF run] have
    c: "gone = [] \<or> length ?fam - keep \<le> keep \<and> prefix gone (drop keep ?fam)" by blast
  show ?thesis
  proof (cases "gone = []")
    case False
    with c have le: "length ?fam - keep \<le> keep" and p: "prefix gone (drop keep ?fam)" by auto
    have sub: "set gone \<subseteq> set (drop keep ?fam)" using p by (auto simp: prefix_def)
    have len: "length gone \<le> length ?fam - keep" using p prefix_length_le by fastforce
    have kl: "keep \<le> length ?s" using len False by (cases gone) auto
    have "keep \<le> length (filter (\<lambda>f. newer f g) ?fam)" if g: "g \<in> set gone" for g
    proof -
      from g sub obtain y where y: "y \<in> set (drop keep ?s)" "g = nm y" by (auto simp: drop_map)
      have "newer f g" if "f \<in> set (take keep ?fam)" for f
      proof -
        from that obtain x where x: "x \<in> set (take keep ?s)" "f = nm x" by (auto simp: take_map)
        have "k x \<le> k y" by (rule sorted_map_split [OF sorted_sort_key x(1) y(1)])
        moreover have "x \<in> set xs" using in_set_takeD [OF x(1)] by simp
        moreover have "y \<in> set xs" using in_set_dropD [OF y(1)] by simp
        ultimately show ?thesis using newer x y by simp
      qed
      then have "filter (\<lambda>f. newer f g) (take keep ?fam) = take keep ?fam" by (simp add: filter_id_conv)
      then have "length (filter (\<lambda>f. newer f g) (take keep ?fam)) = keep" using kl by simp
      moreover have "filter (\<lambda>f. newer f g) ?fam
          = filter (\<lambda>f. newer f g) (take keep ?fam) @ filter (\<lambda>f. newer f g) (drop keep ?fam)"
        by (metis append_take_drop_id filter_append)
      ultimately show ?thesis by simp
    qed
    then show ?thesis using sub len le set_drop_subset [of keep ?fam] unfolding prunes_oldest_def by fastforce
  qed (simp add: prunes_oldest_def)
qed


lemma present_logs_mem:
  "(f, t) \<in> set (present_logs listing) \<longleftrightarrow>
     glob_round f \<and> f \<noteq> round_current_link \<and> (f, EntryFile t) \<in> set listing"
  by (force simp: present_logs_def mtime_or_none_def List.map_filter_def split: entry_stat.splits if_splits)

lemma numbered_logs_mem:
  "(n, f) \<in> set (numbered_logs names) \<longleftrightarrow> f \<in> set names \<and> glob_agent_round f \<and> agent_round_log f = Some n"
  by (force simp: numbered_logs_def List.map_filter_def)

text \<open>The reports of a pass: what it says it deleted is what it deleted.\<close>

definition prune_report_true :: "string list \<Rightarrow> prune_outcome res \<Rightarrow> bool" where
  "prune_report_true gone out \<longleftrightarrow>
     (case out of Inl _ \<Rightarrow> True | Inr o' \<Rightarrow> pr_deleted o' = length gone \<and> (pr_deleted o' = 0 \<or> pr_deferred o' = 0))"

lemma prune_family_report: "prune_family unlink keep fam = (gone, out) \<Longrightarrow> prune_report_true gone out"
  by (drule prune_family_cases) (auto simp: prune_report_true_def split: sum.splits)

definition not_older :: "log_entry list \<Rightarrow> string \<Rightarrow> string \<Rightarrow> bool" where
  "not_older listing f g \<longleftrightarrow>
     (\<exists>p \<in> set listing. \<exists>q \<in> set listing. fst p = f \<and> fst q = g
        \<and> (case (snd p, snd q) of (EntryFile tf, EntryFile tg) \<Rightarrow> tg \<le> tf | _ \<Rightarrow> False))"

lemma not_olderI:
  "(f, EntryFile tf) \<in> set listing \<Longrightarrow> (g, EntryFile tg) \<in> set listing \<Longrightarrow> tg \<le> tf \<Longrightarrow> not_older listing f g"
  unfolding not_older_def
  by (rule bexI [of _ "(f, EntryFile tf)"], rule bexI [of _ "(g, EntryFile tg)"]) simp_all

definition not_lower :: "string \<Rightarrow> string \<Rightarrow> bool" where
  "not_lower f g \<longleftrightarrow>
     (case (agent_round_log f, agent_round_log g) of (Some a, Some b) \<Rightarrow> b \<le> a | _ \<Rightarrow> False)"

lemma prune_old_oldest:
  assumes "prune_old_round_logs unlink retention listing = (gone, out)"
  shows "prunes_oldest (newest_logs listing) gone retention (not_older listing)"
proof (cases "retention = 0")
  case False
  then have "prune_family unlink retention (newest_logs listing) = (gone, out)"
    using assms by (simp add: prune_old_round_logs_def pruning_disabled_def)
  then show ?thesis unfolding newest_logs_def
    by (rule prune_family_oldest) (clarsimp simp: present_logs_mem, erule (1) not_olderI, simp)
qed (use assms in \<open>simp add: prune_old_round_logs_def pruning_disabled_def prunes_oldest_def\<close>)

lemma prune_rounds_oldest:
  assumes "prune_rounds_dir unlink keep (Some names) = (gone, out)"
  shows "prunes_oldest (newest_rounds names) gone keep not_lower"
proof (cases "keep = 0")
  case False
  then have "prune_family unlink keep (newest_rounds names) = (gone, out)"
    using assms by (simp add: prune_rounds_dir_def pruning_disabled_def)
  then show ?thesis unfolding newest_rounds_def
    by (rule prune_family_oldest) (auto simp: numbered_logs_mem not_lower_def)
qed (use assms in \<open>simp add: prune_rounds_dir_def pruning_disabled_def prunes_oldest_def\<close>)

lemma prune_reports:
  "prune_old_round_logs unlink retention listing = (gone, out) \<Longrightarrow> prune_report_true gone out"
  "prune_rounds_dir unlink keep names = (gone, out) \<Longrightarrow> prune_report_true gone out"
  by (auto simp: prune_old_round_logs_def prune_rounds_dir_def nothing_pruned_def prune_report_true_def
      dest: prune_family_report split: if_splits option.splits)

text \<open>Pruning either family of round logs is safe. A pass removes only entries of its own
  family (a real \<open>round-*.log\<close> file other than the \<open>round-current.log\<close> link; a numbered
  \<open>R<n>-*.log\<close> name), at most as many as it is told to keep (so none when pruning is disabled),
  and for each removed one at least that many members of the family are not older, by modification
  time respectively by round number. A pass that returns reports the number it removed and never
  both removes and defers.\<close>

theorem prune_round_logs_safe:
  assumes serve: "prune_old_round_logs unlink retention listing = (gone, out)"
    and rounds: "prune_rounds_dir unlink' keep (Some names) = (gone', out')"
  shows "(\<forall>g \<in> set gone. glob_round g \<and> g \<noteq> round_current_link
            \<and> retention \<le> length (filter (\<lambda>f. not_older listing f g) (newest_logs listing)))
    \<and> length gone \<le> retention \<and> prune_report_true gone out
    \<and> (\<forall>g \<in> set gone'. g \<in> set names \<and> agent_round_log g \<noteq> None
            \<and> keep \<le> length (filter (\<lambda>f. not_lower f g) (newest_rounds names)))
    \<and> length gone' \<le> keep \<and> prune_report_true gone' out'"
proof -
  have "\<forall>g \<in> set (newest_logs listing). glob_round g \<and> g \<noteq> round_current_link"
    by (auto simp: newest_logs_def present_logs_mem)
  moreover have "\<forall>g \<in> set (newest_rounds names). g \<in> set names \<and> agent_round_log g \<noteq> None"
    by (auto simp: newest_rounds_def numbered_logs_mem)
  ultimately show ?thesis
    using prune_old_oldest [OF serve] prune_rounds_oldest [OF rounds] prune_reports(1) [OF serve] prune_reports(2) [OF rounds]
    unfolding prunes_oldest_def by blast
qed

lemma prune_round_logs_safe_witness:
  "fst (prune_old_round_logs (\<lambda>_. None) 2
      [(''round-1.log'', EntryFile 10), (''round-current.log'', EntryLink), (''round-3.log'', EntryFile 30), (''round-2.log'', EntryFile 20)])
     = [''round-1.log'']
   \<and> fst (prune_rounds_dir (\<lambda>_. None) 1 (Some [''R10-a.log'', ''R9-b.log''])) = [''R9-b.log'']
   \<and> 2 \<le> length (filter (\<lambda>f. not_older
        [(''round-1.log'', EntryFile 10), (''round-current.log'', EntryLink), (''round-3.log'', EntryFile 30), (''round-2.log'', EntryFile 20)]
        f ''round-1.log'') (newest_logs
      [(''round-1.log'', EntryFile 10), (''round-current.log'', EntryLink), (''round-3.log'', EntryFile 30), (''round-2.log'', EntryFile 20)]))"
proof -
  let ?l = "[(''round-1.log'', EntryFile 10), (''round-current.log'', EntryLink), (''round-3.log'', EntryFile 30), (''round-2.log'', EntryFile 20)]"
  have a: "prune_old_round_logs (\<lambda>_. None) 2 ?l = ([''round-1.log''], Inr \<lparr>pr_deleted = 1, pr_deferred = 0, pr_existing = 3\<rparr>)"
    by code_simp
  have b: "prune_rounds_dir (\<lambda>_. None) 1 (Some [''R10-a.log'', ''R9-b.log''])
      = ([''R9-b.log''], Inr \<lparr>pr_deleted = 1, pr_deferred = 0, pr_existing = 2\<rparr>)" by code_simp
  from prune_round_logs_safe [OF a b] a b show ?thesis by simp
qed

subsection \<open>The number of the next round\<close>

lemma nat_digits_all_digits: "nat_digits n \<noteq> [] \<and> list_all is_digit (nat_digits n)"
proof (induction n rule: nat_digits.induct)
  case (1 n)
  then show ?case
    by (subst (1 2) nat_digits.simps) (auto simp: is_digit_digit_char)
qed

lemma filter_all_id: "list_all P xs \<Longrightarrow> filter P xs = xs"
  by (induction xs) auto

lemma digits_value_snoc:
  "is_digit c \<Longrightarrow> digits_value (xs @ [c]) = 10 * digits_value xs + digit_val c"
  by (simp add: digits_value_def)

lemma digits_value_nat_digits: "digits_value (nat_digits n) = int n"
proof (induction n rule: nat_digits.induct)
  case (1 n)
  show ?case
  proof (cases "n < 10")
    case True
    then show ?thesis
      by (subst nat_digits.simps) (simp add: digits_value_def is_digit_digit_char digit_val_digit_char)
  next
    case False
    then have "digits_value (nat_digits n) = 10 * int (n div 10) + int (n mod 10)"
      using 1 by (subst nat_digits.simps) (simp add: digits_value_snoc is_digit_digit_char digit_val_digit_char)
    then show ?thesis by presburger
  qed
qed

lemma nat_digits_length: "n < 10 ^ k \<Longrightarrow> 0 < k \<Longrightarrow> length (nat_digits n) \<le> k"
proof (induction k arbitrary: n)
  case (Suc k)
  show ?case
  proof (cases "n < 10")
    case False
    then have "0 < k" using Suc.prems by (cases k) auto
    moreover have "n div 10 < 10 ^ k" using Suc.prems by (simp add: div_less_iff_less_mult mult.commute)
    ultimately have "length (nat_digits (n div 10)) \<le> k" using Suc.IH by blast
    then show ?thesis using False by (subst nat_digits.simps) simp
  qed (subst nat_digits.simps, simp)
qed simp

lemma digit_groups_all: "xs \<noteq> [] \<Longrightarrow> list_all is_digit xs \<Longrightarrow> digit_groups_ok xs"
proof (induction xs rule: digit_groups_ok.induct)
  case (3 c d cs)
  then have "c \<noteq> CHR ''_''" "d \<noteq> CHR ''_''" by (auto simp: is_digit_def char_code_def)
  then show ?case using 3 by simp
qed auto

text \<open>The longest decimal numeral Python converts from text.\<close>

definition int_max_str_digits :: nat where "int_max_str_digits = 4300"

text \<open>\<open>int(str(n))\<close> is \<open>n\<close>, for a number Python prints.\<close>

lemma int_of_printed:
  assumes "0 \<le> n" "n < 10 ^ int_max_str_digits"
  shows "py_int_of_str (py_strip (int_digits n)) = Some n"
proof -
  let ?d = "nat_digits (nat n)"
  have d: "?d \<noteq> []" "list_all is_digit ?d" using nat_digits_all_digits by auto
  then have sp: "\<forall>c \<in> set ?d. \<not> is_space c" by (auto simp: list_all_iff digit_not_space)
  then have strip: "py_strip ?d = ?d" using d by (intro py_strip_id) auto
  have "nat n < 10 ^ int_max_str_digits" using assms by (simp add: nat_less_iff)
  then have "length ?d \<le> int_max_str_digits"
    by (rule nat_digits_length) (simp add: int_max_str_digits_def)
  then have len: "length ?d \<le> 4300" by (simp add: int_max_str_digits_def)
  have hd: "is_digit (hd ?d)" using d by (cases ?d) auto
  then have "hd ?d \<noteq> CHR ''-''" "hd ?d \<noteq> CHR ''+''" by (auto simp: is_digit_def char_code_def)
  then show ?thesis
    using d len assms by (simp add: int_digits_def strip py_int_of_str_def Let_def digit_groups_all
        filter_all_id digits_value_nat_digits)
qed

lemma round_file_number_printed:
  assumes "0 \<le> n" "n < 10 ^ int_max_str_digits"
  shows "round_file_number (round_log_name n) = Some n"
proof -
  have stem: "log_stem (round_log_name n) = ''round-'' @ int_digits n"
    by (simp add: log_stem_def round_log_name_def)
  have d: "int_digits n \<noteq> []" "list_all is_digit (int_digits n)"
    using assms nat_digits_all_digits by (auto simp: int_digits_def)
  have hd: "is_digit (hd (int_digits n))" using d by (cases "int_digits n") auto
  have "round_log_name n \<noteq> round_current_link"
  proof
    assume "round_log_name n = round_current_link"
    then have "hd (drop 6 (round_log_name n)) = CHR ''c''" by (simp add: round_current_link_def)
    then have "hd (int_digits n) = CHR ''c''" using d by (simp add: round_log_name_def)
    then show False using hd by (simp add: is_digit_def char_code_def)
  qed
  moreover have "snd (py_partition (CHR ''-'') (''round-'' @ int_digits n)) = int_digits n"
    by (simp add: py_partition_def)
  ultimately show ?thesis using assms
    by (simp add: round_file_number_def Let_def stem int_of_printed)
qed

lemma glob_round_log_name: "glob_round (round_log_name n)"
  by (simp add: glob_round_def round_log_name_def suffix_def)

lemma next_round_num_bound:
  "status_num < next_round_num status_num names"
  "f \<in> set names \<Longrightarrow> glob_round f \<Longrightarrow> round_file_number f = Some m \<Longrightarrow> m < next_round_num status_num names"
proof -
  show "status_num < next_round_num status_num names" by (simp add: next_round_num_def Let_def)
next
  assume f: "f \<in> set names" "glob_round f" "round_file_number f = Some m"
  let ?nums = "List.map_filter round_file_number (filter glob_round names)"
  have "m \<in> set ?nums" using f by (force simp: List.map_filter_def)
  then have "?nums \<noteq> []" "m \<le> Max (set ?nums)" by auto
  then show "m < next_round_num status_num names" by (simp add: next_round_num_def Let_def)
qed

text \<open>The number of the next round is fresh. It exceeds the last recorded number and the
  number of every round log in the directory, so the log the round is about to write does not
  exist yet, even when the recorded status was deleted; and it skips nothing: it is one more than
  the recorded number, or one more than the number of an existing log, or 1.\<close>

theorem next_round_num_fresh:
  assumes recorded: "0 \<le> status_num"
    and n: "next_round_num status_num names = n" "n < 10 ^ int_max_str_digits"
  shows "round_log_name n \<notin> set names \<and> status_num < n
    \<and> (\<forall>f \<in> set names. \<forall>m. glob_round f \<and> round_file_number f = Some m \<longrightarrow> m < n)
    \<and> (n = status_num + 1 \<or> n = 1 \<or> (\<exists>f \<in> set names. glob_round f \<and> round_file_number f = Some (n - 1)))"
proof -
  let ?nums = "List.map_filter round_file_number (filter glob_round names)"
  have s: "status_num < n" using next_round_num_bound(1) [of status_num names] n by simp
  have fresh: "round_log_name n \<notin> set names"
  proof
    assume "round_log_name n \<in> set names"
    moreover have "round_file_number (round_log_name n) = Some n"
      using s recorded n by (intro round_file_number_printed) auto
    ultimately have "n < n" using next_round_num_bound(2) [of "round_log_name n" names n status_num]
        glob_round_log_name n by simp
    then show False by simp
  qed
  have "n = status_num + 1 \<or> n = 1 \<or> (\<exists>f \<in> set names. glob_round f \<and> round_file_number f = Some (n - 1))"
  proof (cases "?nums = []")
    case False
    then have "Max (set ?nums) \<in> set ?nums" by simp
    then obtain f where "f \<in> set names" "glob_round f" "round_file_number f = Some (Max (set ?nums))"
      by (force simp: List.map_filter_def)
    moreover have "n = max status_num (Max (set ?nums)) + 1"
      using n(1) False by (simp add: next_round_num_def Let_def)
    ultimately show ?thesis by (auto simp: max_def split: if_splits)
  qed (use n in \<open>auto simp: next_round_num_def max_def split: if_splits\<close>)
  moreover have "\<forall>f \<in> set names. \<forall>m. glob_round f \<and> round_file_number f = Some m \<longrightarrow> m < n"
    using next_round_num_bound(2) [where names = names and status_num = status_num] n(1) by simp
  ultimately show ?thesis using s fresh by simp
qed

lemma next_round_num_fresh_witness:
  "next_round_num 0 [''round-12.log'', ''round-current.log'', ''round-9.log'', ''round-x.log''] = 13
   \<and> round_log_name 13 \<notin> {''round-12.log'', ''round-current.log'', ''round-9.log'', ''round-x.log''}"
proof -
  have a: "next_round_num 0 [''round-12.log'', ''round-current.log'', ''round-9.log'', ''round-x.log''] = 13"
    by code_simp
  have "(13 :: int) < 10 ^ int_max_str_digits" 
    by (rule less_le_trans [of _ "10 ^ 2"]) (simp, rule power_increasing, simp_all add: int_max_str_digits_def)
  from next_round_num_fresh [OF _ a this] a show ?thesis by simp
qed

end
