(* ===== verification/Context_Store.thy ===== *)
theory Context_Store
  imports Events
begin

section \<open>Persistent JSON state (agent\_runner/context\_store.py)\<close>

text \<open>
  The status, the orphan record and the atomic write they share. The file system is a map from
  paths to contents; each system call of the write may proceed, raise, or be the last one before
  the process is killed (\<open>n\<close> is how much of a chunk had reached the file). \<open>json.dump\<close> and
  \<open>json.loads\<close> are parameters: the chunks written for a document and the document read from a
  text, \<open>None\<close> where \<open>loads\<close> raises \<open>ValueError\<close>. A document that is not an object is \<open>JOther\<close>.
\<close>

subsection \<open>The atomic write\<close>

type_synonym fs = "string \<rightharpoonup> string"

datatype fs_step = Append string | Sync | Replace

datatype fs_fault = Proceeds | Raises nat | Killed nat

datatype write_end = WriteDone | WriteRaised | WriteKilled

definition append_to :: "string \<Rightarrow> string \<Rightarrow> fs \<Rightarrow> fs" where
  "append_to p s fs = fs(p \<mapsto> (case fs p of None \<Rightarrow> [] | Some old \<Rightarrow> old) @ s)"

fun fs_apply :: "string \<Rightarrow> string \<Rightarrow> fs_step \<Rightarrow> fs \<Rightarrow> fs" where
  "fs_apply tmp path (Append s) fs = append_to tmp s fs"
| "fs_apply tmp path Sync fs = fs"
| "fs_apply tmp path Replace fs = fs(path := fs tmp, tmp := None)"

text \<open>What a call that did not return has done: part of an append, nothing else.\<close>

fun fs_partial :: "string \<Rightarrow> nat \<Rightarrow> fs_step \<Rightarrow> fs \<Rightarrow> fs" where
  "fs_partial tmp n (Append s) fs = append_to tmp (take n s) fs"
| "fs_partial tmp n step fs = fs"

fun run_steps :: "string \<Rightarrow> string \<Rightarrow> fs_step list \<Rightarrow> fs_fault list \<Rightarrow> fs \<Rightarrow> fs \<times> write_end" where
  "run_steps tmp path [] faults fs = (fs, WriteDone)"
| "run_steps tmp path (s # ss) faults fs =
     (case faults of
        [] \<Rightarrow> run_steps tmp path ss [] (fs_apply tmp path s fs)
      | Proceeds # rest \<Rightarrow> run_steps tmp path ss rest (fs_apply tmp path s fs)
      | Raises n # rest \<Rightarrow> (fs_partial tmp n s fs, WriteRaised)
      | Killed n # rest \<Rightarrow> (fs_partial tmp n s fs, WriteKilled))"

definition write_steps :: "string list \<Rightarrow> fs_step list" where
  "write_steps chunks = map Append chunks @ [Sync, Replace]"

text \<open>\<open>mkstemp\<close> creates the temporary file; the handler removes it and re-raises.\<close>

definition atomic_write_json ::
  "string \<Rightarrow> string \<Rightarrow> string list \<Rightarrow> fs_fault list \<Rightarrow> fs \<Rightarrow> fs \<times> write_end" where
  "atomic_write_json tmp path chunks faults fs =
     (case run_steps tmp path (write_steps chunks) faults (fs(tmp \<mapsto> [])) of
        (fs', WriteRaised) \<Rightarrow> (fs'(tmp := None), WriteRaised)
      | r \<Rightarrow> r)"

subsection \<open>Reading and the two records\<close>

datatype json_doc = JDict event | JOther

definition read_json :: "(string \<Rightarrow> json_doc option) \<Rightarrow> string option \<Rightarrow> json_doc option" where
  "read_json loads file = (case file of None \<Rightarrow> None | Some s \<Rightarrow> loads s)"

record status =
  st_round_num :: int
  st_running :: pyval
  st_last_completed_at :: pyval
  st_last_exit_code :: pyval
  st_last_duration_s :: pyval
  st_current_phase :: pyval
  st_phase_index :: pyval

definition status_fields :: "status \<Rightarrow> (string \<times> pyval) list" where
  "status_fields s =
     [(''round_num'', PInt (st_round_num s)), (''running'', st_running s),
      (''last_completed_at'', st_last_completed_at s), (''last_exit_code'', st_last_exit_code s),
      (''last_duration_s'', st_last_duration_s s), (''current_phase'', st_current_phase s),
      (''phase_index'', st_phase_index s)]"

definition write_status_payload :: "status \<Rightarrow> event" where
  "write_status_payload s = map_of (filter (\<lambda>(k, v). v \<noteq> PNone) (status_fields s))"

text \<open>
  \<open>read_status\<close> reads the fields it knows; a missing \<open>round_num\<close> or \<open>running\<close> is the constructor's
  \<open>TypeError\<close>, a round number that is no \<open>int\<close> is refused.
\<close>

definition read_status :: "json_doc option \<Rightarrow> status option" where
  "read_status doc =
     (case doc of
        Some (JDict d) \<Rightarrow>
          (case (d ''round_num'', d ''running'') of
             (Some (PInt n), Some r) \<Rightarrow>
               Some \<lparr>st_round_num = n, st_running = r,
                     st_last_completed_at = ev_get d ''last_completed_at'',
                     st_last_exit_code = ev_get d ''last_exit_code'',
                     st_last_duration_s = ev_get d ''last_duration_s'',
                     st_current_phase = ev_get d ''current_phase'',
                     st_phase_index = ev_get_or d ''phase_index'' (PInt 0)\<rparr>
           | _ \<Rightarrow> None)
      | _ \<Rightarrow> None)"

definition status_file :: string where "status_file = ''status.json''"

definition orphan_file :: string where "orphan_file = ''orphan-state.json''"

definition read_round_num :: "status option \<Rightarrow> int" where
  "read_round_num s = (case s of None \<Rightarrow> 0 | Some s \<Rightarrow> st_round_num s)"

record orphan_state =
  or_round_num :: pyval
  or_files :: pyval
  or_stashed_ref :: pyval
  or_stash_message :: pyval
  or_timestamp :: pyval
  or_phase :: pyval

definition write_orphan_payload :: "orphan_state \<Rightarrow> event" where
  "write_orphan_payload s =
     map_of [(''round_num'', or_round_num s), (''files'', or_files s), (''stashed_ref'', or_stashed_ref s),
             (''stash_message'', or_stash_message s), (''timestamp'', or_timestamp s), (''phase'', or_phase s)]"

definition read_orphan_state :: "json_doc option \<Rightarrow> orphan_state option" where
  "read_orphan_state doc =
     (case doc of
        Some (JDict d) \<Rightarrow>
          (if list_all (\<lambda>k. d k \<noteq> None) [''round_num'', ''files'', ''stashed_ref'', ''stash_message'', ''timestamp'']
           then Some \<lparr>or_round_num = ev_get d ''round_num'', or_files = ev_get d ''files'',
                      or_stashed_ref = ev_get d ''stashed_ref'', or_stash_message = ev_get d ''stash_message'',
                      or_timestamp = ev_get d ''timestamp'', or_phase = ev_get d ''phase''\<rparr>
           else None)
      | _ \<Rightarrow> None)"

text \<open>The write of either record at its path under the log directory.\<close>

definition write_status ::
  "(event \<Rightarrow> string list) \<Rightarrow> string \<Rightarrow> status \<Rightarrow> fs_fault list \<Rightarrow> fs \<Rightarrow> fs \<times> write_end" where
  "write_status dump tmp s = atomic_write_json tmp status_file (dump (write_status_payload s))"

definition write_orphan_state ::
  "(event \<Rightarrow> string list) \<Rightarrow> string \<Rightarrow> orphan_state \<Rightarrow> fs_fault list \<Rightarrow> fs \<Rightarrow> fs \<times> write_end" where
  "write_orphan_state dump tmp s = atomic_write_json tmp orphan_file (dump (write_orphan_payload s))"

definition clear_orphan_state :: "fs \<Rightarrow> fs" where
  "clear_orphan_state fs = fs(orphan_file := None)"

subsection \<open>The write is all or nothing\<close>

lemma append_to_other [simp]: "q \<noteq> p \<Longrightarrow> append_to p s fs q = fs q"
  by (simp add: append_to_def)

lemma append_to_at [simp]: "fs p = Some old \<Longrightarrow> append_to p s fs p = Some (old @ s)"
  by (simp add: append_to_def)

lemma run_steps_write:
  assumes "fs tmp = Some old" "tmp \<noteq> path"
    and run: "run_steps tmp path (write_steps chunks) faults fs = (fs', e)"
  shows "(\<forall>q. q \<noteq> tmp \<and> q \<noteq> path \<longrightarrow> fs' q = fs q)
    \<and> (if e = WriteDone then fs' path = Some (old @ concat chunks) \<and> fs' tmp = None
       else fs' path = fs path \<and> fs' tmp \<noteq> None)"
  using assms
proof (induction chunks arbitrary: old fs faults)
  case Nil
  then show ?case
    by (auto simp: write_steps_def split: list.splits fs_fault.splits)
next
  case (Cons c cs)
  have more: "write_steps (c # cs) = Append c # write_steps cs" by (simp add: write_steps_def)
  have step: ?case if "run_steps tmp path (write_steps cs) rest (append_to tmp c fs) = (fs', e)" for rest
    using Cons.IH [OF _ Cons.prems(2) that, of "old @ c"] Cons.prems(1,2) by simp
  show ?case
  proof (cases faults)
    case Nil
    then show ?thesis using step [of "[]"] Cons.prems(3) more by simp
  next
    case (Cons f rest)
    show ?thesis
    proof (cases f)
      case Proceeds
      then show ?thesis using step [of rest] Cons.prems(3) more Cons by simp
    next
      case (Raises n)
      then have r: "fs' = append_to tmp (take n c) fs" "e = WriteRaised" using Cons.prems(3) more Cons by auto
      then show ?thesis using Cons.prems(1,2) by simp
    next
      case (Killed n)
      then have r: "fs' = append_to tmp (take n c) fs" "e = WriteKilled" using Cons.prems(3) more Cons by auto
      then show ?thesis using Cons.prems(1,2) by simp
    qed
  qed
qed


lemma atomic_write_outcome:
  assumes tmp: "fs tmp = None" "tmp \<noteq> path"
    and run: "atomic_write_json tmp path chunks faults fs = (fs', e)"
  shows "(e = WriteDone \<longrightarrow> fs' = fs(path \<mapsto> concat chunks))
    \<and> (e = WriteRaised \<longrightarrow> fs' = fs)
    \<and> (e = WriteKilled \<longrightarrow> fs'(tmp := None) = fs)"
proof -
  obtain g where r: "run_steps tmp path (write_steps chunks) faults (fs(tmp \<mapsto> [])) = (g, e)"
    and g: "fs' = (if e = WriteRaised then g(tmp := None) else g)"
    using run by (auto simp: atomic_write_json_def split: prod.splits write_end.splits)
  have "(fs(tmp \<mapsto> [])) tmp = Some []" by simp
  note o = run_steps_write [OF this tmp(2) r]
  have other: "g q = fs q" if "q \<noteq> tmp" "q \<noteq> path" for q using o that by simp
  show ?thesis
  proof (cases e)
    case WriteDone
    then have "fs' q = (fs(path \<mapsto> concat chunks)) q" for q
      using o g tmp other [of q] by (cases "q = tmp"; cases "q = path") auto
    then show ?thesis using WriteDone by auto
  next
    case WriteRaised
    then have "fs' q = fs q" for q
      using o g tmp other [of q] by (cases "q = tmp"; cases "q = path") auto
    then show ?thesis using WriteRaised by auto
  next
    case WriteKilled
    then have "(fs'(tmp := None)) q = fs q" for q
      using o g tmp other [of q] by (cases "q = tmp"; cases "q = path") auto
    then show ?thesis using WriteKilled by auto
  qed
qed

text \<open>A status as the round loop writes it: the fields without a default are there.\<close>

definition writable_status :: "status \<Rightarrow> bool" where
  "writable_status s \<longleftrightarrow> st_running s \<noteq> PNone \<and> st_phase_index s \<noteq> PNone"

lemma read_written_status:
  "writable_status s \<Longrightarrow> read_status (Some (JDict (write_status_payload s))) = Some s"
  by (cases s) (auto simp: read_status_def write_status_payload_def status_fields_def writable_status_def
      ev_get_def ev_get_or_def)

lemma read_written_orphan:
  "read_orphan_state (Some (JDict (write_orphan_payload s))) = Some s"
  by (cases s) (simp add: read_orphan_state_def write_orphan_payload_def ev_get_def ev_get_or_def)

text \<open>C20: the recorded status and the recorded orphan are all-or-nothing. Whatever a write meets (a
  call that raises, or the process killed in the middle of a chunk), reading the file afterwards
  gives the record written, when the write returned, or what was there before, otherwise; never a
  mixture and never a lost record. A write that raises leaves the file system as it was, a killed
  one at most its temporary file, and no other file is touched. So a round number that was ever
  recorded is not forgotten by a crashed write.\<close>

theorem state_writes_atomic:
  assumes json: "loads (concat (dump (write_status_payload s))) = Some (JDict (write_status_payload s))"
      "loads (concat (dump (write_orphan_payload o'))) = Some (JDict (write_orphan_payload o'))"
    and status: "writable_status s" "write_status dump tmp s faults fs = (fs1, e1)"
    and orphan: "write_orphan_state dump tmp o' faults' fs = (fs2, e2)"
    and tmp: "fs tmp = None" "tmp \<noteq> status_file" "tmp \<noteq> orphan_file"
  shows "read_status (read_json loads (fs1 status_file))
           = (if e1 = WriteDone then Some s else read_status (read_json loads (fs status_file)))
    \<and> read_orphan_state (read_json loads (fs2 orphan_file))
           = (if e2 = WriteDone then Some o' else read_orphan_state (read_json loads (fs orphan_file)))
    \<and> (e1 = WriteRaised \<longrightarrow> fs1 = fs) \<and> (e2 = WriteRaised \<longrightarrow> fs2 = fs)
    \<and> (\<forall>q. q \<noteq> status_file \<and> q \<noteq> tmp \<longrightarrow> fs1 q = fs q) \<and> (\<forall>q. q \<noteq> orphan_file \<and> q \<noteq> tmp \<longrightarrow> fs2 q = fs q)
    \<and> (faults = [] \<longrightarrow> e1 = WriteDone)"
proof -
  note w1 = atomic_write_outcome [OF tmp(1,2) status(2) [unfolded write_status_def]]
  note w2 = atomic_write_outcome [OF tmp(1,3) orphan [unfolded write_orphan_state_def]]
  have s: "read_status (read_json loads (Some (concat (dump (write_status_payload s))))) = Some s"
    using status(1) by (simp add: read_json_def json read_written_status)
  have o: "read_orphan_state (read_json loads (Some (concat (dump (write_orphan_payload o'))))) = Some o'"
    by (simp add: read_json_def json read_written_orphan)
  have fin: "e1 = WriteDone" if "faults = []"
  proof -
    have "snd (run_steps tmp path ss [] g) = WriteDone" for path ss g
      by (induction ss arbitrary: g) auto
    from this [of status_file "write_steps (dump (write_status_payload s))" "fs(tmp \<mapsto> [])"]
    show ?thesis using status(2) that
      by (auto simp: write_status_def atomic_write_json_def split: prod.splits write_end.splits)
  qed
  have k1: "fs1 q = fs q" if "q \<noteq> status_file" "q \<noteq> tmp" for q
    using w1 that by (cases e1) (auto simp: fun_eq_iff split: if_splits)
  have k2: "fs2 q = fs q" if "q \<noteq> orphan_file" "q \<noteq> tmp" for q
    using w2 that by (cases e2) (auto simp: fun_eq_iff split: if_splits)
  have f1: "fs1 status_file = (if e1 = WriteDone then Some (concat (dump (write_status_payload s))) else fs status_file)"
    using w1 tmp by (cases e1) (auto simp: fun_eq_iff split: if_splits)
  have f2: "fs2 orphan_file = (if e2 = WriteDone then Some (concat (dump (write_orphan_payload o'))) else fs orphan_file)"
    using w2 tmp by (cases e2) (auto simp: fun_eq_iff split: if_splits)
  show ?thesis using w1 w2 s o fin k1 k2 by (simp add: f1 f2)
qed


lemma state_writes_atomic_witness:
  "let s = \<lparr>st_round_num = 7, st_running = PBool False, st_last_completed_at = PStr ''t'', st_last_exit_code = PInt 0,
            st_last_duration_s = PNone, st_current_phase = PNone, st_phase_index = PInt 0\<rparr>;
       dump = (\<lambda>d :: event. if d ''running'' = None then [''orphan''] else [''sta'', ''tus'']);
       loads = (\<lambda>t. if t = ''status'' then Some (JDict (write_status_payload s)) else Some JOther);
       old = [status_file \<mapsto> ''other'']
   in fst (write_status dump ''t.tmp'' s [Proceeds, Killed 2] old) ''t.tmp'' = Some ''statu''
      \<and> read_status (read_json loads (fst (write_status dump ''t.tmp'' s [Proceeds, Killed 2] old) status_file)) = None
      \<and> read_status (read_json loads (fst (write_status dump ''t.tmp'' s [] old) status_file)) = Some s"
proof -
  define s where "s = \<lparr>st_round_num = 7, st_running = PBool False, st_last_completed_at = PStr ''t'', st_last_exit_code = PInt 0,
            st_last_duration_s = PNone, st_current_phase = PNone, st_phase_index = PInt 0\<rparr>"
  define o' where "o' = \<lparr>or_round_num = PInt 7, or_files = PCompound ''[]'', or_stashed_ref = PNone, or_stash_message = PNone,
            or_timestamp = PStr ''t'', or_phase = PNone\<rparr>"
  define dump where "dump = (\<lambda>d :: event. if d ''running'' = None then [''orphan''] else [''sta'', ''tus''])"
  define loads where "loads = (\<lambda>t. if t = ''status'' then Some (JDict (write_status_payload s))
            else if t = ''orphan'' then Some (JDict (write_orphan_payload o')) else Some JOther)"
  define loads' where "loads' = (\<lambda>t. if t = ''status'' then Some (JDict (write_status_payload s)) else Some JOther)"
  let ?old = "[status_file \<mapsto> ''other''] :: fs"
  have d: "dump (write_status_payload s) = [''sta'', ''tus'']" "dump (write_orphan_payload o') = [''orphan'']"
    by (simp_all add: dump_def s_def o'_def write_status_payload_def status_fields_def write_orphan_payload_def)
  have json: "loads (concat (dump (write_status_payload s))) = Some (JDict (write_status_payload s))"
      "loads (concat (dump (write_orphan_payload o'))) = Some (JDict (write_orphan_payload o'))"
    by (simp_all add: d loads_def)
  have w: "writable_status s" by (simp add: writable_status_def s_def)
  have t: "?old ''t.tmp'' = None" "''t.tmp'' \<noteq> status_file" "''t.tmp'' \<noteq> orphan_file"
    by (simp_all add: status_file_def orphan_file_def)
  have full: "write_status dump ''t.tmp'' s [] ?old = (?old(status_file \<mapsto> ''status''), WriteDone)"
    using t by (simp add: write_status_def atomic_write_json_def write_steps_def d append_to_def fun_eq_iff status_file_def)
  have killed: "write_status dump ''t.tmp'' s [Proceeds, Killed 2] ?old = (?old(''t.tmp'' \<mapsto> ''statu''), WriteKilled)"
    using t by (simp add: write_status_def atomic_write_json_def write_steps_def d append_to_def fun_eq_iff status_file_def)
  obtain f2 e2 where o2: "write_orphan_state dump ''t.tmp'' o' [] ?old = (f2, e2)" by fastforce
  have a: "read_status (read_json loads ((?old(status_file \<mapsto> ''status'')) status_file)) = Some s"
    using state_writes_atomic [OF json w full o2 t] by simp
  have b: "read_status (read_json loads ((?old(''t.tmp'' \<mapsto> ''statu'')) status_file)) = None"
    using state_writes_atomic [OF json w killed o2 t] by (simp add: read_json_def loads_def read_status_def)
  have eq: "read_json loads' (Some t) = read_json loads (Some t)" if "t \<noteq> ''orphan''" for t
    using that by (simp add: read_json_def loads_def loads'_def)
  have "fst (write_status dump ''t.tmp'' s [Proceeds, Killed 2] ?old) ''t.tmp'' = Some ''statu''
      \<and> read_status (read_json loads' (fst (write_status dump ''t.tmp'' s [Proceeds, Killed 2] ?old) status_file)) = None
      \<and> read_status (read_json loads' (fst (write_status dump ''t.tmp'' s [] ?old) status_file)) = Some s"
    using a b t by (simp add: full killed eq)
  then show ?thesis unfolding Let_def s_def dump_def loads'_def by simp
qed

end
