(* ===== verification/Prompt.thy ===== *)
theory Prompt
  imports Phase_Select Config_Load Agent_Argv "HOL-Library.Sublist"
begin

section \<open>The prompt of a round (agent\_runner/prompt\_loader.py, \_round\_support.py)\<close>

text \<open>
  Reading the prompt files, stripping the front matter of the first, joining, and the round-context
  block. \<open>read\<close> is what reading a path gives; \<open>dumps\<close> is the JSON text of the context. The second
  component of an assembly is the list of the indexes a warning was logged for.
\<close>

definition nl :: char where "nl = CHR 0x0A"

text \<open>\<open>s.find(sub, start)\<close>.\<close>

fun find_here :: "string \<Rightarrow> string \<Rightarrow> nat option" where
  "find_here sub [] = (if sub = [] then Some 0 else None)"
| "find_here sub (c # cs) = (if prefix sub (c # cs) then Some 0 else map_option Suc (find_here sub cs))"

definition py_find :: "string \<Rightarrow> string \<Rightarrow> nat \<Rightarrow> nat option" where
  "py_find s sub start = (if start \<le> length s then map_option ((+) start) (find_here sub (drop start s)) else None)"

definition fm_open :: string where "fm_open = ''---'' @ [nl]"

definition fm_close :: string where "fm_close = nl # ''---'' @ [nl]"

definition strip_yaml_frontmatter :: "string \<Rightarrow> string" where
  "strip_yaml_frontmatter s =
     (if \<not> prefix fm_open s then s
      else case py_find s fm_close 4 of
             None \<Rightarrow> s
           | Some e \<Rightarrow> py_lstrip (drop (e + length fm_close) s))"

definition format_context_block :: "('c \<Rightarrow> string) \<Rightarrow> 'c \<Rightarrow> string" where
  "format_context_block dumps ctx =
     ''```json round-context'' @ [nl] @ dumps ctx @ [nl] @ ''```'' @ [nl, nl]"

datatype file_read = ReadMissing | ReadError py_error | ReadText string

fun read_bodies ::
  "(string \<Rightarrow> file_read) \<Rightarrow> bool \<Rightarrow> nat \<Rightarrow> string list \<Rightarrow> (string list \<times> nat list) res" where
  "read_bodies read strip i [] = Inr ([], [])"
| "read_bodies read strip i (f # fs) =
     (case read f of
        ReadMissing \<Rightarrow>
          if i = 0 then Inl (OSError (''prompt.files[0] missing: '' @ f))
          else res_bind (read_bodies read strip (Suc i) fs) (\<lambda>(bs, ws). Inr (bs, i # ws))
      | ReadError e \<Rightarrow> Inl e
      | ReadText body \<Rightarrow>
          res_bind (read_bodies read strip (Suc i) fs) (\<lambda>(bs, ws).
            Inr ((if i = 0 \<and> strip then strip_yaml_frontmatter body else body) # bs, ws)))"

definition load_prompt ::
  "(string \<Rightarrow> file_read) \<Rightarrow> ('c \<Rightarrow> string) \<Rightarrow> string list \<Rightarrow> 'c option \<Rightarrow> bool \<Rightarrow> injection_mode \<Rightarrow> string \<Rightarrow> bool
     \<Rightarrow> (string \<times> nat list) res" where
  "load_prompt read dumps files context inject mode separator strip =
     (if files = [] then Inl (ValueError ''prompt_files must be non-empty'')
      else res_bind (read_bodies read strip 0 files) (\<lambda>(bodies, ws).
        let body = join_with separator bodies in
        Inr (case context of
               Some ctx \<Rightarrow> (if inject \<and> mode = Prepend then format_context_block dumps ctx @ body else body, ws)
             | None \<Rightarrow> (body, ws))))"

subsection \<open>The prompt of a phase\<close>

definition prompt_files_of :: "full_config \<Rightarrow> string option \<Rightarrow> string list res" where
  "prompt_files_of cfg phase =
     (let pr = profile_for (base_config cfg) phase; p = cf_prompt cfg in
      case pr_prompt_files pr of
        Some fs \<Rightarrow> Inr fs
      | None \<Rightarrow>
          (if pp_files p \<noteq> [] then Inr (pp_files p)
           else case pp_file p of
                  Some f \<Rightarrow> Inr [f]
                | None \<Rightarrow> Inl (ValueError ''no prompt files configured'')))"

definition under_work_dir :: "full_config \<Rightarrow> string \<Rightarrow> string" where
  "under_work_dir cfg f = (if is_absolute f then f else rt_work_dir (cf_runtime cfg) @ ''/'' @ f)"

definition assemble_prompt ::
  "(string \<Rightarrow> file_read) \<Rightarrow> ('c \<Rightarrow> string) \<Rightarrow> full_config \<Rightarrow> string option \<Rightarrow> 'c option \<Rightarrow> (string \<times> nat list) res" where
  "assemble_prompt read dumps cfg phase context =
     (let p = cf_prompt cfg in
      res_bind (prompt_files_of cfg phase) (\<lambda>files.
        load_prompt read dumps (map (under_work_dir cfg) files) context
          (pp_inject_context p) (pp_mode p) (pp_separator p) (pp_strip_frontmatter p)))"

subsection \<open>The self-termination sentinel\<close>

text \<open>\<open>sentinel\<close>: absent, present and readable, or present and unreadable.\<close>

definition read_sentinel_content :: "file_read \<Rightarrow> string option res" where
  "read_sentinel_content sentinel =
     (case sentinel of
        ReadMissing \<Rightarrow> Inr None
      | ReadText s \<Rightarrow> Inr (Some (take 200 s))
      | ReadError (OSError m) \<Rightarrow> Inr (Some [])
      | ReadError e \<Rightarrow> Inl e)"

subsection \<open>Front matter\<close>

lemma find_here_Some:
  "find_here sub s = Some i \<longleftrightarrow> (\<exists>pre post. s = pre @ sub @ post \<and> i = length pre
     \<and> (\<forall>pre' post'. s = pre' @ sub @ post' \<longrightarrow> length pre \<le> length pre'))"
proof (induction sub s arbitrary: i rule: find_here.induct)
  case (1 sub)
  then show ?case by auto
next
  case (2 sub c cs)
  show ?case
  proof (cases "prefix sub (c # cs)")
    case True
    then obtain post where p: "c # cs = sub @ post" by (auto simp: prefix_def)
    have "i = 0" if "\<exists>pre post. c # cs = pre @ sub @ post \<and> i = length pre
       \<and> (\<forall>pre' post'. c # cs = pre' @ sub @ post' \<longrightarrow> length pre \<le> length pre')"
    proof -
      from that obtain pre post where "c # cs = pre @ sub @ post" "i = length pre"
        "\<forall>pre' post'. c # cs = pre' @ sub @ post' \<longrightarrow> length pre \<le> length pre'" by blast
      then show ?thesis using p by (metis append_Nil le_zero_eq list.size(3))
    qed
    moreover have "\<exists>pre post. c # cs = pre @ sub @ post \<and> 0 = length pre
       \<and> (\<forall>pre' post'. c # cs = pre' @ sub @ post' \<longrightarrow> length pre \<le> length pre')"
      using p by (intro exI [of _ "[]"] exI [of _ post]) simp
    ultimately show ?thesis using True by auto
  next
    case False
    have split: "c # cs = pre @ sub @ post \<longleftrightarrow> (\<exists>pre0. pre = c # pre0 \<and> cs = pre0 @ sub @ post)" for pre post
      using False by (cases pre) (auto simp: prefix_def)
    show ?thesis (is "?l \<longleftrightarrow> ?r")
    proof
      assume ?l
      then obtain j where j: "find_here sub cs = Some j" "i = Suc j" using False by auto
      from 2(1) [OF False] j(1) obtain pre post where a: "cs = pre @ sub @ post" "j = length pre"
          "\<forall>pre' post'. cs = pre' @ sub @ post' \<longrightarrow> length pre \<le> length pre'" by blast
      have "\<forall>pre' post'. c # cs = pre' @ sub @ post' \<longrightarrow> length (c # pre) \<le> length pre'"
        using a(3) unfolding split by fastforce
      moreover have "c # cs = (c # pre) @ sub @ post" "i = length (c # pre)" using a j by auto
      ultimately show ?r by blast
    next
      assume ?r
      then obtain pre post where a: "c # cs = pre @ sub @ post" "i = length pre"
          "\<forall>pre' post'. c # cs = pre' @ sub @ post' \<longrightarrow> length pre \<le> length pre'" by blast
      then obtain pre0 where p0: "pre = c # pre0" "cs = pre0 @ sub @ post" unfolding split by blast
      have "length pre0 \<le> length pre'" if "cs = pre' @ sub @ post'" for pre' post'
        using a(3) [rule_format, of "c # pre'" post'] that p0 by simp
      then have "find_here sub cs = Some (length pre0)" using 2(1) [OF False] p0 by blast
      then show ?l using False a(2) p0 by simp
    qed
  qed
qed


lemma find_here_None: "find_here sub s = None \<longleftrightarrow> (\<nexists>pre post. s = pre @ sub @ post)"
proof (induction sub s rule: find_here.induct)
  case (2 sub c cs)
  show ?case
  proof (cases "prefix sub (c # cs)")
    case True
    then obtain post where "c # cs = [] @ sub @ post" by (auto simp: prefix_def)
    then show ?thesis using True by (metis find_here.simps(2) option.distinct(1))
  next
    case False
    have split: "c # cs = pre @ sub @ post \<longleftrightarrow> (\<exists>pre0. pre = c # pre0 \<and> cs = pre0 @ sub @ post)" for pre post
      using False by (cases pre) (auto simp: prefix_def)
    show ?thesis unfolding split using 2 [OF False] False by auto
  qed
qed auto

lemma hd_lstrip: "py_lstrip s = [] \<or> \<not> is_space (hd (py_lstrip s))"
  unfolding py_lstrip_def using hd_dropWhile by blast

text \<open>Where front matter ends: the first closing fence after the opening one.\<close>

definition front_matter :: "string \<Rightarrow> string \<Rightarrow> string \<Rightarrow> bool" where
  "front_matter s head body \<longleftrightarrow>
     s = fm_open @ head @ fm_close @ body
     \<and> (\<forall>h b. s = fm_open @ h @ fm_close @ b \<longrightarrow> length head \<le> length h)"

lemma front_matter_find:
  assumes "front_matter s head body"
  shows "py_find s fm_close 4 = Some (4 + length head)"
proof -
  have s: "s = fm_open @ head @ fm_close @ body" using assms by (simp add: front_matter_def)
  have o: "length fm_open = 4" by (simp add: fm_open_def)
  have d: "drop 4 s = head @ fm_close @ body" using s o by simp
  have "find_here fm_close (drop 4 s) = Some (length head)"
    unfolding find_here_Some
  proof (intro exI conjI allI impI)
    show "drop 4 s = head @ fm_close @ body" by (rule d)
    fix pre' post' assume "drop 4 s = pre' @ fm_close @ post'"
    then have "s = fm_open @ pre' @ fm_close @ post'" using s o by simp
    then show "length head \<le> length pre'" using assms unfolding front_matter_def by blast
  qed simp
  moreover have "4 \<le> length s" using s o by simp
  ultimately show ?thesis by (simp add: py_find_def)
qed

text \<open>What the front-matter defence guarantees. A text that does not open with a fence line is
  handed on unchanged, and so is one whose fence is never closed. Front matter with its first
  closing fence is removed together with the white space after it, so what remains is empty or
  starts with a visible character, and it starts with a dash only if the body itself does.\<close>

theorem front_matter_stripped:
  "(\<not> prefix fm_open s \<longrightarrow> strip_yaml_frontmatter s = s)
   \<and> (prefix fm_open s \<and> (\<nexists>h b. s = fm_open @ h @ fm_close @ b) \<longrightarrow> strip_yaml_frontmatter s = s)
   \<and> (\<forall>head body. front_matter s head body \<longrightarrow>
        strip_yaml_frontmatter s = dropWhile is_space body
        \<and> (strip_yaml_frontmatter s = [] \<or> \<not> is_space (hd (strip_yaml_frontmatter s))))
   \<and> (prefix fm_open s \<and> (\<exists>h b. s = fm_open @ h @ fm_close @ b) \<longrightarrow> (\<exists>head body. front_matter s head body))"
proof (intro conjI impI allI)
  assume "\<not> prefix fm_open s"
  then show "strip_yaml_frontmatter s = s" by (simp add: strip_yaml_frontmatter_def)
next
  assume a: "prefix fm_open s \<and> (\<nexists>h b. s = fm_open @ h @ fm_close @ b)"
  then obtain t where t: "s = fm_open @ t" by (auto simp: prefix_def)
  then have "drop 4 s = t" by (simp add: fm_open_def)
  then have "find_here fm_close (drop 4 s) = None" using a t unfolding find_here_None by auto
  then show "strip_yaml_frontmatter s = s" by (simp add: strip_yaml_frontmatter_def py_find_def)
next
  fix head body assume f: "front_matter s head body"
  have s: "s = (fm_open @ head @ fm_close) @ body" using f by (simp add: front_matter_def)
  then have "drop (length (fm_open @ head @ fm_close)) s = body" by (metis append_eq_conv_conj)
  moreover have "length (fm_open @ head @ fm_close) = 4 + length head + length fm_close" by (simp add: fm_open_def)
  ultimately have d: "drop (4 + length head + length fm_close) s = body" by (simp only:)
  have p: "prefix fm_open s" using s by (auto simp: prefix_def)
  show e: "strip_yaml_frontmatter s = dropWhile is_space body"
    using p d by (simp add: strip_yaml_frontmatter_def front_matter_find [OF f] py_lstrip_def)
  show "strip_yaml_frontmatter s = [] \<or> \<not> is_space (hd (strip_yaml_frontmatter s))"
    using hd_lstrip [of body] by (simp add: e py_lstrip_def)
next
  assume "prefix fm_open s \<and> (\<exists>h b. s = fm_open @ h @ fm_close @ b)"
  then obtain h b where hb: "s = fm_open @ h @ fm_close @ b" by blast
  let ?P = "\<lambda>n. \<exists>h b. s = fm_open @ h @ fm_close @ b \<and> length h = n"
  have "?P (LEAST n. ?P n)" using hb by (intro LeastI [of ?P "length h"]) blast
  then obtain h' b' where l: "s = fm_open @ h' @ fm_close @ b'" "length h' = (LEAST n. ?P n)" by blast
  have "length h' \<le> length h2" if "s = fm_open @ h2 @ fm_close @ b2" for h2 b2
    unfolding l(2) using that by (intro Least_le) blast
  then show "\<exists>head body. front_matter s head body" using l(1) unfolding front_matter_def by blast
qed

lemma front_matter_stripped_witness:
  "strip_yaml_frontmatter (fm_open @ ''title: x'' @ fm_close @ [nl] @ ''Do it'') = ''Do it''"
proof -
  have n: "\<not> prefix fm_open (''Do it'')" by code_simp
  have e: "strip_yaml_frontmatter (fm_open @ ''title: x'' @ fm_close @ [nl] @ ''Do it'') = ''Do it''" by code_simp
  from front_matter_stripped [of "''Do it''"] n e show ?thesis by simp
qed

text \<open>An empty front matter is not recognised: the closing fence is searched after the newline that
  ends the opening one. Stripping is done once: a body that opens with a fence keeps it.\<close>

lemma empty_front_matter_kept:
  "strip_yaml_frontmatter (fm_open @ fm_open @ ''Do it'') = fm_open @ fm_open @ ''Do it''"
  by code_simp

subsection \<open>The assembled prompt\<close>

fun missing_from :: "(string \<Rightarrow> file_read) \<Rightarrow> nat \<Rightarrow> string list \<Rightarrow> nat list" where
  "missing_from read i [] = []"
| "missing_from read i (f # fs) = (if read f = ReadMissing then [i] else []) @ missing_from read (Suc i) fs"

definition texts_of :: "(string \<Rightarrow> file_read) \<Rightarrow> string list \<Rightarrow> string list" where
  "texts_of read fs = List.map_filter (\<lambda>f. case read f of ReadText b \<Rightarrow> Some b | _ \<Rightarrow> None) fs"

definition readable :: "file_read \<Rightarrow> bool" where
  "readable r \<longleftrightarrow> (case r of ReadError _ \<Rightarrow> False | _ \<Rightarrow> True)"

lemma texts_of_Cons: "texts_of read (f # fs) =
   (case read f of ReadText b \<Rightarrow> b # texts_of read fs | _ \<Rightarrow> texts_of read fs)"
  by (simp add: texts_of_def List.map_filter_def split: file_read.split)

lemma read_bodies_rest:
  "read_bodies read strip (Suc i) fs = Inr (bs, ws) \<longleftrightarrow>
     (\<forall>f \<in> set fs. readable (read f)) \<and> bs = texts_of read fs \<and> ws = missing_from read (Suc i) fs"
proof (induction fs arbitrary: i bs ws)
  case Nil
  then show ?case by (auto simp: texts_of_def List.map_filter_def)
next
  case (Cons f fs)
  show ?case
    by (cases "read f") (auto simp: Cons.IH res_bind_Inr_iff readable_def texts_of_Cons)
qed

definition configured_files :: "full_config \<Rightarrow> string option \<Rightarrow> string list" where
  "configured_files cfg phase =
     (case pr_prompt_files (profile_for (base_config cfg) phase) of
        Some fs \<Rightarrow> fs
      | None \<Rightarrow> (case pp_file (cf_prompt cfg) of Some f \<Rightarrow> [f] | None \<Rightarrow> pp_files (cf_prompt cfg)))"

lemma prompt_files_of_wf:
  "wf_prompt (cf_prompt cfg) \<Longrightarrow> prompt_files_of cfg phase = Inr (configured_files cfg phase)"
  by (auto simp: prompt_files_of_def configured_files_def wf_prompt_def Let_def split: option.splits)

lemma configured_files_Nil:
  "wf_prompt (cf_prompt cfg) \<Longrightarrow>
     configured_files cfg phase = [] \<longleftrightarrow> pr_prompt_files (profile_for (base_config cfg) phase) = Some []"
  by (auto simp: configured_files_def wf_prompt_def split: option.splits)

text \<open>The text of a prompt whose first file reads as \<open>body\<close>.\<close>

definition prompt_text ::
  "(string \<Rightarrow> file_read) \<Rightarrow> ('c \<Rightarrow> string) \<Rightarrow> prompt_config \<Rightarrow> 'c option \<Rightarrow> string \<Rightarrow> string list \<Rightarrow> string" where
  "prompt_text read dumps p ctx body rest =
     (case ctx of Some c \<Rightarrow> if pp_inject_context p \<and> pp_mode p = Prepend then format_context_block dumps c else []
      | None \<Rightarrow> [])
     @ join_with (pp_separator p)
         ((if pp_strip_frontmatter p then strip_yaml_frontmatter body else body) # texts_of read rest)"

lemma load_prompt_Inr:
  "load_prompt read dumps (f # fs) ctx (pp_inject_context p) (pp_mode p) (pp_separator p) (pp_strip_frontmatter p)
     = Inr (s, ws) \<longleftrightarrow>
     (\<exists>body. read f = ReadText body \<and> (\<forall>g \<in> set fs. readable (read g))
        \<and> s = prompt_text read dumps p ctx body fs \<and> ws = missing_from read 1 fs)"
proof (cases "read f")
  case (ReadText body)
  have r: "read_bodies read strip (Suc 0) fs = Inr (bs, ws) \<longleftrightarrow>
     (\<forall>g \<in> set fs. readable (read g)) \<and> bs = texts_of read fs \<and> ws = missing_from read (Suc 0) fs" for strip bs ws
    by (rule read_bodies_rest)
  show ?thesis using ReadText
    by (cases ctx) (auto simp: load_prompt_def Let_def res_bind_Inr_iff r prompt_text_def)
qed (auto simp: load_prompt_def Let_def)

text \<open>When a round of an accepted configuration has a prompt, and which. The files of the phase
  (its own list, else the single file or the list of the prompt table) are assembled exactly when
  the first is there and no file fails to read; a later file may be missing, which is only logged
  (so a goal ledger that does not exist yet costs nothing). The text is the round context, when it
  is injected, then the first file without its front matter, then the readable others, joined by
  the separator. A phase whose own list is empty, which the loader accepts, never has a prompt:
  its assembly raises whatever the files hold.\<close>

theorem prompt_assembly_exact:
  assumes accepted: "load_config hf resolve entries rg toml_path toml_dir raw = Inr (cfg, rg', warned)"
  shows "(pr_prompt_files (profile_for (base_config cfg) phase) = Some [] \<longrightarrow>
       (\<exists>m. assemble_prompt read dumps cfg phase ctx = Inl (ValueError m)))
    \<and> (pr_prompt_files (profile_for (base_config cfg) phase) \<noteq> Some [] \<longrightarrow>
       (\<exists>f fs. map (under_work_dir cfg) (configured_files cfg phase) = f # fs
         \<and> (\<forall>s ws. assemble_prompt read dumps cfg phase ctx = Inr (s, ws) \<longleftrightarrow>
              (\<exists>body. read f = ReadText body \<and> (\<forall>g \<in> set fs. readable (read g))
                 \<and> s = prompt_text read dumps (cf_prompt cfg) ctx body fs \<and> ws = missing_from read 1 fs))))"
proof -
  have wf: "wf_prompt (cf_prompt cfg)"
    using load_config_Inr [OF accepted] parse_config_wf unfolding wf_config_def by blast
  let ?p = "cf_prompt cfg" let ?files = "map (under_work_dir cfg) (configured_files cfg phase)"
  have a: "assemble_prompt read dumps cfg phase ctx
      = load_prompt read dumps ?files ctx (pp_inject_context ?p) (pp_mode ?p) (pp_separator ?p) (pp_strip_frontmatter ?p)"
    by (simp add: assemble_prompt_def Let_def prompt_files_of_wf [OF wf])
  show ?thesis
  proof (intro conjI impI)
    assume "pr_prompt_files (profile_for (base_config cfg) phase) = Some []"
    then have "?files = []" using configured_files_Nil [OF wf] by simp
    then show "\<exists>m. assemble_prompt read dumps cfg phase ctx = Inl (ValueError m)"
      unfolding a by (simp add: load_prompt_def)
  next
    assume "pr_prompt_files (profile_for (base_config cfg) phase) \<noteq> Some []"
    then have "?files \<noteq> []" using configured_files_Nil [OF wf] by simp
    then obtain f fs where f: "?files = f # fs" by (cases ?files) auto
    show "\<exists>f fs. ?files = f # fs \<and> (\<forall>s ws. assemble_prompt read dumps cfg phase ctx = Inr (s, ws) \<longleftrightarrow>
              (\<exists>body. read f = ReadText body \<and> (\<forall>g \<in> set fs. readable (read g))
                 \<and> s = prompt_text read dumps ?p ctx body fs \<and> ws = missing_from read 1 fs))"
      using f unfolding a f by (intro exI [of _ f] exI [of _ fs]) (simp add: load_prompt_Inr)
  qed
qed

text \<open>A document whose phase \<open>dev\<close> sends no prompt of its own.\<close>

definition carve_out_doc :: table where
  "carve_out_doc =
     [(''schema_version'', TInt 1),
      (''agent'', TTab [(''command'', TArr [TStr ''claude'']), (''prompt_arg_template'', TArr [TStr ''{prompt}''])]),
      (''runtime'', TTab [(''work_dir'', TStr ''/p''), (''log_dir'', TStr ''logs'')]),
      (''phases'', TTab [(''list'', TArr [TStr ''plan'', TStr ''dev'']),
                         (''dev'', TTab [(''prompt'', TTab [(''files'', TArr [])])])]),
      (''prompt'', TTab [(''files'', TArr [TStr ''a.md'', TStr ''b.md''])])]"

definition carve_out_load :: "(full_config \<times> registries \<times> bool) res" where
  "carve_out_load =
     load_config example_fns (\<lambda>n t. Inl TypeError) [] \<lparr>rg_hooks = [], rg_manifests = []\<rparr> ''/p/a.toml'' ''/p'' carve_out_doc"

lemma carve_out_ok:
  "case carve_out_load of
     Inl e \<Rightarrow> False
   | Inr (cfg, r) \<Rightarrow> pr_prompt_files (profile_for (base_config cfg) (Some ''dev'')) = Some []
       \<and> pr_prompt_files (profile_for (base_config cfg) (Some ''plan'')) = None
       \<and> map (under_work_dir cfg) (configured_files cfg (Some ''plan'')) = [''/p/a.md'', ''/p/b.md'']
       \<and> pc_list (cf_phases cfg) = Some [''plan'', ''dev'']"
  by code_simp

lemma prompt_assembly_exact_witness:
  "\<exists>cfg r. carve_out_load = Inr (cfg, r)
     \<and> (\<exists>m. assemble_prompt (\<lambda>f. ReadText f) (\<lambda>c. c) cfg (Some ''dev'') None = Inl (ValueError m))
     \<and> (\<exists>s. assemble_prompt (\<lambda>f. if f = ''/p/a.md'' then ReadText ''Do it'' else ReadMissing) (\<lambda>c. c) cfg (Some ''plan'') None
             = Inr (s, [1]))"
proof -
  obtain cfg rg' warned where l: "carve_out_load = Inr (cfg, rg', warned)"
    and c: "pr_prompt_files (profile_for (base_config cfg) (Some ''dev'')) = Some []"
      "pr_prompt_files (profile_for (base_config cfg) (Some ''plan'')) = None"
      "map (under_work_dir cfg) (configured_files cfg (Some ''plan'')) = [''/p/a.md'', ''/p/b.md'']"
    using carve_out_ok by (auto split: sum.splits prod.splits)
  note e = prompt_assembly_exact [OF l [unfolded carve_out_load_def]]
  have "\<exists>m. assemble_prompt (\<lambda>f. ReadText f) (\<lambda>c. c) cfg (Some ''dev'') None = Inl (ValueError m)"
    using e [of "Some ''dev''"] c(1) by blast
  moreover have "\<exists>s. assemble_prompt (\<lambda>f. if f = ''/p/a.md'' then ReadText ''Do it'' else ReadMissing) (\<lambda>c. c) cfg (Some ''plan'') None
             = Inr (s, [1])"
    using e [of "Some ''plan''" "\<lambda>f. if f = ''/p/a.md'' then ReadText ''Do it'' else ReadMissing" "\<lambda>c. c" None] c(2,3)
    by (auto simp: readable_def)
  ultimately show ?thesis using l by blast
qed

end
