(* ===== verification/Vcs_State.thy ===== *)
theory Vcs_State
  imports Serve_Policy Prompt Context_Store Exn_State
begin

section \<open>Git and the dirty tree (agent\_runner/vcs\_state.py)\<close>

text \<open>
  The repository is a value of an arbitrary type; \<open>gh_git\<close> runs one git command line on it under a
  time limit. A call ends with an exit code and its output, is killed at the limit, or raises
  because no process could be started. Removing the lock and writing an event succeed. An operation passes the repository along together with the
  list of what was done: the git calls with their answers, the removal of the index lock, the
  events and the orphan record. The text of a decode failure is not modelled.
\<close>

subsection \<open>Git calls\<close>

datatype git_answer = GitDone int string string | GitTimedOut | GitUnavailable py_error

record 'w git_host =
  gh_git :: "'w \<Rightarrow> string list \<Rightarrow> int \<Rightarrow> 'w \<times> git_answer"
  gh_lock :: "'w \<Rightarrow> bool"
  gh_unlock :: "'w \<Rightarrow> 'w"
  gh_lock_path :: string

datatype vcs_error = GitTimeout string | StashError string | AutoCommitError string | VcsRaised py_error

datatype vcs_act =
    CalledGit "string list" git_answer
  | ClearedLock
  | VcsEmit string "string list" "(string \<times> pyval) list"
  | WroteOrphan "string list" orphan_state

type_synonym 'w vcs = "'w \<times> vcs_act list"

type_synonym ('w, 'a) vm = "('w vcs, vcs_error, 'a) em"

definition vact :: "vcs_act \<Rightarrow> ('w, unit) vm" where
  "vact a = (\<lambda>(w, acts). ((w, acts @ [a]), Inr ()))"

definition timeout_text :: "string list \<Rightarrow> int \<Rightarrow> string" where
  "timeout_text args timeout = ''git '' @ take 100 (join_with '' '' args) @ '' exceeded '' @ int_digits timeout @ ''s''"

definition git :: "'w git_host \<Rightarrow> string list \<Rightarrow> int \<Rightarrow> ('w, int \<times> string \<times> string) vm" where
  "git gh args timeout = (\<lambda>(w, acts).
     case gh_git gh w args timeout of
       (w', a) \<Rightarrow>
         ((w', acts @ [CalledGit args a]),
          case a of
            GitDone rc out err \<Rightarrow> Inr (rc, out, err)
          | GitTimedOut \<Rightarrow> Inl (GitTimeout (timeout_text args timeout))
          | GitUnavailable e \<Rightarrow> Inl (VcsRaised e)))"

definition git_timeout_s :: int where "git_timeout_s = 10"

definition is_git_repo :: "'w git_host \<Rightarrow> bool \<Rightarrow> ('w, bool) vm" where
  "is_git_repo gh is_dir =
     (if \<not> is_dir then eret False
      else ebind (git gh [''rev-parse'', ''--is-inside-work-tree''] git_timeout_s) (\<lambda>(rc, out, err).
             eret (rc = 0 \<and> py_strip out = ''true'')))"

subsection \<open>The dirty files\<close>

definition nul :: char where "nul = CHR 0x00"

fun porcelain_records :: "string list \<Rightarrow> string list" where
  "porcelain_records [] = []"
| "porcelain_records (rec # rest) =
     (if length rec < 3 then porcelain_records rest
      else if rec ! 0 = CHR ''R'' \<or> rec ! 1 = CHR ''R''
      then drop 3 rec # (case rest of [] \<Rightarrow> [] | old # rest' \<Rightarrow> porcelain_records rest')
      else drop 3 rec # porcelain_records rest)"

definition porcelain_paths :: "'w git_host \<Rightarrow> ('w, string list) vm" where
  "porcelain_paths gh =
     ebind (git gh [''status'', ''--porcelain'', ''-z''] git_timeout_s) (\<lambda>(rc, out, err).
       eret (if rc \<noteq> 0 then [] else porcelain_records (py_split nul out)))"

definition detect_dirty_files :: "'w git_host \<Rightarrow> ('w, string list) vm" where
  "detect_dirty_files = porcelain_paths"

subsection \<open>Stashing\<close>

record stash_ref =
  sr_sha :: string
  sr_message :: string
  sr_reused :: bool

text \<open>\<open>line.split(" ", 2)\<close> with three parts, then the subject after its \<open>On <branch>: \<close> prefix.\<close>

definition stash_subject :: "string \<Rightarrow> string" where
  "stash_subject raw = (case py_find raw '': '' 0 of Some i \<Rightarrow> drop (i + 2) raw | None \<Rightarrow> raw)"

definition parse_stash_line :: "string \<Rightarrow> (string \<times> int \<times> string) option" where
  "parse_stash_line line =
     (case py_partition (CHR '' '') line of (sha, rest) \<Rightarrow>
        (case py_partition (CHR '' '') rest of (ct_s, subj) \<Rightarrow>
           if CHR '' '' \<notin> set line \<or> CHR '' '' \<notin> set rest then None
           else map_option (\<lambda>ct. (sha, ct, stash_subject subj)) (py_int_of_str (py_strip ct_s))))"

definition is_line_break :: "char \<Rightarrow> bool" where
  "is_line_break c \<longleftrightarrow> (let k = char_code c in (10 \<le> k \<and> k \<le> 13) \<or> (28 \<le> k \<and> k \<le> 30) \<or> k = 133)"

definition first_line :: "string \<Rightarrow> string" where
  "first_line s = takeWhile (\<lambda>c. \<not> is_line_break c) s"

definition orphan_label :: "int \<Rightarrow> string" where
  "orphan_label round_num = ''ORPHAN R'' @ int_digits round_num"

definition recent_orphan_for_round :: "'w git_host \<Rightarrow> real \<Rightarrow> int \<Rightarrow> int \<Rightarrow> ('w, stash_ref option) vm" where
  "recent_orphan_for_round gh now round_num window_s =
     ebind (git gh [''stash'', ''list'', ''-1'', ''--format=%H %ct %s''] git_timeout_s) (\<lambda>(rc, out, err).
       eret (if rc \<noteq> 0 \<or> py_strip out = [] then None
             else case parse_stash_line (first_line (py_strip out)) of
                    None \<Rightarrow> None
                  | Some (sha, ct, msg) \<Rightarrow>
                      if \<not> prefix (orphan_label round_num) msg then None
                      else if now - real_of_int ct > real_of_int window_s then None
                      else Some \<lparr>sr_sha = sha, sr_message = msg, sr_reused = False\<rparr>))"

text \<open>Where the log directory is: not given, outside the work tree, or at a path inside it.\<close>

datatype log_place = NoLogDir | LogOutside | LogInside string

definition log_dir_exclude_pathspec :: "'w git_host \<Rightarrow> log_place \<Rightarrow> ('w, string list) vm" where
  "log_dir_exclude_pathspec gh place =
     (case place of
        LogInside rel \<Rightarrow>
          ebind (git gh [''check-ignore'', ''-q'', ''--'', rel] git_timeout_s) (\<lambda>(rc, out, err).
            eret (if rc = 0 then [] else [''--'', '':(exclude)'' @ rel]))
      | _ \<Rightarrow> eret [])"

definition clear_self_caused_index_lock :: "'w git_host \<Rightarrow> int \<Rightarrow> log_place \<Rightarrow> ('w, unit) vm" where
  "clear_self_caused_index_lock gh round_num place = (\<lambda>(w, acts).
     if \<not> gh_lock gh w then ((w, acts), Inr ())
     else ((gh_unlock gh w, acts @ [ClearedLock] @
              (if place = NoLogDir then []
               else [VcsEmit ''stale_index_lock_cleared'' []
                       [(''lock_path'', PStr (gh_lock_path gh)), (''round_num'', PInt round_num)]])), Inr ()))"

text \<open>What the handlers of a killed writing call do: clear the lock and raise the module's own error.\<close>

definition on_git_timeout ::
  "'w git_host \<Rightarrow> int \<Rightarrow> log_place \<Rightarrow> (string \<Rightarrow> vcs_error) \<Rightarrow> vcs_error \<Rightarrow> ('w, 'a) vm" where
  "on_git_timeout gh round_num place err e =
     (case e of
        GitTimeout m \<Rightarrow> ebind (clear_self_caused_index_lock gh round_num place) (\<lambda>_. eraise (err (take 200 m)))
      | _ \<Rightarrow> eraise e)"

definition phase_part :: "string \<Rightarrow> string option \<Rightarrow> string" where
  "phase_part lead phase = (case phase of Some p \<Rightarrow> if p = [] then [] else lead @ p | None \<Rightarrow> [])"

definition stash_message :: "int \<Rightarrow> string option \<Rightarrow> string \<Rightarrow> string" where
  "stash_message round_num phase ts = orphan_label round_num @ phase_part '' phase='' phase @ '' ts='' @ ts"

definition failure_text :: "string \<Rightarrow> string \<Rightarrow> string" where
  "failure_text err deflt = take 200 (if err = [] then deflt else err)"

definition push_stash ::
  "'w git_host \<Rightarrow> string \<Rightarrow> int \<Rightarrow> string option \<Rightarrow> log_place \<Rightarrow> ('w, stash_ref option) vm" where
  "push_stash gh ts round_num phase place =
     (let msg = stash_message round_num phase ts in
      ebind (log_dir_exclude_pathspec gh place) (\<lambda>exclude.
      ebind (etry (git gh ([''stash'', ''push'', ''-u'', ''-m'', msg] @ exclude) 30)
                  (on_git_timeout gh round_num place StashError)) (\<lambda>(rc, out, err).
        if rc \<noteq> 0 then eraise (StashError (failure_text err ''git stash push failed''))
        else ebind (git gh [''stash'', ''list'', ''-1'', ''--format=%H %s''] git_timeout_s) (\<lambda>(rc, out, err).
          eret (if rc \<noteq> 0 \<or> py_strip out = [] then None
                else case py_partition (CHR '' '') (py_strip out) of (sha, subj) \<Rightarrow>
                       if py_find subj msg 0 = None then None
                       else Some \<lparr>sr_sha = sha, sr_message = msg, sr_reused = False\<rparr>)))))"

definition stash_orphan ::
  "'w git_host \<Rightarrow> real \<Rightarrow> string \<Rightarrow> int \<Rightarrow> string option \<Rightarrow> int \<Rightarrow> log_place \<Rightarrow> ('w, stash_ref option) vm" where
  "stash_orphan gh now ts round_num phase idempotency_s place =
     ebind (detect_dirty_files gh) (\<lambda>dirty.
       if dirty = [] then eret None
       else ebind (recent_orphan_for_round gh now round_num idempotency_s) (\<lambda>existing.
         case existing of
           Some r \<Rightarrow> eret (Some (r\<lparr>sr_reused := True\<rparr>))
         | None \<Rightarrow> push_stash gh ts round_num phase place))"

subsection \<open>Committing\<close>

definition try_auto_commit :: "'w git_host \<Rightarrow> int \<Rightarrow> string option \<Rightarrow> log_place \<Rightarrow> ('w, string) vm" where
  "try_auto_commit gh round_num phase place =
     (let subject = ''agent-runner auto-commit: R'' @ int_digits round_num @ phase_part '' '' phase;
          killed = on_git_timeout gh round_num place AutoCommitError in
      ebind (log_dir_exclude_pathspec gh place) (\<lambda>exclude.
      ebind (etry (git gh ([''add'', ''-A''] @ exclude) git_timeout_s) killed) (\<lambda>(rc, out, err).
        if rc \<noteq> 0 then eraise (AutoCommitError (failure_text err ''git add failed''))
        else ebind (if exclude = [] then eret False
                    else ebind (git gh [''diff'', ''--cached'', ''--quiet''] git_timeout_s) (\<lambda>(rc, out, err). eret (rc = 0)))
          (\<lambda>nothing. if nothing then eret []
            else ebind (etry (git gh [''-c'', ''commit.gpgsign=false'', ''commit'', ''-m'', subject] git_commit_timeout_s) killed)
              (\<lambda>(rc, out, err).
                 if rc \<noteq> 0 then eraise (AutoCommitError (failure_text err ''git commit failed''))
                 else ebind (git gh [''rev-parse'', ''HEAD''] git_timeout_s) (\<lambda>(rc, out, err). eret (py_strip out)))))))"

subsection \<open>Resolving a dirty tree\<close>

datatype dirty_outcome = DirtyIgnored | DirtyCommitted string | DirtyStashed string

definition opt_str :: "string option \<Rightarrow> pyval" where
  "opt_str p = (case p of None \<Rightarrow> PNone | Some s \<Rightarrow> PStr s)"

definition record_stash ::
  "string \<Rightarrow> int \<Rightarrow> string option \<Rightarrow> string list \<Rightarrow> stash_ref \<Rightarrow> ('w, dirty_outcome) vm" where
  "record_stash stamp round_num phase dirty r =
     ebind (vact (WroteOrphan dirty
        \<lparr>or_round_num = PInt round_num, or_files = PCompound [], or_stashed_ref = PStr (sr_sha r),
         or_stash_message = PStr (sr_message r), or_timestamp = PStr stamp, or_phase = opt_str phase\<rparr>)) (\<lambda>_.
     ebind (vact (VcsEmit (if sr_reused r then ''orphan_idempotent_skip'' else ''orphan_stashed'') []
        [(''round_num'', PInt round_num), (''ref'', PStr (sr_sha r)), (''reason'', PStr ''clean_exit_with_dirty_tree'')])) (\<lambda>_.
     eret (DirtyStashed (sr_sha r))))"

definition resolve_stash ::
  "'w git_host \<Rightarrow> real \<Rightarrow> string \<Rightarrow> string \<Rightarrow> int \<Rightarrow> string option \<Rightarrow> int \<Rightarrow> log_place \<Rightarrow> string list \<Rightarrow> ('w, dirty_outcome) vm" where
  "resolve_stash gh now ts stamp round_num phase idempotency_s place dirty =
     etry (ebind (stash_orphan gh now ts round_num phase idempotency_s place) (\<lambda>r.
             case r of None \<Rightarrow> eret DirtyIgnored | Some r \<Rightarrow> record_stash stamp round_num phase dirty r))
       (\<lambda>e. case e of
          StashError m \<Rightarrow>
            ebind (vact (VcsEmit ''orphan_stash_failed'' []
              [(''round_num'', PInt round_num), (''phase'', opt_str phase), (''reason'', PStr m)])) (\<lambda>_. eret DirtyIgnored)
        | _ \<Rightarrow> eraise e)"

definition resolve_dirty_tree ::
  "'w git_host \<Rightarrow> real \<Rightarrow> string \<Rightarrow> string \<Rightarrow> dirty_action \<Rightarrow> int \<Rightarrow> string option \<Rightarrow> int \<Rightarrow> log_place \<Rightarrow> string list
     \<Rightarrow> ('w, dirty_outcome) vm" where
  "resolve_dirty_tree gh now ts stamp action round_num phase idempotency_s place dirty =
     (case action of
        IgnoreDirty \<Rightarrow> eret DirtyIgnored
      | AutoCommit \<Rightarrow>
          etry (ebind (try_auto_commit gh round_num phase place) (\<lambda>sha.
                  if sha = [] then eret DirtyIgnored
                  else ebind (vact (VcsEmit ''dirty_auto_committed'' (take 20 dirty)
                         [(''round_num'', PInt round_num), (''ref'', PStr sha)])) (\<lambda>_. eret (DirtyCommitted sha))))
            (\<lambda>e. case e of
               AutoCommitError m \<Rightarrow>
                 ebind (vact (VcsEmit ''dirty_commit_failed'' []
                   [(''round_num'', PInt round_num), (''phase'', opt_str phase), (''reason'', PStr m)])) (\<lambda>_. eret DirtyIgnored)
             | _ \<Rightarrow> eraise e)
      | StashDirty \<Rightarrow> resolve_stash gh now ts stamp round_num phase idempotency_s place dirty)"

subsection \<open>Reading \<open>git status --porcelain -z\<close>\<close>

record status_entry =
  se_x :: char
  se_y :: char
  se_path :: string
  se_orig :: "string option"

text \<open>The documented form of an entry: two status letters, a space, the path, and for a rename the
  original path in a field of its own.\<close>

definition render_entry :: "status_entry \<Rightarrow> string" where
  "render_entry e = [se_x e, se_y e, CHR '' ''] @ se_path e @ [nul]
     @ (case se_orig e of None \<Rightarrow> [] | Some p \<Rightarrow> p @ [nul])"

definition wf_entry :: "status_entry \<Rightarrow> bool" where
  "wf_entry e \<longleftrightarrow>
     nul \<notin> set (se_x e # se_y e # se_path e) \<and> (\<forall>p. se_orig e = Some p \<longrightarrow> nul \<notin> set p)
     \<and> (se_orig e \<noteq> None \<longleftrightarrow> se_x e = CHR ''R'' \<or> se_y e = CHR ''R'')"

lemma py_split_at: "sep \<notin> set a \<Longrightarrow> py_split sep (a @ sep # b) = a # py_split sep b"
  by (induction a) auto

lemma porcelain_records_entry:
  assumes "wf_entry e"
  shows "porcelain_records (py_split nul (render_entry e @ out)) = se_path e # porcelain_records (py_split nul out)"
proof -
  have n: "nul \<notin> set ([se_x e, se_y e, CHR '' ''] @ se_path e)" using assms by (simp add: wf_entry_def nul_def)
  show ?thesis
  proof (cases "se_orig e")
    case None
    have "py_split nul (render_entry e @ out) = ([se_x e, se_y e, CHR '' ''] @ se_path e) # py_split nul out"
      using py_split_at [OF n, of out] None by (simp add: render_entry_def)
    then show ?thesis using assms None by (simp add: wf_entry_def)
  next
    case (Some p)
    have p: "nul \<notin> set p" using assms Some by (simp add: wf_entry_def)
    have "py_split nul (render_entry e @ out) = ([se_x e, se_y e, CHR '' ''] @ se_path e) # p # py_split nul out"
      using py_split_at [OF n, of "p @ nul # out"] py_split_at [OF p, of out] Some by (simp add: render_entry_def)
    then show ?thesis using assms Some by (auto simp: wf_entry_def)
  qed
qed

text \<open>The parser of \<open>git status --porcelain -z\<close> inverts its documented output: for every list of
  entries it returns their paths in order, the new path of a rename, and nothing else.\<close>

theorem porcelain_roundtrip:
  assumes "\<forall>e \<in> set es. wf_entry e"
  shows "porcelain_records (py_split nul (concat (map render_entry es))) = map se_path es"
  using assms by (induction es) (simp_all add: porcelain_records_entry)

lemma porcelain_roundtrip_witness:
  "porcelain_records (py_split nul (''R  new.py'' @ [nul] @ ''old.py'' @ [nul] @ ''?? a b.txt'' @ [nul])) = [''new.py'', ''a b.txt'']"
proof -
  let ?es = "[\<lparr>se_x = CHR ''R'', se_y = CHR '' '', se_path = ''new.py'', se_orig = Some ''old.py''\<rparr>,
              \<lparr>se_x = CHR ''?'', se_y = CHR ''?'', se_path = ''a b.txt'', se_orig = None\<rparr>]"
  have "\<forall>e \<in> set ?es. wf_entry e" by (simp add: wf_entry_def nul_def)
  from porcelain_roundtrip [OF this] show ?thesis by (simp add: render_entry_def)
qed

text \<open>A copy has two fields as well, but its second one is read as an entry: here the next entry,
  a modified file, is lost.\<close>

lemma copied_entry_misread:
  "porcelain_records (py_split nul (''C  copy.md'' @ [nul] @ ''README.md'' @ [nul] @ '' M main.py'' @ [nul]))
     = [''copy.md'', ''DME.md'']"
  by code_simp

subsection \<open>Rules for the acts\<close>

lemma holds_act:
  "(\<And>w acts. P (w, acts) \<Longrightarrow> Q () (w, acts @ [a])) \<Longrightarrow> holds P (vact a) Q E"
  by (auto simp: holds_def vact_def)

subsection \<open>What resolving a dirty tree may do\<close>

definition writing_git :: "string list \<Rightarrow> bool" where
  "writing_git args \<longleftrightarrow> take 2 args = [''stash'', ''push''] \<or> take 2 args = [''add'', ''-A'']
     \<or> take 3 args = [''-c'', ''commit.gpgsign=false'', ''commit'']"

text \<open>The git command lines of the module: three that write, and queries. No remote is pushed to,
  nothing is reset, cleaned, checked out, popped or dropped.\<close>

definition allowed_git :: "string list \<Rightarrow> bool" where
  "allowed_git args \<longleftrightarrow> writing_git args
     \<or> args = [''status'', ''--porcelain'', ''-z''] \<or> args = [''stash'', ''list'', ''-1'', ''--format=%H %ct %s'']
     \<or> args = [''stash'', ''list'', ''-1'', ''--format=%H %s''] \<or> args = [''diff'', ''--cached'', ''--quiet'']
     \<or> args = [''rev-parse'', ''HEAD''] \<or> take 3 args = [''check-ignore'', ''-q'', ''--'']"

definition own_kill :: "vcs_act \<Rightarrow> bool" where
  "own_kill a \<longleftrightarrow> (\<exists>args. a = CalledGit args GitTimedOut \<and> writing_git args)"

text \<open>The index lock is removed only right after a writing call of our own was killed.\<close>

definition own_lock :: "vcs_act list \<Rightarrow> bool" where
  "own_lock acts \<longleftrightarrow> (\<forall>pre post. acts = pre @ ClearedLock # post \<longrightarrow> pre \<noteq> [] \<and> own_kill (last pre))"

lemma own_lock_Nil [simp]: "own_lock []"
  by (simp add: own_lock_def)

lemma own_lock_snoc [simp]:
  "own_lock (acts @ [a]) \<longleftrightarrow> own_lock acts \<and> (a = ClearedLock \<longrightarrow> acts \<noteq> [] \<and> own_kill (last acts))"
proof
  assume o: "own_lock (acts @ [a])"
  have "own_lock acts" unfolding own_lock_def
  proof (intro allI impI)
    fix pre post assume "acts = pre @ ClearedLock # post"
    then have "acts @ [a] = pre @ ClearedLock # (post @ [a])" by simp
    then show "pre \<noteq> [] \<and> own_kill (last pre)" using o unfolding own_lock_def by blast
  qed
  then show "own_lock acts \<and> (a = ClearedLock \<longrightarrow> acts \<noteq> [] \<and> own_kill (last acts))"
    using o unfolding own_lock_def by auto
next
  assume o: "own_lock acts \<and> (a = ClearedLock \<longrightarrow> acts \<noteq> [] \<and> own_kill (last acts))"
  show "own_lock (acts @ [a])" unfolding own_lock_def
  proof (intro allI impI)
    fix pre post assume e: "acts @ [a] = pre @ ClearedLock # post"
    show "pre \<noteq> [] \<and> own_kill (last pre)"
    proof (cases post rule: rev_cases)
      case Nil
      then show ?thesis using e o by simp
    next
      case (snoc ys y)
      then have "acts = pre @ ClearedLock # ys" using e by simp
      then show ?thesis using o unfolding own_lock_def by blast
    qed
  qed
qed

definition vcs_outcome_kinds :: "string list" where
  "vcs_outcome_kinds = [''orphan_stashed'', ''orphan_idempotent_skip'', ''orphan_stash_failed'',
     ''dirty_auto_committed'', ''dirty_commit_failed'']"

fun quiet_act :: "vcs_act \<Rightarrow> bool" where
  "quiet_act (CalledGit args a) = allowed_git args"
| "quiet_act ClearedLock = True"
| "quiet_act (VcsEmit k files fs) = (k \<notin> set vcs_outcome_kinds)"
| "quiet_act (WroteOrphan files s) = False"

definition pushed :: "vcs_act list \<Rightarrow> bool" where
  "pushed acts \<longleftrightarrow> (\<exists>args out err. CalledGit args (GitDone 0 out err) \<in> set acts \<and> take 2 args = [''stash'', ''push''])"

definition committed :: "vcs_act list \<Rightarrow> bool" where
  "committed acts \<longleftrightarrow> (\<exists>args out err. CalledGit args (GitDone 0 out err) \<in> set acts
     \<and> take 3 args = [''-c'', ''commit.gpgsign=false'', ''commit''])"

text \<open>Git listed a stash with this SHA whose subject contains this message.\<close>

definition listed :: "vcs_act list \<Rightarrow> string \<Rightarrow> string \<Rightarrow> bool" where
  "listed acts sha msg \<longleftrightarrow> (\<exists>out err. CalledGit [''stash'', ''list'', ''-1'', ''--format=%H %s''] (GitDone 0 out err) \<in> set acts
     \<and> sha = fst (py_partition (CHR '' '') (py_strip out)) \<and> py_find (snd (py_partition (CHR '' '') (py_strip out))) msg 0 \<noteq> None)"

text \<open>The state while nothing has been decided: \<open>I\<close> holds of the repository.\<close>

definition vinv :: "('w \<Rightarrow> bool) \<Rightarrow> 'w vcs \<Rightarrow> bool" where
  "vinv I s \<longleftrightarrow> I (fst s) \<and> list_all quiet_act (snd s) \<and> own_lock (snd s)"

definition keeps_inv :: "'w git_host \<Rightarrow> ('w \<Rightarrow> bool) \<Rightarrow> bool" where
  "keeps_inv gh I \<longleftrightarrow> (\<forall>w args t. allowed_git args \<longrightarrow> I w \<longrightarrow> I (fst (gh_git gh w args t)))
     \<and> (\<forall>w. I w \<longrightarrow> I (gh_unlock gh w))"

definition foreign :: "vcs_error \<Rightarrow> bool" where
  "foreign e \<longleftrightarrow> (case e of GitTimeout m \<Rightarrow> True | VcsRaised x \<Rightarrow> True | _ \<Rightarrow> False)"

lemma git_rule:
  assumes k: "keeps_inv gh I" "allowed_git args" and s: "\<And>s. P s \<Longrightarrow> vinv I s"
  shows "holds P (git gh args t)
     (\<lambda>(rc, out, err) s. vinv I s \<and> (\<exists>w pre. P (w, pre) \<and> snd s = pre @ [CalledGit args (GitDone rc out err)]))
     (\<lambda>e s. vinv I s \<and> foreign e \<and> (\<exists>w pre a. P (w, pre) \<and> snd s = pre @ [CalledGit args a]
        \<and> (\<forall>m. e = GitTimeout m \<longrightarrow> a = GitTimedOut)))"
proof (rule holds_I)
  fix s s' r assume p: "P s" and run: "git gh args t s = (s', r)"
  obtain w acts where s: "s = (w, acts)" by (cases s)
  obtain w' a where g: "gh_git gh w args t = (w', a)" by fastforce
  have v: "vinv I (w', acts @ [CalledGit args a])"
  proof -
    have "I (fst (gh_git gh w args t))" using k assms(3) [OF p] s by (simp add: vinv_def keeps_inv_def)
    then show ?thesis using k(2) assms(3) [OF p] s g by (simp add: vinv_def)
  qed
  have pw: "P (w, acts)" using p s by simp
  show "case r of Inr x \<Rightarrow> (\<lambda>(rc, out, err) s. vinv I s \<and> (\<exists>w pre. P (w, pre) \<and> snd s = pre @ [CalledGit args (GitDone rc out err)])) x s'
     | Inl e \<Rightarrow> vinv I s' \<and> foreign e \<and> (\<exists>w pre a. P (w, pre) \<and> snd s' = pre @ [CalledGit args a]
        \<and> (\<forall>m. e = GitTimeout m \<longrightarrow> a = GitTimedOut))"
    using run v pw by (cases a) (auto simp: git_def s g foreign_def)
qed

text \<open>A query: what is known before and does not depend on the calls made stays known.\<close>

definition stable :: "('w vcs \<Rightarrow> bool) \<Rightarrow> string list \<Rightarrow> bool" where
  "stable P args \<longleftrightarrow> (\<forall>w w' pre a. P (w, pre) \<longrightarrow> P (w', pre @ [CalledGit args a]))"

lemma query_rule:
  assumes k: "keeps_inv gh I" "allowed_git args" and st: "stable P args"
  shows "holds (\<lambda>s. vinv I s \<and> P s) (git gh args t)
     (\<lambda>(rc, out, err) s. vinv I s \<and> P s \<and> CalledGit args (GitDone rc out err) \<in> set (snd s))
     (\<lambda>e s. vinv I s \<and> P s \<and> foreign e)"
proof (rule holds_conseq [OF git_rule [OF k, where P = "\<lambda>s. vinv I s \<and> P s"]])
  fix x s
  assume "(\<lambda>(rc, out, err) s. vinv I s \<and> (\<exists>w pre. (vinv I (w, pre) \<and> P (w, pre)) \<and> snd s = pre @ [CalledGit args (GitDone rc out err)])) x s"
  then show "(\<lambda>(rc, out, err) s. vinv I s \<and> P s \<and> CalledGit args (GitDone rc out err) \<in> set (snd s)) x s"
    using st unfolding stable_def by (cases s) auto
next
  fix e s
  assume "vinv I s \<and> foreign e \<and> (\<exists>w pre a. (vinv I (w, pre) \<and> P (w, pre)) \<and> snd s = pre @ [CalledGit args a]
      \<and> (\<forall>m. e = GitTimeout m \<longrightarrow> a = GitTimedOut))"
  then show "vinv I s \<and> P s \<and> foreign e" using st unfolding stable_def by (cases s) auto
qed auto

text \<open>A writing call: when our own limit killed it, the index lock is removed and the module's own
  error raised; any other exception passes.\<close>

lemma writing_rule:
  assumes k: "keeps_inv gh I" and w: "writing_git args"
    and own: "\<And>m. \<not> foreign (err m)"
  shows "holds (vinv I) (etry (git gh args t) (on_git_timeout gh n place err))
     (\<lambda>(rc, out, e) s. vinv I s \<and> CalledGit args (GitDone rc out e) \<in> set (snd s))
     (\<lambda>e s. vinv I s \<and> (foreign e \<or> (\<exists>m. e = err m)))"
proof (rule holds_try)
  have a: "allowed_git args" using w by (simp add: allowed_git_def)
  let ?R = "\<lambda>e s. vinv I s \<and> foreign e \<and> ((\<exists>m. e = GitTimeout m) \<longrightarrow> snd s \<noteq> [] \<and> own_kill (last (snd s)))"
  show "holds (vinv I) (git gh args t)
     (\<lambda>(rc, out, e) s. vinv I s \<and> CalledGit args (GitDone rc out e) \<in> set (snd s)) ?R"
    by (rule holds_conseq [OF git_rule [OF k a, where P = "vinv I"]])
      (use w in \<open>auto simp: own_kill_def\<close>)
  fix e
  show "holds (?R e) (on_git_timeout gh n place err e)
     (\<lambda>(rc, out, e) s. vinv I s \<and> CalledGit args (GitDone rc out e) \<in> set (snd s))
     (\<lambda>e s. vinv I s \<and> (foreign e \<or> (\<exists>m. e = err m)))"
  proof (cases e)
    case (GitTimeout m)
    have c: "holds (?R e) (clear_self_caused_index_lock gh n place) (\<lambda>_. vinv I) E" for E
    proof (rule holds_I)
      fix s s' r assume p: "?R e s" and run: "clear_self_caused_index_lock gh n place s = (s', r)"
      obtain w acts where s: "s = (w, acts)" by (cases s)
      have l: "I w" "list_all quiet_act acts" "own_lock acts" "acts \<noteq> []" "own_kill (last acts)"
        using p GitTimeout s by (auto simp: vinv_def)
      have u: "I (gh_unlock gh w)" using k l(1) by (simp add: keeps_inv_def)
      have o: "own_lock (acts @ [ClearedLock])" using l by simp
      have o2: "own_lock (acts @ [ClearedLock, VcsEmit k fs xs])" for k fs xs
        using o own_lock_snoc [of "acts @ [ClearedLock]" "VcsEmit k fs xs"] by simp
      have r: "r = Inr ()" using run s by (auto simp: clear_self_caused_index_lock_def split: if_splits)
      have "vinv I s'" using run s l u o o2
        by (auto simp: clear_self_caused_index_lock_def vinv_def vcs_outcome_kinds_def split: if_splits)
      then show "case r of Inr x \<Rightarrow> vinv I s' | Inl e \<Rightarrow> E e s'" using r by simp
    qed
    have "holds (?R e) (ebind (clear_self_caused_index_lock gh n place) (\<lambda>_. eraise (err (take 200 m))))
        (\<lambda>(rc, out, e) s. vinv I s \<and> CalledGit args (GitDone rc out e) \<in> set (snd s))
        (\<lambda>e s. vinv I s \<and> (foreign e \<or> (\<exists>m. e = err m)))"
      by (rule holds_bind [OF c], rule holds_raise) blast
    then show ?thesis by (simp add: on_git_timeout_def GitTimeout)
  qed (auto simp: on_git_timeout_def intro!: holds_raise)
qed

lemma stable_pushed: "stable (\<lambda>s. pushed (snd s)) args"
  by (auto simp: stable_def pushed_def)

lemma stable_not_pushed: "take 2 args \<noteq> [''stash'', ''push''] \<Longrightarrow> stable (\<lambda>s. \<not> pushed (snd s)) args"
  by (auto simp: stable_def pushed_def)

lemma stable_committed: "stable (\<lambda>s. committed (snd s)) args"
  by (auto simp: stable_def committed_def)

lemma stable_True: "stable (\<lambda>s. True) args"
  by (simp add: stable_def)

lemma exclude_rule:
  assumes "keeps_inv gh I"
  shows "holds (vinv I) (log_dir_exclude_pathspec gh place) (\<lambda>_. vinv I) (\<lambda>e s. vinv I s \<and> foreign e)"
proof (cases place)
  case (LogInside rel)
  have "holds (\<lambda>s. vinv I s \<and> True)
      (ebind (git gh [''check-ignore'', ''-q'', ''--'', rel] git_timeout_s)
         (\<lambda>(rc, out, err). eret (if rc = 0 then [] else [''--'', '':(exclude)'' @ rel])))
      (\<lambda>_. vinv I) (\<lambda>e s. vinv I s \<and> True \<and> foreign e)"
    by (rule holds_bind [OF query_rule [OF assms _ stable_True]])
      (auto simp: allowed_git_def intro!: holds_ret split: prod.splits)
  then show ?thesis using LogInside by (simp add: log_dir_exclude_pathspec_def)
qed (auto simp: log_dir_exclude_pathspec_def intro!: holds_ret)

text \<open>What a stash reference stands for.\<close>

definition stash_evidence :: "int \<Rightarrow> string \<Rightarrow> vcs_act list \<Rightarrow> stash_ref \<Rightarrow> bool" where
  "stash_evidence round_num msg acts r \<longleftrightarrow>
     (if sr_reused r then \<not> pushed acts \<and> prefix (orphan_label round_num) (sr_message r)
      else pushed acts \<and> sr_message r = msg \<and> listed acts (sr_sha r) msg)"

lemma push_stash_rule:
  assumes k: "keeps_inv gh I"
  shows "holds (vinv I) (push_stash gh ts n phase place)
     (\<lambda>r s. vinv I s \<and> (\<forall>x. r = Some x \<longrightarrow> \<not> sr_reused x \<and> stash_evidence n (stash_message n phase ts) (snd s) x))
     (\<lambda>e s. vinv I s \<and> (foreign e \<or> (\<exists>m. e = StashError m)))"
proof -
  let ?msg = "stash_message n phase ts"
  let ?E = "\<lambda>e s. vinv I s \<and> (foreign e \<or> (\<exists>m. e = StashError m))"
  let ?Q = "\<lambda>r s. vinv I s \<and> (\<forall>x. r = Some x \<longrightarrow> \<not> sr_reused x \<and> stash_evidence n ?msg (snd s) x)"
  let ?list = "ebind (git gh [''stash'', ''list'', ''-1'', ''--format=%H %s''] git_timeout_s) (\<lambda>(rc, out, err).
          eret (if rc \<noteq> 0 \<or> py_strip out = [] then None
                else case py_partition (CHR '' '') (py_strip out) of (sha, subj) \<Rightarrow>
                       if py_find subj ?msg 0 = None then None
                       else Some \<lparr>sr_sha = sha, sr_message = ?msg, sr_reused = False\<rparr>))"
  have list: "holds (\<lambda>s. vinv I s \<and> pushed (snd s)) ?list ?Q ?E"
  proof (rule holds_bind)
    show "holds (\<lambda>s. vinv I s \<and> pushed (snd s)) (git gh [''stash'', ''list'', ''-1'', ''--format=%H %s''] git_timeout_s)
       (\<lambda>(rc, out, err) s. vinv I s \<and> pushed (snd s)
           \<and> CalledGit [''stash'', ''list'', ''-1'', ''--format=%H %s''] (GitDone rc out err) \<in> set (snd s)) ?E"
      by (rule holds_conseq [OF query_rule [OF k _ stable_pushed]]) (auto simp: allowed_git_def)
    fix x :: "int \<times> string \<times> string"
    obtain rc out err where x: "x = (rc, out, err)" by (cases x)
    obtain sha subj where p: "py_partition (CHR '' '') (py_strip out) = (sha, subj)" by fastforce
    show "holds ((\<lambda>(rc, out, err) s. vinv I s \<and> pushed (snd s)
           \<and> CalledGit [''stash'', ''list'', ''-1'', ''--format=%H %s''] (GitDone rc out err) \<in> set (snd s)) x)
        ((\<lambda>(rc, out, err).
          eret (if rc \<noteq> 0 \<or> py_strip out = [] then None
                else case py_partition (CHR '' '') (py_strip out) of (sha, subj) \<Rightarrow>
                       if py_find subj ?msg 0 = None then None
                       else Some \<lparr>sr_sha = sha, sr_message = ?msg, sr_reused = False\<rparr>)) x) ?Q ?E"
      unfolding x using p
      by (auto simp: stash_evidence_def listed_def intro!: holds_ret exI)
  qed
  have excl: "holds (vinv I) (log_dir_exclude_pathspec gh place) (\<lambda>_. vinv I) ?E"
    by (rule holds_conseq [OF exclude_rule [OF k]]) auto
  show ?thesis unfolding push_stash_def Let_def
  proof (rule holds_bind [OF excl])
    fix ex :: "string list"
    let ?args = "[''stash'', ''push'', ''-u'', ''-m'', ?msg] @ ex"
    show "holds (vinv I) (ebind (etry (git gh ?args 30) (on_git_timeout gh n place StashError))
       (\<lambda>(rc, out, err). if rc \<noteq> 0 then eraise (StashError (failure_text err ''git stash push failed'')) else ?list)) ?Q ?E"
    proof (rule holds_bind [OF writing_rule [OF k]])
      fix x :: "int \<times> string \<times> string"
      obtain rc out err where x: "x = (rc, out, err)" by (cases x)
      have "holds (\<lambda>s. vinv I s \<and> CalledGit ?args (GitDone 0 out err) \<in> set (snd s)) ?list ?Q ?E"
      proof (rule holds_conseq [OF list])
        fix s assume s: "vinv I s \<and> CalledGit ?args (GitDone 0 out err) \<in> set (snd s)"
        have "take 2 ?args = [''stash'', ''push'']" by simp
        then show "vinv I s \<and> pushed (snd s)" using s unfolding pushed_def by blast
      qed
      then show "holds ((\<lambda>(rc, out, e) s. vinv I s \<and> CalledGit ?args (GitDone rc out e) \<in> set (snd s)) x)
        ((\<lambda>(rc, out, err). if rc \<noteq> 0 then eraise (StashError (failure_text err ''git stash push failed'')) else ?list) x) ?Q ?E"
        unfolding x by (auto intro!: holds_raise)
    qed (auto simp: writing_git_def foreign_def)
  qed
qed

lemma stash_orphan_rule:
  assumes k: "keeps_inv gh I"
  shows "holds (\<lambda>s. vinv I s \<and> \<not> pushed (snd s)) (stash_orphan gh now ts n phase idem place)
     (\<lambda>r s. vinv I s \<and> (\<forall>x. r = Some x \<longrightarrow> stash_evidence n (stash_message n phase ts) (snd s) x))
     (\<lambda>e s. vinv I s \<and> (foreign e \<or> (\<exists>m. e = StashError m)))"
  (is "holds ?P _ ?Q ?E")
proof -
  have query: "holds ?P (git gh args git_timeout_s) (\<lambda>_. ?P) ?E"
    if "allowed_git args" "take 2 args \<noteq> [''stash'', ''push'']" for args
    by (rule holds_conseq [OF query_rule [OF k that(1) stable_not_pushed [OF that(2)]]]) auto
  have dirty: "holds ?P (detect_dirty_files gh) (\<lambda>_. ?P) ?E"
    unfolding detect_dirty_files_def porcelain_paths_def
    by (rule holds_bind [OF query]) (auto simp: allowed_git_def intro!: holds_ret split: prod.splits)
  have recent: "holds ?P (recent_orphan_for_round gh now n idem)
      (\<lambda>r s. ?P s \<and> (\<forall>x. r = Some x \<longrightarrow> prefix (orphan_label n) (sr_message x))) ?E"
    unfolding recent_orphan_for_round_def
    by (rule holds_bind [OF query])
      (auto simp: allowed_git_def intro!: holds_ret split: prod.splits option.splits if_splits)
  have push: "holds ?P (push_stash gh ts n phase place) ?Q ?E"
    by (rule holds_conseq [OF push_stash_rule [OF k, of ts n phase place]]) auto
  show ?thesis unfolding stash_orphan_def
  proof (rule holds_bind [OF dirty])
    fix d :: "string list"
    show "holds ?P (if d = [] then eret None
       else ebind (recent_orphan_for_round gh now n idem) (\<lambda>existing.
         case existing of Some r \<Rightarrow> eret (Some (r\<lparr>sr_reused := True\<rparr>)) | None \<Rightarrow> push_stash gh ts n phase place)) ?Q ?E"
    proof (cases "d = []")
      case False
      have "holds ?P (ebind (recent_orphan_for_round gh now n idem) (\<lambda>existing.
         case existing of Some r \<Rightarrow> eret (Some (r\<lparr>sr_reused := True\<rparr>)) | None \<Rightarrow> push_stash gh ts n phase place)) ?Q ?E"
      proof (rule holds_bind [OF recent])
        fix e :: "stash_ref option"
        show "holds (\<lambda>s. ?P s \<and> (\<forall>x. e = Some x \<longrightarrow> prefix (orphan_label n) (sr_message x)))
          (case e of Some r \<Rightarrow> eret (Some (r\<lparr>sr_reused := True\<rparr>)) | None \<Rightarrow> push_stash gh ts n phase place) ?Q ?E"
        proof (cases e)
          case None
          then show ?thesis using push by simp
        next
          case (Some r)
          then show ?thesis by (auto simp: stash_evidence_def intro!: holds_ret)
        qed
      qed
      then show ?thesis using False by simp
    qed (auto intro!: holds_ret)
  qed
qed


lemma auto_commit_rule:
  assumes k: "keeps_inv gh I"
  shows "holds (vinv I) (try_auto_commit gh n phase place)
     (\<lambda>sha s. vinv I s \<and> (sha \<noteq> [] \<longrightarrow> committed (snd s)))
     (\<lambda>e s. vinv I s \<and> (foreign e \<or> (\<exists>m. e = AutoCommitError m)))"
  (is "holds _ _ ?Q ?E")
proof -
  let ?killed = "on_git_timeout gh n place AutoCommitError :: vcs_error \<Rightarrow> ('a, int \<times> string \<times> string) vm"
  let ?subject = "''agent-runner auto-commit: R'' @ int_digits n @ phase_part '' '' phase"
  let ?commit = "[''-c'', ''commit.gpgsign=false'', ''commit'', ''-m'', ?subject]"
  let ?head = "ebind (git gh [''rev-parse'', ''HEAD''] git_timeout_s) (\<lambda>(rc, out, err). eret (py_strip out))"
  let ?finish = "ebind (etry (git gh ?commit git_commit_timeout_s) ?killed)
     (\<lambda>(rc, out, err). if rc \<noteq> 0 then eraise (AutoCommitError (failure_text err ''git commit failed'')) else ?head)"
  let ?probe = "\<lambda>ex :: string list. if ex = [] then eret False
     else ebind (git gh [''diff'', ''--cached'', ''--quiet''] git_timeout_s) (\<lambda>(rc, out, err). eret (rc = 0))"
  have own: "\<not> foreign (AutoCommitError m)" for m by (simp add: foreign_def)
  have excl: "holds (vinv I) (log_dir_exclude_pathspec gh place) (\<lambda>_. vinv I) ?E"
    by (rule holds_conseq [OF exclude_rule [OF k]]) auto
  have head: "holds (\<lambda>s. vinv I s \<and> committed (snd s)) ?head ?Q ?E"
  proof (rule holds_bind)
    show "holds (\<lambda>s. vinv I s \<and> committed (snd s)) (git gh [''rev-parse'', ''HEAD''] git_timeout_s)
        (\<lambda>_ s. vinv I s \<and> committed (snd s)) ?E"
      by (rule holds_conseq [OF query_rule [OF k _ stable_committed]]) (auto simp: allowed_git_def)
  qed (auto intro!: holds_ret split: prod.splits)
  have finish: "holds (vinv I) ?finish ?Q ?E"
  proof (rule holds_bind [OF writing_rule [OF k _ own]])
    fix x :: "int \<times> string \<times> string"
    obtain rc out err where x: "x = (rc, out, err)" by (cases x)
    have "holds (\<lambda>s. vinv I s \<and> CalledGit ?commit (GitDone 0 out err) \<in> set (snd s)) ?head ?Q ?E"
    proof (rule holds_conseq [OF head])
      fix s assume s: "vinv I s \<and> CalledGit ?commit (GitDone 0 out err) \<in> set (snd s)"
      have "take 3 ?commit = [''-c'', ''commit.gpgsign=false'', ''commit'']" by simp
      then show "vinv I s \<and> committed (snd s)" using s unfolding committed_def by blast
    qed
    then show "holds ((\<lambda>(rc, out, e) s. vinv I s \<and> CalledGit ?commit (GitDone rc out e) \<in> set (snd s)) x)
      ((\<lambda>(rc, out, err). if rc \<noteq> 0 then eraise (AutoCommitError (failure_text err ''git commit failed'')) else ?head) x) ?Q ?E"
      unfolding x by (auto intro!: holds_raise)
  qed (simp add: writing_git_def)
  have probe: "holds (vinv I) (?probe ex) (\<lambda>_. vinv I) ?E" for ex
  proof (cases "ex = []")
    case False
    have "holds (\<lambda>s. vinv I s \<and> True)
      (ebind (git gh [''diff'', ''--cached'', ''--quiet''] git_timeout_s) (\<lambda>(rc, out, err). eret (rc = 0)))
      (\<lambda>_. vinv I) (\<lambda>e s. vinv I s \<and> True \<and> foreign e)"
      by (rule holds_bind [OF query_rule [OF k _ stable_True]])
        (auto simp: allowed_git_def intro!: holds_ret split: prod.splits)
    then show ?thesis using False by (simp only: if_False) (erule holds_conseq; simp)
  qed (simp add: holds_ret)
  show ?thesis unfolding try_auto_commit_def Let_def
  proof (rule holds_bind [OF excl])
    fix ex :: "string list"
    show "holds (vinv I) (ebind (etry (git gh ([''add'', ''-A''] @ ex) git_timeout_s) ?killed) (\<lambda>(rc, out, err).
        if rc \<noteq> 0 then eraise (AutoCommitError (failure_text err ''git add failed''))
        else ebind (?probe ex) (\<lambda>nothing. if nothing then eret [] else ?finish))) ?Q ?E"
    proof (rule holds_bind [OF writing_rule [OF k _ own]])
      fix x :: "int \<times> string \<times> string"
      obtain rc out err where x: "x = (rc, out, err)" by (cases x)
      have r: "holds (vinv I) (ebind (?probe ex) (\<lambda>nothing. if nothing then eret [] else ?finish)) ?Q ?E"
      proof (rule holds_bind [OF probe])
        fix b
        show "holds (vinv I) (if b then eret [] else ?finish) ?Q ?E"
          using finish by (cases b) (auto intro!: holds_ret)
      qed
      have "holds (\<lambda>s. vinv I s \<and> CalledGit ([''add'', ''-A''] @ ex) (GitDone rc out err) \<in> set (snd s))
         (if rc \<noteq> 0 then eraise (AutoCommitError (failure_text err ''git add failed''))
          else ebind (?probe ex) (\<lambda>nothing. if nothing then eret [] else ?finish)) ?Q ?E"
      proof (cases "rc = 0")
        case True
        show ?thesis unfolding True by (simp only: refl not_True_eq_False if_False) (rule holds_conseq [OF r]; simp)
      next
        case False
        show ?thesis using False by (simp only: if_True not_False_eq_True) (rule holds_raise, blast)
      qed
      then show "holds ((\<lambda>(rc, out, e) s. vinv I s \<and> CalledGit ([''add'', ''-A''] @ ex) (GitDone rc out e) \<in> set (snd s)) x)
        ((\<lambda>(rc, out, err). if rc \<noteq> 0 then eraise (AutoCommitError (failure_text err ''git add failed''))
          else ebind (?probe ex) (\<lambda>nothing. if nothing then eret [] else ?finish)) x) ?Q ?E"
        unfolding x by simp
    qed (simp add: writing_git_def)
  qed
qed

subsection \<open>The outcome of a dirty tree and what was said about it\<close>

text \<open>How the list of what was done ends, for each outcome; \<open>pre\<close> is what came before.\<close>

definition failure_kinds :: "string list" where
  "failure_kinds = [''orphan_stash_failed'', ''dirty_commit_failed'']"

definition told :: "dirty_action \<Rightarrow> int \<Rightarrow> string \<Rightarrow> string list \<Rightarrow> vcs_act list \<Rightarrow> vcs_act list \<Rightarrow> dirty_outcome \<Rightarrow> bool" where
  "told action n msg dirty pre acts r \<longleftrightarrow>
     (case r of
        DirtyIgnored \<Rightarrow> acts = pre \<or> (\<exists>k fs. k \<in> set failure_kinds \<and> acts = pre @ [VcsEmit k [] fs])
      | DirtyCommitted sha \<Rightarrow> action = AutoCommit \<and> sha \<noteq> [] \<and> committed pre
          \<and> acts = pre @ [VcsEmit ''dirty_auto_committed'' (take 20 dirty) [(''round_num'', PInt n), (''ref'', PStr sha)]]
      | DirtyStashed sha \<Rightarrow> action = StashDirty
          \<and> (\<exists>x st. stash_evidence n msg pre x \<and> sr_sha x = sha \<and> or_stashed_ref st = PStr sha
               \<and> or_stash_message st = PStr (sr_message x) \<and> or_round_num st = PInt n
               \<and> acts = pre @ [WroteOrphan dirty st,
                    VcsEmit (if sr_reused x then ''orphan_idempotent_skip'' else ''orphan_stashed'') []
                      [(''round_num'', PInt n), (''ref'', PStr sha), (''reason'', PStr ''clean_exit_with_dirty_tree'')]]))"

definition told_at :: "('w \<Rightarrow> bool) \<Rightarrow> dirty_action \<Rightarrow> int \<Rightarrow> string \<Rightarrow> string list \<Rightarrow> dirty_outcome \<Rightarrow> 'w vcs \<Rightarrow> bool" where
  "told_at I action n msg dirty r s \<longleftrightarrow> (\<exists>pre. vinv I (fst s, pre) \<and> told action n msg dirty pre (snd s) r)"

lemma failure_rule:
  assumes "k \<in> set failure_kinds"
  shows "holds (vinv I) (ebind (vact (VcsEmit k [] fs)) (\<lambda>_. eret DirtyIgnored)) (told_at I action n msg dirty) E"
proof (rule holds_bind)
  show "holds (vinv I) (vact (VcsEmit k [] fs))
     (\<lambda>_ s. \<exists>pre. vinv I (fst s, pre) \<and> snd s = pre @ [VcsEmit k [] fs]) E"
    by (rule holds_act) auto
qed (use assms in \<open>auto simp: told_at_def told_def intro!: holds_ret\<close>)

lemma commit_branch_rule:
  assumes k: "keeps_inv gh I"
  shows "holds (vinv I) (resolve_dirty_tree gh now ts stamp AutoCommit n phase idem place dirty)
    (told_at I AutoCommit n msg dirty) (\<lambda>e s. vinv I s \<and> foreign e)"
  unfolding resolve_dirty_tree_def dirty_action.case
proof (rule holds_try)
  let ?E = "\<lambda>e s. vinv I s \<and> (foreign e \<or> (\<exists>m. e = AutoCommitError m))"
  show "holds (vinv I) (ebind (try_auto_commit gh n phase place) (\<lambda>sha.
      if sha = [] then eret DirtyIgnored
      else ebind (vact (VcsEmit ''dirty_auto_committed'' (take 20 dirty) [(''round_num'', PInt n), (''ref'', PStr sha)]))
             (\<lambda>_. eret (DirtyCommitted sha)))) (told_at I AutoCommit n msg dirty) ?E"
  proof (rule holds_bind [OF auto_commit_rule [OF k]])
    fix sha :: string
    show "holds (\<lambda>s. vinv I s \<and> (sha \<noteq> [] \<longrightarrow> committed (snd s)))
      (if sha = [] then eret DirtyIgnored
       else ebind (vact (VcsEmit ''dirty_auto_committed'' (take 20 dirty) [(''round_num'', PInt n), (''ref'', PStr sha)]))
             (\<lambda>_. eret (DirtyCommitted sha))) (told_at I AutoCommit n msg dirty) ?E"
    proof (cases "sha = []")
      case True
      then show ?thesis by (auto simp: told_at_def told_def intro!: holds_ret)
    next
      case False
      have "holds (\<lambda>s. vinv I s \<and> (sha \<noteq> [] \<longrightarrow> committed (snd s)))
        (ebind (vact (VcsEmit ''dirty_auto_committed'' (take 20 dirty) [(''round_num'', PInt n), (''ref'', PStr sha)]))
             (\<lambda>_. eret (DirtyCommitted sha))) (told_at I AutoCommit n msg dirty) ?E"
      proof (rule holds_bind)
        show "holds (\<lambda>s. vinv I s \<and> (sha \<noteq> [] \<longrightarrow> committed (snd s)))
          (vact (VcsEmit ''dirty_auto_committed'' (take 20 dirty) [(''round_num'', PInt n), (''ref'', PStr sha)]))
          (\<lambda>_ s. \<exists>pre. vinv I (fst s, pre) \<and> committed pre
             \<and> snd s = pre @ [VcsEmit ''dirty_auto_committed'' (take 20 dirty) [(''round_num'', PInt n), (''ref'', PStr sha)]]) ?E"
          by (rule holds_act) (use False in auto)
      qed (use False in \<open>auto simp: told_at_def told_def intro!: holds_ret\<close>)
      then show ?thesis using False by simp
    qed
  qed
  fix e
  show "holds (?E e) (case e of
       AutoCommitError m \<Rightarrow> ebind (vact (VcsEmit ''dirty_commit_failed'' []
           [(''round_num'', PInt n), (''phase'', opt_str phase), (''reason'', PStr m)])) (\<lambda>_. eret DirtyIgnored)
     | _ \<Rightarrow> eraise e) (told_at I AutoCommit n msg dirty) (\<lambda>e s. vinv I s \<and> foreign e)"
    by (cases e) (auto simp: foreign_def intro!: holds_raise holds_conseq [OF failure_rule [where E = "\<lambda>e s. False"]] simp: failure_kinds_def)
qed

lemma record_stash_rule:
  "holds (\<lambda>s. vinv I s \<and> stash_evidence n msg (snd s) r)
     (record_stash stamp n phase dirty r) (told_at I StashDirty n msg dirty) E"
proof -
  obtain sha where sha: "sr_sha r = sha" by simp
  define st where "st = \<lparr>or_round_num = PInt n, or_files = PCompound [], or_stashed_ref = PStr (sr_sha r),
         or_stash_message = PStr (sr_message r), or_timestamp = PStr stamp, or_phase = opt_str phase\<rparr>"
  define ev where "ev = VcsEmit (if sr_reused r then ''orphan_idempotent_skip'' else ''orphan_stashed'') []
        [(''round_num'', PInt n), (''ref'', PStr (sr_sha r)), (''reason'', PStr ''clean_exit_with_dirty_tree'')]"
  have run: "record_stash stamp n phase dirty r (w, acts) = ((w, acts @ [WroteOrphan dirty st, ev]), Inr (DirtyStashed (sr_sha r)))" for w :: 'a and acts
    by (simp add: record_stash_def ebind_def vact_def eret_def st_def ev_def)
  show ?thesis
  proof (rule holds_I)
    fix s s' x
    assume p: "vinv I s \<and> stash_evidence n msg (snd s) r"
      and x: "record_stash stamp n phase dirty r s = (s', x)"
    obtain w acts where s: "s = (w, acts)" by (cases s)
    have r: "x = Inr (DirtyStashed (sr_sha r))" "s' = (w, acts @ [WroteOrphan dirty st, ev])"
      using x run s by auto
    have "told StashDirty n msg dirty acts (acts @ [WroteOrphan dirty st, ev]) (DirtyStashed (sr_sha r))"
      using p s unfolding told_def dirty_outcome.case
      by (intro conjI refl exI [of _ r] exI [of _ st]) (simp_all add: st_def ev_def)
    then show "case x of Inr x \<Rightarrow> told_at I StashDirty n msg dirty x s' | Inl e \<Rightarrow> E e s'"
      using p s by (auto simp: r told_at_def)
  qed
qed

lemma stash_branch_rule:
  assumes k: "keeps_inv gh I"
  shows "holds (\<lambda>s. vinv I s \<and> \<not> pushed (snd s))
    (resolve_dirty_tree gh now ts stamp StashDirty n phase idem place dirty)
    (told_at I StashDirty n (stash_message n phase ts) dirty) (\<lambda>e s. vinv I s \<and> foreign e)"
  unfolding resolve_dirty_tree_def dirty_action.case resolve_stash_def
proof (rule holds_try)
  let ?msg = "stash_message n phase ts"
  let ?E = "\<lambda>e s. vinv I s \<and> (foreign e \<or> (\<exists>m. e = StashError m))"
  show "holds (\<lambda>s. vinv I s \<and> \<not> pushed (snd s))
    (ebind (stash_orphan gh now ts n phase idem place) (\<lambda>r.
       case r of None \<Rightarrow> eret DirtyIgnored | Some r \<Rightarrow> record_stash stamp n phase dirty r))
    (told_at I StashDirty n ?msg dirty) ?E"
  proof (rule holds_bind [OF stash_orphan_rule [OF k]])
    fix r :: "stash_ref option"
    show "holds (\<lambda>s. vinv I s \<and> (\<forall>x. r = Some x \<longrightarrow> stash_evidence n ?msg (snd s) x))
      (case r of None \<Rightarrow> eret DirtyIgnored | Some r \<Rightarrow> record_stash stamp n phase dirty r)
      (told_at I StashDirty n ?msg dirty) ?E"
    proof (cases r)
      case None
      then show ?thesis by (auto simp: told_at_def told_def intro!: holds_ret)
    next
      case (Some x)
      show ?thesis unfolding Some option.case
        by (rule holds_conseq [OF record_stash_rule [where I = I and msg = ?msg and n = n and r = x]]) auto
    qed
  qed
  fix e
  show "holds (?E e) (case e of
       StashError m \<Rightarrow> ebind (vact (VcsEmit ''orphan_stash_failed'' []
           [(''round_num'', PInt n), (''phase'', opt_str phase), (''reason'', PStr m)])) (\<lambda>_. eret DirtyIgnored)
     | _ \<Rightarrow> eraise e) (told_at I StashDirty n ?msg dirty) (\<lambda>e s. vinv I s \<and> foreign e)"
    by (cases e) (auto simp: foreign_def intro!: holds_raise holds_conseq [OF failure_rule [where E = "\<lambda>e s. False"]] simp: failure_kinds_def)
qed

lemma ignore_branch:
  "resolve_dirty_tree gh now ts stamp IgnoreDirty n phase idem place dirty s = (s, Inr DirtyIgnored)"
  by (simp add: resolve_dirty_tree_def eret_def)

lemma resolve_told:
  assumes k: "keeps_inv gh I" and i: "I w"
    and run: "resolve_dirty_tree gh now ts stamp action n phase idem place dirty (w, []) = ((w', acts), r)"
  shows "case r of Inr x \<Rightarrow> told_at I action n (stash_message n phase ts) dirty x (w', acts)
     | Inl e \<Rightarrow> vinv I (w', acts) \<and> foreign e"
proof (cases action)
  case IgnoreDirty
  then have "w' = w" "acts = []" "r = Inr DirtyIgnored" using run by (simp_all add: ignore_branch)
  then show ?thesis using i IgnoreDirty by (auto simp: told_at_def told_def vinv_def)
next
  case AutoCommit
  show ?thesis unfolding AutoCommit using holds_D [OF commit_branch_rule [OF k, where msg = "stash_message n phase ts"] _ run [unfolded AutoCommit]] i
    by (simp add: vinv_def)
next
  case StashDirty
  show ?thesis unfolding StashDirty using holds_D [OF stash_branch_rule [OF k] _ run [unfolded StashDirty]] i
    by (simp add: vinv_def pushed_def)
qed


lemma told_calls:
  assumes "list_all quiet_act pre" "own_lock pre" "told action n msg dirty pre acts r"
  shows "own_lock acts \<and> (\<forall>args a. CalledGit args a \<in> set acts \<longrightarrow> allowed_git args)"
proof -
  have q: "allowed_git args" if "CalledGit args a \<in> set pre" for args a
    using assms(1) that by (auto simp: list_all_iff)
  show ?thesis
  proof (cases r)
    case (DirtyStashed sha)
    then obtain st k fs where "acts = (pre @ [WroteOrphan dirty st]) @ [VcsEmit k [] fs]"
      using assms(3) by (auto simp: told_def)
    then show ?thesis using assms(2) by (auto simp del: append_assoc dest: q)
  qed (use assms(2,3) in \<open>auto simp: told_def dest: q\<close>)
qed

text \<open>C6: what resolving a dirty tree does and what it may do. The outcome is what was done and what
  was said: a stash outcome comes with the recorded orphan and its event, for the very SHA git
  listed under this round's message after a push that succeeded, or for an earlier stash of the
  round without any push; a commit outcome with its event, after a commit that succeeded; an
  ignored tree with at most the failure event. No exception of the module's own escapes, only a
  killed or unstartable query. Throughout, git is called with the fixed set of command lines
  (nothing is pushed to a remote, reset, cleaned, dropped), the index lock is removed only right
  after a writing call of our own was killed, and whatever property of the repository those
  commands keep is kept.\<close>

theorem dirty_tree_resolved:
  assumes run: "resolve_dirty_tree gh now ts stamp action n phase idem place dirty (w, []) = ((w', acts), r)"
  shows "(case r of
        Inl e \<Rightarrow> foreign e \<and> list_all quiet_act acts
      | Inr x \<Rightarrow> \<exists>pre. list_all quiet_act pre \<and> told action n (stash_message n phase ts) dirty pre acts x)
    \<and> own_lock acts
    \<and> (\<forall>args a. CalledGit args a \<in> set acts \<longrightarrow> allowed_git args)
    \<and> (\<forall>I. keeps_inv gh I \<and> I w \<longrightarrow> I w')
    \<and> (action = IgnoreDirty \<longrightarrow> acts = [] \<and> r = Inr DirtyIgnored)"
proof -
  have t: "keeps_inv gh (\<lambda>_. True)" by (simp add: keeps_inv_def)
  note o = resolve_told [OF t _ run]
  have "I w'" if "keeps_inv gh I" "I w" for I
    using resolve_told [OF that run] by (cases r) (auto simp: told_at_def vinv_def)
  then have inv: "\<forall>I. keeps_inv gh I \<and> I w \<longrightarrow> I w'" by blast
  have ign: "action = IgnoreDirty \<longrightarrow> acts = [] \<and> r = Inr DirtyIgnored"
    using run by (auto simp: ignore_branch)
  show ?thesis
  proof (cases r)
    case (Inl e)
    then have "list_all quiet_act acts" "own_lock acts" "foreign e" using o by (auto simp: vinv_def)
    moreover from this(1) have "\<forall>args a. CalledGit args a \<in> set acts \<longrightarrow> allowed_git args"
      by (auto simp: list_all_iff)
    ultimately show ?thesis using inv ign unfolding Inl sum.case by blast
  next
    case (Inr x)
    then obtain pre where p: "list_all quiet_act pre" "own_lock pre"
        "told action n (stash_message n phase ts) dirty pre acts x"
      using o by (auto simp: told_at_def vinv_def)
    show ?thesis using told_calls [OF p] p inv ign unfolding Inr sum.case by blast
  qed
qed

subsection \<open>A concrete repository\<close>

text \<open>A repository that counts its writing calls; its \<open>stash push\<close> is killed the first time and
  leaves the lock behind.\<close>

definition example_git :: "nat \<times> bool \<Rightarrow> string list \<Rightarrow> int \<Rightarrow> (nat \<times> bool) \<times> git_answer" where
  "example_git w args t =
     (if take 1 args = [''status''] then (w, GitDone 0 ('' M a.py'' @ [nul]) [])
      else if take 2 args = [''stash'', ''list''] then (w, GitDone 0 [] [])
      else if take 2 args = [''stash'', ''push''] then ((Suc (fst w), True), GitTimedOut)
      else (w, GitDone 0 [] []))"

definition example_git_host :: "(nat \<times> bool) git_host" where
  "example_git_host = \<lparr>gh_git = example_git, gh_lock = snd, gh_unlock = (\<lambda>w. (fst w, False)), gh_lock_path = ''/p/.git/index.lock''\<rparr>"

lemma dirty_tree_resolved_witness:
  "\<exists>acts. resolve_dirty_tree example_git_host 0 ''ts'' ''now'' StashDirty 7 None 5 LogOutside [''a.py''] ((0, False), [])
      = (((1, False), acts), Inr DirtyIgnored) \<and> own_lock acts \<and> ClearedLock \<in> set acts
      \<and> (\<exists>pre. list_all quiet_act pre \<and> told StashDirty 7 (stash_message 7 None ''ts'') [''a.py''] pre acts DirtyIgnored)"
proof -
  obtain w' acts r where run: "resolve_dirty_tree example_git_host 0 ''ts'' ''now'' StashDirty 7 None 5 LogOutside [''a.py''] ((0, False), [])
      = ((w', acts), r)" by (metis surj_pair)
  have "case resolve_dirty_tree example_git_host 0 ''ts'' ''now'' StashDirty 7 None 5 LogOutside [''a.py''] ((0, False), []) of
      ((w', acts), r) \<Rightarrow> w' = (1, False) \<and> r = Inr DirtyIgnored \<and> ClearedLock \<in> set acts" by code_simp
  then have "w' = (1, False)" "r = Inr DirtyIgnored" "ClearedLock \<in> set acts" by (simp_all add: run)
  then show ?thesis using dirty_tree_resolved [OF run] run by auto
qed

text \<open>The label of round 1 is also a prefix of the label of round 12: within the window the stash of
  another round is reported as this round's.\<close>

lemma orphan_label_not_exact:
  "orphan_label 12 \<noteq> orphan_label 1 \<and> prefix (orphan_label 1) (orphan_label 12)"
  by code_simp

end
