(* ===== verification/Startup_Check.thy ===== *)
theory Startup_Check
  imports Phase_Select Vcs_State
begin

section \<open>The boot battery (agent\_runner/startup\_check.py)\<close>

text \<open>
  The checks a round runs before it spawns an agent, as the list of their results in order. The
  host is a record: whether the log directory can be written, the look-up of an executable
  (\<open>shutil.which\<close>, with the path of the child when the agent sets one), the existence and the text
  of files, git, and the value of the variable that skips the battery. A result keeps its name,
  its verdict and whether a failure is permanent; the texts for the operator are not modelled.
\<close>

record battery_check =
  ck_name :: string
  ck_ok :: bool
  ck_permanent :: bool

record 'w startup_host =
  sh_log_dir_writable :: bool
  sh_which :: "string \<Rightarrow> string option \<Rightarrow> bool"
  sh_exists :: "string \<Rightarrow> bool"
  sh_read :: "string \<Rightarrow> file_read"
  sh_git :: "'w git_host"
  sh_repo :: 'w
  sh_work_dir_is_dir :: bool
  sh_skip :: "string option"

definition min_prompt_bytes :: nat where "min_prompt_bytes = 500"

definition forbidden_first_chars :: "char list" where
  "forbidden_first_chars = [CHR ''-'', CHR '' '', CHR 0x0A, CHR 0x09, CHR 0x0D]"

definition check_passed :: "string \<Rightarrow> battery_check" where
  "check_passed name = \<lparr>ck_name = name, ck_ok = True, ck_permanent = False\<rparr>"

definition check_failed_with :: "string \<Rightarrow> bool \<Rightarrow> battery_check" where
  "check_failed_with name permanent = \<lparr>ck_name = name, ck_ok = False, ck_permanent = permanent\<rparr>"

definition check_if :: "string \<Rightarrow> bool \<Rightarrow> bool \<Rightarrow> battery_check" where
  "check_if name permanent ok = (if ok then check_passed name else check_failed_with name permanent)"

definition check_log_dir :: "'w startup_host \<Rightarrow> battery_check" where
  "check_log_dir h = check_if ''log_dir_writable'' False (sh_log_dir_writable h)"

subsection \<open>The agent of a profile\<close>

definition resolve_exec_target :: "(string \<Rightarrow> string option \<Rightarrow> bool) \<Rightarrow> string \<Rightarrow> string \<Rightarrow> string option \<Rightarrow> bool" where
  "resolve_exec_target which command0 work_dir env_path =
     (if CHR ''/'' \<in> set command0
      then which (if is_absolute command0 then command0 else work_dir @ ''/'' @ command0) None
      else which command0 env_path)"

definition check_agent_target :: "'w startup_host \<Rightarrow> agent_config \<Rightarrow> string \<Rightarrow> string \<Rightarrow> battery_check" where
  "check_agent_target h agent work_dir name =
     (if ac_command agent = [] then check_failed_with name True
      else check_if name True
             (resolve_exec_target (sh_which h) (hd (spawn_command agent work_dir)) work_dir (ac_env agent ''PATH'')))"

text \<open>\<open>^(-[a-z]*i[a-z]*|--interactive(=.*)?)$\<close>; the \<open>$\<close> lets one newline follow.\<close>

definition interactive_text :: "string \<Rightarrow> bool" where
  "interactive_text tok \<longleftrightarrow>
     (tok \<noteq> [] \<and> hd tok = CHR ''-'' \<and> list_all (\<lambda>c. 97 \<le> char_code c \<and> char_code c \<le> 122) (tl tok) \<and> CHR ''i'' \<in> set (tl tok))
     \<or> tok = ''--interactive''
     \<or> (prefix ''--interactive='' tok \<and> CHR 0x0A \<notin> set tok)"

definition interactive_flag :: "string \<Rightarrow> bool" where
  "interactive_flag tok \<longleftrightarrow>
     interactive_text tok \<or> (tok \<noteq> [] \<and> last tok = CHR 0x0A \<and> interactive_text (butlast tok))"

definition exec_prefix_is_interactive :: "string list \<Rightarrow> bool" where
  "exec_prefix_is_interactive exec_prefix = list_ex interactive_flag exec_prefix"

definition check_stdin_container_interactive :: "agent_config \<Rightarrow> string \<Rightarrow> string \<Rightarrow> battery_check" where
  "check_stdin_container_interactive agent work_dir name =
     check_if name True
       (ac_prompt_delivery agent \<noteq> Stdin \<or> detect_container_run (spawn_command agent work_dir) = None
        \<or> exec_prefix_is_interactive (ac_exec_prefix agent))"

definition check_control_plane_outside_container :: "agent_config \<Rightarrow> string \<Rightarrow> string \<Rightarrow> string \<Rightarrow> battery_check" where
  "check_control_plane_outside_container agent work_dir log_directory name =
     check_if name True
       (detect_container_run (spawn_command agent work_dir) = None \<or> \<not> is_relative_to log_directory work_dir)"

subsection \<open>Repository and prompts\<close>

text \<open>A killed query is an environmental failure; a git that cannot be started raises.\<close>

definition check_work_dir_is_git :: "'w startup_host \<Rightarrow> battery_check res" where
  "check_work_dir_is_git h =
     (case snd (is_git_repo (sh_git h) (sh_work_dir_is_dir h) (sh_repo h, [])) of
        Inr ok \<Rightarrow> Inr (check_if ''work_dir_is_git_repo'' True ok)
      | Inl (VcsRaised e) \<Rightarrow> Inl e
      | Inl e \<Rightarrow> Inr (check_failed_with ''work_dir_is_git_repo'' False))"

definition check_prompt_file :: "'w startup_host \<Rightarrow> full_config \<Rightarrow> battery_check" where
  "check_prompt_file h cfg =
     (let targets = (case pp_file (cf_prompt cfg) of None \<Rightarrow> [] | Some f \<Rightarrow> [f]) @ pp_files (cf_prompt cfg)
      in check_if ''prompt_file_exists'' True (targets \<noteq> [] \<and> sh_exists h (hd targets)))"

text \<open>The length of a Latin-1 text in UTF-8.\<close>

definition utf8_length :: "string \<Rightarrow> nat" where
  "utf8_length s = sum_list (map (\<lambda>c. if char_code c < 128 then 1 else 2) s)"

definition good_prompt :: "string \<Rightarrow> bool" where
  "good_prompt s \<longleftrightarrow> s \<noteq> [] \<and> hd s \<notin> set forbidden_first_chars \<and> min_prompt_bytes \<le> utf8_length s"

definition check_prompt_smoke :: "'w startup_host \<Rightarrow> full_config \<Rightarrow> string option \<Rightarrow> string \<Rightarrow> battery_check" where
  "check_prompt_smoke h cfg phase name =
     check_if name True
       (case assemble_prompt (sh_read h) (\<lambda>c :: unit. []) cfg phase None of
          Inl e \<Rightarrow> False
        | Inr (s, ws) \<Rightarrow> good_prompt s)"

definition check_phase_window_overlap :: "full_config \<Rightarrow> battery_check" where
  "check_phase_window_overlap cfg =
     check_if ''phase_window_overlap'' True (find_phase_window_overlaps (base_config cfg) = [])"

subsection \<open>The battery\<close>

definition phase_qualified :: "string \<Rightarrow> string option \<Rightarrow> string" where
  "phase_qualified base phase = (case phase of None \<Rightarrow> base | Some p \<Rightarrow> base @ '':'' @ p)"

definition phase_names :: "full_config \<Rightarrow> string list" where
  "phase_names cfg = (case pc_list (cf_phases cfg) of None \<Rightarrow> [] | Some ps \<Rightarrow> ps)"

definition agent_override_phases :: "full_config \<Rightarrow> string list" where
  "agent_override_phases cfg = filter (\<lambda>p.
     case pc_overrides (cf_phases cfg) p of None \<Rightarrow> False | Some ov \<Rightarrow> ov_agent ov \<noteq> None) (phase_names cfg)"

definition prompt_override_phases :: "full_config \<Rightarrow> string list" where
  "prompt_override_phases cfg =
     filter (\<lambda>p. pr_prompt_files (profile_for (base_config cfg) (Some p)) \<noteq> None) (phase_names cfg)"

definition base_checks :: "'w startup_host \<Rightarrow> full_config \<Rightarrow> battery_check list res" where
  "base_checks h cfg =
     res_bind (check_work_dir_is_git h) (\<lambda>g.
       Inr [check_passed ''config_loaded'', check_log_dir h, g, check_prompt_file h cfg,
            check_prompt_smoke h cfg None ''prompt_smoke_passes'', check_phase_window_overlap cfg])"

definition profile_checks :: "'w startup_host \<Rightarrow> full_config \<Rightarrow> string option \<Rightarrow> battery_check list" where
  "profile_checks h cfg phase =
     (let agent = pr_agent (profile_for (base_config cfg) phase); work_dir = rt_work_dir (cf_runtime cfg) in
      [check_agent_target h agent work_dir (phase_qualified ''agent_cli_in_path'' phase),
       check_stdin_container_interactive agent work_dir (phase_qualified ''stdin_container_interactive'' phase),
       check_control_plane_outside_container agent work_dir (rt_log_dir (cf_runtime cfg))
         (phase_qualified ''control_plane_outside_container'' phase)])"

definition phase_checks :: "'w startup_host \<Rightarrow> full_config \<Rightarrow> string \<Rightarrow> battery_check list" where
  "phase_checks h cfg p = [check_prompt_smoke h cfg (Some p) (phase_qualified ''prompt_smoke_passes'' (Some p))]"

definition skip_battery :: "'w startup_host \<Rightarrow> bool" where
  "skip_battery h \<longleftrightarrow>
     py_lower (case sh_skip h of None \<Rightarrow> [] | Some s \<Rightarrow> s) \<in> {''1'', ''true'', ''yes'', ''on''}"

definition run_battery :: "'w startup_host \<Rightarrow> full_config \<Rightarrow> battery_check list res" where
  "run_battery h cfg =
     (if skip_battery h then Inr []
      else res_bind (base_checks h cfg) (\<lambda>base.
        Inr (base @ concat (map (profile_checks h cfg) (None # map Some (agent_override_phases cfg)))
             @ concat (map (phase_checks h cfg) (prompt_override_phases cfg)))))"

definition battery_failures :: "battery_check list \<Rightarrow> battery_check list" where
  "battery_failures rs = filter (\<lambda>r. \<not> ck_ok r) rs"

definition battery_exit_code :: "battery_check list \<Rightarrow> int" where
  "battery_exit_code failures =
     (if list_ex ck_permanent failures then permanent_config_exit else env_battery_exit)"

subsection \<open>What a passed battery promises\<close>

lemma check_if_ok [simp]: "ck_ok (check_if name p ok) = ok"
  by (simp add: check_if_def check_passed_def check_failed_with_def)

lemma check_if_permanent [simp]: "ck_permanent (check_if name p ok) \<longleftrightarrow> p \<and> \<not> ok"
  by (simp add: check_if_def check_passed_def check_failed_with_def)

lemma check_agent_target_if:
  "check_agent_target h agent work_dir name = check_if name True (ac_command agent \<noteq> []
     \<and> resolve_exec_target (sh_which h) (hd (spawn_command agent work_dir)) work_dir (ac_env agent ''PATH''))"
  by (simp add: check_agent_target_def check_if_def)

text \<open>What an agent needs to be launched for a phase.\<close>

definition launchable :: "'w startup_host \<Rightarrow> full_config \<Rightarrow> string option \<Rightarrow> bool" where
  "launchable h cfg phase \<longleftrightarrow>
     (let agent = pr_agent (profile_for (base_config cfg) phase); work_dir = rt_work_dir (cf_runtime cfg);
          argv = spawn_command agent work_dir in
      ac_command agent \<noteq> []
      \<and> resolve_exec_target (sh_which h) (hd argv) work_dir (ac_env agent ''PATH'')
      \<and> (detect_container_run argv \<noteq> None \<longrightarrow>
           \<not> is_relative_to (rt_log_dir (cf_runtime cfg)) work_dir
           \<and> (ac_prompt_delivery agent = Stdin \<longrightarrow> exec_prefix_is_interactive (ac_exec_prefix agent))))"

definition promptable :: "'w startup_host \<Rightarrow> full_config \<Rightarrow> string option \<Rightarrow> bool" where
  "promptable h cfg phase \<longleftrightarrow>
     (\<exists>s ws. assemble_prompt (sh_read h) (\<lambda>c :: unit. []) cfg phase None = Inr (s, ws) \<and> good_prompt s)"

lemma profile_checks_ok: "(\<forall>r \<in> set (profile_checks h cfg phase). ck_ok r) \<longleftrightarrow> launchable h cfg phase"
  by (cases "detect_container_run (spawn_command (pr_agent (profile_for (base_config cfg) phase)) (rt_work_dir (cf_runtime cfg)))")
    (auto simp: profile_checks_def launchable_def Let_def check_agent_target_if
      check_stdin_container_interactive_def check_control_plane_outside_container_def)

lemma prompt_smoke_ok: "ck_ok (check_prompt_smoke h cfg phase name) \<longleftrightarrow> promptable h cfg phase"
  by (auto simp: check_prompt_smoke_def promptable_def split: sum.splits)

lemma profile_without_agent:
  "p \<in> set (phase_names cfg) \<Longrightarrow> p \<notin> set (agent_override_phases cfg) \<Longrightarrow>
     pr_agent (profile_for (base_config cfg) (Some p)) = pr_agent (profile_for (base_config cfg) None)"
  by (auto simp: agent_override_phases_def profile_for_def base_config_def config.defs split: option.splits)

lemma assemble_without_override:
  assumes "pr_prompt_files (profile_for (base_config cfg) phase) = None"
  shows "assemble_prompt read dumps cfg phase c = assemble_prompt read dumps cfg None c"
proof -
  have "pr_prompt_files (profile_for (base_config cfg) None) = None" by (simp add: profile_for_def)
  then show ?thesis using assms by (simp add: assemble_prompt_def prompt_files_of_def Let_def)
qed


text \<open>The phases a round may run: no phase, or one of the list.\<close>

definition round_phases :: "full_config \<Rightarrow> string option set" where
  "round_phases cfg = insert None (Some ` set (phase_names cfg))"

lemma all_profiles:
  "(\<forall>phase \<in> set (None # map Some (agent_override_phases cfg)). launchable h cfg phase)
     \<longleftrightarrow> (\<forall>phase \<in> round_phases cfg. launchable h cfg phase)"
proof
  assume a: "\<forall>phase \<in> set (None # map Some (agent_override_phases cfg)). launchable h cfg phase"
  have "launchable h cfg (Some p)" if "p \<in> set (phase_names cfg)" for p
  proof (cases "p \<in> set (agent_override_phases cfg)")
    case False
    then show ?thesis using a that by (simp add: launchable_def profile_without_agent)
  qed (use a in simp)
  then show "\<forall>phase \<in> round_phases cfg. launchable h cfg phase" using a by (auto simp: round_phases_def)
qed (auto simp: round_phases_def agent_override_phases_def)

lemma all_prompts:
  "promptable h cfg None \<and> (\<forall>p \<in> set (prompt_override_phases cfg). promptable h cfg (Some p))
     \<longleftrightarrow> (\<forall>phase \<in> round_phases cfg. promptable h cfg phase)"
proof
  assume a: "promptable h cfg None \<and> (\<forall>p \<in> set (prompt_override_phases cfg). promptable h cfg (Some p))"
  have "promptable h cfg (Some p)" if "p \<in> set (phase_names cfg)" for p
  proof (cases "p \<in> set (prompt_override_phases cfg)")
    case False
    then have "pr_prompt_files (profile_for (base_config cfg) (Some p)) = None"
      using that by (simp add: prompt_override_phases_def)
    then show ?thesis using a unfolding promptable_def by (simp add: assemble_without_override)
  qed (use a in simp)
  then show "\<forall>phase \<in> round_phases cfg. promptable h cfg phase" using a by (auto simp: round_phases_def)
qed (auto simp: round_phases_def prompt_override_phases_def)

text \<open>The static part of the battery: what a retry cannot change.\<close>

definition config_sound :: "'w startup_host \<Rightarrow> full_config \<Rightarrow> bool" where
  "config_sound h cfg \<longleftrightarrow> ck_ok (check_prompt_file h cfg) \<and> find_phase_window_overlaps (base_config cfg) = []
     \<and> (\<forall>phase \<in> round_phases cfg. launchable h cfg phase \<and> promptable h cfg phase)"

definition git_verdict :: "'w startup_host \<Rightarrow> vcs_error + bool" where
  "git_verdict h = snd (is_git_repo (sh_git h) (sh_work_dir_is_dir h) (sh_repo h, []))"

lemma battery_shape:
  assumes "run_battery h cfg = Inr rs" "\<not> skip_battery h"
  obtains g where "check_work_dir_is_git h = Inr g"
    "rs = [check_passed ''config_loaded'', check_log_dir h, g, check_prompt_file h cfg,
           check_prompt_smoke h cfg None ''prompt_smoke_passes'', check_phase_window_overlap cfg]
        @ concat (map (profile_checks h cfg) (None # map Some (agent_override_phases cfg)))
        @ concat (map (phase_checks h cfg) (prompt_override_phases cfg))"
  using assms by (auto simp: run_battery_def base_checks_def res_bind_Inr_iff)

lemma permanent_failures:
  "r \<in> set (profile_checks h cfg phase) \<or> r \<in> set (phase_checks h cfg p) \<Longrightarrow> ck_permanent r \<longleftrightarrow> \<not> ck_ok r"
  by (auto simp: profile_checks_def phase_checks_def Let_def check_agent_target_if
      check_stdin_container_interactive_def check_control_plane_outside_container_def check_prompt_smoke_def)

lemma phase_checks_ok: "(\<forall>r \<in> set (phase_checks h cfg p). ck_ok r) \<longleftrightarrow> promptable h cfg (Some p)"
  by (simp add: phase_checks_def prompt_smoke_ok)

lemma sound_checks:
  "config_sound h cfg \<longleftrightarrow> ck_ok (check_prompt_file h cfg)
     \<and> ck_ok (check_prompt_smoke h cfg None name) \<and> ck_ok (check_phase_window_overlap cfg)
     \<and> (\<forall>r \<in> set (concat (map (profile_checks h cfg) (None # map Some (agent_override_phases cfg)))). ck_ok r)
     \<and> (\<forall>r \<in> set (concat (map (phase_checks h cfg) (prompt_override_phases cfg))). ck_ok r)"
proof -
  have a: "(\<forall>r \<in> set (concat (map (profile_checks h cfg) ps)). ck_ok r) \<longleftrightarrow> (\<forall>p \<in> set ps. launchable h cfg p)" for ps
    using profile_checks_ok [of h cfg] by auto
  have b: "(\<forall>r \<in> set (concat (map (phase_checks h cfg) ps)). ck_ok r) \<longleftrightarrow> (\<forall>p \<in> set ps. promptable h cfg (Some p))" for ps
    using phase_checks_ok [of h cfg] by auto
  have c: "config_sound h cfg \<longleftrightarrow> ck_ok (check_prompt_file h cfg) \<and> ck_ok (check_phase_window_overlap cfg)
     \<and> (\<forall>phase \<in> round_phases cfg. launchable h cfg phase) \<and> (\<forall>phase \<in> round_phases cfg. promptable h cfg phase)"
    by (auto simp: config_sound_def check_phase_window_overlap_def)
  show ?thesis unfolding a b c prompt_smoke_ok all_profiles [symmetric] all_prompts [symmetric] by blast
qed

lemma git_check:
  "check_work_dir_is_git h = Inr g \<Longrightarrow>
     (ck_ok g \<longleftrightarrow> git_verdict h = Inr True) \<and> (ck_permanent g \<longleftrightarrow> git_verdict h = Inr False)"
  by (auto simp: check_work_dir_is_git_def git_verdict_def check_failed_with_def split: sum.splits vcs_error.splits)

text \<open>C19: what the boot battery decides. It passes exactly when the log directory can be written, git
  recognises the work tree, the first prompt file exists, no two phases overlap, and for every phase
  a round may run (not only those with settings of their own) the executable resolves, a container
  neither mounts the control files nor drops a prompt sent on its input, and the prompt assembles
  to a text long enough that no argument parser takes for a flag. A battery that fails ends the
  round with the permanent exit code exactly when one of the static conditions fails or git
  answered that this is no work tree, and with the environmental code otherwise.\<close>

theorem battery_exact:
  assumes run: "run_battery h cfg = Inr rs" and on: "\<not> skip_battery h"
  shows "(battery_failures rs = [] \<longleftrightarrow> sh_log_dir_writable h \<and> git_verdict h = Inr True \<and> config_sound h cfg)
    \<and> (battery_exit_code (battery_failures rs) = permanent_config_exit
         \<longleftrightarrow> \<not> config_sound h cfg \<or> git_verdict h = Inr False)"
proof -
  obtain g where g: "check_work_dir_is_git h = Inr g"
    and rs: "rs = [check_passed ''config_loaded'', check_log_dir h, g, check_prompt_file h cfg,
           check_prompt_smoke h cfg None ''prompt_smoke_passes'', check_phase_window_overlap cfg]
        @ concat (map (profile_checks h cfg) (None # map Some (agent_override_phases cfg)))
        @ concat (map (phase_checks h cfg) (prompt_override_phases cfg))"
    by (rule battery_shape [OF run on])
  let ?ps = "concat (map (profile_checks h cfg) (None # map Some (agent_override_phases cfg)))"
  let ?qs = "concat (map (phase_checks h cfg) (prompt_override_phases cfg))"
  let ?f = "check_prompt_file h cfg" let ?p = "check_prompt_smoke h cfg None ''prompt_smoke_passes''"
  let ?w = "check_phase_window_overlap cfg"
  note sound = sound_checks [of h cfg "''prompt_smoke_passes''"]
  note git = git_check [OF g]
  have l: "ck_ok (check_log_dir h) = sh_log_dir_writable h" "\<not> ck_permanent (check_log_dir h)"
    by (simp_all add: check_log_dir_def)
  have st: "ck_permanent ?f \<longleftrightarrow> \<not> ck_ok ?f" "ck_permanent ?p \<longleftrightarrow> \<not> ck_ok ?p" "ck_permanent ?w \<longleftrightarrow> \<not> ck_ok ?w"
    by (simp_all add: check_prompt_file_def check_prompt_smoke_def check_phase_window_overlap_def Let_def)
  have pq: "\<forall>r \<in> set ?ps \<union> set ?qs. ck_permanent r \<longleftrightarrow> \<not> ck_ok r"
    using permanent_failures by fastforce
  have "battery_failures rs = [] \<longleftrightarrow> (\<forall>r \<in> set rs. ck_ok r)"
    by (auto simp: battery_failures_def filter_empty_conv)
  also have "\<dots> \<longleftrightarrow> ck_ok (check_log_dir h) \<and> ck_ok g \<and> config_sound h cfg"
    unfolding rs sound by (auto simp: check_passed_def)
  finally have pass: "battery_failures rs = [] \<longleftrightarrow> sh_log_dir_writable h \<and> git_verdict h = Inr True \<and> config_sound h cfg"
    using l git by simp
  have "battery_exit_code (battery_failures rs) = permanent_config_exit \<longleftrightarrow> (\<exists>r \<in> set rs. \<not> ck_ok r \<and> ck_permanent r)"
    by (auto simp: battery_exit_code_def battery_failures_def list_ex_iff exit_codes)
  also have "\<dots> \<longleftrightarrow> (\<not> ck_ok g \<and> ck_permanent g) \<or> \<not> ck_ok ?f \<or> \<not> ck_ok ?p \<or> \<not> ck_ok ?w
      \<or> (\<exists>r \<in> set ?ps. \<not> ck_ok r) \<or> (\<exists>r \<in> set ?qs. \<not> ck_ok r)"
    unfolding rs using l st pq by (auto simp: check_passed_def)
  also have "\<dots> \<longleftrightarrow> \<not> config_sound h cfg \<or> git_verdict h = Inr False"
    unfolding sound using git by auto
  finally show ?thesis using pass by simp
qed

subsection \<open>A phase that sends no prompt\<close>

text \<open>The loader accepts \<open>prompt.files = []\<close> for a phase and lets its agent go without a \<open>{prompt}\<close>
  token; the battery then refuses the configuration for good, whatever the host.\<close>

lemma empty_prompt_not_promptable:
  assumes "load_config hf resolve entries rg toml_path toml_dir raw = Inr (cfg, rg', warned)"
    and "pr_prompt_files (profile_for (base_config cfg) phase) = Some []"
  shows "\<not> promptable h cfg phase"
proof -
  have wf: "wf_prompt (cf_prompt cfg)"
    using load_config_Inr [OF assms(1)] parse_config_wf unfolding wf_config_def by blast
  have "configured_files cfg phase = []" using configured_files_Nil [OF wf] assms(2) by blast
  then show ?thesis
    by (simp add: promptable_def assemble_prompt_def Let_def prompt_files_of_wf [OF wf] load_prompt_def)
qed

lemma empty_prompt_phase_refused:
  assumes accepted: "load_config hf resolve entries rg toml_path toml_dir raw = Inr (cfg, rg', warned)"
    and phase: "p \<in> set (phase_names cfg)" "pr_prompt_files (profile_for (base_config cfg) (Some p)) = Some []"
    and run: "run_battery h cfg = Inr rs" "\<not> skip_battery h"
  shows "battery_failures rs \<noteq> [] \<and> battery_exit_code (battery_failures rs) = permanent_config_exit"
proof -
  have "\<not> promptable h cfg (Some p)" by (rule empty_prompt_not_promptable [OF accepted phase(2)])
  moreover have p: "p \<in> set (prompt_override_phases cfg)" using phase by (simp add: prompt_override_phases_def)
  ultimately obtain r where r: "r \<in> set (phase_checks h cfg p)" "\<not> ck_ok r"
    using phase_checks_ok [of h cfg p] by blast
  then have perm: "ck_permanent r" using permanent_failures by blast
  have "r \<in> set rs" by (rule battery_shape [OF run]) (use r(1) p in auto)
  then have "r \<in> set (battery_failures rs)" using r(2) by (simp add: battery_failures_def)
  then show ?thesis using perm by (auto simp: battery_exit_code_def list_ex_iff)
qed

subsection \<open>A concrete host\<close>

definition example_boot_host :: "(nat \<times> bool) startup_host" where
  "example_boot_host =
     \<lparr>sh_log_dir_writable = True, sh_which = (\<lambda>c p. True), sh_exists = (\<lambda>f. True),
      sh_read = (\<lambda>f. ReadText (replicate 500 (CHR ''x''))),
      sh_git = \<lparr>gh_git = (\<lambda>w args t. (w, GitDone 0 ''true'' [])), gh_lock = snd, gh_unlock = (\<lambda>w. w), gh_lock_path = []\<rparr>,
      sh_repo = (0, False), sh_work_dir_is_dir = True, sh_skip = None\<rparr>"

lemma example_battery:
  "(case carve_out_load of Inl e \<Rightarrow> False
    | Inr (cfg, r) \<Rightarrow> (case run_battery example_boot_host cfg of Inl e \<Rightarrow> False
        | Inr rs \<Rightarrow> map ck_name (battery_failures rs) = [''prompt_smoke_passes:dev'']))
   \<and> (case example_load (TStr ''prepend'') of Inl e \<Rightarrow> False
    | Inr (cfg, r) \<Rightarrow> (case run_battery example_boot_host cfg of Inl e \<Rightarrow> False | Inr rs \<Rightarrow> battery_failures rs = []))"
  by code_simp

lemma battery_exact_witness:
  "\<exists>cfg r rs. example_load (TStr ''prepend'') = Inr (cfg, r) \<and> run_battery example_boot_host cfg = Inr rs
     \<and> battery_failures rs = [] \<and> config_sound example_boot_host cfg"
proof -
  obtain cfg r rs where c: "example_load (TStr ''prepend'') = Inr (cfg, r)" "run_battery example_boot_host cfg = Inr rs"
      "battery_failures rs = []"
    using example_battery by (auto split: sum.splits prod.splits)
  have "\<not> skip_battery example_boot_host" by (simp add: skip_battery_def example_boot_host_def py_lower_def)
  then have "config_sound example_boot_host cfg" using battery_exact [OF c(2)] c(3) by blast
  then show ?thesis using c by blast
qed

end
