(* ===== verification/Round_Runner.thy ===== *)
theory Round_Runner
  imports Serve_Loop Agent_Runtime Round_Log Startup_Check Goal
begin

section \<open>One round (agent\_runner/runner.py, cli/round\_cmd.py)\<close>

text \<open>
  The round child: what it takes from the environment serve published, the lock, the sequence of a
  round with everything that may raise in it, the post-round hooks, and the exit code of the
  process. The agent's run (theory \<open>Agent_Runtime\<close>) is a function from the arguments the runner
  passes to a result or an exception; git is the host of \<open>Vcs_State\<close>. What a round does is the list
  of its acts; every act that writes may raise, as \<open>rn_fault\<close> says by its position.
\<close>

subsection \<open>The environment\<close>

definition resolve_round_num :: "round_env \<Rightarrow> int \<Rightarrow> string list \<Rightarrow> int" where
  "resolve_round_num env status_num names =
     (case env ''AGENT_RUNNER_ROUND_NUM'' of
        None \<Rightarrow> next_round_num status_num names
      | Some raw \<Rightarrow> (case py_int_of_str (py_strip raw) of Some n \<Rightarrow> n | None \<Rightarrow> next_round_num status_num names))"

definition resolve_reap_grace :: "round_env \<Rightarrow> int" where
  "resolve_reap_grace env =
     (case env ''AGENT_RUNNER_REAP_GRACE_S'' of
        None \<Rightarrow> reap_grace_s
      | Some raw \<Rightarrow> (case py_int_of_str (py_strip raw) of
                       Some n \<Rightarrow> if n > 0 then n else reap_grace_s
                     | None \<Rightarrow> reap_grace_s))"

definition resolve_child_signal :: "round_env \<Rightarrow> posix_signal" where
  "resolve_child_signal env =
     (case cooperative_signal_from_name (env ''AGENT_RUNNER_COOPERATIVE_STOP_SIGNAL'') of
        Some s \<Rightarrow> s | None \<Rightarrow> SIGTERM)"

definition resolve_resume_args :: "round_env \<Rightarrow> string list" where
  "resolve_resume_args env =
     (case (env ''AGENT_RUNNER_RESUME_FLAG'', env ''AGENT_RUNNER_RESUME_SESSION_ID'') of
        (Some flag, Some sid) \<Rightarrow> if flag \<noteq> [] \<and> sid \<noteq> [] then [flag, sid] else []
      | _ \<Rightarrow> [])"

text \<open>C8: the child uses what serve decided. In every round the supervisor launches, the child reads
  back the round number of that round, the grace and the first signal serve resolved for the
  phase, and the resume flag with the session of the phase exactly when serve meant the phase to
  resume; nothing is derived a second time.\<close>

theorem child_agrees_with_serve:
  assumes run: "serve_loop h boot its (serve_start d os_env logd) = Some (e, ls, st')" and la: "la \<in> set ls"
    and n: "0 \<le> la_round_num la" "la_round_num la < 10 ^ int_max_str_digits"
    and g: "0 < resolve_grace (sv_registries boot) (sv_cfg boot) (la_phase la)"
      "resolve_grace (sv_registries boot) (sv_cfg boot) (la_phase la) < 10 ^ int_max_str_digits"
  shows "resolve_round_num (la_env la) status_num names = la_round_num la
    \<and> resolve_reap_grace (la_env la) = resolve_grace (sv_registries boot) (sv_cfg boot) (la_phase la)
    \<and> resolve_child_signal (la_env la)
        = (case resolve_cooperative_signal (sv_registries boot) (agent_of_phase (sv_cfg boot) (la_phase la)) of
             None \<Rightarrow> SIGTERM | Some s \<Rightarrow> s)
    \<and> (if resumable boot (la_phase la)
       then \<exists>sid. la_env la ''AGENT_RUNNER_RESUME_SESSION_ID'' = Some sid
              \<and> resolve_resume_args (la_env la) =
                 (let flag = the (resolve_resume_flag (sv_registries boot) (agent_of_phase (sv_cfg boot) (la_phase la)))
                  in if flag \<noteq> [] \<and> sid \<noteq> [] then [flag, sid] else [])
       else resolve_resume_args (la_env la) = [])"
proof -
  obtain it ids env where e: "la_env la = published boot it (la_phase la) (la_fresh la) ids env"
      "la_round_num la = it_round_num it"
    using serve_loop_env [OF run la] by blast
  have s: "cooperative_signal_from_name (Some (signal_name s)) = Some s" for s
    by (cases s) (simp_all add: cooperative_signal_from_name_def cooperative_signals_def signal_name_def)
  have r: "resolve_round_num (la_env la) status_num names = la_round_num la"
    using n int_of_printed [OF n] by (simp add: resolve_round_num_def e(1) published_lookup e(2) [symmetric])
  have k: "resolve_reap_grace (la_env la) = resolve_grace (sv_registries boot) (sv_cfg boot) (la_phase la)"
    using g int_of_printed [OF less_imp_le [OF g(1)] g(2)] by (simp add: resolve_reap_grace_def e(1) published_lookup)
  have c: "resolve_child_signal (la_env la)
        = (case resolve_cooperative_signal (sv_registries boot) (agent_of_phase (sv_cfg boot) (la_phase la)) of
             None \<Rightarrow> SIGTERM | Some s \<Rightarrow> s)"
    by (simp add: resolve_child_signal_def e(1) published_lookup cooperative_signal_name_def s)
  show ?thesis
  proof (cases "resumable boot (la_phase la)")
    case True
    then obtain flag where "resolve_resume_flag (sv_registries boot) (agent_of_phase (sv_cfg boot) (la_phase la)) = Some flag"
      by (auto simp: resumable_def)
    then show ?thesis using r k c True by (simp add: resolve_resume_args_def e(1) published_lookup)
  next
    case False
    then show ?thesis using r k c by (simp add: resolve_resume_args_def e(1) published_lookup)
  qed
qed

lemma child_agrees_with_serve_witness:
  "\<exists>la st'. serve_loop example_host example_boot [example_iteration 78] (serve_start ''logs'' Map.empty [])
     = Some (ServeExit 78, [la], st') \<and> resolve_round_num (la_env la) 0 [] = la_round_num la"
proof -
  obtain la st' where r: "serve_loop example_host example_boot [example_iteration 78] (serve_start ''logs'' Map.empty [])
     = Some (ServeExit 78, [la], st')" "la_phase la = None" using example_served by blast
  have la: "la \<in> set [la]" by simp
  have big: "x < 10 ^ int_max_str_digits" if "x < 100" for x :: int
  proof -
    have "(10::int) ^ 2 \<le> 10 ^ int_max_str_digits" by (rule power_increasing) (simp_all add: int_max_str_digits_def)
    then show ?thesis using that by simp
  qed
  have num: "la_round_num la = it_round_num (example_iteration 78)"
    using serve_loop_env [OF r(1) la] by auto
  have g: "resolve_grace (sv_registries example_boot) (sv_cfg example_boot) None = 10" by code_simp
  have n: "it_round_num (example_iteration 78) = 1" by (simp add: example_iteration_def)
  have "resolve_round_num (la_env la) 0 [] = la_round_num la"
    using child_agrees_with_serve [OF r(1) la] num n g r(2) big by simp
  then show ?thesis using r(1) by blast
qed

subsection \<open>The context of a round\<close>

record previous_block =
  pv_exit_code :: pyval
  pv_duration_s :: pyval
  pv_ended_at :: pyval
  pv_had_dirty_tree :: bool

definition previous_block_of :: "status option \<Rightarrow> bool \<Rightarrow> previous_block option" where
  "previous_block_of prev dirty_last = map_option (\<lambda>s.
     \<lparr>pv_exit_code = st_last_exit_code s, pv_duration_s = st_last_duration_s s,
      pv_ended_at = st_last_completed_at s, pv_had_dirty_tree = dirty_last\<rparr>) prev"

record orphan_block =
  ob_ref :: pyval
  ob_message :: pyval
  ob_files :: pyval

definition orphan_block_of :: "orphan_state option \<Rightarrow> orphan_block option" where
  "orphan_block_of orphan =
     (case orphan of
        Some st \<Rightarrow> if py_truthy (or_stashed_ref st)
          then Some \<lparr>ob_ref = or_stashed_ref st, ob_message = or_stash_message st, ob_files = or_files st\<rparr> else None
      | None \<Rightarrow> None)"

record round_context =
  rc_round_num :: int
  rc_started_at :: string
  rc_phase :: "string option"
  rc_orphan :: "orphan_block option"
  rc_previous :: "previous_block option"

subsection \<open>How a round ended\<close>

record run_result =
  rr_exit_code :: int
  rr_duration_s :: real
  rr_timed_out :: bool
  rr_killed_for_grace :: bool

definition run_ok :: "run_result \<Rightarrow> bool" where
  "run_ok r \<longleftrightarrow> rr_exit_code r = 0 \<and> \<not> rr_timed_out r"

definition exit_cause :: "(int \<Rightarrow> string option) \<Rightarrow> run_result \<Rightarrow> string" where
  "exit_cause sig_name r =
     (if rr_killed_for_grace r then ''grace_kill''
      else if rr_timed_out r then ''timeout''
      else case signal_name_of sig_name (rr_exit_code r) of
             Some s \<Rightarrow> ''signal:'' @ s
           | None \<Rightarrow> if rr_exit_code r = 0 then ''clean'' else ''error'')"

text \<open>\<open>search\<close> is the network pattern's search in the text of the log, if there is a log.\<close>

definition network_blip :: "(int \<Rightarrow> string option) \<Rightarrow> (string \<Rightarrow> string option) \<Rightarrow> string option \<Rightarrow> run_result \<Rightarrow> string option" where
  "network_blip sig_name search log_text r =
     (if run_ok r then None
      else if signal_name_of sig_name (rr_exit_code r) \<noteq> None then None
      else case log_text of None \<Rightarrow> None | Some t \<Rightarrow> search t)"

subsection \<open>The error of a hook\<close>

definition trunc_marker :: string where
  "trunc_marker = [nl] @ ''... [truncated] ...'' @ [nl]"

definition cap_redacted :: "(string \<Rightarrow> string) \<Rightarrow> string \<Rightarrow> nat \<Rightarrow> string" where
  "cap_redacted redact s n =
     (let r = redact s in
      if length r \<le> n then r
      else let h = n div 2; t = n - h in take h r @ trunc_marker @ drop (length r - t) r)"

definition summarize_error :: "(string \<Rightarrow> string) \<Rightarrow> string \<Rightarrow> string \<Rightarrow> string \<Rightarrow> (string \<times> pyval) list" where
  "summarize_error redact error_type message tb =
     [(''error_type'', PStr error_type), (''error_message'', PStr (cap_redacted redact message 1024)),
      (''traceback'', PStr (cap_redacted redact tb (1024 + 1024)))]"

subsection \<open>Acts and exceptions of a round\<close>

datatype agent_outcome = AgentReturned run_result | AgentFailed py_error | AgentInterrupted

datatype hook_outcome = HookReturned | HookRaised string string string | HookInterrupted

datatype round_exn =
    PyRaised py_error
  | VcsFailed vcs_error
  | LockHeld
  | Interrupted
  | Exited int

text \<open>The arguments of \<open>agent_runtime.run\<close> that the runner computes.\<close>

record agent_call =
  gc_argv :: "string list"
  gc_prompt :: string
  gc_budget :: int
  gc_env :: round_env
  gc_reap_grace :: int
  gc_signal :: posix_signal
  gc_resume :: "string list"

record round_report =
  re_round_num :: int
  re_phase :: "string option"
  re_started_at :: string
  re_ended_at :: string
  re_run :: run_result
  re_dirty :: "string list"
  re_outcome :: "dirty_outcome option"

definition result_stashed :: "round_report \<Rightarrow> bool" where
  "result_stashed r \<longleftrightarrow> (case re_outcome r of Some (DirtyStashed sha) \<Rightarrow> True | _ \<Rightarrow> False)"

datatype round_act =
    TookLock | RemovedSidecar | ReleasedLock
  | Emitted string "string list" "(string \<times> pyval) list"
  | Pruned "string list"
  | WroteContext round_context
  | Steered bool
  | Metrics string
  | RanAgent agent_call
  | Checked
  | VcsDid vcs_act
  | ClearedOrphan
  | WroteStatus status
  | RanHook string

type_synonym 'w round_state = "'w \<times> round_act list"

type_synonym ('w, 'a) rm = "('w round_state, round_exn, 'a) em"

record 'w round_host =
  rn_cfg :: full_config
  rn_env :: round_env
  rn_fault :: "nat \<Rightarrow> round_exn option"
  rn_lock_free :: bool
  rn_boot :: "'w startup_host"
  rn_status_exists :: bool
  rn_status :: "json_doc option"
  rn_orphan :: "json_doc option"
  rn_log_names :: "string list"
  rn_rounds :: "string list option"
  rn_unlink :: "string \<Rightarrow> py_error option"
  rn_started :: string
  rn_completed :: string
  rn_dumps :: "round_context \<Rightarrow> string"
  rn_steering :: "int \<Rightarrow> bool res"
  rn_start_fields :: "string option \<Rightarrow> int \<Rightarrow> (string \<times> pyval) list"
  rn_agent :: "agent_call \<Rightarrow> agent_outcome"
  rn_checks_escape :: "round_exn option"
  rn_log_text :: "string option"
  rn_search :: "string \<Rightarrow> string option"
  rn_sig_name :: "int \<Rightarrow> string option"
  rn_git :: "'w git_host"
  rn_now :: real
  rn_stash_ts :: string
  rn_stamp :: string
  rn_place :: log_place
  rn_redact :: "string \<Rightarrow> string"
  rn_hooks :: "(string \<times> (round_report \<Rightarrow> hook_outcome)) list"

text \<open>An act: it raises instead when the host says so.\<close>

definition ract :: "'w round_host \<Rightarrow> round_act \<Rightarrow> ('w, unit) rm" where
  "ract h a = (\<lambda>(w, acts). case rn_fault h (length acts) of
     Some e \<Rightarrow> ((w, acts), Inl e) | None \<Rightarrow> ((w, acts @ [a]), Inr ()))"

definition rres :: "'a res \<Rightarrow> ('w, 'a) rm" where
  "rres r = (case r of Inl e \<Rightarrow> eraise (PyRaised e) | Inr x \<Rightarrow> eret x)"

text \<open>A git operation inside the round.\<close>

definition rvcs :: "('w, 'a) vm \<Rightarrow> ('w, 'a) rm" where
  "rvcs m = (\<lambda>(w, acts). case m (w, []) of
     ((w', vacts), r) \<Rightarrow> ((w', acts @ map VcsDid vacts), case r of Inl e \<Rightarrow> Inl (VcsFailed e) | Inr x \<Rightarrow> Inr x))"

definition emits :: "'w round_host \<Rightarrow> string \<Rightarrow> (string \<times> pyval) list \<Rightarrow> ('w, unit) rm" where
  "emits h kind fs = ract h (Emitted kind [] fs)"

subsection \<open>Before the agent\<close>

definition prune_rounds :: "'w round_host \<Rightarrow> ('w, unit) rm" where
  "prune_rounds h =
     (let keep = nat (rt_round_log_retention (cf_runtime (rn_cfg h))) in
      case prune_rounds_dir (rn_unlink h) keep (rn_rounds h) of
        (gone, Inl e) \<Rightarrow> ethen (ract h (Pruned gone)) (eraise (PyRaised e))
      | (gone, Inr o') \<Rightarrow>
          ethen (ract h (Pruned gone))
            (if pr_deferred o' \<noteq> 0
             then emits h ''round_logs_prune_deferred''
               [(''existing'', PInt (int (pr_existing o'))), (''keep'', PInt (int keep)),
                (''would_delete'', PInt (int (pr_deferred o')))]
             else eret ()))"

definition steer_goal :: "'w round_host \<Rightarrow> int \<Rightarrow> ('w, unit) rm" where
  "steer_goal h round_num =
     (if cf_goal (rn_cfg h) = None then eret ()
      else ebind (rres (rn_steering h round_num)) (\<lambda>skipped. ract h (Steered skipped)))"

definition agent_call_of :: "'w round_host \<Rightarrow> int \<Rightarrow> string option \<Rightarrow> string \<Rightarrow> agent_call" where
  "agent_call_of h round_num phase prompt =
     (let cfg = rn_cfg h; pr = profile_for (base_config cfg) phase; agent = pr_agent pr; rt = cf_runtime cfg in
      \<lparr>gc_argv = spawn_command agent (rt_work_dir rt), gc_prompt = prompt,
       gc_budget = rt_round_budget_s (pr_runtime pr),
       gc_env = [''AGENT_RUNNER_LOG_DIR'' \<mapsto> rt_log_dir rt, ''AGENT_RUNNER_ROUND_NUM'' \<mapsto> int_digits round_num,
                 ''AGENT_RUNNER_PHASE'' \<mapsto> (case phase of None \<Rightarrow> [] | Some p \<Rightarrow> p)] ++ ac_env agent,
       gc_reap_grace = resolve_reap_grace (rn_env h), gc_signal = resolve_child_signal (rn_env h),
       gc_resume = resolve_resume_args (rn_env h)\<rparr>)"

definition run_the_agent :: "'w round_host \<Rightarrow> agent_call \<Rightarrow> ('w, run_result) rm" where
  "run_the_agent h c =
     ethen (ract h (RanAgent c))
       (case rn_agent h c of
          AgentReturned r \<Rightarrow> eret r | AgentFailed e \<Rightarrow> eraise (PyRaised e) | AgentInterrupted \<Rightarrow> eraise Interrupted)"

definition context_of ::
  "'w round_host \<Rightarrow> int \<Rightarrow> string option \<Rightarrow> status option \<Rightarrow> orphan_state option \<Rightarrow> round_context" where
  "context_of h n phase prev orphan =
     \<lparr>rc_round_num = n, rc_started_at = rn_started h, rc_phase = phase,
      rc_orphan = orphan_block_of orphan, rc_previous = previous_block_of prev (orphan \<noteq> None)\<rparr>"

subsection \<open>After the agent\<close>

definition report_exit :: "'w round_host \<Rightarrow> int \<Rightarrow> run_result \<Rightarrow> ('w, unit) rm" where
  "report_exit h n r = emits h ''agent_exit''
     [(''round_num'', PInt n), (''exit_code'', PInt (rr_exit_code r)), (''duration_s'', PFloat (rr_duration_s r) []),
      (''timed_out'', PBool (rr_timed_out r)), (''exit_cause'', PStr (exit_cause (rn_sig_name h) r))]"

definition check_goals :: "'w round_host \<Rightarrow> ('w, unit) rm" where
  "check_goals h =
     (if cf_goal (rn_cfg h) = None then eret ()
      else ethen (ract h Checked) (case rn_checks_escape h of Some e \<Rightarrow> eraise e | None \<Rightarrow> eret ()))"

definition report_blip :: "'w round_host \<Rightarrow> int \<Rightarrow> string option \<Rightarrow> run_result \<Rightarrow> ('w, unit) rm" where
  "report_blip h n phase r =
     (case network_blip (rn_sig_name h) (rn_search h) (rn_log_text h) r of
        None \<Rightarrow> eret ()
      | Some m \<Rightarrow> emits h ''agent_network_blip''
          [(''round_num'', PInt n), (''phase'', opt_str phase), (''matched'', PStr m),
           (''round_duration_s'', PFloat (rr_duration_s r) []), (''exit_code'', PInt (rr_exit_code r)),
           (''timed_out'', PBool (rr_timed_out r))])"

text \<open>The dirty files, and whether the query was killed.\<close>

definition find_dirty :: "'w round_host \<Rightarrow> int \<Rightarrow> ('w, string list \<times> bool) rm" where
  "find_dirty h n =
     etry (ebind (rvcs (detect_dirty_files (rn_git h))) (\<lambda>d. eret (d, False)))
       (\<lambda>e. case e of
          VcsFailed (GitTimeout m) \<Rightarrow>
            ethen (emits h ''dirty_check_failed'' [(''round_num'', PInt n), (''reason'', PStr (take 200 m))])
              (eret ([], True))
        | _ \<Rightarrow> eraise e)"

definition dispatch_dirty ::
  "'w round_host \<Rightarrow> int \<Rightarrow> string option \<Rightarrow> run_result \<Rightarrow> string list \<Rightarrow> bool \<Rightarrow> ('w, dirty_outcome option) rm" where
  "dispatch_dirty h n phase r dirty failed =
     (if dirty \<noteq> [] \<and> (run_ok r \<or> rr_killed_for_grace r)
      then ebind (rvcs (resolve_dirty_tree (rn_git h) (rn_now h) (rn_stash_ts h) (rn_stamp h)
               (vc_dirty_action (cf_vcs (rn_cfg h))) n phase (vc_stash_idempotency_s (cf_vcs (rn_cfg h))) (rn_place h) dirty))
             (\<lambda>x. eret (Some x))
      else if dirty = [] \<and> \<not> failed then ethen (ract h ClearedOrphan) (eret None)
      else eret None)"

definition report_kill :: "'w round_host \<Rightarrow> int \<Rightarrow> int \<Rightarrow> run_result \<Rightarrow> ('w, unit) rm" where
  "report_kill h n budget r =
     (if rr_killed_for_grace r
      then emits h ''round_grace_kill''
        [(''round_num'', PInt n), (''grace_s'', PInt (rt_max_grace_after_result_s (cf_runtime (rn_cfg h))))]
      else if rr_timed_out r
      then emits h ''round_timeout_kill''
        [(''round_num'', PInt n), (''reason'', PStr (''exceeded round_budget_s='' @ int_digits budget))]
      else eret ())"

definition status_of :: "'w round_host \<Rightarrow> int \<Rightarrow> string option \<Rightarrow> nat \<Rightarrow> run_result \<Rightarrow> status" where
  "status_of h n phase idx r =
     \<lparr>st_round_num = n, st_running = PBool False, st_last_completed_at = PStr (rn_completed h),
      st_last_exit_code = PInt (rr_exit_code r), st_last_duration_s = PFloat (rr_duration_s r) [],
      st_current_phase = opt_str phase, st_phase_index = PInt (int idx)\<rparr>"

definition run_hook ::
  "'w round_host \<Rightarrow> round_report \<Rightarrow> string \<times> (round_report \<Rightarrow> hook_outcome) \<Rightarrow> ('w, unit) rm" where
  "run_hook h res hk =
     ethen (ract h (RanHook (fst hk)))
       (case snd hk res of
          HookReturned \<Rightarrow> eret ()
        | HookRaised ty msg tb \<Rightarrow>
            emits h ''hook_failed''
              ([(''hook_name'', PStr (fst hk)), (''hook_kind'', PStr ''post_round'')] @ summarize_error (rn_redact h) ty msg tb)
        | HookInterrupted \<Rightarrow> eraise Interrupted)"

fun run_post_round_hooks ::
  "'w round_host \<Rightarrow> round_report \<Rightarrow> (string \<times> (round_report \<Rightarrow> hook_outcome)) list \<Rightarrow> ('w, unit) rm" where
  "run_post_round_hooks h res [] = eret ()"
| "run_post_round_hooks h res (hk # hks) = ethen (run_hook h res hk) (run_post_round_hooks h res hks)"

subsection \<open>The round\<close>

definition open_round ::
  "'w round_host \<Rightarrow> status option \<Rightarrow> orphan_state option \<Rightarrow> int \<Rightarrow> string option \<Rightarrow> ('w, unit) rm" where
  "open_round h prev orphan n phase =
     ethen (prune_rounds h)
    (ethen (ract h (WroteContext (context_of h n phase prev orphan)))
    (ethen (steer_goal h n)
    (ethen (ract h (Emitted ''round_start'' [] (rn_start_fields h phase n)))
           (ract h (Metrics ''round_start'')))))"

definition launch_round :: "'w round_host \<Rightarrow> round_context \<Rightarrow> int \<Rightarrow> string option \<Rightarrow> ('w, run_result) rm" where
  "launch_round h ctx n phase =
     ebind (rres (assemble_prompt (sh_read (rn_boot h)) (rn_dumps h) (rn_cfg h) phase (Some ctx))) (\<lambda>(prompt, ws).
       let c = agent_call_of h n phase prompt in
       ethen (emits h ''agent_spawn'' [(''round_num'', PInt n), (''timeout_s'', PInt (gc_budget c))])
      (ebind (run_the_agent h c) (\<lambda>r. ethen (report_exit h n r) (eret r))))"

definition settle_round :: "'w round_host \<Rightarrow> int \<Rightarrow> string option \<Rightarrow> run_result \<Rightarrow> ('w, string list \<times> dirty_outcome option) rm" where
  "settle_round h n phase r =
     ethen (check_goals h)
    (ethen (report_blip h n phase r)
    (ebind (find_dirty h n) (\<lambda>(dirty, failed).
       ethen (if dirty = [] then eret () else ract h (Emitted ''dirty_detected'' (take 20 dirty) [(''round_num'', PInt n)]))
      (ebind (dispatch_dirty h n phase r dirty failed) (\<lambda>outcome. eret (dirty, outcome))))))"

definition close_round :: "'w round_host \<Rightarrow> int \<Rightarrow> string option \<Rightarrow> nat \<Rightarrow> run_result \<Rightarrow> round_report \<Rightarrow> ('w, unit) rm" where
  "close_round h n phase idx r res =
     ethen (report_kill h n (rt_round_budget_s (pr_runtime (profile_for (base_config (rn_cfg h)) phase))) r)
    (ethen (ract h (WroteStatus (status_of h n phase idx r)))
    (ethen (ract h (Metrics ''round_end''))
    (ethen (emits h ''round_end'' [(''round_num'', PInt n)])
           (run_post_round_hooks h res (rn_hooks h)))))"

definition run_one_round_inner :: "'w round_host \<Rightarrow> string option \<Rightarrow> ('w, round_report) rm" where
  "run_one_round_inner h override =
     (let prev = read_status (rn_status h) in
      ethen (if rn_status_exists h \<and> prev = None
             then emits h ''status_recovered'' [(''reason'', PStr ''status.json could not be parsed'')] else eret ())
        (let n = resolve_round_num (rn_env h) (read_round_num prev) (rn_log_names h);
             orphan = read_orphan_state (rn_orphan h) in
         ebind (rres (phase_for n (pc_list (cf_phases (rn_cfg h))) override)) (\<lambda>(phase, idx).
         ethen (open_round h prev orphan n phase)
        (ebind (launch_round h (context_of h n phase prev orphan) n phase) (\<lambda>r.
         ebind (settle_round h n phase r) (\<lambda>(dirty, outcome).
           let res = \<lparr>re_round_num = n, re_phase = phase, re_started_at = rn_started h, re_ended_at = rn_completed h,
                      re_run = r, re_dirty = dirty, re_outcome = outcome\<rparr> in
           ethen (close_round h n phase idx r res) (eret res)))))))"

text \<open>A failing breadcrumb of the battery does not change its exit code.\<close>

fun report_failures :: "'w round_host \<Rightarrow> battery_check list \<Rightarrow> ('w, unit) rm" where
  "report_failures h [] = eret ()"
| "report_failures h (c # cs) =
     ethen (etry (emits h ''smoke_check_failed'' [(''reason'', PStr (ck_name c))])
                 (\<lambda>e. case e of PyRaised (OSError m) \<Rightarrow> eret () | _ \<Rightarrow> eraise e))
       (report_failures h cs)"

text \<open>\<open>finally\<close>: the side file goes before the lock is released; a failing removal keeps the lock
  until the process ends.\<close>

definition run_one_round :: "'w round_host \<Rightarrow> string option \<Rightarrow> ('w, round_report) rm" where
  "run_one_round h override =
     ebind (rres (run_battery (rn_boot h) (rn_cfg h))) (\<lambda>results.
       let failures = battery_failures results in
       if failures \<noteq> [] then ethen (report_failures h failures) (eraise (Exited (battery_exit_code failures)))
       else if \<not> rn_lock_free h then eraise LockHeld
       else ethen (ract h TookLock)
              (efinally (run_one_round_inner h override) (ethen (ract h RemovedSidecar) (ract h ReleasedLock))))"

subsection \<open>The exit code of the process\<close>

definition exc_of :: "round_exn \<Rightarrow> exc" where
  "exc_of e =
     (case e of
        PyRaised (ConfigError m) \<Rightarrow> \<lparr>ex_classes = {ConfigErrorClass}, ex_code = None\<rparr>
      | VcsFailed (GitTimeout m) \<Rightarrow> \<lparr>ex_classes = {EnvironmentalError}, ex_code = None\<rparr>
      | LockHeld \<Rightarrow> \<lparr>ex_classes = {EnvironmentalError}, ex_code = None\<rparr>
      | Interrupted \<Rightarrow> \<lparr>ex_classes = {KeyboardInterrupt}, ex_code = None\<rparr>
      | Exited c \<Rightarrow> \<lparr>ex_classes = {SystemExit}, ex_code = Some c\<rparr>
      | _ \<Rightarrow> \<lparr>ex_classes = {}, ex_code = None\<rparr>)"

definition round_exit_code :: "round_exn + round_report \<Rightarrow> int" where
  "round_exit_code r =
     (case r of
        Inl e \<Rightarrow> classify_round_exit (exc_of e)
      | Inr res \<Rightarrow>
          let a = re_run res in
          if rr_exit_code a \<noteq> 0 \<and> \<not> rr_killed_for_grace a \<and> \<not> rr_timed_out a then 1 else 0)"

definition round_cmd_exit :: "'w round_host res \<Rightarrow> string option \<Rightarrow> 'w \<Rightarrow> int" where
  "round_cmd_exit loaded override w =
     (case loaded of
        Inl e \<Rightarrow> classify_round_exit (exc_of (PyRaised e))
      | Inr h \<Rightarrow> round_exit_code (snd (run_one_round h override (w, []))))"

subsection \<open>The order of a round\<close>

definition stage :: "round_act \<Rightarrow> nat option" where
  "stage a =
     (case a of
        TookLock \<Rightarrow> Some 0
      | WroteContext c \<Rightarrow> Some 1
      | Emitted k fs xs \<Rightarrow>
          if k = ''round_start'' then Some 2 else if k = ''agent_spawn'' then Some 4
          else if k = ''agent_exit'' then Some 6 else if k = ''round_end'' then Some 9 else None
      | Metrics k \<Rightarrow> if k = ''round_start'' then Some 3 else if k = ''round_end'' then Some 8 else None
      | RanAgent c \<Rightarrow> Some 5
      | WroteStatus st \<Rightarrow> Some 7
      | _ \<Rightarrow> None)"

definition stages :: "round_act list \<Rightarrow> nat list" where
  "stages acts = List.map_filter stage acts"

lemma stages_append [simp]: "stages (xs @ ys) = stages xs @ stages ys"
  by (simp add: stages_def map_filter_def)

lemma stages_Nil [simp]: "stages [] = []"
  by (simp add: stages_def map_filter_def)

lemma stages_vcs [simp]: "stages (map VcsDid vs) = []"
  by (induction vs) (simp_all add: stages_def map_filter_def stage_def)

fun final_act :: "round_act \<Rightarrow> bool" where
  "final_act RemovedSidecar = True"
| "final_act ReleasedLock = True"
| "final_act a = False"

definition reached :: "nat \<Rightarrow> 'w round_state \<Rightarrow> bool" where
  "reached k s \<longleftrightarrow> stages (snd s) = [0..<k] \<and> list_all (\<lambda>a. \<not> final_act a) (snd s)"

definition stopped :: "'e \<Rightarrow> 'w round_state \<Rightarrow> bool" where
  "stopped e s \<longleftrightarrow> (\<exists>j. 0 < j \<and> j \<le> 10 \<and> reached j s)"

lemma act_reached:
  assumes "stage a = None \<or> stage a = Some k" "0 < k" "k \<le> 10" "\<not> final_act a"
  shows "holds (reached k) (ract h a) (\<lambda>_. reached (if stage a = None then k else Suc k)) stopped"
proof (rule holds_I)
  fix s :: "'a round_state" and s' r
  assume p: "reached k s" and run: "ract h a s = (s', r)"
  obtain w acts where s: "s = (w, acts)" by (cases s)
  have n: "stages [a] = (case stage a of None \<Rightarrow> [] | Some j \<Rightarrow> [j])"
    by (simp add: stages_def map_filter_def split: option.splits)
  show "case r of Inr x \<Rightarrow> reached (if stage a = None then k else Suc k) s' | Inl e \<Rightarrow> stopped e s'"
  proof (cases "rn_fault h (length acts)")
    case None
    then have "r = Inr ()" "s' = (w, acts @ [a])" using run s by (auto simp: ract_def)
    then show ?thesis using p s assms n by (auto simp: reached_def)
  next
    case (Some e)
    then show ?thesis using run s p assms(2,3) by (auto simp: ract_def stopped_def)
  qed
qed

lemma act_same: "stage a = None \<Longrightarrow> \<not> final_act a \<Longrightarrow> 0 < k \<Longrightarrow> k \<le> 10 \<Longrightarrow> holds (reached k) (ract h a) (\<lambda>_. reached k) stopped"
  using act_reached [of a k h] by simp

lemma act_next: "stage a = Some k \<Longrightarrow> \<not> final_act a \<Longrightarrow> 0 < k \<Longrightarrow> k \<le> 10 \<Longrightarrow> holds (reached k) (ract h a) (\<lambda>_. reached (Suc k)) stopped"
  using act_reached [of a k h] by simp

lemma res_same: "0 < k \<Longrightarrow> k \<le> 10 \<Longrightarrow> holds (reached k) (rres r) (\<lambda>_. reached k) stopped"
  by (cases r) (auto simp: rres_def stopped_def intro!: holds_ret holds_raise)

lemma raise_stopped: "0 < k \<Longrightarrow> k \<le> 10 \<Longrightarrow> holds (reached k) (eraise e) Q stopped"
  by (rule holds_raise) (auto simp: stopped_def)

lemma vcs_same:
  assumes "0 < k" "k \<le> 10"
  shows "holds (reached k) (rvcs m) (\<lambda>_. reached k) stopped"
proof (rule holds_I)
  fix s :: "'a round_state" and s' r
  assume p: "reached k s" and run: "rvcs m s = (s', r)"
  obtain w acts w' vacts x where "s = (w, acts)" "m (w, []) = ((w', vacts), x)" by (metis surj_pair)
  then show "case r of Inr x \<Rightarrow> reached k s' | Inl e \<Rightarrow> stopped e s'"
    using run p assms by (cases x) (auto simp: rvcs_def reached_def stopped_def list_all_iff intro!: exI [of _ k])
qed

lemma emits_same:
  "k \<notin> {''round_start'', ''agent_spawn'', ''agent_exit'', ''round_end''} \<Longrightarrow> 0 < n \<Longrightarrow> n \<le> 10
     \<Longrightarrow> holds (reached n) (emits h k xs) (\<lambda>_. reached n) stopped"
  unfolding emits_def by (rule act_same) (auto simp: stage_def)

lemma prune_same: "0 < k \<Longrightarrow> k \<le> 10 \<Longrightarrow> holds (reached k) (prune_rounds h) (\<lambda>_. reached k) stopped"
  unfolding prune_rounds_def Let_def
  by (auto split: prod.splits sum.splits simp: stage_def
      intro!: holds_then [OF act_same] emits_same raise_stopped holds_ret)

lemma steer_same: "0 < k \<Longrightarrow> k \<le> 10 \<Longrightarrow> holds (reached k) (steer_goal h n) (\<lambda>_. reached k) stopped"
  unfolding steer_goal_def
  by (auto simp: stage_def intro!: holds_bind [OF res_same] act_same holds_ret)

lemma act_step: "stage a = Some k \<Longrightarrow> m = Suc k \<Longrightarrow> \<not> final_act a \<Longrightarrow> 0 < k \<Longrightarrow> k \<le> 10 \<Longrightarrow> holds (reached k) (ract h a) (\<lambda>_. reached m) stopped"
  using act_next by simp

lemma open_reached:
  "holds (reached 1) (open_round h prev orphan n phase) (\<lambda>_. reached 4) stopped"
  unfolding open_round_def
proof (rule holds_then [OF prune_same])
  show "holds (reached 1)
     (ethen (ract h (WroteContext (context_of h n phase prev orphan)))
       (ethen (steer_goal h n)
         (ethen (ract h (Emitted ''round_start'' [] (rn_start_fields h phase n))) (ract h (Metrics ''round_start'')))))
     (\<lambda>_. reached 4) stopped"
    by (rule holds_then [OF act_step [where m = 2]] holds_then [OF steer_same] holds_then [OF act_step [where m = 3]]
        act_step | simp add: stage_def)+
qed simp_all

lemma launch_reached: "holds (reached 4) (launch_round h ctx n phase) (\<lambda>_. reached 7) stopped"
  unfolding launch_round_def
proof (rule holds_bind [OF res_same])
  fix x :: "string \<times> nat list"
  obtain prompt ws where x: "x = (prompt, ws)" by (cases x)
  let ?c = "agent_call_of h n phase prompt"
  have agent: "holds (reached 5) (run_the_agent h ?c) (\<lambda>_. reached 6) stopped"
    unfolding run_the_agent_def
    by (rule holds_then [OF act_step [where m = 6]])
      (auto simp: stage_def split: agent_outcome.splits intro!: holds_ret raise_stopped)
  have report: "holds (reached 6) (ethen (report_exit h n r) (eret r)) (\<lambda>_. reached 7) stopped" for r
    unfolding report_exit_def emits_def
    by (rule holds_then [OF act_step [where m = 7]]) (auto simp: stage_def intro!: holds_ret)
  have "holds (reached 4)
     (ethen (emits h ''agent_spawn'' [(''round_num'', PInt n), (''timeout_s'', PInt (gc_budget ?c))])
       (ebind (run_the_agent h ?c) (\<lambda>r. ethen (report_exit h n r) (eret r)))) (\<lambda>_. reached 7) stopped"
    unfolding emits_def
    by (rule holds_then [OF act_step [where m = 5]]) (auto simp: stage_def intro!: holds_bind [OF agent] report)
  then show "holds (reached 4) ((\<lambda>(prompt, ws). let c = agent_call_of h n phase prompt in
       ethen (emits h ''agent_spawn'' [(''round_num'', PInt n), (''timeout_s'', PInt (gc_budget c))])
      (ebind (run_the_agent h c) (\<lambda>r. ethen (report_exit h n r) (eret r)))) x) (\<lambda>_. reached 7) stopped"
    unfolding x by (simp add: Let_def)
qed simp_all

lemma find_dirty_same: "holds (reached 7) (find_dirty h n) (\<lambda>_. reached 7) stopped"
  unfolding find_dirty_def
proof (rule holds_try)
  show "holds (reached 7) (ebind (rvcs (detect_dirty_files (rn_git h))) (\<lambda>d. eret (d, False)))
     (\<lambda>_. reached 7) (\<lambda>_. reached 7)"
    by (rule holds_bind [where R = "\<lambda>_. reached 7"])
      (auto intro!: holds_I simp: rvcs_def reached_def eret_def list_all_iff split: prod.splits sum.splits)
  fix e
  show "holds (reached 7) (case e of
      VcsFailed (GitTimeout m) \<Rightarrow>
        ethen (emits h ''dirty_check_failed'' [(''round_num'', PInt n), (''reason'', PStr (take 200 m))]) (eret ([], True))
    | _ \<Rightarrow> eraise e) (\<lambda>_. reached 7) stopped"
    by (auto split: round_exn.splits vcs_error.splits intro!: holds_then [OF emits_same] holds_ret raise_stopped)
qed

lemma dispatch_same: "holds (reached 7) (dispatch_dirty h n phase r dirty failed) (\<lambda>_. reached 7) stopped"
  unfolding dispatch_dirty_def
  by (auto simp: stage_def intro!: holds_if holds_bind [OF vcs_same] holds_then [OF act_same] holds_ret)

lemma settle_reached: "holds (reached 7) (settle_round h n phase r) (\<lambda>_. reached 7) stopped"
  unfolding settle_round_def
proof (rule holds_then)
  show "holds (reached 7) (check_goals h) (\<lambda>_. reached 7) stopped"
    unfolding check_goals_def
    by (auto simp: stage_def split: option.splits intro!: holds_if holds_then [OF act_same] holds_ret raise_stopped)
  have blip: "holds (reached 7) (report_blip h n phase r) (\<lambda>_. reached 7) stopped"
    unfolding report_blip_def by (auto split: option.splits intro!: holds_ret emits_same)
  have rest: "holds (reached 7)
      (ethen (if dirty = [] then eret () else ract h (Emitted ''dirty_detected'' (take 20 dirty) [(''round_num'', PInt n)]))
        (ebind (dispatch_dirty h n phase r dirty failed) (\<lambda>outcome. eret (dirty, outcome)))) (\<lambda>_. reached 7) stopped"
    for dirty failed
    by (rule holds_then [where R = "reached 7"])
      (auto simp: stage_def intro!: holds_if act_same holds_ret holds_bind [OF dispatch_same])
  show "holds (reached 7) (ethen (report_blip h n phase r) (ebind (find_dirty h n) (\<lambda>(dirty, failed).
      ethen (if dirty = [] then eret () else ract h (Emitted ''dirty_detected'' (take 20 dirty) [(''round_num'', PInt n)]))
        (ebind (dispatch_dirty h n phase r dirty failed) (\<lambda>outcome. eret (dirty, outcome)))))) (\<lambda>_. reached 7) stopped"
    using rest by (auto intro!: holds_then [OF blip] holds_bind [OF find_dirty_same] split: prod.splits)
qed

lemma hooks_same: "holds (reached 10) (run_post_round_hooks h res hks) (\<lambda>_. reached 10) stopped"
proof (induction hks)
  case Nil
  then show ?case by (auto intro!: holds_ret)
next
  case (Cons hk hks)
  have "holds (reached 10) (run_hook h res hk) (\<lambda>_. reached 10) stopped"
    unfolding run_hook_def
    by (rule holds_then [OF act_same])
      (auto simp: stage_def split: hook_outcome.splits intro!: holds_ret emits_same raise_stopped)
  then show ?case using Cons by (auto intro!: holds_then)
qed

lemma close_reached: "holds (reached 7) (close_round h n phase idx r res) (\<lambda>_. reached 10) stopped"
  unfolding close_round_def
proof (rule holds_then)
  show "holds (reached 7) (report_kill h n (rt_round_budget_s (pr_runtime (profile_for (base_config (rn_cfg h)) phase))) r)
      (\<lambda>_. reached 7) stopped"
    unfolding report_kill_def by (auto intro!: holds_if emits_same holds_ret)
  show "holds (reached 7) (ethen (ract h (WroteStatus (status_of h n phase idx r)))
      (ethen (ract h (Metrics ''round_end''))
        (ethen (emits h ''round_end'' [(''round_num'', PInt n)]) (run_post_round_hooks h res (rn_hooks h)))))
      (\<lambda>_. reached 10) stopped"
    unfolding emits_def
    by (rule holds_then [OF act_step [where m = 8]] holds_then [OF act_step [where m = 9]]
        holds_then [OF act_step [where m = 10]] hooks_same | simp add: stage_def)+
qed

lemma inner_reached: "holds (reached 1) (run_one_round_inner h override) (\<lambda>_. reached 10) stopped"
  unfolding run_one_round_inner_def Let_def
proof (rule holds_then)
  show "holds (reached 1) (if rn_status_exists h \<and> read_status (rn_status h) = None
     then emits h ''status_recovered'' [(''reason'', PStr ''status.json could not be parsed'')] else eret ())
     (\<lambda>_. reached 1) stopped"
    by (auto intro!: holds_if emits_same holds_ret)
qed (auto simp del: One_nat_def intro!: holds_bind [OF res_same] holds_then [OF open_reached] holds_bind [OF launch_reached]
      holds_bind [OF settle_reached] holds_then [OF close_reached] holds_ret split: prod.splits)


lemma report_failures_same:
  "holds (reached 0) (report_failures h cs) (\<lambda>_. reached 0) (\<lambda>_. reached 0)"
proof (induction cs)
  case Nil
  then show ?case by (auto intro!: holds_ret)
next
  case (Cons c cs)
  have "holds (reached 0) (etry (emits h ''smoke_check_failed'' [(''reason'', PStr (ck_name c))])
       (\<lambda>e. case e of PyRaised (OSError m) \<Rightarrow> eret () | _ \<Rightarrow> eraise e)) (\<lambda>_. reached 0) (\<lambda>_. reached 0)"
  proof (rule holds_try)
    show "holds (reached 0) (emits h ''smoke_check_failed'' [(''reason'', PStr (ck_name c))])
        (\<lambda>_. reached 0) (\<lambda>_. reached 0)"
      by (rule holds_I)
        (auto simp: emits_def ract_def reached_def stages_def map_filter_def stage_def split: option.splits prod.splits)
  qed (auto split: round_exn.splits py_error.splits intro!: holds_ret holds_raise)
  then show ?case using Cons by (auto intro!: holds_then)
qed

text \<open>How a trace ends: the side file goes first, then the lock.\<close>

definition well_closed :: "bool \<Rightarrow> round_act list \<Rightarrow> nat \<Rightarrow> bool" where
  "well_closed faultless acts k \<longleftrightarrow>
     (\<exists>body fin. acts = body @ fin \<and> stages body = [0..<k] \<and> list_all (\<lambda>a. \<not> final_act a) body
        \<and> fin \<in> {[], [RemovedSidecar], [RemovedSidecar, ReleasedLock]} \<and> (fin \<noteq> [] \<longrightarrow> 0 < k)
        \<and> (faultless \<and> 0 < k \<longrightarrow> fin = [RemovedSidecar, ReleasedLock]))"

lemma locked_section:
  assumes run: "efinally (run_one_round_inner h override) (ethen (ract h RemovedSidecar) (ract h ReleasedLock)) s = ((w', acts), r)"
    and s: "reached 1 s"
  shows "\<exists>k. 0 < k \<and> k \<le> 10 \<and> well_closed (\<forall>i. rn_fault h i = None) acts k \<and> (\<forall>res. r = Inr res \<longrightarrow> k = 10)"
proof -
  obtain w1 acts1 r1 where i: "run_one_round_inner h override s = ((w1, acts1), r1)" by (metis surj_pair)
  note o = holds_D [OF inner_reached s i]
  then obtain k where k: "0 < k" "k \<le> 10" "reached k (w1, acts1)" "\<forall>res. r1 = Inr res \<longrightarrow> k = 10"
    by (cases r1) (auto simp: stopped_def)
  have body: "stages acts1 = [0..<k]" "list_all (\<lambda>a. \<not> final_act a) acts1" using k(3) by (simp_all add: reached_def)
  have w: "well_closed b (acts1 @ fin) k"
    if "fin \<in> {[], [RemovedSidecar], [RemovedSidecar, ReleasedLock]}" "b \<longrightarrow> fin = [RemovedSidecar, ReleasedLock]" for b fin
    using that body k(1) unfolding well_closed_def by blast
  show ?thesis
  proof (cases "rn_fault h (length acts1)")
    case (Some e)
    then have "acts = acts1 @ []" "r = Inl e" using run i by (auto simp: efinally_def ethen_def ebind_def ract_def)
    moreover have "\<not> (\<forall>i. rn_fault h i = None)" using Some by auto
    ultimately show ?thesis using w [of "[]" "\<forall>i. rn_fault h i = None"] k by (intro exI [of _ k]) simp
  next
    case None
    show ?thesis
    proof (cases "rn_fault h (length (acts1 @ [RemovedSidecar]))")
      case (Some e)
      then have "acts = acts1 @ [RemovedSidecar]" "r = Inl e"
        using run i None by (auto simp: efinally_def ethen_def ebind_def ract_def)
      moreover have "\<not> (\<forall>i. rn_fault h i = None)" using Some by auto
      ultimately show ?thesis using w [of "[RemovedSidecar]" "\<forall>i. rn_fault h i = None"] k by (intro exI [of _ k]) simp
    next
      case 2: None
      then have "acts = acts1 @ [RemovedSidecar, ReleasedLock]" "r = r1"
        using run i None by (auto simp: efinally_def ethen_def ebind_def ract_def)
      then show ?thesis using w [of "[RemovedSidecar, ReleasedLock]" "\<forall>i. rn_fault h i = None"] k by (intro exI [of _ k]) simp
    qed
  qed
qed

lemma well_closed_body: "reached k (w, acts) \<Longrightarrow> k = 0 \<Longrightarrow> well_closed b acts k"
  unfolding well_closed_def reached_def by (intro exI [of _ acts] exI [of _ "[]"]) simp


subsection \<open>The bookkeeping of a round whose agent ran\<close>

definition hook_names :: "round_act list \<Rightarrow> string list" where
  "hook_names acts = List.map_filter (\<lambda>a. case a of RanHook n \<Rightarrow> Some n | _ \<Rightarrow> None) acts"

fun is_run :: "round_act \<Rightarrow> bool" where
  "is_run (RanAgent c) = True"
| "is_run a = False"

fun is_closing :: "round_act \<Rightarrow> bool" where
  "is_closing (WroteStatus st) = True"
| "is_closing (RanHook n) = True"
| "is_closing a = False"

definition faultless :: "'w round_host \<Rightarrow> bool" where
  "faultless h \<longleftrightarrow> (\<forall>i. rn_fault h i = None)"

text \<open>Before the agent, and after it with the result \<open>r\<close>; nothing is recorded yet.\<close>

definition before_agent :: "'w round_state \<Rightarrow> bool" where
  "before_agent s \<longleftrightarrow> list_all (\<lambda>a. \<not> is_run a \<and> \<not> is_closing a) (snd s)"

definition agent_ran :: "'w round_host \<Rightarrow> run_result \<Rightarrow> 'w round_state \<Rightarrow> bool" where
  "agent_ran h r s \<longleftrightarrow> list_all (\<lambda>a. \<not> is_closing a) (snd s)
     \<and> (\<exists>c. RanAgent c \<in> set (snd s) \<and> rn_agent h c = AgentReturned r)"

definition unrecorded :: "round_exn \<Rightarrow> 'w round_state \<Rightarrow> bool" where
  "unrecorded e s \<longleftrightarrow> list_all (\<lambda>a. \<not> is_closing a) (snd s)
     \<and> (list_ex is_run (snd s) \<longrightarrow> (\<exists>ve. e = VcsFailed ve \<and> foreign ve))"

lemma act_before:
  "\<not> is_run a \<Longrightarrow> \<not> is_closing a \<Longrightarrow> faultless h \<Longrightarrow> holds before_agent (ract h a) (\<lambda>_. before_agent) E"
  by (rule holds_I) (auto simp: ract_def faultless_def before_agent_def split: prod.splits)

lemma act_after:
  "\<not> is_closing a \<Longrightarrow> faultless h \<Longrightarrow> holds (agent_ran h r) (ract h a) (\<lambda>_. agent_ran h r) E"
  by (rule holds_I) (auto simp: ract_def faultless_def agent_ran_def split: prod.splits)

lemma before_unrecorded: "before_agent s \<Longrightarrow> unrecorded e s"
  by (auto simp: before_agent_def unrecorded_def list_all_iff list_ex_iff)

lemma raise_before: "holds before_agent (eraise e) Q unrecorded"
  by (rule holds_raise) (rule before_unrecorded)

lemma res_before: "holds before_agent (rres x) (\<lambda>_. before_agent) unrecorded"
  by (cases x) (auto simp: rres_def intro!: holds_ret raise_before)

lemma emits_before: "faultless h \<Longrightarrow> holds before_agent (emits h k xs) (\<lambda>_. before_agent) E"
  unfolding emits_def by (rule act_before) auto

lemma emits_after: "faultless h \<Longrightarrow> holds (agent_ran h r) (emits h k xs) (\<lambda>_. agent_ran h r) E"
  unfolding emits_def by (rule act_after) auto

lemma open_before:
  assumes f: "faultless h"
  shows "holds before_agent (open_round h prev orphan n phase) (\<lambda>_. before_agent) unrecorded"
proof -
  have prune: "holds before_agent (prune_rounds h) (\<lambda>_. before_agent) unrecorded"
    unfolding prune_rounds_def Let_def
    by (auto split: prod.splits sum.splits
        intro!: holds_then [OF act_before] emits_before raise_before holds_ret f)
  have steer: "holds before_agent (steer_goal h n) (\<lambda>_. before_agent) unrecorded"
    unfolding steer_goal_def by (auto intro!: holds_bind [OF res_before] act_before holds_ret f)
  show ?thesis unfolding open_round_def
    by (auto intro!: holds_then [OF prune] holds_then [OF steer] holds_then [OF act_before] act_before f)
qed

lemma launch_runs:
  assumes f: "faultless h" and returns: "\<forall>c. \<exists>r. rn_agent h c = AgentReturned r"
  shows "holds before_agent (launch_round h ctx n phase) (\<lambda>r. agent_ran h r) unrecorded"
  unfolding launch_round_def
proof (rule holds_bind [OF res_before])
  fix x :: "string \<times> nat list"
  obtain prompt ws where x: "x = (prompt, ws)" by (cases x)
  let ?c = "agent_call_of h n phase prompt"
  obtain r where r: "rn_agent h ?c = AgentReturned r" using returns by blast
  have agent: "holds before_agent (run_the_agent h ?c) (\<lambda>r. agent_ran h r) unrecorded"
  proof (rule holds_I)
    fix s :: "'a round_state" and s' y
    assume p: "before_agent s" and run: "run_the_agent h ?c s = (s', y)"
    obtain w acts where s: "s = (w, acts)" by (cases s)
    have "y = Inr r" "s' = (w, acts @ [RanAgent ?c])"
      using run s f r by (auto simp: run_the_agent_def ethen_def ebind_def ract_def faultless_def eret_def)
    then show "case y of Inr x \<Rightarrow> agent_ran h x s' | Inl e \<Rightarrow> unrecorded e s'"
      using p s r by (auto simp: agent_ran_def before_agent_def list_all_iff)
  qed
  have "holds before_agent (ethen (emits h ''agent_spawn'' [(''round_num'', PInt n), (''timeout_s'', PInt (gc_budget ?c))])
      (ebind (run_the_agent h ?c) (\<lambda>r. ethen (report_exit h n r) (eret r)))) (\<lambda>r. agent_ran h r) unrecorded"
    unfolding report_exit_def
    by (auto intro!: holds_then [OF emits_before] holds_bind [OF agent] holds_then [OF emits_after] holds_ret f)
  then show "holds before_agent ((\<lambda>(prompt, ws). let c = agent_call_of h n phase prompt in
       ethen (emits h ''agent_spawn'' [(''round_num'', PInt n), (''timeout_s'', PInt (gc_budget c))])
      (ebind (run_the_agent h c) (\<lambda>r. ethen (report_exit h n r) (eret r)))) x) (\<lambda>r. agent_ran h r) unrecorded"
    unfolding x by (simp add: Let_def)
qed

text \<open>A git operation after the agent: only an exception that is not the module's own may pass.\<close>

lemma vcs_after:
  assumes "\<And>w w' vacts e. m (w, []) = ((w', vacts), Inl e) \<Longrightarrow> foreign e"
  shows "holds (agent_ran h r) (rvcs m) (\<lambda>_. agent_ran h r) (\<lambda>e s. agent_ran h r s \<and> (\<exists>ve. e = VcsFailed ve \<and> foreign ve))"
proof (rule holds_I)
  fix s :: "'a round_state" and s' y
  assume p: "agent_ran h r s" and run: "rvcs m s = (s', y)"
  obtain w acts w' vacts x where "s = (w, acts)" "m (w, []) = ((w', vacts), x)" by (metis surj_pair)
  then show "case y of Inr x \<Rightarrow> agent_ran h r s'
      | Inl e \<Rightarrow> agent_ran h r s' \<and> (\<exists>ve. e = VcsFailed ve \<and> foreign ve)"
    using run p assms by (cases x) (auto simp: rvcs_def agent_ran_def list_all_iff)
qed

lemma ran_unrecorded: "agent_ran h r s \<and> (\<exists>ve. e = VcsFailed ve \<and> foreign ve) \<Longrightarrow> unrecorded e s"
  by (auto simp: agent_ran_def unrecorded_def)

lemma detect_foreign: "detect_dirty_files gh (w, []) = ((w', acts), Inl e) \<Longrightarrow> foreign e"
  by (auto simp: detect_dirty_files_def porcelain_paths_def ebind_def git_def eret_def foreign_def
      split: prod.splits git_answer.splits sum.splits)

lemma resolve_foreign:
  "resolve_dirty_tree gh now ts stamp action n phase idem place dirty (w, []) = ((w', acts), Inl e) \<Longrightarrow> foreign e"
  using resolve_told [where I = "\<lambda>_. True"] by (fastforce simp: keeps_inv_def)

lemma settle_after:
  assumes f: "faultless h" and esc: "rn_checks_escape h = None"
  shows "holds (agent_ran h r) (settle_round h n phase r) (\<lambda>_. agent_ran h r) unrecorded"
proof -
  have checks: "holds (agent_ran h r) (check_goals h) (\<lambda>_. agent_ran h r) unrecorded"
    unfolding check_goals_def using esc by (auto intro!: holds_then [OF act_after] holds_ret f)
  have blip: "holds (agent_ran h r) (report_blip h n phase r) (\<lambda>_. agent_ran h r) unrecorded"
    unfolding report_blip_def by (auto split: option.splits intro!: holds_ret emits_after f)
  have timed: "holds (\<lambda>s. agent_ran h r s \<and> X s) (ethen (emits h k xs) (eret ([], True)))
      (\<lambda>_. agent_ran h r) unrecorded" for X k xs
    by (rule holds_conseq [OF holds_then [OF emits_after [OF f] holds_ret]]) auto
  have find: "holds (agent_ran h r) (find_dirty h n) (\<lambda>_. agent_ran h r) unrecorded"
    unfolding find_dirty_def
  proof (rule holds_try [OF holds_bind [OF vcs_after [OF detect_foreign]]])
    fix e
    show "holds (\<lambda>s. agent_ran h r s \<and> (\<exists>ve. e = VcsFailed ve \<and> foreign ve))
      (case e of VcsFailed (GitTimeout m) \<Rightarrow>
          ethen (emits h ''dirty_check_failed'' [(''round_num'', PInt n), (''reason'', PStr (take 200 m))]) (eret ([], True))
       | _ \<Rightarrow> eraise e) (\<lambda>_. agent_ran h r) unrecorded"
      by (auto split: round_exn.splits vcs_error.splits intro!: timed holds_raise ran_unrecorded)
  qed (auto intro!: holds_ret)
  have dispatch: "holds (agent_ran h r) (dispatch_dirty h n phase r dirty failed) (\<lambda>_. agent_ran h r) unrecorded"
    for dirty failed
  proof -
    have "holds (agent_ran h r) (rvcs (resolve_dirty_tree (rn_git h) (rn_now h) (rn_stash_ts h) (rn_stamp h)
               (vc_dirty_action (cf_vcs (rn_cfg h))) n phase (vc_stash_idempotency_s (cf_vcs (rn_cfg h))) (rn_place h) dirty))
         (\<lambda>_. agent_ran h r) unrecorded"
      by (rule holds_conseq [OF vcs_after [OF resolve_foreign]]) (auto intro: ran_unrecorded)
    then show ?thesis unfolding dispatch_dirty_def
      by (auto intro!: holds_if holds_bind holds_then [OF act_after] holds_ret f)
  qed
  show ?thesis unfolding settle_round_def
    by (rule holds_then [OF checks], rule holds_then [OF blip], rule holds_bind [OF find])
      (auto intro!: holds_then [where R = "agent_ran h r"] holds_if holds_ret act_after holds_bind [OF dispatch] f split: prod.splits)
qed


lemma hook_names_simps [simp]:
  "hook_names (xs @ ys) = hook_names xs @ hook_names ys"
  "hook_names [] = []"
  "hook_names (a # xs) = (case a of RanHook n \<Rightarrow> n # hook_names xs | _ \<Rightarrow> hook_names xs)"
  by (simp_all add: hook_names_def map_filter_def split: round_act.split)

lemma hook_names_unclosed: "list_all (\<lambda>a. \<not> is_closing a) acts \<Longrightarrow> hook_names acts = []"
  by (induction acts) (auto split: round_act.split)

text \<open>Nothing raises while a round is closed: each hook runs once, in order, and one that raised is
  reported under its name with its error redacted.\<close>

definition hook_reports :: "'w round_host \<Rightarrow> round_report \<Rightarrow> (string \<times> (round_report \<Rightarrow> hook_outcome)) list \<Rightarrow> round_act list" where
  "hook_reports h res hks = concat (map (\<lambda>(nm, f).
     RanHook nm # (case f res of
        HookRaised ty msg tb \<Rightarrow> [Emitted ''hook_failed'' []
          ([(''hook_name'', PStr nm), (''hook_kind'', PStr ''post_round'')] @ summarize_error (rn_redact h) ty msg tb)]
      | _ \<Rightarrow> [])) hks)"

lemma hooks_contained:
  assumes f: "faultless h" and "\<forall>hk \<in> set hks. snd hk res \<noteq> HookInterrupted"
  shows "run_post_round_hooks h res hks (w, acts) = ((w, acts @ hook_reports h res hks), Inr ())"
  using assms(2)
proof (induction hks arbitrary: acts)
  case Nil
  then show ?case by (simp add: eret_def hook_reports_def)
next
  case (Cons hk hks)
  obtain nm g where hk: "hk = (nm, g)" by (cases hk)
  have one: "run_hook h res hk (w, acts) = ((w, acts @ hook_reports h res [hk]), Inr ())"
    using f Cons.prems unfolding hk
    by (auto simp: run_hook_def emits_def ethen_def ebind_def ract_def faultless_def eret_def hook_reports_def
        split: hook_outcome.splits)
  have "hook_reports h res (hk # hks) = hook_reports h res [hk] @ hook_reports h res hks"
    by (simp add: hook_reports_def)
  then show ?case using one Cons by (simp add: ethen_def ebind_def)
qed

lemma hook_reports_names: "hook_names (hook_reports h res hks) = map fst hks"
  by (induction hks) (auto simp: hook_reports_def split: hook_outcome.splits)

definition no_interrupts :: "'w round_host \<Rightarrow> bool" where
  "no_interrupts h \<longleftrightarrow> rn_checks_escape h = None \<and> (\<forall>c. \<exists>r. rn_agent h c = AgentReturned r)
     \<and> (\<forall>hk \<in> set (rn_hooks h). \<forall>res. snd hk res \<noteq> HookInterrupted)"

lemma close_run:
  assumes f: "faultless h" and i: "no_interrupts h"
  shows "\<exists>pre. close_round h n phase idx r res (w, acts) =
     ((w, acts @ pre @ [WroteStatus (status_of h n phase idx r), Metrics ''round_end'',
        Emitted ''round_end'' [] [(''round_num'', PInt n)]] @ hook_reports h res (rn_hooks h)), Inr ())
     \<and> hook_names pre = []"
proof -
  let ?b = "rt_round_budget_s (pr_runtime (profile_for (base_config (rn_cfg h)) phase))"
  have em: "emits h k xs (w, acts) = ((w, acts @ [Emitted k [] xs]), Inr ())" for k xs
    using f by (simp add: emits_def ract_def faultless_def)
  have "\<exists>pre. report_kill h n ?b r (w, acts) = ((w, acts @ pre), Inr ()) \<and> hook_names pre = []"
    by (cases "rr_killed_for_grace r"; cases "rr_timed_out r") (auto simp: report_kill_def em eret_def)
  then obtain pre where p: "report_kill h n ?b r (w, acts) = ((w, acts @ pre), Inr ())" "hook_names pre = []" by blast
  have a: "ract h a (w, acts') = ((w, acts' @ [a]), Inr ())" for a acts'
    using f by (simp add: ract_def faultless_def)
  have hk: "run_post_round_hooks h res (rn_hooks h) (w, acts') = ((w, acts' @ hook_reports h res (rn_hooks h)), Inr ())" for acts'
    by (rule hooks_contained [OF f]) (use i in \<open>auto simp: no_interrupts_def\<close>)
  have "close_round h n phase idx r res (w, acts) =
     ((w, acts @ pre @ [WroteStatus (status_of h n phase idx r), Metrics ''round_end'',
        Emitted ''round_end'' [] [(''round_num'', PInt n)]] @ hook_reports h res (rn_hooks h)), Inr ())"
    by (simp add: close_round_def emits_def ethen_def ebind_def p(1) a hk)
  then show ?thesis using p(2) by blast
qed

text \<open>What a round leaves behind once its agent has run.\<close>

definition recorded :: "'w round_host \<Rightarrow> string option \<Rightarrow> round_act list \<Rightarrow> round_report \<Rightarrow> bool" where
  "recorded h override acts res \<longleftrightarrow>
     (let n = re_round_num res; r = re_run res in
      n = resolve_round_num (rn_env h) (read_round_num (read_status (rn_status h))) (rn_log_names h)
      \<and> (\<exists>idx. phase_for n (pc_list (cf_phases (rn_cfg h))) override = Inr (re_phase res, idx)
           \<and> WroteStatus (status_of h n (re_phase res) idx r) \<in> set acts)
      \<and> Emitted ''round_end'' [] [(''round_num'', PInt n)] \<in> set acts
      \<and> (\<exists>c. RanAgent c \<in> set acts \<and> rn_agent h c = AgentReturned r)
      \<and> hook_names acts = map fst (rn_hooks h)
      \<and> sublist (hook_reports h res (rn_hooks h)) acts)"

lemma inner_recorded:
  assumes f: "faultless h" and i: "no_interrupts h"
  shows "holds before_agent (run_one_round_inner h override) (\<lambda>res s. recorded h override (snd s) res) unrecorded"
proof -
  let ?prev = "read_status (rn_status h)"
  let ?n = "resolve_round_num (rn_env h) (read_round_num ?prev) (rn_log_names h)"
  have close: "holds (agent_ran h r) (ethen (close_round h ?n phase idx r res) (eret res))
      (\<lambda>res s. recorded h override (snd s) res) unrecorded"
    if res: "phase_for ?n (pc_list (cf_phases (rn_cfg h))) override = Inr (phase, idx)"
      "re_round_num res = ?n" "re_phase res = phase" "re_run res = r" for phase idx r res
  proof (rule holds_I)
    fix s :: "'a round_state" and s' y
    assume p: "agent_ran h r s" and run: "ethen (close_round h ?n phase idx r res) (eret res) s = (s', y)"
    obtain w acts where s: "s = (w, acts)" by (cases s)
    obtain pre where c: "close_round h ?n phase idx r res (w, acts) =
     ((w, acts @ pre @ [WroteStatus (status_of h ?n phase idx r), Metrics ''round_end'',
        Emitted ''round_end'' [] [(''round_num'', PInt ?n)]] @ hook_reports h res (rn_hooks h)), Inr ())" "hook_names pre = []"
      using close_run [OF f i] by blast
    have y: "y = Inr res" "snd s' = acts @ pre @ [WroteStatus (status_of h ?n phase idx r), Metrics ''round_end'',
        Emitted ''round_end'' [] [(''round_num'', PInt ?n)]] @ hook_reports h res (rn_hooks h)"
      using run s c(1) by (auto simp: ethen_def ebind_def eret_def)
    have "hook_names acts = []" using p s by (simp add: agent_ran_def hook_names_unclosed)
    then have names: "hook_names (snd s') = map fst (rn_hooks h)" using c(2) by (simp add: y hook_reports_names)
    have "\<exists>c. RanAgent c \<in> set (snd s') \<and> rn_agent h c = AgentReturned r"
      using p s y by (auto simp: agent_ran_def)
    moreover have "sublist (hook_reports h res (rn_hooks h)) (snd s')"
      unfolding y sublist_def by (rule exI [of _ "acts @ pre @ [WroteStatus (status_of h ?n phase idx r), Metrics ''round_end'',
        Emitted ''round_end'' [] [(''round_num'', PInt ?n)]]"], rule exI [of _ "[]"]) simp
    ultimately have "recorded h override (snd s') res"
      using res names unfolding recorded_def Let_def by (auto simp: y)
    then show "case y of Inr x \<Rightarrow> recorded h override (snd s') x | Inl e \<Rightarrow> unrecorded e s'" by (simp add: y)
  qed
  have returns: "\<forall>c. \<exists>r. rn_agent h c = AgentReturned r" and esc: "rn_checks_escape h = None"
    using i by (simp_all add: no_interrupts_def)
  have phase: "holds before_agent (rres x) (\<lambda>y s. before_agent s \<and> x = Inr y) unrecorded" for x :: "'b res"
    by (cases x) (auto simp: rres_def intro!: holds_ret raise_before)
  show ?thesis unfolding run_one_round_inner_def Let_def
  proof (rule holds_then)
    show "holds before_agent (if rn_status_exists h \<and> ?prev = None
       then emits h ''status_recovered'' [(''reason'', PStr ''status.json could not be parsed'')] else eret ())
       (\<lambda>_. before_agent) unrecorded"
      by (auto intro!: holds_if emits_before holds_ret f)
    show "holds before_agent (ebind (rres (phase_for ?n (pc_list (cf_phases (rn_cfg h))) override)) (\<lambda>(phase, idx).
         ethen (open_round h ?prev (read_orphan_state (rn_orphan h)) ?n phase)
        (ebind (launch_round h (context_of h ?n phase ?prev (read_orphan_state (rn_orphan h))) ?n phase) (\<lambda>r.
         ebind (settle_round h ?n phase r) (\<lambda>(dirty, outcome).
           ethen (close_round h ?n phase idx r \<lparr>re_round_num = ?n, re_phase = phase, re_started_at = rn_started h,
               re_ended_at = rn_completed h, re_run = r, re_dirty = dirty, re_outcome = outcome\<rparr>)
             (eret \<lparr>re_round_num = ?n, re_phase = phase, re_started_at = rn_started h,
               re_ended_at = rn_completed h, re_run = r, re_dirty = dirty, re_outcome = outcome\<rparr>))))))
       (\<lambda>res s. recorded h override (snd s) res) unrecorded"
    proof (rule holds_bind [OF phase])
      fix x :: "string option \<times> nat"
      obtain phase idx where x: "x = (phase, idx)" by (cases x)
      show "holds (\<lambda>s. before_agent s \<and> phase_for ?n (pc_list (cf_phases (rn_cfg h))) override = Inr x)
        ((\<lambda>(phase, idx). ethen (open_round h ?prev (read_orphan_state (rn_orphan h)) ?n phase)
        (ebind (launch_round h (context_of h ?n phase ?prev (read_orphan_state (rn_orphan h))) ?n phase) (\<lambda>r.
         ebind (settle_round h ?n phase r) (\<lambda>(dirty, outcome).
           ethen (close_round h ?n phase idx r \<lparr>re_round_num = ?n, re_phase = phase, re_started_at = rn_started h,
               re_ended_at = rn_completed h, re_run = r, re_dirty = dirty, re_outcome = outcome\<rparr>)
             (eret \<lparr>re_round_num = ?n, re_phase = phase, re_started_at = rn_started h,
               re_ended_at = rn_completed h, re_run = r, re_dirty = dirty, re_outcome = outcome\<rparr>))))) x)
        (\<lambda>res s. recorded h override (snd s) res) unrecorded"
      proof (cases "phase_for ?n (pc_list (cf_phases (rn_cfg h))) override = Inr (phase, idx)")
        case True
        show ?thesis unfolding x prod.case
          by (rule holds_conseq [OF holds_then [OF open_before [OF f] holds_bind [OF launch_runs [OF f returns]
                  holds_bind [OF settle_after [OF f esc]]]]])
            (auto split: prod.splits intro!: close True)
      qed (auto simp: x holds_def)
    qed
  qed
qed

lemma recorded_final:
  assumes "recorded h override acts res"
  shows "recorded h override (acts @ [RemovedSidecar, ReleasedLock]) res"
proof -
  have "sublist (hook_reports h res (rn_hooks h)) (acts @ [RemovedSidecar, ReleasedLock])"
    using assms unfolding recorded_def Let_def sublist_def by (metis append.assoc)
  then show ?thesis using assms unfolding recorded_def Let_def by (auto simp del: append.simps)
qed

text \<open>C3: a round whose agent ran is recorded. When no write fails and nothing interrupts it, a round
  that returns has written the status of this round (its number, phase, exit code and end),
  announced the end and run every hook exactly once in order, each failing hook reported under its
  name with its error redacted and no other effect on the round. The only thing that can keep a
  round whose agent ran from being recorded is a git query that was killed or could not start, and
  then nothing of the closing is done.\<close>

theorem round_bookkeeping:
  assumes f: "faultless h" and i: "no_interrupts h"
    and run: "run_one_round h override (w, []) = ((w', acts), r)"
  shows "case r of
      Inr res \<Rightarrow> recorded h override acts res
    | Inl e \<Rightarrow> list_all (\<lambda>a. \<not> is_closing a) acts
        \<and> (list_ex is_run acts \<longrightarrow> (\<exists>ve. e = VcsFailed ve \<and> foreign ve))"
proof (cases "run_battery (rn_boot h) (rn_cfg h)")
  case (Inl e)
  then show ?thesis using run by (auto simp: run_one_round_def rres_def ebind_def eraise_def)
next
  case battery: (Inr results)
  let ?f = "battery_failures results"
  have b0: "before_agent (w, [])" by (simp add: before_agent_def)
  show ?thesis
  proof (cases "?f = []")
    case False
    then have m: "ethen (report_failures h ?f) (eraise (Exited (battery_exit_code ?f))) (w, []) = ((w', acts), r)"
      using run battery by (simp add: run_one_round_def rres_def ebind_def eret_def Let_def)
    have one: "holds before_agent (etry (emits h ''smoke_check_failed'' [(''reason'', PStr (ck_name c))])
       (\<lambda>e. case e of PyRaised (OSError m) \<Rightarrow> eret () | _ \<Rightarrow> eraise e)) (\<lambda>_. before_agent) unrecorded" for c
      by (rule holds_try [OF emits_before [OF f, where E = "\<lambda>_ _. False"]]) (auto simp: holds_def)
    have "holds before_agent (report_failures h cs) (\<lambda>_. before_agent) unrecorded" for cs
      by (induction cs) (auto intro!: holds_ret holds_then [OF one])
    then have "holds before_agent (ethen (report_failures h ?f) (eraise (Exited (battery_exit_code ?f))))
        (\<lambda>_ _. False) unrecorded"
      by (auto intro!: holds_then raise_before)
    from holds_D [OF this b0 m] show ?thesis by (cases r) (auto simp: unrecorded_def)
  next
    case True
    show ?thesis
    proof (cases "rn_lock_free h")
      case False
      then show ?thesis using run battery True
        by (auto simp: run_one_round_def rres_def ebind_def eret_def Let_def eraise_def)
    next
      case free: True
      have a: "ract h a (v, acts') = ((v, acts' @ [a]), Inr ())" for a v acts'
        using f by (simp add: ract_def faultless_def)
      have m: "efinally (run_one_round_inner h override) (ethen (ract h RemovedSidecar) (ract h ReleasedLock)) (w, [TookLock])
          = ((w', acts), r)"
        using run battery True free by (simp add: run_one_round_def rres_def ethen_def ebind_def eret_def Let_def a)
      obtain w1 acts1 r1 where inner: "run_one_round_inner h override (w, [TookLock]) = ((w1, acts1), r1)"
        by (metis surj_pair)
      then have e: "acts = acts1 @ [RemovedSidecar, ReleasedLock]" "r = r1"
        using m by (auto simp: efinally_def ethen_def ebind_def a)
      have "before_agent (w, [TookLock])" by (simp add: before_agent_def)
      from holds_D [OF inner_recorded [OF f i] this inner] show ?thesis
        unfolding e by (cases r1) (auto simp: unrecorded_def intro: recorded_final simp del: append.simps)
    qed
  qed
qed

subsection \<open>Concrete rounds\<close>

definition example_round :: "full_config \<Rightarrow> (string list \<Rightarrow> git_answer) \<Rightarrow> (nat \<times> bool) round_host" where
  "example_round cfg answer =
     \<lparr>rn_cfg = cfg, rn_env = [''AGENT_RUNNER_ROUND_NUM'' \<mapsto> ''7''], rn_fault = (\<lambda>i. None), rn_lock_free = True,
      rn_boot = example_boot_host\<lparr>sh_skip := Some ''1''\<rparr>, rn_status_exists = False, rn_status = None, rn_orphan = None,
      rn_log_names = [], rn_rounds = Some [], rn_unlink = (\<lambda>f. None), rn_started = ''t0'', rn_completed = ''t1'',
      rn_dumps = (\<lambda>c. ''{}''), rn_steering = (\<lambda>n. Inr False), rn_start_fields = (\<lambda>p n. [(''round_num'', PInt n)]),
      rn_agent = (\<lambda>c. AgentReturned \<lparr>rr_exit_code = 0, rr_duration_s = 5, rr_timed_out = False, rr_killed_for_grace = False\<rparr>),
      rn_checks_escape = None, rn_log_text = None, rn_search = (\<lambda>t. None), rn_sig_name = (\<lambda>n. None),
      rn_git = \<lparr>gh_git = (\<lambda>w args t. ((fst w + 1, snd w), answer args)), gh_lock = snd, gh_unlock = (\<lambda>w. w), gh_lock_path = []\<rparr>,
      rn_now = 0, rn_stash_ts = ''ts'', rn_stamp = ''s'', rn_place = LogOutside, rn_redact = (\<lambda>t. t),
      rn_hooks = [(''h1'', \<lambda>res. HookRaised ''E'' ''m'' ''tb''), (''h2'', \<lambda>res. HookReturned)]\<rparr>"

definition clean_git :: "string list \<Rightarrow> git_answer" where
  "clean_git args = GitDone 0 [] []"

text \<open>The tree is dirty, and the query for an earlier stash hangs.\<close>

definition hanging_git :: "string list \<Rightarrow> git_answer" where
  "hanging_git args = (if take 1 args = [''status''] then GitDone 0 ('' M a.py'' @ [nul]) [] else GitTimedOut)"

lemma example_round_clean:
  "case example_load (TStr ''prepend'') of Inl e \<Rightarrow> False | Inr (cfg, x) \<Rightarrow>
     (case run_one_round (example_round cfg clean_git) None ((0, False), []) of ((w, acts), r) \<Rightarrow>
        (case r of Inl e \<Rightarrow> False | Inr res \<Rightarrow> hook_names acts = [''h1'', ''h2'']) \<and> length acts = 20)"
  by code_simp

lemma example_round_hanging:
  "case example_load (TStr ''prepend'') of Inl e \<Rightarrow> False | Inr (cfg, x) \<Rightarrow>
     (case run_one_round (example_round cfg hanging_git) None ((0, False), []) of ((w, acts), r) \<Rightarrow>
        list_ex is_run acts \<and> list_all (\<lambda>a. \<not> is_closing a) acts \<and> round_exit_code r = env_battery_exit)"
  by code_simp

lemma example_faultless: "faultless (example_round cfg answer)" "no_interrupts (example_round cfg answer)"
  by (auto simp: faultless_def no_interrupts_def example_round_def)

lemma example_clean_round:
  obtains cfg x w acts res where "example_load (TStr ''prepend'') = Inr (cfg, x)"
    "run_one_round (example_round cfg clean_git) None ((0, False), []) = ((w, acts), Inr res)" "length acts = 20"
proof -
  obtain cfg x where c: "example_load (TStr ''prepend'') = Inr (cfg, x)"
    using example_round_clean by (auto split: sum.splits)
  obtain w acts r where r: "run_one_round (example_round cfg clean_git) None ((0, False), []) = ((w, acts), r)"
    by (metis surj_pair)
  have "(case r of Inl e \<Rightarrow> False | Inr res \<Rightarrow> hook_names acts = [''h1'', ''h2'']) \<and> length acts = 20"
    using example_round_clean by (simp add: c r)
  then show ?thesis using that c r by (cases r) auto
qed


lemma round_bookkeeping_witness:
  "\<exists>cfg w acts res. run_one_round (example_round cfg clean_git) None ((0, False), []) = ((w, acts), Inr res)
     \<and> recorded (example_round cfg clean_git) None acts res"
proof -
  obtain cfg x w acts res where r: "run_one_round (example_round cfg clean_git) None ((0, False), []) = ((w, acts), Inr res)"
    by (rule example_clean_round)
  have "recorded (example_round cfg clean_git) None acts res"
    using round_bookkeeping [OF example_faultless r] by simp
  then show ?thesis using r by blast
qed

text \<open>A git query of the dispatch that hangs loses the record of a round whose agent ran: no status, no
  end, no hook, and the exit code of an environmental failure.\<close>

lemma hanging_dispatch_unrecorded:
  "\<exists>cfg w acts r. run_one_round (example_round cfg hanging_git) None ((0, False), []) = ((w, acts), r)
     \<and> list_ex is_run acts \<and> list_all (\<lambda>a. \<not> is_closing a) acts \<and> round_exit_code r = env_battery_exit"
proof -
  obtain cfg x where c: "example_load (TStr ''prepend'') = Inr (cfg, x)"
    using example_round_hanging by (auto split: sum.splits)
  obtain w acts r where r: "run_one_round (example_round cfg hanging_git) None ((0, False), []) = ((w, acts), r)"
    by (metis surj_pair)
  have "list_ex is_run acts \<and> list_all (\<lambda>a. \<not> is_closing a) acts \<and> round_exit_code r = env_battery_exit"
    using example_round_hanging by (simp add: c r)
  then show ?thesis using r by blast
qed

end
