(* ===== verification/Metrics.thy ===== *)
theory Metrics
  imports Serve_Round Config_Load Text_Lines "HOL-Library.AList"
begin

section \<open>Cgroup budget, pressure files and the soft brake (agent\_runner/metrics.py)\<close>

text \<open>
  The reads of /proc and of the cgroup tree, and the one write the supervisor makes there, the
  \<open>memory.high\<close> of its own leaf. A path is the list of its components; a file that cannot be read is
  absent, and the test for \<open>cgroup.controllers\<close> may raise. The process facts psutil, \<open>os.access\<close> and
  \<open>pgrep\<close> give are observations. The properties: the limit reported is the least of the ancestors'
  and the path reported owns it; the brake writes to the leaf alone, never above the limit in force,
  and restoring what it stashed undoes it.
\<close>

type_synonym fpath = "string list"

text \<open>\<open>root / s.lstrip("/")\<close>: empty and \<open>"."\<close> components disappear.\<close>

definition under :: "fpath \<Rightarrow> string \<Rightarrow> fpath" where
  "under croot s = croot @ filter (\<lambda>c. c \<noteq> [] \<and> c \<noteq> ''.'') (py_split (CHR ''/'') (dropWhile (\<lambda>c. c = CHR ''/'') s))"

record host_files =
  hf_text :: "fpath \<Rightarrow> string option"
  hf_exists :: "fpath \<Rightarrow> bool res"
  hf_is_dir :: "fpath \<Rightarrow> bool res"
  hf_write_error :: "fpath \<Rightarrow> int option"

subsection \<open>Pressure stall files\<close>

text \<open>\<open>dict(p.split("=", 1) for p in parts[1:] if "=" in p)\<close>: the last binding of a key wins.\<close>

definition psi_fields :: "string list \<Rightarrow> string \<rightharpoonup> string" where
  "psi_fields words = map_of (rev (map (py_partition (CHR ''='')) (filter (\<lambda>w. CHR ''='' \<in> set w) words)))"

record psi =
  psi_some :: "pyfloat option"
  psi_full :: "pyfloat option"
  psi_total :: "int option"

definition psi_line :: "string \<Rightarrow> psi \<Rightarrow> psi" where
  "psi_line line st =
     (case py_words line of
        [] \<Rightarrow> st
      | w # ws \<Rightarrow>
          (let fld = psi_fields ws;
               st1 = (if w = ''full''
                      then (case Option.bind (fld ''total'') (py_int_of_str \<circ> py_strip) of
                              Some n \<Rightarrow> st\<lparr>psi_total := Some n\<rparr> | None \<Rightarrow> st)
                      else st)
           in case Option.bind (fld ''avg10'') (py_float_of_str \<circ> py_strip) of
                None \<Rightarrow> st1
              | Some x \<Rightarrow>
                  if w = ''some'' then st1\<lparr>psi_some := Some x\<rparr>
                  else if w = ''full'' then st1\<lparr>psi_full := Some x\<rparr> else st1))"

definition read_psi :: "string option \<Rightarrow> (pyfloat \<times> pyfloat \<times> int option) option" where
  "read_psi text =
     (case text of
        None \<Rightarrow> None
      | Some t \<Rightarrow>
          (let st = fold psi_line (py_splitlines t) \<lparr>psi_some = None, psi_full = None, psi_total = None\<rparr>
           in case psi_some st of
                None \<Rightarrow> None
              | Some s \<Rightarrow> Some (s, (case psi_full st of Some f \<Rightarrow> f | None \<Rightarrow> Finite 0), psi_total st)))"

text \<open>The psutil readings of one sample, in bytes, and what \<open>sample\<close> makes of them.\<close>

record vm_reading =
  vm_total :: int
  vm_available :: int
  vm_free :: int
  vm_swap_sout :: int
  vm_swap_total :: int

record metrics_sample =
  ms_mem_available_mb :: int
  ms_mem_free_mb :: int
  ms_swap_sout :: int
  ms_psi_some :: "pyfloat option"
  ms_psi_full :: "pyfloat option"
  ms_psi_total :: "int option"
  ms_io_some :: "pyfloat option"
  ms_io_full :: "pyfloat option"

definition metrics_sample_of :: "vm_reading \<Rightarrow> string option \<Rightarrow> string option \<Rightarrow> metrics_sample" where
  "metrics_sample_of vm mem_text io_text =
     (let mem = read_psi mem_text; io = read_psi io_text in
      \<lparr>ms_mem_available_mb = vm_available vm div (1024 * 1024), ms_mem_free_mb = vm_free vm div (1024 * 1024),
       ms_swap_sout = vm_swap_sout vm,
       ms_psi_some = map_option fst mem, ms_psi_full = map_option (fst \<circ> snd) mem,
       ms_psi_total = Option.bind mem (snd \<circ> snd),
       ms_io_some = map_option fst io, ms_io_full = map_option (fst \<circ> snd) io\<rparr>)"

text \<open>\<open>pgrep -xc\<close>: its exit code and output, or \<open>None\<close> when it could not be run.\<close>

definition count_agent_processes :: "(int \<times> string) option \<Rightarrow> int" where
  "count_agent_processes run =
     (case run of
        None \<Rightarrow> 0
      | Some (rc, out) \<Rightarrow>
          if rc = 0 \<or> rc = 1 then
            (let s = py_strip out in
             case py_int_of_str (if s = [] then ''0'' else s) of Some n \<Rightarrow> n | None \<Rightarrow> 0)
          else 0)"

subsection \<open>Cgroup files\<close>

definition self_cgroup_path :: "string option \<Rightarrow> string option" where
  "self_cgroup_path proc_self_cgroup =
     (case proc_self_cgroup of
        None \<Rightarrow> None
      | Some t \<Rightarrow> map_option (drop 3) (List.find (\<lambda>l. take 3 l = ''0::'') (py_splitlines t)))"

definition join_slash :: "string list \<Rightarrow> string" where
  "join_slash parts = concat (map (\<lambda>p. CHR ''/'' # p) parts)"

text \<open>The cgroup, its ancestors and the root, nearest first.\<close>

definition cgroup_ancestors :: "string \<Rightarrow> string list" where
  "cgroup_ancestors cgroup_path =
     (let parts = filter (\<lambda>p. p \<noteq> []) (py_split (CHR ''/'') cgroup_path)
      in map (\<lambda>i. join_slash (take i parts)) (rev [1..<length parts + 1]) @ [''/''])"

definition parse_cgroup_token :: "string \<Rightarrow> int option" where
  "parse_cgroup_token text =
     (if text = ''max'' \<or> text = [] then None else py_int_of_str (py_strip text))"

definition read_finite_cgroup_limit :: "host_files \<Rightarrow> fpath \<Rightarrow> int option" where
  "read_finite_cgroup_limit h p =
     (case hf_text h p of None \<Rightarrow> None | Some t \<Rightarrow> parse_cgroup_token (py_strip t))"

definition better_candidate ::
  "host_files \<Rightarrow> fpath \<Rightarrow> string \<Rightarrow> string \<Rightarrow> (int \<times> string) option \<Rightarrow> (int \<times> string) option" where
  "better_candidate h croot filename ancestor best =
     (case read_finite_cgroup_limit h (under croot ancestor @ [filename]) of
        None \<Rightarrow> best
      | Some limit \<Rightarrow>
          (case best of
             None \<Rightarrow> Some (limit, ancestor)
           | Some (b, a) \<Rightarrow> if limit < b then Some (limit, ancestor) else best))"

definition min_ancestor_candidate ::
  "host_files \<Rightarrow> fpath \<Rightarrow> string list \<Rightarrow> string \<Rightarrow> (int \<times> string) option" where
  "min_ancestor_candidate h croot ancestors filename =
     fold (better_candidate h croot filename) ancestors None"

definition min_ancestor_limit :: "host_files \<Rightarrow> fpath \<Rightarrow> string list \<Rightarrow> string \<Rightarrow> int option" where
  "min_ancestor_limit h croot ancestors filename = map_option fst (min_ancestor_candidate h croot ancestors filename)"

definition bounding_ancestor_path :: "host_files \<Rightarrow> fpath \<Rightarrow> string list \<Rightarrow> string option" where
  "bounding_ancestor_path h croot ancestors = map_option snd (min_ancestor_candidate h croot ancestors ''memory.max'')"

text \<open>\<open>_resolve_cgroup\<close>: the cgroup of the process with its ancestors; the test for cgroup v2 may raise.\<close>

definition resolve_cgroup ::
  "host_files \<Rightarrow> fpath \<Rightarrow> string option \<Rightarrow> string option \<Rightarrow> (string \<times> string list) option res" where
  "resolve_cgroup h croot proc_self_cgroup self_cgroup =
     res_bind (hf_exists h (croot @ [''cgroup.controllers''])) (\<lambda>v2.
       Inr (if \<not> v2 then None
            else map_option (\<lambda>p. (p, cgroup_ancestors p))
                   (case self_cgroup of Some p \<Rightarrow> Some p | None \<Rightarrow> self_cgroup_path proc_self_cgroup)))"

definition events_line :: "string \<Rightarrow> (string \<times> int) list \<Rightarrow> (string \<times> int) list" where
  "events_line line counters =
     (case py_words line of
        [k, v] \<Rightarrow>
          if k \<in> {''high'', ''max'', ''oom'', ''oom_kill''} then
            (case py_int_of_str (py_strip v) of Some n \<Rightarrow> AList.update k n counters | None \<Rightarrow> counters)
          else counters
      | _ \<Rightarrow> counters)"

definition read_events_counters :: "host_files \<Rightarrow> fpath \<Rightarrow> (string \<times> int) list" where
  "read_events_counters h p =
     (case hf_text h p of None \<Rightarrow> [] | Some t \<Rightarrow> fold events_line (py_splitlines t) [])"

subsection \<open>The probes\<close>

record memory_limits =
  ml_memory_max :: "int option"
  ml_memory_swap_max :: "int option"
  ml_cgroup_path :: "string option"
  ml_bounding_path :: "string option"

definition no_limits :: memory_limits where
  "no_limits = \<lparr>ml_memory_max = None, ml_memory_swap_max = None, ml_cgroup_path = None, ml_bounding_path = None\<rparr>"

definition cgroup_memory_limits ::
  "host_files \<Rightarrow> fpath \<Rightarrow> string option \<Rightarrow> string option \<Rightarrow> memory_limits res" where
  "cgroup_memory_limits h croot proc_self_cgroup self_cgroup =
     res_bind (resolve_cgroup h croot proc_self_cgroup self_cgroup) (\<lambda>r. Inr (case r of
        None \<Rightarrow> no_limits
      | Some (cgroup_path, ancestors) \<Rightarrow>
          (let best = min_ancestor_candidate h croot ancestors ''memory.max'' in
           \<lparr>ml_memory_max = map_option fst best,
            ml_memory_swap_max = min_ancestor_limit h croot ancestors ''memory.swap.max'',
            ml_cgroup_path = Some cgroup_path, ml_bounding_path = map_option snd best\<rparr>)))"

definition cgroup_memory_high ::
  "host_files \<Rightarrow> fpath \<Rightarrow> string option \<Rightarrow> string option \<Rightarrow> int option res" where
  "cgroup_memory_high h croot proc_self_cgroup self_cgroup =
     res_bind (resolve_cgroup h croot proc_self_cgroup self_cgroup) (\<lambda>r. Inr (case r of
        None \<Rightarrow> None
      | Some (_, ancestors) \<Rightarrow> min_ancestor_limit h croot ancestors ''memory.high''))"

text \<open>\<open>owner\<close> is the uid \<open>stat\<close> gives of a directory (\<open>None\<close>: it raised), \<open>writable\<close> is \<open>os.access\<close>.\<close>

definition cgroup_delegated ::
  "host_files \<Rightarrow> fpath \<Rightarrow> string option \<Rightarrow> string option \<Rightarrow> (fpath \<Rightarrow> int option) \<Rightarrow> (fpath \<Rightarrow> bool) \<Rightarrow> int
     \<Rightarrow> bool option res" where
  "cgroup_delegated h croot proc_self_cgroup self_cgroup owner writable uid =
     res_bind (resolve_cgroup h croot proc_self_cgroup self_cgroup) (\<lambda>r. Inr (case r of
        None \<Rightarrow> None
      | Some (cgroup_path, _) \<Rightarrow>
          (let leaf = under croot cgroup_path in
           map_option (\<lambda>u. u = uid \<and> writable (leaf @ [''cgroup.procs'']) \<and> writable (leaf @ [''memory.high'']))
             (owner leaf))))"

definition usage_at :: "host_files \<Rightarrow> fpath \<Rightarrow> string \<Rightarrow> cg_usage" where
  "usage_at h croot bounding =
     (let base = under croot bounding;
          num = (\<lambda>f. case read_finite_cgroup_limit h (base @ [f]) of Some n \<Rightarrow> n | None \<Rightarrow> 0) in
      \<lparr>cu_memory_current = num ''memory.current'', cu_memory_swap_current = num ''memory.swap.current'',
       cu_memory_events = read_events_counters h (base @ [''memory.events'']), cu_cgroup_path = bounding\<rparr>)"

text \<open>\<open>cgroup_memory_usage\<close>: every \<open>OSError\<close> gives the empty result.\<close>

definition cgroup_memory_usage ::
  "host_files \<Rightarrow> fpath \<Rightarrow> string option \<Rightarrow> string option \<Rightarrow> string option \<Rightarrow> cg_usage option" where
  "cgroup_memory_usage h croot proc_self_cgroup self_cgroup bounding_cgroup =
     (case bounding_cgroup of
        Some bounding \<Rightarrow>
          (case hf_is_dir h (under croot bounding) of
             Inr True \<Rightarrow> Some (usage_at h croot bounding) | _ \<Rightarrow> None)
      | None \<Rightarrow>
          (case resolve_cgroup h croot proc_self_cgroup self_cgroup of
             Inr (Some (_, ancestors)) \<Rightarrow> map_option (usage_at h croot) (bounding_ancestor_path h croot ancestors)
           | _ \<Rightarrow> None))"

subsection \<open>The soft brake\<close>

definition min_memory_high_bytes :: int where "min_memory_high_bytes = 64 * 1024 * 1024"
definition min_brake_current_bytes :: int where "min_brake_current_bytes = 128 * 1024 * 1024"

definition brake_high_value :: "int \<Rightarrow> int \<Rightarrow> int option" where
  "brake_high_value memory_current step_pct =
     (if memory_current < min_brake_current_bytes then None
      else Some (max (py_trunc (real_of_int memory_current * (1 - real_of_int step_pct / 100)))
                     min_memory_high_bytes))"

definition leaf_dir ::
  "host_files \<Rightarrow> fpath \<Rightarrow> string option \<Rightarrow> string option \<Rightarrow> fpath option res" where
  "leaf_dir h croot proc_self_cgroup self_cgroup =
     res_bind (resolve_cgroup h croot proc_self_cgroup self_cgroup) (\<lambda>r.
       Inr (map_option (\<lambda>(p, _). under croot p) r))"

definition read_cgroup_raw :: "host_files \<Rightarrow> fpath \<Rightarrow> string option" where
  "read_cgroup_raw h p = map_option py_strip (hf_text h p)"

definition write_file :: "fpath \<Rightarrow> string \<Rightarrow> host_files \<Rightarrow> host_files" where
  "write_file p s h = h\<lparr>hf_text := (hf_text h)(p := Some s)\<rparr>"

definition engage_leaf_memory_high ::
  "int \<Rightarrow> fpath \<Rightarrow> string option \<Rightarrow> string option \<Rightarrow> host_files \<Rightarrow> engage_result res \<times> host_files" where
  "engage_leaf_memory_high step_pct croot proc_self_cgroup self_cgroup h =
     (case leaf_dir h croot proc_self_cgroup self_cgroup of
        Inl e \<Rightarrow> (Inl e, h)
      | Inr None \<Rightarrow> (Inr EngageNone, h)
      | Inr (Some leaf) \<Rightarrow>
          (case read_finite_cgroup_limit h (leaf @ [''memory.current'']) of
             None \<Rightarrow> (Inr EngageNone, h)
           | Some current \<Rightarrow>
               (case brake_high_value current step_pct of
                  None \<Rightarrow> (Inr EngageNone, h)
                | Some target \<Rightarrow>
                    (case read_cgroup_raw h (leaf @ [''memory.high'']) of
                       None \<Rightarrow> (Inr EngageNone, h)
                     | Some previous \<Rightarrow>
                         if (case parse_cgroup_token previous of None \<Rightarrow> False | Some p \<Rightarrow> target \<ge> p)
                         then (Inr EngageNone, h)
                         else (case hf_write_error h (leaf @ [''memory.high'']) of
                                 Some errno \<Rightarrow> (Inr (EngageErrno errno), h)
                               | None \<Rightarrow> (Inr (EngageOk previous target current),
                                          write_file (leaf @ [''memory.high'']) (int_digits target) h))))))"

definition restore_leaf_memory_high ::
  "string \<Rightarrow> fpath \<Rightarrow> string option \<Rightarrow> string option \<Rightarrow> host_files \<Rightarrow> bool res \<times> host_files" where
  "restore_leaf_memory_high previous croot proc_self_cgroup self_cgroup h =
     (case leaf_dir h croot proc_self_cgroup self_cgroup of
        Inl e \<Rightarrow> (Inl e, h)
      | Inr None \<Rightarrow> (Inr False, h)
      | Inr (Some leaf) \<Rightarrow>
          (case hf_write_error h (leaf @ [''memory.high'']) of
             Some errno \<Rightarrow> (Inr False, h)
           | None \<Rightarrow> (Inr True, write_file (leaf @ [''memory.high'']) previous h)))"

subsection \<open>The probe at startup (cli/\_serve\_cgroup.py: \_probe\_and\_emit\_cgroup\_defer)\<close>

definition mem_total_bytes :: "vm_reading \<Rightarrow> int" where "mem_total_bytes vm = vm_total vm"

definition swap_total_bytes :: "vm_reading \<Rightarrow> int" where "swap_total_bytes vm = vm_swap_total vm"

record probe_obs =
  po_files :: host_files
  po_self_cgroup :: "string option"
  po_owner :: "fpath \<Rightarrow> int option"
  po_writable :: "fpath \<Rightarrow> bool"
  po_uid :: int
  po_vm :: vm_reading

definition probe_limits :: "fpath \<Rightarrow> probe_obs \<Rightarrow> cgroup_limits res" where
  "probe_limits croot ob =
     res_bind (cgroup_memory_limits (po_files ob) croot (po_self_cgroup ob) None) (\<lambda>budget.
     res_bind (cgroup_memory_high (po_files ob) croot (po_self_cgroup ob) (ml_cgroup_path budget)) (\<lambda>high.
     res_bind (cgroup_delegated (po_files ob) croot (po_self_cgroup ob) (ml_cgroup_path budget)
                 (po_owner ob) (po_writable ob) (po_uid ob)) (\<lambda>delegated.
       Inr \<lparr>cl_cgroup_path = ml_cgroup_path budget, cl_memory_max = ml_memory_max budget,
            cl_swap_max = ml_memory_swap_max budget, cl_bounding_path = ml_bounding_path budget,
            cl_memory_high = high, cl_delegated = delegated,
            cl_swap_total = swap_total_bytes (po_vm ob), cl_mem_total = mem_total_bytes (po_vm ob)\<rparr>)))"

text \<open>The advisories of the startup event; \<open>AddMemoryHigh True\<close> carries the caveat on the floor.\<close>

datatype cgroup_advisory = SwapCapLow | AddMemoryHigh bool | Undelegated

definition swap_cap_pct :: "(real \<Rightarrow> real) \<Rightarrow> cgroup_limits \<Rightarrow> real option" where
  "swap_cap_pct round1 l =
     (case cl_swap_max l of
        None \<Rightarrow> None
      | Some s \<Rightarrow> if cl_swap_total l > 0
                  then Some (round1 (100 * real_of_int s / real_of_int (cl_swap_total l))) else None)"

definition own_scope :: "cgroup_limits \<Rightarrow> bool" where
  "own_scope l \<longleftrightarrow> cl_memory_max l \<noteq> None \<and> cl_memory_high l = None \<and> cl_bounding_path l = cl_cgroup_path l"

definition probe_advisories :: "(real \<Rightarrow> real) \<Rightarrow> bool \<Rightarrow> cgroup_limits \<Rightarrow> cgroup_advisory list" where
  "probe_advisories round1 brake_memory_high l =
     (case swap_cap_pct round1 l of Some pct \<Rightarrow> if pct < 25 then [SwapCapLow] else [] | None \<Rightarrow> [])
     @ (if own_scope l then [AddMemoryHigh (\<not> probe_defer l)] else [])
     @ (if brake_memory_high \<and> cl_delegated l \<noteq> Some True
           \<or> cl_delegated l = Some False \<and> (cl_memory_high l \<noteq> None \<or> own_scope l)
        then [Undelegated] else [])"

subsection \<open>The tightest ancestor\<close>

text \<open>The nearest of the ancestors with the least finite limit.\<close>

definition tightest :: "(string \<Rightarrow> int option) \<Rightarrow> string list \<Rightarrow> (int \<times> string) option \<Rightarrow> bool" where
  "tightest limit ancestors best \<longleftrightarrow>
     (case best of
        None \<Rightarrow> \<forall>a \<in> set ancestors. limit a = None
      | Some (m, a) \<Rightarrow>
          (\<exists>near far. ancestors = near @ a # far \<and> limit a = Some m
             \<and> (\<forall>b \<in> set near. \<forall>n. limit b = Some n \<longrightarrow> m < n)
             \<and> (\<forall>b \<in> set far. \<forall>n. limit b = Some n \<longrightarrow> m \<le> n)))"

definition limit_at :: "host_files \<Rightarrow> fpath \<Rightarrow> string \<Rightarrow> string \<Rightarrow> int option" where
  "limit_at h croot filename ancestor = read_finite_cgroup_limit h (under croot ancestor @ [filename])"

lemma tightest_snoc_keep:
  assumes "tightest f as (Some (m, a))" "\<And>n. f x = Some n \<Longrightarrow> m \<le> n"
  shows "tightest f (as @ [x]) (Some (m, a))"
proof -
  obtain near far where "as = near @ a # far" "f a = Some m"
    "\<forall>b \<in> set near. \<forall>n. f b = Some n \<longrightarrow> m < n" "\<forall>b \<in> set far. \<forall>n. f b = Some n \<longrightarrow> m \<le> n"
    using assms(1) by (auto simp: tightest_def)
  then have "as @ [x] = near @ a # (far @ [x])" "\<forall>b \<in> set (far @ [x]). \<forall>n. f b = Some n \<longrightarrow> m \<le> n"
    using assms(2) by auto
  with \<open>f a = Some m\<close> \<open>\<forall>b \<in> set near. _\<close> show ?thesis
    unfolding tightest_def by (simp only: option.case prod.case) blast
qed

lemma tightest_snoc_new:
  assumes "\<And>b n. b \<in> set as \<Longrightarrow> f b = Some n \<Longrightarrow> m < n" "f x = Some m"
  shows "tightest f (as @ [x]) (Some (m, x))"
  unfolding tightest_def using assms by (simp only: option.case prod.case) (rule exI [of _ as], auto)

lemma tightest_least:
  assumes "tightest f as (Some (m, a))"
  shows "a \<in> set as \<and> f a = Some m \<and> (\<forall>b \<in> set as. \<forall>n. f b = Some n \<longrightarrow> m \<le> n)"
  using assms by (fastforce simp: tightest_def)

lemma min_ancestor_tightest:
  "tightest (limit_at h croot filename) as (min_ancestor_candidate h croot as filename)"
proof (induction as rule: rev_induct)
  case Nil
  show ?case by (simp add: tightest_def min_ancestor_candidate_def)
next
  case (snoc x as)
  let ?f = "limit_at h croot filename" and ?best = "min_ancestor_candidate h croot as filename"
  have step: "min_ancestor_candidate h croot (as @ [x]) filename = better_candidate h croot filename x ?best"
    by (simp add: min_ancestor_candidate_def)
  show ?case
  proof (cases "?f x")
    case None
    then have b: "better_candidate h croot filename x ?best = ?best"
      by (simp add: better_candidate_def limit_at_def)
    show ?thesis
    proof (cases ?best)
      case None2: None
      show ?thesis using snoc None b unfolding step None2 by (auto simp: tightest_def)
    next
      case (Some p)
      obtain m a where p: "p = (m, a)" by (cases p)
      show ?thesis using snoc None b unfolding step Some p by (auto intro: tightest_snoc_keep)
    qed
  next
    case (Some l)
    then have r: "read_finite_cgroup_limit h (under croot x @ [filename]) = Some l"
      by (simp add: limit_at_def)
    show ?thesis
    proof (cases ?best)
      case None
      have "better_candidate h croot filename x ?best = Some (l, x)" by (simp add: better_candidate_def r None)
      moreover have "\<forall>a \<in> set as. ?f a = None" using snoc None by (simp add: tightest_def)
      ultimately show ?thesis unfolding step using Some by (auto intro!: tightest_snoc_new)
    next
      case (Some p)
      obtain m a where p: "p = (m, a)" by (cases p)
      have t: "tightest ?f as (Some (m, a))" using snoc Some p by simp
      have b: "better_candidate h croot filename x ?best = (if l < m then Some (l, x) else Some (m, a))"
        by (simp add: better_candidate_def r Some p)
      show ?thesis
      proof (cases "l < m")
        case True
        then have "tightest ?f (as @ [x]) (Some (l, x))"
          using tightest_least [OF t] \<open>?f x = Some l\<close> by (intro tightest_snoc_new) auto
        then show ?thesis unfolding step b using True by simp
      next
        case False
        then have "tightest ?f (as @ [x]) (Some (m, a))"
          using \<open>?f x = Some l\<close> by (intro tightest_snoc_keep [OF t]) simp
        then show ?thesis unfolding step b using False by simp
      qed
    qed
  qed
qed

lemma resolve_cgroup_ancestors:
  "resolve_cgroup h croot proc self = Inr (Some (p, as)) \<Longrightarrow> as = cgroup_ancestors p"
  by (auto simp: resolve_cgroup_def res_bind_Inr_iff split: if_splits)

lemma budget_tightest:
  assumes "cgroup_memory_limits h croot proc_self_cgroup self_cgroup = Inr budget" "ml_cgroup_path budget = Some p"
  shows "\<exists>best. tightest (limit_at h croot ''memory.max'') (cgroup_ancestors p) best
           \<and> ml_memory_max budget = map_option fst best \<and> ml_bounding_path budget = map_option snd best
           \<and> (\<exists>swap. tightest (limit_at h croot ''memory.swap.max'') (cgroup_ancestors p) swap
                \<and> ml_memory_swap_max budget = map_option fst swap)"
proof -
  obtain as where r: "resolve_cgroup h croot proc_self_cgroup self_cgroup = Inr (Some (p, as))"
    and budget: "budget = \<lparr>ml_memory_max = map_option fst (min_ancestor_candidate h croot as ''memory.max''),
            ml_memory_swap_max = min_ancestor_limit h croot as ''memory.swap.max'',
            ml_cgroup_path = Some p, ml_bounding_path = map_option snd (min_ancestor_candidate h croot as ''memory.max'')\<rparr>"
    using assms
    by (auto simp: cgroup_memory_limits_def res_bind_Inr_iff no_limits_def Let_def split: option.splits)
  note as = resolve_cgroup_ancestors [OF r]
  show ?thesis unfolding budget as [symmetric] min_ancestor_limit_def
    using min_ancestor_tightest by fastforce
qed

text \<open>C40: the memory budget the probe reports is the tightest of the process's cgroup and all its ancestors: the reported \<open>memory.max\<close> is the least finite value of that file among them, the reported bounding path is the nearest ancestor that has it, both are absent exactly when no ancestor has one, and the swap limit is chosen the same way on its own file.\<close>

theorem budget_is_tightest:
  assumes "cgroup_memory_limits h croot proc_self_cgroup self_cgroup = Inr budget" "ml_cgroup_path budget = Some p"
  shows "\<exists>best. tightest (limit_at h croot ''memory.max'') (cgroup_ancestors p) best
           \<and> ml_memory_max budget = map_option fst best \<and> ml_bounding_path budget = map_option snd best
           \<and> (\<exists>swap. tightest (limit_at h croot ''memory.swap.max'') (cgroup_ancestors p) swap
                \<and> ml_memory_swap_max budget = map_option fst swap)"
  by (rule budget_tightest [OF assms])

definition example_cgroup :: host_files where
  "example_cgroup =
     \<lparr>hf_text = [[''sys'', ''u.slice'', ''s.scope'', ''memory.max''] \<mapsto> ''max'' @ [line_feed],
                 [''sys'', ''u.slice'', ''memory.max''] \<mapsto> ''1073741824'' @ [line_feed],
                 [''sys'', ''u.slice'', ''memory.swap.max''] \<mapsto> ''0'' @ [line_feed],
                 [''sys'', ''u.slice'', ''s.scope'', ''memory.high''] \<mapsto> ''max'' @ [line_feed],
                 [''sys'', ''u.slice'', ''s.scope'', ''memory.current''] \<mapsto> ''268435456'' @ [line_feed]],
      hf_exists = (\<lambda>_. Inr True), hf_is_dir = (\<lambda>_. Inr True), hf_write_error = (\<lambda>_. None)\<rparr>"

definition example_self_cgroup :: "string option" where
  "example_self_cgroup = Some (''0::/u.slice/s.scope'' @ [line_feed])"

lemma example_limits:
  "cgroup_memory_limits example_cgroup [''sys''] example_self_cgroup None =
     Inr \<lparr>ml_memory_max = Some 1073741824, ml_memory_swap_max = Some 0,
          ml_cgroup_path = Some ''/u.slice/s.scope'', ml_bounding_path = Some ''/u.slice''\<rparr>"
  by code_simp

lemma budget_is_tightest_witness:
  "\<exists>best. tightest (limit_at example_cgroup [''sys''] ''memory.max'') (cgroup_ancestors ''/u.slice/s.scope'') best
     \<and> Some 1073741824 = map_option fst best \<and> Some ''/u.slice'' = map_option snd best
     \<and> (\<exists>swap. tightest (limit_at example_cgroup [''sys''] ''memory.swap.max'') (cgroup_ancestors ''/u.slice/s.scope'') swap
                \<and> Some 0 = map_option fst swap)"
  using budget_is_tightest [OF example_limits, of "''/u.slice/s.scope''"] by simp

subsection \<open>Deferring to the kernel\<close>

lemma probe_limits_fields:
  assumes "probe_limits croot ob = Inr l"
  shows "\<exists>budget. cgroup_memory_limits (po_files ob) croot (po_self_cgroup ob) None = Inr budget
     \<and> cl_cgroup_path l = ml_cgroup_path budget \<and> cl_memory_max l = ml_memory_max budget
     \<and> cl_swap_max l = ml_memory_swap_max budget \<and> cl_bounding_path l = ml_bounding_path budget
     \<and> cl_swap_total l = vm_swap_total (po_vm ob) \<and> cl_mem_total l = vm_total (po_vm ob)"
  using assms by (auto simp: probe_limits_def res_bind_Inr_iff swap_total_bytes_def mem_total_bytes_def)

lemma limits_of_a_cgroup:
  "cgroup_memory_limits h croot proc self = Inr budget \<Longrightarrow> ml_memory_max budget \<noteq> None \<Longrightarrow> ml_cgroup_path budget \<noteq> None"
  by (auto simp: cgroup_memory_limits_def res_bind_Inr_iff no_limits_def Let_def split: option.splits)

text \<open>When the startup probe lets the mid-round floor defer to the kernel, some cgroup of the process bounds its memory strictly below the RAM of the host and some cgroup of it bounds its swap by at most the swap of the host.\<close>

theorem deferral_needs_a_binding_budget:
  assumes "probe_limits croot ob = Inr l" "probe_defer l"
  shows "\<exists>p a b m s. cl_cgroup_path l = Some p \<and> a \<in> set (cgroup_ancestors p) \<and> b \<in> set (cgroup_ancestors p)
     \<and> limit_at (po_files ob) croot ''memory.max'' a = Some m \<and> m < vm_total (po_vm ob)
     \<and> limit_at (po_files ob) croot ''memory.swap.max'' b = Some s \<and> s \<le> vm_swap_total (po_vm ob)"
proof -
  obtain m s where ms: "cl_memory_max l = Some m" "cl_swap_max l = Some s"
    "m < cl_mem_total l" "s \<le> cl_swap_total l"
    using assms(2) by (auto simp: probe_defer_def split: option.splits)
  obtain budget where b: "cgroup_memory_limits (po_files ob) croot (po_self_cgroup ob) None = Inr budget"
    "cl_cgroup_path l = ml_cgroup_path budget" "cl_memory_max l = ml_memory_max budget"
    "cl_swap_max l = ml_memory_swap_max budget"
    "cl_swap_total l = vm_swap_total (po_vm ob)" "cl_mem_total l = vm_total (po_vm ob)"
    using probe_limits_fields [OF assms(1)] by blast
  obtain p where p: "ml_cgroup_path budget = Some p" using limits_of_a_cgroup [OF b(1)] b(3) ms(1) by (metis option.distinct(1) not_None_eq)
  obtain best swap where t: "tightest (limit_at (po_files ob) croot ''memory.max'') (cgroup_ancestors p) best"
      "ml_memory_max budget = map_option fst best"
      "tightest (limit_at (po_files ob) croot ''memory.swap.max'') (cgroup_ancestors p) swap"
      "ml_memory_swap_max budget = map_option fst swap"
    using budget_tightest [OF b(1) p] by blast
  obtain a c where ac: "best = Some (m, a)" "swap = Some (s, c)" using t(2,4) ms b(3,4) by auto
  show ?thesis
    using tightest_least [OF t(1) [unfolded ac]] tightest_least [OF t(3) [unfolded ac]] ms b p by auto
qed

definition example_probe :: probe_obs where
  "example_probe = \<lparr>po_files = example_cgroup, po_self_cgroup = example_self_cgroup, po_owner = (\<lambda>_. Some 1000),
     po_writable = (\<lambda>_. True), po_uid = 1000,
     po_vm = \<lparr>vm_total = 4294967296, vm_available = 0, vm_free = 0, vm_swap_sout = 0, vm_swap_total = 0\<rparr>\<rparr>"

definition example_probed :: cgroup_limits where
  "example_probed = \<lparr>cl_cgroup_path = Some ''/u.slice/s.scope'', cl_memory_max = Some 1073741824, cl_swap_max = Some 0,
     cl_bounding_path = Some ''/u.slice'', cl_memory_high = None, cl_delegated = Some True,
     cl_swap_total = 0, cl_mem_total = 4294967296\<rparr>"

lemma example_probe_result: "probe_limits [''sys''] example_probe = Inr example_probed" "probe_defer example_probed"
  by code_simp+

lemma deferral_needs_a_binding_budget_witness:
  "\<exists>p a b m s. cl_cgroup_path example_probed = Some p \<and> a \<in> set (cgroup_ancestors p) \<and> b \<in> set (cgroup_ancestors p)
     \<and> limit_at (po_files example_probe) [''sys''] ''memory.max'' a = Some m \<and> m < vm_total (po_vm example_probe)
     \<and> limit_at (po_files example_probe) [''sys''] ''memory.swap.max'' b = Some s \<and> s \<le> vm_swap_total (po_vm example_probe)"
  by (rule deferral_needs_a_binding_budget [OF example_probe_result])

subsection \<open>One reading of the round's usage serves the later ones\<close>

lemma usage_cached:
  assumes "cgroup_memory_usage h croot proc_self_cgroup self_cgroup None = Some u"
    and "hf_is_dir h (under croot (cu_cgroup_path u)) = Inr True"
  shows "cgroup_memory_usage h croot proc' self' (Some (cu_cgroup_path u)) = Some u"
proof -
  obtain b where "u = usage_at h croot b"
    using assms(1) by (auto simp: cgroup_memory_usage_def split: sum.splits option.splits)
  then show ?thesis using assms(2) by (simp add: cgroup_memory_usage_def usage_at_def Let_def)
qed

text \<open>A bounding directory that is gone gives no usage, not a usage of zero.\<close>

lemma vanished_bound_reads_nothing:
  "hf_is_dir h (under croot b) \<noteq> Inr True \<Longrightarrow> cgroup_memory_usage h croot proc self (Some b) = None"
  by (auto simp: cgroup_memory_usage_def split: sum.splits bool.splits)

subsection \<open>The brake\<close>

lemma py_trunc_bounds: "0 \<le> x \<Longrightarrow> real_of_int (py_trunc x) \<le> x \<and> 0 \<le> py_trunc x"
  by (simp add: py_trunc_def)

lemma brake_high_value_bounds:
  assumes "brake_high_value cur step = Some t" "0 \<le> step" "step \<le> 100"
  shows "min_memory_high_bytes \<le> t \<and> t \<le> cur \<and> min_brake_current_bytes \<le> cur"
proof -
  let ?x = "real_of_int cur * (1 - real_of_int step / 100)"
  have c: "min_brake_current_bytes \<le> cur" and t: "t = max (py_trunc ?x) min_memory_high_bytes"
    using assms(1) by (auto simp: brake_high_value_def split: if_splits)
  have c0: "0 \<le> real_of_int cur" using c by (simp add: min_brake_current_bytes_def)
  have f: "0 \<le> 1 - real_of_int step / 100" "1 - real_of_int step / 100 \<le> 1" using assms(2,3) by simp_all
  have x: "0 \<le> ?x" "?x \<le> real_of_int cur" using mult_nonneg_nonneg [OF c0 f(1)] mult_left_mono [OF f(2) c0] by simp_all
  have "py_trunc ?x \<le> cur" using py_trunc_bounds [OF x(1)] x(2) by linarith
  moreover have "min_memory_high_bytes \<le> cur" using c by (simp add: min_brake_current_bytes_def min_memory_high_bytes_def)
  ultimately show ?thesis using t c by simp
qed

lemma brake_half:
  assumes "brake_high_value cur step = Some t" "0 \<le> step" "step \<le> 50"
  shows "cur \<le> 2 * t + 1"
proof -
  let ?x = "real_of_int cur * (1 - real_of_int step / 100)"
  have c: "min_brake_current_bytes \<le> cur" and t: "t = max (py_trunc ?x) min_memory_high_bytes"
    using assms(1) by (auto simp: brake_high_value_def split: if_splits)
  have c0: "0 \<le> real_of_int cur" using c by (simp add: min_brake_current_bytes_def)
  have f: "1 / 2 \<le> 1 - real_of_int step / 100" using assms(3) by simp
  have h: "real_of_int cur * (1 / 2) \<le> ?x" by (rule mult_left_mono [OF f c0])
  have "?x < real_of_int (py_trunc ?x) + 1" using h c0 by (auto simp: py_trunc_def) 
  then have "real_of_int cur < 2 * real_of_int (py_trunc ?x) + 2" using h by simp
  then have "cur < 2 * py_trunc ?x + 2" by linarith
  then show ?thesis using t by simp
qed

lemma engage_cases:
  assumes "engage_leaf_memory_high step croot proc self h = (r, h')"
  shows "(h' = h \<and> (r = Inr EngageNone \<or> (\<exists>n. r = Inr (EngageErrno n)) \<or> (\<exists>e. r = Inl e)))
     \<or> (\<exists>leaf current target previous. leaf_dir h croot proc self = Inr (Some leaf)
          \<and> r = Inr (EngageOk previous target current)
          \<and> read_finite_cgroup_limit h (leaf @ [''memory.current'']) = Some current
          \<and> brake_high_value current step = Some target
          \<and> read_cgroup_raw h (leaf @ [''memory.high'']) = Some previous
          \<and> (\<forall>p. parse_cgroup_token previous = Some p \<longrightarrow> target < p)
          \<and> hf_write_error h (leaf @ [''memory.high'']) = None
          \<and> h' = write_file (leaf @ [''memory.high'']) (int_digits target) h)"
  using assms by (auto simp: engage_leaf_memory_high_def split: sum.splits option.splits if_splits)

text \<open>Between an engagement and its release nothing else wrote the leaf; what a file holds is its token.\<close>

definition same_elsewhere :: "fpath \<Rightarrow> host_files \<Rightarrow> host_files \<Rightarrow> bool" where
  "same_elsewhere p h h' \<longleftrightarrow>
     (\<forall>q. q \<noteq> p \<longrightarrow> hf_text h' q = hf_text h q) \<and> hf_exists h' = hf_exists h \<and> hf_is_dir h' = hf_is_dir h
     \<and> hf_write_error h' = hf_write_error h"

lemma same_elsewhere_write [simp]: "same_elsewhere p h (write_file p s h)"
  by (simp add: same_elsewhere_def write_file_def)

lemma same_elsewhere_refl [simp]: "same_elsewhere p h h"
  by (simp add: same_elsewhere_def)

lemma leaf_dir_write [simp]: "leaf_dir (write_file p s h) croot proc self = leaf_dir h croot proc self"
  by (simp add: leaf_dir_def resolve_cgroup_def write_file_def)

lemma write_error_write [simp]: "hf_write_error (write_file p s h) = hf_write_error h"
  by (simp add: write_file_def)

lemma text_write [simp]: "hf_text (write_file p s h) = (hf_text h)(p := Some s)"
  by (simp add: write_file_def)

lemma dropWhile_idem [simp]: "dropWhile P (dropWhile P xs) = dropWhile P xs"
  by (induction xs) auto

lemma py_strip_ends:
  assumes "py_strip s \<noteq> []"
  shows "\<not> is_space (hd (py_strip s)) \<and> \<not> is_space (last (py_strip s))"
proof -
  let ?l = "py_lstrip s"
  have last: "\<not> is_space (last (py_strip s))"
    using assms hd_dropWhile [of is_space "rev ?l"] by (simp add: py_strip_def last_rev)
  have "?l = py_strip s @ rev (takeWhile is_space (rev ?l))"
    unfolding py_strip_def by (metis rev_append rev_rev_ident takeWhile_dropWhile_id)
  then have hd: "hd (py_strip s) = hd ?l" and ne: "?l \<noteq> []" using assms by (metis hd_append2, auto)
  have "\<not> is_space (hd ?l)" using ne unfolding py_lstrip_def by (rule hd_dropWhile)
  with hd last show ?thesis by simp
qed

lemma py_strip_idem [simp]: "py_strip (py_strip s) = py_strip s"
  using py_strip_ends by (intro py_strip_id) auto

lemma example_engage:
  "engage_leaf_memory_high 25 [''sys''] example_self_cgroup None example_cgroup =
     (Inr (EngageOk ''max'' 201326592 268435456),
      write_file [''sys'', ''u.slice'', ''s.scope'', ''memory.high''] ''201326592'' example_cgroup)"
proof -
  have l: "leaf_dir example_cgroup [''sys''] example_self_cgroup None = Inr (Some [''sys'', ''u.slice'', ''s.scope''])"
    by code_simp
  have c: "read_finite_cgroup_limit example_cgroup ([''sys'', ''u.slice'', ''s.scope''] @ [''memory.current'']) = Some 268435456"
    by code_simp
  have p: "read_cgroup_raw example_cgroup ([''sys'', ''u.slice'', ''s.scope''] @ [''memory.high'']) = Some ''max''"
    by code_simp
  have b: "brake_high_value 268435456 25 = Some 201326592"
    by (simp add: brake_high_value_def min_brake_current_bytes_def min_memory_high_bytes_def py_trunc_def)
  have w: "hf_write_error example_cgroup p = None" for p by (simp add: example_cgroup_def)
  have d: "int_digits 201326592 = ''201326592''"
    by (simp add: int_digits_def nat_digits.simps digit_char_def char_of_def bit_Suc_0_iff)
  show ?thesis unfolding engage_leaf_memory_high_def
    by (simp add: l c [simplified] p [simplified] b w d parse_cgroup_token_def)
qed

lemma example_restore:
  "restore_leaf_memory_high ''max'' [''sys''] example_self_cgroup None
      (write_file [''sys'', ''u.slice'', ''s.scope'', ''memory.high''] ''201326592'' example_cgroup) =
     (Inr True, write_file [''sys'', ''u.slice'', ''s.scope'', ''memory.high''] ''max''
        (write_file [''sys'', ''u.slice'', ''s.scope'', ''memory.high''] ''201326592'' example_cgroup))"
proof -
  have l: "leaf_dir example_cgroup [''sys''] example_self_cgroup None = Inr (Some [''sys'', ''u.slice'', ''s.scope''])"
    by code_simp
  have w: "hf_write_error example_cgroup p = None" for p by (simp add: example_cgroup_def)
  show ?thesis by (simp add: restore_leaf_memory_high_def l w)
qed

definition example_brake_table :: table where
  "example_brake_table = [(''host_health'', TTab [(''brake'', TTab [(''memory_high'', TBool True), (''memory_high_step_pct'', TInt 25)])])]"

lemma example_brake_table_step:
  "(case parse_host_health example_brake_table of
      Inr hh \<Rightarrow> hb_memory_high_step_pct (hh_brake hh) = 25 | Inl _ \<Rightarrow> False)"
  by code_simp

lemma example_brake_table_parses:
  "\<exists>hh. parse_host_health example_brake_table = Inr hh \<and> hb_memory_high_step_pct (hh_brake hh) = 25"
  using example_brake_table_step by (auto split: sum.splits)

text \<open>C15: an engaged brake, with any step a loaded configuration can have, has changed one file, the \<open>memory.high\<close> of the process's own leaf; it holds the decimal byte count written, which lies between half of the current usage and that usage, is never under the 64 MiB floor and is strictly below the finite limit that was in force.\<close>

theorem brake_is_contained:
  assumes "parse_host_health d = Inr hh"
    and "engage_leaf_memory_high (hb_memory_high_step_pct (hh_brake hh))
           croot proc_self_cgroup self_cgroup h = (Inr (EngageOk previous written current), h')"
  shows "\<exists>leaf. leaf_dir h croot proc_self_cgroup self_cgroup = Inr (Some leaf)
     \<and> same_elsewhere (leaf @ [''memory.high'']) h h'
     \<and> hf_text h' (leaf @ [''memory.high'']) = Some (int_digits written)
     \<and> written \<le> current \<and> current \<le> 2 * written + 1 \<and> min_memory_high_bytes \<le> written
     \<and> (\<forall>limit. parse_cgroup_token previous = Some limit \<longrightarrow> written < limit)"
proof -
  have step: "0 \<le> hb_memory_high_step_pct (hh_brake hh)" "hb_memory_high_step_pct (hh_brake hh) \<le> 50"
    using parse_host_health_wf [OF assms(1)] by (simp_all add: wf_health_def Let_def max_brake_step_pct_def)
  from engage_cases [OF assms(2)] obtain leaf where
    e: "leaf_dir h croot proc_self_cgroup self_cgroup = Inr (Some leaf)"
      "brake_high_value current (hb_memory_high_step_pct (hh_brake hh)) = Some written"
      "\<forall>p. parse_cgroup_token previous = Some p \<longrightarrow> written < p"
      "h' = write_file (leaf @ [''memory.high'']) (int_digits written) h" by auto
  show ?thesis
    using brake_high_value_bounds [OF e(2) step(1)] brake_half [OF e(2) step] step(2) e by auto
qed

lemma brake_is_contained_witness:
  "\<exists>leaf. leaf_dir example_cgroup [''sys''] example_self_cgroup None = Inr (Some leaf)
     \<and> same_elsewhere (leaf @ [''memory.high'']) example_cgroup
         (write_file [''sys'', ''u.slice'', ''s.scope'', ''memory.high''] ''201326592'' example_cgroup)
     \<and> hf_text (write_file [''sys'', ''u.slice'', ''s.scope'', ''memory.high''] ''201326592'' example_cgroup)
         (leaf @ [''memory.high'']) = Some (int_digits 201326592)
     \<and> 201326592 \<le> (268435456 :: int) \<and> 268435456 \<le> 2 * 201326592 + (1 :: int) \<and> min_memory_high_bytes \<le> 201326592
     \<and> (\<forall>limit. parse_cgroup_token ''max'' = Some limit \<longrightarrow> 201326592 < limit)"
proof -
  obtain hh where hh: "parse_host_health example_brake_table = Inr hh" "hb_memory_high_step_pct (hh_brake hh) = 25"
    using example_brake_table_parses by blast
  show ?thesis by (rule brake_is_contained [OF hh(1), unfolded hh(2), OF example_engage])
qed

text \<open>Restoring what an engagement stashed succeeds, and leaves every file with the value it had before the engagement, the leaf's \<open>memory.high\<close> included, an unlimited \<open>max\<close> as well as a number.\<close>

theorem brake_release_restores:
  assumes "engage_leaf_memory_high step_pct croot proc_self_cgroup self_cgroup h = (Inr (EngageOk previous written current), h1)"
    and "restore_leaf_memory_high previous croot proc_self_cgroup self_cgroup h1 = (r, h2)"
  shows "r = Inr True \<and> (\<exists>leaf. leaf_dir h croot proc_self_cgroup self_cgroup = Inr (Some leaf)
           \<and> same_elsewhere (leaf @ [''memory.high'']) h h2
           \<and> read_cgroup_raw h2 (leaf @ [''memory.high'']) = read_cgroup_raw h (leaf @ [''memory.high'']))"
proof -
  from engage_cases [OF assms(1)] obtain leaf where
    e: "leaf_dir h croot proc_self_cgroup self_cgroup = Inr (Some leaf)"
      "read_cgroup_raw h (leaf @ [''memory.high'']) = Some previous"
      "hf_write_error h (leaf @ [''memory.high'']) = None"
      "h1 = write_file (leaf @ [''memory.high'']) (int_digits written) h" by auto
  have r: "r = Inr True" "h2 = write_file (leaf @ [''memory.high'']) previous h1"
    using assms(2) e by (auto simp: restore_leaf_memory_high_def)
  have "py_strip previous = previous" using e(2) by (auto simp: read_cgroup_raw_def)
  then have "read_cgroup_raw h2 (leaf @ [''memory.high'']) = Some previous"
    by (simp add: r read_cgroup_raw_def)
  moreover have "same_elsewhere (leaf @ [''memory.high'']) h h2"
    by (simp add: r e same_elsewhere_def write_file_def)
  ultimately show ?thesis using r e by simp
qed

lemma brake_release_restores_witness:
  "Inr True = (Inr True :: bool res) \<and> (\<exists>leaf. leaf_dir example_cgroup [''sys''] example_self_cgroup None = Inr (Some leaf)
     \<and> same_elsewhere (leaf @ [''memory.high'']) example_cgroup
         (write_file [''sys'', ''u.slice'', ''s.scope'', ''memory.high''] ''max''
            (write_file [''sys'', ''u.slice'', ''s.scope'', ''memory.high''] ''201326592'' example_cgroup))
     \<and> read_cgroup_raw (write_file [''sys'', ''u.slice'', ''s.scope'', ''memory.high''] ''max''
            (write_file [''sys'', ''u.slice'', ''s.scope'', ''memory.high''] ''201326592'' example_cgroup))
         (leaf @ [''memory.high'']) = read_cgroup_raw example_cgroup (leaf @ [''memory.high'']))"
  by (rule brake_release_restores [OF example_engage example_restore])

text \<open>An \<open>OSError\<close> of the test for cgroup v2 is not turned into a failed engagement: it reaches the caller.\<close>

lemma engage_lets_the_probe_error_escape:
  "hf_exists h (croot @ [''cgroup.controllers'']) = Inl e \<Longrightarrow>
     engage_leaf_memory_high step croot proc self h = (Inl e, h)
     \<and> restore_leaf_memory_high previous croot proc self h = (Inl e, h)"
  by (simp add: engage_leaf_memory_high_def restore_leaf_memory_high_def leaf_dir_def resolve_cgroup_def)

end
