(* ===== verification/Migrations.thy ===== *)
theory Migrations
  imports Config_Load Text_Lines "HOL-Library.Sublist"
begin

section \<open>Migration of an old configuration file (agent\_runner/migrations.py)\<close>

text \<open>
  The rewriting of the text of a configuration, line by line: renaming, dropping and relocating a
  key of a table, wrapping a bare string; the registry, whose entries look at the parsed document
  and rewrite the text or report what has to be done by hand; the pass over the registry, its
  iteration to a fixpoint and the stamp of the schema version. A regular expression of the source is
  the function that reads off its groups; the TOML parser is the parameter \<open>loads\<close> (\<open>None\<close> is
  \<open>TOMLDecodeError\<close>); a printed sentence is the value it is made of.
\<close>

subsection \<open>Reading a line\<close>

definition is_blank :: "char \<Rightarrow> bool" where
  "is_blank c \<longleftrightarrow> c = CHR '' '' \<or> c = CHR 0x09"

text \<open>\<open>^\s*\[([^\]]+)\]\<close>, the name stripped.\<close>

definition table_header :: "string \<Rightarrow> string option" where
  "table_header line =
     (case dropWhile is_space line of
        [] \<Rightarrow> None
      | c # cs \<Rightarrow>
          if c = CHR ''['' \<and> takeWhile (\<lambda>x. x \<noteq> CHR '']'') cs \<noteq> [] \<and> dropWhile (\<lambda>x. x \<noteq> CHR '']'') cs \<noteq> []
          then Some (py_strip (takeWhile (\<lambda>x. x \<noteq> CHR '']'') cs)) else None)"

text \<open>\<open>^[ \t]*key[ \t]*=\<close>: the indentation, what stands up to the equals sign, and the rest of the line.\<close>

definition key_assign :: "string \<Rightarrow> string \<Rightarrow> (string \<times> string \<times> string) option" where
  "key_assign key line =
     (let indent = takeWhile is_blank line; r = dropWhile is_blank line in
      if take (length key) r = key
      then (let s = drop (length key) r in
            case dropWhile is_blank s of
              [] \<Rightarrow> None
            | c # rest \<Rightarrow> if c = CHR ''='' then Some (indent, takeWhile is_blank s @ ''='', rest) else None)
      else None)"

text \<open>The tables an edit looks at: one by name, every phase, or one sub-table of every phase.\<close>

datatype table_pat = Literal string | EveryPhase | EveryPhaseSub string

definition phase_name_char :: "char \<Rightarrow> bool" where
  "phase_name_char c \<longleftrightarrow> c \<noteq> CHR ''.'' \<and> c \<noteq> CHR '']''"

fun pat_matches :: "table_pat \<Rightarrow> string \<Rightarrow> bool" where
  "pat_matches (Literal t) name \<longleftrightarrow> name = t"
| "pat_matches EveryPhase name \<longleftrightarrow>
     take 7 name = ''phases.'' \<and> drop 7 name \<noteq> [] \<and> list_all phase_name_char (drop 7 name)"
| "pat_matches (EveryPhaseSub sub) name \<longleftrightarrow>
     take 7 name = ''phases.'' \<and> takeWhile phase_name_char (drop 7 name) \<noteq> []
     \<and> dropWhile phase_name_char (drop 7 name) = CHR ''.'' # sub"

fun is_literal :: "table_pat \<Rightarrow> bool" where
  "is_literal (Literal t) \<longleftrightarrow> True"
| "is_literal p \<longleftrightarrow> False"

subsection \<open>The edits\<close>

text \<open>For every line, whether it is a hit: the line matches and stands under a table that does.\<close>

fun hit_marks :: "(string \<Rightarrow> bool) \<Rightarrow> table_pat \<Rightarrow> string option \<Rightarrow> string list \<Rightarrow> bool list" where
  "hit_marks hit pat cur [] = []"
| "hit_marks hit pat cur (l # ls) =
     (case table_header l of
        Some h \<Rightarrow> False # hit_marks hit pat (Some h) ls
      | None \<Rightarrow> (case cur of None \<Rightarrow> False | Some c \<Rightarrow> hit l \<and> pat_matches pat c) # hit_marks hit pat cur ls)"

definition find_table_hits :: "(string \<Rightarrow> bool) \<Rightarrow> table_pat \<Rightarrow> string list \<Rightarrow> bool list option" where
  "find_table_hits hit pat ls =
     (let marks = hit_marks hit pat None ls; n = length (filter id marks) in
      if n = 0 \<or> (is_literal pat \<and> n \<noteq> 1) then None else Some marks)"

definition edit_lines :: "(string \<Rightarrow> string) \<Rightarrow> bool list \<Rightarrow> string list \<Rightarrow> string list" where
  "edit_lines f marks ls = map (\<lambda>(b, l). if b then f l else l) (zip marks ls)"

definition assigns :: "string \<Rightarrow> string \<Rightarrow> bool" where
  "assigns key line \<longleftrightarrow> key_assign key line \<noteq> None"

definition rename_line :: "string \<Rightarrow> string \<Rightarrow> string \<Rightarrow> string" where
  "rename_line old new line =
     (case key_assign old line of None \<Rightarrow> line | Some (indent, sp, rest) \<Rightarrow> indent @ new @ sp @ rest)"

definition rename_key :: "string \<Rightarrow> string \<Rightarrow> table_pat \<Rightarrow> string \<Rightarrow> string" where
  "rename_key old new pat text =
     (let ls = splitlines_keep text in
      case find_table_hits (assigns old) pat ls of
        None \<Rightarrow> text | Some marks \<Rightarrow> concat (edit_lines (rename_line old new) marks ls))"

definition keep_lines :: "bool list \<Rightarrow> string list \<Rightarrow> string list" where
  "keep_lines marks ls = map snd (filter (\<lambda>(b, l). \<not> b) (zip marks ls))"

definition drop_key :: "string \<Rightarrow> table_pat \<Rightarrow> string \<Rightarrow> string" where
  "drop_key key pat text =
     (let ls = splitlines_keep text in
      case find_table_hits (assigns key) pat ls of
        None \<Rightarrow> text | Some marks \<Rightarrow> concat (keep_lines marks ls))"

text \<open>\<open>key = "val" rest\<close> with either quote: the groups, and the value wrapped in a list.\<close>

definition wrap_parts :: "string \<Rightarrow> string \<Rightarrow> (string \<times> string \<times> char \<times> string \<times> string) option" where
  "wrap_parts key line =
     (case key_assign key line of
        None \<Rightarrow> None
      | Some (indent, sp, r) \<Rightarrow>
          (case dropWhile is_blank r of
             [] \<Rightarrow> None
           | q # s \<Rightarrow>
               if q = CHR 0x22 \<or> q = CHR 0x27 then
                 (case dropWhile (\<lambda>c. c \<noteq> q \<and> c \<noteq> line_feed) s of
                    [] \<Rightarrow> None
                  | e # rest \<Rightarrow>
                      if e = q then Some (indent, sp @ takeWhile is_blank r, q,
                                          takeWhile (\<lambda>c. c \<noteq> q \<and> c \<noteq> line_feed) s, rest)
                      else None)
               else None))"

definition has_space :: "string option \<Rightarrow> bool" where
  "has_space s = (case s of None \<Rightarrow> False | Some t \<Rightarrow> list_ex is_space t)"

definition wraps :: "string \<Rightarrow> bool \<Rightarrow> string \<Rightarrow> bool" where
  "wraps key skip_space line =
     (case wrap_parts key line of None \<Rightarrow> False | Some (_, _, _, val, _) \<Rightarrow> \<not> (skip_space \<and> has_space (Some val)))"

definition wrap_line :: "string \<Rightarrow> string \<Rightarrow> string" where
  "wrap_line key line =
     (case wrap_parts key line of
        None \<Rightarrow> line
      | Some (indent, sp, q, val, rest) \<Rightarrow> indent @ key @ sp @ ''['' @ [q] @ val @ [q] @ '']'' @ rest)"

definition wrap_bare_string_list :: "string \<Rightarrow> table_pat \<Rightarrow> bool \<Rightarrow> string \<Rightarrow> string" where
  "wrap_bare_string_list key pat skip_space text =
     (let ls = splitlines_keep text in
      case find_table_hits (wraps key skip_space) pat ls of
        None \<Rightarrow> text | Some marks \<Rightarrow> concat (edit_lines (wrap_line key) marks ls))"

text \<open>The line after the last line of the first \<open>[to]\<close>, or the end of the file under a new header.\<close>

fun take_table :: "string list \<Rightarrow> string list \<times> string list" where
  "take_table [] = ([], [])"
| "take_table (l # ls) =
     (if table_header l \<noteq> None then ([], l # ls)
      else (case take_table ls of (mine, rest) \<Rightarrow> (l # mine, rest)))"

fun insert_in_table :: "string \<Rightarrow> string \<Rightarrow> string list \<Rightarrow> string list option" where
  "insert_in_table to new_line [] = None"
| "insert_in_table to new_line (l # ls) =
     (if table_header l = Some to
      then (case take_table ls of (mine, rest) \<Rightarrow> Some (l # mine @ new_line # rest))
      else map_option ((#) l) (insert_in_table to new_line ls))"

definition end_last_line :: "string list \<Rightarrow> string list" where
  "end_last_line ls =
     (if ls \<noteq> [] \<and> (last ls = [] \<or> last (last ls) \<noteq> line_feed)
      then butlast ls @ [last ls @ [line_feed]] else ls)"

definition relocated_line :: "string \<Rightarrow> string \<Rightarrow> string \<Rightarrow> string" where
  "relocated_line old new line =
     (case key_assign old line of None \<Rightarrow> [] | Some (indent, sp, rest) \<Rightarrow> new @ sp @ rest)"

definition relocate_key :: "string \<Rightarrow> string \<Rightarrow> string \<Rightarrow> string \<Rightarrow> string \<Rightarrow> string" where
  "relocate_key old new from_table to_table text =
     (let ls = splitlines_keep text in
      case find_table_hits (assigns old) (Literal from_table) ls of
        None \<Rightarrow> text
      | Some marks \<Rightarrow>
          (let new_line = relocated_line old new (hd (map snd (filter fst (zip marks ls))));
               kept = keep_lines marks ls
           in concat (case insert_in_table to_table new_line kept of
                        Some ls' \<Rightarrow> ls'
                      | None \<Rightarrow> end_last_line kept @ [''['' @ to_table @ '']'' @ [line_feed], new_line])))"

subsection \<open>Reading the document\<close>

definition tab :: "table \<Rightarrow> string \<Rightarrow> table" where
  "tab p name = (case map_of p name of Some (TTab d) \<Rightarrow> d | _ \<Rightarrow> [])"

definition keys_of :: "table \<Rightarrow> string list" where
  "keys_of d = map fst d"

definition unknown_keys :: "table \<Rightarrow> string list \<Rightarrow> string list" where
  "unknown_keys d allowed = sort (remdups (filter (\<lambda>k. k \<notin> set allowed) (keys_of d)))"

definition top_level_tables :: "string list" where
  "top_level_tables = [''agent'', ''runtime'', ''prompt'', ''vcs'', ''monitor'', ''phases'', ''plugins'', ''schedule'']"

definition is_table :: "toml \<Rightarrow> bool" where
  "is_table v = (case v of TTab _ \<Rightarrow> True | _ \<Rightarrow> False)"

definition scalar_tables :: "table \<Rightarrow> string list" where
  "scalar_tables p =
     filter (\<lambda>t. case map_of p t of None \<Rightarrow> False | Some v \<Rightarrow> \<not> is_table v) top_level_tables"

definition phase_subtables :: "table \<Rightarrow> table list" where
  "phase_subtables p = List.map_filter (\<lambda>kv. case snd kv of TTab d \<Rightarrow> Some d | _ \<Rightarrow> None) (tab p ''phases'')"

definition has_flat_phase_override :: "table \<Rightarrow> bool" where
  "has_flat_phase_override p \<longleftrightarrow>
     list_ex (\<lambda>(name, v). name \<noteq> ''list'' \<and> name \<noteq> ''phase_policy''
                \<and> (case v of TTab d \<Rightarrow> thas d ''round_budget_s'' | _ \<Rightarrow> False)) (tab p ''phases'')"

definition mentions_prompt :: "toml \<Rightarrow> bool" where
  "mentions_prompt v = (case v of TStr s \<Rightarrow> is_infix_of ''{prompt}'' s | _ \<Rightarrow> False)"

definition agent_missing_prompt_placeholder :: "toml option \<Rightarrow> bool" where
  "agent_missing_prompt_placeholder agent_d =
     (case agent_d of
        Some (TTab d) \<Rightarrow>
          (if tget d ''prompt_delivery'' (TStr ''argv'') \<noteq> TStr ''argv'' then False
           else (case map_of d ''prompt_arg_template'' of
                   Some (TArr xs) \<Rightarrow> \<not> list_ex mentions_prompt xs
                 | _ \<Rightarrow> False))
      | _ \<Rightarrow> False)"

definition phase_missing_prompt_placeholder :: "table \<Rightarrow> bool" where
  "phase_missing_prompt_placeholder sub \<longleftrightarrow>
     agent_missing_prompt_placeholder (map_of sub ''agent'')
     \<and> \<not> (case map_of sub ''prompt'' of Some (TTab d) \<Rightarrow> map_of d ''files'' = Some (TArr []) | _ \<Rightarrow> False)"

definition phases_scalar_keys :: "table \<Rightarrow> string list" where
  "phases_scalar_keys p =
     sort (map fst (filter (\<lambda>(k, v). k \<noteq> ''list'' \<and> k \<noteq> ''phase_policy'' \<and> \<not> is_table v) (tab p ''phases'')))"

definition bare_str :: "table \<Rightarrow> string \<Rightarrow> string \<Rightarrow> string option" where
  "bare_str p t k = (case map_of (tab p t) k of Some (TStr s) \<Rightarrow> Some s | _ \<Rightarrow> None)"

definition plugin_disable_renames :: "table \<Rightarrow> (string \<times> string) list \<Rightarrow> (string \<times> string) list" where
  "plugin_disable_renames p mapping =
     (let listed = (case map_of (tab p ''plugins'') ''disable'' of Some (TArr xs) \<Rightarrow> xs | _ \<Rightarrow> [])
      in filter (\<lambda>(k, v). TStr k \<in> set listed) mapping)"

definition old_plugin_disable_names :: "(string \<times> string) list" where
  "old_plugin_disable_names =
     [(''claude_error_detector'', ''claude''), (''gemini_error_detector'', ''gemini''),
      (''codewhale_error_detector'', ''codewhale''), (''kimi_error_detector'', ''kimi''),
      (''pi_error_detector'', ''pi'')]"

definition renamed_plugin_disable_names :: "(string \<times> string) list" where
  "renamed_plugin_disable_names = [(''claude_rate_limit'', ''claude'')]"

text \<open>\<open>(v or 0) > 0\<close>: a value that is no number raises.\<close>

fun or_zero :: "toml option \<Rightarrow> pyfloat res" where
  "or_zero None = Inr (Finite 0)"
| "or_zero (Some v) =
     (case v of
        TInt n \<Rightarrow> Inr (Finite (real_of_int n))
      | TFloat x r \<Rightarrow> Inr (Finite x)
      | TBool b \<Rightarrow> Inr (Finite (if b then 1 else 0))
      | TNan \<Rightarrow> Inr NotANumber
      | TInf neg \<Rightarrow> Inr (Infinite neg)
      | TStr s \<Rightarrow> if s = [] then Inr (Finite 0) else Inl TypeError
      | TArr xs \<Rightarrow> if xs = [] then Inr (Finite 0) else Inl TypeError
      | TTab d \<Rightarrow> if d = [] then Inr (Finite 0) else Inl TypeError
      | TDate s r \<Rightarrow> Inl TypeError)"

fun float_gt :: "pyfloat \<Rightarrow> pyfloat \<Rightarrow> bool" where
  "float_gt (Finite x) (Finite y) \<longleftrightarrow> x > y"
| "float_gt (Finite x) (Infinite neg) \<longleftrightarrow> neg"
| "float_gt (Infinite neg) (Finite y) \<longleftrightarrow> \<not> neg"
| "float_gt (Infinite a) (Infinite b) \<longleftrightarrow> \<not> a \<and> b"
| "float_gt _ _ \<longleftrightarrow> False"

definition threshold_over_window :: "table \<Rightarrow> bool res" where
  "threshold_over_window p =
     (let d = tab p ''monitor'' in
      res_bind (or_zero (map_of d ''anomaly_repetitive_threshold'')) (\<lambda>t.
      if \<not> float_gt t (Finite 0) then Inr False else
      res_bind (or_zero (map_of d ''anomaly_repetitive_window'')) (\<lambda>w.
      if \<not> float_gt w (Finite 0) then Inr False else Inr (float_gt t w))))"

subsection \<open>The registry\<close>

text \<open>What a report line says: the printed sentence is made of these.\<close>

datatype report =
    Rewritten string string
  | Dropped string
  | ByHand string
  | UnknownKeys string "string list"
  | ScalarTables "string list"
  | PhaseScalars "string list"
  | DisableNames "(string \<times> string) list"
  | TargetPresent report

record migration =
  mg_detect :: "table \<Rightarrow> bool res"
  mg_apply :: "(string \<Rightarrow> string) option"
  mg_describe :: "table \<Rightarrow> report"
  mg_advisory :: bool

definition auto :: "(table \<Rightarrow> bool) \<Rightarrow> (string \<Rightarrow> string) \<Rightarrow> report \<Rightarrow> migration" where
  "auto det f rep = \<lparr>mg_detect = Inr \<circ> det, mg_apply = Some f, mg_describe = (\<lambda>_. rep), mg_advisory = False\<rparr>"

definition manual_of :: "(table \<Rightarrow> bool) \<Rightarrow> (table \<Rightarrow> report) \<Rightarrow> migration" where
  "manual_of det rep = \<lparr>mg_detect = Inr \<circ> det, mg_apply = None, mg_describe = rep, mg_advisory = False\<rparr>"

definition manual_note :: "(table \<Rightarrow> bool) \<Rightarrow> string \<Rightarrow> migration" where
  "manual_note det what = manual_of det (\<lambda>_. ByHand what)"

definition any_phase :: "(table \<Rightarrow> bool) \<Rightarrow> table \<Rightarrow> bool" where
  "any_phase f p \<longleftrightarrow> list_ex f (phase_subtables p)"

definition bare_one_token :: "string \<Rightarrow> string \<Rightarrow> table \<Rightarrow> bool" where
  "bare_one_token t k p \<longleftrightarrow> bare_str p t k \<noteq> None \<and> \<not> has_space (bare_str p t k)"

definition unknown_key_migration :: "string \<Rightarrow> string list \<Rightarrow> string list \<Rightarrow> migration" where
  "unknown_key_migration t allowed legacy =
     manual_of (\<lambda>p. unknown_keys (tab p t) (allowed @ legacy) \<noteq> [])
       (\<lambda>p. UnknownKeys t (unknown_keys (tab p t) (allowed @ legacy)))"

definition runtime_legacy_fields :: "string list" where
  "runtime_legacy_fields = [''round_timeout_per_phase'', ''rate_limit_action'']"

definition vcs_allowed_fields :: "string list" where
  "vcs_allowed_fields = [''stash_idempotency_s'', ''dirty_action'']"

definition vcs_legacy_fields :: "string list" where "vcs_legacy_fields = [''orphan_action'']"

definition plugins_allowed_fields :: "string list" where "plugins_allowed_fields = [''disable'']"

definition plugins_legacy_fields :: "string list" where
  "plugins_legacy_fields = [''sandbox'', ''pin'', ''spawn_override_allow'']"

definition host_health_relocations :: "(string \<times> string \<times> string) list" where
  "host_health_relocations =
     [(''mem_avail_min_mb'', ''avail_min_mb'', ''memory''),
      (''disk_warning_pct'', ''warning_pct'', ''disk''),
      (''disk_critical_pct'', ''critical_pct'', ''disk''),
      (''swap_sout_noise_floor_mb'', ''swap_out_noise_floor_mb'', ''memory''),
      (''mem_free_low_mb'', ''free_low_mb'', ''memory''),
      (''psi_full_avg10_critical'', ''full_avg10_critical'', ''pressure''),
      (''psi_some_avg10_warning'', ''some_avg10_warning'', ''pressure''),
      (''mem_critical_consecutive_samples'', ''critical_consecutive_samples'', ''pressure''),
      (''in_round_mem_terminate'', ''in_round_terminate'', ''pressure'')]"

definition host_health_of :: "table \<Rightarrow> table" where
  "host_health_of p = tab (tab p ''monitor'') ''host_health''"

definition relocation :: "string \<times> string \<times> string \<Rightarrow> migration" where
  "relocation r =
     (case r of (old, new, sub) \<Rightarrow>
        auto (\<lambda>p. thas (host_health_of p) old)
          (relocate_key old new ''monitor.host_health'' (''monitor.host_health.'' @ sub))
          (Rewritten (''monitor.host_health.'' @ old) (''monitor.host_health.'' @ sub @ ''.'' @ new)))"

definition phase_runtime_has :: "string \<Rightarrow> table \<Rightarrow> bool" where
  "phase_runtime_has k sub \<longleftrightarrow> (case map_of sub ''runtime'' of Some (TTab d) \<Rightarrow> thas d k | _ \<Rightarrow> False)"

definition phase_table_unknown :: "string \<Rightarrow> string list \<Rightarrow> table \<Rightarrow> bool" where
  "phase_table_unknown t allowed sub \<longleftrightarrow>
     (case map_of sub t of Some (TTab d) \<Rightarrow> unknown_keys d allowed \<noteq> [] | _ \<Rightarrow> False)"

definition key_migrations :: "migration list" where
  "key_migrations =
     [auto (\<lambda>p. thas (tab p ''runtime'') ''rate_limit_action'')
        (rename_key ''rate_limit_action'' ''transient_error_action'' (Literal ''runtime''))
        (Rewritten ''runtime.rate_limit_action'' ''runtime.transient_error_action''),
      auto (\<lambda>p. thas (tab p ''vcs'') ''orphan_action'')
        (rename_key ''orphan_action'' ''dirty_action'' (Literal ''vcs''))
        (Rewritten ''vcs.orphan_action'' ''vcs.dirty_action''),
      manual_note (\<lambda>p. thas (tab p ''runtime'') ''round_timeout_per_phase'') ''runtime.round_timeout_per_phase'',
      auto (\<lambda>p. thas (tab p ''runtime'') ''round_timeout_s'')
        (rename_key ''round_timeout_s'' ''round_budget_s'' (Literal ''runtime''))
        (Rewritten ''runtime.round_timeout_s'' ''runtime.round_budget_s''),
      auto (any_phase (\<lambda>sub. thas sub ''round_timeout_s''))
        (rename_key ''round_timeout_s'' ''round_budget_s'' EveryPhase)
        (Rewritten ''phases.<name>.round_timeout_s'' ''phases.<name>.round_budget_s''),
      auto (any_phase (phase_runtime_has ''round_timeout_s''))
        (rename_key ''round_timeout_s'' ''round_budget_s'' (EveryPhaseSub ''runtime''))
        (Rewritten ''phases.<name>.runtime.round_timeout_s'' ''phases.<name>.runtime.round_budget_s''),
      auto (\<lambda>p. thas (tab p ''runtime'') ''disable_pre_round_hooks'')
        (drop_key ''disable_pre_round_hooks'' (Literal ''runtime'')) (Dropped ''runtime.disable_pre_round_hooks''),
      auto (any_phase (\<lambda>sub. thas sub ''disable_pre_round_hooks''))
        (drop_key ''disable_pre_round_hooks'' EveryPhase) (Dropped ''phases.<name>.disable_pre_round_hooks''),
      auto (any_phase (phase_runtime_has ''disable_pre_round_hooks''))
        (drop_key ''disable_pre_round_hooks'' (EveryPhaseSub ''runtime''))
        (Dropped ''phases.<name>.runtime.disable_pre_round_hooks''),
      \<lparr>mg_detect = Inr \<circ> has_flat_phase_override, mg_apply = None,
       mg_describe = (\<lambda>_. ByHand ''flat round_budget_s''), mg_advisory = True\<rparr>,
      manual_note (\<lambda>p. thas (tab p ''plugins'') ''sandbox'') ''plugins.sandbox'',
      manual_note (\<lambda>p. thas (tab p ''plugins'') ''spawn_override_allow'') ''plugins.spawn_override_allow'',
      manual_note (\<lambda>p. thas (tab p ''plugins'') ''pin'') ''plugins.pin'']"

definition list_migrations :: "migration list" where
  "list_migrations =
     [auto (bare_one_token ''agent'' ''command'') (wrap_bare_string_list ''command'' (Literal ''agent'') False)
        (Rewritten ''agent.command'' ''list''),
      manual_note (\<lambda>p. has_space (bare_str p ''agent'' ''command'')) ''agent.command with spaces'',
      auto (bare_one_token ''agent'' ''prompt_arg_template'')
        (wrap_bare_string_list ''prompt_arg_template'' (Literal ''agent'') False)
        (Rewritten ''agent.prompt_arg_template'' ''list''),
      manual_note (\<lambda>p. has_space (bare_str p ''agent'' ''prompt_arg_template'')) ''agent.prompt_arg_template with spaces'',
      auto (\<lambda>p. bare_str p ''phases'' ''list'' \<noteq> None) (wrap_bare_string_list ''list'' (Literal ''phases'') False)
        (Rewritten ''phases.list'' ''list''),
      auto (\<lambda>p. bare_str p ''prompt'' ''files'' \<noteq> None) (wrap_bare_string_list ''files'' (Literal ''prompt'') False)
        (Rewritten ''prompt.files'' ''list''),
      auto (\<lambda>p. bare_str p ''monitor'' ''auto_stop_on'' \<noteq> None)
        (wrap_bare_string_list ''auto_stop_on'' (Literal ''monitor'') False) (Rewritten ''monitor.auto_stop_on'' ''list''),
      auto (\<lambda>p. bare_str p ''plugins'' ''disable'' \<noteq> None)
        (wrap_bare_string_list ''disable'' (Literal ''plugins'') False) (Rewritten ''plugins.disable'' ''list''),
      manual_of (\<lambda>p. plugin_disable_renames p old_plugin_disable_names \<noteq> [])
        (\<lambda>p. DisableNames (plugin_disable_renames p old_plugin_disable_names)),
      manual_of (\<lambda>p. plugin_disable_renames p renamed_plugin_disable_names \<noteq> [])
        (\<lambda>p. DisableNames (plugin_disable_renames p renamed_plugin_disable_names)),
      manual_note (\<lambda>p. map_of (tab p ''agent'') ''command'' = Some (TArr [])) ''agent.command empty'',
      manual_note (\<lambda>p. map_of (tab p ''prompt'') ''files'' = Some (TArr [])) ''prompt.files empty'']"

definition phase_migrations :: "migration list" where
  "phase_migrations =
     [manual_note (any_phase (\<lambda>sub. map_of (tab sub ''agent'') ''command'' = Some (TArr []))) ''phase agent.command empty'',
      auto (any_phase (bare_one_token ''agent'' ''command''))
        (wrap_bare_string_list ''command'' (EveryPhaseSub ''agent'') True) (Rewritten ''phases.<name>.agent.command'' ''list''),
      manual_note (any_phase (\<lambda>sub. has_space (bare_str sub ''agent'' ''command'')
          \<or> has_space (bare_str sub ''agent'' ''prompt_arg_template''))) ''phase agent argv with spaces'',
      auto (any_phase (bare_one_token ''agent'' ''prompt_arg_template''))
        (wrap_bare_string_list ''prompt_arg_template'' (EveryPhaseSub ''agent'') True)
        (Rewritten ''phases.<name>.agent.prompt_arg_template'' ''list''),
      auto (any_phase (\<lambda>sub. bare_str sub ''prompt'' ''files'' \<noteq> None))
        (wrap_bare_string_list ''files'' (EveryPhaseSub ''prompt'') False) (Rewritten ''phases.<name>.prompt.files'' ''list''),
      manual_note (any_phase (phase_table_unknown ''schedule'' schedule_allowed_fields)) ''unknown phase schedule keys'']"

definition strict_migrations :: "migration list" where
  "strict_migrations =
     [unknown_key_migration ''prompt'' prompt_allowed_fields [],
      unknown_key_migration ''schedule'' schedule_allowed_fields [],
      \<lparr>mg_detect = threshold_over_window, mg_apply = None,
       mg_describe = (\<lambda>_. ByHand ''threshold over window''), mg_advisory = False\<rparr>,
      manual_of (\<lambda>p. scalar_tables p \<noteq> []) (\<lambda>p. ScalarTables (scalar_tables p)),
      unknown_key_migration ''agent'' agent_allowed_fields [],
      unknown_key_migration ''runtime'' runtime_allowed_fields runtime_legacy_fields,
      unknown_key_migration ''vcs'' vcs_allowed_fields vcs_legacy_fields,
      unknown_key_migration ''monitor'' monitor_allowed_fields [],
      unknown_key_migration ''plugins'' plugins_allowed_fields plugins_legacy_fields,
      manual_of (\<lambda>p. phases_scalar_keys p \<noteq> []) (\<lambda>p. PhaseScalars (phases_scalar_keys p)),
      manual_note (any_phase (phase_table_unknown ''prompt'' phase_prompt_allowed_fields)) ''unknown phase prompt keys'',
      manual_note (\<lambda>p. agent_missing_prompt_placeholder (Some (TTab (tab p ''agent'')))) ''no {prompt} placeholder'',
      manual_note (any_phase phase_missing_prompt_placeholder) ''no {prompt} placeholder in a phase'']
     @ map relocation host_health_relocations
     @ [manual_of (\<lambda>p. unknown_keys (host_health_of p) host_health_allowed_fields \<noteq> [])
          (\<lambda>p. UnknownKeys ''monitor.host_health'' (unknown_keys (host_health_of p) host_health_allowed_fields))]"

definition migrations :: "migration list" where
  "migrations = key_migrations @ list_migrations @ phase_migrations @ strict_migrations"

subsection \<open>A pass, the fixpoint and the stamp\<close>

record pass_result =
  pa_text :: string
  pa_applied :: "report list"
  pa_manual :: "report list"
  pa_advisory :: "report list"

definition migration_step :: "(string \<Rightarrow> table option) \<Rightarrow> table \<Rightarrow> migration \<Rightarrow> pass_result \<Rightarrow> pass_result res" where
  "migration_step loads parsed m st =
     res_bind (mg_detect m parsed) (\<lambda>found.
       if \<not> found then Inr st else
       let desc = mg_describe m parsed in
       if mg_advisory m then Inr (st\<lparr>pa_advisory := pa_advisory st @ [desc]\<rparr>) else
       Inr (case mg_apply m of
              None \<Rightarrow> st\<lparr>pa_manual := pa_manual st @ [desc]\<rparr>
            | Some f \<Rightarrow>
                (let rewritten = f (pa_text st) in
                 if rewritten = pa_text st then st\<lparr>pa_manual := pa_manual st @ [desc]\<rparr>
                 else if loads rewritten = None then st\<lparr>pa_manual := pa_manual st @ [TargetPresent desc]\<rparr>
                 else st\<lparr>pa_text := rewritten, pa_applied := pa_applied st @ [desc]\<rparr>)))"

fun run_migration_list :: "(string \<Rightarrow> table option) \<Rightarrow> table \<Rightarrow> migration list \<Rightarrow> pass_result \<Rightarrow> pass_result res" where
  "run_migration_list loads parsed [] st = Inr st"
| "run_migration_list loads parsed (m # ms) st = res_bind (migration_step loads parsed m st) (run_migration_list loads parsed ms)"

definition run_migrations_pass :: "(string \<Rightarrow> table option) \<Rightarrow> string \<Rightarrow> table \<Rightarrow> pass_result res" where
  "run_migrations_pass loads text parsed =
     run_migration_list loads parsed migrations \<lparr>pa_text = text, pa_applied = [], pa_manual = [], pa_advisory = []\<rparr>"

definition schema_stamp :: string where
  "schema_stamp = ''schema_version = '' @ int_digits current_schema_version"

text \<open>\<open>^[ \t]*schema_version[ \t]*=.*\<close>: the line without its line feed is replaced.\<close>

definition stamp_line :: "string \<Rightarrow> string" where
  "stamp_line line =
     (case key_assign ''schema_version'' line of
        None \<Rightarrow> line
      | Some (indent, sp, rest) \<Rightarrow> indent @ schema_stamp @ dropWhile (\<lambda>c. c \<noteq> line_feed) rest)"

text \<open>The first such line before every table header, stamped.\<close>

fun stamp_top_level :: "string list \<Rightarrow> string list option" where
  "stamp_top_level [] = None"
| "stamp_top_level (l # ls) =
     (if table_header l \<noteq> None then None
      else if assigns ''schema_version'' l then Some (stamp_line l # ls)
      else map_option ((#) l) (stamp_top_level ls))"

definition stamp_schema_version :: "string \<Rightarrow> table \<Rightarrow> string \<times> report option" where
  "stamp_schema_version text parsed =
     (if (case map_of parsed ''schema_version'' of Some (TInt v) \<Rightarrow> v \<ge> current_schema_version | _ \<Rightarrow> False)
      then (text, None)
      else ((case stamp_top_level (splitlines_keep text) of
               Some ls \<Rightarrow> concat ls
             | None \<Rightarrow> schema_stamp @ [line_feed] @ text),
            Some (Rewritten ''schema_version'' (int_digits current_schema_version))))"

record migration_result =
  mr_text :: string
  mr_applied :: "report list"
  mr_manual :: "report list"
  mr_advisory :: "report list"

text \<open>\<open>None\<close>: the migrations did not converge (\<open>RuntimeError\<close>).\<close>

fun run_passes ::
  "(string \<Rightarrow> table option) \<Rightarrow> nat \<Rightarrow> string \<Rightarrow> table \<Rightarrow> report list \<Rightarrow> migration_result option res" where
  "run_passes loads 0 text cur applied = Inr None"
| "run_passes loads (Suc n) text cur applied =
     res_bind (run_migrations_pass loads text cur) (\<lambda>pass.
       if pa_text pass = text then
         (case stamp_schema_version text cur of (stamped, version) \<Rightarrow>
            Inr (Some \<lparr>mr_text = stamped,
                       mr_applied = applied @ pa_applied pass @ (case version of None \<Rightarrow> [] | Some v \<Rightarrow> [v]),
                       mr_manual = pa_manual pass, mr_advisory = pa_advisory pass\<rparr>))
       else (case loads (pa_text pass) of
               None \<Rightarrow> Inl (ValueError ''TOMLDecodeError'')
             | Some cur' \<Rightarrow> run_passes loads n (pa_text pass) cur' (applied @ pa_applied pass)))"

definition max_migration_passes :: nat where "max_migration_passes = 12"

definition run_migrations :: "(string \<Rightarrow> table option) \<Rightarrow> string \<Rightarrow> table \<Rightarrow> migration_result option res" where
  "run_migrations loads text parsed = run_passes loads max_migration_passes text parsed []"

subsection \<open>An edit touches the assignments of its key and nothing else\<close>

text \<open>The table a line stands in: the last header before it.\<close>

fun table_at :: "string option \<Rightarrow> string list \<Rightarrow> nat \<Rightarrow> string option" where
  "table_at cur (l # ls) (Suc i) =
     table_at (case table_header l of None \<Rightarrow> cur | Some h \<Rightarrow> Some h) ls i"
| "table_at cur ls i = cur"

definition chomp :: "string \<Rightarrow> string" where
  "chomp l = (if l \<noteq> [] \<and> last l = line_feed then butlast l else l)"

definition in_scope :: "string \<Rightarrow> table_pat \<Rightarrow> string option \<Rightarrow> string list \<Rightarrow> nat \<Rightarrow> bool" where
  "in_scope key pat cur ls i \<longleftrightarrow>
     table_header (ls ! i) = None \<and> assigns key (ls ! i)
     \<and> (case table_at cur ls i of None \<Rightarrow> False | Some t \<Rightarrow> pat_matches pat t)"

text \<open>The lines that assign no \<open>key\<close> in a table of \<open>pat\<close>, without their line feeds.\<close>

definition untouched :: "string \<Rightarrow> table_pat \<Rightarrow> string \<Rightarrow> string list" where
  "untouched key pat text =
     (let ls = splitlines_keep text in map chomp (nths ls {i. \<not> in_scope key pat None ls i}))"

definition edits_only :: "string \<Rightarrow> table_pat \<Rightarrow> string \<Rightarrow> string \<Rightarrow> bool" where
  "edits_only key pat text text' \<longleftrightarrow>
     (\<exists>ls'. text' = concat ls' \<and> subseq (untouched key pat text) (map chomp ls')
        \<and> length ls' \<le> length (splitlines_keep text) + 1)"

lemma in_scope_Suc:
  "in_scope key pat cur (l # ls) (Suc i) =
     in_scope key pat (case table_header l of None \<Rightarrow> cur | Some h \<Rightarrow> Some h) ls i"
  by (simp add: in_scope_def)

lemma in_scope_0:
  "in_scope key pat cur (l # ls) 0 \<longleftrightarrow>
     table_header l = None \<and> assigns key l \<and> (case cur of None \<Rightarrow> False | Some t \<Rightarrow> pat_matches pat t)"
  by (simp add: in_scope_def)

lemma keep_lines_Cons [simp]:
  "keep_lines (b # bs) (l # ls) = (if b then keep_lines bs ls else l # keep_lines bs ls)"
  by (simp add: keep_lines_def)

lemma edit_lines_Cons [simp]:
  "edit_lines f (b # bs) (l # ls) = (if b then f l else l) # edit_lines f bs ls"
  by (simp add: edit_lines_def)

lemma keep_lines_Nil [simp]: "keep_lines bs [] = []" by (simp add: keep_lines_def)
lemma edit_lines_Nil [simp]: "edit_lines f bs [] = []" by (simp add: edit_lines_def)

lemma length_hit_marks [simp]: "length (hit_marks hit pat cur ls) = length ls"
  by (induction ls arbitrary: cur) (auto split: option.splits)

lemma length_edit_lines [simp]: "length bs = length ls \<Longrightarrow> length (edit_lines f bs ls) = length ls"
  by (simp add: edit_lines_def)

lemma untouched_lines:
  "nths ls {i. \<not> in_scope key pat cur ls i} = keep_lines (hit_marks (assigns key) pat cur ls) ls"
proof (induction ls arbitrary: cur)
  case (Cons l ls)
  show ?case
    by (cases "table_header l"; cases cur)
      (use Cons.IH in \<open>auto simp: nths_Cons in_scope_Suc in_scope_0\<close>)
qed simp

lemma edited_lines_keep:
  assumes "\<And>l. hit' l \<Longrightarrow> hit l"
  shows "subseq (keep_lines (hit_marks hit pat cur ls) ls) (edit_lines f (hit_marks hit' pat cur ls) ls)"
proof (induction ls arbitrary: cur)
  case (Cons l ls)
  show ?case using assms [of l] Cons.IH
    by (cases "table_header l"; cases cur) auto
qed simp

lemma subseq_keep_lines: "subseq (keep_lines bs ls) ls"
proof (induction ls arbitrary: bs)
  case (Cons l ls)
  then show ?case by (cases bs) (auto simp: keep_lines_def [of "[]"])
qed simp

lemma length_keep_lines: "length (keep_lines bs ls) \<le> length ls"
  using list_emb_length [OF subseq_keep_lines] .

lemma keep_lines_marked:
  "length bs = length ls \<Longrightarrow> length (keep_lines bs ls) + length (filter id bs) = length ls"
  by (induction bs ls rule: list_induct2) auto

lemma find_table_hits_Some:
  "find_table_hits hit pat ls = Some marks \<Longrightarrow> marks = hit_marks hit pat None ls \<and> filter id marks \<noteq> []"
  by (auto simp: find_table_hits_def Let_def split: if_splits)

lemma edits_only_same: "edits_only key pat text text"
  unfolding edits_only_def untouched_def Let_def untouched_lines
  by (rule exI [of _ "splitlines_keep text"]) (simp add: subseq_map subseq_keep_lines)

lemma edits_only_edit:
  assumes "find_table_hits hit pat (splitlines_keep text) = Some marks" "\<And>l. hit l \<Longrightarrow> assigns key l"
  shows "edits_only key pat text (concat (edit_lines f marks (splitlines_keep text)))"
proof -
  note m = find_table_hits_Some [OF assms(1), THEN conjunct1]
  show ?thesis unfolding edits_only_def untouched_def Let_def untouched_lines m
    by (rule exI [of _ "edit_lines f (hit_marks hit pat None (splitlines_keep text)) (splitlines_keep text)"])
      (simp add: subseq_map edited_lines_keep [OF assms(2)])
qed

lemma take_table_split: "take_table ls = (mine, rest) \<Longrightarrow> ls = mine @ rest"
  by (induction ls arbitrary: mine rest) (auto split: if_splits prod.splits)

lemma insert_in_table_keeps:
  "insert_in_table to new_line ls = Some ls' \<Longrightarrow> subseq ls ls' \<and> length ls' = length ls + 1"
proof (induction ls arbitrary: ls')
  case (Cons l ls)
  show ?case
  proof (cases "table_header l = Some to")
    case True
    obtain mine rest where t: "take_table ls = (mine, rest)" by fastforce
    have "ls' = l # mine @ new_line # rest" using Cons.prems True t by simp
    moreover have "subseq (mine @ rest) (mine @ new_line # rest)"
      by (intro list_emb_append_mono) auto
    ultimately show ?thesis using take_table_split [OF t] by auto
  next
    case False
    then obtain r where "insert_in_table to new_line ls = Some r" "ls' = l # r" using Cons.prems by auto
    then show ?thesis using Cons.IH by auto
  qed
qed simp

lemma chomp_end_last_line: "map chomp (end_last_line ls) = map chomp ls"
proof (cases "ls \<noteq> [] \<and> (last ls = [] \<or> last (last ls) \<noteq> line_feed)")
  case True
  then have e: "end_last_line ls = butlast ls @ [last ls @ [line_feed]]" by (simp add: end_last_line_def)
  have "map chomp ls = map chomp (butlast ls @ [last ls])" using True by (metis append_butlast_last_id)
  moreover have "chomp (last ls) = last ls" using True by (auto simp: chomp_def)
  ultimately show ?thesis unfolding e by (simp add: chomp_def [of "last ls @ [line_feed]"])
qed (auto simp: end_last_line_def)

lemma length_end_last_line [simp]: "length (end_last_line ls) = length ls"
  by (simp add: end_last_line_def)

lemma subseq_prefix: "subseq xs (xs @ ys)"
  using list_emb_append_mono [of "(=)" xs xs "[]" ys] by simp

lemma edits_only_relocate: "edits_only old (Literal from_table) text (relocate_key old new from_table to_table text)"
proof -
  let ?ls = "splitlines_keep text"
  show ?thesis
  proof (cases "find_table_hits (assigns old) (Literal from_table) ?ls")
    case None
    then show ?thesis by (simp add: relocate_key_def Let_def edits_only_same)
  next
    case (Some marks)
    note m = find_table_hits_Some [OF Some]
    let ?kept = "keep_lines marks ?ls"
    let ?nl = "relocated_line old new (hd (map snd (filter fst (zip marks ?ls))))"
    define out where "out = (case insert_in_table to_table ?nl ?kept of Some ls' \<Rightarrow> ls'
        | None \<Rightarrow> end_last_line ?kept @ [''['' @ to_table @ '']'' @ [line_feed], ?nl])"
    have eq: "relocate_key old new from_table to_table text = concat out"
      by (simp add: relocate_key_def Let_def Some out_def)
    have len: "length ?kept + 1 \<le> length ?ls"
      using keep_lines_marked [of marks ?ls] m by (cases "filter id marks") auto
    have u: "untouched old (Literal from_table) text = map chomp ?kept"
      using m by (simp add: untouched_def Let_def untouched_lines)
    have "subseq (map chomp ?kept) (map chomp out) \<and> length out \<le> length ?ls + 1"
    proof (cases "insert_in_table to_table ?nl ?kept")
      case None
      then show ?thesis using len by (simp add: out_def chomp_end_last_line subseq_prefix)
    next
      case (Some ls')
      then show ?thesis using insert_in_table_keeps [OF Some] len by (simp add: out_def subseq_map)
    qed
    then show ?thesis unfolding edits_only_def u eq by blast
  qed
qed

lemma wraps_assigns: "wraps key sk l \<Longrightarrow> assigns key l"
  by (auto simp: wraps_def wrap_parts_def assigns_def split: option.splits)

lemma edits_only_drop: "edits_only key pat text (drop_key key pat text)"
proof (cases "find_table_hits (assigns key) pat (splitlines_keep text)")
  case None
  then show ?thesis by (simp add: drop_key_def Let_def edits_only_same)
next
  case (Some marks)
  note m = find_table_hits_Some [OF Some, THEN conjunct1]
  have "untouched key pat text = map chomp (keep_lines marks (splitlines_keep text))"
    by (simp add: untouched_def Let_def untouched_lines m)
  moreover have "length (keep_lines marks (splitlines_keep text)) \<le> length (splitlines_keep text) + 1"
    using length_keep_lines [of marks "splitlines_keep text"] by simp
  ultimately show ?thesis using Some by (auto simp: drop_key_def Let_def edits_only_def)
qed


subsection \<open>What a finished migration leaves\<close>

lemma migration_step_manual:
  assumes "migration_step loads p m st = Inr st'"
  shows "\<exists>more. pa_manual st' = pa_manual st @ more"
  using assms by (auto simp: migration_step_def res_bind_Inr_iff Let_def split: if_splits option.splits)

lemma run_migration_list_manual:
  "run_migration_list loads p ms st = Inr st' \<Longrightarrow> \<exists>more. pa_manual st' = pa_manual st @ more"
proof (induction ms arbitrary: st)
  case (Cons m ms)
  then obtain st1 where "migration_step loads p m st = Inr st1" "run_migration_list loads p ms st1 = Inr st'"
    by (auto simp: res_bind_Inr_iff)
  then show ?case using migration_step_manual Cons.IH by (metis append.assoc)
qed simp

definition by_hand_only :: "migration \<Rightarrow> bool" where
  "by_hand_only m \<longleftrightarrow> mg_apply m = None \<and> \<not> mg_advisory m"

lemma undetected_by_hand:
  assumes "run_migration_list loads p ms st = Inr st'" "pa_manual st' = []" "m \<in> set ms" "by_hand_only m"
  shows "mg_detect m p = Inr False"
  using assms(1,3)
proof (induction ms arbitrary: st)
  case (Cons m' ms)
  then obtain st1 where s: "migration_step loads p m' st = Inr st1" "run_migration_list loads p ms st1 = Inr st'"
    by (auto simp: res_bind_Inr_iff)
  show ?case
  proof (cases "m = m'")
    case True
    have "pa_manual st1 = []" using run_migration_list_manual [OF s(2)] assms(2) by auto
    moreover have "pa_manual st1 \<noteq> []" if "mg_detect m p = Inr True"
      using that s(1) assms(4) True by (auto simp: migration_step_def by_hand_only_def Let_def)
    moreover obtain b where "mg_detect m p = Inr b"
      using s(1) True by (auto simp: migration_step_def res_bind_Inr_iff)
    ultimately show ?thesis by (cases b) auto
  next
    case False
    then show ?thesis using Cons.IH [OF s(2)] Cons.prems(2) by simp
  qed
qed simp

lemma run_passes_fixpoint:
  "run_passes loads n src cur applied = Inr (Some r) \<Longrightarrow> loads src = Some cur \<Longrightarrow>
     \<exists>final doc pass. loads final = Some doc \<and> run_migrations_pass loads final doc = Inr pass \<and> pa_text pass = final
       \<and> mr_text r = fst (stamp_schema_version final doc)
       \<and> mr_manual r = pa_manual pass \<and> mr_advisory r = pa_advisory pass"
proof (induction n arbitrary: src cur applied)
  case (Suc n)
  then obtain pass where p: "run_migrations_pass loads src cur = Inr pass"
    by (auto simp: res_bind_Inr_iff)
  show ?case
  proof (cases "pa_text pass = src")
    case True
    then show ?thesis using Suc.prems p by (intro exI [of _ src] exI [of _ cur] exI [of _ pass]) (auto split: prod.splits)
  next
    case False
    then obtain cur' where "loads (pa_text pass) = Some cur'"
        "run_passes loads n (pa_text pass) cur' (applied @ pa_applied pass) = Inr (Some r)"
      using Suc.prems p by (auto split: option.splits)
    then show ?thesis using Suc.IH by blast
  qed
qed simp

text \<open>What a migration returns is a fixpoint: some text the TOML parser accepts is left as it is by one more pass of the whole registry over its parsed form, the manual and advisory reports are those of that pass, and the text returned is this one with the schema version stamped.\<close>

theorem migration_reaches_fixpoint:
  assumes "loads text = Some parsed" "run_migrations loads text parsed = Inr (Some r)"
  shows "\<exists>final doc pass. loads final = Some doc \<and> run_migrations_pass loads final doc = Inr pass \<and> pa_text pass = final
       \<and> mr_text r = fst (stamp_schema_version final doc)
       \<and> mr_manual r = pa_manual pass \<and> mr_advisory r = pa_advisory pass"
  using assms(2,1) unfolding run_migrations_def by (rule run_passes_fixpoint)

text \<open>The tables whose keys the loader checks, with the keys it lets through or a rewrite still renames.\<close>

definition strict_tables :: "(string \<times> string list) list" where
  "strict_tables =
     [(''agent'', agent_allowed_fields), (''prompt'', prompt_allowed_fields), (''schedule'', schedule_allowed_fields),
      (''monitor'', monitor_allowed_fields), (''plugins'', plugins_allowed_fields),
      (''vcs'', vcs_allowed_fields @ [''orphan_action'']), (''runtime'', runtime_allowed_fields @ [''rate_limit_action''])]"

lemma sort_Nil_iff [simp]: "sort xs = [] \<longleftrightarrow> xs = []"
  by (metis set_empty set_sort)

lemma unknown_keys_Nil: "unknown_keys d allowed = [] \<longleftrightarrow> set (keys_of d) \<subseteq> set allowed"
  by (auto simp: unknown_keys_def filter_empty_conv)

lemma no_unknown_accepted: "unknown_keys d allowed = [] \<Longrightarrow> reject_unknown_fields d allowed label = Inr ()"
  by (auto simp: unknown_keys_Nil keys_of_def reject_unknown_fields_def list_all_iff)

lemma unknown_migration_mem:
  "unknown_key_migration ''agent'' agent_allowed_fields [] \<in> set migrations"
  "unknown_key_migration ''prompt'' prompt_allowed_fields [] \<in> set migrations"
  "unknown_key_migration ''schedule'' schedule_allowed_fields [] \<in> set migrations"
  "unknown_key_migration ''monitor'' monitor_allowed_fields [] \<in> set migrations"
  "unknown_key_migration ''plugins'' plugins_allowed_fields plugins_legacy_fields \<in> set migrations"
  "unknown_key_migration ''vcs'' vcs_allowed_fields vcs_legacy_fields \<in> set migrations"
  "unknown_key_migration ''runtime'' runtime_allowed_fields runtime_legacy_fields \<in> set migrations"
  "manual_of (\<lambda>p. scalar_tables p \<noteq> []) (\<lambda>p. ScalarTables (scalar_tables p)) \<in> set migrations"
  by (simp_all add: migrations_def strict_migrations_def)

lemma legacy_migration_mem:
  "manual_note (\<lambda>p. thas (tab p ''runtime'') ''round_timeout_per_phase'') ''runtime.round_timeout_per_phase'' \<in> set migrations"
  "manual_note (\<lambda>p. thas (tab p ''plugins'') ''sandbox'') ''plugins.sandbox'' \<in> set migrations"
  "manual_note (\<lambda>p. thas (tab p ''plugins'') ''spawn_override_allow'') ''plugins.spawn_override_allow'' \<in> set migrations"
  "manual_note (\<lambda>p. thas (tab p ''plugins'') ''pin'') ''plugins.pin'' \<in> set migrations"
  by (simp_all add: migrations_def key_migrations_def)

lemma manual_by_hand [simp]:
  "by_hand_only (manual_of det rep)" "by_hand_only (manual_note det what)" "by_hand_only (unknown_key_migration t a l)"
  by (simp_all add: by_hand_only_def manual_of_def manual_note_def unknown_key_migration_def)

lemma manual_detect [simp]:
  "mg_detect (manual_of det rep) p = Inr (det p)" "mg_detect (manual_note det what) p = Inr (det p)"
  "mg_detect (unknown_key_migration t a l) p = Inr (unknown_keys (tab p t) (a @ l) \<noteq> [])"
  by (simp_all add: manual_of_def manual_note_def unknown_key_migration_def)

lemma unknown_keys_drop:
  "unknown_keys d (a @ l) = [] \<Longrightarrow> (\<And>k. k \<in> set l \<Longrightarrow> k \<notin> set a' \<Longrightarrow> \<not> thas d k) \<Longrightarrow> set a \<subseteq> set a' \<Longrightarrow> unknown_keys d a' = []"
  unfolding unknown_keys_Nil keys_of_def thas_def by (auto simp: map_of_eq_None_iff)

lemma no_scalar_table:
  assumes "scalar_tables p = []" "t \<in> set top_level_tables"
  shows "require_table p t label = Inr (tab p t)"
proof -
  have "\<not> (case map_of p t of None \<Rightarrow> False | Some v \<Rightarrow> \<not> is_table v)"
    using assms unfolding scalar_tables_def filter_empty_conv by blast
  then show ?thesis
    by (cases "map_of p t") (simp_all add: require_table_def tab_def is_table_def split: toml.splits)
qed

lemma clean_pass_accepted:
  assumes "run_migrations_pass loads final doc = Inr pass" "pa_manual pass = []"
  shows "(\<forall>t \<in> set top_level_tables. require_table doc t t = Inr (tab doc t))
     \<and> (\<forall>(t, allowed) \<in> set strict_tables. reject_unknown_fields (tab doc t) allowed t = Inr ())"
proof -
  note u = undetected_by_hand [OF assms(1) [unfolded run_migrations_pass_def] assms(2)]
  note k = unknown_migration_mem [THEN u] and l = legacy_migration_mem [THEN u]
  have plain: "unknown_keys (tab doc ''agent'') agent_allowed_fields = []"
      "unknown_keys (tab doc ''prompt'') prompt_allowed_fields = []"
      "unknown_keys (tab doc ''schedule'') schedule_allowed_fields = []"
      "unknown_keys (tab doc ''monitor'') monitor_allowed_fields = []"
    using k(1-4) by simp_all
  have "unknown_keys (tab doc ''plugins'') plugins_allowed_fields = []"
    by (rule unknown_keys_drop [of _ plugins_allowed_fields plugins_legacy_fields])
      (use k(5) l in \<open>auto simp: plugins_legacy_fields_def\<close>)
  moreover have "unknown_keys (tab doc ''vcs'') (vcs_allowed_fields @ [''orphan_action'']) = []"
    using k(6) by (simp add: vcs_legacy_fields_def)
  moreover have "unknown_keys (tab doc ''runtime'') (runtime_allowed_fields @ [''rate_limit_action'']) = []"
    by (rule unknown_keys_drop [of _ runtime_allowed_fields runtime_legacy_fields])
      (use k(7) l in \<open>auto simp: runtime_legacy_fields_def\<close>)
  moreover have "scalar_tables doc = []" using k(8) by simp
  ultimately show ?thesis using plain no_scalar_table no_unknown_accepted
    by (auto simp: strict_tables_def)
qed


text \<open>An old file: a renamed key, a dropped one and a bare string; the parser knows its two forms.\<close>

definition old_config :: string where
  "old_config = concat (map (\<lambda>l. l @ [line_feed])
     [''[agent]'', ''command = \"claude\"  # argv'', ''[vcs]'', ''# keep me'', ''orphan_action = \"stash\"''])"

definition new_config :: string where
  "new_config = concat (map (\<lambda>l. l @ [line_feed])
     [''[agent]'', ''command = [\"claude\"]  # argv'', ''[vcs]'', ''# keep me'', ''dirty_action = \"stash\"''])"

definition half_config :: string where
  "half_config = concat (map (\<lambda>l. l @ [line_feed])
     [''[agent]'', ''command = \"claude\"  # argv'', ''[vcs]'', ''# keep me'', ''dirty_action = \"stash\"''])"

definition old_doc :: table where
  "old_doc = [(''agent'', TTab [(''command'', TStr ''claude'')]), (''vcs'', TTab [(''orphan_action'', TStr ''stash'')])]"

definition half_doc :: table where
  "half_doc = [(''agent'', TTab [(''command'', TStr ''claude'')]), (''vcs'', TTab [(''dirty_action'', TStr ''stash'')])]"

definition new_doc :: table where
  "new_doc = [(''agent'', TTab [(''command'', TArr [TStr ''claude''])]), (''vcs'', TTab [(''dirty_action'', TStr ''stash'')])]"

definition example_loads :: "string \<Rightarrow> table option" where
  "example_loads s =
     (if s = old_config then Some old_doc else if s = half_config then Some half_doc
      else if s = new_config then Some new_doc else None)"

definition example_migrated :: migration_result where
  "example_migrated =
     \<lparr>mr_text = schema_stamp @ [line_feed] @ new_config,
      mr_applied = [Rewritten ''vcs.orphan_action'' ''vcs.dirty_action'', Rewritten ''agent.command'' ''list'',
        Rewritten ''schema_version'' ''1''],
      mr_manual = [], mr_advisory = []\<rparr>"

lemma example_loads_old: "example_loads old_config = Some old_doc"
  by (simp add: example_loads_def)

lemma example_migration: "run_migrations example_loads old_config old_doc = Inr (Some example_migrated)"
  by code_simp

lemma migration_reaches_fixpoint_witness:
  "\<exists>final doc pass. example_loads final = Some doc \<and> run_migrations_pass example_loads final doc = Inr pass
       \<and> pa_text pass = final \<and> mr_text example_migrated = fst (stamp_schema_version final doc)
       \<and> mr_manual example_migrated = pa_manual pass \<and> mr_advisory example_migrated = pa_advisory pass"
  by (rule migration_reaches_fixpoint [OF example_loads_old example_migration])

lemma example_no_manual: "mr_manual example_migrated = []"
  by (simp add: example_migrated_def)


subsection \<open>Where the registry falls short\<close>

text \<open>A relocation into a table that ends the file in a comment with no line feed ends up in the comment.\<close>

lemma relocation_into_comment:
  "relocate_key ''disk_warning_pct'' ''warning_pct'' ''monitor.host_health'' ''monitor.host_health.disk''
     (concat (map (\<lambda>l. l @ [line_feed]) [''[monitor.host_health]'', ''disk_warning_pct = 80'', ''[monitor.host_health.disk]''])
      @ ''# note'') =
   concat (map (\<lambda>l. l @ [line_feed]) [''[monitor.host_health]'', ''[monitor.host_health.disk]'', ''# notewarning_pct = 80''])"
  by code_simp

text \<open>A quoted key is not seen by the stamp, which then adds a second one.\<close>

lemma stamp_duplicates_quoted_key:
  "fst (stamp_schema_version (''\"schema_version\" = 0'' @ [line_feed]) [(''schema_version'', TInt 0)]) =
     ''schema_version = 1'' @ [line_feed] @ ''\"schema_version\" = 0'' @ [line_feed]"
  by code_simp

text \<open>A document the loader rejects and no migration reports: \<open>goal\<close> is no table the registry knows.\<close>

lemma registry_overlooks_goal:
  "list_all (\<lambda>m. mg_detect m [(''goal'', TInt 1)] = Inr False) migrations"
  "require_table [(''goal'', TInt 1)] ''goal'' ''goal'' = cfg_err ''goal'' ''must be a table''"
  by code_simp+

text \<open>A threshold that is a text makes the detector raise.\<close>

lemma threshold_text_raises:
  "threshold_over_window [(''monitor'', TTab [(''anomaly_repetitive_threshold'', TStr ''5'')])] = Inl TypeError"
  by code_simp

end
