(* ===== verification/Upgrade.thy ===== *)
theory Upgrade
  imports Migrations
begin

section \<open>Migrating and upgrading an installation (cli/migrate\_cmd.py, cli/upgrade\_cmd.py)\<close>

text \<open>
  The two commands that change an installation: rewriting the configuration file, and the upgrade
  that stops the service, installs a package, lets the new binary migrate and check itself, starts
  the service again, and reinstalls the old version when a check fails. What a subprocess, a file
  or the service manager answered is an observation; a command yields what it did, in order, with
  the exit code, or with the exception that left it. Messages to the terminal are not modelled.
\<close>

record proc_run =
  pn_rc :: int
  pn_out :: string
  pn_err :: string

text \<open>The type and the text of an exception of the service manager.\<close>

type_synonym raised = "string \<times> string"

datatype upgrade_event =
    ServiceUpgraded string string real
  | ServiceRolledBack string string string real
  | RollbackFailed string string string
  | UpgradeStartFailed string string
  | PackageUpgraded string string
  | ConfigMigrated "report list" string

datatype upgrade_act =
    StopService bool
  | PipRun "string list" int
  | ChildMigrate int
  | SmokeVersion int
  | SmokePeek int
  | StartService bool
  | WroteBackup string
  | WroteConfig string
  | Announced upgrade_event

text \<open>\<open>RuntimeError\<close> is the migration that does not converge.\<close>

datatype upgrade_exn = PyExn py_error | NotConverged

datatype ended = ExitCode int | ExitRaised upgrade_exn

subsection \<open>The migrate command\<close>

text \<open>The file as read (an \<open>OSError\<close> is caught), and whether this is a dry run.\<close>

definition migrate_cmd ::
  "(string \<Rightarrow> table option) \<Rightarrow> string option \<Rightarrow> bool \<Rightarrow> upgrade_act list \<times> ended" where
  "migrate_cmd loads file dry_run =
     (case file of
        None \<Rightarrow> ([], ExitCode 2)
      | Some text \<Rightarrow>
          (case loads text of
             None \<Rightarrow> ([], ExitCode 2)
           | Some parsed \<Rightarrow>
               (case run_migrations loads text parsed of
                  Inl e \<Rightarrow> ([], ExitRaised (PyExn e))
                | Inr None \<Rightarrow> ([], ExitRaised NotConverged)
                | Inr (Some r) \<Rightarrow>
                    if mr_applied r = [] \<and> mr_manual r = [] \<and> mr_advisory r = [] then ([], ExitCode 0)
                    else ((if \<not> dry_run \<and> mr_applied r \<noteq> [] then [WroteBackup text, WroteConfig (mr_text r)] else []),
                          ExitCode (if mr_manual r \<noteq> [] then 1 else 0)))))"

subsection \<open>The upgrade command: the configuration\<close>

text \<open>The file, \<open>None\<close> when it does not exist; reading it may raise.\<close>

definition migrate_config_file ::
  "(string \<Rightarrow> table option) \<Rightarrow> bool \<Rightarrow> string option res \<Rightarrow> (upgrade_exn + report list \<times> report list) \<times> upgrade_act list" where
  "migrate_config_file loads no_migrate file =
     (if no_migrate then (Inr ([], []), []) else
      case file of
        Inl e \<Rightarrow> (Inl (PyExn e), [])
      | Inr None \<Rightarrow> (Inr ([], []), [])
      | Inr (Some text) \<Rightarrow>
          (case loads text of
             None \<Rightarrow> (Inr ([], []), [])
           | Some parsed \<Rightarrow>
               (case run_migrations loads text parsed of
                  Inl e \<Rightarrow> (Inl (PyExn e), [])
                | Inr None \<Rightarrow> (Inl NotConverged, [])
                | Inr (Some r) \<Rightarrow>
                    if mr_manual r \<noteq> [] then (Inr ([], mr_manual r), [])
                    else if mr_applied r \<noteq> []
                    then (Inr (mr_applied r, []), [WroteBackup text, WroteConfig (mr_text r)])
                    else (Inr ([], []), []))))"

subsection \<open>pip and the smoke checks\<close>

record pip_env =
  pe_in_venv :: bool
  pe_in_user_site :: bool

definition pip_env_flags :: "pip_env \<Rightarrow> string list" where
  "pip_env_flags env =
     (if pe_in_venv env then []
      else (if pe_in_user_site env then [''--user''] else []) @ [''--break-system-packages''])"

definition pip_args :: "string \<Rightarrow> bool \<Rightarrow> string list" where
  "pip_args spec force_reinstall =
     [''-m'', ''pip'', ''install''] @ (if force_reinstall then [''--force-reinstall''] else []) @ [''--upgrade'', spec]"

text \<open>The two runs the call may make; the second only for an externally managed environment.\<close>

definition pip_install :: "pip_env \<Rightarrow> string \<Rightarrow> bool \<Rightarrow> proc_run \<times> proc_run \<Rightarrow> proc_run \<times> upgrade_act list" where
  "pip_install env spec force_reinstall runs =
     (case runs of (r, retry) \<Rightarrow>
        let base = pip_args spec force_reinstall; act = PipRun base (pn_rc r) in
        if pn_rc r = 0 \<or> \<not> is_infix_of ''externally-managed-environment'' (pn_err r) then (r, [act])
        else let extra = pip_env_flags env in
             if extra = [] then (r, [act])
             else (retry, [act, PipRun (base @ extra) (pn_rc retry)]))"

text \<open>\<open>agent-runner\s+(\S+)\<close> at the start of the stripped output.\<close>

definition version_of :: "string \<Rightarrow> string option" where
  "version_of out =
     (let s = py_strip out; r = drop 12 s in
      if take 12 s = ''agent-runner'' \<and> r \<noteq> [] \<and> is_space (hd r) \<and> dropWhile is_space r \<noteq> []
      then Some (takeWhile (\<lambda>c. \<not> is_space c) (dropWhile is_space r)) else None)"

definition smoke_version :: "proc_run \<Rightarrow> int \<times> string" where
  "smoke_version r =
     (if pn_rc r \<noteq> 0 then (pn_rc r, take 200 (py_strip (pn_err r)))
      else (case version_of (pn_out r) of
              None \<Rightarrow> (1, ''unparseable --version output: '' @ repr_str (pn_out r))
            | Some v \<Rightarrow> (0, v)))"

definition smoke_migrate :: "proc_run \<Rightarrow> int \<times> string" where
  "smoke_migrate r = (if pn_rc r \<noteq> 0 then (pn_rc r, take 200 (py_strip (pn_out r @ pn_err r))) else (0, []))"

definition smoke_peek :: "proc_run \<Rightarrow> int \<times> string" where
  "smoke_peek r = (if pn_rc r \<noteq> 0 then (pn_rc r, take 200 (py_strip (pn_err r))) else (0, []))"

definition package_spec :: "string option \<Rightarrow> string" where
  "package_spec target = (case target of None \<Rightarrow> ''cli-agent-runner'' | Some v \<Rightarrow> ''cli-agent-runner=='' @ v)"

definition pip_failure :: "proc_run \<Rightarrow> string" where
  "pip_failure r = ''(rc='' @ int_digits (pn_rc r) @ ''): '' @ take 200 (py_strip (pn_err r))"

definition exn_text :: "raised \<Rightarrow> string" where
  "exn_text e = fst e @ '': '' @ take 150 (snd e)"

subsection \<open>The rollback\<close>

record rollback_obs =
  ro_pip :: "proc_run \<times> proc_run"
  ro_config :: "string res"
  ro_config_write :: "py_error option"
  ro_version :: proc_run
  ro_start :: "raised option"
  ro_elapsed :: real

definition rollback_failed :: "string \<Rightarrow> string \<Rightarrow> string \<Rightarrow> upgrade_act list \<times> ended" where
  "rollback_failed attempted restore_target reason =
     ([Announced (RollbackFailed attempted restore_target (take 200 reason))], ExitCode 2)"

definition is_os_error :: "py_error \<Rightarrow> bool" where
  "is_os_error e = (case e of OSError _ \<Rightarrow> True | _ \<Rightarrow> False)"

definition then_acts :: "upgrade_act list \<Rightarrow> upgrade_act list \<times> ended \<Rightarrow> upgrade_act list \<times> ended" where
  "then_acts acts r = (acts @ fst r, snd r)"

definition restart_old :: "rollback_obs \<Rightarrow> string \<Rightarrow> string \<Rightarrow> string \<Rightarrow> upgrade_act list \<times> ended" where
  "restart_old ob from_version attempted reason =
     (case smoke_version (ro_version ob) of (rc_v, version_or_err) \<Rightarrow>
        then_acts [SmokeVersion rc_v]
          (if rc_v \<noteq> 0 then
             rollback_failed attempted from_version
               (''sanity smoke failed (rc='' @ int_digits rc_v @ ''): '' @ version_or_err)
           else if version_or_err \<noteq> from_version then
             rollback_failed attempted from_version
               (''sanity smoke version mismatch: expected '' @ from_version @ '', got '' @ version_or_err)
           else (case ro_start ob of
                   Some e \<Rightarrow> then_acts [StartService False]
                     (rollback_failed attempted from_version (''api.start raised after rollback: '' @ exn_text e))
                 | None \<Rightarrow> ([StartService True,
                             Announced (ServiceRolledBack attempted from_version reason (ro_elapsed ob))], ExitCode 1))))"

definition rollback ::
  "pip_env \<Rightarrow> rollback_obs \<Rightarrow> string \<Rightarrow> string \<Rightarrow> string \<Rightarrow> string option \<Rightarrow> upgrade_act list \<times> ended" where
  "rollback env ob from_version attempted reason restore_config =
     (case pip_install env (package_spec (Some from_version)) True (ro_pip ob) of (r, acts) \<Rightarrow>
        then_acts acts
          (if pn_rc r \<noteq> 0 then
             rollback_failed attempted from_version (''pip --force-reinstall failed '' @ pip_failure r)
           else (case restore_config of
                   None \<Rightarrow> restart_old ob from_version attempted reason
                 | Some text \<Rightarrow>
                     (case ro_config ob of
                        Inl e \<Rightarrow>
                          if is_os_error e
                          then rollback_failed attempted from_version ''config restore failed after pip rollback''
                          else ([], ExitRaised (PyExn e))
                      | Inr now \<Rightarrow>
                          if now = text then restart_old ob from_version attempted reason
                          else (case ro_config_write ob of
                                  Some e \<Rightarrow>
                                    if is_os_error e
                                    then rollback_failed attempted from_version ''config restore failed after pip rollback''
                                    else ([], ExitRaised (PyExn e))
                                | None \<Rightarrow> then_acts [WroteConfig text] (restart_old ob from_version attempted reason))))))"

subsection \<open>The orchestrated upgrade\<close>

record upgrade_obs =
  uo_stop :: "raised option"
  uo_pip :: "proc_run \<times> proc_run"
  uo_config :: "string option res"
  uo_migrate :: proc_run
  uo_version :: proc_run
  uo_peek :: proc_run
  uo_start :: "raised option"
  uo_elapsed :: real
  uo_rollback :: rollback_obs

definition attempted_of :: "string option \<Rightarrow> string" where
  "attempted_of target = (case target of Some (c # cs) \<Rightarrow> c # cs | _ \<Rightarrow> ''latest'')"

definition start_new :: "upgrade_obs \<Rightarrow> string \<Rightarrow> string \<Rightarrow> upgrade_act list \<times> ended" where
  "start_new ob from_version to_version =
     (case uo_start ob of
        Some e \<Rightarrow> ([StartService False, Announced (UpgradeStartFailed to_version (exn_text e))], ExitCode 2)
      | None \<Rightarrow> ([StartService True, Announced (ServiceUpgraded from_version to_version (uo_elapsed ob))], ExitCode 0))"

definition smoke_new ::
  "pip_env \<Rightarrow> upgrade_obs \<Rightarrow> string option \<Rightarrow> string \<Rightarrow> string option \<Rightarrow> upgrade_act list \<times> ended" where
  "smoke_new env ob target from_version pre_migrate =
     (case smoke_version (uo_version ob) of (rc_v, version_or_err) \<Rightarrow>
        then_acts [SmokeVersion rc_v]
          (if rc_v \<noteq> 0 then
             rollback env (uo_rollback ob) from_version (attempted_of target) version_or_err pre_migrate
           else (case smoke_peek (uo_peek ob) of (rc_p, peek_err) \<Rightarrow>
             then_acts [SmokePeek rc_p]
               (if rc_p \<noteq> 0 then rollback env (uo_rollback ob) from_version version_or_err peek_err pre_migrate
                else start_new ob from_version version_or_err))))"

definition install_new ::
  "pip_env \<Rightarrow> upgrade_obs \<Rightarrow> string option \<Rightarrow> string \<Rightarrow> bool \<Rightarrow> upgrade_act list \<times> ended" where
  "install_new env ob target from_version no_migrate =
     (case uo_config ob of
        Inl e \<Rightarrow> ([], ExitRaised (PyExn e))
      | Inr pre_migrate \<Rightarrow>
          if no_migrate then smoke_new env ob target from_version pre_migrate
          else (case smoke_migrate (uo_migrate ob) of (rc_m, err) \<Rightarrow>
            then_acts [ChildMigrate rc_m]
              (if rc_m \<noteq> 0 then
                 rollback env (uo_rollback ob) from_version (attempted_of target)
                   (''new-binary migrate failed (rc='' @ int_digits rc_m @ ''): '' @ err) pre_migrate
               else smoke_new env ob target from_version pre_migrate)))"

definition orchestrated_upgrade ::
  "pip_env \<Rightarrow> upgrade_obs \<Rightarrow> string option \<Rightarrow> string \<Rightarrow> bool \<Rightarrow> upgrade_act list \<times> ended" where
  "orchestrated_upgrade env ob target from_version no_migrate =
     (case uo_stop ob of
        Some e \<Rightarrow> ([StopService False], ExitCode 1)
      | None \<Rightarrow>
          (case pip_install env (package_spec target) False (uo_pip ob) of (r, acts) \<Rightarrow>
             then_acts (StopService True # acts)
               (if pn_rc r \<noteq> 0 then ([], ExitCode 1)
                else install_new env ob target from_version no_migrate)))"

definition package_only_upgrade ::
  "pip_env \<Rightarrow> upgrade_obs \<Rightarrow> bool \<Rightarrow> string option \<Rightarrow> string \<Rightarrow> upgrade_act list \<times> ended" where
  "package_only_upgrade env ob has_config target from_version =
     (case pip_install env (package_spec target) False (uo_pip ob) of (r, acts) \<Rightarrow>
        then_acts acts
          (if pn_rc r \<noteq> 0 then ([], ExitCode 1)
           else (case smoke_version (uo_version ob) of (rc_v, version_or_err) \<Rightarrow>
             then_acts [SmokeVersion rc_v]
               (if rc_v \<noteq> 0 then
                  (case pip_install env (package_spec (Some from_version)) True (ro_pip (uo_rollback ob)) of
                     (rb, back) \<Rightarrow> (back, ExitCode 1))
                else ((if has_config then [Announced (PackageUpgraded from_version version_or_err)] else []),
                      ExitCode 0)))))"

definition orchestrate_capable :: "bool \<Rightarrow> bool \<Rightarrow> bool \<Rightarrow> bool" where
  "orchestrate_capable has_config no_restart systemd_user \<longleftrightarrow> has_config \<and> \<not> no_restart \<and> systemd_user"

definition run_upgrade ::
  "pip_env \<Rightarrow> upgrade_obs \<Rightarrow> bool \<Rightarrow> bool \<Rightarrow> bool \<Rightarrow> string option \<Rightarrow> string \<Rightarrow> bool \<Rightarrow> upgrade_act list \<times> ended" where
  "run_upgrade env ob has_config no_restart systemd_user target from_version no_migrate =
     (if (case target of None \<Rightarrow> False | Some v \<Rightarrow> py_strip v = []) then ([], ExitCode 1)
      else if orchestrate_capable has_config no_restart systemd_user
      then orchestrated_upgrade env ob target from_version no_migrate
      else package_only_upgrade env ob has_config target from_version)"

text \<open>\<open>has_config\<close>: the configuration loads after the file was migrated.\<close>

definition upgrade_cmd ::
  "(string \<Rightarrow> table option) \<Rightarrow> pip_env \<Rightarrow> upgrade_obs \<Rightarrow> string \<Rightarrow> string option res \<Rightarrow> bool \<Rightarrow> bool \<Rightarrow> bool
     \<Rightarrow> string option \<Rightarrow> string \<Rightarrow> bool \<Rightarrow> upgrade_act list \<times> ended" where
  "upgrade_cmd loads env ob path file has_config no_restart systemd_user target from_version no_migrate =
     (case migrate_config_file loads no_migrate file of
        (Inl e, acts) \<Rightarrow> (acts, ExitRaised e)
      | (Inr (applied, manual), acts) \<Rightarrow>
          if manual \<noteq> [] then (acts, ExitCode 1)
          else then_acts (acts @ (if applied \<noteq> [] \<and> has_config then [Announced (ConfigMigrated applied path)] else []))
                 (run_upgrade env ob has_config no_restart systemd_user target from_version no_migrate))"

subsection \<open>What the exit code says\<close>

text \<open>Whether the service runs after a sequence of actions, and what was announced.\<close>

fun service_up :: "bool \<Rightarrow> upgrade_act list \<Rightarrow> bool" where
  "service_up up [] = up"
| "service_up up (StopService ok # acts) = service_up (if ok then False else up) acts"
| "service_up up (StartService ok # acts) = service_up (if ok then True else up) acts"
| "service_up up (a # acts) = service_up up acts"

fun announced :: "upgrade_act list \<Rightarrow> upgrade_event list" where
  "announced [] = []"
| "announced (Announced e # acts) = e # announced acts"
| "announced (a # acts) = announced acts"

lemma service_up_append [simp]: "service_up up (xs @ ys) = service_up (service_up up xs) ys"
  by (induction up xs rule: service_up.induct) auto

lemma announced_append [simp]: "announced (xs @ ys) = announced xs @ announced ys"
  by (induction xs rule: announced.induct) auto

text \<open>The five ways an upgrade that stopped the service ends.\<close>

definition config_restored :: "rollback_obs \<Rightarrow> string option \<Rightarrow> upgrade_act list \<Rightarrow> bool" where
  "config_restored ob before acts \<longleftrightarrow>
     (case before of None \<Rightarrow> True
      | Some text \<Rightarrow> ro_config ob = Inr text \<or> WroteConfig text \<in> set acts \<and> ro_config_write ob = None)"

definition upgrade_settled :: "upgrade_obs \<Rightarrow> string \<Rightarrow> string option \<Rightarrow> bool \<Rightarrow> upgrade_act list \<Rightarrow> ended \<Rightarrow> bool" where
  "upgrade_settled ob from_version before up acts out \<longleftrightarrow>
     (case out of
        ExitRaised e \<Rightarrow> \<not> service_up up acts \<and> announced acts = []
      | ExitCode n \<Rightarrow>
          n = 0 \<and> service_up up acts
            \<and> (\<exists>v. smoke_version (uo_version ob) = (0, v) \<and> announced acts = [ServiceUpgraded from_version v (uo_elapsed ob)])
          \<or> n = 1 \<and> service_up up acts \<and> smoke_version (ro_version (uo_rollback ob)) = (0, from_version)
            \<and> config_restored (uo_rollback ob) before acts
            \<and> (\<exists>a r. announced acts = [ServiceRolledBack a from_version r (ro_elapsed (uo_rollback ob))])
          \<or> n = 2 \<and> \<not> service_up up acts
            \<and> ((\<exists>v r. announced acts = [UpgradeStartFailed v r])
               \<or> (\<exists>a r. announced acts = [RollbackFailed a from_version r])))"

lemma pip_quiet [simp]:
  assumes "pip_install env spec force runs = (r, acts)"
  shows "service_up up acts = up" "announced acts = []"
  using assms by (auto simp: pip_install_def Let_def split: prod.splits if_splits)

lemma config_restored_more: "config_restored ob before acts \<Longrightarrow> config_restored ob before (xs @ acts)"
  by (auto simp: config_restored_def split: option.splits)

lemma upgrade_settled_quiet:
  assumes "upgrade_settled ob v before up acts out" "announced xs = []" "service_up up' xs = up"
  shows "upgrade_settled ob v before up' (xs @ acts) out"
  using assms config_restored_more [of "uo_rollback ob" before acts xs]
  unfolding upgrade_settled_def by (cases out) (auto simp: service_up_append announced_append)

lemma upgrade_settled_then:
  assumes "upgrade_settled ob v before up (fst r) (snd r)" "announced xs = []" "service_up up' xs = up"
  shows "upgrade_settled ob v before up' (fst (then_acts xs r)) (snd (then_acts xs r))"
  using upgrade_settled_quiet [OF assms] by (simp add: then_acts_def)

lemma upgrade_settled_rollback_failed:
  "upgrade_settled ob v before False (fst (rollback_failed a v r)) (snd (rollback_failed a v r))"
  by (simp add: upgrade_settled_def rollback_failed_def)

lemma restart_old_settled:
  assumes "case before of None \<Rightarrow> True
     | Some text \<Rightarrow> ro_config (uo_rollback ob) = Inr text \<or> WroteConfig text \<in> set pre \<and> ro_config_write (uo_rollback ob) = None"
    and "announced pre = []" "service_up False pre = False"
  shows "upgrade_settled ob v before False (fst (then_acts pre (restart_old (uo_rollback ob) v a r)))
           (snd (then_acts pre (restart_old (uo_rollback ob) v a r)))"
proof -
  obtain rc w where sv: "smoke_version (ro_version (uo_rollback ob)) = (rc, w)" by fastforce
  show ?thesis
  proof (cases "rc = 0 \<and> w = v \<and> ro_start (uo_rollback ob) = None")
    case True
    then show ?thesis using assms sv
      by (auto simp: upgrade_settled_def restart_old_def then_acts_def config_restored_def split: option.splits)
  next
    case False
    have "upgrade_settled ob v before False (fst (restart_old (uo_rollback ob) v a r)) (snd (restart_old (uo_rollback ob) v a r))"
      using False sv by (auto simp: restart_old_def intro!: upgrade_settled_then upgrade_settled_rollback_failed split: option.splits)
    then show ?thesis using assms(2,3) by (rule upgrade_settled_then)
  qed
qed

lemma restart_old_settled_plain:
  assumes "case before of None \<Rightarrow> True | Some text \<Rightarrow> ro_config (uo_rollback ob) = Inr text"
  shows "upgrade_settled ob v before False (fst (restart_old (uo_rollback ob) v a r)) (snd (restart_old (uo_rollback ob) v a r))"
  using restart_old_settled [where before = before and ob = ob and pre = "[]" and v = v and a = a and r = r] assms by (auto simp: then_acts_def split: option.splits)

lemma upgrade_settled_escape: "upgrade_settled ob v before False [] (ExitRaised e)"
  by (simp add: upgrade_settled_def)

lemma rollback_settled:
  "upgrade_settled ob v before False (fst (rollback env (uo_rollback ob) v a r before)) (snd (rollback env (uo_rollback ob) v a r before))"
proof -
  obtain p acts where pip: "pip_install env (package_spec (Some v)) True (ro_pip (uo_rollback ob)) = (p, acts)" by fastforce
  note q = pip_quiet [OF pip]
  show ?thesis
    unfolding rollback_def pip prod.case
    apply (rule upgrade_settled_then [OF _ q(2) q(1)])
    apply (auto split: option.splits sum.splits intro!: upgrade_settled_rollback_failed upgrade_settled_escape
        restart_old_settled restart_old_settled_plain)
    done
qed

lemma start_new_settled:
  "smoke_version (uo_version ob) = (0, w) \<Longrightarrow> upgrade_settled ob v before False (fst (start_new ob v w)) (snd (start_new ob v w))"
  by (auto simp: upgrade_settled_def start_new_def split: option.splits)

lemma smoke_new_settled:
  "upgrade_settled ob v before False (fst (smoke_new env ob t v before)) (snd (smoke_new env ob t v before))"
proof -
  obtain rc w where sv: "smoke_version (uo_version ob) = (rc, w)" by fastforce
  obtain rp e where sp: "smoke_peek (uo_peek ob) = (rp, e)" by fastforce
  show ?thesis unfolding smoke_new_def sv sp prod.case
    by (rule upgrade_settled_then [where up = False]) (auto intro!: rollback_settled upgrade_settled_then [where up = False] start_new_settled simp: sv)
qed

lemma install_new_settled:
  assumes "uo_config ob = Inr before \<or> before = None"
  shows "upgrade_settled ob v before False (fst (install_new env ob t v nm)) (snd (install_new env ob t v nm))"
proof (cases "uo_config ob")
  case (Inl e)
  then show ?thesis by (simp add: install_new_def upgrade_settled_escape)
next
  case (Inr b)
  have s: "upgrade_settled ob v b False (fst (install_new env ob t v nm)) (snd (install_new env ob t v nm))"
    using Inr by (auto simp: install_new_def split: prod.splits
        intro!: smoke_new_settled rollback_settled upgrade_settled_then [where up = False])
  then show ?thesis using assms Inr
    by (auto simp: upgrade_settled_def config_restored_def split: ended.splits)
qed

text \<open>The upgrade ended before it touched anything, or with the service stopped and the old package.\<close>

definition given_up :: "upgrade_obs \<Rightarrow> upgrade_act list \<Rightarrow> ended \<Rightarrow> bool" where
  "given_up ob acts out \<longleftrightarrow>
     out = ExitCode 1 \<and> announced acts = []
     \<and> (uo_stop ob \<noteq> None \<and> acts = [StopService False]
        \<or> uo_stop ob = None \<and> \<not> service_up True acts \<and> list_all (\<lambda>a. \<forall>args rc. a = PipRun args rc \<longrightarrow> rc \<noteq> 0) acts)"


definition pip_ok :: "pip_env \<Rightarrow> proc_run \<times> proc_run \<Rightarrow> bool" where
  "pip_ok env runs \<longleftrightarrow>
     pn_rc (fst runs) = 0
     \<or> is_infix_of ''externally-managed-environment'' (pn_err (fst runs)) \<and> \<not> pe_in_venv env \<and> pn_rc (snd runs) = 0"

lemma pip_install_rc: "pip_install env spec force runs = (r, acts) \<Longrightarrow> pn_rc r = 0 \<longleftrightarrow> pip_ok env runs"
  by (auto simp: pip_install_def pip_ok_def pip_env_flags_def Let_def split: prod.splits if_splits)

lemma smoke_ok_iff:
  "fst (smoke_version r) = 0 \<longleftrightarrow> pn_rc r = 0 \<and> version_of (pn_out r) \<noteq> None"
  "fst (smoke_migrate r) = 0 \<longleftrightarrow> pn_rc r = 0" "fst (smoke_peek r) = 0 \<longleftrightarrow> pn_rc r = 0"
  by (auto simp: smoke_version_def smoke_migrate_def smoke_peek_def split: option.splits)

lemma then_acts_out [simp]: "snd (then_acts acts r) = snd r"
  by (simp add: then_acts_def)

lemma no_success_after_rollback: "snd (rollback env ob v a r before) \<noteq> ExitCode 0"
  by (auto simp: rollback_def rollback_failed_def restart_old_def split: prod.splits option.splits sum.splits if_splits)

lemma smoke_new_succeeds:
  "snd (smoke_new env ob target v before) = ExitCode 0 \<longleftrightarrow>
     pn_rc (uo_version ob) = 0 \<and> version_of (pn_out (uo_version ob)) \<noteq> None \<and> pn_rc (uo_peek ob) = 0
     \<and> uo_start ob = None"
  using smoke_ok_iff(1) [of "uo_version ob"] smoke_ok_iff(3) [of "uo_peek ob"]
  by (auto simp: smoke_new_def start_new_def no_success_after_rollback split: prod.splits option.splits)

lemma install_new_succeeds:
  "snd (install_new env ob target v no_migrate) = ExitCode 0 \<longleftrightarrow>
     (\<exists>before. uo_config ob = Inr before) \<and> (no_migrate \<or> pn_rc (uo_migrate ob) = 0)
     \<and> pn_rc (uo_version ob) = 0 \<and> version_of (pn_out (uo_version ob)) \<noteq> None \<and> pn_rc (uo_peek ob) = 0
     \<and> uo_start ob = None"
  using smoke_ok_iff(2) [of "uo_migrate ob"]
  by (auto simp: install_new_def smoke_new_succeeds no_success_after_rollback split: prod.splits sum.splits)

text \<open>An orchestrated upgrade exits with 0 exactly when the stop, the install (at the first try, or at the retry an externally managed environment outside a virtual one gets), the migration by the new binary, its version check, its peek and the start all succeed and the configuration could be read.\<close>

theorem upgrade_succeeds_iff:
  "snd (orchestrated_upgrade env ob target from_version no_migrate) = ExitCode 0 \<longleftrightarrow>
     uo_stop ob = None \<and> pip_ok env (uo_pip ob) \<and> (\<exists>before. uo_config ob = Inr before)
     \<and> (no_migrate \<or> pn_rc (uo_migrate ob) = 0)
     \<and> pn_rc (uo_version ob) = 0 \<and> version_of (pn_out (uo_version ob)) \<noteq> None
     \<and> pn_rc (uo_peek ob) = 0 \<and> uo_start ob = None"
proof (cases "uo_stop ob")
  case None
  obtain p acts where pip: "pip_install env (package_spec target) False (uo_pip ob) = (p, acts)" by fastforce
  show ?thesis using None pip pip_install_rc [OF pip]
    by (auto simp: orchestrated_upgrade_def install_new_succeeds)
qed (simp add: orchestrated_upgrade_def)

lemma pip_no_backup: "pip_install env spec force runs = (p, pa) \<Longrightarrow> WroteBackup t \<notin> set pa"
  by (auto simp: pip_install_def Let_def split: prod.splits if_splits)

lemma rollback_no_backup: "WroteBackup t \<notin> set (fst (rollback env ro v a x before))"
  by (auto simp: rollback_def rollback_failed_def restart_old_def then_acts_def
      dest: pip_no_backup [where t = t] split: prod.splits option.splits sum.splits if_splits)

lemma smoke_new_no_backup: "WroteBackup t \<notin> set (fst (smoke_new env ob target v before))"
  by (auto simp: smoke_new_def start_new_def then_acts_def rollback_no_backup split: prod.splits option.splits)

lemma install_new_no_backup: "WroteBackup t \<notin> set (fst (install_new env ob target v nm))"
  by (auto simp: install_new_def then_acts_def rollback_no_backup smoke_new_no_backup split: prod.splits sum.splits)

lemma no_second_backup:
  "WroteBackup t \<notin> set (fst (run_upgrade env ob has_config no_restart systemd_user target v nm))"
  by (auto simp: run_upgrade_def orchestrated_upgrade_def package_only_upgrade_def then_acts_def install_new_no_backup
      dest: pip_no_backup [where t = t] split: prod.splits option.splits)

text \<open>The file before the upgrade starts.\<close>

text \<open>The upgrade command rewrites the configuration only by a complete migration: with anything left to do by hand it exits with 1 having done nothing at all, and otherwise it first saves the exact old text, then writes the migrated one, and never overwrites that backup.\<close>

theorem upgrade_config_gate:
  assumes "loads text = Some parsed" "run_migrations loads text parsed = Inr (Some r)"
    and "upgrade_cmd loads env ob path (Inr (Some text)) has_config no_restart systemd_user target from_version False = (acts, out)"
  shows "if mr_manual r \<noteq> [] then acts = [] \<and> out = ExitCode 1
     else (\<exists>rest. acts = (if mr_applied r \<noteq> [] then [WroteBackup text, WroteConfig (mr_text r)] else []) @ rest
             \<and> (\<forall>t. WroteBackup t \<notin> set rest))"
proof (cases "mr_manual r = []")
  case False
  then show ?thesis using assms by (auto simp: upgrade_cmd_def migrate_config_file_def)
next
  case True
  have "WroteBackup t \<notin> set (fst (run_upgrade env ob has_config no_restart systemd_user target from_version False))" for t
    by (rule no_second_backup)
  then show ?thesis using assms True
    by (auto simp: upgrade_cmd_def migrate_config_file_def then_acts_def split: if_splits)
qed

subsection \<open>Examples\<close>

definition ran :: "int \<Rightarrow> string \<Rightarrow> proc_run" where
  "ran rc out = \<lparr>pn_rc = rc, pn_out = out, pn_err = []\<rparr>"

definition example_upgrade :: upgrade_obs where
  "example_upgrade =
     \<lparr>uo_stop = None, uo_pip = (ran 0 [], ran 0 []), uo_config = Inr (Some ''old''), uo_migrate = ran 0 [],
      uo_version = ran 0 ''agent-runner 0.3.9'', uo_peek = ran 70 [], uo_start = None, uo_elapsed = 9,
      uo_rollback = \<lparr>ro_pip = (ran 0 [], ran 0 []), ro_config = Inr ''new'', ro_config_write = None,
        ro_version = ran 0 ''agent-runner 0.3.8'', ro_start = None, ro_elapsed = 12\<rparr>\<rparr>"

definition example_env :: pip_env where "example_env = \<lparr>pe_in_venv = True, pe_in_user_site = False\<rparr>"

text \<open>The peek of the new version fails: the old one is back, with the old configuration.\<close>

definition example_rolled_back :: "upgrade_act list" where
  "example_rolled_back =
     [StopService True, PipRun (pip_args ''cli-agent-runner'' False) 0, ChildMigrate 0, SmokeVersion 0, SmokePeek 70,
      PipRun (pip_args ''cli-agent-runner==0.3.8'' True) 0, WroteConfig ''old'', SmokeVersion 0, StartService True,
      Announced (ServiceRolledBack ''0.3.9'' ''0.3.8'' [] 12)]"

lemma example_upgrade_run:
  "orchestrated_upgrade example_env example_upgrade None ''0.3.8'' False = (example_rolled_back, ExitCode 1)"
  by (simp add: orchestrated_upgrade_def install_new_def smoke_new_def rollback_def restart_old_def pip_install_def
      package_spec_def example_upgrade_def example_env_def example_rolled_back_def ran_def smoke_migrate_def
      smoke_peek_def smoke_version_def version_of_def Let_def then_acts_def py_strip_def py_lstrip_def
      is_space_def char_code_def)


lemma example_upgrade_cmd:
  "upgrade_cmd example_loads example_env (example_upgrade\<lparr>uo_stop := Some (''OSError'', [])\<rparr>) ''p'' (Inr (Some old_config))
     True False True None ''0.3.8'' False =
   ([WroteBackup old_config, WroteConfig (mr_text example_migrated), Announced (ConfigMigrated (mr_applied example_migrated) ''p''),
     StopService False], ExitCode 1)"
  by (simp add: upgrade_cmd_def migrate_config_file_def example_loads_old example_migration example_no_manual
      run_upgrade_def orchestrate_capable_def orchestrated_upgrade_def then_acts_def example_migrated_def)

lemma upgrade_config_gate_witness:
  "if mr_manual example_migrated \<noteq> [] then
     [WroteBackup old_config, WroteConfig (mr_text example_migrated), Announced (ConfigMigrated (mr_applied example_migrated) ''p''),
      StopService False] = [] \<and> ExitCode 1 = ExitCode 1
   else (\<exists>rest. [WroteBackup old_config, WroteConfig (mr_text example_migrated),
            Announced (ConfigMigrated (mr_applied example_migrated) ''p''), StopService False]
          = (if mr_applied example_migrated \<noteq> [] then [WroteBackup old_config, WroteConfig (mr_text example_migrated)] else []) @ rest
        \<and> (\<forall>t. WroteBackup t \<notin> set rest))"
  by (rule upgrade_config_gate [OF example_loads_old example_migration example_upgrade_cmd])

text \<open>A configuration file that cannot be read after the install leaves the service stopped, unannounced.\<close>

lemma unreadable_config_strands_upgrade:
  assumes "uo_stop ob = None" "pip_ok env (uo_pip ob)" "uo_config ob = Inl e"
  shows "snd (orchestrated_upgrade env ob target v nm) = ExitRaised (PyExn e)
     \<and> \<not> service_up True (fst (orchestrated_upgrade env ob target v nm))
     \<and> announced (fst (orchestrated_upgrade env ob target v nm)) = []"
proof -
  obtain p acts where pip: "pip_install env (package_spec target) False (uo_pip ob) = (p, acts)" by fastforce
  show ?thesis using assms pip pip_install_rc [OF pip] pip_quiet [OF pip]
    by (simp add: orchestrated_upgrade_def install_new_def then_acts_def)
qed

end
