(* ===== verification/Service.thy ===== *)
theory Service
  imports Monitor Exn_State Agent_Argv Serve_Policy Text_Lines Context_Store
begin

section \<open>Starting, stopping, killing and restarting a service (lifecycle.py, \_lifecycle.py, \_resolve.py)\<close>

text \<open>
  The verbs a client runs beside a live supervisor. Everything outside answers as it likes and may
  have changed since it was last asked: each answer of the host is a function of what has been done
  so far, the history of systemctl calls, signals and waits. A verb is an operation on that history
  that may raise (theory \<open>Exn_State\<close>). A wait is one entry; what it reports is the answer after it,
  as \<open>wait_until\<close> asks once more at its end. Two questions with no act between them get the same
  answer.
\<close>

datatype kill_signal = TermSignal | KillSignal

datatype service_act =
    Systemctl "string list"
  | SendSignal int kill_signal
  | AwaitExit int int
  | AwaitInactive int
  | SnapshotStrays int
  | KillRoundStrays int

type_synonym history = "service_act list"

datatype service_exn = SystemctlError string | ServiceError py_error | Refused string

text \<open>A decoded JSON file.\<close>

datatype pid_json = PJDict event | PJInt int | PJOther

record service_host =
  svh_unit_exists :: "history \<Rightarrow> bool"
  svh_system_unit :: "history \<Rightarrow> bool"
  svh_is_active :: "history \<Rightarrow> string option"
  svh_systemctl :: "history \<Rightarrow> string list \<Rightarrow> string option"
  svh_pid_text :: "history \<Rightarrow> string option res"
  svh_holder_text :: "history \<Rightarrow> string option"
  svh_create_time :: "history \<Rightarrow> int \<Rightarrow> real option"
  svh_alive :: "history \<Rightarrow> int \<Rightarrow> bool"
  svh_json :: "string \<Rightarrow> pid_json option"

type_synonym 'a verb = "(history, service_exn, 'a) em"

subsection \<open>PID files\<close>

definition valid_pid :: "pyval \<Rightarrow> int option" where
  "valid_pid v = (case v of PInt n \<Rightarrow> if n > 1 then Some n else None | _ \<Rightarrow> None)"

text \<open>
  \<open>abs(actual - recorded) < 1.0\<close>: a recorded value that is no number raises. An integer beyond the
  range of a float, which raises too, is taken at its value.
\<close>

definition close_to :: "real \<Rightarrow> pyval \<Rightarrow> bool res" where
  "close_to actual recorded =
     (case recorded of
        PInt n \<Rightarrow> Inr (\<bar>actual - real_of_int n\<bar> < 1)
      | PFloat x r \<Rightarrow> Inr (\<bar>actual - x\<bar> < 1)
      | PBool b \<Rightarrow> Inr (\<bar>actual - (if b then 1 else 0)\<bar> < 1)
      | PNan \<Rightarrow> Inr False
      | PInf neg \<Rightarrow> Inr False
      | _ \<Rightarrow> Inl TypeError)"

definition create_time_matches :: "service_host \<Rightarrow> history \<Rightarrow> int \<Rightarrow> pyval \<Rightarrow> bool res" where
  "create_time_matches h s pid recorded =
     (if recorded = PNone then Inr True
      else (case svh_create_time h s pid of None \<Rightarrow> Inr False | Some actual \<Rightarrow> close_to actual recorded))"

text \<open>The payload \<open>PIDFile.write\<close> hands to the atomic write; \<open>num\<close> prints the float.\<close>

definition pid_payload :: "(real \<Rightarrow> string) \<Rightarrow> int \<Rightarrow> real option \<Rightarrow> event" where
  "pid_payload num pid ct =
     (case ct of None \<Rightarrow> [''pid'' \<mapsto> PInt pid]
      | Some c \<Rightarrow> [''pid'' \<mapsto> PInt pid, ''create_time'' \<mapsto> PFloat c (num c)])"

definition pidfile_read :: "service_host \<Rightarrow> history \<Rightarrow> int option res" where
  "pidfile_read h s =
     (case svh_pid_text h s of
        Inl e \<Rightarrow> Inl e
      | Inr None \<Rightarrow> Inr None
      | Inr (Some raw) \<Rightarrow>
          (case svh_json h (py_strip raw) of
             Some (PJInt n) \<Rightarrow> Inr (valid_pid (PInt n))
           | Some (PJDict d) \<Rightarrow>
               (case valid_pid (ev_get d ''pid'') of
                  None \<Rightarrow> Inr None
                | Some pid \<Rightarrow>
                    res_bind (create_time_matches h s pid (ev_get d ''create_time''))
                      (\<lambda>same. Inr (if same then Some pid else None)))
           | _ \<Rightarrow> Inr None))"

definition round_holder_pid :: "service_host \<Rightarrow> history \<Rightarrow> int option res" where
  "round_holder_pid h s =
     (case Option.bind (svh_holder_text h s) (svh_json h) of
        Some (PJDict d) \<Rightarrow>
          (case valid_pid (ev_get d ''pid'') of
             None \<Rightarrow> Inr None
           | Some pid \<Rightarrow>
               if \<not> svh_alive h s pid then Inr None
               else res_bind (create_time_matches h s pid (ev_get d ''create_time''))
                      (\<lambda>same. Inr (if same then Some pid else None)))
      | _ \<Rightarrow> Inr None)"

subsection \<open>The mode of a service\<close>

definition active_states :: "string list" where "active_states = [''active'', ''activating'', ''reloading'']"
definition inactive_states :: "string list" where "inactive_states = [''failed'', ''inactive'']"

definition state_in :: "string list \<Rightarrow> string option \<Rightarrow> bool" where
  "state_in states st = (case st of None \<Rightarrow> False | Some x \<Rightarrow> x \<in> set states)"

definition pid_is_live :: "service_host \<Rightarrow> history \<Rightarrow> bool res" where
  "pid_is_live h s =
     res_bind (pidfile_read h s) (\<lambda>p. Inr (case p of None \<Rightarrow> False | Some pid \<Rightarrow> svh_alive h s pid))"

definition pid_exists :: "service_host \<Rightarrow> history \<Rightarrow> bool" where
  "pid_exists h s \<longleftrightarrow> svh_pid_text h s \<noteq> Inr None"

definition detect_service_mode :: "service_host \<Rightarrow> history \<Rightarrow> service_mode res" where
  "detect_service_mode h s =
     (if \<not> svh_unit_exists h s then Inr (if pid_exists h s then PidFile else NoService)
      else if state_in active_states (svh_is_active h s) then Inr SystemdUser
      else res_bind (pid_is_live h s) (\<lambda>live. Inr (if live then PidFile else SystemdUser)))"

definition systemd_active :: "service_host \<Rightarrow> history \<Rightarrow> bool res" where
  "systemd_active h s =
     (let st = svh_is_active h s in
      if state_in active_states st then Inr True
      else if state_in inactive_states st then Inr False
      else pid_is_live h s)"

record service_status =
  srv_mode :: service_mode
  srv_active :: bool
  srv_pid :: "int option"
  srv_has_unit :: bool
  srv_system_managed :: bool

subsection \<open>The verbs\<close>

definition ask :: "(history \<Rightarrow> 'a res) \<Rightarrow> 'a verb" where
  "ask f = (\<lambda>s. (s, case f s of Inl e \<Rightarrow> Inl (ServiceError e) | Inr x \<Rightarrow> Inr x))"

definition perform :: "service_act \<Rightarrow> unit verb" where
  "perform a = (\<lambda>s. (s @ [a], Inr ()))"

definition systemctl_user :: "service_host \<Rightarrow> string list \<Rightarrow> unit verb" where
  "systemctl_user h args =
     (\<lambda>s. (s @ [Systemctl args],
           case svh_systemctl h s args of None \<Rightarrow> Inr () | Some e \<Rightarrow> Inl (SystemctlError e)))"

definition await_pid_exit :: "service_host \<Rightarrow> int \<Rightarrow> int \<Rightarrow> bool verb" where
  "await_pid_exit h pid timeout_s = ethen (perform (AwaitExit pid timeout_s)) (ask (\<lambda>s. Inr (svh_alive h s pid)))"

definition await_inactive :: "service_host \<Rightarrow> int \<Rightarrow> bool verb" where
  "await_inactive h timeout_s =
     ethen (perform (AwaitInactive timeout_s)) (ask (\<lambda>s. Inr (state_in inactive_states (svh_is_active h s))))"

definition pid_signal_grace_s :: int where "pid_signal_grace_s = 5"

definition service_status_of :: "service_host \<Rightarrow> history \<Rightarrow> service_status res" where
  "service_status_of h s =
     res_bind (detect_service_mode h s) (\<lambda>mode. case mode of
        SystemdUser \<Rightarrow> res_bind (systemd_active h s) (\<lambda>act.
          Inr \<lparr>srv_mode = mode, srv_active = act, srv_pid = None, srv_has_unit = True, srv_system_managed = False\<rparr>)
      | PidFile \<Rightarrow> res_bind (pidfile_read h s) (\<lambda>p.
          Inr \<lparr>srv_mode = mode, srv_active = (case p of None \<Rightarrow> False | Some pid \<Rightarrow> svh_alive h s pid),
               srv_pid = p, srv_has_unit = False, srv_system_managed = svh_system_unit h s\<rparr>)
      | NoService \<Rightarrow>
          Inr \<lparr>srv_mode = mode, srv_active = False, srv_pid = None, srv_has_unit = False,
               srv_system_managed = svh_system_unit h s\<rparr>)"

definition service_report :: "service_host \<Rightarrow> service_status verb" where
  "service_report h = ask (service_status_of h)"

definition start_service :: "service_host \<Rightarrow> string \<Rightarrow> service_status verb" where
  "start_service h unit_name =
     ebind (ask (detect_service_mode h)) (\<lambda>mode.
       if mode = SystemdUser then ethen (systemctl_user h [''start'', unit_name]) (service_report h)
       else service_report h)"

definition stop_unit_draining :: "service_host \<Rightarrow> string \<Rightarrow> int \<Rightarrow> bool verb" where
  "stop_unit_draining h unit_name confirm_s =
     ethen (systemctl_user h [''--no-block'', ''stop'', unit_name]) (await_inactive h confirm_s)"

definition terminate_round_pid :: "service_host \<Rightarrow> int \<Rightarrow> unit verb" where
  "terminate_round_pid h pid =
     ethen (perform (SnapshotStrays pid))
       (ethen (perform (SendSignal pid TermSignal))
         (ebind (await_pid_exit h pid round_term_grace_s) (\<lambda>alive.
            if alive then ethen (perform (SendSignal pid KillSignal)) (perform (KillRoundStrays pid))
            else eret ())))"

definition stop_service :: "service_host \<Rightarrow> string \<Rightarrow> service_status verb" where
  "stop_service h unit_name =
     ebind (ask (detect_service_mode h)) (\<lambda>mode.
       if mode = SystemdUser
       then ethen (stop_unit_draining h unit_name pid_signal_grace_s) (service_report h)
       else ebind (ask (pidfile_read h)) (\<lambda>p. case p of
              None \<Rightarrow> service_report h
            | Some pid \<Rightarrow>
                ethen (perform (SendSignal pid TermSignal))
                  (ethen (await_pid_exit h pid pid_signal_grace_s) (service_report h))))"

definition kill_pid_service :: "service_host \<Rightarrow> int \<Rightarrow> service_status verb" where
  "kill_pid_service h pid =
     ethen (perform (SendSignal pid TermSignal))
       (ebind (ask (round_holder_pid h)) (\<lambda>r.
         ethen (case r of None \<Rightarrow> eret () | Some rpid \<Rightarrow> terminate_round_pid h rpid)
           (ebind (await_pid_exit h pid pid_signal_grace_s) (\<lambda>alive.
              ebind (if alive then ethen (perform (SendSignal pid KillSignal)) (ask (\<lambda>s. Inr (svh_alive h s pid)))
                     else eret False) (\<lambda>still.
                eret \<lparr>srv_mode = PidFile, srv_active = still, srv_pid = Some pid, srv_has_unit = False,
                      srv_system_managed = False\<rparr>)))))"

definition kill_unit :: "service_host \<Rightarrow> string \<Rightarrow> service_status verb" where
  "kill_unit h unit_name =
     ethen (systemctl_user h [''kill'', ''--signal=SIGTERM'', unit_name])
       (ebind (await_inactive h pid_signal_grace_s) (\<lambda>inactive.
          ethen (if inactive then eret () else systemctl_user h [''kill'', ''--signal=SIGKILL'', unit_name])
            (service_report h)))"

definition kill_service :: "service_host \<Rightarrow> string \<Rightarrow> service_status verb" where
  "kill_service h unit_name =
     ebind (ask (detect_service_mode h)) (\<lambda>mode.
       if mode = SystemdUser then kill_unit h unit_name
       else ebind (ask (pidfile_read h)) (\<lambda>p. case p of
              None \<Rightarrow> service_report h | Some pid \<Rightarrow> kill_pid_service h pid))"

definition restart_service :: "service_host \<Rightarrow> string \<Rightarrow> bool \<Rightarrow> service_status verb" where
  "restart_service h unit_name force =
     ebind (ask (\<lambda>s. Inr (svh_system_unit h s))) (\<lambda>sys.
       if sys then eraise (Refused ''managed by a system unit'')
       else ebind (ask (detect_service_mode h)) (\<lambda>mode.
         if mode \<noteq> SystemdUser then eraise (Refused ''restart requires a systemd-user service'')
         else ethen (if force then kill_service h unit_name else stop_service h unit_name)
                (ebind (ask (\<lambda>s. Inr (state_in inactive_states (svh_is_active h s)))) (\<lambda>inactive.
                   if inactive then start_service h unit_name
                   else ethen (systemctl_user h [''--no-block'', ''start'', unit_name]) (service_report h)))))"

subsection \<open>Names\<close>

definition project_name_char :: "char \<Rightarrow> bool" where
  "project_name_char c \<longleftrightarrow>
     (let k = char_code c in is_digit c \<or> (65 \<le> k \<and> k \<le> 90) \<or> (97 \<le> k \<and> k \<le> 122)
        \<or> c = CHR ''.'' \<or> c = CHR ''_'' \<or> c = CHR ''-'')"

text \<open>\<open>^[A-Za-z0-9._-]+$\<close>: the dollar sign also matches before a final line feed.\<close>

definition project_name_ok :: "string \<Rightarrow> bool" where
  "project_name_ok name \<longleftrightarrow>
     (let body = (if name \<noteq> [] \<and> last name = CHR 0x0A then butlast name else name)
      in body \<noteq> [] \<and> list_all project_name_char body)"

definition project_name :: "string \<Rightarrow> bool \<Rightarrow> string res" where
  "project_name base strict =
     (let name = (if base = [] then ''default'' else base)
      in if strict \<and> \<not> project_name_ok name then Inl (ValueError ''invalid project name'') else Inr name)"

definition serve_unit_filename :: "string \<Rightarrow> string" where
  "serve_unit_filename project = ''agent-runner@'' @ project @ ''.service''"

text \<open>The owner of an installed unit, and the guard against taking over another project's.\<close>

definition unit_owner :: "string option \<Rightarrow> string option" where
  "unit_owner text =
     (case text of
        None \<Rightarrow> None
      | Some t \<Rightarrow> map_option (drop 17) (List.find (\<lambda>l. take 17 l = ''WorkingDirectory='') (py_splitlines t)))"

definition guard_against_clobber :: "(string \<Rightarrow> string) \<Rightarrow> string option \<Rightarrow> string \<Rightarrow> bool \<Rightarrow> unit res" where
  "guard_against_clobber same_path text work_dir force =
     (case unit_owner text of
        None \<Rightarrow> Inr ()
      | Some owner \<Rightarrow>
          if same_path owner = same_path work_dir \<or> force then Inr ()
          else Inl (OSError ''manages a different project''))"

text \<open>\<open>_resolve_target\<close> of a text: a path, the current project, or a bare name.\<close>

definition resolve_target ::
  "(string \<Rightarrow> string res) \<Rightarrow> (string \<Rightarrow> string res) \<Rightarrow> (string \<Rightarrow> string) \<Rightarrow> string \<Rightarrow> string \<Rightarrow> (string \<times> string) res" where
  "resolve_target name_of log_dir_of default_log_dir cwd project =
     (if CHR ''/'' \<in> set project \<or> CHR 0x5C \<in> set project
      then res_bind (name_of project) (\<lambda>n. res_bind (log_dir_of project) (\<lambda>d. Inr (n, d)))
      else if \<not> project_name_ok project then Inl (ValueError ''invalid project name'')
      else res_bind (name_of cwd) (\<lambda>mine.
        if project = mine then res_bind (log_dir_of cwd) (\<lambda>d. Inr (project, d))
        else Inr (project, default_log_dir project)))"

subsection \<open>Whom the verbs signal\<close>

text \<open>A process a file named with the start time the process had when the file was read.\<close>

definition identified :: "service_host \<Rightarrow> history \<Rightarrow> int \<Rightarrow> bool" where
  "identified h s pid \<longleftrightarrow> pidfile_read h s = Inr (Some pid) \<or> round_holder_pid h s = Inr (Some pid)"

text \<open>
  A kill signal is never the first thing: the process got the termination signal and its whole
  grace, and was alive after it.
\<close>

definition escalated :: "service_host \<Rightarrow> history \<Rightarrow> int \<Rightarrow> bool" where
  "escalated h s pid \<longleftrightarrow>
     (\<exists>pre grace. s = pre @ [AwaitExit pid grace] \<and> SendSignal pid TermSignal \<in> set pre \<and> 0 < grace \<and> svh_alive h s pid)"

fun licensed :: "service_host \<Rightarrow> history \<Rightarrow> service_act \<Rightarrow> bool" where
  "licensed h s (SendSignal pid TermSignal) \<longleftrightarrow> (\<exists>pre post. s = pre @ post \<and> identified h pre pid)"
| "licensed h s (SendSignal pid KillSignal) \<longleftrightarrow> escalated h s pid \<and> (\<exists>pre post. s = pre @ post \<and> identified h pre pid)"
| "licensed h s (KillRoundStrays pid) \<longleftrightarrow> SendSignal pid KillSignal \<in> set s \<and> SnapshotStrays pid \<in> set s"
| "licensed h s a \<longleftrightarrow> True"

definition all_licensed :: "service_host \<Rightarrow> history \<Rightarrow> bool" where
  "all_licensed h s \<longleftrightarrow> (\<forall>pre a post. s = pre @ a # post \<longrightarrow> licensed h pre a)"

lemma all_licensed_Nil [simp]: "all_licensed h []"
  by (simp add: all_licensed_def)

lemma all_licensed_snoc [simp]: "all_licensed h (s @ [a]) \<longleftrightarrow> all_licensed h s \<and> licensed h s a"
proof
  assume l: "all_licensed h (s @ [a])"
  have "licensed h pre b" if "s = pre @ b # post" for pre b post
  proof -
    have "s @ [a] = pre @ b # (post @ [a])" using that by simp
    with l show ?thesis unfolding all_licensed_def by blast
  qed
  moreover have "licensed h s a" using l unfolding all_licensed_def by blast
  ultimately show "all_licensed h s \<and> licensed h s a" by (auto simp: all_licensed_def)
next
  assume l: "all_licensed h s \<and> licensed h s a"
  have "licensed h pre b" if "s @ [a] = pre @ b # post" for pre b post
  proof (cases post rule: rev_cases)
    case Nil
    then show ?thesis using that l by simp
  next
    case (snoc p x)
    then have "s = pre @ b # p" using that by simp
    then show ?thesis using l by (auto simp: all_licensed_def)
  qed
  then show "all_licensed h (s @ [a])" by (auto simp: all_licensed_def)
qed

text \<open>The invariant of the verbs: every signal so far was licensed, and the history only grows.\<close>

definition grown :: "service_host \<Rightarrow> history \<Rightarrow> history \<Rightarrow> bool" where
  "grown h s0 s \<longleftrightarrow> all_licensed h s \<and> (\<exists>more. s = s0 @ more)"

lemma grown_snoc: "grown h s0 s \<Longrightarrow> licensed h s a \<Longrightarrow> grown h s0 (s @ [a])"
  by (auto simp: grown_def)

lemma grown_identified: "grown h s0 s \<Longrightarrow> identified h s0 pid \<Longrightarrow> \<exists>pre post. s = pre @ post \<and> identified h pre pid"
  by (auto simp: grown_def)

named_theorems verb_rules \<open>what one step of a verb keeps\<close>

abbreviation keeps :: "service_host \<Rightarrow> (history \<Rightarrow> bool) \<Rightarrow> 'a verb \<Rightarrow> ('a \<Rightarrow> history \<Rightarrow> bool) \<Rightarrow> bool" where
  "keeps h P m Q \<equiv> holds (\<lambda>s. all_licensed h s \<and> P s) m (\<lambda>x s. all_licensed h s \<and> Q x s) (\<lambda>_. all_licensed h)"

lemma keeps_ask: "(\<And>s x. P s \<Longrightarrow> f s = Inr x \<Longrightarrow> Q x s) \<Longrightarrow> keeps h P (ask f) Q"
  by (auto simp: holds_def ask_def split: sum.splits)

lemma keeps_perform: "(\<And>s. P s \<Longrightarrow> licensed h s a \<and> Q () (s @ [a])) \<Longrightarrow> keeps h P (perform a) Q"
  by (auto simp: holds_def perform_def)

lemma keeps_systemctl: "keeps h P (systemctl_user h args) (\<lambda>_ _. True)"
  by (auto simp: holds_def systemctl_user_def split: option.splits)

lemma keeps_ret: "(\<And>s. P s \<Longrightarrow> Q x s) \<Longrightarrow> keeps h P (eret x) Q"
  by (rule holds_ret) simp

lemma keeps_raise: "keeps h P (eraise e) Q"
  by (rule holds_raise) simp

lemma keeps_bind: "keeps h P m R \<Longrightarrow> (\<And>x. keeps h (R x) (f x) Q) \<Longrightarrow> keeps h P (ebind m f) Q"
  by (rule holds_bind)

lemma keeps_then: "keeps h P m (\<lambda>_. R) \<Longrightarrow> keeps h R n Q \<Longrightarrow> keeps h P (ethen m n) Q"
  by (rule holds_then)

lemma keeps_report [verb_rules]: "keeps h P (service_report h) (\<lambda>_ _. True)"
  unfolding service_report_def by (rule keeps_ask) simp

lemma keeps_await_exit:
  assumes "\<And>s. P s \<Longrightarrow> SendSignal pid TermSignal \<in> set s \<and> (\<exists>pre post. s = pre @ post \<and> identified h pre pid)" "0 < grace"
  shows "keeps h P (await_pid_exit h pid grace)
    (\<lambda>alive s. (alive \<longrightarrow> escalated h s pid) \<and> (\<exists>pre post. s = pre @ post \<and> identified h pre pid)
       \<and> (\<exists>s'. P s' \<and> s = s' @ [AwaitExit pid grace]))"
  unfolding await_pid_exit_def
proof (rule keeps_then)
  show "keeps h P (perform (AwaitExit pid grace)) (\<lambda>_ s. \<exists>s'. P s' \<and> s = s' @ [AwaitExit pid grace])"
    by (rule keeps_perform) auto
  show "keeps h (\<lambda>s. \<exists>s'. P s' \<and> s = s' @ [AwaitExit pid grace]) (ask (\<lambda>s. Inr (svh_alive h s pid)))
    (\<lambda>alive s. (alive \<longrightarrow> escalated h s pid) \<and> (\<exists>pre post. s = pre @ post \<and> identified h pre pid)
       \<and> (\<exists>s'. P s' \<and> s = s' @ [AwaitExit pid grace]))"
    using assms by (intro keeps_ask) (auto simp: escalated_def, metis append_assoc)
qed

lemma keeps_terminate_round:
  "keeps h (\<lambda>s. \<exists>pre post. s = pre @ post \<and> identified h pre pid) (terminate_round_pid h pid) (\<lambda>_ _. True)"
proof -
  let ?I = "\<lambda>s. \<exists>pre post. s = pre @ post \<and> identified h pre pid"
  have grow: "?I s \<Longrightarrow> ?I (s @ [a])" for s a by (metis append_assoc)
  have g: "0 < round_term_grace_s" by (simp add: round_term_grace_s_def)
  have 1: "keeps h ?I (perform (SnapshotStrays pid)) (\<lambda>_ s. ?I s \<and> SnapshotStrays pid \<in> set s)"
    by (rule keeps_perform) (use grow in auto)
  have 2: "keeps h (\<lambda>s. ?I s \<and> SnapshotStrays pid \<in> set s) (perform (SendSignal pid TermSignal))
     (\<lambda>_ s. ?I s \<and> SnapshotStrays pid \<in> set s \<and> SendSignal pid TermSignal \<in> set s)"
    by (rule keeps_perform) (use grow in auto)
  have 3: "keeps h (\<lambda>s. ?I s \<and> SnapshotStrays pid \<in> set s \<and> SendSignal pid TermSignal \<in> set s)
     (await_pid_exit h pid round_term_grace_s)
     (\<lambda>alive s. (alive \<longrightarrow> escalated h s pid) \<and> ?I s \<and> SnapshotStrays pid \<in> set s)"
    by (rule holds_conseq [OF keeps_await_exit [where P = "\<lambda>s. ?I s \<and> SnapshotStrays pid \<in> set s \<and> SendSignal pid TermSignal \<in> set s"]])
      (use g in auto)
  have 4: "keeps h (\<lambda>s. (alive \<longrightarrow> escalated h s pid) \<and> ?I s \<and> SnapshotStrays pid \<in> set s)
     (if alive then ethen (perform (SendSignal pid KillSignal)) (perform (KillRoundStrays pid)) else eret ())
     (\<lambda>_ _. True)" for alive
  proof (cases alive)
    case True
    have a: "keeps h (\<lambda>s. (alive \<longrightarrow> escalated h s pid) \<and> ?I s \<and> SnapshotStrays pid \<in> set s)
        (perform (SendSignal pid KillSignal)) (\<lambda>_ s. SendSignal pid KillSignal \<in> set s \<and> SnapshotStrays pid \<in> set s)"
      by (rule keeps_perform) (use True in auto)
    have b: "keeps h (\<lambda>s. SendSignal pid KillSignal \<in> set s \<and> SnapshotStrays pid \<in> set s)
        (perform (KillRoundStrays pid)) (\<lambda>_ _. True)"
      by (rule keeps_perform) auto
    show ?thesis using keeps_then [OF a b] True by simp
  next
    case False
    have "keeps h (\<lambda>s. (alive \<longrightarrow> escalated h s pid) \<and> ?I s \<and> SnapshotStrays pid \<in> set s) (eret ()) (\<lambda>_ _. True)"
      by (rule keeps_ret) simp
    then show ?thesis using False by simp
  qed
  show ?thesis unfolding terminate_round_pid_def
    by (rule keeps_then [OF 1 keeps_then [OF 2 keeps_bind [OF 3 4]]])
qed

text \<open>A read of one of the two files identifies what it returns.\<close>

definition known :: "service_host \<Rightarrow> int \<Rightarrow> history \<Rightarrow> bool" where
  "known h pid s \<longleftrightarrow> (\<exists>pre post. s = pre @ post \<and> identified h pre pid)"

lemma known_snoc: "known h pid s \<Longrightarrow> known h pid (s @ [a])"
  unfolding known_def by (metis append_assoc)

lemma known_append: "known h pid s \<Longrightarrow> known h pid (s @ t)"
  unfolding known_def by (metis append_assoc)

lemma known_now: "identified h s pid \<Longrightarrow> known h pid s"
  unfolding known_def by (metis append_Nil2)

lemma keeps_read_pid: "keeps h P (ask (pidfile_read h)) (\<lambda>p s. P s \<and> (\<forall>pid. p = Some pid \<longrightarrow> known h pid s))"
  by (rule keeps_ask) (auto simp: identified_def intro: known_now)

lemma keeps_read_holder: "keeps h P (ask (round_holder_pid h)) (\<lambda>p s. P s \<and> (\<forall>pid. p = Some pid \<longrightarrow> known h pid s))"
  by (rule keeps_ask) (auto simp: identified_def intro: known_now)

lemma keeps_mode: "keeps h P (ask (detect_service_mode h)) (\<lambda>_. P)"
  by (rule keeps_ask) simp

lemma keeps_then_report: "keeps h P m (\<lambda>_ _. True) \<Longrightarrow> keeps h P (ethen m (service_report h)) (\<lambda>_ _. True)"
  by (rule keeps_then) (assumption, rule keeps_report)

lemma keeps_await_inactive: "keeps h P (await_inactive h t) (\<lambda>_ _. True)"
proof -
  have 1: "keeps h P (perform (AwaitInactive t)) (\<lambda>_ _. True)"
    by (rule keeps_perform) simp
  have 2: "keeps h (\<lambda>_. True) (ask (\<lambda>s. Inr (state_in inactive_states (svh_is_active h s)))) (\<lambda>_ _. True)"
    by (rule keeps_ask) simp
  show ?thesis unfolding await_inactive_def by (rule keeps_then [OF 1 2])
qed

lemma keeps_weaken: "keeps h P m Q \<Longrightarrow> (\<And>s. P' s \<Longrightarrow> P s) \<Longrightarrow> (\<And>x s. Q x s \<Longrightarrow> Q' x s) \<Longrightarrow> keeps h P' m Q'"
  by (erule holds_conseq) auto

text \<open>What a termination signal to an identified process leaves, for the rest of the verb.\<close>

definition termed :: "service_host \<Rightarrow> int \<Rightarrow> history \<Rightarrow> bool" where
  "termed h pid s \<longleftrightarrow> known h pid s \<and> SendSignal pid TermSignal \<in> set s"

lemma termed_append: "termed h pid s \<Longrightarrow> termed h pid (s @ t)"
  by (simp add: termed_def known_append)

lemma keeps_term: "keeps h (known h pid) (perform (SendSignal pid TermSignal)) (\<lambda>_. termed h pid)"
  by (rule keeps_perform) (auto simp: termed_def known_def, metis append_assoc)

lemma keeps_await_termed:
  "0 < grace \<Longrightarrow> keeps h (termed h pid) (await_pid_exit h pid grace) (\<lambda>alive s. (alive \<longrightarrow> escalated h s pid) \<and> known h pid s)"
  by (rule keeps_weaken [OF keeps_await_exit [where P = "termed h pid"]]) (auto simp: termed_def known_def)

text \<open>A verb only appends: what holds of a history and its extensions survives it.\<close>

definition appends :: "'a verb \<Rightarrow> bool" where
  "appends m \<longleftrightarrow> (\<forall>s. \<exists>t. fst (m s) = s @ t)"

lemma appends_ask: "appends (ask f)" and appends_perform: "appends (perform a)"
  and appends_ret: "appends (eret x)"
  by (auto simp: appends_def ask_def perform_def eret_def)

lemma appends_bind:
  assumes "appends m" "\<And>x. appends (f x)"
  shows "appends (ebind m f)"
  unfolding appends_def
proof
  fix s
  obtain t where t: "fst (m s) = s @ t" using assms(1) by (auto simp: appends_def)
  show "\<exists>t. fst (ebind m f s) = s @ t"
  proof (cases "snd (m s)")
    case (Inl e)
    then have "fst (ebind m f s) = s @ t" using t by (cases "m s") (auto simp: ebind_def)
    then show ?thesis by blast
  next
    case (Inr x)
    then have "fst (ebind m f s) = fst (f x (s @ t))" using t by (cases "m s") (auto simp: ebind_def)
    moreover obtain u where "fst (f x (s @ t)) = (s @ t) @ u" using assms(2) unfolding appends_def by blast
    ultimately show ?thesis by auto
  qed
qed

lemma appends_then: "appends m \<Longrightarrow> appends n \<Longrightarrow> appends (ethen m n)"
  unfolding ethen_def by (rule appends_bind)

lemma appends_await: "appends (await_pid_exit h pid t)"
  unfolding await_pid_exit_def by (intro appends_then appends_perform appends_ask)

lemma appends_terminate: "appends (terminate_round_pid h pid)"
  unfolding terminate_round_pid_def
  by (intro appends_then appends_bind appends_perform appends_await) (auto intro: appends_then appends_perform appends_ret)

lemma keeps_frame:
  assumes k: "keeps h P m (\<lambda>_ _. True)" and a: "appends m" and up: "\<And>s t. R s \<Longrightarrow> R (s @ t)"
  shows "keeps h (\<lambda>s. P s \<and> R s) m (\<lambda>_. R)"
proof (rule holds_I)
  fix s s' r assume p: "all_licensed h s \<and> P s \<and> R s" and run: "m s = (s', r)"
  obtain t where "fst (m s) = s @ t" using a by (auto simp: appends_def)
  then have "s' = s @ t" using run by simp
  then have "R s'" using p up by simp
  moreover have "case r of Inr x \<Rightarrow> all_licensed h s' \<and> True | Inl e \<Rightarrow> all_licensed h s'"
    using holds_D [OF k _ run] p by simp
  ultimately show "case r of Inr x \<Rightarrow> all_licensed h s' \<and> R s' | Inl e \<Rightarrow> all_licensed h s'"
    by (cases r) auto
qed

lemma keeps_kill_pid: "keeps h (known h pid) (kill_pid_service h pid) (\<lambda>_ _. True)"
proof -
  have g: "0 < pid_signal_grace_s" by (simp add: pid_signal_grace_s_def)
  have round: "keeps h (\<lambda>s. termed h pid s \<and> (\<forall>rp. r = Some rp \<longrightarrow> known h rp s))
      (case r of None \<Rightarrow> eret () | Some rp \<Rightarrow> terminate_round_pid h rp) (\<lambda>_. termed h pid)" for r
  proof (cases r)
    case None
    have "keeps h (\<lambda>s. termed h pid s \<and> (\<forall>rp. None = Some rp \<longrightarrow> known h rp s)) (eret ()) (\<lambda>_. termed h pid)"
      by (rule keeps_ret) simp
    then show ?thesis using None by simp
  next
    case (Some rp)
    have t: "keeps h (known h rp) (terminate_round_pid h rp) (\<lambda>_ _. True)"
      by (rule keeps_weaken [OF keeps_terminate_round]) (auto simp: known_def)
    have "keeps h (\<lambda>s. termed h pid s \<and> (\<forall>x. Some rp = Some x \<longrightarrow> known h x s)) (terminate_round_pid h rp) (\<lambda>_. termed h pid)"
      by (rule keeps_weaken [OF keeps_frame [where P = "known h rp" and R = "termed h pid", OF t appends_terminate termed_append]]) auto
    then show ?thesis using Some by simp
  qed
  have last: "keeps h (\<lambda>s. (alive \<longrightarrow> escalated h s pid) \<and> known h pid s)
      (if alive then ethen (perform (SendSignal pid KillSignal)) (ask (\<lambda>s. Inr (svh_alive h s pid))) else eret False)
      (\<lambda>_ _. True)" for alive
  proof (cases alive)
    case True
    have "keeps h (\<lambda>s. (True \<longrightarrow> escalated h s pid) \<and> known h pid s) (perform (SendSignal pid KillSignal)) (\<lambda>_ _. True)"
      by (rule keeps_perform) (auto simp: known_def)
    then have "keeps h (\<lambda>s. (True \<longrightarrow> escalated h s pid) \<and> known h pid s)
        (ethen (perform (SendSignal pid KillSignal)) (ask (\<lambda>s. Inr (svh_alive h s pid)))) (\<lambda>_ _. True)"
      by (rule keeps_then) (rule keeps_ask, simp)
    then show ?thesis using True by simp
  next
    case False
    have "keeps h (\<lambda>s. (False \<longrightarrow> escalated h s pid) \<and> known h pid s) (eret False) (\<lambda>_ _. True)"
      by (rule keeps_ret) simp
    then show ?thesis using False by simp
  qed
  show ?thesis unfolding kill_pid_service_def
    by (rule keeps_then [OF keeps_term keeps_bind [OF keeps_read_holder
          keeps_then [OF round keeps_bind [OF keeps_await_termed [OF g] keeps_bind [OF last]]]]])
      (rule keeps_ret, simp)
qed

lemma keeps_systemctl_then_report: "keeps h P (ethen (systemctl_user h args) (service_report h)) (\<lambda>_ _. True)"
  by (rule keeps_then_report) (rule keeps_systemctl)

lemma keeps_start: "keeps h P (start_service h unit_name) (\<lambda>_ _. True)"
proof -
  have "keeps h P (if mode = SystemdUser then ethen (systemctl_user h [''start'', unit_name]) (service_report h)
      else service_report h) (\<lambda>_ _. True)" for mode
    using keeps_systemctl_then_report [of h P] keeps_report [of h P] by (cases "mode = SystemdUser") simp_all
  then show ?thesis unfolding start_service_def by (rule keeps_bind [OF keeps_mode])
qed

lemma keeps_drain: "keeps h P (stop_unit_draining h unit_name t) (\<lambda>_ _. True)"
  unfolding stop_unit_draining_def by (rule keeps_then [OF keeps_systemctl keeps_await_inactive])

text \<open>The two halves of stop and of kill: a unit, or the process the pid file names.\<close>

lemma keeps_two_ways:
  assumes unit: "keeps h P u (\<lambda>_ _. True)" and proc: "\<And>pid. keeps h (known h pid) (f pid) (\<lambda>_ _. True)"
  shows "keeps h P (ebind (ask (detect_service_mode h)) (\<lambda>mode.
     if mode = SystemdUser then u
     else ebind (ask (pidfile_read h)) (\<lambda>p. case p of None \<Rightarrow> service_report h | Some pid \<Rightarrow> f pid))) (\<lambda>_ _. True)"
proof -
  have one: "keeps h (\<lambda>s. P s \<and> (\<forall>pid. p = Some pid \<longrightarrow> known h pid s))
      (case p of None \<Rightarrow> service_report h | Some pid \<Rightarrow> f pid) (\<lambda>_ _. True)" for p
  proof (cases p)
    case None
    then show ?thesis using keeps_report [of h "\<lambda>s. P s \<and> (\<forall>pid. p = Some pid \<longrightarrow> known h pid s)"] by simp
  next
    case (Some pid)
    have "keeps h (\<lambda>s. P s \<and> (\<forall>q. Some pid = Some q \<longrightarrow> known h q s)) (f pid) (\<lambda>_ _. True)"
      by (rule keeps_weaken [OF proc]) auto
    then show ?thesis using Some by simp
  qed
  have "keeps h P (if mode = SystemdUser then u
     else ebind (ask (pidfile_read h)) (\<lambda>p. case p of None \<Rightarrow> service_report h | Some pid \<Rightarrow> f pid)) (\<lambda>_ _. True)" for mode
    using unit keeps_bind [OF keeps_read_pid one] by (cases "mode = SystemdUser") simp_all
  then show ?thesis by (rule keeps_bind [OF keeps_mode])
qed

lemma keeps_stop: "keeps h P (stop_service h unit_name) (\<lambda>_ _. True)"
proof -
  have g: "0 < pid_signal_grace_s" by (simp add: pid_signal_grace_s_def)
  have u: "keeps h P (ethen (stop_unit_draining h unit_name pid_signal_grace_s) (service_report h)) (\<lambda>_ _. True)"
    by (rule keeps_then_report [OF keeps_drain])
  have "keeps h (known h pid) (ethen (perform (SendSignal pid TermSignal))
      (ethen (await_pid_exit h pid pid_signal_grace_s) (service_report h))) (\<lambda>_ _. True)" for pid
    by (rule keeps_then [OF keeps_term keeps_then_report [OF keeps_weaken [OF keeps_await_termed [OF g]]]]) simp_all
  then show ?thesis unfolding stop_service_def by (rule keeps_two_ways [OF u])
qed

lemma keeps_kill_unit: "keeps h P (kill_unit h unit_name) (\<lambda>_ _. True)"
proof -
  have k: "keeps h (\<lambda>_. True) (if inactive then eret () else systemctl_user h [''kill'', ''--signal=SIGKILL'', unit_name])
      (\<lambda>_ _. True)" for inactive
  proof (cases inactive)
    case True
    have "keeps h (\<lambda>_. True) (eret ()) (\<lambda>_ _. True)" by (rule keeps_ret) simp
    then show ?thesis using True by simp
  next
    case False
    then show ?thesis using keeps_systemctl [of h "\<lambda>_. True"] by simp
  qed
  show ?thesis unfolding kill_unit_def
    by (rule keeps_then [OF keeps_systemctl keeps_bind [OF keeps_await_inactive keeps_then_report [OF k]]])
qed

lemma keeps_kill: "keeps h P (kill_service h unit_name) (\<lambda>_ _. True)"
  unfolding kill_service_def by (rule keeps_two_ways [OF keeps_kill_unit keeps_kill_pid])

lemma keeps_restart: "keeps h P (restart_service h unit_name force) (\<lambda>_ _. True)"
proof -
  have way: "keeps h Q (if force then kill_service h unit_name else stop_service h unit_name) (\<lambda>_ _. True)" for Q
    using keeps_kill [of h Q] keeps_stop [of h Q] by (cases force) simp_all
  have again: "keeps h (\<lambda>_. True) (if inactive then start_service h unit_name
      else ethen (systemctl_user h [''--no-block'', ''start'', unit_name]) (service_report h)) (\<lambda>_ _. True)" for inactive
    using keeps_start [of h "\<lambda>_. True"] keeps_systemctl_then_report [of h "\<lambda>_. True"] by (cases inactive) simp_all
  have look: "keeps h (\<lambda>_. True) (ask (\<lambda>s. Inr (state_in inactive_states (svh_is_active h s)))) (\<lambda>_ _. True)"
    by (rule keeps_ask) simp
  have go: "keeps h P (if mode \<noteq> SystemdUser then eraise (Refused ''restart requires a systemd-user service'')
      else ethen (if force then kill_service h unit_name else stop_service h unit_name)
        (ebind (ask (\<lambda>s. Inr (state_in inactive_states (svh_is_active h s)))) (\<lambda>inactive.
           if inactive then start_service h unit_name
           else ethen (systemctl_user h [''--no-block'', ''start'', unit_name]) (service_report h)))) (\<lambda>_ _. True)" for mode
  proof (cases "mode = SystemdUser")
    case True
    then show ?thesis using keeps_then [OF way keeps_bind [OF look again]] by simp
  next
    case False
    have "keeps h P (eraise (Refused ''restart requires a systemd-user service'')) (\<lambda>_ _. True)"
      by (rule keeps_raise)
    then show ?thesis using False by simp
  qed
  have sys: "keeps h P (if sys then eraise (Refused ''managed by a system unit'')
      else ebind (ask (detect_service_mode h)) (\<lambda>mode.
        if mode \<noteq> SystemdUser then eraise (Refused ''restart requires a systemd-user service'')
        else ethen (if force then kill_service h unit_name else stop_service h unit_name)
          (ebind (ask (\<lambda>s. Inr (state_in inactive_states (svh_is_active h s)))) (\<lambda>inactive.
             if inactive then start_service h unit_name
             else ethen (systemctl_user h [''--no-block'', ''start'', unit_name]) (service_report h))))) (\<lambda>_ _. True)" for sys
  proof (cases sys)
    case True
    have "keeps h P (eraise (Refused ''managed by a system unit'')) (\<lambda>_ _. True)"
      by (rule keeps_raise)
    then show ?thesis using True by simp
  next
    case False
    then show ?thesis using keeps_bind [OF keeps_mode go] by simp
  qed
  have "keeps h P (ask (\<lambda>s. Inr (svh_system_unit h s))) (\<lambda>_. P)" by (rule keeps_ask) simp
  then show ?thesis unfolding restart_service_def by (rule keeps_bind) (rule sys)
qed

lemma keeps_run: "keeps h (\<lambda>_. True) m (\<lambda>_ _. True) \<Longrightarrow> all_licensed h (fst (m []))"
  by (cases "m []"; cases "snd (m [])") (auto dest!: holds_D [where s = "[]"])

text \<open>What identification means: the file's pid, greater than 1, with the start time it was recorded with.\<close>

lemma valid_pid_Some: "valid_pid v = Some pid \<longleftrightarrow> v = PInt pid \<and> 1 < pid"
  by (auto simp: valid_pid_def split: pyval.splits)

lemma pidfile_read_pid: "pidfile_read h s = Inr (Some pid) \<Longrightarrow> 1 < pid"
  by (auto simp: pidfile_read_def res_bind_Inr_iff valid_pid_Some split: sum.splits option.splits pid_json.splits if_splits)

lemma round_holder_pid_pid: "round_holder_pid h s = Inr (Some pid) \<Longrightarrow> 1 < pid \<and> svh_alive h s pid"
  by (auto simp: round_holder_pid_def res_bind_Inr_iff valid_pid_Some split: sum.splits option.splits pid_json.splits if_splits)

lemma identified_pid: "identified h s pid \<Longrightarrow> 1 < pid"
  by (auto simp: identified_def dest: pidfile_read_pid round_holder_pid_pid)

subsection \<open>What the verbs guarantee\<close>

lemma pidfile_written_reads:
  assumes "svh_pid_text h s = Inr (Some raw)" and "svh_json h (py_strip raw) = Some (PJDict (pid_payload num pid ct))"
  shows "pidfile_read h s = Inr (if 1 < pid \<and> (\<forall>c. ct = Some c \<longrightarrow> (\<exists>a. svh_create_time h s pid = Some a \<and> \<bar>a - c\<bar> < 1))
     then Some pid else None)"
  using assms by (cases ct; cases "svh_create_time h s pid")
    (auto simp: pidfile_read_def pid_payload_def ev_get_def ev_get_or_def valid_pid_def create_time_matches_def close_to_def)

text \<open>A start verb was issued: blocking, or queued behind the drain.\<close>

definition start_issued :: "string \<Rightarrow> history \<Rightarrow> bool" where
  "start_issued unit_name s \<longleftrightarrow>
     s \<noteq> [] \<and> (last s = Systemctl [''start'', unit_name] \<or> last s = Systemctl [''--no-block'', ''start'', unit_name])"

lemma service_report_acts [simp]: "fst (service_report h s) = s"
  by (simp add: service_report_def ask_def)

lemma ethen_report_acts: "m s = (s', Inr ()) \<Longrightarrow> fst (ethen m (service_report h) s) = s'"
  by (simp add: ethen_def ebind_def)

lemma start_acts:
  "start_service h unit_name s = (s', Inr st) \<Longrightarrow> start_issued unit_name s' \<or> detect_service_mode h s' \<noteq> Inr SystemdUser"
  by (auto simp: start_service_def ebind_def ethen_def ask_def systemctl_user_def start_issued_def service_report_def
      split: sum.splits if_splits option.splits prod.splits)

lemma appends_systemctl: "appends (systemctl_user h args)"
  by (auto simp: appends_def systemctl_user_def)

lemma stop_unit_acts:
  "detect_service_mode h [] = Inr SystemdUser \<Longrightarrow>
     \<exists>r post. stop_service h unit_name [] = (Systemctl [''--no-block'', ''stop'', unit_name] # post, r)"
  by (auto simp: stop_service_def ebind_def ethen_def ask_def stop_unit_draining_def systemctl_user_def await_inactive_def
      perform_def service_report_def split: option.splits prod.splits)

lemma kill_unit_acts:
  "detect_service_mode h [] = Inr SystemdUser \<Longrightarrow>
     \<exists>r post. kill_service h unit_name [] = (Systemctl [''kill'', ''--signal=SIGTERM'', unit_name] # post, r)"
  by (auto simp: kill_service_def kill_unit_def ebind_def ethen_def ask_def systemctl_user_def await_inactive_def
      perform_def service_report_def eret_def split: option.splits prod.splits)

text \<open>Restart of an accepted service, as one equation over the history its stop leaves.\<close>

lemma restart_accepted:
  assumes "\<not> svh_system_unit h []" "detect_service_mode h [] = Inr SystemdUser"
  shows "restart_service h unit_name force [] =
     (case (if force then kill_service h unit_name else stop_service h unit_name) [] of
        (s, Inl e) \<Rightarrow> (s, Inl e)
      | (s, Inr _) \<Rightarrow>
          if state_in inactive_states (svh_is_active h s) then start_service h unit_name s
          else ethen (systemctl_user h [''--no-block'', ''start'', unit_name]) (service_report h) s)"
  using assms by (auto simp: restart_service_def ebind_def ethen_def ask_def split: prod.splits sum.splits)

lemma appends_start: "appends (start_service h unit_name)"
  unfolding start_service_def service_report_def
  by (rule appends_bind [OF appends_ask]) (simp add: appends_then appends_systemctl appends_ask)

lemma appends_queue: "appends (ethen (systemctl_user h args) (service_report h))"
  unfolding service_report_def by (rule appends_then [OF appends_systemctl appends_ask])

lemma after_appends:
  assumes "appends n1" "appends n2"
  shows "\<exists>t. fst (case r of (s, Inl e) \<Rightarrow> (s, Inl e) | (s, Inr _) \<Rightarrow> if b s then n1 s else n2 s) = fst r @ t"
  using assms by (auto simp: appends_def split: prod.splits sum.splits)

lemma restart_success:
  assumes run: "restart_service h unit_name force [] = (s, Inr st)"
  shows "start_issued unit_name s \<or> detect_service_mode h s \<noteq> Inr SystemdUser"
proof -
  have ok: "\<not> svh_system_unit h []" "detect_service_mode h [] = Inr SystemdUser"
    using run by (auto simp: restart_service_def ebind_def ask_def eraise_def split: sum.splits if_splits)
  obtain s1 x where "(if force then kill_service h unit_name else stop_service h unit_name) [] = (s1, Inr x)"
    "(if state_in inactive_states (svh_is_active h s1) then start_service h unit_name s1
      else ethen (systemctl_user h [''--no-block'', ''start'', unit_name]) (service_report h) s1) = (s, Inr st)"
    using run restart_accepted [OF ok, of unit_name force] by (auto split: prod.splits sum.splits)
  then show ?thesis
    by (cases "state_in inactive_states (svh_is_active h s1)")
      (auto dest: start_acts simp: ethen_def ebind_def systemctl_user_def service_report_def ask_def start_issued_def
        split: option.splits prod.splits sum.splits)
qed

lemma restart_refused:
  assumes "svh_system_unit h [] \<or> (\<exists>m. detect_service_mode h [] = Inr m \<and> m \<noteq> SystemdUser)"
  shows "\<exists>why. restart_service h unit_name force [] = ([], Inl (Refused why))"
  using assms by (auto simp: restart_service_def ebind_def ask_def eraise_def)



text \<open>The pid that is written to a pid file is read back exactly when it is greater than 1 and, if its start time was recorded, the process of that number still has the start time to within a second; otherwise nothing is read, so no recycled number is signalled.\<close>

theorem pidfile_roundtrip:
  assumes "svh_pid_text h s = Inr (Some raw)" and "svh_json h (py_strip raw) = Some (PJDict (pid_payload num pid ct))"
  shows "pidfile_read h s = Inr (if 1 < pid \<and> (\<forall>c. ct = Some c \<longrightarrow> (\<exists>a. svh_create_time h s pid = Some a \<and> \<bar>a - c\<bar> < 1))
     then Some pid else None)"
  using assms by (rule pidfile_written_reads)

subsection \<open>Examples\<close>

text \<open>
  A host with a user unit: active until the first systemctl call, inactive after it, beside a
  \<open>serve.pid\<close> whose decoded content is given and a live process 42 started at time 5.
\<close>

definition example_service_host :: "pid_json \<Rightarrow> bool \<Rightarrow> service_host" where
  "example_service_host doc unit_there =
     \<lparr>svh_unit_exists = (\<lambda>_. unit_there), svh_system_unit = (\<lambda>_. False),
      svh_is_active = (\<lambda>s. Some (if s = [] then ''active'' else ''inactive'')),
      svh_systemctl = (\<lambda>_ _. None),
      svh_pid_text = (\<lambda>_. Inr (Some ''doc'')), svh_holder_text = (\<lambda>_. None),
      svh_create_time = (\<lambda>_ pid. if pid = 42 then Some 5 else None),
      svh_alive = (\<lambda>_ pid. pid = 42),
      svh_json = (\<lambda>t. if t = ''doc'' then Some doc else None)\<rparr>"

lemmas example_service_simps =
  example_service_host_def ask_def perform_def ebind_def ethen_def systemctl_user_def eret_def
  detect_service_mode_def service_status_of_def service_report_def pid_is_live_def pidfile_read_def
  state_in_def active_states_def inactive_states_def pid_exists_def create_time_matches_def close_to_def
  valid_pid_def ev_get_def ev_get_or_def await_inactive_def await_pid_exit_def pid_signal_grace_s_def

lemma doc_strip: "py_strip ''doc'' = ''doc''"
  by code_simp

lemma pidfile_roundtrip_witness:
  "pidfile_read (example_service_host (PJDict (pid_payload (\<lambda>_. ''5.0'') 42 (Some 5))) True) [] = Inr (Some 42)"
  by (subst pidfile_roundtrip [where raw = "''doc''" and num = "\<lambda>_. ''5.0''" and ct = "Some 5" and pid = 42])
    (simp_all add: example_service_host_def doc_strip)


text \<open>
  After the stop the unit is inactive, yet \<open>serve.pid\<close> names a live process: \<open>start\<close> takes the service
  for a plain one, issues nothing and reports success.
\<close>

lemma restart_without_a_start:
  "restart_service (example_service_host (PJInt 42) True) ''u'' False [] =
     ([Systemctl [''--no-block'', ''stop'', ''u''], AwaitInactive 5],
      Inr \<lparr>srv_mode = PidFile, srv_active = True, srv_pid = Some 42, srv_has_unit = False, srv_system_managed = False\<rparr>)"
  by (simp add: restart_service_def stop_service_def start_service_def stop_unit_draining_def example_service_simps doc_strip)

text \<open>
  A recorded start time that is no number: the read raises, so neither stop nor kill sends anything.
\<close>

lemma stop_raises_on_bad_start_time:
  "stop_service (example_service_host (PJDict [''pid'' \<mapsto> PInt 42, ''create_time'' \<mapsto> PStr ''x'']) False) ''u'' [] =
     ([], Inl (ServiceError TypeError))"
  by (simp add: stop_service_def example_service_simps doc_strip)

text \<open>The kill ladder on a process that survives its termination signal.\<close>

lemma kill_ladder_example:
  "kill_service (example_service_host (PJInt 42) False) ''u'' [] =
     ([SendSignal 42 TermSignal, AwaitExit 42 5, SendSignal 42 KillSignal],
      Inr \<lparr>srv_mode = PidFile, srv_active = True, srv_pid = Some 42, srv_has_unit = False, srv_system_managed = False\<rparr>)"
  by (simp add: kill_service_def kill_pid_service_def round_holder_pid_def example_service_simps doc_strip)

subsection \<open>Names\<close>

lemma project_name_ok_iff:
  "project_name_ok name \<longleftrightarrow>
     (\<exists>body. body \<noteq> [] \<and> list_all project_name_char body \<and> (name = body \<or> name = body @ [CHR 0x0A]))"
proof -
  have no: "\<not> project_name_char (CHR 0x0A)" by code_simp
  show ?thesis
  proof (cases "name \<noteq> [] \<and> last name = CHR 0x0A")
    case True
    then obtain b where b: "name = b @ [CHR 0x0A]" by (metis append_butlast_last_id)
    then have "project_name_ok name \<longleftrightarrow> b \<noteq> [] \<and> list_all project_name_char b"
      by (simp add: project_name_ok_def Let_def)
    moreover have "\<not> list_all project_name_char name" using no b by simp
    ultimately show ?thesis using b by auto
  next
    case False
    then have "name \<noteq> body @ [CHR 0x0A]" for body by auto
    then show ?thesis using False by (auto simp: project_name_ok_def Let_def)
  qed
qed

lemma project_name_shell_safe:
  assumes "project_name base True = Inr n" "c \<in> set n"
  shows "c \<noteq> CHR ''/'' \<and> c \<noteq> CHR '' '' \<and> c \<noteq> CHR '';'' \<and> c \<noteq> CHR ''$'' \<and> c \<noteq> CHR ''&'' \<and> c \<noteq> CHR ''|''"
proof -
  have ok: "project_name_ok n" using assms(1) by (auto simp: project_name_def Let_def split: if_splits)
  have "project_name_char c \<or> c = CHR 0x0A" using ok assms(2)
    by (auto simp: project_name_ok_iff list_all_iff)
  moreover have "\<not> project_name_char (CHR ''/'')" "\<not> project_name_char (CHR '' '')" "\<not> project_name_char (CHR '';'')"
    "\<not> project_name_char (CHR ''$'')" "\<not> project_name_char (CHR ''&'')" "\<not> project_name_char (CHR ''|'')" by code_simp+
  ultimately show ?thesis by auto
qed

text \<open>The final line feed the expression lets through.\<close>

lemma project_name_line_feed: "project_name ''a\<newline>'' True = Inr ''a\<newline>''"
  by code_simp

end
