(* ===== verification/Agent_Plugins.thy ===== *)
theory Agent_Plugins
  imports Config_Load Monitor_Detect Throttle
begin

section \<open>The built-in agent plugins (builtin\_plugins/)\<close>

text \<open>
  What the five built-in post-round hooks read out of the tail of a round log and the events they
  write: transient errors with the moment the back-off ends, authentication failures, the usage of
  the round and repeated tool calls. A parsed JSON value is a scalar of theory \<open>Events\<close>, an array or
  an object whose keys are in the order of the text and distinct. The parser of one line is a
  parameter: an answer of \<open>Inr None\<close> is the decoding error the reader skips, \<open>Inl\<close> any other
  exception. The text form of an array or an object is a parameter too. The log is the list of its
  lines, the clock the real \<open>now\<close>. An event is recorded as the call of its emitter in \<open>\_emit/agent.py\<close>,
  which masks secrets in \<open>raw\<close> on its way to the log.
\<close>

subsection \<open>JSON values\<close>

datatype jval = JAtom pyval | JArr "jval list" | JObj "(string \<times> jval) list"

type_synonym jobject = "(string \<times> jval) list"

abbreviation "JNull \<equiv> JAtom PNone"

definition jget_or :: "jobject \<Rightarrow> string \<Rightarrow> jval \<Rightarrow> jval" where
  "jget_or d k v = (case map_of d k of None \<Rightarrow> v | Some x \<Rightarrow> x)"

definition jget :: "jobject \<Rightarrow> string \<Rightarrow> jval" where
  "jget d k = jget_or d k JNull"

fun jtrue :: "jval \<Rightarrow> bool" where
  "jtrue (JAtom v) \<longleftrightarrow> py_truthy v"
| "jtrue (JArr xs) \<longleftrightarrow> xs \<noteq> []"
| "jtrue (JObj d) \<longleftrightarrow> d \<noteq> []"

fun jstr :: "(jval \<Rightarrow> string) \<Rightarrow> jval \<Rightarrow> string" where
  "jstr rep (JAtom v) = py_str v"
| "jstr rep v = rep v"

definition jtext :: "string \<Rightarrow> jval" where "jtext s = JAtom (PStr s)"

text \<open>\<open>int(value)\<close> and \<open>float(value)\<close>, with what they raise.\<close>

fun jint :: "jval \<Rightarrow> int res" where
  "jint (JAtom (PBool b)) = Inr (if b then 1 else 0)"
| "jint (JAtom (PInt n)) = Inr n"
| "jint (JAtom (PFloat x r)) = Inr (py_trunc x)"
| "jint (JAtom PNan) = Inl (ValueError ''cannot convert float NaN to integer'')"
| "jint (JAtom (PInf neg)) = Inl OverflowError"
| "jint (JAtom (PStr s)) =
     (case py_int_of_str (py_strip s) of Some n \<Rightarrow> Inr n | None \<Rightarrow> Inl (ValueError ''invalid literal for int''))"
| "jint v = Inl TypeError"

fun jfloat :: "jval \<Rightarrow> pyfloat res" where
  "jfloat (JAtom (PBool b)) = Inr (Finite (if b then 1 else 0))"
| "jfloat (JAtom (PInt n)) = res_bind (int_to_float n) (\<lambda>x. Inr (Finite x))"
| "jfloat (JAtom (PFloat x r)) = Inr (Finite x)"
| "jfloat (JAtom PNan) = Inr NotANumber"
| "jfloat (JAtom (PInf neg)) = Inr (Infinite neg)"
| "jfloat (JAtom (PStr s)) =
     (case py_float_of_str (py_strip s) of Some x \<Rightarrow> Inr x | None \<Rightarrow> Inl (ValueError ''could not convert string to float''))"
| "jfloat v = Inl TypeError"

text \<open>\<open>_as_int\<close> of the claude and the gemini plugin.\<close>

definition as_int :: "jval \<Rightarrow> int \<Rightarrow> int" where
  "as_int v fallback =
     (case v of JAtom (PBool b) \<Rightarrow> fallback | JAtom PNone \<Rightarrow> fallback
      | _ \<Rightarrow> (case jint v of Inr n \<Rightarrow> n | Inl e \<Rightarrow> fallback))"

subsection \<open>The tail of a round log\<close>

definition tail_lines :: nat where "tail_lines = 200"

definition looks_json :: "string \<Rightarrow> bool" where
  "looks_json l \<longleftrightarrow> take 1 (py_lstrip l) \<in> {''{'', ''[''}"

definition json_tail :: "string list \<Rightarrow> string list" where
  "json_tail ls = (let js = filter looks_json ls in drop (length js - tail_lines) js)"

fun json_objects :: "(string \<Rightarrow> jval option res) \<Rightarrow> string list \<Rightarrow> jobject list res" where
  "json_objects loads [] = Inr []"
| "json_objects loads (l # ls) =
     (let s = py_strip l in
      if s = [] then json_objects loads ls
      else (case loads s of
              Inl e \<Rightarrow> Inl e
            | Inr (Some (JObj d)) \<Rightarrow> res_bind (json_objects loads ls) (\<lambda>ds. Inr (d # ds))
            | _ \<Rightarrow> json_objects loads ls))"

definition json_events :: "(string \<Rightarrow> jval option res) \<Rightarrow> string list \<Rightarrow> jobject list res" where
  "json_events loads ls = json_objects loads (json_tail ls)"

subsection \<open>Transient classes\<close>

definition raw_cap :: nat where "raw_cap = 200"

definition cap_raw :: "string \<Rightarrow> string" where "cap_raw s = take raw_cap s"

definition transient_5xx :: "int list" where "transient_5xx = [500, 502, 503, 504, 529]"

definition classifications :: "string list" where
  "classifications = [''rate_limit_account'', ''rate_limit_model'', ''api_transient_5xx'', ''api_timeout'']"

definition classify_transient_status :: "jval \<Rightarrow> string option" where
  "classify_transient_status status =
     (case status of
        JAtom (PInt n) \<Rightarrow>
          if n = 429 then Some ''rate_limit_model''
          else if n \<in> set transient_5xx then Some ''api_transient_5xx''
          else if n = 408 then Some ''api_timeout'' else None
      | _ \<Rightarrow> None)"

record transient_error =
  te_class :: string
  te_agent :: string
  te_reset :: int
  te_raw :: string

definition default_duration :: "string \<Rightarrow> int" where
  "default_duration c = (case back_off_defaults c of Some d \<Rightarrow> d | None \<Rightarrow> 0)"

text \<open>The payload of a class with a default back-off, which every class of the ladder has.\<close>

definition default_transient :: "real \<Rightarrow> string \<Rightarrow> string \<Rightarrow> string \<Rightarrow> transient_error" where
  "default_transient now agent c raw =
     \<lparr>te_class = c, te_agent = agent, te_reset = py_trunc (now + real_of_int (default_duration c)), te_raw = cap_raw raw\<rparr>"

subsection \<open>What a plugin records\<close>

record model_usage =
  mu_total :: int
  mu_input :: int
  mu_output :: int
  mu_cached :: int

datatype usage_cost = NoCost | CostAs jval | CostSum pyfloat

record usage_payload =
  up_agent :: string
  up_model :: string
  up_input :: int
  up_output :: int
  up_cached :: int
  up_created :: int
  up_cost :: usage_cost
  up_duration :: int
  up_breakdown :: "(string \<times> model_usage) list option"
  up_calls :: int

record repetition =
  rp_tool :: string
  rp_target :: "string option"
  rp_times :: int
  rp_window :: int

datatype plugin_emit =
    EmitTransient string transient_error
  | EmitAuth string string
  | EmitUsage string bool usage_payload
  | EmitRepetition repetition

text \<open>What a hook is given of the round, and how an emission ends (\<open>Some\<close>: it raises).\<close>

record hook_round =
  hr_binary :: string
  hr_lines :: "string list option"
  hr_phase :: "string option"
  hr_ok :: bool
  hr_window :: int
  hr_threshold :: int

definition phase_text :: "hook_round \<Rightarrow> string" where
  "phase_text r = (case hr_phase r of None \<Rightarrow> [] | Some p \<Rightarrow> p)"

text \<open>Emissions one after the other: the first that raises ends the hook.\<close>

fun emit_in_turn :: "(plugin_emit \<Rightarrow> py_error option) \<Rightarrow> plugin_emit list \<Rightarrow> plugin_emit list \<times> py_error option" where
  "emit_in_turn fails [] = ([], None)"
| "emit_in_turn fails (e # es) =
     (case fails e of
        Some x \<Rightarrow> ([], Some x)
      | None \<Rightarrow> (case emit_in_turn fails es of (done, x) \<Rightarrow> (e # done, x)))"

text \<open>Emissions each on its own: a raise is a warning.\<close>

definition emit_apart :: "(plugin_emit \<Rightarrow> py_error option) \<Rightarrow> plugin_emit list \<Rightarrow> plugin_emit list \<times> py_error option" where
  "emit_apart fails es = (filter (\<lambda>e. fails e = None) es, None)"

subsection \<open>claude (claude\_rate\_limit.py)\<close>

type_synonym tool_call = "string \<times> string option"

definition extract_tool_target :: "jval \<Rightarrow> string option" where
  "extract_tool_target tool_input =
     (case tool_input of
        JObj d \<Rightarrow>
          (case List.find (\<lambda>k. case jget d k of JAtom (PStr s) \<Rightarrow> True | _ \<Rightarrow> False)
                  [''file_path'', ''path'', ''pattern'', ''command''] of
             None \<Rightarrow> None
           | Some k \<Rightarrow> (case jget d k of JAtom (PStr s) \<Rightarrow> Some (take 100 s) | _ \<Rightarrow> None))
      | _ \<Rightarrow> None)"

text \<open>\<open>Counter(xs).most_common(1)\<close>: the first of the most frequent elements.\<close>

definition most_common :: "'a list \<Rightarrow> ('a \<times> nat) option" where
  "most_common xs =
     foldl (\<lambda>best x. case best of
              None \<Rightarrow> Some (x, count_list xs x)
            | Some (b, n) \<Rightarrow> if count_list xs x > n then Some (x, count_list xs x) else best)
       None xs"

definition window_repeats :: "tool_call list \<Rightarrow> int \<Rightarrow> int \<Rightarrow> nat \<Rightarrow> repetition option" where
  "window_repeats calls window threshold start =
     (case most_common (take (nat window) (drop start calls)) of
        None \<Rightarrow> None
      | Some ((tool, target), n) \<Rightarrow>
          if int n \<ge> threshold
          then Some \<lparr>rp_tool = tool, rp_target = target, rp_times = int n, rp_window = window\<rparr> else None)"

fun first_some :: "('a \<Rightarrow> 'b option) \<Rightarrow> 'a list \<Rightarrow> 'b option" where
  "first_some f [] = None"
| "first_some f (x # xs) = (case f x of Some y \<Rightarrow> Some y | None \<Rightarrow> first_some f xs)"

definition window_starts :: "nat \<Rightarrow> int \<Rightarrow> int \<Rightarrow> nat list" where
  "window_starts n window threshold = map nat [max 0 (int n - window) .. int n - threshold]"

definition detect_repetitive_tool :: "tool_call list \<Rightarrow> int \<Rightarrow> int \<Rightarrow> repetition option" where
  "detect_repetitive_tool calls window threshold =
     (if window \<le> 0 \<or> threshold \<le> 0 \<or> int (length calls) < threshold then None
      else first_some (window_repeats calls window threshold) (window_starts (length calls) window threshold))"

record claude_scan =
  cs_limit :: "jobject option"
  cs_result :: "jobject option"
  cs_model :: "string option"
  cs_calls :: "tool_call list"

definition content_calls :: "(jval \<Rightarrow> string) \<Rightarrow> jval list \<Rightarrow> tool_call list" where
  "content_calls rep blocks =
     concat (map (\<lambda>c. case c of
         JObj d \<Rightarrow>
           if jget d ''type'' = jtext ''tool_use''
           then [(jstr rep (jget_or d ''name'' (jtext ''?'')), extract_tool_target (jget_or d ''input'' (JObj [])))] else []
       | _ \<Rightarrow> []) blocks)"

definition claude_assistant :: "(jval \<Rightarrow> string) \<Rightarrow> jval \<Rightarrow> claude_scan \<Rightarrow> claude_scan" where
  "claude_assistant rep msg st =
     (case msg of
        JObj d \<Rightarrow>
          (let model = jget d ''model''; content = jget_or d ''content'' (JArr [])
           in st\<lparr>cs_model := (if jtrue model then Some (jstr rep model) else cs_model st),
                 cs_calls := cs_calls st @ (case content of JArr blocks \<Rightarrow> content_calls rep blocks | _ \<Rightarrow> [])\<rparr>)
      | _ \<Rightarrow> st)"

definition claude_event :: "(jval \<Rightarrow> string) \<Rightarrow> jobject \<Rightarrow> claude_scan \<Rightarrow> claude_scan" where
  "claude_event rep ev st =
     (let ty = jget ev ''type'' in
      if ty = jtext ''rate_limit_event''
      then (case jget ev ''rate_limit_info'' of
              JObj rli \<Rightarrow> if jget rli ''status'' = jtext ''rejected'' then st\<lparr>cs_limit := Some rli\<rparr> else st
            | _ \<Rightarrow> st)
      else if ty = jtext ''result'' then st\<lparr>cs_result := Some ev\<rparr>
      else if ty = jtext ''assistant'' then claude_assistant rep (jget_or ev ''message'' (JObj [])) st
      else st)"

definition claude_start :: claude_scan where
  "claude_start = \<lparr>cs_limit = None, cs_result = None, cs_model = None, cs_calls = []\<rparr>"

text \<open>A rejected event of the account's own limit outranks the status of the result.\<close>

definition account_limit :: "jobject option \<Rightarrow> jobject option" where
  "account_limit limit =
     (case limit of
        Some rli \<Rightarrow> if jget rli ''rateLimitType'' = jtext ''five_hour'' then Some rli else None
      | None \<Rightarrow> None)"

definition claude_transient ::
  "(jval \<Rightarrow> string) \<Rightarrow> real \<Rightarrow> jobject option \<Rightarrow> jobject option \<Rightarrow> transient_error option" where
  "claude_transient rep now limit res =
     (let raw = (case res of None \<Rightarrow> [] | Some d \<Rightarrow> jstr rep (jget_or d ''result'' (jtext []))) in
      case account_limit limit of
        Some rli \<Rightarrow>
          Some \<lparr>te_class = ''rate_limit_account'', te_agent = ''claude'',
                te_reset = as_int (jget rli ''resetsAt'') (py_trunc now + 300), te_raw = cap_raw raw\<rparr>
      | None \<Rightarrow>
          (case res of
             None \<Rightarrow> None
           | Some d \<Rightarrow>
               if jget d ''is_error'' \<noteq> JAtom (PBool True) then None
               else map_option (\<lambda>c. default_transient now ''claude'' c raw)
                      (classify_transient_status (jget d ''api_error_status''))))"

text \<open>A usage that is neither falsy nor an object has no \<open>get\<close>.\<close>

definition claude_usage :: "jobject \<Rightarrow> string option \<Rightarrow> int \<Rightarrow> usage_payload option res" where
  "claude_usage res model calls =
     (let usage = jget res ''usage'' in
      if \<not> jtrue usage then Inr None
      else (case usage of
         JObj u \<Rightarrow> Inr (Some
           \<lparr>up_agent = ''claude'', up_model = (case model of Some m \<Rightarrow> if m = [] then ''unknown'' else m | None \<Rightarrow> ''unknown''),
            up_input = as_int (jget u ''input_tokens'') 0, up_output = as_int (jget u ''output_tokens'') 0,
            up_cached = as_int (jget u ''cache_read_input_tokens'') 0,
            up_created = as_int (jget u ''cache_creation_input_tokens'') 0,
            up_cost = CostAs (jget res ''total_cost_usd''), up_duration = as_int (jget res ''duration_ms'') 0,
            up_breakdown = None, up_calls = calls\<rparr>)
       | _ \<Rightarrow> Inl AttributeError))"

text \<open>The emissions of one parsed round, in order.\<close>

definition claude_emits :: "(jval \<Rightarrow> string) \<Rightarrow> real \<Rightarrow> hook_round \<Rightarrow> jobject list \<Rightarrow> plugin_emit list res" where
  "claude_emits rep now r events =
     (let st = fold (claude_event rep) events claude_start;
          te = claude_transient rep now (cs_limit st) (cs_result st)
      in res_bind (case cs_result st of None \<Rightarrow> Inr None
                   | Some d \<Rightarrow> claude_usage d (cs_model st) (int (length (cs_calls st)))) (\<lambda>usage.
           let rep_call = detect_repetitive_tool (cs_calls st) (hr_window r) (hr_threshold r)
           in Inr ((case te of None \<Rightarrow> [] | Some x \<Rightarrow> [EmitTransient (phase_text r) x])
                 @ (case usage of None \<Rightarrow> [] | Some u \<Rightarrow> [EmitUsage (phase_text r) (hr_ok r) u])
                 @ (case rep_call of None \<Rightarrow> [] | Some a \<Rightarrow> [EmitRepetition a]))))"

text \<open>
  The shape of every hook: another agent or no log is nothing; an exception of the parse leaves
  nothing written.
\<close>

definition hook_with ::
  "string \<Rightarrow> (hook_round \<Rightarrow> bool)
   \<Rightarrow> ((plugin_emit \<Rightarrow> py_error option) \<Rightarrow> plugin_emit list \<Rightarrow> plugin_emit list \<times> py_error option)
   \<Rightarrow> (string list \<Rightarrow> plugin_emit list res) \<Rightarrow> (plugin_emit \<Rightarrow> py_error option) \<Rightarrow> hook_round
   \<Rightarrow> plugin_emit list \<times> py_error option" where
  "hook_with binary wanted way parse fails r =
     (if hr_binary r \<noteq> binary then ([], None)
      else (case hr_lines r of
              None \<Rightarrow> ([], None)
            | Some ls \<Rightarrow>
                if \<not> wanted r then ([], None)
                else (case parse ls of Inl e \<Rightarrow> ([], Some e) | Inr es \<Rightarrow> way fails es)))"

definition claude_after_round ::
  "(string \<Rightarrow> jval option res) \<Rightarrow> (jval \<Rightarrow> string) \<Rightarrow> real \<Rightarrow> (plugin_emit \<Rightarrow> py_error option) \<Rightarrow> hook_round
   \<Rightarrow> plugin_emit list \<times> py_error option" where
  "claude_after_round loads rep now fails r =
     hook_with ''claude'' (\<lambda>_. True) emit_apart
       (\<lambda>ls. res_bind (json_events loads ls) (claude_emits rep now r)) fails r"

subsection \<open>gemini (gemini.py)\<close>

definition gemini_transient :: "(jval \<Rightarrow> string) \<Rightarrow> real \<Rightarrow> jobject \<Rightarrow> transient_error option" where
  "gemini_transient rep now res =
     (if jget res ''status'' = jtext ''error'' \<or> jtrue (jget res ''error'') then
        (let err = (if jtrue (jget res ''error'') then jget res ''error'' else JObj []);
             code = (case err of JObj d \<Rightarrow> jget d ''code'' | _ \<Rightarrow> JNull);
             message = (case err of JObj d \<Rightarrow> jget d ''message'' | _ \<Rightarrow> JNull);
             raw = jstr rep (if jtrue message then message else jget_or res ''status'' (jtext ''error''))
         in map_option (\<lambda>c. default_transient now ''gemini'' c raw) (classify_transient_status code))
      else None)"

definition gemini_models :: "jobject \<Rightarrow> (string \<times> jobject) list" where
  "gemini_models stats =
     (case jget stats ''models'' of
        JObj ms \<Rightarrow> concat (map (\<lambda>(name, m). case m of JObj d \<Rightarrow> [(name, d)] | _ \<Rightarrow> []) ms)
      | _ \<Rightarrow> [])"

text \<open>\<open>max(models, key=...)\<close>: the first of the largest.\<close>

definition model_total :: "jobject \<Rightarrow> int" where "model_total d = as_int (jget d ''total_tokens'') 0"

definition primary_model :: "(string \<times> jobject) list \<Rightarrow> string" where
  "primary_model ms =
     (case ms of [] \<Rightarrow> ''unknown''
      | m # rest \<Rightarrow> fst (foldl (\<lambda>best x. if model_total (snd x) > model_total (snd best) then x else best) m rest))"

definition model_usage_of :: "jobject \<Rightarrow> model_usage" where
  "model_usage_of d =
     \<lparr>mu_total = model_total d, mu_input = as_int (jget_or d ''input_tokens'' (jget d ''input'')) 0,
      mu_output = as_int (jget d ''output_tokens'') 0, mu_cached = as_int (jget d ''cached'') 0\<rparr>"

definition gemini_usage :: "jobject \<Rightarrow> usage_payload" where
  "gemini_usage stats =
     (let ms = gemini_models stats in
      \<lparr>up_agent = ''gemini'', up_model = primary_model ms,
       up_input = as_int (jget stats ''input'') 0, up_output = as_int (jget stats ''output_tokens'') 0,
       up_cached = as_int (jget stats ''cached'') 0, up_created = 0, up_cost = NoCost,
       up_duration = as_int (jget stats ''duration_ms'') 0,
       up_breakdown = (if length ms > 1 then Some (map (\<lambda>(name, d). (name, model_usage_of d)) ms) else None),
       up_calls = as_int (jget stats ''tool_calls'') 0\<rparr>)"

definition last_result :: "jobject list \<Rightarrow> jobject option" where
  "last_result events =
     fold (\<lambda>ev found. if jget ev ''type'' = jtext ''result'' then Some ev else found) events None"

definition gemini_emits :: "(jval \<Rightarrow> string) \<Rightarrow> real \<Rightarrow> hook_round \<Rightarrow> jobject list \<Rightarrow> plugin_emit list" where
  "gemini_emits rep now r events =
     (case last_result events of
        None \<Rightarrow> []
      | Some res \<Rightarrow>
          (case gemini_transient rep now res of None \<Rightarrow> [] | Some x \<Rightarrow> [EmitTransient (phase_text r) x])
          @ (case jget res ''stats'' of
               JObj (kv # stats) \<Rightarrow> [EmitUsage (phase_text r) (hr_ok r) (gemini_usage (kv # stats))]
             | _ \<Rightarrow> []))"

definition gemini_after_round ::
  "(string \<Rightarrow> jval option res) \<Rightarrow> (jval \<Rightarrow> string) \<Rightarrow> real \<Rightarrow> (plugin_emit \<Rightarrow> py_error option) \<Rightarrow> hook_round
   \<Rightarrow> plugin_emit list \<times> py_error option" where
  "gemini_after_round loads rep now fails r =
     hook_with ''gemini'' (\<lambda>_. True) emit_in_turn
       (\<lambda>ls. res_bind (json_events loads ls) (\<lambda>evs. Inr (gemini_emits rep now r evs))) fails r"

subsection \<open>codewhale (codewhale.py)\<close>

definition codewhale_scan :: "jobject list \<Rightarrow> jval \<times> jobject option" where
  "codewhale_scan events =
     fold (\<lambda>ev (meta, err).
         if jget ev ''type'' = jtext ''metadata''
         then ((if jtrue (jget ev ''meta'') then jget ev ''meta'' else JObj []), err)
         else if jget ev ''type'' = jtext ''error'' then (meta, Some ev) else (meta, err))
       events (JNull, None)"

definition codewhale_usage :: "(jval \<Rightarrow> string) \<Rightarrow> jval \<Rightarrow> usage_payload option res" where
  "codewhale_usage rep meta =
     (if \<not> jtrue meta then Inr None
      else (case meta of
         JObj d \<Rightarrow>
           res_bind (jint (jget_or d ''input_tokens'' (JAtom (PInt 0)))) (\<lambda>i.
             res_bind (jint (jget_or d ''output_tokens'' (JAtom (PInt 0)))) (\<lambda>out. Inr (Some
               \<lparr>up_agent = ''codewhale'', up_model = jstr rep (jget_or d ''model'' (jtext ''unknown'')),
                up_input = i, up_output = out, up_cached = 0, up_created = 0, up_cost = NoCost, up_duration = 0,
                up_breakdown = None, up_calls = 0\<rparr>)))
       | _ \<Rightarrow> Inl AttributeError))"

definition classify_codewhale_error :: "jobject \<Rightarrow> string option" where
  "classify_codewhale_error d =
     first_some classify_transient_status [jget d ''code'', jget d ''status_code'']"

definition codewhale_emits :: "(jval \<Rightarrow> string) \<Rightarrow> real \<Rightarrow> hook_round \<Rightarrow> jobject list \<Rightarrow> plugin_emit list res" where
  "codewhale_emits rep now r events =
     (case codewhale_scan events of (meta, err) \<Rightarrow>
        res_bind (codewhale_usage rep meta) (\<lambda>usage.
          Inr ((case err of
                  None \<Rightarrow> []
                | Some d \<Rightarrow>
                    (case classify_codewhale_error d of
                       None \<Rightarrow> []
                     | Some c \<Rightarrow> [EmitTransient (phase_text r)
                         (default_transient now ''codewhale'' c (jstr rep (jget_or d ''error'' (jtext ''error''))))]))
               @ (case usage of None \<Rightarrow> [] | Some u \<Rightarrow> [EmitUsage (phase_text r) (hr_ok r) u]))))"

definition codewhale_after_round ::
  "(string \<Rightarrow> jval option res) \<Rightarrow> (jval \<Rightarrow> string) \<Rightarrow> real \<Rightarrow> (plugin_emit \<Rightarrow> py_error option) \<Rightarrow> hook_round
   \<Rightarrow> plugin_emit list \<times> py_error option" where
  "codewhale_after_round loads rep now fails r =
     hook_with ''codewhale'' (\<lambda>_. True) emit_in_turn
       (\<lambda>ls. res_bind (json_events loads ls) (codewhale_emits rep now r)) fails r"

subsection \<open>kimi (kimi.py)\<close>

definition last_retry :: "jobject list \<Rightarrow> jobject option" where
  "last_retry events =
     fold (\<lambda>ev found. if jget ev ''role'' = jtext ''meta'' \<and> jget ev ''type'' = jtext ''turn.step.retrying''
                       then Some ev else found) events None"

definition kimi_emits :: "(jval \<Rightarrow> string) \<Rightarrow> real \<Rightarrow> hook_round \<Rightarrow> jobject list \<Rightarrow> plugin_emit list" where
  "kimi_emits rep now r events =
     (case last_retry events of
        None \<Rightarrow> []
      | Some d \<Rightarrow>
          (case classify_transient_status (jget d ''status_code'') of
             None \<Rightarrow> []
           | Some c \<Rightarrow> [EmitTransient (phase_text r)
               (default_transient now ''kimi'' c (jstr rep (jget_or d ''error_message'' (jtext ''retrying''))))]))"

definition kimi_after_round ::
  "(string \<Rightarrow> jval option res) \<Rightarrow> (jval \<Rightarrow> string) \<Rightarrow> real \<Rightarrow> (plugin_emit \<Rightarrow> py_error option) \<Rightarrow> hook_round
   \<Rightarrow> plugin_emit list \<times> py_error option" where
  "kimi_after_round loads rep now fails r =
     hook_with ''kimi'' (\<lambda>r. \<not> hr_ok r) emit_in_turn
       (\<lambda>ls. res_bind (json_events loads ls) (\<lambda>evs. Inr (kimi_emits rep now r evs))) fails r"

subsection \<open>pi (pi.py)\<close>

definition assistants :: "jval \<Rightarrow> jobject list" where
  "assistants v =
     (case v of
        JArr ms \<Rightarrow> concat (map (\<lambda>m. case m of JObj d \<Rightarrow> if jget d ''role'' = jtext ''assistant'' then [d] else [] | _ \<Rightarrow> []) ms)
      | _ \<Rightarrow> [])"

definition pi_scan :: "jobject list \<Rightarrow> jobject list \<times> jobject list" where
  "pi_scan events =
     fold (\<lambda>ev (ends, msgs).
         if jget ev ''type'' = jtext ''agent_end'' then (ends @ assistants (jget ev ''messages''), msgs)
         else if jget ev ''type'' = jtext ''message_end'' then (ends, msgs @ assistants (JArr [jget ev ''message'']))
         else (ends, msgs))
       events ([], [])"

definition pi_messages :: "jobject list \<Rightarrow> jobject list" where
  "pi_messages events = (case pi_scan events of (ends, msgs) \<Rightarrow> if ends \<noteq> [] then ends else msgs)"

definition session_head_lines :: nat where "session_head_lines = 20"

fun session_stamp :: "(string \<Rightarrow> jval option res) \<Rightarrow> string list \<Rightarrow> jval option res" where
  "session_stamp loads [] = Inr None"
| "session_stamp loads (l # ls) =
     (case loads l of
        Inl e \<Rightarrow> Inl e
      | Inr (Some (JObj d)) \<Rightarrow>
          if jget d ''type'' = jtext ''session'' then Inr (Some (jget d ''timestamp'')) else session_stamp loads ls
      | _ \<Rightarrow> session_stamp loads ls)"

text \<open>Exact arithmetic on the instant; the code multiplies a float by 1000.\<close>

definition session_start_ms ::
  "(string \<Rightarrow> jval option res) \<Rightarrow> (int \<Rightarrow> real) \<Rightarrow> string list \<Rightarrow> int option res" where
  "session_start_ms loads local_ts ls =
     res_bind (session_stamp loads (take session_head_lines ls)) (\<lambda>stamp.
       Inr (case stamp of
              Some (JAtom (PStr s)) \<Rightarrow>
                (case parse_iso_ms s of Inl e \<Rightarrow> None | Inr dt \<Rightarrow> Some (py_trunc (dt_timestamp local_ts dt * 1000)))
            | _ \<Rightarrow> None))"

record pi_totals =
  pt_input :: int
  pt_output :: int
  pt_cache_read :: int
  pt_cache_write :: int
  pt_cost :: pyfloat
  pt_calls :: int

fun pf_add :: "pyfloat \<Rightarrow> pyfloat \<Rightarrow> pyfloat" where
  "pf_add (Finite x) (Finite y) = Finite (x + y)"
| "pf_add (Infinite a) (Infinite b) = (if a = b then Infinite a else NotANumber)"
| "pf_add NotANumber y = NotANumber"
| "pf_add x NotANumber = NotANumber"
| "pf_add (Infinite a) y = Infinite a"
| "pf_add x (Infinite b) = Infinite b"

definition num_or_zero :: "jval \<Rightarrow> jval" where
  "num_or_zero v = (if jtrue v then v else JAtom (PInt 0))"

definition add_usage :: "jobject \<Rightarrow> pi_totals \<Rightarrow> pi_totals res" where
  "add_usage u t =
     res_bind (jint (num_or_zero (jget u ''input''))) (\<lambda>i.
     res_bind (jint (num_or_zero (jget u ''output''))) (\<lambda>out.
     res_bind (jint (num_or_zero (jget u ''cacheRead''))) (\<lambda>cr.
     res_bind (jint (num_or_zero (jget u ''cacheWrite''))) (\<lambda>cw.
     res_bind (case jget u ''cost'' of
                 JObj c \<Rightarrow> res_bind (jfloat (num_or_zero (jget c ''total''))) (\<lambda>x. Inr (pf_add (pt_cost t) x))
               | _ \<Rightarrow> Inr (pt_cost t)) (\<lambda>cost.
       Inr (t\<lparr>pt_input := pt_input t + i, pt_output := pt_output t + out, pt_cache_read := pt_cache_read t + cr,
              pt_cache_write := pt_cache_write t + cw, pt_cost := cost\<rparr>))))))"

text \<open>The tool calls among the blocks; iterating a number raises.\<close>

definition tool_blocks :: "jval \<Rightarrow> int res" where
  "tool_blocks blocks =
     (if \<not> jtrue blocks then Inr 0
      else (case blocks of
         JArr bs \<Rightarrow> Inr (int (length (filter (\<lambda>b. case b of JObj d \<Rightarrow> jget d ''type'' = jtext ''toolCall'' | _ \<Rightarrow> False) bs)))
       | JObj d \<Rightarrow> Inr 0
       | JAtom (PStr s) \<Rightarrow> Inr 0
       | _ \<Rightarrow> Inl TypeError))"

definition add_message :: "jobject \<Rightarrow> pi_totals \<Rightarrow> pi_totals res" where
  "add_message m t =
     res_bind (case jget m ''usage'' of JObj u \<Rightarrow> add_usage u t | _ \<Rightarrow> Inr t) (\<lambda>t'.
       res_bind (tool_blocks (jget m ''content'')) (\<lambda>n. Inr (t'\<lparr>pt_calls := pt_calls t' + n\<rparr>)))"

fun add_messages :: "jobject list \<Rightarrow> pi_totals \<Rightarrow> pi_totals res" where
  "add_messages [] t = Inr t"
| "add_messages (m # ms) t = res_bind (add_message m t) (add_messages ms)"

definition no_totals :: pi_totals where
  "no_totals = \<lparr>pt_input = 0, pt_output = 0, pt_cache_read = 0, pt_cache_write = 0, pt_cost = Finite 0, pt_calls = 0\<rparr>"

definition positive_cost :: "pyfloat \<Rightarrow> bool" where
  "positive_cost c = (case c of Finite x \<Rightarrow> x > 0 | Infinite neg \<Rightarrow> \<not> neg | NotANumber \<Rightarrow> False)"

definition pi_duration_ms :: "jobject \<Rightarrow> int option \<Rightarrow> int" where
  "pi_duration_ms final start =
     (case start of None \<Rightarrow> 0
      | Some t0 \<Rightarrow>
          (case jget final ''timestamp'' of
             JAtom (PInt n) \<Rightarrow> max 0 (n - t0)
           | JAtom (PBool b) \<Rightarrow> max 0 ((if b then 1 else 0) - t0)
           | _ \<Rightarrow> 0))"

definition aggregate_usage :: "(jval \<Rightarrow> string) \<Rightarrow> jobject list \<Rightarrow> int option \<Rightarrow> usage_payload option res" where
  "aggregate_usage rep messages start =
     res_bind (add_messages messages no_totals) (\<lambda>t.
       if pt_input t = 0 \<and> pt_output t = 0 \<and> pt_cache_read t = 0 \<and> pt_cache_write t = 0 then Inr None
       else
         let final = last messages; provider = jget final ''provider'';
             model = jstr rep (if jtrue (jget final ''model'') then jget final ''model'' else jtext ''unknown'')
         in Inr (Some
           \<lparr>up_agent = ''pi'', up_model = (if jtrue provider then jstr rep provider @ ''/'' @ model else model),
            up_input = pt_input t, up_output = pt_output t, up_cached = pt_cache_read t, up_created = pt_cache_write t,
            up_cost = (if positive_cost (pt_cost t) then CostSum (pt_cost t) else NoCost),
            up_duration = pi_duration_ms final start, up_breakdown = None, up_calls = pt_calls t\<rparr>))"

text \<open>\<open>^\s*(\d{3})\b\<close>.\<close>

definition status_prefix :: "string \<Rightarrow> string option" where
  "status_prefix msg =
     (let s = dropWhile is_space msg; ds = take 3 s in
      if length ds = 3 \<and> list_all is_digit ds \<and> (case drop 3 s of [] \<Rightarrow> True | c # cs \<Rightarrow> \<not> word_char c)
      then Some ds else None)"

definition classify_pi_error :: "string option \<Rightarrow> string option" where
  "classify_pi_error msg =
     (case msg of
        None \<Rightarrow> None
      | Some s \<Rightarrow>
          if s = [] then None
          else (case status_prefix s of
                  Some ds \<Rightarrow> classify_transient_status (JAtom (PInt (digits_value ds)))
                | None \<Rightarrow>
                    if is_infix_of ''timed out'' (py_lower s) \<or> is_infix_of ''timeout'' (py_lower s)
                    then Some ''api_timeout'' else None))"

definition is_auth_error :: "string option \<Rightarrow> bool" where
  "is_auth_error msg \<longleftrightarrow> status_prefix (case msg of None \<Rightarrow> [] | Some s \<Rightarrow> s) = Some ''401''"

definition pi_error_text :: "(jval \<Rightarrow> string) \<Rightarrow> jobject \<Rightarrow> string option" where
  "pi_error_text rep final =
     (if jget final ''stopReason'' = jtext ''error''
      then Some (jstr rep (if jtrue (jget final ''errorMessage'') then jget final ''errorMessage'' else jtext ''error''))
      else None)"

definition pi_failure_emits :: "real \<Rightarrow> hook_round \<Rightarrow> string option \<Rightarrow> plugin_emit list" where
  "pi_failure_emits now r err =
     (if hr_ok r \<and> err = None then []
      else (let raw = (case err of None \<Rightarrow> ''None'' | Some s \<Rightarrow> s) in
            case classify_pi_error err of
              Some c \<Rightarrow> [EmitTransient (phase_text r) (default_transient now ''pi'' c raw)]
            | None \<Rightarrow> if is_auth_error err then [EmitAuth ''pi'' (cap_raw raw)] else []))"

text \<open>The failure is emitted before the usage is added up: an exception of the sum leaves it written.\<close>

definition pi_report ::
  "(jval \<Rightarrow> string) \<Rightarrow> real \<Rightarrow> (plugin_emit \<Rightarrow> py_error option) \<Rightarrow> hook_round \<Rightarrow> jobject list \<Rightarrow> int option
   \<Rightarrow> plugin_emit list \<times> py_error option" where
  "pi_report rep now fails r messages start =
     (let err = pi_error_text rep (last messages) in
      case emit_in_turn fails (pi_failure_emits now r err) of
        (done, Some e) \<Rightarrow> (done, Some e)
      | (done, None) \<Rightarrow>
          (case aggregate_usage rep messages start of
             Inl e \<Rightarrow> (done, Some e)
           | Inr None \<Rightarrow> (done, None)
           | Inr (Some u) \<Rightarrow>
               (case emit_in_turn fails [EmitUsage (phase_text r) (hr_ok r \<and> err = None) u] of
                  (more_done, e) \<Rightarrow> (done @ more_done, e))))"

definition pi_after_round ::
  "(string \<Rightarrow> jval option res) \<Rightarrow> (int \<Rightarrow> real) \<Rightarrow> (jval \<Rightarrow> string) \<Rightarrow> real \<Rightarrow> (plugin_emit \<Rightarrow> py_error option) \<Rightarrow> hook_round
   \<Rightarrow> plugin_emit list \<times> py_error option" where
  "pi_after_round loads local_ts rep now fails r =
     (if hr_binary r \<noteq> ''pi'' then ([], None)
      else (case hr_lines r of
              None \<Rightarrow> ([], None)
            | Some ls \<Rightarrow>
                (case res_bind (json_events loads ls) (\<lambda>evs.
                        res_bind (session_start_ms loads local_ts ls) (\<lambda>start. Inr (pi_messages evs, start))) of
                   Inl e \<Rightarrow> ([], Some e)
                 | Inr (messages, start) \<Rightarrow>
                     if messages = [] then ([], None) else pi_report rep now fails r messages start)))"

subsection \<open>What the plugins promise\<close>

lemma classify_transient_status_class:
  "classify_transient_status v = Some c \<Longrightarrow> c \<in> set classifications \<and> c \<noteq> ''rate_limit_account''"
  by (auto simp: classify_transient_status_def classifications_def split: jval.splits pyval.splits if_splits)

lemma classify_codewhale_class:
  "classify_codewhale_error d = Some c \<Longrightarrow> c \<in> set classifications \<and> c \<noteq> ''rate_limit_account''"
  by (auto simp: classify_codewhale_error_def dest: classify_transient_status_class split: option.splits)

lemma classify_pi_class:
  "classify_pi_error msg = Some c \<Longrightarrow> c \<in> set classifications \<and> c \<noteq> ''rate_limit_account''"
  by (auto simp: classify_pi_error_def classifications_def split: option.splits if_splits
      dest: classify_transient_status_class [unfolded classifications_def])

lemma cap_raw_length: "length (cap_raw s) \<le> raw_cap"
  by (simp add: cap_raw_def)

text \<open>
  A well-formed emission: about this agent and this phase, of a known class, with at most the
  capped excerpt; a back-off the server did not name ends the class's own time after now; a
  usage is called a success only if the round was one.
\<close>

fun emit_ok :: "real \<Rightarrow> hook_round \<Rightarrow> plugin_emit \<Rightarrow> bool" where
  "emit_ok now r (EmitTransient p te) \<longleftrightarrow>
     p = phase_text r \<and> te_agent te = hr_binary r \<and> te_class te \<in> set classifications \<and> length (te_raw te) \<le> raw_cap
     \<and> (if te_class te = ''rate_limit_account'' then hr_binary r = ''claude''
        else te_reset te = py_trunc (now + real_of_int (default_duration (te_class te))))"
| "emit_ok now r (EmitAuth agent raw) \<longleftrightarrow> agent = hr_binary r \<and> length raw \<le> raw_cap \<and> agent = ''pi''"
| "emit_ok now r (EmitUsage p ok u) \<longleftrightarrow> p = phase_text r \<and> up_agent u = hr_binary r \<and> (ok \<longrightarrow> hr_ok r)"
| "emit_ok now r (EmitRepetition a) \<longleftrightarrow>
     hr_binary r = ''claude'' \<and> 0 < hr_threshold r \<and> hr_threshold r \<le> rp_times a \<and> rp_times a \<le> hr_window r \<and> rp_window a = hr_window r"

lemma default_transient_ok:
  "hr_binary r = agent \<Longrightarrow> c \<in> set classifications \<and> c \<noteq> ''rate_limit_account''
     \<Longrightarrow> emit_ok now r (EmitTransient (phase_text r) (default_transient now agent c raw))"
  by (simp add: default_transient_def cap_raw_length)

text \<open>The written events are among the attempted ones, whatever fails.\<close>

lemma emit_in_turn_subset: "set (fst (emit_in_turn fails es)) \<subseteq> set es"
  by (induction es) (auto split: option.splits prod.splits)

lemma emit_apart_subset: "set (fst (emit_apart fails es)) \<subseteq> set es"
  by (auto simp: emit_apart_def)

lemma hook_with_ok:
  assumes way: "\<And>es. set (fst (way fails es)) \<subseteq> set es"
    and parse: "\<And>ls es. hr_binary r = binary \<Longrightarrow> parse ls = Inr es \<Longrightarrow> list_all P es"
  shows "list_all P (fst (hook_with binary wanted way parse fails r))"
proof (cases "hr_binary r = binary")
  case True
  show ?thesis
  proof (cases "hr_lines r")
    case (Some ls)
    show ?thesis
    proof (cases "parse ls")
      case (Inr es)
      then have "list_all P es" using parse True by blast
      then have "list_all P (fst (way fails es))" using way [of es] by (auto simp: list_all_iff)
      then show ?thesis using True Some Inr by (simp add: hook_with_def)
    qed (use True Some in \<open>simp add: hook_with_def\<close>)
  qed (use True in \<open>simp add: hook_with_def\<close>)
qed (simp add: hook_with_def)

subsection \<open>Repeated tool calls\<close>

lemma most_common_fold:
  fixes f :: "'a \<Rightarrow> nat"
  assumes "foldl (\<lambda>best x. case best of None \<Rightarrow> Some (x, f x) | Some (b, n) \<Rightarrow> if f x > n then Some (x, f x) else best) start xs = Some (b, n)"
    and "\<And>b0 n0. start = Some (b0, n0) \<Longrightarrow> n0 = f b0"
  shows "n = f b \<and> (\<forall>x\<in>set xs. f x \<le> n) \<and> (\<forall>b0 n0. start = Some (b0, n0) \<longrightarrow> n0 \<le> n)"
  using assms
proof (induction xs arbitrary: start)
  case Nil
  then have "start = Some (b, n)" by simp
  then show ?case using Nil.prems(2) by auto
next
  case (Cons x xs)
  let ?s = "case start of None \<Rightarrow> Some (x, f x) | Some (b, n) \<Rightarrow> if f x > n then Some (x, f x) else start"
  have e: "foldl (\<lambda>best x. case best of None \<Rightarrow> Some (x, f x) | Some (b, n) \<Rightarrow> if f x > n then Some (x, f x) else best) ?s xs = Some (b, n)"
    using Cons.prems(1) by simp
  have s: "\<And>b0 n0. ?s = Some (b0, n0) \<Longrightarrow> n0 = f b0" using Cons.prems(2) by (auto split: option.splits if_splits)
  note ih = Cons.IH [OF e s]
  obtain b1 n1 where s1: "?s = Some (b1, n1)" "f x \<le> n1" "\<And>b0 n0. start = Some (b0, n0) \<Longrightarrow> n0 \<le> n1"
  proof (cases start)
    case None
    then show thesis by (intro that [of x "f x"]) simp_all
  next
    case (Some p)
    obtain b0 n0 where p: "p = (b0, n0)" by (cases p)
    show thesis
    proof (cases "n0 < f x")
      case True
      then show thesis using Some p by (intro that [of x "f x"]) simp_all
    next
      case False
      then show thesis using Some p by (intro that [of b0 n0]) simp_all
    qed
  qed
  have "n1 \<le> n" using ih s1(1) by blast
  then show ?case using ih s1 by fastforce
qed

lemma most_common_Some:
  assumes "most_common xs = Some (b, n)"
  shows "n = count_list xs b" "count_list xs x \<le> n"
proof -
  have m: "n = count_list xs b \<and> (\<forall>x\<in>set xs. count_list xs x \<le> n)"
    using most_common_fold [of "count_list xs" None xs b n] assms unfolding most_common_def by blast
  then show "n = count_list xs b" by blast
  show "count_list xs x \<le> n" using m by (cases "x \<in> set xs") (auto simp: count_list_0_iff)
qed

lemma most_common_None: "most_common xs = None \<longleftrightarrow> xs = []"
proof -
  have "foldl (\<lambda>best x. case best of None \<Rightarrow> Some (x, f x) | Some (b, n) \<Rightarrow> if f x > n then Some (x, f x) else best) (Some z) ys \<noteq> None"
    for f :: "'a \<Rightarrow> nat" and z ys
    by (induction ys arbitrary: z) (auto split: prod.splits)
  then show ?thesis by (cases xs) (auto simp: most_common_def)
qed

lemma count_list_drop: "count_list (drop n xs) x \<le> count_list xs x"
  by (metis append_take_drop_id count_list_append le_add2)

lemma count_list_le_length: "count_list xs x \<le> length xs"
  by (induction xs) auto

lemma window_repeats_None:
  assumes "window_repeats calls window threshold s = None" "s \<le> s'" "length calls - s \<le> nat window"
  shows "window_repeats calls window threshold s' = None"
proof -
  have t: "take (nat window) (drop s calls) = drop s calls" "take (nat window) (drop s' calls) = drop s' calls"
    using assms(2,3) by auto
  have d: "drop s' calls = drop (s' - s) (drop s calls)" using assms(2) by simp
  show ?thesis
  proof (cases "most_common (drop s' calls)")
    case None
    then show ?thesis by (simp add: window_repeats_def t)
  next
    case (Some bn)
    obtain b n where bn: "bn = (b, n)" by (cases bn)
    have n: "n = count_list (drop s' calls) b" using most_common_Some(1) [of "drop s' calls"] Some bn by simp
    have "drop s calls \<noteq> []" using Some most_common_None [of "drop s' calls"] d by auto
    then obtain b0 n0 where b0: "most_common (drop s calls) = Some (b0, n0)"
      using most_common_None [of "drop s calls"] by (cases "most_common (drop s calls)") auto
    have "n \<le> n0" using n d count_list_drop most_common_Some(2) [OF b0] le_trans by metis
    moreover have "int n0 < threshold" using assms(1) b0 t by (auto simp: window_repeats_def split: prod.splits if_splits)
    ultimately show ?thesis using Some bn by (auto simp: window_repeats_def t split: prod.splits)
  qed
qed

lemma first_some_None: "(\<And>x. x \<in> set xs \<Longrightarrow> f x = None) \<Longrightarrow> first_some f xs = None"
  by (induction xs) auto

text \<open>Only the last window counts: every later start reads a part of it.\<close>

lemma detect_last_window:
  "detect_repetitive_tool calls window threshold =
     (if 0 < window \<and> 0 < threshold then window_repeats calls window threshold (length calls - nat window) else None)"
proof (cases "0 < window \<and> 0 < threshold")
  case False
  then show ?thesis by (auto simp: detect_repetitive_tool_def)
next
  case True
  let ?n = "length calls" and ?s = "length calls - nat window"
  let ?f = "window_repeats calls window threshold"
  have few: "?f ?s = None" if "int ?n - int ?s < threshold"
  proof -
    have len: "length (take (nat window) (drop ?s calls)) \<le> ?n - ?s" by simp
    have "int m < threshold" if "most_common (take (nat window) (drop ?s calls)) = Some (b, m)" for b m
      using most_common_Some(1) [OF that] count_list_le_length [of "take (nat window) (drop ?s calls)" b] len
        \<open>int ?n - int ?s < threshold\<close> by linarith
    then show ?thesis by (fastforce simp: window_repeats_def split: option.splits prod.splits)
  qed
  have starts: "window_starts ?n window threshold =
      (if int ?n - int ?s < threshold then [] else ?s # map nat [int ?s + 1 .. int ?n - threshold])"
  proof -
    have "max 0 (int ?n - window) = int ?s" using True by linarith
    then show ?thesis by (simp add: window_starts_def upto_rec1)
  qed
  show ?thesis
  proof (cases "int ?n - int ?s < threshold")
    case small: True
    have "first_some ?f (window_starts ?n window threshold) = None" using starts small by simp
    then show ?thesis using True few [OF small] by (simp add: detect_repetitive_tool_def)
  next
    case False
    have rest: "first_some ?f (map nat [int ?s + 1 .. int ?n - threshold]) = None" if "?f ?s = None"
      by (rule first_some_None) (use that window_repeats_None [OF that] in auto)
    have "first_some ?f (window_starts ?n window threshold) = ?f ?s"
      using starts False rest by (auto split: option.splits)
    moreover have "\<not> int ?n < threshold" using False by linarith
    ultimately show ?thesis using True by (simp add: detect_repetitive_tool_def)
  qed
qed

lemma detect_repetitive_bounds:
  assumes "detect_repetitive_tool calls window threshold = Some a"
  shows "0 < threshold" "threshold \<le> rp_times a" "rp_times a \<le> window" "rp_window a = window"
proof -
  have w: "0 < window \<and> 0 < threshold" and r: "window_repeats calls window threshold (length calls - nat window) = Some a"
    using assms by (auto simp: detect_last_window split: if_splits)
  let ?xs = "take (nat window) (drop (length calls - nat window) calls)"
  obtain b n where m: "most_common ?xs = Some (b, n)" and a: "rp_times a = int n" "threshold \<le> int n" "rp_window a = window"
    using r by (auto simp: window_repeats_def split: option.splits if_splits prod.splits)
  have "n \<le> length ?xs" using most_common_Some(1) [OF m] by (metis count_list_le_length)
  moreover have "length (take (nat window) ys) \<le> nat window" for ys :: "tool_call list" by simp
  ultimately have "n \<le> nat window" using le_trans by blast
  then show "rp_times a \<le> window" using a w by linarith
  show "0 < threshold" "threshold \<le> rp_times a" "rp_window a = window" using w a by auto
qed

text \<open>Which repetition is reported: one of the last window's most frequent calls.\<close>

lemma repetition_exact:
  "(detect_repetitive_tool calls window threshold \<noteq> None) =
     (0 < window \<and> 0 < threshold
      \<and> (\<exists>call\<in>set (drop (length calls - nat window) calls).
           threshold \<le> int (count_list (drop (length calls - nat window) calls) call)))"
proof (cases "0 < window \<and> 0 < threshold")
  case False
  then show ?thesis by (auto simp: detect_last_window)
next
  case True
  let ?xs = "drop (length calls - nat window) calls"
  have t: "take (nat window) ?xs = ?xs" by simp
  show ?thesis
  proof (cases "most_common ?xs")
    case None
    then show ?thesis using True most_common_None [of ?xs] by (auto simp: detect_last_window window_repeats_def t)
  next
    case (Some bn)
    obtain b n where bn: "most_common ?xs = Some (b, n)" using Some by (cases bn) auto
    note mc = most_common_Some [OF bn]
    have "b \<in> set ?xs \<or> n = 0" using mc(1) by (metis count_list_0_iff)
    moreover have "(detect_repetitive_tool calls window threshold \<noteq> None) = (threshold \<le> int n)"
      using True bn by (auto simp: detect_last_window window_repeats_def t split: prod.splits)
    moreover have "threshold \<le> int n" if "threshold \<le> int (count_list ?xs call)" for call
      using mc(2) [of call] that by linarith
    ultimately show ?thesis using True mc(1) by fastforce
  qed
qed

subsection \<open>Each hook\<close>

lemma claude_emits_ok:
  assumes bin: "hr_binary r = ''claude''" and run: "claude_emits rep now r events = Inr es"
  shows "list_all (emit_ok now r) es"
proof -
  let ?st = "fold (claude_event rep) events claude_start"
  have te: "emit_ok now r (EmitTransient (phase_text r) x)" if te0: "claude_transient rep now (cs_limit ?st) (cs_result ?st) = Some x" for x
  proof (cases "account_limit (cs_limit ?st)")
    case None
    then obtain c raw where "x = default_transient now ''claude'' c raw" "c \<in> set classifications \<and> c \<noteq> ''rate_limit_account''"
      using te0 by (auto simp: claude_transient_def Let_def split: option.splits if_splits dest: classify_transient_status_class)
    then show ?thesis using default_transient_ok [OF bin] by blast
  next
    case (Some rli)
    then show ?thesis using that bin by (auto simp: claude_transient_def Let_def classifications_def cap_raw_length)
  qed
  have us: "up_agent u = ''claude''" if "claude_usage d model n = Inr (Some u)" for d model n u
    using that by (auto simp: claude_usage_def Let_def split: if_splits jval.splits)
  have an: "emit_ok now r (EmitRepetition a)" if "detect_repetitive_tool calls (hr_window r) (hr_threshold r) = Some a" for calls a
    using detect_repetitive_bounds [OF that] bin by simp
  show ?thesis using run te us an bin
    by (auto simp del: emit_ok.simps(1) emit_ok.simps(4) simp: claude_emits_def Let_def res_bind_Inr_iff split: option.splits)
qed

lemma gemini_emits_ok:
  assumes bin: "hr_binary r = ''gemini''"
  shows "list_all (emit_ok now r) (gemini_emits rep now r events)"
proof -
  have te: "emit_ok now r (EmitTransient (phase_text r) x)" if "gemini_transient rep now d = Some x" for d x
    using that default_transient_ok [OF bin] classify_transient_status_class
    by (auto simp del: emit_ok.simps(1) simp: gemini_transient_def Let_def split: if_splits)
  have us: "up_agent (gemini_usage stats) = ''gemini''" for stats by (simp add: gemini_usage_def Let_def)
  show ?thesis using te us bin
    by (auto simp del: emit_ok.simps(1) simp: gemini_emits_def split: option.splits jval.splits list.splits)
qed

lemma codewhale_emits_ok:
  assumes bin: "hr_binary r = ''codewhale''" and run: "codewhale_emits rep now r events = Inr es"
  shows "list_all (emit_ok now r) es"
proof -
  have te: "emit_ok now r (EmitTransient (phase_text r) (default_transient now ''codewhale'' c raw))"
    if "classify_codewhale_error d = Some c" for c d raw
    using default_transient_ok [OF bin] classify_codewhale_class [OF that] by blast
  have us: "up_agent u = ''codewhale''" if "codewhale_usage rep meta = Inr (Some u)" for meta u
    using that by (auto simp: codewhale_usage_def res_bind_Inr_iff split: if_splits jval.splits)
  show ?thesis using run te us bin
    by (auto simp del: emit_ok.simps(1) simp: codewhale_emits_def res_bind_Inr_iff split: option.splits prod.splits)
qed

lemma kimi_emits_ok:
  assumes bin: "hr_binary r = ''kimi''"
  shows "list_all (emit_ok now r) (kimi_emits rep now r events)"
  using default_transient_ok [OF bin] classify_transient_status_class
  by (auto simp del: emit_ok.simps(1) simp: kimi_emits_def split: option.splits)

lemma pi_failure_emits_ok:
  assumes bin: "hr_binary r = ''pi''"
  shows "list_all (emit_ok now r) (pi_failure_emits now r err)"
  using default_transient_ok [OF bin] classify_pi_class bin
  by (auto simp del: emit_ok.simps(1) simp: pi_failure_emits_def Let_def cap_raw_length split: option.splits)

lemma aggregate_usage_agent: "aggregate_usage rep messages start = Inr (Some u) \<Longrightarrow> up_agent u = ''pi''"
  by (auto simp: aggregate_usage_def Let_def res_bind_Inr_iff split: if_splits)

lemma list_all_subset: "list_all P es \<Longrightarrow> set ds \<subseteq> set es \<Longrightarrow> list_all P ds"
  by (auto simp: list_all_iff)

lemma pi_report_ok:
  assumes bin: "hr_binary r = ''pi''"
  shows "list_all (emit_ok now r) (fst (pi_report rep now fails r messages start))"
proof -
  let ?err = "pi_error_text rep (last messages)"
  obtain ds e where d: "emit_in_turn fails (pi_failure_emits now r ?err) = (ds, e)" by fastforce
  have ds: "list_all (emit_ok now r) ds"
    using list_all_subset [OF pi_failure_emits_ok [OF bin, of now ?err] emit_in_turn_subset, of fails] d by simp
  have u: "list_all (emit_ok now r) (fst (emit_in_turn fails [EmitUsage (phase_text r) (hr_ok r \<and> ?err = None) u]))"
    if "aggregate_usage rep messages start = Inr (Some u)" for u
    by (rule list_all_subset [OF _ emit_in_turn_subset]) (use aggregate_usage_agent [OF that] bin in simp)
  show ?thesis
  proof (cases e)
    case (Some x)
    then show ?thesis using ds d by (simp add: pi_report_def Let_def)
  next
    case None
    then show ?thesis using ds u d unfolding pi_report_def Let_def
      by (cases "aggregate_usage rep messages start")
        (auto simp del: emit_in_turn.simps split: option.splits prod.splits)
  qed
qed

text \<open>Repeated tool calls are reported exactly when some call occurs at least threshold times among the last window calls of the round; nothing before that window counts.\<close>

theorem repetition_is_of_the_last_window:
  "(detect_repetitive_tool calls window threshold \<noteq> None) =
     (0 < window \<and> 0 < threshold
      \<and> (\<exists>call\<in>set (drop (length calls - nat window) calls).
           threshold \<le> int (count_list (drop (length calls - nat window) calls) call)))"
  by (rule repetition_exact)

text \<open>Chatter of any amount leaves the window alone.\<close>

text \<open>The parsed tail depends only on the lines that look like JSON, is the end of them, and has at most 200: no amount of other output moves a record out of it.\<close>

theorem tail_ignores_chatter:
  "json_tail ls = json_tail (filter looks_json ls) \<and> length (json_tail ls) \<le> tail_lines
   \<and> (\<exists>older. filter looks_json ls = older @ json_tail ls)"
proof -
  have "filter looks_json ls = take (length (filter looks_json ls) - tail_lines) (filter looks_json ls) @ json_tail ls"
    by (simp add: json_tail_def Let_def)
  then have "\<exists>older. filter looks_json ls = older @ json_tail ls" by blast
  moreover have "json_tail ls = json_tail (filter looks_json ls)" "length (json_tail ls) \<le> tail_lines"
    by (simp_all add: json_tail_def Let_def)
  ultimately show ?thesis by blast
qed

text \<open>A readable gemini log never costs the hook: every numeric field has a fallback.\<close>

text \<open>The gemini hook never raises on a log whose lines could be decoded: a malformed number becomes 0 and does not cost the back-off.\<close>

theorem gemini_never_raises:
  assumes "json_events loads ls = Inr evs" "hr_lines r = Some ls"
  shows "snd (gemini_after_round loads rep now (\<lambda>_. None) r) = None"
proof -
  have "snd (emit_in_turn (\<lambda>_. None) es) = None" for es by (induction es) (auto split: prod.splits)
  then show ?thesis using assms by (simp add: gemini_after_round_def hook_with_def)
qed

subsection \<open>Examples\<close>

definition example_hook_round :: "string \<Rightarrow> string list \<Rightarrow> hook_round" where
  "example_hook_round binary ls =
     \<lparr>hr_binary = binary, hr_lines = Some ls, hr_phase = None, hr_ok = False, hr_window = 0, hr_threshold = 0\<rparr>"

text \<open>Lines stand for the objects they decode to.\<close>

definition example_log_loads :: "string \<Rightarrow> jval option res" where
  "example_log_loads s =
     Inr (map_of
       [(''{result}'', JObj [(''type'', jtext ''result''), (''status'', jtext ''error''),
            (''error'', JObj [(''code'', JAtom (PInt 429)), (''message'', jtext ''slow down'')]),
            (''stats'', JObj [(''input'', jtext ''many''), (''output_tokens'', JAtom (PInt 7))])]),
        (''{meta}'', JObj [(''type'', jtext ''metadata''), (''meta'', JObj [(''input_tokens'', JNull)])]),
        (''{error}'', JObj [(''type'', jtext ''error''), (''code'', jtext ''busy''), (''status_code'', JAtom (PInt 429))]),
        (''{claude}'', JObj [(''type'', jtext ''result''), (''is_error'', JAtom (PBool True)),
            (''api_error_status'', JAtom (PInt 529)), (''usage'', JAtom (PInt 3))])] s)"

lemma example_lines:
  "json_events example_log_loads [''{result}''] =
     Inr [[(''type'', jtext ''result''), (''status'', jtext ''error''),
            (''error'', JObj [(''code'', JAtom (PInt 429)), (''message'', jtext ''slow down'')]),
            (''stats'', JObj [(''input'', jtext ''many''), (''output_tokens'', JAtom (PInt 7))])]]"
  by code_simp

lemma gemini_never_raises_witness:
  "snd (gemini_after_round example_log_loads (\<lambda>_. []) 0 (\<lambda>_. None) (example_hook_round ''gemini'' [''{result}''])) = None"
  by (rule gemini_never_raises [OF example_lines]) (simp add: example_hook_round_def)

text \<open>The malformed count is 0, the back-off is there.\<close>

lemma gemini_example:
  "fst (gemini_after_round example_log_loads (\<lambda>_. []) 0 (\<lambda>_. None) (example_hook_round ''gemini'' [''{result}''])) =
     [EmitTransient [] \<lparr>te_class = ''rate_limit_model'', te_agent = ''gemini'', te_reset = 60, te_raw = ''slow down''\<rparr>,
      EmitUsage [] False
        \<lparr>up_agent = ''gemini'', up_model = ''unknown'', up_input = 0, up_output = 7, up_cached = 0, up_created = 0,
         up_cost = NoCost, up_duration = 0, up_breakdown = None, up_calls = 0\<rparr>]"
  by code_simp

text \<open>
  A null token count in codewhale's metadata ends its hook before the provider's 429 is reported,
  and a usage that is no object ends claude's before a 529 is.
\<close>

lemma codewhale_usage_voids_transient:
  "codewhale_after_round example_log_loads (\<lambda>_. []) 0 (\<lambda>_. None) (example_hook_round ''codewhale'' [''{meta}'', ''{error}'']) =
     ([], Some TypeError)"
  by code_simp

lemma codewhale_transient_alone:
  "codewhale_after_round example_log_loads (\<lambda>_. []) 0 (\<lambda>_. None) (example_hook_round ''codewhale'' [''{error}'']) =
     ([EmitTransient [] \<lparr>te_class = ''rate_limit_model'', te_agent = ''codewhale'', te_reset = 60, te_raw = ''error''\<rparr>], None)"
  by code_simp

lemma claude_usage_voids_transient:
  "claude_after_round example_log_loads (\<lambda>_. []) 0 (\<lambda>_. None) (example_hook_round ''claude'' [''{claude}'']) = ([], Some AttributeError)"
  by code_simp

text \<open>Five equal calls followed by a window of others are not reported.\<close>

lemma early_repetition_missed:
  "detect_repetitive_tool (replicate 5 (''Bash'', Some ''make'') @ map (\<lambda>c. (''Read'', Some [c])) ''abcde'') 5 3 = None
   \<and> detect_repetitive_tool (replicate 5 (''Bash'', Some ''make'')) 5 3 =
       Some \<lparr>rp_tool = ''Bash'', rp_target = Some ''make'', rp_times = 5, rp_window = 5\<rparr>"
  by code_simp

text \<open>A 401 is an authentication failure of pi and never a reason to back off.\<close>

lemma auth_error_is_not_transient:
  assumes "is_auth_error msg"
  shows "classify_pi_error msg = None"
proof -
  obtain s where s: "msg = Some s" "status_prefix s = Some ''401''"
    using assms by (cases msg) (auto simp: is_auth_error_def status_prefix_def)
  have "digits_value ''401'' = 401" by code_simp
  then have "classify_transient_status (JAtom (PInt (digits_value ''401''))) = None"
    by (simp add: classify_transient_status_def transient_5xx_def)
  then show ?thesis using s by (simp add: classify_pi_error_def)
qed

subsection \<open>From the plugin to the throttle\<close>

text \<open>
  \<open>emit_transient_error_detected\<close>: the event the supervisor's gate reads. What the redaction makes of
  \<open>raw\<close> is a parameter.
\<close>

definition transient_event :: "(string \<Rightarrow> string) \<Rightarrow> int \<Rightarrow> string \<Rightarrow> transient_error \<Rightarrow> event" where
  "transient_event redact round_num phase te =
     [''event'' \<mapsto> PStr TRANSIENT_ERROR_DETECTED, ''classification'' \<mapsto> PStr (te_class te), ''agent'' \<mapsto> PStr (te_agent te),
      ''reset_at_epoch'' \<mapsto> PInt (te_reset te), ''round_num'' \<mapsto> PInt round_num, ''raw'' \<mapsto> PStr (redact (te_raw te)),
      ''phase'' \<mapsto> PStr phase]"

text \<open>All the built-in hooks of one round; each looks only at its own agent.\<close>

definition builtin_writes ::
  "(string \<Rightarrow> jval option res) \<Rightarrow> (int \<Rightarrow> real) \<Rightarrow> (jval \<Rightarrow> string) \<Rightarrow> real \<Rightarrow> (plugin_emit \<Rightarrow> py_error option) \<Rightarrow> hook_round
   \<Rightarrow> plugin_emit list" where
  "builtin_writes loads local_ts rep now fails r =
     fst (claude_after_round loads rep now fails r) @ fst (gemini_after_round loads rep now fails r)
     @ fst (codewhale_after_round loads rep now fails r) @ fst (kimi_after_round loads rep now fails r)
     @ fst (pi_after_round loads local_ts rep now fails r)"

lemma claude_writes_ok: "list_all (emit_ok now r) (fst (claude_after_round loads rep now fails r))"
  unfolding claude_after_round_def
  by (rule hook_with_ok [OF emit_apart_subset]) (auto simp: res_bind_Inr_iff intro: claude_emits_ok)

lemma gemini_writes_ok: "list_all (emit_ok now r) (fst (gemini_after_round loads rep now fails r))"
  unfolding gemini_after_round_def
  by (rule hook_with_ok [OF emit_in_turn_subset]) (auto simp: res_bind_Inr_iff intro: gemini_emits_ok)

lemma codewhale_writes_ok: "list_all (emit_ok now r) (fst (codewhale_after_round loads rep now fails r))"
  unfolding codewhale_after_round_def
  by (rule hook_with_ok [OF emit_in_turn_subset]) (auto simp: res_bind_Inr_iff intro: codewhale_emits_ok)

lemma kimi_writes_ok: "list_all (emit_ok now r) (fst (kimi_after_round loads rep now fails r))"
  unfolding kimi_after_round_def
  by (rule hook_with_ok [OF emit_in_turn_subset]) (auto simp: res_bind_Inr_iff intro: kimi_emits_ok)

lemma pi_writes_ok: "list_all (emit_ok now r) (fst (pi_after_round loads local_ts rep now fails r))"
proof (cases "hr_binary r = ''pi''")
  case True
  then show ?thesis using pi_report_ok [OF True, of now rep fails]
    by (auto simp: pi_after_round_def split: option.splits sum.splits)
qed (simp add: pi_after_round_def)

lemma builtin_writes_ok: "list_all (emit_ok now r) (builtin_writes loads local_ts rep now fails r)"
  by (simp add: builtin_writes_def claude_writes_ok gemini_writes_ok codewhale_writes_ok kimi_writes_ok pi_writes_ok)

text \<open>C26: whatever the log holds and whichever emission fails, every event a built-in plugin writes is about its own agent and the phase of the round, carries one of the four transient classes and at most 200 characters of the error, ends a back-off the server did not name exactly the class's own time after now, calls a usage a success only if the round was one, and reports a repetition only when it reached the configured threshold inside the configured window.\<close>

theorem plugin_events_well_formed:
  "list_all (emit_ok now r) (builtin_writes loads local_ts rep now fails r)"
  by (rule builtin_writes_ok)

lemma default_duration_le: "0 \<le> default_duration c \<and> default_duration c \<le> 60"
  by (auto simp: default_duration_def split: option.splits dest: back_off_defaults_range)

lemma py_trunc_le: "0 \<le> x \<Longrightarrow> 0 \<le> py_trunc x \<and> real_of_int (py_trunc x) \<le> x"
  by (simp add: py_trunc_def)

lemma extend_reset_ge: "reset \<le> extend_reset c reset n"
proof (cases "back_off_defaults c")
  case (Some base)
  then have "0 \<le> base * (2 ^ min n exp_cap - 1)" using back_off_defaults_range [OF Some] by simp
  then show ?thesis using Some by (simp add: extend_reset_def absolute_cap_s_def)
qed (simp add: extend_reset_def)



end
