(* ===== verification/Doorbell.thy ===== *)
theory Doorbell
  imports Base
begin

section \<open>The doorbell and the waits (\_notify.py, \_procwait.py, clock.py)\<close>

text \<open>
  One listener and any number of ringers share a directory. The listener's path is its own, so one
  path is followed: the FIFO at it (an inode number, or none), the bytes in each pipe, how far the
  listener is, and the ringers by what they hold: a listing that has the path, an open write end, or
  the answer \<open>ENXIO\<close> and the unlink still to do. A step is one system call of one of them, in any
  order; a step that is not possible in a state has no successor.
\<close>

datatype listener_phase =
    Trying nat
  | Made nat
  | Listening nat
  | Failing
  | Leaving
  | Gone
  | NoListener

datatype bell_act =
    Mkfifo
  | OpenBell
  | BellRefused
  | WakeUp
  | CloseBell
  | UnlinkBell
  | RingList
  | RingOpen
  | RingWrite nat
  | RingUnlink

record bell =
  bl_node :: "nat option"
  bl_fresh :: nat
  bl_bytes :: "nat \<Rightarrow> nat"
  bl_phase :: listener_phase
  bl_listed :: nat
  bl_writers :: "nat list"
  bl_dooming :: nat

definition enter_tries :: nat where "enter_tries = 3"

definition bell_mkfifo :: "nat \<Rightarrow> bell \<Rightarrow> bell" where
  "bell_mkfifo n b =
     (case bl_node b of
        None \<Rightarrow> b\<lparr>bl_node := Some (bl_fresh b), bl_fresh := Suc (bl_fresh b), bl_phase := Made n\<rparr>
      | Some i \<Rightarrow> b\<lparr>bl_phase := Made n\<rparr>)"

definition bell_open :: "nat \<Rightarrow> bell \<Rightarrow> bell" where
  "bell_open n b =
     (case bl_node b of
        Some i \<Rightarrow> b\<lparr>bl_phase := Listening i\<rparr>
      | None \<Rightarrow> b\<lparr>bl_phase := (if Suc n < enter_tries then Trying (Suc n) else Failing)\<rparr>)"

text \<open>A ringer opens the path it listed: gone, no reader (\<open>ENXIO\<close>), or an open write end.\<close>

definition ring_open :: "bell \<Rightarrow> bell" where
  "ring_open b =
     (let b' = b\<lparr>bl_listed := bl_listed b - 1\<rparr> in
      case bl_node b of
        None \<Rightarrow> b'
      | Some i \<Rightarrow>
          if bl_phase b = Listening i then b'\<lparr>bl_writers := i # bl_writers b\<rparr>
          else b'\<lparr>bl_dooming := Suc (bl_dooming b)\<rparr>)"

text \<open>One byte and the close; without a reader the write fails and is swallowed.\<close>

definition ring_write :: "nat \<Rightarrow> bell \<Rightarrow> bell" where
  "ring_write i b =
     (let b' = b\<lparr>bl_writers := remove1 i (bl_writers b)\<rparr> in
      if bl_phase b = Listening i then b'\<lparr>bl_bytes := (bl_bytes b)(i := Suc (bl_bytes b i))\<rparr> else b')"

fun bell_next :: "bell \<Rightarrow> bell_act \<Rightarrow> bell option" where
  "bell_next b Mkfifo = (case bl_phase b of Trying n \<Rightarrow> Some (bell_mkfifo n b) | _ \<Rightarrow> None)"
| "bell_next b OpenBell = (case bl_phase b of Made n \<Rightarrow> Some (bell_open n b) | _ \<Rightarrow> None)"
| "bell_next b BellRefused =
     (case bl_phase b of Trying n \<Rightarrow> Some (b\<lparr>bl_phase := Failing\<rparr>) | Made n \<Rightarrow> Some (b\<lparr>bl_phase := Failing\<rparr>) | _ \<Rightarrow> None)"
| "bell_next b WakeUp =
     (case bl_phase b of
        Listening i \<Rightarrow> if bl_bytes b i > 0 then Some (b\<lparr>bl_bytes := (bl_bytes b)(i := 0)\<rparr>) else None
      | _ \<Rightarrow> None)"
| "bell_next b CloseBell = (case bl_phase b of Listening i \<Rightarrow> Some (b\<lparr>bl_phase := Leaving\<rparr>) | _ \<Rightarrow> None)"
| "bell_next b UnlinkBell =
     (case bl_phase b of
        Leaving \<Rightarrow> Some (b\<lparr>bl_node := None, bl_phase := Gone\<rparr>)
      | Failing \<Rightarrow> Some (b\<lparr>bl_node := None, bl_phase := NoListener\<rparr>)
      | _ \<Rightarrow> None)"
| "bell_next b RingList = (if bl_node b \<noteq> None then Some (b\<lparr>bl_listed := Suc (bl_listed b)\<rparr>) else None)"
| "bell_next b RingOpen = (if bl_listed b > 0 then Some (ring_open b) else None)"
| "bell_next b (RingWrite i) = (if i \<in> set (bl_writers b) then Some (ring_write i b) else None)"
| "bell_next b RingUnlink =
     (if bl_dooming b > 0 then Some (b\<lparr>bl_node := None, bl_dooming := bl_dooming b - 1\<rparr>) else None)"

inductive bell_runs :: "bell \<Rightarrow> bell_act list \<Rightarrow> bell \<Rightarrow> bool" where
  runs_nil: "bell_runs b [] b"
| runs_step: "bell_next b a = Some b' \<Longrightarrow> bell_runs b' as b'' \<Longrightarrow> bell_runs b (a # as) b''"

inductive_cases bell_runs_NilE: "bell_runs b [] b'"
inductive_cases bell_runs_ConsE: "bell_runs b (a # as) b'"
inductive_simps bell_runs_Cons: "bell_runs b (a # as) b'"
inductive_simps bell_runs_Nil: "bell_runs b [] b'"

lemma bell_runs_append: "bell_runs b as b' \<Longrightarrow> bell_runs b' cs b'' \<Longrightarrow> bell_runs b (as @ cs) b''"
  by (induction rule: bell_runs.induct) (auto intro: bell_runs.intros simp del: bell_next.simps)

text \<open>Before the listener's first attempt: nothing, or a FIFO a crashed listener of that name left.\<close>

definition bell_start :: "bool \<Rightarrow> bell" where
  "bell_start stale =
     \<lparr>bl_node = (if stale then Some 0 else None), bl_fresh = 1, bl_bytes = (\<lambda>_. 0), bl_phase = Trying 0,
      bl_listed = 0, bl_writers = [], bl_dooming = 0\<rparr>"

text \<open>What holds of every state a start leads to.\<close>

definition bell_ok :: "bell \<Rightarrow> bool" where
  "bell_ok b \<longleftrightarrow>
     (\<forall>i. bl_node b = Some i \<longrightarrow> i < bl_fresh b)
     \<and> (case bl_phase b of
          Trying n \<Rightarrow> n < enter_tries
        | Made n \<Rightarrow> n < enter_tries
        | Listening i \<Rightarrow> i < bl_fresh b \<and> (bl_node b = None \<or> bl_node b = Some i)
        | Gone \<Rightarrow> bl_node b = None
        | NoListener \<Rightarrow> bl_node b = None
        | _ \<Rightarrow> True)"

named_theorems bell_defs \<open>the steps of the doorbell\<close>

lemmas [bell_defs] = bell_mkfifo_def bell_open_def ring_open_def ring_write_def Let_def

lemma bell_start_ok: "bell_ok (bell_start stale)"
  by (simp add: bell_ok_def bell_start_def enter_tries_def)

lemma bell_next_ok: "bell_ok b \<Longrightarrow> bell_next b a = Some b' \<Longrightarrow> bell_ok b'"
  by (cases a) (auto simp: bell_ok_def bell_defs split: listener_phase.splits option.splits if_splits)

lemma bell_runs_invariant:
  assumes "bell_runs b as b'" "P b" "\<And>b a b'. P b \<Longrightarrow> a \<in> A \<Longrightarrow> bell_next b a = Some b' \<Longrightarrow> P b'" "set as \<subseteq> A"
  shows "P b'"
  using assms(1,2,4)
proof (induction rule: bell_runs.induct)
  case (runs_nil b)
  then show ?case by simp
next
  case (runs_step b a b' as b'')
  then show ?case using assms(3) [of b a b'] by simp
qed

lemma bell_runs_ok: "bell_runs b as b' \<Longrightarrow> bell_ok b \<Longrightarrow> bell_ok b'"
  by (erule bell_runs_invariant [where P = bell_ok and A = UNIV]) (auto intro: bell_next_ok)

subsection \<open>Heard and deaf listeners\<close>

definition audible :: "bell \<Rightarrow> bool" where
  "audible b \<longleftrightarrow> (\<exists>i. bl_phase b = Listening i \<and> bl_node b = Some i \<and> bl_dooming b = 0)"

definition deaf :: "bell \<Rightarrow> bool" where
  "deaf b \<longleftrightarrow> (\<exists>i. bl_phase b = Listening i \<and> bl_node b = None \<and> bl_bytes b i = 0 \<and> bl_writers b = [])"

lemma audible_step:
  "audible b \<Longrightarrow> a \<noteq> CloseBell \<Longrightarrow> bell_next b a = Some b' \<Longrightarrow> audible b'"
  by (cases a) (auto simp: audible_def bell_defs split: listener_phase.splits option.splits if_splits)

lemma deaf_step:
  "deaf b \<Longrightarrow> a \<noteq> CloseBell \<Longrightarrow> bell_next b a = Some b' \<Longrightarrow> deaf b' \<and> a \<noteq> WakeUp"
  by (cases a) (auto simp: deaf_def bell_defs split: listener_phase.splits option.splits if_splits)

lemma audible_runs: "bell_runs b as b' \<Longrightarrow> audible b \<Longrightarrow> CloseBell \<notin> set as \<Longrightarrow> audible b'"
  by (erule bell_runs_invariant [where P = audible and A = "- {CloseBell}"]) (auto intro: audible_step)

lemma deaf_runs:
  assumes "bell_runs b as b'" "deaf b" "CloseBell \<notin> set as"
  shows "deaf b' \<and> WakeUp \<notin> set as"
  using assms
proof (induction rule: bell_runs.induct)
  case (runs_step b a b' as b'')
  then have "deaf b' \<and> a \<noteq> WakeUp" using deaf_step [of b a b'] by auto
  then show ?case using runs_step by auto
qed simp

text \<open>Every open listener is heard, deaf, or in between: some ringer still holds an answer from before.\<close>

lemma listener_cases:
  assumes "bell_ok b" "bl_phase b = Listening i"
  shows "audible b \<or> (bl_node b = Some i \<and> bl_dooming b > 0) \<or> bl_node b = None"
  using assms by (auto simp: bell_ok_def audible_def)

text \<open>The number of attempts.\<close>

fun tries_left :: "listener_phase \<Rightarrow> nat" where
  "tries_left (Trying n) = enter_tries - n"
| "tries_left (Made n) = enter_tries - Suc n"
| "tries_left _ = 0"

lemma bell_next_tries:
  "bell_ok b \<Longrightarrow> bell_next b a = Some b' \<Longrightarrow> tries_left (bl_phase b') + (if a = Mkfifo then 1 else 0) \<le> tries_left (bl_phase b)"
  by (cases a) (auto simp: bell_ok_def bell_defs enter_tries_def split: listener_phase.splits option.splits if_splits)

lemma bell_runs_tries:
  "bell_runs b as b' \<Longrightarrow> bell_ok b \<Longrightarrow> count_list as Mkfifo + tries_left (bl_phase b') \<le> tries_left (bl_phase b)"
proof (induction rule: bell_runs.induct)
  case (runs_step b a b' as b'')
  have "bell_ok b'" using runs_step bell_next_ok by blast
  then show ?case using runs_step.IH bell_next_tries [OF runs_step.prems runs_step.hyps(1)] by (auto split: if_splits)
qed simp

text \<open>A ring of a heard listener arrives, whatever else goes on.\<close>

lemma audible_ring_arrives:
  assumes "audible b" "bl_listed b > 0"
  shows "\<exists>i b'. bell_runs b [RingOpen, RingWrite i] b' \<and> bell_next b' WakeUp \<noteq> None"
proof -
  obtain i where i: "bl_phase b = Listening i" "bl_node b = Some i" using assms(1) by (auto simp: audible_def)
  let ?b1 = "ring_open b" and ?b2 = "ring_write i (ring_open b)"
  have 1: "bell_next b RingOpen = Some ?b1" using assms(2) by simp
  have 2: "bell_next ?b1 (RingWrite i) = Some ?b2" using i by (simp add: bell_defs)
  have "bell_runs b [RingOpen, RingWrite i] ?b2" by (rule runs_step [OF 1 runs_step [OF 2 runs_nil]])
  moreover have "bell_next ?b2 WakeUp \<noteq> None" using i by (simp add: bell_defs)
  ultimately show ?thesis by blast
qed

text \<open>C28: once a listener is open, its FIFO is at its path and no ringer still holds the answer that nobody listens, that stays so under every interleaving of ringers until the listener closes, and a ringer that has listed the path finds a reader, writes its byte and makes the next wait return woken.\<close>

theorem listener_keeps_hearing:
  assumes "bell_runs b as b'" "audible b" "CloseBell \<notin> set as"
  shows "audible b' \<and> (bl_listed b' > 0 \<longrightarrow> (\<exists>i b''. bell_runs b' [RingOpen, RingWrite i] b'' \<and> bell_next b'' WakeUp \<noteq> None))"
  using audible_runs [OF assms] audible_ring_arrives by blast

text \<open>In every run from a fresh or left-over path the listener creates its FIFO at most three times, and once it has left or given up there is no FIFO at its path.\<close>

theorem doorbell_entry_bounded:
  assumes "bell_runs (bell_start stale) as b"
  shows "count_list as Mkfifo \<le> 3 \<and> (bl_phase b = Gone \<or> bl_phase b = NoListener \<longrightarrow> bl_node b = None)"
proof -
  have "bell_ok b" using bell_runs_ok [OF assms bell_start_ok] .
  then have "bl_phase b = Gone \<or> bl_phase b = NoListener \<longrightarrow> bl_node b = None" by (auto simp: bell_ok_def)
  moreover have "tries_left (bl_phase (bell_start stale)) = 3" by (simp add: bell_start_def enter_tries_def)
  ultimately show ?thesis using bell_runs_tries [OF assms bell_start_ok] by simp
qed

text \<open>
  The answer \<open>ENXIO\<close> is acted on after the listener has opened: its FIFO is unlinked, no later ring
  finds it, and no wait of this listener is ever woken again.
\<close>

definition deafening :: "bell_act list" where
  "deafening = [Mkfifo, RingList, RingOpen, OpenBell, RingUnlink]"

lemma deafening_runs: "\<exists>b. bell_runs (bell_start False) deafening b \<and> deaf b"
  by (simp add: deafening_def bell_runs_Cons bell_runs_Nil bell_start_def bell_defs deaf_def enter_tries_def)

lemma listener_can_go_deaf:
  "\<exists>b. bell_runs (bell_start False) deafening b \<and> bl_phase b = Listening 1
     \<and> (\<forall>as b'. bell_runs b as b' \<and> CloseBell \<notin> set as \<longrightarrow> WakeUp \<notin> set as)"
proof -
  obtain b where b: "bell_runs (bell_start False) deafening b" "deaf b" using deafening_runs by blast
  have "bl_phase b = Listening 1" using b(1)
    by (auto simp: deafening_def bell_runs_Cons bell_runs_Nil bell_start_def bell_defs)
  then show ?thesis using b deaf_runs by blast
qed

lemma listener_keeps_hearing_witness:
  "\<exists>b. bell_runs (bell_start True) ([Mkfifo, OpenBell] @ [RingList]) b \<and> audible b"
proof -
  obtain b0 where b0: "bell_runs (bell_start True) [Mkfifo, OpenBell] b0" "audible b0"
    by (auto simp: bell_runs_Cons bell_runs_Nil bell_start_def bell_defs audible_def)
  obtain b1 where b1: "bell_runs b0 [RingList] b1"
    using b0(2) by (auto simp: bell_runs_Cons bell_runs_Nil audible_def)
  have "audible b1" using listener_keeps_hearing [OF b1 b0(2)] by simp
  moreover have "bell_runs (bell_start True) ([Mkfifo, OpenBell] @ [RingList]) b1"
    by (rule bell_runs_append [OF b0(1) b1])
  ultimately show ?thesis by blast
qed

lemma doorbell_entry_bounded_witness:
  "\<exists>b. bell_runs (bell_start False) deafening b \<and> count_list deafening Mkfifo \<le> 3"
  using deafening_runs doorbell_entry_bounded by blast

subsection \<open>The listener's own wait\<close>

text \<open>What one wait meets: a descriptor \<open>select\<close> cannot take, or the readiness it reports.\<close>

datatype listener_kind = LiveListener bool | NullBell

text \<open>Whether the wait was woken, and the time slept without a descriptor.\<close>

definition listener_wait :: "listener_kind \<Rightarrow> bool \<Rightarrow> real \<Rightarrow> bool \<times> real" where
  "listener_wait k ready timeout_s =
     (case k of
        NullBell \<Rightarrow> (False, timeout_s)
      | LiveListener selectable \<Rightarrow> if \<not> selectable then (False, max 0 timeout_s) else (ready, 0))"

subsection \<open>Waiting for a process and for a condition\<close>

datatype exit_report = ReportExited | ReportTimeout | ReportWoken

text \<open>
  One poll: what it answered and the clock read after it. The sleep after an unsuccessful poll is
  \<open>min 1 remaining\<close>; \<open>None\<close> when the answers run out.
\<close>

definition poll_tick_s :: real where "poll_tick_s = 1"

fun exit_by_polling :: "real \<Rightarrow> (bool \<times> real) list \<Rightarrow> (exit_report \<times> real list) option" where
  "exit_by_polling deadline [] = None"
| "exit_by_polling deadline ((exited, now) # ps) =
     (if exited then Some (ReportExited, [])
      else if deadline - now \<le> 0 then Some (ReportTimeout, [])
      else map_option (\<lambda>(r, ss). (r, min poll_tick_s (deadline - now) # ss)) (exit_by_polling deadline ps))"

record exit_watch =
  ew_reaped :: bool
  ew_fd :: bool
  ew_selectable :: bool
  ew_exit_ready :: bool
  ew_wake_ready :: "bool option"

definition wait_exit :: "exit_watch \<Rightarrow> real \<Rightarrow> (bool \<times> real) list \<Rightarrow> (exit_report \<times> real list) option" where
  "wait_exit w deadline ps =
     (if ew_reaped w then Some (ReportExited, [])
      else if \<not> ew_fd w \<or> \<not> ew_selectable w then exit_by_polling deadline ps
      else if ew_exit_ready w then Some (ReportExited, [])
      else if ew_wake_ready w = Some True then Some (ReportWoken, [])
      else Some (ReportTimeout, []))"

text \<open>\<open>wait_until\<close>: the condition and the clock of each turn, then the condition once more.\<close>

fun wait_until_loop :: "real \<Rightarrow> (bool \<times> real) list \<Rightarrow> nat option" where
  "wait_until_loop deadline [] = None"
| "wait_until_loop deadline ((holds_now, now) # ps) =
     (if holds_now \<or> \<not> now < deadline then Some 0 else map_option Suc (wait_until_loop deadline ps))"

definition wait_until :: "real \<Rightarrow> (bool \<times> real) list \<Rightarrow> bool \<Rightarrow> (bool \<times> nat) option" where
  "wait_until deadline ps final = map_option (\<lambda>n. (final, n)) (wait_until_loop deadline ps)"

text \<open>A clock that advances by at least each sleep.\<close>

fun clock_honest :: "real \<Rightarrow> (bool \<times> real) list \<Rightarrow> bool" where
  "clock_honest deadline ((e, a) # (e', a') # ps) \<longleftrightarrow>
     a + min poll_tick_s (deadline - a) \<le> a' \<and> clock_honest deadline ((e', a') # ps)"
| "clock_honest deadline ps \<longleftrightarrow> True"

lemma polling_ends:
  assumes "clock_honest deadline ((e, a) # ps)" "deadline - a \<le> real (length ps)"
  shows "exit_by_polling deadline ((e, a) # ps) \<noteq> None"
  using assms
proof (induction ps arbitrary: e a)
  case Nil
  then show ?case by simp
next
  case (Cons p ps)
  obtain e' a' where p: "p = (e', a')" by (cases p)
  show ?case
  proof (cases "e \<or> deadline - a \<le> 0")
    case True
    then show ?thesis by auto
  next
    case False
    have s: "a + min poll_tick_s (deadline - a) \<le> a'" "clock_honest deadline ((e', a') # ps)"
      using Cons.prems(1) p by auto
    have "exit_by_polling deadline ((e', a') # ps) \<noteq> None"
    proof (cases "deadline - a \<le> 1")
      case True
      then have "deadline - a' \<le> 0" using s(1) by (simp add: poll_tick_s_def min_def split: if_splits)
      then show ?thesis by simp
    next
      case False
      then have "a + 1 \<le> a'" using s(1) by (simp add: poll_tick_s_def min_def split: if_splits)
      then show ?thesis using Cons.IH [OF s(2)] Cons.prems(2) by simp
    qed
    then show ?thesis using False p by auto
  qed
qed

lemma polling_truthful:
  "exit_by_polling deadline ps = Some (r, ss) \<Longrightarrow>
     r \<noteq> ReportWoken \<and> (\<exists>e a. ps ! length ss = (e, a) \<and> length ss < length ps
       \<and> (r = ReportExited \<longrightarrow> e) \<and> (r = ReportTimeout \<longrightarrow> \<not> e \<and> deadline \<le> a))
     \<and> list_all (\<lambda>x. 0 < x \<and> x \<le> poll_tick_s) ss"
proof (induction deadline ps arbitrary: r ss rule: exit_by_polling.induct)
  case (2 deadline exited now ps)
  show ?case
  proof (cases "exited \<or> deadline - now \<le> 0")
    case True
    then show ?thesis using "2.prems" by (auto split: if_splits)
  next
    case False
    then obtain ss' where s: "exit_by_polling deadline ps = Some (r, ss')" "ss = min poll_tick_s (deadline - now) # ss'"
      using "2.prems" by auto
    have "list_all (\<lambda>x. 0 < x \<and> x \<le> poll_tick_s) ss'" using "2.IH" [OF _ _ s(1)] False by blast
    moreover have "0 < min poll_tick_s (deadline - now)" using False by (simp add: poll_tick_s_def)
    ultimately show ?thesis using "2.IH" [OF _ _ s(1)] False s(2) by auto
  qed
qed simp

text \<open>A wait for a process reports an exit only if the process was reaped, its descriptor was ready or a poll saw it; it reports being woken only by a ready wake descriptor while the exit was not, and a timeout only of a process not known to have exited, when polling not before the deadline.\<close>

theorem exit_wait_truthful:
  assumes "wait_exit w deadline ps = Some (r, ss)"
  shows "(case r of
      ReportExited \<Rightarrow> ew_reaped w \<or> ew_exit_ready w \<or> (\<exists>a. (True, a) \<in> set ps)
    | ReportWoken \<Rightarrow> ew_wake_ready w = Some True \<and> \<not> ew_exit_ready w \<and> \<not> ew_reaped w
    | ReportTimeout \<Rightarrow> \<not> ew_reaped w \<and>
        (if ew_fd w \<and> ew_selectable w then \<not> ew_exit_ready w else (\<exists>a. (False, a) \<in> set ps \<and> deadline \<le> a)))"
proof (cases "ew_reaped w \<or> (ew_fd w \<and> ew_selectable w)")
  case True
  then show ?thesis using assms by (auto simp: wait_exit_def split: if_splits)
next
  case False
  then have p: "exit_by_polling deadline ps = Some (r, ss)" using assms by (auto simp: wait_exit_def split: if_splits)
  obtain e a where "ps ! length ss = (e, a)" "length ss < length ps" "r \<noteq> ReportWoken"
    "r = ReportExited \<longrightarrow> e" "r = ReportTimeout \<longrightarrow> \<not> e \<and> deadline \<le> a"
    using polling_truthful [OF p] by blast
  then have "(e, a) \<in> set ps" by (metis nth_mem)
  then show ?thesis using False \<open>r \<noteq> ReportWoken\<close> \<open>r = ReportExited \<longrightarrow> e\<close> \<open>r = ReportTimeout \<longrightarrow> \<not> e \<and> deadline \<le> a\<close>
    by (cases r) auto
qed

text \<open>With a clock that advances by at least each sleep, a wait ends after at most as many polls as there are seconds to its deadline, plus one.\<close>

theorem exit_wait_ends:
  assumes "clock_honest deadline ((e, a) # ps)" "deadline - a \<le> real (length ps)"
  shows "wait_exit w deadline ((e, a) # ps) \<noteq> None"
  using polling_ends [OF assms] by (auto simp: wait_exit_def)

lemma exit_wait_truthful_witness:
  "wait_exit \<lparr>ew_reaped = False, ew_fd = False, ew_selectable = True, ew_exit_ready = False, ew_wake_ready = Some True\<rparr>
     (3/2) [(False, 0), (False, 1), (False, 2)] = Some (ReportTimeout, [1, 1/2])
   \<and> (\<exists>a. (False, a) \<in> set [(False, 0 :: real), (False, 1), (False, 2)] \<and> 3/2 \<le> a)"
proof -
  let ?w = "\<lparr>ew_reaped = False, ew_fd = False, ew_selectable = True, ew_exit_ready = False, ew_wake_ready = Some True\<rparr>"
  have r: "wait_exit ?w (3/2) [(False, 0), (False, 1), (False, 2)] = Some (ReportTimeout, [1, 1/2])"
    by (simp add: wait_exit_def poll_tick_s_def)
  show ?thesis using r exit_wait_truthful [OF r] by simp
qed

lemma exit_wait_ends_witness:
  "wait_exit \<lparr>ew_reaped = False, ew_fd = False, ew_selectable = True, ew_exit_ready = False, ew_wake_ready = None\<rparr>
     (3/2) [(False, 0), (False, 1), (False, 2)] \<noteq> None"
  by (rule exit_wait_ends) (simp_all add: poll_tick_s_def)

text \<open>A wake descriptor is not looked at while the exit is polled.\<close>

lemma polling_ignores_the_bell:
  "\<not> ew_fd w \<Longrightarrow> wait_exit (w\<lparr>ew_wake_ready := k\<rparr>) deadline ps = wait_exit w deadline ps"
  by (simp add: wait_exit_def)

lemma wait_until_result:
  "wait_until deadline ps final = Some (x, n) \<Longrightarrow>
     x = final \<and> n < length ps \<and> (\<forall>k<n. \<not> fst (ps ! k) \<and> snd (ps ! k) < deadline) \<and> (fst (ps ! n) \<or> deadline \<le> snd (ps ! n))"
proof -
  have "wait_until_loop deadline ps = Some n \<Longrightarrow>
      n < length ps \<and> (\<forall>k<n. \<not> fst (ps ! k) \<and> snd (ps ! k) < deadline) \<and> (fst (ps ! n) \<or> deadline \<le> snd (ps ! n))"
  proof (induction deadline ps arbitrary: n rule: wait_until_loop.induct)
    case (2 deadline h now ps)
    then show ?case by (auto simp: nth_Cons' less_Suc_eq_0_disj split: if_splits nat.splits)
  qed simp
  moreover assume "wait_until deadline ps final = Some (x, n)"
  ultimately show ?thesis by (auto simp: wait_until_def)
qed

end
