(* ===== verification/Event_Query.thy ===== *)
theory Event_Query
  imports Event_Log
begin

section \<open>The events command (cli/events\_cmd.py, event\_log.replay\_since)\<close>

text \<open>
  The query and the stream of the event log. A month file is known by its month key; the files of
  the directory at a moment are a map from keys to contents (theory \<open>Event_Log\<close>). A file may grow
  between two looks: the seed, the read of each file in the replay and each pass of the follow loop
  have their own state. Decoding one line is the parameter of \<open>Event_Log\<close>.
\<close>

subsection \<open>Month keys\<close>

definition pad2 :: "int \<Rightarrow> string" where
  "pad2 n = (if n < 10 then CHR ''0'' # int_digits n else int_digits n)"

text \<open>Year and month of a day counted from 1970-01-01 (proleptic Gregorian, March-based years).\<close>

definition year_month :: "int \<Rightarrow> int \<times> int" where
  "year_month days =
     (let z = days + 719468; era = z div 146097; doe = z mod 146097;
          yoe = (doe - doe div 1460 + doe div 36524 - doe div 146096) div 365;
          doy = doe - (365 * yoe + yoe div 4 - yoe div 100);
          mp = (5 * doy + 2) div 153;
          m = (if mp < 10 then mp + 3 else mp - 9)
      in (yoe + era * 400 + (if m \<le> 2 then 1 else 0), m))"

text \<open>\<open>strftime("%Y-%m")\<close> of an instant in UTC.\<close>

definition month_of_datetime :: "int \<Rightarrow> string" where
  "month_of_datetime us =
     (case year_month (us div 86400000000) of (y, m) \<Rightarrow> int_digits y @ ''-'' @ pad2 m)"

definition utc_instant :: "pydt \<Rightarrow> int" where
  "utc_instant dt = (case dt of Naive us \<Rightarrow> us | Aware us \<Rightarrow> us)"

subsection \<open>Filters\<close>

definition parse_kinds :: "string \<Rightarrow> string list" where
  "parse_kinds raw = filter (\<lambda>k. k \<noteq> []) (map py_strip (py_split (CHR '','') raw))"

text \<open>\<open>evt.get("event") in kind_set\<close>: a list or an object is not hashable.\<close>

definition kind_in :: "string list \<Rightarrow> event \<Rightarrow> bool res" where
  "kind_in kinds ev =
     (case ev_get ev ''event'' of
        PStr k \<Rightarrow> Inr (k \<in> set kinds)
      | PCompound r \<Rightarrow> Inl TypeError
      | _ \<Rightarrow> Inr False)"

definition matches_since :: "(string \<Rightarrow> event option) \<Rightarrow> string list \<Rightarrow> int \<Rightarrow> string \<Rightarrow> bool res" where
  "matches_since decode kinds since line =
     (case decode line of
        None \<Rightarrow> Inr False
      | Some ev \<Rightarrow>
          res_bind (kind_in kinds ev) (\<lambda>mine.
            Inr (mine \<and> (case ev_get ev ''ts'' of
                    PStr ts \<Rightarrow> (case parse_iso_ms ts of Inl e \<Rightarrow> False | Inr dt \<Rightarrow> since \<le> utc_instant dt)
                  | _ \<Rightarrow> False))))"

text \<open>Lines are printed one by one: an exception leaves the earlier ones printed.\<close>

type_synonym logged = "string \<times> event"

fun print_lines :: "(logged \<Rightarrow> bool res) \<Rightarrow> logged list \<Rightarrow> string list \<times> py_error option" where
  "print_lines wanted [] = ([], None)"
| "print_lines wanted (r # rs) =
     (case wanted r of
        Inl e \<Rightarrow> ([], Some e)
      | Inr b \<Rightarrow> (case print_lines wanted rs of (out, e) \<Rightarrow> ((if b then fst r # out else out), e)))"

subsection \<open>Replay\<close>

text \<open>
  \<open>replay_since\<close>: the records of the months not before \<open>since\<close>, oldest first, each file as it is
  when it is opened; the seed of the current month is where its read ended. A file that is gone
  ends it (\<open>False\<close>), with what was yielded before.
\<close>

fun replay_since ::
  "(string \<Rightarrow> event option) \<Rightarrow> string \<Rightarrow> string \<Rightarrow> string files \<Rightarrow> string list \<Rightarrow> string offsets
   \<Rightarrow> logged list \<times> string offsets \<times> bool" where
  "replay_since decode current since_month rd [] seed = ([], seed, True)"
| "replay_since decode current since_month rd (m # ms) seed =
     (if m < since_month then
        (if m = current then
           (case rd m of None \<Rightarrow> ([], seed, False)
            | Some c \<Rightarrow> replay_since decode current since_month rd ms (seed(m \<mapsto> length c)))
         else replay_since decode current since_month rd ms seed)
      else
        (case rd m of
           None \<Rightarrow> ([], seed, False)
         | Some c \<Rightarrow>
             (case replay_since decode current since_month rd ms (if m = current then seed(m \<mapsto> length c) else seed) of
                (rs, seed', ok) \<Rightarrow> (iter_parsed_lines decode c @ rs, seed', ok))))"

datatype events_end = EventsExit int | EventsRaised py_error

definition replay_and_print ::
  "(string \<Rightarrow> event option) \<Rightarrow> string list \<Rightarrow> int \<Rightarrow> string \<Rightarrow> string files \<Rightarrow> string list \<Rightarrow> string offsets
   \<Rightarrow> string list \<times> string offsets \<times> events_end option" where
  "replay_and_print decode kinds since current rd months seed =
     (case replay_since decode current (month_of_datetime since) rd months seed of
        (rs, seed', ok) \<Rightarrow>
          (case print_lines (\<lambda>r. matches_since decode kinds since (fst r)) rs of
             (out, Some e) \<Rightarrow> (out, seed', Some (EventsRaised e))
           | (out, None) \<Rightarrow> (out, seed', if ok then None else Some (EventsExit 1))))"

subsection \<open>The command\<close>

text \<open>
  The stream: seeded at the ends of the newest two files, then the replay, then the passes of the
  follow loop until the interrupt, which exits with 0.
\<close>

definition tail_cmd ::
  "(string \<Rightarrow> event option) \<Rightarrow> string list \<Rightarrow> int option \<Rightarrow> string \<Rightarrow> string list \<Rightarrow> string list
   \<Rightarrow> string files \<Rightarrow> string files \<Rightarrow> string files list \<Rightarrow> string list \<times> events_end" where
  "tail_cmd decode kinds since current months scope fs0 rd snaps =
     (let seed0 = seed_at_eof fs0 scope;
          (out1, seed, stop) =
            (case since of None \<Rightarrow> ([], seed0, None)
             | Some t \<Rightarrow> replay_and_print decode kinds t current rd months seed0)
      in case stop of
           Some e \<Rightarrow> (out1, e)
         | None \<Rightarrow>
             (case print_lines (\<lambda>r. kind_in kinds (snd r)) (follow decode scope snaps seed) of
                (out2, None) \<Rightarrow> (out1 @ out2, EventsExit 0)
              | (out2, Some e) \<Rightarrow> (out1 @ out2, EventsRaised e)))"

definition query_cmd ::
  "(string \<Rightarrow> event option) \<Rightarrow> string list \<Rightarrow> int \<Rightarrow> string \<Rightarrow> string files \<Rightarrow> string list \<times> events_end" where
  "query_cmd decode kinds window current fs =
     (case fs current of
        None \<Rightarrow> ([], EventsExit 0)
      | Some c \<Rightarrow>
          (case print_lines (\<lambda>r. kind_in kinds (snd r)) (iter_parsed_lines decode c) of
             (out, None) \<Rightarrow>
               ((if window > 0 then drop (length out - nat window) out else []), EventsExit 0)
           | (out, Some e) \<Rightarrow> ([], EventsRaised e)))"

record events_args =
  ea_kind :: string
  ea_window :: "int option"
  ea_tail :: bool
  ea_since :: "string option"

text \<open>The guards, in order: what they refuse never touches the log.\<close>

definition events_plan :: "events_args \<Rightarrow> int + int option" where
  "events_plan a =
     (if parse_kinds (ea_kind a) = [] then Inl 2
      else if ea_tail a \<and> ea_window a \<noteq> None then Inl 2
      else (case ea_since a of
              None \<Rightarrow> Inr None
            | Some raw \<Rightarrow>
                if ea_window a \<noteq> None then Inl 2
                else (case parse_iso_ms raw of Inl e \<Rightarrow> Inl 2 | Inr dt \<Rightarrow> Inr (Some (utc_instant dt)))))"

text \<open>\<open>conf\<close>: whether the configuration, which names the log directory, was found.\<close>

definition cmd_events ::
  "(string \<Rightarrow> event option) \<Rightarrow> bool \<Rightarrow> events_args \<Rightarrow> string \<Rightarrow> string list \<Rightarrow> string list
   \<Rightarrow> string files \<Rightarrow> string files \<Rightarrow> string files list \<Rightarrow> string list \<times> events_end" where
  "cmd_events decode conf a current months scope fs0 rd snaps =
     (let kinds = parse_kinds (ea_kind a) in
      case events_plan a of
        Inl code \<Rightarrow> ([], EventsExit code)
      | Inr since \<Rightarrow>
          if \<not> conf then ([], EventsExit 1)
          else if ea_tail a then tail_cmd decode kinds since current months scope fs0 rd snaps
          else (case since of
                  Some t \<Rightarrow>
                    (case replay_and_print decode kinds t current rd months Map.empty of
                       (out, seed, Some e) \<Rightarrow> (out, e)
                     | (out, seed, None) \<Rightarrow> (out, EventsExit 0))
                | None \<Rightarrow> query_cmd decode kinds (case ea_window a of None \<Rightarrow> 10 | Some n \<Rightarrow> n) current fs0))"

lemma year_month_examples:
  "year_month 0 = (1970, 1)" "year_month 19782 = (2024, 2)" "year_month 20453 = (2025, 12)" "year_month 20454 = (2026, 1)"
  by code_simp+

subsection \<open>Nothing at or after the given moment is lost\<close>

lemma print_lines_all:
  "print_lines wanted rs = (out, None) \<Longrightarrow> out = map fst (filter (\<lambda>r. wanted r = Inr True) rs)"
proof (induction rs arbitrary: out)
  case (Cons r rs)
  then obtain b out' where "wanted r = Inr b" "print_lines wanted rs = (out', None)" "out = (if b then fst r # out' else out')"
    by (auto split: sum.splits prod.splits)
  then show ?case using Cons.IH by auto
qed simp

lemma replay_since_all:
  "replay_since decode current since_month rd ms seed = (rs, seed', True) \<Longrightarrow>
     rs = concat (map (\<lambda>m. iter_parsed_lines decode (content rd m)) (filter (\<lambda>m. \<not> m < since_month) ms))
     \<and> seed' = (if current \<in> set ms then seed(current \<mapsto> length (content rd current)) else seed)"
proof (induction ms arbitrary: rs seed)
  case (Cons m ms)
  show ?case
  proof (cases "m < since_month")
    case True
    then have h: "replay_since decode current since_month rd ms
        (if m = current then seed(m \<mapsto> length (content rd m)) else seed) = (rs, seed', True)"
      using Cons.prems by (auto simp: content_def split: if_splits option.splits)
    show ?thesis using Cons.IH [OF h] True by (auto simp: fun_eq_iff)
  next
    case False
    then obtain c rs' where c: "rd m = Some c" "rs = iter_parsed_lines decode c @ rs'"
      "replay_since decode current since_month rd ms (if m = current then seed(m \<mapsto> length c) else seed) = (rs', seed', True)"
      using Cons.prems by (auto split: option.splits prod.splits)
    have l: "c = content rd m" using c(1) by (simp add: content_def)
    show ?thesis using Cons.IH [OF c(3)] c(2) False l by auto
  qed
qed simp

lemma appended_trans: "appended ps f g \<Longrightarrow> appended ps g h \<Longrightarrow> appended ps f h"
  unfolding appended_def by (metis append.assoc complete_lines_append)

text \<open>The contents each file of the scope had where the follow loop takes over.\<close>

definition handoff :: "string \<Rightarrow> string list \<Rightarrow> string files \<Rightarrow> string files \<Rightarrow> string files" where
  "handoff current months fs0 rd = (\<lambda>p. if p = current \<and> p \<in> set months then rd p else fs0 p)"

lemma handoff_appended:
  assumes "appended scope fs0 rd"
  shows "appended scope fs0 (handoff current months fs0 rd)" "appended scope (handoff current months fs0 rd) rd"
  using assms by (auto simp: appended_def handoff_def content_def complete_lines_def split: option.splits)

lemma appended_prefix:
  assumes "appended scope f g" "p \<in> set scope" "complete_lines (content f p)"
  shows "set (iter_parsed_lines decode (content f p)) \<subseteq> set (iter_parsed_lines decode (content g p))"
proof -
  obtain d where "content g p = content f p @ d" using assms(1,2) by (auto simp: appended_def)
  then show ?thesis using iter_parsed_lines_append [OF assms(3), of decode d] by simp
qed

text \<open>C29: a stream started with a moment to resume from, ended by the interrupt while writers append whole lines at any point between its own reads, has printed every line of the followed files that asks for one of the kinds at or after that moment and stands in no earlier month.\<close>

theorem since_tail_loses_nothing:
  assumes run: "tail_cmd decode kinds (Some since) current months scope fs0 rd snaps = (out, EventsExit 0)"
    and scope: "distinct scope" "\<forall>p\<in>set scope. p \<in> set months \<or> fs0 p = None"
    and whole: "\<forall>p\<in>set scope. complete_lines (content fs0 p)"
    and grows: "appended scope fs0 rd" "append_chain scope rd snaps" "snaps \<noteq> []"
    and logged: "p \<in> set scope" "\<not> p < month_of_datetime since" "r \<in> set (iter_parsed_lines decode (content (last snaps) p))"
    and wanted: "kind_in kinds (snd r) = Inr True" "matches_since decode kinds since (fst r) = Inr True"
  shows "fst r \<in> set out"
proof -
  let ?seed0 = "seed_at_eof fs0 scope" and ?h = "handoff current months fs0 rd"
  obtain rs seed out1 out2 where
    rp: "replay_since decode current (month_of_datetime since) rd months ?seed0 = (rs, seed, True)"
    and o1: "print_lines (\<lambda>r. matches_since decode kinds since (fst r)) rs = (out1, None)"
    and o2: "print_lines (\<lambda>r. kind_in kinds (snd r)) (follow decode scope snaps seed) = (out2, None)"
    and out: "out = out1 @ out2"
    using run by (auto simp: tail_cmd_def replay_and_print_def Let_def split: prod.splits option.splits if_splits)
  note rs = replay_since_all [OF rp]
  have seed: "\<forall>q\<in>set scope. offset_of seed q = length (content ?h q)"
    using rs by (auto simp: offset_of_def seed_at_eof_def handoff_def content_def split: option.splits if_splits)
  obtain g gs where g: "snaps = g # gs" using grows(3) by (cases snaps) auto
  have "appended scope ?h g"
    using appended_trans [OF handoff_appended(2) [OF grows(1)]] grows(2) g by auto
  then have chain: "append_chain scope ?h snaps" using grows(2) g by simp
  have fol: "mset (follow decode scope snaps seed) = (\<Sum>q\<in>#mset scope. new_records decode ?h (last snaps) q)"
    using follow_records [OF scope(1) chain seed, of decode] g by simp
  obtain d where d: "content (last snaps) p = content ?h p @ d" "complete_lines d"
    using append_chain_content [OF chain logged(1)] g by auto
  have wh: "complete_lines (content ?h p)"
    using handoff_appended(1) [OF grows(1), of current months] whole logged(1) complete_lines_append
    unfolding appended_def by metis
  have split: "iter_parsed_lines decode (content (last snaps) p) = iter_parsed_lines decode (content ?h p) @ iter_parsed_lines decode d"
    unfolding d(1) by (rule iter_parsed_lines_append [OF wh])
  from logged(3) split consider (early) "r \<in> set (iter_parsed_lines decode (content ?h p))" | (late) "r \<in> set (iter_parsed_lines decode d)"
    by auto
  then show ?thesis
  proof cases
    case early
    then have "content ?h p \<noteq> []" by auto
    then have m: "p \<in> set months" using scope(2) logged(1) by (auto simp: handoff_def content_def split: if_splits)
    have "r \<in> set (iter_parsed_lines decode (content rd p))"
      using appended_prefix [OF handoff_appended(2) [OF grows(1)] logged(1) wh] early by blast
    then have "r \<in> set rs" using rs m logged(2) by auto
    then show ?thesis using print_lines_all [OF o1] wanted(2) out by auto
  next
    case late
    have "new_records decode ?h (last snaps) p = mset (iter_parsed_lines decode d)"
      by (simp add: new_records_def d(1))
    then have "r \<in># new_records decode ?h (last snaps) p" using late by simp
    then have "r \<in># (\<Sum>q\<in>#mset scope. new_records decode ?h (last snaps) q)"
      using logged(1) by (auto simp: set_mset_Union_mset intro!: bexI [of _ p])
    then have "r \<in> set (follow decode scope snaps seed)" unfolding fol [symmetric] by simp
    then show ?thesis using print_lines_all [OF o2] wanted(1) out by auto
  qed
qed

lemma print_lines_wanted: "set (fst (print_lines wanted rs)) \<subseteq> fst ` {r \<in> set rs. wanted r = Inr True}"
proof (induction rs)
  case (Cons r rs)
  then show ?case by (cases "wanted r") (auto split: prod.splits)
qed simp

text \<open>Only what was asked for is printed, and a refused command prints nothing.\<close>

text \<open>An events command whose kinds are empty, whose window is combined with the stream or a resume moment, or whose moment cannot be read exits with 2 and prints nothing.\<close>

theorem events_refusals:
  assumes "events_plan a = Inl code"
  shows "code = 2 \<and> cmd_events decode conf a current months scope fs0 rd snaps = ([], EventsExit 2)"
proof -
  have "code = 2" using assms by (auto simp: events_plan_def split: option.splits if_splits sum.splits)
  then show ?thesis using assms by (simp add: cmd_events_def Let_def)
qed

definition example_logged :: event where
  "example_logged = [''event'' \<mapsto> PStr ''round_end'', ''ts'' \<mapsto> PStr ''1970-01-01'']"

lemma month_of_epoch: "month_of_datetime 0 = ''1970-01''"
proof -
  have d: "int_digits 1970 = ''1970''"
    by (simp add: int_digits_def nat_digits.simps digit_char_def char_of_def bit_Suc_0_iff)
  have "int_digits 1 = ''1''"
    by code_simp
  then show ?thesis using d by (simp add: month_of_datetime_def year_month_examples(1) pad2_def)
qed

lemma example_logged_matches:
  "kind_in [''round_end''] example_logged = Inr True"
  "matches_since (\<lambda>_. Some example_logged) [''round_end''] 0 s = Inr True"
proof -
  have "parse_iso_ms ''1970-01-01'' = Inr (Naive 0)" by code_simp
  then show "kind_in [''round_end''] example_logged = Inr True"
    "matches_since (\<lambda>_. Some example_logged) [''round_end''] 0 s = Inr True"
    by (simp_all add: kind_in_def matches_since_def example_logged_def ev_get_def ev_get_or_def utc_instant_def)
qed

lemma example_logged_lines:
  "iter_parsed_lines (\<lambda>_. Some example_logged) ''a\<newline>'' = [(''a'', example_logged)]"
  "iter_parsed_lines (\<lambda>_. Some example_logged) ''a\<newline>b\<newline>'' = [(''a'', example_logged), (''b'', example_logged)]"
  "iter_parsed_lines (\<lambda>_. Some example_logged) ''a\<newline>b\<newline>c\<newline>'' =
     [(''a'', example_logged), (''b'', example_logged), (''c'', example_logged)]"
  "iter_parsed_lines (\<lambda>_. Some example_logged) ''c\<newline>'' = [(''c'', example_logged)]"
proof -
  have l: "split_lines [] ''a\<newline>'' = [''a'']" "split_lines [] ''a\<newline>b\<newline>'' = [''a'', ''b'']"
    "split_lines [] ''a\<newline>b\<newline>c\<newline>'' = [''a'', ''b'', ''c'']" "split_lines [] ''c\<newline>'' = [''c'']" by code_simp+
  have s: "py_strip ''a'' = ''a''" "py_strip ''b'' = ''b''" "py_strip ''c'' = ''c''" by code_simp+
  show "iter_parsed_lines (\<lambda>_. Some example_logged) ''a\<newline>'' = [(''a'', example_logged)]"
    "iter_parsed_lines (\<lambda>_. Some example_logged) ''a\<newline>b\<newline>'' = [(''a'', example_logged), (''b'', example_logged)]"
    "iter_parsed_lines (\<lambda>_. Some example_logged) ''a\<newline>b\<newline>c\<newline>'' =
       [(''a'', example_logged), (''b'', example_logged), (''c'', example_logged)]"
    "iter_parsed_lines (\<lambda>_. Some example_logged) ''c\<newline>'' = [(''c'', example_logged)]"
    unfolding iter_parsed_lines_def l parse_line_def by (simp_all add: s map_filter_def)
qed

lemma example_tail_run:
  "tail_cmd (\<lambda>_. Some example_logged) [''round_end''] (Some 0) ''1970-01'' [''1970-01''] [''1970-01'']
     [''1970-01'' \<mapsto> ''a\<newline>''] [''1970-01'' \<mapsto> ''a\<newline>b\<newline>''] [[''1970-01'' \<mapsto> ''a\<newline>b\<newline>c\<newline>'']]
     = ([''a'', ''b'', ''c''], EventsExit 0)"
  by (simp add: tail_cmd_def replay_and_print_def month_of_epoch seed_at_eof_def example_logged_lines example_logged_matches read_one_def Let_def)

lemma since_tail_loses_nothing_witness:
  "''b'' \<in> set (fst (tail_cmd (\<lambda>_. Some example_logged) [''round_end''] (Some 0) ''1970-01'' [''1970-01''] [''1970-01'']
     [''1970-01'' \<mapsto> ''a\<newline>''] [''1970-01'' \<mapsto> ''a\<newline>b\<newline>''] [[''1970-01'' \<mapsto> ''a\<newline>b\<newline>c\<newline>'']]))"
proof -
  have "fst (''b'', example_logged) \<in> set [''a'', ''b'', ''c'']"
    by (rule since_tail_loses_nothing [OF example_tail_run, where p = "''1970-01''"])
      (simp_all add: appended_def content_def complete_lines_def month_of_epoch example_logged_lines example_logged_matches)
  then show ?thesis by (simp add: example_tail_run)
qed

lemma events_refusals_witness:
  "cmd_events (\<lambda>_. None) True \<lparr>ea_kind = '' , '', ea_window = None, ea_tail = True, ea_since = None\<rparr> ''m'' [] [] Map.empty Map.empty []
     = ([], EventsExit 2)"
proof -
  have "events_plan \<lparr>ea_kind = '' , '', ea_window = None, ea_tail = True, ea_since = None\<rparr> = Inl 2" by code_simp
  then show ?thesis by (rule events_refusals [THEN conjunct2])
qed

text \<open>One line whose kind is a list ends the stream with a traceback.\<close>

lemma unhashable_kind_ends_stream:
  "print_lines (\<lambda>r. kind_in [''round_end''] (snd r)) [(''x'', [''event'' \<mapsto> PCompound ''[]'']), (''y'', example_logged)] = ([], Some TypeError)"
  by (simp add: kind_in_def ev_get_def ev_get_or_def)

end
