(* ===== verification/Config_Digest.thy ===== *)
theory Config_Digest
  imports Prompt Event_Log
begin

section \<open>The configuration digest of a round (config/digest.py)\<close>

text \<open>
  What a round records of the configuration it started under. Hashing is a parameter: \<open>sha\<close> of a
  file at a path (none when it cannot be read) and \<open>hex\<close> of a payload, whose canonical JSON text is
  left inside it. The log is what its files
  yielded, in name order, each up to a read error.
\<close>

record digest_payload =
  dp_prompt_files :: "string list"
  dp_prompt_sha :: "string option list"
  dp_checks :: "(string \<times> string list) list"
  dp_dirty_action :: dirty_action
  dp_delivery :: prompt_delivery
  dp_env :: "(string \<times> string) list"

definition digest_files :: "full_config \<Rightarrow> string option \<Rightarrow> string list" where
  "digest_files cfg phase =
     (case pr_prompt_files (profile_for (base_config cfg) phase) of
        Some fs \<Rightarrow> fs
      | None \<Rightarrow>
          if pp_files (cf_prompt cfg) \<noteq> [] then pp_files (cf_prompt cfg)
          else (case pp_file (cf_prompt cfg) of Some f \<Rightarrow> [f] | None \<Rightarrow> []))"

text \<open>\<open>sorted(env.items())\<close>.\<close>

definition sorted_items :: "(string \<rightharpoonup> string) \<Rightarrow> (string \<times> string) list" where
  "sorted_items m = map (\<lambda>k. (k, the (m k))) (sorted_list_of_set (dom m))"

definition digest_payload_of :: "(string \<Rightarrow> string option) \<Rightarrow> full_config \<Rightarrow> string option \<Rightarrow> digest_payload" where
  "digest_payload_of sha cfg phase =
     (let pr = profile_for (base_config cfg) phase; files = digest_files cfg phase in
      \<lparr>dp_prompt_files = files, dp_prompt_sha = map (\<lambda>p. sha (under_work_dir cfg p)) files,
       dp_checks = (case cf_goal cfg of None \<Rightarrow> [] | Some g \<Rightarrow> map (\<lambda>c. (gc_name c, gc_cmd c)) (go_checks g)),
       dp_dirty_action = vc_dirty_action (cf_vcs cfg), dp_delivery = ac_prompt_delivery (pr_agent pr),
       dp_env = sorted_items (ac_env (pr_agent pr))\<rparr>)"

record digest_snapshot =
  sn_prompt_files :: "string list"
  sn_check_names :: "string list"
  sn_dirty_action :: dirty_action
  sn_delivery :: prompt_delivery

definition snapshot_of :: "digest_payload \<Rightarrow> digest_snapshot" where
  "snapshot_of p =
     \<lparr>sn_prompt_files = dp_prompt_files p, sn_check_names = map fst (dp_checks p),
      sn_dirty_action = dp_dirty_action p, sn_delivery = dp_delivery p\<rparr>"

definition digest_of_event :: "event \<Rightarrow> string option \<Rightarrow> string option" where
  "digest_of_event ev prior =
     (if is_kind ev ROUND_START
      then (case ev_get ev ''config_digest'' of PStr d \<Rightarrow> if d \<noteq> [] then Some d else prior | _ \<Rightarrow> prior)
      else prior)"

text \<open>\<open>None\<close>: the directory could not be listed.\<close>

definition last_round_start_digest :: "event list list option \<Rightarrow> string option" where
  "last_round_start_digest logs = (case logs of None \<Rightarrow> None | Some files \<Rightarrow> fold digest_of_event (concat files) None)"

record round_start_record =
  rs_round_num :: int
  rs_phase :: "string option"
  rs_digest :: string
  rs_changed :: bool
  rs_snapshot :: "digest_snapshot option"

definition round_start_fields ::
  "(string \<Rightarrow> string option) \<Rightarrow> (digest_payload \<Rightarrow> string) \<Rightarrow> full_config \<Rightarrow> string option \<Rightarrow> event list list option \<Rightarrow> int
   \<Rightarrow> round_start_record" where
  "round_start_fields sha hex cfg phase logs round_num =
     (let payload = digest_payload_of sha cfg phase; digest = hex payload;
          changed = (last_round_start_digest logs \<noteq> Some digest)
      in \<lparr>rs_round_num = round_num, rs_phase = phase, rs_digest = digest, rs_changed = changed,
          rs_snapshot = (if changed then Some (snapshot_of payload) else None)\<rparr>)"

text \<open>The event of that record, as the digest reads it back.\<close>

definition round_start_event :: "round_start_record \<Rightarrow> event" where
  "round_start_event r =
     [''event'' \<mapsto> PStr ROUND_START, ''round_num'' \<mapsto> PInt (rs_round_num r), ''config_digest'' \<mapsto> PStr (rs_digest r),
      ''config_changed'' \<mapsto> PBool (rs_changed r)]"

subsection \<open>What the record says\<close>

text \<open>Rounds in order, each under its own configuration, phase and files, with other events between.\<close>

type_synonym digest_round = "(string \<Rightarrow> string option) \<times> full_config \<times> string option \<times> event list"

fun digest_run :: "(digest_payload \<Rightarrow> string) \<Rightarrow> int \<Rightarrow> digest_round list \<Rightarrow> event list \<Rightarrow> round_start_record list" where
  "digest_run hex n [] logd = []"
| "digest_run hex n ((sha, cfg, phase, between) # rounds) logd =
     (let r = round_start_fields sha hex cfg phase (Some [logd]) n
      in r # digest_run hex (n + 1) rounds (logd @ [round_start_event r] @ between))"

definition round_payload :: "digest_round \<Rightarrow> digest_payload" where
  "round_payload x = (case x of (sha, cfg, phase, between) \<Rightarrow> digest_payload_of sha cfg phase)"

definition no_round_start :: "event list \<Rightarrow> bool" where
  "no_round_start evs \<longleftrightarrow> list_all (\<lambda>ev. \<not> is_kind ev ROUND_START) evs"

lemma fold_digest_other: "no_round_start evs \<Longrightarrow> fold digest_of_event evs d = d"
  by (induction evs arbitrary: d) (auto simp: no_round_start_def digest_of_event_def)

lemma digest_of_own_event: "rs_digest r \<noteq> [] \<Longrightarrow> digest_of_event (round_start_event r) d = Some (rs_digest r)"
  by (simp add: digest_of_event_def round_start_event_def is_kind_def ev_get_def ev_get_or_def)

lemma digest_run_flags:
  assumes "\<forall>x\<in>set rounds. hex (round_payload x) \<noteq> []" "list_all (\<lambda>(sha, cfg, phase, between). no_round_start between) rounds"
  shows "map rs_changed (digest_run hex n rounds logd) =
     map (\<lambda>(prior, p). prior \<noteq> Some (hex p))
       (zip (last_round_start_digest (Some [logd]) # map (Some \<circ> hex \<circ> round_payload) rounds) (map round_payload rounds))"
  using assms
proof (induction rounds arbitrary: n logd)
  case (Cons x rounds)
  obtain sha cfg phase between where x: "x = (sha, cfg, phase, between)" by (cases x)
  let ?r = "round_start_fields sha hex cfg phase (Some [logd]) n"
  have d: "rs_digest ?r = hex (round_payload x)" by (simp add: round_start_fields_def Let_def round_payload_def x)
  have l: "last_round_start_digest (Some [logd @ [round_start_event ?r] @ between]) = Some (hex (round_payload x))"
    using Cons.prems x d
    by (simp add: last_round_start_digest_def fold_digest_other digest_of_own_event)
  have c: "rs_changed ?r = (last_round_start_digest (Some [logd]) \<noteq> Some (hex (round_payload x)))"
    by (simp add: round_start_fields_def Let_def round_payload_def x)
  show ?case using Cons.IH [of "n + 1" "logd @ [round_start_event ?r] @ between"] Cons.prems l c x
    by (simp add: Let_def)
qed simp

text \<open>The parts of two rounds' configurations that the digest is said to cover, as the configuration has them.\<close>

definition digest_env :: "digest_round \<Rightarrow> string \<rightharpoonup> string" where
  "digest_env x = (case x of (sha, cfg, phase, between) \<Rightarrow> ac_env (pr_agent (profile_for (base_config cfg) phase)))"

definition checks_of :: "full_config \<Rightarrow> (string \<times> string list) list" where
  "checks_of cfg = (case cf_goal cfg of None \<Rightarrow> [] | Some g \<Rightarrow> map (\<lambda>c. (gc_name c, gc_cmd c)) (go_checks g))"

definition digested_alike :: "digest_round \<Rightarrow> digest_round \<Rightarrow> bool" where
  "digested_alike x y \<longleftrightarrow>
     (case (x, y) of ((sha, cfg, phase, _), (sha', cfg', phase', _)) \<Rightarrow>
        digest_files cfg phase = digest_files cfg' phase' \<and>
        list_all (\<lambda>p. sha (under_work_dir cfg p) = sha' (under_work_dir cfg' p)) (digest_files cfg phase) \<and>
        checks_of cfg = checks_of cfg' \<and>
        vc_dirty_action (cf_vcs cfg) = vc_dirty_action (cf_vcs cfg') \<and>
        ac_prompt_delivery (pr_agent (profile_for (base_config cfg) phase))
          = ac_prompt_delivery (pr_agent (profile_for (base_config cfg') phase'))) \<and>
     digest_env x = digest_env y"

lemma map_of_sorted_items: "finite (dom m) \<Longrightarrow> map_of (sorted_items m) = m"
proof (rule ext)
  fix k
  assume "finite (dom m)"
  then show "map_of (sorted_items m) k = m k"
    by (cases "m k") (auto simp: sorted_items_def map_of_map_restrict restrict_map_def)
qed

lemma sorted_items_eq_iff: "finite (dom m) \<Longrightarrow> finite (dom m') \<Longrightarrow> sorted_items m = sorted_items m' \<longleftrightarrow> m = m'"
  by (metis map_of_sorted_items)

lemma payload_eq_iff:
  assumes "finite (dom (digest_env x))" "finite (dom (digest_env y))"
  shows "round_payload x = round_payload y \<longleftrightarrow> digested_alike x y"
proof -
  obtain sha cfg phase b sha' cfg' phase' b' where xy: "x = (sha, cfg, phase, b)" "y = (sha', cfg', phase', b')"
    by (metis prod_cases4)
  show ?thesis
    using sorted_items_eq_iff [OF assms]
    by (auto simp: xy round_payload_def digest_payload_of_def digested_alike_def digest_env_def checks_of_def Let_def list_all_iff)
qed

text \<open>C31: from its second round on, a round is recorded as a change of the configuration exactly when its prompt files, their contents, the checks, the dirty action, the delivery or the environment, as its phase has them, differ from those of the round before it, whatever other events were logged between, if the hash does not collide on these rounds.\<close>

theorem change_flag_exact:
  assumes "inj_on hex (round_payload ` set rounds)" "\<forall>x\<in>set rounds. hex (round_payload x) \<noteq> []"
    and "list_all (\<lambda>(sha, cfg, phase, between). no_round_start between) rounds"
    and "\<forall>x\<in>set rounds. finite (dom (digest_env x))" "Suc k < length rounds"
  shows "rs_changed (digest_run hex n rounds logd ! Suc k) \<longleftrightarrow> \<not> digested_alike (rounds ! k) (rounds ! Suc k)"
proof -
  let ?flags = "map rs_changed (digest_run hex n rounds logd)"
  have len: "length (digest_run hex n rounds logd) = length rounds"
    by (induction rounds arbitrary: n logd) (auto simp: Let_def)
  have "?flags ! Suc k = (Some (hex (round_payload (rounds ! k))) \<noteq> Some (hex (round_payload (rounds ! Suc k))))"
    unfolding digest_run_flags [OF assms(2,3)] using assms(5) by simp
  moreover have m: "rounds ! k \<in> set rounds" "rounds ! Suc k \<in> set rounds" using assms(5) by simp_all
  moreover have "round_payload (rounds ! k) = round_payload (rounds ! Suc k) \<longleftrightarrow> digested_alike (rounds ! k) (rounds ! Suc k)"
    using assms(4) m by (intro payload_eq_iff) auto
  ultimately show ?thesis using assms(1,5) len by (auto simp: inj_on_def)
qed

text \<open>
  The snapshot shows names and paths only: it is the same for any contents, commands and
  environment.
\<close>

text \<open>What a changed round records besides the digest depends on the prompt paths, the names of the checks, the dirty action and the delivery only: never on contents, commands or the environment.\<close>

theorem snapshot_shows_names_only:
  assumes "dp_prompt_files p = dp_prompt_files q" "map fst (dp_checks p) = map fst (dp_checks q)"
    "dp_dirty_action p = dp_dirty_action q" "dp_delivery p = dp_delivery q"
  shows "snapshot_of p = snapshot_of q"
  using assms by (simp add: snapshot_of_def)

subsection \<open>Examples\<close>

text \<open>Two phases with a prompt file each.\<close>

definition example_rotation :: full_config where
  "example_rotation =
     config.extend
       ((example_config (Some [''plan'', ''build'']) PolicyWait)
          \<lparr>cf_phases := \<lparr>pc_list = Some [''plan'', ''build''],
             pc_overrides = [''plan'' \<mapsto> \<lparr>ov_round_budget_s = None, ov_prompt_files = Some [''plan.md''], ov_agent = None, ov_schedule = None\<rparr>,
                ''build'' \<mapsto> \<lparr>ov_round_budget_s = None, ov_prompt_files = Some [''build.md''], ov_agent = None, ov_schedule = None\<rparr>],
             pc_phase_policy = PolicyWait\<rparr>\<rparr>)
       (full_config.fields
          \<lparr>pp_file = Some ''p.md'', pp_files = [], pp_inject_context = False, pp_mode = Prepend, pp_separator = [], pp_strip_frontmatter = False\<rparr>
          \<lparr>vc_stash_idempotency_s = 60, vc_dirty_action = StashDirty\<rparr> [])"

definition example_hex :: "digest_payload \<Rightarrow> string" where
  "example_hex p = (if dp_prompt_files p = [''plan.md''] then ''a'' else ''b'')"

lemma rotation_files:
  "digest_files example_rotation (Some ''plan'') = [''plan.md'']"
  "digest_files example_rotation (Some ''build'') = [''build.md'']"
  by (simp_all add: digest_files_def example_rotation_def example_config_def config.defs full_config.defs profile_for_def base_config_def)

lemma rotation_payloads:
  "dp_prompt_files (round_payload (sha, example_rotation, Some ''plan'', [])) = [''plan.md'']"
  "dp_prompt_files (round_payload (sha, example_rotation, Some ''build'', [])) = [''build.md'']"
  by (simp_all add: round_payload_def digest_payload_of_def Let_def rotation_files)

text \<open>
  One unchanged configuration, the phases in turn: every round is recorded as a change of the
  configuration.
\<close>

lemma rotation_is_always_a_change:
  "map rs_changed (digest_run example_hex 1
     (map (\<lambda>ph. (\<lambda>_. None, example_rotation, Some ph, [])) [''plan'', ''build'', ''plan'', ''build'']) []) = [True, True, True, True]"
proof -
  let ?rounds = "map (\<lambda>ph. (\<lambda>_. None, example_rotation, Some ph, [])) [''plan'', ''build'', ''plan'', ''build'']"
  have "map rs_changed (digest_run example_hex 1 ?rounds []) =
     map (\<lambda>(prior, p). prior \<noteq> Some (example_hex p))
       (zip (last_round_start_digest (Some [[]]) # map (Some \<circ> example_hex \<circ> round_payload) ?rounds) (map round_payload ?rounds))"
    by (rule digest_run_flags) (auto simp: example_hex_def no_round_start_def)
  then show ?thesis by (simp add: example_hex_def rotation_payloads last_round_start_digest_def)
qed

lemma rotation_env: "digest_env (sha, example_rotation, Some ph, []) = Map.empty" if "ph = ''plan'' \<or> ph = ''build''"
  using that by (auto simp: digest_env_def example_rotation_def example_config_def config.defs full_config.defs profile_for_def base_config_def example_agent_def)

lemma change_flag_exact_witness:
  "rs_changed (digest_run example_hex 1
     [(\<lambda>_. None, example_rotation, Some ''plan'', []), (\<lambda>_. None, example_rotation, Some ''build'', [])] [] ! Suc 0)
   \<and> \<not> rs_changed (digest_run example_hex 1
     [(\<lambda>_. None, example_rotation, Some ''plan'', []), (\<lambda>_. None, example_rotation, Some ''plan'', [])] [] ! Suc 0)"
proof
  let ?p = "(\<lambda>_. None, example_rotation, Some ''plan'', [])" and ?b = "(\<lambda>_. None, example_rotation, Some ''build'', [])"
  have ne: "\<not> digested_alike ?p ?b" by (simp add: digested_alike_def rotation_files)
  have i: "inj_on example_hex (round_payload ` set [?p, ?b])"
    by (auto simp: inj_on_def example_hex_def rotation_payloads)
  show "rs_changed (digest_run example_hex 1 [?p, ?b] [] ! Suc 0)"
    using change_flag_exact [OF i, of 0 1 "[]"] ne by (simp add: example_hex_def no_round_start_def rotation_env)
  have j: "inj_on example_hex (round_payload ` set [?p, ?p])" by simp
  have eq: "digested_alike ?p ?p" by (simp add: digested_alike_def list_all_iff)
  show "\<not> rs_changed (digest_run example_hex 1 [?p, ?p] [] ! Suc 0)"
    using change_flag_exact [OF j, of 0 1 "[]"] eq by (simp add: example_hex_def no_round_start_def rotation_env)
qed

lemma snapshot_shows_names_only_witness:
  "snapshot_of \<lparr>dp_prompt_files = [''p''], dp_prompt_sha = [Some ''1''], dp_checks = [(''t'', [''make''])], dp_dirty_action = StashDirty,
       dp_delivery = Argv, dp_env = [(''TOKEN'', ''x'')]\<rparr>
   = snapshot_of \<lparr>dp_prompt_files = [''p''], dp_prompt_sha = [None], dp_checks = [(''t'', [''true''])], dp_dirty_action = StashDirty,
       dp_delivery = Argv, dp_env = []\<rparr>"
  by (rule snapshot_shows_names_only) simp_all

end
