(* ===== verification/Remote_Relay.thy ===== *)
theory Remote_Relay
  imports Event_Log
begin

section \<open>The remote event relay (remote\_relay.py)\<close>

text \<open>
  The client's loop: an ssh to the events command of the supervised host, its lines passed through,
  and a reconnection that resumes from the latest timestamp relayed. One connection is what it
  yielded: its lines, how ssh ended, the monotonic clock then, and whether an interrupt came while
  it streamed or while the relay slept after it. A list of connections is a prefix of a run;
  decoding a line is a parameter.
\<close>

record relay_conn =
  rc_lines :: "string list"
  rc_interrupted :: bool
  rc_returncode :: int
  rc_error :: string
  rc_now :: real
  rc_sleep_interrupted :: bool

record relay_state =
  rl_last :: "(string \<times> pydt) option"
  rl_blip :: "real option"
  rl_attempt :: nat

record relay_setup =
  rr_host :: string
  rr_kinds :: "string list"
  rr_config :: "string option"
  rr_tolerance_s :: real

datatype relay_act =
    SpawnSsh "string list"
  | WriteLine string
  | KillSsh
  | EmitBlip nat real "string option" real
  | EmitGiveUp nat real "string option"
  | SleepFor real

datatype relay_end = RelayExit int | RelayRaised py_error

definition reconnect_backoff_s :: "real list" where "reconnect_backoff_s = [1, 2, 4, 8, 16, 30]"

fun join_commas :: "string list \<Rightarrow> string" where
  "join_commas [] = []"
| "join_commas [k] = k"
| "join_commas (k # ks) = k @ '','' @ join_commas ks"

definition remote_argv :: "relay_setup \<Rightarrow> string option \<Rightarrow> string list" where
  "remote_argv s since =
     [''ssh'', rr_host s, ''--'', ''agent-runner'', ''events'', ''--tail'', ''--kind'', join_commas (rr_kinds s)]
     @ (case since of None \<Rightarrow> [] | Some t \<Rightarrow> [''--since'', t])
     @ (case rr_config s of None \<Rightarrow> [] | Some c \<Rightarrow> [''--config'', c])"

definition line_ts :: "(string \<Rightarrow> event option) \<Rightarrow> string \<Rightarrow> (string \<times> pydt) option" where
  "line_ts decode line =
     (case decode line of
        None \<Rightarrow> None
      | Some ev \<Rightarrow>
          (case ev_get ev ''ts'' of
             PStr ts \<Rightarrow> (case parse_iso_ms ts of Inl e \<Rightarrow> None | Inr dt \<Rightarrow> Some (ts, dt))
           | _ \<Rightarrow> None))"

text \<open>The resume point only moves forward; comparing a naive with an aware time raises.\<close>

definition later_of :: "(string \<times> pydt) option \<Rightarrow> (string \<times> pydt) option \<Rightarrow> (string \<times> pydt) option res" where
  "later_of prior parsed =
     (case parsed of
        None \<Rightarrow> Inr prior
      | Some p \<Rightarrow>
          (case prior of
             None \<Rightarrow> Inr (Some p)
           | Some q \<Rightarrow> res_bind (dt_less (snd q) (snd p)) (\<lambda>after. Inr (if after then Some p else Some q))))"

definition with_newline :: "string \<Rightarrow> string" where
  "with_newline l = (if l \<noteq> [] \<and> last l = CHR 0x0A then l else l @ [CHR 0x0A])"

fun relay_stream ::
  "(string \<Rightarrow> event option) \<Rightarrow> relay_state \<Rightarrow> string list \<Rightarrow> relay_act list \<times> relay_state \<times> py_error option" where
  "relay_stream decode st [] = ([], st, None)"
| "relay_stream decode st (l # ls) =
     (case later_of (rl_last st) (line_ts decode l) of
        Inl e \<Rightarrow> ([WriteLine (with_newline l)], st, Some e)
      | Inr last' \<Rightarrow>
          (case relay_stream decode (st\<lparr>rl_last := last', rl_blip := None, rl_attempt := 0\<rparr>) ls of
             (acts, st', e) \<Rightarrow> (WriteLine (with_newline l) # acts, st', e)))"

definition backoff_s :: "nat \<Rightarrow> real" where
  "backoff_s attempt = reconnect_backoff_s ! min (attempt - 1) (length reconnect_backoff_s - 1)"

text \<open>After the end of a stream: the failure is counted, then given up or slept on.\<close>

definition link_down :: "relay_state \<Rightarrow> real \<Rightarrow> relay_state" where
  "link_down st now =
     st\<lparr>rl_blip := Some (case rl_blip st of None \<Rightarrow> now | Some b \<Rightarrow> b), rl_attempt := Suc (rl_attempt st)\<rparr>"

definition down_for :: "relay_state \<Rightarrow> real \<Rightarrow> real" where
  "down_for st now = now - (case rl_blip st of None \<Rightarrow> now | Some b \<Rightarrow> b)"

definition reconnect_sleep_s :: "real \<Rightarrow> nat \<Rightarrow> real \<Rightarrow> real" where
  "reconnect_sleep_s tolerance attempt elapsed = min (backoff_s attempt) (tolerance - elapsed)"

fun relay_loop ::
  "(string \<Rightarrow> event option) \<Rightarrow> relay_setup \<Rightarrow> relay_state \<Rightarrow> relay_conn list \<Rightarrow> relay_act list \<times> relay_end option" where
  "relay_loop decode s st [] = ([], None)"
| "relay_loop decode s st (c # cs) =
     (let spawn = SpawnSsh (remote_argv s (map_option fst (rl_last st))) in
      case relay_stream decode st (rc_lines c) of
        (acts, st1, Some e) \<Rightarrow> (spawn # acts @ [KillSsh], Some (RelayRaised e))
      | (acts, st1, None) \<Rightarrow>
          if rc_interrupted c then (spawn # acts @ [KillSsh], Some (RelayExit 0))
          else
            let st2 = link_down st1 (rc_now c); elapsed = down_for st2 (rc_now c);
                since = map_option fst (rl_last st2) in
            if rr_tolerance_s s \<le> 0 \<or> elapsed \<ge> rr_tolerance_s s
            then (spawn # acts @ [KillSsh, EmitGiveUp (rl_attempt st2) elapsed since], Some (RelayExit 1))
            else
              let sleep_s = reconnect_sleep_s (rr_tolerance_s s) (rl_attempt st2) elapsed;
                  now_acts = spawn # acts @ [KillSsh, EmitBlip (rl_attempt st2) elapsed since sleep_s, SleepFor sleep_s] in
              if rc_sleep_interrupted c then (now_acts, Some (RelayExit 0))
              else (case relay_loop decode s st2 cs of (rest, e) \<Rightarrow> (now_acts @ rest, e)))"

definition relay_start :: relay_state where
  "relay_start = \<lparr>rl_last = None, rl_blip = None, rl_attempt = 0\<rparr>"

definition relay_remote_events ::
  "(string \<Rightarrow> event option) \<Rightarrow> string list \<Rightarrow> relay_setup \<Rightarrow> relay_conn list \<Rightarrow> relay_act list \<times> relay_end option" where
  "relay_remote_events decode known s cs =
     (if rr_host s \<noteq> [] \<and> hd (rr_host s) = CHR ''-'' then ([], Some (RelayRaised (ValueError ''invalid ssh host'')))
      else relay_loop decode (s\<lparr>rr_kinds := (if rr_kinds s = [] then sort known else rr_kinds s)\<rparr>) relay_start cs)"

subsection \<open>Process hygiene\<close>

text \<open>Every ssh is killed before the next one starts, and none is left when the relay has ended.\<close>

fun one_ssh :: "bool \<Rightarrow> relay_act list \<Rightarrow> bool option" where
  "one_ssh up [] = Some up"
| "one_ssh up (SpawnSsh argv # acts) = (if up then None else one_ssh True acts)"
| "one_ssh up (KillSsh # acts) = (if up then one_ssh False acts else None)"
| "one_ssh up (WriteLine l # acts) = (if up then one_ssh up acts else None)"
| "one_ssh up (SleepFor t # acts) = (if up then None else one_ssh up acts)"
| "one_ssh up (a # acts) = one_ssh up acts"

lemma one_ssh_append: "one_ssh up (as @ bs) = Option.bind (one_ssh up as) (\<lambda>u. one_ssh u bs)"
  by (induction up as rule: one_ssh.induct) auto

lemma relay_stream_writes:
  "relay_stream decode st ls = (acts, st', e) \<Longrightarrow> one_ssh True acts = Some True"
proof (induction ls arbitrary: st acts)
  case (Cons l ls)
  then show ?case by (auto split: sum.splits prod.splits)
qed simp

lemma relay_loop_one_ssh: "one_ssh False (fst (relay_loop decode s st cs)) = Some False"
proof (induction cs arbitrary: st)
  case (Cons c cs)
  obtain acts st1 e where r: "relay_stream decode st (rc_lines c) = (acts, st1, e)" by (cases "relay_stream decode st (rc_lines c)")
  have w: "one_ssh True acts = Some True" by (rule relay_stream_writes [OF r])
  show ?case
  proof (cases e)
    case (Some x)
    then show ?thesis by (simp add: r Let_def one_ssh_append w)
  next
    case None
    then show ?thesis using Cons.IH
      by (simp add: r Let_def one_ssh_append w split: prod.split) (metis fst_conv)
  qed
qed simp

text \<open>At every moment of a run at most one ssh is alive, lines are written only from a live one, the relay never sleeps on one, and when the run has ended, whether by interrupt, give-up or exception, none is left.\<close>

theorem relay_keeps_one_ssh:
  "one_ssh False (fst (relay_remote_events decode known s cs)) = Some False"
  by (simp add: relay_remote_events_def relay_loop_one_ssh)

text \<open>The host never stands where ssh would read an option.\<close>

definition argv_safe :: "string \<Rightarrow> relay_act \<Rightarrow> bool" where
  "argv_safe host a =
     (case a of
        SpawnSsh argv \<Rightarrow> take 3 argv = [''ssh'', host, ''--''] \<and> (host = [] \<or> hd host \<noteq> CHR ''-'')
      | _ \<Rightarrow> True)"

lemma relay_stream_argv: "list_all (argv_safe host) (fst (relay_stream decode st ls))"
proof (induction ls arbitrary: st)
  case (Cons l ls)
  show ?case
  proof (cases "later_of (rl_last st) (line_ts decode l)")
    case (Inr last')
    then show ?thesis using Cons.IH [of "st\<lparr>rl_last := last', rl_blip := None, rl_attempt := 0\<rparr>"]
      by (auto simp: argv_safe_def split: prod.splits)
  qed (simp add: argv_safe_def)
qed simp

lemma relay_loop_argv:
  "rr_host s = [] \<or> hd (rr_host s) \<noteq> CHR ''-'' \<Longrightarrow> list_all (argv_safe (rr_host s)) (fst (relay_loop decode s st cs))"
proof (induction cs arbitrary: st)
  case (Cons c cs)
  obtain acts st1 e where r: "relay_stream decode st (rc_lines c) = (acts, st1, e)" by (cases "relay_stream decode st (rc_lines c)")
  have w: "list_all (argv_safe (rr_host s)) acts" using relay_stream_argv [of "rr_host s" decode st "rc_lines c"] r by simp
  have a: "argv_safe (rr_host s) (SpawnSsh (remote_argv s since))" for since
    using Cons.prems by (simp add: argv_safe_def remote_argv_def)
  have o: "argv_safe h KillSsh" "argv_safe h (EmitGiveUp n t z)" "argv_safe h (EmitBlip n t z u)" "argv_safe h (SleepFor t)" for h n t z u
    by (simp_all add: argv_safe_def)
  show ?case
  proof (cases e)
    case (Some x)
    then show ?thesis by (simp add: r Let_def w a o)
  next
    case None
    then show ?thesis using Cons.IH [OF Cons.prems]
      by (simp add: r Let_def w a o split: prod.split) (metis fst_conv)
  qed
qed simp

subsection \<open>Resuming loses nothing that follows the first relayed line\<close>

text \<open>
  The remote's log as the events command prints it: every line has an aware timestamp and the
  timestamps never fall. A connection without a resume point starts at \<open>fresh\<close>, where the log ended
  then; one with a resume point starts at the first line at or after it (property
  \<open>since_tail_loses_nothing\<close> of theory \<open>Event\_Query\<close>). The link may fail after any number of lines.
\<close>

definition line_instant :: "(string \<Rightarrow> event option) \<Rightarrow> string \<Rightarrow> int" where
  "line_instant decode l = (case line_ts decode l of Some (raw, Aware t) \<Rightarrow> t | _ \<Rightarrow> 0)"

definition log_timed :: "(string \<Rightarrow> event option) \<Rightarrow> string list \<Rightarrow> bool" where
  "log_timed decode ls \<longleftrightarrow>
     list_all (\<lambda>l. \<exists>raw t. line_ts decode l = Some (raw, Aware t)) ls \<and> sorted (map (line_instant decode) ls)"

definition resume_index :: "(string \<Rightarrow> event option) \<Rightarrow> string list \<Rightarrow> nat \<Rightarrow> relay_state \<Rightarrow> nat" where
  "resume_index decode ls fresh st =
     (case rl_last st of
        Some (raw, Aware t) \<Rightarrow> length (takeWhile (\<lambda>l. line_instant decode l < t) ls)
      | _ \<Rightarrow> fresh)"

definition after_conn :: "(string \<Rightarrow> event option) \<Rightarrow> relay_state \<Rightarrow> relay_conn \<Rightarrow> relay_state" where
  "after_conn decode st c = link_down (fst (snd (relay_stream decode st (rc_lines c)))) (rc_now c)"

fun remote_answers :: "(string \<Rightarrow> event option) \<Rightarrow> string list \<Rightarrow> nat \<Rightarrow> relay_state \<Rightarrow> relay_conn list \<Rightarrow> bool" where
  "remote_answers decode ls fresh st [] \<longleftrightarrow> True"
| "remote_answers decode ls fresh st (c # cs) \<longleftrightarrow>
     (\<exists>n. rc_lines c = take n (drop (resume_index decode ls fresh st) ls))
     \<and> remote_answers decode ls fresh (after_conn decode st c) cs"

definition written :: "relay_act list \<Rightarrow> string list" where
  "written acts = concat (map (\<lambda>a. case a of WriteLine l \<Rightarrow> [l] | _ \<Rightarrow> []) acts)"

lemma written_simps [simp]:
  "written [] = []" "written (WriteLine l # as) = l # written as" "written (SpawnSsh v # as) = written as"
  "written (KillSsh # as) = written as" "written (EmitBlip n t z u # as) = written as"
  "written (EmitGiveUp n t z # as) = written as" "written (SleepFor t # as) = written as"
  "written (as @ bs) = written as @ written bs"
  by (simp_all add: written_def)

lemma relay_stream_written:
  "relay_stream decode st ls = (acts, st', None) \<Longrightarrow> written acts = map with_newline ls"
proof (induction ls arbitrary: st acts)
  case (Cons l ls)
  then show ?case by (auto split: sum.splits prod.splits)
qed simp

lemma relay_loop_written:
  "relay_loop decode s st cs = (acts, None) \<Longrightarrow> written acts = map with_newline (concat (map rc_lines cs))"
proof (induction cs arbitrary: st acts)
  case (Cons c cs)
  obtain as1 st1 where r: "relay_stream decode st (rc_lines c) = (as1, st1, None)"
    using Cons.prems by (auto simp: Let_def split: prod.splits option.splits)
  obtain rest where "relay_loop decode s (link_down st1 (rc_now c)) cs = (rest, None)"
    "acts = SpawnSsh (remote_argv s (map_option fst (rl_last st))) # as1 @ [KillSsh,
       EmitBlip (rl_attempt (link_down st1 (rc_now c))) (down_for (link_down st1 (rc_now c)) (rc_now c)) (map_option fst (rl_last (link_down st1 (rc_now c))))
         (reconnect_sleep_s (rr_tolerance_s s) (rl_attempt (link_down st1 (rc_now c))) (down_for (link_down st1 (rc_now c)) (rc_now c))),
       SleepFor (reconnect_sleep_s (rr_tolerance_s s) (rl_attempt (link_down st1 (rc_now c))) (down_for (link_down st1 (rc_now c)) (rc_now c)))] @ rest"
    using Cons.prems by (auto simp: r Let_def split: prod.splits if_splits)
  then show ?case using Cons.IH relay_stream_written [OF r] by simp
qed simp

text \<open>The resume point of a stream is the greatest of the old one and the instants of its lines.\<close>

lemma relay_stream_last:
  assumes "list_all (\<lambda>l. \<exists>raw t. line_ts decode l = Some (raw, Aware t)) ls" "rl_last st = Some (raw0, Aware t0)"
  shows "\<exists>raw. rl_last (fst (snd (relay_stream decode st ls))) = Some (raw, Aware (foldl max t0 (map (line_instant decode) ls)))"
  using assms
proof (induction ls arbitrary: st raw0 t0)
  case (Cons l ls)
  obtain raw t where l: "line_ts decode l = Some (raw, Aware t)" using Cons.prems(1) by auto
  have i: "line_instant decode l = t" by (simp add: line_instant_def l)
  let ?st = "st\<lparr>rl_last := Some (if t0 < t then (raw, Aware t) else (raw0, Aware t0)), rl_blip := None, rl_attempt := 0\<rparr>"
  have lo: "later_of (rl_last st) (line_ts decode l) = Inr (Some (if t0 < t then (raw, Aware t) else (raw0, Aware t0)))"
    using Cons.prems(2) l by (simp add: later_of_def)
  have "fst (snd (relay_stream decode st (l # ls))) = fst (snd (relay_stream decode ?st ls))"
    by (simp add: lo split: prod.split)
  moreover have "rl_last ?st = Some (if t0 < t then raw else raw0, Aware (max t0 t))" by simp
  ultimately show ?case using Cons.IH [of ?st _ "max t0 t"] Cons.prems(1) i by simp
qed simp

lemma foldl_max_sorted: "sorted (xs :: int list) \<Longrightarrow> xs \<noteq> [] \<Longrightarrow> foldl max t xs = max t (last xs)"
proof (induction xs arbitrary: t)
  case (Cons x xs)
  show ?case
  proof (cases "xs = []")
    case False
    then have "x \<le> last xs" using Cons.prems(1) by simp
    then have "max (max t x) (last xs) = max t (last xs)" by simp
    then show ?thesis using Cons False by simp
  qed simp
qed simp

text \<open>Everything from \<open>fresh\<close> to \<open>hi\<close> is relayed, and the resume point is the instant of the last of it.\<close>

definition relayed_to :: "(string \<Rightarrow> event option) \<Rightarrow> string list \<Rightarrow> nat \<Rightarrow> nat \<Rightarrow> relay_state \<Rightarrow> string set \<Rightarrow> bool" where
  "relayed_to decode ls fresh hi st seen \<longleftrightarrow>
     fresh < hi \<and> hi \<le> length ls \<and> set (take (hi - fresh) (drop fresh ls)) \<subseteq> seen
     \<and> (\<exists>raw. rl_last st = Some (raw, Aware (line_instant decode (ls ! (hi - 1)))))"

lemma takeWhile_index_le: "hi \<le> length ls \<Longrightarrow> 0 < hi \<Longrightarrow> \<not> P (ls ! (hi - 1)) \<Longrightarrow> length (takeWhile P ls) < hi"
proof (rule ccontr)
  assume "hi \<le> length ls" "0 < hi" "\<not> P (ls ! (hi - 1))" "\<not> length (takeWhile P ls) < hi"
  then have "ls ! (hi - 1) = takeWhile P ls ! (hi - 1)" "hi - 1 < length (takeWhile P ls)"
    by (auto simp: takeWhile_nth)
  then have "P (ls ! (hi - 1))" by (metis nth_mem set_takeWhileD)
  then show False using \<open>\<not> P (ls ! (hi - 1))\<close> by simp
qed

lemma resume_before_end:
  "relayed_to decode ls fresh hi st seen \<Longrightarrow> resume_index decode ls fresh st < hi"
  by (auto simp: relayed_to_def resume_index_def intro!: takeWhile_index_le)

lemma set_take_drop_union:
  assumes "j \<le> h" "h \<le> k"
  shows "set (take (h - f) (drop f ls)) \<union> set (take (k - j) (drop j ls)) \<supseteq> set (take (k - f) (drop f ls))"
proof
  fix x assume "x \<in> set (take (k - f) (drop f ls))"
  then obtain i where i: "i < length (take (k - f) (drop f ls))" "take (k - f) (drop f ls) ! i = x" by (metis in_set_conv_nth)
  then have i1: "f + i < k" "f + i < length ls" "x = ls ! (f + i)" by auto
  show "x \<in> set (take (h - f) (drop f ls)) \<union> set (take (k - j) (drop j ls))"
  proof (cases "f + i < h")
    case True
    then have "i < length (take (h - f) (drop f ls)) \<and> take (h - f) (drop f ls) ! i = x" using i1 by auto
    then show ?thesis by (metis UnI1 nth_mem)
  next
    case False
    then have "f + i - j < length (take (k - j) (drop j ls)) \<and> take (k - j) (drop j ls) ! (f + i - j) = x" using i1 assms by auto
    then show ?thesis by (metis UnI2 nth_mem)
  qed
qed

lemma relayed_step:
  assumes timed: "log_timed decode ls" and inv: "relayed_to decode ls fresh hi st seen"
    and answer: "rc_lines c = take n (drop (resume_index decode ls fresh st) ls)"
  shows "\<exists>hi' \<ge> hi. relayed_to decode ls fresh hi' (after_conn decode st c) (seen \<union> set (rc_lines c))"
proof -
  let ?j = "resume_index decode ls fresh st" and ?ls = "rc_lines c"
  have j: "?j < hi" by (rule resume_before_end [OF inv])
  obtain raw where last: "rl_last st = Some (raw, Aware (line_instant decode (ls ! (hi - 1))))"
    and h: "fresh < hi" "hi \<le> length ls" "set (take (hi - fresh) (drop fresh ls)) \<subseteq> seen"
    using inv by (auto simp: relayed_to_def)
  have all: "list_all (\<lambda>l. \<exists>raw t. line_ts decode l = Some (raw, Aware t)) ?ls"
    using timed by (auto simp: log_timed_def list_all_iff answer dest!: in_set_takeD in_set_dropD)
  have srt: "sorted (map (line_instant decode) ls)" using timed by (simp add: log_timed_def)
  obtain raw' where new: "rl_last (after_conn decode st c) =
      Some (raw', Aware (foldl max (line_instant decode (ls ! (hi - 1))) (map (line_instant decode) ?ls)))"
    using relay_stream_last [OF all last] by (auto simp: after_conn_def link_down_def)
  show ?thesis
  proof (cases "?ls = []")
    case True
    then have "relayed_to decode ls fresh hi (after_conn decode st c) (seen \<union> set ?ls)"
      using new h by (auto simp: relayed_to_def)
    then show ?thesis by blast
  next
    case False
    let ?c = "length ?ls"
    have "?ls = take ?c (drop ?j ls)" using answer by (metis append_eq_conv_conj append_take_drop_id)
    moreover have "?j + ?c \<le> length ls" "0 < ?c" using answer False by auto
    ultimately have c: "?ls = take ?c (drop ?j ls)" "?j + ?c \<le> length ls" "0 < ?c" by auto
    let ?hi = "max hi (?j + ?c)"
    have "last ?ls = ?ls ! (?c - 1)" using False by (simp add: last_conv_nth)
    also have "\<dots> = take ?c (drop ?j ls) ! (?c - 1)" using c(1) by simp
    also have "\<dots> = ls ! (?j + (?c - 1))" using c(2,3) by simp
    also have "?j + (?c - 1) = ?j + ?c - 1" using c(3) by (simp only: Nat.add_diff_assoc Suc_leI One_nat_def)
    finally have lst: "last ?ls = ls ! (?j + ?c - 1)" .
    have sl: "sorted (map (line_instant decode) ?ls)"
      using srt c(1) by (metis sorted_wrt_take sorted_wrt_drop take_map drop_map)
    have mono: "line_instant decode (ls ! a) \<le> line_instant decode (ls ! b)" if "a \<le> b" "b < length ls" for a b
      using sorted_nth_mono [OF srt, of a b] that by simp
    have "foldl max (line_instant decode (ls ! (hi - 1))) (map (line_instant decode) ?ls)
        = max (line_instant decode (ls ! (hi - 1))) (line_instant decode (ls ! (?j + ?c - 1)))"
      using foldl_max_sorted [OF sl] False lst by (simp add: last_map)
    also have "\<dots> = line_instant decode (ls ! (?hi - 1))"
    proof (cases "hi \<le> ?j + ?c")
      case True
      then have "line_instant decode (ls ! (hi - 1)) \<le> line_instant decode (ls ! (?j + ?c - 1))"
        by (intro mono) (use c(2,3) True in linarith)+
      then show ?thesis using True by (simp add: max_def)
    next
      case False
      then have "line_instant decode (ls ! (?j + ?c - 1)) \<le> line_instant decode (ls ! (hi - 1))"
        using h by (intro mono) auto
      then show ?thesis using False by (simp add: max_def)
    qed
    finally have inst: "rl_last (after_conn decode st c) = Some (raw', Aware (line_instant decode (ls ! (?hi - 1))))" using new by simp
    have "set (take (?hi - fresh) (drop fresh ls)) \<subseteq> seen \<union> set ?ls"
    proof (cases "hi \<le> ?j + ?c")
      case True
      have "set (take (?j + ?c - fresh) (drop fresh ls)) \<subseteq>
          set (take (hi - fresh) (drop fresh ls)) \<union> set (take (?j + ?c - ?j) (drop ?j ls))"
        using set_take_drop_union [of ?j hi "?j + ?c" fresh ls] True j by simp
      then show ?thesis using True h(3) c(1) by (auto simp: max_def)
    next
      case False
      then show ?thesis using h(3) by (auto simp: max_def)
    qed
    then have "relayed_to decode ls fresh ?hi (after_conn decode st c) (seen \<union> set ?ls)"
      using inst h c(2) by (auto simp: relayed_to_def)
    then show ?thesis by (meson max.cobounded1)
  qed
qed

definition after_conns :: "(string \<Rightarrow> event option) \<Rightarrow> relay_state \<Rightarrow> relay_conn list \<Rightarrow> relay_state" where
  "after_conns decode st cs = fold (\<lambda>c st. after_conn decode st c) cs st"

lemma relayed_run:
  "log_timed decode ls \<Longrightarrow> relayed_to decode ls fresh hi st seen \<Longrightarrow> remote_answers decode ls fresh st cs
     \<Longrightarrow> \<exists>hi'. relayed_to decode ls fresh hi' (after_conns decode st cs) (seen \<union> set (concat (map rc_lines cs)))"
proof (induction cs arbitrary: st hi seen)
  case (Cons c cs)
  obtain n where "rc_lines c = take n (drop (resume_index decode ls fresh st) ls)" using Cons.prems(3) by auto
  then obtain hi' where "relayed_to decode ls fresh hi' (after_conn decode st c) (seen \<union> set (rc_lines c))"
    using relayed_step [OF Cons.prems(1,2)] by blast
  then obtain hi2 where "relayed_to decode ls fresh hi2 (after_conns decode (after_conn decode st c) cs)
      (seen \<union> set (rc_lines c) \<union> set (concat (map rc_lines cs)))"
    using Cons.IH [OF Cons.prems(1)] Cons.prems(3) by fastforce
  then show ?case by (auto simp: after_conns_def Un_assoc)
qed (auto simp: after_conns_def)

lemma relayed_first:
  assumes timed: "log_timed decode ls" and c: "rc_lines c = take (Suc n) (drop fresh ls)" "fresh < length ls"
  shows "\<exists>hi. relayed_to decode ls fresh hi (after_conn decode relay_start c) (set (rc_lines c))"
proof -
  obtain raw t where l: "line_ts decode (ls ! fresh) = Some (raw, Aware t)"
    using timed c(2) by (auto simp: log_timed_def list_all_length)
  have i: "line_instant decode (ls ! fresh) = t" by (simp add: line_instant_def l)
  let ?rest = "take n (drop (Suc fresh) ls)"
  let ?st = "relay_start\<lparr>rl_last := Some (raw, Aware t), rl_blip := None, rl_attempt := 0\<rparr>"
  have ls: "rc_lines c = ls ! fresh # ?rest" using c by (simp add: Cons_nth_drop_Suc [symmetric])
  let ?c = "c\<lparr>rc_lines := ?rest\<rparr>"
  have same: "after_conn decode relay_start c = after_conn decode ?st ?c"
    by (simp add: after_conn_def ls later_of_def l relay_start_def split: prod.split)
  have inv: "relayed_to decode ls fresh (Suc fresh) ?st {ls ! fresh}"
    using c(2) i by (simp add: relayed_to_def take_Suc_conv_app_nth [of 0, simplified])
  have sorted_from: "line_instant decode (ls ! k) \<le> line_instant decode (ls ! m)" if "k \<le> m" "m < length ls" for k m
    using timed that sorted_nth_mono [of "map (line_instant decode) ls" k m] by (simp add: log_timed_def)
  have j: "resume_index decode ls fresh ?st \<le> fresh"
    using resume_before_end [OF inv] by simp
  show ?thesis
  proof (cases "n = 0")
    case True
    then have "after_conn decode ?st ?c = link_down ?st (rc_now c)" by (simp add: after_conn_def)
    then have "relayed_to decode ls fresh (Suc fresh) (after_conn decode relay_start c) (set (rc_lines c))"
      using inv same ls True by (simp add: relayed_to_def link_down_def)
    then show ?thesis by blast
  next
    case False
    have all: "list_all (\<lambda>l. \<exists>raw t. line_ts decode l = Some (raw, Aware t)) ?rest"
      using timed by (auto simp: log_timed_def list_all_iff dest!: in_set_takeD in_set_dropD)
    obtain raw' where new: "rl_last (after_conn decode ?st ?c) = Some (raw', Aware (foldl max t (map (line_instant decode) ?rest)))"
      using relay_stream_last [OF all, of ?st raw t] by (auto simp: after_conn_def link_down_def)
    have srt: "sorted (map (line_instant decode) ?rest)"
      using timed unfolding log_timed_def by (metis sorted_wrt_take sorted_wrt_drop take_map drop_map)
    define hi where "hi = Suc fresh + length ?rest"
    have hi: "hi - 1 = fresh + length ?rest" "hi \<le> length ls" using c(2) by (auto simp: hi_def)
    have "foldl max t (map (line_instant decode) ?rest) = line_instant decode (ls ! (hi - 1))"
    proof (cases "?rest = []")
      case True
      then have "length ?rest = 0" by (simp only: list.size)
      then have "hi - 1 = fresh" using hi by linarith
      then show ?thesis using i True by (simp only: list.map foldl.simps)
    next
      case ne: False
      have pos: "0 < length ?rest" using ne unfolding length_greater_0_conv .
      have "last ?rest = ?rest ! (length ?rest - 1)" using ne by (rule last_conv_nth)
      also have "\<dots> = drop (Suc fresh) ls ! (length ?rest - 1)"
      proof (rule nth_take)
        have "length ?rest \<le> n" by simp
        then show "length ?rest - 1 < n" using pos by linarith
      qed
      also have "\<dots> = ls ! (Suc fresh + (length ?rest - 1))" using c(2) by (intro nth_drop) simp
      also have "Suc fresh + (length ?rest - 1) = hi - 1" using pos hi by linarith
      finally have lst: "last ?rest = ls ! (hi - 1)" .
      have "t \<le> line_instant decode (ls ! (hi - 1))"
        using sorted_from [of fresh "hi - 1"] i hi pos by linarith
      then show ?thesis using foldl_max_sorted [OF srt] ne lst by (simp add: last_map)
    qed
    moreover have "set (take (hi - fresh) (drop fresh ls)) \<subseteq> set (rc_lines c)"
    proof -
      have "rc_lines c = take (length (rc_lines c)) (drop fresh ls)"
        using c(1) by (metis append_eq_conv_conj append_take_drop_id)
      moreover have "hi - fresh = length (rc_lines c)" unfolding ls hi_def by simp
      ultimately show ?thesis by simp
    qed
    ultimately have "relayed_to decode ls fresh hi (after_conn decode relay_start c) (set (rc_lines c))"
      using new same hi by (auto simp: relayed_to_def hi_def)
    then show ?thesis by blast
  qed
qed


subsection \<open>A dead link is given up\<close>

fun link_ticks :: "real \<Rightarrow> relay_conn list \<Rightarrow> bool" where
  "link_ticks due (c # c' # cs) \<longleftrightarrow> rc_now c + min 1 (due - rc_now c) \<le> rc_now c' \<and> link_ticks due (c' # cs)"
| "link_ticks due cs \<longleftrightarrow> True"

definition silent_conn :: "relay_conn \<Rightarrow> bool" where
  "silent_conn c \<longleftrightarrow> rc_lines c = [] \<and> \<not> rc_interrupted c \<and> \<not> rc_sleep_interrupted c"

lemma silent_step:
  "silent_conn c \<Longrightarrow> \<not> rr_tolerance_s s \<le> 0 \<Longrightarrow> \<not> rr_tolerance_s s \<le> down_for (link_down st (rc_now c)) (rc_now c)
     \<Longrightarrow> snd (relay_loop decode s st (c # cs)) = snd (relay_loop decode s (link_down st (rc_now c)) cs)"
  by (simp add: silent_conn_def Let_def split: prod.split)

lemma silent_ends:
  assumes "rl_blip st = Some b" "list_all silent_conn (c # cs)" "link_ticks (b + rr_tolerance_s s) (c # cs)"
    "b + rr_tolerance_s s - rc_now c \<le> real (length cs)"
  shows "snd (relay_loop decode s st (c # cs)) = Some (RelayExit 1)"
  using assms
proof (induction cs arbitrary: st c)
  case Nil
  then show ?case by (simp add: silent_conn_def Let_def link_down_def down_for_def)
next
  case (Cons c' cs)
  let ?tol = "rr_tolerance_s s"
  let ?st = "link_down st (rc_now c)"
  have q: "rc_lines c = []" "\<not> rc_interrupted c" "\<not> rc_sleep_interrupted c" using Cons.prems(2) by (auto simp: silent_conn_def)
  have b: "rl_blip ?st = Some b" "down_for ?st (rc_now c) = rc_now c - b"
    using Cons.prems(1) by (auto simp: link_down_def down_for_def)
  show ?case
  proof (cases "?tol \<le> 0 \<or> rc_now c - b \<ge> ?tol")
    case True
    then show ?thesis using q b by (auto simp: Let_def)
  next
    case False
    have tick: "rc_now c + min 1 (b + ?tol - rc_now c) \<le> rc_now c'" "link_ticks (b + ?tol) (c' # cs)" using Cons.prems(3) by auto
    have rem: "b + ?tol - rc_now c' \<le> real (length cs)"
      using tick(1) Cons.prems(4) by (auto simp: min_def split: if_splits)
    have "snd (relay_loop decode s ?st (c' # cs)) = Some (RelayExit 1)"
      by (rule Cons.IH [OF b(1) _ tick(2) rem]) (use Cons.prems(2) in simp)
    then show ?thesis using silent_step [of c s st decode "c' # cs"] q b False by (simp add: silent_conn_def)
  qed
qed

text \<open>A link that stays silent is given up with exit code 1 after at most one connection per second of the tolerance, plus one, if the clock advances by at least one second or the rest of the tolerance from each failure to the next.\<close>

theorem dead_link_given_up:
  assumes "rl_blip st = None" "list_all silent_conn (c # cs)" "link_ticks (rc_now c + rr_tolerance_s s) (c # cs)"
    "rr_tolerance_s s \<le> real (length cs)"
  shows "snd (relay_loop decode s st (c # cs)) = Some (RelayExit 1)"
proof -
  have "relay_loop decode s st (c # cs) = relay_loop decode s (st\<lparr>rl_blip := Some (rc_now c)\<rparr>) (c # cs)"
    using assms(1,2) by (simp add: silent_conn_def link_down_def Let_def)
  then show ?thesis using silent_ends [of "st\<lparr>rl_blip := Some (rc_now c)\<rparr>" "rc_now c" c cs s decode] assms by simp
qed

subsection \<open>Examples\<close>

definition example_remote_line :: "string \<Rightarrow> event option" where
  "example_remote_line l =
     (if l = ''a'' then Some [''ts'' \<mapsto> PStr ''2026-01-01T00:00:01Z'']
      else if l = ''b'' then Some [''ts'' \<mapsto> PStr ''2026-01-01T00:00:02Z'']
      else if l = ''n'' then Some [''ts'' \<mapsto> PStr ''2026-01-01T00:00:03'']
      else None)"

definition example_conn :: "string list \<Rightarrow> real \<Rightarrow> relay_conn" where
  "example_conn ls now =
     \<lparr>rc_lines = ls, rc_interrupted = False, rc_returncode = 255, rc_error = [], rc_now = now, rc_sleep_interrupted = False\<rparr>"

definition example_setup :: relay_setup where
  "example_setup = \<lparr>rr_host = ''h'', rr_kinds = [''round_end''], rr_config = None, rr_tolerance_s = 2\<rparr>"

lemma example_ts:
  "line_ts example_remote_line ''a'' = Some (''2026-01-01T00:00:01Z'', Aware 1767225601000000)"
  "line_ts example_remote_line ''b'' = Some (''2026-01-01T00:00:02Z'', Aware 1767225602000000)"
  "line_ts example_remote_line ''n'' = Some (''2026-01-01T00:00:03'', Naive 1767225603000000)"
  by code_simp+

lemma example_instants:
  "line_instant example_remote_line ''a'' = 1767225601000000" "line_instant example_remote_line ''b'' = 1767225602000000"
  by (simp_all add: line_instant_def example_ts)

lemma example_stream_a:
  "rl_last st = None \<or> rl_last st = Some (''2026-01-01T00:00:01Z'', Aware 1767225601000000) \<Longrightarrow>
     relay_stream example_remote_line st [''a''] =
       ([WriteLine (with_newline ''a'')],
        st\<lparr>rl_last := Some (''2026-01-01T00:00:01Z'', Aware 1767225601000000), rl_blip := None, rl_attempt := 0\<rparr>, None)"
  by (auto simp: later_of_def example_ts)

lemma example_stream_ab:
  "rl_last st = Some (''2026-01-01T00:00:01Z'', Aware 1767225601000000) \<Longrightarrow>
     relay_stream example_remote_line st [''a'', ''b''] =
       ([WriteLine (with_newline ''a''), WriteLine (with_newline ''b'')],
        st\<lparr>rl_last := Some (''2026-01-01T00:00:02Z'', Aware 1767225602000000), rl_blip := None, rl_attempt := 0\<rparr>, None)"
  by (auto simp: later_of_def example_ts)


text \<open>
  A link that relayed nothing yet has no resume point: the reconnection starts from now again, and
  what was written while it was down is skipped.
\<close>

lemma quiet_link_restarts_from_now:
  "filter (\<lambda>a. case a of SpawnSsh v \<Rightarrow> True | _ \<Rightarrow> False)
     (fst (relay_loop example_remote_line example_setup relay_start [example_conn [] 0, example_conn [''b''] 1])) =
   [SpawnSsh (remote_argv example_setup None), SpawnSsh (remote_argv example_setup None)]"
  by (simp add: example_conn_def example_setup_def relay_start_def link_down_def down_for_def Let_def later_of_def example_ts)

text \<open>A timestamp without a zone after one with a zone ends the relay with a traceback.\<close>

lemma mixed_zones_end_relay:
  "snd (relay_loop example_remote_line example_setup relay_start [example_conn [''a'', ''n''] 0]) = Some (RelayRaised TypeError)"
  by (simp add: example_conn_def relay_start_def Let_def later_of_def example_ts)

lemma dead_link_given_up_witness:
  "snd (relay_loop example_remote_line example_setup relay_start [example_conn [] 0, example_conn [] 1, example_conn [] 2]) = Some (RelayExit 1)"
  by (rule dead_link_given_up) (simp_all add: relay_start_def silent_conn_def example_conn_def example_setup_def)

text \<open>An option in the place of the host is refused before anything runs.\<close>

text \<open>Every ssh is started with the host as its own argument before the double dash and never with a host that ssh would read as an option; such a host is refused before anything runs.\<close>

theorem relay_host_is_no_option:
  "list_all (argv_safe (rr_host s)) (fst (relay_remote_events decode known s cs))"
  using relay_loop_argv [of "s\<lparr>rr_kinds := (if rr_kinds s = [] then sort known else rr_kinds s)\<rparr>" decode relay_start cs]
  by (auto simp: relay_remote_events_def)

end
