(* ===== verification/Views.thy ===== *)
theory Views
  imports Monitor Prompt Context_Store Text_Lines
begin

section \<open>What people watch (http\_progress.py, round\_view.py and the views of \_observe.py)\<close>

text \<open>
  The local progress page: what it collects from the log directory, the page made of it and the
  answer to a request; the line the narration prints for an event; the parts of a peek that select
  events, and the view of one round. A string on the page is its UTF-8 text, byte for byte. The
  order of an event's keys, the text of a reset moment and the JSON encoder are parameters.
\<close>

subsection \<open>Escaping\<close>

text \<open>\<open>html.escape(s)\<close> with its default \<open>quote=True\<close>.\<close>

definition escape_char :: "char \<Rightarrow> string" where
  "escape_char c =
     (if c = CHR ''&'' then ''&amp;'' else if c = CHR ''<'' then ''&lt;''
      else if c = CHR ''>'' then ''&gt;'' else if c = CHR 0x22 then ''&quot;''
      else if c = CHR 0x27 then ''&#x27;'' else [c])"

definition html_escape :: "string \<Rightarrow> string" where
  "html_escape s = concat (map escape_char s)"

subsection \<open>The state of the page\<close>

record round_section =
  sec_round_num :: pyval
  sec_phase :: pyval
  sec_running :: pyval
  sec_last_outcome :: pyval
  sec_last_duration_s :: pyval
  sec_last_completed_at :: pyval

text \<open>\<open>_round_state\<close>; a key left out reads as None.\<close>

definition round_section_of :: "status option \<Rightarrow> round_section" where
  "round_section_of st =
     (case st of
        None \<Rightarrow> \<lparr>sec_round_num = PInt 0, sec_phase = PNone, sec_running = PBool False, sec_last_outcome = PNone,
                 sec_last_duration_s = PNone, sec_last_completed_at = PNone\<rparr>
      | Some s \<Rightarrow>
          \<lparr>sec_round_num = PInt (st_round_num s), sec_phase = st_current_phase s, sec_running = st_running s,
           sec_last_outcome = PStr (if pv_real (st_last_exit_code s) = Some 0 then ''ok'' else ''failed''),
           sec_last_duration_s = st_last_duration_s s, sec_last_completed_at = st_last_completed_at s\<rparr>)"

text \<open>A file read as text: its carriage returns become line feeds, a line ends behind one.\<close>

fun universal_newlines :: "string \<Rightarrow> string" where
  "universal_newlines [] = []"
| "universal_newlines [c] = [if c = CHR 0x0D then line_feed else c]"
| "universal_newlines (c # d # cs) =
     (if c \<noteq> CHR 0x0D then c # universal_newlines (d # cs)
      else line_feed # universal_newlines (if d = line_feed then cs else d # cs))"

fun file_lines :: "string \<Rightarrow> string list" where
  "file_lines [] = []"
| "file_lines (c # cs) =
     (if c = line_feed then [c] # file_lines cs
      else (case file_lines cs of [] \<Rightarrow> [[c]] | l # ls \<Rightarrow> (c # l) # ls))"

definition last_n :: "nat \<Rightarrow> 'a list \<Rightarrow> 'a list" where
  "last_n n xs = drop (length xs - n) xs"

text \<open>\<open>_read_tail\<close>: the last lines of a file, nothing where it cannot be opened or read.\<close>

definition read_tail :: "nat \<Rightarrow> string option \<Rightarrow> string" where
  "read_tail n file =
     (case file of None \<Rightarrow> [] | Some s \<Rightarrow> concat (last_n n (file_lines (universal_newlines s))))"

definition recent_events :: "log_dir \<Rightarrow> nat \<Rightarrow> event list" where
  "recent_events logd n = last_n n (scan logd (\<lambda>l. newest_month_files l 3))"

record rate_limit_section =
  rl_until :: string
  rl_type :: string
  rl_since :: int
  rl_phase :: string

definition rate_limit_state :: "(int \<Rightarrow> string option) \<Rightarrow> log_dir \<Rightarrow> real \<Rightarrow> rate_limit_section option" where
  "rate_limit_state safe_iso logd now =
     map_option (\<lambda>t. \<lparr>rl_until = (case safe_iso (ts_reset_at_epoch t) of Some d \<Rightarrow> d | None \<Rightarrow> ''unknown''),
                      rl_type = ts_classification t, rl_since = ts_since_round t, rl_phase = ts_phase t\<rparr>)
       (fst (effective_throttle_view logd now))"

record page_state =
  pg_round :: round_section
  pg_narrative :: string
  pg_events :: "event list"
  pg_log_tail :: string
  pg_done :: "string option"
  pg_rate_limit :: "rate_limit_section option"

text \<open>What the log directory holds for the page.\<close>

record page_files =
  pf_status :: "json_doc option"
  pf_narrative :: "string option"
  pf_round_log :: "string option"
  pf_sentinel :: file_read
  pf_log :: log_dir

definition build_state :: "(int \<Rightarrow> string option) \<Rightarrow> page_files \<Rightarrow> real \<Rightarrow> page_state res" where
  "build_state safe_iso files now =
     res_bind (read_sentinel_content (pf_sentinel files)) (\<lambda>reason.
       Inr \<lparr>pg_round = round_section_of (read_status (pf_status files)),
            pg_narrative = read_tail 50 (pf_narrative files),
            pg_events = recent_events (pf_log files) 20,
            pg_log_tail = read_tail 50 (pf_round_log files),
            pg_done = reason,
            pg_rate_limit = rate_limit_state safe_iso (pf_log files) now\<rparr>)"

subsection \<open>The page\<close>

text \<open>\<open>ts[11:23] if len(ts) > 23 else ts\<close>; \<open>clip\<close> does it to a list or object.\<close>

definition time_part :: "(string \<Rightarrow> pyval res) \<Rightarrow> pyval \<Rightarrow> pyval res" where
  "time_part clip ts =
     (case ts of
        PStr s \<Rightarrow> Inr (PStr (if length s > 23 then take 12 (drop 11 s) else s))
      | PCompound r \<Rightarrow> clip r
      | _ \<Rightarrow> Inl TypeError)"

definition pad_right :: "nat \<Rightarrow> string \<Rightarrow> string" where
  "pad_right n s = s @ replicate (n - length s) CHR '' ''"

text \<open>\<open>f"{v:<25}"\<close>: a bool is formatted as an int, None and containers refuse the format.\<close>

definition format_left :: "nat \<Rightarrow> pyval \<Rightarrow> string res" where
  "format_left n v =
     (case v of
        PNone \<Rightarrow> Inl TypeError
      | PCompound r \<Rightarrow> Inl TypeError
      | PBool b \<Rightarrow> Inr (pad_right n (if b then ''1'' else ''0''))
      | _ \<Rightarrow> Inr (pad_right n (py_str v)))"

text \<open>\<open>items\<close> is the event as its line has it, the keys in their order.\<close>

definition key_values :: "(string \<Rightarrow> string) \<Rightarrow> (string \<times> pyval) list \<Rightarrow> string" where
  "key_values rename items =
     join '' '' (map (\<lambda>(k, v). rename k @ ''='' @ py_str v)
       (filter (\<lambda>(k, v). k \<notin> {''ts'', ''event''}) items))"

definition event_line ::
  "nat \<Rightarrow> (string \<Rightarrow> string) \<Rightarrow> (string \<Rightarrow> pyval res) \<Rightarrow> (event \<Rightarrow> (string \<times> pyval) list) \<Rightarrow> event \<Rightarrow> string res" where
  "event_line width rename clip items ev =
     res_bind (time_part clip (ev_get_or ev ''ts'' (PStr []))) (\<lambda>t.
       res_bind (format_left width (ev_get_or ev ''event'' (PStr ''?''))) (\<lambda>name.
         Inr (''['' @ py_str t @ ''] '' @ name @ '' '' @ key_values rename (items ev))))"

text \<open>\<open>_render_event_line\<close> of the page and \<open>_format_narrate_line\<close> of the narration.\<close>

definition render_event_line ::
  "(string \<Rightarrow> pyval res) \<Rightarrow> (event \<Rightarrow> (string \<times> pyval) list) \<Rightarrow> event \<Rightarrow> string res" where
  "render_event_line clip items ev =
     res_bind (event_line 25 (\<lambda>k. k) clip items ev) (\<lambda>l. Inr (html_escape l))"

definition narrate_key :: "string \<Rightarrow> string" where
  "narrate_key k = (if k = ''round_num'' then ''round'' else k)"

definition format_narrate_line ::
  "(string \<Rightarrow> pyval res) \<Rightarrow> (event \<Rightarrow> (string \<times> pyval) list) \<Rightarrow> event \<Rightarrow> string res" where
  "format_narrate_line clip items ev = event_line 20 narrate_key clip items ev"

definition or_default :: "string \<Rightarrow> string \<Rightarrow> string" where
  "or_default s d = (if s \<noteq> [] then s else d)"

definition banner_style :: string where
  "banner_style = ''background:#fee;color:#900;padding:1em;border:2px solid #900;margin:1em 0;''"

definition quote_mark :: string where "quote_mark = [CHR 0x22]"

definition eol :: string where "eol = [line_feed]"

text \<open>The pieces of the two f-strings, in order.\<close>

definition banner_pieces :: "rate_limit_section option \<Rightarrow> string list" where
  "banner_pieces rl =
     (case rl of
        None \<Rightarrow> []
      | Some r \<Rightarrow>
          [''<div style='' @ quote_mark @ banner_style @ quote_mark @ ''>'', ''Throttled until '', html_escape (rl_until r),
           '' ('', html_escape (rl_type r), '', since R'', html_escape (int_digits (rl_since r)), '')'', ''</div>''])"

definition dash :: string where "dash = [CHR 0xE2, CHR 0x80, CHR 0x94]"

definition done_text :: "string option \<Rightarrow> string" where
  "done_text done =
     (case done of Some reason \<Rightarrow> ''yes '' @ dash @ '' reason: '' @ html_escape reason | None \<Rightarrow> ''active'')"

definition page_pieces :: "page_state \<Rightarrow> string list \<Rightarrow> string list" where
  "page_pieces pg event_lines =
     [''<!DOCTYPE html>'' @ eol @ ''<html><head>'' @ eol @
      ''<meta charset='' @ quote_mark @ ''utf-8'' @ quote_mark @ ''>'' @ eol @
      ''<meta http-equiv='' @ quote_mark @ ''refresh'' @ quote_mark @ '' content='' @ quote_mark @ ''5'' @ quote_mark @ ''>'' @ eol @
      ''<title>agent-runner progress</title>'' @ eol @ ''</head><body>'' @ eol @
      ''<h1>agent-runner progress</h1>'' @ eol] @
     banner_pieces (pg_rate_limit pg) @
     [eol @ ''<h2>Round state</h2>'' @ eol @ ''<pre>round_num: '', html_escape (py_str (sec_round_num (pg_round pg))),
      eol @ ''phase: '', html_escape (py_str (sec_phase (pg_round pg))),
      eol @ ''running: '', html_escape (py_str (sec_running (pg_round pg))),
      eol @ ''last_outcome: '', html_escape (py_str (sec_last_outcome (pg_round pg))),
      eol @ ''last_duration_s: '', html_escape (py_str (sec_last_duration_s (pg_round pg))),
      eol @ ''</pre>'' @ eol @ eol @ ''<h2>Narrative</h2>'' @ eol @ ''<pre>'',
      or_default (html_escape (pg_narrative pg)) ''(no narrative file yet)'',
      ''</pre>'' @ eol @ eol @ ''<h2>Recent events</h2>'' @ eol @ ''<pre>'',
      or_default (join eol event_lines) ''(no events yet)'',
      ''</pre>'' @ eol @ eol @ ''<h2>Round log tail</h2>'' @ eol @ ''<pre>'',
      or_default (html_escape (pg_log_tail pg)) ''(no round running yet)'',
      ''</pre>'' @ eol @ eol @ ''<h2>Self-termination</h2>'' @ eol @ ''<pre>'',
      done_text (pg_done pg),
      ''</pre>'' @ eol @ ''</body></html>'']"

definition render_html ::
  "(string \<Rightarrow> pyval res) \<Rightarrow> (event \<Rightarrow> (string \<times> pyval) list) \<Rightarrow> page_state \<Rightarrow> string res" where
  "render_html clip items pg =
     res_bind (res_map (render_event_line clip items) (pg_events pg)) (\<lambda>lines. Inr (concat (page_pieces pg lines)))"

subsection \<open>Answering a request\<close>

record http_answer =
  an_status :: nat
  an_type :: string
  an_length :: nat
  an_body :: string

text \<open>\<open>do_GET\<close>. The body of the 404 is the standard library's; an exception drops the connection.\<close>

datatype http_reply = Answered http_answer | NotFound

definition answer_with :: "string \<Rightarrow> string \<Rightarrow> http_reply" where
  "answer_with mime body = Answered \<lparr>an_status = 200, an_type = mime, an_length = length body, an_body = body\<rparr>"

definition do_get ::
  "(int \<Rightarrow> string option) \<Rightarrow> (string \<Rightarrow> pyval res) \<Rightarrow> (event \<Rightarrow> (string \<times> pyval) list) \<Rightarrow> (page_state \<Rightarrow> string)
   \<Rightarrow> string \<Rightarrow> page_files \<Rightarrow> real \<Rightarrow> http_reply res" where
  "do_get safe_iso clip items dumps path files now =
     (if path = ''/'' then
        res_bind (build_state safe_iso files now) (\<lambda>pg.
          res_bind (render_html clip items pg) (\<lambda>body. Inr (answer_with ''text/html; charset=utf-8'' body)))
      else if path = ''/api/state'' then
        res_bind (build_state safe_iso files now) (\<lambda>pg. Inr (answer_with ''application/json'' (dumps pg)))
      else Inr NotFound)"

text \<open>\<open>serve_http_progress\<close>: binding the port, then serving until an interrupt.\<close>

datatype 'e serving = ServeInterrupted | ServeRaised 'e | ServeReturned

definition serve_http_progress :: "string option \<Rightarrow> 'e serving \<Rightarrow> bool \<times> ('e + nat)" where
  "serve_http_progress bind_error run =
     (case bind_error of
        Some e \<Rightarrow> (False, Inr 1)
      | None \<Rightarrow> (True, case run of ServeRaised e \<Rightarrow> Inl e | _ \<Rightarrow> Inr 0))"

subsection \<open>What a browser takes for markup\<close>

text \<open>The tags of a text: what stands between a less-than sign and the next greater-than sign.\<close>

fun markup_from :: "string option \<Rightarrow> string \<Rightarrow> string list" where
  "markup_from None [] = []"
| "markup_from (Some t) [] = [t]"
| "markup_from None (c # cs) = markup_from (if c = CHR ''<'' then Some [] else None) cs"
| "markup_from (Some t) (c # cs) = (if c = CHR ''>'' then t # markup_from None cs else markup_from (Some (t @ [c])) cs)"

definition tags :: "string \<Rightarrow> string list" where
  "tags s = markup_from None s"

fun tag_closed :: "bool \<Rightarrow> string \<Rightarrow> bool" where
  "tag_closed inside [] = (\<not> inside)"
| "tag_closed inside (c # cs) = tag_closed (if inside then c \<noteq> CHR ''>'' else c = CHR ''<'') cs"

lemma markup_from_append:
  "tag_closed (t \<noteq> None) a \<Longrightarrow> markup_from t (a @ b) = markup_from t a @ markup_from None b"
proof (induction a arbitrary: t)
  case (Cons c cs)
  then show ?case by (cases t) auto
qed simp

lemma tags_append: "tag_closed False a \<Longrightarrow> tags (a @ b) = tags a @ tags b"
  using markup_from_append [of None a b] by (simp add: tags_def)

lemma tags_Nil [simp]: "tags [] = []" by (simp add: tags_def)

lemma tags_concat: "list_all (tag_closed False) ps \<Longrightarrow> tags (concat ps) = concat (map tags ps)"
  by (induction ps) (simp_all add: tags_append)

definition plain_text :: "string \<Rightarrow> bool" where
  "plain_text s \<longleftrightarrow> CHR ''<'' \<notin> set s"

lemma plain_text_closed [simp]: "plain_text s \<Longrightarrow> tag_closed False s"
  by (induction s) (auto simp: plain_text_def)

lemma plain_text_no_tags [simp]: "plain_text s \<Longrightarrow> tags s = []"
  unfolding tags_def by (induction s) (auto simp: plain_text_def)

lemma plain_text_append [simp]: "plain_text (a @ b) \<longleftrightarrow> plain_text a \<and> plain_text b"
  by (auto simp: plain_text_def)

lemma escape_char_plain: "CHR ''<'' \<notin> set (escape_char c)"
  by (auto simp: escape_char_def)

lemma plain_html_escape [simp]: "plain_text (html_escape s)"
  using escape_char_plain by (auto simp: plain_text_def html_escape_def)

lemma plain_text_join: "plain_text sep \<Longrightarrow> list_all plain_text ls \<Longrightarrow> plain_text (join sep ls)"
  by (induction sep ls rule: join.induct) (auto simp: plain_text_def)

lemma plain_or_default: "plain_text s \<Longrightarrow> plain_text d \<Longrightarrow> plain_text (or_default s d)"
  by (simp add: or_default_def)

lemma plain_done_text [simp]: "plain_text (done_text d)"
  using plain_html_escape by (cases d) (auto simp: done_text_def dash_def plain_text_def)

lemma rendered_lines_plain:
  "res_map (render_event_line clip items) evs = Inr ls \<Longrightarrow> list_all plain_text ls"
proof (induction evs arbitrary: ls)
  case (Cons ev evs)
  then obtain l ls' where "render_event_line clip items ev = Inr l"
    "res_map (render_event_line clip items) evs = Inr ls'" "ls = l # ls'"
    by (auto simp: res_bind_Inr_iff)
  moreover from this(1) have "plain_text l" by (auto simp: render_event_line_def res_bind_Inr_iff)
  ultimately show ?case using Cons.IH by simp
qed simp

definition head_tags :: "string list" where
  "head_tags =
     [''!DOCTYPE html'', ''html'', ''head'', ''meta charset='' @ quote_mark @ ''utf-8'' @ quote_mark,
      ''meta http-equiv='' @ quote_mark @ ''refresh'' @ quote_mark @ '' content='' @ quote_mark @ ''5'' @ quote_mark,
      ''title'', ''/title'', ''/head'', ''body'', ''h1'', ''/h1'']"

definition banner_tags :: "string list" where
  "banner_tags = [''div style='' @ quote_mark @ banner_style @ quote_mark, ''/div'']"

definition section_tags :: "string list" where
  "section_tags = [''h2'', ''/h2'', ''pre'', ''/pre'']"

definition page_tags :: "bool \<Rightarrow> string list" where
  "page_tags throttled =
     head_tags @ (if throttled then banner_tags else []) @
     concat (replicate 5 section_tags) @ [''/body'', ''/html'']"

lemma banner_facts:
  "list_all (tag_closed False) (banner_pieces rl)"
  "concat (map tags (banner_pieces rl)) = (if rl = None then [] else banner_tags)"
  by (cases rl; simp add: banner_pieces_def; simp add: tags_def banner_style_def quote_mark_def banner_tags_def)+

lemma page_pieces_tags:
  assumes "list_all plain_text ls"
  shows "tags (concat (page_pieces pg ls)) = page_tags (pg_rate_limit pg \<noteq> None)"
proof -
  have j: "plain_text (or_default (join eol ls) ''(no events yet)'')"
    by (intro plain_or_default plain_text_join assms) (simp_all add: plain_text_def eol_def line_feed_def)
  have n: "plain_text (or_default (html_escape a) ''(no narrative file yet)'')"
    "plain_text (or_default (html_escape a) ''(no round running yet)'')" for a
    by (intro plain_or_default plain_html_escape; simp add: plain_text_def)+
  have c: "list_all (tag_closed False) (page_pieces pg ls)"
    using banner_facts(1) j n by (simp add: page_pieces_def) (simp add: eol_def line_feed_def quote_mark_def)
  have "tags (concat (page_pieces pg ls)) = concat (map tags (page_pieces pg ls))"
    by (rule tags_concat [OF c])
  also have "\<dots> = page_tags (pg_rate_limit pg \<noteq> None)"
    using j n banner_facts(2) [of "pg_rate_limit pg"]
    by (simp add: page_pieces_def page_tags_def numeral_eq_Suc)
      (simp add: tags_def eol_def line_feed_def quote_mark_def head_tags_def section_tags_def)
  finally show ?thesis .
qed

text \<open>C32: whatever the narrative, the log, the events, the sentinel, the status and the throttle hold, the markup of the page that is served is the page's own: its tags, in order, are a fixed list, with the banner's two exactly when an agent is throttled; and the declared length is the body's.\<close>

theorem page_is_inert:
  assumes "do_get safe_iso clip items dumps ''/'' files now = Inr (Answered a)"
  shows "tags (an_body a) = page_tags (fst (effective_throttle_view (pf_log files) now) \<noteq> None)
    \<and> an_length a = length (an_body a)"
proof -
  from assms obtain pg ls where pg: "build_state safe_iso files now = Inr pg"
    and ls: "res_map (render_event_line clip items) (pg_events pg) = Inr ls"
    and a: "an_body a = concat (page_pieces pg ls)" "an_length a = length (an_body a)"
    by (auto simp: do_get_def res_bind_Inr_iff render_html_def answer_with_def)
  have "pg_rate_limit pg \<noteq> None \<longleftrightarrow> fst (effective_throttle_view (pf_log files) now) \<noteq> None"
    using pg by (auto simp: build_state_def res_bind_Inr_iff rate_limit_state_def)
  then show ?thesis
    using page_pieces_tags [OF rendered_lines_plain [OF ls], of pg] a by simp
qed

subsection \<open>Escaping loses nothing\<close>

text \<open>What a browser shows for an escaped text.\<close>

fun unescape :: "string \<Rightarrow> string" where
  "unescape [] = []"
| "unescape (c # cs) =
     (if c \<noteq> CHR ''&'' then c # unescape cs
      else if take 4 cs = ''amp;'' then c # unescape (drop 4 cs)
      else if take 3 cs = ''lt;'' then CHR ''<'' # unescape (drop 3 cs)
      else if take 3 cs = ''gt;'' then CHR ''>'' # unescape (drop 3 cs)
      else if take 5 cs = ''quot;'' then CHR 0x22 # unescape (drop 5 cs)
      else if take 5 cs = ''#x27;'' then CHR 0x27 # unescape (drop 5 cs)
      else c # unescape cs)"

lemma unescape_escape_char: "unescape (escape_char c @ s) = c # unescape s"
  by (simp add: escape_char_def)

lemma unescape_html_escape [simp]: "unescape (html_escape s) = s"
  by (induction s) (simp_all add: html_escape_def unescape_escape_char)

subsection \<open>The parts of a peek\<close>

text \<open>\<open>_recent_events_of_kind\<close>: the walk from the newest event that stops when the limit is filled.\<close>

fun newest_of_kind :: "string \<Rightarrow> nat \<Rightarrow> event list \<Rightarrow> event list \<Rightarrow> event list" where
  "newest_of_kind kind limit [] out = out"
| "newest_of_kind kind limit (e # es) out =
     (if is_kind e kind
      then (if Suc (length out) = limit then out @ [e] else newest_of_kind kind limit es (out @ [e]))
      else newest_of_kind kind limit es out)"

definition recent_events_of_kind :: "event list \<Rightarrow> string \<Rightarrow> nat \<Rightarrow> event list" where
  "recent_events_of_kind evs kind limit = rev (newest_of_kind kind limit (rev evs) [])"

datatype round_arg = NoRound | RoundInt int | RoundText string

text \<open>\<open>rounds_dir.glob("R*-*.log")\<close>.\<close>

definition glob_round_log :: "string \<Rightarrow> bool" where
  "glob_round_log name \<longleftrightarrow>
     prefix ''R'' name \<and> suffix ''.log'' (drop 1 name) \<and> CHR ''-'' \<in> set (take (length name - 5) (drop 1 name))"

text \<open>\<open>listing\<close>: the names in the rounds directory, none when it is no directory.\<close>

definition resolve_round_arg :: "round_arg \<Rightarrow> string list option \<Rightarrow> int option res" where
  "resolve_round_arg arg listing =
     (case arg of
        NoRound \<Rightarrow> Inr None
      | RoundInt n \<Rightarrow> Inr (Some n)
      | RoundText s \<Rightarrow>
          if s = ''latest'' then
            Inr (case listing of
                   None \<Rightarrow> None
                 | Some names \<Rightarrow>
                     let nums = List.map_filter round_file_num (filter glob_round_log names)
                     in if nums = [] then None else Some (Max (set nums)))
          else (case py_int_of_str (py_strip s) of
                  Some n \<Rightarrow> Inr (Some n)
                | None \<Rightarrow> Inl (KeyError (''--round expects int or 'latest', got '' @ repr_str s))))"

record round_view =
  rv_round_num :: int
  rv_phase :: pyval
  rv_started_at :: pyval
  rv_duration_so_far_s :: pyval
  rv_exit_code :: pyval
  rv_timed_out :: pyval
  rv_log_path :: string
  rv_log_tail :: "string option"

definition of_round :: "int \<Rightarrow> event \<Rightarrow> bool" where
  "of_round n ev \<longleftrightarrow> pv_real (ev_get ev ''round_num'') = Some (real_of_int n)"

definition round_view_step :: "int \<Rightarrow> event \<Rightarrow> round_view \<Rightarrow> round_view" where
  "round_view_step n ev v =
     (if \<not> of_round n ev then v
      else if is_kind ev ROUND_START
      then v\<lparr>rv_started_at := ev_get_or ev ''ts'' (PStr []), rv_phase := ev_get ev ''phase''\<rparr>
      else if is_kind ev AGENT_EXIT
      then v\<lparr>rv_duration_so_far_s := ev_get ev ''duration_s'', rv_exit_code := ev_get ev ''exit_code'',
             rv_timed_out := ev_get ev ''timed_out''\<rparr>
      else v)"

text \<open>\<open>rounds_dir.glob(f"R{round_num}-*.log")\<close>.\<close>

definition glob_round_number :: "int \<Rightarrow> string \<Rightarrow> bool" where
  "glob_round_number n name \<longleftrightarrow>
     (let stem = ''R'' @ int_digits n @ ''-'' in prefix stem name \<and> suffix ''.log'' (drop (length stem) name))"

definition tail_of_log :: "nat \<Rightarrow> string \<Rightarrow> string" where
  "tail_of_log tail_lines s =
     (let ls = py_splitlines (universal_newlines s) in join eol (if tail_lines = 0 then ls else last_n tail_lines ls))"

definition read_log_tail :: "bool \<Rightarrow> nat \<Rightarrow> file_read \<Rightarrow> string option res" where
  "read_log_tail want_log tail_lines file =
     (if \<not> want_log then Inr None
      else case file of
             ReadText s \<Rightarrow> Inr (Some (tail_of_log tail_lines s))
           | ReadMissing \<Rightarrow> Inr None
           | ReadError e \<Rightarrow> Inl e)"

definition build_round_view ::
  "string list \<Rightarrow> (string \<Rightarrow> file_read) \<Rightarrow> int \<Rightarrow> event list \<Rightarrow> bool \<Rightarrow> nat \<Rightarrow> round_view option res" where
  "build_round_view names read n evs want_log tail_lines =
     (case filter (glob_round_number n) names of
        [] \<Rightarrow> Inr None
      | log_path # _ \<Rightarrow>
          res_bind (read_log_tail want_log tail_lines (read log_path)) (\<lambda>tail.
            Inr (Some (fold (round_view_step n) evs
              \<lparr>rv_round_num = n, rv_phase = PNone, rv_started_at = PStr [], rv_duration_so_far_s = PNone,
               rv_exit_code = PNone, rv_timed_out = PNone, rv_log_path = log_path, rv_log_tail = tail\<rparr>))))"

subsection \<open>What they select\<close>

lemma newest_of_kind_take:
  "length out < limit \<Longrightarrow>
   newest_of_kind kind limit es out = out @ take (limit - length out) (filter (\<lambda>e. is_kind e kind) es)"
proof (induction es arbitrary: out)
  case (Cons e es)
  show ?case
  proof (cases "Suc (length out) = limit")
    case True
    then have "limit - length out = 1" by simp
    then show ?thesis using Cons True by simp
  next
    case False
    then have "limit - length out = Suc (limit - Suc (length out))" using Cons.prems by simp
    then show ?thesis using Cons.IH [of "out @ [e]"] Cons.IH [of out] Cons.prems False by simp
  qed
qed simp

lemma rev_take_rev: "rev (take n (rev xs)) = last_n n xs"
  by (simp add: last_n_def rev_take)

lemma recent_events_of_kind_filter:
  "0 < limit \<Longrightarrow> recent_events_of_kind evs kind limit = last_n limit (filter (\<lambda>e. is_kind e kind) evs)"
  by (simp add: recent_events_of_kind_def newest_of_kind_take rev_filter [symmetric] rev_take_rev)

text \<open>The last event of a kind that carries the round's number.\<close>

definition last_of_round :: "int \<Rightarrow> string \<Rightarrow> event list \<Rightarrow> event option" where
  "last_of_round n kind evs = find (\<lambda>e. of_round n e \<and> is_kind e kind) (rev evs)"

lemma last_of_round_snoc:
  "last_of_round n kind (evs @ [e]) = (if of_round n e \<and> is_kind e kind then Some e else last_of_round n kind evs)"
  by (simp add: last_of_round_def)

definition field_of :: "string \<Rightarrow> pyval \<Rightarrow> event option \<Rightarrow> pyval" where
  "field_of k d e = (case e of None \<Rightarrow> d | Some e \<Rightarrow> ev_get_or e k d)"

lemma round_view_fold:
  "fold (round_view_step n) evs
     \<lparr>rv_round_num = n, rv_phase = PNone, rv_started_at = PStr [], rv_duration_so_far_s = PNone,
      rv_exit_code = PNone, rv_timed_out = PNone, rv_log_path = p, rv_log_tail = t\<rparr>
   = (let s = last_of_round n ROUND_START evs; x = last_of_round n AGENT_EXIT evs in
      \<lparr>rv_round_num = n, rv_phase = field_of ''phase'' PNone s, rv_started_at = field_of ''ts'' (PStr []) s,
       rv_duration_so_far_s = field_of ''duration_s'' PNone x, rv_exit_code = field_of ''exit_code'' PNone x,
       rv_timed_out = field_of ''timed_out'' PNone x, rv_log_path = p, rv_log_tail = t\<rparr>)"
proof (induction evs rule: rev_induct)
  case Nil
  then show ?case by (simp add: last_of_round_def field_of_def)
next
  case (snoc e evs)
  show ?case
    by (simp add: snoc last_of_round_snoc Let_def)
      (auto simp: round_view_step_def field_of_def ev_get_def is_kind_def)
qed

text \<open>The recent failures, blips and warnings of a peek are the last ones of their kind, and the view of a round is what its last start and its last exit in the log say of it, if its log file is still there.\<close>

theorem peek_selects_exactly:
  shows "recent_events_of_kind evs kind 10 = last_n 10 (filter (\<lambda>e. is_kind e kind) evs)
    \<and> recent_events_of_kind evs kind 5 = last_n 5 (filter (\<lambda>e. is_kind e kind) evs)
    \<and> build_round_view names read n evs want_log tail_lines =
      (case filter (glob_round_number n) names of
         [] \<Rightarrow> Inr None
       | log_path # _ \<Rightarrow>
           res_bind (read_log_tail want_log tail_lines (read log_path)) (\<lambda>tail.
             Inr (Some (let s = last_of_round n ROUND_START evs; x = last_of_round n AGENT_EXIT evs in
             \<lparr>rv_round_num = n, rv_phase = field_of ''phase'' PNone s, rv_started_at = field_of ''ts'' (PStr []) s,
               rv_duration_so_far_s = field_of ''duration_s'' PNone x, rv_exit_code = field_of ''exit_code'' PNone x,
               rv_timed_out = field_of ''timed_out'' PNone x, rv_log_path = log_path, rv_log_tail = tail\<rparr>))))"
proof -
  have "recent_events_of_kind evs kind 10 = last_n 10 (filter (\<lambda>e. is_kind e kind) evs)"
    "recent_events_of_kind evs kind 5 = last_n 5 (filter (\<lambda>e. is_kind e kind) evs)"
    by (simp_all add: recent_events_of_kind_filter)
  then show ?thesis unfolding build_round_view_def round_view_fold by (simp add: Let_def)
qed

subsection \<open>When the page is served\<close>

definition printable_event :: "event \<Rightarrow> bool" where
  "printable_event ev \<longleftrightarrow>
     (case ev_get_or ev ''ts'' (PStr []) of PStr s \<Rightarrow> True | _ \<Rightarrow> False) \<and>
     (case ev_get_or ev ''event'' (PStr ''?'') of PNone \<Rightarrow> False | PCompound r \<Rightarrow> False | _ \<Rightarrow> True)"

lemma printable_event_line:
  "printable_event ev \<Longrightarrow> \<exists>l. event_line width rename clip items ev = Inr l"
  by (auto simp: printable_event_def event_line_def time_part_def format_left_def split: pyval.splits)

lemma printable_lines:
  "list_all printable_event evs \<Longrightarrow> \<exists>ls. res_map (render_event_line clip items) evs = Inr ls"
proof (induction evs)
  case (Cons ev evs)
  moreover obtain l where "event_line 25 (\<lambda>k. k) clip items ev = Inr l"
    using Cons.prems printable_event_line by fastforce
  ultimately show ?case by (auto simp: render_event_line_def)
qed simp

text \<open>The sentinel of a log directory that can be read, or not at all.\<close>

definition sentinel_ok :: "file_read \<Rightarrow> bool" where
  "sentinel_ok f = (case f of ReadError (OSError m) \<Rightarrow> True | ReadError e \<Rightarrow> False | _ \<Rightarrow> True)"

text \<open>Both routes are answered, with their own types, whenever the recent events carry a text as timestamp and a printable kind and the sentinel can be decoded; every other path is not found.\<close>

theorem page_served:
  assumes "sentinel_ok (pf_sentinel files)" "list_all printable_event (recent_events (pf_log files) 20)"
  shows "(\<exists>a. do_get safe_iso clip items dumps ''/'' files now = Inr (Answered a) \<and> an_status a = 200
      \<and> an_type a = ''text/html; charset=utf-8'')
    \<and> (\<exists>a. do_get safe_iso clip items dumps ''/api/state'' files now = Inr (Answered a) \<and> an_status a = 200
      \<and> an_type a = ''application/json'')
    \<and> (do_get safe_iso clip items dumps path files now = Inr NotFound \<longleftrightarrow> path \<notin> {''/'', ''/api/state''})"
proof -
  obtain r where r: "read_sentinel_content (pf_sentinel files) = Inr r"
    using assms(1) by (cases "pf_sentinel files") (auto simp: sentinel_ok_def read_sentinel_content_def split: py_error.splits)
  obtain ls where ls: "res_map (render_event_line clip items) (recent_events (pf_log files) 20) = Inr ls"
    using printable_lines [OF assms(2)] by blast
  show ?thesis
    by (simp add: do_get_def build_state_def r ls render_html_def answer_with_def)
qed

subsection \<open>Examples\<close>

definition example_page_files :: page_files where
  "example_page_files =
     \<lparr>pf_status = None, pf_narrative = Some ''<script>x</script>'', pf_round_log = None, pf_sentinel = ReadText ''a</pre>'',
      pf_log = [(''2026-01'', [[''ts'' \<mapsto> PStr ''t'', ''event'' \<mapsto> PStr ''<b>'']])]\<rparr>"

definition example_items :: "event \<Rightarrow> (string \<times> pyval) list" where
  "example_items ev = [(''ts'', PStr ''t''), (''event'', PStr ''<b>'')]"

lemma example_recent: "recent_events (pf_log example_page_files) 20 = [[''ts'' \<mapsto> PStr ''t'', ''event'' \<mapsto> PStr ''<b>'']]"
  by (simp add: recent_events_def example_page_files_def scan_def newest_month_files_def all_month_files_def last_n_def Let_def)

lemma example_printable: "list_all printable_event (recent_events (pf_log example_page_files) 20)"
  by (simp add: example_recent printable_event_def ev_get_or_def)

lemma example_sentinel: "sentinel_ok (pf_sentinel example_page_files)"
  by (simp add: example_page_files_def sentinel_ok_def)

text \<open>An event line whose \<open>ts\<close> is a number takes the page down with a \<open>TypeError\<close>.\<close>

lemma numeric_ts_drops_page:
  "render_event_line clip items [''ts'' \<mapsto> PInt 1, ''event'' \<mapsto> PStr ''x''] = Inl TypeError"
  by (simp add: render_event_line_def event_line_def time_part_def ev_get_or_def)

lemma page_served_witness:
  "\<exists>a. do_get (\<lambda>_. None) (\<lambda>r. Inr (PStr r)) example_items (\<lambda>_. ''{}'') ''/'' example_page_files 0 = Inr (Answered a)
    \<and> an_status a = 200"
  using page_served [OF example_sentinel example_printable] by blast

lemma page_is_inert_witness:
  "\<exists>a. do_get (\<lambda>_. None) (\<lambda>r. Inr (PStr r)) example_items (\<lambda>_. ''{}'') ''/'' example_page_files 0 = Inr (Answered a)
    \<and> tags (an_body a) = page_tags False"
proof -
  obtain ls where "res_map (render_event_line (\<lambda>r. Inr (PStr r)) example_items) (recent_events (pf_log example_page_files) 20) = Inr ls"
    using printable_lines [OF example_printable] by blast
  then obtain a where a: "do_get (\<lambda>_. None) (\<lambda>r. Inr (PStr r)) example_items (\<lambda>_. ''{}'') ''/'' example_page_files 0 = Inr (Answered a)"
    by (auto simp: do_get_def build_state_def render_html_def answer_with_def read_sentinel_content_def example_page_files_def)
  moreover have "fst (effective_throttle_view (pf_log example_page_files) 0) = None"
    by code_simp
  ultimately show ?thesis using page_is_inert [OF a] by simp
qed

end
