(* ===== verification/Install.thy ===== *)
theory Install
  imports Service Serve_Loop Config_Load Text_Lines Views
begin

section \<open>Scaffolding, installing and uninstalling (service\_unit.py, \_install.py, scaffold.py)\<close>

text \<open>
  The unit files, the verbs that write and remove them and the scaffold of a new project, as
  operations on the files and on the commands run so far. The host says which commands succeed,
  which files cannot be written, who runs the verb and whether the user's systemd answers. A file
  that cannot be opened for writing is left as it was; reading a file that is there succeeds.
\<close>

subsection \<open>The unit files\<close>

definition monitor_unit_filename :: "string \<Rightarrow> string" where
  "monitor_unit_filename project = ''agent-runner-monitor@'' @ project @ ''.service''"

text \<open>\<open>_unit_mode_lines\<close>.\<close>

definition unit_user_lines :: "string option \<Rightarrow> string list" where
  "unit_user_lines user =
     (case user of Some u \<Rightarrow> if u \<noteq> [] then [''User='' @ u, ''Group='' @ u] else [] | None \<Rightarrow> [])"

definition unit_wanted_by :: "string option \<Rightarrow> string" where
  "unit_wanted_by user =
     (case user of Some u \<Rightarrow> if u \<noteq> [] then ''multi-user.target'' else ''default.target'' | None \<Rightarrow> ''default.target'')"

definition validate_unit_paths :: "config \<Rightarrow> string \<Rightarrow> unit res" where
  "validate_unit_paths cfg config_path =
     res_bind (reject_control_chars (rt_work_dir (cf_runtime cfg)) ''runtime.work_dir'') (\<lambda>_.
       reject_control_chars config_path ''config path'')"

text \<open>The largest budget of a round: the configured one and those of the phase overrides.\<close>

definition override_budget :: "(string \<rightharpoonup> phase_override) \<Rightarrow> string \<Rightarrow> int \<Rightarrow> int" where
  "override_budget ov p t =
     (case ov p of
        None \<Rightarrow> t
      | Some o' \<Rightarrow> (case ov_round_budget_s o' of None \<Rightarrow> t | Some b \<Rightarrow> max t b))"

definition max_round_budget_s :: "config \<Rightarrow> int" where
  "max_round_budget_s cfg =
     (let ov = pc_overrides (cf_phases cfg) in
      fold (override_budget ov) (sorted_list_of_set (dom ov)) (rt_round_budget_s (cf_runtime cfg)))"

definition unit_timeout_s :: "config \<Rightarrow> int" where
  "unit_timeout_s cfg = fst (timeout_budget (max_round_budget_s cfg) (goal_checks_allowance_s cfg))"

definition unit_text :: "string list \<Rightarrow> string" where
  "unit_text ls = concat (map (\<lambda>l. l @ eol) ls)"

definition serve_unit_lines :: "config \<Rightarrow> string \<Rightarrow> string \<Rightarrow> string option \<Rightarrow> string list" where
  "serve_unit_lines cfg script_path config_path user =
     [''[Unit]'', ''Description=Agent Runner Supervisor ('' @ path_name (rt_work_dir (cf_runtime cfg)) @ '')'',
      ''After=network.target'', ''StartLimitIntervalSec=300'', ''StartLimitBurst=5'', '''',
      ''[Service]'', ''Type=simple''] @
     unit_user_lines user @
     [''WorkingDirectory='' @ rt_work_dir (cf_runtime cfg),
      ''ExecStart='' @ script_path @ '' serve --config '' @ config_path,
      ''Restart=on-failure'',
      ''RestartPreventExitStatus='' @ join '' '' (map int_digits restart_prevent_exit_codes),
      ''RestartSec=3'', ''KillMode=mixed'', ''KillSignal=SIGTERM'',
      ''TimeoutStopSec='' @ int_digits (unit_timeout_s cfg), '''',
      ''[Install]'', ''WantedBy='' @ unit_wanted_by user]"

definition monitor_unit_lines :: "config \<Rightarrow> string \<Rightarrow> string \<Rightarrow> string option \<Rightarrow> string list" where
  "monitor_unit_lines cfg script_path config_path user =
     [''[Unit]'', ''Description=Agent Runner Monitor ('' @ path_name (rt_work_dir (cf_runtime cfg)) @ '')'',
      ''After=network.target agent-runner@'' @ path_name (rt_work_dir (cf_runtime cfg)) @ ''.service'', '''',
      ''[Service]'', ''Type=simple''] @
     unit_user_lines user @
     [''WorkingDirectory='' @ rt_work_dir (cf_runtime cfg),
      ''ExecStart='' @ script_path @ '' monitor --config '' @ config_path,
      ''Restart=always'', ''RestartSec=10'', '''', ''[Install]'', ''WantedBy='' @ unit_wanted_by user]"

definition render_serve_unit :: "config \<Rightarrow> string \<Rightarrow> string \<Rightarrow> string option \<Rightarrow> string res" where
  "render_serve_unit cfg script_path config_path user =
     res_bind (validate_unit_paths cfg config_path) (\<lambda>_. Inr (unit_text (serve_unit_lines cfg script_path config_path user)))"

definition render_monitor_unit :: "config \<Rightarrow> string \<Rightarrow> string \<Rightarrow> string option \<Rightarrow> string res" where
  "render_monitor_unit cfg script_path config_path user =
     res_bind (validate_unit_paths cfg config_path) (\<lambda>_. Inr (unit_text (monitor_unit_lines cfg script_path config_path user)))"

subsection \<open>Reading a unit back\<close>

lemma splitlines_keep_append:
  "a = [] \<or> last a = line_feed \<Longrightarrow> splitlines_keep (a @ b) = splitlines_keep a @ splitlines_keep b"
proof (induction a rule: splitlines_keep.induct)
  case (2 c)
  then show ?case by (cases b) (simp_all add: line_feed_def is_eol_def char_code_def)
next
  case (3 c d cs)
  obtain l ls where ls: "splitlines_keep (d # cs) = l # ls"
    by (cases "splitlines_keep (d # cs)") auto
  show ?case using 3 ls by (cases "cs = []") (auto simp: line_feed_def split: if_splits)
qed simp

definition single_line :: "string \<Rightarrow> bool" where
  "single_line l \<longleftrightarrow> list_all (\<lambda>c. \<not> is_eol c) l"

lemma is_eol_line_feed [simp]: "is_eol line_feed"
  by (simp add: is_eol_def line_feed_def char_code_def)

lemma splitlines_keep_one: "single_line l \<Longrightarrow> splitlines_keep (l @ [line_feed]) = [l @ [line_feed]]"
proof (induction l)
  case (Cons c l)
  have ne: "c \<noteq> CHR 0x0D" using Cons.prems by (auto simp: single_line_def is_eol_def char_code_def)
  have "splitlines_keep (l @ [line_feed]) = [l @ [line_feed]]" using Cons by (simp add: single_line_def)
  then show ?case using Cons.prems ne by (cases "l @ [line_feed]") (auto simp: single_line_def)
qed simp

lemma line_body_one: "single_line l \<Longrightarrow> line_body (l @ [line_feed]) = l"
  by (simp add: line_body_def single_line_def takeWhile_append list_all_iff)

lemma splitlines_unit_text:
  "list_all single_line ls \<Longrightarrow> py_splitlines (unit_text ls @ s) = ls @ py_splitlines s"
proof (induction ls)
  case (Cons l ls)
  then have "splitlines_keep ((l @ [line_feed]) @ unit_text ls @ s) = [l @ [line_feed]] @ splitlines_keep (unit_text ls @ s)"
    by (subst splitlines_keep_append) (simp_all add: splitlines_keep_one)
  then show ?case using Cons by (simp add: py_splitlines_def unit_text_def eol_def line_body_one)
qed (simp add: unit_text_def)

lemma printable_single_line: "list_all printable_char s \<Longrightarrow> single_line s"
  by (auto simp: single_line_def list_all_iff printable_char_def is_eol_def Let_def)

lemma single_line_append [simp]: "single_line (a @ b) \<longleftrightarrow> single_line a \<and> single_line b"
  by (simp add: single_line_def)

lemma py_split_subset: "l \<in> set (py_split c s) \<Longrightarrow> set l \<subseteq> set s"
proof (induction s arbitrary: l)
  case (Cons d s)
  then show ?case by (cases "py_split c s") (fastforce split: if_splits)+
qed simp

lemma single_line_path_name: "single_line p \<Longrightarrow> single_line (path_name p)"
proof -
  assume p: "single_line p"
  let ?parts = "filter (\<lambda>q. q \<noteq> [] \<and> q \<noteq> ''.'') (py_split (CHR ''/'') p)"
  have "set (last ?parts) \<subseteq> set p" if "?parts \<noteq> []"
    using last_in_set [OF that] py_split_subset by fastforce
  then show ?thesis using p by (auto simp: single_line_def path_name_def Let_def list_all_iff)
qed

subsection \<open>The host and the steps\<close>

record install_world =
  iw_files :: "string \<rightharpoonup> string"
  iw_ran :: "string list list"

record install_host =
  ih_script :: "string option"
  ih_root :: bool
  ih_sudo_user :: "string option"
  ih_bus_error :: "string option"
  ih_user_units :: string
  ih_command :: "string list list \<Rightarrow> string list \<Rightarrow> bool"
  ih_write_error :: "string \<Rightarrow> py_error option"
  ih_same_path :: "string \<Rightarrow> string"
  ih_git_tree :: bool
  ih_preset :: "string \<Rightarrow> string option"

datatype install_exn = InstallError py_error | InstallRefused string | ScriptMissing | PresetMissing | CommandFailed "string list"

type_synonym 'a installing = "(install_world, install_exn, 'a) em"

definition attempt :: "'a res \<Rightarrow> 'a installing" where
  "attempt r = (case r of Inl e \<Rightarrow> eraise (InstallError e) | Inr x \<Rightarrow> eret x)"

definition require :: "bool \<Rightarrow> install_exn \<Rightarrow> unit installing" where
  "require b e = (if b then eret () else eraise e)"

definition reads :: "(install_world \<Rightarrow> 'a) \<Rightarrow> 'a installing" where
  "reads f = (\<lambda>w. (w, Inr (f w)))"

definition put_file :: "install_host \<Rightarrow> string \<Rightarrow> string \<Rightarrow> unit installing" where
  "put_file h p t =
     (\<lambda>w. case ih_write_error h p of
            Some e \<Rightarrow> (w, Inl (InstallError e))
          | None \<Rightarrow> (w\<lparr>iw_files := (iw_files w)(p \<mapsto> t)\<rparr>, Inr ()))"

definition unlink_file :: "string \<Rightarrow> unit installing" where
  "unlink_file p = (\<lambda>w. (w\<lparr>iw_files := (iw_files w)(p := None)\<rparr>, Inr ()))"

text \<open>\<open>subprocess.run\<close>: whether the command succeeded; with \<open>check=True\<close> a failure raises.\<close>

definition run_command :: "install_host \<Rightarrow> string list \<Rightarrow> bool installing" where
  "run_command h args = (\<lambda>w. (w\<lparr>iw_ran := iw_ran w @ [args]\<rparr>, Inr (ih_command h (iw_ran w) args)))"

definition run_checked :: "install_host \<Rightarrow> string list \<Rightarrow> unit installing" where
  "run_checked h args = ebind (run_command h args) (\<lambda>ok. require ok (CommandFailed args))"

definition systemctl :: "install_host \<Rightarrow> bool \<Rightarrow> string list \<Rightarrow> unit installing" where
  "systemctl h system args = run_checked h (''systemctl'' # (if system then [] else [''--user'']) @ args)"

fun in_turn :: "unit installing list \<Rightarrow> unit installing" where
  "in_turn [] = eret ()"
| "in_turn (m # ms) = ethen m (in_turn ms)"

subsection \<open>install\<close>

definition system_units_dir :: string where "system_units_dir = ''/etc/systemd/system''"

definition unit_path :: "string \<Rightarrow> string \<Rightarrow> string" where
  "unit_path dir name = dir @ ''/'' @ name"

record install_result =
  ir_unit :: string
  ir_monitor :: "string option"
  ir_started :: bool

definition write_units ::
  "install_host \<Rightarrow> config \<Rightarrow> string \<Rightarrow> string \<Rightarrow> string option \<Rightarrow> string \<Rightarrow> string \<Rightarrow> bool \<Rightarrow> unit installing" where
  "write_units h cfg script config_path user dir project with_monitor =
     ebind (attempt (render_serve_unit cfg script config_path user)) (\<lambda>t.
     ethen (put_file h (unit_path dir (serve_unit_filename project)) t)
       (if with_monitor
        then ebind (attempt (render_monitor_unit cfg script config_path user)) (\<lambda>m.
               put_file h (unit_path dir (monitor_unit_filename project)) m)
        else eret ()))"

definition install_units ::
  "install_host \<Rightarrow> config \<Rightarrow> string \<Rightarrow> string \<Rightarrow> bool \<Rightarrow> string option \<Rightarrow> string list list \<Rightarrow> bool \<Rightarrow> install_result installing" where
  "install_units h cfg config_path project system user commands with_monitor =
     (let dir = (if system then system_units_dir else ih_user_units h) in
      ebind (case ih_script h of None \<Rightarrow> eraise ScriptMissing | Some s \<Rightarrow> eret s) (\<lambda>script.
      ethen (write_units h cfg script config_path user dir project with_monitor)
        (ethen (in_turn (map (systemctl h system) commands))
          (eret \<lparr>ir_unit = unit_path dir (serve_unit_filename project),
                 ir_monitor = (if with_monitor then Some (unit_path dir (monitor_unit_filename project)) else None),
                 ir_started = \<not> system\<rparr>))))"

definition install_commands :: "bool \<Rightarrow> string \<Rightarrow> bool \<Rightarrow> string list list" where
  "install_commands system project with_monitor =
     (let serve = serve_unit_filename project; monitor = monitor_unit_filename project in
      if system
      then [''daemon-reload''] # [''enable'', serve] # (if with_monitor then [[''enable'', monitor]] else [])
      else [''daemon-reload''] # [''enable'', serve] # [''start'', serve] #
             (if with_monitor then [[''enable'', monitor], [''start'', monitor]] else []))"

definition install_system :: "install_host \<Rightarrow> config \<Rightarrow> string \<Rightarrow> string \<Rightarrow> bool \<Rightarrow> install_result installing" where
  "install_system h cfg config_path project with_monitor =
     ethen (require (ih_root h) (InstallRefused ''--system requires sudo''))
       (case ih_sudo_user h of
          Some u \<Rightarrow>
            if u = [] then eraise (InstallRefused ''--system needs SUDO_USER'')
            else install_units h cfg config_path project True (Some u) (install_commands True project with_monitor) with_monitor
        | None \<Rightarrow> eraise (InstallRefused ''--system needs SUDO_USER''))"

text \<open>\<open>loaded\<close> is \<open>load_config\<close> of the project's file, \<open>base\<close> the last component of its directory.\<close>

definition install :: "install_host \<Rightarrow> config res \<Rightarrow> string \<Rightarrow> string \<Rightarrow> bool \<Rightarrow> bool \<Rightarrow> bool \<Rightarrow> install_result installing" where
  "install h loaded config_path base system with_monitor force =
     ebind (attempt loaded) (\<lambda>cfg.
     ebind (attempt (project_name base True)) (\<lambda>project.
       let dir = (if system then system_units_dir else ih_user_units h) in
       ebind (reads (\<lambda>w. iw_files w (unit_path dir (serve_unit_filename project)))) (\<lambda>there.
       ethen (attempt (guard_against_clobber (ih_same_path h) there (rt_work_dir (cf_runtime cfg)) force))
         (if system then install_system h cfg config_path project with_monitor
          else ethen (require (ih_bus_error h = None) (InstallRefused ''user systemd unavailable''))
                 (install_units h cfg config_path project False None (install_commands False project with_monitor) with_monitor)))))"

subsection \<open>uninstall\<close>

text \<open>The stop that is queued and its bounded confirmation, which is not looked at.\<close>

definition remove_unit :: "install_host \<Rightarrow> string \<Rightarrow> unit installing" where
  "remove_unit h name =
     ebind (reads (\<lambda>w. iw_files w (unit_path (ih_user_units h) name))) (\<lambda>there.
       if there = None then eret ()
       else ethen (systemctl h False [''--no-block'', ''stop'', name])
              (ethen (systemctl h False [''disable'', name]) (unlink_file (unit_path (ih_user_units h) name))))"

definition uninstall :: "install_host \<Rightarrow> string \<Rightarrow> bool installing" where
  "uninstall h base =
     ebind (attempt (project_name base True)) (\<lambda>project.
     ebind (reads (\<lambda>w. iw_files w (unit_path system_units_dir (serve_unit_filename project)))) (\<lambda>system_unit.
       if system_unit \<noteq> None then eret False
       else ethen (remove_unit h (serve_unit_filename project))
              (ethen (remove_unit h (monitor_unit_filename project))
                (ethen (etry (systemctl h False [''daemon-reload'']) (\<lambda>e. eret ())) (eret True)))))"

subsection \<open>init\<close>

definition gitignore_line :: string where "gitignore_line = ''logs/''"

text \<open>A relative name in the directory of the project.\<close>

definition gitignore_text :: "string \<Rightarrow> string" where
  "gitignore_text existing =
     existing @ (if existing \<noteq> [] \<and> last existing \<noteq> line_feed then [line_feed] else []) @ gitignore_line @ [line_feed]"

record init_result =
  in_files :: "string list"
  in_committed :: bool

definition scaffold_toml :: "install_host \<Rightarrow> string \<Rightarrow> string \<Rightarrow> unit installing" where
  "scaffold_toml h preset base =
     ebind (attempt (project_name base False)) (\<lambda>project.
       case ih_preset h preset of
         None \<Rightarrow> eraise PresetMissing
       | Some t \<Rightarrow> put_file h ''agent-runner.toml'' (py_replace ''{project}'' project 0 t))"

definition scaffold_prompt :: "install_host \<Rightarrow> string \<Rightarrow> bool \<Rightarrow> string list installing" where
  "scaffold_prompt h template force =
     ebind (reads (\<lambda>w. iw_files w ''prompts/main.md'')) (\<lambda>there.
       if there = None \<or> force
       then ethen (put_file h ''prompts/main.md'' template) (eret [''prompts/main.md''])
       else eret [])"

definition scaffold_gitignore :: "install_host \<Rightarrow> string list installing" where
  "scaffold_gitignore h =
     ebind (reads (\<lambda>w. case iw_files w ''.gitignore'' of None \<Rightarrow> [] | Some t \<Rightarrow> universal_newlines t)) (\<lambda>existing.
       if gitignore_line \<in> set (py_splitlines existing) then eret []
       else ethen (put_file h ''.gitignore'' (gitignore_text existing)) (eret [''.gitignore'']))"

definition scaffold_commit :: "install_host \<Rightarrow> string list \<Rightarrow> bool installing" where
  "scaffold_commit h files =
     ethen (run_checked h (''git'' # ''add'' # ''--'' # files))
       (run_command h [''git'', ''-c'', ''commit.gpgsign=false'', ''commit'', ''-q'', ''-m'', ''chore: agent-runner initial config''])"

definition scaffold_project :: "install_host \<Rightarrow> string \<Rightarrow> string \<Rightarrow> string \<Rightarrow> bool \<Rightarrow> bool \<Rightarrow> init_result installing" where
  "scaffold_project h template preset base force commit =
     ethen (require (ih_git_tree h) (InstallRefused ''not a git working tree''))
       (ebind (reads (\<lambda>w. iw_files w ''agent-runner.toml'')) (\<lambda>there.
       ethen (require (there = None \<or> force) (InstallError (OSError ''already exists'')))
       (ethen (scaffold_toml h preset base)
         (ebind (scaffold_prompt h template force) (\<lambda>p.
          ebind (scaffold_gitignore h) (\<lambda>g.
            let files = ''agent-runner.toml'' # p @ g in
            ebind (if commit then scaffold_commit h files else eret False) (\<lambda>c.
              eret \<lparr>in_files = files, in_committed = c\<rparr>)))))))"

subsection \<open>Systemd waits out serve\<close>

lemma fold_budget_ge: "t \<le> fold (override_budget ov) ps t"
proof (induction ps arbitrary: t)
  case (Cons p ps)
  have "t \<le> override_budget ov p t" by (simp add: override_budget_def split: option.splits)
  also have "\<dots> \<le> fold (override_budget ov) ps (override_budget ov p t)" by (rule Cons.IH)
  finally show ?case by simp
qed simp

lemma fold_budget_override:
  assumes "p \<in> set ps" "ov p = Some o'" "ov_round_budget_s o' = Some b"
  shows "b \<le> fold (override_budget ov) ps t"
  using assms(1)
proof (induction ps arbitrary: t)
  case (Cons q ps)
  show ?case
  proof (cases "q = p")
    case True
    have "b \<le> override_budget ov q t" using True assms(2,3) by (simp add: override_budget_def)
    also have "\<dots> \<le> fold (override_budget ov) ps (override_budget ov q t)" by (rule fold_budget_ge)
    finally show ?thesis by simp
  next
    case False
    then show ?thesis using Cons by simp
  qed
qed simp

lemma max_round_budget_covers:
  assumes "finite (dom (pc_overrides (cf_phases cfg)))"
  shows "rt_round_budget_s (pr_runtime (profile_for cfg phase)) \<le> max_round_budget_s cfg"
proof -
  have base: "rt_round_budget_s (cf_runtime cfg) \<le> max_round_budget_s cfg"
    unfolding max_round_budget_s_def Let_def by (rule fold_budget_ge)
  have over: "b \<le> max_round_budget_s cfg"
    if "pc_overrides (cf_phases cfg) p = Some o'" "ov_round_budget_s o' = Some b" for p o' b
    unfolding max_round_budget_s_def Let_def
    by (rule fold_budget_override [of p]) (use that assms in auto)
  show ?thesis
    using base over by (auto simp: profile_for_def resolve_runtime_def split: option.splits)
qed

lemma timeout_budget_parts:
  "fst (timeout_budget b g) = snd (timeout_budget b g) + round_term_grace_s + stop_grace_margin_s"
  by (simp add: timeout_budget_def Let_def)

lemma outer_budget_le: "b \<le> c \<Longrightarrow> snd (timeout_budget b g) \<le> snd (timeout_budget c g)"
  by (simp add: timeout_budget_def Let_def)

text \<open>C35: systemd waits for a stop longer than serve itself waits for a round of any phase, by the grace of its termination and a margin.\<close>

theorem unit_outlives_round:
  assumes "finite (dom (pc_overrides (cf_phases cfg)))"
  shows "outer_round_ceiling_s cfg phase + round_term_grace_s + stop_grace_margin_s \<le> unit_timeout_s cfg"
proof -
  let ?budget = "\<lambda>p. rt_round_budget_s (pr_runtime (profile_for cfg p))"
  note le = max_round_budget_covers [OF assms]
  have "rt_round_budget_s (cf_runtime cfg) \<le> max_round_budget_s cfg"
    using le [of None] by (simp add: profile_for_def)
  moreover have "Max (set (map (\<lambda>p. ?budget (Some p)) (phase_list cfg))) \<le> max_round_budget_s cfg" if "phase_list cfg \<noteq> []"
    using that le by (subst Max_le_iff) auto
  ultimately have "outer_round_ceiling_s cfg phase \<le> snd (timeout_budget (max_round_budget_s cfg) (goal_checks_allowance_s cfg))"
    unfolding outer_round_ceiling_s_def Let_def
    by (intro outer_budget_le) (cases phase; simp add: le)
  then show ?thesis by (simp add: unit_timeout_s_def timeout_budget_parts)
qed

subsection \<open>Whose unit it is\<close>

lemma unit_owner_found:
  assumes "list_all single_line (pre @ [''WorkingDirectory='' @ d])" "\<forall>l\<in>set pre. take 17 l \<noteq> ''WorkingDirectory=''"
  shows "unit_owner (Some (unit_text (pre @ (''WorkingDirectory='' @ d) # post))) = Some d"
proof -
  have "unit_text (pre @ (''WorkingDirectory='' @ d) # post) = unit_text (pre @ [''WorkingDirectory='' @ d]) @ unit_text post"
    by (simp add: unit_text_def)
  then have "py_splitlines (unit_text (pre @ (''WorkingDirectory='' @ d) # post))
      = (pre @ [''WorkingDirectory='' @ d]) @ py_splitlines (unit_text post)"
    using splitlines_unit_text [OF assms(1)] by metis
  moreover have "List.find (\<lambda>l. take 17 l = ''WorkingDirectory='') (pre @ [''WorkingDirectory='' @ d] @ ls)
      = Some (''WorkingDirectory='' @ d)" for ls
    using assms(2) by (induction pre) auto
  ultimately show ?thesis by (simp add: unit_owner_def)
qed

lemma single_line_words:
  "single_line ''[Unit]''" "single_line ''Description=Agent Runner Supervisor (''" "single_line '')''" "single_line ''After=network.target''"
  "single_line ''StartLimitIntervalSec=300''" "single_line ''StartLimitBurst=5''" "single_line []" "single_line ''[Service]''"
  "single_line ''Type=simple''" "single_line ''User=''" "single_line ''Group=''" "single_line ''WorkingDirectory=''"
  by code_simp+

lemma unit_user_lines_ok:
  assumes "\<forall>u. user = Some u \<longrightarrow> single_line u"
  shows "list_all single_line (unit_user_lines user)" "\<forall>l\<in>set (unit_user_lines user). take 17 l \<noteq> ''WorkingDirectory=''"
proof -
  show "list_all single_line (unit_user_lines user)"
  proof (cases user)
    case (Some u)
    have "single_line (''User='' @ u)" "single_line (''Group='' @ u)"
      using assms Some by (simp_all only: single_line_append single_line_words simp_thms)
    then show ?thesis by (simp add: unit_user_lines_def Some)
  qed (simp add: unit_user_lines_def)
  show "\<forall>l\<in>set (unit_user_lines user). take 17 l \<noteq> ''WorkingDirectory=''"
    by (cases user) (auto simp: unit_user_lines_def)
qed

lemma serve_unit_owner:
  assumes "render_serve_unit cfg script config_path user = Inr t" "\<forall>u. user = Some u \<longrightarrow> single_line u"
  shows "unit_owner (Some t) = Some (rt_work_dir (cf_runtime cfg))"
proof -
  let ?w = "rt_work_dir (cf_runtime cfg)"
  have t: "t = unit_text (serve_unit_lines cfg script config_path user)" and p: "list_all printable_char ?w"
    using assms(1) by (auto simp: render_serve_unit_def validate_unit_paths_def res_bind_Inr_iff reject_control_chars_def cfg_err_def
        split: if_splits)
  have w: "single_line ?w" "single_line (path_name ?w)" using printable_single_line [OF p] single_line_path_name by auto
  note u = unit_user_lines_ok [OF assms(2)]
  let ?pre = "[''[Unit]'', ''Description=Agent Runner Supervisor ('' @ path_name ?w @ '')'', ''After=network.target'',
      ''StartLimitIntervalSec=300'', ''StartLimitBurst=5'', '''', ''[Service]'', ''Type=simple''] @ unit_user_lines user"
  have l: "list_all single_line (?pre @ [''WorkingDirectory='' @ ?w])"
    by (simp only: list_all_append list.pred_inject single_line_append single_line_words w u(1) simp_thms)
  have n: "\<forall>l\<in>set ?pre. take 17 l \<noteq> ''WorkingDirectory=''"
    using u(2) by simp
  show ?thesis
    using unit_owner_found [OF l n] unfolding t serve_unit_lines_def by simp
qed

subsection \<open>The steps of the verbs\<close>

definition keeps_files :: "string set \<Rightarrow> install_world \<Rightarrow> install_world \<Rightarrow> bool" where
  "keeps_files ps w w' \<longleftrightarrow> (\<forall>p. p \<notin> ps \<longrightarrow> iw_files w' p = iw_files w p)"

lemma keeps_files_refl [simp]: "keeps_files ps w w"
  by (simp add: keeps_files_def)

lemma keeps_files_upd:
  "keeps_files ps w w' \<Longrightarrow> p \<in> ps \<Longrightarrow> keeps_files ps w (w'\<lparr>iw_files := (iw_files w')(p := t)\<rparr>)"
  by (auto simp: keeps_files_def)

lemma keeps_files_ran [simp]: "keeps_files ps w (w'\<lparr>iw_ran := r\<rparr>) \<longleftrightarrow> keeps_files ps w w'"
  by (simp add: keeps_files_def)

lemma holds_run_checked:
  assumes "\<And>w r. P w \<Longrightarrow> Q (w\<lparr>iw_ran := r\<rparr>)" "\<And>w r e. P w \<Longrightarrow> E e (w\<lparr>iw_ran := r\<rparr>)"
  shows "holds P (run_checked h args) (\<lambda>_. Q) E"
  using assms by (auto simp: holds_def run_checked_def run_command_def require_def ebind_def eret_def eraise_def)

lemma holds_systemctl:
  assumes "\<And>w r. P w \<Longrightarrow> Q (w\<lparr>iw_ran := r\<rparr>)" "\<And>w r e. P w \<Longrightarrow> E e (w\<lparr>iw_ran := r\<rparr>)"
  shows "holds P (systemctl h system args) (\<lambda>_. Q) E"
  unfolding systemctl_def by (rule holds_run_checked) (use assms in auto)

lemma holds_in_turn: "(\<And>m. m \<in> set ms \<Longrightarrow> holds P m (\<lambda>_. P) E) \<Longrightarrow> holds P (in_turn ms) (\<lambda>_. P) E"
proof (induction ms)
  case (Cons m ms)
  then show ?case by (auto intro!: holds_then)
qed (auto intro: holds_ret)

lemma holds_put_file:
  assumes "\<And>w. P w \<Longrightarrow> Q (w\<lparr>iw_files := (iw_files w)(p \<mapsto> t)\<rparr>)" "\<And>w e. P w \<Longrightarrow> E e w"
  shows "holds P (put_file h p t) (\<lambda>_. Q) E"
  using assms by (auto simp: holds_def put_file_def split: option.splits)

lemma holds_attempt:
  assumes "\<And>x w. r = Inr x \<Longrightarrow> P w \<Longrightarrow> Q x w" "\<And>w e. P w \<Longrightarrow> E e w"
  shows "holds P (attempt r) Q E"
  using assms by (cases r) (auto simp: attempt_def intro: holds_ret holds_raise)

lemma unit_paths_differ:
  "unit_path dir (serve_unit_filename project) \<noteq> unit_path dir (monitor_unit_filename project)"
  by (simp add: unit_path_def serve_unit_filename_def monitor_unit_filename_def)

definition unit_paths :: "string \<Rightarrow> string \<Rightarrow> string set" where
  "unit_paths dir project = {unit_path dir (serve_unit_filename project), unit_path dir (monitor_unit_filename project)}"

definition owned_by :: "string \<Rightarrow> string \<Rightarrow> string \<Rightarrow> install_world \<Rightarrow> bool" where
  "owned_by dir project d w \<longleftrightarrow> unit_owner (iw_files w (unit_path dir (serve_unit_filename project))) = Some d"

lemma holds_write_units:
  assumes "\<forall>u. user = Some u \<longrightarrow> single_line u"
  shows "holds (\<lambda>w. w = w0) (write_units h cfg script config_path user dir project with_monitor)
     (\<lambda>_ w. keeps_files (unit_paths dir project) w0 w \<and> owned_by dir project (rt_work_dir (cf_runtime cfg)) w)
     (\<lambda>_ w. keeps_files (unit_paths dir project) w0 w)"
proof -
  let ?K = "keeps_files (unit_paths dir project) w0"
  let ?O = "owned_by dir project (rt_work_dir (cf_runtime cfg))"
  let ?S = "unit_path dir (serve_unit_filename project)"
  have serve: "holds (\<lambda>w. w = w0 \<and> render_serve_unit cfg script config_path user = Inr t) (put_file h ?S t) (\<lambda>_ w. ?K w \<and> ?O w) (\<lambda>_. ?K)" for t
    by (rule holds_put_file) (auto simp: keeps_files_def unit_paths_def owned_by_def intro: serve_unit_owner assms [rule_format])
  have monitor: "holds (\<lambda>w. ?K w \<and> ?O w) (put_file h (unit_path dir (monitor_unit_filename project)) m) (\<lambda>_ w. ?K w \<and> ?O w) (\<lambda>_. ?K)" for m
    by (rule holds_put_file) (auto simp: keeps_files_def unit_paths_def owned_by_def unit_paths_differ)
  show ?thesis
    unfolding write_units_def
  proof (rule holds_bind [where R = "\<lambda>t w. w = w0 \<and> render_serve_unit cfg script config_path user = Inr t"])
    show "holds (\<lambda>w. w = w0) (attempt (render_serve_unit cfg script config_path user))
        (\<lambda>t w. w = w0 \<and> render_serve_unit cfg script config_path user = Inr t) (\<lambda>_. ?K)"
      by (rule holds_attempt) auto
  next
    fix t
    show "holds (\<lambda>w. w = w0 \<and> render_serve_unit cfg script config_path user = Inr t)
        (ethen (put_file h ?S t)
          (if with_monitor then ebind (attempt (render_monitor_unit cfg script config_path user))
             (\<lambda>m. put_file h (unit_path dir (monitor_unit_filename project)) m) else eret ()))
        (\<lambda>_ w. ?K w \<and> ?O w) (\<lambda>_. ?K)"
      by (rule holds_then [OF serve])
        (auto intro!: holds_bind [where R = "\<lambda>_ w. ?K w \<and> ?O w"] holds_attempt monitor holds_ret)
  qed
qed

lemma holds_install_units:
  assumes "\<forall>u. user = Some u \<longrightarrow> single_line u"
  shows "holds (\<lambda>w. w = w0) (install_units h cfg config_path project system user commands with_monitor)
     (\<lambda>_ w. ih_script h \<noteq> None \<and> keeps_files (unit_paths (if system then system_units_dir else ih_user_units h) project) w0 w
        \<and> owned_by (if system then system_units_dir else ih_user_units h) project (rt_work_dir (cf_runtime cfg)) w)
     (\<lambda>_ w. (w \<noteq> w0 \<longrightarrow> ih_script h \<noteq> None) \<and> keeps_files (unit_paths (if system then system_units_dir else ih_user_units h) project) w0 w)"
proof (cases "ih_script h")
  case None
  then show ?thesis by (simp add: install_units_def Let_def ebind_def eraise_def holds_def)
next
  case (Some script)
  let ?dir = "if system then system_units_dir else ih_user_units h"
  let ?Q = "\<lambda>w. keeps_files (unit_paths ?dir project) w0 w \<and> owned_by ?dir project (rt_work_dir (cf_runtime cfg)) w"
  let ?E = "\<lambda>(e :: install_exn) w. keeps_files (unit_paths ?dir project) w0 w"
  have "holds (\<lambda>w. w = w0) (install_units h cfg config_path project system user commands with_monitor) (\<lambda>_. ?Q) ?E"
    unfolding install_units_def Let_def Some
    by (intro holds_bind [where R = "\<lambda>_ w. w = w0"] holds_then [OF holds_write_units [OF assms]] holds_then [where R = "?Q"]
        holds_in_turn holds_ret) (auto intro!: holds_ret holds_systemctl simp: owned_by_def)
  then show ?thesis using Some by (auto simp: holds_def split: prod.splits sum.splits)
qed

subsection \<open>install\<close>

definition install_allowed :: "install_host \<Rightarrow> bool \<Rightarrow> bool" where
  "install_allowed h system \<longleftrightarrow>
     (if system then ih_root h \<and> ih_sudo_user h \<notin> {None, Some []} else ih_bus_error h = None)"

lemma install_unfold:
  assumes "project_name base True = Inr project"
  shows "install h (Inr cfg) config_path base system with_monitor force w =
    (let dir = (if system then system_units_dir else ih_user_units h);
         there = iw_files w (unit_path dir (serve_unit_filename project)) in
     case guard_against_clobber (ih_same_path h) there (rt_work_dir (cf_runtime cfg)) force of
       Inl e \<Rightarrow> (w, Inl (InstallError e))
     | Inr _ \<Rightarrow>
         if \<not> install_allowed h system then (w, Inl (InstallRefused
              (if \<not> system then ''user systemd unavailable''
               else if \<not> ih_root h then ''--system requires sudo'' else ''--system needs SUDO_USER'')))
         else install_units h cfg config_path project system (if system then ih_sudo_user h else None)
                (install_commands system project with_monitor) with_monitor w)"
  by (simp add: install_def install_system_def install_allowed_def assms attempt_def reads_def require_def ebind_def ethen_def
      eret_def eraise_def Let_def split: sum.splits option.splits)

lemma guard_own:
  "unit_owner there = Some d \<Longrightarrow> guard_against_clobber same there e False = Inr () \<longleftrightarrow> same d = same e"
  by (simp add: guard_against_clobber_def)

text \<open>C33: an install writes the two unit files of its project only, and nothing at all unless its preconditions hold and the unit that is there is its own, no one's or taken over by force; and after a successful install the guard lets exactly the projects of the same directory write there again.\<close>

theorem install_guarded:
  assumes "project_name base True = Inr project" "\<forall>u. ih_sudo_user h = Some u \<longrightarrow> single_line u"
    and "dir = (if system then system_units_dir else ih_user_units h)" "S = unit_path dir (serve_unit_filename project)"
    and run: "install h (Inr cfg) config_path base system with_monitor force w = (w', r)"
  shows "(\<forall>p. p \<noteq> S \<and> p \<noteq> unit_path dir (monitor_unit_filename project) \<longrightarrow> iw_files w' p = iw_files w p)
    \<and> (w' \<noteq> w \<longrightarrow> install_allowed h system \<and> ih_script h \<noteq> None \<and>
        (\<forall>owner. unit_owner (iw_files w S) = Some owner \<longrightarrow>
           force \<or> ih_same_path h owner = ih_same_path h (rt_work_dir (cf_runtime cfg))))
    \<and> (\<forall>res d. r = Inr res \<longrightarrow>
        (guard_against_clobber (ih_same_path h) (iw_files w' S) d False = Inr ()
         \<longleftrightarrow> ih_same_path h d = ih_same_path h (rt_work_dir (cf_runtime cfg))))"
proof -
  let ?guard = "guard_against_clobber (ih_same_path h) (iw_files w S) (rt_work_dir (cf_runtime cfg)) force"
  consider (no) "w' = w" "\<exists>e. r = Inl e"
    | (go) "?guard = Inr ()" "install_allowed h system"
        "install_units h cfg config_path project system (if system then ih_sudo_user h else None)
           (install_commands system project with_monitor) with_monitor w = (w', r)"
    using run unfolding install_unfold [OF assms(1)] Let_def assms(3,4)
    by (cases ?guard) (auto simp: assms(3,4) split: if_splits)
  then show ?thesis
  proof cases
    case no
    then show ?thesis by auto
  next
    case go
    have u: "\<forall>u. (if system then ih_sudo_user h else None) = Some u \<longrightarrow> single_line u" using assms(2) by simp
    have owner: "\<forall>owner. unit_owner (iw_files w S) = Some owner \<longrightarrow>
        force \<or> ih_same_path h owner = ih_same_path h (rt_work_dir (cf_runtime cfg))"
      using go(1) by (auto simp: guard_against_clobber_def split: if_splits)
    note d = holds_D [OF holds_install_units [OF u] refl go(3)]
    show ?thesis
    proof (cases r)
      case (Inl e)
      then show ?thesis using d go(2) owner by (simp add: keeps_files_def unit_paths_def flip: assms(3) add: assms(4))
    next
      case (Inr x)
      then have "unit_owner (iw_files w' S) = Some (rt_work_dir (cf_runtime cfg))"
        using d by (simp add: owned_by_def assms(4) flip: assms(3))
      then show ?thesis using d Inr go(2) owner
        by (auto simp: keeps_files_def unit_paths_def guard_own assms(4) simp flip: assms(3))
    qed
  qed
qed

subsection \<open>uninstall\<close>

definition disabled_before :: "install_world \<Rightarrow> install_world \<Rightarrow> string \<Rightarrow> string \<Rightarrow> bool" where
  "disabled_before w w' path name \<longleftrightarrow>
     iw_files w path \<noteq> None \<and> iw_files w' path = None \<longrightarrow> [''systemctl'', ''--user'', ''disable'', name] \<in> set (iw_ran w')"

lemma remove_unit_cases:
  assumes "remove_unit h name w = (w', r)"
  shows "(\<forall>p. p \<noteq> unit_path (ih_user_units h) name \<longrightarrow> iw_files w' p = iw_files w p)
    \<and> set (iw_ran w) \<subseteq> set (iw_ran w')
    \<and> disabled_before w w' (unit_path (ih_user_units h) name) name
    \<and> (r = Inr () \<longrightarrow> iw_files w' (unit_path (ih_user_units h) name) = None)"
  using assms
  by (auto simp: remove_unit_def reads_def unlink_file_def systemctl_def run_checked_def run_command_def require_def
      ebind_def ethen_def eret_def eraise_def disabled_before_def split: if_splits)

text \<open>An uninstall removes the two unit files of its project and no other file, never one whose unit it did not disable, and does nothing where a system unit manages the project.\<close>

theorem uninstall_exact:
  assumes "project_name base True = Inr project"
    and "S = unit_path (ih_user_units h) (serve_unit_filename project)" "M = unit_path (ih_user_units h) (monitor_unit_filename project)"
    and "uninstall h base w = (w', r)"
  shows "(\<forall>p. p \<noteq> S \<and> p \<noteq> M \<longrightarrow> iw_files w' p = iw_files w p)
    \<and> disabled_before w w' S (serve_unit_filename project) \<and> disabled_before w w' M (monitor_unit_filename project)
    \<and> (r = Inr True \<longrightarrow> iw_files w' S = None \<and> iw_files w' M = None)
    \<and> (r = Inr False \<longrightarrow> w' = w)"
proof (cases "iw_files w (unit_path system_units_dir (serve_unit_filename project)) = None")
  case False
  then show ?thesis using assms(4)
    by (auto simp: uninstall_def attempt_def reads_def assms(1) ebind_def eret_def disabled_before_def)
next
  case True
  obtain w1 r1 where one: "remove_unit h (serve_unit_filename project) w = (w1, r1)" by fastforce
  obtain w2 r2 where two: "remove_unit h (monitor_unit_filename project) w1 = (w2, r2)" by fastforce
  note c1 = remove_unit_cases [OF one, folded assms(2)] and c2 = remove_unit_cases [OF two, folded assms(3)]
  have ne: "S \<noteq> M" unfolding assms(2,3) by (rule unit_paths_differ)
  consider (first) e where "r1 = Inl e" "w' = w1" "r = Inl e"
    | (second) e where "r1 = Inr ()" "r2 = Inl e" "w' = w2" "r = Inl e"
    | (both) x where "r1 = Inr ()" "r2 = Inr ()" "r = Inr True" "w' = w2\<lparr>iw_ran := iw_ran w2 @ [x]\<rparr>"
    using assms(4) True one two
    by (cases r1; cases r2; auto simp: uninstall_def attempt_def reads_def assms(1) ebind_def ethen_def etry_def eret_def eraise_def
      systemctl_def run_checked_def run_command_def require_def split: if_splits)
  then show ?thesis
  proof cases
    case first
    then show ?thesis using c1 ne by (auto simp: disabled_before_def)
  next
    case second
    then show ?thesis using c1 c2 ne by (auto simp: disabled_before_def)
  next
    case both
    then show ?thesis using c1 c2 ne by (auto simp: disabled_before_def)
  qed
qed

subsection \<open>init\<close>

lemma universal_newlines_no_cr: "CHR 0x0D \<notin> set (universal_newlines s)"
  by (induction s rule: universal_newlines.induct) (auto simp: line_feed_def)

lemma universal_newlines_id: "CHR 0x0D \<notin> set s \<Longrightarrow> universal_newlines s = s"
  by (induction s rule: universal_newlines.induct) auto

lemma gitignore_lists_logs: "gitignore_line \<in> set (py_splitlines (gitignore_text e))"
proof -
  let ?e = "e @ (if e \<noteq> [] \<and> last e \<noteq> line_feed then [line_feed] else [])"
  have o: "single_line gitignore_line" by code_simp
  have "splitlines_keep (?e @ gitignore_line @ [line_feed]) = splitlines_keep ?e @ [gitignore_line @ [line_feed]]"
    by (subst splitlines_keep_append) (auto simp: splitlines_keep_one [OF o])
  then show ?thesis by (simp add: gitignore_text_def py_splitlines_def line_body_one [OF o])
qed

definition lists_logs :: "install_world \<Rightarrow> bool" where
  "lists_logs w \<longleftrightarrow>
     (case iw_files w ''.gitignore'' of
        None \<Rightarrow> False | Some t \<Rightarrow> gitignore_line \<in> set (py_splitlines (universal_newlines t)))"

lemma gitignore_text_normal: "CHR 0x0D \<notin> set e \<Longrightarrow> universal_newlines (gitignore_text e) = gitignore_text e"
  by (rule universal_newlines_id) (simp add: gitignore_text_def gitignore_line_def line_feed_def)

text \<open>What a step of the scaffold does to the files.\<close>

definition old_gitignore :: "install_world \<Rightarrow> string" where
  "old_gitignore w = (case iw_files w ''.gitignore'' of None \<Rightarrow> [] | Some t \<Rightarrow> universal_newlines t)"

lemma old_gitignore_no_cr: "CHR 0x0D \<notin> set (old_gitignore w)"
  by (simp add: old_gitignore_def universal_newlines_no_cr split: option.splits)

lemmas scaffold_steps = scaffold_toml_def scaffold_prompt_def scaffold_gitignore_def scaffold_commit_def
  attempt_def reads_def put_file_def run_checked_def run_command_def require_def ebind_def ethen_def eret_def eraise_def

lemma toml_step:
  "scaffold_toml h preset base w = (w', r) \<Longrightarrow>
   iw_files w' = iw_files w \<or> (\<exists>t. iw_files w' = (iw_files w)(''agent-runner.toml'' \<mapsto> t))"
  by (auto simp: scaffold_steps split: sum.splits option.splits)

lemma prompt_step:
  "scaffold_prompt h template force w = (w', r) \<Longrightarrow>
   iw_files w' = iw_files w \<or>
   ((iw_files w ''prompts/main.md'' = None \<or> force) \<and> iw_files w' = (iw_files w)(''prompts/main.md'' \<mapsto> template))"
  by (auto simp: scaffold_steps split: option.splits if_splits)

lemma gitignore_step:
  assumes "scaffold_gitignore h w = (w', r)"
  shows "(iw_files w' = iw_files w \<or> iw_files w' = (iw_files w)(''.gitignore'' \<mapsto> gitignore_text (old_gitignore w)))
    \<and> (r \<in> range Inr \<longrightarrow> lists_logs w')"
proof (cases "gitignore_line \<in> set (py_splitlines (old_gitignore w))")
  case True
  then show ?thesis using assms
    by (cases "iw_files w ''.gitignore''")
      (auto simp: scaffold_steps old_gitignore_def lists_logs_def gitignore_line_def py_splitlines_def)
next
  case False
  then show ?thesis using assms gitignore_lists_logs [of "old_gitignore w"]
    by (auto simp: scaffold_steps old_gitignore_def [symmetric] lists_logs_def gitignore_text_normal [OF old_gitignore_no_cr]
        split: option.splits)
qed

lemma commit_step: "scaffold_commit h files w = (w', r) \<Longrightarrow> iw_files w' = iw_files w"
  by (auto simp: scaffold_steps split: if_splits)

lemma scaffold_refused:
  "\<not> ih_git_tree h \<or> (iw_files w ''agent-runner.toml'' \<noteq> None \<and> \<not> force) \<Longrightarrow>
   \<exists>e. scaffold_project h template preset base force commit w = (w, Inl e)"
  by (auto simp: scaffold_project_def require_def reads_def ebind_def ethen_def eret_def eraise_def)

lemma scaffold_accepted:
  assumes "ih_git_tree h" "iw_files w ''agent-runner.toml'' = None \<or> force"
    and "scaffold_project h template preset base force commit w = (w', r)"
  obtains w1 r1 w2 r2 w3 r3 where "scaffold_toml h preset base w = (w1, r1)"
    and "(r1 \<in> range Inl \<and> w' = w1 \<and> r \<in> range Inl) \<or>
      (scaffold_prompt h template force w1 = (w2, r2) \<and>
        ((r2 \<in> range Inl \<and> w' = w2 \<and> r \<in> range Inl) \<or>
         (scaffold_gitignore h w2 = (w3, r3) \<and>
           ((r3 \<in> range Inl \<and> w' = w3 \<and> r \<in> range Inl) \<or> (r3 \<in> range Inr \<and> iw_files w' = iw_files w3)))))"
proof -
  obtain w1 r1 where one: "scaffold_toml h preset base w = (w1, r1)" by fastforce
  obtain w2 r2 where two: "scaffold_prompt h template force w1 = (w2, r2)" by fastforce
  obtain w3 r3 where three: "scaffold_gitignore h w2 = (w3, r3)" by fastforce
  have run: "scaffold_project h template preset base force commit w =
     (case r1 of Inl e \<Rightarrow> (w1, Inl e)
      | Inr _ \<Rightarrow> (case r2 of Inl e \<Rightarrow> (w2, Inl e)
         | Inr p \<Rightarrow> (case r3 of Inl e \<Rightarrow> (w3, Inl e)
            | Inr g \<Rightarrow> ebind (if commit then scaffold_commit h (''agent-runner.toml'' # p @ g) else eret False)
                (\<lambda>c. eret \<lparr>in_files = ''agent-runner.toml'' # p @ g, in_committed = c\<rparr>) w3)))"
    using assms(1,2) one two three
    by (auto simp: scaffold_project_def require_def reads_def ebind_def ethen_def eret_def Let_def split: sum.splits)
  have last: "iw_files v = iw_files w3"
    if "ebind (if commit then scaffold_commit h files else eret False) (\<lambda>c. eret (f c)) w3 = (v, x)" for files f v and x :: "install_exn + init_result"
    using that commit_step [of h files w3] by (auto simp: ebind_def eret_def split: if_splits prod.splits sum.splits)
  have "(r1 \<in> range Inl \<and> w' = w1 \<and> r \<in> range Inl) \<or>
      (scaffold_prompt h template force w1 = (w2, r2) \<and>
        ((r2 \<in> range Inl \<and> w' = w2 \<and> r \<in> range Inl) \<or>
         (scaffold_gitignore h w2 = (w3, r3) \<and>
           ((r3 \<in> range Inl \<and> w' = w3 \<and> r \<in> range Inl) \<or> (r3 \<in> range Inr \<and> iw_files w' = iw_files w3)))))"
    using assms(3) run two three last by (cases r1; cases r2; cases r3) (auto split: if_splits)
  then show ?thesis using one that by blast
qed

lemma three_writes:
  assumes "f1 = f0 \<or> (\<exists>t. f1 = f0(a := Some t))" "f2 = f1 \<or> ((f1 b = None \<or> force) \<and> f2 = f1(b := Some x))"
    and "f3 = f2 \<or> f3 = f2(c := Some y)" "a \<noteq> b" "a \<noteq> c" "b \<noteq> c"
  shows "(\<forall>p. p \<notin> {a, b, c} \<longrightarrow> f3 p = f0 p) \<and> (\<not> force \<longrightarrow> (\<forall>t. f0 b = Some t \<longrightarrow> f3 b = Some t)) \<and> f3 c \<in> {f0 c, Some y}"
  using assms by auto

text \<open>The files a run of the scaffold leaves, and whether they list the logs.\<close>

lemma scaffold_files:
  assumes "ih_git_tree h" "iw_files w ''agent-runner.toml'' = None \<or> force"
    and "scaffold_project h template preset base force commit w = (w', r)"
  obtains f1 f2 where "f1 = iw_files w \<or> (\<exists>t. f1 = (iw_files w)(''agent-runner.toml'' := Some t))"
    and "f2 = f1 \<or> ((f1 ''prompts/main.md'' = None \<or> force) \<and> f2 = f1(''prompts/main.md'' := Some template))"
    and "iw_files w' = f2 \<or> iw_files w' = f2(''.gitignore'' := Some (gitignore_text (old_gitignore w)))"
    and "r \<in> range Inr \<longrightarrow> lists_logs w'"
proof -
  obtain w1 r1 w2 r2 w3 r3 where one: "scaffold_toml h preset base w = (w1, r1)"
    and rest: "(r1 \<in> range Inl \<and> w' = w1 \<and> r \<in> range Inl) \<or>
      (scaffold_prompt h template force w1 = (w2, r2) \<and>
        ((r2 \<in> range Inl \<and> w' = w2 \<and> r \<in> range Inl) \<or>
         (scaffold_gitignore h w2 = (w3, r3) \<and>
           ((r3 \<in> range Inl \<and> w' = w3 \<and> r \<in> range Inl) \<or> (r3 \<in> range Inr \<and> iw_files w' = iw_files w3)))))"
    by (rule scaffold_accepted [OF assms]; rule that; assumption)
  note t = toml_step [OF one]
  have no: "r \<notin> range Inr" if "r \<in> range Inl" using that by auto
  from rest consider (a) "r \<in> range Inl" "w' = w1"
    | (b) "scaffold_prompt h template force w1 = (w2, r2)" "r \<in> range Inl" "w' = w2"
    | (c) "scaffold_prompt h template force w1 = (w2, r2)" "scaffold_gitignore h w2 = (w3, r3)" "iw_files w' = iw_files w3"
        "r \<in> range Inl \<or> r3 \<in> range Inr"
    by blast
  then show thesis
  proof cases
    case a
    then show thesis using that [of "iw_files w1" "iw_files w1"] t no by blast
  next
    case b
    then show thesis using that [of "iw_files w1" "iw_files w2"] t no prompt_step [OF b(1)] by blast
  next
    case c
    note p = prompt_step [OF c(1)] and g = gitignore_step [OF c(2)]
    have "iw_files w2 ''.gitignore'' = iw_files w ''.gitignore''" using t p by (elim disjE exE conjE) simp_all
    then have "old_gitignore w2 = old_gitignore w" by (simp add: old_gitignore_def)
    moreover have "lists_logs w' \<longleftrightarrow> lists_logs w3" using c(3) by (simp add: lists_logs_def)
    ultimately show thesis using that [of "iw_files w1" "iw_files w2"] t p g c(3,4) no by metis
  qed
qed


subsection \<open>Examples\<close>

definition example_install_host :: install_host where
  "example_install_host =
     \<lparr>ih_script = Some ''/usr/bin/agent-runner'', ih_root = False, ih_sudo_user = None, ih_bus_error = None,
      ih_user_units = ''/u'', ih_command = (\<lambda>_ _. True), ih_write_error = (\<lambda>_. None), ih_same_path = (\<lambda>p. p),
      ih_git_tree = True, ih_preset = (\<lambda>_. Some ''x'')\<rparr>"

definition empty_world :: install_world where
  "empty_world = \<lparr>iw_files = Map.empty, iw_ran = []\<rparr>"

lemma example_project: "project_name ''work'' True = Inr ''work''"
  by code_simp

lemma example_work_dir: "rt_work_dir (cf_runtime (example_config None PolicyWait)) = ''work''"
  by (simp add: example_config_def default_runtime_def)

lemma unit_outlives_round_witness:
  "outer_round_ceiling_s (example_config None PolicyWait) None + round_term_grace_s + stop_grace_margin_s
     \<le> unit_timeout_s (example_config None PolicyWait)"
  by (rule unit_outlives_round) (simp add: example_config_def)

lemma example_valid: "validate_unit_paths (example_config None PolicyWait) ''t'' = Inr ()"
proof -
  have "list_all printable_char ''work''" "list_all printable_char ''t''" by code_simp+
  then show ?thesis unfolding validate_unit_paths_def example_work_dir reject_control_chars_def by simp
qed

lemma example_installs:
  "\<exists>w res. install example_install_host (Inr (example_config None PolicyWait)) ''t'' ''work'' False False False empty_world = (w, Inr res)"
  unfolding install_unfold [OF example_project]
  by (simp add: example_install_host_def empty_world_def guard_against_clobber_def unit_owner_def install_allowed_def
      install_units_def write_units_def render_serve_unit_def example_valid install_commands_def systemctl_def scaffold_steps Let_def)

lemma install_guarded_witness:
  "\<exists>w res. install example_install_host (Inr (example_config None PolicyWait)) ''t'' ''work'' False False False empty_world = (w, Inr res)
    \<and> guard_against_clobber (\<lambda>p. p) (iw_files w (unit_path ''/u'' (serve_unit_filename ''work''))) ''other'' False \<noteq> Inr ()"
proof -
  obtain w res where run: "install example_install_host (Inr (example_config None PolicyWait)) ''t'' ''work'' False False False empty_world = (w, Inr res)"
    using example_installs by blast
  have h: "ih_sudo_user example_install_host = None" "ih_user_units example_install_host = ''/u''" "ih_same_path example_install_host = (\<lambda>p. p)"
    by (simp_all add: example_install_host_def)
  have "guard_against_clobber (ih_same_path example_install_host) (iw_files w (unit_path ''/u'' (serve_unit_filename ''work''))) ''other'' False = Inr ()
      \<longleftrightarrow> ih_same_path example_install_host ''other'' = ih_same_path example_install_host (rt_work_dir (cf_runtime (example_config None PolicyWait)))"
    using install_guarded [OF example_project _ _ refl run, of "''/u''"] h by simp
  then show ?thesis using run by (auto simp: h example_work_dir)
qed

definition installed_world :: install_world where
  "installed_world = \<lparr>iw_files = [''/u/agent-runner@work.service'' \<mapsto> ''x'', ''/etc/hosts'' \<mapsto> ''h''], iw_ran = []\<rparr>"

lemma uninstall_exact_witness:
  "\<exists>w. uninstall example_install_host ''work'' installed_world = (w, Inr True)
    \<and> iw_files w (unit_path ''/u'' (serve_unit_filename ''work'')) = None \<and> iw_files w ''/etc/hosts'' = Some ''h''"
proof -
  have "\<exists>w. uninstall example_install_host ''work'' installed_world = (w, Inr True)"
    by (simp add: uninstall_def remove_unit_def unlink_file_def etry_def example_project example_install_host_def installed_world_def systemctl_def
        unit_path_def serve_unit_filename_def monitor_unit_filename_def system_units_dir_def scaffold_steps)
  then obtain w where run: "uninstall example_install_host ''work'' installed_world = (w, Inr True)" by blast
  have "ih_user_units example_install_host = ''/u''" by (simp add: example_install_host_def)
  then have "iw_files w (unit_path ''/u'' (serve_unit_filename ''work'')) = None"
    and rest: "\<forall>p. p \<noteq> unit_path ''/u'' (serve_unit_filename ''work'') \<and> p \<noteq> unit_path ''/u'' (monitor_unit_filename ''work'')
      \<longrightarrow> iw_files w p = iw_files installed_world p"
    using uninstall_exact [OF example_project refl refl run] by simp_all
  moreover from rest have "iw_files w ''/etc/hosts'' = iw_files installed_world ''/etc/hosts''"
    by (simp add: unit_path_def serve_unit_filename_def monitor_unit_filename_def)
  ultimately show ?thesis using run by (simp add: installed_world_def)
qed


text \<open>
  The unit's command line is not quoted: a directory with a blank in its name gives the command one
  argument more than the three that follow the script.
\<close>

lemma exec_start_unquoted:
  "py_words (''/usr/bin/agent-runner'' @ '' serve --config '' @ ''/my projects/p/agent-runner.toml'') =
     [''/usr/bin/agent-runner'', ''serve'', ''--config'', ''/my'', ''projects/p/agent-runner.toml'']"
  by code_simp

end
