(* ===== verification/Plugin_Scan.thy ===== *)
theory Plugin_Scan
  imports Base "HOL-Library.Sublist"
begin

section \<open>Discovering plugins (\_plugin\_scan.py)\<close>

text \<open>
  The scan of \<open>sys.path\<close> for entry points. A parsed file is its sections, each a list of names and
  values; reading one may fail. The parse of a file is kept for the life of the process. The slow
  discovery of \<open>importlib.metadata\<close> is a parameter.
\<close>

type_synonym entry = "string \<times> string"
type_synonym ep_sections = "(string \<times> entry list) list"

record path_child =
  ch_name :: string
  ch_path :: string
  ch_has_file :: bool

text \<open>An entry of \<open>sys.path\<close>: its children in listing order, none where it is no directory.\<close>

type_synonym path_entry = "path_child list option"

definition name_suffix :: "string \<Rightarrow> string \<Rightarrow> bool" where
  "name_suffix ext name \<longleftrightarrow> suffix ext name \<and> length ext < length name"

definition info_children :: "path_child list \<Rightarrow> path_child list" where
  "info_children cs =
     filter (\<lambda>c. name_suffix ''.dist-info'' (ch_name c)) cs @ filter (\<lambda>c. name_suffix ''.egg-info'' (ch_name c)) cs"

definition entry_files :: "path_entry list \<Rightarrow> string list" where
  "entry_files path =
     map ch_path (filter ch_has_file (concat (map (\<lambda>e. case e of None \<Rightarrow> [] | Some cs \<Rightarrow> info_children cs) path)))"

subsection \<open>The cache of parsed files\<close>

type_synonym ep_cache = "string \<rightharpoonup> ep_sections"

definition parsed_by_group :: "(string \<Rightarrow> ep_sections res) \<Rightarrow> string \<Rightarrow> ep_cache \<Rightarrow> ep_cache \<times> ep_sections res" where
  "parsed_by_group parse p cache =
     (case cache p of
        Some s \<Rightarrow> (cache, Inr s)
      | None \<Rightarrow> (case parse p of Inl e \<Rightarrow> (cache, Inl e) | Inr s \<Rightarrow> (cache(p \<mapsto> s), Inr s)))"

subsection \<open>First found wins\<close>

record found =
  fo_out :: "entry list"
  fo_warned :: "(string \<times> string \<times> string) list"

definition nothing_found :: found where
  "nothing_found = \<lparr>fo_out = [], fo_warned = []\<rparr>"

text \<open>\<open>seen\<close> holds the names and values of \<open>out\<close>.\<close>

definition add_entry :: "entry \<Rightarrow> found \<Rightarrow> found" where
  "add_entry nv f =
     (case map_of (fo_out f) (fst nv) of
        None \<Rightarrow> f\<lparr>fo_out := fo_out f @ [nv]\<rparr>
      | Some winner \<Rightarrow>
          if winner \<noteq> snd nv then f\<lparr>fo_warned := fo_warned f @ [(fst nv, snd nv, winner)]\<rparr> else f)"

definition section_of :: "string \<Rightarrow> ep_sections \<Rightarrow> entry list" where
  "section_of grp s = (case map_of s grp of None \<Rightarrow> [] | Some es \<Rightarrow> es)"

fun scan_files :: "(string \<Rightarrow> ep_sections res) \<Rightarrow> string \<Rightarrow> string list \<Rightarrow> ep_cache \<Rightarrow> found \<Rightarrow> ep_cache \<times> found res" where
  "scan_files parse grp [] cache f = (cache, Inr f)"
| "scan_files parse grp (p # ps) cache f =
     (case parsed_by_group parse p cache of
        (cache', Inl e) \<Rightarrow> (cache', Inl e)
      | (cache', Inr s) \<Rightarrow> scan_files parse grp ps cache' (fold add_entry (section_of grp s) f))"

definition parse_entry_points_files ::
  "(string \<Rightarrow> ep_sections res) \<Rightarrow> path_entry list \<Rightarrow> string \<Rightarrow> ep_cache \<Rightarrow> ep_cache \<times> found res" where
  "parse_entry_points_files parse path grp cache = scan_files parse grp (entry_files path) cache nothing_found"

text \<open>\<open>scan_entry_points\<close>: any failure of the scan, or the switch, takes the slow discovery.\<close>

definition scan_entry_points ::
  "(string \<Rightarrow> entry list) \<Rightarrow> string option \<Rightarrow> (string \<Rightarrow> ep_sections res) \<Rightarrow> path_entry list \<Rightarrow> string \<Rightarrow> ep_cache
   \<Rightarrow> ep_cache \<times> entry list" where
  "scan_entry_points metadata discovery parse path grp cache =
     (if discovery = Some ''metadata'' then (cache, metadata grp)
      else case parse_entry_points_files parse path grp cache of
             (cache', Inr f) \<Rightarrow> (cache', fo_out f)
           | (cache', Inl e) \<Rightarrow> (cache', metadata grp))"

subsection \<open>The cache is not seen\<close>

definition coherent :: "(string \<Rightarrow> ep_sections res) \<Rightarrow> ep_cache \<Rightarrow> bool" where
  "coherent parse cache \<longleftrightarrow> (\<forall>p s. cache p = Some s \<longrightarrow> parse p = Inr s)"

lemma coherent_empty [simp]: "coherent parse Map.empty"
  by (simp add: coherent_def)

lemma parsed_by_group_coherent:
  assumes "coherent parse cache" "parsed_by_group parse p cache = (cache', r)"
  shows "coherent parse cache'" and "r = parse p"
  using assms by (auto simp: coherent_def parsed_by_group_def split: option.splits sum.splits if_splits)

text \<open>Without a cache: every file is parsed, up to the first failure.\<close>

definition plain_scan :: "(string \<Rightarrow> ep_sections res) \<Rightarrow> string \<Rightarrow> string list \<Rightarrow> found \<Rightarrow> found res" where
  "plain_scan parse grp ps f =
     res_bind (res_map parse ps) (\<lambda>ss. Inr (fold add_entry (concat (map (section_of grp) ss)) f))"

lemma scan_files_plain:
  assumes "coherent parse cache" "scan_files parse grp ps cache f = (cache', r)"
  shows "coherent parse cache' \<and> r = plain_scan parse grp ps f"
  using assms
proof (induction ps arbitrary: cache f)
  case Nil
  then show ?case by (simp add: plain_scan_def)
next
  case (Cons p ps)
  obtain c1 r1 where one: "parsed_by_group parse p cache = (c1, r1)" by fastforce
  note c = parsed_by_group_coherent [OF Cons.prems(1) one]
  show ?case
  proof (cases r1)
    case (Inl e)
    then show ?thesis using Cons.prems(2) one c by (auto simp: plain_scan_def)
  next
    case (Inr s)
    then have "scan_files parse grp ps c1 (fold add_entry (section_of grp s) f) = (cache', r)"
      using Cons.prems(2) one by simp
    moreover have "parse p = Inr s" using c(2) Inr by simp
    ultimately show ?thesis using Cons.IH [OF c(1)] by (cases "res_map parse ps") (auto simp: plain_scan_def)
  qed
qed

lemma fold_add_entry:
  assumes "distinct (map fst (fo_out f))"
  shows "distinct (map fst (fo_out (fold add_entry es f))) \<and>
    map_of (fo_out (fold add_entry es f)) = map_of (fo_out f @ es) \<and>
    (\<exists>more. fo_out (fold add_entry es f) = fo_out f @ more \<and> set more \<subseteq> set es)"
  using assms
proof (induction es arbitrary: f)
  case (Cons nv es)
  have d: "distinct (map fst (fo_out (add_entry nv f)))"
    using Cons.prems by (auto simp: add_entry_def map_of_eq_None_iff split: option.splits)
  have m: "map_of (fo_out (add_entry nv f)) = map_of (fo_out f @ [nv])"
    by (cases nv) (auto simp: add_entry_def map_add_def fun_eq_iff split: option.splits)
  have e: "\<exists>more. fo_out (add_entry nv f) = fo_out f @ more \<and> set more \<subseteq> {nv}"
    by (auto simp: add_entry_def split: option.splits)
  have "map_of (fo_out (add_entry nv f) @ es) = map_of (fo_out f @ nv # es)"
    using m by (simp add: map_add_assoc)
  then show ?case using Cons.IH [OF d] e by fastforce
qed simp

text \<open>Where every file parses, the scan lists each name of the group once, with the value of the first entry of the path that has it, nothing else, and the same whatever the cache has kept of earlier scans.\<close>

theorem scan_finds_first:
  assumes "coherent parse cache" "discovery \<noteq> Some ''metadata''" "res_map parse (entry_files path) = Inr ss"
    and "scan_entry_points metadata discovery parse path grp cache = (cache', out)"
  shows "coherent parse cache' \<and> distinct (map fst out)
    \<and> (\<forall>name. map_of out name = map_of (concat (map (section_of grp) ss)) name)
    \<and> set out \<subseteq> set (concat (map (section_of grp) ss))"
proof -
  obtain r where r: "scan_files parse grp (entry_files path) cache nothing_found = (cache', r)"
    using assms(2,4) by (auto simp: scan_entry_points_def parse_entry_points_files_def split: prod.splits sum.splits)
  note p = scan_files_plain [OF assms(1) r]
  then have "r = Inr (fold add_entry (concat (map (section_of grp) ss)) nothing_found)"
    using assms(3) by (simp add: plain_scan_def)
  then have o: "out = fo_out (fold add_entry (concat (map (section_of grp) ss)) nothing_found)"
    using assms(2,4) r by (simp add: scan_entry_points_def parse_entry_points_files_def)
  show ?thesis
    using fold_add_entry [of nothing_found "concat (map (section_of grp) ss)"] p o by (auto simp: nothing_found_def)
qed

text \<open>The switch, and any file that does not parse, give exactly the slow discovery.\<close>

theorem scan_falls_back:
  assumes "coherent parse cache" "discovery = Some ''metadata'' \<or> res_map parse (entry_files path) = Inl e"
  shows "snd (scan_entry_points metadata discovery parse path grp cache) = metadata grp"
proof (cases "discovery = Some ''metadata''")
  case False
  obtain c r where r: "scan_files parse grp (entry_files path) cache nothing_found = (c, r)" by fastforce
  have "r = Inl e" using scan_files_plain [OF assms(1) r] assms(2) False by (simp add: plain_scan_def)
  then show ?thesis using r False by (simp add: scan_entry_points_def parse_entry_points_files_def)
qed (simp add: scan_entry_points_def)

subsection \<open>Examples\<close>

definition example_path :: "path_entry list" where
  "example_path =
     [None, Some [\<lparr>ch_name = ''b.egg-info'', ch_path = ''b'', ch_has_file = True\<rparr>, \<lparr>ch_name = ''a.dist-info'', ch_path = ''a'', ch_has_file = True\<rparr>]]"

definition example_parse :: "string \<Rightarrow> ep_sections res" where
  "example_parse p = Inr [(''g'', [(''n'', p), (p, p)])]"

lemma example_entry_files: "entry_files example_path = [''a'', ''b'']"
  by code_simp

lemma scan_finds_first_witness:
  "\<exists>out. snd (scan_entry_points (\<lambda>_. []) None example_parse example_path ''g'' Map.empty) = out \<and> map_of out ''n'' = Some ''a''"
proof -
  let ?r = "scan_entry_points (\<lambda>_. []) None example_parse example_path ''g'' Map.empty"
  have ss: "res_map example_parse (entry_files example_path) =
      Inr [[(''g'', [(''n'', ''a''), (''a'', ''a'')])], [(''g'', [(''n'', ''b''), (''b'', ''b'')])]]"
    by (simp add: example_entry_files example_parse_def)
  have "?r = (fst ?r, snd ?r)" by simp
  from scan_finds_first [OF coherent_empty _ ss this] show ?thesis by (simp add: section_of_def)
qed

lemma scan_falls_back_witness:
  "snd (scan_entry_points (\<lambda>_. [(''m'', ''v'')]) None (\<lambda>_. Inl TypeError) example_path ''g'' Map.empty) = [(''m'', ''v'')]"
  by (rule scan_falls_back [OF coherent_empty]) (simp add: example_entry_files)

end
