(* ===== verification/Commands.thy ===== *)
theory Commands
  imports Text_Lines Serve_Policy "HOL-Library.Sublist"
begin

section \<open>The commands (cli/\_\_init\_\_.py, common.py, monitor\_cmd.py, peek\_cmd.py)\<close>

text \<open>
  What the dispatcher makes of the exception a command ends in, the loading of the configuration as
  the two supervised entry points do it, the choice of the monitor's mode and
  the watch loop. Argument parsing is argparse's.
\<close>

subsection \<open>Exceptions and exit codes\<close>

text \<open>An exception by what the handlers tell apart, with its text.\<close>

datatype cli_exn = ConfigProblem string | NotFound string | FileProblem string | TomlProblem string | KeyProblem string | Interrupted | OtherProblem string

definition problem_exc :: "cli_exn \<Rightarrow> exc" where
  "problem_exc e =
     \<lparr>ex_classes = (case e of ConfigProblem m \<Rightarrow> {ConfigErrorClass} | Interrupted \<Rightarrow> {KeyboardInterrupt} | _ \<Rightarrow> {}), ex_code = None\<rparr>"

datatype cli_end = Exits int | Escapes cli_exn

definition migrate_hint :: string where
  "migrate_hint = [line_feed] @ ''Run `agent-runner migrate` then retry.''"

definition config_error_text :: "string \<Rightarrow> string" where
  "config_error_text m =
     ''config error: '' @ m @ (if sublist ''agent-runner '' m then [] else migrate_hint)"

text \<open>\<open>main\<close>: the outcome of the command, none when no command is named; with what is printed to stderr.\<close>

definition main_end :: "(cli_exn + int) option \<Rightarrow> cli_end \<times> string list" where
  "main_end run =
     (case run of
        None \<Rightarrow> (Exits 1, [])
      | Some (Inr code) \<Rightarrow> (Exits code, [])
      | Some (Inl (ConfigProblem m)) \<Rightarrow>
          (Exits (classify_round_exit (problem_exc (ConfigProblem m))), [''agent-runner: '' @ config_error_text m])
      | Some (Inl Interrupted) \<Rightarrow> (Exits (classify_round_exit (problem_exc Interrupted)), [])
      | Some (Inl e) \<Rightarrow> (Escapes e, []))"

text \<open>\<open>cfg_from_args_or_config_error\<close>, over what \<open>cfg_from_args\<close> did.\<close>

definition cfg_or_config_error :: "cli_exn + 'c \<Rightarrow> cli_exn + 'c" where
  "cfg_or_config_error loaded =
     (case loaded of
        Inl (NotFound m) \<Rightarrow> Inl (ConfigProblem m)
      | Inl (FileProblem m) \<Rightarrow> Inl (ConfigProblem m)
      | Inl (TomlProblem m) \<Rightarrow> Inl (ConfigProblem m)
      | r \<Rightarrow> r)"

text \<open>A command that loads its configuration first.\<close>

definition with_config :: "(cli_exn + 'c) \<Rightarrow> ('c \<Rightarrow> cli_exn + int) \<Rightarrow> cli_exn + int" where
  "with_config loaded body = (case loaded of Inl e \<Rightarrow> Inl e | Inr cfg \<Rightarrow> body cfg)"

subsection \<open>monitor and watch\<close>

datatype monitor_mode = Anomaly | Narrate | EventStream | Http

record monitor_args =
  ma_mode :: monitor_mode
  ma_host :: "string option"
  ma_kind :: "string option"
  ma_remote_config :: "string option"

datatype monitor_choice = Detect | NarrateLog | StreamLog | Relay string "string list option" "string option" | ServePage

text \<open>\<open>--kind a,b\<close>: blanks stripped, empty names dropped; an empty option is no filter.\<close>

definition relay_kinds :: "string option \<Rightarrow> string list option" where
  "relay_kinds raw =
     (case raw of
        None \<Rightarrow> None
      | Some s \<Rightarrow> if s = [] then None else Some (filter (\<lambda>k. k \<noteq> []) (map py_strip (py_split (CHR '','') s))))"

definition monitor_cmd :: "monitor_args \<Rightarrow> monitor_choice option" where
  "monitor_cmd a =
     (if ma_host a \<noteq> None \<and> ma_mode a \<noteq> EventStream then None
      else if (ma_kind a \<noteq> None \<or> ma_remote_config a \<noteq> None) \<and> (ma_host a = None \<or> ma_mode a \<noteq> EventStream) then None
      else Some (case ma_mode a of
             Narrate \<Rightarrow> NarrateLog
           | Http \<Rightarrow> ServePage
           | Anomaly \<Rightarrow> Detect
           | EventStream \<Rightarrow> (case ma_host a of None \<Rightarrow> StreamLog
                               | Some h \<Rightarrow> Relay h (relay_kinds (ma_kind a)) (ma_remote_config a))))"

text \<open>\<open>cmd_peek\<close>, over what loading and peeking did.\<close>

definition cmd_peek :: "cli_exn + 'p \<Rightarrow> cli_exn + int" where
  "cmd_peek result =
     (case result of
        Inr p \<Rightarrow> Inr 0
      | Inl (KeyProblem m) \<Rightarrow> Inr 1
      | Inl (NotFound m) \<Rightarrow> Inr 1
      | Inl e \<Rightarrow> Inl e)"

text \<open>\<open>cmd_watch\<close>: each refresh is what the peek did and whether the sleep after it was interrupted.\<close>

fun cmd_watch :: "((cli_exn + 'p) \<times> bool) list \<Rightarrow> (cli_exn + int) option" where
  "cmd_watch [] = None"
| "cmd_watch ((result, interrupted) # rest) =
     (case cmd_peek result of
        Inl e \<Rightarrow> Some (Inl e)
      | Inr rc \<Rightarrow> if rc \<noteq> 0 then Some (Inr rc) else if interrupted then Some (Inr 0) else cmd_watch rest)"

subsection \<open>What they end in\<close>

text \<open>A serve or round whose configuration is missing, unreadable, no TOML or refused ends in exit code 78 with the reason, which is one of the codes the service unit does not restart on.\<close>

theorem config_failures_permanent:
  assumes "loaded = Inl (ConfigProblem m) \<or> loaded = Inl (NotFound m) \<or> loaded = Inl (FileProblem m) \<or> loaded = Inl (TomlProblem m)"
  shows "main_end (Some (with_config (cfg_or_config_error loaded) body)) = (Exits 78, [''agent-runner: '' @ config_error_text m])
    \<and> 78 \<in> set restart_prevent_exit_codes"
  using assms
  by (auto simp: cfg_or_config_error_def with_config_def main_end_def classify_round_exit_def problem_exc_def permanent_config_exit_def
      restart_prevent_exit_codes_def)

lemma config_failures_permanent_witness:
  "main_end (Some (with_config (cfg_or_config_error (Inl (TomlProblem ''x''))) (\<lambda>_. Inr 0))) =
     (Exits 78, [''agent-runner: '' @ config_error_text ''x''])"
  using config_failures_permanent [of "Inl (TomlProblem ''x'')" "''x''"] by blast

text \<open>Only a host with the event mode starts a relay; its own options are refused anywhere else.\<close>

text \<open>The monitor never runs a detector, a narration or a page on behalf of another host: with a host it relays that host's events or refuses.\<close>

theorem detection_stays_local:
  "(ma_host a \<noteq> None \<longrightarrow> monitor_cmd a \<noteq> Some Detect \<and> monitor_cmd a \<noteq> Some NarrateLog \<and> monitor_cmd a \<noteq> Some ServePage
      \<and> monitor_cmd a \<noteq> Some StreamLog)
   \<and> (\<forall>h ks c. monitor_cmd a = Some (Relay h ks c) \<longleftrightarrow>
        ma_mode a = EventStream \<and> ma_host a = Some h \<and> ks = relay_kinds (ma_kind a) \<and> c = ma_remote_config a)
   \<and> (ma_kind a \<noteq> None \<and> ma_host a = None \<longrightarrow> monitor_cmd a = None)"
  by (cases "ma_mode a"; cases "ma_host a") (auto simp: monitor_cmd_def)

lemma detection_stays_local_witness:
  "monitor_cmd \<lparr>ma_mode = Anomaly, ma_host = Some ''h'', ma_kind = None, ma_remote_config = None\<rparr> \<noteq> Some Detect"
  using detection_stays_local [of "\<lparr>ma_mode = Anomaly, ma_host = Some ''h'', ma_kind = None, ma_remote_config = None\<rparr>"] by simp

lemma kinds_named_nothing: "relay_kinds (Some '','') = Some []"
  by code_simp

lemma watch_ends:
  "cmd_watch obs = Some r \<Longrightarrow> r = Inr 0 \<Longrightarrow> \<exists>p. (Inr p, True) \<in> set obs"
proof (induction obs)
  case (Cons ob obs)
  then show ?case by (cases ob) (auto simp: cmd_peek_def split: sum.splits cli_exn.splits if_splits)
qed simp

end
