(* ===== verification/Spec2Isabelle.thy ===== *)
theory Spec2Isabelle
  imports
    Base
    Text_Lines
    Events
    Event_Log
    Schedule
    Throttle
    Config
    Phase_Select
    Host_Health
    Serve_Policy
    Spawn_Round
    Round_Outcome
    Serve_Round
    Plugin_Manifest
    Agent_Argv
    Agent_Runtime
    Serve_Gate
    Serve_Loop
    Monitor_Detect
    Monitor
    Config_Load
    Goal
    Exn_State
    Round_Log
    Context_Store
    Prompt
    Vcs_State
    Startup_Check
    Round_Runner
    Metrics
    Migrations
    Upgrade
    Service
    Agent_Plugins
    Doorbell
    Event_Query
    Config_Digest
    Remote_Relay
    Views
    Install
    Plugin_Scan
    Commands
begin

text \<open>
  A supervisor for command-line coding agents (src/agent\_runner): \<open>agent-runner serve\<close> runs
  rounds one after the other, each round a child process that runs the agent under a deadline,
  and keeps them within the limits of the host; a monitor watches the event log from outside.

  \<^bold>\<open>The parts and how they interact.\<close> Everything the parts tell each other goes through the
  event log, month files of JSON lines in the log directory. The supervisor's loop
  (cli/serve\_cmd.py) asks the gates (cli/\_serve\_round.py: throttle, memory, schedule) and the
  phase selection (phase\_select.py) what to launch, publishes an environment for the child,
  supervises it (cli/\_serve\_round.py: memory checks, soft brake, hard floor), folds the log
  into the outcome of the round (\_round\_outcome.py) and lets the restart policy
  (\_serve\_policy.py) decide the delay or the end. The child (runner.py) reads that
  environment back, passes the boot battery (startup\_check.py), takes the lock, assembles the
  prompt (prompt\_loader.py), runs the agent (agent\_runtime.py) and the goal checks (goal.py),
  resolves the dirty tree (vcs\_state.py), records the status (context\_store.py) and runs the
  hooks. The monitor (monitor.py,
  \_monitor\_detectors.py, \_observe.py) polls the log, yields alerts and may stop the service.
  The configuration (config/) is loaded once by either side.

  \<^bold>\<open>Theories.\<close>
  \<^item> Base: exceptions as values of a sum type, the fragment of Python's strings the sources use.
  \<^item> Events, Event\_Log: events.py, event\_log.py. Decoded field values, kinds and their registry,
    ISO timestamps, \<open>int\<close> and \<open>float\<close> of text, the month files, emission, the exactly-once tailer.
  \<^item> Schedule: schedule.py. Windows as arcs of the week, parsing, the next opening.
  \<^item> Throttle: \_throttle.py. Transient errors folded from the log, the back-off ladder, the view
    shown to the operator, the breadcrumbs, the interruptible sleep.
  \<^item> Config, Config\_Load: config/. The record types, every parser and validator, the loader and
    the refusals at boot.
  \<^item> Phase\_Select: phase\_select.py. Rotation, the candidates, overlaps of phase windows.
  \<^item> Host\_Health: host\_health.py. The ladder from a memory sample to a verdict.
  \<^item> Serve\_Policy, Round\_Outcome, Serve\_Round: \_serve\_policy.py, \_round\_outcome.py and
    cli/\_serve\_round.py after a round: the outcome, the breakers, the give-up events, the memory gate.
  \<^item> Spawn\_Round: cli/\_serve\_round.py during a round: the supervised wait.
  \<^item> Serve\_Gate, Serve\_Loop: the gates of cli/\_serve\_round.py, and cli/serve\_cmd.py as one loop over the
    rounds of a run.
  \<^item> Plugin\_Manifest: \_plugin\_manifest.py, hooks.py, \_registry.py, the loader.
  \<^item> Agent\_Argv, Agent\_Runtime: agent\_runtime.py. The argv and container part; the poll loop with
    its ceiling, marker scan, grace kill and heartbeat, and the reap of group and strays.
  \<^item> Monitor\_Detect, Monitor: the detectors, a poll, the auto-stop, the alert generator.
  \<^item> Goal: goal.py, \_bounded.py. Goal checks under a deadline, the treadmill assessment, the
    lessons ledger, the advisory fold of the runner.
  \<^item> Exn\_State: the prelude of operations on a state that may raise, with the logic the proofs about
    git and the round use.
  \<^item> Round\_Log: round\_log.py. Pruning both families of logs, the number of the next round.
  \<^item> Context\_Store: context\_store.py. The atomic write, the status and the orphan record.
  \<^item> Prompt: prompt\_loader.py, \_round\_support.py. Front matter, the files of a phase, the prompt.
  \<^item> Vcs\_State: vcs\_state.py over git as a parameter. Status parsing, stash, auto-commit, the
    outcome of a dirty tree.
  \<^item> Startup\_Check: startup\_check.py. Every check of the boot battery and its exit code.
  \<^item> Round\_Runner: runner.py, cli/round\_cmd.py. What the child takes from the environment, the
    sequence of a round with everything in it that may raise, hooks, lock and exit code.

  \<^item> Text\_Lines: the prelude of lines and words of a text.
  \<^item> Metrics: metrics.py. Pressure files, the cgroup limits and who sets them, the memory.high brake.
  \<^item> Migrations, Upgrade: migrations.py, cli/migrate\_cmd.py, cli/upgrade\_cmd.py. The rewrites of an
    old configuration text, the passes up to their fixpoint, and the upgrade with its rollback over
    what pip, the smoke checks and the service manager answer.
  \<^item> Service: lifecycle.py, \_lifecycle.py, \_resolve.py. The verbs beside a live supervisor, over a host
    whose answers depend on all that was done so far.
  \<^item> Install: service\_unit.py, \_install.py, scaffold.py. The unit files, install, uninstall, init.
  \<^item> Agent\_Plugins: builtin\_plugins/. What each vendor's output is read as, and the events it writes.
  \<^item> Doorbell: \_notify.py, \_procwait.py. The wake-up pipe as interleaved system calls of one listener
    and any number of ringers, and the wait for the child's exit.
  \<^item> Event\_Query: cli/events\_cmd.py. Filters, replay from a moment and the hand-over to the tailer.
  \<^item> Config\_Digest: config/digest.py. The digest of a round's configuration and its change flag.
  \<^item> Remote\_Relay: remote\_relay.py. The reconnecting loop over ssh and its resume point.
  \<^item> Views: http\_progress.py, round\_view.py, the selections of \_observe.py. The progress page, its
    escaping, the narration line, the view of one round.
  \<^item> Plugin\_Scan: \_plugin\_scan.py. Discovery along the path, its cache and its fallback.
  \<^item> Commands: cli/\_\_init\_\_.py and the commands that only dispatch.

  \<^bold>\<open>Correspondence.\<close> A dataclass is a record, an enum a datatype, an exception a value \<open>Inl\<close> of a
  result, a dict a map (an association list where its order matters). Python's integers are
  \<open>int\<close>. Floats are exact reals: rounding is not modelled, overflow to infinity is. Strings are
  lists of Latin-1 characters. The clock is read explicitly: a function that reads it takes the
  readings. What a loop observes of its environment (polls, waits, samples, exits) is a list it
  consumes; \<open>None\<close> is the result of running out of observations, and the theorems on endings say
  which observations end the loop. Functions of the host (time zones, the matching of an
  operator's regular expression, path resolution, JSON decoding) are parameters.

  \<^bold>\<open>What the lemmas show.\<close> The properties C1 to C40 stand in the theory of the component they
  are about, each behind the text that states it; the theorems beside them that carry no number are
  the further results of that component. Invariants of state: the registries of plugins, the
  throttle views, the dedup set of the monitor, what a round leaves on every path. Refinements of an
  abstract contract: the monitor against episodes, the ledger against its blocks. Equivalences:
  window membership against arcs, the one-scan outcome against the separate scans, the crash breaker
  against its history, the plugin scan against first-wins look-up. Exactness of decisions: what may
  launch, what the exit code means, when an advisory or an alert fires. Safety of what acts on the
  host: whom the verbs signal, which files an install, an init or an uninstall touch, that no content
  becomes markup of the page. Locales state the contracts the properties rest on and are interpreted
  on the model's own definitions.

  \<^bold>\<open>Bounds.\<close> No model adds fuel of its own: a bounded loop takes the bound of the code (the passes
  of a migration), every other loop consumes its data or a list of observations.

  \<^bold>\<open>Not modelled.\<close> The text of messages for the operator beyond what a property needs; the JSON and
  text rendering of reports, the doctor report and the defense table; argument parsing, document
  generation, the generated event wrappers beyond the payloads a reader decides on; the redaction
  patterns (ten regular expressions), which are a parameter where text passes through them; the
  substrate fingerprint; and the stand-alone experiment scripts under examples/, which the supervisor
  never runs.
\<close>

end
